(* ===== verification/Prelude.thy ===== *)
theory Prelude
  imports Main "HOL-Library.Word"
begin

text \<open>
  Shared vocabulary of the development: the C integer types of
  \<^verbatim>\<open>include/tk/typedef.h\<close>, the error codes of \<^verbatim>\<open>include/tk/errno.h\<close>, the object
  limits of \<^verbatim>\<open>config/config.h\<close> and \<^verbatim>\<open>include/sys/knldef.h\<close>, the attribute bits of
  \<^verbatim>\<open>include/tk/syscall.h\<close>, the fact collections of the library, and the generic list
  and word lemmas that several components use.

  Signed C integers are \<^typ>\<open>int\<close>; the places where the kernel computes with them are
  guarded, and the component invariants show that every stored value stays inside the C range.
  Bit patterns, attributes and absolute times are words of their C width.
\<close>

section \<open>C types\<close>

type_synonym addr = nat
type_synonym ID = int
type_synonym ER = int
type_synonym PRI = int
type_synonym TMO = int
type_synonym ATR = "32 word"
type_synonym UINT = "32 word"
type_synonym UW = "32 word"
type_synonym RELTIM = "32 word"
type_synonym ABSTIM = "32 word"
type_synonym LSYSTIM = "64 word"

section \<open>Fact collections\<close>

named_theorems consts_defs \<open>numeric values of the configuration constants\<close>
named_theorems kdefs \<open>definitions of the small kernel primitives\<close>
named_theorems frame \<open>what an operation leaves unchanged\<close>

unbundle bit_operations_syntax

section \<open>Constants\<close>

text \<open>Error codes (\<^verbatim>\<open>errno.h\<close>, the branch without sub-error codes).\<close>

definition E_OK :: ER where [consts_defs]: "E_OK = 0"
definition E_SYS :: ER where [consts_defs]: "E_SYS = -5"
definition E_NOSPT :: ER where [consts_defs]: "E_NOSPT = -9"
definition E_RSATR :: ER where [consts_defs]: "E_RSATR = -11"
definition E_PAR :: ER where [consts_defs]: "E_PAR = -17"
definition E_ID :: ER where [consts_defs]: "E_ID = -18"
definition E_CTX :: ER where [consts_defs]: "E_CTX = -25"
definition E_ILUSE :: ER where [consts_defs]: "E_ILUSE = -28"
definition E_NOMEM :: ER where [consts_defs]: "E_NOMEM = -33"
definition E_LIMIT :: ER where [consts_defs]: "E_LIMIT = -34"
definition E_OBJ :: ER where [consts_defs]: "E_OBJ = -41"
definition E_NOEXS :: ER where [consts_defs]: "E_NOEXS = -42"
definition E_QOVR :: ER where [consts_defs]: "E_QOVR = -43"
definition E_RLWAI :: ER where [consts_defs]: "E_RLWAI = -49"
definition E_TMOUT :: ER where [consts_defs]: "E_TMOUT = -50"
definition E_DLT :: ER where [consts_defs]: "E_DLT = -51"

text \<open>Object limits (\<^verbatim>\<open>config.h\<close>): numbers of control blocks and of priorities.\<close>

definition NUM_TSKPRI :: nat where [consts_defs]: "NUM_TSKPRI = 32"
definition MIN_TSKPRI :: int where [consts_defs]: "MIN_TSKPRI = 1"
definition MAX_TSKPRI :: int where [consts_defs]: "MAX_TSKPRI = 32"
definition NUM_TSKID :: nat where [consts_defs]: "NUM_TSKID = 64"
definition NUM_SEMID :: nat where [consts_defs]: "NUM_SEMID = 128"
definition NUM_FLGID :: nat where [consts_defs]: "NUM_FLGID = 32"
definition NUM_MBXID :: nat where [consts_defs]: "NUM_MBXID = 8"
definition NUM_MTXID :: nat where [consts_defs]: "NUM_MTXID = 64"
definition NUM_MBFID :: nat where [consts_defs]: "NUM_MBFID = 32"
definition TIMER_PERIOD :: nat where [consts_defs]: "TIMER_PERIOD = 1"
definition INT_MAX :: int where [consts_defs]: "INT_MAX = 2147483647"

text \<open>Timeouts and special identifiers.\<close>

definition TMO_POL :: TMO where [consts_defs]: "TMO_POL = 0"
definition TMO_FEVR :: TMO where [consts_defs]: "TMO_FEVR = -1"
definition TSK_SELF :: ID where [consts_defs]: "TSK_SELF = 0"
definition TPRI_INI :: PRI where [consts_defs]: "TPRI_INI = 0"
definition TPRI_RUN :: PRI where [consts_defs]: "TPRI_RUN = 0"

text \<open>Attribute bits (\<^verbatim>\<open>syscall.h\<close>).\<close>

definition TA_HLNG :: ATR where [consts_defs]: "TA_HLNG = 0x1"
definition TA_USERBUF :: ATR where [consts_defs]: "TA_USERBUF = 0x20"
definition TA_RNG3 :: ATR where [consts_defs]: "TA_RNG3 = 0x300"
definition TA_TFIFO :: ATR where [consts_defs]: "TA_TFIFO = 0"
definition TA_TPRI :: ATR where [consts_defs]: "TA_TPRI = 1"
definition TA_CNT :: ATR where [consts_defs]: "TA_CNT = 2"
definition TA_INHERIT :: ATR where [consts_defs]: "TA_INHERIT = 2"
definition TA_CEILING :: ATR where [consts_defs]: "TA_CEILING = 3"
definition TA_WMUL :: ATR where [consts_defs]: "TA_WMUL = 8"
definition TA_MPRI :: ATR where [consts_defs]: "TA_MPRI = 2"
definition TWF_ORW :: UINT where [consts_defs]: "TWF_ORW = 0x1"
definition TWF_CLR :: UINT where [consts_defs]: "TWF_CLR = 0x10"
definition TWF_BITCLR :: UINT where [consts_defs]: "TWF_BITCLR = 0x20"

section \<open>Generic lemmas\<close>

text \<open>
  Removing an entry from a queue that holds each entry at most once.
\<close>

lemma distinct_remove1_mid:
  "distinct (xs @ e # ys) \<Longrightarrow> remove1 e (xs @ e # ys) = xs @ ys"
  by (induction xs) auto

lemma set_remove1_distinct [simp]:
  "distinct xs \<Longrightarrow> set (remove1 e xs) = set xs - {e}"
  by (rule set_remove1_eq)

lemma removeAll_notin [simp]: "e \<notin> set xs \<Longrightarrow> removeAll e xs = xs"
  by (rule removeAll_id)

lemma hd_append_nonempty: "xs \<noteq> [] \<Longrightarrow> hd (xs @ ys) = hd xs"
  by simp

text \<open>
  Ordered insertion behind all entries with a smaller or equal key: the loop shared by the
  prioritised wait queue (\<^verbatim>\<open>knl_queue_insert_tpri\<close>), the message queue
  (\<^verbatim>\<open>knl_queue_insert_mpri\<close>) and the timer queue (\<^verbatim>\<open>knl_enqueue_tmeb\<close>).
\<close>

fun insert_before :: "('a \<Rightarrow> bool) \<Rightarrow> 'a \<Rightarrow> 'a list \<Rightarrow> 'a list" where
  "insert_before P e [] = [e]"
| "insert_before P e (x # xs) = (if P x then e # x # xs else x # insert_before P e xs)"

lemma set_insert_before [simp]: "set (insert_before P e xs) = insert e (set xs)"
  by (induction xs) auto

lemma insert_before_nonempty [simp]: "insert_before P e xs \<noteq> []"
  by (cases xs) auto

lemma distinct_insert_before [simp]:
  "distinct (insert_before P e xs) \<longleftrightarrow> e \<notin> set xs \<and> distinct xs"
  by (induction xs) auto

lemma insert_before_split:
  "insert_before P e xs = takeWhile (\<lambda>x. \<not> P x) xs @ e # dropWhile (\<lambda>x. \<not> P x) xs"
  by (induction xs) auto

lemma sorted_insert_before:
  fixes k :: "'a \<Rightarrow> 'b::linorder"
  assumes "sorted (map k xs)"
  shows "sorted (map k (insert_before (\<lambda>x. k e < k x) e xs))"
  using assms
proof (induction xs)
  case (Cons x xs)
  then show ?case by (cases "k e < k x") (auto intro: order.trans less_imp_le)
qed simp

text \<open>Single bits of a word, as the kernel sets and clears them.\<close>

lemma bit_set_iff [simp]:
  "bit (w OR (2::32 word) ^ p) q \<longleftrightarrow> bit w q \<or> (p = q \<and> q < 32)"
  by (auto simp: bit_or_iff bit_exp_iff dest: bit_imp_le_length)

lemma bit_clr_iff [simp]:
  "bit (w AND NOT ((2::32 word) ^ p)) q \<longleftrightarrow> bit w q \<and> p \<noteq> q"
  by (auto simp: bit_and_iff bit_not_iff bit_exp_iff dest: bit_imp_le_length)

lemma bit_test_iff [simp]:
  "w AND (2::32 word) ^ p = 0 \<longleftrightarrow> \<not> bit w p"
proof
  assume "w AND 2 ^ p = 0"
  then have "\<not> bit (w AND 2 ^ p) p" by simp
  then show "\<not> bit w p"
    by (auto simp: bit_and_iff bit_exp_iff dest: bit_imp_le_length)
next
  assume "\<not> bit w p"
  then show "w AND 2 ^ p = 0"
    by (intro bit_eqI) (auto simp: bit_and_iff bit_exp_iff)
qed

text \<open>Rounding down to a multiple of a power of two, and words that are not negative.\<close>

lemma and_not_mask_div: "uint (w AND NOT (mask k) :: 32 word) = uint w div 2 ^ k * 2 ^ k"
proof -
  have *: "w AND NOT (mask k) = push_bit k (drop_bit k w)"
    by (rule bit_word_eqI) (auto simp: bit_simps)
  have b: "uint w div 2 ^ k * 2 ^ k \<le> uint w" "uint w < 2 ^ 32" "0 \<le> uint w"
    using uint_bounded[of w] by (simp_all add: minus_mod_eq_div_mult[symmetric])
  have t: "take_bit 32 (uint w div 2 ^ k * 2 ^ k) = uint w div 2 ^ k * 2 ^ k"
    by (rule take_bit_int_eq_self) (use b in \<open>auto simp: pos_imp_zdiv_nonneg_iff\<close>)
  have "uint (push_bit k (drop_bit k w)) = take_bit 32 (uint w div 2 ^ k * 2 ^ k)"
    unfolding unsigned_push_bit_eq unsigned_drop_bit_eq using b(2,3)
    by (simp add: drop_bit_eq_div push_bit_eq_mult take_bit_int_eq_self)
  then show ?thesis unfolding * t .
qed

lemma sint_below: "uint (w :: 32 word) < 2 ^ 31 \<Longrightarrow> sint w = uint w"
  using order_trans[OF _ uint_ge_0[of w], of "- 2147483648"]
  by (simp add: sint_uint signed_take_bit_int_eq_self_iff)

lemmas shift_one = push_bit_of_1

end
