(* ===== verification/Queue_Ring.thy ===== *)
theory Queue_Ring
  imports Prelude
begin

text \<open>
  The intrusive double-link ring of \<^verbatim>\<open>include/sys/queue.h\<close>, on which every queue of the
  kernel is built: the five operations at the level of the \<^verbatim>\<open>next\<close> and \<^verbatim>\<open>prev\<close>
  pointers, the ring predicate that relates a heap to the list of entries behind a queue head, and
  the proof that the pointer operations implement the list operations. The locale
  \<open>task_queue\<close> states the contract the rest of the kernel relies on; it is interpreted here
  on the pointer operations and, in \<open>Kernel_State\<close>, on the queues of the kernel model, which
  are lists.
\<close>

section \<open>The ring of pointers\<close>

record QUEUE =
  q_next :: addr
  q_prev :: addr

type_synonym qheap = "addr \<Rightarrow> QUEUE"

definition set_next :: "addr \<Rightarrow> addr \<Rightarrow> qheap \<Rightarrow> qheap" where
  [kdefs]: "set_next a v h = h(a := (h a)\<lparr>q_next := v\<rparr>)"

definition set_prev :: "addr \<Rightarrow> addr \<Rightarrow> qheap \<Rightarrow> qheap" where
  [kdefs]: "set_prev a v h = h(a := (h a)\<lparr>q_prev := v\<rparr>)"

definition QueInit :: "addr \<Rightarrow> qheap \<Rightarrow> qheap" where
  "QueInit que h = set_prev que que (set_next que que h)"

definition isQueEmpty :: "addr \<Rightarrow> qheap \<Rightarrow> bool" where
  "isQueEmpty que h \<longleftrightarrow> q_next (h que) = que"

definition QueInsert :: "addr \<Rightarrow> addr \<Rightarrow> qheap \<Rightarrow> qheap" where
  "QueInsert entry que h =
     (let h1 = set_prev entry (q_prev (h que)) h;
          h2 = set_next entry que h1;
          h3 = set_next (q_prev (h2 que)) entry h2
      in set_prev que entry h3)"

definition QueRemove :: "addr \<Rightarrow> qheap \<Rightarrow> qheap" where
  "QueRemove entry h =
     (if q_next (h entry) \<noteq> entry then
        let h1 = set_next (q_prev (h entry)) (q_next (h entry)) h
        in set_prev (q_next (h1 entry)) (q_prev (h1 entry)) h1
      else h)"

definition QueRemoveNext :: "addr \<Rightarrow> qheap \<Rightarrow> addr option \<times> qheap" where
  "QueRemoveNext que h =
     (if q_next (h que) = que then (None, h)
      else let entry = q_next (h que);
               h1 = set_next que (q_next (h entry)) h
           in (Some entry, set_prev (q_next (h1 entry)) que h1))"

section \<open>The ring predicate\<close>

text \<open>
  \<open>links h xs\<close>: consecutive nodes of \<open>xs\<close> are linked both ways. A ring is a
  cyclic path through pairwise distinct nodes; \<open>ring h que xs\<close> says that the entries behind
  the head \<open>que\<close> are exactly \<open>xs\<close>, in queue order.
\<close>

fun links :: "qheap \<Rightarrow> addr list \<Rightarrow> bool" where
  "links h (a # b # xs) \<longleftrightarrow> q_next (h a) = b \<and> q_prev (h b) = a \<and> links h (b # xs)"
| "links h _ \<longleftrightarrow> True"

definition cycle :: "qheap \<Rightarrow> addr list \<Rightarrow> bool" where
  "cycle h xs \<longleftrightarrow> distinct xs \<and> links h (xs @ [hd xs])"

definition ring :: "qheap \<Rightarrow> addr \<Rightarrow> addr list \<Rightarrow> bool" where
  "ring h que xs \<longleftrightarrow> cycle h (que # xs)"

lemma links_append:
  "links h (xs @ a # ys) \<longleftrightarrow> links h (xs @ [a]) \<and> links h (a # ys)"
proof (induction xs)
  case (Cons x xs)
  then show ?case by (cases xs) auto
qed simp

lemma links_frame:
  assumes "\<And>a. a \<in> set xs \<Longrightarrow> h' a = h a"
  shows "links h' xs = links h xs"
  using assms by (induction h xs rule: links.induct) auto

lemma links_frame_next:
  "a \<notin> set xs \<Longrightarrow> links (set_next a v h) (xs @ [b]) = links h (xs @ [b])"
proof (induction xs)
  case (Cons x xs)
  then show ?case by (cases xs) (auto simp: set_next_def)
qed simp

lemma links_frame_prev:
  "a \<notin> set xs \<Longrightarrow> links (set_prev a v h) (b # xs) = links h (b # xs)"
  by (induction xs arbitrary: b) (auto simp: set_prev_def)

lemma links_frame_prev_hd:
  "a \<notin> set xs \<Longrightarrow> links (set_prev a v h) (a # xs) = links h (a # xs)"
  by (rule links_frame_prev)

lemma cycle_rotate1: "cycle h (x # xs) \<longleftrightarrow> cycle h (xs @ [x])"
proof (cases xs)
  case (Cons y ys)
  have "links h (x # y # ys @ [x]) \<longleftrightarrow> links h (y # ys @ [x, y])"
    using links_append[of h "y # ys" x "[y]"] by auto
  with Cons show ?thesis by (auto simp: cycle_def)
qed simp

lemma cycle_rotate: "cycle h (xs @ ys) \<longleftrightarrow> cycle h (ys @ xs)"
proof (induction xs arbitrary: ys)
  case (Cons x xs)
  have "cycle h (x # xs @ ys) \<longleftrightarrow> cycle h (xs @ ys @ [x])"
    using cycle_rotate1[of h x "xs @ ys"] by simp
  also have "\<dots> \<longleftrightarrow> cycle h ((ys @ [x]) @ xs)" by (rule Cons.IH)
  finally show ?case by simp
qed simp

lemma cycle_frame:
  assumes "\<And>a. a \<in> set xs \<Longrightarrow> h' a = h a" "xs \<noteq> []"
  shows "cycle h' xs = cycle h xs"
proof -
  have "links h' (xs @ [hd xs]) = links h (xs @ [hd xs])"
    by (rule links_frame) (use assms in auto)
  then show ?thesis by (simp add: cycle_def)
qed

lemma ring_frame:
  "(\<And>a. a \<in> set (que # xs) \<Longrightarrow> h' a = h a) \<Longrightarrow> ring h' que xs = ring h que xs"
  unfolding ring_def by (rule cycle_frame) auto

text \<open>Only the nodes of the ring are read, so a head determines its entries.\<close>

lemma links_unique:
  assumes "links h (a # xs @ [q])" "links h (a # ys @ [q])" "q \<notin> set xs" "q \<notin> set ys"
  shows "xs = ys"
  using assms
proof (induction xs arbitrary: a ys)
  case Nil
  then show ?case by (cases ys) auto
next
  case (Cons x xs)
  then show ?case by (cases ys) auto
qed

lemma ring_unique: "ring h que xs \<Longrightarrow> ring h que ys \<Longrightarrow> xs = ys"
  by (auto simp: ring_def cycle_def intro: links_unique)

section \<open>The operations on rings\<close>

lemma QueInsert_unfold:
  "e \<noteq> q \<Longrightarrow> QueInsert e q h =
     set_prev q e (set_next (q_prev (h q)) e (set_next e q (set_prev e (q_prev (h q)) h)))"
  by (simp add: QueInsert_def Let_def kdefs)

lemma cycle_insert:
  assumes c: "cycle h (q # xs)" and e: "e \<noteq> q" "e \<notin> set xs"
  shows "cycle (QueInsert e q h) (q # xs @ [e])"
proof -
  obtain zs p where zs: "q # xs = zs @ [p]" by (metis append_Cons append_butlast_last_id list.discI)
  have eq: "q # xs @ [q] = zs @ p # [q]" using zs by (metis append.assoc append_Cons append_Nil)
  from c have d: "distinct (q # xs)" and "links h (zs @ p # [q])"
    unfolding eq[symmetric] by (simp_all add: cycle_def)
  then have l: "links h (q # xs)" and qp: "q_prev (h q) = p"
    using links_append[of h zs p "[q]"] by (simp_all add: zs)
  let ?h = "QueInsert e q h"
  from d zs have p: "p \<notin> set zs" by (metis distinct_append not_distinct_conv_prefix)
  have pe: "p \<noteq> e" "e \<notin> set zs" using e zs by (metis in_set_conv_decomp set_ConsD,
      metis Un_iff set_ConsD set_append)
  have "links ?h (q # xs) = links h (q # xs)"
    using d e p pe unfolding QueInsert_unfold[OF e(1)] qp
    by (simp add: links_frame_prev) (simp add: zs links_frame_next, simp add: links_frame_prev flip: zs)
  moreover have "links ?h [p, e, q]"
    unfolding QueInsert_unfold[OF e(1)] qp using e pe by (auto simp: kdefs)
  ultimately have "links ?h (zs @ p # [e, q])"
    using l zs links_append[of ?h zs p "[e, q]"] by simp
  then have "links ?h (q # xs @ [e, q])" using eq by (metis append.assoc append_Cons append_Nil zs)
  with d e show ?thesis by (simp add: cycle_def)
qed

lemma cycle_remove:
  assumes c: "cycle h (e # q # xs)"
  shows "cycle (QueRemove e h) (q # xs)"
proof -
  obtain zs p where zs: "q # xs = zs @ [p]" by (metis append_Cons append_butlast_last_id list.discI)
  have eq: "q # xs @ [e] = zs @ p # [e]" using zs by (metis append.assoc append_Cons append_Nil)
  from c have d: "distinct (e # q # xs)" and l: "links h (e # zs @ p # [e])"
    unfolding eq[symmetric] by (simp_all add: cycle_def)
  from l have l2: "links h (q # xs)" and ep: "q_prev (h e) = p"
    using links_append[of h "e # zs" p "[e]"] by (cases zs; simp add: zs)+
  from c have en: "q_next (h e) = q" by (simp add: cycle_def)
  from d have q: "q \<noteq> e" "q \<notin> set xs" by auto
  from d have p: "p \<notin> set zs" "p \<noteq> e" unfolding zs by auto
  have u: "QueRemove e h = set_prev q p (set_next p q h)"
    using p q en ep by (simp add: QueRemove_def Let_def kdefs)
  have "links (QueRemove e h) (q # xs) = links h (q # xs)"
    using p q unfolding u by (simp add: links_frame_prev) (simp add: zs links_frame_next)
  moreover have "links (QueRemove e h) [p, q]"
    unfolding u by (simp add: kdefs)
  ultimately have "links (QueRemove e h) (zs @ p # [q])"
    using l2 zs links_append[of "QueRemove e h" zs p "[q]"] by simp
  then have "links (QueRemove e h) (q # xs @ [q])" by (metis append.assoc append_Cons append_Nil zs)
  with d show ?thesis by (simp add: cycle_def)
qed

lemma ring_init: "ring (QueInit q h) q []"
  by (simp add: ring_def cycle_def QueInit_def kdefs)

lemma ring_empty_iff: "ring h q xs \<Longrightarrow> isQueEmpty q h \<longleftrightarrow> xs = []"
  by (cases xs) (auto simp: ring_def cycle_def isQueEmpty_def)

text \<open>Insertion before the head appends; insertion before an entry puts the new one in front of it.\<close>

lemma ring_insert:
  "ring h q xs \<Longrightarrow> e \<noteq> q \<Longrightarrow> e \<notin> set xs \<Longrightarrow> ring (QueInsert e q h) q (xs @ [e])"
  unfolding ring_def by (rule cycle_insert)

lemma ring_insert_before:
  assumes "ring h q (xs @ x # ys)" "e \<noteq> q" "e \<notin> set (xs @ x # ys)"
  shows "ring (QueInsert e x h) q (xs @ e # x # ys)"
proof -
  have "cycle h (x # ys @ q # xs)"
    using assms(1) cycle_rotate[of h "q # xs" "x # ys"] by (simp add: ring_def)
  then have "cycle (QueInsert e x h) ((x # ys) @ q # xs @ [e])"
    using cycle_insert[of h x "ys @ q # xs" e] assms by auto
  then show ?thesis
    using cycle_rotate[of "QueInsert e x h" "x # ys" "q # xs @ [e]"] by (simp add: ring_def)
qed

lemma ring_remove:
  assumes "ring h q (xs @ e # ys)"
  shows "ring (QueRemove e h) q (xs @ ys)"
proof -
  have c: "cycle h (e # ys @ q # xs)"
    using assms cycle_rotate[of h "q # xs" "e # ys"] by (simp add: ring_def)
  then have "cycle (QueRemove e h) (ys @ q # xs)"
    by (cases ys) (auto dest: cycle_remove)
  then show ?thesis
    using cycle_rotate[of "QueRemove e h" ys "q # xs"] by (simp add: ring_def)
qed

lemma QueRemove_singleton: "ring h e [] \<Longrightarrow> QueRemove e h = h"
  by (simp add: ring_def cycle_def QueRemove_def)

lemma QueRemoveNext_eq:
  assumes "ring h q (x # xs)"
  shows "QueRemoveNext q h = (Some x, QueRemove x h)"
  using assms by (auto simp: ring_def cycle_def QueRemoveNext_def QueRemove_def Let_def kdefs)

lemma ring_remove_next:
  "ring h q (x # xs) \<Longrightarrow> ring (snd (QueRemoveNext q h)) q xs"
  using ring_remove[of h q "[]" x xs] by (simp add: QueRemoveNext_eq)

lemma QueRemoveNext_empty: "ring h q [] \<Longrightarrow> QueRemoveNext q h = (None, h)"
  by (simp add: ring_def cycle_def QueRemoveNext_def)

text \<open>Rings over disjoint nodes do not disturb each other.\<close>

lemma ring_prev_in: "ring h q xs \<Longrightarrow> q_prev (h q) \<in> set (q # xs)"
proof (cases xs rule: rev_cases)
  case (snoc ys y)
  moreover assume "ring h q xs"
  ultimately show ?thesis
    using links_append[of h "q # ys" y "[q]"] by (auto simp: ring_def cycle_def)
qed (auto simp: ring_def cycle_def)

lemma ring_insert_other:
  assumes "ring h q xs" "ring h r zs" "set (r # zs) \<inter> insert e (set (q # xs)) = {}"
  shows "ring (QueInsert e q h) r zs"
proof -
  have "QueInsert e q h a = h a" if "a \<in> set (r # zs)" for a
  proof -
    have "a \<noteq> e" "a \<noteq> q" "a \<noteq> q_prev (h q)" "a \<noteq> q_prev (h e) \<or> e \<noteq> q"
      using that assms(3) ring_prev_in[OF assms(1)] by auto
    then show ?thesis by (cases "e = q") (auto simp: QueInsert_def Let_def kdefs)
  qed
  with assms(2) show ?thesis using ring_frame[of r zs "QueInsert e q h" h] by auto
qed

section \<open>The queue contract\<close>

text \<open>
  What the kernel relies on: a queue head \<open>q\<close> holds a list of entries; insertion appends,
  removal takes one entry out wherever it stands, removing the next entry pops the front.
\<close>

locale task_queue =
  fixes contents :: "'h \<Rightarrow> 'q \<Rightarrow> 'e list \<Rightarrow> bool"
    and valid :: "'q \<Rightarrow> 'e \<Rightarrow> bool"
    and init :: "'q \<Rightarrow> 'h \<Rightarrow> 'h"
    and ins :: "'e \<Rightarrow> 'q \<Rightarrow> 'h \<Rightarrow> 'h"
    and del :: "'e \<Rightarrow> 'h \<Rightarrow> 'h"
    and pop :: "'q \<Rightarrow> 'h \<Rightarrow> 'e option \<times> 'h"
  assumes contents_init: "contents (init q h) q []"
    and contents_distinct: "contents h q xs \<Longrightarrow> distinct xs"
    and contents_ins: "contents h q xs \<Longrightarrow> valid q e \<Longrightarrow> e \<notin> set xs \<Longrightarrow>
          contents (ins e q h) q (xs @ [e])"
    and contents_del: "contents h q (xs @ e # ys) \<Longrightarrow> contents (del e h) q (xs @ ys)"
    and pop_Nil: "contents h q [] \<Longrightarrow> pop q h = (None, h)"
    and pop_Cons: "contents h q (x # xs) \<Longrightarrow> fst (pop q h) = Some x"
    and contents_pop: "contents h q (x # xs) \<Longrightarrow> contents (snd (pop q h)) q xs"
begin

primrec ins_all :: "'e list \<Rightarrow> 'q \<Rightarrow> 'h \<Rightarrow> 'h" where
  "ins_all [] q h = h"
| "ins_all (e # es) q h = ins_all es q (ins e q h)"

primrec pop_n :: "nat \<Rightarrow> 'q \<Rightarrow> 'h \<Rightarrow> 'e list \<times> 'h" where
  "pop_n 0 q h = ([], h)"
| "pop_n (Suc n) q h =
     (case pop q h of
        (None, h') \<Rightarrow> ([], h')
      | (Some e, h') \<Rightarrow> (let (es, h'') = pop_n n q h' in (e # es, h'')))"

lemma contents_ins_all:
  assumes "contents h q xs" "distinct es" "set es \<inter> set xs = {}" "\<And>e. e \<in> set es \<Longrightarrow> valid q e"
  shows "contents (ins_all es q h) q (xs @ es)"
  using assms
proof (induction es arbitrary: h xs)
  case (Cons e es)
  from Cons.prems have "contents (ins e q h) q (xs @ [e])"
    by (intro contents_ins) auto
  then have "contents (ins_all es q (ins e q h)) q ((xs @ [e]) @ es)"
    by (rule Cons.IH) (use Cons.prems in auto)
  then show ?case by simp
qed simp

lemma pop_n_contents:
  "contents h q (xs @ ys) \<Longrightarrow>
     fst (pop_n (length xs) q h) = xs \<and> contents (snd (pop_n (length xs) q h)) q ys"
proof (induction xs arbitrary: h)
  case (Cons x xs)
  from Cons.prems have p: "fst (pop q h) = Some x" "contents (snd (pop q h)) q (xs @ ys)"
    by (auto intro: pop_Cons contents_pop)
  from Cons.IH[OF p(2)] p(1) show ?case
    by (auto simp: split_beta split: prod.splits option.splits)
qed simp

text \<open>A queue returns what was put into it, in order of arrival.\<close>

lemma fifo:
  assumes "contents h q []" "distinct es" "\<And>e. e \<in> set es \<Longrightarrow> valid q e"
  shows "fst (pop_n (length es) q (ins_all es q h)) = es"
  using pop_n_contents[of "ins_all es q h" q es "[]"] contents_ins_all[of h q "[]" es] assms
  by simp

end

interpretation rq: task_queue ring "\<lambda>q e. e \<noteq> q" QueInit QueInsert QueRemove QueRemoveNext
proof
  show "distinct xs" if "ring h q xs" for h q xs
    using that by (simp add: ring_def cycle_def)
qed (auto intro: ring_init ring_insert ring_remove ring_remove[where xs = "[]", simplified]
      simp: QueRemoveNext_empty QueRemoveNext_eq)

end
