(* ===== verification/Kernel_State.thy ===== *)
theory Kernel_State
  imports Queue_Ring
begin

text \<open>
  The state that all kernel components share: task control blocks, the queues of tasks, the
  ready queue, the scheduling variables, the processor state that the context macros read, and
  the timer queue. It is an extensible record: each object manager adds its own table by extending
  it, and the operations here are stated for every extension.

  A pointer to a TCB is the index of the block in \<^verbatim>\<open>knl_tcb_table\<close>; a null pointer is
  \<open>None\<close>. A task queue is the list of the tasks linked behind its head
  (\<open>Queue_Ring\<close> justifies this view of the pointer rings). The cell that
  \<^verbatim>\<open>tcb->wercd\<close> points to, the result variable of the call the task is blocked in, is kept
  in the TCB as \<open>wercd\<close>; \<open>None\<close> is the null pointer. Memory outside the kernel that
  calls write through pointers is the store \<open>umem\<close>.
\<close>

section \<open>Task states\<close>

datatype TSTAT = TS_NONEXIST | TS_READY | TS_WAIT | TS_SUSPEND | TS_WAITSUS | TS_DORMANT

fun ts_val :: "TSTAT \<Rightarrow> 8 word" where
  "ts_val TS_NONEXIST = 0"
| "ts_val TS_READY = 1"
| "ts_val TS_WAIT = 2"
| "ts_val TS_SUSPEND = 4"
| "ts_val TS_WAITSUS = 6"
| "ts_val TS_DORMANT = 8"

definition in_wait :: "TSTAT \<Rightarrow> bool" where
  "in_wait st \<longleftrightarrow> ts_val st AND ts_val TS_WAIT \<noteq> 0"

definition knl_task_alive :: "TSTAT \<Rightarrow> bool" where
  "knl_task_alive st \<longleftrightarrow> ts_val st AND (ts_val TS_READY OR ts_val TS_WAIT OR ts_val TS_SUSPEND) \<noteq> 0"

lemma in_wait_simps [simp]:
  "\<not> in_wait TS_NONEXIST" "\<not> in_wait TS_READY" "in_wait TS_WAIT" "\<not> in_wait TS_SUSPEND"
  "in_wait TS_WAITSUS" "\<not> in_wait TS_DORMANT"
  by (simp_all add: in_wait_def)

lemma knl_task_alive_simps [simp]:
  "\<not> knl_task_alive TS_NONEXIST" "knl_task_alive TS_READY" "knl_task_alive TS_WAIT"
  "knl_task_alive TS_SUSPEND" "knl_task_alive TS_WAITSUS" "\<not> knl_task_alive TS_DORMANT"
  by (simp_all add: knl_task_alive_def)

lemma in_wait_iff: "in_wait st \<longleftrightarrow> st = TS_WAIT \<or> st = TS_WAITSUS"
  by (cases st) auto

section \<open>Wait specifications and wait information\<close>

text \<open>
  The constant wait specifications of the modelled object managers; those of the variable-size memory
  pool are left out with that manager. Comparing pointers to specifications is
  comparing constructors. \<open>tskwait\<close> is the wait factor of a specification; its hooks are in
  \<open>Mutex\<close> (\<open>obj_chg_pri\<close>, \<open>mtx_chg_pri\<close>) and \<open>Wait_Release\<close> (\<open>rel_wai_hook\<close>).
\<close>

datatype WSPEC =
    knl_wspec_none
  | knl_wspec_slp | knl_wspec_dly
  | knl_wspec_sem_tfifo | knl_wspec_sem_tpri
  | knl_wspec_flg_tfifo | knl_wspec_flg_tpri
  | knl_wspec_mbx_tfifo | knl_wspec_mbx_tpri
  | knl_wspec_mtx_tfifo | knl_wspec_mtx_tpri | knl_wspec_mtx_inherit
  | knl_wspec_smbf_tfifo | knl_wspec_smbf_tpri | knl_wspec_rmbf
  | knl_wspec_cal_tfifo | knl_wspec_cal_tpri | knl_wspec_acp | knl_wspec_rdv
  | knl_wspec_mpf_tfifo | knl_wspec_mpf_tpri

fun tskwait :: "WSPEC \<Rightarrow> UW" where
  "tskwait knl_wspec_none = 0"
| "tskwait knl_wspec_slp = 0x1"
| "tskwait knl_wspec_dly = 0x2"
| "tskwait knl_wspec_sem_tfifo = 0x4"
| "tskwait knl_wspec_sem_tpri = 0x4"
| "tskwait knl_wspec_flg_tfifo = 0x8"
| "tskwait knl_wspec_flg_tpri = 0x8"
| "tskwait knl_wspec_mbx_tfifo = 0x40"
| "tskwait knl_wspec_mbx_tpri = 0x40"
| "tskwait knl_wspec_mtx_tfifo = 0x80"
| "tskwait knl_wspec_mtx_tpri = 0x80"
| "tskwait knl_wspec_mtx_inherit = 0x80"
| "tskwait knl_wspec_smbf_tfifo = 0x100"
| "tskwait knl_wspec_smbf_tpri = 0x100"
| "tskwait knl_wspec_rmbf = 0x200"
| "tskwait knl_wspec_cal_tfifo = 0x400"
| "tskwait knl_wspec_cal_tpri = 0x400"
| "tskwait knl_wspec_acp = 0x800"
| "tskwait knl_wspec_rdv = 0x1000"
| "tskwait knl_wspec_mpf_tfifo = 0x2000"
| "tskwait knl_wspec_mpf_tpri = 0x2000"

text \<open>
  \<^verbatim>\<open>WINFO\<close> is a union; which member is valid follows from the wait specification. The members
  \<^verbatim>\<open>cal\<close> and \<^verbatim>\<open>rdv\<close> have the same layout, and the rendezvous calls read the one after writing
  the other: their fields \<^verbatim>\<open>msg\<close> and \<^verbatim>\<open>p_rmsgsz\<close> are the same memory. A rendezvous number
  is a 32-bit pattern.
\<close>

datatype WINFO =
    WINFO_NONE
  | WINFO_SEM int
  | WINFO_FLG UINT UINT addr
  | WINFO_MBX addr
  | WINFO_RMBF addr addr
  | WINFO_SMBF addr int
  | WINFO_CAL UINT addr int addr
  | WINFO_ACP UINT addr addr addr
  | WINFO_RDV UW addr int addr
  | WINFO_MPF addr

fun winfo_sem_cnt :: "WINFO \<Rightarrow> int" where
  "winfo_sem_cnt (WINFO_SEM c) = c"
| "winfo_sem_cnt _ = 0"

fun winfo_flg_waiptn :: "WINFO \<Rightarrow> UINT" where
  "winfo_flg_waiptn (WINFO_FLG w m p) = w"
| "winfo_flg_waiptn _ = 0"

fun winfo_flg_wfmode :: "WINFO \<Rightarrow> UINT" where
  "winfo_flg_wfmode (WINFO_FLG w m p) = m"
| "winfo_flg_wfmode _ = 0"

fun winfo_flg_p_flgptn :: "WINFO \<Rightarrow> addr" where
  "winfo_flg_p_flgptn (WINFO_FLG w m p) = p"
| "winfo_flg_p_flgptn _ = 0"

fun winfo_mbx_ppk_msg :: "WINFO \<Rightarrow> addr" where
  "winfo_mbx_ppk_msg (WINFO_MBX p) = p"
| "winfo_mbx_ppk_msg _ = 0"

fun winfo_rmbf_msg :: "WINFO \<Rightarrow> addr" where
  "winfo_rmbf_msg (WINFO_RMBF m p) = m"
| "winfo_rmbf_msg _ = 0"

fun winfo_rmbf_p_msgsz :: "WINFO \<Rightarrow> addr" where
  "winfo_rmbf_p_msgsz (WINFO_RMBF m p) = p"
| "winfo_rmbf_p_msgsz _ = 0"

fun winfo_smbf_msg :: "WINFO \<Rightarrow> addr" where
  "winfo_smbf_msg (WINFO_SMBF m z) = m"
| "winfo_smbf_msg _ = 0"

fun winfo_smbf_msgsz :: "WINFO \<Rightarrow> int" where
  "winfo_smbf_msgsz (WINFO_SMBF m z) = z"
| "winfo_smbf_msgsz _ = 0"

fun winfo_cal_calptn :: "WINFO \<Rightarrow> UINT" where
  "winfo_cal_calptn (WINFO_CAL c m z p) = c"
| "winfo_cal_calptn _ = 0"

fun winfo_cal_msg :: "WINFO \<Rightarrow> addr" where
  "winfo_cal_msg (WINFO_CAL c m z p) = m"
| "winfo_cal_msg (WINFO_RDV r m z p) = m"
| "winfo_cal_msg _ = 0"

fun winfo_cal_cmsgsz :: "WINFO \<Rightarrow> int" where
  "winfo_cal_cmsgsz (WINFO_CAL c m z p) = z"
| "winfo_cal_cmsgsz _ = 0"

fun winfo_cal_p_rmsgsz :: "WINFO \<Rightarrow> addr" where
  "winfo_cal_p_rmsgsz (WINFO_CAL c m z p) = p"
| "winfo_cal_p_rmsgsz (WINFO_RDV r m z p) = p"
| "winfo_cal_p_rmsgsz _ = 0"

fun winfo_acp_acpptn :: "WINFO \<Rightarrow> UINT" where
  "winfo_acp_acpptn (WINFO_ACP a m r p) = a"
| "winfo_acp_acpptn _ = 0"

fun winfo_acp_msg :: "WINFO \<Rightarrow> addr" where
  "winfo_acp_msg (WINFO_ACP a m r p) = m"
| "winfo_acp_msg _ = 0"

fun winfo_acp_p_rdvno :: "WINFO \<Rightarrow> addr" where
  "winfo_acp_p_rdvno (WINFO_ACP a m r p) = r"
| "winfo_acp_p_rdvno _ = 0"

fun winfo_acp_p_cmsgsz :: "WINFO \<Rightarrow> addr" where
  "winfo_acp_p_cmsgsz (WINFO_ACP a m r p) = p"
| "winfo_acp_p_cmsgsz _ = 0"

fun winfo_rdv_rdvno :: "WINFO \<Rightarrow> UW" where
  "winfo_rdv_rdvno (WINFO_RDV r m z p) = r"
| "winfo_rdv_rdvno _ = 0"

fun winfo_rdv_msg :: "WINFO \<Rightarrow> addr" where
  "winfo_rdv_msg (WINFO_RDV r m z p) = m"
| "winfo_rdv_msg (WINFO_CAL c m z p) = m"
| "winfo_rdv_msg _ = 0"

fun winfo_rdv_maxrmsz :: "WINFO \<Rightarrow> int" where
  "winfo_rdv_maxrmsz (WINFO_RDV r m z p) = z"
| "winfo_rdv_maxrmsz _ = 0"

fun winfo_rdv_p_rmsgsz :: "WINFO \<Rightarrow> addr" where
  "winfo_rdv_p_rmsgsz (WINFO_RDV r m z p) = p"
| "winfo_rdv_p_rmsgsz (WINFO_CAL c m z p) = p"
| "winfo_rdv_p_rmsgsz _ = 0"

fun winfo_mpf_p_blf :: "WINFO \<Rightarrow> addr" where
  "winfo_mpf_p_blf (WINFO_MPF p) = p"
| "winfo_mpf_p_blf _ = 0"

section \<open>Task control blocks, queues, the shared state\<close>

text \<open>The saved context of a task: the part of \<^verbatim>\<open>SStackFrame\<close> that the kernel writes.\<close>

record CTXB =
  ssp :: addr
  ctx_mepc :: addr
  ctx_a0 :: int
  ctx_a1 :: addr
  intlevel :: nat

record TCB =
  tskid :: ID
  exinf :: addr
  tskatr :: ATR
  task :: addr
  tskctxb :: CTXB
  sstksz :: int
  isysmode :: int
  sysmode :: int
  ipriority :: nat
  bpriority :: nat
  priority :: nat
  state :: TSTAT
  klockwait :: bool
  klocked :: bool
  wspec :: WSPEC
  wid :: ID
  wupcnt :: int
  suscnt :: int
  wercd :: "ER option"
  winfo :: WINFO
  wrdvno :: UW
  isstack :: addr
  mtxlist :: "nat list"
  stime :: UW
  utime :: UW

text \<open>
  Queue heads: one per place a TCB can be linked to, the ready queues, the free list, the wait
  queues of the objects and the queues of the object locks.
\<close>

datatype wobj =
    WSem nat | WFlg nat | WMbx nat | WMtx nat | WMbfSnd nat | WMbfRcv nat | WPorCal nat | WPorAcp nat | WMpf nat

datatype qid = QRdy nat | QFreeTcb | QWait wobj | QLock nat

abbreviation QSem :: "nat \<Rightarrow> qid" where "QSem i \<equiv> QWait (WSem i)"
abbreviation QFlg :: "nat \<Rightarrow> qid" where "QFlg i \<equiv> QWait (WFlg i)"
abbreviation QMbx :: "nat \<Rightarrow> qid" where "QMbx i \<equiv> QWait (WMbx i)"
abbreviation QMtx :: "nat \<Rightarrow> qid" where "QMtx i \<equiv> QWait (WMtx i)"
abbreviation QMbfSnd :: "nat \<Rightarrow> qid" where "QMbfSnd i \<equiv> QWait (WMbfSnd i)"
abbreviation QMbfRcv :: "nat \<Rightarrow> qid" where "QMbfRcv i \<equiv> QWait (WMbfRcv i)"
abbreviation QPorCal :: "nat \<Rightarrow> qid" where "QPorCal i \<equiv> QWait (WPorCal i)"
abbreviation QPorAcp :: "nat \<Rightarrow> qid" where "QPorAcp i \<equiv> QWait (WPorAcp i)"
abbreviation QMpf :: "nat \<Rightarrow> qid" where "QMpf i \<equiv> QWait (WMpf i)"

text \<open>
  Timer event blocks are embedded in their owner, whose kind also fixes the callback and its
  argument: \<^verbatim>\<open>wtmeb\<close> of a task (\<^verbatim>\<open>knl_wait_release_tmout\<close>), of a cyclic handler
  (\<^verbatim>\<open>knl_call_cychdr\<close>), of an alarm handler (\<^verbatim>\<open>knl_call_almhdr\<close>).
\<close>

datatype TMEB = TM_TSK nat | TM_CYC nat | TM_ALM nat

record kstate =
  tcb :: "nat \<Rightarrow> TCB"
  que :: "qid \<Rightarrow> nat list"
  top_priority :: nat
  bitmap :: UINT
  klocktsk :: "nat option"
  ctxtsk :: "nat option"
  schedtsk :: "nat option"
  dispatch_disabled :: nat
  taskindp :: int
  isr_nest :: int
  cpu_mie :: bool
  cpu_intlevel :: nat
  cpu_sp :: addr
  int_saved_sp :: addr
  dsp_req :: bool
  current_time :: LSYSTIM
  real_time_ofs :: LSYSTIM
  timer_queue :: "TMEB list"
  tmeb_time :: "TMEB \<Rightarrow> ABSTIM"
  umem :: "addr \<Rightarrow> UW"

text \<open>A system call either returns its result or leaves its caller blocked.\<close>

datatype sysret = Ret ER | Blocked

text \<open>A call that only reads returns its error code and the packet it fills.\<close>

type_synonym 'p refret = "ER \<times> 'p option"

section \<open>Primitive updates\<close>

definition upd_tcb :: "nat \<Rightarrow> (TCB \<Rightarrow> TCB) \<Rightarrow> 'a kstate_scheme \<Rightarrow> 'a kstate_scheme" where
  [kdefs]: "upd_tcb t f s = s\<lparr>tcb := (tcb s)(t := f (tcb s t))\<rparr>"

definition que_init :: "qid \<Rightarrow> 'a kstate_scheme \<Rightarrow> 'a kstate_scheme" where
  [kdefs]: "que_init q s = s\<lparr>que := (que s)(q := [])\<rparr>"

definition que_insert :: "nat \<Rightarrow> qid \<Rightarrow> 'a kstate_scheme \<Rightarrow> 'a kstate_scheme" where
  [kdefs]: "que_insert t q s = s\<lparr>que := (que s)(q := que s q @ [t])\<rparr>"

definition que_insert_top :: "nat \<Rightarrow> qid \<Rightarrow> 'a kstate_scheme \<Rightarrow> 'a kstate_scheme" where
  [kdefs]: "que_insert_top t q s = s\<lparr>que := (que s)(q := t # que s q)\<rparr>"

text \<open>
  \<^verbatim>\<open>QueRemove(&tcb->tskque)\<close> unlinks the task from whichever queue holds it and does
  nothing when it is in none.
\<close>

definition que_remove :: "nat \<Rightarrow> 'a kstate_scheme \<Rightarrow> 'a kstate_scheme" where
  [kdefs]: "que_remove t s = s\<lparr>que := (\<lambda>q. removeAll t (que s q))\<rparr>"

definition que_remove_next :: "qid \<Rightarrow> 'a kstate_scheme \<Rightarrow> nat option \<times> 'a kstate_scheme" where
  "que_remove_next q s =
     (case que s q of
        [] \<Rightarrow> (None, s)
      | t # ts \<Rightarrow> (Some t, s\<lparr>que := (que s)(q := ts)\<rparr>))"

text \<open>The kernel's queues keep the contract of the pointer rings.\<close>

interpretation kq: task_queue "\<lambda>s q xs. que s q = xs \<and> distinct xs" "\<lambda>q t. True"
  que_init que_insert que_remove que_remove_next
  by unfold_locales (auto simp: kdefs que_remove_next_def split: list.splits)

section \<open>Processor context\<close>

definition in_indp :: "'a kstate_scheme \<Rightarrow> bool" where
  "in_indp s \<longleftrightarrow> taskindp s > 0 \<or> ctxtsk s = None"

definition knl_is_cpu_int_masked :: "'a kstate_scheme \<Rightarrow> bool" where
  "knl_is_cpu_int_masked s \<longleftrightarrow> \<not> cpu_mie s \<or> cpu_intlevel s \<ge> 4"

definition knl_is_dispatch_masked :: "'a kstate_scheme \<Rightarrow> bool" where
  "knl_is_dispatch_masked s \<longleftrightarrow> \<not> cpu_mie s \<or> cpu_intlevel s > 1"

definition in_ddsp :: "'a kstate_scheme \<Rightarrow> bool" where
  "in_ddsp s \<longleftrightarrow> dispatch_disabled s \<noteq> 0 \<or> in_indp s \<or> knl_is_dispatch_masked s"

definition in_loc :: "'a kstate_scheme \<Rightarrow> bool" where
  "in_loc s \<longleftrightarrow> knl_is_cpu_int_masked s \<or> in_indp s"

text \<open>
  \<^verbatim>\<open>knl_dispatch\<close> pends the dispatch interrupt. In a handler the switch is left to the interrupt
  exit. When no task is ready the processor idles inside the loop at the lowest interrupt level: the
  handlers that run meanwhile are separate steps of the model, and the one that makes a task ready
  switches to it when it exits.
\<close>

definition knl_dispatch :: "'a kstate_scheme \<Rightarrow> 'a kstate_scheme" where
  "knl_dispatch s =
     (if taskindp s > 0 then s
      else if schedtsk s = None then s\<lparr>cpu_intlevel := 1\<rparr>
      else s\<lparr>dsp_req := True\<rparr>)"

definition END_CRITICAL_SECTION :: "'a kstate_scheme \<Rightarrow> 'a kstate_scheme" where
  "END_CRITICAL_SECTION s =
     (if ctxtsk s \<noteq> schedtsk s \<and> dispatch_disabled s = 0 then knl_dispatch s else s)"

section \<open>Parameter checks\<close>

text \<open>The checks of \<^verbatim>\<open>check.h\<close> in the shipped configuration (\<^verbatim>\<open>CHK_SELF\<close> is off).\<close>

definition CHK_OBJID :: "nat \<Rightarrow> ID \<Rightarrow> bool" where
  [kdefs]: "CHK_OBJID n oid \<longleftrightarrow> 1 \<le> oid \<and> oid \<le> int n"

definition INDEX_OBJ :: "ID \<Rightarrow> nat" where
  [kdefs]: "INDEX_OBJ oid = nat (oid - 1)"

definition ID_OBJ :: "nat \<Rightarrow> ID" where
  [kdefs]: "ID_OBJ i = int i + 1"

definition CHK_PRI :: "PRI \<Rightarrow> bool" where
  "CHK_PRI pri \<longleftrightarrow> MIN_TSKPRI \<le> pri \<and> pri \<le> MAX_TSKPRI"

definition int_priority :: "PRI \<Rightarrow> int" where
  "int_priority x = x - MIN_TSKPRI"

definition ext_tskpri :: "nat \<Rightarrow> PRI" where
  "ext_tskpri x = int x + MIN_TSKPRI"

definition CHECK_TSKID :: "ID \<Rightarrow> 'a kstate_scheme \<Rightarrow> ER" where
  "CHECK_TSKID oid s =
     (if \<not> in_indp s \<and> oid = TSK_SELF then E_OBJ
      else if \<not> CHK_OBJID NUM_TSKID oid then E_ID else E_OK)"

definition CHECK_TSKID_SELF :: "ID \<Rightarrow> 'a kstate_scheme \<Rightarrow> ER" where
  "CHECK_TSKID_SELF oid s =
     (if \<not> ((\<not> in_indp s \<and> oid = TSK_SELF) \<or> CHK_OBJID NUM_TSKID oid) then E_ID else E_OK)"

definition CHECK_OBJID :: "nat \<Rightarrow> ID \<Rightarrow> ER" where
  "CHECK_OBJID n oid = (if \<not> CHK_OBJID n oid then E_ID else E_OK)"

definition CHECK_RSATR :: "ATR \<Rightarrow> ATR \<Rightarrow> ER" where
  "CHECK_RSATR atr maxatr = (if atr AND NOT maxatr \<noteq> 0 then E_RSATR else E_OK)"

definition CHECK_TMOUT :: "TMO \<Rightarrow> ER" where
  "CHECK_TMOUT tmout = (if \<not> tmout \<ge> TMO_FEVR then E_PAR else E_OK)"

definition CHECK_RELTIM :: "RELTIM \<Rightarrow> ER" where
  "CHECK_RELTIM tmout = (if tmout \<ge> 0x80000000 then E_PAR else E_OK)"

definition CHECK_PAR :: "bool \<Rightarrow> ER" where
  "CHECK_PAR b = (if b then E_OK else E_PAR)"

definition CHECK_DISPATCH :: "'a kstate_scheme \<Rightarrow> ER" where
  "CHECK_DISPATCH s = (if in_ddsp s then E_CTX else E_OK)"

definition CHECK_INTSK :: "'a kstate_scheme \<Rightarrow> ER" where
  "CHECK_INTSK s = (if in_indp s then E_CTX else E_OK)"

text \<open>A sequence of checks returns the first error, as the early returns of the macros do.\<close>

fun first_err :: "ER list \<Rightarrow> ER" where
  "first_err [] = E_OK"
| "first_err (e # es) = (if e < E_OK then e else first_err es)"

definition get_tcb_self :: "ID \<Rightarrow> 'a kstate_scheme \<Rightarrow> nat" where
  "get_tcb_self oid s = (if oid = TSK_SELF then the (ctxtsk s) else INDEX_OBJ oid)"

lemmas check_defs = CHECK_OBJID_def CHECK_TSKID_def CHECK_TSKID_SELF_def CHECK_RSATR_def CHECK_TMOUT_def
  CHECK_RELTIM_def CHECK_PAR_def CHECK_DISPATCH_def CHECK_INTSK_def

lemma first_err_OK_iff:
  "first_err es = E_OK \<longleftrightarrow> (\<forall>e\<in>set es. \<not> e < E_OK)"
  by (induction es) (auto simp: consts_defs)

lemma first_err_le: "first_err es \<le> E_OK"
  by (induction es) (auto simp: consts_defs)

text \<open>The end of a critical section touches neither tasks nor queues nor timers.\<close>

lemma END_CRITICAL_SECTION_frame [simp, frame]:
  "tcb (END_CRITICAL_SECTION s) = tcb s" "que (END_CRITICAL_SECTION s) = que s"
  "top_priority (END_CRITICAL_SECTION s) = top_priority s"
  "bitmap (END_CRITICAL_SECTION s) = bitmap s"
  "klocktsk (END_CRITICAL_SECTION s) = klocktsk s"
  "ctxtsk (END_CRITICAL_SECTION s) = ctxtsk s" "schedtsk (END_CRITICAL_SECTION s) = schedtsk s"
  "dispatch_disabled (END_CRITICAL_SECTION s) = dispatch_disabled s"
  "taskindp (END_CRITICAL_SECTION s) = taskindp s"
  "timer_queue (END_CRITICAL_SECTION s) = timer_queue s"
  "tmeb_time (END_CRITICAL_SECTION s) = tmeb_time s"
  "current_time (END_CRITICAL_SECTION s) = current_time s"
  "umem (END_CRITICAL_SECTION s) = umem s"
  "kstate.more (END_CRITICAL_SECTION s) = kstate.more s"
  by (simp_all add: END_CRITICAL_SECTION_def knl_dispatch_def)

lemma ID_INDEX_OBJ [simp]: "CHK_OBJID n oid \<Longrightarrow> ID_OBJ (INDEX_OBJ oid) = oid"
  by (auto simp: kdefs)

lemma INDEX_ID_OBJ [simp]: "INDEX_OBJ (ID_OBJ i) = i"
  by (simp add: kdefs)

lemma INDEX_OBJ_less: "CHK_OBJID n oid \<Longrightarrow> INDEX_OBJ oid < n"
  by (auto simp: kdefs)

lemma CHK_OBJID_ID_OBJ: "i < n \<Longrightarrow> CHK_OBJID n (ID_OBJ i)"
  by (auto simp: kdefs)

end
