(* ===== verification/Ready_Queue.thy ===== *)
theory Ready_Queue
  imports Kernel_State
begin

text \<open>
  The ready queue of \<^verbatim>\<open>kernel/tkernel/ready_queue.h\<close>: one task queue per priority, a
  bitmap of the non-empty queues and the highest priority in use. The invariant says that bitmap
  and highest priority agree with the queues; every operation keeps it, and under it the cached
  search result is the head of the first non-empty queue.
\<close>

section \<open>Operations\<close>

function knl_ready_queue_calc_top_priority :: "UINT \<Rightarrow> nat \<Rightarrow> nat" where
  "knl_ready_queue_calc_top_priority bm pos =
     (if pos < NUM_TSKPRI then
        if bm AND push_bit pos 1 \<noteq> 0 then pos
        else knl_ready_queue_calc_top_priority bm (Suc pos)
      else NUM_TSKPRI)"
  by pat_completeness auto
termination
  by (relation "measure (\<lambda>(bm, pos). NUM_TSKPRI - pos)") auto

declare knl_ready_queue_calc_top_priority.simps [simp del]

definition knl_ready_queue_initialize :: "'a kstate_scheme \<Rightarrow> 'a kstate_scheme" where
  "knl_ready_queue_initialize s =
     s\<lparr>top_priority := NUM_TSKPRI,
       que := (\<lambda>q. case q of QRdy i \<Rightarrow> (if i < NUM_TSKPRI then [] else que s q) | _ \<Rightarrow> que s q),
       klocktsk := None, bitmap := 0\<rparr>"

text \<open>
  \<^verbatim>\<open>tskque[NUM_TSKPRI].next\<close> is the field \<^verbatim>\<open>null\<close>, which is always a null pointer.
\<close>

definition knl_ready_queue_top :: "'a kstate_scheme \<Rightarrow> nat option" where
  "knl_ready_queue_top s =
     (case klocktsk s of
        Some t \<Rightarrow> Some t
      | None \<Rightarrow>
          if top_priority s = NUM_TSKPRI then None
          else (case que s (QRdy (top_priority s)) of [] \<Rightarrow> None | t # _ \<Rightarrow> Some t))"

definition knl_ready_queue_top_priority :: "'a kstate_scheme \<Rightarrow> nat" where
  "knl_ready_queue_top_priority s = top_priority s"

definition knl_ready_queue_insert :: "nat \<Rightarrow> 'a kstate_scheme \<Rightarrow> bool \<times> 'a kstate_scheme" where
  "knl_ready_queue_insert t s =
     (let pri = priority (tcb s t);
          s1 = que_insert t (QRdy pri) s;
          s2 = s1\<lparr>bitmap := bitmap s1 OR push_bit pri 1\<rparr>;
          s3 = (if klocked (tcb s2 t) then s2\<lparr>klocktsk := Some t\<rparr> else s2)
      in if pri < top_priority s3 then (True, s3\<lparr>top_priority := pri\<rparr>) else (False, s3))"

definition knl_ready_queue_insert_top :: "nat \<Rightarrow> 'a kstate_scheme \<Rightarrow> 'a kstate_scheme" where
  "knl_ready_queue_insert_top t s =
     (let pri = priority (tcb s t);
          s1 = que_insert_top t (QRdy pri) s;
          s2 = s1\<lparr>bitmap := bitmap s1 OR push_bit pri 1\<rparr>;
          s3 = (if klocked (tcb s2 t) then s2\<lparr>klocktsk := Some t\<rparr> else s2)
      in if pri < top_priority s3 then s3\<lparr>top_priority := pri\<rparr> else s3)"

definition knl_ready_queue_delete :: "nat \<Rightarrow> 'a kstate_scheme \<Rightarrow> 'a kstate_scheme" where
  "knl_ready_queue_delete t s =
     (let pri = priority (tcb s t);
          s1 = (if klocktsk s = Some t then s\<lparr>klocktsk := None\<rparr> else s);
          s2 = que_remove t s1
      in if klockwait (tcb s2 t) then upd_tcb t (klockwait_update (\<lambda>_. False)) s2
         else if que s2 (QRdy pri) \<noteq> [] then s2
         else
           let s3 = s2\<lparr>bitmap := bitmap s2 AND NOT (push_bit pri 1)\<rparr>
           in if pri \<noteq> top_priority s3 then s3
              else s3\<lparr>top_priority := knl_ready_queue_calc_top_priority (bitmap s3) pri\<rparr>)"

definition knl_ready_queue_rotate :: "nat \<Rightarrow> 'a kstate_scheme \<Rightarrow> 'a kstate_scheme" where
  "knl_ready_queue_rotate pri s =
     (case que_remove_next (QRdy pri) s of
        (None, s') \<Rightarrow> s'
      | (Some t, s') \<Rightarrow> que_insert t (QRdy pri) s')"

definition knl_ready_queue_move_last :: "nat \<Rightarrow> 'a kstate_scheme \<Rightarrow> nat option \<times> 'a kstate_scheme" where
  "knl_ready_queue_move_last t s =
     (let pri = priority (tcb s t);
          s1 = que_insert t (QRdy pri) (que_remove t s)
      in (case que s1 (QRdy pri) of [] \<Rightarrow> None | h # _ \<Rightarrow> Some h, s1))"

section \<open>Invariant\<close>

definition rq_inv :: "'a kstate_scheme \<Rightarrow> bool" where
  "rq_inv s \<longleftrightarrow>
     (\<forall>p. bit (bitmap s) p \<longleftrightarrow> que s (QRdy p) \<noteq> []) \<and>
     top_priority s \<le> NUM_TSKPRI \<and>
     (\<forall>p < top_priority s. que s (QRdy p) = []) \<and>
     (top_priority s < NUM_TSKPRI \<longrightarrow> que s (QRdy (top_priority s)) \<noteq> [])"

lemma rq_inv_cong:
  assumes "\<And>p. que s (QRdy p) = que s' (QRdy p)" "bitmap s = bitmap s'"
    "top_priority s = top_priority s'"
  shows "rq_inv s = rq_inv s'"
  using assms by (simp add: rq_inv_def)

lemma rq_inv_high:
  assumes "rq_inv s" "NUM_TSKPRI \<le> p"
  shows "que s (QRdy p) = []"
proof -
  have "bit (bitmap s) p \<longleftrightarrow> que s (QRdy p) \<noteq> []" using assms by (simp add: rq_inv_def)
  with assms(2) show ?thesis by (auto simp: consts_defs dest: bit_imp_le_length)
qed

section \<open>The bitmap search\<close>

lemma calc_top_bounds:
  "pos \<le> NUM_TSKPRI \<Longrightarrow>
     pos \<le> knl_ready_queue_calc_top_priority bm pos \<and>
     knl_ready_queue_calc_top_priority bm pos \<le> NUM_TSKPRI"
proof (induction bm pos rule: knl_ready_queue_calc_top_priority.induct)
  case (1 bm pos)
  then show ?case
    by (subst (1 2) knl_ready_queue_calc_top_priority.simps)
      (auto dest: Suc_leD)
qed

lemma calc_top_bit:
  "knl_ready_queue_calc_top_priority bm pos < NUM_TSKPRI \<Longrightarrow>
     bit bm (knl_ready_queue_calc_top_priority bm pos)"
proof (induction bm pos rule: knl_ready_queue_calc_top_priority.induct)
  case (1 bm pos)
  show ?case
  proof (cases "pos < NUM_TSKPRI \<and> \<not> bit bm pos")
    case True
    then have "knl_ready_queue_calc_top_priority bm pos =
        knl_ready_queue_calc_top_priority bm (Suc pos)"
      by (subst knl_ready_queue_calc_top_priority.simps) simp
    with 1 True show ?thesis by simp
  next
    case False
    then show ?thesis using "1.prems"
      by (subst knl_ready_queue_calc_top_priority.simps)
        (auto simp: knl_ready_queue_calc_top_priority.simps[of bm pos])
  qed
qed

lemma calc_top_least:
  "pos \<le> p \<Longrightarrow> p < knl_ready_queue_calc_top_priority bm pos \<Longrightarrow> \<not> bit bm p"
proof (induction bm pos rule: knl_ready_queue_calc_top_priority.induct)
  case (1 bm pos)
  show ?case
  proof (cases "pos < NUM_TSKPRI \<and> \<not> bit bm pos")
    case True
    then have e: "knl_ready_queue_calc_top_priority bm pos =
        knl_ready_queue_calc_top_priority bm (Suc pos)"
      by (subst knl_ready_queue_calc_top_priority.simps) simp
    show ?thesis
    proof (cases "p = pos")
      case False
      with 1 True e show ?thesis by simp
    qed (use True in simp)
  next
    case False
    with 1 show ?thesis
      by (auto simp: knl_ready_queue_calc_top_priority.simps[of bm pos] consts_defs
          dest!: bit_imp_le_length split: if_splits)
  qed
qed

section \<open>The operations keep the invariant\<close>

lemma rq_initialize_inv:
  assumes "\<And>i. NUM_TSKPRI \<le> i \<Longrightarrow> que s (QRdy i) = []"
  shows "rq_inv (knl_ready_queue_initialize s)"
  using assms by (auto simp: rq_inv_def knl_ready_queue_initialize_def not_less)

lemma rq_insert_inv:
  assumes "rq_inv s" "priority (tcb s t) < NUM_TSKPRI"
  shows "rq_inv (snd (knl_ready_queue_insert t s))"
  using assms
  by (auto simp: rq_inv_def knl_ready_queue_insert_def Let_def kdefs consts_defs)

lemma rq_insert_top_inv:
  assumes "rq_inv s" "priority (tcb s t) < NUM_TSKPRI"
  shows "rq_inv (knl_ready_queue_insert_top t s)"
  using assms
  by (auto simp: rq_inv_def knl_ready_queue_insert_top_def Let_def kdefs consts_defs)

lemma rq_delete_inv:
  assumes inv: "rq_inv s" and p: "priority (tcb s t) < NUM_TSKPRI"
    and here: "t \<in> set (que s (QRdy (priority (tcb s t))))"
    and only: "\<And>q. q \<noteq> QRdy (priority (tcb s t)) \<Longrightarrow> t \<notin> set (que s q)"
    and kw: "\<not> klockwait (tcb s t)"
  shows "rq_inv (knl_ready_queue_delete t s)"
proof -
  let ?p = "priority (tcb s t)" and ?q = "removeAll t (que s (QRdy (priority (tcb s t))))"
  let ?bm = "bitmap s AND NOT (2 ^ ?p)"
  have other: "removeAll t (que s (QRdy p')) = que s (QRdy p')" if "p' \<noteq> ?p" for p'
    using only[of "QRdy p'"] that by auto
  have top: "top_priority s \<le> ?p" using inv here by (auto simp: rq_inv_def not_less dest: leI)
  show ?thesis
  proof (cases "?q = []")
    case False
    then show ?thesis using inv kw other top
      by (auto simp: rq_inv_def knl_ready_queue_delete_def Let_def kdefs)
        (metis other | force)+
  next
    case True
    have bits: "bit ?bm p' \<longleftrightarrow> removeAll t (que s (QRdy p')) \<noteq> []" for p'
      using inv True other[of p'] by (cases "p' = ?p") (auto simp: rq_inv_def)
    show ?thesis
    proof (cases "?p = top_priority s")
      case False
      then show ?thesis using inv kw True bits other
        by (auto simp: rq_inv_def knl_ready_queue_delete_def Let_def kdefs)
    next
      case eq: True
      have "knl_ready_queue_delete t s =
          (que_remove t s)\<lparr>klocktsk := (if klocktsk s = Some t then None else klocktsk s),
             bitmap := ?bm, top_priority := knl_ready_queue_calc_top_priority ?bm ?p\<rparr>"
        using True eq kw by (simp add: knl_ready_queue_delete_def Let_def kdefs)
      then show ?thesis
        using calc_top_bounds[of ?p ?bm] calc_top_bit[of ?bm ?p] calc_top_least[of ?p _ ?bm] bits p
          eq inv
        by (auto simp: rq_inv_def kdefs) (metis leI)
    qed
  qed
qed

text \<open>
  Under the invariant the cached head is the first task of the highest non-empty priority.
\<close>

lemma rq_top_SomeD:
  assumes "rq_inv s" "klocktsk s = None" "knl_ready_queue_top s = Some t"
  shows "t \<in> set (que s (QRdy (top_priority s)))" "t = hd (que s (QRdy (top_priority s)))"
    "top_priority s < NUM_TSKPRI"
  using assms by (auto simp: knl_ready_queue_top_def rq_inv_def split: if_splits list.splits)

lemma rq_top_None_iff:
  assumes "rq_inv s" "klocktsk s = None"
  shows "knl_ready_queue_top s = None \<longleftrightarrow> (\<forall>p. que s (QRdy p) = [])"
proof
  assume "knl_ready_queue_top s = None"
  then have "top_priority s = NUM_TSKPRI"
    using assms by (auto simp: knl_ready_queue_top_def rq_inv_def split: if_splits list.splits)
  then have "que s (QRdy p) = []" for p
    using assms(1) rq_inv_high[of s p] by (cases "p < NUM_TSKPRI") (auto simp: rq_inv_def)
  then show "\<forall>p. que s (QRdy p) = []" ..
qed (use assms in \<open>auto simp: knl_ready_queue_top_def\<close>)

lemma rq_top_eq:
  assumes "rq_inv s" "klocktsk s = None" "que s (QRdy p) \<noteq> []" "\<And>p'. p' < p \<Longrightarrow> que s (QRdy p') = []"
  shows "knl_ready_queue_top s = Some (hd (que s (QRdy p)))"
proof -
  have "top_priority s = p"
    using assms rq_inv_high[of s p] by (metis linorder_neqE_nat not_le rq_inv_def)
  moreover have "p < NUM_TSKPRI" using assms rq_inv_high[of s p] by (metis not_le)
  ultimately show ?thesis
    using assms by (auto simp: knl_ready_queue_top_def split: list.splits)
qed

lemma rq_rotate_inv: "rq_inv s \<Longrightarrow> rq_inv (knl_ready_queue_rotate p s)"
  by (auto simp: rq_inv_def knl_ready_queue_rotate_def que_remove_next_def kdefs
      split: list.splits)

end
