(* ===== verification/Task.thy ===== *)
theory Task
  imports Ready_Queue
begin

text \<open>
  Task control of \<^verbatim>\<open>kernel/tkernel/task.c\<close>: initialisation of the TCB table, the DORMANT
  and READY transitions and the rotation of the ready queue; and the invariant of the task
  component. Its centre is \<open>task_inv\<close>: a task is linked to a queue exactly when its TCB says
  so (\<open>home\<close>), and at most once. \<open>sched_ok\<close> says that \<^verbatim>\<open>knl_schedtsk\<close> is the head of
  the ready queue. \<^verbatim>\<open>knl_change_task_priority\<close>, which calls the hooks of the object
  managers, is in \<open>Mutex\<close>.
\<close>

section \<open>Operations\<close>

definition knl_task_initialize :: "'a kstate_scheme \<Rightarrow> ER \<times> 'a kstate_scheme" where
  "knl_task_initialize s =
     (if NUM_TSKID < 1 then (E_SYS, s)
      else
        let s1 = knl_ready_queue_initialize (s\<lparr>ctxtsk := None, schedtsk := None\<rparr>);
            s2 = que_init QFreeTcb (s1\<lparr>dispatch_disabled := 0\<rparr>)
        in (E_OK,
            fold (\<lambda>i st. que_insert i QFreeTcb
                   (upd_tcb i (\<lambda>b. b\<lparr>tskid := ID_OBJ i, state := TS_NONEXIST, wrdvno := word_of_int (ID_OBJ i)\<rparr>) st))
              [0..<NUM_TSKID] s2))"

definition knl_setup_context :: "TCB \<Rightarrow> TCB" where
  "knl_setup_context b =
     b\<lparr>tskctxb := (tskctxb b)\<lparr>ssp := isstack b - 128, ctx_mepc := task b, ctx_a0 := 0,
                                ctx_a1 := 0, intlevel := 1\<rparr>\<rparr>"

definition knl_setup_stacd :: "int \<Rightarrow> TCB \<Rightarrow> TCB" where
  "knl_setup_stacd stacd b = b\<lparr>tskctxb := (tskctxb b)\<lparr>ctx_a0 := stacd, ctx_a1 := exinf b\<rparr>\<rparr>"

definition knl_make_dormant :: "nat \<Rightarrow> 'a kstate_scheme \<Rightarrow> 'a kstate_scheme" where
  "knl_make_dormant t s =
     upd_tcb t
       (\<lambda>b. knl_setup_context
              (b\<lparr>state := TS_DORMANT, bpriority := ipriority b, priority := ipriority b,
                 sysmode := isysmode b, wupcnt := 0, suscnt := 0,
                 klockwait := False, klocked := False, stime := 0, utime := 0,
                 wercd := None, mtxlist := []\<rparr>)) s"

definition knl_make_ready :: "nat \<Rightarrow> 'a kstate_scheme \<Rightarrow> 'a kstate_scheme" where
  "knl_make_ready t s =
     (case knl_ready_queue_insert t (upd_tcb t (state_update (\<lambda>_. TS_READY)) s) of
        (True, s') \<Rightarrow> s'\<lparr>schedtsk := Some t\<rparr>
      | (False, s') \<Rightarrow> s')"

definition knl_make_non_ready :: "nat \<Rightarrow> 'a kstate_scheme \<Rightarrow> 'a kstate_scheme" where
  "knl_make_non_ready t s =
     (let s' = knl_ready_queue_delete t s
      in if schedtsk s' = Some t then s'\<lparr>schedtsk := knl_ready_queue_top s'\<rparr> else s')"

definition knl_reschedule :: "'a kstate_scheme \<Rightarrow> 'a kstate_scheme" where
  "knl_reschedule s =
     (let toptsk = knl_ready_queue_top s
      in if schedtsk s \<noteq> toptsk then s\<lparr>schedtsk := toptsk\<rparr> else s)"

definition knl_rotate_ready_queue :: "nat \<Rightarrow> 'a kstate_scheme \<Rightarrow> 'a kstate_scheme" where
  "knl_rotate_ready_queue pri s = knl_reschedule (knl_ready_queue_rotate pri s)"

definition knl_rotate_ready_queue_run :: "'a kstate_scheme \<Rightarrow> 'a kstate_scheme" where
  "knl_rotate_ready_queue_run s =
     (if schedtsk s \<noteq> None then
        knl_reschedule (knl_ready_queue_rotate (knl_ready_queue_top_priority s) s)
      else s)"

text \<open>
  The debugger's queue listings return the number of entries and fill at most \<open>nent\<close> of them.
\<close>

definition list_entries :: "int \<Rightarrow> ID list \<Rightarrow> int \<times> ID list" where
  "list_entries nent ids = (int (length ids), take (nat nent) ids)"

definition que_tskids :: "qid \<Rightarrow> 'a kstate_scheme \<Rightarrow> ID list" where
  "que_tskids q s = map (\<lambda>t. tskid (tcb s t)) (que s q)"

definition td_rdy_que :: "PRI \<Rightarrow> int \<Rightarrow> 'a kstate_scheme \<Rightarrow> int \<times> ID list" where
  "td_rdy_que pri nent s =
     (if \<not> CHK_PRI pri then (E_PAR, [])
      else list_entries nent (que_tskids (QRdy (nat (int_priority pri))) s))"

section \<open>Invariant\<close>

fun wait_home :: "WSPEC \<Rightarrow> ID \<Rightarrow> qid option" where
  "wait_home knl_wspec_sem_tfifo i = Some (QSem (INDEX_OBJ i))"
| "wait_home knl_wspec_sem_tpri i = Some (QSem (INDEX_OBJ i))"
| "wait_home knl_wspec_flg_tfifo i = Some (QFlg (INDEX_OBJ i))"
| "wait_home knl_wspec_flg_tpri i = Some (QFlg (INDEX_OBJ i))"
| "wait_home knl_wspec_mbx_tfifo i = Some (QMbx (INDEX_OBJ i))"
| "wait_home knl_wspec_mbx_tpri i = Some (QMbx (INDEX_OBJ i))"
| "wait_home knl_wspec_mtx_tfifo i = Some (QMtx (INDEX_OBJ i))"
| "wait_home knl_wspec_mtx_tpri i = Some (QMtx (INDEX_OBJ i))"
| "wait_home knl_wspec_mtx_inherit i = Some (QMtx (INDEX_OBJ i))"
| "wait_home knl_wspec_smbf_tfifo i = Some (QMbfSnd (INDEX_OBJ i))"
| "wait_home knl_wspec_smbf_tpri i = Some (QMbfSnd (INDEX_OBJ i))"
| "wait_home knl_wspec_rmbf i = Some (QMbfRcv (INDEX_OBJ i))"
| "wait_home knl_wspec_cal_tfifo i = Some (QPorCal (INDEX_OBJ i))"
| "wait_home knl_wspec_cal_tpri i = Some (QPorCal (INDEX_OBJ i))"
| "wait_home knl_wspec_acp i = Some (QPorAcp (INDEX_OBJ i))"
| "wait_home knl_wspec_mpf_tfifo i = Some (QMpf (INDEX_OBJ i))"
| "wait_home knl_wspec_mpf_tpri i = Some (QMpf (INDEX_OBJ i))"
| "wait_home _ i = None"

definition home :: "TCB \<Rightarrow> qid option" where
  "home b =
     (case state b of
        TS_NONEXIST \<Rightarrow> Some QFreeTcb
      | TS_READY \<Rightarrow> Some (QRdy (priority b))
      | TS_WAIT \<Rightarrow> wait_home (wspec b) (wid b)
      | TS_WAITSUS \<Rightarrow> wait_home (wspec b) (wid b)
      | _ \<Rightarrow> None)"

definition linked :: "(nat \<Rightarrow> TCB) \<Rightarrow> (qid \<Rightarrow> nat list) \<Rightarrow> nat set \<Rightarrow> bool" where
  "linked tb qs T \<longleftrightarrow>
     (\<forall>q. distinct (qs q)) \<and> (\<forall>t q. t \<in> set (qs q) \<longleftrightarrow> t \<in> T \<and> home (tb t) = Some q)"

definition task_inv :: "'a kstate_scheme \<Rightarrow> bool" where
  "task_inv s \<longleftrightarrow> linked (tcb s) (que s) {..<NUM_TSKID}"

text \<open>The same with one task taken out of its queue, as between the two halves of a transition.\<close>

definition task_inv_x :: "nat \<Rightarrow> 'a kstate_scheme \<Rightarrow> bool" where
  "task_inv_x t s \<longleftrightarrow> linked (tcb s) (que s) ({..<NUM_TSKID} - {t})"

definition klock_free :: "'a kstate_scheme \<Rightarrow> bool" where
  "klock_free s \<longleftrightarrow> klocktsk s = None \<and> (\<forall>t. \<not> klocked (tcb s t) \<and> \<not> klockwait (tcb s t))"

definition sched_ok :: "'a kstate_scheme \<Rightarrow> bool" where
  "sched_ok s \<longleftrightarrow> rq_inv s \<and> klock_free s \<and> schedtsk s = knl_ready_queue_top s"

definition tcb_ok :: "'a kstate_scheme \<Rightarrow> bool" where
  "tcb_ok s \<longleftrightarrow>
     (\<forall>t < NUM_TSKID.
        let b = tcb s t in
        tskid b = ID_OBJ t \<and> priority b < NUM_TSKPRI \<and> bpriority b < NUM_TSKPRI \<and>
        ipriority b < NUM_TSKPRI \<and> 0 \<le> wupcnt b \<and> wupcnt b \<le> INT_MAX \<and>
        0 \<le> suscnt b \<and> suscnt b \<le> INT_MAX \<and>
        (0 < suscnt b \<longleftrightarrow> state b = TS_SUSPEND \<or> state b = TS_WAITSUS) \<and>
        (in_wait (state b) \<longrightarrow> wercd b \<noteq> None \<and> wspec b \<noteq> knl_wspec_none))"

definition timer_ok :: "'a kstate_scheme \<Rightarrow> bool" where
  "timer_ok s \<longleftrightarrow>
     distinct (timer_queue s) \<and>
     (\<forall>t. TM_TSK t \<in> set (timer_queue s) \<longrightarrow> t < NUM_TSKID \<and> in_wait (state (tcb s t)))"

definition core_inv :: "'a kstate_scheme \<Rightarrow> bool" where
  "core_inv s \<longleftrightarrow> task_inv s \<and> sched_ok s \<and> tcb_ok s \<and> timer_ok s \<and>
     (\<forall>t. ctxtsk s = Some t \<longrightarrow> t < NUM_TSKID)"

lemmas inv_defs = task_inv_def task_inv_x_def sched_ok_def tcb_ok_def timer_ok_def core_inv_def

section \<open>Linking and unlinking\<close>

lemma linkedD:
  assumes "linked tb qs T"
  shows "distinct (qs q)" "t \<in> set (qs q) \<longleftrightarrow> t \<in> T \<and> home (tb t) = Some q"
  using assms by (auto simp: linked_def)

lemma linked_unlink:
  "linked tb qs T \<Longrightarrow> linked tb (\<lambda>q. removeAll t (qs q)) (T - {t})"
  by (auto simp: linked_def distinct_removeAll)

lemma linked_link_at:
  assumes "linked tb qs (T - {t})" "home (tb t) = Some q" "t \<in> T"
    "distinct xs" "set xs = insert t (set (qs q))"
  shows "linked tb (qs(q := xs)) T"
  using assms by (auto simp: linked_def)

lemma linked_link:
  assumes "linked tb qs (T - {t})" "home (tb t) = Some q" "t \<in> T"
  shows "linked tb (qs(q := qs q @ [t])) T"
  by (rule linked_link_at[OF assms]) (use assms(1) in \<open>auto simp: linked_def\<close>)

lemma linked_nolink: "linked tb qs (T - {t}) \<Longrightarrow> home (tb t) = None \<Longrightarrow> linked tb qs T"
  by (auto simp: linked_def)

lemma linked_upd: "linked tb qs (T - {t}) \<Longrightarrow> linked (tb(t := b)) qs (T - {t})"
  by (auto simp: linked_def)

lemma linked_same_home:
  "linked tb qs T \<Longrightarrow> home b = home (tb t) \<Longrightarrow> linked (tb(t := b)) qs T"
  by (auto simp: linked_def)

lemma task_inv_same_home:
  "task_inv s \<Longrightarrow> home (f (tcb s t)) = home (tcb s t) \<Longrightarrow> task_inv (upd_tcb t f s)"
  by (simp add: task_inv_def kdefs linked_same_home)

lemma task_inv_x_upd: "task_inv_x t s \<Longrightarrow> task_inv_x t (upd_tcb t f s)"
  by (simp add: task_inv_x_def kdefs linked_upd)

lemma task_inv_unlink: "task_inv s \<Longrightarrow> task_inv_x t (que_remove t s)"
  by (simp add: task_inv_def task_inv_x_def kdefs linked_unlink)

lemma task_inv_link:
  "task_inv_x t s \<Longrightarrow> home (tcb s t) = Some q \<Longrightarrow> t < NUM_TSKID \<Longrightarrow> task_inv (que_insert t q s)"
  by (simp add: task_inv_def task_inv_x_def kdefs linked_link)

lemma task_inv_nolink:
  "task_inv_x t s \<Longrightarrow> home (tcb s t) = None \<Longrightarrow> task_inv s"
  by (auto simp: task_inv_def task_inv_x_def intro: linked_nolink)

lemma task_inv_mem:
  "task_inv s \<Longrightarrow> t \<in> set (que s q) \<longleftrightarrow> t < NUM_TSKID \<and> home (tcb s t) = Some q"
  by (auto simp: task_inv_def linked_def)

lemma home_simps [simp]:
  "state b = TS_NONEXIST \<Longrightarrow> home b = Some QFreeTcb"
  "state b = TS_READY \<Longrightarrow> home b = Some (QRdy (priority b))"
  "in_wait (state b) \<Longrightarrow> home b = wait_home (wspec b) (wid b)"
  "state b = TS_SUSPEND \<Longrightarrow> home b = None"
  "state b = TS_DORMANT \<Longrightarrow> home b = None"
  by (auto simp: home_def in_wait_iff)

lemma wait_home_not_ready [simp]:
  "wait_home w i \<noteq> Some (QRdy p)" "wait_home w i \<noteq> Some QFreeTcb"
  "Some (QRdy p) \<noteq> wait_home w i" "Some QFreeTcb \<noteq> wait_home w i"
  by (cases w; simp)+

lemma home_QRdy [simp]: "home b = Some (QRdy p) \<longleftrightarrow> state b = TS_READY \<and> priority b = p"
  by (cases "state b") (auto simp: home_def)

section \<open>READY transitions\<close>

lemma schedtsk_irrelevant [simp]:
  "knl_ready_queue_top (s\<lparr>schedtsk := x\<rparr>) = knl_ready_queue_top s"
  "rq_inv (s\<lparr>schedtsk := x\<rparr>) = rq_inv s"
  "klock_free (s\<lparr>schedtsk := x\<rparr>) = klock_free s"
  by (simp_all add: knl_ready_queue_top_def rq_inv_def klock_free_def split: option.split)

lemma rq_inv_upd_tcb [simp]: "rq_inv (upd_tcb t f s) = rq_inv s"
  by (simp add: rq_inv_def kdefs)

lemma top_upd_tcb [simp]: "knl_ready_queue_top (upd_tcb t f s) = knl_ready_queue_top s"
  by (simp add: knl_ready_queue_top_def kdefs split: option.split)

lemma klock_free_upd_tcb:
  "klock_free s \<Longrightarrow> (\<And>b. \<not> klocked b \<and> \<not> klockwait b \<Longrightarrow> \<not> klocked (f b) \<and> \<not> klockwait (f b)) \<Longrightarrow>
     klock_free (upd_tcb t f s)"
  by (simp add: klock_free_def kdefs)

lemma sched_ok_upd_tcb:
  "sched_ok s \<Longrightarrow> (\<And>b. \<not> klocked b \<and> \<not> klockwait b \<Longrightarrow> \<not> klocked (f b) \<and> \<not> klockwait (f b)) \<Longrightarrow>
     sched_ok (upd_tcb t f s)"
  by (simp add: sched_ok_def klock_free_upd_tcb) (simp add: kdefs)

lemma rq_delete_que [simp]:
  "que (knl_ready_queue_delete t s) = (\<lambda>q. removeAll t (que s q))"
  by (simp add: knl_ready_queue_delete_def Let_def kdefs)

lemma rq_delete_frame [simp, frame]:
  "schedtsk (knl_ready_queue_delete t s) = schedtsk s"
  "ctxtsk (knl_ready_queue_delete t s) = ctxtsk s"
  "timer_queue (knl_ready_queue_delete t s) = timer_queue s"
  "tmeb_time (knl_ready_queue_delete t s) = tmeb_time s"
  "current_time (knl_ready_queue_delete t s) = current_time s"
  "umem (knl_ready_queue_delete t s) = umem s"
  "dispatch_disabled (knl_ready_queue_delete t s) = dispatch_disabled s"
  "taskindp (knl_ready_queue_delete t s) = taskindp s"
  "kstate.more (knl_ready_queue_delete t s) = kstate.more s"
  by (simp_all add: knl_ready_queue_delete_def Let_def kdefs)

lemma rq_delete_tcb [simp]:
  "\<not> klockwait (tcb s t) \<Longrightarrow> tcb (knl_ready_queue_delete t s) = tcb s"
  by (simp add: knl_ready_queue_delete_def Let_def kdefs)

lemma rq_delete_klocktsk [simp]:
  "klocktsk s = None \<Longrightarrow> klocktsk (knl_ready_queue_delete t s) = None"
  by (simp add: knl_ready_queue_delete_def Let_def kdefs)

lemma klock_freeD:
  assumes "klock_free s"
  shows "klocktsk s = None" "\<not> klocked (tcb s t)" "\<not> klockwait (tcb s t)"
  using assms by (auto simp: klock_free_def)

lemma make_ready_tcb [simp]:
  "tcb (knl_make_ready t s) = (tcb s)(t := (tcb s t)\<lparr>state := TS_READY\<rparr>)"
  by (simp add: knl_make_ready_def knl_ready_queue_insert_def Let_def kdefs split: prod.splits bool.splits)

lemma make_ready_que [simp]:
  "que (knl_make_ready t s) =
     (que s)(QRdy (priority (tcb s t)) := que s (QRdy (priority (tcb s t))) @ [t])"
  by (simp add: knl_make_ready_def knl_ready_queue_insert_def Let_def kdefs split: prod.splits bool.splits)

lemma make_ready_frame [simp, frame]:
  "ctxtsk (knl_make_ready t s) = ctxtsk s"
  "timer_queue (knl_make_ready t s) = timer_queue s"
  "tmeb_time (knl_make_ready t s) = tmeb_time s"
  "current_time (knl_make_ready t s) = current_time s"
  "umem (knl_make_ready t s) = umem s"
  "dispatch_disabled (knl_make_ready t s) = dispatch_disabled s"
  "taskindp (knl_make_ready t s) = taskindp s"
  "kstate.more (knl_make_ready t s) = kstate.more s"
  by (simp_all add: knl_make_ready_def knl_ready_queue_insert_def Let_def kdefs
      split: prod.splits bool.splits)

lemma task_inv_make_ready:
  assumes "task_inv_x t s" "t < NUM_TSKID"
  shows "task_inv (knl_make_ready t s)"
proof -
  have "linked ((tcb s)(t := (tcb s t)\<lparr>state := TS_READY\<rparr>)) (que s) ({..<NUM_TSKID} - {t})"
    using assms(1) by (simp add: task_inv_x_def linked_upd)
  from linked_link[OF this, of "QRdy (priority (tcb s t))"] assms(2) show ?thesis
    by (simp add: task_inv_def)
qed

text \<open>
  A task that becomes ready preempts \<^verbatim>\<open>knl_schedtsk\<close> exactly when its priority is
  higher than every ready priority.
\<close>

lemma make_ready_rq:
  assumes "klock_free s"
  shows "klocktsk (knl_make_ready t s) = None"
    "bitmap (knl_make_ready t s) = bitmap s OR 2 ^ priority (tcb s t)"
    "top_priority (knl_make_ready t s) = min (priority (tcb s t)) (top_priority s)"
    "schedtsk (knl_make_ready t s) =
       (if priority (tcb s t) < top_priority s then Some t else schedtsk s)"
  using assms
  by (simp_all add: knl_make_ready_def knl_ready_queue_insert_def Let_def kdefs min_def klock_freeD)

lemma klock_free_make_ready: "klock_free s \<Longrightarrow> klock_free (knl_make_ready t s)"
  by (simp add: klock_free_def make_ready_rq)

lemma rq_inv_make_ready:
  assumes "rq_inv s" "klock_free s" "priority (tcb s t) < NUM_TSKPRI"
  shows "rq_inv (knl_make_ready t s)"
  using assms by (auto simp: rq_inv_def make_ready_rq consts_defs min_def)

lemma sched_ok_make_ready:
  assumes ok: "sched_ok s" and p: "priority (tcb s t) < NUM_TSKPRI"
  shows "sched_ok (knl_make_ready t s)"
proof -
  let ?p = "priority (tcb s t)"
  have inv: "rq_inv s" and kf: "klock_free s" and sc: "schedtsk s = knl_ready_queue_top s"
    using ok by (simp_all add: sched_ok_def)
  note r = rq_inv_make_ready[OF inv kf p] and k = klock_free_make_ready[OF kf]
  have "schedtsk (knl_make_ready t s) = knl_ready_queue_top (knl_make_ready t s)"
  proof (cases "?p < top_priority s")
    case True
    then have "que s (QRdy ?p) = []" using inv by (simp add: rq_inv_def)
    with True p kf show ?thesis by (simp add: knl_ready_queue_top_def make_ready_rq min_def)
  next
    case False
    then have ne: "que s (QRdy (top_priority s)) \<noteq> []" and "top_priority s < NUM_TSKPRI"
      using inv p by (auto simp: rq_inv_def)
    with False kf sc show ?thesis
      by (auto simp: knl_ready_queue_top_def make_ready_rq min_def klock_freeD split: list.splits)
  qed
  with r k show ?thesis by (simp add: sched_ok_def)
qed

lemma make_non_ready_que [simp]:
  "que (knl_make_non_ready t s) = (\<lambda>q. removeAll t (que s q))"
  by (simp add: knl_make_non_ready_def Let_def)

lemma make_non_ready_frame [simp, frame]:
  "ctxtsk (knl_make_non_ready t s) = ctxtsk s"
  "timer_queue (knl_make_non_ready t s) = timer_queue s"
  "tmeb_time (knl_make_non_ready t s) = tmeb_time s"
  "current_time (knl_make_non_ready t s) = current_time s"
  "umem (knl_make_non_ready t s) = umem s"
  "dispatch_disabled (knl_make_non_ready t s) = dispatch_disabled s"
  "taskindp (knl_make_non_ready t s) = taskindp s"
  "kstate.more (knl_make_non_ready t s) = kstate.more s"
  "\<not> klockwait (tcb s t) \<Longrightarrow> tcb (knl_make_non_ready t s) = tcb s"
  by (simp_all add: knl_make_non_ready_def Let_def)

lemma task_inv_make_non_ready:
  assumes "task_inv s" "klock_free s"
  shows "task_inv_x t (knl_make_non_ready t s)"
  using assms by (simp add: task_inv_x_def task_inv_def linked_unlink klock_freeD)

lemma rq_delete_ready_inv:
  assumes "task_inv s" "sched_ok s" "state (tcb s t) = TS_READY" "t < NUM_TSKID"
    "priority (tcb s t) < NUM_TSKPRI"
  shows "rq_inv (knl_ready_queue_delete t s)"
  using assms task_inv_mem[OF assms(1)]
  by (intro rq_delete_inv) (auto simp: sched_ok_def klock_freeD)

lemma sched_ok_make_non_ready:
  assumes ti: "task_inv s" and ok: "sched_ok s" and st: "state (tcb s t) = TS_READY"
    and t: "t < NUM_TSKID" "priority (tcb s t) < NUM_TSKPRI"
  shows "sched_ok (knl_make_non_ready t s)"
proof -
  let ?d = "knl_ready_queue_delete t s"
  have r: "rq_inv ?d" by (rule rq_delete_ready_inv) fact+
  have inv: "rq_inv s" and kf: "klock_free s" and sc: "schedtsk s = knl_ready_queue_top s"
    using ok by (auto simp: sched_ok_def)
  have kd: "klock_free ?d" using kf by (simp add: klock_free_def)
  show ?thesis
  proof (cases "schedtsk s = Some t")
    case True
    with r kd show ?thesis by (simp add: knl_make_non_ready_def sched_ok_def Let_def)
  next
    case False
    have "t \<in> set (que s (QRdy (priority (tcb s t))))"
      using task_inv_mem[OF ti] st t by simp
    then have "knl_ready_queue_top s \<noteq> None"
      using rq_top_None_iff[OF inv] kf by (metis empty_iff klock_freeD(1) list.set(1))
    then obtain u where u: "knl_ready_queue_top s = Some u" "u \<noteq> t" using False sc by auto
    from rq_top_SomeD[OF inv _ u(1)] kf obtain us
      where us: "que s (QRdy (top_priority s)) = u # us"
      by (metis klock_freeD(1) list.exhaust_sel list.set_cases list.sel(1))
    have "knl_ready_queue_top ?d = Some (hd (que ?d (QRdy (top_priority s))))"
      by (rule rq_top_eq[OF r]) (use kf us u inv in \<open>auto simp: rq_inv_def klock_freeD\<close>)
    with us u sc False r kd show ?thesis
      by (simp add: knl_make_non_ready_def sched_ok_def Let_def)
  qed
qed

lemma sched_ok_reschedule:
  "rq_inv s \<Longrightarrow> klock_free s \<Longrightarrow> sched_ok (knl_reschedule s)"
  by (simp add: knl_reschedule_def sched_ok_def Let_def)

end
