(* ===== verification/Timer.thy ===== *)
theory Timer
  imports Task
begin

text \<open>
  The software timer of \<^verbatim>\<open>kernel/tkernel/timer.h\<close> and \<^verbatim>\<open>timer.c\<close>: absolute times are
  32-bit values that wrap around, compared relative to the current time; the timer queue is kept in
  order of expiry. The tick handler calls back into the owners of the events and is completed in
  \<open>Tick\<close>; here its loop is stated over an arbitrary callback.
\<close>

section \<open>Times\<close>

text \<open>\<^verbatim>\<open>SYSTIM\<close>: a 64-bit time as a signed upper and an unsigned lower half.\<close>

record SYSTIM =
  systim_hi :: "32 word"
  systim_lo :: "32 word"

definition knl_toLSYSTIM :: "SYSTIM \<Rightarrow> LSYSTIM" where
  "knl_toLSYSTIM tm = (push_bit 32 (scast (systim_hi tm)) :: LSYSTIM) OR ucast (systim_lo tm)"

definition knl_toSYSTIM :: "LSYSTIM \<Rightarrow> SYSTIM" where
  "knl_toSYSTIM ltime =
     \<lparr>systim_hi = ucast (signed_drop_bit 32 ltime), systim_lo = ucast ltime\<rparr>"

definition lltoul :: "LSYSTIM \<Rightarrow> ABSTIM" where
  "lltoul a = ucast a"

definition ABSTIM_DIFF_MIN :: ABSTIM where
  "ABSTIM_DIFF_MIN = 0x7FFFFFFF"

definition knl_abstim_reached :: "ABSTIM \<Rightarrow> ABSTIM \<Rightarrow> bool" where
  "knl_abstim_reached curtim evttim \<longleftrightarrow> curtim - evttim \<le> ABSTIM_DIFF_MIN"

section \<open>The timer queue\<close>

definition knl_timer_startup :: "'a kstate_scheme \<Rightarrow> ER \<times> 'a kstate_scheme" where
  "knl_timer_startup s = (E_OK, s\<lparr>current_time := 0, real_time_ofs := 0, timer_queue := []\<rparr>)"

definition timer_ofs :: "'a kstate_scheme \<Rightarrow> ABSTIM" where
  "timer_ofs s = lltoul (current_time s) - ABSTIM_DIFF_MIN"

definition knl_enqueue_tmeb :: "TMEB \<Rightarrow> 'a kstate_scheme \<Rightarrow> 'a kstate_scheme" where
  "knl_enqueue_tmeb event s =
     (let ofs = timer_ofs s in
      s\<lparr>timer_queue :=
          insert_before (\<lambda>q. tmeb_time s event - ofs < tmeb_time s q - ofs) event (timer_queue s)\<rparr>)"

text \<open>
  With \<^verbatim>\<open>TMO_FEVR\<close> the event block is only initialised: it is in no queue.
\<close>

definition knl_timer_insert :: "TMEB \<Rightarrow> TMO \<Rightarrow> 'a kstate_scheme \<Rightarrow> 'a kstate_scheme" where
  "knl_timer_insert event tmout s =
     (if tmout = TMO_FEVR then s
      else knl_enqueue_tmeb event
        (s\<lparr>tmeb_time := (tmeb_time s)
             (event := lltoul (current_time s) + word_of_int tmout + of_nat TIMER_PERIOD)\<rparr>))"

definition knl_timer_insert_reltim :: "TMEB \<Rightarrow> RELTIM \<Rightarrow> 'a kstate_scheme \<Rightarrow> 'a kstate_scheme" where
  "knl_timer_insert_reltim event tmout s =
     knl_enqueue_tmeb event
       (s\<lparr>tmeb_time := (tmeb_time s)
            (event := lltoul (current_time s) + tmout + of_nat TIMER_PERIOD)\<rparr>)"

definition knl_timer_insert_abs :: "TMEB \<Rightarrow> ABSTIM \<Rightarrow> 'a kstate_scheme \<Rightarrow> 'a kstate_scheme" where
  "knl_timer_insert_abs evt time s =
     knl_enqueue_tmeb evt (s\<lparr>tmeb_time := (tmeb_time s)(evt := time)\<rparr>)"

definition knl_timer_delete :: "TMEB \<Rightarrow> 'a kstate_scheme \<Rightarrow> 'a kstate_scheme" where
  "knl_timer_delete event s = s\<lparr>timer_queue := removeAll event (timer_queue s)\<rparr>"

text \<open>The loop of the tick handler over its callback; \<open>None\<close> if it does not end.\<close>

partial_function (option) timer_loop ::
    "(TMEB \<Rightarrow> 'a kstate_scheme \<Rightarrow> 'a kstate_scheme option) \<Rightarrow> ABSTIM \<Rightarrow> 'a kstate_scheme \<Rightarrow>
     'a kstate_scheme option" where
  "timer_loop cb cur s =
     (case timer_queue s of
        [] \<Rightarrow> Some s
      | event # rest \<Rightarrow>
          if \<not> knl_abstim_reached cur (tmeb_time s event) then Some s
          else Option.bind (cb event (s\<lparr>timer_queue := rest\<rparr>)) (timer_loop cb cur))"

section \<open>Times: round trip and exactness\<close>

lemma knl_toLSYSTIM_toSYSTIM: "knl_toLSYSTIM (knl_toSYSTIM t) = t"
  by (rule bit_word_eqI)
    (auto simp: knl_toLSYSTIM_def knl_toSYSTIM_def bit_simps not_less le_Suc_ex)

lemma knl_toSYSTIM_toLSYSTIM: "knl_toSYSTIM (knl_toLSYSTIM u) = u"
proof -
  have "systim_hi (knl_toSYSTIM (knl_toLSYSTIM u)) = systim_hi u"
    by (rule bit_word_eqI) (auto simp: knl_toSYSTIM_def knl_toLSYSTIM_def bit_simps dest: bit_imp_le_length)
  moreover have "systim_lo (knl_toSYSTIM (knl_toLSYSTIM u)) = systim_lo u"
    by (rule bit_word_eqI) (auto simp: knl_toSYSTIM_def knl_toLSYSTIM_def bit_simps)
  ultimately show ?thesis by (cases u) (simp add: knl_toSYSTIM_def)
qed

lemma abstim_reached_iff:
  "knl_abstim_reached c t \<longleftrightarrow> t - (c - ABSTIM_DIFF_MIN) \<le> ABSTIM_DIFF_MIN"
  unfolding knl_abstim_reached_def ABSTIM_DIFF_MIN_def by uint_arith

lemma abstim_reached_exact:
  assumes "k < n + 2 ^ 31" "n \<le> k + 2 ^ 31"
  shows "knl_abstim_reached (c + of_nat k) (c + of_nat n) \<longleftrightarrow> n \<le> k"
proof -
  have "c + of_nat k - (c + of_nat n) = (word_of_int (int k - int n) :: ABSTIM)" by simp
  then have "uint (c + of_nat k - (c + of_nat n) :: ABSTIM) = (int k - int n) mod 2 ^ 32"
    by (simp only: uint_word_of_int) simp
  moreover have "(int k - int n) mod 2 ^ 32 = (if n \<le> k then int k - int n else 2 ^ 32 + int k - int n)"
  proof (cases "n \<le> k")
    case False
    have "(int k - int n) mod 2 ^ 32 = (2 ^ 32 + (int k - int n)) mod 2 ^ 32" by simp
    also have "\<dots> = 2 ^ 32 + (int k - int n)" using False assms by (intro mod_pos_pos_trivial) auto
    finally show ?thesis using False by simp
  qed (use assms in \<open>simp add: mod_pos_pos_trivial\<close>)
  ultimately show ?thesis
    using assms by (auto simp: knl_abstim_reached_def ABSTIM_DIFF_MIN_def word_le_def)
qed

text \<open>
  A timeout \<open>tmout\<close> accepted by the checks expires on tick \<open>tmout + TIMER_PERIOD\<close>,
  not earlier and not later, whatever the current value of the wrapping clock.
\<close>

lemma timeout_exact:
  assumes "0 \<le> tmout" "tmout \<le> INT_MAX" "k \<le> 2 ^ 31"
  shows "knl_abstim_reached (c + of_nat k) (c + word_of_int tmout + of_nat TIMER_PERIOD)
           \<longleftrightarrow> tmout + 1 \<le> int k"
proof -
  have "c + word_of_int tmout + of_nat TIMER_PERIOD = c + of_nat (Suc (nat tmout))"
    using assms by (simp add: consts_defs)
  moreover have "knl_abstim_reached (c + of_nat k) (c + of_nat (Suc (nat tmout))) \<longleftrightarrow> Suc (nat tmout) \<le> k"
    by (rule abstim_reached_exact) (use assms in \<open>auto simp: consts_defs\<close>)
  ultimately show ?thesis using assms by (simp only:) auto
qed

section \<open>The queue is ordered by expiry\<close>

definition tkey :: "'a kstate_scheme \<Rightarrow> TMEB \<Rightarrow> ABSTIM" where
  "tkey s e = tmeb_time s e - timer_ofs s"

definition timer_sorted :: "'a kstate_scheme \<Rightarrow> bool" where
  "timer_sorted s \<longleftrightarrow> distinct (timer_queue s) \<and> sorted (map (tkey s) (timer_queue s))"

definition timer_pending :: "'a kstate_scheme \<Rightarrow> bool" where
  "timer_pending s \<longleftrightarrow>
     (\<forall>e \<in> set (timer_queue s). \<not> knl_abstim_reached (lltoul (current_time s)) (tmeb_time s e))"

lemma reached_tkey:
  "knl_abstim_reached (lltoul (current_time s)) (tmeb_time s e) \<longleftrightarrow> tkey s e \<le> ABSTIM_DIFF_MIN"
  by (simp add: abstim_reached_iff tkey_def timer_ofs_def)

lemma timer_frame [simp, frame]:
  "tcb (knl_enqueue_tmeb e s) = tcb s" "que (knl_enqueue_tmeb e s) = que s"
  "tcb (knl_timer_insert e tm s) = tcb s" "que (knl_timer_insert e tm s) = que s"
  "tcb (knl_timer_insert_reltim e rt s) = tcb s" "que (knl_timer_insert_reltim e rt s) = que s"
  "tcb (knl_timer_insert_abs e at s) = tcb s" "que (knl_timer_insert_abs e at s) = que s"
  "tcb (knl_timer_delete e s) = tcb s" "que (knl_timer_delete e s) = que s"
  "current_time (knl_timer_insert e tm s) = current_time s"
  "current_time (knl_timer_insert_reltim e rt s) = current_time s"
  "current_time (knl_timer_delete e s) = current_time s"
  "tmeb_time (knl_timer_delete e s) = tmeb_time s"
  "kstate.more (knl_timer_insert e tm s) = kstate.more s"
  "kstate.more (knl_timer_insert_reltim e rt s) = kstate.more s"
  "kstate.more (knl_timer_insert_abs e at s) = kstate.more s"
  "kstate.more (knl_timer_delete e s) = kstate.more s"
  "ctxtsk (knl_timer_insert e tm s) = ctxtsk s"
  "ctxtsk (knl_timer_insert_reltim e rt s) = ctxtsk s"
  "ctxtsk (knl_timer_delete e s) = ctxtsk s"
  "umem (knl_timer_insert e tm s) = umem s" "umem (knl_timer_delete e s) = umem s"
  by (simp_all add: knl_timer_insert_def knl_enqueue_tmeb_def knl_timer_insert_reltim_def
      knl_timer_insert_abs_def knl_timer_delete_def Let_def)

lemma timer_queue_delete [simp]: "timer_queue (knl_timer_delete e s) = removeAll e (timer_queue s)"
  by (simp add: knl_timer_delete_def)

lemma set_timer_insert [simp]:
  "set (timer_queue (knl_timer_insert e tm s)) =
     (if tm = TMO_FEVR then set (timer_queue s) else insert e (set (timer_queue s)))"
  "set (timer_queue (knl_timer_insert_reltim e rt s)) = insert e (set (timer_queue s))"
  "set (timer_queue (knl_timer_insert_abs e at s)) = insert e (set (timer_queue s))"
  by (simp_all add: knl_timer_insert_def knl_enqueue_tmeb_def knl_timer_insert_reltim_def
      knl_timer_insert_abs_def Let_def)

lemma distinct_timer_insert [simp]:
  assumes "e \<notin> set (timer_queue s)"
  shows "distinct (timer_queue (knl_timer_insert e tm s)) = distinct (timer_queue s)"
    "distinct (timer_queue (knl_timer_insert_reltim e rt s)) = distinct (timer_queue s)"
    "distinct (timer_queue (knl_timer_insert_abs e at s)) = distinct (timer_queue s)"
  using assms
  by (simp_all add: knl_timer_insert_def knl_enqueue_tmeb_def knl_timer_insert_reltim_def
      knl_timer_insert_abs_def Let_def)

lemma sched_ok_cong:
  assumes "rq_inv s \<Longrightarrow> rq_inv s'" "klocktsk s' = klocktsk s" "tcb s' = tcb s"
    "schedtsk s' = schedtsk s" "knl_ready_queue_top s' = knl_ready_queue_top s"
  shows "sched_ok s \<Longrightarrow> sched_ok s'"
  using assms by (simp add: sched_ok_def klock_free_def)

lemma sched_ok_timer_queue [simp]:
  "sched_ok (s\<lparr>timer_queue := x\<rparr>) = sched_ok s" "sched_ok (s\<lparr>tmeb_time := y\<rparr>) = sched_ok s"
  "sched_ok (s\<lparr>current_time := z\<rparr>) = sched_ok s" "sched_ok (s\<lparr>umem := m\<rparr>) = sched_ok s"
  by (simp_all add: sched_ok_def rq_inv_def klock_free_def knl_ready_queue_top_def
      split: option.split)

lemma sched_ok_timer [simp]:
  "sched_ok (knl_timer_insert e tm s) = sched_ok s"
  "sched_ok (knl_timer_insert_reltim e rt s) = sched_ok s"
  "sched_ok (knl_timer_insert_abs e at s) = sched_ok s"
  "sched_ok (knl_timer_delete e s) = sched_ok s"
  by (simp_all add: knl_timer_insert_def knl_enqueue_tmeb_def knl_timer_insert_reltim_def
      knl_timer_insert_abs_def knl_timer_delete_def Let_def)

lemma timer_sorted_enqueue:
  assumes "timer_sorted s" "e \<notin> set (timer_queue s)"
  shows "timer_sorted (knl_enqueue_tmeb e (s\<lparr>tmeb_time := (tmeb_time s)(e := at)\<rparr>))"
proof -
  let ?s = "s\<lparr>tmeb_time := (tmeb_time s)(e := at)\<rparr>"
  have "map (tkey ?s) (timer_queue s) = map (tkey s) (timer_queue s)"
    using assms(2) by (auto simp: tkey_def timer_ofs_def)
  then have "sorted (map (tkey ?s) (timer_queue s))"
    using assms(1) unfolding timer_sorted_def by (simp only:)
  from sorted_insert_before[OF this, of e]
  have "sorted (map (tkey ?s) (timer_queue (knl_enqueue_tmeb e ?s)))"
    by (simp add: knl_enqueue_tmeb_def Let_def tkey_def)
  moreover have "tkey (knl_enqueue_tmeb e ?s) = tkey ?s"
    by (simp add: fun_eq_iff tkey_def timer_ofs_def knl_enqueue_tmeb_def Let_def)
  ultimately show ?thesis
    using assms by (simp add: timer_sorted_def) (simp add: knl_enqueue_tmeb_def Let_def)
qed

lemma timer_sorted_insert:
  assumes "timer_sorted s" "e \<notin> set (timer_queue s)"
  shows "timer_sorted (knl_timer_insert e tm s)" "timer_sorted (knl_timer_insert_reltim e rt s)"
    "timer_sorted (knl_timer_insert_abs e at s)"
  using assms timer_sorted_enqueue[OF assms]
  by (auto simp: knl_timer_insert_def knl_timer_insert_reltim_def knl_timer_insert_abs_def)

lemma timer_sorted_delete: "timer_sorted s \<Longrightarrow> timer_sorted (knl_timer_delete e s)"
proof -
  have "tkey (knl_timer_delete e s) = tkey s"
    by (simp add: fun_eq_iff tkey_def timer_ofs_def)
  moreover have "sorted (map (tkey s) xs) \<Longrightarrow> sorted (map (tkey s) (removeAll e xs))" for xs
    by (induction xs) auto
  ultimately show "timer_sorted s \<Longrightarrow> ?thesis"
    by (simp add: timer_sorted_def distinct_removeAll)
qed

end
