(* ===== verification/Object_Table.thy ===== *)
theory Object_Table
  imports Kernel_State
begin

text \<open>
  The contract that all object managers share for their control block tables: a block is in use
  exactly when its identifier is set, the others are linked to the free list; creation takes the
  first free block, deletion returns it at the end. Each object manager interprets the locale
  \<open>object_table\<close> on its own creation and deletion.
\<close>

definition cb_table_inv :: "nat \<Rightarrow> (nat \<Rightarrow> ID) \<Rightarrow> nat list \<Rightarrow> bool" where
  "cb_table_inv num ids fr \<longleftrightarrow>
     distinct fr \<and> set fr = {i. i < num \<and> ids i = 0} \<and> (\<forall>i < num. ids i = 0 \<or> ids i = ID_OBJ i)"

definition live :: "nat \<Rightarrow> (nat \<Rightarrow> ID) \<Rightarrow> nat set" where
  "live num ids = {i. i < num \<and> ids i \<noteq> 0}"

lemma ID_OBJ_pos [simp]: "ID_OBJ i \<noteq> 0" "0 < ID_OBJ i" "ID_OBJ i = ID_OBJ j \<longleftrightarrow> i = j"
  by (simp_all add: kdefs)

lemma cb_table_take:
  "cb_table_inv num ids (i # fs) \<Longrightarrow> cb_table_inv num (ids(i := ID_OBJ i)) fs"
  unfolding cb_table_inv_def by auto

lemma cb_table_give:
  "cb_table_inv num ids fs \<Longrightarrow> i < num \<Longrightarrow> ids i \<noteq> 0 \<Longrightarrow> cb_table_inv num (ids(i := 0)) (fs @ [i])"
  unfolding cb_table_inv_def by auto

lemma cb_table_count:
  assumes "cb_table_inv num ids fs"
  shows "card (live num ids) + length fs = num"
proof -
  have "live num ids \<union> set fs = {..<num}" "live num ids \<inter> set fs = {}"
    using assms by (auto simp: live_def cb_table_inv_def)
  moreover have "finite (live num ids)" by (simp add: live_def)
  ultimately have "card (live num ids) + card (set fs) = card {..<num}"
    by (metis List.finite_set card_Un_disjoint)
  moreover have "card (set fs) = length fs"
    using assms distinct_card[of fs] unfolding cb_table_inv_def by blast
  ultimately show ?thesis by simp
qed

lemma cb_table_initial:
  assumes "\<And>i. i < num \<Longrightarrow> ids i = 0"
  shows "cb_table_inv num ids [0..<num]"
  using assms by (auto simp: cb_table_inv_def)

locale object_table =
  fixes num :: nat
    and ids :: "'s \<Rightarrow> nat \<Rightarrow> ID"
    and fr :: "'s \<Rightarrow> nat list"
    and create :: "'p \<Rightarrow> 's \<Rightarrow> ID \<times> 's"
    and delete :: "nat \<Rightarrow> 's \<Rightarrow> 's"
  assumes create_full: "fr s = [] \<Longrightarrow> create p s = (E_LIMIT, s)"
    and create_take: "fr s = i # fs \<Longrightarrow>
          fst (create p s) = ID_OBJ i \<and> fr (snd (create p s)) = fs \<and>
          ids (snd (create p s)) = (ids s)(i := ID_OBJ i)"
    and delete_give: "fr (delete i s) = fr s @ [i] \<and> ids (delete i s) = (ids s)(i := 0)"
begin

lemma create_inv:
  "cb_table_inv num (ids s) (fr s) \<Longrightarrow>
     cb_table_inv num (ids (snd (create p s))) (fr (snd (create p s)))"
  using create_full[of s p] create_take[of s _ _ p] cb_table_take[of num "ids s"]
  by (cases "fr s") auto

lemma delete_inv:
  "cb_table_inv num (ids s) (fr s) \<Longrightarrow> i < num \<Longrightarrow> ids s i \<noteq> 0 \<Longrightarrow>
     cb_table_inv num (ids (delete i s)) (fr (delete i s))"
  using delete_give cb_table_give[of num "ids s"] by simp

text \<open>A new object gets an identifier that is valid and was not in use.\<close>

lemma create_fresh:
  assumes "cb_table_inv num (ids s) (fr s)" "0 < fst (create p s)"
  shows "CHK_OBJID num (fst (create p s))" "ids s (INDEX_OBJ (fst (create p s))) = 0"
    "ids (snd (create p s)) (INDEX_OBJ (fst (create p s))) = fst (create p s)"
proof -
  obtain i fs where f: "fr s = i # fs" using assms(2) create_full[of s p]
    by (cases "fr s") (auto simp: consts_defs)
  then have "i < num" "ids s i = 0" using assms(1) by (auto simp: cb_table_inv_def)
  with create_take[OF f, of p] CHK_OBJID_ID_OBJ[of i num]
  show "CHK_OBJID num (fst (create p s))" "ids s (INDEX_OBJ (fst (create p s))) = 0"
    "ids (snd (create p s)) (INDEX_OBJ (fst (create p s))) = fst (create p s)"
    by simp_all
qed

text \<open>Creation fails exactly when all blocks are in use.\<close>

lemma create_limit:
  assumes "cb_table_inv num (ids s) (fr s)"
  shows "fst (create p s) = E_LIMIT \<longleftrightarrow> card (live num (ids s)) = num"
proof (cases "fr s")
  case Nil
  with cb_table_count[OF assms] create_full[OF Nil, of p] show ?thesis by simp
next
  case (Cons i fs)
  then have "fst (create p s) \<noteq> E_LIMIT"
    using create_take[OF Cons, of p] by (simp add: consts_defs kdefs)
  with cb_table_count[OF assms] Cons show ?thesis by simp
qed

text \<open>After a deletion the next creation succeeds.\<close>

lemma delete_create: "0 < fst (create p (delete i s))"
proof -
  have "fr (delete i s) \<noteq> []" by (simp add: delete_give)
  then obtain j fs where "fr (delete i s) = j # fs" by (cases "fr (delete i s)") auto
  from create_take[OF this, of p] show ?thesis by simp
qed

end

end
