(* ===== verification/Wait.thy ===== *)
theory Wait
  imports Timer Object_Table
begin

text \<open>
  The common synchronisation routines of \<^verbatim>\<open>kernel/tkernel/wait.h\<close> and \<^verbatim>\<open>wait.c\<close>: entering
  and releasing the WAIT state, prioritised wait queues, and the generic control block operations
  that all object managers share. A generic control block is given by its wait queue, its object
  identifier and its attribute. The release hook of a wait specification belongs to the object
  managers, so the two routines that call it take it as an argument; the locale
  \<open>release_hook\<close> is the contract they rely on.
\<close>

section \<open>Operations\<close>

definition set_wercd :: "nat \<Rightarrow> ER \<Rightarrow> 'a kstate_scheme \<Rightarrow> 'a kstate_scheme" where
  [kdefs]: "set_wercd t e s = upd_tcb t (\<lambda>b. b\<lparr>wercd := map_option (\<lambda>_. e) (wercd b)\<rparr>) s"

definition knl_wait_cancel :: "nat \<Rightarrow> 'a kstate_scheme \<Rightarrow> 'a kstate_scheme" where
  "knl_wait_cancel t s = que_remove t (knl_timer_delete (TM_TSK t) s)"

definition knl_make_non_wait :: "nat \<Rightarrow> 'a kstate_scheme \<Rightarrow> 'a kstate_scheme" where
  "knl_make_non_wait t s =
     (if state (tcb s t) = TS_WAIT then knl_make_ready t s
      else upd_tcb t (state_update (\<lambda>_. TS_SUSPEND)) s)"

definition knl_wait_release :: "nat \<Rightarrow> 'a kstate_scheme \<Rightarrow> 'a kstate_scheme" where
  "knl_wait_release t s = knl_make_non_wait t (que_remove t (knl_timer_delete (TM_TSK t) s))"

definition knl_wait_release_ok :: "nat \<Rightarrow> 'a kstate_scheme \<Rightarrow> 'a kstate_scheme" where
  "knl_wait_release_ok t s = set_wercd t E_OK (knl_wait_release t s)"

definition knl_wait_release_ok_ercd :: "nat \<Rightarrow> ER \<Rightarrow> 'a kstate_scheme \<Rightarrow> 'a kstate_scheme" where
  "knl_wait_release_ok_ercd t ercd s = set_wercd t ercd (knl_wait_release t s)"

text \<open>A hook may change priorities along a chain of mutex owners; \<open>None\<close>: it does not return.\<close>

definition knl_wait_release_ng ::
    "(nat \<Rightarrow> 'a kstate_scheme \<Rightarrow> 'a kstate_scheme option) \<Rightarrow> nat \<Rightarrow> ER \<Rightarrow> 'a kstate_scheme \<Rightarrow>
     'a kstate_scheme option" where
  "knl_wait_release_ng rel_wai_hook t ercd s =
     map_option (set_wercd t ercd) (rel_wai_hook t (knl_wait_release t s))"

definition knl_wait_release_tmout ::
    "(nat \<Rightarrow> 'a kstate_scheme \<Rightarrow> 'a kstate_scheme option) \<Rightarrow> nat \<Rightarrow> 'a kstate_scheme \<Rightarrow>
     'a kstate_scheme option" where
  "knl_wait_release_tmout rel_wai_hook t s = rel_wai_hook t (knl_make_non_wait t (que_remove t s))"

definition make_wait_state :: "nat \<Rightarrow> 'a kstate_scheme \<Rightarrow> 'a kstate_scheme" where
  "make_wait_state c s =
     (case state (tcb s c) of
        TS_READY \<Rightarrow> upd_tcb c (state_update (\<lambda>_. TS_WAIT)) (knl_make_non_ready c s)
      | TS_SUSPEND \<Rightarrow> upd_tcb c (state_update (\<lambda>_. TS_WAITSUS)) s
      | _ \<Rightarrow> s)"

definition knl_make_wait :: "nat \<Rightarrow> TMO \<Rightarrow> 'a kstate_scheme \<Rightarrow> 'a kstate_scheme" where
  "knl_make_wait c tmout s = knl_timer_insert (TM_TSK c) tmout (make_wait_state c s)"

definition knl_make_wait_reltim :: "nat \<Rightarrow> RELTIM \<Rightarrow> 'a kstate_scheme \<Rightarrow> 'a kstate_scheme" where
  "knl_make_wait_reltim c tmout s = knl_timer_insert_reltim (TM_TSK c) tmout (make_wait_state c s)"

definition knl_wait_tskid :: "wobj \<Rightarrow> 'a kstate_scheme \<Rightarrow> ID" where
  "knl_wait_tskid w s = (case que s (QWait w) of [] \<Rightarrow> 0 | t # _ \<Rightarrow> tskid (tcb s t))"

definition knl_queue_insert_tpri :: "nat \<Rightarrow> wobj \<Rightarrow> 'a kstate_scheme \<Rightarrow> 'a kstate_scheme" where
  "knl_queue_insert_tpri t w s =
     s\<lparr>que := (que s)(QWait w :=
          insert_before (\<lambda>u. priority (tcb s u) > priority (tcb s t)) t (que s (QWait w)))\<rparr>"

definition knl_gcb_make_wait ::
    "wobj \<Rightarrow> ID \<Rightarrow> ATR \<Rightarrow> nat \<Rightarrow> TMO \<Rightarrow> 'a kstate_scheme \<Rightarrow> 'a kstate_scheme" where
  "knl_gcb_make_wait w objid objatr c tmout s =
     (let s1 = set_wercd c E_TMOUT s
      in if tmout \<noteq> TMO_POL then
           let s2 = knl_make_wait c tmout (upd_tcb c (wid_update (\<lambda>_. objid)) s1)
           in if objatr AND TA_TPRI \<noteq> 0 then knl_queue_insert_tpri c w s2
              else que_insert c (QWait w) s2
         else s1)"

definition knl_gcb_change_priority :: "wobj \<Rightarrow> nat \<Rightarrow> 'a kstate_scheme \<Rightarrow> 'a kstate_scheme" where
  "knl_gcb_change_priority w t s = knl_queue_insert_tpri t w (que_remove t s)"

definition knl_gcb_top_of_wait_queue :: "wobj \<Rightarrow> ATR \<Rightarrow> nat \<Rightarrow> 'a kstate_scheme \<Rightarrow> nat" where
  "knl_gcb_top_of_wait_queue w objatr t s =
     (case que s (QWait w) of
        [] \<Rightarrow> t
      | q # _ \<Rightarrow> if objatr AND TA_TPRI = 0 then q
                 else if priority (tcb s t) < priority (tcb s q) then t else q)"

text \<open>What a call that may block gives back to its caller.\<close>

definition wait_ret :: "TMO \<Rightarrow> sysret" where
  "wait_ret tmout = (if tmout = TMO_POL then Ret E_TMOUT else Blocked)"

section \<open>Effect of a release\<close>

lemma set_wercd_frame [simp, frame]:
  "que (set_wercd t e s) = que s" "timer_queue (set_wercd t e s) = timer_queue s"
  "ctxtsk (set_wercd t e s) = ctxtsk s" "schedtsk (set_wercd t e s) = schedtsk s"
  "umem (set_wercd t e s) = umem s" "current_time (set_wercd t e s) = current_time s"
  "tmeb_time (set_wercd t e s) = tmeb_time s"
  "kstate.more (set_wercd t e s) = kstate.more s"
  "tcb (set_wercd t e s) = (tcb s)(t := (tcb s t)\<lparr>wercd := map_option (\<lambda>_. e) (wercd (tcb s t))\<rparr>)"
  by (simp_all add: kdefs)

text \<open>The state a task has after its wait is over.\<close>

definition released :: "TCB \<Rightarrow> TSTAT" where
  "released b = (if state b = TS_WAIT then TS_READY else TS_SUSPEND)"

lemma released_simps [simp]: "\<not> in_wait (released b)" "released b \<noteq> TS_NONEXIST"
  by (simp_all add: released_def)

lemma make_non_wait_frame [simp, frame]:
  "timer_queue (knl_make_non_wait t s) = timer_queue s"
  "ctxtsk (knl_make_non_wait t s) = ctxtsk s" "umem (knl_make_non_wait t s) = umem s"
  "current_time (knl_make_non_wait t s) = current_time s"
  "tmeb_time (knl_make_non_wait t s) = tmeb_time s"
  "kstate.more (knl_make_non_wait t s) = kstate.more s"
  "que (knl_make_non_wait t s) (QWait w) = que s (QWait w)"
  "tcb (knl_make_non_wait t s) = (tcb s)(t := (tcb s t)\<lparr>state := released (tcb s t)\<rparr>)"
  by (simp_all add: knl_make_non_wait_def released_def) (simp_all add: kdefs)

lemma que_remove_frame [simp, frame]:
  "tcb (que_remove t s) = tcb s" "timer_queue (que_remove t s) = timer_queue s"
  "ctxtsk (que_remove t s) = ctxtsk s" "umem (que_remove t s) = umem s"
  "current_time (que_remove t s) = current_time s" "tmeb_time (que_remove t s) = tmeb_time s"
  "kstate.more (que_remove t s) = kstate.more s" "schedtsk (que_remove t s) = schedtsk s"
  "que (que_remove t s) = (\<lambda>q. removeAll t (que s q))"
  by (simp_all add: kdefs)

lemma wait_release_frame [simp, frame]:
  "timer_queue (knl_wait_release t s) = removeAll (TM_TSK t) (timer_queue s)"
  "ctxtsk (knl_wait_release t s) = ctxtsk s" "umem (knl_wait_release t s) = umem s"
  "current_time (knl_wait_release t s) = current_time s"
  "tmeb_time (knl_wait_release t s) = tmeb_time s"
  "kstate.more (knl_wait_release t s) = kstate.more s"
  "que (knl_wait_release t s) (QWait w) = removeAll t (que s (QWait w))"
  "tcb (knl_wait_release t s) = (tcb s)(t := (tcb s t)\<lparr>state := released (tcb s t)\<rparr>)"
  by (simp_all add: knl_wait_release_def)

text \<open>
  \<^verbatim>\<open>knl_wait_delete\<close> empties the queue: each round takes one task out of it.
\<close>

lemma wait_release_shrinks:
  "que s (QWait w) = t # ts \<Longrightarrow>
     length (que (set_wercd t e (knl_wait_release t s)) (QWait w)) < length (que s (QWait w))"
  by (simp add: le_imp_less_Suc)

function knl_wait_delete :: "wobj \<Rightarrow> 'a kstate_scheme \<Rightarrow> 'a kstate_scheme" where
  "knl_wait_delete w s =
     (case que s (QWait w) of
        [] \<Rightarrow> s
      | t # _ \<Rightarrow> knl_wait_delete w (set_wercd t E_DLT (knl_wait_release t s)))"
  by pat_completeness auto
termination
  by (relation "measure (\<lambda>(w, s). length (que s (QWait w)))") (auto intro: le_imp_less_Suc)

declare knl_wait_delete.simps [simp del]

section \<open>The invariant of the tasks\<close>

lemma core_invD:
  assumes "core_inv s"
  shows "task_inv s" "sched_ok s" "tcb_ok s" "timer_ok s"
    "ctxtsk s = Some t \<Longrightarrow> t < NUM_TSKID" "klock_free s" "rq_inv s"
    "schedtsk s = knl_ready_queue_top s"
  using assms by (auto simp: core_inv_def sched_ok_def)

lemma tcb_okD:
  assumes "tcb_ok s" "t < NUM_TSKID"
  shows "tskid (tcb s t) = ID_OBJ t" "priority (tcb s t) < NUM_TSKPRI"
    "bpriority (tcb s t) < NUM_TSKPRI"
    "in_wait (state (tcb s t)) \<Longrightarrow> wercd (tcb s t) \<noteq> None"
    "0 < suscnt (tcb s t) \<longleftrightarrow> state (tcb s t) = TS_SUSPEND \<or> state (tcb s t) = TS_WAITSUS"
  using assms by (auto simp: tcb_ok_def Let_def)

lemma core_inv_queue_lt: "core_inv s \<Longrightarrow> t \<in> set (que s q) \<Longrightarrow> t < NUM_TSKID"
  using task_inv_mem[of s t q] by (simp add: core_inv_def)

lemma wait_home_QWait: "wait_home w i = Some q \<Longrightarrow> \<exists>o'. q = QWait o'"
  by (cases w) auto

lemma core_inv_in_wait: "core_inv s \<Longrightarrow> t \<in> set (que s (QWait w)) \<Longrightarrow> in_wait (state (tcb s t))"
  using task_inv_mem[of s t "QWait w"]
  by (cases "state (tcb s t)") (auto simp: core_inv_def home_def)

lemma core_inv_distinct: "core_inv s \<Longrightarrow> distinct (que s q)"
  by (simp add: core_inv_def task_inv_def linked_def)

lemma core_inv_timer_waits:
  "core_inv s \<Longrightarrow> \<not> in_wait (state (tcb s t)) \<Longrightarrow> TM_TSK t \<notin> set (timer_queue s)"
  by (auto simp: core_inv_def timer_ok_def)

lemma sched_ok_wait_queues:
  assumes "\<And>p. que s' (QRdy p) = que s (QRdy p)" "bitmap s' = bitmap s"
    "top_priority s' = top_priority s" "klocktsk s' = klocktsk s" "tcb s' = tcb s"
    "schedtsk s' = schedtsk s" "sched_ok s"
  shows "sched_ok s'"
  using assms rq_inv_cong[of s' s]
  by (simp add: sched_ok_def klock_free_def knl_ready_queue_top_def)

text \<open>Unlinking a task that is not ready does not disturb the scheduler.\<close>

lemma sched_ok_que_remove:
  assumes "task_inv s" "sched_ok s" "state (tcb s t) \<noteq> TS_READY"
  shows "sched_ok (que_remove t s)"
proof -
  have "removeAll t (que s (QRdy p)) = que s (QRdy p)" for p
    using assms(3) task_inv_mem[OF assms(1), of t "QRdy p"] by auto
  then show ?thesis
    using sched_ok_wait_queues[of "que_remove t s" s] assms(2) by (simp add: kdefs)
qed

lemma tcb_ok_upd:
  assumes "tcb_ok s" "tcb s' = (tcb s)(t := b)"
    "t < NUM_TSKID \<Longrightarrow> tskid b = ID_OBJ t \<and> priority b < NUM_TSKPRI \<and> bpriority b < NUM_TSKPRI \<and>
       ipriority b < NUM_TSKPRI \<and> 0 \<le> wupcnt b \<and> wupcnt b \<le> INT_MAX \<and>
       0 \<le> suscnt b \<and> suscnt b \<le> INT_MAX \<and>
       (0 < suscnt b \<longleftrightarrow> state b = TS_SUSPEND \<or> state b = TS_WAITSUS) \<and>
       (in_wait (state b) \<longrightarrow> wercd b \<noteq> None \<and> wspec b \<noteq> knl_wspec_none)"
  shows "tcb_ok s'"
  using assms by (auto simp: tcb_ok_def Let_def)

lemma tcb_ok_cong: "tcb s' = tcb s \<Longrightarrow> tcb_ok s' = tcb_ok s"
  by (simp add: tcb_ok_def)

lemma tcb_ok_simps [simp]:
  "tcb_ok (s\<lparr>que := x\<rparr>) = tcb_ok s" "tcb_ok (s\<lparr>timer_queue := y\<rparr>) = tcb_ok s"
  "tcb_ok (knl_timer_insert e tm s) = tcb_ok s" "tcb_ok (knl_timer_insert_reltim e rt s) = tcb_ok s"
  by (simp_all add: tcb_ok_def)

lemma core_inv_make_non_wait:
  assumes inv: "core_inv s" and t: "t < NUM_TSKID" "in_wait (state (tcb s t))"
    and nt: "TM_TSK t \<notin> set (timer_queue s)"
  shows "core_inv (knl_make_non_wait t (que_remove t s))"
proof -
  let ?r = "que_remove t s"
  note I = core_invD[OF inv] and B = tcb_okD[OF core_invD(3)[OF inv] t(1)]
  have x: "task_inv_x t ?r" using I by (simp add: task_inv_unlink)
  have sr: "sched_ok ?r" by (rule sched_ok_que_remove) (use I t in auto)
  have "tcb_ok (knl_make_non_wait t ?r)"
    by (rule tcb_ok_upd[OF I(3), where b = "(tcb s t)\<lparr>state := released (tcb s t)\<rparr>"])
      (use I(3) t B(5) in \<open>auto simp: tcb_ok_def Let_def released_def in_wait_iff\<close>)
  moreover have "timer_ok (knl_make_non_wait t ?r)"
    using I(4) nt by (auto simp: timer_ok_def)
  moreover have "task_inv (knl_make_non_wait t ?r) \<and> sched_ok (knl_make_non_wait t ?r)"
  proof (cases "state (tcb s t) = TS_WAIT")
    case True
    then show ?thesis using x sr t B
      by (simp add: knl_make_non_wait_def task_inv_make_ready sched_ok_make_ready)
  next
    case False
    then show ?thesis using x sr
      by (simp add: knl_make_non_wait_def sched_ok_upd_tcb)
        (rule task_inv_nolink[OF task_inv_x_upd[OF x]], simp add: kdefs)
  qed
  ultimately show ?thesis using I(5) by (simp add: core_inv_def)
qed

lemma core_inv_timer_delete: "core_inv s \<Longrightarrow> core_inv (knl_timer_delete e s)"
  by (auto simp: core_inv_def task_inv_def tcb_ok_def timer_ok_def distinct_removeAll)

lemma core_inv_wait_release:
  assumes "core_inv s" "t < NUM_TSKID" "in_wait (state (tcb s t))"
  shows "core_inv (knl_wait_release t s)"
  unfolding knl_wait_release_def
  by (rule core_inv_make_non_wait) (use assms core_inv_timer_delete in auto)

text \<open>Fields of a TCB that neither move it between queues nor change its wait.\<close>

lemma core_inv_upd_tcb:
  assumes inv: "core_inv s"
    and f: "\<And>b. home (f b) = home b" "\<And>b. klocked (f b) = klocked b" "\<And>b. klockwait (f b) = klockwait b"
    and ok: "t < NUM_TSKID \<Longrightarrow> tcb_ok (upd_tcb t f s)"
    and st: "in_wait (state (tcb s t)) \<Longrightarrow> in_wait (state (f (tcb s t)))"
  shows "core_inv (upd_tcb t f s)"
proof -
  note I = core_invD[OF inv]
  have "tcb_ok (upd_tcb t f s)"
    using ok I(3) by (cases "t < NUM_TSKID") (auto simp: tcb_ok_def kdefs)
  moreover have "timer_ok (upd_tcb t f s)" using I(4) st by (auto simp: timer_ok_def kdefs)
  ultimately show ?thesis using I f
    by (auto simp: core_inv_def intro: task_inv_same_home sched_ok_upd_tcb) (simp add: kdefs)
qed

lemma home_field_updates [simp]:
  "home (wercd_update f1 b) = home b" "home (winfo_update f2 b) = home b"
  "home (wupcnt_update f3 b) = home b" "home (suscnt_update f4 b) = home b"
  "home (mtxlist_update f5 b) = home b" "home (bpriority_update f6 b) = home b"
  "home (tskctxb_update f7 b) = home b"
  by (simp_all add: home_def split: TSTAT.split)

lemma core_inv_set_wercd [simp]: "core_inv s \<Longrightarrow> core_inv (set_wercd t e s)"
  unfolding set_wercd_def
  by (rule core_inv_upd_tcb) (auto simp: core_inv_def tcb_ok_def kdefs Let_def)

lemma core_inv_wait_release_ok:
  assumes "core_inv s" "t < NUM_TSKID" "in_wait (state (tcb s t))"
  shows "core_inv (knl_wait_release_ok t s)" "core_inv (knl_wait_release_ok_ercd t e s)"
  using assms by (simp_all add: knl_wait_release_ok_def knl_wait_release_ok_ercd_def core_inv_wait_release)

lemma top_cong:
  "klocktsk s' = klocktsk s \<Longrightarrow> top_priority s' = top_priority s \<Longrightarrow> que s' = que s \<Longrightarrow>
     knl_ready_queue_top s' = knl_ready_queue_top s"
  by (simp add: knl_ready_queue_top_def split: option.split)

lemma core_inv_cong:
  assumes "tcb s' = tcb s" "que s' = que s" "bitmap s' = bitmap s" "top_priority s' = top_priority s"
    "klocktsk s' = klocktsk s" "schedtsk s' = schedtsk s" "ctxtsk s' = ctxtsk s"
    "timer_queue s' = timer_queue s"
  shows "core_inv s' = core_inv s"
  using assms top_cong[of s' s] rq_inv_cong[of s' s]
  by (simp add: core_inv_def task_inv_def tcb_ok_def timer_ok_def sched_ok_def klock_free_def)

lemma core_inv_END [simp]: "core_inv (END_CRITICAL_SECTION s) = core_inv s"
  by (rule core_inv_cong) simp_all

section \<open>Entering the wait\<close>

text \<open>The running task has left the ready queue and is not linked to its wait queue yet.\<close>

definition pre_blocked :: "nat \<Rightarrow> 'a kstate_scheme \<Rightarrow> bool" where
  "pre_blocked c s \<longleftrightarrow> task_inv_x c s \<and> sched_ok s \<and> tcb_ok s \<and> timer_ok s \<and> c < NUM_TSKID \<and>
     in_wait (state (tcb s c)) \<and> (\<forall>t. ctxtsk s = Some t \<longrightarrow> t < NUM_TSKID)"

definition can_block :: "nat \<Rightarrow> 'a kstate_scheme \<Rightarrow> bool" where
  "can_block c s \<longleftrightarrow> core_inv s \<and> c < NUM_TSKID \<and> state (tcb s c) = TS_READY \<and>
     wercd (tcb s c) \<noteq> None \<and> wspec (tcb s c) \<noteq> knl_wspec_none"

lemma make_wait_state_ready:
  assumes "klock_free s" "state (tcb s c) = TS_READY"
  shows "tcb (make_wait_state c s) = (tcb s)(c := (tcb s c)\<lparr>state := TS_WAIT\<rparr>)"
    "que (make_wait_state c s) = (\<lambda>q. removeAll c (que s q))"
    "timer_queue (make_wait_state c s) = timer_queue s"
    "tmeb_time (make_wait_state c s) = tmeb_time s"
    "current_time (make_wait_state c s) = current_time s"
    "ctxtsk (make_wait_state c s) = ctxtsk s" "umem (make_wait_state c s) = umem s"
    "kstate.more (make_wait_state c s) = kstate.more s"
proof -
  have e: "make_wait_state c s = upd_tcb c (state_update (\<lambda>_. TS_WAIT)) (knl_make_non_ready c s)"
    using assms by (simp add: make_wait_state_def)
  show "tcb (make_wait_state c s) = (tcb s)(c := (tcb s c)\<lparr>state := TS_WAIT\<rparr>)"
    "que (make_wait_state c s) = (\<lambda>q. removeAll c (que s q))"
    "timer_queue (make_wait_state c s) = timer_queue s"
    "tmeb_time (make_wait_state c s) = tmeb_time s"
    "current_time (make_wait_state c s) = current_time s"
    "ctxtsk (make_wait_state c s) = ctxtsk s" "umem (make_wait_state c s) = umem s"
    "kstate.more (make_wait_state c s) = kstate.more s"
    using assms by (simp_all add: e upd_tcb_def klock_freeD)
qed

lemma pre_blocked_make_wait_state:
  assumes "can_block c s"
  shows "pre_blocked c (make_wait_state c s)"
proof -
  note I = core_invD[of s]
  have inv: "core_inv s" and c: "c < NUM_TSKID" "state (tcb s c) = TS_READY"
    using assms by (auto simp: can_block_def)
  note m = make_wait_state_ready[OF I(6)[OF inv] c(2)]
  have e: "make_wait_state c s = upd_tcb c (state_update (\<lambda>_. TS_WAIT)) (knl_make_non_ready c s)"
    using c by (simp add: make_wait_state_def)
  have "task_inv_x c (make_wait_state c s)"
    unfolding e by (intro task_inv_x_upd task_inv_make_non_ready I inv)
  moreover have "sched_ok (make_wait_state c s)"
    unfolding e using I[OF inv] tcb_okD[OF I(3)[OF inv] c(1)] c
    by (intro sched_ok_upd_tcb sched_ok_make_non_ready) auto
  moreover have "tcb_ok (make_wait_state c s)"
    by (rule tcb_ok_upd[OF I(3)[OF inv] m(1)])
      (use assms in \<open>auto simp: can_block_def core_inv_def tcb_ok_def Let_def\<close>)
  moreover have "timer_ok (make_wait_state c s)"
    using I(4)[OF inv] c by (auto simp: timer_ok_def m)
  ultimately show ?thesis using I(5)[OF inv] c by (simp add: pre_blocked_def m)
qed

lemma pre_blocked_make_wait:
  assumes "can_block c s"
  shows "pre_blocked c (knl_make_wait c tmout s)" "pre_blocked c (knl_make_wait_reltim c rt s)"
proof -
  let ?s = "make_wait_state c s"
  have p: "pre_blocked c ?s" by (rule pre_blocked_make_wait_state) fact
  have "core_inv s" "state (tcb s c) = TS_READY" using assms by (auto simp: can_block_def)
  then have "TM_TSK c \<notin> set (timer_queue ?s)"
    using core_inv_timer_waits[of s c] by (simp add: make_wait_state_ready(3)[OF core_invD(6)])
  with p show "pre_blocked c (knl_make_wait c tmout s)" "pre_blocked c (knl_make_wait_reltim c rt s)"
    by (auto simp: pre_blocked_def knl_make_wait_def knl_make_wait_reltim_def task_inv_x_def
        timer_ok_def)
qed

lemma core_inv_nolink: "pre_blocked c s \<Longrightarrow> home (tcb s c) = None \<Longrightarrow> core_inv s"
  unfolding pre_blocked_def core_inv_def by (blast intro: task_inv_nolink)

lemma core_inv_link_at:
  assumes p: "pre_blocked c s" and h: "home (tcb s c) = Some (QWait w)"
    and xs: "distinct xs" "set xs = insert c (set (que s (QWait w)))"
  shows "core_inv (s\<lparr>que := (que s)(QWait w := xs)\<rparr>)"
proof -
  let ?s = "s\<lparr>que := (que s)(QWait w := xs)\<rparr>"
  have "linked (tcb s) ((que s)(QWait w := xs)) {..<NUM_TSKID}"
    by (rule linked_link_at[where t = c]) (use assms in \<open>auto simp: pre_blocked_def task_inv_x_def\<close>)
  then have "task_inv ?s" by (simp add: task_inv_def)
  moreover have "sched_ok ?s"
    by (rule sched_ok_wait_queues[where s = s]) (use p in \<open>auto simp: pre_blocked_def\<close>)
  ultimately show ?thesis using p
    by (simp add: core_inv_def pre_blocked_def timer_ok_def)
qed

lemma pre_blocked_queue:
  assumes "pre_blocked c s"
  shows "distinct (que s q)" "c \<notin> set (que s q)"
  using assms by (auto simp: pre_blocked_def task_inv_x_def linked_def)

lemma core_inv_link:
  assumes "pre_blocked c s" "home (tcb s c) = Some (QWait w)"
  shows "core_inv (que_insert c (QWait w) s)" "core_inv (knl_queue_insert_tpri c w s)"
  using core_inv_link_at[OF assms] pre_blocked_queue[OF assms(1)]
  by (simp_all add: que_insert_def knl_queue_insert_tpri_def)

lemma que_init_empty: "que s q = [] \<Longrightarrow> que_init q s = s"
  by (simp add: que_init_def fun_upd_idem)

section \<open>Waiting on an object\<close>

definition wait_enqueue :: "ATR \<Rightarrow> (nat \<Rightarrow> TCB) \<Rightarrow> nat \<Rightarrow> nat list \<Rightarrow> nat list" where
  "wait_enqueue objatr tb c ts =
     (if objatr AND TA_TPRI \<noteq> 0 then insert_before (\<lambda>u. priority (tb u) > priority (tb c)) c ts
      else ts @ [c])"

lemma set_wait_enqueue [simp]: "set (wait_enqueue a tb c ts) = insert c (set ts)"
  by (simp add: wait_enqueue_def)

lemma insert_before_priority_upd:
  assumes "priority b = priority (tb c)"
  shows "insert_before (\<lambda>u. priority ((tb(c := b)) u) > priority b) c ts =
         insert_before (\<lambda>u. priority (tb u) > priority (tb c)) c ts"
  using assms by (induction ts) auto

lemma make_wait_ready:
  assumes "core_inv s" "state (tcb s c) = TS_READY"
  shows "tcb (knl_make_wait c tmout s) = (tcb s)(c := (tcb s c)\<lparr>state := TS_WAIT\<rparr>)"
    "que (knl_make_wait c tmout s) (QWait w) = que s (QWait w)"
    "ctxtsk (knl_make_wait c tmout s) = ctxtsk s" "umem (knl_make_wait c tmout s) = umem s"
    "kstate.more (knl_make_wait c tmout s) = kstate.more s"
    "current_time (knl_make_wait c tmout s) = current_time s"
proof -
  have "c \<notin> set (que s (QWait w))" using core_inv_in_wait[OF assms(1), of c w] assms(2) by auto
  then show "que (knl_make_wait c tmout s) (QWait w) = que s (QWait w)"
    using assms core_invD(6)[OF assms(1)] by (simp add: knl_make_wait_def make_wait_state_ready)
qed (use assms core_invD(6)[OF assms(1)] in \<open>simp_all add: knl_make_wait_def make_wait_state_ready\<close>)

definition ready_to_wait :: "wobj \<Rightarrow> ID \<Rightarrow> nat \<Rightarrow> 'a kstate_scheme \<Rightarrow> bool" where
  "ready_to_wait w objid c s \<longleftrightarrow>
     can_block c s \<and> wait_home (wspec (tcb s c)) objid = Some (QWait w)"

lemma can_block_upd:
  assumes "core_inv s" "c < NUM_TSKID" "state (tcb s c) = TS_READY"
    and f: "f (tcb s c) = (tcb s c)\<lparr>wercd := g, wid := i, wspec := ws, winfo := wi\<rparr>"
    and "g \<noteq> None" "ws \<noteq> knl_wspec_none"
  shows "can_block c (upd_tcb c f s)"
proof -
  note I = core_invD[of s]
  note inv = assms(1) and c = assms(2,3)
  have "task_inv (upd_tcb c f s)"
    by (rule task_inv_same_home) (use I[OF inv] f c in auto)
  moreover have "sched_ok (upd_tcb c f s)"
    using I(2)[OF inv] f by (simp add: sched_ok_def klock_free_def) (simp add: kdefs)
  moreover have "tcb_ok (upd_tcb c f s)"
    by (rule tcb_ok_upd[OF I(3)[OF inv], where t = c and b = "f (tcb s c)"])
      (use I(3)[OF inv] c f assms(5,6) in \<open>auto simp: kdefs tcb_ok_def Let_def\<close>)
  moreover have "timer_ok (upd_tcb c f s)"
    using I(4)[OF inv] c f by (auto simp: timer_ok_def kdefs)
  ultimately show ?thesis
    using I(5)[OF inv] c f assms(5,6) by (auto simp: can_block_def core_inv_def kdefs)
qed

lemma gcb_wait_blocked:
  fixes s :: "'a kstate_scheme" and objatr :: ATR
  assumes r: "ready_to_wait w objid c s" and tm: "tmout \<noteq> TMO_POL"
  defines "s' \<equiv> knl_gcb_make_wait w objid objatr c tmout s"
  shows "core_inv s'"
    "tcb s' = (tcb s)(c := (tcb s c)\<lparr>wercd := Some E_TMOUT, wid := objid, state := TS_WAIT\<rparr>)"
    "que s' (QWait w) = wait_enqueue objatr (tcb s) c (que s (QWait w))"
    "w' \<noteq> w \<Longrightarrow> que s' (QWait w') = que s (QWait w')"
    "kstate.more s' = kstate.more s" "umem s' = umem s" "ctxtsk s' = ctxtsk s"
proof -
  let ?f = "\<lambda>b. b\<lparr>wercd := map_option (\<lambda>_. E_TMOUT) (wercd b), wid := objid\<rparr>"
  let ?s = "upd_tcb c ?f s" and ?b = "?f (tcb s c)"
  let ?m = "knl_make_wait c tmout ?s"
  have cb: "can_block c s" and st: "state (tcb s c) = TS_READY" and wr: "wercd (tcb s c) \<noteq> None"
    and wh: "wait_home (wspec (tcb s c)) objid = Some (QWait w)"
    using r by (auto simp: ready_to_wait_def can_block_def)
  have cs: "can_block c ?s"
    by (rule can_block_upd[where g = "map_option (\<lambda>_. E_TMOUT) (wercd (tcb s c))" and i = objid
          and ws = "wspec (tcb s c)" and wi = "winfo (tcb s c)"])
      (use cb in \<open>auto simp: can_block_def\<close>)
  have s1: "upd_tcb c (wid_update (\<lambda>_. objid)) (set_wercd c E_TMOUT s) = ?s"
    by (simp add: kdefs)
  have e: "s' = (if objatr AND TA_TPRI \<noteq> 0 then knl_queue_insert_tpri c w ?m else que_insert c (QWait w) ?m)"
    using tm unfolding s'_def knl_gcb_make_wait_def Let_def s1 by simp
  have inv: "core_inv ?s" and st': "state (tcb ?s c) = TS_READY"
    using cs by (auto simp: can_block_def)
  note m = make_wait_ready[OF inv st', of tmout]
  have p: "pre_blocked c ?m" by (rule pre_blocked_make_wait[OF cs])
  have h: "home (tcb ?m c) = Some (QWait w)" by (simp add: m) (simp add: kdefs wh)
  show "core_inv s'" unfolding e using core_inv_link[OF p h] by simp
  have tb: "tcb ?m = (tcb s)(c := (tcb s c)\<lparr>wercd := Some E_TMOUT, wid := objid, state := TS_WAIT\<rparr>)"
    using wr by (auto simp: m) (auto simp: kdefs)
  have q: "que ?m (QWait v) = que s (QWait v)" for v by (simp add: m) (simp add: kdefs)
  have pr: "priority (tcb ?m u) = priority (tcb s u)" for u by (simp add: tb)
  show "tcb s' = (tcb s)(c := (tcb s c)\<lparr>wercd := Some E_TMOUT, wid := objid, state := TS_WAIT\<rparr>)"
    unfolding e by (simp add: knl_queue_insert_tpri_def que_insert_def tb)
  show "que s' (QWait w) = wait_enqueue objatr (tcb s) c (que s (QWait w))"
    unfolding e by (simp add: knl_queue_insert_tpri_def que_insert_def q pr wait_enqueue_def)
  show "w' \<noteq> w \<Longrightarrow> que s' (QWait w') = que s (QWait w')"
    unfolding e by (simp add: knl_queue_insert_tpri_def que_insert_def q)
  show "kstate.more s' = kstate.more s" "umem s' = umem s" "ctxtsk s' = ctxtsk s"
    unfolding e by (simp_all add: knl_queue_insert_tpri_def que_insert_def m) (simp_all add: kdefs)
qed

lemma gcb_wait_poll:
  "tmout = TMO_POL \<Longrightarrow> knl_gcb_make_wait w objid objatr c tmout s = set_wercd c E_TMOUT s"
  by (simp add: knl_gcb_make_wait_def)

text \<open>
  The common tail of all calls that wait on an object: the running task notes what it waits for and
  enters the wait, or gives up at once when it only polls.
\<close>

definition run_ok :: "'a kstate_scheme \<Rightarrow> bool" where
  "run_ok s \<longleftrightarrow> (\<forall>c. ctxtsk s = Some c \<longrightarrow> \<not> in_ddsp s \<longrightarrow> state (tcb s c) = TS_READY)"

lemma CHECK_DISPATCH_OK:
  assumes "\<not> CHECK_DISPATCH s < E_OK" "run_ok s"
  shows "\<exists>c. ctxtsk s = Some c \<and> state (tcb s c) = TS_READY"
  using assms by (auto simp: CHECK_DISPATCH_def run_ok_def in_ddsp_def in_indp_def consts_defs split: if_splits)

definition prepare_wait :: "nat \<Rightarrow> WSPEC \<Rightarrow> WINFO \<Rightarrow> 'a kstate_scheme \<Rightarrow> 'a kstate_scheme" where
  "prepare_wait c ws wi s = upd_tcb c (\<lambda>b. b\<lparr>wspec := ws, wercd := Some E_OK, winfo := wi\<rparr>) s"

lemma prepare_wait_frame [simp, frame]:
  "que (prepare_wait c ws wi s) = que s" "kstate.more (prepare_wait c ws wi s) = kstate.more s"
  "umem (prepare_wait c ws wi s) = umem s" "ctxtsk (prepare_wait c ws wi s) = ctxtsk s"
  "tcb (prepare_wait c ws wi s) = (tcb s)(c := (tcb s c)\<lparr>wspec := ws, wercd := Some E_OK, winfo := wi\<rparr>)"
  by (simp_all add: prepare_wait_def upd_tcb_def)

lemma ready_not_queued:
  "core_inv s \<Longrightarrow> state (tcb s c) = TS_READY \<Longrightarrow> c \<notin> set (que s (QWait w))"
  using core_inv_in_wait[of s c w] by auto

lemma block_on:
  fixes s :: "'a kstate_scheme" and objatr :: ATR and wi :: WINFO and w' :: wobj and tmout :: TMO
  assumes inv: "core_inv s" and c: "ctxtsk s = Some c" "state (tcb s c) = TS_READY"
    and wh: "wait_home ws objid = Some (QWait w)"
  defines "s' \<equiv> knl_gcb_make_wait w objid objatr c tmout (prepare_wait c ws wi s)"
  shows "core_inv s'" "winfo (tcb s' c) = wi" "t \<noteq> c \<Longrightarrow> tcb s' t = tcb s t"
    "que s' (QWait w') = (if w' = w \<and> tmout \<noteq> TMO_POL then wait_enqueue objatr (tcb s) c (que s (QWait w))
                          else que s (QWait w'))"
    "kstate.more s' = kstate.more s" "umem s' = umem s" "ctxtsk s' = ctxtsk s"
    "priority (tcb s' c) = priority (tcb s c)"
    "wercd (tcb s' c) = Some E_TMOUT"
    "state (tcb s' c) = (if tmout = TMO_POL then TS_READY else TS_WAIT)"
proof -
  let ?p = "prepare_wait c ws wi s"
  have lt: "c < NUM_TSKID" using core_invD(5)[OF inv c(1)] .
  have wn: "ws \<noteq> knl_wspec_none" using wh by auto
  have cb: "can_block c ?p" unfolding prepare_wait_def
    by (rule can_block_upd[OF inv lt c(2), where g = "Some E_OK" and ws = ws and wi = wi
          and i = "wid (tcb s c)"]) (use wn in simp_all)
  have rw: "ready_to_wait w objid c ?p" using cb wh by (simp add: ready_to_wait_def)
  have pe: "insert_before (\<lambda>u. priority (tcb s c) < priority ((tcb ?p) u)) c ts =
      insert_before (\<lambda>u. priority (tcb s c) < priority (tcb s u)) c ts" for ts
    by (induction ts) auto
  have en: "wait_enqueue objatr (tcb ?p) c ts = wait_enqueue objatr (tcb s) c ts" for ts
    using pe by (simp add: wait_enqueue_def)
  have "core_inv s' \<and> winfo (tcb s' c) = wi \<and> (t \<noteq> c \<longrightarrow> tcb s' t = tcb s t) \<and>
    que s' (QWait w') = (if w' = w \<and> tmout \<noteq> TMO_POL then wait_enqueue objatr (tcb s) c (que s (QWait w))
                         else que s (QWait w')) \<and>
    kstate.more s' = kstate.more s \<and> umem s' = umem s \<and> ctxtsk s' = ctxtsk s \<and>
    priority (tcb s' c) = priority (tcb s c) \<and> wercd (tcb s' c) = Some E_TMOUT \<and>
    state (tcb s' c) = (if tmout = TMO_POL then TS_READY else TS_WAIT)"
  proof (cases "tmout = TMO_POL")
    case True
    with cb c(2) show ?thesis by (simp add: s'_def gcb_wait_poll can_block_def)
  next
    case False
    note G = gcb_wait_blocked[OF rw False, where objatr = objatr, folded s'_def]
    show ?thesis using G False en by simp
  qed
  then show "core_inv s'" "winfo (tcb s' c) = wi" "t \<noteq> c \<Longrightarrow> tcb s' t = tcb s t"
    "que s' (QWait w') = (if w' = w \<and> tmout \<noteq> TMO_POL then wait_enqueue objatr (tcb s) c (que s (QWait w))
                          else que s (QWait w'))"
    "kstate.more s' = kstate.more s" "umem s' = umem s" "ctxtsk s' = ctxtsk s"
    "priority (tcb s' c) = priority (tcb s c)" "wercd (tcb s' c) = Some E_TMOUT"
    "state (tcb s' c) = (if tmout = TMO_POL then TS_READY else TS_WAIT)"
    by blast+
qed

section \<open>Deleting an object\<close>

text \<open>One round of the loop.\<close>

definition delete_one :: "nat \<Rightarrow> 'a kstate_scheme \<Rightarrow> 'a kstate_scheme" where
  "delete_one t s = set_wercd t E_DLT (knl_wait_release t s)"

lemma wait_delete_rec:
  "knl_wait_delete w s = (case que s (QWait w) of [] \<Rightarrow> s | t # ts \<Rightarrow> knl_wait_delete w (delete_one t s))"
  by (subst knl_wait_delete.simps) (simp add: delete_one_def split: list.split)

lemma wait_delete_cases [case_names empty round]:
  assumes "\<And>s. que s (QWait w) = [] \<Longrightarrow> P s s"
    and "\<And>s t ts. que s (QWait w) = t # ts \<Longrightarrow>
           P (delete_one t s) (knl_wait_delete w (delete_one t s)) \<Longrightarrow>
           P s (knl_wait_delete w (delete_one t s))"
  shows "P s (knl_wait_delete w s)"
proof (induction "length (que s (QWait w))" arbitrary: s rule: less_induct)
  case less
  show ?case
  proof (cases "que s (QWait w)")
    case Nil
    with assms(1) show ?thesis by (simp add: wait_delete_rec)
  next
    case (Cons t ts)
    then have "length (que (delete_one t s) (QWait w)) < length (que s (QWait w))"
      unfolding delete_one_def by (rule wait_release_shrinks)
    from less[OF this] Cons assms(2)[OF Cons] show ?thesis
      by (subst wait_delete_rec) simp
  qed
qed

lemma wait_delete_frame [simp, frame]:
  "kstate.more (knl_wait_delete w s) = kstate.more s"
  "umem (knl_wait_delete w s) = umem s" "ctxtsk (knl_wait_delete w s) = ctxtsk s"
  by (rule wait_delete_cases[where P = "\<lambda>s s'. kstate.more s' = kstate.more s"]
      wait_delete_cases[where P = "\<lambda>s s'. umem s' = umem s"]
      wait_delete_cases[where P = "\<lambda>s s'. ctxtsk s' = ctxtsk s"];
      simp add: delete_one_def)+

lemma wait_delete_empties [simp]: "que (knl_wait_delete w s) (QWait w) = []"
  by (rule wait_delete_cases[where P = "\<lambda>s s'. que s' (QWait w) = []"])

lemma core_inv_delete_one:
  assumes "core_inv s" "t \<in> set (que s (QWait w))"
  shows "core_inv (delete_one t s)"
    "tcb (delete_one t s) =
       (tcb s)(t := (tcb s t)\<lparr>state := released (tcb s t), wercd := Some E_DLT\<rparr>)"
    "que (delete_one t s) (QWait v) = removeAll t (que s (QWait v))"
proof -
  have t: "t < NUM_TSKID" "in_wait (state (tcb s t))"
    using assms core_inv_queue_lt core_inv_in_wait by blast+
  then have "wercd (tcb s t) \<noteq> None" using tcb_okD(4)[OF core_invD(3)[OF assms(1)]] by blast
  then show "tcb (delete_one t s) =
       (tcb s)(t := (tcb s t)\<lparr>state := released (tcb s t), wercd := Some E_DLT\<rparr>)"
    by (auto simp: delete_one_def)
  show "core_inv (delete_one t s)"
    using core_inv_wait_release[OF assms(1) t] by (simp add: delete_one_def)
qed (simp add: delete_one_def)

lemma wait_delete_result:
  assumes "core_inv s"
  shows "core_inv (knl_wait_delete w s) \<and>
     (\<forall>w'. w' \<noteq> w \<longrightarrow> que (knl_wait_delete w s) (QWait w') = que s (QWait w')) \<and>
     (\<forall>t. tcb (knl_wait_delete w s) t =
        (if t \<in> set (que s (QWait w))
         then (tcb s t)\<lparr>state := released (tcb s t), wercd := Some E_DLT\<rparr> else tcb s t))"
    (is "?P s (knl_wait_delete w s)")
proof -
  have "core_inv s \<longrightarrow> ?P s (knl_wait_delete w s)"
  proof (rule wait_delete_cases[where P = "\<lambda>s s'. core_inv s \<longrightarrow> ?P s s'"])
    fix u :: "'a kstate_scheme" and t ts
    assume q: "que u (QWait w) = t # ts"
      and IH: "core_inv (delete_one t u) \<longrightarrow> ?P (delete_one t u) (knl_wait_delete w (delete_one t u))"
    show "core_inv u \<longrightarrow> ?P u (knl_wait_delete w (delete_one t u))"
    proof
      assume inv: "core_inv u"
      have t: "t \<in> set (que u (QWait w))" by (simp add: q)
      note d = core_inv_delete_one[OF inv t]
      have "que (delete_one t u) (QWait w) = ts" using core_inv_distinct[OF inv, of "QWait w"] by (simp add: d q)
      moreover have "t \<notin> set (que u (QWait w'))" if "w' \<noteq> w" for w'
        using that t task_inv_mem[OF core_invD(1)[OF inv]] by auto
      moreover have "t \<notin> set ts" using core_inv_distinct[OF inv, of "QWait w"] by (simp add: q)
      ultimately show "?P u (knl_wait_delete w (delete_one t u))"
        using IH d by (auto simp: q)
    qed
  qed simp
  with assms show ?thesis by blast
qed

section \<open>Prioritised queues\<close>

definition tpri_sorted :: "'a kstate_scheme \<Rightarrow> wobj \<Rightarrow> bool" where
  "tpri_sorted s w \<longleftrightarrow> sorted (map (\<lambda>t. priority (tcb s t)) (que s (QWait w)))"

lemma wait_enqueue_sorted:
  assumes "sorted (map (\<lambda>t. priority (tb t)) ts)" "a AND TA_TPRI \<noteq> 0"
  shows "sorted (map (\<lambda>t. priority (tb t)) (wait_enqueue a tb c ts))"
  using assms sorted_insert_before[OF assms(1), of c] by (simp add: wait_enqueue_def)

lemma gcb_change_priority_sorted:
  assumes "sorted (map (\<lambda>u. priority (tcb s u)) (removeAll t (que s (QWait w))))"
  shows "tpri_sorted (knl_gcb_change_priority w t s) w"
  using sorted_insert_before[OF assms, of t]
  by (simp add: tpri_sorted_def knl_gcb_change_priority_def knl_queue_insert_tpri_def que_remove_def)

lemma core_inv_gcb_change_priority:
  assumes "core_inv s" "t \<in> set (que s (QWait w))"
  shows "core_inv (knl_gcb_change_priority w t s)"
    "tcb (knl_gcb_change_priority w t s) = tcb s"
    "set (que (knl_gcb_change_priority w t s) (QWait v)) = set (que s (QWait v))"
    "v \<noteq> w \<Longrightarrow> que (knl_gcb_change_priority w t s) (QWait v) = que s (QWait v)"
    "kstate.more (knl_gcb_change_priority w t s) = kstate.more s"
proof -
  let ?r = "que_remove t s"
  note I = core_invD[OF assms(1)]
  have t: "t < NUM_TSKID" "in_wait (state (tcb s t))" "home (tcb s t) = Some (QWait w)"
    using assms task_inv_mem[OF I(1)] core_inv_in_wait[OF assms] by blast+
  have "pre_blocked t ?r"
    using I t task_inv_unlink[OF I(1), of t]
    by (auto simp: pre_blocked_def intro!: sched_ok_que_remove) (auto simp: timer_ok_def tcb_ok_def)
  then show "core_inv (knl_gcb_change_priority w t s)"
    unfolding knl_gcb_change_priority_def using t by (intro core_inv_link) auto
  show "tcb (knl_gcb_change_priority w t s) = tcb s"
    "kstate.more (knl_gcb_change_priority w t s) = kstate.more s"
    by (simp_all add: knl_gcb_change_priority_def knl_queue_insert_tpri_def)
  have n: "t \<notin> set (que s (QWait v))" if "v \<noteq> w" for v
    using t task_inv_mem[OF I(1), of t "QWait v"] that by auto
  then show "v \<noteq> w \<Longrightarrow> que (knl_gcb_change_priority w t s) (QWait v) = que s (QWait v)"
    by (simp add: knl_gcb_change_priority_def knl_queue_insert_tpri_def)
  show "set (que (knl_gcb_change_priority w t s) (QWait v)) = set (que s (QWait v))"
    using assms(2) n by (cases "v = w") (auto simp: knl_gcb_change_priority_def knl_queue_insert_tpri_def)
qed

section \<open>Serving waiting tasks\<close>

text \<open>The control blocks after the tasks of \<open>r\<close> have been released with success.\<close>

definition served :: "nat list \<Rightarrow> (nat \<Rightarrow> TCB) \<Rightarrow> nat \<Rightarrow> TCB" where
  "served r tb t =
     (if t \<in> set r then (tb t)\<lparr>state := released (tb t), wercd := Some E_OK\<rparr> else tb t)"

lemma served_simps [simp]:
  "winfo (served r tb t) = winfo (tb t)" "wid (served r tb t) = wid (tb t)"
  "priority (served r tb t) = priority (tb t)" "wspec (served r tb t) = wspec (tb t)"
  by (simp_all add: served_def)

lemma served_append: "set r \<inter> set r' = {} \<Longrightarrow> served r' (served r tb) = served (r @ r') tb"
  by (rule ext) (simp add: served_def disjoint_iff)

lemma wait_release_ok_frame [simp, frame]:
  "que (knl_wait_release_ok t s) (QWait w) = removeAll t (que s (QWait w))"
  "ctxtsk (knl_wait_release_ok t s) = ctxtsk s" "umem (knl_wait_release_ok t s) = umem s"
  "kstate.more (knl_wait_release_ok t s) = kstate.more s"
  by (simp_all add: knl_wait_release_ok_def)

lemma wait_release_ok_result:
  assumes "core_inv s" "t \<in> set (que s (QWait w))"
  shows "core_inv (knl_wait_release_ok t s)" "tcb (knl_wait_release_ok t s) = served [t] (tcb s)"
proof -
  have t: "t < NUM_TSKID" "in_wait (state (tcb s t))"
    using assms core_inv_queue_lt core_inv_in_wait by blast+
  then obtain e where e: "wercd (tcb s t) = Some e"
    using tcb_okD(4)[OF core_invD(3)[OF assms(1)]] by blast
  show "core_inv (knl_wait_release_ok t s)" by (rule core_inv_wait_release_ok) fact+
  have "tcb (knl_wait_release_ok t s) =
      (tcb s)(t := (tcb s t)\<lparr>state := released (tcb s t), wercd := Some E_OK\<rparr>)"
    by (simp add: knl_wait_release_ok_def e)
  then show "tcb (knl_wait_release_ok t s) = served [t] (tcb s)"
    by (simp add: served_def fun_eq_iff)
qed

section \<open>Operations that concern one kind of object\<close>

text \<open>
  \<open>frame_waits K\<close>: from one state to another, at most the queues of the objects in \<open>K\<close> have
  changed, and the tasks waiting in the other queues have not.
\<close>

definition frame_waits :: "(wobj \<Rightarrow> bool) \<Rightarrow> 'a kstate_scheme \<Rightarrow> 'b kstate_scheme \<Rightarrow> bool" where
  "frame_waits K s s' \<longleftrightarrow>
     (\<forall>w. \<not> K w \<longrightarrow> que s' (QWait w) = que s (QWait w) \<and>
        (\<forall>t\<in>set (que s (QWait w)). tcb s' t = tcb s t))"

lemma frame_waits_refl [simp]: "frame_waits K s s" "frame_waits K s (END_CRITICAL_SECTION s)"
  by (simp_all add: frame_waits_def)

lemma frame_waits_END [simp]: "frame_waits K s (END_CRITICAL_SECTION s') = frame_waits K s s'"
  by (simp add: frame_waits_def)

lemma frame_waits_trans: "frame_waits K s s' \<Longrightarrow> frame_waits K s' s'' \<Longrightarrow> frame_waits K s s''"
  by (auto simp: frame_waits_def)

lemma frame_waitsD:
  assumes "frame_waits K s s'" "\<not> K w"
  shows "que s' (QWait w) = que s (QWait w)" "t \<in> set (que s (QWait w)) \<Longrightarrow> tcb s' t = tcb s t"
  using assms by (auto simp: frame_waits_def)

lemma core_inv_one_queue:
  assumes "core_inv s" "t \<in> set (que s (QWait w))" "t \<in> set (que s (QWait w'))"
  shows "w = w'"
  using assms(2,3) task_inv_mem[OF core_invD(1)[OF assms(1)], of t] by auto

lemma frame_waits_served:
  assumes "core_inv s" "tcb s' = served r (tcb s)" "set r \<subseteq> set (que s (QWait w))" "K w"
    "\<And>v. que s' (QWait v) = filter (\<lambda>t. t \<notin> set r) (que s (QWait v))"
  shows "frame_waits K s s'"
  unfolding frame_waits_def
proof (intro allI impI)
  fix v assume "\<not> K v"
  then have n: "t \<notin> set r" if "t \<in> set (que s (QWait v))" for t
    using that assms(3,4) core_inv_one_queue[OF assms(1) that] by blast
  then show "que s' (QWait v) = que s (QWait v) \<and> (\<forall>t\<in>set (que s (QWait v)). tcb s' t = tcb s t)"
    by (simp add: assms(2,5) served_def filter_True)
qed

lemma frame_waits_delete:
  assumes "core_inv s" "K w"
  shows "frame_waits K s (knl_wait_delete w s)"
  unfolding frame_waits_def
proof (intro allI impI)
  fix v assume "\<not> K v"
  then have "v \<noteq> w" using assms(2) by blast
  moreover have "t \<notin> set (que s (QWait w))" if "t \<in> set (que s (QWait v))" for t
    using core_inv_one_queue[OF assms(1) that] \<open>v \<noteq> w\<close> by blast
  ultimately show "que (knl_wait_delete w s) (QWait v) = que s (QWait v) \<and>
      (\<forall>t\<in>set (que s (QWait v)). tcb (knl_wait_delete w s) t = tcb s t)"
    using wait_delete_result[OF assms(1), of w] by simp
qed

lemma frame_waits_block_on:
  fixes s :: "'a kstate_scheme"
  assumes "core_inv s" "ctxtsk s = Some c" "state (tcb s c) = TS_READY"
    "wait_home ws objid = Some (QWait w)" "K w"
  shows "frame_waits K s (knl_gcb_make_wait w objid objatr c tmout (prepare_wait c ws wi s))"
  unfolding frame_waits_def
proof (intro allI impI)
  fix v assume "\<not> K v"
  then have "v \<noteq> w" using assms(5) by blast
  moreover have "t \<noteq> c" if "t \<in> set (que s (QWait v))" for t
    using ready_not_queued[OF assms(1,3)] that by blast
  moreover note B = block_on[OF assms(1-4), where objatr = objatr and wi = wi and tmout = tmout]
  ultimately show "que (knl_gcb_make_wait w objid objatr c tmout (prepare_wait c ws wi s)) (QWait v) =
      que s (QWait v) \<and> (\<forall>t\<in>set (que s (QWait v)).
      tcb (knl_gcb_make_wait w objid objatr c tmout (prepare_wait c ws wi s)) t = tcb s t)"
    using B(3) B(4)[where w' = v] by simp
qed

text \<open>A single release, by a timeout, a forced release or a wake-up.\<close>

lemma frame_waits_release:
  assumes "core_inv s" "in_wait (state (tcb s t)) \<Longrightarrow> (case home (tcb s t) of Some (QWait w) \<Rightarrow> K w | _ \<Rightarrow> True)"
    "in_wait (state (tcb s t))" "t < NUM_TSKID"
  shows "frame_waits K s (knl_wait_release t s)"
    "frame_waits K s (knl_make_non_wait t (que_remove t s))"
proof -
  have "t \<notin> set (que s (QWait v))" if "\<not> K v" for v
    using task_inv_mem[OF core_invD(1)[OF assms(1)], of t "QWait v"] assms(2,3) that by auto
  then show "frame_waits K s (knl_wait_release t s)"
    "frame_waits K s (knl_make_non_wait t (que_remove t s))"
    by (auto simp: frame_waits_def)
qed

section \<open>Release hooks\<close>

text \<open>
  What \<^verbatim>\<open>knl_wait_release_ng\<close> and the timeout callback need of the hook they call: it returns, keeps the
  invariant of the tasks, and leaves the released task as it is.
\<close>

locale release_hook =
  fixes hook :: "nat \<Rightarrow> 'a kstate_scheme \<Rightarrow> 'a kstate_scheme option"
  assumes hook_returns: "core_inv s \<Longrightarrow> t < NUM_TSKID \<Longrightarrow> \<not> in_wait (state (tcb s t)) \<Longrightarrow>
    \<exists>s'. hook t s = Some s' \<and> core_inv s' \<and> state (tcb s' t) = state (tcb s t) \<and> wercd (tcb s' t) = wercd (tcb s t)"
begin

lemma release_ng_result:
  assumes "core_inv s" "t < NUM_TSKID" "in_wait (state (tcb s t))"
  shows "\<exists>s'. knl_wait_release_ng hook t e s = Some s' \<and> core_inv s' \<and>
    state (tcb s' t) = released (tcb s t) \<and> wercd (tcb s' t) = Some e"
proof -
  have w: "wercd (tcb s t) \<noteq> None" using tcb_okD(4)[OF core_invD(3)[OF assms(1)] assms(2)] assms(3) by blast
  have "\<not> in_wait (state (tcb (knl_wait_release t s) t))" by simp
  from hook_returns[OF core_inv_wait_release[OF assms] assms(2) this] obtain s' where
    s': "hook t (knl_wait_release t s) = Some s'" "core_inv s'" "state (tcb s' t) = released (tcb s t)"
      "wercd (tcb s' t) = wercd (tcb s t)" by auto
  then show ?thesis using w by (auto simp: knl_wait_release_ng_def)
qed

lemma release_tmout_result:
  assumes "core_inv s" "t < NUM_TSKID" "in_wait (state (tcb s t))" "TM_TSK t \<notin> set (timer_queue s)"
  shows "\<exists>s'. knl_wait_release_tmout hook t s = Some s' \<and> core_inv s' \<and>
    state (tcb s' t) = released (tcb s t) \<and> wercd (tcb s' t) = wercd (tcb s t)"
proof -
  have "\<not> in_wait (state (tcb (knl_make_non_wait t (que_remove t s)) t))" by simp
  from hook_returns[OF core_inv_make_non_wait[OF assms] assms(2) this] show ?thesis
    by (auto simp: knl_wait_release_tmout_def)
qed

end

end
