(* ===== verification/Sample.thy ===== *)
theory Sample
  imports Wait
begin

text \<open>
  A small concrete kernel state, used to instantiate the theorems of the development: task 0 runs,
  task 1 is ready behind it, tasks 2 to 7 wait for a semaphore, an event flag, a wake-up, a mailbox,
  a mutex and a message buffer, task 8 is dormant, tasks 9 to 12 wait for an acceptor, a memory block,
  the end of a rendezvous and a caller, and the other control blocks are free. Its
  extension by object tables is given in the theories of the object managers.
\<close>

definition blank_tcb :: "nat \<Rightarrow> TCB" where
  "blank_tcb t =
     \<lparr>tskid = ID_OBJ t, exinf = 0, tskatr = 0, task = 0,
      tskctxb = \<lparr>ssp = 0, ctx_mepc = 0, ctx_a0 = 0, ctx_a1 = 0, intlevel = 1\<rparr>, sstksz = 0,
      isysmode = 0, sysmode = 0, ipriority = 0, bpriority = 0, priority = 0, state = TS_NONEXIST,
      klockwait = False, klocked = False, wspec = knl_wspec_none, wid = 0, wupcnt = 0, suscnt = 0,
      wercd = None, winfo = WINFO_NONE, wrdvno = word_of_int (ID_OBJ t), isstack = 0, mtxlist = [], stime = 0, utime = 0\<rparr>"

definition ready_tcb :: "nat \<Rightarrow> nat \<Rightarrow> TCB" where
  "ready_tcb t p = (blank_tcb t)\<lparr>state := TS_READY, ipriority := p, bpriority := p, priority := p\<rparr>"

definition wait_tcb :: "nat \<Rightarrow> nat \<Rightarrow> WSPEC \<Rightarrow> ID \<Rightarrow> WINFO \<Rightarrow> TCB" where
  "wait_tcb t p ws i wi =
     (ready_tcb t p)\<lparr>state := TS_WAIT, wspec := ws, wid := i, wercd := Some E_TMOUT, winfo := wi\<rparr>"

definition sample_tcb :: "nat \<Rightarrow> TCB" where
  "sample_tcb t =
     (if t = 0 then (ready_tcb 0 4)\<lparr>mtxlist := [0]\<rparr>
      else if t = 1 then ready_tcb 1 9
      else if t = 2 then wait_tcb 2 5 knl_wspec_sem_tfifo 1 (WINFO_SEM 2)
      else if t = 3 then wait_tcb 3 6 knl_wspec_flg_tfifo 1 (WINFO_FLG 3 0 100)
      else if t = 4 then wait_tcb 4 7 knl_wspec_slp 0 WINFO_NONE
      else if t = 5 then wait_tcb 5 8 knl_wspec_mbx_tfifo 1 (WINFO_MBX 200)
      else if t = 6 then wait_tcb 6 9 knl_wspec_mtx_tpri 1 WINFO_NONE
      else if t = 7 then wait_tcb 7 10 knl_wspec_rmbf 1 (WINFO_RMBF 300 400)
      else if t = 8 then (blank_tcb 8)\<lparr>state := TS_DORMANT\<rparr>
      else if t = 9 then wait_tcb 9 11 knl_wspec_cal_tfifo 1 (WINFO_CAL 1 500 2 600)
      else if t = 10 then wait_tcb 10 12 knl_wspec_mpf_tfifo 1 (WINFO_MPF 700)
      else if t = 11 then (wait_tcb 11 13 knl_wspec_rdv 0 (WINFO_RDV 12 800 16 900))\<lparr>wrdvno := 65548\<rparr>
      else if t = 12 then wait_tcb 12 14 knl_wspec_acp 2 (WINFO_ACP 3 950 910 920)
      else blank_tcb t)"

fun sample_wait :: "wobj \<Rightarrow> nat list" where
  "sample_wait (WSem i) = (if i = 0 then [2] else [])"
| "sample_wait (WFlg i) = (if i = 0 then [3] else [])"
| "sample_wait (WMbx i) = (if i = 0 then [5] else [])"
| "sample_wait (WMtx i) = (if i = 0 then [6] else [])"
| "sample_wait (WMbfRcv i) = (if i = 0 then [7] else [])"
| "sample_wait (WPorCal i) = (if i = 0 then [9] else [])"
| "sample_wait (WPorAcp i) = (if i = 1 then [12] else [])"
| "sample_wait (WMpf i) = (if i = 0 then [10] else [])"
| "sample_wait _ = []"

fun sample_que :: "qid \<Rightarrow> nat list" where
  "sample_que (QRdy p) = (if p = 4 then [0] else if p = 9 then [1] else [])"
| "sample_que QFreeTcb = [13..<NUM_TSKID]"
| "sample_que (QWait w) = sample_wait w"
| "sample_que (QLock i) = []"

definition sample_kernel :: "'a \<Rightarrow> 'a kstate_scheme" where
  "sample_kernel m =
     \<lparr>tcb = sample_tcb, que = sample_que, top_priority = 4, bitmap = 528, klocktsk = None,
      ctxtsk = Some 0, schedtsk = Some 0, dispatch_disabled = 0, taskindp = 0, isr_nest = 0,
      cpu_mie = True, cpu_intlevel = 1, cpu_sp = 0, int_saved_sp = 0, dsp_req = False,
      current_time = 10, real_time_ofs = 0, timer_queue = [TM_TSK 3, TM_TSK 4],
      tmeb_time = (\<lambda>e. if e = TM_TSK 3 then 20 else 50), umem = (\<lambda>a. 0), \<dots> = m\<rparr>"

lemmas sample_defs = sample_kernel_def sample_tcb_def wait_tcb_def ready_tcb_def blank_tcb_def

lemma sample_fields [simp]:
  "tcb (sample_kernel m) = sample_tcb" "que (sample_kernel m) = sample_que"
  "ctxtsk (sample_kernel m) = Some 0" "kstate.more (sample_kernel m) = m"
  "current_time (sample_kernel m) = 10" "timer_queue (sample_kernel m) = [TM_TSK 3, TM_TSK 4]"
  by (simp_all add: sample_kernel_def)

lemma sample_home:
  "home (sample_tcb t) =
     (if t = 0 then Some (QRdy 4) else if t = 1 then Some (QRdy 9) else if t = 2 then Some (QSem 0)
      else if t = 3 then Some (QFlg 0) else if t = 4 then None else if t = 5 then Some (QMbx 0)
      else if t = 6 then Some (QMtx 0) else if t = 7 then Some (QMbfRcv 0) else if t = 8 then None
      else if t = 9 then Some (QPorCal 0) else if t = 10 then Some (QMpf 0) else if t = 11 then None
      else if t = 12 then Some (QPorAcp 1) else Some QFreeTcb)"
  by (simp add: sample_defs home_def INDEX_OBJ_def)

lemma sample_linked: "linked sample_tcb sample_que {..<NUM_TSKID}"
proof -
  have "distinct (sample_que q)" for q
  proof (cases q)
    case (QWait w)
    then show ?thesis by (cases w) auto
  qed simp_all
  moreover have "t \<in> set (sample_que q) \<longleftrightarrow> t < NUM_TSKID \<and> home (sample_tcb t) = Some q" for t q
  proof (cases q)
    case (QWait w)
    then show ?thesis by (cases w) (auto simp: sample_home NUM_TSKID_def)
  next
    case QFreeTcb
    have "t \<in> set [13..<NUM_TSKID] \<longleftrightarrow> t < NUM_TSKID \<and> \<not> t < 13" by auto
    then show ?thesis unfolding QFreeTcb sample_home by simp presburger
  qed (auto simp: sample_home NUM_TSKID_def)
  ultimately show ?thesis by (auto simp: linked_def)
qed

lemma bit_528: "bit (528 :: 32 word) p \<longleftrightarrow> p = 4 \<or> p = 9"
proof -
  have "(528 :: 32 word) = ((0 OR 2 ^ 4) OR 2 ^ 9)" by simp
  then have "bit (528 :: 32 word) p \<longleftrightarrow> (bit (0 :: 32 word) p \<or> 4 = p \<and> p < 32) \<or> 9 = p \<and> p < 32"
    by (simp only: bit_set_iff)
  also have "\<dots> \<longleftrightarrow> p = 4 \<or> p = 9" by auto
  finally show ?thesis .
qed

lemma core_inv_sample [simp]: "core_inv (sample_kernel m)"
proof -
  have b: "bitmap (sample_kernel m) = 528" by (simp add: sample_kernel_def)
  have "rq_inv (sample_kernel m)"
    unfolding rq_inv_def b bit_528 by (simp add: sample_kernel_def NUM_TSKPRI_def)
  moreover have "klock_free (sample_kernel m)" by (simp add: klock_free_def sample_defs)
  moreover have "schedtsk (sample_kernel m) = knl_ready_queue_top (sample_kernel m)"
    by (simp add: knl_ready_queue_top_def sample_kernel_def NUM_TSKPRI_def)
  moreover have "tcb_ok (sample_kernel m)"
    by (simp add: tcb_ok_def sample_defs NUM_TSKPRI_def INT_MAX_def)
  moreover have "timer_ok (sample_kernel m)"
    by (simp add: timer_ok_def sample_defs NUM_TSKID_def)
  ultimately show ?thesis using sample_linked
    by (simp add: core_inv_def sched_ok_def task_inv_def NUM_TSKID_def)
qed

lemma sample_context [simp]: "\<not> in_ddsp (sample_kernel m)" "\<not> in_indp (sample_kernel m)"
  by (simp_all add: in_ddsp_def in_indp_def knl_is_dispatch_masked_def sample_kernel_def)

lemma run_ok_sample [simp]: "run_ok (sample_kernel m)"
  by (simp add: run_ok_def) (simp add: sample_defs)

end
