(* ===== verification/Core_Properties.thy ===== *)
theory Core_Properties
  imports Sample
begin

text \<open>
  Properties of the layers below the object managers: queue rings, the ready queue, the timer queue
  and the deletion of a wait queue.
\<close>

section \<open>Queue rings\<close>

lemma ring_remove_member:
  assumes "ring h q xs" "x \<in> set xs" shows "ring (QueRemove x h) q (removeAll x xs)"
proof -
  obtain ys zs where s: "xs = ys @ x # zs" using assms(2) by (meson split_list)
  have "distinct xs" using assms(1) by (rule rq.contents_distinct)
  then have "removeAll x xs = ys @ zs" by (simp add: s)
  then show ?thesis using ring_remove[of h q ys x zs] assms(1) s by simp
qed

text \<open>
  C33. A ring of \<^verbatim>\<open>QUEUE\<close> nodes implements a list: an insertion before the head appends, the
  emptiness test decides whether the list is empty, an entry can be taken out wherever it stands, the
  first entry is what \<^verbatim>\<open>QueRemoveNext\<close> returns, taking out what was inserted leaves the former
  list, and a ring over other nodes is not disturbed by an insertion.
\<close>

theorem queue_ring_implements_list:
  assumes r: "ring h q xs" and e: "e \<notin> set (q # xs)"
  shows "ring (QueInsert e q h) q (xs @ [e]) \<and>
    (isQueEmpty q h \<longleftrightarrow> xs = []) \<and>
    (\<forall>x\<in>set xs. ring (QueRemove x h) q (removeAll x xs)) \<and>
    (case xs of [] \<Rightarrow> QueRemoveNext q h = (None, h)
     | x # ys \<Rightarrow> fst (QueRemoveNext q h) = Some x \<and> ring (snd (QueRemoveNext q h)) q ys) \<and>
    ring (QueRemove e (QueInsert e q h)) q xs \<and>
    (\<forall>r zs. ring h r zs \<longrightarrow> set (r # zs) \<inter> insert e (set (q # xs)) = {} \<longrightarrow> ring (QueInsert e q h) r zs)"
proof (intro conjI)
  show i: "ring (QueInsert e q h) q (xs @ [e])" using r e by (intro ring_insert) auto
  show "isQueEmpty q h \<longleftrightarrow> xs = []" by (rule ring_empty_iff[OF r])
  show "\<forall>x\<in>set xs. ring (QueRemove x h) q (removeAll x xs)" using ring_remove_member[OF r] by blast
  show "case xs of [] \<Rightarrow> QueRemoveNext q h = (None, h)
     | x # ys \<Rightarrow> fst (QueRemoveNext q h) = Some x \<and> ring (snd (QueRemoveNext q h)) q ys"
    using r by (auto simp: rq.pop_Nil rq.pop_Cons rq.contents_pop split: list.split)
  show "ring (QueRemove e (QueInsert e q h)) q xs" using ring_remove[of _ q xs e "[]"] i by simp
  show "\<forall>r zs. ring h r zs \<longrightarrow> set (r # zs) \<inter> insert e (set (q # xs)) = {} \<longrightarrow> ring (QueInsert e q h) r zs"
    using ring_insert_other[OF r] by blast
qed

theorem queue_ring_implements_list_witness:
  "fst (QueRemoveNext 0 (QueInsert 2 0 (QueInsert 1 0 (QueInit 0 (\<lambda>a. \<lparr>q_next = a, q_prev = a\<rparr>))))) = Some (1::nat)"
proof -
  let ?h = "QueInsert 1 0 (QueInit 0 (\<lambda>a. \<lparr>q_next = a, q_prev = a\<rparr>)) :: nat \<Rightarrow> QUEUE"
  have a: "ring (QueInsert 1 0 (QueInit (0::nat) h)) 0 [1]" for h
    using ring_insert[OF ring_init[of 0 h], of 1] by simp
  have "ring (QueInsert 2 0 ?h) 0 [1, 2]" using queue_ring_implements_list[OF a, of 2] by simp
  then show ?thesis by (rule rq.pop_Cons)
qed

section \<open>Ready queue\<close>

text \<open>
  The bitmap search returns the least priority, from the given one on, whose bit is set, and the
  number of priorities when there is none.
\<close>

lemma calc_top_priority_is_least:
  assumes "pos \<le> NUM_TSKPRI"
  shows "knl_ready_queue_calc_top_priority bm pos = (LEAST p. pos \<le> p \<and> (bit bm p \<or> p = NUM_TSKPRI))"
proof (rule Least_equality [symmetric])
  let ?c = "knl_ready_queue_calc_top_priority bm pos"
  show "pos \<le> ?c \<and> (bit bm ?c \<or> ?c = NUM_TSKPRI)"
    using calc_top_bounds[OF assms, of bm] calc_top_bit[of bm pos] by force
  fix p assume "pos \<le> p \<and> (bit bm p \<or> p = NUM_TSKPRI)"
  then show "?c \<le> p" using calc_top_least[of pos p bm] calc_top_bounds[OF assms, of bm] by (metis not_le)
qed

text \<open>
  Every operation of the ready queue keeps its invariant: the bitmap marks the non-empty queues
  and the cached top priority is the highest of them.
\<close>

lemma ready_queue_ops_keep_invariant:
  assumes inv: "rq_inv s" and p: "priority (tcb s t) < NUM_TSKPRI"
  shows "rq_inv (snd (knl_ready_queue_insert t s)) \<and> rq_inv (knl_ready_queue_insert_top t s) \<and>
    rq_inv (knl_ready_queue_rotate n s) \<and>
    (\<not> klockwait (tcb s t) \<longrightarrow> (\<forall>q. t \<in> set (que s q) \<longleftrightarrow> q = QRdy (priority (tcb s t))) \<longrightarrow>
       rq_inv (knl_ready_queue_delete t s))"
  using rq_insert_inv[OF assms] rq_insert_top_inv[OF assms] rq_rotate_inv[OF inv] rq_delete_inv[OF assms] by blast

section \<open>Timer queue\<close>

text \<open>
  The timer queue stays in order of expiry, relative to the current time, under every insertion and
  deletion.
\<close>

lemma timer_queue_stays_ordered:
  assumes "timer_sorted s" "e \<notin> set (timer_queue s)"
  shows "timer_sorted (knl_timer_insert e tmout s) \<and> timer_sorted (knl_timer_insert_reltim e reltim s) \<and>
    timer_sorted (knl_timer_insert_abs e abstim s) \<and> timer_sorted (knl_timer_delete x s)"
  using timer_sorted_insert[OF assms] timer_sorted_delete[OF assms(1)] by blast

text \<open>The two representations of a system time convert into each other without loss, in both directions.\<close>

lemma systim_roundtrip:
  "knl_toLSYSTIM (knl_toSYSTIM t) = t \<and> knl_toSYSTIM (knl_toLSYSTIM u) = u"
  using knl_toLSYSTIM_toSYSTIM[of t] knl_toSYSTIM_toLSYSTIM[of u] ..

section \<open>Deletion of an object\<close>

text \<open>
  When an object is deleted, exactly the tasks that wait for it are released, each with
  \<^verbatim>\<open>E_DLT\<close> as the result of its call; its queue is empty, every other wait queue and task is
  unchanged, and the kernel's invariant holds.
\<close>

lemma wait_delete_releases_all:
  assumes "core_inv s"
  shows "core_inv (knl_wait_delete w s) \<and> que (knl_wait_delete w s) (QWait w) = [] \<and>
    (\<forall>w'. w' \<noteq> w \<longrightarrow> que (knl_wait_delete w s) (QWait w') = que s (QWait w')) \<and>
    (\<forall>t\<in>set (que s (QWait w)). wercd (tcb (knl_wait_delete w s) t) = Some E_DLT \<and>
       \<not> in_wait (state (tcb (knl_wait_delete w s) t))) \<and>
    (\<forall>t. t \<notin> set (que s (QWait w)) \<longrightarrow> tcb (knl_wait_delete w s) t = tcb s t)"
  using wait_delete_result[OF assms, of w] by simp

end
