(* ===== verification/Semaphore.thy ===== *)
theory Semaphore
  imports Sample
begin

text \<open>
  The counting semaphore of \<^verbatim>\<open>kernel/tkernel/semaphore.c\<close>. The state extends the kernel state by
  the control block table and its free list; the wait queue of block \<open>i\<close> is the queue
  \<open>QSem i\<close>. The release loop of \<^verbatim>\<open>tk_sig_sem\<close> is shown to implement the abstract allocation
  \<open>sem_grant\<close>, and the invariant \<open>sem_inv\<close> bounds the count and excludes lost wake-ups.
\<close>

section \<open>State\<close>

record SEMCB =
  semid :: ID
  sem_exinf :: addr
  sematr :: ATR
  semcnt :: int
  maxsem :: int

record T_CSEM =
  csem_exinf :: addr
  csem_sematr :: ATR
  csem_isemcnt :: int
  csem_maxsem :: int

record T_RSEM =
  rsem_exinf :: addr
  rsem_wtsk :: ID
  rsem_semcnt :: int

record semstate = kstate +
  semcb :: "nat \<Rightarrow> SEMCB"
  free_semcb :: "nat list"

definition upd_semcb :: "nat \<Rightarrow> (SEMCB \<Rightarrow> SEMCB) \<Rightarrow> 'a semstate_scheme \<Rightarrow> 'a semstate_scheme" where
  [kdefs]: "upd_semcb i f s = s\<lparr>semcb := (semcb s)(i := f (semcb s i))\<rparr>"

section \<open>Operations\<close>

definition knl_semaphore_initialize :: "'a semstate_scheme \<Rightarrow> ER \<times> 'a semstate_scheme" where
  "knl_semaphore_initialize s =
     (if NUM_SEMID < 1 then (E_SYS, s)
      else (E_OK,
        fold (\<lambda>i st. (upd_semcb i (semid_update (\<lambda>_. 0)) st)\<lparr>free_semcb := free_semcb st @ [i]\<rparr>)
          [0..<NUM_SEMID] (s\<lparr>free_semcb := []\<rparr>)))"

definition cre_sem :: "T_CSEM \<Rightarrow> 'a semstate_scheme \<Rightarrow> ID \<times> 'a semstate_scheme" where
  "cre_sem pk s =
     (case free_semcb s of
        [] \<Rightarrow> (E_LIMIT, s)
      | i # fs \<Rightarrow>
          let semid' = ID_OBJ i;
              s1 = que_init (QSem i) (s\<lparr>free_semcb := fs\<rparr>);
              s2 = upd_semcb i (\<lambda>cb. cb\<lparr>semid := semid', sem_exinf := csem_exinf pk,
                     sematr := csem_sematr pk, semcnt := csem_isemcnt pk,
                     maxsem := csem_maxsem pk\<rparr>) s1
          in (semid', s2))"

definition tk_cre_sem :: "T_CSEM \<Rightarrow> 'a semstate_scheme \<Rightarrow> sysret \<times> 'a semstate_scheme" where
  "tk_cre_sem pk s =
     (let e = first_err [CHECK_RSATR (csem_sematr pk) (TA_TPRI OR TA_CNT),
                CHECK_PAR (csem_isemcnt pk \<ge> 0), CHECK_PAR (csem_maxsem pk > 0),
                CHECK_PAR (csem_maxsem pk \<ge> csem_isemcnt pk)]
      in if e < E_OK then (Ret e, s)
         else let (r, s1) = cre_sem pk s in (Ret r, END_CRITICAL_SECTION s1))"

definition del_sem :: "nat \<Rightarrow> 'a semstate_scheme \<Rightarrow> 'a semstate_scheme" where
  "del_sem i s =
     (let s1 = knl_wait_delete (WSem i) s
      in upd_semcb i (semid_update (\<lambda>_. 0)) (s1\<lparr>free_semcb := free_semcb s1 @ [i]\<rparr>))"

definition tk_del_sem :: "ID \<Rightarrow> 'a semstate_scheme \<Rightarrow> sysret \<times> 'a semstate_scheme" where
  "tk_del_sem oid s =
     (let e = CHECK_OBJID NUM_SEMID oid; i = INDEX_OBJ oid
      in if e < E_OK then (Ret e, s)
         else if semid (semcb s i) = 0 then (Ret E_NOEXS, END_CRITICAL_SECTION s)
         else (Ret E_OK, END_CRITICAL_SECTION (del_sem i s)))"

text \<open>
  The loops walk the wait queue by pointers and fetch the next pointer before the current task is
  released; the list argument is the rest of the queue still to be visited.
\<close>

fun sig_sem_loop :: "nat \<Rightarrow> nat list \<Rightarrow> 'a semstate_scheme \<Rightarrow> 'a semstate_scheme" where
  "sig_sem_loop i [] s = s"
| "sig_sem_loop i (t # queue) s =
     (if semcnt (semcb s i) < winfo_sem_cnt (winfo (tcb s t)) then
        if sematr (semcb s i) AND TA_CNT = 0 then s else sig_sem_loop i queue s
      else
        let s1 = knl_wait_release_ok t s;
            s2 = upd_semcb i (\<lambda>cb. cb\<lparr>semcnt := semcnt cb - winfo_sem_cnt (winfo (tcb s1 t))\<rparr>) s1
        in if semcnt (semcb s2 i) \<le> 0 then s2 else sig_sem_loop i queue s2)"

definition tk_sig_sem :: "ID \<Rightarrow> int \<Rightarrow> 'a semstate_scheme \<Rightarrow> sysret \<times> 'a semstate_scheme" where
  "tk_sig_sem oid cnt s =
     (let e = first_err [CHECK_OBJID NUM_SEMID oid, CHECK_PAR (cnt > 0)]; i = INDEX_OBJ oid
      in if e < E_OK then (Ret e, s)
         else if semid (semcb s i) = 0 then (Ret E_NOEXS, END_CRITICAL_SECTION s)
         else if cnt > maxsem (semcb s i) - semcnt (semcb s i)
           then (Ret E_QOVR, END_CRITICAL_SECTION s)
         else
           let s1 = upd_semcb i (\<lambda>cb. cb\<lparr>semcnt := semcnt cb + cnt\<rparr>) s
           in (Ret E_OK, END_CRITICAL_SECTION (sig_sem_loop i (que s1 (QSem i)) s1)))"

fun chg_pri_sem_loop :: "nat \<Rightarrow> nat list \<Rightarrow> 'a semstate_scheme \<Rightarrow> 'a semstate_scheme" where
  "chg_pri_sem_loop i [] s = s"
| "chg_pri_sem_loop i (tp # queue) s =
     (if semcnt (semcb s i) < winfo_sem_cnt (winfo (tcb s tp)) then s
      else
        let s1 = knl_wait_release_ok tp s
        in chg_pri_sem_loop i queue
             (upd_semcb i (\<lambda>cb. cb\<lparr>semcnt := semcnt cb - winfo_sem_cnt (winfo (tcb s1 tp))\<rparr>) s1))"

definition sem_chg_pri :: "nat \<Rightarrow> int \<Rightarrow> 'a semstate_scheme \<Rightarrow> 'a semstate_scheme" where
  "sem_chg_pri t oldpri s =
     (let i = INDEX_OBJ (wid (tcb s t));
          s1 = (if oldpri \<ge> 0 then knl_gcb_change_priority (WSem i) t s else s)
      in if sematr (semcb s1 i) AND TA_CNT \<noteq> 0 then s1
         else chg_pri_sem_loop i (que s1 (QSem i)) s1)"

definition sem_rel_wai :: "nat \<Rightarrow> 'a semstate_scheme \<Rightarrow> 'a semstate_scheme" where
  "sem_rel_wai t s = sem_chg_pri t (-1) s"

definition tk_wai_sem :: "ID \<Rightarrow> int \<Rightarrow> TMO \<Rightarrow> 'a semstate_scheme \<Rightarrow> sysret \<times> 'a semstate_scheme" where
  "tk_wai_sem oid cnt tmout s =
     (let e = first_err [CHECK_OBJID NUM_SEMID oid, CHECK_PAR (cnt > 0), CHECK_TMOUT tmout,
                CHECK_DISPATCH s];
          i = INDEX_OBJ oid; c = the (ctxtsk s); cb = semcb s i
      in if e < E_OK then (Ret e, s)
         else if semid cb = 0 then (Ret E_NOEXS, END_CRITICAL_SECTION s)
         else if cnt > maxsem cb then (Ret E_PAR, END_CRITICAL_SECTION s)
         else if (sematr cb AND TA_CNT \<noteq> 0 \<or>
                  knl_gcb_top_of_wait_queue (WSem i) (sematr cb) c s = c) \<and> semcnt cb \<ge> cnt
           then (Ret E_OK,
                 END_CRITICAL_SECTION (upd_semcb i (\<lambda>cb. cb\<lparr>semcnt := semcnt cb - cnt\<rparr>) s))
         else
           let s1 = prepare_wait c (if sematr cb AND TA_TPRI \<noteq> 0
                      then knl_wspec_sem_tpri else knl_wspec_sem_tfifo) (WINFO_SEM cnt) s;
               s2 = knl_gcb_make_wait (WSem i) (semid cb) (sematr cb) c tmout s1
           in (wait_ret tmout, END_CRITICAL_SECTION s2))"

definition tk_ref_sem :: "ID \<Rightarrow> 'a semstate_scheme \<Rightarrow> T_RSEM refret" where
  "tk_ref_sem oid s =
     (let e = CHECK_OBJID NUM_SEMID oid; i = INDEX_OBJ oid
      in if e < E_OK then (e, None)
         else if semid (semcb s i) = 0 then (E_NOEXS, None)
         else (E_OK, Some \<lparr>rsem_exinf = sem_exinf (semcb s i), rsem_wtsk = knl_wait_tskid (WSem i) s,
                           rsem_semcnt = semcnt (semcb s i)\<rparr>))"

definition td_lst_sem :: "int \<Rightarrow> 'a semstate_scheme \<Rightarrow> int \<times> ID list" where
  "td_lst_sem nent s =
     list_entries nent (filter (\<lambda>k. k \<noteq> 0) (map (\<lambda>i. semid (semcb s i)) [0..<NUM_SEMID]))"

definition td_ref_sem :: "ID \<Rightarrow> 'a semstate_scheme \<Rightarrow> T_RSEM refret" where
  "td_ref_sem oid s =
     (let e = CHECK_OBJID NUM_SEMID oid; i = INDEX_OBJ oid
      in if e < E_OK then (e, None)
         else if semid (semcb s i) = 0 then (E_NOEXS, None)
         else (E_OK, Some \<lparr>rsem_exinf = sem_exinf (semcb s i), rsem_wtsk = knl_wait_tskid (WSem i) s,
                           rsem_semcnt = semcnt (semcb s i)\<rparr>))"

definition td_sem_que :: "ID \<Rightarrow> int \<Rightarrow> 'a semstate_scheme \<Rightarrow> int \<times> ID list" where
  "td_sem_que oid nent s =
     (let e = CHECK_OBJID NUM_SEMID oid; i = INDEX_OBJ oid
      in if e < E_OK then (e, [])
         else if semid (semcb s i) = 0 then (E_NOEXS, [])
         else list_entries nent (que_tskids (QSem i) s))"

section \<open>The control block table\<close>

lemma semst_frame:
  "kstate.more s' = kstate.more s \<Longrightarrow> semcb s' = semcb s"
  "kstate.more s' = kstate.more s \<Longrightarrow> free_semcb s' = free_semcb s"
  "kstate.more s' = kstate.more s \<Longrightarrow> semstate.more s' = semstate.more s"
  by (cases s; cases s'; simp)+

lemma sem_frame [simp, frame]:
  "semcb (knl_wait_release_ok t s) = semcb s"
  "semcb (knl_wait_release t s) = semcb s" "free_semcb (knl_wait_release t s) = free_semcb s"
  "free_semcb (knl_wait_release_ok t s) = free_semcb s"
  "semcb (set_wercd t e s) = semcb s" "free_semcb (set_wercd t e s) = free_semcb s"
  "semcb (knl_wait_delete w s) = semcb s" "free_semcb (knl_wait_delete w s) = free_semcb s"
  "semcb (END_CRITICAL_SECTION s) = semcb s"
  "free_semcb (END_CRITICAL_SECTION s) = free_semcb s"
  "semcb (knl_gcb_change_priority w t s) = semcb s"
  "free_semcb (knl_gcb_change_priority w t s) = free_semcb s"
  by (rule semst_frame; simp add: knl_wait_release_ok_def knl_gcb_change_priority_def
      knl_queue_insert_tpri_def)+

lemma upd_semcb_fields [simp]:
  "tcb (upd_semcb i f s) = tcb s" "que (upd_semcb i f s) = que s" "ctxtsk (upd_semcb i f s) = ctxtsk s"
  "semstate.more (upd_semcb i f s) = semstate.more s" "umem (upd_semcb i f s) = umem s"
  by (simp_all add: upd_semcb_def)

interpretation sem_table: object_table NUM_SEMID "\<lambda>s i. semid (semcb s i)" free_semcb cre_sem del_sem
  by unfold_locales (auto simp: cre_sem_def del_sem_def Let_def kdefs fun_eq_iff)

section \<open>Abstract allocation\<close>

text \<open>
  The specification of the release loops: given \<open>n\<close> resources and the waiting tasks with their
  requests, the tasks that are served in queue order and what is left. With \<open>skip\<close>
  (\<^verbatim>\<open>TA_CNT\<close>) a task that cannot be served is passed over, otherwise it ends the service.
\<close>

fun sem_grant :: "bool \<Rightarrow> (nat \<Rightarrow> int) \<Rightarrow> int \<Rightarrow> nat list \<Rightarrow> nat list \<times> int" where
  "sem_grant skip req n [] = ([], n)"
| "sem_grant skip req n (t # ts) =
     (if n < req t then if skip then sem_grant skip req n ts else ([], n)
      else let (r, m) = sem_grant skip req (n - req t) ts in (t # r, m))"

lemma sem_grant_subset: "sem_grant skip req n ts = (r, m) \<Longrightarrow> set r \<subseteq> set ts"
  by (induction skip req n ts arbitrary: r m rule: sem_grant.induct) (auto split: if_splits prod.splits)

lemma sem_grant_distinct: "sem_grant skip req n ts = (r, m) \<Longrightarrow> distinct ts \<Longrightarrow> distinct r"
proof (induction skip req n ts arbitrary: r m rule: sem_grant.induct)
  case (2 skip req n t ts)
  then show ?case using sem_grant_subset by (fastforce split: if_splits prod.splits)
qed simp

lemma sem_grant_conserves: "sem_grant skip req n ts = (r, m) \<Longrightarrow> m + sum_list (map req r) = n"
  by (induction skip req n ts arbitrary: r m rule: sem_grant.induct) (auto split: if_splits prod.splits)

lemma sem_grant_nonneg: "sem_grant skip req n ts = (r, m) \<Longrightarrow> 0 \<le> n \<Longrightarrow> 0 \<le> m"
  by (induction skip req n ts arbitrary: r m rule: sem_grant.induct) (auto split: if_splits prod.splits)

lemma sem_grant_le:
  assumes "sem_grant skip req n ts = (r, m)" "\<forall>t\<in>set ts. 0 < req t"
  shows "m \<le> n"
proof -
  have "0 \<le> sum_list (map req r)"
    using assms sem_grant_subset[OF assms(1)] by (intro sum_list_nonneg) force
  with sem_grant_conserves[OF assms(1)] show ?thesis by simp
qed

text \<open>Nobody who could be served is left waiting.\<close>

lemma sem_grant_skip_exhausts:
  "sem_grant True req n ts = (r, m) \<Longrightarrow> \<forall>t\<in>set ts. 0 < req t \<Longrightarrow> \<forall>t\<in>set ts - set r. m < req t"
proof (induction ts arbitrary: n r)
  case (Cons t ts)
  show ?case
  proof (cases "n < req t")
    case True
    then have g: "sem_grant True req n ts = (r, m)" using Cons.prems by simp
    have "m \<le> n" by (rule sem_grant_le[OF g]) (use Cons.prems in simp)
    with True Cons.IH[OF g] Cons.prems show ?thesis by auto
  next
    case False
    then obtain r' where g: "sem_grant True req (n - req t) ts = (r', m)" "r = t # r'"
      using Cons.prems by (auto split: prod.splits)
    with Cons.IH[OF g(1)] Cons.prems show ?thesis by auto
  qed
qed simp

lemma sem_grant_fifo_exhausts:
  "sem_grant False req n ts = (r, m) \<Longrightarrow> \<exists>rest. ts = r @ rest \<and> (rest = [] \<or> m < req (hd rest))"
proof (induction ts arbitrary: n r)
  case (Cons t ts)
  show ?case
  proof (cases "n < req t")
    case False
    then obtain r' where g: "sem_grant False req (n - req t) ts = (r', m)" "r = t # r'"
      using Cons.prems by (auto split: prod.splits)
    with Cons.IH[OF g(1)] show ?thesis by auto
  qed (use Cons.prems in auto)
qed simp

text \<open>A loop that stops at zero serves the same tasks when every request is positive.\<close>

lemma sem_grant_none:
  assumes "n \<le> 0" "\<forall>t\<in>set ts. 0 < req t"
  shows "sem_grant skip req n ts = ([], n)"
  using assms by (induction ts) auto

section \<open>The loops implement the allocation\<close>

definition sem_req :: "'a kstate_scheme \<Rightarrow> nat \<Rightarrow> int" where
  "sem_req s t = winfo_sem_cnt (winfo (tcb s t))"


text \<open>One service of a waiting task.\<close>

definition sem_serve :: "nat \<Rightarrow> nat \<Rightarrow> 'a semstate_scheme \<Rightarrow> 'a semstate_scheme" where
  "sem_serve i t s =
     (let s1 = knl_wait_release_ok t s
      in upd_semcb i (\<lambda>cb. cb\<lparr>semcnt := semcnt cb - winfo_sem_cnt (winfo (tcb s1 t))\<rparr>) s1)"

lemma core_inv_upd_semcb [simp]: "core_inv (upd_semcb i f s) = core_inv s"
  by (rule core_inv_cong) (simp_all add: kdefs)

lemma sem_serve_result:
  assumes "core_inv s" "t \<in> set (que s (QSem i))"
  defines "s' \<equiv> sem_serve i t s"
  shows "core_inv s'" "tcb s' = served [t] (tcb s)"
    "que s' (QWait w) = removeAll t (que s (QWait w))"
    "semcb s' = (semcb s)(i := (semcb s i)\<lparr>semcnt := semcnt (semcb s i) - sem_req s t\<rparr>)"
    "free_semcb s' = free_semcb s" "semstate.more s' = semstate.more s" "ctxtsk s' = ctxtsk s"
    "umem s' = umem s"
proof -
  let ?r = "knl_wait_release_ok t s"
  note R = wait_release_ok_result[OF assms(1,2)]
  have e: "s' = upd_semcb i (\<lambda>cb. cb\<lparr>semcnt := semcnt cb - sem_req s t\<rparr>) ?r"
    by (simp only: s'_def sem_serve_def Let_def R(2) served_simps sem_req_def)
  have m: "semstate.more ?r = semstate.more s" by (rule semst_frame) simp
  show "core_inv s'" unfolding e by (simp add: R)
  show "tcb s' = served [t] (tcb s)"
    "que s' (QWait w) = removeAll t (que s (QWait w))"
    "semcb s' = (semcb s)(i := (semcb s i)\<lparr>semcnt := semcnt (semcb s i) - sem_req s t\<rparr>)"
    "free_semcb s' = free_semcb s" "semstate.more s' = semstate.more s" "ctxtsk s' = ctxtsk s"
    "umem s' = umem s"
    unfolding e by (simp_all add: R m upd_semcb_def)
qed

text \<open>
  A list of tasks served one after the other, and the two loops as such services.
\<close>

definition sem_serve_all :: "nat \<Rightarrow> nat list \<Rightarrow> 'a semstate_scheme \<Rightarrow> 'a semstate_scheme" where
  "sem_serve_all i r s = fold (sem_serve i) r s"

lemma sem_serve_all_result:
  assumes "core_inv s" "distinct r" "set r \<subseteq> set (que s (QSem i))"
  defines "s' \<equiv> sem_serve_all i r s"
  shows "core_inv s' \<and> tcb s' = served r (tcb s) \<and>
    (\<forall>w. que s' (QWait w) = filter (\<lambda>t. t \<notin> set r) (que s (QWait w))) \<and>
    semcb s' = (semcb s)(i := (semcb s i)\<lparr>semcnt := semcnt (semcb s i) - sum_list (map (sem_req s) r)\<rparr>) \<and>
    free_semcb s' = free_semcb s \<and> semstate.more s' = semstate.more s \<and> ctxtsk s' = ctxtsk s \<and>
    umem s' = umem s"
  using assms(1-3) unfolding s'_def
proof (induction r arbitrary: s)
  case Nil
  then show ?case by (simp add: sem_serve_all_def served_def fun_eq_iff)
next
  case (Cons t r)
  let ?s = "sem_serve i t s"
  note r = sem_serve_result[of s t i]
  have t: "core_inv s" "t \<in> set (que s (QSem i))" using Cons.prems by auto
  note r = sem_serve_result[OF t]
  have "set r \<subseteq> set (que ?s (QSem i))" using Cons.prems by (auto simp: r)
  then have IH: "core_inv (sem_serve_all i r ?s) \<and> tcb (sem_serve_all i r ?s) = served r (tcb ?s) \<and>
    (\<forall>w. que (sem_serve_all i r ?s) (QWait w) = filter (\<lambda>t. t \<notin> set r) (que ?s (QWait w))) \<and>
    semcb (sem_serve_all i r ?s) =
      (semcb ?s)(i := (semcb ?s i)\<lparr>semcnt := semcnt (semcb ?s i) - sum_list (map (sem_req ?s) r)\<rparr>) \<and>
    free_semcb (sem_serve_all i r ?s) = free_semcb ?s \<and>
    semstate.more (sem_serve_all i r ?s) = semstate.more ?s \<and>
    ctxtsk (sem_serve_all i r ?s) = ctxtsk ?s \<and> umem (sem_serve_all i r ?s) = umem ?s"
    using Cons.IH[of ?s] Cons.prems r(1) by auto
  have q: "sem_req ?s = sem_req s" by (simp add: fun_eq_iff sem_req_def r)
  have e: "sem_serve_all i (t # r) s = sem_serve_all i r ?s" by (simp add: sem_serve_all_def)
  have "served r (served [t] (tcb s)) = served (t # r) (tcb s)"
    using served_append[of "[t]" r "tcb s"] Cons.prems by simp
  with IH show ?case unfolding e
    by (auto simp: r q removeAll_filter_not_eq intro!: filter_cong)
qed

lemma sig_sem_loop_serves:
  assumes "\<forall>t\<in>set ts. 0 < sem_req s t" "distinct ts" "core_inv s" "set ts \<subseteq> set (que s (QSem i))"
    "sem_grant (sematr (semcb s i) AND TA_CNT \<noteq> 0) (sem_req s) (semcnt (semcb s i)) ts = (r, m)"
  shows "sig_sem_loop i ts s = sem_serve_all i r s"
  using assms
proof (induction ts arbitrary: s r)
  case Nil
  then show ?case by (simp add: sem_serve_all_def)
next
  case (Cons t ts)
  let ?s = "sem_serve i t s" and ?n = "semcnt (semcb s i)"
  show ?case
  proof (cases "?n < sem_req s t")
    case True
    with Cons show ?thesis by (auto simp: sem_req_def sem_serve_all_def split: if_splits)
  next
    case False
    let ?sk = "sematr (semcb s i) AND TA_CNT \<noteq> 0"
    obtain r' where g: "sem_grant ?sk (sem_req s) (?n - sem_req s t) ts = (r', m)" "r = t # r'"
      using Cons.prems(5) False by (auto split: prod.splits)
    have t: "core_inv s" "t \<in> set (que s (QSem i))" using Cons.prems by auto
    note R = sem_serve_result[OF t]
    have q: "sem_req ?s = sem_req s" by (simp add: fun_eq_iff sem_req_def R)
    have step: "sig_sem_loop i (t # ts) s = (if semcnt (semcb ?s i) \<le> 0 then ?s else sig_sem_loop i ts ?s)"
      using False by (simp add: sem_serve_def Let_def sem_req_def)
    show ?thesis
    proof (cases "semcnt (semcb ?s i) \<le> 0")
      case True
      then have "r' = []" using g(1) Cons.prems(1) sem_grant_none[of "?n - sem_req s t" ts "sem_req s" ?sk]
        by (simp add: R)
      with True step g(2) show ?thesis by (simp add: sem_serve_all_def)
    next
      case False
      have "sig_sem_loop i ts ?s = sem_serve_all i r' ?s"
        by (rule Cons.IH) (use Cons.prems g(1) in \<open>auto simp: R q\<close>)
      with False step g(2) show ?thesis by (simp add: sem_serve_all_def)
    qed
  qed
qed

lemma chg_pri_sem_loop_serves:
  assumes "distinct ts" "core_inv s" "set ts \<subseteq> set (que s (QSem i))"
    "sem_grant False (sem_req s) (semcnt (semcb s i)) ts = (r, m)"
  shows "chg_pri_sem_loop i ts s = sem_serve_all i r s"
  using assms
proof (induction ts arbitrary: s r)
  case Nil
  then show ?case by (simp add: sem_serve_all_def)
next
  case (Cons t ts)
  let ?s = "sem_serve i t s" and ?n = "semcnt (semcb s i)"
  show ?case
  proof (cases "?n < sem_req s t")
    case True
    with Cons show ?thesis by (auto simp: sem_req_def sem_serve_all_def)
  next
    case False
    obtain r' where g: "sem_grant False (sem_req s) (?n - sem_req s t) ts = (r', m)" "r = t # r'"
      using Cons.prems(4) False by (auto split: prod.splits)
    have t: "core_inv s" "t \<in> set (que s (QSem i))" using Cons.prems by auto
    note R = sem_serve_result[OF t]
    have "sem_req ?s = sem_req s" by (simp add: fun_eq_iff sem_req_def R)
    then have "chg_pri_sem_loop i ts ?s = sem_serve_all i r' ?s"
      by (intro Cons.IH) (use Cons.prems g(1) in \<open>auto simp: R\<close>)
    with False g(2) show ?thesis by (simp add: sem_serve_all_def sem_serve_def Let_def sem_req_def)
  qed
qed

section \<open>Invariant\<close>

text \<open>
  The count stays between zero and its maximum; every waiting request is positive and can be met;
  and the tasks in front of the queue really have to wait: with \<^verbatim>\<open>TA_CNT\<close> nobody in the queue
  could be served, otherwise the first task could not.
\<close>

definition must_wait :: "bool \<Rightarrow> (nat \<Rightarrow> int) \<Rightarrow> int \<Rightarrow> nat list \<Rightarrow> bool" where
  "must_wait skip req n ts \<longleftrightarrow>
     (if skip then \<forall>t\<in>set ts. n < req t else ts = [] \<or> n < req (hd ts))"

definition sem_bounds :: "SEMCB \<Rightarrow> (nat \<Rightarrow> int) \<Rightarrow> nat list \<Rightarrow> bool" where
  "sem_bounds cb req ts \<longleftrightarrow> 0 \<le> semcnt cb \<and> semcnt cb \<le> maxsem cb \<and>
     (\<forall>t\<in>set ts. 0 < req t \<and> req t \<le> maxsem cb)"

definition sem_cnt_atr :: "SEMCB \<Rightarrow> bool" where
  "sem_cnt_atr cb \<longleftrightarrow> sematr cb AND TA_CNT \<noteq> 0"

definition sem_ok :: "SEMCB \<Rightarrow> (nat \<Rightarrow> int) \<Rightarrow> nat list \<Rightarrow> bool" where
  "sem_ok cb req ts \<longleftrightarrow>
     (if semid cb = 0 then ts = []
      else sem_bounds cb req ts \<and> must_wait (sem_cnt_atr cb) req (semcnt cb) ts)"

definition sem_inv :: "'a semstate_scheme \<Rightarrow> bool" where
  "sem_inv s \<longleftrightarrow> cb_table_inv NUM_SEMID (\<lambda>i. semid (semcb s i)) (free_semcb s) \<and>
     (\<forall>i < NUM_SEMID. sem_ok (semcb s i) (sem_req s) (que s (QSem i))) \<and>
     (\<forall>i \<ge> NUM_SEMID. que s (QSem i) = [])"

lemma sem_ok_cong:
  assumes "\<And>t. t \<in> set ts \<Longrightarrow> req t = req' t"
  shows "sem_ok cb req ts = sem_ok cb req' ts"
  using assms by (cases ts) (auto simp: sem_ok_def sem_bounds_def must_wait_def)

text \<open>The invariant only depends on the tables and on the tasks that wait for a semaphore.\<close>

lemma sem_inv_frame:
  assumes "sem_inv s" "semcb s' = semcb s" "free_semcb s' = free_semcb s"
    "\<And>i. que s' (QSem i) = que s (QSem i)"
    "\<And>i t. t \<in> set (que s (QSem i)) \<Longrightarrow> winfo (tcb s' t) = winfo (tcb s t)"
  shows "sem_inv s'"
proof -
  have "sem_ok (semcb s i) (sem_req s') (que s (QSem i)) = sem_ok (semcb s i) (sem_req s) (que s (QSem i))" for i
    by (rule sem_ok_cong) (simp add: sem_req_def assms(5))
  then show ?thesis using assms(1-4) by (simp add: sem_inv_def)
qed

lemma sem_inv_END [simp]: "sem_inv (END_CRITICAL_SECTION s) = sem_inv s"
  by (auto intro: sem_inv_frame)

lemma sem_grant_must_wait:
  assumes "sem_grant skip req n ts = (r, m)" "\<forall>t\<in>set ts. 0 < req t" "distinct ts"
  shows "must_wait skip req m (filter (\<lambda>t. t \<notin> set r) ts)"
proof (cases skip)
  case True
  with assms show ?thesis using sem_grant_skip_exhausts[of req n ts r m]
    by (auto simp: must_wait_def)
next
  case False
  then obtain rest where r: "ts = r @ rest" "rest = [] \<or> m < req (hd rest)"
    using sem_grant_fifo_exhausts[of req n ts r m] assms(1) by auto
  have "filter (\<lambda>t. t \<notin> set r) ts = rest"
    using assms(3) unfolding r(1) by (auto simp: filter_empty_conv intro!: filter_True)
  with False r(2) show ?thesis by (auto simp: must_wait_def)
qed

text \<open>Serving the queue of one semaphore re-establishes its part of the invariant.\<close>

lemma sem_serve_all_inv:
  assumes inv: "core_inv s" and i: "i < NUM_SEMID"
    and tab: "cb_table_inv NUM_SEMID (\<lambda>i. semid (semcb s i)) (free_semcb s)"
    and oth: "\<And>j. j < NUM_SEMID \<Longrightarrow> j \<noteq> i \<Longrightarrow> sem_ok (semcb s j) (sem_req s) (que s (QSem j))"
    and out: "\<And>j. NUM_SEMID \<le> j \<Longrightarrow> que s (QSem j) = []"
    and b: "semid (semcb s i) \<noteq> 0" "sem_bounds (semcb s i) (sem_req s) (que s (QSem i))"
    and g: "sem_grant (sem_cnt_atr (semcb s i)) (sem_req s) (semcnt (semcb s i)) (que s (QSem i)) = (r, m)"
  shows "core_inv (sem_serve_all i r s)" "sem_inv (sem_serve_all i r s)"
    "semcnt (semcb (sem_serve_all i r s) i) = m"
proof -
  let ?s = "sem_serve_all i r s" and ?ts = "que s (QSem i)"
  have d: "distinct ?ts" by (rule core_inv_distinct[OF inv])
  have sub: "set r \<subseteq> set ?ts" by (rule sem_grant_subset[OF g])
  have dr: "distinct r" by (rule sem_grant_distinct[OF g d])
  note R = sem_serve_all_result[OF inv dr sub]
  show "core_inv ?s" using R by blast
  have req: "sem_req ?s = sem_req s" using R by (simp add: fun_eq_iff sem_req_def)
  have m: "m = semcnt (semcb s i) - sum_list (map (sem_req s) r)"
    using sem_grant_conserves[OF g] by simp
  with R show cnt: "semcnt (semcb ?s i) = m" by simp
  have pos: "\<forall>t\<in>set ?ts. 0 < sem_req s t" using b(2) by (simp add: sem_bounds_def)
  have cb: "semcb ?s = (semcb s)(i := (semcb s i)\<lparr>semcnt := m\<rparr>)" using R m by simp
  have q: "que ?s (QSem j) = filter (\<lambda>t. t \<notin> set r) (que s (QSem j))" for j using R by blast
  have qo: "que ?s (QSem j) = que s (QSem j)" if "j \<noteq> i" for j
  proof -
    have "t \<notin> set r" if "t \<in> set (que s (QSem j))" for t
      using that sub \<open>j \<noteq> i\<close> task_inv_mem[OF core_invD(1)[OF inv], of t] by fastforce
    then show ?thesis unfolding q by (rule filter_True[OF ballI])
  qed
  have "sem_ok (semcb ?s i) (sem_req ?s) (que ?s (QSem i))"
    using sem_grant_must_wait[OF g pos d] sem_grant_nonneg[OF g] sem_grant_le[OF g pos] b
    by (auto simp: sem_ok_def cb req q sem_bounds_def sem_cnt_atr_def)
  moreover have "sem_ok (semcb ?s j) (sem_req ?s) (que ?s (QSem j))" if "j < NUM_SEMID" "j \<noteq> i" for j
    using oth[OF that] that by (simp add: cb req qo)
  moreover have "(\<lambda>i. semid (semcb ?s i)) = (\<lambda>i. semid (semcb s i))" "free_semcb ?s = free_semcb s"
    using R by (auto simp: cb)
  moreover have "que ?s (QSem j) = []" if "NUM_SEMID \<le> j" for j using out[OF that] by (simp add: q)
  ultimately show "sem_inv ?s"
    using tab unfolding sem_inv_def by (metis (no_types, lifting))
qed

section \<open>The calls keep the invariant\<close>

lemma sem_invD:
  assumes "sem_inv s"
  shows "cb_table_inv NUM_SEMID (\<lambda>i. semid (semcb s i)) (free_semcb s)"
    "i < NUM_SEMID \<Longrightarrow> sem_ok (semcb s i) (sem_req s) (que s (QSem i))"
    "i < NUM_SEMID \<Longrightarrow> semid (semcb s i) = 0 \<Longrightarrow> que s (QSem i) = []"
    "i < NUM_SEMID \<Longrightarrow> semid (semcb s i) \<noteq> 0 \<Longrightarrow> semid (semcb s i) = ID_OBJ i"
    "NUM_SEMID \<le> i \<Longrightarrow> que s (QSem i) = []"
  using assms by (auto simp: sem_inv_def sem_ok_def cb_table_inv_def)

lemma core_inv_free_semcb [simp]: "core_inv (s\<lparr>free_semcb := x\<rparr>) = core_inv s"
  by (rule core_inv_cong) simp_all

lemma sem_req_simps [simp]:
  "sem_req (upd_semcb i f s) = sem_req s" "sem_req (s\<lparr>free_semcb := x\<rparr>) = sem_req s"
  "sem_req (s\<lparr>que := q\<rparr>) = sem_req s" "sem_req (END_CRITICAL_SECTION s) = sem_req s"
  by (simp_all add: fun_eq_iff sem_req_def kdefs)

lemma cre_sem_inv:
  assumes "core_inv s" "sem_inv s" "0 \<le> csem_isemcnt pk" "csem_isemcnt pk \<le> csem_maxsem pk"
  shows "core_inv (snd (cre_sem pk s)) \<and> sem_inv (snd (cre_sem pk s))"
proof (cases "free_semcb s")
  case Nil
  with assms show ?thesis by (simp add: cre_sem_def)
next
  case (Cons i fs)
  let ?cb = "(semcb s i)\<lparr>semid := ID_OBJ i, sem_exinf := csem_exinf pk, sematr := csem_sematr pk,
    semcnt := csem_isemcnt pk, maxsem := csem_maxsem pk\<rparr>"
  have i: "i < NUM_SEMID" "semid (semcb s i) = 0"
    using sem_invD(1)[OF assms(2)] Cons by (auto simp: cb_table_inv_def)
  then have q: "que s (QSem i) = []" using sem_invD(3)[OF assms(2)] by blast
  then have qi: "que_init (QSem i) (s\<lparr>free_semcb := fs\<rparr>) = s\<lparr>free_semcb := fs\<rparr>"
    by (intro que_init_empty) simp
  have e: "snd (cre_sem pk s) = (s\<lparr>free_semcb := fs\<rparr>)\<lparr>semcb := (semcb s)(i := ?cb)\<rparr>"
    using Cons by (simp add: cre_sem_def Let_def qi) (simp add: upd_semcb_def)
  have "core_inv (snd (cre_sem pk s))"
    using assms(1) Cons by (simp add: cre_sem_def Let_def qi)
  moreover have "sem_ok (semcb (snd (cre_sem pk s)) j) (sem_req s) (que s (QSem j))"
    if "j < NUM_SEMID" for j
    using sem_invD(2)[OF assms(2) that] assms(3,4) q
    by (cases "j = i") (simp_all add: e sem_ok_def sem_bounds_def must_wait_def)
  moreover have "sem_req (snd (cre_sem pk s)) = sem_req s" "que (snd (cre_sem pk s)) = que s"
    by (simp_all add: e sem_req_def fun_eq_iff)
  ultimately have "core_inv (snd (cre_sem pk s))" "sem_inv (snd (cre_sem pk s))"
    using sem_table.create_inv[OF sem_invD(1)[OF assms(2)], of pk] sem_invD(5)[OF assms(2)] by (simp_all add: sem_inv_def)
  then show ?thesis ..
qed

lemma tk_cre_sem_inv:
  assumes "core_inv s" "sem_inv s"
  shows "core_inv (snd (tk_cre_sem pk s)) \<and> sem_inv (snd (tk_cre_sem pk s))"
  using assms cre_sem_inv[OF assms, of pk]
  by (auto simp: tk_cre_sem_def Let_def check_defs consts_defs split: prod.splits if_splits)

lemma del_sem_inv:
  assumes "core_inv s" "sem_inv s" "i < NUM_SEMID" "semid (semcb s i) \<noteq> 0"
  shows "core_inv (del_sem i s) \<and> sem_inv (del_sem i s)"
proof -
  let ?d = "knl_wait_delete (WSem i) s"
  note W = wait_delete_result[OF assms(1), of "WSem i"]
  have "core_inv (del_sem i s)" using W by (simp add: del_sem_def Let_def)
  moreover have "sem_ok (semcb (del_sem i s) j) (sem_req (del_sem i s)) (que (del_sem i s) (QSem j))"
    if j: "j < NUM_SEMID" for j
  proof (cases "j = i")
    case True
    then show ?thesis by (simp add: del_sem_def Let_def upd_semcb_def sem_ok_def)
  next
    case False
    have "sem_req (del_sem i s) = sem_req s"
      using W by (auto simp: fun_eq_iff sem_req_def del_sem_def Let_def upd_semcb_def)
    moreover have "semcb (del_sem i s) j = semcb s j" "que (del_sem i s) (QSem j) = que s (QSem j)"
      using False W by (simp_all add: del_sem_def Let_def upd_semcb_def)
    ultimately show ?thesis using sem_invD(2)[OF assms(2) j] by simp
  qed
  moreover have "que (del_sem i s) (QSem j) = []" if "NUM_SEMID \<le> j" for j
    using sem_invD(5)[OF assms(2) that] that assms(3) W by (auto simp: del_sem_def Let_def upd_semcb_def)
  ultimately show ?thesis
    using sem_table.delete_inv[OF sem_invD(1)[OF assms(2)] assms(3)] assms(4) by (simp add: sem_inv_def)
qed

lemma tk_del_sem_inv:
  assumes "core_inv s" "sem_inv s"
  shows "core_inv (snd (tk_del_sem oid s)) \<and> sem_inv (snd (tk_del_sem oid s))"
  using assms del_sem_inv[OF assms INDEX_OBJ_less]
  by (auto simp: tk_del_sem_def Let_def check_defs consts_defs)

text \<open>
  \<^verbatim>\<open>tk_sig_sem\<close> refines the allocation: in the success case the served tasks of
  \<open>sem_grant\<close> leave the queue with result \<^verbatim>\<open>E_OK\<close> and the rest of the count remains.
\<close>

definition sig_sem_ok :: "ID \<Rightarrow> int \<Rightarrow> 'a semstate_scheme \<Rightarrow> bool" where
  "sig_sem_ok oid cnt s \<longleftrightarrow> CHK_OBJID NUM_SEMID oid \<and> 0 < cnt \<and>
     semid (semcb s (INDEX_OBJ oid)) \<noteq> 0 \<and>
     cnt \<le> maxsem (semcb s (INDEX_OBJ oid)) - semcnt (semcb s (INDEX_OBJ oid))"

lemma tk_sig_sem_refines:
  assumes inv: "core_inv s" "sem_inv s" and ok: "sig_sem_ok oid cnt s"
  defines "i \<equiv> INDEX_OBJ oid"
  assumes g: "sem_grant (sem_cnt_atr (semcb s i)) (sem_req s) (semcnt (semcb s i) + cnt)
                (que s (QSem i)) = (r, m)"
  shows "fst (tk_sig_sem oid cnt s) = Ret E_OK"
    "tcb (snd (tk_sig_sem oid cnt s)) = served r (tcb s)"
    "que (snd (tk_sig_sem oid cnt s)) (QSem i) = filter (\<lambda>t. t \<notin> set r) (que s (QSem i))"
    "semcnt (semcb (snd (tk_sig_sem oid cnt s)) i) = m"
    "core_inv (snd (tk_sig_sem oid cnt s))" "sem_inv (snd (tk_sig_sem oid cnt s))"
proof -
  let ?s = "upd_semcb i (\<lambda>cb. cb\<lparr>semcnt := semcnt cb + cnt\<rparr>) s" and ?ts = "que s (QSem i)"
  have i: "i < NUM_SEMID" using ok INDEX_OBJ_less by (auto simp: sig_sem_ok_def i_def)
  have live: "semid (semcb s i) \<noteq> 0" and cnt: "0 < cnt" "cnt \<le> maxsem (semcb s i) - semcnt (semcb s i)"
    using ok by (simp_all add: sig_sem_ok_def i_def)
  have b: "sem_bounds (semcb s i) (sem_req s) ?ts"
    using sem_invD(2)[OF inv(2) i] live by (simp add: sem_ok_def)
  have e: "tk_sig_sem oid cnt s = (Ret E_OK, END_CRITICAL_SECTION (sig_sem_loop i (que ?s (QSem i)) ?s))"
    using ok by (auto simp: tk_sig_sem_def Let_def check_defs consts_defs sig_sem_ok_def i_def)
  have cb: "semcb ?s i = (semcb s i)\<lparr>semcnt := semcnt (semcb s i) + cnt\<rparr>"
    "\<And>j. j \<noteq> i \<Longrightarrow> semcb ?s j = semcb s j" "\<And>j. semid (semcb ?s j) = semid (semcb s j)"
    "que ?s = que s" "tcb ?s = tcb s" "free_semcb ?s = free_semcb s"
    by (simp_all add: upd_semcb_def)
  have ca: "sem_cnt_atr (semcb ?s i) = sem_cnt_atr (semcb s i)"
    by (simp add: sem_cnt_atr_def cb)
  have c: "core_inv ?s" using inv by simp
  have g': "sem_grant (sem_cnt_atr (semcb ?s i)) (sem_req ?s) (semcnt (semcb ?s i)) (que ?s (QSem i)) = (r, m)"
    using g unfolding ca by (simp add: cb)
  have b': "sem_bounds (semcb ?s i) (sem_req ?s) (que ?s (QSem i))"
    using b cnt by (simp add: sem_bounds_def cb)
  have d: "distinct (que ?s (QSem i))" using core_inv_distinct[OF c] .
  have l: "sig_sem_loop i (que ?s (QSem i)) ?s = sem_serve_all i r ?s"
    by (rule sig_sem_loop_serves[where m = m])
      (use c d b' g' in \<open>auto simp: sem_bounds_def sem_cnt_atr_def\<close>)
  note e = e[unfolded l]
  have sub: "set r \<subseteq> set (que ?s (QSem i))" by (rule sem_grant_subset[OF g'])
  note R = sem_serve_all_result[OF c sem_grant_distinct[OF g' d] sub]
  have f: "core_inv (sem_serve_all i r ?s)" "sem_inv (sem_serve_all i r ?s)"
    "semcnt (semcb (sem_serve_all i r ?s) i) = m"
    by (rule sem_serve_all_inv[OF c i _ _ _ _ b' g'];
        use sem_invD[OF inv(2)] live cb in simp)+
  show "fst (tk_sig_sem oid cnt s) = Ret E_OK" by (simp add: e)
  show "tcb (snd (tk_sig_sem oid cnt s)) = served r (tcb s)" using R by (simp add: e cb)
  show "que (snd (tk_sig_sem oid cnt s)) (QSem i) = filter (\<lambda>t. t \<notin> set r) ?ts"
    using R by (simp add: e cb)
  show "semcnt (semcb (snd (tk_sig_sem oid cnt s)) i) = m"
    "core_inv (snd (tk_sig_sem oid cnt s))" "sem_inv (snd (tk_sig_sem oid cnt s))"
    using f by (simp_all add: e)
qed

lemma tk_sig_sem_error:
  assumes "\<not> sig_sem_ok oid cnt s"
  shows "\<exists>e<0. fst (tk_sig_sem oid cnt s) = Ret e"
    "snd (tk_sig_sem oid cnt s) = s \<or> snd (tk_sig_sem oid cnt s) = END_CRITICAL_SECTION s"
  using assms
  by (auto simp: tk_sig_sem_def Let_def check_defs consts_defs sig_sem_ok_def)

lemma tk_sig_sem_inv:
  assumes "core_inv s" "sem_inv s"
  shows "core_inv (snd (tk_sig_sem oid cnt s)) \<and> sem_inv (snd (tk_sig_sem oid cnt s))"
proof (cases "sig_sem_ok oid cnt s")
  case True
  obtain r m where "sem_grant (sem_cnt_atr (semcb s (INDEX_OBJ oid))) (sem_req s)
      (semcnt (semcb s (INDEX_OBJ oid)) + cnt) (que s (QSem (INDEX_OBJ oid))) = (r, m)" by force
  from tk_sig_sem_refines(5,6)[OF assms True this] show ?thesis by blast
next
  case False
  with tk_sig_sem_error(2)[OF False] assms show ?thesis by auto
qed

lemma hd_wait_enqueue:
  "hd (wait_enqueue a tb c ts) =
     (if ts = [] then c
      else if a AND TA_TPRI \<noteq> 0 \<and> priority (tb c) < priority (tb (hd ts)) then c else hd ts)"
  by (cases ts) (auto simp: wait_enqueue_def)

lemma top_of_wait_queue_hd:
  "knl_gcb_top_of_wait_queue w a c s = hd (wait_enqueue a (tcb s) c (que s (QWait w)))"
  by (cases "que s (QWait w)") (auto simp: knl_gcb_top_of_wait_queue_def wait_enqueue_def)

text \<open>
  A call passes its checks when the semaphore exists, the request can be met at all and the caller
  may block. Then it either takes the resources or waits with its request.
\<close>

definition wai_sem_ok :: "ID \<Rightarrow> int \<Rightarrow> TMO \<Rightarrow> 'a semstate_scheme \<Rightarrow> bool" where
  "wai_sem_ok oid cnt tmout s \<longleftrightarrow> CHK_OBJID NUM_SEMID oid \<and> 0 < cnt \<and> TMO_FEVR \<le> tmout \<and>
     \<not> in_ddsp s \<and> semid (semcb s (INDEX_OBJ oid)) \<noteq> 0 \<and> cnt \<le> maxsem (semcb s (INDEX_OBJ oid))"

definition wai_sem_gets :: "nat \<Rightarrow> int \<Rightarrow> nat \<Rightarrow> 'a semstate_scheme \<Rightarrow> bool" where
  "wai_sem_gets i cnt c s \<longleftrightarrow> cnt \<le> semcnt (semcb s i) \<and>
     (sem_cnt_atr (semcb s i) \<or>
      hd (wait_enqueue (sematr (semcb s i)) (tcb s) c (que s (QSem i))) = c)"

lemma tk_wai_sem_error:
  assumes "\<not> wai_sem_ok oid cnt tmout s"
  shows "\<exists>e<0. fst (tk_wai_sem oid cnt tmout s) = Ret e"
    "snd (tk_wai_sem oid cnt tmout s) = s \<or> snd (tk_wai_sem oid cnt tmout s) = END_CRITICAL_SECTION s"
  using assms
  by (auto simp: tk_wai_sem_def Let_def check_defs consts_defs wai_sem_ok_def)

lemma tk_wai_sem_gets:
  assumes "wai_sem_ok oid cnt tmout s" "ctxtsk s = Some c" "wai_sem_gets (INDEX_OBJ oid) cnt c s"
  shows "tk_wai_sem oid cnt tmout s =
    (Ret E_OK, END_CRITICAL_SECTION
       (upd_semcb (INDEX_OBJ oid) (\<lambda>cb. cb\<lparr>semcnt := semcnt cb - cnt\<rparr>) s))"
  using assms
  by (auto simp: tk_wai_sem_def Let_def check_defs consts_defs wai_sem_ok_def wai_sem_gets_def
      sem_cnt_atr_def top_of_wait_queue_hd)

definition sem_wspec :: "SEMCB \<Rightarrow> WSPEC" where
  "sem_wspec cb = (if sematr cb AND TA_TPRI \<noteq> 0 then knl_wspec_sem_tpri else knl_wspec_sem_tfifo)"

lemma wait_home_sem [simp]: "wait_home (sem_wspec cb) (ID_OBJ i) = Some (QSem i)"
  by (simp add: sem_wspec_def)

lemma tk_wai_sem_waits:
  assumes "wai_sem_ok oid cnt tmout s" "ctxtsk s = Some c" "\<not> wai_sem_gets (INDEX_OBJ oid) cnt c s"
  shows "tk_wai_sem oid cnt tmout s =
    (wait_ret tmout, END_CRITICAL_SECTION
       (knl_gcb_make_wait (WSem (INDEX_OBJ oid)) (semid (semcb s (INDEX_OBJ oid)))
         (sematr (semcb s (INDEX_OBJ oid))) c tmout
         (prepare_wait c (sem_wspec (semcb s (INDEX_OBJ oid))) (WINFO_SEM cnt) s)))"
  using assms
  by (auto simp: tk_wai_sem_def Let_def check_defs consts_defs wai_sem_ok_def wai_sem_gets_def
      sem_cnt_atr_def top_of_wait_queue_hd sem_wspec_def)

lemma must_wait_less: "must_wait k req n ts \<Longrightarrow> m \<le> n \<Longrightarrow> must_wait k req m ts"
  by (force simp: must_wait_def)

lemma wai_sem_gets_inv:
  assumes "core_inv s" "sem_inv s" "wai_sem_ok oid cnt tmout s" "wai_sem_gets (INDEX_OBJ oid) cnt c s"
  defines "s' \<equiv> upd_semcb (INDEX_OBJ oid) (\<lambda>cb. cb\<lparr>semcnt := semcnt cb - cnt\<rparr>) s"
  shows "core_inv s' \<and> sem_inv s'"
proof -
  let ?i = "INDEX_OBJ oid"
  have i: "?i < NUM_SEMID" "semid (semcb s ?i) \<noteq> 0" "0 < cnt" "cnt \<le> semcnt (semcb s ?i)"
    using assms(3,4) INDEX_OBJ_less by (auto simp: wai_sem_ok_def wai_sem_gets_def)
  have "sem_ok (semcb s' j) (sem_req s) (que s (QSem j))" if "j < NUM_SEMID" for j
  proof (cases "j = ?i")
    case True
    have "must_wait k req n ts \<Longrightarrow> must_wait k req (n - cnt) ts" for k req n ts
      by (rule must_wait_less) (use i in auto)
    with True sem_invD(2)[OF assms(2) that] i show ?thesis
      by (auto simp: s'_def upd_semcb_def sem_ok_def sem_bounds_def sem_cnt_atr_def)
  next
    case False
    with sem_invD(2)[OF assms(2) that] show ?thesis by (simp add: s'_def upd_semcb_def)
  qed
  moreover have "(\<lambda>j. semid (semcb s' j)) = (\<lambda>j. semid (semcb s j))"
    "free_semcb s' = free_semcb s" "que s' = que s" by (auto simp: s'_def upd_semcb_def)
  ultimately have "sem_inv s'" using sem_invD(1,5)[OF assms(2)] by (simp add: sem_inv_def s'_def)
  with assms(1) show ?thesis by (simp add: s'_def)
qed

lemma wai_sem_waits_inv:
  fixes c :: nat
  assumes inv: "core_inv s" "sem_inv s" and ok: "wai_sem_ok oid cnt tmout s"
    and c: "ctxtsk s = Some c" "state (tcb s c) = TS_READY" "\<not> wai_sem_gets (INDEX_OBJ oid) cnt c s"
  defines "s' \<equiv> knl_gcb_make_wait (WSem (INDEX_OBJ oid)) (semid (semcb s (INDEX_OBJ oid)))
         (sematr (semcb s (INDEX_OBJ oid))) c tmout
         (prepare_wait c (sem_wspec (semcb s (INDEX_OBJ oid))) (WINFO_SEM cnt) s)"
  shows "core_inv s' \<and> sem_inv s'"
proof -
  let ?i = "INDEX_OBJ oid" and ?a = "sematr (semcb s (INDEX_OBJ oid))"
  have i: "?i < NUM_SEMID" "semid (semcb s ?i) \<noteq> 0" "0 < cnt" "cnt \<le> maxsem (semcb s ?i)"
    using ok INDEX_OBJ_less by (auto simp: wai_sem_ok_def)
  have id: "wait_home (sem_wspec (semcb s ?i)) (semid (semcb s ?i)) = Some (QSem ?i)"
    using sem_invD(4)[OF inv(2) i(1,2)] by simp
  note B = block_on[OF inv(1) c(1,2) id, where objatr = ?a and wi = "WINFO_SEM cnt" and tmout = tmout,
      folded s'_def]
  note nq = ready_not_queued[OF inv(1) c(2)]
  have f: "semcb s' = semcb s" "free_semcb s' = free_semcb s" using B(5) semst_frame by blast+
  have rq: "sem_req s' t = (if t = c then cnt else sem_req s t)" for t
    using B(2,3) by (simp add: sem_req_def)
  have oth: "sem_ok (semcb s j) (sem_req s') (que s (QSem j)) = sem_ok (semcb s j) (sem_req s) (que s (QSem j))" for j
    using nq by (intro sem_ok_cong) (auto simp: rq)
  have "sem_ok (semcb s j) (sem_req s') (que s' (QSem j))" if j: "j < NUM_SEMID" for j
  proof (cases "j = ?i \<and> tmout \<noteq> TMO_POL")
    case False
    then have "que s' (QSem j) = que s (QSem j)" using B(4)[where w' = "WSem j"] by auto
    with sem_invD(2)[OF inv(2) j] oth show ?thesis by simp
  next
    case True
    let ?ts = "que s (QSem ?i)"
    have q: "que s' (QSem j) = wait_enqueue ?a (tcb s) c ?ts" using B(4)[where w' = "WSem j"] True by simp
    have ok0: "sem_ok (semcb s ?i) (sem_req s) ?ts" using sem_invD(2)[OF inv(2)] i by blast
    have nc: "c \<notin> set ?ts" by (rule nq)
    then have h: "hd (wait_enqueue ?a (tcb s) c ?ts) = c \<or>
        (?ts \<noteq> [] \<and> hd (wait_enqueue ?a (tcb s) c ?ts) = hd ?ts \<and> hd ?ts \<noteq> c)"
      by (auto simp: hd_wait_enqueue)
    have ne: "wait_enqueue ?a (tcb s) c ?ts \<noteq> []" by (simp add: wait_enqueue_def)
    show ?thesis using True ok0 i c(3) h ne nc unfolding q
      by (auto simp: sem_ok_def sem_bounds_def must_wait_def rq wai_sem_gets_def)
  qed
  moreover have "que s' (QSem j) = []" if "NUM_SEMID \<le> j" for j
    using sem_invD(5)[OF inv(2) that] that i(1) B(4)[where w' = "WSem j"] by auto
  ultimately show ?thesis using sem_invD(1)[OF inv(2)] B(1) by (simp add: sem_inv_def f)
qed

lemma tk_wai_sem_inv:
  assumes "core_inv s" "sem_inv s" "run_ok s"
  shows "core_inv (snd (tk_wai_sem oid cnt tmout s)) \<and> sem_inv (snd (tk_wai_sem oid cnt tmout s))"
proof (cases "wai_sem_ok oid cnt tmout s")
  case False
  with tk_wai_sem_error(2)[OF False] assms show ?thesis by auto
next
  case True
  then have "\<not> CHECK_DISPATCH s < E_OK" by (simp add: wai_sem_ok_def CHECK_DISPATCH_def)
  then obtain c where c: "ctxtsk s = Some c" "state (tcb s c) = TS_READY"
    using CHECK_DISPATCH_OK assms(3) by blast
  show ?thesis
  proof (cases "wai_sem_gets (INDEX_OBJ oid) cnt c s")
    case g: True
    with wai_sem_gets_inv[OF assms(1,2) True g] show ?thesis by (simp add: tk_wai_sem_gets[OF True c(1) g])
  next
    case w: False
    with wai_sem_waits_inv[OF assms(1,2) True c w] show ?thesis
      by (simp add: tk_wai_sem_waits[OF True c(1) w])
  qed
qed

section \<open>Hooks\<close>

text \<open>
  The invariant while the queue of one semaphore has just changed: its first task may be able to go
  on. The hooks re-establish the full invariant.
\<close>

definition sem_inv_x :: "nat \<Rightarrow> 'a semstate_scheme \<Rightarrow> bool" where
  "sem_inv_x i s \<longleftrightarrow> cb_table_inv NUM_SEMID (\<lambda>i. semid (semcb s i)) (free_semcb s) \<and>
     i < NUM_SEMID \<and> semid (semcb s i) \<noteq> 0 \<and>
     sem_bounds (semcb s i) (sem_req s) (que s (QSem i)) \<and>
     (sem_cnt_atr (semcb s i) \<longrightarrow> must_wait True (sem_req s) (semcnt (semcb s i)) (que s (QSem i))) \<and>
     (\<forall>j < NUM_SEMID. j \<noteq> i \<longrightarrow> sem_ok (semcb s j) (sem_req s) (que s (QSem j))) \<and>
     (\<forall>j \<ge> NUM_SEMID. que s (QSem j) = [])"

lemma sem_subset:
  assumes "set ts' \<subseteq> set ts"
  shows "sem_bounds cb req ts \<Longrightarrow> sem_bounds cb req ts'"
    "must_wait True req n ts \<Longrightarrow> must_wait True req n ts'"
  using assms by (auto simp: sem_bounds_def must_wait_def)

lemma sem_inv_x_I:
  assumes "sem_inv s" "t \<in> set (que s (QSem i))" "core_inv s"
    and f: "semcb s' = semcb s" "free_semcb s' = free_semcb s" "\<And>u. winfo (tcb s' u) = winfo (tcb s u)"
      "set (que s' (QSem i)) \<subseteq> set (que s (QSem i))" "\<And>j. j \<noteq> i \<Longrightarrow> que s' (QSem j) = que s (QSem j)"
  shows "sem_inv_x i s'"
proof -
  have i: "i < NUM_SEMID" using sem_invD(5)[OF assms(1), of i] assms(2) by (cases "i < NUM_SEMID") auto
  then have "semid (semcb s i) \<noteq> 0" using sem_invD(3)[OF assms(1) i] assms(2) by auto
  moreover have "sem_req s' = sem_req s" by (simp add: fun_eq_iff sem_req_def f)
  moreover have "sem_bounds (semcb s i) (sem_req s) (que s' (QSem i))"
    "sem_cnt_atr (semcb s i) \<longrightarrow> must_wait True (sem_req s) (semcnt (semcb s i)) (que s' (QSem i))"
    using sem_subset[OF f(4)] sem_invD(2)[OF assms(1) i] calculation(1) by (auto simp: sem_ok_def)
  ultimately show ?thesis
    using assms(1) i f(5) sem_invD(2,5)[OF assms(1)] by (auto simp: sem_inv_x_def sem_inv_def f)
qed

lemma sem_inv_x_cnt:
  assumes "sem_inv_x i s" "sem_cnt_atr (semcb s i)"
  shows "sem_inv s"
  using assms unfolding sem_inv_def sem_inv_x_def sem_ok_def by auto

lemma sem_chg_pri_queue:
  assumes inv: "core_inv s" and x: "sem_inv_x i s" and ca: "\<not> sem_cnt_atr (semcb s i)"
  shows "core_inv (chg_pri_sem_loop i (que s (QSem i)) s)" "sem_inv (chg_pri_sem_loop i (que s (QSem i)) s)"
    "u \<notin> set (que s (QSem i)) \<Longrightarrow> tcb (chg_pri_sem_loop i (que s (QSem i)) s) u = tcb s u"
proof -
  obtain r m where g: "sem_grant False (sem_req s) (semcnt (semcb s i)) (que s (QSem i)) = (r, m)" by force
  have g': "sem_grant (sem_cnt_atr (semcb s i)) (sem_req s) (semcnt (semcb s i)) (que s (QSem i)) = (r, m)"
    using g ca by simp
  have d: "distinct (que s (QSem i))" by (rule core_inv_distinct[OF inv])
  have l: "chg_pri_sem_loop i (que s (QSem i)) s = sem_serve_all i r s"
    by (rule chg_pri_sem_loop_serves[OF d inv _ g]) simp
  show "core_inv (chg_pri_sem_loop i (que s (QSem i)) s)" "sem_inv (chg_pri_sem_loop i (que s (QSem i)) s)"
    unfolding l using x by (intro sem_serve_all_inv[OF inv _ _ _ _ _ _ g']; simp add: sem_inv_x_def)+
  have R: "tcb (sem_serve_all i r s) = served r (tcb s)"
    using sem_serve_all_result[OF inv sem_grant_distinct[OF g d] sem_grant_subset[OF g]] by blast
  show "tcb (chg_pri_sem_loop i (que s (QSem i)) s) u = tcb s u" if "u \<notin> set (que s (QSem i))"
    using that sem_grant_subset[OF g] unfolding l R by (auto simp: served_def)
qed

lemma sem_rel_wai_inv:
  assumes "core_inv s" "sem_inv_x i s" "INDEX_OBJ (wid (tcb s t)) = i"
  shows "core_inv (sem_rel_wai t s)" "sem_inv (sem_rel_wai t s)"
    "u \<notin> set (que s (QSem i)) \<Longrightarrow> tcb (sem_rel_wai t s) u = tcb s u"
  using assms sem_chg_pri_queue[OF assms(1,2)] sem_inv_x_cnt[OF assms(2)]
  by (auto simp: sem_rel_wai_def sem_chg_pri_def Let_def sem_cnt_atr_def)

lemma sem_chg_pri_inv:
  assumes inv: "core_inv s" and x: "sem_inv_x i s" and t: "t \<in> set (que s (QSem i))" "0 \<le> p"
  shows "core_inv (sem_chg_pri t p s)" "sem_inv (sem_chg_pri t p s)"
proof -
  let ?s = "knl_gcb_change_priority (WSem i) t s"
  have wi: "INDEX_OBJ (wid (tcb s t)) = i"
  proof -
    have "home (tcb s t) = Some (QSem i)" "in_wait (state (tcb s t))"
      using t(1) task_inv_mem[OF core_invD(1)[OF inv], of t "QSem i"] core_inv_in_wait[OF inv t(1)] by auto
    then show ?thesis by (cases "wspec (tcb s t)") auto
  qed
  note G = core_inv_gcb_change_priority[OF inv t(1)]
  have "sem_req ?s = sem_req s" by (simp add: fun_eq_iff sem_req_def G)
  then have x': "sem_inv_x i ?s"
    using x G(3)[of "WSem i"] G(4) by (auto simp: sem_inv_x_def sem_bounds_def must_wait_def)
  have "sem_chg_pri t p s = (if sem_cnt_atr (semcb ?s i) then ?s else chg_pri_sem_loop i (que ?s (QSem i)) ?s)"
    using t(2) by (simp add: sem_chg_pri_def Let_def wi sem_cnt_atr_def)
  then show "core_inv (sem_chg_pri t p s)" "sem_inv (sem_chg_pri t p s)"
    using sem_chg_pri_queue[OF G(1) x'] sem_inv_x_cnt[OF x'] G(1) by auto
qed

section \<open>What the calls leave alone\<close>

fun is_WSem :: "wobj \<Rightarrow> bool" where
  "is_WSem (WSem i) = True"
| "is_WSem _ = False"

lemma sem_inv_frame_waits:
  assumes "sem_inv s" "frame_waits K s s'" "semcb s' = semcb s" "free_semcb s' = free_semcb s"
    "\<And>i. \<not> K (WSem i)"
  shows "sem_inv s'"
  by (rule sem_inv_frame[OF assms(1,3,4)]) (simp_all add: frame_waitsD[OF assms(2,5)])

definition sem_frame_rel :: "'a semstate_scheme \<Rightarrow> 'a semstate_scheme \<Rightarrow> bool" where
  "sem_frame_rel s s' \<longleftrightarrow> frame_waits is_WSem s s' \<and> semstate.more s' = semstate.more s"

lemma semst_more_END [simp]: "semstate.more (END_CRITICAL_SECTION s) = semstate.more s"
  by (rule semst_frame) simp

lemma sem_frame_rel_END [simp]:
  "sem_frame_rel s (END_CRITICAL_SECTION s') = sem_frame_rel s s'" "sem_frame_rel s s"
  by (simp_all add: sem_frame_rel_def)

lemma tk_cre_sem_frame:
  assumes "core_inv s" "sem_inv s"
  shows "sem_frame_rel s (snd (tk_cre_sem pk s))"
proof -
  have "sem_frame_rel s (snd (cre_sem pk s))"
    by (auto simp: cre_sem_def Let_def sem_frame_rel_def frame_waits_def kdefs split: list.split)
  then show ?thesis by (auto simp: tk_cre_sem_def Let_def split: prod.splits)
qed

lemma tk_del_sem_frame:
  assumes "core_inv s"
  shows "sem_frame_rel s (snd (tk_del_sem oid s))"
proof -
  have "sem_frame_rel s (del_sem i s)" for i
    using frame_waits_delete[OF assms, of is_WSem "WSem i"] semst_frame(3)[of "knl_wait_delete (WSem i) s" s]
    by (simp add: del_sem_def Let_def sem_frame_rel_def frame_waits_def upd_semcb_def)
  then show ?thesis by (simp add: tk_del_sem_def Let_def)
qed

lemma sem_serve_all_frame:
  assumes "core_inv s" "distinct r" "set r \<subseteq> set (que s (QSem i))"
  shows "sem_frame_rel s (sem_serve_all i r s)"
  using sem_serve_all_result[OF assms] frame_waits_served[OF assms(1) _ assms(3), of _ is_WSem]
  by (auto simp: sem_frame_rel_def)

lemma upd_semcb_frame: "sem_frame_rel s (upd_semcb i f s)" "sem_frame_rel (upd_semcb i f s) s' = sem_frame_rel s s'"
  by (simp_all add: sem_frame_rel_def frame_waits_def upd_semcb_def)

lemma tk_sig_sem_frame:
  assumes "core_inv s" "sem_inv s"
  shows "sem_frame_rel s (snd (tk_sig_sem oid cnt s))"
proof (cases "sig_sem_ok oid cnt s")
  case False
  with tk_sig_sem_error(2)[OF False] show ?thesis by auto
next
  case True
  let ?i = "INDEX_OBJ oid"
  let ?s = "upd_semcb ?i (\<lambda>cb. cb\<lparr>semcnt := semcnt cb + cnt\<rparr>) s"
  obtain r m where g: "sem_grant (sem_cnt_atr (semcb ?s ?i)) (sem_req ?s) (semcnt (semcb ?s ?i))
      (que ?s (QSem ?i)) = (r, m)" by force
  have i: "?i < NUM_SEMID" "semid (semcb s ?i) \<noteq> 0"
    using True INDEX_OBJ_less by (auto simp: sig_sem_ok_def)
  have c: "core_inv ?s" using assms by simp
  have d: "distinct (que ?s (QSem ?i))" by (rule core_inv_distinct[OF c])
  have pos: "\<forall>t\<in>set (que ?s (QSem ?i)). 0 < sem_req ?s t"
    using sem_invD(2)[OF assms(2) i(1)] i(2) by (simp add: sem_ok_def sem_bounds_def)
  have l: "sig_sem_loop ?i (que ?s (QSem ?i)) ?s = sem_serve_all ?i r ?s"
    by (rule sig_sem_loop_serves[OF pos d c _ g[unfolded sem_cnt_atr_def]]) simp
  have "snd (tk_sig_sem oid cnt s) = END_CRITICAL_SECTION (sig_sem_loop ?i (que ?s (QSem ?i)) ?s)"
    using True by (auto simp: tk_sig_sem_def Let_def check_defs consts_defs sig_sem_ok_def)
  moreover have "sem_frame_rel ?s (sem_serve_all ?i r ?s)"
    by (rule sem_serve_all_frame[OF c sem_grant_distinct[OF g d] sem_grant_subset[OF g]])
  ultimately show ?thesis unfolding l by (simp add: upd_semcb_frame)
qed

lemma tk_wai_sem_frame:
  assumes "core_inv s" "sem_inv s" "run_ok s"
  shows "sem_frame_rel s (snd (tk_wai_sem oid cnt tmout s))"
proof (cases "wai_sem_ok oid cnt tmout s")
  case False
  with tk_wai_sem_error(2)[OF False] show ?thesis by auto
next
  case True
  then have "\<not> CHECK_DISPATCH s < E_OK" by (simp add: wai_sem_ok_def CHECK_DISPATCH_def)
  then obtain c where c: "ctxtsk s = Some c" "state (tcb s c) = TS_READY"
    using CHECK_DISPATCH_OK assms(3) by blast
  let ?i = "INDEX_OBJ oid"
  have i: "?i < NUM_SEMID" "semid (semcb s ?i) \<noteq> 0"
    using True INDEX_OBJ_less by (auto simp: wai_sem_ok_def)
  have id: "wait_home (sem_wspec (semcb s ?i)) (semid (semcb s ?i)) = Some (QSem ?i)"
    using sem_invD(4)[OF assms(2) i] by simp
  show ?thesis
  proof (cases "wai_sem_gets ?i cnt c s")
    case g: True
    show ?thesis by (simp add: tk_wai_sem_gets[OF True c(1) g] upd_semcb_frame)
  next
    case w: False
    let ?w = "knl_gcb_make_wait (WSem ?i) (semid (semcb s ?i)) (sematr (semcb s ?i)) c tmout
         (prepare_wait c (sem_wspec (semcb s ?i)) (WINFO_SEM cnt) s)"
    have "frame_waits is_WSem s ?w" by (rule frame_waits_block_on[OF assms(1) c id]) simp
    moreover have "semstate.more ?w = semstate.more s"
      by (rule semst_frame) (rule block_on(5)[OF assms(1) c id])
    ultimately show ?thesis by (simp add: tk_wai_sem_waits[OF True c(1) w] sem_frame_rel_def)
  qed
qed

section \<open>Properties\<close>

definition sample_semcb :: "nat \<Rightarrow> SEMCB" where
  "sample_semcb i =
     \<lparr>semid = (if i = 0 then 1 else 0), sem_exinf = 0, sematr = 0, semcnt = 1, maxsem = 10\<rparr>"

definition sample_sem :: "'a \<Rightarrow> 'a semstate_scheme" where
  "sample_sem m = sample_kernel (semstate_ext sample_semcb [1..<NUM_SEMID] m)"

lemma sample_sem_fields [simp]:
  "tcb (sample_sem m) = sample_tcb" "que (sample_sem m) = sample_que"
  "semcb (sample_sem m) = sample_semcb" "free_semcb (sample_sem m) = [1..<NUM_SEMID]"
  "core_inv (sample_sem m)" "run_ok (sample_sem m)" "\<not> in_ddsp (sample_sem m)"
  "ctxtsk (sample_sem m) = Some 0"
  by (simp_all add: sample_sem_def) (simp_all add: sample_kernel_def)

lemma sample_sem_inv [simp]: "sem_inv (sample_sem m)"
proof -
  have "cb_table_inv NUM_SEMID (\<lambda>i. semid (sample_semcb i)) [1..<NUM_SEMID]"
    by (auto simp: cb_table_inv_def sample_semcb_def ID_OBJ_def)
  then show ?thesis
    by (simp add: sem_inv_def sem_ok_def sample_semcb_def sem_bounds_def must_wait_def sem_req_def
        sem_cnt_atr_def NUM_SEMID_def) (simp add: sample_defs)
qed

text \<open>
  C2. Signalling a semaphore refines the abstract allocation: the tasks that the released count
  covers, taken in queue order, leave the queue with result \<^verbatim>\<open>E_OK\<close>, nobody else is touched,
  no resource is created or lost, and afterwards nobody who could be served is still waiting.
\<close>

theorem sem_signal_refines_grant:
  assumes "core_inv s" "sem_inv s" "sig_sem_ok oid cnt s"
    and "sem_grant (sem_cnt_atr (semcb s (INDEX_OBJ oid))) (sem_req s)
           (semcnt (semcb s (INDEX_OBJ oid)) + cnt) (que s (QSem (INDEX_OBJ oid))) = (r, m)"
  shows "fst (tk_sig_sem oid cnt s) = Ret E_OK \<and>
    tcb (snd (tk_sig_sem oid cnt s)) = served r (tcb s) \<and>
    que (snd (tk_sig_sem oid cnt s)) (QSem (INDEX_OBJ oid)) =
      filter (\<lambda>t. t \<notin> set r) (que s (QSem (INDEX_OBJ oid))) \<and>
    semcnt (semcb (snd (tk_sig_sem oid cnt s)) (INDEX_OBJ oid)) = m \<and>
    m + sum_list (map (sem_req s) r) = semcnt (semcb s (INDEX_OBJ oid)) + cnt \<and>
    core_inv (snd (tk_sig_sem oid cnt s)) \<and> sem_inv (snd (tk_sig_sem oid cnt s))"
  using tk_sig_sem_refines[OF assms] sem_grant_conserves[OF assms(4)] by simp

theorem sem_signal_refines_grant_witness:
  "que (snd (tk_sig_sem 1 1 (sample_sem ()))) (QSem 0) = [] \<and>
   semcnt (semcb (snd (tk_sig_sem 1 1 (sample_sem ()))) 0) = 0"
proof -
  have i: "INDEX_OBJ 1 = 0" by (simp add: INDEX_OBJ_def)
  have ok: "sig_sem_ok 1 1 (sample_sem ())"
    by (simp add: sig_sem_ok_def i sample_semcb_def CHK_OBJID_def NUM_SEMID_def)
  have g: "sem_grant (sem_cnt_atr (semcb (sample_sem ()) (INDEX_OBJ 1))) (sem_req (sample_sem ()))
      (semcnt (semcb (sample_sem ()) (INDEX_OBJ 1)) + 1) (que (sample_sem ()) (QSem (INDEX_OBJ 1))) = ([2], 0)"
    by (simp add: i sample_semcb_def sem_req_def) (simp add: sample_defs)
  from sem_signal_refines_grant[OF _ _ ok g] show ?thesis by (simp add: i)
qed

end
