(* ===== verification/Eventflag.thy ===== *)
theory Eventflag
  imports Semaphore
begin

text \<open>
  Event flags of \<^verbatim>\<open>kernel/tkernel/eventflag.c\<close> and \<^verbatim>\<open>eventflag.h\<close>. The loop of
  \<^verbatim>\<open>tk_set_flg\<close> is shown to implement the abstract delivery \<open>flg_grant\<close>; the invariant
  \<open>flg_inv\<close> says that no task waits for a condition that already holds.
\<close>

section \<open>State\<close>

record FLGCB =
  flgid :: ID
  flg_exinf :: addr
  flgatr :: ATR
  flgptn :: UINT

record T_CFLG =
  cflg_exinf :: addr
  cflg_flgatr :: ATR
  cflg_iflgptn :: UINT

record T_RFLG =
  rflg_exinf :: addr
  rflg_wtsk :: ID
  rflg_flgptn :: UINT

record flgstate = semstate +
  flgcb :: "nat \<Rightarrow> FLGCB"
  free_flgcb :: "nat list"

definition upd_flgcb :: "nat \<Rightarrow> (FLGCB \<Rightarrow> FLGCB) \<Rightarrow> 'a flgstate_scheme \<Rightarrow> 'a flgstate_scheme" where
  [kdefs]: "upd_flgcb i f s = s\<lparr>flgcb := (flgcb s)(i := f (flgcb s i))\<rparr>"

section \<open>Operations\<close>

definition knl_eventflag_cond :: "UINT \<Rightarrow> UINT \<Rightarrow> UINT \<Rightarrow> bool" where
  "knl_eventflag_cond ptn waiptn wfmode \<longleftrightarrow>
     (if wfmode AND TWF_ORW \<noteq> 0 then ptn AND waiptn \<noteq> 0 else ptn AND waiptn = waiptn)"

definition knl_eventflag_initialize :: "'a flgstate_scheme \<Rightarrow> ER \<times> 'a flgstate_scheme" where
  "knl_eventflag_initialize s =
     (if NUM_FLGID < 1 then (E_SYS, s)
      else (E_OK,
        fold (\<lambda>i st. (upd_flgcb i (flgid_update (\<lambda>_. 0)) st)\<lparr>free_flgcb := free_flgcb st @ [i]\<rparr>)
          [0..<NUM_FLGID] (s\<lparr>free_flgcb := []\<rparr>)))"

definition cre_flg :: "T_CFLG \<Rightarrow> 'a flgstate_scheme \<Rightarrow> ID \<times> 'a flgstate_scheme" where
  "cre_flg pk s =
     (case free_flgcb s of
        [] \<Rightarrow> (E_LIMIT, s)
      | i # fs \<Rightarrow>
          let flgid' = ID_OBJ i;
              s1 = que_init (QFlg i) (s\<lparr>free_flgcb := fs\<rparr>);
              s2 = upd_flgcb i (\<lambda>cb. cb\<lparr>flgid := flgid', flg_exinf := cflg_exinf pk,
                     flgatr := cflg_flgatr pk, flgptn := cflg_iflgptn pk\<rparr>) s1
          in (flgid', s2))"

definition tk_cre_flg :: "T_CFLG \<Rightarrow> 'a flgstate_scheme \<Rightarrow> sysret \<times> 'a flgstate_scheme" where
  "tk_cre_flg pk s =
     (let e = CHECK_RSATR (cflg_flgatr pk) (TA_TPRI OR TA_WMUL)
      in if e < E_OK then (Ret e, s)
         else let (r, s1) = cre_flg pk s in (Ret r, END_CRITICAL_SECTION s1))"

definition del_flg :: "nat \<Rightarrow> 'a flgstate_scheme \<Rightarrow> 'a flgstate_scheme" where
  "del_flg i s =
     (let s1 = knl_wait_delete (WFlg i) s
      in upd_flgcb i (flgid_update (\<lambda>_. 0)) (s1\<lparr>free_flgcb := free_flgcb s1 @ [i]\<rparr>))"

definition tk_del_flg :: "ID \<Rightarrow> 'a flgstate_scheme \<Rightarrow> sysret \<times> 'a flgstate_scheme" where
  "tk_del_flg oid s =
     (let e = CHECK_OBJID NUM_FLGID oid; i = INDEX_OBJ oid
      in if e < E_OK then (Ret e, s)
         else if flgid (flgcb s i) = 0 then (Ret E_NOEXS, END_CRITICAL_SECTION s)
         else (Ret E_OK, END_CRITICAL_SECTION (del_flg i s)))"

fun set_flg_loop :: "nat \<Rightarrow> nat list \<Rightarrow> 'a flgstate_scheme \<Rightarrow> 'a flgstate_scheme" where
  "set_flg_loop i [] s = s"
| "set_flg_loop i (t # queue) s =
     (let waiptn = winfo_flg_waiptn (winfo (tcb s t));
          wfmode = winfo_flg_wfmode (winfo (tcb s t))
      in if knl_eventflag_cond (flgptn (flgcb s i)) waiptn wfmode then
           let s1 = s\<lparr>umem := (umem s)
                      (winfo_flg_p_flgptn (winfo (tcb s t)) := flgptn (flgcb s i))\<rparr>;
               s2 = knl_wait_release_ok t s1;
               s3 = (if wfmode AND TWF_BITCLR \<noteq> 0
                     then upd_flgcb i (\<lambda>cb. cb\<lparr>flgptn := flgptn cb AND NOT waiptn\<rparr>) s2 else s2)
           in if wfmode AND TWF_BITCLR \<noteq> 0 \<and> flgptn (flgcb s3 i) = 0 then s3
              else if wfmode AND TWF_CLR \<noteq> 0 then upd_flgcb i (flgptn_update (\<lambda>_. 0)) s3
              else set_flg_loop i queue s3
         else set_flg_loop i queue s)"

definition tk_set_flg :: "ID \<Rightarrow> UINT \<Rightarrow> 'a flgstate_scheme \<Rightarrow> sysret \<times> 'a flgstate_scheme" where
  "tk_set_flg oid setptn s =
     (let e = CHECK_OBJID NUM_FLGID oid; i = INDEX_OBJ oid
      in if e < E_OK then (Ret e, s)
         else if flgid (flgcb s i) = 0 then (Ret E_NOEXS, END_CRITICAL_SECTION s)
         else
           let s1 = upd_flgcb i (\<lambda>cb. cb\<lparr>flgptn := flgptn cb OR setptn\<rparr>) s
           in (Ret E_OK, END_CRITICAL_SECTION (set_flg_loop i (que s1 (QFlg i)) s1)))"

definition tk_clr_flg :: "ID \<Rightarrow> UINT \<Rightarrow> 'a flgstate_scheme \<Rightarrow> sysret \<times> 'a flgstate_scheme" where
  "tk_clr_flg oid clrptn s =
     (let e = CHECK_OBJID NUM_FLGID oid; i = INDEX_OBJ oid
      in if e < E_OK then (Ret e, s)
         else if flgid (flgcb s i) = 0 then (Ret E_NOEXS, END_CRITICAL_SECTION s)
         else (Ret E_OK, END_CRITICAL_SECTION
                 (upd_flgcb i (\<lambda>cb. cb\<lparr>flgptn := flgptn cb AND clrptn\<rparr>) s)))"

definition flg_chg_pri :: "nat \<Rightarrow> int \<Rightarrow> 'a flgstate_scheme \<Rightarrow> 'a flgstate_scheme" where
  "flg_chg_pri t oldpri s = knl_gcb_change_priority (WFlg (INDEX_OBJ (wid (tcb s t)))) t s"

definition tk_wai_flg ::
    "ID \<Rightarrow> UINT \<Rightarrow> UINT \<Rightarrow> addr \<Rightarrow> TMO \<Rightarrow> 'a flgstate_scheme \<Rightarrow> sysret \<times> 'a flgstate_scheme" where
  "tk_wai_flg oid waiptn wfmode p_flgptn tmout s =
     (let e = first_err [CHECK_OBJID NUM_FLGID oid, CHECK_PAR (waiptn \<noteq> 0),
                CHECK_PAR (wfmode AND NOT (TWF_ORW OR TWF_CLR OR TWF_BITCLR) = 0),
                CHECK_TMOUT tmout, CHECK_DISPATCH s];
          i = INDEX_OBJ oid; c = the (ctxtsk s); cb = flgcb s i
      in if e < E_OK then (Ret e, s)
         else if flgid cb = 0 then (Ret E_NOEXS, END_CRITICAL_SECTION s)
         else if flgatr cb AND TA_WMUL = 0 \<and> que s (QFlg i) \<noteq> []
           then (Ret E_OBJ, END_CRITICAL_SECTION s)
         else if knl_eventflag_cond (flgptn cb) waiptn wfmode then
           let s1 = s\<lparr>umem := (umem s)(p_flgptn := flgptn cb)\<rparr>;
               s2 = (if wfmode AND TWF_BITCLR \<noteq> 0
                     then upd_flgcb i (\<lambda>cb. cb\<lparr>flgptn := flgptn cb AND NOT waiptn\<rparr>) s1 else s1);
               s3 = (if wfmode AND TWF_CLR \<noteq> 0 then upd_flgcb i (flgptn_update (\<lambda>_. 0)) s2 else s2)
           in (Ret E_OK, END_CRITICAL_SECTION s3)
         else
           let s1 = prepare_wait c (if flgatr cb AND TA_TPRI \<noteq> 0
                      then knl_wspec_flg_tpri else knl_wspec_flg_tfifo)
                      (WINFO_FLG waiptn wfmode p_flgptn) s;
               s2 = knl_gcb_make_wait (WFlg i) (flgid cb) (flgatr cb) c tmout s1
           in (wait_ret tmout, END_CRITICAL_SECTION s2))"

definition tk_ref_flg :: "ID \<Rightarrow> 'a flgstate_scheme \<Rightarrow> T_RFLG refret" where
  "tk_ref_flg oid s =
     (let e = CHECK_OBJID NUM_FLGID oid; i = INDEX_OBJ oid
      in if e < E_OK then (e, None)
         else if flgid (flgcb s i) = 0 then (E_NOEXS, None)
         else (E_OK, Some \<lparr>rflg_exinf = flg_exinf (flgcb s i), rflg_wtsk = knl_wait_tskid (WFlg i) s,
                           rflg_flgptn = flgptn (flgcb s i)\<rparr>))"

definition td_lst_flg :: "int \<Rightarrow> 'a flgstate_scheme \<Rightarrow> int \<times> ID list" where
  "td_lst_flg nent s =
     list_entries nent (filter (\<lambda>k. k \<noteq> 0) (map (\<lambda>i. flgid (flgcb s i)) [0..<NUM_FLGID]))"

definition td_ref_flg :: "ID \<Rightarrow> 'a flgstate_scheme \<Rightarrow> T_RFLG refret" where
  "td_ref_flg oid s =
     (let e = CHECK_OBJID NUM_FLGID oid; i = INDEX_OBJ oid
      in if e < E_OK then (e, None)
         else if flgid (flgcb s i) = 0 then (E_NOEXS, None)
         else (E_OK, Some \<lparr>rflg_exinf = flg_exinf (flgcb s i), rflg_wtsk = knl_wait_tskid (WFlg i) s,
                           rflg_flgptn = flgptn (flgcb s i)\<rparr>))"

definition td_flg_que :: "ID \<Rightarrow> int \<Rightarrow> 'a flgstate_scheme \<Rightarrow> int \<times> ID list" where
  "td_flg_que oid nent s =
     (let e = CHECK_OBJID NUM_FLGID oid; i = INDEX_OBJ oid
      in if e < E_OK then (e, [])
         else if flgid (flgcb s i) = 0 then (E_NOEXS, [])
         else list_entries nent (que_tskids (QFlg i) s))"

section \<open>Frames and the control block table\<close>

lemma flgst_frame:
  "semstate.more s' = semstate.more s \<Longrightarrow> flgcb s' = flgcb s"
  "semstate.more s' = semstate.more s \<Longrightarrow> free_flgcb s' = free_flgcb s"
  "semstate.more s' = semstate.more s \<Longrightarrow> flgstate.more s' = flgstate.more s"
  by (cases s; cases s'; simp)+

lemma flg_frame [simp, frame]:
  "flgcb (knl_wait_release_ok t s) = flgcb s" "free_flgcb (knl_wait_release_ok t s) = free_flgcb s"
  "flgcb (knl_wait_release t s) = flgcb s" "free_flgcb (knl_wait_release t s) = free_flgcb s"
  "flgcb (set_wercd t e s) = flgcb s" "free_flgcb (set_wercd t e s) = free_flgcb s"
  "flgcb (knl_wait_delete w s) = flgcb s" "free_flgcb (knl_wait_delete w s) = free_flgcb s"
  "flgcb (END_CRITICAL_SECTION s) = flgcb s"
  "free_flgcb (END_CRITICAL_SECTION s) = free_flgcb s"
  "flgcb (knl_gcb_change_priority w t s) = flgcb s"
  "free_flgcb (knl_gcb_change_priority w t s) = free_flgcb s"
  by (rule flgst_frame, rule semst_frame; simp add: knl_gcb_change_priority_def
      knl_queue_insert_tpri_def)+

interpretation flg_table: object_table NUM_FLGID "\<lambda>s i. flgid (flgcb s i)" free_flgcb cre_flg del_flg
  by unfold_locales (auto simp: cre_flg_def del_flg_def Let_def kdefs fun_eq_iff)

section \<open>Abstract delivery\<close>

text \<open>What is left of a pattern after a release in mode \<open>m\<close> with wait pattern \<open>w\<close>.\<close>

definition flg_clear :: "UINT \<Rightarrow> UINT \<Rightarrow> UINT \<Rightarrow> UINT" where
  "flg_clear p w m =
     (let p1 = (if m AND TWF_BITCLR \<noteq> 0 then p AND NOT w else p)
      in if m AND TWF_CLR \<noteq> 0 then 0 else p1)"

text \<open>
  The waiting tasks that a pattern releases, in queue order and each with the pattern delivered to
  it, and the pattern that remains.
\<close>

fun flg_grant :: "(nat \<Rightarrow> UINT) \<Rightarrow> (nat \<Rightarrow> UINT) \<Rightarrow> UINT \<Rightarrow> nat list \<Rightarrow> (nat \<times> UINT) list \<times> UINT" where
  "flg_grant wp md p [] = ([], p)"
| "flg_grant wp md p (t # ts) =
     (if knl_eventflag_cond p (wp t) (md t)
      then let (r, p') = flg_grant wp md (flg_clear p (wp t) (md t)) ts in ((t, p) # r, p')
      else flg_grant wp md p ts)"

lemma eventflag_cond_mono:
  assumes "knl_eventflag_cond q w m" "q AND p = q"
  shows "knl_eventflag_cond p w m"
proof (cases "m AND TWF_ORW = 0")
  case True
  then have "q AND w = w" using assms(1) by (simp add: knl_eventflag_cond_def)
  then have w: "(q AND p) AND w = w" using assms(2) by simp
  have "p AND w = p AND ((q AND p) AND w)" by (simp only: w)
  also have "\<dots> = (q AND p) AND w" by (simp only: ac_simps and.left_idem)
  finally have "p AND w = w" by (simp only: w)
  with True show ?thesis by (simp add: knl_eventflag_cond_def)
next
  case False
  then have "q AND w \<noteq> 0" using assms(1) by (simp add: knl_eventflag_cond_def)
  then have "(q AND p) AND w \<noteq> 0" using assms(2) by simp
  then have "q AND (p AND w) \<noteq> 0" by (simp add: and.assoc)
  then have "p AND w \<noteq> 0" by auto
  with False show ?thesis by (simp add: knl_eventflag_cond_def)
qed

lemma eventflag_cond_zero: "w \<noteq> 0 \<Longrightarrow> \<not> knl_eventflag_cond 0 w m"
  by (simp add: knl_eventflag_cond_def)

lemma flg_clear_sub: "flg_clear p w m AND p = flg_clear p w m"
  by (auto simp: flg_clear_def Let_def ac_simps and.left_idem)

lemma flg_grant_sub: "flg_grant wp md p ts = (r, p') \<Longrightarrow> p' AND p = p'"
proof (induction ts arbitrary: p r)
  case (Cons t ts)
  show ?case
  proof (cases "knl_eventflag_cond p (wp t) (md t)")
    case True
    then obtain r' where g: "flg_grant wp md (flg_clear p (wp t) (md t)) ts = (r', p')"
      using Cons.prems by (auto split: prod.splits)
    from Cons.IH[OF g] flg_clear_sub[of p "wp t" "md t"] show ?thesis by (metis and.assoc)
  qed (use Cons in simp)
qed simp

lemma flg_grant_zero:
  "\<forall>t\<in>set ts. wp t \<noteq> 0 \<Longrightarrow> flg_grant wp md 0 ts = ([], 0)"
  by (induction ts) (auto simp: eventflag_cond_zero)

lemma flg_grant_subset: "flg_grant wp md p ts = (r, p') \<Longrightarrow> fst ` set r \<subseteq> set ts"
  by (induction ts arbitrary: p r) (auto split: if_splits prod.splits, fastforce+)

text \<open>Every task that stays in the queue has an unfulfilled condition.\<close>

lemma flg_grant_exhausts:
  "flg_grant wp md p ts = (r, p') \<Longrightarrow> t \<in> set ts \<Longrightarrow> t \<notin> fst ` set r \<Longrightarrow>
     \<not> knl_eventflag_cond p' (wp t) (md t)"
proof (induction ts arbitrary: p r)
  case (Cons u ts)
  show ?case
  proof (cases "knl_eventflag_cond p (wp u) (md u)")
    case True
    then obtain r' where g: "flg_grant wp md (flg_clear p (wp u) (md u)) ts = (r', p')"
        "r = (u, p) # r'"
      using Cons.prems(1) by (auto split: prod.splits)
    with Cons.IH[OF g(1)] Cons.prems show ?thesis by auto
  next
    case False
    then have g: "flg_grant wp md p ts = (r, p')" using Cons.prems by simp
    show ?thesis
    proof (cases "t = u")
      case True
      with False eventflag_cond_mono[of p' "wp u" "md u" p] flg_grant_sub[OF g] show ?thesis by auto
    qed (use Cons g in auto)
  qed
qed simp

text \<open>Every released task had its condition fulfilled by the pattern delivered to it.\<close>

lemma flg_grant_sound:
  "flg_grant wp md p ts = (r, p') \<Longrightarrow> (t, q) \<in> set r \<Longrightarrow> knl_eventflag_cond q (wp t) (md t)"
  by (induction ts arbitrary: p r) (auto split: if_splits prod.splits)

section \<open>The loop implements the delivery\<close>

definition flg_wp :: "'a kstate_scheme \<Rightarrow> nat \<Rightarrow> UINT" where
  "flg_wp s t = winfo_flg_waiptn (winfo (tcb s t))"

definition flg_md :: "'a kstate_scheme \<Rightarrow> nat \<Rightarrow> UINT" where
  "flg_md s t = winfo_flg_wfmode (winfo (tcb s t))"

definition flg_deliver :: "(nat \<Rightarrow> TCB) \<Rightarrow> nat \<times> UINT \<Rightarrow> (addr \<Rightarrow> UW) \<Rightarrow> addr \<Rightarrow> UW" where
  "flg_deliver tb d m = m(winfo_flg_p_flgptn (winfo (tb (fst d))) := snd d)"

definition flg_serve :: "nat \<Rightarrow> nat \<Rightarrow> 'a flgstate_scheme \<Rightarrow> 'a flgstate_scheme" where
  "flg_serve i t s =
     upd_flgcb i (\<lambda>cb. cb\<lparr>flgptn := flg_clear (flgptn cb) (flg_wp s t) (flg_md s t)\<rparr>)
       (knl_wait_release_ok t
         (s\<lparr>umem := flg_deliver (tcb s) (t, flgptn (flgcb s i)) (umem s)\<rparr>))"

lemma upd_flgcb_triv: "f (flgcb s i) = flgcb s i \<Longrightarrow> upd_flgcb i f s = s"
  by (simp add: upd_flgcb_def)

lemma upd_flgcb_twice: "upd_flgcb i f (upd_flgcb i g s) = upd_flgcb i (\<lambda>cb. f (g cb)) s"
  by (simp add: upd_flgcb_def)

lemma upd_flgcb_cong: "f (flgcb s i) = g (flgcb s i) \<Longrightarrow> upd_flgcb i f s = upd_flgcb i g s"
  by (simp add: upd_flgcb_def)

lemma flgcb_upd [simp]: "flgcb (upd_flgcb i f s) = (flgcb s)(i := f (flgcb s i))"
  by (simp add: upd_flgcb_def)

lemma set_flg_loop_step:
  assumes "knl_eventflag_cond (flgptn (flgcb s i)) (flg_wp s t) (flg_md s t)"
  shows "set_flg_loop i (t # ts) s = set_flg_loop i ts (flg_serve i t s) \<or>
    (set_flg_loop i (t # ts) s = flg_serve i t s \<and> flgptn (flgcb (flg_serve i t s) i) = 0)"
proof -
  let ?m = "flg_md s t" and ?w = "flg_wp s t"
  let ?r = "knl_wait_release_ok t (s\<lparr>umem := flg_deliver (tcb s) (t, flgptn (flgcb s i)) (umem s)\<rparr>)"
  let ?b = "if ?m AND TWF_BITCLR \<noteq> 0
    then upd_flgcb i (\<lambda>cb. cb\<lparr>flgptn := flgptn cb AND NOT ?w\<rparr>) ?r else ?r"
  have e: "set_flg_loop i (t # ts) s =
      (if ?m AND TWF_BITCLR \<noteq> 0 \<and> flgptn (flgcb ?b i) = 0 then ?b
       else if ?m AND TWF_CLR \<noteq> 0 then upd_flgcb i (flgptn_update (\<lambda>_. 0)) ?b
       else set_flg_loop i ts ?b)"
    using assms by (simp add: Let_def flg_wp_def flg_md_def flg_deliver_def)
  consider "?m AND TWF_CLR \<noteq> 0" | "?m AND TWF_CLR = 0" "?m AND TWF_BITCLR \<noteq> 0"
    | "?m AND TWF_CLR = 0" "?m AND TWF_BITCLR = 0" by blast
  then show ?thesis
  proof cases
    case 1
    then have f: "flg_serve i t s = upd_flgcb i (flgptn_update (\<lambda>_. 0)) ?r"
      by (simp add: flg_serve_def flg_clear_def)
    have "set_flg_loop i (t # ts) s = flg_serve i t s"
      unfolding e f using 1 by (auto simp: upd_flgcb_twice intro!: upd_flgcb_cong)
    then show ?thesis by (simp add: f)
  next
    case 2
    then have "flg_serve i t s = ?b" by (simp add: flg_serve_def flg_clear_def)
    with 2 show ?thesis unfolding e by auto
  next
    case 3
    then have "flg_serve i t s = ?b"
      by (simp add: flg_serve_def flg_clear_def upd_flgcb_triv)
    with 3 show ?thesis unfolding e by auto
  qed
qed

lemma core_inv_upd_flgcb [simp]: "core_inv (upd_flgcb i f s) = core_inv s"
  by (rule core_inv_cong) (simp_all add: kdefs)

lemma core_inv_umem [simp]: "core_inv (s\<lparr>umem := m\<rparr>) = core_inv s"
  by (rule core_inv_cong) simp_all

lemma core_inv_free_flgcb [simp]: "core_inv (s\<lparr>free_flgcb := x\<rparr>) = core_inv s"
  by (rule core_inv_cong) simp_all

lemma flg_serve_result:
  assumes "core_inv s" "t \<in> set (que s (QFlg i))"
  defines "s' \<equiv> flg_serve i t s"
  shows "core_inv s'" "tcb s' = served [t] (tcb s)"
    "que s' (QWait w) = removeAll t (que s (QWait w))"
    "flgcb s' = (flgcb s)(i := (flgcb s i)\<lparr>flgptn := flg_clear (flgptn (flgcb s i)) (flg_wp s t) (flg_md s t)\<rparr>)"
    "umem s' = flg_deliver (tcb s) (t, flgptn (flgcb s i)) (umem s)"
    "free_flgcb s' = free_flgcb s" "flgstate.more s' = flgstate.more s" "ctxtsk s' = ctxtsk s"
    "semcb s' = semcb s" "free_semcb s' = free_semcb s"
proof -
  let ?u = "s\<lparr>umem := flg_deliver (tcb s) (t, flgptn (flgcb s i)) (umem s)\<rparr>"
  let ?r = "knl_wait_release_ok t ?u"
  have R: "core_inv ?r" "tcb ?r = served [t] (tcb s)"
    using wait_release_ok_result[of ?u t "WFlg i"] assms(1,2) by simp_all
  have m: "flgstate.more ?r = flgstate.more s"
    using flgst_frame(3)[OF semst_frame(3), of ?r ?u] by simp
  show "core_inv s'" unfolding s'_def flg_serve_def by (simp add: R)
  show "tcb s' = served [t] (tcb s)"
    "que s' (QWait w) = removeAll t (que s (QWait w))"
    "flgcb s' = (flgcb s)(i := (flgcb s i)\<lparr>flgptn := flg_clear (flgptn (flgcb s i)) (flg_wp s t) (flg_md s t)\<rparr>)"
    "umem s' = flg_deliver (tcb s) (t, flgptn (flgcb s i)) (umem s)"
    "free_flgcb s' = free_flgcb s" "flgstate.more s' = flgstate.more s" "ctxtsk s' = ctxtsk s"
    "semcb s' = semcb s" "free_semcb s' = free_semcb s"
    unfolding s'_def flg_serve_def by (simp_all add: R m upd_flgcb_def)
qed

lemma served_winfo: "flg_wp s' = flg_wp s" "flg_md s' = flg_md s" if "tcb s' = served r (tcb s)" for s s'
  using that by (simp_all add: flg_wp_def flg_md_def fun_eq_iff)

lemma set_flg_loop_zero:
  "flgptn (flgcb s i) = 0 \<Longrightarrow> \<forall>t\<in>set ts. flg_wp s t \<noteq> 0 \<Longrightarrow> set_flg_loop i ts s = s"
  by (induction ts) (auto simp: Let_def flg_wp_def eventflag_cond_zero)

lemma set_flg_loop_result:
  assumes "core_inv s" "distinct ts" "set ts \<subseteq> set (que s (QFlg i))" "\<forall>t\<in>set ts. flg_wp s t \<noteq> 0"
    "flg_grant (flg_wp s) (flg_md s) (flgptn (flgcb s i)) ts = (r, p)"
  defines "s' \<equiv> set_flg_loop i ts s"
  shows "core_inv s' \<and> tcb s' = served (map fst r) (tcb s) \<and>
    (\<forall>w. que s' (QWait w) = filter (\<lambda>t. t \<notin> fst ` set r) (que s (QWait w))) \<and>
    flgcb s' = (flgcb s)(i := (flgcb s i)\<lparr>flgptn := p\<rparr>) \<and>
    umem s' = fold (flg_deliver (tcb s)) r (umem s) \<and>
    free_flgcb s' = free_flgcb s \<and> flgstate.more s' = flgstate.more s \<and> ctxtsk s' = ctxtsk s \<and>
    semcb s' = semcb s \<and> free_semcb s' = free_semcb s"
  using assms(1-5) unfolding s'_def
proof (induction ts arbitrary: s r)
  case Nil
  then show ?case by (auto simp: served_def fun_eq_iff)
next
  case (Cons t ts)
  let ?p = "flgptn (flgcb s i)" and ?s = "flg_serve i t s"
  show ?case
  proof (cases "knl_eventflag_cond ?p (flg_wp s t) (flg_md s t)")
    case False
    then have g: "flg_grant (flg_wp s) (flg_md s) ?p ts = (r, p)" using Cons.prems(5) by simp
    have l: "set_flg_loop i (t # ts) s = set_flg_loop i ts s"
      using False by (simp add: flg_wp_def flg_md_def Let_def)
    show ?thesis unfolding l by (rule Cons.IH) (use Cons.prems g in auto)
  next
    case True
    let ?p' = "flg_clear ?p (flg_wp s t) (flg_md s t)"
    obtain r' where g: "flg_grant (flg_wp s) (flg_md s) ?p' ts = (r', p)" "r = (t, ?p) # r'"
      using Cons.prems(5) True by (auto split: prod.splits)
    have t: "core_inv s" "t \<in> set (que s (QFlg i))" using Cons.prems by auto
    note R = flg_serve_result[OF t]
    note W = served_winfo[OF R(2)]
    have dl: "flg_deliver (served [t] (tcb s)) = flg_deliver (tcb s)"
      by (simp add: fun_eq_iff flg_deliver_def)
    have gs: "flg_grant (flg_wp ?s) (flg_md ?s) (flgptn (flgcb ?s i)) ts = (r', p)"
      using g(1) by (simp add: W R)
    have IH: "core_inv (set_flg_loop i ts ?s) \<and> tcb (set_flg_loop i ts ?s) = served (map fst r') (tcb ?s) \<and>
      (\<forall>w. que (set_flg_loop i ts ?s) (QWait w) = filter (\<lambda>t. t \<notin> fst ` set r') (que ?s (QWait w))) \<and>
      flgcb (set_flg_loop i ts ?s) = (flgcb ?s)(i := (flgcb ?s i)\<lparr>flgptn := p\<rparr>) \<and>
      umem (set_flg_loop i ts ?s) = fold (flg_deliver (tcb ?s)) r' (umem ?s) \<and>
      free_flgcb (set_flg_loop i ts ?s) = free_flgcb ?s \<and>
      flgstate.more (set_flg_loop i ts ?s) = flgstate.more ?s \<and>
      ctxtsk (set_flg_loop i ts ?s) = ctxtsk ?s \<and> semcb (set_flg_loop i ts ?s) = semcb ?s \<and>
      free_semcb (set_flg_loop i ts ?s) = free_semcb ?s"
      by (rule Cons.IH[OF R(1) _ _ _ gs]) (use Cons.prems in \<open>auto simp: R W\<close>)
    have "set_flg_loop i (t # ts) s = set_flg_loop i ts ?s"
    proof (cases "set_flg_loop i (t # ts) s = ?s \<and> flgptn (flgcb ?s i) = 0")
      case True
      have "set_flg_loop i ts ?s = ?s"
        by (rule set_flg_loop_zero) (use True Cons.prems(4) in \<open>auto simp: W\<close>)
      with True show ?thesis by metis
    qed (use set_flg_loop_step[OF True] in blast)
    moreover have "t \<notin> fst ` set r'" using flg_grant_subset[OF g(1)] Cons.prems(2) by auto
    ultimately show ?thesis using IH served_append[of "[t]" "map fst r'" "tcb s"]
      by (auto simp: R g(2) dl removeAll_filter_not_eq intro!: filter_cong)
  qed
qed

section \<open>Invariant\<close>

text \<open>
  No task waits for a condition that already holds, and a flag without \<^verbatim>\<open>TA_WMUL\<close> has at most
  one waiting task.
\<close>

definition flg_ok :: "FLGCB \<Rightarrow> (nat \<Rightarrow> UINT) \<Rightarrow> (nat \<Rightarrow> UINT) \<Rightarrow> nat list \<Rightarrow> bool" where
  "flg_ok cb wp md ts \<longleftrightarrow>
     (if flgid cb = 0 then ts = []
      else (\<forall>t\<in>set ts. wp t \<noteq> 0 \<and> \<not> knl_eventflag_cond (flgptn cb) (wp t) (md t)) \<and>
           (flgatr cb AND TA_WMUL = 0 \<longrightarrow> length ts \<le> 1))"

definition flg_inv :: "'a flgstate_scheme \<Rightarrow> bool" where
  "flg_inv s \<longleftrightarrow> cb_table_inv NUM_FLGID (\<lambda>i. flgid (flgcb s i)) (free_flgcb s) \<and>
     (\<forall>i < NUM_FLGID. flg_ok (flgcb s i) (flg_wp s) (flg_md s) (que s (QFlg i))) \<and>
     (\<forall>i \<ge> NUM_FLGID. que s (QFlg i) = [])"

lemma flg_ok_cong:
  assumes "\<And>t. t \<in> set ts \<Longrightarrow> wp t = wp' t \<and> md t = md' t"
  shows "flg_ok cb wp md ts = flg_ok cb wp' md' ts"
  using assms by (auto simp: flg_ok_def)

lemma flg_ok_subset:
  "flg_ok cb wp md ts \<Longrightarrow> set ts' \<subseteq> set ts \<Longrightarrow> length ts' \<le> length ts \<Longrightarrow> flg_ok cb wp md ts'"
  by (auto simp: flg_ok_def)

lemma flg_inv_frame:
  assumes "flg_inv s" "flgcb s' = flgcb s" "free_flgcb s' = free_flgcb s"
    "\<And>i. que s' (QFlg i) = que s (QFlg i)"
    "\<And>i t. t \<in> set (que s (QFlg i)) \<Longrightarrow> winfo (tcb s' t) = winfo (tcb s t)"
  shows "flg_inv s'"
proof -
  have "flg_ok (flgcb s i) (flg_wp s') (flg_md s') (que s (QFlg i)) =
      flg_ok (flgcb s i) (flg_wp s) (flg_md s) (que s (QFlg i))" for i
    by (rule flg_ok_cong) (simp add: flg_wp_def flg_md_def assms(5))
  then show ?thesis using assms(1-4) by (simp add: flg_inv_def)
qed

text \<open>Taking waiting tasks out of their queues, by a timeout or a forced release, is harmless.\<close>

lemma flg_inv_shrink:
  assumes "flg_inv s" "flgcb s' = flgcb s" "free_flgcb s' = free_flgcb s"
    "\<And>i. que s' (QFlg i) = removeAll t (que s (QFlg i))"
    "\<And>u. winfo (tcb s' u) = winfo (tcb s u)"
  shows "flg_inv s'"
proof -
  have "flg_wp s' = flg_wp s" "flg_md s' = flg_md s" by (simp_all add: fun_eq_iff flg_wp_def flg_md_def assms)
  moreover have "flg_ok cb wp md ts \<Longrightarrow> flg_ok cb wp md (removeAll t ts)" for cb wp md ts
    by (rule flg_ok_subset) auto
  ultimately show ?thesis using assms(1-4) by (simp add: flg_inv_def)
qed

lemma flg_inv_END [simp]: "flg_inv (END_CRITICAL_SECTION s) = flg_inv s"
  by (auto intro: flg_inv_frame)

lemma flg_invD:
  assumes "flg_inv s"
  shows "cb_table_inv NUM_FLGID (\<lambda>i. flgid (flgcb s i)) (free_flgcb s)"
    "i < NUM_FLGID \<Longrightarrow> flg_ok (flgcb s i) (flg_wp s) (flg_md s) (que s (QFlg i))"
    "i < NUM_FLGID \<Longrightarrow> flgid (flgcb s i) = 0 \<Longrightarrow> que s (QFlg i) = []"
    "i < NUM_FLGID \<Longrightarrow> flgid (flgcb s i) \<noteq> 0 \<Longrightarrow> flgid (flgcb s i) = ID_OBJ i"
    "NUM_FLGID \<le> i \<Longrightarrow> que s (QFlg i) = []"
  using assms by (auto simp: flg_inv_def flg_ok_def cb_table_inv_def)

text \<open>An update of one flag only concerns its own queue.\<close>

lemma flg_inv_update:
  assumes "flg_inv s" "i < NUM_FLGID"
    and tab: "cb_table_inv NUM_FLGID (\<lambda>i. flgid (flgcb s' i)) (free_flgcb s')"
    and here: "flg_ok (flgcb s' i) (flg_wp s') (flg_md s') (que s' (QFlg i))"
    and oth: "\<And>j. j \<noteq> i \<Longrightarrow> flgcb s' j = flgcb s j \<and> que s' (QFlg j) = que s (QFlg j)"
    and wi: "\<And>j t. j \<noteq> i \<Longrightarrow> t \<in> set (que s (QFlg j)) \<Longrightarrow> winfo (tcb s' t) = winfo (tcb s t)"
  shows "flg_inv s'"
proof -
  have "flg_ok (flgcb s' j) (flg_wp s') (flg_md s') (que s' (QFlg j))" if "j < NUM_FLGID" for j
  proof (cases "j = i")
    case False
    have "flg_ok (flgcb s j) (flg_wp s') (flg_md s') (que s (QFlg j)) =
        flg_ok (flgcb s j) (flg_wp s) (flg_md s) (que s (QFlg j))"
      by (rule flg_ok_cong) (simp add: flg_wp_def flg_md_def wi[OF False])
    with flg_invD(2)[OF assms(1) that] oth[OF False] show ?thesis by simp
  qed (use here in simp)
  moreover have "que s' (QFlg j) = []" if "NUM_FLGID \<le> j" for j
    using flg_invD(5)[OF assms(1) that] oth[of j] assms(2) that by auto
  ultimately show ?thesis using tab by (simp add: flg_inv_def)
qed

section \<open>The calls keep the invariants\<close>

lemma flgst_upd_frame [simp]:
  "tcb (upd_flgcb i f s) = tcb s" "que (upd_flgcb i f s) = que s" "semcb (upd_flgcb i f s) = semcb s"
  "free_semcb (upd_flgcb i f s) = free_semcb s" "free_flgcb (upd_flgcb i f s) = free_flgcb s"
  "umem (upd_flgcb i f s) = umem s" "flg_wp (upd_flgcb i f s) = flg_wp s"
  "flg_md (upd_flgcb i f s) = flg_md s" "ctxtsk (upd_flgcb i f s) = ctxtsk s"
  by (simp_all add: upd_flgcb_def flg_wp_def flg_md_def fun_eq_iff)

lemma sem_inv_flg [simp]:
  "sem_inv (upd_flgcb i f s) = sem_inv s" "sem_inv (s\<lparr>free_flgcb := x\<rparr>) = sem_inv s"
  "sem_inv (s\<lparr>umem := m\<rparr>) = sem_inv s"
  by (auto intro: sem_inv_frame)

definition kinv_flg :: "'a flgstate_scheme \<Rightarrow> bool" where
  "kinv_flg s \<longleftrightarrow> core_inv s \<and> sem_inv s \<and> flg_inv s"

lemma cre_flg_inv:
  assumes "kinv_flg s"
  shows "kinv_flg (snd (cre_flg pk s))"
proof (cases "free_flgcb s")
  case Nil
  with assms show ?thesis by (simp add: cre_flg_def)
next
  case (Cons i fs)
  have fi: "flg_inv s" using assms by (simp add: kinv_flg_def)
  have i: "i < NUM_FLGID" "flgid (flgcb s i) = 0"
    using flg_invD(1)[OF fi] Cons by (auto simp: cb_table_inv_def)
  then have q: "que s (QFlg i) = []" using flg_invD(3)[OF fi] by blast
  then have qi: "que_init (QFlg i) (s\<lparr>free_flgcb := fs\<rparr>) = s\<lparr>free_flgcb := fs\<rparr>"
    by (intro que_init_empty) simp
  let ?s = "snd (cre_flg pk s)"
  have e: "?s = upd_flgcb i (\<lambda>cb. cb\<lparr>flgid := ID_OBJ i, flg_exinf := cflg_exinf pk,
      flgatr := cflg_flgatr pk, flgptn := cflg_iflgptn pk\<rparr>) (s\<lparr>free_flgcb := fs\<rparr>)"
    using Cons by (simp add: cre_flg_def Let_def qi)
  have "flg_inv ?s"
  proof (rule flg_inv_update[OF fi i(1)])
    show "cb_table_inv NUM_FLGID (\<lambda>j. flgid (flgcb ?s j)) (free_flgcb ?s)"
      by (rule flg_table.create_inv[OF flg_invD(1)[OF fi]])
  qed (simp_all add: e q flg_ok_def)
  with assms show ?thesis by (simp add: kinv_flg_def e)
qed

lemma tk_cre_flg_inv: "kinv_flg s \<Longrightarrow> kinv_flg (snd (tk_cre_flg pk s))"
  using cre_flg_inv[of s pk]
  by (auto simp: tk_cre_flg_def Let_def kinv_flg_def split: prod.splits)

text \<open>Operations on event flags leave everything else as it is.\<close>

fun is_WFlg :: "wobj \<Rightarrow> bool" where
  "is_WFlg (WFlg i) = True"
| "is_WFlg _ = False"

definition flg_frame_rel :: "'a flgstate_scheme \<Rightarrow> 'a flgstate_scheme \<Rightarrow> bool" where
  "flg_frame_rel s s' \<longleftrightarrow> frame_waits is_WFlg s s' \<and> semcb s' = semcb s \<and>
     free_semcb s' = free_semcb s \<and> flgstate.more s' = flgstate.more s"

lemma flgst_more_END [simp]: "flgstate.more (END_CRITICAL_SECTION s) = flgstate.more s"
  by (rule flgst_frame) simp

lemma flg_frame_rel_simps [simp]:
  "flg_frame_rel s (END_CRITICAL_SECTION s') = flg_frame_rel s s'" "flg_frame_rel s s"
  "flg_frame_rel s (upd_flgcb i f s') = flg_frame_rel s s'"
  "flg_frame_rel (upd_flgcb i f s) s' = flg_frame_rel s s'"
  "flg_frame_rel s (s'\<lparr>umem := m\<rparr>) = flg_frame_rel s s'"
  "flg_frame_rel s (s'\<lparr>free_flgcb := x\<rparr>) = flg_frame_rel s s'"
  by (simp_all add: flg_frame_rel_def frame_waits_def upd_flgcb_def)

lemma sem_inv_flg_frame: "sem_inv s \<Longrightarrow> flg_frame_rel s s' \<Longrightarrow> sem_inv s'"
  by (rule sem_inv_frame_waits) (auto simp: flg_frame_rel_def)

lemma del_flg_frame:
  assumes "core_inv s"
  shows "flg_frame_rel s (del_flg i s)"
  using frame_waits_delete[OF assms, of is_WFlg "WFlg i"]
    flgst_frame(3)[OF semst_frame(3), of "knl_wait_delete (WFlg i) s" s]
  by (simp add: del_flg_def Let_def) (simp add: flg_frame_rel_def)

lemma del_flg_inv:
  assumes "kinv_flg s" "i < NUM_FLGID" "flgid (flgcb s i) \<noteq> 0"
  shows "kinv_flg (del_flg i s)"
proof -
  have inv: "core_inv s" "sem_inv s" "flg_inv s" using assms by (auto simp: kinv_flg_def)
  note W = wait_delete_result[OF inv(1), of "WFlg i"]
  have "flg_inv (del_flg i s)"
  proof (rule flg_inv_update[OF inv(3) assms(2)])
    show "cb_table_inv NUM_FLGID (\<lambda>j. flgid (flgcb (del_flg i s) j)) (free_flgcb (del_flg i s))"
      by (rule flg_table.delete_inv[OF flg_invD(1)[OF inv(3)] assms(2,3)])
  qed (use W in \<open>auto simp: del_flg_def Let_def flg_ok_def\<close>)
  moreover have "core_inv (del_flg i s)" using W by (simp add: del_flg_def Let_def)
  ultimately show ?thesis using sem_inv_flg_frame[OF inv(2) del_flg_frame[OF inv(1)]]
    by (simp add: kinv_flg_def)
qed

lemma kinv_flg_END [simp]: "kinv_flg (END_CRITICAL_SECTION s) = kinv_flg s"
  by (simp add: kinv_flg_def)

lemma tk_del_flg_inv: "kinv_flg s \<Longrightarrow> kinv_flg (snd (tk_del_flg oid s))"
  using del_flg_inv[OF _ INDEX_OBJ_less, of s oid]
  by (auto simp: tk_del_flg_def Let_def check_defs consts_defs)

text \<open>
  \<^verbatim>\<open>tk_set_flg\<close> refines the delivery: every task of \<open>flg_grant\<close> leaves the queue with
  \<^verbatim>\<open>E_OK\<close> and its pattern stored, and the cleared pattern remains.
\<close>

definition flg_call_ok :: "ID \<Rightarrow> 'a flgstate_scheme \<Rightarrow> bool" where
  "flg_call_ok oid s \<longleftrightarrow> CHK_OBJID NUM_FLGID oid \<and> flgid (flgcb s (INDEX_OBJ oid)) \<noteq> 0"

lemma tk_set_flg_refines:
  assumes inv: "kinv_flg s" and ok: "flg_call_ok oid s"
  defines "i \<equiv> INDEX_OBJ oid"
  assumes g: "flg_grant (flg_wp s) (flg_md s) (flgptn (flgcb s i) OR setptn) (que s (QFlg i)) = (r, p)"
  defines "s' \<equiv> snd (tk_set_flg oid setptn s)"
  shows "fst (tk_set_flg oid setptn s) = Ret E_OK" "kinv_flg s'"
    "tcb s' = served (map fst r) (tcb s)"
    "que s' (QFlg i) = filter (\<lambda>t. t \<notin> fst ` set r) (que s (QFlg i))"
    "flgptn (flgcb s' i) = p" "umem s' = fold (flg_deliver (tcb s)) r (umem s)"
    "flg_frame_rel s s'"
proof -
  let ?s = "upd_flgcb i (\<lambda>cb. cb\<lparr>flgptn := flgptn cb OR setptn\<rparr>) s"
  let ?l = "set_flg_loop i (que s (QFlg i)) ?s"
  have I: "core_inv s" "sem_inv s" "flg_inv s" using inv by (auto simp: kinv_flg_def)
  have i: "i < NUM_FLGID" "flgid (flgcb s i) \<noteq> 0"
    using ok INDEX_OBJ_less by (auto simp: flg_call_ok_def i_def)
  have e: "tk_set_flg oid setptn s = (Ret E_OK, END_CRITICAL_SECTION ?l)"
    using ok by (simp add: tk_set_flg_def Let_def check_defs consts_defs flg_call_ok_def i_def)
  have wp: "\<forall>t\<in>set (que s (QFlg i)). flg_wp s t \<noteq> 0"
    using flg_invD(2)[OF I(3) i(1)] i(2) by (simp add: flg_ok_def)
  have R: "core_inv ?l \<and> tcb ?l = served (map fst r) (tcb s) \<and>
    (\<forall>w. que ?l (QWait w) = filter (\<lambda>t. t \<notin> fst ` set r) (que s (QWait w))) \<and>
    flgcb ?l = (flgcb ?s)(i := (flgcb ?s i)\<lparr>flgptn := p\<rparr>) \<and>
    umem ?l = fold (flg_deliver (tcb s)) r (umem s) \<and>
    free_flgcb ?l = free_flgcb s \<and> semcb ?l = semcb s \<and> free_semcb ?l = free_semcb s \<and>
    flgstate.more ?l = flgstate.more ?s"
    using set_flg_loop_result[of ?s "que s (QFlg i)" i r p] I(1) core_inv_distinct[OF I(1)] wp g by simp
  have sub: "fst ` set r \<subseteq> set (que s (QFlg i))" by (rule flg_grant_subset[OF g])
  have "frame_waits is_WFlg s ?l"
    by (rule frame_waits_served[OF I(1), where r = "map fst r" and w = "WFlg i"]) (use R sub in auto)
  with R have fr: "flg_frame_rel s ?l" by (simp add: flg_frame_rel_def upd_flgcb_def)
  have qo: "que ?l (QFlg j) = que s (QFlg j)" if "j \<noteq> i" for j
  proof -
    have "t \<notin> fst ` set r" if "t \<in> set (que s (QFlg j))" for t
      using core_inv_one_queue[OF I(1) that, of "WFlg i"] sub \<open>j \<noteq> i\<close> by blast
    then show ?thesis using R by (simp add: filter_True)
  qed
  have fw: "flg_wp ?l = flg_wp s" "flg_md ?l = flg_md s" using R served_winfo by blast+
  have si: "sem_inv ?l" by (rule sem_inv_flg_frame[OF I(2) fr])
  have fi: "flg_inv ?l"
  proof (rule flg_inv_update[OF I(3) i(1)])
    have "(\<lambda>j. flgid (flgcb ?l j)) = (\<lambda>j. flgid (flgcb s j))" using R by auto
    then show "cb_table_inv NUM_FLGID (\<lambda>j. flgid (flgcb ?l j)) (free_flgcb ?l)"
      using flg_invD(1)[OF I(3)] R by simp
    have "flgatr (flgcb s i) AND TA_WMUL = 0 \<longrightarrow>
        length (filter (\<lambda>t. t \<notin> fst ` set r) (que s (QFlg i))) \<le> 1"
      using flg_invD(2)[OF I(3) i(1)] i(2) order.trans[OF length_filter_le]
      by (auto simp: flg_ok_def)
    then show "flg_ok (flgcb ?l i) (flg_wp ?l) (flg_md ?l) (que ?l (QFlg i))"
      using R i(2) wp flg_grant_exhausts[OF g] by (auto simp: flg_ok_def fw)
  qed (use R qo in auto)
  show "fst (tk_set_flg oid setptn s) = Ret E_OK" by (simp add: e)
  show "kinv_flg s'" using R si fi by (simp add: s'_def e kinv_flg_def)
  show "tcb s' = served (map fst r) (tcb s)"
    "que s' (QFlg i) = filter (\<lambda>t. t \<notin> fst ` set r) (que s (QFlg i))"
    "flgptn (flgcb s' i) = p" "umem s' = fold (flg_deliver (tcb s)) r (umem s)"
    using R by (simp_all add: s'_def e)
  show "flg_frame_rel s s'" using fr by (simp add: s'_def e)
qed

lemma tk_set_flg_inv:
  assumes "kinv_flg s"
  shows "kinv_flg (snd (tk_set_flg oid setptn s))"
proof (cases "flg_call_ok oid s")
  case True
  obtain r p where "flg_grant (flg_wp s) (flg_md s) (flgptn (flgcb s (INDEX_OBJ oid)) OR setptn)
      (que s (QFlg (INDEX_OBJ oid))) = (r, p)" by force
  from tk_set_flg_refines(2)[OF assms True this] show ?thesis .
next
  case False
  with assms show ?thesis
    by (auto simp: tk_set_flg_def Let_def check_defs consts_defs flg_call_ok_def)
qed

lemma tk_set_flg_frame:
  assumes "kinv_flg s"
  shows "flg_frame_rel s (snd (tk_set_flg oid setptn s))"
proof (cases "flg_call_ok oid s")
  case True
  obtain r p where "flg_grant (flg_wp s) (flg_md s) (flgptn (flgcb s (INDEX_OBJ oid)) OR setptn)
      (que s (QFlg (INDEX_OBJ oid))) = (r, p)" by force
  from tk_set_flg_refines(7)[OF assms True this] show ?thesis .
next
  case False
  with assms show ?thesis
    by (auto simp: tk_set_flg_def Let_def check_defs consts_defs flg_call_ok_def)
qed

text \<open>Removing bits from a pattern cannot fulfil a condition.\<close>

lemma flg_ok_weaker:
  assumes "flg_ok cb wp md ts" "p AND flgptn cb = p"
  shows "flg_ok (cb\<lparr>flgptn := p\<rparr>) wp md ts"
proof -
  have "\<not> knl_eventflag_cond (flgptn cb) w m \<Longrightarrow> \<not> knl_eventflag_cond p w m" for w m
    using eventflag_cond_mono[OF _ assms(2)] by blast
  with assms(1) show ?thesis by (auto simp: flg_ok_def)
qed

lemma flg_inv_weaker:
  assumes "flg_inv s" "i < NUM_FLGID" "p AND flgptn (flgcb s i) = p"
  shows "flg_inv (upd_flgcb i (\<lambda>cb. cb\<lparr>flgptn := p\<rparr>) s)"
proof (rule flg_inv_update[OF assms(1,2)])
  have "(\<lambda>j. flgid (((flgcb s)(i := (flgcb s i)\<lparr>flgptn := p\<rparr>)) j)) = (\<lambda>j. flgid (flgcb s j))" by auto
  then show "cb_table_inv NUM_FLGID (\<lambda>j. flgid (flgcb (upd_flgcb i (\<lambda>cb. cb\<lparr>flgptn := p\<rparr>) s) j))
      (free_flgcb (upd_flgcb i (\<lambda>cb. cb\<lparr>flgptn := p\<rparr>) s))"
    using flg_invD(1)[OF assms(1)] by simp
  show "flg_ok (flgcb (upd_flgcb i (\<lambda>cb. cb\<lparr>flgptn := p\<rparr>) s) i)
      (flg_wp (upd_flgcb i (\<lambda>cb. cb\<lparr>flgptn := p\<rparr>) s)) (flg_md (upd_flgcb i (\<lambda>cb. cb\<lparr>flgptn := p\<rparr>) s))
      (que (upd_flgcb i (\<lambda>cb. cb\<lparr>flgptn := p\<rparr>) s) (QFlg i))"
    using flg_ok_weaker[OF flg_invD(2)[OF assms(1,2)] assms(3)] by simp
qed simp_all

lemma tk_clr_flg_inv:
  assumes "kinv_flg s"
  shows "kinv_flg (snd (tk_clr_flg oid clrptn s)) \<and> flg_frame_rel s (snd (tk_clr_flg oid clrptn s))"
proof (cases "flg_call_ok oid s")
  case True
  let ?i = "INDEX_OBJ oid"
  let ?p = "flgptn (flgcb s ?i) AND clrptn"
  have "tk_clr_flg oid clrptn s =
      (Ret E_OK, END_CRITICAL_SECTION (upd_flgcb ?i (\<lambda>cb. cb\<lparr>flgptn := ?p\<rparr>) s))"
    using True by (auto simp: tk_clr_flg_def Let_def check_defs consts_defs flg_call_ok_def
        intro: upd_flgcb_cong arg_cong)
  moreover have "?p AND flgptn (flgcb s ?i) = ?p" by (simp add: ac_simps)
  ultimately show ?thesis
    using assms True flg_inv_weaker[of s ?i ?p] INDEX_OBJ_less[of NUM_FLGID oid]
    by (simp add: kinv_flg_def flg_call_ok_def)
next
  case False
  with assms show ?thesis
    by (auto simp: tk_clr_flg_def Let_def check_defs consts_defs flg_call_ok_def)
qed

section \<open>Waiting for a flag\<close>

definition wai_flg_ok :: "ID \<Rightarrow> UINT \<Rightarrow> UINT \<Rightarrow> TMO \<Rightarrow> 'a flgstate_scheme \<Rightarrow> bool" where
  "wai_flg_ok oid waiptn wfmode tmout s \<longleftrightarrow> flg_call_ok oid s \<and> waiptn \<noteq> 0 \<and>
     wfmode AND NOT (TWF_ORW OR TWF_CLR OR TWF_BITCLR) = 0 \<and> TMO_FEVR \<le> tmout \<and> \<not> in_ddsp s \<and>
     (flgatr (flgcb s (INDEX_OBJ oid)) AND TA_WMUL = 0 \<longrightarrow> que s (QFlg (INDEX_OBJ oid)) = [])"

definition flg_wspec :: "FLGCB \<Rightarrow> WSPEC" where
  "flg_wspec cb = (if flgatr cb AND TA_TPRI \<noteq> 0 then knl_wspec_flg_tpri else knl_wspec_flg_tfifo)"

lemma wait_home_flg [simp]: "wait_home (flg_wspec cb) (ID_OBJ i) = Some (QFlg i)"
  by (simp add: flg_wspec_def)

lemma tk_wai_flg_error:
  assumes "\<not> wai_flg_ok oid waiptn wfmode tmout s"
  shows "\<exists>e<0. fst (tk_wai_flg oid waiptn wfmode p tmout s) = Ret e"
    "snd (tk_wai_flg oid waiptn wfmode p tmout s) = s \<or>
     snd (tk_wai_flg oid waiptn wfmode p tmout s) = END_CRITICAL_SECTION s"
  using assms
  by (auto simp: tk_wai_flg_def Let_def check_defs consts_defs wai_flg_ok_def flg_call_ok_def)

lemma tk_wai_flg_met:
  assumes "wai_flg_ok oid waiptn wfmode tmout s"
    "knl_eventflag_cond (flgptn (flgcb s (INDEX_OBJ oid))) waiptn wfmode"
  shows "tk_wai_flg oid waiptn wfmode p tmout s =
    (Ret E_OK, END_CRITICAL_SECTION
       (upd_flgcb (INDEX_OBJ oid)
          (\<lambda>cb. cb\<lparr>flgptn := flg_clear (flgptn (flgcb s (INDEX_OBJ oid))) waiptn wfmode\<rparr>)
          (s\<lparr>umem := (umem s)(p := flgptn (flgcb s (INDEX_OBJ oid)))\<rparr>)))"
proof -
  let ?i = "INDEX_OBJ oid" and ?u = "s\<lparr>umem := (umem s)(p := flgptn (flgcb s (INDEX_OBJ oid)))\<rparr>"
  let ?b = "if wfmode AND TWF_BITCLR \<noteq> 0
     then upd_flgcb ?i (\<lambda>cb. cb\<lparr>flgptn := flgptn cb AND NOT waiptn\<rparr>) ?u else ?u"
  have "(if wfmode AND TWF_CLR \<noteq> 0 then upd_flgcb ?i (flgptn_update (\<lambda>_. 0)) ?b else ?b) =
      upd_flgcb ?i (\<lambda>cb. cb\<lparr>flgptn := flg_clear (flgptn (flgcb s ?i)) waiptn wfmode\<rparr>) ?u"
    by (auto simp: flg_clear_def upd_flgcb_twice upd_flgcb_def)
  with assms show ?thesis
    by (simp add: tk_wai_flg_def Let_def check_defs wai_flg_ok_def flg_call_ok_def not_less)
      (auto simp: consts_defs)
qed

lemma tk_wai_flg_waits:
  assumes "wai_flg_ok oid waiptn wfmode tmout s" "ctxtsk s = Some c"
    "\<not> knl_eventflag_cond (flgptn (flgcb s (INDEX_OBJ oid))) waiptn wfmode"
  shows "tk_wai_flg oid waiptn wfmode p tmout s =
    (wait_ret tmout, END_CRITICAL_SECTION
       (knl_gcb_make_wait (WFlg (INDEX_OBJ oid)) (flgid (flgcb s (INDEX_OBJ oid)))
         (flgatr (flgcb s (INDEX_OBJ oid))) c tmout
         (prepare_wait c (flg_wspec (flgcb s (INDEX_OBJ oid))) (WINFO_FLG waiptn wfmode p) s)))"
  using assms
  by (auto simp: tk_wai_flg_def Let_def check_defs consts_defs wai_flg_ok_def flg_call_ok_def
      flg_wspec_def)

lemma wai_flg_waits_inv:
  fixes c :: nat and p :: addr
  assumes inv: "kinv_flg s" and ok: "wai_flg_ok oid waiptn wfmode tmout s"
    and c: "ctxtsk s = Some c" "state (tcb s c) = TS_READY"
    and nc: "\<not> knl_eventflag_cond (flgptn (flgcb s (INDEX_OBJ oid))) waiptn wfmode"
  defines "s' \<equiv> knl_gcb_make_wait (WFlg (INDEX_OBJ oid)) (flgid (flgcb s (INDEX_OBJ oid)))
         (flgatr (flgcb s (INDEX_OBJ oid))) c tmout
         (prepare_wait c (flg_wspec (flgcb s (INDEX_OBJ oid))) (WINFO_FLG waiptn wfmode p) s)"
  shows "kinv_flg s'" "flg_frame_rel s s'"
proof -
  let ?i = "INDEX_OBJ oid" and ?a = "flgatr (flgcb s (INDEX_OBJ oid))"
  have I: "core_inv s" "sem_inv s" "flg_inv s" using inv by (auto simp: kinv_flg_def)
  have i: "?i < NUM_FLGID" "flgid (flgcb s ?i) \<noteq> 0" "waiptn \<noteq> 0"
    and wm: "?a AND TA_WMUL = 0 \<Longrightarrow> que s (QFlg ?i) = []"
    using ok INDEX_OBJ_less by (auto simp: wai_flg_ok_def flg_call_ok_def)
  have id: "wait_home (flg_wspec (flgcb s ?i)) (flgid (flgcb s ?i)) = Some (QFlg ?i)"
    using flg_invD(4)[OF I(3) i(1,2)] by simp
  note B = block_on[OF I(1) c id, where objatr = ?a and wi = "WINFO_FLG waiptn wfmode p" and tmout = tmout,
      folded s'_def]
  note nq = ready_not_queued[OF I(1) c(2)]
  have m: "semcb s' = semcb s" "free_semcb s' = free_semcb s" "semstate.more s' = semstate.more s"
    using B(5) semst_frame by blast+
  then have f: "flgcb s' = flgcb s" "free_flgcb s' = free_flgcb s" "flgstate.more s' = flgstate.more s"
    using flgst_frame by blast+
  have "frame_waits is_WFlg s s'"
    unfolding s'_def by (rule frame_waits_block_on[OF I(1) c id]) simp
  then show fr: "flg_frame_rel s s'" using m f by (simp add: flg_frame_rel_def)
  have "flg_inv s'"
  proof (rule flg_inv_update[OF I(3) i(1)])
    show "cb_table_inv NUM_FLGID (\<lambda>j. flgid (flgcb s' j)) (free_flgcb s')"
      using flg_invD(1)[OF I(3)] by (simp add: f)
    have wp: "flg_wp s' t = (if t = c then waiptn else flg_wp s t)"
      "flg_md s' t = (if t = c then wfmode else flg_md s t)" for t
      using B(2,3) by (simp_all add: flg_wp_def flg_md_def)
    have q: "que s' (QFlg ?i) = (if tmout \<noteq> TMO_POL then wait_enqueue ?a (tcb s) c (que s (QFlg ?i))
        else que s (QFlg ?i))" using B(4)[where w' = "WFlg ?i"] by simp
    show "flg_ok (flgcb s' ?i) (flg_wp s') (flg_md s') (que s' (QFlg ?i))"
      using flg_invD(2)[OF I(3) i(1)] i nc nq[of "WFlg ?i"] wm
      by (auto simp: flg_ok_def f wp q wait_enqueue_def)
    show "flgcb s' j = flgcb s j \<and> que s' (QFlg j) = que s (QFlg j)" if "j \<noteq> ?i" for j
      using that B(4)[where w' = "WFlg j"] by (simp add: f)
    show "winfo (tcb s' t) = winfo (tcb s t)" if "j \<noteq> ?i" "t \<in> set (que s (QFlg j))" for j t
      using that nq B(3)[of t] by metis
  qed
  then show "kinv_flg s'" using B(1) sem_inv_flg_frame[OF I(2) fr] by (simp add: kinv_flg_def)
qed

lemma tk_wai_flg_inv:
  assumes "kinv_flg s" "run_ok s"
  shows "kinv_flg (snd (tk_wai_flg oid waiptn wfmode p tmout s)) \<and>
    flg_frame_rel s (snd (tk_wai_flg oid waiptn wfmode p tmout s))"
proof (cases "wai_flg_ok oid waiptn wfmode tmout s")
  case False
  with tk_wai_flg_error(2)[OF False] assms show ?thesis by (metis kinv_flg_END flg_frame_rel_simps(1,2))
next
  case True
  let ?i = "INDEX_OBJ oid"
  have i: "?i < NUM_FLGID" using True INDEX_OBJ_less by (auto simp: wai_flg_ok_def flg_call_ok_def)
  have "\<not> CHECK_DISPATCH s < E_OK" using True by (simp add: wai_flg_ok_def CHECK_DISPATCH_def)
  then obtain c where c: "ctxtsk s = Some c" "state (tcb s c) = TS_READY"
    using CHECK_DISPATCH_OK assms(2) by blast
  show ?thesis
  proof (cases "knl_eventflag_cond (flgptn (flgcb s ?i)) waiptn wfmode")
    case met: True
    let ?u = "s\<lparr>umem := (umem s)(p := flgptn (flgcb s ?i))\<rparr>"
    have "flg_inv ?u" by (rule flg_inv_frame[of s]) (use assms in \<open>auto simp: kinv_flg_def\<close>)
    then have "flg_inv (upd_flgcb ?i (\<lambda>cb. cb\<lparr>flgptn := flg_clear (flgptn (flgcb s ?i)) waiptn wfmode\<rparr>) ?u)"
      using flg_inv_weaker[of ?u ?i] i flg_clear_sub by simp
    with assms show ?thesis by (simp add: tk_wai_flg_met[OF True met] kinv_flg_def)
  next
    case nc: False
    with wai_flg_waits_inv[OF assms(1) True c nc] show ?thesis
      by (simp add: tk_wai_flg_waits[OF True c(1) nc])
  qed
qed

lemma tk_cre_flg_frame: "flg_frame_rel s (snd (tk_cre_flg pk s))"
proof -
  have "flg_frame_rel s (snd (cre_flg pk s))"
    by (auto simp: cre_flg_def Let_def flg_frame_rel_def frame_waits_def kdefs split: list.split)
  then show ?thesis by (auto simp: tk_cre_flg_def Let_def split: prod.splits)
qed

lemma tk_del_flg_frame: "core_inv s \<Longrightarrow> flg_frame_rel s (snd (tk_del_flg oid s))"
  by (simp add: tk_del_flg_def Let_def del_flg_frame)

text \<open>The semaphore calls leave the flags alone.\<close>

lemma flg_inv_sem_frame:
  assumes "flg_inv s" "sem_frame_rel s s'"
  shows "flg_inv s'"
proof -
  have f: "frame_waits is_WSem s s'" "flgcb s' = flgcb s" "free_flgcb s' = free_flgcb s"
    using assms(2) flgst_frame[of s' s] by (auto simp: sem_frame_rel_def)
  have n: "\<not> is_WSem (WFlg i)" for i by simp
  show ?thesis by (rule flg_inv_frame[OF assms(1) f(2,3)]) (simp_all add: frame_waitsD[OF f(1) n])
qed

end
