(* ===== verification/Mailbox.thy ===== *)
theory Mailbox
  imports Eventflag
begin

text \<open>
  Mailboxes of \<^verbatim>\<open>kernel/tkernel/mailbox.c\<close> and \<^verbatim>\<open>mailbox.h\<close>. A mailbox passes
  pointers: the queued messages are linked through their own first word. The links are an explicit
  store from message headers (those of the messages, and the head that each control block contains)
  to message addresses. The insertion by message priority walks these links, so it need not end on a
  corrupt queue and is a partial function; on well-formed queues it is shown to end. The calls refine
  FIFO and priority queues of messages.
\<close>

section \<open>State\<close>

record MBXCB =
  mbxid :: ID
  mbx_exinf :: addr
  mbxatr :: ATR
  mq_tail :: addr

record T_CMBX =
  cmbx_exinf :: addr
  cmbx_mbxatr :: ATR

record T_RMBX =
  rmbx_exinf :: addr
  rmbx_wtsk :: ID
  rmbx_pk_msg :: "addr option"

text \<open>A message header: \<^verbatim>\<open>mq_head\<close> of a control block, or a message.\<close>

datatype T_MSG = mq_head nat | msg_at addr

record mbxstate = flgstate +
  mbxcb :: "nat \<Rightarrow> MBXCB"
  free_mbxcb :: "nat list"
  nextmsg :: "T_MSG \<Rightarrow> addr option"
  msgpri :: "addr \<Rightarrow> PRI"

definition upd_mbxcb :: "nat \<Rightarrow> (MBXCB \<Rightarrow> MBXCB) \<Rightarrow> 'a mbxstate_scheme \<Rightarrow> 'a mbxstate_scheme" where
  [kdefs]: "upd_mbxcb i f s = s\<lparr>mbxcb := (mbxcb s)(i := f (mbxcb s i))\<rparr>"

definition set_nextmsg :: "T_MSG \<Rightarrow> addr option \<Rightarrow> 'a mbxstate_scheme \<Rightarrow> 'a mbxstate_scheme" where
  [kdefs]: "set_nextmsg n v s = s\<lparr>nextmsg := (nextmsg s)(n := v)\<rparr>"

definition headmsg :: "nat \<Rightarrow> 'a mbxstate_scheme \<Rightarrow> addr option" where
  [kdefs]: "headmsg i s = nextmsg s (mq_head i)"

section \<open>Operations\<close>

definition knl_mailbox_initialize :: "'a mbxstate_scheme \<Rightarrow> ER \<times> 'a mbxstate_scheme" where
  "knl_mailbox_initialize s =
     (if NUM_MBXID < 1 then (E_SYS, s)
      else (E_OK,
        fold (\<lambda>i st. (upd_mbxcb i (mbxid_update (\<lambda>_. 0)) st)\<lparr>free_mbxcb := free_mbxcb st @ [i]\<rparr>)
          [0..<NUM_MBXID] (s\<lparr>free_mbxcb := []\<rparr>)))"

text \<open>
  The walk of \<^verbatim>\<open>knl_queue_insert_mpri\<close>: the header behind which the message goes. It follows
  the links until a lower priority (a larger number) or the end.
\<close>

partial_function (option) find_mpri ::
    "(T_MSG \<Rightarrow> addr option) \<Rightarrow> (addr \<Rightarrow> PRI) \<Rightarrow> PRI \<Rightarrow> T_MSG \<Rightarrow> T_MSG option" where
  "find_mpri nx pri p prevmsg =
     (case nx prevmsg of
        None \<Rightarrow> Some prevmsg
      | Some msg \<Rightarrow> if pri msg > p then Some prevmsg else find_mpri nx pri p (msg_at msg))"

definition knl_queue_insert_mpri ::
    "addr \<Rightarrow> T_MSG \<Rightarrow> 'a mbxstate_scheme \<Rightarrow> 'a mbxstate_scheme option" where
  "knl_queue_insert_mpri pk_msg head s =
     (case find_mpri (nextmsg s) (msgpri s) (msgpri s pk_msg) head of
        None \<Rightarrow> None
      | Some prevmsg \<Rightarrow>
          Some (set_nextmsg prevmsg (Some pk_msg)
                 (set_nextmsg (msg_at pk_msg) (nextmsg s prevmsg) s)))"

definition cre_mbx :: "T_CMBX \<Rightarrow> 'a mbxstate_scheme \<Rightarrow> ID \<times> 'a mbxstate_scheme" where
  "cre_mbx pk s =
     (case free_mbxcb s of
        [] \<Rightarrow> (E_LIMIT, s)
      | i # fs \<Rightarrow>
          let mbxid' = ID_OBJ i;
              s1 = que_init (QMbx i) (s\<lparr>free_mbxcb := fs\<rparr>);
              s2 = upd_mbxcb i (\<lambda>cb. cb\<lparr>mbxid := mbxid', mbx_exinf := cmbx_exinf pk,
                     mbxatr := cmbx_mbxatr pk\<rparr>) s1
          in (mbxid', set_nextmsg (mq_head i) None s2))"

definition tk_cre_mbx :: "T_CMBX \<Rightarrow> 'a mbxstate_scheme \<Rightarrow> sysret \<times> 'a mbxstate_scheme" where
  "tk_cre_mbx pk s =
     (let e = CHECK_RSATR (cmbx_mbxatr pk) (TA_MPRI OR TA_TPRI)
      in if e < E_OK then (Ret e, s)
         else let (r, s1) = cre_mbx pk s in (Ret r, END_CRITICAL_SECTION s1))"

definition del_mbx :: "nat \<Rightarrow> 'a mbxstate_scheme \<Rightarrow> 'a mbxstate_scheme" where
  "del_mbx i s =
     (let s1 = knl_wait_delete (WMbx i) s
      in upd_mbxcb i (mbxid_update (\<lambda>_. 0)) (s1\<lparr>free_mbxcb := free_mbxcb s1 @ [i]\<rparr>))"

definition tk_del_mbx :: "ID \<Rightarrow> 'a mbxstate_scheme \<Rightarrow> sysret \<times> 'a mbxstate_scheme" where
  "tk_del_mbx oid s =
     (let e = CHECK_OBJID NUM_MBXID oid; i = INDEX_OBJ oid
      in if e < E_OK then (Ret e, s)
         else if mbxid (mbxcb s i) = 0 then (Ret E_NOEXS, END_CRITICAL_SECTION s)
         else (Ret E_OK, END_CRITICAL_SECTION (del_mbx i s)))"

text \<open>The link of a message into the queue of a mailbox, in both orders; \<open>None\<close> if it hangs.\<close>

definition link_msg :: "nat \<Rightarrow> addr \<Rightarrow> 'a mbxstate_scheme \<Rightarrow> 'a mbxstate_scheme option" where
  "link_msg i pk_msg s =
     (if mbxatr (mbxcb s i) AND TA_MPRI \<noteq> 0 then knl_queue_insert_mpri pk_msg (mq_head i) s
      else
        let s1 = set_nextmsg (msg_at pk_msg) None s;
            s2 = (if headmsg i s1 = None then set_nextmsg (mq_head i) (Some pk_msg) s1
                  else set_nextmsg (msg_at (mq_tail (mbxcb s1 i))) (Some pk_msg) s1)
        in Some (upd_mbxcb i (mq_tail_update (\<lambda>_. pk_msg)) s2))"

definition tk_snd_mbx :: "ID \<Rightarrow> addr \<Rightarrow> 'a mbxstate_scheme \<Rightarrow> (sysret \<times> 'a mbxstate_scheme) option" where
  "tk_snd_mbx oid pk_msg s =
     (let e = CHECK_OBJID NUM_MBXID oid; i = INDEX_OBJ oid
      in if e < E_OK then Some (Ret e, s)
         else if mbxid (mbxcb s i) = 0 then Some (Ret E_NOEXS, END_CRITICAL_SECTION s)
         else if mbxatr (mbxcb s i) AND TA_MPRI \<noteq> 0 \<and> msgpri s pk_msg \<le> 0
           then Some (Ret E_PAR, END_CRITICAL_SECTION s)
         else
           (case que s (QMbx i) of
              t # _ \<Rightarrow>
                let s1 = s\<lparr>umem := (umem s)(winfo_mbx_ppk_msg (winfo (tcb s t)) := of_nat pk_msg)\<rparr>
                in Some (Ret E_OK, END_CRITICAL_SECTION (knl_wait_release_ok t s1))
            | [] \<Rightarrow> map_option (\<lambda>s1. (Ret E_OK, END_CRITICAL_SECTION s1)) (link_msg i pk_msg s)))"

definition mbx_chg_pri :: "nat \<Rightarrow> int \<Rightarrow> 'a mbxstate_scheme \<Rightarrow> 'a mbxstate_scheme" where
  "mbx_chg_pri t oldpri s = knl_gcb_change_priority (WMbx (INDEX_OBJ (wid (tcb s t)))) t s"

definition tk_rcv_mbx :: "ID \<Rightarrow> addr \<Rightarrow> TMO \<Rightarrow> 'a mbxstate_scheme \<Rightarrow> sysret \<times> 'a mbxstate_scheme" where
  "tk_rcv_mbx oid ppk_msg tmout s =
     (let e = first_err [CHECK_OBJID NUM_MBXID oid, CHECK_TMOUT tmout, CHECK_DISPATCH s];
          i = INDEX_OBJ oid; c = the (ctxtsk s); cb = mbxcb s i
      in if e < E_OK then (Ret e, s)
         else if mbxid cb = 0 then (Ret E_NOEXS, END_CRITICAL_SECTION s)
         else
           (case headmsg i s of
              Some m \<Rightarrow>
                let s1 = s\<lparr>umem := (umem s)(ppk_msg := of_nat m)\<rparr>;
                    s2 = set_nextmsg (mq_head i) (nextmsg s1 (msg_at m)) s1
                in (Ret E_OK, END_CRITICAL_SECTION s2)
            | None \<Rightarrow>
                let s1 = prepare_wait c (if mbxatr cb AND TA_TPRI \<noteq> 0
                           then knl_wspec_mbx_tpri else knl_wspec_mbx_tfifo) (WINFO_MBX ppk_msg) s;
                    s2 = knl_gcb_make_wait (WMbx i) (mbxid cb) (mbxatr cb) c tmout s1
                in (wait_ret tmout, END_CRITICAL_SECTION s2)))"

definition tk_ref_mbx :: "ID \<Rightarrow> 'a mbxstate_scheme \<Rightarrow> T_RMBX refret" where
  "tk_ref_mbx oid s =
     (let e = CHECK_OBJID NUM_MBXID oid; i = INDEX_OBJ oid
      in if e < E_OK then (e, None)
         else if mbxid (mbxcb s i) = 0 then (E_NOEXS, None)
         else (E_OK, Some \<lparr>rmbx_exinf = mbx_exinf (mbxcb s i), rmbx_wtsk = knl_wait_tskid (WMbx i) s,
                           rmbx_pk_msg = headmsg i s\<rparr>))"

definition td_lst_mbx :: "int \<Rightarrow> 'a mbxstate_scheme \<Rightarrow> int \<times> ID list" where
  "td_lst_mbx nent s =
     list_entries nent (filter (\<lambda>k. k \<noteq> 0) (map (\<lambda>i. mbxid (mbxcb s i)) [0..<NUM_MBXID]))"

definition td_ref_mbx :: "ID \<Rightarrow> 'a mbxstate_scheme \<Rightarrow> T_RMBX refret" where
  "td_ref_mbx oid s =
     (let e = CHECK_OBJID NUM_MBXID oid; i = INDEX_OBJ oid
      in if e < E_OK then (e, None)
         else if mbxid (mbxcb s i) = 0 then (E_NOEXS, None)
         else (E_OK, Some \<lparr>rmbx_exinf = mbx_exinf (mbxcb s i), rmbx_wtsk = knl_wait_tskid (WMbx i) s,
                           rmbx_pk_msg = headmsg i s\<rparr>))"

definition td_mbx_que :: "ID \<Rightarrow> int \<Rightarrow> 'a mbxstate_scheme \<Rightarrow> int \<times> ID list" where
  "td_mbx_que oid nent s =
     (let e = CHECK_OBJID NUM_MBXID oid; i = INDEX_OBJ oid
      in if e < E_OK then (e, [])
         else if mbxid (mbxcb s i) = 0 then (E_NOEXS, [])
         else list_entries nent (que_tskids (QMbx i) s))"

section \<open>Chains of messages\<close>

fun chain :: "(T_MSG \<Rightarrow> addr option) \<Rightarrow> T_MSG \<Rightarrow> addr list \<Rightarrow> bool" where
  "chain nx n [] \<longleftrightarrow> nx n = None"
| "chain nx n (m # ms) \<longleftrightarrow> nx n = Some m \<and> chain nx (msg_at m) ms"

lemma chain_cong:
  "nx n = nx' n' \<Longrightarrow> (\<And>m. m \<in> set ms \<Longrightarrow> nx (msg_at m) = nx' (msg_at m)) \<Longrightarrow>
     chain nx n ms = chain nx' n' ms"
  by (induction ms arbitrary: n n') auto

lemma chain_append:
  assumes "chain nx n ms" "distinct ms" "l \<notin> set ms" "n \<notin> msg_at ` set (l # ms)"
  shows "chain ((nx(msg_at l := None))((if ms = [] then n else msg_at (last ms)) := Some l)) n (ms @ [l])"
  using assms
proof (induction ms arbitrary: n)
  case (Cons m ms)
  have "msg_at m \<notin> msg_at ` set (l # ms)" using Cons.prems by auto
  with Cons.IH[of "msg_at m"] Cons.prems show ?case by (cases ms) auto
qed auto

lemma chain_unique: "chain nx n ms \<Longrightarrow> chain nx n ms' \<Longrightarrow> ms = ms'"
proof (induction ms arbitrary: n ms')
  case Nil
  then show ?case by (cases ms') auto
next
  case (Cons m ms)
  then show ?case by (cases ms') auto
qed

text \<open>The walk ends on every well-formed chain, at the place of the ordered insertion.\<close>

lemma find_mpri_step:
  "find_mpri nx pri p n = (case nx n of None \<Rightarrow> Some n
     | Some m \<Rightarrow> if pri m > p then Some n else find_mpri nx pri p (msg_at m))"
  by (rule find_mpri.simps)

lemma insert_mpri_chain:
  assumes "chain nx n ms" "distinct ms" "pk \<notin> set ms" "n \<notin> msg_at ` set (pk # ms)"
  shows "\<exists>q. find_mpri nx pri (pri pk) n = Some q \<and> q \<in> insert n (msg_at ` set ms) \<and>
     chain ((nx(msg_at pk := nx q))(q := Some pk)) n (insert_before (\<lambda>m. pri m > pri pk) pk ms)"
  using assms
proof (induction ms arbitrary: n)
  case Nil
  then show ?case by (subst find_mpri_step) auto
next
  case (Cons m ms)
  have nm: "nx n = Some m" "chain nx (msg_at m) ms" using Cons.prems by auto
  show ?case
  proof (cases "pri m > pri pk")
    case True
    have "chain ((nx(msg_at pk := Some m))(n := Some pk)) (msg_at m) ms = chain nx (msg_at m) ms"
      using Cons.prems by (intro chain_cong) auto
    with True nm Cons.prems show ?thesis by (subst find_mpri_step) auto
  next
    case False
    have "msg_at m \<notin> msg_at ` set (pk # ms)" using Cons.prems by auto
    with Cons.IH[OF nm(2)] Cons.prems obtain q where
      q: "find_mpri nx pri (pri pk) (msg_at m) = Some q" "q \<in> insert (msg_at m) (msg_at ` set ms)"
        "chain ((nx(msg_at pk := nx q))(q := Some pk)) (msg_at m) (insert_before (\<lambda>m. pri m > pri pk) pk ms)"
      by (metis distinct.simps(2) list.set_intros(2))
    moreover have "q \<noteq> n" using q(2) Cons.prems by auto
    ultimately show ?thesis using nm False Cons.prems by (subst find_mpri_step) auto
  qed
qed

section \<open>Invariant\<close>

text \<open>
  \<open>mbx_rep s msgs\<close>: the queue of mailbox \<open>i\<close> holds the messages \<open>msgs i\<close>; no message is in
  two queues; the tail of a FIFO queue is its last message and a priority queue is sorted; and no
  task waits for a message while there is one.
\<close>

definition mbx_mpri :: "MBXCB \<Rightarrow> bool" where
  "mbx_mpri cb \<longleftrightarrow> mbxatr cb AND TA_MPRI \<noteq> 0"

definition mbx_ok :: "MBXCB \<Rightarrow> (addr \<Rightarrow> PRI) \<Rightarrow> addr list \<Rightarrow> nat list \<Rightarrow> bool" where
  "mbx_ok cb pri ms ts \<longleftrightarrow>
     (if mbxid cb = 0 then ms = [] \<and> ts = []
      else distinct ms \<and> (ts = [] \<or> ms = []) \<and>
           (if mbx_mpri cb then sorted (map pri ms) else ms \<noteq> [] \<longrightarrow> mq_tail cb = last ms))"

definition mbx_rep :: "'a mbxstate_scheme \<Rightarrow> (nat \<Rightarrow> addr list) \<Rightarrow> bool" where
  "mbx_rep s msgs \<longleftrightarrow> cb_table_inv NUM_MBXID (\<lambda>i. mbxid (mbxcb s i)) (free_mbxcb s) \<and>
     (\<forall>i < NUM_MBXID. mbx_ok (mbxcb s i) (msgpri s) (msgs i) (que s (QMbx i)) \<and>
        (mbxid (mbxcb s i) \<noteq> 0 \<longrightarrow> chain (nextmsg s) (mq_head i) (msgs i))) \<and>
     (\<forall>i \<ge> NUM_MBXID. que s (QMbx i) = [] \<and> msgs i = []) \<and>
     (\<forall>i j. i \<noteq> j \<longrightarrow> (\<forall>m\<in>set (msgs i). m \<notin> set (msgs j)))"

definition mbx_inv :: "'a mbxstate_scheme \<Rightarrow> bool" where
  "mbx_inv s \<longleftrightarrow> (\<exists>msgs. mbx_rep s msgs)"

lemma mbx_repD:
  assumes "mbx_rep s msgs"
  shows "cb_table_inv NUM_MBXID (\<lambda>i. mbxid (mbxcb s i)) (free_mbxcb s)"
    "i < NUM_MBXID \<Longrightarrow> mbx_ok (mbxcb s i) (msgpri s) (msgs i) (que s (QMbx i))"
    "i < NUM_MBXID \<Longrightarrow> mbxid (mbxcb s i) \<noteq> 0 \<Longrightarrow> chain (nextmsg s) (mq_head i) (msgs i)"
    "NUM_MBXID \<le> i \<Longrightarrow> que s (QMbx i) = []" "NUM_MBXID \<le> i \<Longrightarrow> msgs i = []"
    "i \<noteq> j \<Longrightarrow> m \<in> set (msgs i) \<Longrightarrow> m \<notin> set (msgs j)"
    "i < NUM_MBXID \<Longrightarrow> mbxid (mbxcb s i) = 0 \<Longrightarrow> que s (QMbx i) = [] \<and> msgs i = []"
    "i < NUM_MBXID \<Longrightarrow> mbxid (mbxcb s i) \<noteq> 0 \<Longrightarrow> mbxid (mbxcb s i) = ID_OBJ i"
  using assms by (auto simp: mbx_rep_def mbx_ok_def cb_table_inv_def)

lemma mbx_rep_frame:
  assumes "mbx_rep s msgs" "mbxcb s' = mbxcb s" "free_mbxcb s' = free_mbxcb s"
    "nextmsg s' = nextmsg s" "msgpri s' = msgpri s" "\<And>i. que s' (QMbx i) = que s (QMbx i)"
  shows "mbx_rep s' msgs"
  using assms by (simp add: mbx_rep_def)

text \<open>An update of one mailbox whose links are among its own messages and a new one.\<close>

lemma mbx_rep_update:
  assumes rep: "mbx_rep s msgs" and i: "i < NUM_MBXID"
    and tab: "cb_table_inv NUM_MBXID (\<lambda>j. mbxid (mbxcb s' j)) (free_mbxcb s')"
    and here: "mbx_ok (mbxcb s' i) (msgpri s) ms (que s' (QMbx i))"
      "mbxid (mbxcb s' i) \<noteq> 0 \<Longrightarrow> chain (nextmsg s') (mq_head i) ms"
    and oth: "\<And>j. j \<noteq> i \<Longrightarrow> mbxcb s' j = mbxcb s j \<and> que s' (QMbx j) = que s (QMbx j)"
    and pri: "msgpri s' = msgpri s"
    and links: "\<And>n. nextmsg s' n \<noteq> nextmsg s n \<Longrightarrow> n = mq_head i \<or> n \<in> msg_at ` (set ms \<union> set (msgs i))"
    and new: "\<And>j. j \<noteq> i \<Longrightarrow> set ms \<inter> set (msgs j) = {}"
  shows "mbx_rep s' (msgs(i := ms))"
proof -
  have ch: "chain (nextmsg s') (mq_head j) (msgs j)" if "j \<noteq> i" "j < NUM_MBXID" "mbxid (mbxcb s j) \<noteq> 0" for j
  proof -
    have "m \<notin> set ms \<union> set (msgs i)" if "m \<in> set (msgs j)" for m
      using new[OF \<open>j \<noteq> i\<close>] mbx_repD(6)[OF rep \<open>j \<noteq> i\<close> that] that by auto
    then have "chain (nextmsg s') (mq_head j) (msgs j) = chain (nextmsg s) (mq_head j) (msgs j)"
      using links that(1) by (intro chain_cong) blast+
    with mbx_repD(3)[OF rep that(2,3)] show ?thesis by simp
  qed
  have "\<forall>j < NUM_MBXID. mbx_ok (mbxcb s' j) (msgpri s') ((msgs(i := ms)) j) (que s' (QMbx j)) \<and>
        (mbxid (mbxcb s' j) \<noteq> 0 \<longrightarrow> chain (nextmsg s') (mq_head j) ((msgs(i := ms)) j))"
    using here oth ch mbx_repD(2)[OF rep] pri by auto
  moreover have "\<forall>j \<ge> NUM_MBXID. que s' (QMbx j) = [] \<and> (msgs(i := ms)) j = []"
    using i oth mbx_repD(4,5)[OF rep] by auto
  moreover have "\<forall>j k. j \<noteq> k \<longrightarrow> (\<forall>m\<in>set ((msgs(i := ms)) j). m \<notin> set ((msgs(i := ms)) k))"
    using new mbx_repD(6)[OF rep] by (auto simp: disjoint_iff)
  ultimately show ?thesis using tab unfolding mbx_rep_def by blast
qed

section \<open>Frames and the control block table\<close>

lemma mbxst_frame:
  "flgstate.more s' = flgstate.more s \<Longrightarrow> mbxcb s' = mbxcb s"
  "flgstate.more s' = flgstate.more s \<Longrightarrow> free_mbxcb s' = free_mbxcb s"
  "flgstate.more s' = flgstate.more s \<Longrightarrow> nextmsg s' = nextmsg s"
  "flgstate.more s' = flgstate.more s \<Longrightarrow> msgpri s' = msgpri s"
  "flgstate.more s' = flgstate.more s \<Longrightarrow> mbxstate.more s' = mbxstate.more s"
  by (cases s; cases s'; simp)+

lemmas mbxst_kframe = mbxst_frame[OF flgst_frame(3)[OF semst_frame(3)]]

lemma mbx_frame [simp, frame]:
  "mbxcb (knl_wait_release_ok t s) = mbxcb s" "free_mbxcb (knl_wait_release_ok t s) = free_mbxcb s"
  "nextmsg (knl_wait_release_ok t s) = nextmsg s" "msgpri (knl_wait_release_ok t s) = msgpri s"
  "mbxcb (knl_wait_delete w s) = mbxcb s" "free_mbxcb (knl_wait_delete w s) = free_mbxcb s"
  "nextmsg (knl_wait_delete w s) = nextmsg s" "msgpri (knl_wait_delete w s) = msgpri s"
  "mbxcb (END_CRITICAL_SECTION s) = mbxcb s" "free_mbxcb (END_CRITICAL_SECTION s) = free_mbxcb s"
  "nextmsg (END_CRITICAL_SECTION s) = nextmsg s" "msgpri (END_CRITICAL_SECTION s) = msgpri s"
  by (rule mbxst_kframe; simp)+

lemma upd_mbxcb_fields [simp]:
  "tcb (upd_mbxcb i f s) = tcb s" "que (upd_mbxcb i f s) = que s" "nextmsg (upd_mbxcb i f s) = nextmsg s"
  "msgpri (upd_mbxcb i f s) = msgpri s" "free_mbxcb (upd_mbxcb i f s) = free_mbxcb s"
  "mbxcb (upd_mbxcb i f s) = (mbxcb s)(i := f (mbxcb s i))" "umem (upd_mbxcb i f s) = umem s"
  "semcb (upd_mbxcb i f s) = semcb s" "free_semcb (upd_mbxcb i f s) = free_semcb s"
  "flgcb (upd_mbxcb i f s) = flgcb s" "free_flgcb (upd_mbxcb i f s) = free_flgcb s"
  "mbxstate.more (upd_mbxcb i f s) = mbxstate.more s" "ctxtsk (upd_mbxcb i f s) = ctxtsk s"
  by (simp_all add: upd_mbxcb_def)

lemma set_nextmsg_fields [simp]:
  "tcb (set_nextmsg n v s) = tcb s" "que (set_nextmsg n v s) = que s"
  "nextmsg (set_nextmsg n v s) = (nextmsg s)(n := v)" "msgpri (set_nextmsg n v s) = msgpri s"
  "free_mbxcb (set_nextmsg n v s) = free_mbxcb s" "mbxcb (set_nextmsg n v s) = mbxcb s"
  "umem (set_nextmsg n v s) = umem s" "semcb (set_nextmsg n v s) = semcb s"
  "free_semcb (set_nextmsg n v s) = free_semcb s" "flgcb (set_nextmsg n v s) = flgcb s"
  "free_flgcb (set_nextmsg n v s) = free_flgcb s" "ctxtsk (set_nextmsg n v s) = ctxtsk s"
  "mbxstate.more (set_nextmsg n v s) = mbxstate.more s"
  by (simp_all add: set_nextmsg_def)

lemma core_inv_mbx [simp]:
  "core_inv (upd_mbxcb i f s) = core_inv s" "core_inv (set_nextmsg n v s) = core_inv s"
  "core_inv (s\<lparr>free_mbxcb := x\<rparr>) = core_inv s"
  by (rule core_inv_cong; simp add: upd_mbxcb_def set_nextmsg_def)+

interpretation mbx_table: object_table NUM_MBXID "\<lambda>s i. mbxid (mbxcb s i)" free_mbxcb cre_mbx del_mbx
  by unfold_locales (auto simp: cre_mbx_def del_mbx_def Let_def fun_eq_iff que_init_def)

section \<open>The calls refine message queues\<close>

definition mbx_call_ok :: "ID \<Rightarrow> 'a mbxstate_scheme \<Rightarrow> bool" where
  "mbx_call_ok oid s \<longleftrightarrow> CHK_OBJID NUM_MBXID oid \<and> mbxid (mbxcb s (INDEX_OBJ oid)) \<noteq> 0"

definition msg_fresh :: "addr \<Rightarrow> (nat \<Rightarrow> addr list) \<Rightarrow> bool" where
  "msg_fresh m msgs \<longleftrightarrow> (\<forall>i. m \<notin> set (msgs i))"

text \<open>Where a message goes: behind all messages, or behind those of the same or a higher priority.\<close>

definition mbx_enqueue :: "MBXCB \<Rightarrow> (addr \<Rightarrow> PRI) \<Rightarrow> addr \<Rightarrow> addr list \<Rightarrow> addr list" where
  "mbx_enqueue cb pri m ms =
     (if mbx_mpri cb then insert_before (\<lambda>x. pri x > pri m) m ms else ms @ [m])"

lemma link_msg_refines:
  assumes rep: "mbx_rep s msgs" and i: "i < NUM_MBXID" "mbxid (mbxcb s i) \<noteq> 0"
    and q: "que s (QMbx i) = []" and new: "msg_fresh m msgs"
  obtains s' where "link_msg i m s = Some s'"
    "mbx_rep s' (msgs(i := mbx_enqueue (mbxcb s i) (msgpri s) m (msgs i)))"
    "core_inv s' = core_inv s" "que s' = que s" "tcb s' = tcb s" "umem s' = umem s" "ctxtsk s' = ctxtsk s"
    "semcb s' = semcb s" "free_semcb s' = free_semcb s" "flgcb s' = flgcb s"
    "free_flgcb s' = free_flgcb s" "mbxstate.more s' = mbxstate.more s"
proof -
  have ch: "chain (nextmsg s) (mq_head i) (msgs i)" by (rule mbx_repD(3)[OF rep i])
  have ok: "mbx_ok (mbxcb s i) (msgpri s) (msgs i) []" using mbx_repD(2)[OF rep i(1)] q by simp
  have d: "distinct (msgs i)" "m \<notin> set (msgs i)" using ok i new by (auto simp: mbx_ok_def msg_fresh_def)
  have dis: "set (mbx_enqueue (mbxcb s i) (msgpri s) m (msgs i)) \<inter> set (msgs j) = {}" if "j \<noteq> i" for j
    using new mbx_repD(6)[OF rep, of i j] that by (auto simp: mbx_enqueue_def msg_fresh_def)
  have tab: "cb_table_inv NUM_MBXID (\<lambda>j. mbxid (mbxcb s j)) (free_mbxcb s)" by (rule mbx_repD(1)[OF rep])
  show thesis
  proof (cases "mbx_mpri (mbxcb s i)")
    case True
    have hd: "mq_head i \<notin> msg_at ` set (m # msgs i)" by auto
    obtain n where n: "find_mpri (nextmsg s) (msgpri s) (msgpri s m) (mq_head i) = Some n"
        "n \<in> insert (mq_head i) (msg_at ` set (msgs i))"
        "chain (((nextmsg s)(msg_at m := nextmsg s n))(n := Some m)) (mq_head i)
           (insert_before (\<lambda>x. msgpri s x > msgpri s m) m (msgs i))"
      using insert_mpri_chain[OF ch d(1) d(2) hd, of "msgpri s"] by blast
    let ?s = "set_nextmsg n (Some m) (set_nextmsg (msg_at m) (nextmsg s n) s)"
    have l: "link_msg i m s = Some ?s"
      using True n(1) by (simp add: link_msg_def knl_queue_insert_mpri_def mbx_mpri_def)
    have "mbx_rep ?s (msgs(i := mbx_enqueue (mbxcb s i) (msgpri s) m (msgs i)))"
    proof (rule mbx_rep_update[OF rep i(1)])
      show "mbx_ok (mbxcb ?s i) (msgpri s) (mbx_enqueue (mbxcb s i) (msgpri s) m (msgs i)) (que ?s (QMbx i))"
        using ok d q i True sorted_insert_before[of "msgpri s" "msgs i" m]
        by (auto simp: mbx_ok_def mbx_enqueue_def)
    qed (use n True tab dis in \<open>auto simp: mbx_enqueue_def split: if_splits\<close>)
    then show thesis by (rule that[OF l]) simp_all
  next
    case False
    let ?n = "if msgs i = [] then mq_head i else msg_at (last (msgs i))"
    let ?s = "upd_mbxcb i (mq_tail_update (\<lambda>_. m)) (set_nextmsg ?n (Some m) (set_nextmsg (msg_at m) None s))"
    have tl: "msgs i \<noteq> [] \<Longrightarrow> mq_tail (mbxcb s i) = last (msgs i)" using ok False i by (auto simp: mbx_ok_def)
    have h: "nextmsg s (mq_head i) = None \<longleftrightarrow> msgs i = []" using ch by (cases "msgs i") auto
    have l: "link_msg i m s = Some ?s"
      using False h tl by (simp add: link_msg_def mbx_mpri_def headmsg_def Let_def)
    have hd: "mq_head i \<notin> msg_at ` set (m # msgs i)" by auto
    have "mbx_rep ?s (msgs(i := mbx_enqueue (mbxcb s i) (msgpri s) m (msgs i)))"
    proof (rule mbx_rep_update[OF rep i(1)])
      show "mbx_ok (mbxcb ?s i) (msgpri s) (mbx_enqueue (mbxcb s i) (msgpri s) m (msgs i)) (que ?s (QMbx i))"
        using ok d q i False by (auto simp: mbx_ok_def mbx_enqueue_def mbx_mpri_def)
      show "chain (nextmsg ?s) (mq_head i) (mbx_enqueue (mbxcb s i) (msgpri s) m (msgs i))"
        using chain_append[OF ch d(1) d(2) hd] False by (simp add: mbx_enqueue_def)
      have "(\<lambda>j. mbxid (mbxcb ?s j)) = (\<lambda>j. mbxid (mbxcb s j))" by auto
      then show "cb_table_inv NUM_MBXID (\<lambda>j. mbxid (mbxcb ?s j)) (free_mbxcb ?s)" using tab by simp
      show "n = mq_head i \<or> n \<in> msg_at ` (set (mbx_enqueue (mbxcb s i) (msgpri s) m (msgs i)) \<union> set (msgs i))"
        if "nextmsg ?s n \<noteq> nextmsg s n" for n
        using that False by (auto simp: mbx_enqueue_def split: if_splits)
    qed (use dis in auto)
    then show thesis by (rule that[OF l]) simp_all
  qed
qed

fun is_WMbx :: "wobj \<Rightarrow> bool" where
  "is_WMbx (WMbx i) = True"
| "is_WMbx _ = False"

definition mbx_frame_rel :: "'a mbxstate_scheme \<Rightarrow> 'a mbxstate_scheme \<Rightarrow> bool" where
  "mbx_frame_rel s s' \<longleftrightarrow> frame_waits is_WMbx s s' \<and> semcb s' = semcb s \<and> free_semcb s' = free_semcb s \<and>
     flgcb s' = flgcb s \<and> free_flgcb s' = free_flgcb s \<and> mbxstate.more s' = mbxstate.more s"

lemma mbxst_more_END [simp]: "mbxstate.more (END_CRITICAL_SECTION s) = mbxstate.more s"
  by (rule mbxst_frame) simp

lemma mbx_frame_rel_simps [simp]:
  "mbx_frame_rel s (END_CRITICAL_SECTION s') = mbx_frame_rel s s'" "mbx_frame_rel s s"
  by (simp_all add: mbx_frame_rel_def)

lemma mbx_frame_rel_keeps:
  assumes "mbx_frame_rel s s'"
  shows "sem_inv s \<Longrightarrow> sem_inv s'" "flg_inv s \<Longrightarrow> flg_inv s'"
proof -
  have f: "frame_waits is_WMbx s s'" "semcb s' = semcb s" "free_semcb s' = free_semcb s"
    "flgcb s' = flgcb s" "free_flgcb s' = free_flgcb s" using assms by (auto simp: mbx_frame_rel_def)
  show "sem_inv s \<Longrightarrow> sem_inv s'" by (rule sem_inv_frame_waits[OF _ f(1-3)]) simp_all
  have n: "\<not> is_WMbx (WFlg i)" for i by simp
  show "flg_inv s \<Longrightarrow> flg_inv s'"
    by (rule flg_inv_frame[OF _ f(4,5)]) (simp_all add: frame_waitsD[OF f(1) n])
qed

lemma mbx_rep_END [simp]: "mbx_rep (END_CRITICAL_SECTION s) msgs = mbx_rep s msgs"
  by (simp add: mbx_rep_def)

definition snd_mbx_ok :: "ID \<Rightarrow> addr \<Rightarrow> 'a mbxstate_scheme \<Rightarrow> bool" where
  "snd_mbx_ok oid m s \<longleftrightarrow> mbx_call_ok oid s \<and>
     (mbx_mpri (mbxcb s (INDEX_OBJ oid)) \<longrightarrow> 0 < msgpri s m)"

lemma tk_snd_mbx_error:
  assumes "\<not> snd_mbx_ok oid m s"
  obtains e s' where "e < 0" "tk_snd_mbx oid m s = Some (Ret e, s')" "s' = s \<or> s' = END_CRITICAL_SECTION s"
proof -
  let ?i = "INDEX_OBJ oid"
  consider "\<not> CHK_OBJID NUM_MBXID oid" | "CHK_OBJID NUM_MBXID oid" "mbxid (mbxcb s ?i) = 0"
    | "CHK_OBJID NUM_MBXID oid" "mbxid (mbxcb s ?i) \<noteq> 0" "mbxatr (mbxcb s ?i) AND TA_MPRI \<noteq> 0" "msgpri s m \<le> 0"
    using assms by (auto simp: snd_mbx_ok_def mbx_call_ok_def mbx_mpri_def not_less)
  then show thesis
  proof cases
    case 1
    then show thesis
      by (intro that[of E_ID s]) (simp_all add: tk_snd_mbx_def Let_def CHECK_OBJID_def E_ID_def E_OK_def)
  next
    case 2
    then show thesis
      by (intro that[of E_NOEXS "END_CRITICAL_SECTION s"])
        (simp_all add: tk_snd_mbx_def Let_def CHECK_OBJID_def E_NOEXS_def E_OK_def)
  next
    case 3
    then show thesis
      by (intro that[of E_PAR "END_CRITICAL_SECTION s"])
        (simp_all add: tk_snd_mbx_def Let_def CHECK_OBJID_def E_PAR_def E_OK_def)
  qed
qed

lemma tk_snd_mbx_ok:
  assumes "snd_mbx_ok oid m s"
  shows "tk_snd_mbx oid m s =
    (case que s (QMbx (INDEX_OBJ oid)) of
       t # _ \<Rightarrow> Some (Ret E_OK, END_CRITICAL_SECTION (knl_wait_release_ok t
                 (s\<lparr>umem := (umem s)(winfo_mbx_ppk_msg (winfo (tcb s t)) := of_nat m)\<rparr>)))
     | [] \<Rightarrow> map_option (\<lambda>s1. (Ret E_OK, END_CRITICAL_SECTION s1)) (link_msg (INDEX_OBJ oid) m s))"
proof -
  have "CHK_OBJID NUM_MBXID oid" "mbxid (mbxcb s (INDEX_OBJ oid)) \<noteq> 0"
    "\<not> (mbxatr (mbxcb s (INDEX_OBJ oid)) AND TA_MPRI \<noteq> 0 \<and> msgpri s m \<le> 0)"
    using assms by (auto simp: snd_mbx_ok_def mbx_call_ok_def mbx_mpri_def)
  then show ?thesis unfolding tk_snd_mbx_def Let_def CHECK_OBJID_def by (simp only: simp_thms if_True if_False less_irrefl)
qed

lemma removeAll_filter_set: "removeAll t xs = filter (\<lambda>x. x \<notin> set [t]) xs"
  by (induction xs) auto

lemma tk_snd_mbx_delivers:
  assumes inv: "core_inv s" "mbx_rep s msgs" and ok: "snd_mbx_ok oid m s"
  defines "i \<equiv> INDEX_OBJ oid"
  assumes q: "que s (QMbx i) = t # ts"
  obtains s' where "tk_snd_mbx oid m s = Some (Ret E_OK, s')" "core_inv s'" "mbx_rep s' msgs"
    "tcb s' = served [t] (tcb s)" "que s' (QMbx i) = ts"
    "umem s' = (umem s)(winfo_mbx_ppk_msg (winfo (tcb s t)) := of_nat m)" "mbx_frame_rel s s'"
    "ctxtsk s' = ctxtsk s"
proof -
  let ?u = "s\<lparr>umem := (umem s)(winfo_mbx_ppk_msg (winfo (tcb s t)) := of_nat m)\<rparr>"
  let ?r = "knl_wait_release_ok t ?u"
  have i: "i < NUM_MBXID" "mbxid (mbxcb s i) \<noteq> 0"
    using ok INDEX_OBJ_less by (auto simp: snd_mbx_ok_def mbx_call_ok_def i_def)
  have t: "t \<in> set (que ?u (QMbx i))" "core_inv ?u" using q inv by simp_all
  note R = wait_release_ok_result[OF t(2,1)]
  have d: "distinct (que s (QMbx i))" by (rule core_inv_distinct[OF inv(1)])
  have e: "tk_snd_mbx oid m s = Some (Ret E_OK, END_CRITICAL_SECTION ?r)"
    using tk_snd_mbx_ok[OF ok] q by (simp add: i_def)
  have fr: "frame_waits is_WMbx s ?r"
    by (rule frame_waits_served[OF inv(1), where r = "[t]" and w = "WMbx i"])
      (use R(2) q in \<open>simp_all add: removeAll_filter_set\<close>)
  have m: "mbxstate.more ?r = mbxstate.more s" using mbxst_kframe(5)[of ?r ?u] by simp
  have nt: "t \<notin> set (que s (QMbx j))" if "j \<noteq> i" for j
    using core_inv_one_queue[OF inv(1), of t "WMbx i" "WMbx j"] that q by auto
  have qi: "que ?r (QMbx j) = (if j = i then ts else que s (QMbx j))" for j
    using q d nt[of j] by (cases "j = i") simp_all
  have mt: "msgs i = []" using mbx_repD(2)[OF inv(2) i(1)] i(2) q by (simp add: mbx_ok_def)
  have "mbx_rep ?r (msgs(i := msgs i))"
  proof (rule mbx_rep_update[OF inv(2) i(1)])
    show "mbx_ok (mbxcb ?r i) (msgpri s) (msgs i) (que ?r (QMbx i))"
      using mbx_repD(2)[OF inv(2) i(1)] i(2) mt by (auto simp: mbx_ok_def qi split: if_splits)
    show "cb_table_inv NUM_MBXID (\<lambda>j. mbxid (mbxcb ?r j)) (free_mbxcb ?r)"
      using mbx_repD(1)[OF inv(2)] by simp
    show "chain (nextmsg ?r) (mq_head i) (msgs i)" using mbx_repD(3)[OF inv(2) i] by simp
  qed (simp_all add: mt nt)
  then have rep: "mbx_rep ?r msgs" by simp
  show thesis
    by (rule that[OF e]) (use R rep fr m qi in \<open>simp_all add: mbx_frame_rel_def\<close>)
qed

lemma tk_snd_mbx_queues:
  assumes inv: "core_inv s" "mbx_rep s msgs" and ok: "snd_mbx_ok oid m s" "msg_fresh m msgs"
  defines "i \<equiv> INDEX_OBJ oid"
  assumes q: "que s (QMbx i) = []"
  obtains s' where "tk_snd_mbx oid m s = Some (Ret E_OK, s')" "core_inv s'"
    "mbx_rep s' (msgs(i := mbx_enqueue (mbxcb s i) (msgpri s) m (msgs i)))" "mbx_frame_rel s s'"
    "tcb s' = tcb s" "que s' = que s" "umem s' = umem s" "ctxtsk s' = ctxtsk s"
proof -
  have i: "i < NUM_MBXID" "mbxid (mbxcb s i) \<noteq> 0"
    using ok INDEX_OBJ_less by (auto simp: snd_mbx_ok_def mbx_call_ok_def i_def)
  obtain s' where l: "link_msg i m s = Some s'"
    "mbx_rep s' (msgs(i := mbx_enqueue (mbxcb s i) (msgpri s) m (msgs i)))"
    "core_inv s' = core_inv s" "que s' = que s" "tcb s' = tcb s" "umem s' = umem s" "ctxtsk s' = ctxtsk s"
    "semcb s' = semcb s" "free_semcb s' = free_semcb s" "flgcb s' = flgcb s"
    "free_flgcb s' = free_flgcb s" "mbxstate.more s' = mbxstate.more s"
    using link_msg_refines[OF inv(2) i q ok(2)] by blast
  have e: "tk_snd_mbx oid m s = Some (Ret E_OK, END_CRITICAL_SECTION s')"
    using tk_snd_mbx_ok[OF ok(1)] q l(1) by (simp add: i_def)
  show thesis
    by (rule that[OF e]) (use l inv in \<open>simp_all add: mbx_frame_rel_def frame_waits_def\<close>)
qed

text \<open>Receiving takes the first message; without one the caller waits.\<close>

definition rcv_mbx_ok :: "ID \<Rightarrow> TMO \<Rightarrow> 'a mbxstate_scheme \<Rightarrow> bool" where
  "rcv_mbx_ok oid tmout s \<longleftrightarrow> mbx_call_ok oid s \<and> TMO_FEVR \<le> tmout \<and> \<not> in_ddsp s"

lemma tk_rcv_mbx_error:
  assumes "\<not> rcv_mbx_ok oid tmout s"
  shows "\<exists>e<0. fst (tk_rcv_mbx oid p tmout s) = Ret e"
    "snd (tk_rcv_mbx oid p tmout s) = s \<or> snd (tk_rcv_mbx oid p tmout s) = END_CRITICAL_SECTION s"
  using assms
  by (auto simp: tk_rcv_mbx_def Let_def check_defs consts_defs rcv_mbx_ok_def mbx_call_ok_def)

definition mbx_wspec :: "MBXCB \<Rightarrow> WSPEC" where
  "mbx_wspec cb = (if mbxatr cb AND TA_TPRI \<noteq> 0 then knl_wspec_mbx_tpri else knl_wspec_mbx_tfifo)"

lemma wait_home_mbx [simp]: "wait_home (mbx_wspec cb) (ID_OBJ i) = Some (QMbx i)"
  by (simp add: mbx_wspec_def)

lemma tk_rcv_mbx_ok:
  assumes "rcv_mbx_ok oid tmout s" "ctxtsk s = Some c"
  shows "tk_rcv_mbx oid p tmout s =
    (case headmsg (INDEX_OBJ oid) s of
       Some m \<Rightarrow> (Ret E_OK, END_CRITICAL_SECTION (set_nextmsg (mq_head (INDEX_OBJ oid)) (nextmsg s (msg_at m))
                  (s\<lparr>umem := (umem s)(p := of_nat m)\<rparr>)))
     | None \<Rightarrow> (wait_ret tmout, END_CRITICAL_SECTION
         (knl_gcb_make_wait (WMbx (INDEX_OBJ oid)) (mbxid (mbxcb s (INDEX_OBJ oid)))
            (mbxatr (mbxcb s (INDEX_OBJ oid))) c tmout
            (prepare_wait c (mbx_wspec (mbxcb s (INDEX_OBJ oid))) (WINFO_MBX p) s))))"
proof -
  have "CHK_OBJID NUM_MBXID oid" "mbxid (mbxcb s (INDEX_OBJ oid)) \<noteq> 0" "tmout \<ge> TMO_FEVR" "\<not> in_ddsp s"
    using assms by (auto simp: rcv_mbx_ok_def mbx_call_ok_def)
  with assms(2) show ?thesis
    by (simp add: tk_rcv_mbx_def Let_def check_defs mbx_wspec_def split: option.split)
qed

lemma tk_rcv_mbx_takes:
  assumes inv: "core_inv s" "mbx_rep s msgs" and ok: "rcv_mbx_ok oid tmout s" "ctxtsk s = Some c"
  defines "i \<equiv> INDEX_OBJ oid"
  assumes q: "msgs i = m # ms"
  obtains s' where "tk_rcv_mbx oid p tmout s = (Ret E_OK, s')" "core_inv s'" "mbx_rep s' (msgs(i := ms))"
    "umem s' = (umem s)(p := of_nat m)" "tcb s' = tcb s" "que s' = que s" "mbx_frame_rel s s'"
    "ctxtsk s' = ctxtsk s"
proof -
  let ?s = "set_nextmsg (mq_head i) (nextmsg s (msg_at m)) (s\<lparr>umem := (umem s)(p := of_nat m)\<rparr>)"
  have i: "i < NUM_MBXID" "mbxid (mbxcb s i) \<noteq> 0"
    using ok INDEX_OBJ_less by (auto simp: rcv_mbx_ok_def mbx_call_ok_def i_def)
  have ch: "nextmsg s (mq_head i) = Some m" "chain (nextmsg s) (msg_at m) ms"
    using mbx_repD(3)[OF inv(2) i] q by auto
  have e: "tk_rcv_mbx oid p tmout s = (Ret E_OK, END_CRITICAL_SECTION ?s)"
    using tk_rcv_mbx_ok[OF ok] ch(1) by (simp add: i_def headmsg_def)
  have ok_i: "mbx_ok (mbxcb s i) (msgpri s) (m # ms) (que s (QMbx i))"
    using mbx_repD(2)[OF inv(2) i(1)] q by simp
  have "mbx_rep ?s (msgs(i := ms))"
  proof (rule mbx_rep_update[OF inv(2) i(1)])
    show "mbx_ok (mbxcb ?s i) (msgpri s) ms (que ?s (QMbx i))"
      using ok_i i(2) by (auto simp: mbx_ok_def split: if_splits)
    show "cb_table_inv NUM_MBXID (\<lambda>j. mbxid (mbxcb ?s j)) (free_mbxcb ?s)"
      using mbx_repD(1)[OF inv(2)] by simp
    have "chain (nextmsg ?s) (mq_head i) ms = chain (nextmsg s) (msg_at m) ms"
      by (rule chain_cong) simp_all
    with ch(2) show "chain (nextmsg ?s) (mq_head i) ms" by simp
    show "set ms \<inter> set (msgs j) = {}" if "j \<noteq> i" for j
      using mbx_repD(6)[OF inv(2), of i j] that q by auto
  qed (auto split: if_splits)
  then show thesis
    by (intro that[OF e]) (use inv in \<open>simp_all add: mbx_frame_rel_def frame_waits_def\<close>)
qed

lemma tk_rcv_mbx_waits:
  assumes inv: "core_inv s" "mbx_rep s msgs" and ok: "rcv_mbx_ok oid tmout s"
    and c: "ctxtsk s = Some c" "state (tcb s c) = TS_READY"
  defines "i \<equiv> INDEX_OBJ oid"
  assumes q: "msgs i = []"
  obtains s' where "tk_rcv_mbx oid p tmout s = (wait_ret tmout, s')" "core_inv s'" "mbx_rep s' msgs"
    "mbx_frame_rel s s'"
    "que s' (QMbx i) = (if tmout = TMO_POL then que s (QMbx i)
       else wait_enqueue (mbxatr (mbxcb s i)) (tcb s) c (que s (QMbx i)))"
    "winfo (tcb s' c) = WINFO_MBX p" "wercd (tcb s' c) = Some E_TMOUT"
proof -
  let ?a = "mbxatr (mbxcb s i)" and ?ws = "mbx_wspec (mbxcb s i)" and ?id = "mbxid (mbxcb s i)"
  let ?s = "knl_gcb_make_wait (WMbx i) ?id ?a c tmout (prepare_wait c ?ws (WINFO_MBX p) s)"
  have i: "i < NUM_MBXID" "mbxid (mbxcb s i) \<noteq> 0"
    using ok INDEX_OBJ_less by (auto simp: rcv_mbx_ok_def mbx_call_ok_def i_def)
  have id: "wait_home ?ws ?id = Some (QMbx i)" using mbx_repD(8)[OF inv(2) i] by simp
  have e: "tk_rcv_mbx oid p tmout s = (wait_ret tmout, END_CRITICAL_SECTION ?s)"
    using tk_rcv_mbx_ok[OF ok c(1)] mbx_repD(3)[OF inv(2) i] q by (simp add: i_def headmsg_def)
  note B = block_on[OF inv(1) c id, where objatr = ?a and wi = "WINFO_MBX p" and tmout = tmout]
  note f = mbxst_kframe[OF B(5)] and g = flgst_frame[OF semst_frame(3)[OF B(5)]] and h = semst_frame[OF B(5)]
  have fr: "frame_waits is_WMbx s ?s" by (rule frame_waits_block_on[OF inv(1) c id]) simp
  have qj: "que ?s (QMbx j) = que s (QMbx j)" if "j \<noteq> i" for j using B(4)[where w' = "WMbx j"] that by simp
  have "mbx_rep ?s (msgs(i := msgs i))"
  proof (rule mbx_rep_update[OF inv(2) i(1)])
    show "mbx_ok (mbxcb ?s i) (msgpri s) (msgs i) (que ?s (QMbx i))"
      using mbx_repD(2)[OF inv(2) i(1)] i(2) q by (auto simp: mbx_ok_def f)
    show "cb_table_inv NUM_MBXID (\<lambda>j. mbxid (mbxcb ?s j)) (free_mbxcb ?s)"
      using mbx_repD(1)[OF inv(2)] by (simp only: f)
    show "chain (nextmsg ?s) (mq_head i) (msgs i)" using mbx_repD(3)[OF inv(2) i] by (simp only: f)
  qed (simp_all add: f qj q)
  then show thesis
    by (intro that[OF e]) (use B(1,2,9) B(4)[where w' = "WMbx i"] fr f g h in \<open>simp_all add: mbx_frame_rel_def\<close>)
qed

section \<open>Creation and deletion\<close>

lemma cre_mbx_rep:
  assumes "core_inv s" "mbx_rep s msgs"
  shows "core_inv (snd (cre_mbx pk s)) \<and> mbx_rep (snd (cre_mbx pk s)) msgs \<and> mbx_frame_rel s (snd (cre_mbx pk s))"
proof (cases "free_mbxcb s")
  case Nil
  with assms show ?thesis by (simp add: cre_mbx_def)
next
  case (Cons i fs)
  have i: "i < NUM_MBXID" "mbxid (mbxcb s i) = 0"
    using mbx_repD(1)[OF assms(2)] Cons by (auto simp: cb_table_inv_def)
  then have q: "que s (QMbx i) = []" "msgs i = []" using mbx_repD(7)[OF assms(2)] by blast+
  then have qi: "que_init (QMbx i) (s\<lparr>free_mbxcb := fs\<rparr>) = s\<lparr>free_mbxcb := fs\<rparr>"
    by (intro que_init_empty) simp
  let ?s = "snd (cre_mbx pk s)"
  have e: "?s = set_nextmsg (mq_head i) None (upd_mbxcb i (\<lambda>cb. cb\<lparr>mbxid := ID_OBJ i, mbx_exinf := cmbx_exinf pk,
      mbxatr := cmbx_mbxatr pk\<rparr>) (s\<lparr>free_mbxcb := fs\<rparr>))"
    using Cons by (simp add: cre_mbx_def Let_def qi)
  have "mbx_rep ?s (msgs(i := msgs i))"
  proof (rule mbx_rep_update[OF assms(2) i(1)])
    show "cb_table_inv NUM_MBXID (\<lambda>j. mbxid (mbxcb ?s j)) (free_mbxcb ?s)"
      by (rule mbx_table.create_inv[OF mbx_repD(1)[OF assms(2)]])
    show "n = mq_head i \<or> n \<in> msg_at ` (set (msgs i) \<union> set (msgs i))" if "nextmsg ?s n \<noteq> nextmsg s n" for n
      using that by (auto simp: e split: if_splits)
  qed (simp_all add: e q mbx_ok_def)
  with assms(1) show ?thesis by (simp add: e mbx_frame_rel_def frame_waits_def)
qed

lemma tk_cre_mbx_rep:
  assumes "core_inv s" "mbx_rep s msgs"
  shows "core_inv (snd (tk_cre_mbx pk s)) \<and> mbx_rep (snd (tk_cre_mbx pk s)) msgs \<and>
    mbx_frame_rel s (snd (tk_cre_mbx pk s))"
  using cre_mbx_rep[OF assms, of pk] assms by (auto simp: tk_cre_mbx_def Let_def split: prod.splits)

lemma del_mbx_rep:
  assumes "core_inv s" "mbx_rep s msgs" "i < NUM_MBXID" "mbxid (mbxcb s i) \<noteq> 0"
  shows "core_inv (del_mbx i s) \<and> mbx_rep (del_mbx i s) (msgs(i := [])) \<and> mbx_frame_rel s (del_mbx i s)"
proof -
  let ?d = "knl_wait_delete (WMbx i) s" and ?s = "del_mbx i s"
  note W = wait_delete_result[OF assms(1), of "WMbx i"]
  have m: "kstate.more ?d = kstate.more s" by simp
  have e: "?s = upd_mbxcb i (mbxid_update (\<lambda>_. 0)) (?d\<lparr>free_mbxcb := free_mbxcb s @ [i]\<rparr>)"
    by (simp add: del_mbx_def Let_def)
  have "mbx_rep ?s (msgs(i := []))"
  proof (rule mbx_rep_update[OF assms(2,3)])
    show "cb_table_inv NUM_MBXID (\<lambda>j. mbxid (mbxcb ?s j)) (free_mbxcb ?s)"
      by (rule mbx_table.delete_inv[OF mbx_repD(1)[OF assms(2)] assms(3,4)])
  qed (use W in \<open>simp_all add: e mbx_ok_def\<close>)
  moreover have "mbx_frame_rel s ?s"
    using frame_waits_delete[OF assms(1), of is_WMbx "WMbx i"] semst_frame[OF m]
      flgst_frame[OF semst_frame(3)[OF m]] mbxst_kframe(5)[OF m]
    by (simp add: e mbx_frame_rel_def frame_waits_def)
  ultimately show ?thesis using W by (simp add: e)
qed

lemma tk_del_mbx_inv:
  assumes "core_inv s" "mbx_inv s"
  shows "core_inv (snd (tk_del_mbx oid s)) \<and> mbx_inv (snd (tk_del_mbx oid s)) \<and>
    mbx_frame_rel s (snd (tk_del_mbx oid s))"
proof -
  obtain msgs where r: "mbx_rep s msgs" using assms(2) by (auto simp: mbx_inv_def)
  show ?thesis
  proof (cases "mbx_call_ok oid s")
    case True
    then have i: "INDEX_OBJ oid < NUM_MBXID" "mbxid (mbxcb s (INDEX_OBJ oid)) \<noteq> 0"
      using INDEX_OBJ_less by (auto simp: mbx_call_ok_def)
    from del_mbx_rep[OF assms(1) r i] True show ?thesis
      by (auto simp: tk_del_mbx_def Let_def check_defs mbx_call_ok_def mbx_inv_def)
  next
    case False
    with assms r show ?thesis
      by (auto simp: tk_del_mbx_def Let_def check_defs mbx_call_ok_def mbx_inv_def consts_defs)
  qed
qed

lemma mbx_inv_END [simp]: "mbx_inv (END_CRITICAL_SECTION s) = mbx_inv s"
  by (simp add: mbx_inv_def)

lemma tk_rcv_mbx_inv:
  assumes "core_inv s" "mbx_inv s" "run_ok s"
  shows "core_inv (snd (tk_rcv_mbx oid p tmout s)) \<and> mbx_inv (snd (tk_rcv_mbx oid p tmout s)) \<and>
    mbx_frame_rel s (snd (tk_rcv_mbx oid p tmout s))"
proof (cases "rcv_mbx_ok oid tmout s")
  case False
  with tk_rcv_mbx_error(2)[OF False, of p] assms show ?thesis by auto
next
  case True
  obtain msgs where r: "mbx_rep s msgs" using assms(2) by (auto simp: mbx_inv_def)
  have "\<not> CHECK_DISPATCH s < E_OK" using True by (simp add: rcv_mbx_ok_def CHECK_DISPATCH_def)
  then obtain c where c: "ctxtsk s = Some c" "state (tcb s c) = TS_READY"
    using CHECK_DISPATCH_OK assms(3) by blast
  show ?thesis
  proof (cases "msgs (INDEX_OBJ oid)")
    case Nil
    from tk_rcv_mbx_waits[OF assms(1) r True c Nil, of p] show ?thesis
      by (metis mbx_inv_def snd_conv)
  next
    case (Cons m ms)
    from tk_rcv_mbx_takes[OF assms(1) r True c(1) Cons, of p] show ?thesis
      by (metis mbx_inv_def snd_conv)
  qed
qed

text \<open>The queue of a mailbox is determined by the state.\<close>

lemma mbx_rep_unique: "mbx_rep s msgs \<Longrightarrow> mbx_rep s msgs' \<Longrightarrow> msgs = msgs'"
proof (rule ext)
  fix i assume r: "mbx_rep s msgs" "mbx_rep s msgs'"
  show "msgs i = msgs' i"
  proof (cases "i < NUM_MBXID \<and> mbxid (mbxcb s i) \<noteq> 0")
    case True
    then show ?thesis using mbx_repD(3)[OF r(1)] mbx_repD(3)[OF r(2)] chain_unique by blast
  next
    case False
    then show ?thesis
      using mbx_repD(5,7)[OF r(1), of i] mbx_repD(5,7)[OF r(2), of i] by (cases "i < NUM_MBXID") auto
  qed
qed

lemma tk_snd_mbx_inv:
  assumes "core_inv s" "mbx_rep s msgs" "msg_fresh m msgs"
  obtains r s' where "tk_snd_mbx oid m s = Some (r, s')" "core_inv s'" "mbx_inv s'" "mbx_frame_rel s s'"
proof (cases "snd_mbx_ok oid m s")
  case False
  then obtain e s' where "tk_snd_mbx oid m s = Some (Ret e, s')" "s' = s \<or> s' = END_CRITICAL_SECTION s"
    using tk_snd_mbx_error by metis
  then show thesis using that assms by (metis core_inv_END mbx_inv_END mbx_inv_def mbx_frame_rel_simps)
next
  case True
  show thesis
  proof (cases "que s (QMbx (INDEX_OBJ oid))")
    case Nil
    from tk_snd_mbx_queues[OF assms(1,2) True assms(3) Nil] that show thesis
      by (metis mbx_inv_def)
  next
    case (Cons t ts)
    from tk_snd_mbx_delivers[OF assms(1,2) True Cons] that show thesis by (metis mbx_inv_def)
  qed
qed

lemma mbx_inv_sem_flg_frame:
  "mbx_inv s \<Longrightarrow> sem_frame_rel s s' \<Longrightarrow> mbx_inv s'"
  "mbx_inv s \<Longrightarrow> flg_frame_rel s s' \<Longrightarrow> mbx_inv s'"
proof -
  have q: "frame_waits is_WSem s s' \<Longrightarrow> que s' (QMbx i) = que s (QMbx i)"
    "frame_waits is_WFlg s s' \<Longrightarrow> que s' (QMbx i) = que s (QMbx i)" for i
    by (simp_all add: frame_waitsD(1))
  show "mbx_inv s \<Longrightarrow> sem_frame_rel s s' \<Longrightarrow> mbx_inv s'"
    using mbxst_frame[OF flgst_frame(3), of s' s] q
    by (auto simp: mbx_inv_def sem_frame_rel_def intro!: mbx_rep_frame)
  show "mbx_inv s \<Longrightarrow> flg_frame_rel s s' \<Longrightarrow> mbx_inv s'"
    using mbxst_frame[of s' s] q
    by (auto simp: mbx_inv_def flg_frame_rel_def intro!: mbx_rep_frame)
qed

end
