(* ===== verification/Tstdlib.thy ===== *)
theory Tstdlib
  imports Prelude
begin

text \<open>
  The kernel's standard library of \<^verbatim>\<open>kernel/tstdlib/string.c\<close> and \<^verbatim>\<open>bitop.c\<close> over
  a byte memory. The loops that run to a terminating byte or to a set bit need not end on every
  memory, so they are partial functions: \<open>None\<close> is a loop that does not return.
\<close>

section \<open>Byte memory\<close>

type_synonym mem = "addr \<Rightarrow> 8 word"

definition byte_of :: "nat \<Rightarrow> 32 word \<Rightarrow> 8 word" where
  "byte_of k v = ucast (drop_bit (8 * k) v)"

definition store_w32 :: "addr \<Rightarrow> 32 word \<Rightarrow> mem \<Rightarrow> mem" where
  "store_w32 a v m =
     m(a := byte_of 0 v, a + 1 := byte_of 1 v, a + 2 := byte_of 2 v, a + 3 := byte_of 3 v)"

definition load_w32 :: "addr \<Rightarrow> mem \<Rightarrow> 32 word" where
  "load_w32 a m =
     ucast (m a) OR push_bit 8 (ucast (m (a + 1))) OR push_bit 16 (ucast (m (a + 2)))
       OR push_bit 24 (ucast (m (a + 3)))"

section \<open>memset and memcpy\<close>

fun set_bytes :: "addr \<Rightarrow> 8 word \<Rightarrow> nat \<Rightarrow> mem \<Rightarrow> mem" where
  "set_bytes cp cval 0 m = m"
| "set_bytes cp cval (Suc n) m = set_bytes (cp + 1) cval n (m(cp := cval))"

text \<open>The loop up to the next word boundary; it also counts \<^verbatim>\<open>n\<close> down.\<close>

function set_align :: "addr \<Rightarrow> 8 word \<Rightarrow> int \<Rightarrow> mem \<Rightarrow> addr \<times> int \<times> mem" where
  "set_align cp cval n m =
     (if cp mod 4 \<noteq> 0 then set_align (cp + 1) cval (n - 1) (m(cp := cval)) else (cp, n, m))"
  by pat_completeness auto
termination
  by (relation "measure (\<lambda>(cp, cval, n, m). (3 * cp) mod 4)") (simp_all, presburger)

declare set_align.simps [simp del]

function set_words :: "addr \<Rightarrow> 32 word \<Rightarrow> int \<Rightarrow> mem \<Rightarrow> addr \<times> int \<times> mem" where
  "set_words lp lval n m =
     (if n \<ge> 4 then set_words (lp + 4) lval (n - 4) (store_w32 lp lval m) else (lp, n, m))"
  by pat_completeness auto
termination
  by (relation "measure (\<lambda>(lp, lval, n, m). nat n)") auto

declare set_words.simps [simp del]

definition knl_memset :: "addr \<Rightarrow> int \<Rightarrow> int \<Rightarrow> mem \<Rightarrow> mem" where
  "knl_memset s c n m =
     (let cval = (word_of_int c :: 8 word)
      in if n < 8 then set_bytes s cval (nat n) m
         else
           let (cp, n1, m1) = set_align s cval n m;
               lval = (ucast cval :: 32 word) OR push_bit 8 (ucast cval) OR push_bit 16 (ucast cval)
                        OR push_bit 24 (ucast cval);
               (lp, n2, m2) = set_words cp lval n1 m1
           in set_bytes lp cval (nat n2) m2)"

fun copy_bytes :: "addr \<Rightarrow> addr \<Rightarrow> nat \<Rightarrow> mem \<Rightarrow> mem" where
  "copy_bytes cdst csrc 0 m = m"
| "copy_bytes cdst csrc (Suc n) m = copy_bytes (cdst + 1) (csrc + 1) n (m(cdst := m csrc))"

definition knl_memcpy :: "addr \<Rightarrow> addr \<Rightarrow> int \<Rightarrow> mem \<Rightarrow> mem" where
  "knl_memcpy dst src n m = copy_bytes dst src (nat n) m"

section \<open>Strings\<close>

partial_function (option) strlen_loop :: "mem \<Rightarrow> addr \<Rightarrow> addr option" where
  "strlen_loop m cp = (if m cp \<noteq> 0 then strlen_loop m (cp + 1) else Some cp)"

definition knl_strlen :: "addr \<Rightarrow> mem \<Rightarrow> nat option" where
  "knl_strlen s m = map_option (\<lambda>cp. cp - s) (strlen_loop m s)"

partial_function (option) knl_strcpy :: "addr \<Rightarrow> addr \<Rightarrow> mem \<Rightarrow> mem option" where
  "knl_strcpy cp src m =
     (let m1 = m(cp := m src) in if m1 src \<noteq> 0 then knl_strcpy (cp + 1) (src + 1) m1 else Some m1)"

text \<open>
  \<^verbatim>\<open>knl_strncpy\<close>: at most \<open>n\<close> bytes, the rest of the field filled with zeros.
\<close>

fun knl_strncpy :: "addr \<Rightarrow> addr \<Rightarrow> nat \<Rightarrow> mem \<Rightarrow> mem" where
  "knl_strncpy cp src 0 m = m"
| "knl_strncpy cp src (Suc n) m =
     (let m1 = m(cp := m src)
      in if m1 src \<noteq> 0 then knl_strncpy (cp + 1) (src + 1) n m1 else set_bytes (cp + 1) 0 n m1)"

partial_function (option) knl_strcmp :: "mem \<Rightarrow> addr \<Rightarrow> addr \<Rightarrow> int option" where
  "knl_strcmp m s1 s2 =
     (if m s1 \<noteq> 0 then
        let result = uint (m s1) - uint (m s2)
        in if result \<noteq> 0 then Some result else knl_strcmp m (s1 + 1) (s2 + 1)
      else Some (uint (m s1) - uint (m s2)))"

partial_function (option) strcat_copy :: "addr \<Rightarrow> addr \<Rightarrow> mem \<Rightarrow> mem option" where
  "strcat_copy cp src m =
     (if m src \<noteq> 0 then strcat_copy (cp + 1) (src + 1) (m(cp := m src)) else Some (m(cp := 0)))"

definition knl_strcat :: "addr \<Rightarrow> addr \<Rightarrow> mem \<Rightarrow> mem option" where
  "knl_strcat dst src m = Option.bind (strlen_loop m dst) (\<lambda>cp. strcat_copy cp src m)"

section \<open>Bit operations\<close>

definition BIT_SET_N :: "int \<Rightarrow> 8 word" where
  "BIT_SET_N n = push_bit (nat (n mod 8)) 1"

definition knl_bitclr :: "addr \<Rightarrow> int \<Rightarrow> mem \<Rightarrow> mem" where
  "knl_bitclr base offset m =
     (if offset < 0 then m
      else let cp = base + nat (offset div 8) in m(cp := m cp AND NOT (BIT_SET_N offset)))"

definition knl_bitset :: "addr \<Rightarrow> int \<Rightarrow> mem \<Rightarrow> mem" where
  "knl_bitset base offset m =
     (if offset < 0 then m
      else let cp = base + nat (offset div 8) in m(cp := m cp OR BIT_SET_N offset))"

text \<open>
  The inner \<^verbatim>\<open>while (1)\<close> of \<^verbatim>\<open>knl_bitsearch1\<close> in one byte. The function is compiled only with
  \<^verbatim>\<open>USE_FUNC_TSTDLIB_BITSEARCH1\<close>. The position is an unbounded number here, in the code a 32-bit one that an inner
  loop without end would carry past its maximum.
\<close>

partial_function (option) bitsearch1_byte :: "8 word \<Rightarrow> 8 word \<Rightarrow> int \<Rightarrow> int \<Rightarrow> int option" where
  "bitsearch1_byte b msk position width =
     (if b AND msk \<noteq> 0 then (if position < width then Some position else Some (-1))
      else bitsearch1_byte b (push_bit 1 msk) (position + 1) width)"

partial_function (option) bitsearch1_loop ::
    "mem \<Rightarrow> int \<Rightarrow> int \<Rightarrow> addr \<Rightarrow> 8 word \<Rightarrow> int \<Rightarrow> int option" where
  "bitsearch1_loop m offset width cp msk position =
     (if position < width then
        if m cp \<noteq> 0 then bitsearch1_byte (m cp) msk position width
        else if position \<noteq> 0 then bitsearch1_loop m offset width (cp + 1) msk (position + 8)
        else bitsearch1_loop m offset width (cp + 1) (BIT_SET_N 0) (8 - offset mod 8)
      else Some (-1))"

definition knl_bitsearch1 :: "addr \<Rightarrow> int \<Rightarrow> int \<Rightarrow> mem \<Rightarrow> int option" where
  "knl_bitsearch1 base offset width m =
     (if offset < 0 \<or> width < 0 then Some (-1)
      else bitsearch1_loop m offset width (base + nat (offset div 8)) (BIT_SET_N offset) 0)"

section \<open>Words in memory\<close>

lemma load_store_w32: "load_w32 a (store_w32 a v m) = v"
proof (rule bit_word_eqI)
  fix n assume "n < LENGTH(32)"
  then consider "n < 8" | "8 \<le> n" "n < 16" | "16 \<le> n" "n < 24" | "24 \<le> n" "n < 32" by fastforce
  then show "bit (load_w32 a (store_w32 a v m)) n = bit v n"
    by cases (auto simp: load_w32_def store_w32_def byte_of_def bit_simps)
qed

lemma store_w32_other: "x < a \<or> a + 4 \<le> x \<Longrightarrow> store_w32 a v m x = m x"
  by (auto simp: store_w32_def)

lemma load_w32_cong:
  assumes "\<And>k. k < 4 \<Longrightarrow> m (a + k) = m' (a + k)"
  shows "load_w32 a m = load_w32 a m'"
  using assms[of 0] assms[of 1] assms[of 2] assms[of 3] by (simp add: load_w32_def)

section \<open>memset equals its specification\<close>

definition filled :: "addr \<Rightarrow> int \<Rightarrow> 8 word \<Rightarrow> mem \<Rightarrow> mem" where
  "filled s n c m = (\<lambda>a. if s \<le> a \<and> int a < int s + n then c else m a)"

lemma filled_none [simp]: "filled s 0 c m = m"
  by (auto simp: filled_def fun_eq_iff)

lemma filled_step: "1 \<le> k \<Longrightarrow> filled (s + 1) (k - 1) c (m(s := c)) = filled s k c m"
  by (auto simp: filled_def fun_eq_iff)

lemma set_bytes_filled: "set_bytes s c n m = filled s (int n) c m"
  by (induction n arbitrary: s m) (auto simp: filled_def fun_eq_iff)

lemma set_align_result:
  assumes "set_align cp c n m = (cp', n', m')" "3 \<le> n"
  shows "cp' mod 4 = 0 \<and> cp \<le> cp' \<and> int cp' - int cp = n - n' \<and> 0 \<le> n' \<and>
    m' = filled cp (int cp' - int cp) c m \<and> cp' - cp \<le> 3"
proof -
  have "set_align cp c n m = (cp', n', m') \<Longrightarrow> cp' mod 4 = 0 \<and> cp \<le> cp' \<and> int cp' - int cp = n - n' \<and>
      m' = filled cp (int cp' - int cp) c m \<and> cp' - cp \<le> (if cp mod 4 = 0 then 0 else 4 - cp mod 4)"
  proof (induction cp c n m rule: set_align.induct)
    case (1 cp c n m)
    show ?case
    proof (cases "cp mod 4 = 0")
      case True
      with 1 show ?thesis by (auto simp: set_align.simps[of cp])
    next
      case False
      with 1 have s: "set_align (cp + 1) c (n - 1) (m(cp := c)) = (cp', n', m')"
        by (simp add: set_align.simps[of cp])
      from 1(1)[OF False s] have r: "cp' mod 4 = 0" "cp + 1 \<le> cp'" "int cp' - int (cp + 1) = n - 1 - n'"
        "m' = filled (cp + 1) (int cp' - int (cp + 1)) c (m(cp := c))"
        "cp' - (cp + 1) \<le> (if (cp + 1) mod 4 = 0 then 0 else 4 - (cp + 1) mod 4)" by blast+
      have z: "int cp' - int (cp + 1) = int cp' - int cp - 1" by simp
      have "m' = filled cp (int cp' - int cp) c m"
        unfolding r(4) z by (rule filled_step) (use r(2) in simp)
      moreover have "cp' - cp \<le> (if cp mod 4 = 0 then 0 else 4 - cp mod 4)"
        using r(2,5) False by (auto simp: mod_Suc split: if_splits)
      ultimately show ?thesis using r(1-3) by simp
    qed
  qed
  from this[OF assms(1)] have r: "cp' mod 4 = 0" "cp \<le> cp'" "int cp' - int cp = n - n'"
    "m' = filled cp (int cp' - int cp) c m" "cp' - cp \<le> (if cp mod 4 = 0 then 0 else 4 - cp mod 4)"
    by blast+
  then have "cp' - cp \<le> 3" by (auto split: if_splits)
  with r assms(2) show ?thesis by auto
qed

definition repeat_byte :: "8 word \<Rightarrow> 32 word" where
  "repeat_byte c = (ucast c :: 32 word) OR push_bit 8 (ucast c) OR push_bit 16 (ucast c) OR push_bit 24 (ucast c)"

lemma byte_of_repeat:
  "byte_of 0 (repeat_byte c) = c" "byte_of (Suc 0) (repeat_byte c) = c"
  "byte_of 2 (repeat_byte c) = c" "byte_of 3 (repeat_byte c) = c"
  by (rule bit_word_eqI; auto simp: byte_of_def repeat_byte_def bit_simps dest: bit_imp_le_length)+

lemma store_repeat: "store_w32 lp (repeat_byte c) m = filled lp 4 c m"
proof
  fix a
  consider "a = lp" | "a = lp + 1" | "a = lp + 2" | "a = lp + 3" | "a < lp \<or> lp + 4 \<le> a" by linarith
  then show "store_w32 lp (repeat_byte c) m a = filled lp 4 c m a"
    by cases (auto simp: store_w32_def byte_of_repeat filled_def)
qed

lemma filled_filled: "0 \<le> k \<Longrightarrow> 0 \<le> l \<Longrightarrow> filled (s + nat k) l c (filled s k c m) = filled s (k + l) c m"
  by (auto simp: filled_def fun_eq_iff)

lemma set_words_result:
  "set_words lp (repeat_byte c) n m = (lp', n', m') \<Longrightarrow> 0 \<le> n \<Longrightarrow>
     lp \<le> lp' \<and> int lp' - int lp = n - n' \<and> 0 \<le> n' \<and> m' = filled lp (int lp' - int lp) c m"
proof (induction lp "repeat_byte c" n m rule: set_words.induct)
  case (1 lp n m)
  show ?case
  proof (cases "n \<ge> 4")
    case False
    with 1 show ?thesis by (auto simp: set_words.simps[of lp])
  next
    case True
    with 1 have s: "set_words (lp + 4) (repeat_byte c) (n - 4) (filled lp 4 c m) = (lp', n', m')"
      by (simp add: set_words.simps[of lp] store_repeat)
    from 1(1)[OF True] s 1(3) True have r: "lp + 4 \<le> lp'" "int lp' - int (lp + 4) = n - 4 - n'" "0 \<le> n'"
      "m' = filled (lp + 4) (int lp' - int (lp + 4)) c (filled lp 4 c m)"
      by (auto simp: store_repeat)
    moreover have "filled (lp + 4) (int lp' - int (lp + 4)) c (filled lp 4 c m) = filled lp (int lp' - int lp) c m"
      using filled_filled[of 4 "int lp' - int (lp + 4)" lp c m] r(1) by simp
    ultimately show ?thesis by auto
  qed
qed

lemma knl_memset_filled: "knl_memset s c n m = filled s n (word_of_int c) m"
proof (cases "n < 8")
  case True
  then show ?thesis
    by (simp add: knl_memset_def set_bytes_filled) (auto simp: filled_def fun_eq_iff)
next
  case False
  let ?c = "word_of_int c :: 8 word"
  obtain cp n1 m1 where a: "set_align s ?c n m = (cp, n1, m1)" by (metis prod_cases3)
  obtain lp n2 m2 where w: "set_words cp (repeat_byte ?c) n1 m1 = (lp, n2, m2)" by (metis prod_cases3)
  from set_align_result[OF a] False
  have A: "s \<le> cp" "int cp - int s = n - n1" "0 \<le> n1" "m1 = filled s (int cp - int s) ?c m" by auto
  from set_words_result[OF w A(3)]
  have W: "cp \<le> lp" "int lp - int cp = n1 - n2" "0 \<le> n2" "m2 = filled cp (int lp - int cp) ?c m1" by auto
  have "knl_memset s c n m = filled lp n2 ?c m2"
    using False a w by (simp add: knl_memset_def Let_def repeat_byte_def set_bytes_filled)
      (use W(3) in simp)
  also have "\<dots> = filled s n ?c m"
    using A W by (auto simp: filled_def fun_eq_iff)
  finally show ?thesis .
qed

section \<open>memcpy and strings\<close>

lemma copy_bytes_disjoint:
  assumes "dst + n \<le> src \<or> src + n \<le> dst"
  shows "copy_bytes dst src n m = (\<lambda>a. if dst \<le> a \<and> a < dst + n then m (src + (a - dst)) else m a)"
  using assms
proof (induction n arbitrary: dst src m)
  case (Suc n)
  have "copy_bytes (dst + 1) (src + 1) n (m(dst := m src)) =
      (\<lambda>a. if dst + 1 \<le> a \<and> a < dst + 1 + n then (m(dst := m src)) (src + 1 + (a - (dst + 1)))
           else (m(dst := m src)) a)"
    by (rule Suc.IH) (use Suc.prems in auto)
  with Suc.prems show ?case by (auto simp: fun_eq_iff intro!: arg_cong[where f = m])
qed (auto simp: fun_eq_iff)

lemma knl_memcpy_disjoint:
  assumes "0 \<le> n" "dst + nat n \<le> src \<or> src + nat n \<le> dst"
  shows "knl_memcpy dst src n m a = (if dst \<le> a \<and> a < dst + nat n then m (src + (a - dst)) else m a)"
  using copy_bytes_disjoint[OF assms(2)] by (simp add: knl_memcpy_def)

definition str_at :: "mem \<Rightarrow> addr \<Rightarrow> 8 word list \<Rightarrow> bool" where
  "str_at m s cs \<longleftrightarrow> (\<forall>k < length cs. m (s + k) = cs ! k \<and> cs ! k \<noteq> 0) \<and> m (s + length cs) = 0"

lemma str_at_simps:
  "str_at m s [] \<longleftrightarrow> m s = 0"
  "str_at m s (c # cs) \<longleftrightarrow> m s = c \<and> c \<noteq> 0 \<and> str_at m (s + 1) cs"
  by (auto simp: str_at_def nth_Cons less_Suc_eq_0_disj split: nat.splits)

lemma strlen_loop_str: "str_at m s cs \<Longrightarrow> strlen_loop m s = Some (s + length cs)"
  by (induction cs arbitrary: s) (simp_all add: str_at_simps strlen_loop.simps[of m])

lemma knl_strlen_str: "str_at m s cs \<Longrightarrow> knl_strlen s m = Some (length cs)"
  by (simp add: knl_strlen_def strlen_loop_str)

lemma knl_strcmp_str:
  assumes "str_at m s cs" "str_at m t ds"
  shows "\<exists>r. knl_strcmp m s t = Some r \<and> (r = 0 \<longleftrightarrow> cs = ds)"
  using assms
proof (induction cs arbitrary: s t ds)
  case Nil
  then show ?case by (cases ds) (auto simp: str_at_simps knl_strcmp.simps[of m s] word_uint_eq_iff)
next
  case (Cons c cs)
  show ?case
  proof (cases ds)
    case Nil
    with Cons.prems show ?thesis
      by (auto simp: str_at_simps knl_strcmp.simps[of m s] word_uint_eq_iff)
  next
    case ds: (Cons d ds')
    then have st: "m s = c" "c \<noteq> 0" "m t = d" "d \<noteq> 0" "str_at m (s + 1) cs" "str_at m (t + 1) ds'"
      using Cons.prems by (auto simp: str_at_simps)
    show ?thesis
    proof (cases "c = d")
      case True
      with st have "knl_strcmp m s t = knl_strcmp m (s + 1) (t + 1)" by (simp add: knl_strcmp.simps[of m s])
      with Cons.IH[OF st(5,6)] ds True show ?thesis by simp
    next
      case False
      with st ds show ?thesis by (simp add: knl_strcmp.simps[of m s] Let_def word_uint_eq_iff)
    qed
  qed
qed

text \<open>A bounded copy never writes outside its field, and fills the field exactly.\<close>

lemma knl_strncpy_outside: "a < d \<or> d + n \<le> a \<Longrightarrow> knl_strncpy d s n m a = m a"
proof (induction n arbitrary: d s m)
  case (Suc n)
  have "knl_strncpy (d + 1) (s + 1) n (m(d := m s)) a = (m(d := m s)) a"
    by (rule Suc.IH) (use Suc.prems in auto)
  moreover have "set_bytes (d + 1) 0 n (m(d := m s)) a = (m(d := m s)) a"
    using Suc.prems by (auto simp: set_bytes_filled filled_def)
  moreover have "a \<noteq> d" using Suc.prems by auto
  ultimately show ?case by (cases "m s = 0") (simp_all add: Let_def)
qed simp

lemma knl_strncpy_content:
  assumes "str_at m s cs" "d + n \<le> s \<or> s + length cs < d" "k < n"
  shows "knl_strncpy d s n m (d + k) = (if k < length cs then cs ! k else 0)"
  using assms
proof (induction n arbitrary: d s m cs k)
  case (Suc n)
  show ?case
  proof (cases cs)
    case Nil
    with Suc.prems have "m s = 0" by (simp add: str_at_simps)
    with Suc.prems Nil show ?thesis
      by (auto simp: Let_def set_bytes_filled filled_def)
  next
    case (Cons c cs')
    let ?m = "m(d := m s)"
    have st: "m s = c" "c \<noteq> 0" "str_at m (s + 1) cs'" using Suc.prems Cons by (auto simp: str_at_simps)
    have "str_at ?m (s + 1) cs'" using st(3) Suc.prems(2) Cons by (auto simp: str_at_def)
    then have IH: "j < n \<Longrightarrow> knl_strncpy (d + 1) (s + 1) n ?m (d + 1 + j) = (if j < length cs' then cs' ! j else 0)" for j
      by (rule Suc.IH) (use Suc.prems Cons in auto)
    have e: "knl_strncpy d s (Suc n) m = knl_strncpy (d + 1) (s + 1) n ?m"
      using st Suc.prems(2) by (auto simp: Let_def)
    show ?thesis
    proof (cases k)
      case 0
      with st Cons show ?thesis unfolding e by (simp add: knl_strncpy_outside)
    next
      case (Suc j)
      with IH[of j] Suc.prems Cons show ?thesis unfolding e by simp
    qed
  qed
qed simp

section \<open>Bit strings\<close>

text \<open>
  Once the mask has been shifted out, the inner loop of the search finds nothing and never ends.
\<close>

lemma bitsearch1_byte_hangs: "bitsearch1_byte b 0 position width = None"
proof (cases "bitsearch1_byte b 0 position width")
  case (Some r)
  have "(0 :: 8 word) \<noteq> 0"
    by (rule bitsearch1_byte.raw_induct[where P = "\<lambda>b mk p w r. mk \<noteq> 0", OF _ Some])
      (fastforce split: if_splits)
  then show ?thesis by simp
qed

lemma bitsearch1_byte_below:
  assumes "\<And>j. k \<le> j \<Longrightarrow> j < 8 \<Longrightarrow> \<not> bit b j" "k \<le> 8"
  shows "bitsearch1_byte b (2 ^ k) position width = None"
  using assms
proof (induction "8 - k" arbitrary: k position)
  case 0
  then have "(2 :: 8 word) ^ k = 0" by simp
  then show ?case by (simp only: bitsearch1_byte_hangs)
next
  case (Suc d)
  then have k: "k < 8" by simp
  have "b AND 2 ^ k = 0"
    using Suc.prems(1)[of k] k by (intro bit_word_eqI) (auto simp: bit_simps)
  then have "bitsearch1_byte b (2 ^ k) position width = bitsearch1_byte b (2 ^ Suc k) (position + 1) width"
    by (subst bitsearch1_byte.simps) (simp add: push_bit_eq_mult mult.commute)
  also have "\<dots> = None" by (rule Suc.hyps(1)) (use Suc.hyps(2) Suc.prems k in auto)
  finally show ?case .
qed

end
