(* ===== verification/Mbf_Ring.thy ===== *)
theory Mbf_Ring
  imports Tstdlib
begin

text \<open>
  The ring of messages inside a message buffer (\<^verbatim>\<open>knl_msg_to_mbf\<close>, \<^verbatim>\<open>knl_mbf_to_msg\<close>,
  \<^verbatim>\<open>knl_mbf_free\<close>, \<^verbatim>\<open>knl_mbf_empty\<close> of \<^verbatim>\<open>kernel/tkernel/messagebuf.c\<close> and
  \<^verbatim>\<open>messagebuf.h\<close>): messages of any length, each behind a header with its size, rounded up to
  whole headers and wrapping around the end of the buffer. Storing and fetching are shown to refine
  the queue of messages; what is stored comes out unchanged and in order.
\<close>

section \<open>Control block and operations\<close>

record MBFCB =
  mbfid :: ID
  mbf_exinf :: addr
  mbfatr :: ATR
  bufsz :: int
  maxmsz :: int
  frbufsz :: int
  mbf_head :: int
  mbf_tail :: int
  buffer :: addr

definition HEADERSZ :: int where
  "HEADERSZ = 4"

definition ROUNDSZ :: "int \<Rightarrow> UW" where
  "ROUNDSZ sz = (word_of_int sz + 3) AND NOT 3"

definition knl_mbf_free :: "MBFCB \<Rightarrow> int \<Rightarrow> bool" where
  "knl_mbf_free cb msgsz \<longleftrightarrow> (word_of_int HEADERSZ + word_of_int msgsz :: UW) \<le> word_of_int (frbufsz cb)"

definition knl_mbf_empty :: "MBFCB \<Rightarrow> bool" where
  "knl_mbf_empty cb \<longleftrightarrow> frbufsz cb = bufsz cb"

definition knl_msg_to_mbf :: "MBFCB \<Rightarrow> addr \<Rightarrow> int \<Rightarrow> mem \<Rightarrow> MBFCB \<times> mem" where
  "knl_msg_to_mbf cb msg msgsz m =
     (let t0 = mbf_tail cb; buf = buffer cb;
          cb1 = cb\<lparr>frbufsz := frbufsz cb - sint (word_of_int HEADERSZ + ROUNDSZ msgsz)\<rparr>;
          m1 = store_w32 (buf + nat t0) (word_of_int msgsz) m;
          t1 = t0 + HEADERSZ;
          t2 = (if t1 \<ge> bufsz cb then 0 else t1);
          remsz = bufsz cb - t2;
          (m2, msg2, msgsz2, t3) =
            (if remsz < msgsz
             then (knl_memcpy (buf + nat t2) msg remsz m1, msg + nat remsz, msgsz - remsz, 0)
             else (m1, msg, msgsz, t2));
          m3 = knl_memcpy (buf + nat t3) msg2 msgsz2 m2;
          t4 = t3 + sint (ROUNDSZ msgsz2);
          t5 = (if t4 \<ge> bufsz cb then 0 else t4)
      in (cb1\<lparr>mbf_tail := t5\<rparr>, m3))"

definition knl_mbf_to_msg :: "MBFCB \<Rightarrow> addr \<Rightarrow> mem \<Rightarrow> int \<times> MBFCB \<times> mem" where
  "knl_mbf_to_msg cb msg m =
     (let h0 = mbf_head cb; buf = buffer cb;
          actsz = sint (load_w32 (buf + nat h0) m);
          cb1 = cb\<lparr>frbufsz := frbufsz cb + sint (word_of_int HEADERSZ + ROUNDSZ actsz)\<rparr>;
          h1 = h0 + HEADERSZ;
          h2 = (if h1 \<ge> bufsz cb then 0 else h1);
          remsz = bufsz cb - h2;
          (m2, msg2, msgsz2, h3) =
            (if remsz < actsz
             then (knl_memcpy msg (buf + nat h2) remsz m, msg + nat remsz, actsz - remsz, 0)
             else (m, msg, actsz, h2));
          m3 = knl_memcpy msg2 (buf + nat h3) msgsz2 m2;
          h4 = h3 + sint (ROUNDSZ msgsz2);
          h5 = (if h4 \<ge> bufsz cb then 0 else h4)
      in (actsz, cb1\<lparr>mbf_head := h5\<rparr>, m3))"

section \<open>Sizes\<close>

definition rnd :: "nat \<Rightarrow> nat" where
  "rnd n = (n + 3) div 4 * 4"

lemma rnd_bounds: "n \<le> rnd n" "rnd n \<le> n + 3" "4 dvd rnd n"
  by (simp_all add: rnd_def)

lemma and_not_3: "uint (w AND NOT 3 :: 32 word) = uint w div 4 * 4"
  using and_not_mask_div[of w 2] by (simp add: mask_eq_exp_minus_1)

lemma uint_ROUNDSZ: "0 \<le> n \<Longrightarrow> n \<le> 0x7FFFFFFC \<Longrightarrow> uint (ROUNDSZ n) = (n + 3) div 4 * 4"
  unfolding ROUNDSZ_def and_not_3 by (simp add: uint_word_ariths uint_word_of_int)

lemma sint_ROUNDSZ: "n \<le> 0x7FFFFFFC \<Longrightarrow> sint (ROUNDSZ (int n)) = int (rnd n)"
  by (subst sint_below) (auto simp: uint_ROUNDSZ rnd_def)

section \<open>The ring as a queue of messages\<close>

text \<open>Byte \<open>p\<close> of the ring, positions counted without wrapping.\<close>

definition ring_byte :: "mem \<Rightarrow> addr \<Rightarrow> nat \<Rightarrow> nat \<Rightarrow> 8 word" where
  "ring_byte m b B p = m (b + p mod B)"

definition slot :: "8 word list \<Rightarrow> nat" where
  "slot x = 4 + rnd (length x)"

definition mbf_used :: "8 word list list \<Rightarrow> nat" where
  "mbf_used xs = (\<Sum>x\<leftarrow>xs. slot x)"

fun mbf_at :: "mem \<Rightarrow> addr \<Rightarrow> nat \<Rightarrow> nat \<Rightarrow> 8 word list list \<Rightarrow> bool" where
  "mbf_at m b B h [] \<longleftrightarrow> True"
| "mbf_at m b B h (x # xs) \<longleftrightarrow>
     load_w32 (b + h mod B) m = word_of_nat (length x) \<and>
     (\<forall>k < length x. ring_byte m b B (h + 4 + k) = x ! k) \<and>
     mbf_at m b B (h + slot x) xs"

lemma slot_dvd [simp]: "4 dvd slot x"
  by (simp add: slot_def rnd_def)

lemma used_simps [simp]:
  "mbf_used [] = 0" "mbf_used (x # xs) = slot x + mbf_used xs"
  "mbf_used (xs @ ys) = mbf_used xs + mbf_used ys"
  by (simp_all add: mbf_used_def)

lemma used_dvd [simp]: "4 dvd mbf_used xs"
  by (induction xs) auto

lemma used_pos: "xs \<noteq> [] \<Longrightarrow> 0 < mbf_used xs"
  by (cases xs) (auto simp: slot_def)

lemma mod_no_wrap:
  fixes p B k :: nat
  assumes "4 dvd p" "4 dvd B" "0 < B" "k < 4"
  shows "(p + k) mod B = p mod B + k"
proof -
  have "4 dvd p mod B" using assms by (simp add: dvd_mod)
  then obtain q where q: "p mod B = 4 * q" by (auto elim: dvdE)
  obtain c where c: "B = 4 * c" using assms by (auto elim: dvdE)
  have "4 * q < 4 * c" using q c assms mod_less_divisor[of B p] by simp
  then have "p mod B + k < B" using q c assms by simp
  then show ?thesis by (metis mod_add_left_eq mod_less)
qed

lemma load_ring_cong:
  assumes "4 dvd p" "4 dvd B" "0 < B" "\<And>k. k < 4 \<Longrightarrow> ring_byte m b B (p + k) = ring_byte m' b B (p + k)"
  shows "load_w32 (b + p mod B) m = load_w32 (b + p mod B) m'"
  by (rule load_w32_cong) (use assms mod_no_wrap[OF assms(1-3)] in \<open>auto simp: ring_byte_def add.assoc\<close>)

lemma mbf_at_frame:
  assumes "mbf_at m b B h xs" "4 dvd h" "4 dvd B" "0 < B"
    "\<And>j. j < mbf_used xs \<Longrightarrow> ring_byte m' b B (h + j) = ring_byte m b B (h + j)"
  shows "mbf_at m' b B h xs"
  using assms
proof (induction xs arbitrary: h)
  case (Cons x xs)
  have l: "length x \<le> rnd (length x)" by (rule rnd_bounds)
  have "load_w32 (b + h mod B) m' = load_w32 (b + h mod B) m"
    by (rule load_ring_cong) (use Cons.prems in \<open>auto simp: slot_def\<close>)
  moreover have "ring_byte m' b B (h + 4 + k) = ring_byte m b B (h + 4 + k)" if "k < length x" for k
    using Cons.prems(5)[of "4 + k"] that l by (simp add: slot_def add.assoc)
  moreover have "mbf_at m' b B (h + slot x) xs"
    by (rule Cons.IH) (use Cons.prems Cons.prems(5)[of "slot x + _"] in \<open>auto simp: add.assoc\<close>)
  ultimately show ?case using Cons.prems by simp
qed simp

lemma mbf_at_append: "mbf_at m b B h (xs @ ys) \<longleftrightarrow> mbf_at m b B h xs \<and> mbf_at m b B (h + mbf_used xs) ys"
  by (induction xs arbitrary: h) (auto simp: add.assoc)

lemma mbf_at_mod: "mbf_at m b B (h mod B) xs \<longleftrightarrow> mbf_at m b B h xs"
proof (induction xs arbitrary: h)
  case (Cons x xs)
  have "(h mod B + 4 + k) mod B = (h + 4 + k) mod B" for k
    by (metis add.assoc mod_add_left_eq)
  moreover have "mbf_at m b B (h mod B + slot x) xs \<longleftrightarrow> mbf_at m b B (h + slot x) xs"
    by (metis Cons.IH mod_add_left_eq)
  ultimately show ?case by (simp add: ring_byte_def)
qed simp

section \<open>Copies into and out of the ring\<close>

text \<open>Distance of an address of the ring from position \<open>t\<close>, forward around the ring.\<close>

definition ring_off :: "addr \<Rightarrow> nat \<Rightarrow> nat \<Rightarrow> addr \<Rightarrow> nat" where
  "ring_off b B t a = (if b + t \<le> a then a - (b + t) else a + B - (b + t))"

definition ring_put :: "addr \<Rightarrow> nat \<Rightarrow> nat \<Rightarrow> addr \<Rightarrow> nat \<Rightarrow> mem \<Rightarrow> mem" where
  "ring_put b B t src n m =
     (\<lambda>a. if b \<le> a \<and> a < b + B \<and> ring_off b B t a < n then m (src + ring_off b B t a) else m a)"

lemma ring_put_once:
  assumes "t < B" "n \<le> B - t" "src + n \<le> b \<or> b + B \<le> src"
  shows "copy_bytes (b + t) src n m = ring_put b B t src n m"
proof -
  have "copy_bytes (b + t) src n m =
      (\<lambda>a. if b + t \<le> a \<and> a < b + t + n then m (src + (a - (b + t))) else m a)"
    by (rule copy_bytes_disjoint) (use assms in auto)
  then show ?thesis
    using assms by (auto simp: ring_put_def ring_off_def fun_eq_iff)
qed

lemma ring_put_twice:
  assumes "t < B" "B - t < n" "n \<le> B" "src + n \<le> b \<or> b + B \<le> src"
  shows "copy_bytes b (src + (B - t)) (n - (B - t)) (copy_bytes (b + t) src (B - t) m) =
    ring_put b B t src n m"
proof -
  have 1: "copy_bytes (b + t) src (B - t) m =
      (\<lambda>a. if b + t \<le> a \<and> a < b + t + (B - t) then m (src + (a - (b + t))) else m a)"
    by (rule copy_bytes_disjoint) (use assms in auto)
  have "copy_bytes b (src + (B - t)) (n - (B - t)) m' =
      (\<lambda>a. if b \<le> a \<and> a < b + (n - (B - t)) then m' (src + (B - t) + (a - b)) else m' a)" for m'
    by (rule copy_bytes_disjoint) (use assms in auto)
  then show ?thesis
    unfolding 1 using assms
    by (auto simp: ring_put_def ring_off_def fun_eq_iff intro!: arg_cong[where f = m])
qed

lemma ring_off_at: "t < B \<Longrightarrow> k < B \<Longrightarrow> ring_off b B t (b + (t + k) mod B) = k"
  by (cases "t + k < B") (auto simp: ring_off_def mod_if)

lemma ring_put_at: "t < B \<Longrightarrow> k < n \<Longrightarrow> n \<le> B \<Longrightarrow> ring_byte (ring_put b B t src n m) b B (t + k) = m (src + k)"
  by (simp add: ring_byte_def ring_put_def ring_off_at)

lemma ring_put_other:
  "t < B \<Longrightarrow> n \<le> k \<Longrightarrow> k < B \<Longrightarrow> ring_byte (ring_put b B t src n m) b B (t + k) = ring_byte m b B (t + k)"
  by (simp add: ring_byte_def ring_put_def ring_off_at)

lemma ring_put_outside: "a < b \<or> b + B \<le> a \<Longrightarrow> ring_put b B t src n m a = m a"
  by (auto simp: ring_put_def)

section \<open>Storing refines appending, fetching refines taking the head\<close>

text \<open>
  \<open>mbf_ok cb m xs\<close>: the control block and the memory represent the queue of messages \<open>xs\<close>, oldest
  first. \<open>region b B\<close> are the addresses of the buffer.
\<close>

definition mbf_ok :: "MBFCB \<Rightarrow> mem \<Rightarrow> 8 word list list \<Rightarrow> bool" where
  "mbf_ok cb m xs \<longleftrightarrow>
     (let B = nat (bufsz cb); h = nat (mbf_head cb)
      in 0 \<le> bufsz cb \<and> bufsz cb < 2 ^ 31 \<and> 4 dvd B \<and> mbf_used xs \<le> B \<and>
         frbufsz cb = int (B - mbf_used xs) \<and>
         0 \<le> mbf_head cb \<and> 4 dvd h \<and> (h < B \<or> h = 0) \<and>
         mbf_tail cb = int ((h + mbf_used xs) mod B) \<and> mbf_at m (buffer cb) B h xs)"

definition msg_bytes :: "mem \<Rightarrow> addr \<Rightarrow> nat \<Rightarrow> 8 word list" where
  "msg_bytes m a n = map (\<lambda>k. m (a + k)) [0..<n]"

lemma length_msg_bytes [simp]: "length (msg_bytes m a n) = n"
  by (simp add: msg_bytes_def)

lemma nth_msg_bytes [simp]: "k < n \<Longrightarrow> msg_bytes m a n ! k = m (a + k)"
  by (simp add: msg_bytes_def)

lemma mbf_okE:
  assumes "mbf_ok cb m xs"
  obtains B h where "bufsz cb = int B" "B < 2 ^ 31" "4 dvd B" "mbf_used xs \<le> B"
    "frbufsz cb = int (B - mbf_used xs)" "mbf_head cb = int h" "4 dvd h" "h < B \<or> h = 0"
    "mbf_tail cb = int ((h + mbf_used xs) mod B)" "mbf_at m (buffer cb) B h xs"
  using assms that[of "nat (bufsz cb)" "nat (mbf_head cb)"] by (auto simp: mbf_ok_def Let_def)

lemma mbf_okI:
  assumes "bufsz cb = int B" "B < 2 ^ 31" "4 dvd B" "mbf_used xs \<le> B"
    "frbufsz cb = int (B - mbf_used xs)" "mbf_head cb = int h" "4 dvd h" "h < B \<or> h = 0"
    "mbf_tail cb = int ((h + mbf_used xs) mod B)" "mbf_at m (buffer cb) B h xs"
  shows "mbf_ok cb m xs"
  using assms by (auto simp: mbf_ok_def Let_def)

lemma mbf_ok_empty: "mbf_ok cb m xs \<Longrightarrow> knl_mbf_empty cb \<longleftrightarrow> xs = []"
  using used_pos[of xs] by (cases "xs = []") (auto elim!: mbf_okE simp: knl_mbf_empty_def)

lemma knl_mbf_free_iff:
  assumes "0 \<le> n" "n < 2 ^ 31" "0 \<le> frbufsz cb" "frbufsz cb < 2 ^ 31"
  shows "knl_mbf_free cb n \<longleftrightarrow> 4 + n \<le> frbufsz cb"
  using assms by (simp add: knl_mbf_free_def HEADERSZ_def word_le_def uint_word_ariths uint_word_of_int)

lemma rnd_fits:
  assumes "4 dvd f" "4 + n \<le> f" shows "4 + rnd n \<le> f"
proof -
  obtain c where c: "f = 4 * c" using assms by (auto elim: dvdE)
  then have "(n + 3) div 4 < c" using assms by linarith
  then show ?thesis using c by (simp add: rnd_def)
qed

lemma mbf_free_slot:
  assumes "mbf_ok cb m xs" "n < 2 ^ 31"
  shows "knl_mbf_free cb (int n) \<longleftrightarrow> mbf_used xs + (4 + rnd n) \<le> nat (bufsz cb)"
proof -
  from assms(1) obtain B where B: "bufsz cb = int B" "B < 2 ^ 31" "4 dvd B" "mbf_used xs \<le> B"
    "frbufsz cb = int (B - mbf_used xs)" by (rule mbf_okE)
  have "knl_mbf_free cb (int n) \<longleftrightarrow> 4 + int n \<le> frbufsz cb"
    by (rule knl_mbf_free_iff) (use assms(2) B in auto)
  also have "\<dots> \<longleftrightarrow> 4 + n \<le> B - mbf_used xs"
    using B by auto
  also have "\<dots> \<longleftrightarrow> 4 + rnd n \<le> B - mbf_used xs"
    using rnd_fits[of "B - mbf_used xs" n] rnd_bounds(1)[of n] B(3) by (auto simp: dvd_diff_nat)
  finally show ?thesis using B(1,4) by auto
qed

text \<open>
  The two copies of a message that may wrap, from or to the position after the header, end at the
  position of the next slot.
\<close>

lemma wrap_add:
  fixes p n B :: nat
  assumes "p < B" "n \<le> B"
  shows "(p + n) mod B = (if p + n \<ge> B then p + n - B else p + n)"
  using assms by (auto simp: mod_if[of "p + n"])

lemma rnd_add: "4 dvd r \<Longrightarrow> rnd (n + r) = rnd n + r"
proof -
  assume "4 dvd r"
  then obtain k where "r = 4 * k" by (rule dvdE)
  moreover have "(n + 4 * k + 3) div 4 = (n + 3) div 4 + k" by presburger
  ultimately show ?thesis by (simp add: rnd_def)
qed

lemma rnd_diff: "4 dvd r \<Longrightarrow> r \<le> n \<Longrightarrow> rnd (n - r) = rnd n - r"
  using rnd_add[of r "n - r"] by simp

lemma rnd_le: "4 dvd B \<Longrightarrow> n \<le> B \<Longrightarrow> rnd n \<le> B"
  by (auto simp: rnd_def elim!: dvdE)

lemma header_wrap:
  fixes t B :: nat
  assumes "4 dvd B" "4 dvd t" "t < B"
  shows "(if int t + 4 \<ge> int B then 0 else int t + 4) = int ((t + 4) mod B)"
    and "(t + 4) mod B < B" and "4 dvd (t + 4) mod B"
proof -
  have "t + 4 \<le> B" using assms by (auto elim!: dvdE)
  then show "(if int t + 4 \<ge> int B then 0 else int t + 4) = int ((t + 4) mod B)"
    by (cases "t + 4 = B") auto
qed (use assms in \<open>simp_all add: dvd_mod\<close>)

lemma tail_wrap:
  fixes p n B :: nat
  assumes "p < B" "4 dvd B" "4 dvd p" "n \<le> B" "B - p < n" "B < 2 ^ 31"
  shows "sint (ROUNDSZ (int (n - (B - p)))) = int ((p + rnd n) mod B)"
    and "(p + rnd n) mod B < B"
proof -
  have d: "4 dvd B - p" using assms by (simp add: dvd_diff_nat)
  have "sint (ROUNDSZ (int (n - (B - p)))) = int (rnd (n - (B - p)))"
    by (rule sint_ROUNDSZ) (use assms d in \<open>auto elim!: dvdE\<close>)
  also have "rnd (n - (B - p)) = rnd n - (B - p)"
    by (rule rnd_diff) (use d assms in auto)
  also have "\<dots> = (p + rnd n) mod B"
    using wrap_add[of p B "rnd n"] rnd_le[OF assms(2,4)] rnd_bounds(1)[of n] assms by auto
  finally show "sint (ROUNDSZ (int (n - (B - p)))) = int ((p + rnd n) mod B)" .
qed (use assms in simp)

lemma tail_no_wrap:
  fixes p n B :: nat
  assumes "p < B" "4 dvd B" "4 dvd p" "n \<le> B - p"
  shows "(if int p + int (rnd n) \<ge> int B then 0 else int p + int (rnd n)) = int ((p + rnd n) mod B)"
proof -
  have "rnd n \<le> B - p" by (rule rnd_le) (use assms in \<open>simp_all add: dvd_diff_nat\<close>)
  then show ?thesis using assms(1) by (cases "p + rnd n = B") auto
qed

lemma sint_slot:
  assumes "4 dvd B" "B < 2 ^ 31" "4 + n \<le> B"
  shows "sint (4 + ROUNDSZ (int n)) = int (4 + rnd n)"
proof -
  have "n \<le> 0x7FFFFFFC" "4 + rnd n \<le> B"
    using assms rnd_fits[of B n] by auto
  then have "uint (4 + ROUNDSZ (int n)) = int (4 + rnd n)"
    using assms uint_ROUNDSZ[of "int n"] by (simp add: uint_word_ariths rnd_def zdiv_int)
  with \<open>4 + rnd n \<le> B\<close> show ?thesis using assms by (subst sint_below) auto
qed

lemma msg_to_mbf_result:
  fixes t n :: nat
  assumes B: "bufsz cb = int B" "4 dvd B" "B < 2 ^ 31"
    and t: "mbf_tail cb = int t" "4 dvd t" "t < B" and n: "4 + n \<le> B"
    and sep: "msg + n \<le> buffer cb \<or> buffer cb + B \<le> msg"
  shows "knl_msg_to_mbf cb msg (int n) m =
    (cb\<lparr>frbufsz := frbufsz cb - int (4 + rnd n), mbf_tail := int ((t + 4 + rnd n) mod B)\<rparr>,
     ring_put (buffer cb) B ((t + 4) mod B) msg n (store_w32 (buffer cb + t) (word_of_nat n) m))"
proof -
  define p where "p = (t + 4) mod B"
  define q where "q = (p + rnd n) mod B"
  note hw = header_wrap[OF B(2) t(2,3), folded p_def]
  have q: "(t + 4 + rnd n) mod B = q"
    unfolding q_def p_def by (metis mod_add_left_eq)
  have nat_diff: "nat (int i - int j) = i - j" for i j by simp
  note sz = sint_slot[OF B(2,3) n]
  note unf = knl_msg_to_mbf_def HEADERSZ_def knl_memcpy_def Let_def prod.case B(1) t(1) hw(1)
    of_int_numeral sz nat_int of_int_of_nat_eq
  show ?thesis
  proof (cases "B - p < n")
    case True
    then have r: "int B - int p < int n" "int n - (int B - int p) = int (n - (B - p))"
      "int B - int p = int (B - p)" using hw(2) by auto
    have "sint (ROUNDSZ (int (n - (B - p)))) = int q" "q < B"
      unfolding q_def by (rule tail_wrap; use hw B True n in simp)+
    moreover have "copy_bytes (buffer cb) (msg + (B - p)) (n - (B - p))
        (copy_bytes (buffer cb + p) msg (B - p) m') = ring_put (buffer cb) B p msg n m'" for m'
      by (rule ring_put_twice) (use hw True n sep in auto)
    ultimately show ?thesis
      unfolding unf p_def[symmetric] q using r(1) nat_diff[of n "B - p"] by (simp add: r(2)) (simp add: r(3))
  next
    case False
    then have r: "\<not> int B - int p < int n" "n \<le> B - p" using hw(2) by auto
    have "sint (ROUNDSZ (int n)) = int (rnd n)" by (rule sint_ROUNDSZ) (use n B in auto)
    moreover have "(if int p + int (rnd n) \<ge> int B then 0 else int p + int (rnd n)) = int q"
      unfolding q_def by (rule tail_no_wrap) (use hw B r in simp_all)
    moreover have "copy_bytes (buffer cb + p) msg n m' = ring_put (buffer cb) B p msg n m'" for m'
      by (rule ring_put_once) (use hw r n sep in auto)
    ultimately show ?thesis
      unfolding unf p_def[symmetric] q using r(1)
      by (cases "int B \<le> int p + int (rnd n)") simp_all
  qed
qed

lemma knl_msg_to_mbf_appends:
  assumes ok: "mbf_ok cb m xs" and free: "knl_mbf_free cb (int n)" "n < 2 ^ 31"
    and sep: "msg + n \<le> buffer cb \<or> buffer cb + nat (bufsz cb) \<le> msg"
    and r: "knl_msg_to_mbf cb msg (int n) m = (cb', m')"
  shows "mbf_ok cb' m' (xs @ [msg_bytes m msg n])"
    and "\<forall>a. a < buffer cb \<or> buffer cb + nat (bufsz cb) \<le> a \<longrightarrow> m' a = m a"
    and "cb' = cb\<lparr>frbufsz := frbufsz cb', mbf_tail := mbf_tail cb'\<rparr>"
proof -
  from ok obtain B h where B: "bufsz cb = int B" "B < 2 ^ 31" "4 dvd B" and u: "mbf_used xs \<le> B"
    and f: "frbufsz cb = int (B - mbf_used xs)" and h: "mbf_head cb = int h" "4 dvd h" "h < B \<or> h = 0"
    and tl: "mbf_tail cb = int ((h + mbf_used xs) mod B)" and at: "mbf_at m (buffer cb) B h xs"
    by (rule mbf_okE)
  define t where "t = (h + mbf_used xs) mod B"
  let ?x = "msg_bytes m msg n" and ?b = "buffer cb" and ?s = "4 + rnd n"
  have fits: "mbf_used xs + ?s \<le> B"
    using mbf_free_slot[OF ok free(2)] free(1) B by simp
  then have B0: "0 < B" by simp
  have t: "t < B" "4 dvd t" using B0 B h by (simp_all add: t_def dvd_mod)
  have n: "4 + n \<le> B" using fits rnd_bounds(1)[of n] by simp
  define p where "p = (t + 4) mod B"
  define m1 where "m1 = store_w32 (?b + t) (word_of_nat n) m"
  have res: "cb' = cb\<lparr>frbufsz := frbufsz cb - int ?s, mbf_tail := int ((t + 4 + rnd n) mod B)\<rparr>"
    and m': "m' = ring_put ?b B p msg n m1"
    using msg_to_mbf_result[OF B(1,3,2) _ t(2,1) n, of msg m] tl sep r B(1)
    by (auto simp: t_def p_def m1_def)
  have m1_out: "m1 a = m a" if "a < ?b \<or> ?b + B \<le> a" for a
  proof -
    have "t + 4 \<le> B" using t B(3) by (auto elim!: dvdE)
    then show ?thesis using that unfolding m1_def by (intro store_w32_other) auto
  qed
  have pk: "ring_byte x ?b B (p + k) = ring_byte x ?b B (t + (4 + k))" for x k
    unfolding ring_byte_def p_def by (metis add.assoc mod_add_left_eq)
  have hk: "ring_byte x ?b B (h + mbf_used xs + k) = ring_byte x ?b B (t + k)" for x k
    unfolding ring_byte_def t_def by (metis mod_add_left_eq)
  have p: "p < B" using B0 by (simp add: p_def)
  have m1_ring: "ring_byte m1 ?b B (t + k) = ring_byte m ?b B (t + k)" if "4 \<le> k" "k < B" for k
    using that t B(3) wrap_add[of t B k] unfolding ring_byte_def m1_def
    by (intro store_w32_other) (auto elim!: dvdE split: if_splits)
  have data: "ring_byte m' ?b B (t + (4 + k)) = m (msg + k)" if "k < n" for k
    using ring_put_at[OF p that, of ?b msg m1] n m1_out[of "msg + k"] sep that B(1)
    by (auto simp: pk m')
  have hdr: "ring_byte m' ?b B (t + k) = ring_byte m1 ?b B (t + k)" if "k < 4" for k
  proof -
    have "t + (4 + (B - 4 + k)) = (t + k) + B" using n by simp
    then have "(t + (4 + (B - 4 + k))) mod B = (t + k) mod B" by (simp only: mod_add_self2)
    then have "ring_byte x ?b B (p + (B - 4 + k)) = ring_byte x ?b B (t + k)" for x
      unfolding pk unfolding ring_byte_def by (simp only:)
    then show ?thesis using ring_put_other[OF p, of n "B - 4 + k" ?b msg m1] n that by (simp add: m')
  qed
  have rest: "ring_byte m' ?b B (t + k) = ring_byte m ?b B (t + k)" if "4 + n \<le> k" "k < B" for k
    using ring_put_other[OF p, of n "k - 4" ?b msg m1] pk[of _ "k - 4"] that m1_ring[of k]
    by (simp add: m' del: add_diff_assoc)
  have "mbf_at m' ?b B h xs"
  proof (rule mbf_at_frame[OF at h(2) B(3) B0])
    fix j assume j: "j < mbf_used xs"
    let ?k = "B - mbf_used xs + j"
    have "(h + j) mod B = (t + ?k) mod B"
    proof -
      have "h + mbf_used xs + ?k = h + j + B" using u by simp
      then have "(h + mbf_used xs + ?k) mod B = (h + j) mod B" by (simp only: mod_add_self2)
      then show ?thesis unfolding t_def mod_add_left_eq by (rule sym)
    qed
    moreover have "4 + n \<le> ?k" "?k < B" using fits j u rnd_bounds(1)[of n] by linarith+
    ultimately show "ring_byte m' ?b B (h + j) = ring_byte m ?b B (h + j)"
      using rest[of ?k] by (simp add: ring_byte_def)
  qed
  moreover have "mbf_at m' ?b B (h + mbf_used xs) [?x]"
  proof -
    have "load_w32 (?b + t mod B) m' = load_w32 (?b + t mod B) m1"
      by (rule load_ring_cong) (use t B B0 hdr in auto)
    then have "load_w32 (?b + (h + mbf_used xs) mod B) m' = word_of_nat n"
      using t by (simp add: m1_def load_store_w32) (simp add: t_def)
    moreover have "ring_byte m' ?b B (h + mbf_used xs + 4 + k) = m (msg + k)" if "k < n" for k
      using data[OF that] hk[of m' "4 + k"] by (simp add: add.assoc)
    ultimately show ?thesis by simp
  qed
  ultimately show "mbf_ok cb' m' (xs @ [?x])"
    using B h fits f unfolding res
    by (intro mbf_okI[of _ B _ h]) (auto simp: mbf_at_append slot_def t_def mod_add_left_eq add.assoc)
  show "\<forall>a. a < ?b \<or> ?b + nat (bufsz cb) \<le> a \<longrightarrow> m' a = m a"
    using m1_out B(1) by (auto simp: m' ring_put_outside)
  show "cb' = cb\<lparr>frbufsz := frbufsz cb', mbf_tail := mbf_tail cb'\<rparr>"
    by (simp add: res)
qed

text \<open>The copies out of the ring, in one piece or in two.\<close>

definition ring_get :: "addr \<Rightarrow> nat \<Rightarrow> nat \<Rightarrow> addr \<Rightarrow> nat \<Rightarrow> mem \<Rightarrow> mem" where
  "ring_get b B h dst n m = (\<lambda>a. if dst \<le> a \<and> a < dst + n then m (b + (h + (a - dst)) mod B) else m a)"

lemma ring_get_once:
  assumes "h < B" "n \<le> B - h" "dst + n \<le> b \<or> b + B \<le> dst"
  shows "copy_bytes dst (b + h) n m = ring_get b B h dst n m"
proof -
  have "copy_bytes dst (b + h) n m =
      (\<lambda>a. if dst \<le> a \<and> a < dst + n then m (b + h + (a - dst)) else m a)"
    by (rule copy_bytes_disjoint) (use assms in auto)
  then show ?thesis
    using assms by (auto simp: ring_get_def fun_eq_iff intro!: arg_cong[where f = m])
qed

lemma ring_get_twice:
  assumes "h < B" "B - h < n" "n \<le> B" "dst + n \<le> b \<or> b + B \<le> dst"
  shows "copy_bytes (dst + (B - h)) b (n - (B - h)) (copy_bytes dst (b + h) (B - h) m) =
    ring_get b B h dst n m"
proof -
  have 1: "copy_bytes dst (b + h) (B - h) m =
      (\<lambda>a. if dst \<le> a \<and> a < dst + (B - h) then m (b + h + (a - dst)) else m a)"
    by (rule copy_bytes_disjoint) (use assms in auto)
  have 2: "copy_bytes (dst + (B - h)) b (n - (B - h)) m' =
      (\<lambda>a. if dst + (B - h) \<le> a \<and> a < dst + (B - h) + (n - (B - h)) then m' (b + (a - (dst + (B - h)))) else m' a)"
    for m'
    by (rule copy_bytes_disjoint) (use assms in auto)
  have w: "(h + k) mod B = h + k - B" if "B - h \<le> k" "k < n" for k
    using wrap_add[of h B k] assms that by auto
  show ?thesis
  proof (rule ext)
    fix a
    show "copy_bytes (dst + (B - h)) b (n - (B - h)) (copy_bytes dst (b + h) (B - h) m) a =
      ring_get b B h dst n m a"
      unfolding 1 2 ring_get_def using assms w[of "a - dst"]
      by (auto intro!: arg_cong[where f = m])
  qed
qed

lemma mbf_to_msg_result:
  fixes h n :: nat
  assumes B: "bufsz cb = int B" "4 dvd B" "B < 2 ^ 31"
    and h: "mbf_head cb = int h" "4 dvd h" "h < B" and n: "4 + n \<le> B"
    and hd: "load_w32 (buffer cb + h) m = word_of_nat n"
    and sep: "msg + n \<le> buffer cb \<or> buffer cb + B \<le> msg"
  shows "knl_mbf_to_msg cb msg m =
    (int n, cb\<lparr>frbufsz := frbufsz cb + int (4 + rnd n), mbf_head := int ((h + 4 + rnd n) mod B)\<rparr>,
     ring_get (buffer cb) B ((h + 4) mod B) msg n m)"
proof -
  define p where "p = (h + 4) mod B"
  define q where "q = (p + rnd n) mod B"
  note hw = header_wrap[OF B(2) h(2,3), folded p_def]
  have q: "(h + 4 + rnd n) mod B = q"
    unfolding q_def p_def by (metis mod_add_left_eq)
  have nat_diff: "nat (int i - int j) = i - j" for i j by simp
  have act: "sint (word_of_nat n :: 32 word) = int n"
    using n B by (subst sint_below) (simp_all add: uint_nat unat_of_nat)
  note sz = sint_slot[OF B(2,3) n]
  note unf = knl_mbf_to_msg_def HEADERSZ_def knl_memcpy_def Let_def prod.case B(1) h(1) hw(1)
    of_int_numeral sz nat_int of_int_of_nat_eq hd act
  show ?thesis
  proof (cases "B - p < n")
    case True
    then have r: "int B - int p < int n" "int n - (int B - int p) = int (n - (B - p))"
      "int B - int p = int (B - p)" using hw(2) by auto
    have "sint (ROUNDSZ (int (n - (B - p)))) = int q" "q < B"
      unfolding q_def by (rule tail_wrap; use hw B True n in simp)+
    moreover have "copy_bytes (msg + (B - p)) (buffer cb) (n - (B - p))
        (copy_bytes msg (buffer cb + p) (B - p) m') = ring_get (buffer cb) B p msg n m'" for m'
      by (rule ring_get_twice) (use hw True n sep in auto)
    ultimately show ?thesis
      unfolding unf p_def[symmetric] q using r(1) nat_diff[of n "B - p"] by (simp add: r(2)) (simp add: r(3))
  next
    case False
    then have r: "\<not> int B - int p < int n" "n \<le> B - p" using hw(2) by auto
    have "sint (ROUNDSZ (int n)) = int (rnd n)" by (rule sint_ROUNDSZ) (use n B in auto)
    moreover have "(if int p + int (rnd n) \<ge> int B then 0 else int p + int (rnd n)) = int q"
      unfolding q_def by (rule tail_no_wrap) (use hw B r in simp_all)
    moreover have "copy_bytes msg (buffer cb + p) n m' = ring_get (buffer cb) B p msg n m'" for m'
      by (rule ring_get_once) (use hw r n sep in auto)
    ultimately show ?thesis
      unfolding unf p_def[symmetric] q using r(1)
      by (cases "int B \<le> int p + int (rnd n)") simp_all
  qed
qed

lemma knl_mbf_to_msg_takes:
  assumes ok: "mbf_ok cb m (x # xs)"
    and sep: "msg + length x \<le> buffer cb \<or> buffer cb + nat (bufsz cb) \<le> msg"
    and r: "knl_mbf_to_msg cb msg m = (actsz, cb', m')"
  shows "actsz = int (length x)" and "msg_bytes m' msg (length x) = x" and "mbf_ok cb' m' xs"
    and "\<forall>a. a < msg \<or> msg + length x \<le> a \<longrightarrow> m' a = m a"
    and "cb' = cb\<lparr>frbufsz := frbufsz cb', mbf_head := mbf_head cb'\<rparr>"
proof -
  from ok obtain B h where B: "bufsz cb = int B" "B < 2 ^ 31" "4 dvd B" and u: "mbf_used (x # xs) \<le> B"
    and f: "frbufsz cb = int (B - mbf_used (x # xs))" and h: "mbf_head cb = int h" "4 dvd h" "h < B \<or> h = 0"
    and tl: "mbf_tail cb = int ((h + mbf_used (x # xs)) mod B)" and at: "mbf_at m (buffer cb) B h (x # xs)"
    by (rule mbf_okE)
  let ?n = "length x" and ?b = "buffer cb"
  have n: "4 + ?n \<le> B" "h < B" using u h rnd_bounds(1)[of ?n] by (auto simp: slot_def)
  have res: "actsz = int ?n"
    and cb': "cb' = cb\<lparr>frbufsz := frbufsz cb + int (4 + rnd ?n), mbf_head := int ((h + 4 + rnd ?n) mod B)\<rparr>"
    and m': "m' = ring_get ?b B ((h + 4) mod B) msg ?n m"
    using mbf_to_msg_result[OF B(1,3,2) h(1,2) n(2,1), of m msg] at sep r B(1) n(2) by auto
  show "actsz = int ?n" by (fact res)
  show "cb' = cb\<lparr>frbufsz := frbufsz cb', mbf_head := mbf_head cb'\<rparr>" by (simp add: cb')
  show "msg_bytes m' msg ?n = x"
  proof (rule nth_equalityI)
    fix k assume "k < length (msg_bytes m' msg ?n)"
    then have k: "k < ?n" by simp
    then have "ring_byte m ?b B (h + 4 + k) = x ! k" using at by simp
    then show "msg_bytes m' msg ?n ! k = x ! k"
      using k by (simp add: m' ring_get_def ring_byte_def mod_add_left_eq)
  qed simp
  have same: "ring_byte m' ?b B k = ring_byte m ?b B k" for k
  proof -
    have "k mod B < B" using n by simp
    then have "\<not> (msg \<le> ?b + k mod B \<and> ?b + k mod B < msg + ?n)" using sep B(1) by linarith
    then show ?thesis unfolding ring_byte_def m' ring_get_def by argo
  qed
  have "mbf_at m' ?b B (h + slot x) xs"
    by (rule mbf_at_frame[of m]) (use at same h B n in auto)
  then have "mbf_at m' ?b B ((h + slot x) mod B) xs"
    by (simp add: mbf_at_mod)
  then show "mbf_ok cb' m' xs"
    using B u f tl h n unfolding cb'
    by (intro mbf_okI[of _ B _ "(h + slot x) mod B"])
      (auto simp: slot_def mod_add_left_eq add.assoc dvd_mod rnd_bounds)
  show "\<forall>a. a < msg \<or> msg + ?n \<le> a \<longrightarrow> m' a = m a"
    by (auto simp: m' ring_get_def)
qed

end
