(* ===== verification/Messagebuf.thy ===== *)
theory Messagebuf
  imports Mailbox Mbf_Ring
begin

text \<open>
  The message buffer of \<^verbatim>\<open>kernel/tkernel/messagebuf.c\<close>: senders and receivers copy messages
  through the ring of \<open>Mbf_Ring\<close>, wait when it is full or empty, and hand a message over directly
  when the other side already waits. The send queue of block \<open>i\<close> is \<open>QMbfSnd i\<close>, the receive queue
  \<open>QMbfRcv i\<close>. Message bytes and buffers live in the byte memory \<open>bmem\<close>. The kernel allocator
  (\<^verbatim>\<open>knl_Imalloc\<close>, \<^verbatim>\<open>knl_Ifree\<close>) is an argument of the two calls that use it; a null
  pointer is 0.
\<close>

section \<open>State\<close>

record T_CMBF =
  cmbf_exinf :: addr
  cmbf_mbfatr :: ATR
  cmbf_bufsz :: int
  cmbf_maxmsz :: int
  cmbf_bufptr :: addr

record T_RMBF =
  rmbf_exinf :: addr
  rmbf_wtsk :: ID
  rmbf_stsk :: ID
  rmbf_msgsz :: int
  rmbf_frbufsz :: int
  rmbf_maxmsz :: int

record mbfstate = mbxstate +
  mbfcb :: "nat \<Rightarrow> MBFCB"
  free_mbfcb :: "nat list"
  bmem :: mem

definition upd_mbfcb :: "nat \<Rightarrow> (MBFCB \<Rightarrow> MBFCB) \<Rightarrow> 'a mbfstate_scheme \<Rightarrow> 'a mbfstate_scheme" where
  [kdefs]: "upd_mbfcb i f s = s\<lparr>mbfcb := (mbfcb s)(i := f (mbfcb s i))\<rparr>"

section \<open>Operations\<close>

definition knl_messagebuffer_initialize :: "'a mbfstate_scheme \<Rightarrow> ER \<times> 'a mbfstate_scheme" where
  "knl_messagebuffer_initialize s =
     (if NUM_MBFID < 1 then (E_SYS, s)
      else (E_OK,
        fold (\<lambda>i st. (upd_mbfcb i (mbfid_update (\<lambda>_. 0)) st)\<lparr>free_mbfcb := free_mbfcb st @ [i]\<rparr>)
          [0..<NUM_MBFID] (s\<lparr>free_mbfcb := []\<rparr>)))"

text \<open>Storing a message into the ring of block \<open>i\<close>, fetching one from it.\<close>

definition msg_to_mbf :: "nat \<Rightarrow> addr \<Rightarrow> int \<Rightarrow> 'a mbfstate_scheme \<Rightarrow> 'a mbfstate_scheme" where
  "msg_to_mbf i msg msgsz s =
     (let (cb, m) = knl_msg_to_mbf (mbfcb s i) msg msgsz (bmem s)
      in s\<lparr>mbfcb := (mbfcb s)(i := cb), bmem := m\<rparr>)"

definition mbf_to_msg :: "nat \<Rightarrow> addr \<Rightarrow> 'a mbfstate_scheme \<Rightarrow> int \<times> 'a mbfstate_scheme" where
  "mbf_to_msg i msg s =
     (let (sz, cb, m) = knl_mbf_to_msg (mbfcb s i) msg (bmem s)
      in (sz, s\<lparr>mbfcb := (mbfcb s)(i := cb), bmem := m\<rparr>))"

lemma msg_to_mbf_frame [simp, frame]:
  "tcb (msg_to_mbf i a n s) = tcb s" "que (msg_to_mbf i a n s) = que s" "umem (msg_to_mbf i a n s) = umem s"
  "ctxtsk (msg_to_mbf i a n s) = ctxtsk s" "free_mbfcb (msg_to_mbf i a n s) = free_mbfcb s"
  "semcb (msg_to_mbf i a n s) = semcb s" "free_semcb (msg_to_mbf i a n s) = free_semcb s"
  "flgcb (msg_to_mbf i a n s) = flgcb s" "free_flgcb (msg_to_mbf i a n s) = free_flgcb s"
  "mbxcb (msg_to_mbf i a n s) = mbxcb s" "free_mbxcb (msg_to_mbf i a n s) = free_mbxcb s"
  "nextmsg (msg_to_mbf i a n s) = nextmsg s" "msgpri (msg_to_mbf i a n s) = msgpri s"
  "mbfstate.more (msg_to_mbf i a n s) = mbfstate.more s"
  by (simp_all add: msg_to_mbf_def split: prod.split)

text \<open>\<^verbatim>\<open>knl_mbf_wakeup\<close>: each round releases the first sender, so the loop ends.\<close>

function knl_mbf_wakeup :: "nat \<Rightarrow> 'a mbfstate_scheme \<Rightarrow> 'a mbfstate_scheme" where
  "knl_mbf_wakeup i s =
     (case que s (QMbfSnd i) of
        [] \<Rightarrow> s
      | t # _ \<Rightarrow>
          let msgsz = winfo_smbf_msgsz (winfo (tcb s t))
          in if \<not> knl_mbf_free (mbfcb s i) msgsz then s
             else knl_mbf_wakeup i
                    (knl_wait_release_ok t (msg_to_mbf i (winfo_smbf_msg (winfo (tcb s t))) msgsz s)))"
  by pat_completeness auto
termination
  by (relation "measure (\<lambda>(i, s). length (que s (QMbfSnd i)))") (auto intro: le_imp_less_Suc)

declare knl_mbf_wakeup.simps [simp del]

definition cre_mbf :: "T_CMBF \<Rightarrow> int \<Rightarrow> addr \<Rightarrow> 'a mbfstate_scheme \<Rightarrow> ID \<times> 'a mbfstate_scheme" where
  "cre_mbf pk sz msgbuf s =
     (case free_mbfcb s of
        [] \<Rightarrow> (E_LIMIT, s)
      | i # fs \<Rightarrow>
          let mbfid' = ID_OBJ i;
              s1 = que_init (QMbfRcv i) (que_init (QMbfSnd i) (s\<lparr>free_mbfcb := fs\<rparr>))
          in (mbfid', upd_mbfcb i (\<lambda>cb. cb\<lparr>mbfid := mbfid', mbf_exinf := cmbf_exinf pk,
                 mbfatr := cmbf_mbfatr pk, buffer := msgbuf, frbufsz := sz, bufsz := sz,
                 maxmsz := cmbf_maxmsz pk, mbf_tail := 0, mbf_head := 0\<rparr>) s1))"

definition tk_cre_mbf ::
    "(UW \<Rightarrow> 'a mbfstate_scheme \<Rightarrow> addr \<times> 'a mbfstate_scheme) \<Rightarrow>
     (addr \<Rightarrow> 'a mbfstate_scheme \<Rightarrow> 'a mbfstate_scheme) \<Rightarrow>
     T_CMBF \<Rightarrow> 'a mbfstate_scheme \<Rightarrow> sysret \<times> 'a mbfstate_scheme" where
  "tk_cre_mbf knl_Imalloc knl_Ifree pk s =
     (let e = first_err [CHECK_RSATR (cmbf_mbfatr pk) (TA_TPRI OR TA_USERBUF),
                CHECK_PAR (cmbf_bufsz pk \<ge> 0), CHECK_PAR (cmbf_maxmsz pk > 0)];
          sz = sint (ROUNDSZ (cmbf_bufsz pk));
          user = cmbf_mbfatr pk AND TA_USERBUF \<noteq> 0
      in if e < E_OK then (Ret e, s)
         else if sz > 0 \<and> user \<and> sz \<noteq> cmbf_bufsz pk then (Ret E_PAR, s)
         else
           let (msgbuf, s1) = (if sz > 0 then if user then (cmbf_bufptr pk, s)
                                              else knl_Imalloc (word_of_int sz) s
                               else (0, s))
           in if sz > 0 \<and> \<not> user \<and> msgbuf = 0 then (Ret E_NOMEM, s1)
              else
                let (ercd, s2) = cre_mbf pk sz msgbuf s1;
                    s3 = END_CRITICAL_SECTION s2
                in (Ret ercd, if ercd < E_OK \<and> msgbuf \<noteq> 0 \<and> \<not> user then knl_Ifree msgbuf s3 else s3))"

definition del_mbf :: "nat \<Rightarrow> 'a mbfstate_scheme \<Rightarrow> 'a mbfstate_scheme" where
  "del_mbf i s =
     (let s1 = knl_wait_delete (WMbfSnd i) (knl_wait_delete (WMbfRcv i) s)
      in upd_mbfcb i (mbfid_update (\<lambda>_. 0)) (s1\<lparr>free_mbfcb := free_mbfcb s1 @ [i]\<rparr>))"

definition tk_del_mbf ::
    "(addr \<Rightarrow> 'a mbfstate_scheme \<Rightarrow> 'a mbfstate_scheme) \<Rightarrow> ID \<Rightarrow> 'a mbfstate_scheme \<Rightarrow>
     sysret \<times> 'a mbfstate_scheme" where
  "tk_del_mbf knl_Ifree oid s =
     (let e = CHECK_OBJID NUM_MBFID oid; i = INDEX_OBJ oid
      in if e < E_OK then (Ret e, s)
         else if mbfid (mbfcb s i) = 0 then (Ret E_NOEXS, END_CRITICAL_SECTION s)
         else
           let msgbuf = buffer (mbfcb s i);
               s1 = END_CRITICAL_SECTION (del_mbf i s)
           in (Ret E_OK, if msgbuf \<noteq> 0 \<and> mbfatr (mbfcb s1 i) AND TA_USERBUF = 0
                         then knl_Ifree msgbuf s1 else s1))"

definition knl_mbf_chg_pri :: "nat \<Rightarrow> int \<Rightarrow> 'a mbfstate_scheme \<Rightarrow> 'a mbfstate_scheme" where
  "knl_mbf_chg_pri t oldpri s =
     (let i = INDEX_OBJ (wid (tcb s t));
          s1 = (if oldpri \<ge> 0 then knl_gcb_change_priority (WMbfSnd i) t s else s)
      in knl_mbf_wakeup i s1)"

definition knl_mbf_rel_wai :: "nat \<Rightarrow> 'a mbfstate_scheme \<Rightarrow> 'a mbfstate_scheme" where
  "knl_mbf_rel_wai t s = knl_mbf_chg_pri t (-1) s"

definition CHECK_DISPATCH_POL :: "TMO \<Rightarrow> 'a kstate_scheme \<Rightarrow> ER" where
  "CHECK_DISPATCH_POL tmout s = (if tmout \<noteq> TMO_POL \<and> in_ddsp s then E_CTX else E_OK)"

definition tk_snd_mbf :: "ID \<Rightarrow> addr \<Rightarrow> int \<Rightarrow> TMO \<Rightarrow> 'a mbfstate_scheme \<Rightarrow> sysret \<times> 'a mbfstate_scheme" where
  "tk_snd_mbf oid msg msgsz tmout s =
     (let e = first_err [CHECK_OBJID NUM_MBFID oid, CHECK_PAR (msgsz > 0), CHECK_TMOUT tmout,
                CHECK_DISPATCH_POL tmout s];
          i = INDEX_OBJ oid; c = the (ctxtsk s); cb = mbfcb s i
      in if e < E_OK then (Ret e, s)
         else if mbfid cb = 0 then (Ret E_NOEXS, END_CRITICAL_SECTION s)
         else if msgsz > maxmsz cb then (Ret E_PAR, END_CRITICAL_SECTION s)
         else
           (case que s (QMbfRcv i) of
              t # _ \<Rightarrow>
                let wi = winfo (tcb s t);
                    s1 = s\<lparr>umem := (umem s)(winfo_rmbf_p_msgsz wi := word_of_int msgsz),
                           bmem := knl_memcpy (winfo_rmbf_msg wi) msg msgsz (bmem s)\<rparr>
                in (Ret E_OK, END_CRITICAL_SECTION (knl_wait_release_ok t s1))
            | [] \<Rightarrow>
                if (in_indp s \<or> knl_gcb_top_of_wait_queue (WMbfSnd i) (mbfatr cb) c s = c) \<and>
                   knl_mbf_free cb msgsz
                then (Ret E_OK, END_CRITICAL_SECTION (msg_to_mbf i msg msgsz s))
                else if tmout \<noteq> TMO_POL then
                  let s1 = prepare_wait c (if mbfatr cb AND TA_TPRI \<noteq> 0
                             then knl_wspec_smbf_tpri else knl_wspec_smbf_tfifo) (WINFO_SMBF msg msgsz) s
                  in (Blocked, END_CRITICAL_SECTION
                        (knl_gcb_make_wait (WMbfSnd i) (mbfid cb) (mbfatr cb) c tmout s1))
                else (Ret E_TMOUT, END_CRITICAL_SECTION s)))"

text \<open>
  \<^verbatim>\<open>tk_rcv_mbf\<close>: \<open>p_rcvsz\<close> is the address of its local variable \<^verbatim>\<open>rcvsz\<close>, into which the
  sender that ends the wait writes the size. A caller that does not wait gets the size as the result.
\<close>

definition tk_rcv_mbf :: "ID \<Rightarrow> addr \<Rightarrow> addr \<Rightarrow> TMO \<Rightarrow> 'a mbfstate_scheme \<Rightarrow> sysret \<times> 'a mbfstate_scheme" where
  "tk_rcv_mbf oid msg p_rcvsz tmout s =
     (let e = first_err [CHECK_OBJID NUM_MBFID oid, CHECK_TMOUT tmout, CHECK_DISPATCH s];
          i = INDEX_OBJ oid; c = the (ctxtsk s); cb = mbfcb s i
      in if e < E_OK then (Ret e, s)
         else if mbfid cb = 0 then (Ret E_NOEXS, END_CRITICAL_SECTION s)
         else if \<not> knl_mbf_empty cb then
           let (rcvsz, s1) = mbf_to_msg i msg s
           in (Ret rcvsz, END_CRITICAL_SECTION (knl_mbf_wakeup i s1))
         else
           (case que s (QMbfSnd i) of
              t # _ \<Rightarrow>
                let wi = winfo (tcb s t);
                    rcvsz = winfo_smbf_msgsz wi;
                    s1 = s\<lparr>bmem := knl_memcpy msg (winfo_smbf_msg wi) rcvsz (bmem s)\<rparr>
                in (Ret rcvsz, END_CRITICAL_SECTION (knl_mbf_wakeup i (knl_wait_release_ok t s1)))
            | [] \<Rightarrow>
                if tmout \<noteq> TMO_POL then
                  let s1 = upd_tcb c (\<lambda>b. b\<lparr>wspec := knl_wspec_rmbf, wid := oid, wercd := Some E_TMOUT,
                             winfo := WINFO_RMBF msg p_rcvsz\<rparr>) s
                  in (Blocked, END_CRITICAL_SECTION
                        (que_insert c (QMbfRcv i) (knl_make_wait c tmout s1)))
                else (Ret E_TMOUT, END_CRITICAL_SECTION s)))"

definition tk_ref_mbf :: "ID \<Rightarrow> 'a mbfstate_scheme \<Rightarrow> T_RMBF refret" where
  "tk_ref_mbf oid s =
     (let e = CHECK_OBJID NUM_MBFID oid; i = INDEX_OBJ oid; cb = mbfcb s i
      in if e < E_OK then (e, None)
         else if mbfid cb = 0 then (E_NOEXS, None)
         else (E_OK, Some \<lparr>rmbf_exinf = mbf_exinf cb, rmbf_wtsk = knl_wait_tskid (WMbfRcv i) s,
            rmbf_stsk = knl_wait_tskid (WMbfSnd i) s,
            rmbf_msgsz = (if \<not> knl_mbf_empty cb then sint (load_w32 (buffer cb + nat (mbf_head cb)) (bmem s))
               else case que s (QMbfSnd i) of t # _ \<Rightarrow> winfo_smbf_msgsz (winfo (tcb s t)) | [] \<Rightarrow> 0),
            rmbf_frbufsz = frbufsz cb, rmbf_maxmsz = maxmsz cb\<rparr>))"

definition td_lst_mbf :: "int \<Rightarrow> 'a mbfstate_scheme \<Rightarrow> int \<times> ID list" where
  "td_lst_mbf nent s =
     list_entries nent (filter (\<lambda>k. k \<noteq> 0) (map (\<lambda>i. mbfid (mbfcb s i)) [0..<NUM_MBFID]))"

definition td_ref_mbf :: "ID \<Rightarrow> 'a mbfstate_scheme \<Rightarrow> T_RMBF refret" where
  "td_ref_mbf oid s =
     (let e = CHECK_OBJID NUM_MBFID oid; i = INDEX_OBJ oid; cb = mbfcb s i
      in if e < E_OK then (e, None)
         else if mbfid cb = 0 then (E_NOEXS, None)
         else (E_OK, Some \<lparr>rmbf_exinf = mbf_exinf cb, rmbf_wtsk = knl_wait_tskid (WMbfRcv i) s,
            rmbf_stsk = knl_wait_tskid (WMbfSnd i) s,
            rmbf_msgsz = (if \<not> knl_mbf_empty cb then sint (load_w32 (buffer cb + nat (mbf_head cb)) (bmem s))
               else case que s (QMbfSnd i) of t # _ \<Rightarrow> winfo_smbf_msgsz (winfo (tcb s t)) | [] \<Rightarrow> 0),
            rmbf_frbufsz = frbufsz cb, rmbf_maxmsz = maxmsz cb\<rparr>))"

definition td_smbf_que :: "ID \<Rightarrow> int \<Rightarrow> 'a mbfstate_scheme \<Rightarrow> int \<times> ID list" where
  "td_smbf_que oid nent s =
     (let e = CHECK_OBJID NUM_MBFID oid; i = INDEX_OBJ oid
      in if e < E_OK then (e, [])
         else if mbfid (mbfcb s i) = 0 then (E_NOEXS, [])
         else list_entries nent (que_tskids (QMbfSnd i) s))"

definition td_rmbf_que :: "ID \<Rightarrow> int \<Rightarrow> 'a mbfstate_scheme \<Rightarrow> int \<times> ID list" where
  "td_rmbf_que oid nent s =
     (let e = CHECK_OBJID NUM_MBFID oid; i = INDEX_OBJ oid
      in if e < E_OK then (e, [])
         else if mbfid (mbfcb s i) = 0 then (E_NOEXS, [])
         else list_entries nent (que_tskids (QMbfRcv i) s))"

section \<open>Frames\<close>

lemma mbfst_frame:
  "mbxstate.more s' = mbxstate.more s \<Longrightarrow> mbfcb s' = mbfcb s"
  "mbxstate.more s' = mbxstate.more s \<Longrightarrow> free_mbfcb s' = free_mbfcb s"
  "mbxstate.more s' = mbxstate.more s \<Longrightarrow> bmem s' = bmem s"
  "mbxstate.more s' = mbxstate.more s \<Longrightarrow> mbfstate.more s' = mbfstate.more s"
  by (cases s; cases s'; simp)+

lemmas mbfst_kframe = mbfst_frame[OF mbxst_kframe(5)]

lemma mbf_frame [simp, frame]:
  "mbfcb (knl_wait_release_ok t s) = mbfcb s" "free_mbfcb (knl_wait_release_ok t s) = free_mbfcb s"
  "bmem (knl_wait_release_ok t s) = bmem s"
  "mbfcb (knl_wait_delete w s) = mbfcb s" "free_mbfcb (knl_wait_delete w s) = free_mbfcb s"
  "bmem (knl_wait_delete w s) = bmem s"
  "mbfcb (END_CRITICAL_SECTION s) = mbfcb s" "free_mbfcb (END_CRITICAL_SECTION s) = free_mbfcb s"
  "bmem (END_CRITICAL_SECTION s) = bmem s"
  by (rule mbfst_kframe; simp)+

lemma upd_mbfcb_fields [simp]:
  "tcb (upd_mbfcb i f s) = tcb s" "que (upd_mbfcb i f s) = que s" "bmem (upd_mbfcb i f s) = bmem s"
  "free_mbfcb (upd_mbfcb i f s) = free_mbfcb s" "umem (upd_mbfcb i f s) = umem s"
  "mbfcb (upd_mbfcb i f s) = (mbfcb s)(i := f (mbfcb s i))" "ctxtsk (upd_mbfcb i f s) = ctxtsk s"
  by (simp_all add: upd_mbfcb_def)

lemma core_inv_mbf [simp]:
  "core_inv (upd_mbfcb i f s) = core_inv s" "core_inv (msg_to_mbf i a n s) = core_inv s"
  "core_inv (s\<lparr>free_mbfcb := x\<rparr>) = core_inv s" "core_inv (s\<lparr>bmem := m\<rparr>) = core_inv s"
  "core_inv (snd (mbf_to_msg i a s)) = core_inv s"
  by (rule core_inv_cong; simp add: upd_mbfcb_def msg_to_mbf_def mbf_to_msg_def split: prod.split)+

interpretation mbf_table: object_table NUM_MBFID "\<lambda>s i. mbfid (mbfcb s i)" free_mbfcb
  "\<lambda>(pk, sz, buf). cre_mbf pk sz buf" del_mbf
  by unfold_locales (auto simp: cre_mbf_def del_mbf_def Let_def fun_eq_iff que_init_def split: prod.splits)

section \<open>The wake-up of senders\<close>

text \<open>Memory of a message apart from the buffer of a block.\<close>

definition apart :: "MBFCB \<Rightarrow> addr \<Rightarrow> nat \<Rightarrow> bool" where
  "apart cb a n \<longleftrightarrow> a + n \<le> buffer cb \<or> buffer cb + nat (bufsz cb) \<le> a"

definition smbf_len :: "TCB \<Rightarrow> nat" where
  "smbf_len b = nat (winfo_smbf_msgsz (winfo b))"

definition smbf_bytes :: "mem \<Rightarrow> TCB \<Rightarrow> 8 word list" where
  "smbf_bytes m b = msg_bytes m (winfo_smbf_msg (winfo b)) (smbf_len b)"

definition sender_ok :: "MBFCB \<Rightarrow> TCB \<Rightarrow> bool" where
  "sender_ok cb b \<longleftrightarrow> 0 < winfo_smbf_msgsz (winfo b) \<and> winfo_smbf_msgsz (winfo b) < 2 ^ 31 \<and>
     apart cb (winfo_smbf_msg (winfo b)) (smbf_len b)"

definition mbf_rep :: "'a mbfstate_scheme \<Rightarrow> nat \<Rightarrow> 8 word list list \<Rightarrow> bool" where
  "mbf_rep s i xs \<longleftrightarrow> mbf_ok (mbfcb s i) (bmem s) xs \<and>
     (\<forall>t\<in>set (que s (QMbfSnd i)). sender_ok (mbfcb s i) (tcb s t))"

text \<open>The senders that a free space admits: the longest prefix of the queue that fits.\<close>

fun admit :: "nat \<Rightarrow> (nat \<Rightarrow> nat) \<Rightarrow> nat list \<Rightarrow> nat list" where
  "admit f len [] = []"
| "admit f len (t # ts) =
     (if 4 + rnd (len t) \<le> f then t # admit (f - (4 + rnd (len t))) len ts else [])"

lemma admit_cong: "(\<And>t. t \<in> set ts \<Longrightarrow> len t = len' t) \<Longrightarrow> admit f len ts = admit f len' ts"
  by (induction ts arbitrary: f) auto

lemma admit_prefix: "ts = admit f len ts @ drop (length (admit f len ts)) ts"
proof (induction ts arbitrary: f)
  case (Cons t ts)
  show ?case using Cons[of "f - (4 + rnd (len t))"] by simp
qed simp

lemma admit_fits: "(\<Sum>t\<leftarrow>admit f len ts. 4 + rnd (len t)) \<le> f"
proof (induction ts arbitrary: f)
  case (Cons t ts)
  show ?case using Cons[of "f - (4 + rnd (len t))"] by (simp; arith)
qed simp

lemma admit_stops:
  "drop (length (admit f len ts)) ts = u # us \<Longrightarrow>
     f < (\<Sum>t\<leftarrow>admit f len ts. 4 + rnd (len t)) + (4 + rnd (len u))"
proof (induction ts arbitrary: f)
  case (Cons t ts)
  show ?case using Cons.prems Cons.IH[of "f - (4 + rnd (len t))"] by (auto split: if_splits)
qed simp

lemma apart_cong: "buffer cb' = buffer cb \<Longrightarrow> bufsz cb' = bufsz cb \<Longrightarrow> apart cb' a n = apart cb a n"
  by (simp add: apart_def)

lemma sender_ok_cong:
  "buffer cb' = buffer cb \<Longrightarrow> bufsz cb' = bufsz cb \<Longrightarrow> winfo b' = winfo b \<Longrightarrow> sender_ok cb' b' = sender_ok cb b"
  by (simp add: sender_ok_def apart_def smbf_len_def)

text \<open>Storing one message keeps the other blocks and the other memory.\<close>

lemma msg_to_mbf_step:
  assumes "mbf_ok (mbfcb s i) (bmem s) xs" "knl_mbf_free (mbfcb s i) (int n)" "n < 2 ^ 31"
    "apart (mbfcb s i) msg n"
  defines "s' \<equiv> msg_to_mbf i msg (int n) s"
  shows "mbf_ok (mbfcb s' i) (bmem s') (xs @ [msg_bytes (bmem s) msg n])"
    "apart (mbfcb s i) a k \<Longrightarrow> msg_bytes (bmem s') a k = msg_bytes (bmem s) a k"
    "mbfcb s' = (mbfcb s)(i := (mbfcb s i)\<lparr>frbufsz := frbufsz (mbfcb s' i), mbf_tail := mbf_tail (mbfcb s' i)\<rparr>)"
proof -
  obtain cb' m' where r: "knl_msg_to_mbf (mbfcb s i) msg (int n) (bmem s) = (cb', m')" by fastforce
  have s': "mbfcb s' = (mbfcb s)(i := cb')" "bmem s' = m'" by (simp_all add: s'_def msg_to_mbf_def r)
  note A = knl_msg_to_mbf_appends[OF assms(1-3) _ r] and ap = assms(4)[unfolded apart_def]
  show "mbf_ok (mbfcb s' i) (bmem s') (xs @ [msg_bytes (bmem s) msg n])"
    using A(1)[OF ap] by (simp add: s')
  show "apart (mbfcb s i) a k \<Longrightarrow> msg_bytes (bmem s') a k = msg_bytes (bmem s) a k"
    using A(2)[OF ap] by (auto simp: apart_def s' msg_bytes_def)
  show "mbfcb s' = (mbfcb s)(i := (mbfcb s i)\<lparr>frbufsz := frbufsz (mbfcb s' i), mbf_tail := mbf_tail (mbfcb s' i)\<rparr>)"
    using A(3)[OF ap] by (simp add: s')
qed

lemma wait_release_ok_queue:
  assumes "core_inv s" "que s (QWait w) = t # ts"
  shows "que (knl_wait_release_ok t s) (QWait v) = (if v = w then ts else que s (QWait v))"
proof (cases "v = w")
  case True
  then show ?thesis using assms core_inv_distinct[OF assms(1), of "QWait w"] by simp
next
  case False
  have "t \<notin> set (que s (QWait v))"
    using core_inv_one_queue[OF assms(1), of t w v] False assms(2) by auto
  then show ?thesis using False by simp
qed

text \<open>The parts of the state that no message buffer call touches.\<close>

definition mbf_others :: "'a mbfstate_scheme \<Rightarrow> 'a mbfstate_scheme \<Rightarrow> bool" where
  "mbf_others s s' \<longleftrightarrow> semcb s' = semcb s \<and> free_semcb s' = free_semcb s \<and> flgcb s' = flgcb s \<and>
     free_flgcb s' = free_flgcb s \<and> mbxcb s' = mbxcb s \<and> free_mbxcb s' = free_mbxcb s \<and>
     nextmsg s' = nextmsg s \<and> msgpri s' = msgpri s \<and> mbfstate.more s' = mbfstate.more s"

lemma mbf_others_refl [simp]: "mbf_others s s"
  by (simp add: mbf_others_def)

lemma mbf_others_trans: "mbf_others s s' \<Longrightarrow> mbf_others s' s'' \<Longrightarrow> mbf_others s s''"
  by (simp add: mbf_others_def)

lemma mbf_others_kernel:
  assumes "kstate.more s' = kstate.more s" shows "mbf_others s s'"
  using semst_frame[OF assms] flgst_frame[OF semst_frame(3)[OF assms]] mbxst_kframe[OF assms] mbfst_kframe[OF assms]
  by (simp add: mbf_others_def)

lemma mbf_others_simps [simp]:
  "mbf_others s (msg_to_mbf i a n s)" "mbf_others s (knl_wait_release_ok t s)"
  "mbf_others s (END_CRITICAL_SECTION s)" "mbf_others s (s\<lparr>bmem := m\<rparr>)"
  "mbf_others s (s\<lparr>umem := u, bmem := m\<rparr>)"
proof -
  show "mbf_others s (knl_wait_release_ok t s)" "mbf_others s (END_CRITICAL_SECTION s)"
    by (rule mbf_others_kernel; simp)+
qed (simp_all add: mbf_others_def)

definition woken :: "nat \<Rightarrow> 8 word list list \<Rightarrow> nat list \<Rightarrow> 'a mbfstate_scheme \<Rightarrow> 'a mbfstate_scheme \<Rightarrow> bool" where
  "woken i xs r s s' \<longleftrightarrow> core_inv s' \<and> tcb s' = served r (tcb s) \<and>
     (\<forall>v. que s' (QWait v) =
        (if v = WMbfSnd i then drop (length r) (que s (QMbfSnd i)) else que s (QWait v))) \<and>
     mbf_ok (mbfcb s' i) (bmem s') (xs @ map (\<lambda>t. smbf_bytes (bmem s) (tcb s t)) r) \<and>
     (\<exists>f tl. mbfcb s' = (mbfcb s)(i := (mbfcb s i)\<lparr>frbufsz := f, mbf_tail := tl\<rparr>)) \<and>
     (\<forall>a k. apart (mbfcb s i) a k \<longrightarrow> msg_bytes (bmem s') a k = msg_bytes (bmem s) a k) \<and>
     umem s' = umem s \<and> ctxtsk s' = ctxtsk s \<and> free_mbfcb s' = free_mbfcb s \<and> mbf_others s s'"

lemma wokenD:
  assumes "woken i xs r s s'"
  shows "core_inv s'" "tcb s' = served r (tcb s)"
    "que s' (QWait v) = (if v = WMbfSnd i then drop (length r) (que s (QMbfSnd i)) else que s (QWait v))"
    "mbf_ok (mbfcb s' i) (bmem s') (xs @ map (\<lambda>t. smbf_bytes (bmem s) (tcb s t)) r)"
    "apart (mbfcb s i) a k \<Longrightarrow> msg_bytes (bmem s') a k = msg_bytes (bmem s) a k"
    "umem s' = umem s" "ctxtsk s' = ctxtsk s" "free_mbfcb s' = free_mbfcb s" "mbf_others s s'"
    "\<exists>f tl. mbfcb s' = (mbfcb s)(i := (mbfcb s i)\<lparr>frbufsz := f, mbf_tail := tl\<rparr>)"
  using assms by (simp_all add: woken_def)

lemma mbf_others_END [simp]: "mbf_others s (END_CRITICAL_SECTION s') = mbf_others s s'"
  using mbf_others_kernel[of "END_CRITICAL_SECTION s'" s'] by (simp add: mbf_others_def)

lemma woken_none: "core_inv s \<Longrightarrow> mbf_ok (mbfcb s i) (bmem s) xs \<Longrightarrow> woken i xs [] s s"
proof -
  have "mbfcb s = (mbfcb s)(i := (mbfcb s i)\<lparr>frbufsz := frbufsz (mbfcb s i), mbf_tail := mbf_tail (mbfcb s i)\<rparr>)"
    by simp
  then have "\<exists>f tl. mbfcb s = (mbfcb s)(i := (mbfcb s i)\<lparr>frbufsz := f, mbf_tail := tl\<rparr>)" by blast
  moreover have "served [] (tcb s) = tcb s" by (rule ext) (simp add: served_def)
  moreover assume "core_inv s" "mbf_ok (mbfcb s i) (bmem s) xs"
  ultimately show ?thesis by (simp add: woken_def)
qed

lemma woken_step:
  assumes inv: "core_inv s" and rep: "mbf_rep s i xs" and q: "que s (QMbfSnd i) = t # ts"
    and free: "knl_mbf_free (mbfcb s i) (winfo_smbf_msgsz (winfo (tcb s t)))"
  defines "s1 \<equiv> knl_wait_release_ok t (msg_to_mbf i (winfo_smbf_msg (winfo (tcb s t)))
      (winfo_smbf_msgsz (winfo (tcb s t))) s)"
  shows "woken i xs [t] s s1" "mbf_rep s1 i (xs @ [smbf_bytes (bmem s) (tcb s t)])"
proof -
  let ?n = "smbf_len (tcb s t)" and ?msg = "winfo_smbf_msg (winfo (tcb s t))"
  let ?m = "msg_to_mbf i ?msg (int ?n) s"
  have t: "sender_ok (mbfcb s i) (tcb s t)" using rep q by (simp add: mbf_rep_def)
  then have n: "winfo_smbf_msgsz (winfo (tcb s t)) = int ?n" "?n < 2 ^ 31" "apart (mbfcb s i) ?msg ?n"
    by (auto simp: sender_ok_def smbf_len_def)
  have s1: "s1 = knl_wait_release_ok t ?m" by (simp add: s1_def n(1))
  have ok: "mbf_ok (mbfcb s i) (bmem s) xs" using rep by (simp add: mbf_rep_def)
  note M = msg_to_mbf_step[OF ok free[unfolded n(1)] n(2,3)]
  have ti: "t \<in> set (que ?m (QMbfSnd i))" "core_inv ?m" using inv q by simp_all
  note R = wait_release_ok_result[OF ti(2,1)]
  have Q: "que s1 (QWait v) = (if v = WMbfSnd i then ts else que s (QWait v))" for v
    using wait_release_ok_queue[OF ti(2), of "WMbfSnd i" t ts v] q by (simp add: s1)
  have o: "mbf_others s s1" unfolding s1 by (rule mbf_others_trans[of _ ?m]) simp_all
  have W: "core_inv s1" "tcb s1 = served [t] (tcb s)" "mbfcb s1 = mbfcb ?m" "bmem s1 = bmem ?m"
    "umem s1 = umem s" "ctxtsk s1 = ctxtsk s" "free_mbfcb s1 = free_mbfcb s"
    using R by (simp_all add: s1)
  show "woken i xs [t] s s1"
  proof -
    have "\<exists>f tl. mbfcb s1 = (mbfcb s)(i := (mbfcb s i)\<lparr>frbufsz := f, mbf_tail := tl\<rparr>)"
      unfolding W(3) using M(3) by blast
    then show ?thesis using W M(1,2) Q q o by (simp add: woken_def smbf_bytes_def)
  qed
  have "buffer (mbfcb s1 i) = buffer (mbfcb s i)" "bufsz (mbfcb s1 i) = bufsz (mbfcb s i)"
    using M(3) W(3) by (metis (no_types) MBFCB.select_convs(4,9) MBFCB.surjective MBFCB.update_convs(6,8) fun_upd_same)+
  then have "sender_ok (mbfcb s1 i) (tcb s1 u) = sender_ok (mbfcb s i) (tcb s u)" for u
    using W(2) by (intro sender_ok_cong) simp_all
  then show "mbf_rep s1 i (xs @ [smbf_bytes (bmem s) (tcb s t)])"
    using rep M(1) W Q q by (auto simp: mbf_rep_def smbf_bytes_def)
qed

lemma mbf_ok_space:
  assumes "mbf_ok cb m xs" "n < 2 ^ 31"
  shows "knl_mbf_free cb (int n) \<longleftrightarrow> 4 + rnd n \<le> nat (bufsz cb) - mbf_used xs"
proof -
  have "mbf_used xs \<le> nat (bufsz cb)" using assms(1) by (simp add: mbf_ok_def Let_def)
  then show ?thesis using mbf_free_slot[OF assms] by auto
qed

lemma woken_trans:
  assumes a: "woken i xs [t] s s1" and b: "woken i (xs @ [smbf_bytes (bmem s) (tcb s t)]) r s1 s'"
    and q: "que s (QMbfSnd i) = t # ts" "t \<notin> set ts" "set r \<subseteq> set ts"
    and snd: "\<And>u. u \<in> set ts \<Longrightarrow> sender_ok (mbfcb s i) (tcb s u)"
  shows "woken i xs (t # r) s s'"
proof -
  obtain f1 t1 f2 t2 where cb: "mbfcb s1 = (mbfcb s)(i := (mbfcb s i)\<lparr>frbufsz := f1, mbf_tail := t1\<rparr>)"
    "mbfcb s' = (mbfcb s1)(i := (mbfcb s1 i)\<lparr>frbufsz := f2, mbf_tail := t2\<rparr>)"
    using a b unfolding woken_def by blast
  have ap: "apart (mbfcb s1 i) x k = apart (mbfcb s i) x k" for x k
    by (rule apart_cong) (simp_all add: cb)
  have by': "smbf_bytes (bmem s1) (tcb s1 u) = smbf_bytes (bmem s) (tcb s u)" if "u \<in> set r" for u
    using snd[of u] that q(3) a by (auto simp: smbf_bytes_def sender_ok_def woken_def smbf_len_def)
  have mp: "map (\<lambda>t. smbf_bytes (bmem s1) (tcb s1 t)) r = map (\<lambda>t. smbf_bytes (bmem s) (tcb s t)) r"
    using by' by simp
  have sv: "served r (served [t] (tcb s)) = served (t # r) (tcb s)"
    using served_append[of "[t]" r] q by auto
  have cb': "mbfcb s' = (mbfcb s)(i := (mbfcb s i)\<lparr>frbufsz := f2, mbf_tail := t2\<rparr>)"
    by (simp add: cb)
  have o: "mbf_others s s'" using a b mbf_others_trans unfolding woken_def by blast
  have Q: "\<forall>v. que s' (QWait v) =
        (if v = WMbfSnd i then drop (length (t # r)) (que s (QMbfSnd i)) else que s (QWait v))"
    using a b q(1) by (simp add: woken_def)
  have ok: "mbf_ok (mbfcb s' i) (bmem s') (xs @ map (\<lambda>t. smbf_bytes (bmem s) (tcb s t)) (t # r))"
    using b mp by (simp add: woken_def)
  show ?thesis
    using a b cb' o Q ok sv ap unfolding woken_def by auto
qed

lemma mbf_wakeup_admits:
  assumes "core_inv s" "mbf_rep s i xs"
  shows "woken i xs (admit (nat (bufsz (mbfcb s i)) - mbf_used xs) (\<lambda>t. smbf_len (tcb s t)) (que s (QMbfSnd i)))
    s (knl_mbf_wakeup i s)"
  using assms
proof (induction i s arbitrary: xs rule: knl_mbf_wakeup.induct)
  case (1 i s)
  let ?B = "nat (bufsz (mbfcb s i))"
  have ok: "mbf_ok (mbfcb s i) (bmem s) xs" using 1(3) by (simp add: mbf_rep_def)
  show ?case
  proof (cases "que s (QMbfSnd i)")
    case Nil
    with woken_none[OF 1(2) ok] show ?thesis by (simp add: knl_mbf_wakeup.simps)
  next
    case (Cons t ts)
    let ?z = "winfo_smbf_msgsz (winfo (tcb s t))" and ?n = "smbf_len (tcb s t)"
    have so: "sender_ok (mbfcb s i) (tcb s u)" if "u \<in> set (t # ts)" for u
      using 1(3) Cons that by (auto simp: mbf_rep_def)
    have n: "?z = int ?n" "?n < 2 ^ 31" using so[of t] by (auto simp: sender_ok_def smbf_len_def)
    note sp = mbf_ok_space[OF ok n(2), folded n(1)]
    show ?thesis
    proof (cases "knl_mbf_free (mbfcb s i) ?z")
      case False
      with woken_none[OF 1(2) ok] Cons sp show ?thesis by (simp add: knl_mbf_wakeup.simps)
    next
      case True
      let ?s1 = "knl_wait_release_ok t (msg_to_mbf i (winfo_smbf_msg (winfo (tcb s t))) ?z s)"
      let ?x = "smbf_bytes (bmem s) (tcb s t)"
      note W = woken_step[OF 1(2,3) Cons True]
      have IH: "woken i (xs @ [?x]) (admit (nat (bufsz (mbfcb ?s1 i)) - mbf_used (xs @ [?x]))
          (\<lambda>t. smbf_len (tcb ?s1 t)) (que ?s1 (QMbfSnd i))) ?s1 (knl_mbf_wakeup i ?s1)"
        by (rule 1(1)[OF Cons refl]) (use True W in \<open>auto simp: woken_def\<close>)
      have d: "t \<notin> set ts" using core_inv_distinct[OF 1(2), of "QMbfSnd i"] Cons by simp
      have e: "bufsz (mbfcb ?s1 i) = bufsz (mbfcb s i)" "que ?s1 (QMbfSnd i) = ts"
        "smbf_len (tcb ?s1 u) = smbf_len (tcb s u)" for u
        using W(1) Cons d by (auto simp: woken_def smbf_len_def)
      let ?r = "admit (?B - mbf_used (xs @ [?x])) (\<lambda>t. smbf_len (tcb s t)) ts"
      have r: "set ?r \<subseteq> set ts" using admit_prefix[of ts] by (metis set_append Un_upper1)
      have "woken i xs (t # ?r) s (knl_mbf_wakeup i ?s1)"
        by (rule woken_trans[OF W(1) _ Cons d r]) (use IH e so in simp_all)
      moreover have "admit (?B - mbf_used xs) (\<lambda>t. smbf_len (tcb s t)) (t # ts) = t # ?r"
        using True sp by (simp add: slot_def smbf_bytes_def)
      moreover have "knl_mbf_wakeup i s = knl_mbf_wakeup i ?s1"
        using Cons True by (subst knl_mbf_wakeup.simps) simp
      ultimately show ?thesis using Cons by simp
    qed
  qed
qed

section \<open>Receiving\<close>

definition mbf_call_ok :: "ID \<Rightarrow> 'a mbfstate_scheme \<Rightarrow> bool" where
  "mbf_call_ok oid s \<longleftrightarrow> CHK_OBJID NUM_MBFID oid \<and> mbfid (mbfcb s (INDEX_OBJ oid)) \<noteq> 0"

definition rcv_mbf_ok :: "ID \<Rightarrow> TMO \<Rightarrow> 'a mbfstate_scheme \<Rightarrow> bool" where
  "rcv_mbf_ok oid tmout s \<longleftrightarrow> mbf_call_ok oid s \<and> TMO_FEVR \<le> tmout \<and> \<not> in_ddsp s"

definition disjoint_areas :: "addr \<Rightarrow> nat \<Rightarrow> addr \<Rightarrow> nat \<Rightarrow> bool" where
  "disjoint_areas a n b k \<longleftrightarrow> a + n \<le> b \<or> b + k \<le> a"

text \<open>The receiver's area of \<open>n\<close> bytes: apart from the buffer and from the messages of the senders.\<close>

definition rcv_area :: "'a mbfstate_scheme \<Rightarrow> nat \<Rightarrow> addr \<Rightarrow> nat \<Rightarrow> bool" where
  "rcv_area s i msg n \<longleftrightarrow> apart (mbfcb s i) msg n \<and>
     (\<forall>t\<in>set (que s (QMbfSnd i)).
        disjoint_areas msg n (winfo_smbf_msg (winfo (tcb s t))) (smbf_len (tcb s t)))"

lemma tk_rcv_mbf_error:
  assumes "\<not> rcv_mbf_ok oid tmout s"
  shows "\<exists>e<0. fst (tk_rcv_mbf oid msg p tmout s) = Ret e"
    "snd (tk_rcv_mbf oid msg p tmout s) = s \<or> snd (tk_rcv_mbf oid msg p tmout s) = END_CRITICAL_SECTION s"
  using assms
  by (auto simp: tk_rcv_mbf_def Let_def check_defs consts_defs rcv_mbf_ok_def mbf_call_ok_def)

lemma tk_rcv_mbf_ok:
  assumes "rcv_mbf_ok oid tmout s" "ctxtsk s = Some c"
  shows "tk_rcv_mbf oid msg p tmout s =
    (let i = INDEX_OBJ oid in
     if \<not> knl_mbf_empty (mbfcb s i) then
       (Ret (fst (mbf_to_msg i msg s)), END_CRITICAL_SECTION (knl_mbf_wakeup i (snd (mbf_to_msg i msg s))))
     else
       (case que s (QMbfSnd i) of
          t # _ \<Rightarrow> (Ret (winfo_smbf_msgsz (winfo (tcb s t))), END_CRITICAL_SECTION (knl_mbf_wakeup i
             (knl_wait_release_ok t (s\<lparr>bmem := knl_memcpy msg (winfo_smbf_msg (winfo (tcb s t)))
                (winfo_smbf_msgsz (winfo (tcb s t))) (bmem s)\<rparr>))))
        | [] \<Rightarrow> if tmout \<noteq> TMO_POL then
             (Blocked, END_CRITICAL_SECTION (que_insert c (QMbfRcv i) (knl_make_wait c tmout
                (upd_tcb c (\<lambda>b. b\<lparr>wspec := knl_wspec_rmbf, wid := oid, wercd := Some E_TMOUT,
                   winfo := WINFO_RMBF msg p\<rparr>) s))))
           else (Ret E_TMOUT, END_CRITICAL_SECTION s)))"
proof -
  have "CHK_OBJID NUM_MBFID oid" "mbfid (mbfcb s (INDEX_OBJ oid)) \<noteq> 0" "tmout \<ge> TMO_FEVR" "\<not> in_ddsp s"
    using assms by (auto simp: rcv_mbf_ok_def mbf_call_ok_def)
  with assms(2) show ?thesis
    by (simp add: tk_rcv_mbf_def Let_def check_defs case_prod_beta split: list.split)
qed

lemma mbf_to_msg_step:
  assumes rep: "mbf_rep s i (x # xs)" and area: "rcv_area s i msg (length x)"
  obtains s1 where "mbf_to_msg i msg s = (int (length x), s1)" "mbf_rep s1 i xs"
    "msg_bytes (bmem s1) msg (length x) = x" "tcb s1 = tcb s" "que s1 = que s" "umem s1 = umem s"
    "\<forall>a k. disjoint_areas msg (length x) a k \<longrightarrow> msg_bytes (bmem s1) a k = msg_bytes (bmem s) a k"
    "core_inv s1 = core_inv s" "ctxtsk s1 = ctxtsk s" "free_mbfcb s1 = free_mbfcb s" "mbf_others s s1"
    "\<exists>f h. mbfcb s1 = (mbfcb s)(i := (mbfcb s i)\<lparr>frbufsz := f, mbf_head := h\<rparr>)"
proof -
  obtain z cb' m' where r: "knl_mbf_to_msg (mbfcb s i) msg (bmem s) = (z, cb', m')" by (metis prod_cases3)
  let ?s = "s\<lparr>mbfcb := (mbfcb s)(i := cb'), bmem := m'\<rparr>"
  have e: "mbf_to_msg i msg s = (z, ?s)" by (simp add: mbf_to_msg_def r)
  have ok: "mbf_ok (mbfcb s i) (bmem s) (x # xs)" using rep by (simp add: mbf_rep_def)
  have ap: "msg + length x \<le> buffer (mbfcb s i) \<or> buffer (mbfcb s i) + nat (bufsz (mbfcb s i)) \<le> msg"
    using area by (simp add: rcv_area_def apart_def)
  note T = knl_mbf_to_msg_takes[OF ok ap r]
  have cb: "buffer cb' = buffer (mbfcb s i)" "bufsz cb' = bufsz (mbfcb s i)"
    by (subst T(5); simp)+
  have "sender_ok cb' b = sender_ok (mbfcb s i) b" for b by (rule sender_ok_cong) (simp_all add: cb)
  then have "mbf_rep ?s i xs" using rep T(3) by (simp add: mbf_rep_def)
  moreover have "msg_bytes m' a k = msg_bytes (bmem s) a k" if "disjoint_areas msg (length x) a k" for a k
    using T(4) that by (auto simp: msg_bytes_def disjoint_areas_def)
  moreover have "\<exists>f h. mbfcb ?s = (mbfcb s)(i := (mbfcb s i)\<lparr>frbufsz := f, mbf_head := h\<rparr>)"
    using T(5) by simp metis
  moreover have "core_inv ?s = core_inv s" by (rule core_inv_cong) simp_all
  ultimately show thesis
    by (intro that[of ?s]) (use e T in \<open>simp_all add: mbf_others_def\<close>)
qed

text \<open>
  A receiver takes the oldest message; then the senders that now fit are admitted in queue order.
\<close>

definition mbf_admitted :: "'a mbfstate_scheme \<Rightarrow> nat \<Rightarrow> 8 word list list \<Rightarrow> nat list \<Rightarrow> nat list" where
  "mbf_admitted s i xs ts =
     admit (nat (bufsz (mbfcb s i)) - mbf_used xs) (\<lambda>t. smbf_len (tcb s t)) ts"

lemma tk_rcv_mbf_takes:
  assumes inv: "core_inv s" and ok: "rcv_mbf_ok oid tmout s" "ctxtsk s = Some c"
  defines "i \<equiv> INDEX_OBJ oid"
  assumes rep: "mbf_rep s i (x # xs)" and area: "rcv_area s i msg (length x)"
  defines "r \<equiv> mbf_admitted s i xs (que s (QMbfSnd i))"
  obtains s' where "tk_rcv_mbf oid msg p tmout s = (Ret (int (length x)), s')" "core_inv s'"
    "msg_bytes (bmem s') msg (length x) = x" "tcb s' = served r (tcb s)"
    "mbf_ok (mbfcb s' i) (bmem s') (xs @ map (\<lambda>t. smbf_bytes (bmem s) (tcb s t)) r)"
    "\<And>v. que s' (QWait v) = (if v = WMbfSnd i then drop (length r) (que s (QMbfSnd i)) else que s (QWait v))"
    "umem s' = umem s" "mbf_others s s'"
proof -
  obtain s1 where S: "mbf_to_msg i msg s = (int (length x), s1)" "mbf_rep s1 i xs"
    "msg_bytes (bmem s1) msg (length x) = x" "tcb s1 = tcb s" "que s1 = que s" "umem s1 = umem s"
    "\<forall>a k. disjoint_areas msg (length x) a k \<longrightarrow> msg_bytes (bmem s1) a k = msg_bytes (bmem s) a k"
    "core_inv s1 = core_inv s" "ctxtsk s1 = ctxtsk s" "free_mbfcb s1 = free_mbfcb s" "mbf_others s s1"
    "\<exists>f h. mbfcb s1 = (mbfcb s)(i := (mbfcb s i)\<lparr>frbufsz := f, mbf_head := h\<rparr>)"
    by (rule mbf_to_msg_step[OF rep area])
  have cb: "bufsz (mbfcb s1 i) = bufsz (mbfcb s i)" "buffer (mbfcb s1 i) = buffer (mbfcb s i)" using S(12) by auto
  have "\<not> knl_mbf_empty (mbfcb s i)" using mbf_ok_empty rep by (auto simp: mbf_rep_def)
  then have e: "tk_rcv_mbf oid msg p tmout s = (Ret (int (length x)), END_CRITICAL_SECTION (knl_mbf_wakeup i s1))"
    using tk_rcv_mbf_ok[OF ok] S(1) by (simp add: i_def)
  have W: "woken i xs r s1 (knl_mbf_wakeup i s1)"
    using mbf_wakeup_admits[OF _ S(2)] inv by (simp add: r_def mbf_admitted_def S cb)
  have rs: "set r \<subseteq> set (que s (QMbfSnd i))"
    unfolding r_def mbf_admitted_def using admit_prefix by (metis set_append Un_upper1)
  have b: "smbf_bytes (bmem s1) (tcb s1 t) = smbf_bytes (bmem s) (tcb s t)" if "t \<in> set r" for t
    using area that rs S(4,7) by (auto simp: rcv_area_def smbf_bytes_def)
  then have mp: "map (\<lambda>t. smbf_bytes (bmem s1) (tcb s1 t)) r = map (\<lambda>t. smbf_bytes (bmem s) (tcb s t)) r"
    by simp
  have ap: "apart (mbfcb s1 i) msg (length x)" using area cb apart_cong[of "mbfcb s1 i" "mbfcb s i"]
    by (simp add: rcv_area_def)
  have o: "mbf_others s (knl_mbf_wakeup i s1)" by (rule mbf_others_trans[OF S(11) wokenD(9)[OF W]])
  note D = wokenD[OF W]
  show thesis
    by (rule that[OF e]) (use D(1-3,6) D(4)[unfolded mp] D(5)[OF ap] S(3-6) o in simp_all)
qed

text \<open>With an empty ring the message comes straight from the first waiting sender.\<close>

lemma tk_rcv_mbf_direct:
  assumes inv: "core_inv s" and ok: "rcv_mbf_ok oid tmout s" "ctxtsk s = Some c"
  defines "i \<equiv> INDEX_OBJ oid"
  assumes rep: "mbf_rep s i []" and q: "que s (QMbfSnd i) = t # ts"
    and area: "rcv_area s i msg (smbf_len (tcb s t))"
  defines "r \<equiv> mbf_admitted s i [] ts"
  obtains s' where "tk_rcv_mbf oid msg p tmout s = (Ret (int (smbf_len (tcb s t))), s')" "core_inv s'"
    "msg_bytes (bmem s') msg (smbf_len (tcb s t)) = smbf_bytes (bmem s) (tcb s t)"
    "tcb s' = served (t # r) (tcb s)"
    "mbf_ok (mbfcb s' i) (bmem s') (map (\<lambda>t. smbf_bytes (bmem s) (tcb s t)) r)"
    "\<And>v. que s' (QWait v) = (if v = WMbfSnd i then drop (length r) ts else que s (QWait v))"
    "umem s' = umem s" "mbf_others s s'"
proof -
  let ?n = "smbf_len (tcb s t)" and ?src = "winfo_smbf_msg (winfo (tcb s t))"
  have so: "sender_ok (mbfcb s i) (tcb s t)" using rep q by (simp add: mbf_rep_def)
  then have n: "winfo_smbf_msgsz (winfo (tcb s t)) = int ?n" by (simp add: sender_ok_def smbf_len_def)
  let ?m = "knl_memcpy msg ?src (int ?n) (bmem s)"
  let ?s0 = "s\<lparr>bmem := ?m\<rparr>"
  let ?s1 = "knl_wait_release_ok t ?s0"
  have cp: "?m = (\<lambda>a. if msg \<le> a \<and> a < msg + ?n then bmem s (?src + (a - msg)) else bmem s a)"
    by (rule ext) (use knl_memcpy_disjoint[of "int ?n" msg ?src] area q in \<open>simp add: rcv_area_def disjoint_areas_def\<close>)
  have keep: "msg_bytes ?m a k = msg_bytes (bmem s) a k" if "disjoint_areas msg ?n a k" for a k
    using that by (auto simp: cp msg_bytes_def disjoint_areas_def)
  have got: "msg_bytes ?m msg ?n = smbf_bytes (bmem s) (tcb s t)"
    by (auto simp: cp msg_bytes_def smbf_bytes_def)
  have ap: "msg + ?n \<le> buffer (mbfcb s i) \<or> buffer (mbfcb s i) + nat (bufsz (mbfcb s i)) \<le> msg"
    using area by (simp add: rcv_area_def apart_def)
  have E: "mbf_ok (mbfcb s i) ?m []" using rep by (simp add: mbf_rep_def mbf_ok_def Let_def)
  have t0: "t \<in> set (que ?s0 (QMbfSnd i))" "core_inv ?s0" using q inv by simp_all
  note R = wait_release_ok_result[OF t0(2,1)]
  have Q: "que ?s1 (QWait v) = (if v = WMbfSnd i then ts else que s (QWait v))" for v
    using wait_release_ok_queue[OF t0(2), of "WMbfSnd i" t ts v] q by simp
  have "sender_ok (mbfcb s i) (tcb ?s1 u) = sender_ok (mbfcb s i) (tcb s u)" for u
    by (rule sender_ok_cong) (simp_all add: R(2))
  then have rep1: "mbf_rep ?s1 i []" using rep E Q q by (auto simp: mbf_rep_def)
  have W: "woken i [] r ?s1 (knl_mbf_wakeup i ?s1)"
    using mbf_wakeup_admits[OF R(1) rep1] Q[of "WMbfSnd i"] R(2)
    by (simp add: r_def mbf_admitted_def smbf_len_def)
  have rs: "set r \<subseteq> set ts" unfolding r_def mbf_admitted_def using admit_prefix by (metis set_append Un_upper1)
  have nt: "t \<notin> set ts" using core_inv_distinct[OF inv, of "QMbfSnd i"] q by simp
  have b: "smbf_bytes (bmem ?s1) (tcb ?s1 u) = smbf_bytes (bmem s) (tcb s u)" if "u \<in> set r" for u
  proof -
    have "disjoint_areas msg ?n (winfo_smbf_msg (winfo (tcb s u))) (smbf_len (tcb s u))"
      using area that rs q by (auto simp: rcv_area_def)
    moreover have "winfo (tcb ?s1 u) = winfo (tcb s u)" by (simp add: R(2))
    ultimately show ?thesis using keep by (simp add: smbf_bytes_def smbf_len_def)
  qed
  then have mp: "map (\<lambda>t. smbf_bytes (bmem ?s1) (tcb ?s1 t)) r = map (\<lambda>t. smbf_bytes (bmem s) (tcb s t)) r"
    by simp
  have sv: "served r (served [t] (tcb s)) = served (t # r) (tcb s)"
    using served_append[of "[t]" r] nt rs by auto
  note D = wokenD[OF W]
  have o: "mbf_others s (knl_mbf_wakeup i ?s1)"
    using D(9) mbf_others_trans[of s ?s0 ?s1] mbf_others_trans[of s ?s1] by simp
  have "knl_mbf_empty (mbfcb s i)" using mbf_ok_empty rep by (auto simp: mbf_rep_def)
  then have e: "tk_rcv_mbf oid msg p tmout s = (Ret (int ?n), END_CRITICAL_SECTION (knl_mbf_wakeup i ?s1))"
    using tk_rcv_mbf_ok[OF ok] q by (simp add: i_def n)
  show thesis
    by (rule that[OF e]) (use D(1-3,6) D(4)[unfolded mp] D(5)[of msg ?n] R(2) Q got o sv area in \<open>simp_all add: rcv_area_def\<close>)
qed

text \<open>With an empty ring and no sender the receiver waits, first come first served.\<close>

lemma rmbf_wait_eq:
  assumes "tmout \<noteq> TMO_POL"
  shows "que_insert c (QMbfRcv i) (knl_make_wait c tmout (upd_tcb c (\<lambda>b. b\<lparr>wspec := knl_wspec_rmbf,
      wid := oid, wercd := Some E_TMOUT, winfo := wi\<rparr>) s)) =
    knl_gcb_make_wait (WMbfRcv i) oid 0 c tmout (prepare_wait c knl_wspec_rmbf wi s)"
proof -
  have "upd_tcb c (\<lambda>b. b\<lparr>wspec := knl_wspec_rmbf, wid := oid, wercd := Some E_TMOUT, winfo := wi\<rparr>) s =
      upd_tcb c (wid_update (\<lambda>_. oid)) (set_wercd c E_TMOUT (prepare_wait c knl_wspec_rmbf wi s))"
    by (simp add: prepare_wait_def kdefs)
      (rule arg_cong[where f = "\<lambda>b. s\<lparr>tcb := (tcb s)(c := b)\<rparr>"], rule TCB.equality, simp_all)
  then show ?thesis using assms by (simp add: knl_gcb_make_wait_def)
qed

lemma tk_rcv_mbf_waits:
  assumes inv: "core_inv s" and ok: "rcv_mbf_ok oid tmout s"
    and c: "ctxtsk s = Some c" "state (tcb s c) = TS_READY"
  defines "i \<equiv> INDEX_OBJ oid"
  assumes rep: "mbf_rep s i []" and q: "que s (QMbfSnd i) = []"
  obtains s' where "tk_rcv_mbf oid msg p tmout s = (wait_ret tmout, s')" "core_inv s'"
    "\<And>v. que s' (QWait v) = (if v = WMbfRcv i \<and> tmout \<noteq> TMO_POL then que s (QWait v) @ [c] else que s (QWait v))"
    "tmout \<noteq> TMO_POL \<Longrightarrow> winfo (tcb s' c) = WINFO_RMBF msg p \<and> state (tcb s' c) = TS_WAIT"
    "\<And>t. t \<noteq> c \<Longrightarrow> tcb s' t = tcb s t"
    "mbfcb s' = mbfcb s" "bmem s' = bmem s" "umem s' = umem s" "mbf_others s s'"
proof -
  have E: "knl_mbf_empty (mbfcb s i)" using mbf_ok_empty rep by (auto simp: mbf_rep_def)
  show thesis
  proof (cases "tmout = TMO_POL")
    case True
    then have "tk_rcv_mbf oid msg p tmout s = (wait_ret tmout, END_CRITICAL_SECTION s)"
      using tk_rcv_mbf_ok[OF ok c(1)] E q by (simp add: i_def wait_ret_def)
    then show thesis by (rule that) (use inv True in simp_all)
  next
    case False
    let ?s = "knl_gcb_make_wait (WMbfRcv i) oid 0 c tmout (prepare_wait c knl_wspec_rmbf (WINFO_RMBF msg p) s)"
    have e: "tk_rcv_mbf oid msg p tmout s = (wait_ret tmout, END_CRITICAL_SECTION ?s)"
      using tk_rcv_mbf_ok[OF ok c(1), of msg p, unfolded rmbf_wait_eq[OF False]] E q False
      by (simp add: i_def wait_ret_def)
    have wh: "wait_home knl_wspec_rmbf oid = Some (QMbfRcv i)" by (simp add: i_def)
    note B = block_on[OF inv c wh, where objatr = 0 and wi = "WINFO_RMBF msg p" and tmout = tmout]
    have "que ?s (QWait v) = (if v = WMbfRcv i \<and> tmout \<noteq> TMO_POL then que s (QWait v) @ [c] else que s (QWait v))" for v
      using B(4)[where w' = v] by (simp add: wait_enqueue_def)
    then show thesis
      by (intro that[OF e])
        (use B(1-3,6,10) False mbf_others_kernel[OF B(5)] mbfst_kframe[OF B(5)] in simp_all)
  qed
qed

section \<open>Sending\<close>

definition snd_mbf_ok :: "ID \<Rightarrow> int \<Rightarrow> TMO \<Rightarrow> 'a mbfstate_scheme \<Rightarrow> bool" where
  "snd_mbf_ok oid msgsz tmout s \<longleftrightarrow> mbf_call_ok oid s \<and> 0 < msgsz \<and>
     msgsz \<le> maxmsz (mbfcb s (INDEX_OBJ oid)) \<and> TMO_FEVR \<le> tmout \<and> (tmout = TMO_POL \<or> \<not> in_ddsp s)"

text \<open>The caller may store at once: it is a handler, or no task is before it in the send queue.\<close>

definition snd_first :: "nat \<Rightarrow> 'a mbfstate_scheme \<Rightarrow> bool" where
  "snd_first i s \<longleftrightarrow> in_indp s \<or>
     (let c = the (ctxtsk s) in knl_gcb_top_of_wait_queue (WMbfSnd i) (mbfatr (mbfcb s i)) c s = c)"

definition smbf_wspec :: "MBFCB \<Rightarrow> WSPEC" where
  "smbf_wspec cb = (if mbfatr cb AND TA_TPRI \<noteq> 0 then knl_wspec_smbf_tpri else knl_wspec_smbf_tfifo)"

lemma wait_home_smbf [simp]: "wait_home (smbf_wspec cb) oid = Some (QMbfSnd (INDEX_OBJ oid))"
  by (simp add: smbf_wspec_def)

lemma tk_snd_mbf_error:
  assumes "\<not> snd_mbf_ok oid msgsz tmout s"
  shows "\<exists>e<0. fst (tk_snd_mbf oid msg msgsz tmout s) = Ret e"
    "snd (tk_snd_mbf oid msg msgsz tmout s) = s \<or>
     snd (tk_snd_mbf oid msg msgsz tmout s) = END_CRITICAL_SECTION s"
  using assms
  by (auto simp: tk_snd_mbf_def Let_def check_defs CHECK_DISPATCH_POL_def consts_defs snd_mbf_ok_def mbf_call_ok_def)

lemma tk_snd_mbf_ok:
  assumes "snd_mbf_ok oid msgsz tmout s"
  shows "tk_snd_mbf oid msg msgsz tmout s =
    (let i = INDEX_OBJ oid in
     case que s (QMbfRcv i) of
       t # _ \<Rightarrow> (Ret E_OK, END_CRITICAL_SECTION (knl_wait_release_ok t
          (s\<lparr>umem := (umem s)(winfo_rmbf_p_msgsz (winfo (tcb s t)) := word_of_int msgsz),
             bmem := knl_memcpy (winfo_rmbf_msg (winfo (tcb s t))) msg msgsz (bmem s)\<rparr>)))
     | [] \<Rightarrow> if snd_first i s \<and> knl_mbf_free (mbfcb s i) msgsz
             then (Ret E_OK, END_CRITICAL_SECTION (msg_to_mbf i msg msgsz s))
             else if tmout \<noteq> TMO_POL then
               (Blocked, END_CRITICAL_SECTION (knl_gcb_make_wait (WMbfSnd i) (mbfid (mbfcb s i))
                  (mbfatr (mbfcb s i)) (the (ctxtsk s)) tmout
                  (prepare_wait (the (ctxtsk s)) (smbf_wspec (mbfcb s i)) (WINFO_SMBF msg msgsz) s)))
             else (Ret E_TMOUT, END_CRITICAL_SECTION s))"
proof -
  have "CHK_OBJID NUM_MBFID oid" "mbfid (mbfcb s (INDEX_OBJ oid)) \<noteq> 0" "tmout \<ge> TMO_FEVR" "0 < msgsz"
    "\<not> maxmsz (mbfcb s (INDEX_OBJ oid)) < msgsz" "\<not> (tmout \<noteq> TMO_POL \<and> in_ddsp s)"
    using assms by (auto simp: snd_mbf_ok_def mbf_call_ok_def)
  then have e: "first_err [CHECK_OBJID NUM_MBFID oid, CHECK_PAR (0 < msgsz), CHECK_TMOUT tmout,
      CHECK_DISPATCH_POL tmout s] = E_OK"
    by (auto simp: check_defs CHECK_DISPATCH_POL_def)
  with \<open>mbfid (mbfcb s (INDEX_OBJ oid)) \<noteq> 0\<close> \<open>\<not> maxmsz (mbfcb s (INDEX_OBJ oid)) < msgsz\<close>
  show ?thesis
    unfolding tk_snd_mbf_def Let_def e by (auto simp: snd_first_def smbf_wspec_def Let_def split: list.split)
qed

text \<open>A waiting receiver gets the bytes and the size at once.\<close>

lemma tk_snd_mbf_delivers:
  assumes inv: "core_inv s" and ok: "snd_mbf_ok oid (int n) tmout s"
  defines "i \<equiv> INDEX_OBJ oid"
  assumes q: "que s (QMbfRcv i) = t # ts" and wi: "winfo (tcb s t) = WINFO_RMBF dst p"
    and area: "disjoint_areas dst n msg n"
  obtains s' where "tk_snd_mbf oid msg (int n) tmout s = (Ret E_OK, s')" "core_inv s'"
    "tcb s' = served [t] (tcb s)" "que s' (QMbfRcv i) = ts"
    "msg_bytes (bmem s') dst n = msg_bytes (bmem s) msg n" "umem s' = (umem s)(p := of_nat n)"
    "mbfcb s' = mbfcb s" "mbf_others s s'"
    "\<And>v. v \<noteq> WMbfRcv i \<Longrightarrow> que s' (QWait v) = que s (QWait v)"
proof -
  let ?m = "knl_memcpy dst msg (int n) (bmem s)"
  let ?s0 = "s\<lparr>umem := (umem s)(p := word_of_int (int n)), bmem := ?m\<rparr>"
  have t0: "t \<in> set (que ?s0 (QMbfRcv i))" "core_inv ?s0"
    using q inv core_inv_cong[of ?s0 s] by simp_all
  note R = wait_release_ok_result[OF t0(2,1)]
  have Q: "que (knl_wait_release_ok t ?s0) (QWait v) = (if v = WMbfRcv i then ts else que s (QWait v))" for v
    using wait_release_ok_queue[OF t0(2), of "WMbfRcv i" t ts v] q by simp
  have "?m = (\<lambda>a. if dst \<le> a \<and> a < dst + n then bmem s (msg + (a - dst)) else bmem s a)"
    by (rule ext) (use knl_memcpy_disjoint[of "int n" dst msg] area in \<open>simp add: disjoint_areas_def\<close>)
  then have by': "msg_bytes ?m dst n = msg_bytes (bmem s) msg n" by (auto simp: msg_bytes_def)
  have e: "tk_snd_mbf oid msg (int n) tmout s = (Ret E_OK, END_CRITICAL_SECTION (knl_wait_release_ok t ?s0))"
    using tk_snd_mbf_ok[OF ok] q wi by (simp add: i_def)
  have o: "mbf_others s (knl_wait_release_ok t ?s0)"
    by (rule mbf_others_trans[of _ ?s0]) simp_all
  show thesis by (rule that[OF e]) (use R Q by' o in simp_all)
qed

text \<open>Without a receiver the message is appended if it fits and nobody is before the caller.\<close>

lemma tk_snd_mbf_stores:
  assumes inv: "core_inv s" and ok: "snd_mbf_ok oid (int n) tmout s" "n < 2 ^ 31"
  defines "i \<equiv> INDEX_OBJ oid"
  assumes q: "que s (QMbfRcv i) = []" and rep: "mbf_rep s i xs"
    and first: "snd_first i s" and free: "4 + rnd n \<le> nat (bufsz (mbfcb s i)) - mbf_used xs"
    and area: "apart (mbfcb s i) msg n"
  obtains s' where "tk_snd_mbf oid msg (int n) tmout s = (Ret E_OK, s')" "core_inv s'"
    "mbf_rep s' i (xs @ [msg_bytes (bmem s) msg n])" "tcb s' = tcb s" "que s' = que s" "umem s' = umem s"
    "mbf_others s s'"
proof -
  have ok': "mbf_ok (mbfcb s i) (bmem s) xs" using rep by (simp add: mbf_rep_def)
  have f: "knl_mbf_free (mbfcb s i) (int n)" using mbf_ok_space[OF ok' ok(2)] free by simp
  note M = msg_to_mbf_step[OF ok' f ok(2) area]
  let ?s = "msg_to_mbf i msg (int n) s"
  have "buffer (mbfcb ?s i) = buffer (mbfcb s i)" "bufsz (mbfcb ?s i) = bufsz (mbfcb s i)"
    by (subst M(3); simp)+
  then have "sender_ok (mbfcb ?s i) b = sender_ok (mbfcb s i) b" for b by (intro sender_ok_cong) simp_all
  then have rep': "mbf_rep ?s i (xs @ [msg_bytes (bmem s) msg n])" using rep M(1) by (simp add: mbf_rep_def)
  have e: "tk_snd_mbf oid msg (int n) tmout s = (Ret E_OK, END_CRITICAL_SECTION ?s)"
    using tk_snd_mbf_ok[OF ok(1)] q first f by (simp add: i_def)
  show thesis by (rule that[OF e]) (use inv rep' in \<open>simp_all add: mbf_rep_def\<close>)
qed

text \<open>Otherwise the caller waits in the send queue, or gives up at once when it polls.\<close>

lemma tk_snd_mbf_waits:
  assumes inv: "core_inv s" and ok: "snd_mbf_ok oid (int n) tmout s" "n < 2 ^ 31"
    and c: "ctxtsk s = Some c" "state (tcb s c) = TS_READY"
  defines "i \<equiv> INDEX_OBJ oid"
  assumes q: "que s (QMbfRcv i) = []" and rep: "mbf_rep s i xs" and live: "mbfid (mbfcb s i) = ID_OBJ i"
    and full: "\<not> snd_first i s \<or> nat (bufsz (mbfcb s i)) - mbf_used xs < 4 + rnd n"
  obtains s' where "tk_snd_mbf oid msg (int n) tmout s = (wait_ret tmout, s')" "core_inv s'"
    "que s' (QMbfSnd i) = (if tmout = TMO_POL then que s (QMbfSnd i)
       else wait_enqueue (mbfatr (mbfcb s i)) (tcb s) c (que s (QMbfSnd i)))"
    "tmout \<noteq> TMO_POL \<Longrightarrow> winfo (tcb s' c) = WINFO_SMBF msg (int n) \<and> state (tcb s' c) = TS_WAIT"
    "\<And>t. t \<noteq> c \<Longrightarrow> tcb s' t = tcb s t" "mbfcb s' = mbfcb s" "bmem s' = bmem s" "mbf_others s s'"
proof -
  have ok': "mbf_ok (mbfcb s i) (bmem s) xs" using rep by (simp add: mbf_rep_def)
  have f: "\<not> (snd_first i s \<and> knl_mbf_free (mbfcb s i) (int n))"
    using mbf_ok_space[OF ok' ok(2)] full by auto
  note snd = tk_snd_mbf_ok[OF ok(1), of msg, folded i_def, unfolded Let_def if_not_P[OF f]]
  show thesis
  proof (cases "tmout = TMO_POL")
    case True
    then have "tk_snd_mbf oid msg (int n) tmout s = (wait_ret tmout, END_CRITICAL_SECTION s)"
      using snd q by (simp add: wait_ret_def)
    then show thesis by (rule that) (use inv True in simp_all)
  next
    case False
    let ?a = "mbfatr (mbfcb s i)" and ?ws = "smbf_wspec (mbfcb s i)"
    let ?s = "knl_gcb_make_wait (WMbfSnd i) (mbfid (mbfcb s i)) ?a c tmout (prepare_wait c ?ws (WINFO_SMBF msg (int n)) s)"
    have e: "tk_snd_mbf oid msg (int n) tmout s = (wait_ret tmout, END_CRITICAL_SECTION ?s)"
      using snd q False c by (simp add: wait_ret_def)
    have wh: "wait_home ?ws (mbfid (mbfcb s i)) = Some (QMbfSnd i)" by (simp add: live)
    note B = block_on[OF inv c wh, where objatr = ?a and wi = "WINFO_SMBF msg (int n)" and tmout = tmout]
    show thesis
      by (intro that[OF e])
        (use B(1-3,10) B(4)[where w' = "WMbfSnd i"] False mbf_others_kernel[OF B(5)] mbfst_kframe[OF B(5)] in simp_all)
  qed
qed

end
