(* ===== verification/Mutex.thy ===== *)
theory Mutex
  imports Messagebuf
begin

text \<open>
  The mutex of \<^verbatim>\<open>kernel/tkernel/mutex.c\<close> with its inheritance and ceiling protocols, and
  \<^verbatim>\<open>knl_change_task_priority\<close> of \<^verbatim>\<open>task.c\<close>, which calls the priority hooks of all object
  managers. The list of mutexes a task holds (\<^verbatim>\<open>tcb->mtxlist\<close> linked by
  \<^verbatim>\<open>mtxcb->mtxlist\<close>) is kept as the list \<open>mtxlist\<close> of its TCB.

  A change of priority follows the chain of owners: a waiting task's mutex, its owner, the mutex
  the owner waits for, and so on. On a deadlocked cycle the chain has no end, so the function is a
  partial one whose value \<open>None\<close> means that it does not return; it is shown to return whenever the
  chain of owners is finite.
\<close>

section \<open>State\<close>

record MTXCB =
  mtxid :: ID
  mtx_exinf :: addr
  mtxatr :: ATR
  ceilpri :: nat
  mtxtsk :: "nat option"

record T_CMTX =
  cmtx_exinf :: addr
  cmtx_mtxatr :: ATR
  cmtx_ceilpri :: PRI

record T_RMTX =
  rmtx_exinf :: addr
  rmtx_htsk :: ID
  rmtx_wtsk :: ID

record mtxstate = mbfstate +
  mtxcb :: "nat \<Rightarrow> MTXCB"
  free_mtxcb :: "nat list"

definition upd_mtxcb :: "nat \<Rightarrow> (MTXCB \<Rightarrow> MTXCB) \<Rightarrow> 'a mtxstate_scheme \<Rightarrow> 'a mtxstate_scheme" where
  [kdefs]: "upd_mtxcb i f s = s\<lparr>mtxcb := (mtxcb s)(i := f (mtxcb s i))\<rparr>"

section \<open>Operations\<close>

definition knl_mutex_initialize :: "'a mtxstate_scheme \<Rightarrow> ER \<times> 'a mtxstate_scheme" where
  "knl_mutex_initialize s =
     (if NUM_MTXID < 1 then (E_SYS, s)
      else (E_OK,
        fold (\<lambda>i st. (upd_mtxcb i (mtxid_update (\<lambda>_. 0)) st)\<lparr>free_mtxcb := free_mtxcb st @ [i]\<rparr>)
          [0..<NUM_MTXID] (s\<lparr>free_mtxcb := []\<rparr>)))"

definition mtx_kind :: "MTXCB \<Rightarrow> ATR" where
  "mtx_kind cb = mtxatr cb AND TA_CEILING"

definition mtx_waited :: "nat \<Rightarrow> 'a kstate_scheme \<Rightarrow> bool" where
  "mtx_waited i s \<longleftrightarrow> que s (QMtx i) \<noteq> []"

definition mtx_head_pri :: "nat \<Rightarrow> 'a kstate_scheme \<Rightarrow> nat" where
  "mtx_head_pri i s = priority (tcb s (hd (que s (QMtx i))))"

text \<open>
  The loop of \<^verbatim>\<open>knl_release_mutex\<close> over the held mutexes: it drops the released one from the
  list and keeps the highest priority seen. \<open>pri\<close> keeps its value over a mutex that sets none.
\<close>

fun release_mutex_loop ::
    "'a mtxstate_scheme \<Rightarrow> nat option \<Rightarrow> nat list \<Rightarrow> nat \<Rightarrow> nat \<Rightarrow> nat list \<times> nat" where
  "release_mutex_loop s rel [] newpri pri = ([], newpri)"
| "release_mutex_loop s rel (m # ms) newpri pri =
     (if rel = Some m then release_mutex_loop s rel ms newpri pri
      else
        let cb = mtxcb s m;
            pri' = (if mtx_kind cb = TA_CEILING then ceilpri cb
                    else if mtx_kind cb = TA_INHERIT \<and> mtx_waited m s then mtx_head_pri m s
                    else pri);
            newpri' = (if newpri > pri' then pri' else newpri);
            (l, n) = release_mutex_loop s rel ms newpri' pri'
        in (m # l, n))"

text \<open>The ready branch of \<^verbatim>\<open>knl_change_task_priority\<close>.\<close>

definition change_ready_priority :: "nat \<Rightarrow> nat \<Rightarrow> 'a kstate_scheme \<Rightarrow> 'a kstate_scheme" where
  "change_ready_priority t pri s =
     knl_reschedule (snd (knl_ready_queue_insert t
       (upd_tcb t (priority_update (\<lambda>_. pri)) (knl_ready_queue_delete t s))))"

text \<open>
  The priority hooks of the wait specifications other than those of the mutex. Those of the rendezvous
  port (\<^verbatim>\<open>rendezvous.c\<close>) and of the fixed-size memory pool (\<^verbatim>\<open>mempfix.c\<close>) only reorder
  the queue.
\<close>

definition cal_chg_pri :: "nat \<Rightarrow> int \<Rightarrow> 'a kstate_scheme \<Rightarrow> 'a kstate_scheme" where
  "cal_chg_pri t oldpri s = knl_gcb_change_priority (WPorCal (INDEX_OBJ (wid (tcb s t)))) t s"

definition knl_mpf_chg_pri :: "nat \<Rightarrow> int \<Rightarrow> 'a kstate_scheme \<Rightarrow> 'a kstate_scheme" where
  "knl_mpf_chg_pri t oldpri s = knl_gcb_change_priority (WMpf (INDEX_OBJ (wid (tcb s t)))) t s"

definition obj_chg_pri :: "nat \<Rightarrow> int \<Rightarrow> 'a mbfstate_scheme \<Rightarrow> 'a mbfstate_scheme" where
  "obj_chg_pri t oldpri s =
     (case wspec (tcb s t) of
        knl_wspec_sem_tpri \<Rightarrow> sem_chg_pri t oldpri s
      | knl_wspec_flg_tpri \<Rightarrow> flg_chg_pri t oldpri s
      | knl_wspec_mbx_tpri \<Rightarrow> mbx_chg_pri t oldpri s
      | knl_wspec_smbf_tpri \<Rightarrow> knl_mbf_chg_pri t oldpri s
      | knl_wspec_cal_tpri \<Rightarrow> cal_chg_pri t oldpri s
      | knl_wspec_mpf_tpri \<Rightarrow> knl_mpf_chg_pri t oldpri s
      | _ \<Rightarrow> s)"

definition mtx_hook_spec :: "WSPEC \<Rightarrow> bool" where
  "mtx_hook_spec w \<longleftrightarrow> w = knl_wspec_mtx_tpri \<or> w = knl_wspec_mtx_inherit"

text \<open>
  \<^verbatim>\<open>knl_change_task_priority\<close>, with the hook \<^verbatim>\<open>mtx_chg_pri\<close> and the
  \<^verbatim>\<open>knl_release_mutex(mtxtsk, NULL)\<close> it calls written out, since these call back into it;
  \<open>change_task_priority_unfold\<close> below states it with the calls.
\<close>

partial_function (option) knl_change_task_priority ::
    "nat \<Rightarrow> nat \<Rightarrow> 'a mtxstate_scheme \<Rightarrow> 'a mtxstate_scheme option" where
  "knl_change_task_priority t pri s =
     (if state (tcb s t) = TS_READY then Some (change_ready_priority t pri s)
      else
        let oldpri = priority (tcb s t);
            s1 = upd_tcb t (priority_update (\<lambda>_. pri)) s
        in if \<not> in_wait (state (tcb s1 t)) then Some s1
           else if \<not> mtx_hook_spec (wspec (tcb s1 t)) then Some (obj_chg_pri t (int oldpri) s1)
           else
             let i = INDEX_OBJ (wid (tcb s1 t));
                 s2 = knl_gcb_change_priority (WMtx i) t s1;
                 mt = the (mtxtsk (mtxcb s2 i))
             in if mtx_kind (mtxcb s2 i) \<noteq> TA_INHERIT then Some s2
                else if priority (tcb s2 mt) > priority (tcb s2 t)
                  then knl_change_task_priority mt (priority (tcb s2 t)) s2
                else if priority (tcb s2 mt) = oldpri then
                  let ln = release_mutex_loop s2 None (mtxlist (tcb s2 mt))
                             (bpriority (tcb s2 mt)) (bpriority (tcb s2 mt));
                      s3 = upd_tcb mt (mtxlist_update (\<lambda>_. fst ln)) s2
                  in if snd ln \<noteq> priority (tcb s3 mt) then knl_change_task_priority mt (snd ln) s3
                     else Some s3
                else Some s2)"

definition knl_release_mutex :: "nat \<Rightarrow> nat option \<Rightarrow> 'a mtxstate_scheme \<Rightarrow> 'a mtxstate_scheme option" where
  "knl_release_mutex t rel s =
     (let ln = release_mutex_loop s rel (mtxlist (tcb s t)) (bpriority (tcb s t)) (bpriority (tcb s t));
          s1 = upd_tcb t (mtxlist_update (\<lambda>_. fst ln)) s
      in if snd ln \<noteq> priority (tcb s1 t) then knl_change_task_priority t (snd ln) s1 else Some s1)"

definition mtx_chg_pri :: "nat \<Rightarrow> int \<Rightarrow> 'a mtxstate_scheme \<Rightarrow> 'a mtxstate_scheme option" where
  "mtx_chg_pri t oldpri s =
     (let i = INDEX_OBJ (wid (tcb s t));
          s1 = knl_gcb_change_priority (WMtx i) t s;
          mt = the (mtxtsk (mtxcb s1 i))
      in if mtx_kind (mtxcb s1 i) = TA_INHERIT then
           if priority (tcb s1 mt) > priority (tcb s1 t)
             then knl_change_task_priority mt (priority (tcb s1 t)) s1
           else if int (priority (tcb s1 mt)) = oldpri then knl_release_mutex mt None s1
           else Some s1
         else Some s1)"

definition mtx_rel_wai :: "nat \<Rightarrow> 'a mtxstate_scheme \<Rightarrow> 'a mtxstate_scheme option" where
  "mtx_rel_wai t s =
     (let i = INDEX_OBJ (wid (tcb s t)); mt = the (mtxtsk (mtxcb s i))
      in if priority (tcb s mt) = priority (tcb s t) then knl_release_mutex mt None s else Some s)"

text \<open>The next owner of a mutex, in \<^verbatim>\<open>tk_unl_mtx\<close> and \<^verbatim>\<open>knl_signal_all_mutex\<close>.\<close>

definition pass_mutex :: "nat \<Rightarrow> 'a mtxstate_scheme \<Rightarrow> 'a mtxstate_scheme option" where
  "pass_mutex i s =
     (case que s (QMtx i) of
        t # _ \<Rightarrow>
          let s1 = knl_wait_release_ok t s;
              s2 = upd_mtxcb i (mtxtsk_update (\<lambda>_. Some t)) s1;
              s3 = upd_tcb t (\<lambda>b. b\<lparr>mtxlist := i # mtxlist b\<rparr>) s2
          in if mtx_kind (mtxcb s3 i) = TA_CEILING \<and> priority (tcb s3 t) > ceilpri (mtxcb s3 i)
             then knl_change_task_priority t (ceilpri (mtxcb s3 i)) s3
             else Some s3
      | [] \<Rightarrow> Some (upd_mtxcb i (mtxtsk_update (\<lambda>_. None)) s))"

fun signal_all_loop :: "nat list \<Rightarrow> 'a mtxstate_scheme \<Rightarrow> 'a mtxstate_scheme option" where
  "signal_all_loop [] s = Some s"
| "signal_all_loop (m # ms) s = Option.bind (pass_mutex m s) (signal_all_loop ms)"

definition knl_signal_all_mutex :: "nat \<Rightarrow> 'a mtxstate_scheme \<Rightarrow> 'a mtxstate_scheme option" where
  "knl_signal_all_mutex t s = signal_all_loop (mtxlist (tcb s t)) s"

fun chg_pri_mutex_loop ::
    "'a mtxstate_scheme \<Rightarrow> nat list \<Rightarrow> int \<Rightarrow> int \<Rightarrow> int \<Rightarrow> int \<times> int" where
  "chg_pri_mutex_loop s [] hi low pri = (hi, low)"
| "chg_pri_mutex_loop s (m # ms) hi low pri =
     (let cb = mtxcb s m;
          pri' = (if mtx_kind cb = TA_CEILING then int (ceilpri cb)
                  else if mtx_kind cb = TA_INHERIT \<and> mtx_waited m s then int (mtx_head_pri m s)
                  else pri);
          low' = (if mtx_kind cb = TA_CEILING \<and> int (ceilpri cb) > low then int (ceilpri cb) else low);
          hi' = (if pri' < hi then pri' else hi)
      in chg_pri_mutex_loop s ms hi' low' pri')"

definition knl_chg_pri_mutex :: "nat \<Rightarrow> int \<Rightarrow> 'a mtxstate_scheme \<Rightarrow> int" where
  "knl_chg_pri_mutex t pri s =
     (let b = tcb s t; cb = mtxcb s (INDEX_OBJ (wid b));
          low0 = int_priority MIN_TSKPRI;
          low = (if in_wait (state b) \<and> tskwait (wspec b) AND 0x80 \<noteq> 0 \<and> mtx_kind cb = TA_CEILING \<and>
                    int (ceilpri cb) > low0
                 then int (ceilpri cb) else low0);
          hl = chg_pri_mutex_loop s (mtxlist b) pri low pri
      in if pri < snd hl then E_ILUSE else fst hl)"

definition CHECK_PRI :: "PRI \<Rightarrow> ER" where
  "CHECK_PRI pri = (if \<not> CHK_PRI pri then E_PAR else E_OK)"

definition cre_mtx :: "T_CMTX \<times> nat \<Rightarrow> 'a mtxstate_scheme \<Rightarrow> ID \<times> 'a mtxstate_scheme" where
  "cre_mtx pc s =
     (case free_mtxcb s of
        [] \<Rightarrow> (E_LIMIT, s)
      | i # fs \<Rightarrow>
          let mtxid' = ID_OBJ i;
              s1 = que_init (QMtx i) (s\<lparr>free_mtxcb := fs\<rparr>)
          in (mtxid', upd_mtxcb i (\<lambda>cb. cb\<lparr>mtxid := mtxid', mtx_exinf := cmtx_exinf (fst pc),
                 mtxatr := cmtx_mtxatr (fst pc), ceilpri := snd pc, mtxtsk := None\<rparr>) s1))"

definition tk_cre_mtx :: "T_CMTX \<Rightarrow> 'a mtxstate_scheme \<Rightarrow> sysret \<times> 'a mtxstate_scheme" where
  "tk_cre_mtx pk s =
     (let ceil = cmtx_mtxatr pk AND TA_CEILING = TA_CEILING;
          e = first_err (CHECK_RSATR (cmtx_mtxatr pk) TA_CEILING #
                (if ceil then [CHECK_PRI (cmtx_ceilpri pk)] else []));
          c = (if ceil then nat (int_priority (cmtx_ceilpri pk)) else 0)
      in if e < E_OK then (Ret e, s)
         else let (r, s1) = cre_mtx (pk, c) s in (Ret r, END_CRITICAL_SECTION s1))"

definition free_mtx :: "nat \<Rightarrow> 'a mtxstate_scheme \<Rightarrow> 'a mtxstate_scheme" where
  "free_mtx i s =
     (let s1 = knl_wait_delete (WMtx i) s
      in upd_mtxcb i (mtxid_update (\<lambda>_. 0)) (s1\<lparr>free_mtxcb := free_mtxcb s1 @ [i]\<rparr>))"

definition tk_del_mtx :: "ID \<Rightarrow> 'a mtxstate_scheme \<Rightarrow> (sysret \<times> 'a mtxstate_scheme) option" where
  "tk_del_mtx oid s =
     (let e = CHECK_OBJID NUM_MTXID oid; i = INDEX_OBJ oid
      in if e < E_OK then Some (Ret e, s)
         else if mtxid (mtxcb s i) = 0 then Some (Ret E_NOEXS, END_CRITICAL_SECTION s)
         else
           map_option (\<lambda>s1. (Ret E_OK, END_CRITICAL_SECTION (free_mtx i s1)))
             (case mtxtsk (mtxcb s i) of
                Some t \<Rightarrow> knl_release_mutex t (Some i) s
              | None \<Rightarrow> Some s))"

text \<open>Taking a free mutex, and waiting for one that is held.\<close>

definition take_mutex :: "nat \<Rightarrow> nat \<Rightarrow> 'a mtxstate_scheme \<Rightarrow> 'a mtxstate_scheme option" where
  "take_mutex i c s =
     (let s1 = upd_mtxcb i (mtxtsk_update (\<lambda>_. Some c)) s;
          s2 = upd_tcb c (\<lambda>b. b\<lparr>mtxlist := i # mtxlist b\<rparr>) s1
      in if mtx_kind (mtxcb s2 i) = TA_CEILING \<and> priority (tcb s2 c) > ceilpri (mtxcb s2 i)
         then knl_change_task_priority c (ceilpri (mtxcb s2 i)) s2
         else Some s2)"

definition mtx_wspec :: "MTXCB \<Rightarrow> WSPEC" where
  "mtx_wspec cb = (if mtx_kind cb = TA_TFIFO then knl_wspec_mtx_tfifo
                   else if mtx_kind cb = TA_INHERIT then knl_wspec_mtx_inherit else knl_wspec_mtx_tpri)"

definition wait_mutex :: "nat \<Rightarrow> nat \<Rightarrow> TMO \<Rightarrow> 'a mtxstate_scheme \<Rightarrow> 'a mtxstate_scheme" where
  "wait_mutex i c tmout s =
     (let cb = mtxcb s i;
          s1 = upd_tcb c (\<lambda>b. b\<lparr>wspec := mtx_wspec cb, wercd := Some E_TMOUT, wid := mtxid cb\<rparr>) s;
          s2 = knl_make_wait c tmout s1
      in if mtx_kind cb = TA_TFIFO then que_insert c (QMtx i) s2
         else knl_queue_insert_tpri c (WMtx i) s2)"

definition tk_loc_mtx :: "ID \<Rightarrow> TMO \<Rightarrow> 'a mtxstate_scheme \<Rightarrow> (sysret \<times> 'a mtxstate_scheme) option" where
  "tk_loc_mtx oid tmout s =
     (let e = first_err [CHECK_OBJID NUM_MTXID oid, CHECK_TMOUT tmout, CHECK_DISPATCH s];
          i = INDEX_OBJ oid; c = the (ctxtsk s); cb = mtxcb s i
      in if e < E_OK then Some (Ret e, s)
         else if mtxid cb = 0 then Some (Ret E_NOEXS, END_CRITICAL_SECTION s)
         else if mtxtsk cb = ctxtsk s then Some (Ret E_ILUSE, END_CRITICAL_SECTION s)
         else if mtx_kind cb = TA_CEILING \<and> bpriority (tcb s c) < ceilpri cb
           then Some (Ret E_ILUSE, END_CRITICAL_SECTION s)
         else
           (case mtxtsk cb of
              None \<Rightarrow> map_option (\<lambda>s1. (Ret E_OK, END_CRITICAL_SECTION s1)) (take_mutex i c s)
            | Some mt \<Rightarrow>
                if tmout = TMO_POL then Some (Ret E_TMOUT, END_CRITICAL_SECTION s)
                else
                  map_option (\<lambda>s1. (Blocked, END_CRITICAL_SECTION (wait_mutex i c tmout s1)))
                    (if mtx_kind cb = TA_INHERIT \<and> priority (tcb s mt) > priority (tcb s c)
                     then knl_change_task_priority mt (priority (tcb s c)) s else Some s)))"

definition tk_unl_mtx :: "ID \<Rightarrow> 'a mtxstate_scheme \<Rightarrow> (sysret \<times> 'a mtxstate_scheme) option" where
  "tk_unl_mtx oid s =
     (let e = first_err [CHECK_OBJID NUM_MTXID oid, CHECK_INTSK s];
          i = INDEX_OBJ oid; c = the (ctxtsk s)
      in if e < E_OK then Some (Ret e, s)
         else if mtxid (mtxcb s i) = 0 then Some (Ret E_NOEXS, END_CRITICAL_SECTION s)
         else if mtxtsk (mtxcb s i) \<noteq> ctxtsk s then Some (Ret E_ILUSE, END_CRITICAL_SECTION s)
         else
           map_option (\<lambda>s1. (Ret E_OK, END_CRITICAL_SECTION s1))
             (Option.bind (knl_release_mutex c (Some i) s) (pass_mutex i)))"

definition tk_ref_mtx :: "ID \<Rightarrow> 'a mtxstate_scheme \<Rightarrow> T_RMTX refret" where
  "tk_ref_mtx oid s =
     (let e = CHECK_OBJID NUM_MTXID oid; i = INDEX_OBJ oid; cb = mtxcb s i
      in if e < E_OK then (e, None)
         else if mtxid cb = 0 then (E_NOEXS, None)
         else (E_OK, Some \<lparr>rmtx_exinf = mtx_exinf cb,
            rmtx_htsk = (case mtxtsk cb of Some t \<Rightarrow> tskid (tcb s t) | None \<Rightarrow> 0),
            rmtx_wtsk = knl_wait_tskid (WMtx i) s\<rparr>))"

definition td_lst_mtx :: "int \<Rightarrow> 'a mtxstate_scheme \<Rightarrow> int \<times> ID list" where
  "td_lst_mtx nent s =
     list_entries nent (filter (\<lambda>k. k \<noteq> 0) (map (\<lambda>i. mtxid (mtxcb s i)) [0..<NUM_MTXID]))"

definition td_ref_mtx :: "ID \<Rightarrow> 'a mtxstate_scheme \<Rightarrow> T_RMTX refret" where
  "td_ref_mtx oid s =
     (let e = CHECK_OBJID NUM_MTXID oid; i = INDEX_OBJ oid; cb = mtxcb s i
      in if e < E_OK then (e, None)
         else if mtxid cb = 0 then (E_NOEXS, None)
         else (E_OK, Some \<lparr>rmtx_exinf = mtx_exinf cb,
            rmtx_htsk = (case mtxtsk cb of Some t \<Rightarrow> tskid (tcb s t) | None \<Rightarrow> 0),
            rmtx_wtsk = knl_wait_tskid (WMtx i) s\<rparr>))"

definition td_mtx_que :: "ID \<Rightarrow> int \<Rightarrow> 'a mtxstate_scheme \<Rightarrow> int \<times> ID list" where
  "td_mtx_que oid nent s =
     (let e = CHECK_OBJID NUM_MTXID oid; i = INDEX_OBJ oid
      in if e < E_OK then (e, [])
         else if mtxid (mtxcb s i) = 0 then (E_NOEXS, [])
         else list_entries nent (que_tskids (QMtx i) s))"

lemma change_task_priority_unfold:
  "knl_change_task_priority t pri s =
     (if state (tcb s t) = TS_READY then Some (change_ready_priority t pri s)
      else
        let s1 = upd_tcb t (priority_update (\<lambda>_. pri)) s
        in if \<not> in_wait (state (tcb s1 t)) then Some s1
           else if mtx_hook_spec (wspec (tcb s1 t)) then mtx_chg_pri t (int (priority (tcb s t))) s1
           else Some (obj_chg_pri t (int (priority (tcb s t))) s1))"
  by (subst knl_change_task_priority.simps) (simp add: mtx_chg_pri_def knl_release_mutex_def Let_def)

section \<open>Frames\<close>

lemma mtxst_frame:
  "mbfstate.more s' = mbfstate.more s \<Longrightarrow> mtxcb s' = mtxcb s"
  "mbfstate.more s' = mbfstate.more s \<Longrightarrow> free_mtxcb s' = free_mtxcb s"
  "mbfstate.more s' = mbfstate.more s \<Longrightarrow> mtxstate.more s' = mtxstate.more s"
  by (cases s; cases s'; simp)+

lemmas mtxst_kframe = mtxst_frame[OF mbfst_kframe(4)]

lemma mtx_frame [simp, frame]:
  "mtxcb (knl_wait_release_ok t s) = mtxcb s" "free_mtxcb (knl_wait_release_ok t s) = free_mtxcb s"
  "mtxcb (knl_wait_delete w s) = mtxcb s" "free_mtxcb (knl_wait_delete w s) = free_mtxcb s"
  "mtxcb (END_CRITICAL_SECTION s) = mtxcb s" "free_mtxcb (END_CRITICAL_SECTION s) = free_mtxcb s"
  "mtxcb (knl_gcb_change_priority w t s) = mtxcb s"
  by ((rule mtxst_kframe; simp)+) (simp add: knl_gcb_change_priority_def knl_queue_insert_tpri_def que_remove_def)

lemma upd_mtxcb_fields [simp]:
  "tcb (upd_mtxcb i f s) = tcb s" "que (upd_mtxcb i f s) = que s" "ctxtsk (upd_mtxcb i f s) = ctxtsk s"
  "free_mtxcb (upd_mtxcb i f s) = free_mtxcb s" "umem (upd_mtxcb i f s) = umem s"
  "mtxcb (upd_mtxcb i f s) = (mtxcb s)(i := f (mtxcb s i))"
  by (simp_all add: upd_mtxcb_def)

lemma upd_tcb_fields [simp]:
  "que (upd_tcb t g s) = que s" "ctxtsk (upd_tcb t g s) = ctxtsk s" "umem (upd_tcb t g s) = umem s"
  "tcb (upd_tcb t g s) = (tcb s)(t := g (tcb s t))" "kstate.more (upd_tcb t g s) = kstate.more s"
  "timer_queue (upd_tcb t g s) = timer_queue s" "klocktsk (upd_tcb t g s) = klocktsk s"
  by (simp_all add: upd_tcb_def)

lemma upd_tcb_mtx_fields [simp]:
  "mtxcb (upd_tcb t g s) = mtxcb s" "free_mtxcb (upd_tcb t g s) = free_mtxcb s"
  by (simp_all add: upd_tcb_def)

lemma core_inv_mtx [simp]:
  "core_inv (upd_mtxcb i f s) = core_inv s" "core_inv (s\<lparr>free_mtxcb := x\<rparr>) = core_inv s"
  by (rule core_inv_cong; simp add: upd_mtxcb_def)+

interpretation mtx_table: object_table NUM_MTXID "\<lambda>s i. mtxid (mtxcb s i)" free_mtxcb cre_mtx free_mtx
  by unfold_locales (auto simp: cre_mtx_def free_mtx_def Let_def fun_eq_iff que_init_def)

section \<open>Hooks\<close>

lemma waiting_in:
  assumes "core_inv s" "t < NUM_TSKID" "in_wait (state (tcb s t))"
    "wait_home (wspec (tcb s t)) (wid (tcb s t)) = Some (QWait w)"
  shows "t \<in> set (que s (QWait w))"
  using assms task_inv_mem[OF core_invD(1)[OF assms(1)]] by simp

text \<open>
  What a hook does to the tasks: those in \<open>r\<close>, taken from queues of the kind \<open>K\<close>, are released,
  the queues of other kinds stay as they are.
\<close>

definition hook_rel :: "(wobj \<Rightarrow> bool) \<Rightarrow> 'a kstate_scheme \<Rightarrow> 'a kstate_scheme \<Rightarrow> bool" where
  "hook_rel K s s' \<longleftrightarrow> core_inv s' \<and> ctxtsk s' = ctxtsk s \<and>
     (\<exists>r. tcb s' = served r (tcb s) \<and> (\<forall>t\<in>set r. \<exists>w. K w \<and> t \<in> set (que s (QWait w)))) \<and>
     (\<forall>w. \<not> K w \<longrightarrow> que s' (QWait w) = que s (QWait w))"

lemma served_nil [simp]: "served [] tb = tb"
  by (rule ext) (simp add: served_def)

lemma gcb_change_hook_rel:
  assumes "core_inv s" "t \<in> set (que s (QWait w))" "K w"
  shows "hook_rel K s (knl_gcb_change_priority w t s)"
proof -
  note G = core_inv_gcb_change_priority[OF assms(1,2)]
  have "ctxtsk (knl_gcb_change_priority w t s) = ctxtsk s"
    by (simp add: knl_gcb_change_priority_def knl_queue_insert_tpri_def)
  moreover have "\<exists>r. tcb s = served r (tcb s) \<and> (\<forall>t\<in>set r. \<exists>w. K w \<and> t \<in> set (que s (QWait w)))"
    by (rule exI[of _ "[]"]) simp
  moreover have "v \<noteq> w" if "\<not> K v" for v using that assms(3) by blast
  ultimately show ?thesis using G(1,2,4) by (simp add: hook_rel_def)
qed

lemma sem_loop_hook_rel:
  assumes inv: "core_inv s"
  shows "hook_rel is_WSem s (chg_pri_sem_loop i (que s (QSem i)) s)"
    "semstate.more (chg_pri_sem_loop i (que s (QSem i)) s) = semstate.more s"
proof -
  obtain r m where g: "sem_grant False (sem_req s) (semcnt (semcb s i)) (que s (QSem i)) = (r, m)" by force
  have d: "distinct (que s (QSem i))" by (rule core_inv_distinct[OF inv])
  have l: "chg_pri_sem_loop i (que s (QSem i)) s = sem_serve_all i r s"
    by (rule chg_pri_sem_loop_serves[OF d inv _ g]) simp
  note R = sem_serve_all_result[OF inv sem_grant_distinct[OF g d] sem_grant_subset[OF g]]
  have q: "que (sem_serve_all i r s) (QWait w) = que s (QWait w)" if "\<not> is_WSem w" for w
  proof -
    have "t \<notin> set r" if "t \<in> set (que s (QWait w))" for t
      using that core_inv_one_queue[OF inv that, of "WSem i"] sem_grant_subset[OF g] \<open>\<not> is_WSem w\<close> by auto
    then show ?thesis using R by (simp add: filter_True)
  qed
  have "\<exists>r'. served r (tcb s) = served r' (tcb s) \<and> (\<forall>t\<in>set r'. \<exists>w. is_WSem w \<and> t \<in> set (que s (QWait w)))"
    using sem_grant_subset[OF g] by (intro exI[of _ r]) (auto intro!: exI[of _ "WSem i"])
  with R q show "hook_rel is_WSem s (chg_pri_sem_loop i (que s (QSem i)) s)"
    "semstate.more (chg_pri_sem_loop i (que s (QSem i)) s) = semstate.more s"
    unfolding l by (simp_all add: hook_rel_def)
qed

fun is_WMbf :: "wobj \<Rightarrow> bool" where
  "is_WMbf (WMbfSnd i) = True"
| "is_WMbf (WMbfRcv i) = True"
| "is_WMbf _ = False"

lemma hook_rel_trans_step:
  assumes a: "core_inv s1" "tcb s1 = served [t] (tcb s)" "ctxtsk s1 = ctxtsk s" "t \<in> set (que s (QWait w))" "K w"
    "\<And>v. set (que s1 (QWait v)) \<subseteq> set (que s (QWait v))" "\<And>v. \<not> K v \<Longrightarrow> que s1 (QWait v) = que s (QWait v)"
    "\<And>v. t \<notin> set (que s1 (QWait v))"
    and b: "hook_rel K s1 s'"
  shows "hook_rel K s s'"
proof -
  obtain r where r: "tcb s' = served r (tcb s1)" "\<forall>t\<in>set r. \<exists>w. K w \<and> t \<in> set (que s1 (QWait w))"
    using b by (auto simp: hook_rel_def)
  have "t \<notin> set r" using r(2) a(8) by blast
  then have "tcb s' = served (t # r) (tcb s)" using r(1) a(2) served_append[of "[t]" r "tcb s"] by simp
  moreover have "\<forall>u\<in>set (t # r). \<exists>w. K w \<and> u \<in> set (que s (QWait w))" using r(2) a(4-6) by auto blast
  ultimately have "\<exists>r. tcb s' = served r (tcb s) \<and> (\<forall>t\<in>set r. \<exists>w. K w \<and> t \<in> set (que s (QWait w)))"
    by blast
  then show ?thesis using a(3,7) b by (simp add: hook_rel_def)
qed

lemma mbf_wakeup_hook_rel:
  assumes "core_inv s"
  shows "hook_rel is_WMbf s (knl_mbf_wakeup i s) \<and> mbfstate.more (knl_mbf_wakeup i s) = mbfstate.more s"
  using assms
proof (induction i s rule: knl_mbf_wakeup.induct)
  case (1 i s)
  have nil: "hook_rel is_WMbf s s" using 1(2) by (auto simp: hook_rel_def intro!: exI[of _ "[]"])
  show ?case
  proof (cases "que s (QMbfSnd i)")
    case Nil
    with nil show ?thesis by (simp add: knl_mbf_wakeup.simps)
  next
    case (Cons t ts)
    let ?z = "winfo_smbf_msgsz (winfo (tcb s t))"
    let ?m = "msg_to_mbf i (winfo_smbf_msg (winfo (tcb s t))) ?z s"
    let ?s1 = "knl_wait_release_ok t ?m"
    show ?thesis
    proof (cases "knl_mbf_free (mbfcb s i) ?z")
      case False
      with Cons nil show ?thesis by (simp add: knl_mbf_wakeup.simps)
    next
      case True
      have t: "t \<in> set (que ?m (QMbfSnd i))" "core_inv ?m" using 1(2) Cons by simp_all
      note R = wait_release_ok_result[OF t(2,1)]
      have q: "que ?s1 (QWait v) = (if v = WMbfSnd i then ts else que s (QWait v))" for v
        using wait_release_ok_queue[OF t(2), of "WMbfSnd i" t ts v] Cons by simp
      have IH: "hook_rel is_WMbf ?s1 (knl_mbf_wakeup i ?s1)" "mbfstate.more (knl_mbf_wakeup i ?s1) = mbfstate.more ?s1"
        using 1(1)[OF Cons refl] True R(1) by auto
      have nq: "t \<notin> set (que ?s1 (QWait v))" "set (que ?s1 (QWait v)) \<subseteq> set (que s (QWait v))" for v
        by auto
      have "hook_rel is_WMbf s (knl_mbf_wakeup i ?s1)"
      proof (rule hook_rel_trans_step[OF R(1) _ _ _ _ nq(2) _ nq(1) IH(1)])
        show "que ?s1 (QWait v) = que s (QWait v)" if "\<not> is_WMbf v" for v
          using q[of v] that by auto
        show "t \<in> set (que s (QMbfSnd i))" by (simp add: Cons)
      qed (use R in simp_all)
      moreover have "mbfstate.more ?s1 = mbfstate.more s" using mbfst_kframe(4)[of ?s1 ?m] by simp
      moreover have "knl_mbf_wakeup i s = knl_mbf_wakeup i ?s1"
        using Cons True by (subst knl_mbf_wakeup.simps) simp
      ultimately show ?thesis using IH(2) by simp
    qed
  qed
qed

lemma hook_rel_compose_change:
  assumes "core_inv s" "t \<in> set (que s (QWait w))" "K w"
    "hook_rel K (knl_gcb_change_priority w t s) s'"
  shows "hook_rel K s s'"
proof -
  note G = core_inv_gcb_change_priority[OF assms(1,2)]
  have "ctxtsk (knl_gcb_change_priority w t s) = ctxtsk s"
    by (simp add: knl_gcb_change_priority_def knl_queue_insert_tpri_def)
  moreover have "v \<noteq> w" if "\<not> K v" for v using that assms(3) by blast
  ultimately show ?thesis using assms(4) G by (simp add: hook_rel_def)
qed

lemma hook_rel_mono: "hook_rel K s s' \<Longrightarrow> (\<And>w. K w \<Longrightarrow> K' w) \<Longrightarrow> hook_rel K' s s'"
  unfolding hook_rel_def by blast

fun is_WMtx :: "wobj \<Rightarrow> bool" where
  "is_WMtx (WMtx i) = True"
| "is_WMtx _ = False"

lemma kind_not_mtx: "is_WSem w \<Longrightarrow> \<not> is_WMtx w" "is_WFlg w \<Longrightarrow> \<not> is_WMtx w"
  "is_WMbx w \<Longrightarrow> \<not> is_WMtx w" "is_WMbf w \<Longrightarrow> \<not> is_WMtx w"
  by (cases w; simp)+

lemma obj_chg_pri_rel:
  assumes inv: "core_inv s" and t: "t < NUM_TSKID" "in_wait (state (tcb s t))" and p: "0 \<le> p"
  shows "hook_rel (\<lambda>w. \<not> is_WMtx w) s (obj_chg_pri t p s) \<and>
    mbfstate.more (obj_chg_pri t p s) = mbfstate.more s"
proof -
  let ?i = "INDEX_OBJ (wid (tcb s t))"
  note wi = waiting_in[OF inv t]
  have more: "kstate.more (knl_gcb_change_priority w t s) = kstate.more s" for w
    by (simp add: knl_gcb_change_priority_def knl_queue_insert_tpri_def)
  have nil: "hook_rel (\<lambda>w. \<not> is_WMtx w) s s" using inv by (auto simp: hook_rel_def intro!: exI[of _ "[]"])
  have ch: "hook_rel (\<lambda>w. \<not> is_WMtx w) s (knl_gcb_change_priority w t s)"
    if "t \<in> set (que s (QWait w))" "\<not> is_WMtx w" for w
    by (rule gcb_change_hook_rel[OF inv]) (use that in auto)
  consider (sem) "wspec (tcb s t) = knl_wspec_sem_tpri" | (flg) "wspec (tcb s t) = knl_wspec_flg_tpri"
    | (mbx) "wspec (tcb s t) = knl_wspec_mbx_tpri" | (mbf) "wspec (tcb s t) = knl_wspec_smbf_tpri"
    | (cal) "wspec (tcb s t) = knl_wspec_cal_tpri" | (mpf) "wspec (tcb s t) = knl_wspec_mpf_tpri"
    | (none) "obj_chg_pri t p s = s"
    by (cases "wspec (tcb s t)") (auto simp: obj_chg_pri_def)
  then show ?thesis
  proof cases
    case sem
    let ?g = "knl_gcb_change_priority (WSem ?i) t s"
    have q: "t \<in> set (que s (QSem ?i))" by (rule wi) (simp add: sem)
    note G = core_inv_gcb_change_priority[OF inv q]
    note L = sem_loop_hook_rel[OF G(1), of ?i]
    have "hook_rel (\<lambda>w. \<not> is_WMtx w) s (chg_pri_sem_loop ?i (que ?g (QSem ?i)) ?g)"
      by (rule hook_rel_compose_change[OF inv q]) (use hook_rel_mono[OF L(1)] kind_not_mtx(1) in auto)
    moreover have "mbfstate.more (chg_pri_sem_loop ?i (que ?g (QSem ?i)) ?g) = mbfstate.more s"
      using mbfst_frame(4)[OF mbxst_frame(5)[OF flgst_frame(3)[OF L(2)]]] mbfst_kframe(4)[OF G(5)] by simp
    ultimately show ?thesis
      using sem p ch[OF q] mbfst_kframe(4)[OF G(5)] by (simp add: obj_chg_pri_def sem_chg_pri_def Let_def)
  next
    case flg
    have q: "t \<in> set (que s (QFlg ?i))" by (rule wi) (simp add: flg)
    then show ?thesis using flg ch[OF q] mbfst_kframe(4)[OF more] by (simp add: obj_chg_pri_def flg_chg_pri_def)
  next
    case mbx
    have q: "t \<in> set (que s (QMbx ?i))" by (rule wi) (simp add: mbx)
    then show ?thesis using mbx ch[OF q] mbfst_kframe(4)[OF more] by (simp add: obj_chg_pri_def mbx_chg_pri_def)
  next
    case mbf
    let ?g = "knl_gcb_change_priority (WMbfSnd ?i) t s"
    have q: "t \<in> set (que s (QMbfSnd ?i))" by (rule wi) (simp add: mbf)
    note G = core_inv_gcb_change_priority[OF inv q]
    note L = mbf_wakeup_hook_rel[OF G(1), of ?i]
    have "hook_rel (\<lambda>w. \<not> is_WMtx w) s (knl_mbf_wakeup ?i ?g)"
      by (rule hook_rel_compose_change[OF inv q]) (use hook_rel_mono[OF conjunct1[OF L]] kind_not_mtx(4) in auto)
    then show ?thesis
      using mbf p L mbfst_kframe(4)[OF G(5)] by (simp add: obj_chg_pri_def knl_mbf_chg_pri_def Let_def)
  next
    case cal
    have q: "t \<in> set (que s (QPorCal ?i))" by (rule wi) (simp add: cal)
    then show ?thesis using cal ch[OF q] mbfst_kframe(4)[OF more] by (simp add: obj_chg_pri_def cal_chg_pri_def)
  next
    case mpf
    have q: "t \<in> set (que s (QMpf ?i))" by (rule wi) (simp add: mpf)
    then show ?thesis using mpf ch[OF q] mbfst_kframe(4)[OF more] by (simp add: obj_chg_pri_def knl_mpf_chg_pri_def)
  next
    case none
    with nil show ?thesis by simp
  qed
qed

section \<open>A ready task changes its priority\<close>

lemma rq_insert_que [simp]:
  "que (snd (knl_ready_queue_insert t s)) =
     (que s)(QRdy (priority (tcb s t)) := que s (QRdy (priority (tcb s t))) @ [t])"
  "tcb (snd (knl_ready_queue_insert t s)) = tcb s"
  "timer_queue (snd (knl_ready_queue_insert t s)) = timer_queue s"
  "ctxtsk (snd (knl_ready_queue_insert t s)) = ctxtsk s"
  "kstate.more (snd (knl_ready_queue_insert t s)) = kstate.more s"
  "\<not> klocked (tcb s t) \<Longrightarrow> klocktsk (snd (knl_ready_queue_insert t s)) = klocktsk s"
  by (simp_all add: knl_ready_queue_insert_def Let_def kdefs)

lemma reschedule_frame [simp, frame]:
  "que (knl_reschedule s) = que s" "tcb (knl_reschedule s) = tcb s" "ctxtsk (knl_reschedule s) = ctxtsk s"
  "timer_queue (knl_reschedule s) = timer_queue s" "kstate.more (knl_reschedule s) = kstate.more s"
  by (simp_all add: knl_reschedule_def Let_def)

lemma change_ready_priority_result:
  assumes inv: "core_inv s" and t: "t < NUM_TSKID" "state (tcb s t) = TS_READY" and p: "pri < NUM_TSKPRI"
  shows "core_inv (change_ready_priority t pri s)"
    "tcb (change_ready_priority t pri s) = (tcb s)(t := (tcb s t)\<lparr>priority := pri\<rparr>)"
    "que (change_ready_priority t pri s) (QWait w) = que s (QWait w)"
    "kstate.more (change_ready_priority t pri s) = kstate.more s"
    "ctxtsk (change_ready_priority t pri s) = ctxtsk s"
proof -
  let ?d = "knl_ready_queue_delete t s"
  let ?u = "upd_tcb t (priority_update (\<lambda>_. pri)) ?d"
  let ?i = "snd (knl_ready_queue_insert t ?u)"
  note I = core_invD[OF inv] and B = tcb_okD[OF core_invD(3)[OF inv] t(1)]
  have kw: "\<not> klockwait (tcb s t)" "\<not> klocked (tcb s t)" and kt: "klocktsk s = None"
    using I(6) by (auto simp: klock_free_def)
  have rd: "rq_inv ?d" by (rule rq_delete_ready_inv) (use I t B in auto)
  have td: "tcb ?d = tcb s" using kw by simp
  have ri: "rq_inv ?i" by (rule rq_insert_inv) (use rd p td in \<open>simp_all\<close>)
  have kf: "klock_free ?i" using I(6) kt kw by (simp add: klock_free_def td)
  have sc: "sched_ok (knl_reschedule ?i)" by (rule sched_ok_reschedule[OF ri kf])
  have "task_inv_x t ?d" using I(1) td by (simp add: task_inv_def task_inv_x_def linked_unlink)
  then have "task_inv_x t ?u" by (rule task_inv_x_upd)
  then have "linked (tcb ?u) (que ?u) ({..<NUM_TSKID} - {t})" by (simp add: task_inv_x_def)
  from linked_link[OF this, of "QRdy pri"] t have ti: "task_inv (knl_reschedule ?i)"
    by (simp add: task_inv_def td)
  have "tcb_ok ?i"
    by (rule tcb_ok_upd[OF I(3), where t = t and b = "(tcb s t)\<lparr>priority := pri\<rparr>"])
      (use I(3) t p td in \<open>auto simp: tcb_ok_def Let_def\<close>)
  then have ok: "tcb_ok (knl_reschedule ?i)" using tcb_ok_cong[of "knl_reschedule ?i" ?i] by simp
  have tm: "timer_ok (knl_reschedule ?i)" using I(4) t td by (auto simp: timer_ok_def)
  have q: "t \<notin> set (que s (QWait w))" for w using ready_not_queued[OF inv t(2)] .
  show "core_inv (change_ready_priority t pri s)"
    using ti sc ok tm I(5) by (simp add: core_inv_def change_ready_priority_def)
  show "tcb (change_ready_priority t pri s) = (tcb s)(t := (tcb s t)\<lparr>priority := pri\<rparr>)"
    "que (change_ready_priority t pri s) (QWait w) = que s (QWait w)"
    "kstate.more (change_ready_priority t pri s) = kstate.more s"
    "ctxtsk (change_ready_priority t pri s) = ctxtsk s"
    using q[of w] td by (simp_all add: change_ready_priority_def)
qed

section \<open>The priority a task should have\<close>

text \<open>
  Reference definition: a task runs at the highest of its base priority, the ceilings of the ceiling
  mutexes it holds and the priorities of the first tasks waiting for its inheritance mutexes.
\<close>

definition mtx_limit :: "'a mtxstate_scheme \<Rightarrow> nat \<Rightarrow> nat option" where
  "mtx_limit s m =
     (if mtx_kind (mtxcb s m) = TA_CEILING then Some (ceilpri (mtxcb s m))
      else if mtx_kind (mtxcb s m) = TA_INHERIT \<and> mtx_waited m s then Some (mtx_head_pri m s)
      else None)"

definition limits :: "'a mtxstate_scheme \<Rightarrow> nat list \<Rightarrow> nat set" where
  "limits s ms = set (List.map_filter (mtx_limit s) ms)"

definition due_priority :: "'a mtxstate_scheme \<Rightarrow> nat \<Rightarrow> nat" where
  "due_priority s t = Min (insert (bpriority (tcb s t)) (limits s (mtxlist (tcb s t))))"

lemma limits_simps [simp]:
  "limits s [] = {}" "finite (limits s ms)"
  "limits s (m # ms) = (case mtx_limit s m of Some p \<Rightarrow> insert p (limits s ms) | None \<Rightarrow> limits s ms)"
  by (simp_all add: limits_def map_filter_simps split: option.split)

lemma limits_iff: "p \<in> limits s ms \<longleftrightarrow> (\<exists>m\<in>set ms. mtx_limit s m = Some p)"
  by (induction ms) (auto split: option.splits)

lemma limits_cong: "(\<And>m. m \<in> set ms \<Longrightarrow> mtx_limit s m = mtx_limit s' m) \<Longrightarrow> limits s ms = limits s' ms"
  by (induction ms) (auto split: option.splits)

lemma kinds_differ [simp]: "TA_CEILING \<noteq> TA_INHERIT" "TA_INHERIT \<noteq> TA_CEILING" "TA_TFIFO \<noteq> TA_INHERIT"
  "TA_INHERIT \<noteq> TA_TFIFO" "TA_CEILING \<noteq> TA_TFIFO" "TA_TFIFO \<noteq> TA_CEILING"
  by (simp_all add: consts_defs)

text \<open>The loop of \<^verbatim>\<open>knl_release_mutex\<close> computes it for the list without the released mutex.\<close>

lemma release_mutex_loop_spec:
  assumes "newpri \<le> pri"
  shows "release_mutex_loop s rel ms newpri pri =
    (filter (\<lambda>m. rel \<noteq> Some m) ms, Min (insert newpri (limits s (filter (\<lambda>m. rel \<noteq> Some m) ms))))"
  using assms
proof (induction ms arbitrary: newpri pri)
  case (Cons m ms)
  show ?case
  proof (cases "rel = Some m")
    case True
    with Cons show ?thesis by simp
  next
    case False
    let ?pri = "case mtx_limit s m of Some p \<Rightarrow> p | None \<Rightarrow> pri"
    let ?new = "min newpri ?pri"
    have IH: "release_mutex_loop s rel ms ?new ?pri =
      (filter (\<lambda>m. rel \<noteq> Some m) ms, Min (insert ?new (limits s (filter (\<lambda>m. rel \<noteq> Some m) ms))))"
      by (rule Cons.IH) simp
    have "release_mutex_loop s rel (m # ms) newpri pri =
      (let (l, n) = release_mutex_loop s rel ms ?new ?pri in (m # l, n))"
      using False by (simp add: mtx_limit_def Let_def min_def)
    also have "\<dots> = (m # filter (\<lambda>m. rel \<noteq> Some m) ms,
        Min (insert ?new (limits s (filter (\<lambda>m. rel \<noteq> Some m) ms))))"
      by (simp add: IH)
    also have "Min (insert ?new (limits s (filter (\<lambda>m. rel \<noteq> Some m) ms))) =
        Min (insert newpri (limits s (m # filter (\<lambda>m. rel \<noteq> Some m) ms)))"
      using Cons.prems by (cases "mtx_limit s m"; cases "limits s (filter (\<lambda>m. rel \<noteq> Some m) ms) = {}")
        (simp_all add: min.assoc min.absorb1)
    finally show ?thesis using False by simp
  qed
qed simp

text \<open>\<^verbatim>\<open>knl_chg_pri_mutex\<close>: the same limit for a requested priority.\<close>

lemma chg_pri_mutex_loop_hi:
  assumes "hi \<le> pri"
  shows "fst (chg_pri_mutex_loop s ms hi low pri) = Min (insert hi (int ` limits s ms))"
  using assms
proof (induction ms arbitrary: hi low pri)
  case (Cons m ms)
  let ?pri = "case mtx_limit s m of Some p \<Rightarrow> int p | None \<Rightarrow> pri"
  have "fst (chg_pri_mutex_loop s (m # ms) hi low pri) =
      fst (chg_pri_mutex_loop s ms (min hi ?pri) (if mtx_kind (mtxcb s m) = TA_CEILING \<and>
        int (ceilpri (mtxcb s m)) > low then int (ceilpri (mtxcb s m)) else low) ?pri)"
    by (simp add: mtx_limit_def Let_def min_def)
  also have "\<dots> = Min (insert (min hi ?pri) (int ` limits s ms))"
    by (rule Cons.IH) simp
  also have "\<dots> = Min (insert hi (int ` limits s (m # ms)))"
    using Cons.prems by (cases "mtx_limit s m"; cases "limits s ms = {}") (simp_all add: min.assoc min.absorb1)
  finally show ?case .
qed simp

lemma Max_insert2: "finite A \<Longrightarrow> Max (insert (max a b) A) = Max (insert a (insert b A))" for A :: "int set"
  by (cases "A = {}") (simp_all add: max.assoc)

lemma chg_pri_mutex_loop_low:
  "snd (chg_pri_mutex_loop s ms hi low pri) =
     Max (insert low {int (ceilpri (mtxcb s m)) | m. m \<in> set ms \<and> mtx_kind (mtxcb s m) = TA_CEILING})"
proof (induction ms arbitrary: hi low pri)
  case (Cons m ms)
  let ?C = "\<lambda>ms. {int (ceilpri (mtxcb s m)) | m. m \<in> set ms \<and> mtx_kind (mtxcb s m) = TA_CEILING}"
  have fin: "finite (?C ms)" by simp
  have e: "?C (m # ms) = (if mtx_kind (mtxcb s m) = TA_CEILING then insert (int (ceilpri (mtxcb s m))) (?C ms) else ?C ms)"
    by auto
  have l: "(if int (ceilpri (mtxcb s m)) > low then int (ceilpri (mtxcb s m)) else low) = max low (int (ceilpri (mtxcb s m)))"
    by simp
  show ?case
    by (cases "mtx_kind (mtxcb s m) = TA_CEILING") (simp_all only: e if_True if_False simp_thms
        chg_pri_mutex_loop.simps Let_def Cons.IH l Max_insert2[OF fin])
qed simp

end
