(* ===== verification/Mutex_Priority.thy ===== *)
theory Mutex_Priority
  imports Mutex
begin

text \<open>
  Priority inheritance of the mutexes. The invariant \<open>mtx_inv\<close> says who owns what and that every task
  runs at its \<open>due_priority\<close>. The central lemma is \<open>change_priority_restores\<close>: when one task has been
  given a new due priority, \<^verbatim>\<open>knl_change_task_priority\<close> returns whenever the chain of owners is
  finite, and restores the invariant along the whole chain. The lock and unlock calls rest on it.
\<close>

section \<open>The chain of owners\<close>

definition waits_on :: "'a mtxstate_scheme \<Rightarrow> nat \<Rightarrow> nat option" where
  "waits_on s t =
     (if in_wait (state (tcb s t)) \<and> mtx_hook_spec (wspec (tcb s t))
      then mtxtsk (mtxcb s (INDEX_OBJ (wid (tcb s t)))) else None)"

text \<open>The chain from a task is finite and meets no task of \<open>W\<close>.\<close>

inductive chain_fin :: "(nat \<Rightarrow> nat option) \<Rightarrow> nat set \<Rightarrow> nat \<Rightarrow> bool" for nx W where
  chain_finI: "t \<notin> W \<Longrightarrow> (\<And>u. nx t = Some u \<Longrightarrow> chain_fin nx W u) \<Longrightarrow> chain_fin nx W t"

inductive_cases chain_finE: "chain_fin nx W t"

lemma chain_fin_irrefl: "chain_fin nx W t \<Longrightarrow> nx t \<noteq> Some t"
  by (induction rule: chain_fin.induct) auto

lemma chain_fin_end: "t \<notin> W \<Longrightarrow> nx t = None \<Longrightarrow> chain_fin nx W t"
  by (rule chain_finI) simp_all

abbreviation reach :: "(nat \<Rightarrow> nat option) \<Rightarrow> nat \<Rightarrow> nat \<Rightarrow> bool" where
  "reach nx \<equiv> (\<lambda>u v. nx u = Some v)\<^sup>+\<^sup>+"

lemma chain_fin_acyclic: "chain_fin nx W t \<Longrightarrow> \<not> reach nx t t"
proof (induction rule: chain_fin.induct)
  case (chain_finI t)
  show ?case
  proof
    assume "reach nx t t"
    then obtain u where u: "nx t = Some u" "(\<lambda>u v. nx u = Some v)\<^sup>*\<^sup>* u t" by (auto dest: tranclpD)
    then have "reach nx u u" by (metis (mono_tags, lifting) rtranclp_into_tranclp1)
    with chain_finI u(1) show False by blast
  qed
qed

text \<open>A finite chain avoids the tasks that wait for its first task.\<close>

lemma chain_fin_avoids:
  assumes "chain_fin nx {} t" "\<And>w. w \<in> W \<Longrightarrow> nx w = Some t"
  shows "chain_fin nx W t"
proof -
  have "chain_fin nx {} u \<Longrightarrow> chain_fin nx W u \<or> reach nx u t" for u
  proof (induction rule: chain_fin.induct)
    case (chain_finI u)
    show ?case
    proof (cases "u \<in> W")
      case True
      then show ?thesis using assms(2) by blast
    next
      case False
      show ?thesis
      proof (cases "nx u")
        case None
        with False show ?thesis by (simp add: chain_fin_end)
      next
        case (Some v)
        with chain_finI have "chain_fin nx W v \<or> reach nx v t" by blast
        with Some False show ?thesis
          by (auto intro: chain_fin.chain_finI tranclp_into_tranclp2)
      qed
    qed
  qed
  with assms(1) chain_fin_acyclic[OF assms(1)] show ?thesis by blast
qed

section \<open>Invariant\<close>

text \<open>
  Who owns what. While a mutex \<open>x\<close> is being released it is already out of its owner's list; \<open>None\<close>
  otherwise.
\<close>

definition mtx_own :: "nat option \<Rightarrow> 'a mtxstate_scheme \<Rightarrow> bool" where
  "mtx_own x s \<longleftrightarrow>
     (\<forall>t < NUM_TSKID. distinct (mtxlist (tcb s t)) \<and>
        (\<forall>i\<in>set (mtxlist (tcb s t)). i < NUM_MTXID \<and> mtxid (mtxcb s i) \<noteq> 0 \<and> mtxtsk (mtxcb s i) = Some t)) \<and>
     (\<forall>i < NUM_MTXID. mtxid (mtxcb s i) \<noteq> 0 \<longrightarrow> ceilpri (mtxcb s i) < NUM_TSKPRI \<and>
        (\<forall>t. mtxtsk (mtxcb s i) = Some t \<longrightarrow> x \<noteq> Some i \<longrightarrow>
           t < NUM_TSKID \<and> state (tcb s t) \<noteq> TS_NONEXIST \<and> i \<in> set (mtxlist (tcb s t)))) \<and>
     (\<forall>i. que s (QMtx i) \<noteq> [] \<longrightarrow>
        i < NUM_MTXID \<and> mtxid (mtxcb s i) \<noteq> 0 \<and> mtxtsk (mtxcb s i) \<noteq> None \<and>
        (\<forall>t\<in>set (que s (QMtx i)). wspec (tcb s t) = mtx_wspec (mtxcb s i)))"

definition mtx_sorted :: "'a mtxstate_scheme \<Rightarrow> bool" where
  "mtx_sorted s \<longleftrightarrow> (\<forall>i. mtx_kind (mtxcb s i) \<noteq> TA_TFIFO \<longrightarrow> tpri_sorted s (WMtx i))"

text \<open>
  The priority due when further limits \<open>E\<close> are about to apply, such as that of a task that will wait.
\<close>

definition due :: "(nat \<Rightarrow> nat set) \<Rightarrow> 'a mtxstate_scheme \<Rightarrow> nat \<Rightarrow> nat" where
  "due E s t = Min (insert (bpriority (tcb s t)) (E t \<union> limits s (mtxlist (tcb s t))))"

lemma due_none [simp]: "due (\<lambda>_. {}) s t = due_priority s t"
  by (simp add: due_def due_priority_def)

definition pri_ok :: "(nat \<Rightarrow> nat set) \<Rightarrow> 'a mtxstate_scheme \<Rightarrow> nat \<Rightarrow> bool" where
  "pri_ok E s t \<longleftrightarrow> (t < NUM_TSKID \<and> state (tcb s t) \<noteq> TS_NONEXIST \<longrightarrow> priority (tcb s t) = due E s t)"

definition mtx_inv :: "'a mtxstate_scheme \<Rightarrow> bool" where
  "mtx_inv s \<longleftrightarrow> cb_table_inv NUM_MTXID (\<lambda>i. mtxid (mtxcb s i)) (free_mtxcb s) \<and>
     mtx_own None s \<and> mtx_sorted s \<and> (\<forall>t. pri_ok (\<lambda>_. {}) s t)"

lemma mtx_ownD:
  assumes "mtx_own x s"
  shows "t < NUM_TSKID \<Longrightarrow> distinct (mtxlist (tcb s t))"
    "t < NUM_TSKID \<Longrightarrow> i \<in> set (mtxlist (tcb s t)) \<Longrightarrow> i < NUM_MTXID \<and> mtxid (mtxcb s i) \<noteq> 0 \<and> mtxtsk (mtxcb s i) = Some t"
    "i < NUM_MTXID \<Longrightarrow> mtxid (mtxcb s i) \<noteq> 0 \<Longrightarrow> mtxtsk (mtxcb s i) = Some t \<Longrightarrow> x \<noteq> Some i \<Longrightarrow>
       t < NUM_TSKID \<and> state (tcb s t) \<noteq> TS_NONEXIST \<and> i \<in> set (mtxlist (tcb s t))"
    "i < NUM_MTXID \<Longrightarrow> mtxid (mtxcb s i) \<noteq> 0 \<Longrightarrow> ceilpri (mtxcb s i) < NUM_TSKPRI"
    "t \<in> set (que s (QMtx i)) \<Longrightarrow>
       i < NUM_MTXID \<and> mtxid (mtxcb s i) \<noteq> 0 \<and> mtxtsk (mtxcb s i) \<noteq> None \<and> wspec (tcb s t) = mtx_wspec (mtxcb s i)"
proof -
  note own = assms[unfolded mtx_own_def]
  show "t < NUM_TSKID \<Longrightarrow> distinct (mtxlist (tcb s t))"
    "t < NUM_TSKID \<Longrightarrow> i \<in> set (mtxlist (tcb s t)) \<Longrightarrow> i < NUM_MTXID \<and> mtxid (mtxcb s i) \<noteq> 0 \<and> mtxtsk (mtxcb s i) = Some t"
    using conjunct1[OF own] by blast+
  show "i < NUM_MTXID \<Longrightarrow> mtxid (mtxcb s i) \<noteq> 0 \<Longrightarrow> mtxtsk (mtxcb s i) = Some t \<Longrightarrow> x \<noteq> Some i \<Longrightarrow>
       t < NUM_TSKID \<and> state (tcb s t) \<noteq> TS_NONEXIST \<and> i \<in> set (mtxlist (tcb s t))"
    "i < NUM_MTXID \<Longrightarrow> mtxid (mtxcb s i) \<noteq> 0 \<Longrightarrow> ceilpri (mtxcb s i) < NUM_TSKPRI"
    using conjunct1[OF conjunct2[OF own]] by blast+
  show "t \<in> set (que s (QMtx i)) \<Longrightarrow>
       i < NUM_MTXID \<and> mtxid (mtxcb s i) \<noteq> 0 \<and> mtxtsk (mtxcb s i) \<noteq> None \<and> wspec (tcb s t) = mtx_wspec (mtxcb s i)"
    using conjunct2[OF conjunct2[OF own]] by (metis list.set(1) empty_iff)
qed

text \<open>What a change of priority leaves alone.\<close>

definition state_rel :: "TSTAT \<Rightarrow> TSTAT \<Rightarrow> bool" where
  "state_rel st st' \<longleftrightarrow> st' = st \<or> st = TS_WAIT \<and> st' = TS_READY \<or> st = TS_WAITSUS \<and> st' = TS_SUSPEND"

definition chg_frame :: "'a mtxstate_scheme \<Rightarrow> 'a mtxstate_scheme \<Rightarrow> bool" where
  "chg_frame s s' \<longleftrightarrow> mtxcb s' = mtxcb s \<and> free_mtxcb s' = free_mtxcb s \<and> mtxstate.more s' = mtxstate.more s \<and>
     ctxtsk s' = ctxtsk s \<and> (\<forall>i. set (que s' (QMtx i)) = set (que s (QMtx i))) \<and>
     (\<forall>u. bpriority (tcb s' u) = bpriority (tcb s u) \<and> mtxlist (tcb s' u) = mtxlist (tcb s u) \<and>
        wspec (tcb s' u) = wspec (tcb s u) \<and> wid (tcb s' u) = wid (tcb s u) \<and>
        state_rel (state (tcb s u)) (state (tcb s' u)))"

lemma state_rel_simps [simp]: "state_rel st st"
  "state_rel st st' \<Longrightarrow> st' = TS_NONEXIST \<longleftrightarrow> st = TS_NONEXIST" "state_rel TS_READY st' \<longleftrightarrow> st' = TS_READY"
  by (auto simp: state_rel_def)

lemma state_rel_trans: "state_rel a b \<Longrightarrow> state_rel b c \<Longrightarrow> state_rel a c"
  by (auto simp: state_rel_def)

lemma chg_frame_refl [simp]: "chg_frame s s"
  by (simp add: chg_frame_def)

lemma chg_frameD:
  assumes "chg_frame s s'"
  shows "mtxcb s' = mtxcb s" "free_mtxcb s' = free_mtxcb s" "mtxstate.more s' = mtxstate.more s"
    "ctxtsk s' = ctxtsk s" "set (que s' (QMtx i)) = set (que s (QMtx i))"
    "bpriority (tcb s' u) = bpriority (tcb s u)" "mtxlist (tcb s' u) = mtxlist (tcb s u)"
    "wspec (tcb s' u) = wspec (tcb s u)" "wid (tcb s' u) = wid (tcb s u)"
    "state_rel (state (tcb s u)) (state (tcb s' u))"
  using assms by (simp_all add: chg_frame_def)

lemma chg_frame_trans:
  assumes "chg_frame s s'" "chg_frame s' s''" shows "chg_frame s s''"
  unfolding chg_frame_def
  by (simp add: chg_frameD[OF assms(1)] chg_frameD[OF assms(2)]
      state_rel_trans[OF chg_frameD(10)[OF assms(1)] chg_frameD(10)[OF assms(2)]])

lemma chg_frame_own:
  assumes f: "chg_frame s s'" and "mtx_own x s"
  shows "mtx_own x s'"
proof -
  have q: "que s' (QMtx i) \<noteq> [] \<longleftrightarrow> que s (QMtx i) \<noteq> []" for i
    using chg_frameD(5)[OF f, of i] by (metis set_empty)
  have st: "state (tcb s' u) = TS_NONEXIST \<longleftrightarrow> state (tcb s u) = TS_NONEXIST" for u
    by (rule state_rel_simps(2)[OF chg_frameD(10)[OF f]])
  show ?thesis
    using assms(2) unfolding mtx_own_def q st chg_frameD(1)[OF f] chg_frameD(5,7,8)[OF f] .
qed

section \<open>Limits and heads\<close>

lemma sorted_head_Min:
  assumes "sorted (map f xs)" "xs \<noteq> []"
  shows "f (hd xs) = Min (f ` set xs)"
proof -
  obtain x ys where "xs = x # ys" using assms(2) by (cases xs) auto
  then show ?thesis using assms(1) by (intro Min_eqI[symmetric]) auto
qed

lemma mtx_limit_inherit:
  assumes "mtx_kind (mtxcb s i) = TA_INHERIT" "mtx_sorted s" "que s (QMtx i) \<noteq> []"
  shows "mtx_limit s i = Some (Min ((\<lambda>u. priority (tcb s u)) ` set (que s (QMtx i))))"
proof -
  have "tpri_sorted s (WMtx i)" using assms by (simp add: mtx_sorted_def)
  then have "mtx_head_pri i s = Min ((\<lambda>u. priority (tcb s u)) ` set (que s (QMtx i)))"
    unfolding mtx_head_pri_def tpri_sorted_def using assms(3) by (intro sorted_head_Min) simp_all
  then show ?thesis using assms by (simp add: mtx_limit_def mtx_waited_def)
qed

lemma mtx_limit_cong:
  assumes "mtxcb s' m = mtxcb s m" "mtx_kind (mtxcb s m) = TA_INHERIT \<Longrightarrow> que s' (QMtx m) = que s (QMtx m)"
    "\<And>u. mtx_kind (mtxcb s m) = TA_INHERIT \<Longrightarrow> u \<in> set (que s (QMtx m)) \<Longrightarrow> priority (tcb s' u) = priority (tcb s u)"
  shows "mtx_limit s' m = mtx_limit s m"
proof (cases "mtx_kind (mtxcb s m) = TA_INHERIT \<and> que s (QMtx m) \<noteq> []")
  case True
  then have "priority (tcb s' (hd (que s (QMtx m)))) = priority (tcb s (hd (que s (QMtx m))))"
    using assms(3) by simp
  then show ?thesis using True assms(1,2) by (simp add: mtx_limit_def mtx_waited_def mtx_head_pri_def)
qed (use assms(1,2) in \<open>auto simp: mtx_limit_def mtx_waited_def\<close>)

lemma due_priority_cong:
  assumes "bpriority (tcb s' u) = bpriority (tcb s u)" "mtxlist (tcb s' u) = mtxlist (tcb s u)"
    "\<And>m. m \<in> set (mtxlist (tcb s u)) \<Longrightarrow> mtx_limit s' m = mtx_limit s m"
  shows "due E s' u = due E s u"
  using assms limits_cong[of "mtxlist (tcb s u)" s' s] by (simp add: due_def)

text \<open>The due priority seen from one of the held mutexes.\<close>

lemma due_priority_split:
  assumes "i \<in> set (mtxlist (tcb s t))" "mtx_limit s i = Some p"
  shows "due E s t = Min (insert p (insert (bpriority (tcb s t)) (E t \<union> limits s (removeAll i (mtxlist (tcb s t))))))"
proof -
  have "insert (bpriority (tcb s t)) (E t \<union> limits s (mtxlist (tcb s t))) =
      insert p (insert (bpriority (tcb s t)) (E t \<union> limits s (removeAll i (mtxlist (tcb s t)))))"
  proof -
    have "q \<in> limits s (mtxlist (tcb s t)) \<longleftrightarrow> q = p \<or> q \<in> limits s (removeAll i (mtxlist (tcb s t)))" for q
      using assms by (cases "q = p") (auto simp: limits_iff)
    then show ?thesis by blast
  qed
  then show ?thesis by (simp add: due_def)
qed

section \<open>Setting the priority of one task\<close>

lemma core_inv_set_priority:
  assumes inv: "core_inv s" and t: "t < NUM_TSKID" "state (tcb s t) \<noteq> TS_READY" and p: "pri < NUM_TSKPRI"
  shows "core_inv (upd_tcb t (priority_update (\<lambda>_. pri)) s)"
proof -
  let ?s = "upd_tcb t (priority_update (\<lambda>_. pri)) s"
  note I = core_invD[OF inv]
  have h: "home ((tcb s t)\<lparr>priority := pri\<rparr>) = home (tcb s t)"
    using t(2) by (simp add: home_def split: TSTAT.split)
  have "task_inv ?s" by (rule task_inv_same_home[OF I(1)]) (simp add: h)
  moreover have "sched_ok ?s" by (rule sched_ok_upd_tcb[OF I(2)]) simp
  moreover have "tcb_ok ?s"
    by (rule tcb_ok_upd[OF I(3), where t = t and b = "(tcb s t)\<lparr>priority := pri\<rparr>"])
      (use I(3) t p in \<open>auto simp: tcb_ok_def Let_def\<close>)
  moreover have "timer_ok ?s" using I(4) by (auto simp: timer_ok_def)
  ultimately show ?thesis using I(5) by (simp add: core_inv_def)
qed

lemma due_unaffected:
  assumes "mtxcb s' = mtxcb s" "\<And>v. bpriority (tcb s' v) = bpriority (tcb s v)" "\<And>v. mtxlist (tcb s' v) = mtxlist (tcb s v)"
    "\<And>v. v \<noteq> t \<Longrightarrow> priority (tcb s' v) = priority (tcb s v)"
    "\<And>i. mtx_kind (mtxcb s i) = TA_INHERIT \<Longrightarrow> i \<in> set (mtxlist (tcb s u)) \<Longrightarrow>
       que s' (QMtx i) = que s (QMtx i) \<and> t \<notin> set (que s (QMtx i))"
  shows "due E s' u = due E s u"
proof (rule due_priority_cong)
  fix m assume m: "m \<in> set (mtxlist (tcb s u))"
  show "mtx_limit s' m = mtx_limit s m"
  proof (rule mtx_limit_cong)
    fix v assume "mtx_kind (mtxcb s m) = TA_INHERIT" "v \<in> set (que s (QMtx m))"
    with assms(5)[OF _ m] have "v \<noteq> t" by blast
    then show "priority (tcb s' v) = priority (tcb s v)" by (rule assms(4))
  qed (use assms(1) assms(5)[OF _ m] in auto)
qed (use assms(2,3) in auto)

text \<open>All tasks run at the priority due, those of \<open>W\<close> at the one they had.\<close>

definition restored :: "(nat \<Rightarrow> nat set) \<Rightarrow> nat set \<Rightarrow> 'a mtxstate_scheme \<Rightarrow> 'a mtxstate_scheme \<Rightarrow> bool" where
  "restored E W s s' \<longleftrightarrow> core_inv s' \<and> chg_frame s s' \<and> mtx_sorted s' \<and> (\<forall>u. pri_ok E s' u) \<and>
     (\<forall>u\<in>W. priority (tcb s' u) = priority (tcb s u))"

lemma restoredI:
  assumes "core_inv s'" "chg_frame s s'" "mtx_sorted s'"
    "\<And>u. u \<noteq> t \<Longrightarrow> pri_ok E s u" "priority (tcb s' t) = due E s t"
    "\<And>u. u \<noteq> t \<Longrightarrow> priority (tcb s' u) = priority (tcb s u)" "\<And>u. u < NUM_TSKID \<Longrightarrow> due E s' u = due E s u" "t \<notin> W"
  shows "restored E W s s'"
proof -
  have "pri_ok E s' u" for u
    using assms(5) assms(4,6,7)[of u] state_rel_simps(2)[OF chg_frameD(10)[OF assms(2), of u]]
    by (cases "u = t") (auto simp: pri_ok_def)
  moreover have "priority (tcb s' u) = priority (tcb s u)" if "u \<in> W" for u
    using assms(6)[of u] assms(8) that by blast
  ultimately show ?thesis using assms(1-3) by (simp add: restored_def)
qed

lemma sorted_cong_map: "sorted (map f xs) \<Longrightarrow> (\<And>x. x \<in> set xs \<Longrightarrow> g x = f x) \<Longrightarrow> sorted (map g xs)"
  by (metis map_cong)

lemma sorted_map_removeAll: "sorted (map f xs) \<Longrightarrow> sorted (map f (removeAll t xs))"
  by (induction xs) auto

text \<open>A task that waits for no mutex by priority: only its own priority changes.\<close>

lemma restored_simple:
  assumes inv: "core_inv s'" and so: "mtx_sorted s" and oth: "\<And>u. u \<noteq> t \<Longrightarrow> pri_ok E s u"
    and p: "priority (tcb s' t) = due E s t"
    and f: "chg_frame s s'" "\<And>u. u \<noteq> t \<Longrightarrow> priority (tcb s' u) = priority (tcb s u)"
      "\<And>i. que s' (QMtx i) = que s (QMtx i)"
    and nt: "\<And>i. mtx_kind (mtxcb s i) \<noteq> TA_TFIFO \<Longrightarrow> t \<notin> set (que s (QMtx i))" and W: "t \<notin> W"
  shows "restored E W s s'"
proof (rule restoredI[OF inv f(1) _ oth p f(2) _ W])
  show "mtx_sorted s'"
    unfolding mtx_sorted_def tpri_sorted_def
  proof (intro allI impI)
    fix i assume k: "mtx_kind (mtxcb s' i) \<noteq> TA_TFIFO"
    then have k': "mtx_kind (mtxcb s i) \<noteq> TA_TFIFO" by (simp add: chg_frameD(1)[OF f(1)])
    have "sorted (map (\<lambda>u. priority (tcb s u)) (que s (QMtx i)))"
      using so k' by (simp add: mtx_sorted_def tpri_sorted_def)
    then show "sorted (map (\<lambda>u. priority (tcb s' u)) (que s' (QMtx i)))"
      unfolding f(3)
    proof (rule sorted_cong_map)
      fix x assume "x \<in> set (que s (QMtx i))"
      then have "x \<noteq> t" using nt[OF k'] by blast
      then show "priority (tcb s' x) = priority (tcb s x)" by (rule f(2))
    qed
  qed
  show "due E s' u = due E s u" for u
    by (rule due_unaffected[where t = t]) (use f nt chg_frameD[OF f(1)] in auto)
qed

text \<open>The arithmetic of one inheritance step.\<close>

lemma inherit_raise:
  fixes f :: "nat \<Rightarrow> nat"
  assumes "finite R" "finite Q" "t \<in> Q" "pri < Min (insert (Min (f ` Q)) R)"
  shows "Min (insert (Min ((f(t := pri)) ` Q)) R) = pri"
proof -
  have ge: "pri < r" if "r \<in> R" for r
    using assms(4) that assms(1) by (meson Min_le finite.insertI insertCI less_le_trans)
  have "Min (insert (Min (f ` Q)) R) \<le> Min (f ` Q)" using assms(1) by (intro Min_le) auto
  then have geQ: "pri < f q" if "q \<in> Q" for q
    using assms(2,4) that by (meson Min_le finite_imageI imageI less_le_trans)
  have "Min ((f(t := pri)) ` Q) = pri"
    by (rule Min_eqI) (use assms geQ in \<open>auto intro: less_imp_le\<close>)
  then show ?thesis by (intro Min_eqI) (use assms(1) ge in \<open>auto intro: less_imp_le\<close>)
qed

lemma inherit_keep:
  fixes f :: "nat \<Rightarrow> nat"
  assumes R: "finite R" and Q: "finite Q" "t \<in> Q" and P: "P = Min (insert (Min (f ` Q)) R)" "P \<le> pri" "P \<noteq> f t"
  shows "Min (insert (Min ((f(t := pri)) ` Q)) R) = P"
proof -
  let ?h = "Min ((f(t := pri)) ` Q)"
  have PR: "P \<le> r" if "r \<in> R" for r unfolding P(1) using R that by (intro Min_le) auto
  have "P \<le> Min (f ` Q)" unfolding P(1) using R by (intro Min_le) auto
  then have PQ: "P \<le> f q" if "q \<in> Q" for q using Q that by (meson Min_le finite_imageI imageI order_trans)
  have Ph: "P \<le> ?h" by (rule Min.boundedI) (use Q PQ P(2) in auto)
  have "P = Min (f ` Q) \<or> P \<in> R" unfolding P(1) using Min_in[of "insert (Min (f ` Q)) R"] R by auto
  then show ?thesis
  proof
    assume "P \<in> R"
    with R PR Ph show ?thesis by (intro Min_eqI) auto
  next
    assume "P = Min (f ` Q)"
    moreover have "Min (f ` Q) \<in> f ` Q" using Q by (intro Min_in) auto
    ultimately obtain q where "q \<in> Q" "f q = P" by auto
    then have "P \<in> (f(t := pri)) ` Q" using P(3) by (intro image_eqI[of _ _ q]) auto
    then have "?h \<le> P" using Q by (intro Min_le) auto
    with Ph have "?h = P" by simp
    with R PR show ?thesis by (intro Min_eqI) auto
  qed
qed

lemma mtx_hook_kind:
  "mtx_hook_spec (mtx_wspec cb) \<longleftrightarrow> mtx_kind cb \<noteq> TA_TFIFO"
  by (simp add: mtx_hook_spec_def mtx_wspec_def)

lemma wait_home_mtx: "mtx_hook_spec w \<Longrightarrow> wait_home w i = Some (QMtx (INDEX_OBJ i))"
  by (auto simp: mtx_hook_spec_def)

lemma chg_frame_set_priority:
  "chg_frame s (upd_tcb t (priority_update (\<lambda>_. p)) s)"
  by (simp add: chg_frame_def) (simp add: upd_tcb_def)

lemma mbf_more_kframe: "kstate.more s' = kstate.more s \<Longrightarrow> mbfstate.more s' = mbfstate.more s"
  by (rule mbfst_kframe(4))

lemma chg_frame_kernel:
  assumes "mbfstate.more s' = mbfstate.more s" "ctxtsk s' = ctxtsk s"
    "\<And>i. set (que s' (QMtx i)) = set (que s (QMtx i))"
    "\<And>u. bpriority (tcb s' u) = bpriority (tcb s u) \<and> mtxlist (tcb s' u) = mtxlist (tcb s u) \<and>
        wspec (tcb s' u) = wspec (tcb s u) \<and> wid (tcb s' u) = wid (tcb s u) \<and>
        state_rel (state (tcb s u)) (state (tcb s' u))"
  shows "chg_frame s s'"
  using assms(2-4) mtxst_frame[OF assms(1)] by (simp add: chg_frame_def)

lemma served_state_rel:
  assumes "\<And>u. u \<in> set r \<Longrightarrow> in_wait (state (tb u))"
  shows "state_rel (state (tb u)) (state (served r tb u))"
  using assms[of u] by (auto simp: served_def released_def state_rel_def in_wait_iff)

lemma served_fields [simp]:
  "bpriority (served r tb u) = bpriority (tb u)" "mtxlist (served r tb u) = mtxlist (tb u)"
  by (simp_all add: served_def)

lemma hook_chg_frame:
  assumes inv: "core_inv s" and h: "hook_rel (\<lambda>w. \<not> is_WMtx w) s s'" and m: "mbfstate.more s' = mbfstate.more s"
  shows "chg_frame s s'" "que s' (QMtx i) = que s (QMtx i)" "priority (tcb s' u) = priority (tcb s u)"
proof -
  obtain r where r: "tcb s' = served r (tcb s)" "\<forall>t\<in>set r. \<exists>w. \<not> is_WMtx w \<and> t \<in> set (que s (QWait w))"
    using h by (auto simp: hook_rel_def)
  have q: "que s' (QMtx j) = que s (QMtx j)" for j using h by (simp add: hook_rel_def)
  have "in_wait (state (tcb s u))" if "u \<in> set r" for u using r(2) that core_inv_in_wait[OF inv] by blast
  then have "state_rel (state (tcb s u)) (state (tcb s' u))" for u
    unfolding r(1) by (rule served_state_rel)
  then show "chg_frame s s'" using h q by (intro chg_frame_kernel[OF m]) (simp_all add: hook_rel_def r(1))
  show "que s' (QMtx i) = que s (QMtx i)" "priority (tcb s' u) = priority (tcb s u)" by (simp_all add: q r(1))
qed

text \<open>The three branches of \<^verbatim>\<open>knl_change_task_priority\<close> that end the chain.\<close>

lemma change_priority_ready:
  assumes inv: "core_inv s" "mtx_sorted s" and t: "t < NUM_TSKID" "state (tcb s t) = TS_READY"
    and oth: "\<And>u. u \<noteq> t \<Longrightarrow> pri_ok E s u" and p: "pri = due E s t" "pri < NUM_TSKPRI" and W: "t \<notin> W"
  shows "restored E W s (change_ready_priority t pri s)"
proof -
  note C = change_ready_priority_result[OF inv(1) t p(2)]
  have f: "chg_frame s (change_ready_priority t pri s)"
    by (rule chg_frame_kernel[OF mbf_more_kframe[OF C(4)]]) (simp_all add: C)
  show ?thesis
    by (rule restored_simple[OF C(1) inv(2) oth _ f]) (use C p W ready_not_queued[OF inv(1) t(2)] in auto)
qed

lemma not_in_mtx_queue:
  assumes "core_inv s" "t \<in> set (que s (QMtx i))"
  shows "in_wait (state (tcb s t))" "INDEX_OBJ (wid (tcb s t)) = i"
proof -
  show w: "in_wait (state (tcb s t))" by (rule core_inv_in_wait[OF assms])
  have "home (tcb s t) = Some (QMtx i)" using assms task_inv_mem[OF core_invD(1)] by blast
  then have "wait_home (wspec (tcb s t)) (wid (tcb s t)) = Some (QMtx i)" using w by simp
  then show "INDEX_OBJ (wid (tcb s t)) = i" by (cases "wspec (tcb s t)") auto
qed

lemma change_priority_passive:
  assumes inv: "core_inv s" "mtx_sorted s" "mtx_own x s" and t: "t < NUM_TSKID" "state (tcb s t) \<noteq> TS_READY"
    and nw: "\<not> (in_wait (state (tcb s t)) \<and> mtx_hook_spec (wspec (tcb s t)))"
    and oth: "\<And>u. u \<noteq> t \<Longrightarrow> pri_ok E s u" and p: "pri = due E s t" "pri < NUM_TSKPRI" and W: "t \<notin> W"
  shows "\<exists>s'. knl_change_task_priority t pri s = Some s' \<and> restored E W s s'"
proof -
  let ?s = "upd_tcb t (priority_update (\<lambda>_. pri)) s"
  have c: "core_inv ?s" by (rule core_inv_set_priority[OF inv(1) t p(2)])
  have nt: "t \<notin> set (que s (QMtx i))" if "mtx_kind (mtxcb s i) \<noteq> TA_TFIFO" for i
    using not_in_mtx_queue(1)[OF inv(1)] mtx_ownD(5)[OF inv(3), of t i] nw that mtx_hook_kind by auto
  have R: "restored E W s s'" if "core_inv s'" "chg_frame ?s s'" "\<And>i. que s' (QMtx i) = que s (QMtx i)"
    "\<And>u. priority (tcb s' u) = priority (tcb ?s u)" for s'
  proof (rule restored_simple[OF that(1) inv(2) oth _ chg_frame_trans[OF chg_frame_set_priority that(2)]])
    show "priority (tcb s' t) = due E s t" using that(4) p by simp
    show "priority (tcb s' u) = priority (tcb s u)" if "u \<noteq> t" for u using that \<open>\<And>u. priority (tcb s' u) = priority (tcb ?s u)\<close> by simp
  qed (use that(3) nt W in auto)
  show ?thesis
  proof (cases "in_wait (state (tcb s t))")
    case False
    then have "knl_change_task_priority t pri s = Some ?s"
      using t by (simp add: change_task_priority_unfold Let_def)
    with R[OF c] show ?thesis by simp
  next
    case True
    let ?o = "obj_chg_pri t (int (priority (tcb s t))) ?s"
    have e: "knl_change_task_priority t pri s = Some ?o"
      using t True nw by (simp add: change_task_priority_unfold Let_def)
    have "hook_rel (\<lambda>w. \<not> is_WMtx w) ?s ?o \<and> mbfstate.more ?o = mbfstate.more ?s"
      by (rule obj_chg_pri_rel[OF c t(1)]) (use True in simp_all)
    then have h: "hook_rel (\<lambda>w. \<not> is_WMtx w) ?s ?o" "mbfstate.more ?o = mbfstate.more ?s" by blast+
    note H = hook_chg_frame[OF c h]
    have "core_inv ?o" using h(1) by (simp add: hook_rel_def)
    then have "restored E W s ?o" by (rule R[OF _ H(1)]) (simp_all add: H(2,3))
    with e show ?thesis by blast
  qed
qed

section \<open>One step along the chain\<close>

text \<open>
  A task waiting in the prioritised queue of a mutex: after its new priority is set and the queue
  is reordered, only the owner of an inheritance mutex can be out of step.
\<close>

definition reordered :: "nat \<Rightarrow> nat \<Rightarrow> nat \<Rightarrow> 'a mtxstate_scheme \<Rightarrow> 'a mtxstate_scheme" where
  "reordered i t pri s = knl_gcb_change_priority (WMtx i) t (upd_tcb t (priority_update (\<lambda>_. pri)) s)"

lemma reordered_step:
  assumes inv: "core_inv s" "mtx_sorted s" and own: "mtx_own x s"
    and t: "t \<in> set (que s (QMtx i))" and p: "pri < NUM_TSKPRI"
  shows "core_inv (reordered i t pri s)" "tcb (reordered i t pri s) = (tcb s)(t := (tcb s t)\<lparr>priority := pri\<rparr>)"
    "chg_frame s (reordered i t pri s)" "mtx_sorted (reordered i t pri s)"
    "j \<noteq> i \<Longrightarrow> que (reordered i t pri s) (QMtx j) = que s (QMtx j) \<and> t \<notin> set (que s (QMtx j))"
proof -
  let ?u = "upd_tcb t (priority_update (\<lambda>_. pri)) s"
  let ?s = "reordered i t pri s"
  have tl: "t < NUM_TSKID" "state (tcb s t) \<noteq> TS_READY"
    using core_inv_queue_lt[OF inv(1) t] core_inv_in_wait[OF inv(1) t] by auto
  have cu: "core_inv ?u" by (rule core_inv_set_priority[OF inv(1) tl p])
  have tu: "t \<in> set (que ?u (QMtx i))" using t by simp
  note G = core_inv_gcb_change_priority[OF cu tu, folded reordered_def]
  have n: "t \<notin> set (que s (QMtx j))" if "j \<noteq> i" for j
    using core_inv_one_queue[OF inv(1) t, of "WMtx j"] that by auto
  show "core_inv ?s" "tcb ?s = (tcb s)(t := (tcb s t)\<lparr>priority := pri\<rparr>)" using G by simp_all
  have ctx: "ctxtsk ?s = ctxtsk s"
    by (simp add: reordered_def knl_gcb_change_priority_def knl_queue_insert_tpri_def)
  show f: "chg_frame s ?s"
    by (rule chg_frame_kernel[OF mbf_more_kframe]) (use G ctx in auto)
  show jq: "que ?s (QMtx j) = que s (QMtx j) \<and> t \<notin> set (que s (QMtx j))" if "j \<noteq> i" for j
    using G(4)[of "WMtx j"] that n[OF that] by simp
  show "mtx_sorted ?s"
    unfolding mtx_sorted_def
  proof (intro allI impI)
    fix j assume "mtx_kind (mtxcb ?s j) \<noteq> TA_TFIFO"
    then have k: "mtx_kind (mtxcb s j) \<noteq> TA_TFIFO" by (simp add: chg_frameD(1)[OF f])
    then have so: "sorted (map (\<lambda>u. priority (tcb s u)) (que s (QMtx j)))"
      using inv(2) by (simp add: mtx_sorted_def tpri_sorted_def)
    show "tpri_sorted ?s (WMtx j)"
    proof (cases "j = i")
      case True
      have "sorted (map (\<lambda>u. priority (tcb ?u u)) (removeAll t (que s (QMtx i))))"
        by (rule sorted_cong_map[OF sorted_map_removeAll[OF so[unfolded True], of t]]) auto
      then have "sorted (map (\<lambda>u. priority (tcb ?u u)) (removeAll t (que ?u (QMtx i))))"
        by (simp only: upd_tcb_fields)
      from gcb_change_priority_sorted[OF this] True show ?thesis by (simp add: reordered_def)
    next
      case False
      have "sorted (map (\<lambda>u. priority (tcb ?s u)) (que s (QMtx j)))"
        by (rule sorted_cong_map[OF so]) (use G(2) n[OF False] in auto)
      then show ?thesis using jq[OF False] by (simp add: tpri_sorted_def)
    qed
  qed
qed

lemma due_after_reorder:
  assumes inv: "core_inv s" "mtx_sorted s" and own: "mtx_own x s"
    and t: "t \<in> set (que s (QMtx i))" and p: "pri < NUM_TSKPRI"
    and u: "u < NUM_TSKID" "mtx_kind (mtxcb s i) = TA_INHERIT \<Longrightarrow> mtxtsk (mtxcb s i) \<noteq> Some u"
  shows "due E (reordered i t pri s) u = due E s u"
proof (rule due_unaffected[where t = t])
  note S = reordered_step[OF inv own t p]
  fix j assume j: "mtx_kind (mtxcb s j) = TA_INHERIT" "j \<in> set (mtxlist (tcb s u))"
  then have "j \<noteq> i" using mtx_ownD(2)[OF own u(1)] u(2) by auto
  then show "que (reordered i t pri s) (QMtx j) = que s (QMtx j) \<and> t \<notin> set (que s (QMtx j))" by (rule S(5))
qed (use chg_frameD[OF reordered_step(3)[OF inv own t p]] reordered_step(2)[OF inv own t p] in auto)

text \<open>The owner's due priority, before and after, from the priorities of the waiting tasks.\<close>

lemma due_owner:
  assumes inv: "core_inv s" "mtx_sorted s" and own: "mtx_own x s"
    and t: "t \<in> set (que s (QMtx i))" and p: "pri < NUM_TSKPRI"
    and k: "mtx_kind (mtxcb s i) = TA_INHERIT" and mt: "mtxtsk (mtxcb s i) = Some mt"
    and x: "x \<noteq> Some i" and E: "finite (E mt)"
  obtains R where "finite R"
    "due E s mt = Min (insert (Min ((\<lambda>u. priority (tcb s u)) ` set (que s (QMtx i)))) R)"
    "due E (reordered i t pri s) mt =
       Min (insert (Min (((\<lambda>u. priority (tcb s u))(t := pri)) ` set (que s (QMtx i)))) R)"
proof -
  let ?s = "reordered i t pri s" and ?l = "removeAll i (mtxlist (tcb s mt))"
  let ?f = "\<lambda>u. priority (tcb s u)" and ?Q = "set (que s (QMtx i))"
  note S = reordered_step[OF inv own t p] and C = chg_frameD[OF reordered_step(3)[OF inv own t p]]
  have o: "mt < NUM_TSKID" "i \<in> set (mtxlist (tcb s mt))"
    using mtx_ownD(5)[OF own t] mtx_ownD(3)[OF own _ _ mt x] by auto
  have ne: "que s (QMtx i) \<noteq> []" "que ?s (QMtx i) \<noteq> []" using t C(5)[of i] by auto
  have l1: "mtx_limit s i = Some (Min (?f ` ?Q))" by (rule mtx_limit_inherit[OF k inv(2) ne(1)])
  have "mtx_limit ?s i = Some (Min ((\<lambda>u. priority (tcb ?s u)) ` set (que ?s (QMtx i))))"
    by (rule mtx_limit_inherit[OF _ S(4) ne(2)]) (simp add: C(1) k)
  moreover have "(\<lambda>u. priority (tcb ?s u)) = ?f(t := pri)" by (auto simp: S(2))
  ultimately have l2: "mtx_limit ?s i = Some (Min ((?f(t := pri)) ` ?Q))" by (simp only: C(5))
  have lim: "limits ?s ?l = limits s ?l"
  proof (rule limits_cong)
    fix m assume "m \<in> set ?l"
    then have m: "m \<noteq> i" by simp
    show "mtx_limit ?s m = mtx_limit s m"
      by (rule mtx_limit_cong) (use S(5)[OF m] S(2) C(1) in auto)
  qed
  show thesis
  proof (rule that)
    show "finite (insert (bpriority (tcb s mt)) (E mt \<union> limits s ?l))" using E by simp
    show "due E s mt = Min (insert (Min (?f ` ?Q)) (insert (bpriority (tcb s mt)) (E mt \<union> limits s ?l)))"
      by (rule due_priority_split[OF o(2) l1])
    have "i \<in> set (mtxlist (tcb ?s mt))" using o(2) by (simp add: C(7))
    from due_priority_split[OF this l2] lim
    show "due E ?s mt = Min (insert (Min ((?f(t := pri)) ` ?Q)) (insert (bpriority (tcb s mt)) (E mt \<union> limits s ?l)))"
      by (simp add: C(6,7))
  qed
qed

lemma waits_on_cong:
  assumes "mtxcb s' = mtxcb s" "\<And>u. state (tcb s' u) = state (tcb s u) \<and> wspec (tcb s' u) = wspec (tcb s u) \<and> wid (tcb s' u) = wid (tcb s u)"
  shows "waits_on s' = waits_on s"
  using assms by (auto simp: waits_on_def fun_eq_iff)

lemma due_priority_lt:
  assumes "core_inv s" "t < NUM_TSKID" "finite (E t)" shows "due E s t < NUM_TSKPRI"
proof -
  have "due E s t \<le> bpriority (tcb s t)" unfolding due_def using assms(3) by (intro Min_le) auto
  with tcb_okD(3)[OF core_invD(3)[OF assms(1)] assms(2)] show ?thesis by simp
qed

lemma upd_mtxlist_same [simp]: "upd_tcb t (mtxlist_update (\<lambda>_. mtxlist (tcb s t))) s = s"
  by (simp add: upd_tcb_def)

lemma restored_after:
  "chg_frame s s1 \<Longrightarrow> restored E W s1 s' \<Longrightarrow> (\<And>u. u \<in> W \<Longrightarrow> priority (tcb s1 u) = priority (tcb s u)) \<Longrightarrow>
     restored E W s s'"
  using chg_frame_trans by (auto simp: restored_def)

section \<open>The change of priority restores the invariant\<close>

lemma change_priority_restores:
  assumes "chain_fin nx W t"
  shows "\<And>s. waits_on s = nx \<Longrightarrow> core_inv s \<Longrightarrow> mtx_own x s \<Longrightarrow> mtx_sorted s \<Longrightarrow> t < NUM_TSKID \<Longrightarrow>
    (\<And>u. u \<noteq> t \<Longrightarrow> pri_ok E s u) \<Longrightarrow> (\<And>i. x = Some i \<Longrightarrow> set (que s (QMtx i)) \<subseteq> W) \<Longrightarrow>
    (\<And>u. reach nx t u \<Longrightarrow> E u = {}) \<Longrightarrow> finite (E t) \<Longrightarrow>
    \<exists>s'. knl_change_task_priority t (due E s t) s = Some s' \<and> restored E W s s'"
  using assms
proof (induction t rule: chain_fin.induct)
  case (chain_finI t)
  note IH = chain_finI.IH and nx = chain_finI.prems(1) and inv = chain_finI.prems(2) and own = chain_finI.prems(3)
    and so = chain_finI.prems(4) and t = chain_finI.prems(5) and oth = chain_finI.prems(6)
    and xW = chain_finI.prems(7) and nE = chain_finI.prems(8) and fE = chain_finI.prems(9) and tW = chain_finI.hyps(1)
  define pri where "pri = due E s t"
  have p: "pri < NUM_TSKPRI" using due_priority_lt[of s t E, OF inv t fE] by (simp add: pri_def)
  consider (ready) "state (tcb s t) = TS_READY"
    | (still) "state (tcb s t) \<noteq> TS_READY" "\<not> (in_wait (state (tcb s t)) \<and> mtx_hook_spec (wspec (tcb s t)))"
    | (chain) "in_wait (state (tcb s t))" "mtx_hook_spec (wspec (tcb s t))" by auto
  then have "\<exists>s'. knl_change_task_priority t pri s = Some s' \<and> restored E W s s'"
  proof cases
    case ready
    then have "knl_change_task_priority t pri s = Some (change_ready_priority t pri s)"
      by (simp add: change_task_priority_unfold)
    with change_priority_ready[OF inv so t ready oth pri_def p tW] show ?thesis by blast
  next
    case still
    from change_priority_passive[OF inv so own t still oth pri_def p tW] show ?thesis .
  next
    case chain
    define i where "i = INDEX_OBJ (wid (tcb s t))"
    have ti: "t \<in> set (que s (QMtx i))"
      by (rule waiting_in[OF inv t chain(1)]) (simp add: i_def wait_home_mtx[OF chain(2)])
    obtain mt where mt: "mtxtsk (mtxcb s i) = Some mt" using mtx_ownD(5)[OF own ti] by auto
    have xi: "x \<noteq> Some i" using xW ti tW by blast
    have o: "mt < NUM_TSKID" "state (tcb s mt) \<noteq> TS_NONEXIST"
      using mtx_ownD(5)[OF own ti] mtx_ownD(3)[OF own _ _ mt xi] by auto
    have nxt: "nx t = Some mt" using nx chain mt by (auto simp: waits_on_def i_def)
    have ne: "mt \<noteq> t" using chain_fin_irrefl[OF chain_fin.chain_finI[OF chain_finI.hyps]] nxt by blast
    have Em: "E mt = {}" "\<And>u. reach nx mt u \<Longrightarrow> E u = {}"
      using nE nxt by (blast intro: tranclp.r_into_trancl tranclp_into_tranclp2)+
    let ?s = "reordered i t pri s"
    note S = reordered_step[OF inv so own ti p] and C = chg_frameD[OF reordered_step(3)[OF inv so own ti p]]
    have pt: "priority (tcb ?s t) = pri" "priority (tcb ?s mt) = priority (tcb s mt)" using ne by (simp_all add: S(2))
    have pW: "\<forall>u\<in>W. priority (tcb ?s u) = priority (tcb s u)" using tW by (auto simp: S(2))
    have own2: "mtx_own x ?s" by (rule chg_frame_own[OF S(3) own])
    have nx2: "waits_on ?s = nx" using waits_on_cong[of ?s s] C(1) S(2) nx by simp
    have ok: "pri_ok E ?s u" if u: "mtx_kind (mtxcb s i) = TA_INHERIT \<Longrightarrow> u \<noteq> mt" for u
    proof (cases "u < NUM_TSKID")
      case True
      have "due E ?s u = due E s u"
        by (rule due_after_reorder[OF inv so own ti p True]) (use u mt in auto)
      moreover have "state (tcb ?s u) = state (tcb s u)" by (simp add: S(2))
      ultimately show ?thesis using oth[of u] pt(1) by (cases "u = t") (auto simp: pri_ok_def S(2) pri_def[symmetric])
    qed (simp add: pri_ok_def)
    have e: "knl_change_task_priority t pri s =
      (if mtx_kind (mtxcb s i) = TA_INHERIT then
         if priority (tcb s mt) > pri then knl_change_task_priority mt pri ?s
         else if priority (tcb s mt) = priority (tcb s t) then knl_release_mutex mt None ?s
         else Some ?s
       else Some ?s)"
    proof -
      have "state (tcb s t) \<noteq> TS_READY" using chain(1) by auto
      then have "knl_change_task_priority t pri s =
          mtx_chg_pri t (int (priority (tcb s t))) (upd_tcb t (priority_update (\<lambda>_. pri)) s)"
        using chain by (subst change_task_priority_unfold) (simp add: Let_def)
      moreover have "the (mtxtsk (mtxcb ?s i)) = mt" "mtxcb ?s i = mtxcb s i" using C(1) mt by simp_all
      ultimately show ?thesis
        using pt by (simp add: mtx_chg_pri_def Let_def i_def[symmetric] reordered_def[symmetric])
    qed
    show ?thesis
    proof (cases "mtx_kind (mtxcb s i) = TA_INHERIT")
      case False
      then have "restored E W s ?s" using S(1,3,4) ok pW by (simp add: restored_def)
      with e False show ?thesis by simp
    next
      case k: True
      let ?f = "\<lambda>u. priority (tcb s u)" and ?Q = "set (que s (QMtx i))"
      obtain R where R: "finite R" "due E s mt = Min (insert (Min (?f ` ?Q)) R)"
        "due E ?s mt = Min (insert (Min ((?f(t := pri)) ` ?Q)) R)"
        by (rule due_owner[OF inv so own ti p k mt xi, of E]) (use Em in simp)
      have P: "priority (tcb s mt) = due E s mt" using oth[OF ne] o by (simp add: pri_ok_def)
      have all: "restored E W s ?s" if "due E ?s mt = priority (tcb ?s mt)"
      proof -
        have "pri_ok E ?s u" for u using ok[of u] that by (cases "u = mt") (auto simp: pri_ok_def)
        then show ?thesis using S(1,3,4) pW by (simp add: restored_def)
      qed
      have rec: "\<exists>s'. knl_change_task_priority mt (due E ?s mt) ?s = Some s' \<and> restored E W s s'"
      proof -
        have "\<exists>s'. knl_change_task_priority mt (due E ?s mt) ?s = Some s' \<and> restored E W ?s s'"
          by (rule IH[OF nxt nx2 S(1) own2 S(4) o(1)]) (use ok xW Em C(5) in auto)
        then show ?thesis using restored_after[OF S(3)] pW by blast
      qed
      consider (raise) "priority (tcb s mt) > pri" | (reset) "\<not> priority (tcb s mt) > pri" "priority (tcb s mt) = priority (tcb s t)"
        | (keep) "\<not> priority (tcb s mt) > pri" "priority (tcb s mt) \<noteq> priority (tcb s t)" by blast
      then show ?thesis
      proof cases
        case raise
        have "due E ?s mt = pri" unfolding R(3)
          by (rule inherit_raise[OF R(1) _ ti]) (use raise P R(2) in simp_all)
        with rec raise e k show ?thesis by simp
      next
        case reset
        have l: "release_mutex_loop ?s None (mtxlist (tcb ?s mt)) (bpriority (tcb ?s mt)) (bpriority (tcb ?s mt)) =
          (mtxlist (tcb ?s mt), due E ?s mt)"
          by (simp add: release_mutex_loop_spec due_def Em)
        show ?thesis
        proof (cases "due E ?s mt = priority (tcb ?s mt)")
          case True
          then have "restored E W s ?s" by (rule all)
          moreover have "knl_release_mutex mt None ?s = Some ?s" using True l by (simp add: knl_release_mutex_def Let_def)
          ultimately show ?thesis using e k reset by simp
        next
          case False
          then have "knl_release_mutex mt None ?s = knl_change_task_priority mt (due E ?s mt) ?s"
            using l by (simp add: knl_release_mutex_def Let_def)
          with rec e k reset show ?thesis by simp
        qed
      next
        case keep
        have "due E ?s mt = priority (tcb s mt)" unfolding R(3)
          by (rule inherit_keep[OF R(1) _ ti]) (use keep P R(2) in simp_all)
        then have "restored E W s ?s" using all pt(2) by simp
        with e k keep show ?thesis by simp
      qed
    qed
  qed
  then show ?case by (simp add: pri_def)
qed

end
