(* ===== verification/Mutex_Calls.thy ===== *)
theory Mutex_Calls
  imports Mutex_Priority
begin

text \<open>
  The lock and unlock calls of \<^verbatim>\<open>mutex.c\<close> keep the invariant of the mutexes: ownership, sorted wait
  queues, and every task at the priority it is due. A release hands the mutex to the first waiting
  task.
\<close>

section \<open>States that agree on tasks and mutexes\<close>

declare due_none [simp del]

lemma mtx_sorted_cong:
  assumes "\<And>i. mtx_kind (mtxcb s' i) = mtx_kind (mtxcb s i)" "\<And>i. que s' (QMtx i) = que s (QMtx i)"
    "\<And>u. priority (tcb s' u) = priority (tcb s u)"
  shows "mtx_sorted s' = mtx_sorted s"
  using assms by (simp add: mtx_sorted_def tpri_sorted_def)

lemma mtx_invD:
  assumes "mtx_inv s"
  shows "cb_table_inv NUM_MTXID (\<lambda>i. mtxid (mtxcb s i)) (free_mtxcb s)" "mtx_own None s" "mtx_sorted s"
    "pri_ok (\<lambda>_. {}) s t"
  using assms by (simp_all add: mtx_inv_def)

lemma mtx_inv_END [simp]: "mtx_inv (END_CRITICAL_SECTION s) = mtx_inv s"
proof -
  have "mtx_limit (END_CRITICAL_SECTION s) = mtx_limit s"
    by (rule ext) (simp add: mtx_limit_def mtx_waited_def mtx_head_pri_def)
  then have "due E (END_CRITICAL_SECTION s) t = due E s t" for E t by (simp add: due_def limits_def)
  then show ?thesis by (simp add: mtx_inv_def mtx_own_def mtx_sorted_def tpri_sorted_def pri_ok_def)
qed

lemma set_mtxlist: "b\<lparr>mtxlist := f (mtxlist b)\<rparr> = mtxlist_update f b"
  by (cases b) simp

lemma mtxid_set_owner [simp]: "mtxid ((f(i := mtxtsk_update g (f i))) j) = mtxid (f j)"
  by simp

lemma core_inv_set_mtxlist:
  assumes "core_inv s" shows "core_inv (upd_tcb t (mtxlist_update f) s)"
  by (rule core_inv_upd_tcb[OF assms]) (use core_invD(3)[OF assms] in \<open>auto simp: tcb_ok_def Let_def upd_tcb_def\<close>)

lemma mtx_sorted_upd_list [simp]: "mtx_sorted (upd_tcb t (mtxlist_update f) s) = mtx_sorted s"
  by (rule mtx_sorted_cong) simp_all

lemma mtx_limit_upd_list [simp]: "mtx_limit (upd_tcb t (mtxlist_update f) s) m = mtx_limit s m"
  by (rule mtx_limit_cong) auto

lemma due_upd_list:
  "u \<noteq> t \<Longrightarrow> due E (upd_tcb t (mtxlist_update f) s) u = due E s u"
  "due E (upd_tcb t (mtxlist_update f) s) t =
     Min (insert (bpriority (tcb s t)) (E t \<union> limits s (f (mtxlist (tcb s t)))))"
proof -
  show "u \<noteq> t \<Longrightarrow> due E (upd_tcb t (mtxlist_update f) s) u = due E s u"
    by (rule due_priority_cong) auto
  have "limits (upd_tcb t (mtxlist_update f) s) ms = limits s ms" for ms
    by (rule limits_cong) simp
  then show "due E (upd_tcb t (mtxlist_update f) s) t =
     Min (insert (bpriority (tcb s t)) (E t \<union> limits s (f (mtxlist (tcb s t)))))"
    by (simp add: due_def)
qed

lemma waits_on_upd_list [simp]: "waits_on (upd_tcb t (mtxlist_update f) s) = waits_on s"
  by (rule waits_on_cong) auto

section \<open>Giving up a mutex\<close>

lemma mtx_own_release:
  assumes "mtx_own None s"
  shows "mtx_own (Some i) (upd_tcb c (mtxlist_update (filter (\<lambda>m. Some i \<noteq> Some m))) s)"
proof -
  let ?s = "upd_tcb c (mtxlist_update (filter (\<lambda>m. Some i \<noteq> Some m))) s"
  note O = mtx_ownD[OF assms]
  have 1: "\<forall>t < NUM_TSKID. distinct (mtxlist (tcb ?s t)) \<and>
        (\<forall>j\<in>set (mtxlist (tcb ?s t)). j < NUM_MTXID \<and> mtxid (mtxcb ?s j) \<noteq> 0 \<and> mtxtsk (mtxcb ?s j) = Some t)"
    using O(1,2) by auto
  have 2: "\<forall>j < NUM_MTXID. mtxid (mtxcb ?s j) \<noteq> 0 \<longrightarrow> ceilpri (mtxcb ?s j) < NUM_TSKPRI \<and>
        (\<forall>t. mtxtsk (mtxcb ?s j) = Some t \<longrightarrow> Some i \<noteq> Some j \<longrightarrow>
           t < NUM_TSKID \<and> state (tcb ?s t) \<noteq> TS_NONEXIST \<and> j \<in> set (mtxlist (tcb ?s t)))"
    using O(3,4) by auto
  have 3: "\<forall>j. que ?s (QMtx j) \<noteq> [] \<longrightarrow>
        j < NUM_MTXID \<and> mtxid (mtxcb ?s j) \<noteq> 0 \<and> mtxtsk (mtxcb ?s j) \<noteq> None \<and>
        (\<forall>t\<in>set (que ?s (QMtx j)). wspec (tcb ?s t) = mtx_wspec (mtxcb ?s j))"
    using conjunct2[OF conjunct2[OF assms[unfolded mtx_own_def]]] by simp
  show ?thesis unfolding mtx_own_def using 1 2 3 by blast
qed

text \<open>
  \<^verbatim>\<open>knl_release_mutex\<close>: the owner drops the mutex and falls back to the priority its other mutexes
  and its base priority give it; the tasks that wait for the mutex keep theirs.
\<close>

lemma release_mutex_restores:
  assumes inv: "core_inv s" "mtx_inv s" and c: "c < NUM_TSKID"
    and ch: "chain_fin (waits_on s) (set (que s (QMtx i))) c"
  defines "s1 \<equiv> upd_tcb c (mtxlist_update (filter (\<lambda>m. Some i \<noteq> Some m))) s"
  shows "\<exists>s'. knl_release_mutex c (Some i) s = Some s' \<and> mtx_own (Some i) s' \<and>
    restored (\<lambda>_. {}) (set (que s (QMtx i))) s1 s'"
proof -
  let ?E = "\<lambda>_. {} :: nat set" and ?W = "set (que s (QMtx i))"
  note M = mtx_invD[OF inv(2)]
  have own: "mtx_own (Some i) s1" unfolding s1_def by (rule mtx_own_release[OF M(2)])
  have c1: "core_inv s1" unfolding s1_def by (rule core_inv_set_mtxlist[OF inv(1)])
  have so: "mtx_sorted s1" using M(3) by (simp add: s1_def)
  have oth: "pri_ok ?E s1 u" if "u \<noteq> c" for u
    using M(4)[of u] that by (simp add: pri_ok_def s1_def due_upd_list(1)[OF that])
  have e: "release_mutex_loop s (Some i) (mtxlist (tcb s c)) (bpriority (tcb s c)) (bpriority (tcb s c)) =
      (mtxlist (tcb s1 c), due ?E s1 c)"
    by (simp add: release_mutex_loop_spec s1_def due_upd_list(2))
  have s1: "upd_tcb c (mtxlist_update (\<lambda>_. mtxlist (tcb s1 c))) s = s1"
    by (simp add: s1_def upd_tcb_def set_mtxlist)
  have "\<exists>s'. knl_release_mutex c (Some i) s = Some s' \<and> restored ?E ?W s1 s'"
  proof (cases "due ?E s1 c = priority (tcb s1 c)")
    case True
    then have "pri_ok ?E s1 u" for u using oth[of u] by (cases "u = c") (auto simp: pri_ok_def)
    then have "restored ?E ?W s1 s1" using c1 so by (simp add: restored_def)
    moreover have "knl_release_mutex c (Some i) s = Some s1"
      unfolding knl_release_mutex_def e Let_def fst_conv snd_conv s1 using True by simp
    ultimately show ?thesis by blast
  next
    case False
    have "\<exists>s'. knl_change_task_priority c (due ?E s1 c) s1 = Some s' \<and> restored ?E ?W s1 s'"
      by (rule change_priority_restores[OF ch _ c1 own so c oth]) (simp_all add: s1_def)
    then show ?thesis unfolding knl_release_mutex_def e Let_def fst_conv snd_conv s1 using False by simp
  qed
  then show ?thesis using chg_frame_own[OF _ own] by (auto simp: restored_def)
qed

section \<open>Taking a mutex\<close>

lemma mtx_own_take:
  assumes "mtx_own (Some i) s" and i: "i < NUM_MTXID" "mtxid (mtxcb s i) \<noteq> 0"
    and t: "t < NUM_TSKID" "state (tcb s t) \<noteq> TS_NONEXIST"
    and ni: "\<And>u. u < NUM_TSKID \<Longrightarrow> i \<notin> set (mtxlist (tcb s u))"
  shows "mtx_own None (upd_tcb t (mtxlist_update ((#) i)) (upd_mtxcb i (mtxtsk_update (\<lambda>_. Some t)) s))"
proof -
  let ?s = "upd_tcb t (mtxlist_update ((#) i)) (upd_mtxcb i (mtxtsk_update (\<lambda>_. Some t)) s)"
  note O = mtx_ownD[OF assms(1)]
  have 1: "\<forall>u < NUM_TSKID. distinct (mtxlist (tcb ?s u)) \<and>
        (\<forall>j\<in>set (mtxlist (tcb ?s u)). j < NUM_MTXID \<and> mtxid (mtxcb ?s j) \<noteq> 0 \<and> mtxtsk (mtxcb ?s j) = Some u)"
    using O(1,2) i ni by auto
  have 2: "\<forall>j < NUM_MTXID. mtxid (mtxcb ?s j) \<noteq> 0 \<longrightarrow> ceilpri (mtxcb ?s j) < NUM_TSKPRI \<and>
        (\<forall>u. mtxtsk (mtxcb ?s j) = Some u \<longrightarrow> None \<noteq> Some j \<longrightarrow>
           u < NUM_TSKID \<and> state (tcb ?s u) \<noteq> TS_NONEXIST \<and> j \<in> set (mtxlist (tcb ?s u)))"
    using O(3,4) t i by auto
  have 3: "\<forall>j. que ?s (QMtx j) \<noteq> [] \<longrightarrow>
        j < NUM_MTXID \<and> mtxid (mtxcb ?s j) \<noteq> 0 \<and> mtxtsk (mtxcb ?s j) \<noteq> None \<and>
        (\<forall>u\<in>set (que ?s (QMtx j)). wspec (tcb ?s u) = mtx_wspec (mtxcb ?s j))"
    using conjunct2[OF conjunct2[OF assms(1)[unfolded mtx_own_def]]] by (simp add: mtx_wspec_def mtx_kind_def)
  show ?thesis unfolding mtx_own_def using 1 2 3 by blast
qed

lemma limits_set_owner [simp]: "limits (upd_mtxcb i (mtxtsk_update f) s) ms = limits s ms"
  by (rule limits_cong) (simp add: mtx_limit_def mtx_kind_def mtx_waited_def mtx_head_pri_def)

lemma due_set_owner [simp]: "due E (upd_mtxcb i (mtxtsk_update f) s) u = due E s u"
  by (simp add: due_def)

lemma mtx_sorted_set_owner [simp]: "mtx_sorted (upd_mtxcb i (mtxtsk_update f) s) = mtx_sorted s"
  by (rule mtx_sorted_cong) (simp_all add: mtx_kind_def)

text \<open>
  A task that is not waiting takes a mutex whose waiting tasks, if it inherits, have no higher
  priority: only a ceiling can raise it.
\<close>

lemma take_mutex_restores:
  assumes inv: "core_inv s" "mtx_own (Some i) s" "mtx_sorted s" "\<And>u. pri_ok (\<lambda>_. {}) s u"
    and tab: "cb_table_inv NUM_MTXID (\<lambda>i. mtxid (mtxcb s i)) (free_mtxcb s)"
    and i: "i < NUM_MTXID" "mtxid (mtxcb s i) \<noteq> 0"
    and t: "t < NUM_TSKID" "state (tcb s t) \<noteq> TS_NONEXIST" "\<not> in_wait (state (tcb s t))"
    and ni: "\<And>u. u < NUM_TSKID \<Longrightarrow> i \<notin> set (mtxlist (tcb s u))"
    and low: "\<And>u. mtx_kind (mtxcb s i) = TA_INHERIT \<Longrightarrow> u \<in> set (que s (QMtx i)) \<Longrightarrow>
      priority (tcb s t) \<le> priority (tcb s u)"
  shows "\<exists>s'. take_mutex i t s = Some s' \<and> core_inv s' \<and> mtx_inv s' \<and> mtxtsk (mtxcb s' i) = Some t \<and>
    ctxtsk s' = ctxtsk s \<and> i \<in> set (mtxlist (tcb s' t))"
proof -
  let ?E = "\<lambda>_. {} :: nat set"
  define s2 where "s2 = upd_tcb t (mtxlist_update ((#) i)) (upd_mtxcb i (mtxtsk_update (\<lambda>_. Some t)) s)"
  have own: "mtx_own None s2" unfolding s2_def by (rule mtx_own_take[OF inv(2) i t(1,2) ni])
  have c2: "core_inv s2" unfolding s2_def using inv(1) by (simp add: core_inv_set_mtxlist)
  have so: "mtx_sorted s2" using inv(3) by (simp add: s2_def)
  have d: "due ?E s2 u = due ?E s u" if "u \<noteq> t" for u
    by (simp add: s2_def due_upd_list(1)[OF that])
  have oth: "pri_ok ?E s2 u" if "u \<noteq> t" for u
    using inv(4)[of u] d[OF that] that by (simp add: pri_ok_def s2_def)
  have pt: "priority (tcb s t) = Min (insert (bpriority (tcb s t)) (limits s (mtxlist (tcb s t))))"
    using inv(4)[of t] t by (simp add: pri_ok_def due_def)
  have f: "mtxtsk (mtxcb s2 i) = Some t" "ctxtsk s2 = ctxtsk s" "i \<in> set (mtxlist (tcb s2 t))"
    "priority (tcb s2 t) = priority (tcb s t)" "mtx_kind (mtxcb s2 i) = mtx_kind (mtxcb s i)"
    "ceilpri (mtxcb s2 i) = ceilpri (mtxcb s i)" "state (tcb s2 t) = state (tcb s t)"
    using tab by (simp_all add: s2_def mtx_kind_def)
  have "(\<lambda>i. mtxid (mtxcb s2 i)) = (\<lambda>i. mtxid (mtxcb s i))" "free_mtxcb s2 = free_mtxcb s"
    by (auto simp: s2_def)
  then have f8: "cb_table_inv NUM_MTXID (\<lambda>i. mtxid (mtxcb s2 i)) (free_mtxcb s2)" using tab by simp
  have d2: "due ?E s2 t = Min (insert (bpriority (tcb s t)) (limits s (i # mtxlist (tcb s t))))"
    by (simp add: s2_def due_upd_list(2) del: limits_simps)
  have lim: "due ?E s2 t = (case mtx_limit s i of None \<Rightarrow> priority (tcb s t) | Some p \<Rightarrow> min p (priority (tcb s t)))"
  proof (cases "mtx_limit s i")
    case (Some p)
    have "due ?E s2 t = Min (insert p (insert (bpriority (tcb s t)) (limits s (mtxlist (tcb s t)))))"
      using Some by (simp add: d2 insert_commute)
    then show ?thesis using Some pt by simp
  qed (use d2 pt in simp)
  show ?thesis
  proof (cases "mtx_kind (mtxcb s i) = TA_CEILING \<and> priority (tcb s t) > ceilpri (mtxcb s i)")
    case True
    then have dc: "due ?E s2 t = ceilpri (mtxcb s i)" using lim by (simp add: mtx_limit_def)
    have "waits_on s2 t = None" using t(3) f(7) by (simp add: waits_on_def)
    then have "chain_fin (waits_on s2) {} t" by (simp add: chain_fin_end)
    from change_priority_restores[OF this refl c2 own so t(1) oth]
    obtain s' where s': "knl_change_task_priority t (due ?E s2 t) s2 = Some s'" "restored ?E {} s2 s'"
      by auto
    then have c': "chg_frame s2 s'" and ok: "\<And>u. pri_ok ?E s' u" and r: "core_inv s'" "mtx_sorted s'"
      by (auto simp: restored_def)
    note C = chg_frameD[OF c']
    have "take_mutex i t s = Some s'"
      using True s'(1) f dc unfolding take_mutex_def Let_def set_mtxlist s2_def[symmetric] by simp
    moreover have "mtx_inv s'" using chg_frame_own[OF c' own] ok r f8 by (simp add: mtx_inv_def C(1,2))
    ultimately show ?thesis using r C f by simp
  next
    case False
    have "due ?E s2 t = priority (tcb s t)"
    proof (cases "mtx_limit s i")
      case (Some p)
      have "priority (tcb s t) \<le> p"
      proof (cases "mtx_kind (mtxcb s i) = TA_CEILING")
        case True
        with Some False show ?thesis by (simp add: mtx_limit_def)
      next
        case ne: False
        then have "mtx_kind (mtxcb s i) = TA_INHERIT" "que s (QMtx i) \<noteq> []" "p = priority (tcb s (hd (que s (QMtx i))))"
          using Some by (auto simp: mtx_limit_def mtx_waited_def mtx_head_pri_def split: if_splits)
        then show ?thesis using low by simp
      qed
      with Some lim show ?thesis by simp
    qed (use lim in simp)
    then have "pri_ok ?E s2 u" for u using oth[of u] f by (cases "u = t") (auto simp: pri_ok_def)
    then have "mtx_inv s2" using own so f8 by (simp add: mtx_inv_def)
    moreover have "take_mutex i t s = Some s2"
      using False f unfolding take_mutex_def Let_def set_mtxlist s2_def[symmetric] by auto
    ultimately show ?thesis using c2 f by simp
  qed
qed

section \<open>Handing a mutex over\<close>

lemma mtx_own_subset:
  assumes "mtx_own x s" "mtxcb s' = mtxcb s" "\<And>j. set (que s' (QMtx j)) \<subseteq> set (que s (QMtx j))"
    "\<And>u. mtxlist (tcb s' u) = mtxlist (tcb s u)"
    "\<And>u. state (tcb s' u) = TS_NONEXIST \<Longrightarrow> state (tcb s u) = TS_NONEXIST"
    "\<And>u j. u \<in> set (que s' (QMtx j)) \<Longrightarrow> wspec (tcb s' u) = wspec (tcb s u)"
  shows "mtx_own x s'"
proof -
  note O = mtx_ownD[OF assms(1)]
  have 1: "\<forall>u < NUM_TSKID. distinct (mtxlist (tcb s' u)) \<and>
        (\<forall>j\<in>set (mtxlist (tcb s' u)). j < NUM_MTXID \<and> mtxid (mtxcb s' j) \<noteq> 0 \<and> mtxtsk (mtxcb s' j) = Some u)"
    unfolding assms(2,4) using O(1,2) by blast
  have 2: "\<forall>j < NUM_MTXID. mtxid (mtxcb s' j) \<noteq> 0 \<longrightarrow> ceilpri (mtxcb s' j) < NUM_TSKPRI \<and>
        (\<forall>t. mtxtsk (mtxcb s' j) = Some t \<longrightarrow> x \<noteq> Some j \<longrightarrow>
           t < NUM_TSKID \<and> state (tcb s' t) \<noteq> TS_NONEXIST \<and> j \<in> set (mtxlist (tcb s' t)))"
    unfolding assms(2,4) using O(3,4) assms(5) by blast
  have q: "j < NUM_MTXID \<and> mtxid (mtxcb s j) \<noteq> 0 \<and> mtxtsk (mtxcb s j) \<noteq> None \<and> wspec (tcb s' u) = mtx_wspec (mtxcb s j)"
    if "u \<in> set (que s' (QMtx j))" for u j
    using O(5)[OF subsetD[OF assms(3) that]] assms(6)[OF that] by simp
  have 3: "\<forall>j. que s' (QMtx j) \<noteq> [] \<longrightarrow>
        j < NUM_MTXID \<and> mtxid (mtxcb s' j) \<noteq> 0 \<and> mtxtsk (mtxcb s' j) \<noteq> None \<and>
        (\<forall>t\<in>set (que s' (QMtx j)). wspec (tcb s' t) = mtx_wspec (mtxcb s' j))"
    unfolding assms(2) using q by (metis list.set_intros(1) neq_Nil_conv)
  show ?thesis unfolding mtx_own_def using 1 2 3 by blast
qed

lemma served_nonexist:
  "state (served r tb u) = TS_NONEXIST \<Longrightarrow> state (tb u) = TS_NONEXIST"
  by (auto simp: served_def split: if_splits)

text \<open>
  The first waiting task leaves the queue: the mutex that is handed over is in nobody's list, so no
  task's due priority depends on its queue.
\<close>

lemma release_head_keeps:
  assumes inv: "core_inv s" "mtx_own (Some i) s" "mtx_sorted s" "\<And>u. pri_ok (\<lambda>_. {}) s u"
    and ni: "\<And>u. u < NUM_TSKID \<Longrightarrow> i \<notin> set (mtxlist (tcb s u))" and q: "que s (QMtx i) = t # ts"
  defines "s1 \<equiv> knl_wait_release_ok t s"
  shows "core_inv s1" "mtx_own (Some i) s1" "mtx_sorted s1" "pri_ok (\<lambda>_. {}) s1 u" "tcb s1 = served [t] (tcb s)"
    "que s1 (QMtx i) = ts" "j \<noteq> i \<Longrightarrow> que s1 (QMtx j) = que s (QMtx j)" "mtxcb s1 = mtxcb s" "free_mtxcb s1 = free_mtxcb s"
proof -
  have t: "t \<in> set (que s (QMtx i))" by (simp add: q)
  note R = wait_release_ok_result[OF inv(1) t, folded s1_def]
  have qs: "que s1 (QMtx j) = removeAll t (que s (QMtx j))" for j by (simp add: s1_def)
  have n: "t \<notin> set (que s (QMtx j))" if "j \<noteq> i" for j
    using core_inv_one_queue[OF inv(1) t, of "WMtx j"] that by auto
  show c: "core_inv s1" and tb: "tcb s1 = served [t] (tcb s)" and m: "mtxcb s1 = mtxcb s" "free_mtxcb s1 = free_mtxcb s"
    using R by (simp_all add: s1_def)
  show qi: "que s1 (QMtx i) = ts" using core_inv_distinct[OF inv(1), of "QMtx i"] by (simp add: qs q)
  show qj: "que s1 (QMtx j) = que s (QMtx j)" if "j \<noteq> i" for j using n[OF that] by (simp add: qs)
  show "mtx_own (Some i) s1"
    by (rule mtx_own_subset[OF inv(2) m(1)]) (auto simp: qs tb dest: served_nonexist)
  show "mtx_sorted s1"
    using inv(3) unfolding mtx_sorted_def tpri_sorted_def
    by (simp add: m tb qs sorted_map_removeAll)
  have "due (\<lambda>_. {}) s1 u = due (\<lambda>_. {}) s u" if u: "u < NUM_TSKID" for u
  proof (rule due_priority_cong)
    fix j assume "j \<in> set (mtxlist (tcb s u))"
    then have "j \<noteq> i" using ni[OF u] by blast
    from qj[OF this] show "mtx_limit s1 j = mtx_limit s j" by (intro mtx_limit_cong) (simp_all add: m tb)
  qed (simp_all add: tb)
  moreover have "state (tcb s u) \<noteq> TS_NONEXIST" if "state (tcb s1 u) \<noteq> TS_NONEXIST" for u
    using that core_inv_in_wait[OF inv(1) t] by (cases "u = t") (auto simp: tb served_def)
  ultimately show "pri_ok (\<lambda>_. {}) s1 u" for u using inv(4)[of u] by (auto simp: pri_ok_def tb)
qed

lemma take_mutex_state:
  assumes "take_mutex i t s = Some s'" "\<not> in_wait (state (tcb s t))" shows "\<not> in_wait (state (tcb s' t))"
proof -
  let ?s = "upd_tcb t (\<lambda>b. b\<lparr>mtxlist := i # mtxlist b\<rparr>) (upd_mtxcb i (mtxtsk_update (\<lambda>_. Some t)) s)"
  have w: "\<not> in_wait (state (tcb ?s t))" using assms(2) by simp
  have "state (tcb (change_ready_priority t p u) t) = state (tcb u t)" for p and u :: "'a mtxstate_scheme"
    by (simp add: change_ready_priority_def knl_ready_queue_delete_def Let_def)
  then have "\<not> in_wait (state (tcb u t))" if "knl_change_task_priority t p ?s = Some u" for p u
    using that w by (subst (asm) knl_change_task_priority.simps) (auto simp: Let_def split: if_splits)
  then show ?thesis using assms w by (auto simp: take_mutex_def Let_def split: if_splits)
qed

lemma pass_mutex_restores:
  assumes inv: "core_inv s" "mtx_own (Some i) s" "mtx_sorted s" "\<And>u. pri_ok (\<lambda>_. {}) s u"
    and tab: "cb_table_inv NUM_MTXID (\<lambda>i. mtxid (mtxcb s i)) (free_mtxcb s)"
    and i: "i < NUM_MTXID" "mtxid (mtxcb s i) \<noteq> 0"
    and ni: "\<And>u. u < NUM_TSKID \<Longrightarrow> i \<notin> set (mtxlist (tcb s u))"
  shows "\<exists>s'. pass_mutex i s = Some s' \<and> core_inv s' \<and> mtx_inv s' \<and> ctxtsk s' = ctxtsk s \<and>
    mtxtsk (mtxcb s' i) = (case que s (QMtx i) of [] \<Rightarrow> None | t # _ \<Rightarrow> Some t) \<and>
    (\<forall>t ts. que s (QMtx i) = t # ts \<longrightarrow> \<not> in_wait (state (tcb s' t)))"
proof (cases "que s (QMtx i)")
  case Nil
  let ?s = "upd_mtxcb i (mtxtsk_update (\<lambda>_. None)) s"
  note O = mtx_ownD[OF inv(2)]
  have 1: "\<forall>u < NUM_TSKID. distinct (mtxlist (tcb ?s u)) \<and>
        (\<forall>j\<in>set (mtxlist (tcb ?s u)). j < NUM_MTXID \<and> mtxid (mtxcb ?s j) \<noteq> 0 \<and> mtxtsk (mtxcb ?s j) = Some u)"
    using O(1,2) ni by auto
  have 2: "\<forall>j < NUM_MTXID. mtxid (mtxcb ?s j) \<noteq> 0 \<longrightarrow> ceilpri (mtxcb ?s j) < NUM_TSKPRI \<and>
        (\<forall>u. mtxtsk (mtxcb ?s j) = Some u \<longrightarrow> None \<noteq> Some j \<longrightarrow>
           u < NUM_TSKID \<and> state (tcb ?s u) \<noteq> TS_NONEXIST \<and> j \<in> set (mtxlist (tcb ?s u)))"
    using O(3,4) by auto
  have 3: "\<forall>j. que ?s (QMtx j) \<noteq> [] \<longrightarrow>
        j < NUM_MTXID \<and> mtxid (mtxcb ?s j) \<noteq> 0 \<and> mtxtsk (mtxcb ?s j) \<noteq> None \<and>
        (\<forall>u\<in>set (que ?s (QMtx j)). wspec (tcb ?s u) = mtx_wspec (mtxcb ?s j))"
    using conjunct2[OF conjunct2[OF inv(2)[unfolded mtx_own_def]]] Nil by auto
  have own: "mtx_own None ?s" unfolding mtx_own_def using 1 2 3 by blast
  have ids: "(\<lambda>j. mtxid (mtxcb ?s j)) = (\<lambda>j. mtxid (mtxcb s j))" by auto
  have "pri_ok (\<lambda>_. {}) ?s u" for u using inv(4)[of u] by (simp add: pri_ok_def)
  then have "mtx_inv ?s" unfolding mtx_inv_def ids using own inv(3) tab by (intro conjI allI) simp_all
  then show ?thesis using Nil inv(1) by (simp add: pass_mutex_def)
next
  case (Cons t ts)
  let ?s = "knl_wait_release_ok t s"
  note R = release_head_keeps[OF inv ni Cons]
  have t: "t \<in> set (que s (QMtx i))" by (simp add: Cons)
  have e: "pass_mutex i s = take_mutex i t ?s" by (simp add: pass_mutex_def take_mutex_def Cons Let_def)
  have w: "in_wait (state (tcb s t))" by (rule core_inv_in_wait[OF inv(1) t])
  have st: "\<not> in_wait (state (tcb ?s t))" "state (tcb ?s t) \<noteq> TS_NONEXIST"
    by (simp_all add: R(5) served_def)
  have low: "priority (tcb ?s t) \<le> priority (tcb ?s u)"
    if "mtx_kind (mtxcb ?s i) = TA_INHERIT" "u \<in> set (que ?s (QMtx i))" for u
  proof -
    have "tpri_sorted s (WMtx i)" using inv(3) that(1) R(8) by (simp add: mtx_sorted_def)
    then show ?thesis using that(2) by (simp add: tpri_sorted_def Cons R(5,6))
  qed
  have "\<exists>s'. take_mutex i t ?s = Some s' \<and> core_inv s' \<and> mtx_inv s' \<and> mtxtsk (mtxcb s' i) = Some t \<and>
      ctxtsk s' = ctxtsk ?s \<and> i \<in> set (mtxlist (tcb s' t))"
    by (rule take_mutex_restores[OF R(1-4) _ _ _ core_inv_queue_lt[OF inv(1) t] st(2,1) _ low])
      (use tab i ni in \<open>simp_all add: R(5,8,9)\<close>)
  then show ?thesis using take_mutex_state[OF _ st(1)] by (auto simp: e Cons)
qed

section \<open>Unlock\<close>

lemma restored_cleared:
  assumes r: "restored E W (upd_tcb c (mtxlist_update (filter (\<lambda>m. Some i \<noteq> Some m))) s) s'"
    and own: "mtx_own None s" and i: "mtxtsk (mtxcb s i) = Some c"
  shows "u < NUM_TSKID \<Longrightarrow> i \<notin> set (mtxlist (tcb s' u))" "mtxcb s' = mtxcb s" "free_mtxcb s' = free_mtxcb s"
    "set (que s' (QMtx j)) = set (que s (QMtx j))" "ctxtsk s' = ctxtsk s" "core_inv s'" "mtx_sorted s'" "pri_ok E s' u"
proof -
  note C = chg_frameD[of "upd_tcb c (mtxlist_update (filter (\<lambda>m. Some i \<noteq> Some m))) s" s']
  have c: "chg_frame (upd_tcb c (mtxlist_update (filter (\<lambda>m. Some i \<noteq> Some m))) s) s'"
    using r by (simp add: restored_def)
  show "u < NUM_TSKID \<Longrightarrow> i \<notin> set (mtxlist (tcb s' u))"
    using mtx_ownD(2)[OF own, of u i] i C(7)[OF c, of u] by (cases "u = c") auto
  show "core_inv s'" "mtx_sorted s'" "pri_ok E s' u" using r by (simp_all add: restored_def)
qed (use chg_frameD[of "upd_tcb c (mtxlist_update (filter (\<lambda>m. Some i \<noteq> Some m))) s" s'] r
      in \<open>simp_all add: restored_def\<close>)

text \<open>When the owner is ready, the wait queues stay as they are.\<close>

lemma release_mutex_ready_queues:
  assumes inv: "core_inv s" and c: "c < NUM_TSKID" "state (tcb s c) = TS_READY"
    and r: "knl_release_mutex c (Some i) s = Some s'"
  shows "que s' (QWait w) = que s (QWait w)"
proof -
  let ?f = "filter (\<lambda>m. Some i \<noteq> Some m)"
  let ?s = "upd_tcb c (mtxlist_update (\<lambda>_. ?f (mtxlist (tcb s c)))) s"
  let ?p = "Min (insert (bpriority (tcb s c)) (limits s (?f (mtxlist (tcb s c)))))"
  have p: "?p < NUM_TSKPRI"
  proof -
    have "?p \<le> bpriority (tcb s c)" by (intro Min_le) auto
    then show ?thesis using tcb_okD(3)[OF core_invD(3)[OF inv] c(1)] by (rule le_less_trans)
  qed
  have s: "state (tcb ?s c) = TS_READY" "core_inv ?s" using c core_inv_set_mtxlist[OF inv] by simp_all
  have k: "knl_change_task_priority c ?p ?s = Some (change_ready_priority c ?p ?s)"
    using s(1) by (simp only: change_task_priority_unfold if_True simp_thms)
  have l: "release_mutex_loop s (Some i) (mtxlist (tcb s c)) (bpriority (tcb s c)) (bpriority (tcb s c)) =
      (?f (mtxlist (tcb s c)), ?p)" by (rule release_mutex_loop_spec) simp
  have "s' = ?s \<or> s' = change_ready_priority c ?p ?s"
    using r unfolding knl_release_mutex_def l Let_def fst_conv snd_conv k by (auto split: if_splits)
  then show ?thesis using change_ready_priority_result(3)[OF s(2) c(1) s(1) p, of w] by auto
qed

lemma unlock_restores:
  assumes inv: "core_inv s" "mtx_inv s" and c: "ctxtsk s = Some c" "state (tcb s c) = TS_READY"
    and i: "CHK_OBJID NUM_MTXID oid" "\<not> in_indp s" "mtxid (mtxcb s (INDEX_OBJ oid)) \<noteq> 0"
      "mtxtsk (mtxcb s (INDEX_OBJ oid)) = Some c"
  shows "\<exists>s'. tk_unl_mtx oid s = Some (Ret E_OK, s') \<and> core_inv s' \<and> mtx_inv s' \<and>
    mtxtsk (mtxcb s' (INDEX_OBJ oid)) = (case que s (QMtx (INDEX_OBJ oid)) of [] \<Rightarrow> None | t # _ \<Rightarrow> Some t) \<and>
    (\<forall>t ts. que s (QMtx (INDEX_OBJ oid)) = t # ts \<longrightarrow> \<not> in_wait (state (tcb s' t)) \<and> t \<notin> set (que s' (QMtx (INDEX_OBJ oid))))"
proof -
  let ?i = "INDEX_OBJ oid" and ?E = "\<lambda>_. {} :: nat set"
  note M = mtx_invD[OF inv(2)]
  have cl: "c < NUM_TSKID" by (rule core_invD(5)[OF inv(1) c(1)])
  have il: "?i < NUM_MTXID" by (rule INDEX_OBJ_less[OF i(1)])
  have "chain_fin (waits_on s) (set (que s (QMtx ?i))) c"
    using ready_not_queued[OF inv(1) c(2)] c(2) by (intro chain_fin_end) (auto simp: waits_on_def)
  from release_mutex_restores[OF inv cl this] obtain s1 where
    s1: "knl_release_mutex c (Some ?i) s = Some s1" "mtx_own (Some ?i) s1"
      "restored ?E (set (que s (QMtx ?i))) (upd_tcb c (mtxlist_update (filter (\<lambda>m. Some ?i \<noteq> Some m))) s) s1" by blast
  note R = restored_cleared[OF s1(3) M(2) i(4)]
  have "\<exists>s'. pass_mutex ?i s1 = Some s' \<and> core_inv s' \<and> mtx_inv s' \<and> ctxtsk s' = ctxtsk s1 \<and>
    mtxtsk (mtxcb s' ?i) = (case que s1 (QMtx ?i) of [] \<Rightarrow> None | t # _ \<Rightarrow> Some t) \<and>
    (\<forall>t ts. que s1 (QMtx ?i) = t # ts \<longrightarrow> \<not> in_wait (state (tcb s' t)))"
    by (rule pass_mutex_restores[OF R(6) s1(2) R(7,8) _ il _ R(1)]) (use M(1) i(3) in \<open>simp_all add: R(2,3)\<close>)
  then obtain s' where s': "pass_mutex ?i s1 = Some s'" "core_inv s'" "mtx_inv s'"
    "mtxtsk (mtxcb s' ?i) = (case que s (QMtx ?i) of [] \<Rightarrow> None | t # _ \<Rightarrow> Some t)"
    "\<And>t ts. que s (QMtx ?i) = t # ts \<Longrightarrow> \<not> in_wait (state (tcb s' t))"
    using release_mutex_ready_queues[OF inv(1) cl c(2) s1(1), of "WMtx ?i"] by auto
  have "tk_unl_mtx oid s = Some (Ret E_OK, END_CRITICAL_SECTION s')"
    using i c s1(1) s'(1) by (simp add: tk_unl_mtx_def check_defs consts_defs)
  moreover have "t \<notin> set (que s' (QMtx ?i))" if "que s (QMtx ?i) = t # ts" for t ts
    using s'(5)[OF that] core_inv_in_wait[OF s'(2)] by blast
  ultimately show ?thesis using s' by auto
qed

section \<open>Lock\<close>

lemma mtx_own_weaken: "mtx_own None s \<Longrightarrow> mtx_own (Some i) s"
  unfolding mtx_own_def by blast

lemma wait_mutex_gcb:
  assumes "tmout \<noteq> TMO_POL"
  shows "wait_mutex i c tmout s =
    knl_gcb_make_wait (WMtx i) (mtxid (mtxcb s i)) (if mtx_kind (mtxcb s i) = TA_TFIFO then TA_TFIFO else TA_TPRI) c tmout
      (prepare_wait c (mtx_wspec (mtxcb s i)) (winfo (tcb s c)) s)"
proof -
  have "upd_tcb c (wid_update (\<lambda>_. k)) (set_wercd c E_TMOUT (prepare_wait c ws (winfo (tcb s c)) s)) =
      upd_tcb c (\<lambda>b. b\<lparr>wspec := ws, wercd := Some E_TMOUT, wid := k\<rparr>) s" for k ws
    by (cases "tcb s c") (simp add: upd_tcb_def set_wercd_def prepare_wait_def)
  then show ?thesis using assms
    by (simp add: wait_mutex_def knl_gcb_make_wait_def Let_def consts_defs)
qed

text \<open>
  The owner has been given the priority of the task that is about to wait (\<open>E\<close>); when that task is
  in the queue the limit comes from the queue.
\<close>

lemma wait_mutex_result:
  assumes inv: "core_inv s" and c: "ctxtsk s = Some c" "state (tcb s c) = TS_READY"
    and id: "mtxid (mtxcb s i) = ID_OBJ i" and tm: "tmout \<noteq> TMO_POL"
  defines "s' \<equiv> wait_mutex i c tmout s"
  shows "core_inv s'" "t \<noteq> c \<Longrightarrow> tcb s' t = tcb s t"
    "que s' (QMtx i) = wait_enqueue (if mtx_kind (mtxcb s i) = TA_TFIFO then TA_TFIFO else TA_TPRI) (tcb s) c (que s (QMtx i))"
    "j \<noteq> i \<Longrightarrow> que s' (QMtx j) = que s (QMtx j)"
    "mtxcb s' = mtxcb s" "free_mtxcb s' = free_mtxcb s" "priority (tcb s' c) = priority (tcb s c)"
    "bpriority (tcb s' c) = bpriority (tcb s c)" "mtxlist (tcb s' c) = mtxlist (tcb s c)"
    "state (tcb s' c) = TS_WAIT" "wspec (tcb s' c) = mtx_wspec (mtxcb s i)"
proof -
  let ?a = "if mtx_kind (mtxcb s i) = TA_TFIFO then TA_TFIFO else TA_TPRI"
  let ?p = "prepare_wait c (mtx_wspec (mtxcb s i)) (winfo (tcb s c)) s"
  have e: "s' = knl_gcb_make_wait (WMtx i) (mtxid (mtxcb s i)) ?a c tmout ?p"
    unfolding s'_def by (rule wait_mutex_gcb[OF tm])
  have wh: "wait_home (mtx_wspec (mtxcb s i)) (mtxid (mtxcb s i)) = Some (QMtx i)"
    by (simp add: mtx_wspec_def id)
  note B = block_on[OF inv c wh, where objatr = ?a and tmout = tmout and wi = "winfo (tcb s c)", folded e]
  have cl: "c < NUM_TSKID" by (rule core_invD(5)[OF inv c(1)])
  have "can_block c ?p" unfolding prepare_wait_def
    by (rule can_block_upd[OF inv cl c(2), where g = "Some E_OK" and ws = "mtx_wspec (mtxcb s i)" and wi = "winfo (tcb s c)"
          and i = "wid (tcb s c)"]) (simp_all add: mtx_wspec_def)
  then have "ready_to_wait (WMtx i) (mtxid (mtxcb s i)) c ?p" using wh by (simp add: ready_to_wait_def)
  note G = gcb_wait_blocked(2)[OF this tm, where objatr = ?a, folded e]
  show "core_inv s'" "t \<noteq> c \<Longrightarrow> tcb s' t = tcb s t"
    "que s' (QMtx i) = wait_enqueue ?a (tcb s) c (que s (QMtx i))" "j \<noteq> i \<Longrightarrow> que s' (QMtx j) = que s (QMtx j)"
    "priority (tcb s' c) = priority (tcb s c)" "state (tcb s' c) = TS_WAIT"
    using B(1) B(3)[of t] B(4)[of "WMtx i"] B(4)[of "WMtx j"] B(8) B(10) tm by simp_all
  show "mtxcb s' = mtxcb s" "free_mtxcb s' = free_mtxcb s" using mtxst_kframe[OF B(5)] by simp_all
  show "bpriority (tcb s' c) = bpriority (tcb s c)" "mtxlist (tcb s' c) = mtxlist (tcb s c)"
    "wspec (tcb s' c) = mtx_wspec (mtxcb s i)" by (simp_all add: G)
qed

definition wait_limit :: "nat \<Rightarrow> nat \<Rightarrow> 'a mtxstate_scheme \<Rightarrow> nat \<Rightarrow> nat set" where
  "wait_limit i c s =
     (\<lambda>u. if mtxtsk (mtxcb s i) = Some u \<and> mtx_kind (mtxcb s i) = TA_INHERIT then {priority (tcb s c)} else {})"

lemma due_with_waiter:
  fixes f :: "nat \<Rightarrow> nat"
  assumes "finite Q" "finite R"
  shows "Min (insert b ({f c} \<union> (if Q = {} then R else insert (Min (f ` Q)) R))) = Min (insert (Min (f ` insert c Q)) (insert b R))"
proof (cases "Q = {}")
  case True
  then show ?thesis by (simp add: insert_commute)
next
  case False
  have "Min (insert (Min (f ` insert c Q)) (insert b R)) = min (min (f c) (Min (f ` Q))) (Min (insert b R))"
    using assms False by (simp add: min.assoc)
  also have "\<dots> = Min (insert (f c) (insert (Min (f ` Q)) (insert b R)))"
    using assms by (simp add: min.assoc)
  finally show ?thesis using False by (simp add: insert_commute)
qed

lemma limits_split:
  assumes "i \<in> set ms"
  shows "limits s ms = (case mtx_limit s i of Some p \<Rightarrow> insert p (limits s (removeAll i ms)) | None \<Rightarrow> limits s (removeAll i ms))"
  using assms
  by (cases "mtx_limit s i") (auto simp: limits_iff, (metis DiffI singletonD option.distinct(1) option.inject)+)

lemma wait_mutex_tasks:
  assumes "core_inv s" "ctxtsk s = Some c" "state (tcb s c) = TS_READY" "mtxid (mtxcb s i) = ID_OBJ i" "tmout \<noteq> TMO_POL"
  shows "mtxlist (tcb (wait_mutex i c tmout s) u) = mtxlist (tcb s u)"
    "bpriority (tcb (wait_mutex i c tmout s) u) = bpriority (tcb s u)"
    "priority (tcb (wait_mutex i c tmout s) u) = priority (tcb s u)"
    "state (tcb (wait_mutex i c tmout s) u) = TS_NONEXIST \<longleftrightarrow> state (tcb s u) = TS_NONEXIST"
  using wait_mutex_result(2)[OF assms, of u] wait_mutex_result(7-10)[OF assms] assms(3) by (cases "u = c"; simp)+

lemma lock_wait_own:
  assumes inv: "core_inv s" "mtx_own None s"
    and c: "ctxtsk s = Some c" "state (tcb s c) = TS_READY" and i: "i < NUM_MTXID" "mtxid (mtxcb s i) = ID_OBJ i"
    and mt: "mtxtsk (mtxcb s i) = Some mt" and tm: "tmout \<noteq> TMO_POL"
  shows "mtx_own None (wait_mutex i c tmout s)"
proof -
  let ?s = "wait_mutex i c tmout s"
  note W = wait_mutex_result[OF inv(1) c i(2) tm] and T = wait_mutex_tasks[OF inv(1) c i(2) tm]
  note O = mtx_ownD[OF inv(2)]
  have nq: "c \<notin> set (que s (QMtx j))" for j by (rule ready_not_queued[OF inv(1) c(2)])
  have q: "set (que ?s (QMtx i)) = insert c (set (que s (QMtx i)))" by (simp add: W(3))
  have 1: "\<forall>u < NUM_TSKID. distinct (mtxlist (tcb ?s u)) \<and>
        (\<forall>j\<in>set (mtxlist (tcb ?s u)). j < NUM_MTXID \<and> mtxid (mtxcb ?s j) \<noteq> 0 \<and> mtxtsk (mtxcb ?s j) = Some u)"
    unfolding T W(5) using O(1,2) by blast
  have 2: "\<forall>j < NUM_MTXID. mtxid (mtxcb ?s j) \<noteq> 0 \<longrightarrow> ceilpri (mtxcb ?s j) < NUM_TSKPRI \<and>
        (\<forall>t. mtxtsk (mtxcb ?s j) = Some t \<longrightarrow> None \<noteq> Some j \<longrightarrow>
           t < NUM_TSKID \<and> state (tcb ?s t) \<noteq> TS_NONEXIST \<and> j \<in> set (mtxlist (tcb ?s t)))"
    unfolding T W(5) using O(3,4) by blast
  have 3: "\<forall>j. que ?s (QMtx j) \<noteq> [] \<longrightarrow>
        j < NUM_MTXID \<and> mtxid (mtxcb ?s j) \<noteq> 0 \<and> mtxtsk (mtxcb ?s j) \<noteq> None \<and>
        (\<forall>t\<in>set (que ?s (QMtx j)). wspec (tcb ?s t) = mtx_wspec (mtxcb ?s j))"
  proof (intro allI impI)
    fix j assume ne: "que ?s (QMtx j) \<noteq> []"
    have w: "wspec (tcb ?s t) = mtx_wspec (mtxcb s j)" if t: "t \<in> set (que ?s (QMtx j))" for t
      using t q O(5)[of t j] W(2)[of t] W(4)[of j] W(11) nq[of j] by (cases "j = i"; cases "t = c") auto
    have "j < NUM_MTXID \<and> mtxid (mtxcb s j) \<noteq> 0 \<and> mtxtsk (mtxcb s j) \<noteq> None"
      using ne i mt W(4)[of j] O(5)[of "hd (que s (QMtx j))" j] by (cases "j = i") auto
    with w show "j < NUM_MTXID \<and> mtxid (mtxcb ?s j) \<noteq> 0 \<and> mtxtsk (mtxcb ?s j) \<noteq> None \<and>
        (\<forall>t\<in>set (que ?s (QMtx j)). wspec (tcb ?s t) = mtx_wspec (mtxcb ?s j))" by (simp add: W(5))
  qed
  show ?thesis unfolding mtx_own_def using 1 2 3 by blast
qed

lemma lock_wait_sorted:
  assumes inv: "core_inv s" "mtx_sorted s"
    and c: "ctxtsk s = Some c" "state (tcb s c) = TS_READY" and i: "mtxid (mtxcb s i) = ID_OBJ i" and tm: "tmout \<noteq> TMO_POL"
  shows "mtx_sorted (wait_mutex i c tmout s)"
proof -
  note W = wait_mutex_result[OF inv(1) c i tm] and T = wait_mutex_tasks[OF inv(1) c i tm]
  show ?thesis
    unfolding mtx_sorted_def tpri_sorted_def W(5) T
  proof (intro allI impI)
    fix j assume k: "mtx_kind (mtxcb s j) \<noteq> TA_TFIFO"
    then have "sorted (map (\<lambda>u. priority (tcb s u)) (que s (QMtx j)))"
      using inv(2) by (simp add: mtx_sorted_def tpri_sorted_def)
    then show "sorted (map (\<lambda>u. priority (tcb s u)) (que (wait_mutex i c tmout s) (QMtx j)))"
      using k wait_enqueue_sorted[of "tcb s" "que s (QMtx j)" TA_TPRI c] W(3) W(4)[of j]
      by (cases "j = i") (simp_all add: consts_defs)
  qed
qed

lemma lock_wait_due:
  assumes inv: "core_inv s" "mtx_own None s" "mtx_sorted s" and u: "u < NUM_TSKID"
    and c: "ctxtsk s = Some c" "state (tcb s c) = TS_READY" and i: "i < NUM_MTXID" "mtxid (mtxcb s i) = ID_OBJ i"
    and tm: "tmout \<noteq> TMO_POL"
  shows "due (\<lambda>_. {}) (wait_mutex i c tmout s) u = due (wait_limit i c s) s u"
proof (cases "i \<in> set (mtxlist (tcb s u)) \<and> mtx_kind (mtxcb s i) = TA_INHERIT")
  case True
  let ?s = "wait_mutex i c tmout s" and ?E = "\<lambda>_. {} :: nat set" and ?f = "\<lambda>u. priority (tcb s u)"
  let ?R = "limits s (removeAll i (mtxlist (tcb s u)))" and ?Q = "set (que s (QMtx i))"
  note W = wait_mutex_result[OF inv(1) c i(2) tm] and T = wait_mutex_tasks[OF inv(1) c i(2) tm]
  have q: "set (que ?s (QMtx i)) = insert c ?Q" by (simp add: W(3))
  have o: "mtxtsk (mtxcb s i) = Some u" using mtx_ownD(2)[OF inv(2) u] True by blast
  have R: "limits ?s (removeAll i (mtxlist (tcb s u))) = ?R"
    by (intro limits_cong mtx_limit_cong) (use W(4,5) T in auto)
  have "mtx_limit ?s i = Some (Min ((\<lambda>u. priority (tcb ?s u)) ` set (que ?s (QMtx i))))"
    by (rule mtx_limit_inherit[OF _ lock_wait_sorted[OF inv(1,3) c i(2) tm]]) (use True q W(5) in auto)
  then have "due ?E ?s u = Min (insert (Min (?f ` insert c ?Q)) (insert (bpriority (tcb s u)) ?R))"
    using due_priority_split[of i ?s u _ ?E] True by (simp only: T q R) simp
  also have "\<dots> = Min (insert (bpriority (tcb s u)) ({?f c} \<union> (if ?Q = {} then ?R else insert (Min (?f ` ?Q)) ?R)))"
    by (rule due_with_waiter[symmetric]) simp_all
  also have "(if ?Q = {} then ?R else insert (Min (?f ` ?Q)) ?R) = limits s (mtxlist (tcb s u))"
  proof (cases "que s (QMtx i) = []")
    case empty: True
    then have "mtx_limit s i = None" using True by (simp add: mtx_limit_def mtx_waited_def)
    with limits_split[of i "mtxlist (tcb s u)" s] True empty show ?thesis by simp
  next
    case ne: False
    with True mtx_limit_inherit[of s i] inv(3) have "mtx_limit s i = Some (Min (?f ` ?Q))" by blast
    with limits_split[of i "mtxlist (tcb s u)" s] True ne show ?thesis by simp
  qed
  finally show ?thesis using True o by (simp add: due_def wait_limit_def)
next
  case False
  note W = wait_mutex_result[OF inv(1) c i(2) tm] and T = wait_mutex_tasks[OF inv(1) c i(2) tm]
  have "mtx_limit (wait_mutex i c tmout s) m = mtx_limit s m" if m: "m \<in> set (mtxlist (tcb s u))" for m
  proof (rule mtx_limit_cong)
    assume k: "mtx_kind (mtxcb s m) = TA_INHERIT"
    then have "m \<noteq> i" using False m by auto
    then show "que (wait_mutex i c tmout s) (QMtx m) = que s (QMtx m)" by (rule W(4))
  qed (simp_all add: W(5) T)
  then have "due (\<lambda>_. {}) (wait_mutex i c tmout s) u = due (\<lambda>_. {}) s u" by (intro due_priority_cong) (simp_all add: T)
  moreover have "wait_limit i c s u = {}"
    using False mtx_ownD(3)[OF inv(2), of i u] i by (auto simp: wait_limit_def)
  ultimately show ?thesis by (simp add: due_def)
qed

lemma lock_wait_keeps:
  assumes inv: "core_inv s" "mtx_own None s" "mtx_sorted s"
    and ok: "\<And>u. pri_ok (wait_limit i c s) s u"
    and tab: "cb_table_inv NUM_MTXID (\<lambda>i. mtxid (mtxcb s i)) (free_mtxcb s)"
    and c: "ctxtsk s = Some c" "state (tcb s c) = TS_READY" and i: "i < NUM_MTXID" "mtxid (mtxcb s i) = ID_OBJ i"
    and mt: "mtxtsk (mtxcb s i) = Some mt" and tm: "tmout \<noteq> TMO_POL"
  shows "core_inv (wait_mutex i c tmout s)" "mtx_inv (wait_mutex i c tmout s)"
proof -
  note W = wait_mutex_result[OF inv(1) c i(2) tm] and T = wait_mutex_tasks[OF inv(1) c i(2) tm]
  show "core_inv (wait_mutex i c tmout s)" by (rule W(1))
  have "pri_ok (\<lambda>_. {}) (wait_mutex i c tmout s) u" for u
    using ok[of u] lock_wait_due[OF inv _ c i tm, of u] by (auto simp: pri_ok_def T)
  then show "mtx_inv (wait_mutex i c tmout s)"
    using lock_wait_own[OF inv(1,2) c i mt tm] lock_wait_sorted[OF inv(1,3) c i(2) tm] tab
    by (simp add: mtx_inv_def W(5,6))
qed

text \<open>
  Waiting for a mutex. Before the caller waits, the owner of an inheritance mutex is raised to the
  caller's priority, and with it the whole chain of owners it waits for.
\<close>

lemma owner_raise:
  assumes inv: "core_inv s" "mtx_inv s" and c: "ctxtsk s = Some c" "state (tcb s c) = TS_READY"
    and i: "i < NUM_MTXID" "mtxid (mtxcb s i) \<noteq> 0"
    and mt: "mtxtsk (mtxcb s i) = Some mt" and ch: "chain_fin (waits_on s) {c} mt"
  shows "\<exists>s'. (if mtx_kind (mtxcb s i) = TA_INHERIT \<and> priority (tcb s mt) > priority (tcb s c)
       then knl_change_task_priority mt (priority (tcb s c)) s else Some s) = Some s' \<and>
     restored (wait_limit i c s) {c} s s'"
proof -
  let ?E = "wait_limit i c s"
  note M = mtx_invD[OF inv(2)]
  have o: "mt < NUM_TSKID" "state (tcb s mt) \<noteq> TS_NONEXIST" using mtx_ownD(3)[OF M(2) i mt] by auto
  have E: "?E mt = (if mtx_kind (mtxcb s i) = TA_INHERIT then {priority (tcb s c)} else {})"
    "\<And>u. u \<noteq> mt \<Longrightarrow> ?E u = {}" using mt by (auto simp: wait_limit_def)
  have oth: "pri_ok ?E s u" if "u \<noteq> mt" for u
    using M(4)[of u] E(2)[OF that] by (simp add: pri_ok_def due_def)
  have p: "priority (tcb s mt) = due (\<lambda>_. {}) s mt" using M(4)[of mt] o by (simp add: pri_ok_def)
  have d: "due ?E s mt = (if mtx_kind (mtxcb s i) = TA_INHERIT then min (priority (tcb s c)) (priority (tcb s mt)) else priority (tcb s mt))"
  proof -
    have "Min (insert b (insert a L)) = min a (Min (insert b L))" if "finite L" for a b :: nat and L
      using that by (subst insert_commute) simp
    then show ?thesis by (simp add: E(1) due_def p)
  qed
  show ?thesis
  proof (cases "mtx_kind (mtxcb s i) = TA_INHERIT \<and> priority (tcb s mt) > priority (tcb s c)")
    case True
    have a: "u \<noteq> mt" if "reach (waits_on s) mt u" for u using chain_fin_acyclic[OF ch] that by blast
    have "\<exists>s'. knl_change_task_priority mt (due ?E s mt) s = Some s' \<and> restored ?E {c} s s'"
      by (rule change_priority_restores[OF ch refl inv(1) M(2,3) o(1) oth]) (use E(2) a in \<open>auto simp: E(1)\<close>)
    with True d show ?thesis by simp
  next
    case False
    then have "due ?E s mt = priority (tcb s mt)" using d by auto
    then have "pri_ok ?E s u" for u using oth[of u] by (cases "u = mt") (auto simp: pri_ok_def)
    then have "restored ?E {c} s s" using inv(1) M(3) by (simp add: restored_def)
    with False show ?thesis by auto
  qed
qed

text \<open>What a lock call that passes the checks of its arguments gives back and leaves behind.\<close>

definition lock_outcome :: "nat \<Rightarrow> nat \<Rightarrow> TMO \<Rightarrow> 'a mtxstate_scheme \<Rightarrow> sysret \<Rightarrow> 'a mtxstate_scheme \<Rightarrow> bool" where
  "lock_outcome i c tmout s r s' \<longleftrightarrow>
     (let cb = mtxcb s i
      in if mtxid cb = 0 then r = Ret E_NOEXS \<and> s' = END_CRITICAL_SECTION s
         else if mtxtsk cb = Some c \<or> mtx_kind cb = TA_CEILING \<and> bpriority (tcb s c) < ceilpri cb
           then r = Ret E_ILUSE \<and> s' = END_CRITICAL_SECTION s
         else
           (case mtxtsk cb of
              None \<Rightarrow> r = Ret E_OK \<and> mtxtsk (mtxcb s' i) = Some c \<and> i \<in> set (mtxlist (tcb s' c))
            | Some mt \<Rightarrow>
                if tmout = TMO_POL then r = Ret E_TMOUT \<and> s' = END_CRITICAL_SECTION s
                else r = Blocked \<and> state (tcb s' c) = TS_WAIT \<and> c \<in> set (que s' (QMtx i)) \<and> mtxtsk (mtxcb s' i) = Some mt \<and>
                  (mtx_kind cb = TA_INHERIT \<longrightarrow> priority (tcb s' mt) \<le> priority (tcb s' c))))"

lemma inherit_owner_priority:
  assumes inv: "mtx_inv s" and t: "t \<in> set (que s (QMtx i))" and k: "mtx_kind (mtxcb s i) = TA_INHERIT"
    and mt: "mtxtsk (mtxcb s i) = Some mt"
  shows "priority (tcb s mt) \<le> priority (tcb s t)"
proof -
  note M = mtx_invD[OF inv]
  let ?f = "\<lambda>u. priority (tcb s u)" and ?Q = "set (que s (QMtx i))"
  have o: "mt < NUM_TSKID" "state (tcb s mt) \<noteq> TS_NONEXIST" "i \<in> set (mtxlist (tcb s mt))"
    using mtx_ownD(5)[OF M(2) t] mtx_ownD(3)[OF M(2) _ _ mt] by auto
  have "mtx_limit s i = Some (Min (?f ` ?Q))" by (rule mtx_limit_inherit[OF k M(3)]) (use t in auto)
  then have l: "Min (?f ` ?Q) \<in> limits s (mtxlist (tcb s mt))" using o(3) by (auto simp: limits_iff)
  have "?f mt = due (\<lambda>_. {}) s mt" using M(4)[of mt] o(1,2) by (simp add: pri_ok_def)
  also have "\<dots> \<le> Min (?f ` ?Q)" unfolding due_def by (rule Min_le) (use l in simp_all)
  also have "\<dots> \<le> ?f t" using t by simp
  finally show ?thesis .
qed

lemma lock_restores:
  assumes inv: "core_inv s" "mtx_inv s" "run_ok s" and ct: "ctxtsk s = Some c"
    and i: "CHK_OBJID NUM_MTXID oid" "\<not> CHECK_TMOUT tmout < E_OK" "\<not> CHECK_DISPATCH s < E_OK"
    and ch: "\<And>mt. mtxtsk (mtxcb s (INDEX_OBJ oid)) = Some mt \<Longrightarrow> mt \<noteq> c \<Longrightarrow> chain_fin (waits_on s) {c} mt"
  shows "\<exists>r s'. tk_loc_mtx oid tmout s = Some (r, s') \<and> core_inv s' \<and> mtx_inv s' \<and> lock_outcome (INDEX_OBJ oid) c tmout s r s'"
proof -
  let ?i = "INDEX_OBJ oid"
  note M = mtx_invD[OF inv(2)]
  have c: "ctxtsk s = Some c" "state (tcb s c) = TS_READY" using CHECK_DISPATCH_OK[OF i(3) inv(3)] ct by auto
  have cl: "c < NUM_TSKID" by (rule core_invD(5)[OF inv(1) c(1)])
  have il: "?i < NUM_MTXID" by (rule INDEX_OBJ_less[OF i(1)])
  have e: "\<not> first_err [CHECK_OBJID NUM_MTXID oid, CHECK_TMOUT tmout, CHECK_DISPATCH s] < E_OK"
    using i by (simp add: CHECK_OBJID_def consts_defs)
  note L = tk_loc_mtx_def[of oid tmout s, unfolded Let_def if_not_P[OF e] c(1) option.sel]
  show ?thesis
  proof (cases "mtxid (mtxcb s ?i) = 0 \<or> mtxtsk (mtxcb s ?i) = Some c \<or>
      mtx_kind (mtxcb s ?i) = TA_CEILING \<and> bpriority (tcb s c) < ceilpri (mtxcb s ?i)")
    case True
    then show ?thesis using inv by (auto simp: L lock_outcome_def Let_def)
  next
    case ok: False
    show ?thesis
    proof (cases "mtxtsk (mtxcb s ?i)")
      case None
      have q: "que s (QMtx ?i) = []" using mtx_ownD(5)[OF M(2), of _ ?i] None by (cases "que s (QMtx ?i)") auto
      have ni: "?i \<notin> set (mtxlist (tcb s u))" if "u < NUM_TSKID" for u using mtx_ownD(2)[OF M(2) that, of ?i] None by auto
      have "\<exists>s'. take_mutex ?i c s = Some s' \<and> core_inv s' \<and> mtx_inv s' \<and> mtxtsk (mtxcb s' ?i) = Some c \<and>
          ctxtsk s' = ctxtsk s \<and> ?i \<in> set (mtxlist (tcb s' c))"
        by (rule take_mutex_restores[OF inv(1) mtx_own_weaken[OF M(2)] M(3,4,1) il]) (use ok c cl ni q in auto)
      then show ?thesis using ok None c by (auto simp: L lock_outcome_def Let_def)
    next
      case (Some mt)
      then have ne: "mt \<noteq> c" using ok by auto
      from owner_raise[OF inv(1,2) c il _ Some ch[OF Some ne]] ok obtain s1 where
        s1: "(if mtx_kind (mtxcb s ?i) = TA_INHERIT \<and> priority (tcb s mt) > priority (tcb s c)
              then knl_change_task_priority mt (priority (tcb s c)) s else Some s) = Some s1"
          "restored (wait_limit ?i c s) {c} s s1" by blast
      have f: "chg_frame s s1" "core_inv s1" "mtx_sorted s1" "\<And>u. pri_ok (wait_limit ?i c s) s1 u"
        "priority (tcb s1 c) = priority (tcb s c)" using s1(2) by (auto simp: restored_def)
      note C = chg_frameD[OF f(1)]
      have wl: "wait_limit ?i c s = wait_limit ?i c s1" by (simp only: wait_limit_def C(1) f(5))
      have c1: "ctxtsk s1 = Some c" "state (tcb s1 c) = TS_READY" using c C(4) C(10)[of c] by simp_all
      have id: "mtxid (mtxcb s1 ?i) = ID_OBJ ?i" using M(1) il ok by (auto simp: cb_table_inv_def C(1))
      show ?thesis
      proof (cases "tmout = TMO_POL")
        case True
        have "tk_loc_mtx oid tmout s = Some (Ret E_TMOUT, END_CRITICAL_SECTION s)"
          unfolding L using ok Some True by auto
        then show ?thesis using inv ok Some True by (auto simp: lock_outcome_def Let_def)
      next
        case False
        note W = wait_mutex_result[OF f(2) c1 id False]
        have w: "core_inv (wait_mutex ?i c tmout s1) \<and> mtx_inv (wait_mutex ?i c tmout s1)"
          using lock_wait_keeps[OF f(2) chg_frame_own[OF f(1) M(2)] f(3) f(4)[unfolded wl] _ c1 il id _ False] M(1) Some
          by (simp add: C(1,2))
        have q: "c \<in> set (que (wait_mutex ?i c tmout s1) (QMtx ?i))" using W(3) by simp
        have p: "priority (tcb (wait_mutex ?i c tmout s1) mt) \<le> priority (tcb (wait_mutex ?i c tmout s1) c)" if "mtx_kind (mtxcb s ?i) = TA_INHERIT"
          by (rule inherit_owner_priority[OF conjunct2[OF w] q]) (use that Some in \<open>simp_all add: W(5) C(1)\<close>)
        have m: "mtxtsk (mtxcb (wait_mutex ?i c tmout s1) ?i) = Some mt" by (simp add: W(5) C(1) Some)
        let ?s' = "END_CRITICAL_SECTION (wait_mutex ?i c tmout s1)"
        have "lock_outcome ?i c tmout s Blocked ?s'"
          using ok Some False q p m W(10) by (simp add: lock_outcome_def Let_def)
        moreover have "tk_loc_mtx oid tmout s = Some (Blocked, ?s')" unfolding L using ok Some False s1(1) by auto
        ultimately show ?thesis using w by simp
      qed
    qed
  qed
qed

end
