(* ===== verification/Wait_Release.thy ===== *)
theory Wait_Release
  imports Mutex_Calls
begin

text \<open>
  The release hooks of the wait specifications, the part of a forced release
  (\<^verbatim>\<open>knl_wait_release_ng\<close>) and of a timeout (\<^verbatim>\<open>knl_wait_release_tmout\<close>) that belongs to the
  object managers. The hooks of semaphore and message buffer meet the contract
  \<open>release_hook\<close>; the hook of an inheritance mutex takes back the priority the owner had
  inherited from the released task.
\<close>

section \<open>The hooks\<close>

definition obj_rel_wai :: "nat \<Rightarrow> 'a mbfstate_scheme \<Rightarrow> 'a mbfstate_scheme" where
  "obj_rel_wai t s =
     (case wspec (tcb s t) of
        knl_wspec_sem_tfifo \<Rightarrow> sem_rel_wai t s
      | knl_wspec_sem_tpri \<Rightarrow> sem_rel_wai t s
      | knl_wspec_smbf_tfifo \<Rightarrow> knl_mbf_rel_wai t s
      | knl_wspec_smbf_tpri \<Rightarrow> knl_mbf_rel_wai t s
      | _ \<Rightarrow> s)"

text \<open>\<^verbatim>\<open>if (tcb->wspec->rel_wai_hook != NULL) (*tcb->wspec->rel_wai_hook)(tcb)\<close>\<close>

definition rel_wai_hook :: "nat \<Rightarrow> 'a mtxstate_scheme \<Rightarrow> 'a mtxstate_scheme option" where
  "rel_wai_hook t s =
     (if wspec (tcb s t) = knl_wspec_mtx_inherit then mtx_rel_wai t s else Some (obj_rel_wai t s))"

lemma hook_rel_refl: "core_inv s \<Longrightarrow> hook_rel K s s"
  by (auto simp: hook_rel_def intro!: exI[of _ "[]"])

lemma obj_rel_wai_rel:
  assumes inv: "core_inv s"
  shows "hook_rel (\<lambda>w. \<not> is_WMtx w) s (obj_rel_wai t s) \<and> mbfstate.more (obj_rel_wai t s) = mbfstate.more s"
proof -
  let ?i = "INDEX_OBJ (wid (tcb s t))"
  note S = sem_loop_hook_rel[OF inv, of ?i] and M = mbf_wakeup_hook_rel[OF inv, of ?i]
  have sem: "hook_rel (\<lambda>w. \<not> is_WMtx w) s (sem_rel_wai t s) \<and> mbfstate.more (sem_rel_wai t s) = mbfstate.more s"
    using hook_rel_mono[OF S(1), of "\<lambda>w. \<not> is_WMtx w"] kind_not_mtx(1) hook_rel_refl[OF inv]
      mbfst_frame(4)[OF mbxst_frame(5)[OF flgst_frame(3)[OF S(2)]]]
    by (simp add: sem_rel_wai_def sem_chg_pri_def Let_def)
  have mbf: "hook_rel (\<lambda>w. \<not> is_WMtx w) s (knl_mbf_rel_wai t s) \<and> mbfstate.more (knl_mbf_rel_wai t s) = mbfstate.more s"
    using hook_rel_mono[OF conjunct1[OF M], of "\<lambda>w. \<not> is_WMtx w"] kind_not_mtx(4) M
    by (simp add: knl_mbf_rel_wai_def knl_mbf_chg_pri_def Let_def)
  show ?thesis using sem mbf hook_rel_refl[OF inv] by (simp add: obj_rel_wai_def split: WSPEC.split)
qed

text \<open>A hook touches only tasks that wait, so not the task whose release runs it.\<close>

lemma hook_rel_keeps:
  assumes inv: "core_inv s" and h: "hook_rel K s s'" and t: "\<not> in_wait (state (tcb s t))"
  shows "core_inv s'" "tcb s' t = tcb s t"
proof -
  obtain r where r: "tcb s' = served r (tcb s)" "\<forall>t\<in>set r. \<exists>w. K w \<and> t \<in> set (que s (QWait w))"
    using h by (auto simp: hook_rel_def)
  have "t \<notin> set r" using r(2) t core_inv_in_wait[OF inv] by blast
  then show "tcb s' t = tcb s t" by (simp add: r(1) served_def)
  show "core_inv s'" using h by (simp add: hook_rel_def)
qed

interpretation obj_hook: release_hook "\<lambda>t (s :: 'a mbfstate_scheme). Some (obj_rel_wai t s)"
proof
  fix s :: "'a mbfstate_scheme" and t
  assume inv: "core_inv s" and t: "t < NUM_TSKID" "\<not> in_wait (state (tcb s t))"
  note H = hook_rel_keeps[OF inv conjunct1[OF obj_rel_wai_rel[OF inv]] t(2), of t]
  show "\<exists>s'. Some (obj_rel_wai t s) = Some s' \<and> core_inv s' \<and> state (tcb s' t) = state (tcb s t) \<and>
      wercd (tcb s' t) = wercd (tcb s t)"
    using H by (intro exI[of _ "obj_rel_wai t s"]) simp
qed

section \<open>Release from an inheritance mutex\<close>

text \<open>Taking one waiting task away can lower the owner's due priority only if the owner ran at its priority.\<close>

lemma inherit_drop:
  fixes f :: "nat \<Rightarrow> nat"
  assumes R: "finite R" "R \<noteq> {}" and Q: "finite Q" "t \<in> Q" and P: "P = Min (insert (Min (f ` Q)) R)" "P \<noteq> f t"
  shows "Min (if Q - {t} = {} then R else insert (Min (f ` (Q - {t}))) R) = P"
proof -
  have PR: "P \<le> r" if "r \<in> R" for r unfolding P(1) using R that by (intro Min_le) auto
  have "P \<le> Min (f ` Q)" unfolding P(1) using R by (intro Min_le) auto
  then have PQ: "P \<le> f q" if "q \<in> Q" for q using Q that by (meson Min_le finite_imageI imageI order_trans)
  have "P = Min (f ` Q) \<or> P \<in> R" unfolding P(1) using Min_in[of "insert (Min (f ` Q)) R"] R by auto
  then show ?thesis
  proof
    assume "P \<in> R"
    moreover have "P \<le> Min (f ` (Q - {t}))" if "Q - {t} \<noteq> {}" using that Q PQ by (intro Min.boundedI) auto
    ultimately show ?thesis using R PR by (intro Min_eqI) (auto split: if_splits)
  next
    assume e: "P = Min (f ` Q)"
    have "Min (f ` Q) \<in> f ` Q" using Q by (intro Min_in) auto
    then obtain q where q: "q \<in> Q" "f q = P" using e by auto
    then have n: "q \<in> Q - {t}" using P(2) by auto
    then have "Min (f ` (Q - {t})) = P" by (intro Min_eqI) (use Q PQ q in auto)
    with n R PR show ?thesis by (auto intro!: Min_eqI)
  qed
qed

text \<open>
  A task has left the queue of mutex \<open>i\<close> (\<open>s1\<close>): only the owner of an inheritance mutex can be out
  of step.
\<close>

definition left_queue :: "nat \<Rightarrow> nat \<Rightarrow> 'a mtxstate_scheme \<Rightarrow> 'a mtxstate_scheme \<Rightarrow> bool" where
  "left_queue t i s s1 \<longleftrightarrow> core_inv s1 \<and> mtxcb s1 = mtxcb s \<and> free_mtxcb s1 = free_mtxcb s \<and>
     (\<exists>st e. \<not> in_wait st \<and> st \<noteq> TS_NONEXIST \<and> tcb s1 = (tcb s)(t := (tcb s t)\<lparr>state := st, wercd := e\<rparr>)) \<and>
     (\<forall>j. que s1 (QMtx j) = removeAll t (que s (QMtx j)))"

lemma left_queueD:
  assumes "left_queue t i s s1"
  shows "core_inv s1" "mtxcb s1 = mtxcb s" "free_mtxcb s1 = free_mtxcb s" "que s1 (QMtx j) = removeAll t (que s (QMtx j))"
    "priority (tcb s1 u) = priority (tcb s u)" "bpriority (tcb s1 u) = bpriority (tcb s u)"
    "mtxlist (tcb s1 u) = mtxlist (tcb s u)" "wspec (tcb s1 u) = wspec (tcb s u)" "wid (tcb s1 u) = wid (tcb s u)"
    "u \<noteq> t \<Longrightarrow> state (tcb s1 u) = state (tcb s u)" "\<not> in_wait (state (tcb s1 t))" "state (tcb s1 t) \<noteq> TS_NONEXIST"
  using assms by (auto simp: left_queue_def)

lemma left_queue_sorted:
  assumes "left_queue t i s s1" "mtx_sorted s" shows "mtx_sorted s1"
  using assms(2) unfolding mtx_sorted_def tpri_sorted_def
  by (simp add: left_queueD[OF assms(1)] sorted_map_removeAll)

lemma left_queue_own:
  assumes "left_queue t i s s1" "mtx_own x s" shows "mtx_own x s1"
proof (rule mtx_own_subset[OF assms(2)])
  show "state (tcb s1 u) = TS_NONEXIST \<Longrightarrow> state (tcb s u) = TS_NONEXIST" for u
    using left_queueD(10)[OF assms(1), of u] left_queueD(12)[OF assms(1)] by (cases "u = t") auto
qed (use left_queueD[OF assms(1)] in auto)

lemma left_queue_due_other:
  assumes l: "left_queue t i s s1" and inv: "core_inv s" "mtx_own None s" and t: "t \<in> set (que s (QMtx i))"
    and u: "u < NUM_TSKID" "mtxtsk (mtxcb s i) \<noteq> Some u"
  shows "due E s1 u = due E s u"
proof (rule due_priority_cong)
  note L = left_queueD[OF l]
  fix m assume "m \<in> set (mtxlist (tcb s u))"
  then have "m \<noteq> i" using mtx_ownD(2)[OF inv(2) u(1)] u(2) by auto
  then have "t \<notin> set (que s (QMtx m))" using core_inv_one_queue[OF inv(1) t, of "WMtx m"] by auto
  then show "mtx_limit s1 m = mtx_limit s m" by (intro mtx_limit_cong) (simp_all add: L)
qed (use left_queueD[OF l] in simp_all)

lemma left_queue_due_owner:
  assumes l: "left_queue t i s s1" and inv: "core_inv s" "mtx_inv s" and t: "t \<in> set (que s (QMtx i))"
    and k: "mtx_kind (mtxcb s i) = TA_INHERIT" and mt: "mtxtsk (mtxcb s i) = Some mt"
    and ne: "priority (tcb s mt) \<noteq> priority (tcb s t)"
  shows "due (\<lambda>_. {}) s1 mt = priority (tcb s mt)"
proof -
  let ?f = "\<lambda>u. priority (tcb s u)" and ?Q = "set (que s (QMtx i))"
  let ?R = "insert (bpriority (tcb s mt)) (limits s (removeAll i (mtxlist (tcb s mt))))"
  note M = mtx_invD[OF inv(2)] and L = left_queueD[OF l]
  have o: "mt < NUM_TSKID" "state (tcb s mt) \<noteq> TS_NONEXIST" "i \<in> set (mtxlist (tcb s mt))"
    using mtx_ownD(5)[OF M(2) t] mtx_ownD(3)[OF M(2) _ _ mt] by auto
  have lim: "mtx_limit s i = Some (Min (?f ` ?Q))" by (rule mtx_limit_inherit[OF k M(3)]) (use t in auto)
  have R: "limits s1 (removeAll i (mtxlist (tcb s mt))) = limits s (removeAll i (mtxlist (tcb s mt)))"
  proof (intro limits_cong mtx_limit_cong)
    fix m assume "m \<in> set (removeAll i (mtxlist (tcb s mt)))"
    then have "t \<notin> set (que s (QMtx m))" using core_inv_one_queue[OF inv(1) t, of "WMtx m"] by auto
    then show "que s1 (QMtx m) = que s (QMtx m)" by (simp add: L)
  qed (simp_all add: L)
  have p: "priority (tcb s mt) = Min (insert (Min (?f ` ?Q)) ?R)"
  proof -
    have "priority (tcb s mt) = due (\<lambda>_. {}) s mt" using M(4)[of mt] o(1,2) by (simp add: pri_ok_def)
    also have "\<dots> = Min (insert (Min (?f ` ?Q)) (insert (bpriority (tcb s mt)) ({} \<union> limits s (removeAll i (mtxlist (tcb s mt))))))"
      by (rule due_priority_split[OF o(3) lim])
    finally show ?thesis by (simp only: Un_empty_left)
  qed
  have q: "set (que s1 (QMtx i)) = ?Q - {t}" by (auto simp: L)
  have "due (\<lambda>_. {}) s1 mt = Min (if ?Q - {t} = {} then ?R else insert (Min (?f ` (?Q - {t}))) ?R)"
  proof (cases "?Q - {t} = {}")
    case True
    then have "que s1 (QMtx i) = []" using q by (metis set_empty)
    then have "mtx_limit s1 i = None" using k by (simp add: mtx_limit_def mtx_waited_def L)
    then have "limits s1 (mtxlist (tcb s mt)) = limits s (removeAll i (mtxlist (tcb s mt)))"
      using limits_split[OF o(3), of s1] R by simp
    then show ?thesis using True by (simp add: due_def L)
  next
    case False
    then have n: "que s1 (QMtx i) \<noteq> []" using q by (metis list.set(1))
    have "mtx_limit s1 i = Some (Min ((\<lambda>u. priority (tcb s1 u)) ` set (que s1 (QMtx i))))"
      by (rule mtx_limit_inherit[OF _ left_queue_sorted[OF l M(3)] n]) (simp add: L(2) k)
    then have lim1: "mtx_limit s1 i = Some (Min (?f ` (?Q - {t})))" by (simp only: q L(5))
    have "i \<in> set (mtxlist (tcb s1 mt))" using o(3) by (simp add: L(7))
    from due_priority_split[OF this lim1, of "\<lambda>_. {}"] False show ?thesis
      by (simp only: L(6,7) R Un_empty_left if_False)
  qed
  also have "\<dots> = priority (tcb s mt)" by (rule inherit_drop[OF _ _ _ t p ne]) simp_all
  finally show ?thesis .
qed

lemma left_queue_pri_ok:
  assumes l: "left_queue t i s s1" and inv: "core_inv s" "mtx_inv s" and t: "t \<in> set (que s (QMtx i))"
    and u: "mtxtsk (mtxcb s i) \<noteq> Some u \<or> mtx_kind (mtxcb s i) \<noteq> TA_INHERIT"
  shows "pri_ok (\<lambda>_. {}) s1 u"
proof -
  note M = mtx_invD[OF inv(2)] and L = left_queueD[OF l]
  have d: "due (\<lambda>_. {}) s1 u = due (\<lambda>_. {}) s u" if ul: "u < NUM_TSKID"
  proof (cases "mtxtsk (mtxcb s i) = Some u")
    case False
    then show ?thesis by (rule left_queue_due_other[OF l inv(1) M(2) t ul])
  next
    case True
    with u have k: "mtx_kind (mtxcb s i) \<noteq> TA_INHERIT" by blast
    show ?thesis
    proof (rule due_priority_cong)
      fix m assume "m \<in> set (mtxlist (tcb s u))"
      have q: "que s1 (QMtx m) = que s (QMtx m)" if "mtx_kind (mtxcb s m) = TA_INHERIT"
      proof -
        have "t \<notin> set (que s (QMtx m))" using core_inv_one_queue[OF inv(1) t, of "WMtx m"] that k by auto
        then show ?thesis by (simp add: L(4))
      qed
      show "mtx_limit s1 m = mtx_limit s m" by (rule mtx_limit_cong) (simp_all add: L(2,5) q)
    qed (simp_all add: L(6,7))
  qed
  have "state (tcb s u) \<noteq> TS_NONEXIST" if "state (tcb s1 u) \<noteq> TS_NONEXIST"
    using that L(10)[of u] core_inv_in_wait[OF inv(1) t] by (cases "u = t") auto
  then show ?thesis using M(4)[of u] d by (simp add: pri_ok_def L(5))
qed

lemma left_queue_mtx_inv:
  assumes l: "left_queue t i s s1" and inv: "core_inv s" "mtx_inv s" and ok: "\<And>u. pri_ok (\<lambda>_. {}) s1 u"
  shows "mtx_inv s1"
  using left_queue_own[OF l mtx_invD(2)[OF inv(2)]] left_queue_sorted[OF l mtx_invD(3)[OF inv(2)]] ok mtx_invD(1)[OF inv(2)]
  by (simp add: mtx_inv_def left_queueD(2,3)[OF l])

text \<open>
  The hook of the inheritance mutex recomputes the owner's priority when the owner ran at the priority
  of the released task, and follows the chain of owners from there.
\<close>

lemma mtx_rel_wai_restores:
  assumes l: "left_queue t i s s1" and inv: "core_inv s" "mtx_inv s" and t: "t \<in> set (que s (QMtx i))"
    and k: "mtx_kind (mtxcb s i) = TA_INHERIT" and mt: "mtxtsk (mtxcb s i) = Some mt"
    and ch: "chain_fin (waits_on s1) {} mt"
  shows "\<exists>s'. mtx_rel_wai t s1 = Some s' \<and> core_inv s' \<and> mtx_inv s' \<and> state_rel (state (tcb s1 t)) (state (tcb s' t))"
proof -
  let ?E = "\<lambda>_. {} :: nat set"
  note M = mtx_invD[OF inv(2)] and L = left_queueD[OF l]
  have o: "mt < NUM_TSKID" using mtx_ownD(5)[OF M(2) t] mtx_ownD(3)[OF M(2) _ _ mt] by auto
  have i: "INDEX_OBJ (wid (tcb s1 t)) = i" using not_in_mtx_queue(2)[OF inv(1) t] by (simp add: L(9))
  have e: "mtx_rel_wai t s1 = (if priority (tcb s mt) = priority (tcb s t) then knl_release_mutex mt None s1 else Some s1)"
    by (simp add: mtx_rel_wai_def i L(2,5) mt)
  have own: "mtx_own None s1" by (rule left_queue_own[OF l M(2)])
  have so: "mtx_sorted s1" by (rule left_queue_sorted[OF l M(3)])
  have oth: "pri_ok ?E s1 u" if "u \<noteq> mt" for u by (rule left_queue_pri_ok[OF l inv t]) (use that mt in simp)
  have keep: "mtx_inv s1" if "due ?E s1 mt = priority (tcb s1 mt)"
  proof (rule left_queue_mtx_inv[OF l inv])
    show "pri_ok ?E s1 u" for u using that oth[of u] by (cases "u = mt") (auto simp: pri_ok_def)
  qed
  show ?thesis
  proof (cases "priority (tcb s mt) = priority (tcb s t) \<and> due ?E s1 mt \<noteq> priority (tcb s1 mt)")
    case False
    then have d: "due ?E s1 mt = priority (tcb s1 mt)"
      using left_queue_due_owner[OF l inv t k mt] L(5)[of mt] by (cases "priority (tcb s mt) = priority (tcb s t)") simp_all
    have "release_mutex_loop s1 None (mtxlist (tcb s1 mt)) (bpriority (tcb s1 mt)) (bpriority (tcb s1 mt)) =
        (mtxlist (tcb s1 mt), due ?E s1 mt)" by (simp add: release_mutex_loop_spec due_def)
    then have "knl_release_mutex mt None s1 = Some s1" by (simp add: knl_release_mutex_def d)
    then show ?thesis using e keep[OF d] L(1) by simp
  next
    case True
    have "release_mutex_loop s1 None (mtxlist (tcb s1 mt)) (bpriority (tcb s1 mt)) (bpriority (tcb s1 mt)) =
        (mtxlist (tcb s1 mt), due ?E s1 mt)" by (simp add: release_mutex_loop_spec due_def)
    then have r: "knl_release_mutex mt None s1 = knl_change_task_priority mt (due ?E s1 mt) s1"
      using True by (simp add: knl_release_mutex_def)
    have "\<exists>s'. knl_change_task_priority mt (due ?E s1 mt) s1 = Some s' \<and> restored ?E {} s1 s'"
      by (rule change_priority_restores[OF ch refl L(1) own so o oth]) simp_all
    then obtain s' where s': "mtx_rel_wai t s1 = Some s'" "restored ?E {} s1 s'" using True r e by auto
    then have f: "chg_frame s1 s'" "core_inv s'" "mtx_sorted s'" "\<And>u. pri_ok ?E s' u" by (auto simp: restored_def)
    note C = chg_frameD[OF f(1)]
    have "mtx_inv s'" using chg_frame_own[OF f(1) own] f(3,4) M(1) by (simp add: mtx_inv_def C(1,2) L(2,3))
    then show ?thesis using s'(1) f(2) C(10)[of t] by blast
  qed
qed

lemma obj_rel_wai_mtx: "wspec (tcb s t) = mtx_wspec cb \<Longrightarrow> obj_rel_wai t s = s"
  by (auto simp: obj_rel_wai_def mtx_wspec_def)

lemma mutex_wait_released:
  assumes l: "left_queue t i s s1" and inv: "core_inv s" "mtx_inv s" and t: "t \<in> set (que s (QMtx i))"
    and ch: "\<And>mt. mtxtsk (mtxcb s i) = Some mt \<Longrightarrow> chain_fin (waits_on s1) {} mt"
  shows "\<exists>s'. rel_wai_hook t s1 = Some s' \<and> core_inv s' \<and> mtx_inv s' \<and> state_rel (state (tcb s1 t)) (state (tcb s' t))"
proof -
  note M = mtx_invD[OF inv(2)] and L = left_queueD[OF l]
  obtain mt where mt: "mtxtsk (mtxcb s i) = Some mt" and ws: "wspec (tcb s t) = mtx_wspec (mtxcb s i)"
    using mtx_ownD(5)[OF M(2) t] by auto
  show ?thesis
  proof (cases "mtx_kind (mtxcb s i) = TA_INHERIT")
    case True
    then have "wspec (tcb s1 t) = knl_wspec_mtx_inherit" by (simp add: L(8) ws mtx_wspec_def)
    then show ?thesis using mtx_rel_wai_restores[OF l inv t True mt ch[OF mt]] by (simp add: rel_wai_hook_def)
  next
    case False
    then have "wspec (tcb s1 t) \<noteq> knl_wspec_mtx_inherit" by (simp add: L(8) ws mtx_wspec_def)
    then have "rel_wai_hook t s1 = Some s1" using obj_rel_wai_mtx[of s1 t "mtxcb s i"] by (simp add: rel_wai_hook_def L(8) ws)
    moreover have "mtx_inv s1"
      by (rule left_queue_mtx_inv[OF l inv]) (rule left_queue_pri_ok[OF l inv t], use False in simp)
    ultimately show ?thesis using L(1) by simp
  qed
qed

section \<open>Forced release and timeout\<close>

lemma left_queue_release:
  assumes inv: "core_inv s" and t: "t \<in> set (que s (QMtx i))"
  shows "left_queue t i s (knl_wait_release t s)"
    "TM_TSK t \<notin> set (timer_queue s) \<Longrightarrow> left_queue t i s (knl_make_non_wait t (que_remove t s))"
proof -
  have tl: "t < NUM_TSKID" "in_wait (state (tcb s t))" using core_inv_queue_lt[OF inv t] core_inv_in_wait[OF inv t] .
  have e: "(tcb s)(t := (tcb s t)\<lparr>state := released (tcb s t)\<rparr>) =
      (tcb s)(t := (tcb s t)\<lparr>state := released (tcb s t), wercd := wercd (tcb s t)\<rparr>)" by simp
  have ex: "\<exists>st e. \<not> in_wait st \<and> st \<noteq> TS_NONEXIST \<and>
      (tcb s)(t := (tcb s t)\<lparr>state := released (tcb s t)\<rparr>) = (tcb s)(t := (tcb s t)\<lparr>state := st, wercd := e\<rparr>)"
    using e released_simps by blast
  have m: "mtxcb (knl_wait_release t s) = mtxcb s" "free_mtxcb (knl_wait_release t s) = free_mtxcb s"
    "mtxcb (knl_make_non_wait t (que_remove t s)) = mtxcb s" "free_mtxcb (knl_make_non_wait t (que_remove t s)) = free_mtxcb s"
    by (rule mtxst_kframe; simp)+
  show "left_queue t i s (knl_wait_release t s)"
    unfolding left_queue_def using core_inv_wait_release[OF inv tl] ex by (simp only: m wait_release_frame simp_thms)
  assume "TM_TSK t \<notin> set (timer_queue s)"
  from core_inv_make_non_wait[OF inv tl this] show "left_queue t i s (knl_make_non_wait t (que_remove t s))"
    unfolding left_queue_def using ex by (simp only: m make_non_wait_frame que_remove_frame simp_thms)
qed

lemma mtx_inv_set_wercd [simp]: "mtx_inv (set_wercd t e s) = mtx_inv s"
proof -
  have m: "mtxcb (set_wercd t e s) = mtxcb s" "free_mtxcb (set_wercd t e s) = free_mtxcb s"
    by (rule mtxst_kframe; simp)+
  have "mtx_limit (set_wercd t e s) j = mtx_limit s j" for j by (rule mtx_limit_cong) (auto simp: m)
  then have d: "due E (set_wercd t e s) u = due E s u" for E u
    by (intro due_priority_cong) simp_all
  have "mtx_sorted (set_wercd t e s) = mtx_sorted s" by (rule mtx_sorted_cong) (simp_all add: m)
  moreover have "pri_ok E (set_wercd t e s) u = pri_ok E s u" for E u by (simp add: pri_ok_def d)
  moreover have f: "mtxlist (tcb (set_wercd t e s) u) = mtxlist (tcb s u)" "wspec (tcb (set_wercd t e s) u) = wspec (tcb s u)"
    "state (tcb (set_wercd t e s) u) = state (tcb s u)" for u by simp_all
  have "mtx_own None (set_wercd t e s) = mtx_own None s"
    unfolding mtx_own_def m f by (simp only: set_wercd_frame)
  ultimately show ?thesis by (simp add: mtx_inv_def m)
qed

end
