(* ===== verification/Task_Sync.thy ===== *)
theory Task_Sync
  imports Wait Sample
begin

text \<open>
  The task-dependent synchronisation calls of \<^verbatim>\<open>kernel/tkernel/task_sync.c\<close>: nested suspension,
  sleep and counted wake-up, delay.
\<close>

section \<open>Operations\<close>

definition DDS_DISABLE :: nat where
  "DDS_DISABLE = 2"

definition not_alive_err :: "TSTAT \<Rightarrow> ER" where
  "not_alive_err st = (if st = TS_NONEXIST then E_NOEXS else E_OBJ)"

definition tk_sus_tsk :: "ID \<Rightarrow> 'a kstate_scheme \<Rightarrow> sysret \<times> 'a kstate_scheme" where
  "tk_sus_tsk oid s =
     (let e = CHECK_TSKID oid s; t = INDEX_OBJ oid; st = state (tcb s t)
      in if e < E_OK then (Ret e, s)
         else if \<not> knl_task_alive st then (Ret (not_alive_err st), END_CRITICAL_SECTION s)
         else if ctxtsk s = Some t \<and> dispatch_disabled s \<ge> DDS_DISABLE
           then (Ret E_CTX, END_CRITICAL_SECTION s)
         else if suscnt (tcb s t) = INT_MAX then (Ret E_QOVR, END_CRITICAL_SECTION s)
         else
           let s1 = upd_tcb t (\<lambda>b. b\<lparr>suscnt := suscnt b + 1\<rparr>) s;
               s2 = (if st = TS_READY
                     then upd_tcb t (state_update (\<lambda>_. TS_SUSPEND)) (knl_make_non_ready t s1)
                     else if st = TS_WAIT then upd_tcb t (state_update (\<lambda>_. TS_WAITSUS)) s1
                     else s1)
           in (Ret E_OK, END_CRITICAL_SECTION s2))"

definition tk_rsm_tsk :: "ID \<Rightarrow> 'a kstate_scheme \<Rightarrow> sysret \<times> 'a kstate_scheme" where
  "tk_rsm_tsk oid s =
     (let e = CHECK_TSKID oid s; t = INDEX_OBJ oid;
          s1 = upd_tcb t (\<lambda>b. b\<lparr>suscnt := suscnt b - 1\<rparr>) s
      in if e < E_OK then (Ret e, s)
         else
           (case state (tcb s t) of
              TS_NONEXIST \<Rightarrow> (Ret E_NOEXS, END_CRITICAL_SECTION s)
            | TS_SUSPEND \<Rightarrow>
                (Ret E_OK, END_CRITICAL_SECTION (if suscnt (tcb s1 t) = 0 then knl_make_ready t s1 else s1))
            | TS_WAITSUS \<Rightarrow>
                (Ret E_OK, END_CRITICAL_SECTION
                   (if suscnt (tcb s1 t) = 0 then upd_tcb t (state_update (\<lambda>_. TS_WAIT)) s1 else s1))
            | _ \<Rightarrow> (Ret E_OBJ, END_CRITICAL_SECTION s)))"

definition tk_frsm_tsk :: "ID \<Rightarrow> 'a kstate_scheme \<Rightarrow> sysret \<times> 'a kstate_scheme" where
  "tk_frsm_tsk oid s =
     (let e = CHECK_TSKID oid s; t = INDEX_OBJ oid; s1 = upd_tcb t (suscnt_update (\<lambda>_. 0)) s
      in if e < E_OK then (Ret e, s)
         else
           (case state (tcb s t) of
              TS_NONEXIST \<Rightarrow> (Ret E_NOEXS, END_CRITICAL_SECTION s)
            | TS_SUSPEND \<Rightarrow> (Ret E_OK, END_CRITICAL_SECTION (knl_make_ready t s1))
            | TS_WAITSUS \<Rightarrow> (Ret E_OK, END_CRITICAL_SECTION (upd_tcb t (state_update (\<lambda>_. TS_WAIT)) s1))
            | _ \<Rightarrow> (Ret E_OBJ, END_CRITICAL_SECTION s)))"

definition tk_slp_tsk :: "TMO \<Rightarrow> 'a kstate_scheme \<Rightarrow> sysret \<times> 'a kstate_scheme" where
  "tk_slp_tsk tmout s =
     (let e = first_err [CHECK_TMOUT tmout, CHECK_DISPATCH s]; c = the (ctxtsk s)
      in if e < E_OK then (Ret e, s)
         else if wupcnt (tcb s c) > 0
           then (Ret E_OK, END_CRITICAL_SECTION (upd_tcb c (\<lambda>b. b\<lparr>wupcnt := wupcnt b - 1\<rparr>) s))
         else if tmout = TMO_POL then (Ret E_TMOUT, END_CRITICAL_SECTION s)
         else
           (Blocked, END_CRITICAL_SECTION (knl_make_wait c tmout
              (upd_tcb c (\<lambda>b. b\<lparr>wspec := knl_wspec_slp, wid := 0, wercd := Some E_TMOUT\<rparr>) s))))"

definition tk_wup_tsk :: "ID \<Rightarrow> 'a kstate_scheme \<Rightarrow> sysret \<times> 'a kstate_scheme" where
  "tk_wup_tsk oid s =
     (let e = CHECK_TSKID oid s; t = INDEX_OBJ oid; st = state (tcb s t)
      in if e < E_OK then (Ret e, s)
         else if \<not> knl_task_alive st then (Ret (not_alive_err st), END_CRITICAL_SECTION s)
         else if in_wait st \<and> wspec (tcb s t) = knl_wspec_slp
           then (Ret E_OK, END_CRITICAL_SECTION (knl_wait_release_ok t s))
         else if wupcnt (tcb s t) = INT_MAX then (Ret E_QOVR, END_CRITICAL_SECTION s)
         else (Ret E_OK, END_CRITICAL_SECTION (upd_tcb t (\<lambda>b. b\<lparr>wupcnt := wupcnt b + 1\<rparr>) s)))"

definition tk_can_wup :: "ID \<Rightarrow> 'a kstate_scheme \<Rightarrow> sysret \<times> 'a kstate_scheme" where
  "tk_can_wup oid s =
     (let e = CHECK_TSKID_SELF oid s; t = get_tcb_self oid s
      in if e < E_OK then (Ret e, s)
         else
           (case state (tcb s t) of
              TS_NONEXIST \<Rightarrow> (Ret E_NOEXS, END_CRITICAL_SECTION s)
            | TS_DORMANT \<Rightarrow> (Ret E_OBJ, END_CRITICAL_SECTION s)
            | _ \<Rightarrow> (Ret (wupcnt (tcb s t)), END_CRITICAL_SECTION (upd_tcb t (wupcnt_update (\<lambda>_. 0)) s))))"

definition tk_dly_tsk :: "RELTIM \<Rightarrow> 'a kstate_scheme \<Rightarrow> sysret \<times> 'a kstate_scheme" where
  "tk_dly_tsk dlytim s =
     (let e = first_err [CHECK_RELTIM dlytim, CHECK_DISPATCH s]; c = the (ctxtsk s)
      in if e < E_OK then (Ret e, s)
         else if dlytim > 0 then
           (Blocked, END_CRITICAL_SECTION (knl_make_wait_reltim c dlytim
              (upd_tcb c (\<lambda>b. b\<lparr>wspec := knl_wspec_dly, wid := 0, wercd := Some E_OK\<rparr>) s)))
         else (Ret E_OK, s))"

section \<open>Suspension\<close>

lemma CHECK_TSKID_ok:
  "\<not> CHECK_TSKID oid s < E_OK \<Longrightarrow> CHK_OBJID NUM_TSKID oid" "\<not> CHECK_TSKID oid s < E_OK \<Longrightarrow> INDEX_OBJ oid < NUM_TSKID"
  by (auto simp: CHECK_TSKID_def consts_defs INDEX_OBJ_less split: if_splits)

text \<open>A ready task that is suspended leaves the ready queue and is in no queue.\<close>

lemma suspend_ready:
  assumes inv: "core_inv s" and t: "t < NUM_TSKID" "state (tcb s t) = TS_READY" and n: "0 < n" "n \<le> INT_MAX"
  shows "core_inv (upd_tcb t (\<lambda>b. b\<lparr>suscnt := n, state := TS_SUSPEND\<rparr>) (knl_make_non_ready t s))"
    (is "core_inv ?s")
proof -
  note I = core_invD[OF inv]
  have tb: "tcb (knl_make_non_ready t s) = tcb s" using klock_freeD[OF I(6)] by simp
  have "task_inv_x t ?s" by (intro task_inv_x_upd task_inv_make_non_ready I)
  moreover have "home (tcb ?s t) = None" by (simp add: upd_tcb_def)
  ultimately have "task_inv ?s" unfolding task_inv_x_def task_inv_def by (rule linked_nolink)
  moreover have "sched_ok ?s"
    by (intro sched_ok_upd_tcb sched_ok_make_non_ready) (use I t tcb_okD[OF I(3) t(1)] in auto)
  moreover have "tcb_ok ?s"
    by (rule tcb_ok_upd[OF I(3), where t = t and b = "(tcb s t)\<lparr>suscnt := n, state := TS_SUSPEND\<rparr>"])
      (use I(3) t n tb in \<open>auto simp: tcb_ok_def Let_def upd_tcb_def\<close>)
  moreover have "timer_ok ?s" using I(4) t tb by (auto simp: timer_ok_def upd_tcb_def)
  ultimately show ?thesis using I(5) by (simp add: core_inv_def upd_tcb_def)
qed

text \<open>A change of the suspend count and of the suspended half of a state that keeps its queue.\<close>

lemma suspend_count:
  assumes inv: "core_inv s" and t: "t < NUM_TSKID" and n: "0 \<le> n" "n \<le> INT_MAX"
    and st: "in_wait st = in_wait (state (tcb s t))" "st \<noteq> TS_READY" "state (tcb s t) \<noteq> TS_READY"
      "st \<noteq> TS_NONEXIST" "state (tcb s t) \<noteq> TS_NONEXIST"
      "0 < n \<longleftrightarrow> st = TS_SUSPEND \<or> st = TS_WAITSUS"
  shows "core_inv (upd_tcb t (\<lambda>b. b\<lparr>suscnt := n, state := st\<rparr>) s)" (is "core_inv ?s")
proof -
  note I = core_invD[OF inv]
  have h: "home ((tcb s t)\<lparr>suscnt := n, state := st\<rparr>) = home (tcb s t)"
    using st by (cases "state (tcb s t)"; cases st) (simp_all add: home_def)
  have "task_inv ?s" by (rule task_inv_same_home[OF I(1)]) (simp add: h)
  moreover have "sched_ok ?s" by (rule sched_ok_upd_tcb[OF I(2)]) simp_all
  moreover have "tcb_ok ?s"
    by (rule tcb_ok_upd[OF I(3), where t = t and b = "(tcb s t)\<lparr>suscnt := n, state := st\<rparr>"])
      (use I(3) t n st in \<open>auto simp: tcb_ok_def Let_def upd_tcb_def\<close>)
  moreover have "timer_ok ?s" using I(4) st by (auto simp: timer_ok_def upd_tcb_def)
  ultimately show ?thesis using I(5) by (simp add: core_inv_def upd_tcb_def)
qed

text \<open>A task in no queue becomes ready: a resumed or a started task.\<close>

lemma make_ready_unqueued:
  assumes inv: "core_inv s" and t: "t < NUM_TSKID" "home (tcb s t) = None" "\<not> in_wait (state (tcb s t))"
    and f: "f (tcb s t) = (tcb s t)\<lparr>suscnt := 0, tskctxb := cx\<rparr>"
  shows "core_inv (knl_make_ready t (upd_tcb t f s))" (is "core_inv (knl_make_ready t ?u)")
proof -
  note I = core_invD[OF inv]
  have "task_inv_x t s" using I(1) t(2) by (auto simp: task_inv_def task_inv_x_def linked_def)
  then have "task_inv (knl_make_ready t ?u)" by (intro task_inv_make_ready task_inv_x_upd t)
  moreover have "sched_ok ?u"
    using I(2) f by (simp add: sched_ok_def klock_free_def) (simp add: upd_tcb_def)
  then have "sched_ok (knl_make_ready t ?u)"
    by (rule sched_ok_make_ready) (use tcb_okD(2)[OF I(3) t(1)] f in \<open>simp add: upd_tcb_def\<close>)
  moreover have "tcb_ok (knl_make_ready t ?u)"
    by (rule tcb_ok_upd[OF I(3), where t = t and b = "(f (tcb s t))\<lparr>state := TS_READY\<rparr>"])
      (use I(3) t f in \<open>auto simp: tcb_ok_def Let_def upd_tcb_def INT_MAX_def\<close>)
  moreover have "timer_ok (knl_make_ready t ?u)"
    using I(4) t f by (auto simp: timer_ok_def upd_tcb_def)
  ultimately show ?thesis using I(5) by (simp add: core_inv_def upd_tcb_def)
qed

lemma upd_tcb_merge: "upd_tcb t f (upd_tcb t g s) = upd_tcb t (\<lambda>b. f (g b)) s"
  by (simp add: upd_tcb_def)

lemma upd_tcb_eq: "f (tcb s t) = g (tcb s t) \<Longrightarrow> upd_tcb t f s = upd_tcb t g s"
  by (simp add: upd_tcb_def)

lemma non_ready_upd:
  "klock_free s \<Longrightarrow> (\<And>b. priority (f b) = priority b \<and> klocked (f b) = klocked b \<and> klockwait (f b) = klockwait b) \<Longrightarrow>
     knl_make_non_ready t (upd_tcb t f s) = upd_tcb t f (knl_make_non_ready t s)"
  by (simp add: knl_make_non_ready_def knl_ready_queue_delete_def Let_def klock_free_def knl_ready_queue_top_def kdefs)

text \<open>The effect of a successful suspension.\<close>

definition suspended :: "TCB \<Rightarrow> TSTAT" where
  "suspended b = (if in_wait (state b) then TS_WAITSUS else TS_SUSPEND)"

lemma suspend_inv:
  assumes inv: "core_inv s" and t: "t < NUM_TSKID" "knl_task_alive (state (tcb s t))" "suscnt (tcb s t) \<noteq> INT_MAX"
  defines "s1 \<equiv> upd_tcb t (\<lambda>b. b\<lparr>suscnt := suscnt b + 1\<rparr>) s"
  defines "s2 \<equiv> (if state (tcb s t) = TS_READY
      then upd_tcb t (state_update (\<lambda>_. TS_SUSPEND)) (knl_make_non_ready t s1)
      else if state (tcb s t) = TS_WAIT then upd_tcb t (state_update (\<lambda>_. TS_WAITSUS)) s1 else s1)"
  shows "core_inv s2"
    "tcb s2 = (tcb s)(t := (tcb s t)\<lparr>suscnt := suscnt (tcb s t) + 1, state := suspended (tcb s t)\<rparr>)"
    "que s2 (QWait w) = que s (QWait w)" "timer_queue s2 = timer_queue s" "kstate.more s2 = kstate.more s"
proof -
  let ?n = "suscnt (tcb s t) + 1"
  note I = core_invD[OF inv]
  have b: "0 \<le> suscnt (tcb s t)" "suscnt (tcb s t) \<le> INT_MAX" using I(3) t(1) by (auto simp: tcb_ok_def Let_def)
  then have n: "0 < ?n" "0 \<le> ?n" "?n \<le> INT_MAX" using t(3) by simp_all
  have nr: "knl_make_non_ready t s1 = upd_tcb t (\<lambda>b. b\<lparr>suscnt := suscnt b + 1\<rparr>) (knl_make_non_ready t s)"
    unfolding s1_def by (rule non_ready_upd[OF I(6)]) simp
  have tb: "tcb (knl_make_non_ready t s) = tcb s" using klock_freeD[OF I(6)] by simp
  have e: "s2 = upd_tcb t (\<lambda>b. b\<lparr>suscnt := ?n, state := suspended (tcb s t)\<rparr>)
      (if state (tcb s t) = TS_READY then knl_make_non_ready t s else s)"
    using t(2) unfolding s2_def nr unfolding s1_def
    by (cases "state (tcb s t)") (simp_all add: upd_tcb_merge suspended_def tb cong: upd_tcb_eq,
        (intro upd_tcb_eq, simp add: tb TCB.equality)+)
  show "core_inv s2"
  proof (cases "state (tcb s t) = TS_READY")
    case True
    then show ?thesis using e suspend_ready[OF inv t(1) True n(1,3)] by (simp add: suspended_def)
  next
    case False
    then show ?thesis unfolding e using False
      by (simp, intro suspend_count[OF inv t(1) n(2,3)])
        (use t(2) n in \<open>cases "state (tcb s t)"; simp add: suspended_def\<close>)+
  qed
  show "tcb s2 = (tcb s)(t := (tcb s t)\<lparr>suscnt := ?n, state := suspended (tcb s t)\<rparr>)"
    "timer_queue s2 = timer_queue s" "kstate.more s2 = kstate.more s" by (simp_all add: e tb upd_tcb_def)
  show "que s2 (QWait w) = que s (QWait w)"
    using ready_not_queued[OF inv, of t w] by (simp add: e upd_tcb_def)
qed

lemma resume_inv:
  assumes inv: "core_inv s" and t: "t < NUM_TSKID" "state (tcb s t) = TS_SUSPEND \<or> state (tcb s t) = TS_WAITSUS"
    and n: "0 \<le> n" "n < suscnt (tcb s t)"
  shows "0 < n \<Longrightarrow> core_inv (upd_tcb t (suscnt_update (\<lambda>_. n)) s)"
    "n = 0 \<Longrightarrow> state (tcb s t) = TS_SUSPEND \<Longrightarrow> core_inv (knl_make_ready t (upd_tcb t (suscnt_update (\<lambda>_. n)) s))"
    "n = 0 \<Longrightarrow> state (tcb s t) = TS_WAITSUS \<Longrightarrow>
       core_inv (upd_tcb t (state_update (\<lambda>_. TS_WAIT)) (upd_tcb t (suscnt_update (\<lambda>_. n)) s))"
proof -
  note I = core_invD[OF inv]
  have b: "suscnt (tcb s t) \<le> INT_MAX" using I(3) t(1) by (auto simp: tcb_ok_def Let_def)
  have e: "upd_tcb t (suscnt_update (\<lambda>_. n)) s = upd_tcb t (\<lambda>b. b\<lparr>suscnt := n, state := state (tcb s t)\<rparr>) s"
    by (rule upd_tcb_eq) simp
  show "0 < n \<Longrightarrow> core_inv (upd_tcb t (suscnt_update (\<lambda>_. n)) s)"
    unfolding e by (rule suspend_count[OF inv t(1)]) (use t n b in auto)
  show "n = 0 \<Longrightarrow> state (tcb s t) = TS_SUSPEND \<Longrightarrow> core_inv (knl_make_ready t (upd_tcb t (suscnt_update (\<lambda>_. n)) s))"
    by (rule make_ready_unqueued[OF inv t(1), where cx = "tskctxb (tcb s t)"]) auto
  assume w: "n = 0" "state (tcb s t) = TS_WAITSUS"
  have "upd_tcb t (state_update (\<lambda>_. TS_WAIT)) (upd_tcb t (suscnt_update (\<lambda>_. n)) s) =
      upd_tcb t (\<lambda>b. b\<lparr>suscnt := 0, state := TS_WAIT\<rparr>) s"
    unfolding upd_tcb_merge by (rule upd_tcb_eq) (simp add: w)
  then show "core_inv (upd_tcb t (state_update (\<lambda>_. TS_WAIT)) (upd_tcb t (suscnt_update (\<lambda>_. n)) s))"
    using suspend_count[OF inv t(1), of 0 TS_WAIT] w by (simp add: INT_MAX_def)
qed

lemma upd_tcb_same: "tcb (upd_tcb t f s) t = f (tcb s t)"
  by (simp add: upd_tcb_def)

lemma tk_sus_tsk_inv:
  assumes "core_inv s" shows "core_inv (snd (tk_sus_tsk oid s))"
  using assms suspend_inv(1)[OF assms CHECK_TSKID_ok(2)[of oid s]] by (simp add: tk_sus_tsk_def Let_def)

lemma suspended_cnt:
  assumes "core_inv s" "t < NUM_TSKID" "state (tcb s t) = TS_SUSPEND \<or> state (tcb s t) = TS_WAITSUS"
  shows "0 < suscnt (tcb s t)"
  using tcb_okD(5)[OF core_invD(3)[OF assms(1)] assms(2)] assms(3) by simp

lemma tk_rsm_tsk_inv:
  assumes inv: "core_inv s" shows "core_inv (snd (tk_rsm_tsk oid s))"
proof (cases "CHECK_TSKID oid s < E_OK")
  case False
  let ?t = "INDEX_OBJ oid" and ?n = "suscnt (tcb s (INDEX_OBJ oid)) - 1"
  have t: "?t < NUM_TSKID" using CHECK_TSKID_ok(2)[OF False] .
  have e: "upd_tcb ?t (\<lambda>b. b\<lparr>suscnt := suscnt b - 1\<rparr>) s = upd_tcb ?t (suscnt_update (\<lambda>_. ?n)) s"
    by (rule upd_tcb_eq) simp
  show ?thesis
  proof (cases "state (tcb s ?t) = TS_SUSPEND \<or> state (tcb s ?t) = TS_WAITSUS")
    case True
    have n: "0 \<le> ?n" "?n < suscnt (tcb s ?t)" using suspended_cnt[OF inv t True] by simp_all
    show ?thesis using resume_inv[OF inv t True n] True False n
      by (auto simp: tk_rsm_tsk_def Let_def e upd_tcb_same)
  qed (use inv False in \<open>auto simp: tk_rsm_tsk_def Let_def split: TSTAT.split\<close>)
qed (use inv in \<open>simp add: tk_rsm_tsk_def\<close>)

lemma tk_frsm_tsk_inv:
  assumes inv: "core_inv s" shows "core_inv (snd (tk_frsm_tsk oid s))"
proof (cases "CHECK_TSKID oid s < E_OK")
  case False
  let ?t = "INDEX_OBJ oid"
  have t: "?t < NUM_TSKID" using CHECK_TSKID_ok(2)[OF False] .
  show ?thesis
  proof (cases "state (tcb s ?t) = TS_SUSPEND \<or> state (tcb s ?t) = TS_WAITSUS")
    case True
    show ?thesis using resume_inv(2,3)[OF inv t True, of 0] suspended_cnt[OF inv t True] True False
      by (auto simp: tk_frsm_tsk_def Let_def)
  qed (use inv False in \<open>auto simp: tk_frsm_tsk_def Let_def split: TSTAT.split\<close>)
qed (use inv in \<open>simp add: tk_frsm_tsk_def\<close>)

section \<open>Sleep, wake-up, delay\<close>

lemma core_inv_wupcnt:
  assumes inv: "core_inv s" and n: "t < NUM_TSKID \<Longrightarrow> 0 \<le> f (wupcnt (tcb s t)) \<and> f (wupcnt (tcb s t)) \<le> INT_MAX"
  shows "core_inv (upd_tcb t (wupcnt_update f) s)"
  by (rule core_inv_upd_tcb[OF inv]) (use core_invD(3)[OF inv] n in \<open>auto simp: tcb_ok_def Let_def upd_tcb_def\<close>)

lemma wupcnt_bounds:
  assumes "core_inv s" "t < NUM_TSKID" shows "0 \<le> wupcnt (tcb s t)" "wupcnt (tcb s t) \<le> INT_MAX"
  using core_invD(3)[OF assms(1)] assms(2) by (auto simp: tcb_ok_def Let_def)

lemma sleep_blocks:
  fixes e :: ER
  assumes inv: "core_inv s" and c: "ctxtsk s = Some c" "state (tcb s c) = TS_READY"
    and ws: "wait_home ws 0 = None" "ws \<noteq> knl_wspec_none"
  defines "s1 \<equiv> upd_tcb c (\<lambda>b. b\<lparr>wspec := ws, wid := 0, wercd := Some e\<rparr>) s"
  shows "core_inv (knl_make_wait c tmout s1)" "core_inv (knl_make_wait_reltim c rt s1)"
    "tcb (knl_make_wait c tmout s1) c = (tcb s c)\<lparr>wspec := ws, wid := 0, wercd := Some e, state := TS_WAIT\<rparr>"
    "tcb (knl_make_wait_reltim c rt s1) c = (tcb s c)\<lparr>wspec := ws, wid := 0, wercd := Some e, state := TS_WAIT\<rparr>"
proof -
  have cl: "c < NUM_TSKID" by (rule core_invD(5)[OF inv c(1)])
  have cb: "can_block c s1" unfolding s1_def
    by (rule can_block_upd[OF inv cl c(2), where g = "Some e" and ws = ws and wi = "winfo (tcb s c)" and i = 0])
      (use ws in simp_all)
  have i1: "core_inv s1" "state (tcb s1 c) = TS_READY" using cb by (auto simp: can_block_def)
  note p = pre_blocked_make_wait[OF cb] and kf = core_invD(6)[OF i1(1)]
  have tb: "tcb (knl_make_wait c tmout s1) = (tcb s1)(c := (tcb s1 c)\<lparr>state := TS_WAIT\<rparr>)"
    "tcb (knl_make_wait_reltim c rt s1) = (tcb s1)(c := (tcb s1 c)\<lparr>state := TS_WAIT\<rparr>)"
    using make_wait_ready(1)[OF i1] make_wait_state_ready(1)[OF kf i1(2)] by (simp_all add: knl_make_wait_reltim_def)
  then show "tcb (knl_make_wait c tmout s1) c = (tcb s c)\<lparr>wspec := ws, wid := 0, wercd := Some e, state := TS_WAIT\<rparr>"
    "tcb (knl_make_wait_reltim c rt s1) c = (tcb s c)\<lparr>wspec := ws, wid := 0, wercd := Some e, state := TS_WAIT\<rparr>"
    by (simp_all add: s1_def upd_tcb_def)
  show "core_inv (knl_make_wait c tmout s1)" "core_inv (knl_make_wait_reltim c rt s1)"
    by (rule core_inv_nolink[OF p(1)] core_inv_nolink[OF p(2)]; use ws tb in \<open>simp add: s1_def upd_tcb_def\<close>)+
qed

lemma tk_slp_tsk_inv:
  assumes inv: "core_inv s" "run_ok s" shows "core_inv (snd (tk_slp_tsk tmout s))"
proof (cases "first_err [CHECK_TMOUT tmout, CHECK_DISPATCH s] < E_OK")
  case False
  then have "\<not> CHECK_DISPATCH s < E_OK" by (auto split: if_splits)
  then obtain c where c: "ctxtsk s = Some c" "state (tcb s c) = TS_READY" using CHECK_DISPATCH_OK inv(2) by blast
  have cl: "c < NUM_TSKID" by (rule core_invD(5)[OF inv(1) c(1)])
  have "core_inv (upd_tcb c (\<lambda>b. b\<lparr>wupcnt := wupcnt b - 1\<rparr>) s)" if "0 < wupcnt (tcb s c)"
    using core_inv_wupcnt[OF inv(1), of c "\<lambda>_. wupcnt (tcb s c) - 1"] wupcnt_bounds[OF inv(1) cl] that
    by (simp add: upd_tcb_def)
  then show ?thesis using False sleep_blocks(1)[OF inv(1) c, of knl_wspec_slp] inv(1) c(1)
    by (simp add: tk_slp_tsk_def Let_def)
qed (use inv in \<open>simp add: tk_slp_tsk_def Let_def\<close>)

lemma tk_dly_tsk_inv:
  assumes inv: "core_inv s" "run_ok s" shows "core_inv (snd (tk_dly_tsk d s))"
proof (cases "first_err [CHECK_RELTIM d, CHECK_DISPATCH s] < E_OK")
  case False
  then have "\<not> CHECK_DISPATCH s < E_OK" by (auto split: if_splits)
  then obtain c where c: "ctxtsk s = Some c" "state (tcb s c) = TS_READY" using CHECK_DISPATCH_OK inv(2) by blast
  then show ?thesis using False sleep_blocks(2)[OF inv(1) c, of knl_wspec_dly] inv(1) by (simp add: tk_dly_tsk_def Let_def)
qed (use inv in \<open>simp add: tk_dly_tsk_def Let_def\<close>)

lemma tk_wup_tsk_inv:
  assumes inv: "core_inv s" shows "core_inv (snd (tk_wup_tsk oid s))"
proof (cases "CHECK_TSKID oid s < E_OK")
  case False
  let ?t = "INDEX_OBJ oid"
  have t: "?t < NUM_TSKID" using CHECK_TSKID_ok(2)[OF False] .
  have "core_inv (upd_tcb ?t (\<lambda>b. b\<lparr>wupcnt := wupcnt b + 1\<rparr>) s)" if "wupcnt (tcb s ?t) \<noteq> INT_MAX"
    using core_inv_wupcnt[OF inv, of ?t "\<lambda>_. wupcnt (tcb s ?t) + 1"] wupcnt_bounds[OF inv t] that
    by (simp add: upd_tcb_def)
  then show ?thesis using False core_inv_wait_release_ok(1)[OF inv t] inv by (simp add: tk_wup_tsk_def Let_def)
qed (use inv in \<open>simp add: tk_wup_tsk_def Let_def\<close>)

lemma tk_can_wup_inv:
  assumes inv: "core_inv s" shows "core_inv (snd (tk_can_wup oid s))"
proof -
  have "core_inv (upd_tcb t (wupcnt_update (\<lambda>_. 0)) s)" for t
    by (rule core_inv_wupcnt[OF inv]) (simp add: INT_MAX_def)
  then show ?thesis using inv by (auto simp: tk_can_wup_def Let_def split: TSTAT.split)
qed

section \<open>Effects\<close>

lemma CHECK_TSKID_cong:
  "taskindp s' = taskindp s \<Longrightarrow> ctxtsk s' = ctxtsk s \<Longrightarrow> CHECK_TSKID oid s' = CHECK_TSKID oid s"
  by (simp add: CHECK_TSKID_def in_indp_def)

lemma tk_sus_tsk_ok:
  assumes inv: "core_inv s" and ok: "fst (tk_sus_tsk oid s) = Ret E_OK"
  shows "\<not> CHECK_TSKID oid s < E_OK" "knl_task_alive (state (tcb s (INDEX_OBJ oid)))"
    "tcb (snd (tk_sus_tsk oid s)) = (tcb s)(INDEX_OBJ oid := (tcb s (INDEX_OBJ oid))
       \<lparr>suscnt := suscnt (tcb s (INDEX_OBJ oid)) + 1, state := suspended (tcb s (INDEX_OBJ oid))\<rparr>)"
    "ctxtsk (snd (tk_sus_tsk oid s)) = ctxtsk s" "taskindp (snd (tk_sus_tsk oid s)) = taskindp s"
proof -
  show c: "\<not> CHECK_TSKID oid s < E_OK" using ok by (auto simp: tk_sus_tsk_def Let_def)
  then show a: "knl_task_alive (state (tcb s (INDEX_OBJ oid)))"
    using ok by (auto simp: tk_sus_tsk_def Let_def not_alive_err_def consts_defs split: if_splits)
  have m: "suscnt (tcb s (INDEX_OBJ oid)) \<noteq> INT_MAX" "\<not> (ctxtsk s = Some (INDEX_OBJ oid) \<and> dispatch_disabled s \<ge> DDS_DISABLE)"
    using ok a c by (auto simp: tk_sus_tsk_def Let_def consts_defs split: if_splits)
  show "tcb (snd (tk_sus_tsk oid s)) = (tcb s)(INDEX_OBJ oid := (tcb s (INDEX_OBJ oid))
       \<lparr>suscnt := suscnt (tcb s (INDEX_OBJ oid)) + 1, state := suspended (tcb s (INDEX_OBJ oid))\<rparr>)"
    using suspend_inv(2)[OF inv CHECK_TSKID_ok(2)[OF c] a m(1)] a c by (simp add: tk_sus_tsk_def Let_def m)
  show "ctxtsk (snd (tk_sus_tsk oid s)) = ctxtsk s" "taskindp (snd (tk_sus_tsk oid s)) = taskindp s"
    using a c by (simp_all add: tk_sus_tsk_def Let_def m) (simp_all add: upd_tcb_def)
qed

definition resumed :: "TCB \<Rightarrow> TSTAT" where
  "resumed b = (if suscnt b = 1 then if state b = TS_SUSPEND then TS_READY else TS_WAIT else state b)"

lemma tk_rsm_tsk_ok:
  assumes "\<not> CHECK_TSKID oid s < E_OK"
    "state (tcb s (INDEX_OBJ oid)) = TS_SUSPEND \<or> state (tcb s (INDEX_OBJ oid)) = TS_WAITSUS"
  shows "fst (tk_rsm_tsk oid s) = Ret E_OK"
    "tcb (snd (tk_rsm_tsk oid s)) = (tcb s)(INDEX_OBJ oid := (tcb s (INDEX_OBJ oid))
       \<lparr>suscnt := suscnt (tcb s (INDEX_OBJ oid)) - 1, state := resumed (tcb s (INDEX_OBJ oid))\<rparr>)"
  using assms by (auto simp: tk_rsm_tsk_def Let_def upd_tcb_def resumed_def)

lemma tcb_restore: "b\<lparr>suscnt := n, state := x\<rparr>\<lparr>suscnt := suscnt b, state := state b\<rparr> = b"
  by (cases b) simp

section \<open>Properties\<close>

text \<open>
  Suspension nests: a successful \<^verbatim>\<open>tk_sus_tsk\<close> followed by \<^verbatim>\<open>tk_rsm_tsk\<close> succeeds and
  leaves every task control block as it was, whatever state the task was suspended in, and keeps the
  scheduler's invariant.
\<close>

lemma suspend_resume_roundtrip:
  assumes inv: "core_inv s" and ok: "fst (tk_sus_tsk oid s) = Ret E_OK"
  shows "fst (tk_rsm_tsk oid (snd (tk_sus_tsk oid s))) = Ret E_OK \<and>
    tcb (snd (tk_rsm_tsk oid (snd (tk_sus_tsk oid s)))) = tcb s \<and>
    core_inv (snd (tk_rsm_tsk oid (snd (tk_sus_tsk oid s))))"
proof -
  let ?t = "INDEX_OBJ oid" and ?s = "snd (tk_sus_tsk oid s)"
  note S = tk_sus_tsk_ok[OF inv ok]
  have t: "?t < NUM_TSKID" by (rule CHECK_TSKID_ok(2)[OF S(1)])
  have c: "\<not> CHECK_TSKID oid ?s < E_OK" using S(1) CHECK_TSKID_cong[OF S(5,4)] by simp
  have n: "0 \<le> suscnt (tcb s ?t)" "0 < suscnt (tcb s ?t) \<longleftrightarrow> state (tcb s ?t) = TS_SUSPEND \<or> state (tcb s ?t) = TS_WAITSUS"
    using core_invD(3)[OF inv] t by (auto simp: tcb_ok_def Let_def)
  have st: "state (tcb ?s ?t) = TS_SUSPEND \<or> state (tcb ?s ?t) = TS_WAITSUS" by (simp add: S(3) suspended_def)
  have r: "resumed (tcb ?s ?t) = state (tcb s ?t)"
    using S(2) n by (cases "state (tcb s ?t)") (auto simp: S(3) resumed_def suspended_def)
  have "fst (tk_rsm_tsk oid ?s) = Ret E_OK \<and> tcb (snd (tk_rsm_tsk oid ?s)) = tcb s"
    using tk_rsm_tsk_ok[OF c st] r by (simp add: S(3) tcb_restore)
  then show ?thesis using tk_rsm_tsk_inv[OF tk_sus_tsk_inv[OF inv]] by blast
qed

text \<open>
  C10. A wake-up is never lost. A successful \<^verbatim>\<open>tk_wup_tsk\<close> ends the sleep of a sleeping task with
  result \<^verbatim>\<open>E_OK\<close> and cancels its timeout; for any other task it is counted, and when that task is
  the running one its next \<^verbatim>\<open>tk_slp_tsk\<close>, polling or not, returns \<^verbatim>\<open>E_OK\<close> at once and uses
  the wake-up up.
\<close>

theorem wakeup_not_lost:
  assumes inv: "core_inv s" and ok: "fst (tk_wup_tsk oid s) = Ret E_OK"
  shows "let t = INDEX_OBJ oid; s' = snd (tk_wup_tsk oid s) in core_inv s' \<and>
    (if in_wait (state (tcb s t)) \<and> wspec (tcb s t) = knl_wspec_slp
     then \<not> in_wait (state (tcb s' t)) \<and> wercd (tcb s' t) = Some E_OK \<and> TM_TSK t \<notin> set (timer_queue s')
     else wupcnt (tcb s' t) = wupcnt (tcb s t) + 1 \<and>
       (ctxtsk s = Some t \<and> \<not> in_ddsp s' \<and> TMO_FEVR \<le> tmout \<longrightarrow>
          fst (tk_slp_tsk tmout s') = Ret E_OK \<and> tcb (snd (tk_slp_tsk tmout s')) = tcb s))"
proof -
  let ?t = "INDEX_OBJ oid" and ?s = "snd (tk_wup_tsk oid s)"
  have c: "\<not> CHECK_TSKID oid s < E_OK" using ok by (auto simp: tk_wup_tsk_def Let_def)
  then have a: "knl_task_alive (state (tcb s ?t))"
    using ok by (auto simp: tk_wup_tsk_def Let_def not_alive_err_def consts_defs split: if_splits)
  have t: "?t < NUM_TSKID" by (rule CHECK_TSKID_ok(2)[OF c])
  have i: "core_inv ?s" by (rule tk_wup_tsk_inv[OF inv])
  show ?thesis
  proof (cases "in_wait (state (tcb s ?t)) \<and> wspec (tcb s ?t) = knl_wspec_slp")
    case True
    then have e: "?s = END_CRITICAL_SECTION (knl_wait_release_ok ?t s)"
      using c a by (simp add: tk_wup_tsk_def Let_def)
    have w: "wercd (tcb s ?t) \<noteq> None" using tcb_okD(4)[OF core_invD(3)[OF inv] t] True by blast
    then have "\<not> in_wait (state (tcb ?s ?t)) \<and> wercd (tcb ?s ?t) = Some E_OK \<and> TM_TSK ?t \<notin> set (timer_queue ?s)"
      using core_inv_timer_waits[OF i, of ?t] by (auto simp: e knl_wait_release_ok_def)
    then show ?thesis using True i by (simp add: Let_def)
  next
    case False
    then have m: "wupcnt (tcb s ?t) \<noteq> INT_MAX" using c a ok by (auto simp: tk_wup_tsk_def Let_def consts_defs split: if_splits)
    with False have e: "?s = END_CRITICAL_SECTION (upd_tcb ?t (\<lambda>b. b\<lparr>wupcnt := wupcnt b + 1\<rparr>) s)"
      using c a by (auto simp: tk_wup_tsk_def Let_def)
    have "tcb (snd (tk_slp_tsk tmout ?s)) = tcb s \<and> fst (tk_slp_tsk tmout ?s) = Ret E_OK"
      if x: "ctxtsk s = Some ?t" "\<not> in_ddsp ?s" "TMO_FEVR \<le> tmout"
    proof -
      have f: "\<not> first_err [CHECK_TMOUT tmout, CHECK_DISPATCH ?s] < E_OK" using x by (simp add: check_defs consts_defs)
      have p: "wupcnt (tcb ?s ?t) = wupcnt (tcb s ?t) + 1" "ctxtsk ?s = Some ?t" using x by (simp_all add: e upd_tcb_def)
      then have "0 < wupcnt (tcb ?s ?t)" using wupcnt_bounds(1)[OF inv t] by simp
      then have "fst (tk_slp_tsk tmout ?s) = Ret E_OK"
        "snd (tk_slp_tsk tmout ?s) = END_CRITICAL_SECTION (upd_tcb ?t (\<lambda>b. b\<lparr>wupcnt := wupcnt b - 1\<rparr>) ?s)"
        unfolding tk_slp_tsk_def Let_def if_not_P[OF f] by (simp_all add: p)
      then show ?thesis by (simp add: e upd_tcb_def)
    qed
    then show ?thesis using False i by (auto simp: Let_def e upd_tcb_def)
  qed
qed

theorem wakeup_not_lost_witness:
  "state (tcb (snd (tk_wup_tsk 5 (sample_kernel ()))) 4) = TS_READY \<and>
   wercd (tcb (snd (tk_wup_tsk 5 (sample_kernel ()))) 4) = Some E_OK \<and>
   TM_TSK 4 \<notin> set (timer_queue (snd (tk_wup_tsk 5 (sample_kernel ()))))"
proof -
  have i: "INDEX_OBJ 5 = 4" by (simp add: INDEX_OBJ_def)
  have s: "state (sample_tcb 4) = TS_WAIT" "wspec (sample_tcb 4) = knl_wspec_slp" by (simp_all add: sample_defs)
  have e: "snd (tk_wup_tsk 5 (sample_kernel ())) = END_CRITICAL_SECTION (knl_wait_release_ok 4 (sample_kernel ()))"
    "fst (tk_wup_tsk 5 (sample_kernel ())) = Ret E_OK"
    by (simp_all add: tk_wup_tsk_def Let_def CHECK_TSKID_def in_indp_def CHK_OBJID_def i consts_defs s)
  then show ?thesis using wakeup_not_lost[OF core_inv_sample e(2), of 0] s
    by (simp add: i Let_def) (simp add: e knl_wait_release_ok_def knl_wait_release_def set_wercd_def upd_tcb_def released_def s)
qed

end
