(* ===== verification/Task_Manage.thy ===== *)
theory Task_Manage
  imports Wait_Release Task_Sync "HOL-Library.Signed_Division"
begin

text \<open>
  Task management of \<^verbatim>\<open>kernel/tkernel/task_manage.c\<close>: creation, start, end and termination of
  tasks, change of priority, forced release. The calls that run hooks of the mutex return an option;
  \<open>None\<close> means that the call does not return. The stack allocator is an argument, as in
  \<open>Messagebuf\<close>.
\<close>

section \<open>Packets\<close>

record T_CTSK =
  ctsk_exinf :: addr
  ctsk_tskatr :: ATR
  ctsk_task :: addr
  ctsk_itskpri :: PRI
  ctsk_stksz :: int
  ctsk_bufptr :: addr

record T_RTSK =
  rtsk_exinf :: addr
  rtsk_tskpri :: PRI
  rtsk_tskbpri :: PRI
  rtsk_tskstat :: UINT
  rtsk_tskwait :: UW
  rtsk_wid :: ID
  rtsk_wupcnt :: int
  rtsk_suscnt :: int

record TD_RTSK = T_RTSK +
  rtsk_task :: addr
  rtsk_stksz :: int
  rtsk_istack :: addr

record TD_ITSK =
  itsk_stime :: UW
  itsk_utime :: UW

definition MIN_SYS_STACK_SIZE :: int where
  "MIN_SYS_STACK_SIZE = 256"

definition DEFAULT_SYS_STKSZ :: int where
  "DEFAULT_SYS_STKSZ = MIN_SYS_STACK_SIZE"

definition CHECK_PRI_INI :: "PRI \<Rightarrow> ER" where
  "CHECK_PRI_INI pri = (if pri \<noteq> TPRI_INI \<and> \<not> CHK_PRI pri then E_PAR else E_OK)"

definition CHECK_PRI_RUN :: "PRI \<Rightarrow> ER" where
  "CHECK_PRI_RUN pri = (if pri \<noteq> TPRI_RUN \<and> \<not> CHK_PRI pri then E_PAR else E_OK)"

section \<open>Creation and deletion\<close>

text \<open>The size of an allocated stack, in 32-bit arithmetic.\<close>

definition sys_stack_size :: "int \<Rightarrow> int" where
  "sys_stack_size stksz =
     (let sz = sint (word_of_int (stksz + DEFAULT_SYS_STKSZ) :: 32 word)
      in sint (word_of_int (sint (word_of_int (sz + 7) :: 32 word) sdiv 8 * 8) :: 32 word))"

definition cre_tsk :: "T_CTSK \<Rightarrow> int \<Rightarrow> addr \<Rightarrow> 'a kstate_scheme \<Rightarrow> ID \<times> 'a kstate_scheme" where
  "cre_tsk pk sz stack s =
     (case que_remove_next QFreeTcb s of
        (None, s1) \<Rightarrow> (E_LIMIT, s1)
      | (Some t, s1) \<Rightarrow>
          let s2 = upd_tcb t (\<lambda>b. b\<lparr>exinf := ctsk_exinf pk, tskatr := ctsk_tskatr pk, task := ctsk_task pk,
                       ipriority := nat (int_priority (ctsk_itskpri pk)), sstksz := sz,
                       isstack := nat (int stack + sz), isysmode := 1, sysmode := 1\<rparr>) s1;
              s3 = knl_make_dormant t s2
          in (tskid (tcb s3 t), s3))"

definition tk_cre_tsk ::
    "(UW \<Rightarrow> 'a kstate_scheme \<Rightarrow> addr \<times> 'a kstate_scheme) \<Rightarrow>
     (addr \<Rightarrow> 'a kstate_scheme \<Rightarrow> 'a kstate_scheme) \<Rightarrow>
     T_CTSK \<Rightarrow> 'a kstate_scheme \<Rightarrow> sysret \<times> 'a kstate_scheme" where
  "tk_cre_tsk knl_Imalloc knl_Ifree pk s =
     (let user = ctsk_tskatr pk AND TA_USERBUF \<noteq> 0;
          e = first_err ([CHECK_RSATR (ctsk_tskatr pk) (TA_HLNG OR TA_RNG3 OR TA_USERBUF),
                CHECK_PAR (ctsk_stksz pk \<ge> 0), CHECK_PRI (ctsk_itskpri pk)] @
                (if user then [CHECK_PAR (ctsk_stksz pk \<ge> MIN_SYS_STACK_SIZE)] else []));
          sz = (if user then ctsk_stksz pk else sys_stack_size (ctsk_stksz pk))
      in if e < E_OK then (Ret e, s)
         else
           let (stack, s1) = (if user then (ctsk_bufptr pk, s) else knl_Imalloc (word_of_int sz) s)
           in if \<not> user \<and> stack = 0 then (Ret E_NOMEM, s1)
              else
                let (ercd, s2) = cre_tsk pk sz stack s1;
                    s3 = END_CRITICAL_SECTION s2
                in (Ret ercd, if ercd < E_OK \<and> \<not> user then knl_Ifree stack s3 else s3))"

definition knl_del_tsk :: "(addr \<Rightarrow> 'a kstate_scheme \<Rightarrow> 'a kstate_scheme) \<Rightarrow> nat \<Rightarrow> 'a kstate_scheme \<Rightarrow> 'a kstate_scheme" where
  "knl_del_tsk knl_Ifree t s =
     (let s1 = (if tskatr (tcb s t) AND TA_USERBUF = 0
                then knl_Ifree (nat (int (isstack (tcb s t)) - sstksz (tcb s t))) s else s)
      in upd_tcb t (state_update (\<lambda>_. TS_NONEXIST)) (que_insert t QFreeTcb s1))"

definition tk_del_tsk :: "(addr \<Rightarrow> 'a kstate_scheme \<Rightarrow> 'a kstate_scheme) \<Rightarrow> ID \<Rightarrow> 'a kstate_scheme \<Rightarrow> sysret \<times> 'a kstate_scheme" where
  "tk_del_tsk knl_Ifree oid s =
     (let e = CHECK_TSKID oid s; t = INDEX_OBJ oid; st = state (tcb s t)
      in if e < E_OK then (Ret e, s)
         else if st \<noteq> TS_DORMANT then (Ret (not_alive_err st), END_CRITICAL_SECTION s)
         else (Ret E_OK, END_CRITICAL_SECTION (knl_del_tsk knl_Ifree t s)))"

section \<open>Start and end\<close>

definition tk_sta_tsk :: "ID \<Rightarrow> int \<Rightarrow> 'a kstate_scheme \<Rightarrow> sysret \<times> 'a kstate_scheme" where
  "tk_sta_tsk oid stacd s =
     (let e = CHECK_TSKID oid s; t = INDEX_OBJ oid; st = state (tcb s t)
      in if e < E_OK then (Ret e, s)
         else if st \<noteq> TS_DORMANT then (Ret (not_alive_err st), END_CRITICAL_SECTION s)
         else (Ret E_OK, END_CRITICAL_SECTION (knl_make_ready t (upd_tcb t (knl_setup_stacd stacd) s))))"

text \<open>\<^verbatim>\<open>knl_cleanup_context\<close> does nothing on this processor.\<close>

definition knl_ter_tsk :: "nat \<Rightarrow> 'a mtxstate_scheme \<Rightarrow> 'a mtxstate_scheme option" where
  "knl_ter_tsk t s =
     Option.bind
       (if state (tcb s t) = TS_READY then Some (knl_make_non_ready t s)
        else if in_wait (state (tcb s t)) then rel_wai_hook t (knl_wait_cancel t s)
        else Some s)
       (knl_signal_all_mutex t)"

definition knl_force_dispatch :: "'a kstate_scheme \<Rightarrow> 'a kstate_scheme" where
  "knl_force_dispatch s =
     s\<lparr>ctxtsk := None, dispatch_disabled := 0, taskindp := 0, isr_nest := 0, cpu_intlevel := 1,
       cpu_mie := True, dsp_req := True\<rparr>"

text \<open>Called from a handler, \<^verbatim>\<open>tk_ext_tsk\<close> loops for ever and \<^verbatim>\<open>tk_exd_tsk\<close> returns.\<close>

definition tk_ext_tsk :: "'a mtxstate_scheme \<Rightarrow> 'a mtxstate_scheme option" where
  "tk_ext_tsk s =
     (let c = the (ctxtsk s)
      in if in_indp s then None
         else map_option (\<lambda>s1. knl_force_dispatch (knl_make_dormant c s1)) (knl_ter_tsk c s))"

definition tk_exd_tsk :: "(addr \<Rightarrow> 'a mtxstate_scheme \<Rightarrow> 'a mtxstate_scheme) \<Rightarrow> 'a mtxstate_scheme \<Rightarrow> 'a mtxstate_scheme option" where
  "tk_exd_tsk knl_Ifree s =
     (let c = the (ctxtsk s)
      in if in_indp s then Some s
         else map_option (\<lambda>s1. knl_force_dispatch (knl_del_tsk knl_Ifree c s1)) (knl_ter_tsk c s))"

definition tk_ter_tsk :: "ID \<Rightarrow> 'a mtxstate_scheme \<Rightarrow> (sysret \<times> 'a mtxstate_scheme) option" where
  "tk_ter_tsk oid s =
     (let e = CHECK_TSKID oid s; t = INDEX_OBJ oid; st = state (tcb s t)
      in if e < E_OK then Some (Ret e, s)
         else if \<not> knl_task_alive st then Some (Ret (not_alive_err st), END_CRITICAL_SECTION s)
         else if klocked (tcb s t) then Some (Ret E_OBJ, END_CRITICAL_SECTION s)
         else map_option (\<lambda>s1. (Ret E_OK, END_CRITICAL_SECTION (knl_make_dormant t s1))) (knl_ter_tsk t s))"

section \<open>Priority, release, reference\<close>

definition tk_chg_pri :: "ID \<Rightarrow> PRI \<Rightarrow> 'a mtxstate_scheme \<Rightarrow> (sysret \<times> 'a mtxstate_scheme) option" where
  "tk_chg_pri oid tskpri s =
     (let e = first_err [CHECK_TSKID_SELF oid s, CHECK_PRI_INI tskpri]; t = get_tcb_self oid s
      in if e < E_OK then Some (Ret e, s)
         else if state (tcb s t) = TS_NONEXIST then Some (Ret E_NOEXS, END_CRITICAL_SECTION s)
         else
           let p = (if tskpri = TPRI_INI then int (ipriority (tcb s t)) else int_priority tskpri);
               ercd = knl_chg_pri_mutex t p s
           in if ercd < E_OK then Some (Ret ercd, END_CRITICAL_SECTION s)
              else map_option (\<lambda>s1. (Ret E_OK, END_CRITICAL_SECTION s1))
                (knl_change_task_priority t (nat ercd) (upd_tcb t (bpriority_update (\<lambda>_. nat p)) s)))"

definition tk_rot_rdq :: "PRI \<Rightarrow> 'a kstate_scheme \<Rightarrow> sysret \<times> 'a kstate_scheme" where
  "tk_rot_rdq tskpri s =
     (let e = CHECK_PRI_RUN tskpri
      in if e < E_OK then (Ret e, s)
         else (Ret E_OK, END_CRITICAL_SECTION
           (if tskpri = TPRI_RUN then
              if in_indp s then knl_rotate_ready_queue_run s
              else knl_rotate_ready_queue (priority (tcb s (the (ctxtsk s)))) s
            else knl_rotate_ready_queue (nat (int_priority tskpri)) s)))"

definition tk_get_tid :: "'a kstate_scheme \<Rightarrow> ID" where
  "tk_get_tid s = (case ctxtsk s of None \<Rightarrow> 0 | Some t \<Rightarrow> tskid (tcb s t))"

definition tskstat :: "nat \<Rightarrow> 'a kstate_scheme \<Rightarrow> UINT" where
  "tskstat t s =
     (if state (tcb s t) = TS_READY \<and> ctxtsk s = Some t then 0x01
      else push_bit 1 (ucast (ts_val (state (tcb s t)))))"

definition tk_ref_tsk :: "ID \<Rightarrow> 'a kstate_scheme \<Rightarrow> T_RTSK refret" where
  "tk_ref_tsk oid s =
     (let e = CHECK_TSKID_SELF oid s; t = get_tcb_self oid s; b = tcb s t
      in if e < E_OK then (e, None)
         else if state b = TS_NONEXIST then (E_NOEXS, None)
         else (E_OK, Some \<lparr>rtsk_exinf = exinf b, rtsk_tskpri = ext_tskpri (priority b),
            rtsk_tskbpri = ext_tskpri (bpriority b), rtsk_tskstat = tskstat t s,
            rtsk_tskwait = (if in_wait (state b) then tskwait (wspec b) else 0),
            rtsk_wid = (if in_wait (state b) then wid b else 0),
            rtsk_wupcnt = wupcnt b, rtsk_suscnt = suscnt b\<rparr>))"

definition tk_rel_wai :: "ID \<Rightarrow> 'a mtxstate_scheme \<Rightarrow> (sysret \<times> 'a mtxstate_scheme) option" where
  "tk_rel_wai oid s =
     (let e = CHECK_TSKID oid s; t = INDEX_OBJ oid; st = state (tcb s t)
      in if e < E_OK then Some (Ret e, s)
         else if \<not> in_wait st then Some (Ret (not_alive_err st), END_CRITICAL_SECTION s)
         else map_option (\<lambda>s1. (Ret E_OK, END_CRITICAL_SECTION s1))
           (knl_wait_release_ng rel_wai_hook t E_RLWAI s))"

definition td_lst_tsk :: "int \<Rightarrow> 'a kstate_scheme \<Rightarrow> int \<times> ID list" where
  "td_lst_tsk nent s =
     list_entries nent (map (\<lambda>t. tskid (tcb s t)) (filter (\<lambda>t. state (tcb s t) \<noteq> TS_NONEXIST) [0..<NUM_TSKID]))"

definition td_ref_tsk :: "ID \<Rightarrow> 'a kstate_scheme \<Rightarrow> TD_RTSK refret" where
  "td_ref_tsk oid s =
     (let e = CHECK_TSKID_SELF oid s; t = get_tcb_self oid s; b = tcb s t
      in if e < E_OK then (e, None)
         else if state b = TS_NONEXIST then (E_NOEXS, None)
         else (E_OK, Some \<lparr>rtsk_exinf = exinf b, rtsk_tskpri = ext_tskpri (priority b),
            rtsk_tskbpri = ext_tskpri (bpriority b), rtsk_tskstat = tskstat t s,
            rtsk_tskwait = (if in_wait (state b) then tskwait (wspec b) else 0),
            rtsk_wid = (if in_wait (state b) then wid b else 0),
            rtsk_wupcnt = wupcnt b, rtsk_suscnt = suscnt b,
            rtsk_task = task b, rtsk_stksz = sstksz b, rtsk_istack = isstack b\<rparr>))"

definition td_inf_tsk :: "ID \<Rightarrow> bool \<Rightarrow> 'a kstate_scheme \<Rightarrow> TD_ITSK refret \<times> 'a kstate_scheme" where
  "td_inf_tsk oid clr s =
     (let e = CHECK_TSKID_SELF oid s; t = get_tcb_self oid s; b = tcb s t
      in if e < E_OK then ((e, None), s)
         else if state b = TS_NONEXIST then ((E_NOEXS, None), s)
         else ((E_OK, Some \<lparr>itsk_stime = stime b, itsk_utime = utime b\<rparr>),
               if clr then upd_tcb t (\<lambda>b. b\<lparr>stime := 0, utime := 0\<rparr>) s else s))"

section \<open>Invariant\<close>

lemma CHK_PRI_lt: "CHK_PRI p \<Longrightarrow> nat (int_priority p) < NUM_TSKPRI" "CHK_PRI p \<Longrightarrow> 0 \<le> int_priority p"
  by (auto simp: CHK_PRI_def int_priority_def consts_defs NUM_TSKPRI_def)

lemma free_head:
  assumes "core_inv s" "que s QFreeTcb = t # ts"
  shows "t < NUM_TSKID" "state (tcb s t) = TS_NONEXIST" "t \<notin> set ts" "TM_TSK t \<notin> set (timer_queue s)"
proof -
  have m: "t < NUM_TSKID \<and> home (tcb s t) = Some QFreeTcb"
    using task_inv_mem[OF core_invD(1)[OF assms(1)], of t QFreeTcb] assms(2) by simp
  then show "t < NUM_TSKID" by simp
  show st: "state (tcb s t) = TS_NONEXIST" using m by (cases "state (tcb s t)") (auto simp: home_def)
  show "t \<notin> set ts" using core_inv_distinct[OF assms(1), of QFreeTcb] assms(2) by simp
  show "TM_TSK t \<notin> set (timer_queue s)" using core_inv_timer_waits[OF assms(1), of t] st by simp
qed

text \<open>A task outside all queues becomes dormant: a new one, or one that has been terminated.\<close>

lemma make_dormant_inv:
  assumes x: "task_inv_x t s" and sc: "sched_ok s" and ok: "tcb_ok s" and tm: "timer_ok s" "TM_TSK t \<notin> set (timer_queue s)"
    and c: "\<forall>c. ctxtsk s = Some c \<longrightarrow> c < NUM_TSKID"
  shows "core_inv (knl_make_dormant t s)"
proof -
  let ?s = "knl_make_dormant t s"
  have h: "home (tcb ?s t) = None" by (simp add: knl_make_dormant_def knl_setup_context_def)
  have "task_inv ?s" by (rule task_inv_nolink[OF _ h]) (simp add: knl_make_dormant_def task_inv_x_upd x)
  moreover have "sched_ok ?s" unfolding knl_make_dormant_def
    by (rule sched_ok_upd_tcb[OF sc]) (simp add: knl_setup_context_def)
  moreover have "tcb_ok ?s"
    by (rule tcb_ok_upd[OF ok, where t = t and b = "tcb ?s t"])
      (use ok in \<open>auto simp: knl_make_dormant_def knl_setup_context_def tcb_ok_def Let_def INT_MAX_def\<close>)
  moreover have "timer_ok ?s" using tm by (auto simp: timer_ok_def knl_make_dormant_def)
  ultimately show ?thesis using c by (simp add: core_inv_def knl_make_dormant_def)
qed

lemma cre_tsk_inv:
  assumes inv: "core_inv s" and p: "CHK_PRI (ctsk_itskpri pk)"
  shows "core_inv (snd (cre_tsk pk sz stack s))"
proof (cases "que s QFreeTcb")
  case Nil
  with inv show ?thesis by (simp add: cre_tsk_def que_remove_next_def)
next
  case (Cons t ts)
  note I = core_invD[OF inv] and F = free_head[OF inv Cons]
  let ?q = "s\<lparr>que := (que s)(QFreeTcb := ts)\<rparr>"
  let ?f = "\<lambda>b. b\<lparr>exinf := ctsk_exinf pk, tskatr := ctsk_tskatr pk, task := ctsk_task pk,
                       ipriority := nat (int_priority (ctsk_itskpri pk)), sstksz := sz,
                       isstack := nat (int stack + sz), isysmode := 1, sysmode := 1\<rparr>"
  have e: "snd (cre_tsk pk sz stack s) = knl_make_dormant t (upd_tcb t ?f ?q)"
    by (simp add: cre_tsk_def que_remove_next_def Cons Let_def)
  have "t \<notin> set (que s q)" if "q \<noteq> QFreeTcb" for q using task_inv_mem[OF I(1), of t q] F(2) that by auto
  then have "(\<lambda>q. removeAll t (que s q)) = (que s)(QFreeTcb := ts)" using Cons F(3) by (auto simp: fun_eq_iff)
  then have "linked (tcb s) ((que s)(QFreeTcb := ts)) ({..<NUM_TSKID} - {t})"
    using linked_unlink[OF I(1)[unfolded task_inv_def], of t] by simp
  then have x: "task_inv_x t (upd_tcb t ?f ?q)" by (intro task_inv_x_upd) (simp add: task_inv_x_def)
  have "sched_ok ?q" by (rule sched_ok_wait_queues[where s = s]) (use I(2) in simp_all)
  then have sc: "sched_ok (upd_tcb t ?f ?q)" by (rule sched_ok_upd_tcb) simp
  have ok: "tcb_ok (upd_tcb t ?f ?q)"
    by (rule tcb_ok_upd[OF I(3), where t = t and b = "?f (tcb s t)"])
      (use I(3) F CHK_PRI_lt(1)[OF p] in \<open>auto simp: tcb_ok_def Let_def\<close>)
  have tm: "timer_ok (upd_tcb t ?f ?q)" using I(4) F by (auto simp: timer_ok_def)
  show ?thesis unfolding e by (rule make_dormant_inv[OF x sc ok tm]) (use F I(5) in auto)
qed

lemma del_tsk_inv:
  assumes inv: "core_inv s" and t: "t < NUM_TSKID" "state (tcb s t) = TS_DORMANT"
  shows "core_inv (upd_tcb t (state_update (\<lambda>_. TS_NONEXIST)) (que_insert t QFreeTcb s))" (is "core_inv ?s")
proof -
  note I = core_invD[OF inv]
  have n: "t \<notin> set (que s QFreeTcb)" using task_inv_mem[OF I(1), of t QFreeTcb] t(2) by simp
  have "linked ((tcb s)(t := (tcb s t)\<lparr>state := TS_NONEXIST\<rparr>)) (que s) ({..<NUM_TSKID} - {t})"
    using I(1) t by (auto simp: task_inv_def linked_def)
  from linked_link[OF this, of QFreeTcb] t(1) have "task_inv ?s" by (simp add: task_inv_def que_insert_def)
  moreover have "sched_ok (que_insert t QFreeTcb s)"
    by (rule sched_ok_wait_queues[where s = s]) (use I(2) in \<open>simp_all add: que_insert_def\<close>)
  then have "sched_ok ?s" by (rule sched_ok_upd_tcb) simp
  moreover have "tcb_ok ?s"
    by (rule tcb_ok_upd[OF I(3), where t = t and b = "(tcb s t)\<lparr>state := TS_NONEXIST\<rparr>"])
      (use I(3) t in \<open>auto simp: tcb_ok_def Let_def que_insert_def\<close>)
  moreover have "timer_ok ?s" using I(4) t by (auto simp: timer_ok_def que_insert_def)
  ultimately show ?thesis using I(5) by (simp add: core_inv_def que_insert_def)
qed

lemma tk_sta_tsk_inv:
  assumes inv: "core_inv s" shows "core_inv (snd (tk_sta_tsk oid stacd s))"
proof (cases "CHECK_TSKID oid s < E_OK \<or> state (tcb s (INDEX_OBJ oid)) \<noteq> TS_DORMANT")
  case False
  let ?t = "INDEX_OBJ oid"
  have t: "?t < NUM_TSKID" using CHECK_TSKID_ok(2) False by blast
  have z: "suscnt (tcb s ?t) = 0" using core_invD(3)[OF inv] t False by (auto simp: tcb_ok_def Let_def)
  have "core_inv (knl_make_ready ?t (upd_tcb ?t (knl_setup_stacd stacd) s))"
  proof (rule make_ready_unqueued[OF inv t])
    show "knl_setup_stacd stacd (tcb s ?t) = (tcb s ?t)\<lparr>suscnt := 0,
        tskctxb := (tskctxb (tcb s ?t))\<lparr>ctx_a0 := stacd, ctx_a1 := exinf (tcb s ?t)\<rparr>\<rparr>"
      by (cases "tcb s ?t") (use z in \<open>simp add: knl_setup_stacd_def\<close>)
  qed (use False in simp_all)
  then show ?thesis using False by (simp add: tk_sta_tsk_def Let_def)
qed (use inv in \<open>auto simp: tk_sta_tsk_def Let_def\<close>)

lemma rotate_inv:
  assumes inv: "core_inv s" shows "core_inv (knl_rotate_ready_queue p s)"
proof -
  note I = core_invD[OF inv]
  let ?r = "knl_ready_queue_rotate p s"
  have q: "distinct (que ?r q)" "set (que ?r q) = set (que s q)" for q
    using core_inv_distinct[OF inv, of q]
    by (cases "que s (QRdy p)"; auto simp: knl_ready_queue_rotate_def que_remove_next_def que_insert_def)+
  have f: "tcb ?r = tcb s" "timer_queue ?r = timer_queue s" "ctxtsk ?r = ctxtsk s" "klocktsk ?r = klocktsk s"
    by (simp_all add: knl_ready_queue_rotate_def que_remove_next_def que_insert_def split: list.split)
  have "rq_inv ?r" by (rule rq_rotate_inv[OF I(7)])
  moreover have "klock_free ?r" using I(6) by (simp add: klock_free_def f)
  ultimately have "sched_ok (knl_reschedule ?r)" by (rule sched_ok_reschedule)
  moreover have "linked (tcb s) (que ?r) {..<NUM_TSKID}" using I(1) q by (simp add: task_inv_def linked_def)
  ultimately show ?thesis using I(3-5)
    by (simp add: core_inv_def knl_rotate_ready_queue_def task_inv_def tcb_ok_def timer_ok_def f)
qed

lemma tk_rot_rdq_inv: "core_inv s \<Longrightarrow> core_inv (snd (tk_rot_rdq p s))"
  by (simp add: tk_rot_rdq_def knl_rotate_ready_queue_run_def Let_def rotate_inv flip: knl_rotate_ready_queue_def)

section \<open>Change of priority\<close>

text \<open>
  \<^verbatim>\<open>knl_chg_pri_mutex\<close> either refuses a base priority above a ceiling, or gives exactly the priority
  the task is due with the new base priority.
\<close>

lemma chg_pri_mutex_due:
  assumes "0 \<le> p" "\<not> knl_chg_pri_mutex t p s < E_OK"
  shows "knl_chg_pri_mutex t p s = int (Min (insert (nat p) (limits s (mtxlist (tcb s t)))))"
proof -
  let ?L = "limits s (mtxlist (tcb s t))"
  have "int ` insert (nat p) ?L = insert p (int ` ?L)" using assms(1) by simp
  then have m: "Min (insert p (int ` ?L)) = int (Min (insert (nat p) ?L))"
    using mono_Min_commute[of int "insert (nat p) ?L"] by (simp add: mono_def)
  have "knl_chg_pri_mutex t p s = E_ILUSE \<or> knl_chg_pri_mutex t p s = Min (insert p (int ` ?L))"
    by (auto simp: knl_chg_pri_mutex_def Let_def chg_pri_mutex_loop_hi)
  then show ?thesis using assms(2) m by (auto simp: consts_defs)
qed

lemma core_inv_set_bpriority:
  assumes "core_inv s" "p < NUM_TSKPRI" shows "core_inv (upd_tcb t (bpriority_update (\<lambda>_. p)) s)"
  by (rule core_inv_upd_tcb[OF assms(1)]) (use core_invD(3)[OF assms(1)] assms(2) in \<open>auto simp: tcb_ok_def Let_def upd_tcb_def\<close>)

lemma change_base_restores:
  assumes inv: "core_inv s" "mtx_inv s" and t: "t < NUM_TSKID" and p: "0 \<le> p" "nat p < NUM_TSKPRI"
    and ok: "\<not> knl_chg_pri_mutex t p s < E_OK" and ch: "chain_fin (waits_on s) {} t"
  shows "\<exists>s'. knl_change_task_priority t (nat (knl_chg_pri_mutex t p s)) (upd_tcb t (bpriority_update (\<lambda>_. nat p)) s) = Some s' \<and>
    core_inv s' \<and> mtx_inv s' \<and> bpriority (tcb s' t) = nat p"
proof -
  let ?s = "upd_tcb t (bpriority_update (\<lambda>_. nat p)) s" and ?E = "\<lambda>_. {} :: nat set"
  note M = mtx_invD[OF inv(2)]
  have c1: "core_inv ?s" by (rule core_inv_set_bpriority[OF inv(1) p(2)])
  have l: "mtx_limit ?s m = mtx_limit s m" for m by (rule mtx_limit_cong) simp_all
  then have lim: "limits ?s ms = limits s ms" for ms by (intro limits_cong) simp
  have d: "due ?E ?s u = due ?E s u" if "u \<noteq> t" for u by (rule due_priority_cong) (use that l in simp_all)
  have oth: "pri_ok ?E ?s u" if "u \<noteq> t" for u using M(4)[of u] d[OF that] that by (simp add: pri_ok_def)
  have own: "mtx_own None ?s" using M(2) by (rule mtx_own_subset) (auto split: if_splits)
  have so: "mtx_sorted ?s" using M(3) by (subst mtx_sorted_cong[of ?s s]) simp_all
  have w: "waits_on ?s = waits_on s" by (rule waits_on_cong) simp_all
  have e: "nat (knl_chg_pri_mutex t p s) = due ?E ?s t" using chg_pri_mutex_due[OF p(1) ok] by (simp add: due_def lim)
  have "\<exists>s'. knl_change_task_priority t (due ?E ?s t) ?s = Some s' \<and> restored ?E {} ?s s'"
    by (rule change_priority_restores[OF ch w c1 own so t oth]) simp_all
  then obtain s' where s': "knl_change_task_priority t (due ?E ?s t) ?s = Some s'" "chg_frame ?s s'" "core_inv s'"
    "mtx_sorted s'" "\<And>u. pri_ok ?E s' u" by (auto simp: restored_def)
  note C = chg_frameD[OF s'(2)]
  have "mtx_inv s'" using chg_frame_own[OF s'(2) own] s'(4,5) M(1) by (simp add: mtx_inv_def C(1,2))
  then show ?thesis using s' e C(6)[of t] by simp
qed

end
