(* ===== verification/Time_Calls.thy ===== *)
theory Time_Calls
  imports Task_Manage
begin

text \<open>
  Time management of \<^verbatim>\<open>kernel/tkernel/time_calls.c\<close>: the system clock, cyclic handlers and alarm
  handlers. A handler is user code; it is the argument \<open>hdr\<close> of the operations that call it,
  applied to the address of the handler and to its argument \<^verbatim>\<open>exinf\<close>. A handler's timer event
  block is \<open>TM_CYC i\<close> or \<open>TM_ALM i\<close>; its time is \<open>tmeb_time\<close> of that block. A null handler
  address is 0.
\<close>

section \<open>State\<close>

record CYCCB =
  cyc_exinf :: addr
  cycatr :: ATR
  cychdr :: addr
  cycstat :: UINT
  cyctim :: RELTIM

record ALMCB =
  alm_exinf :: addr
  almatr :: ATR
  almhdr :: addr
  almstat :: UINT

record T_CCYC =
  ccyc_exinf :: addr
  ccyc_cycatr :: ATR
  ccyc_cychdr :: addr
  ccyc_cyctim :: RELTIM
  ccyc_cycphs :: RELTIM

record T_CALM =
  calm_exinf :: addr
  calm_almatr :: ATR
  calm_almhdr :: addr

record T_RCYC =
  rcyc_exinf :: addr
  rcyc_lfttim :: RELTIM
  rcyc_cycstat :: UINT

record T_RALM =
  ralm_exinf :: addr
  ralm_lfttim :: RELTIM
  ralm_almstat :: UINT

record timstate = mtxstate +
  cyccb :: "nat \<Rightarrow> CYCCB"
  free_cyccb :: "nat list"
  almcb :: "nat \<Rightarrow> ALMCB"
  free_almcb :: "nat list"

type_synonym 'a handler = "addr \<Rightarrow> addr \<Rightarrow> 'a timstate_scheme \<Rightarrow> 'a timstate_scheme"

definition NUM_CYCID :: nat where [consts_defs]: "NUM_CYCID = 16"
definition NUM_ALMID :: nat where [consts_defs]: "NUM_ALMID = 32"
definition TA_STA :: ATR where [consts_defs]: "TA_STA = 0x2"
definition TA_PHS :: ATR where [consts_defs]: "TA_PHS = 0x4"
definition TCYC_STP :: UINT where [consts_defs]: "TCYC_STP = 0x00"
definition TCYC_STA :: UINT where [consts_defs]: "TCYC_STA = 0x01"
definition TALM_STP :: UINT where [consts_defs]: "TALM_STP = 0x00"
definition TALM_STA :: UINT where [consts_defs]: "TALM_STA = 0x01"
definition TIMER_INTLEVEL :: nat where [consts_defs]: "TIMER_INTLEVEL = 3"

definition DIFF_TRON_UTC :: LSYSTIM where
  "DIFF_TRON_UTC = 473385600000"

definition upd_cyccb :: "nat \<Rightarrow> (CYCCB \<Rightarrow> CYCCB) \<Rightarrow> 'a timstate_scheme \<Rightarrow> 'a timstate_scheme" where
  "upd_cyccb i f s = s\<lparr>cyccb := (cyccb s)(i := f (cyccb s i))\<rparr>"

definition upd_almcb :: "nat \<Rightarrow> (ALMCB \<Rightarrow> ALMCB) \<Rightarrow> 'a timstate_scheme \<Rightarrow> 'a timstate_scheme" where
  "upd_almcb i f s = s\<lparr>almcb := (almcb s)(i := f (almcb s i))\<rparr>"

section \<open>System clock\<close>

definition tk_set_utc :: "SYSTIM \<Rightarrow> 'a kstate_scheme \<Rightarrow> sysret \<times> 'a kstate_scheme" where
  "tk_set_utc pk_tim s =
     (let e = CHECK_PAR (sint (systim_hi pk_tim) \<ge> 0)
      in if e < E_OK then (Ret e, s)
         else (Ret E_OK, END_CRITICAL_SECTION
           (s\<lparr>real_time_ofs := knl_toLSYSTIM pk_tim - current_time s\<rparr>)))"

definition tk_get_utc :: "'a kstate_scheme \<Rightarrow> ER \<times> SYSTIM" where
  "tk_get_utc s = (E_OK, knl_toSYSTIM (current_time s + real_time_ofs s))"

definition tk_set_tim :: "SYSTIM \<Rightarrow> 'a kstate_scheme \<Rightarrow> sysret \<times> 'a kstate_scheme" where
  "tk_set_tim pk_tim s =
     (let e = CHECK_PAR (sint (systim_hi pk_tim) \<ge> 0);
          utc_time = knl_toLSYSTIM pk_tim + DIFF_TRON_UTC
      in if e < E_OK then (Ret e, s)
         else (Ret E_OK, END_CRITICAL_SECTION (s\<lparr>real_time_ofs := utc_time - current_time s\<rparr>)))"

definition tk_get_tim :: "'a kstate_scheme \<Rightarrow> ER \<times> SYSTIM" where
  "tk_get_tim s = (E_OK, knl_toSYSTIM (current_time s + real_time_ofs s - DIFF_TRON_UTC))"

definition tk_get_otm :: "'a kstate_scheme \<Rightarrow> ER \<times> SYSTIM" where
  "tk_get_otm s = (E_OK, knl_toSYSTIM (current_time s))"

text \<open>The debugger's variants also read the hardware timer, here the argument \<open>nsec\<close>.\<close>

definition td_get_tim :: "UW \<Rightarrow> 'a kstate_scheme \<Rightarrow> ER \<times> SYSTIM \<times> UW" where
  "td_get_tim nsec s = (E_OK, knl_toSYSTIM (current_time s + real_time_ofs s), nsec)"

definition td_get_otm :: "UW \<Rightarrow> 'a kstate_scheme \<Rightarrow> ER \<times> SYSTIM \<times> UW" where
  "td_get_otm nsec s = (E_OK, knl_toSYSTIM (current_time s), nsec)"

section \<open>Cyclic handlers\<close>

definition knl_cyc_next_time :: "nat \<Rightarrow> 'a timstate_scheme \<Rightarrow> ABSTIM" where
  "knl_cyc_next_time i s =
     (let cur = lltoul (current_time s); time = tmeb_time s (TM_CYC i); tim = cyctim (cyccb s i);
          tm = time + tim
      in if knl_abstim_reached cur tm then ((cur - time) div tim + 1) * tim + time else tm)"

definition knl_cyc_timer_insert :: "nat \<Rightarrow> ABSTIM \<Rightarrow> 'a kstate_scheme \<Rightarrow> 'a kstate_scheme" where
  "knl_cyc_timer_insert i tm s = knl_timer_insert_abs (TM_CYC i) tm s"

definition knl_cyclichandler_initialize :: "'a timstate_scheme \<Rightarrow> ER \<times> 'a timstate_scheme" where
  "knl_cyclichandler_initialize s =
     (if NUM_CYCID < 1 then (E_SYS, s)
      else (E_OK,
        fold (\<lambda>i st. (upd_cyccb i (cychdr_update (\<lambda>_. 0)) st)\<lparr>free_cyccb := free_cyccb st @ [i]\<rparr>)
          [0..<NUM_CYCID] (s\<lparr>free_cyccb := []\<rparr>)))"

definition knl_call_cychdr :: "'a handler \<Rightarrow> nat \<Rightarrow> 'a timstate_scheme \<Rightarrow> 'a timstate_scheme" where
  "knl_call_cychdr hdr i s =
     (let s1 = knl_cyc_timer_insert i (knl_cyc_next_time i s) s;
          s2 = s1\<lparr>cpu_intlevel := TIMER_INTLEVEL, cpu_mie := True\<rparr>;
          s3 = hdr (cychdr (cyccb s2 i)) (cyc_exinf (cyccb s2 i)) s2
      in s3\<lparr>cpu_mie := False\<rparr>)"

definition knl_immediate_call_cychdr :: "'a handler \<Rightarrow> nat \<Rightarrow> 'a timstate_scheme \<Rightarrow> 'a timstate_scheme" where
  "knl_immediate_call_cychdr hdr i s =
     (let s1 = knl_cyc_timer_insert i (knl_cyc_next_time i s) s;
          s2 = s1\<lparr>taskindp := taskindp s1 + 1\<rparr>;
          s3 = hdr (cychdr (cyccb s2 i)) (cyc_exinf (cyccb s2 i)) s2
      in s3\<lparr>taskindp := taskindp s3 - 1\<rparr>)"

definition cre_cyc :: "'a handler \<Rightarrow> T_CCYC \<Rightarrow> 'a timstate_scheme \<Rightarrow> ID \<times> 'a timstate_scheme" where
  "cre_cyc hdr pk s =
     (case free_cyccb s of
        [] \<Rightarrow> (E_LIMIT, s)
      | i # fs \<Rightarrow>
          let s1 = upd_cyccb i (\<lambda>cb. cb\<lparr>cyc_exinf := ccyc_exinf pk, cycatr := ccyc_cycatr pk,
                     cychdr := ccyc_cychdr pk, cyctim := ccyc_cyctim pk\<rparr>) (s\<lparr>free_cyccb := fs\<rparr>);
              tm = lltoul (current_time s1) + ccyc_cycphs pk + of_nat TIMER_PERIOD;
              s2 = (if ccyc_cycatr pk AND TA_STA \<noteq> 0 then
                      let s3 = upd_cyccb i (cycstat_update (\<lambda>_. TCYC_STA)) s1
                      in if ccyc_cycphs pk = 0
                         then knl_immediate_call_cychdr hdr i (s3\<lparr>tmeb_time := (tmeb_time s3)(TM_CYC i := tm)\<rparr>)
                         else knl_cyc_timer_insert i tm s3
                    else
                      let s3 = upd_cyccb i (cycstat_update (\<lambda>_. TCYC_STP)) s1
                      in s3\<lparr>tmeb_time := (tmeb_time s3)(TM_CYC i := tm)\<rparr>)
          in (ID_OBJ i, s2))"

definition tk_cre_cyc :: "'a handler \<Rightarrow> T_CCYC \<Rightarrow> 'a timstate_scheme \<Rightarrow> sysret \<times> 'a timstate_scheme" where
  "tk_cre_cyc hdr pk s =
     (let e = first_err [CHECK_RSATR (ccyc_cycatr pk) (TA_HLNG OR TA_STA OR TA_PHS),
                CHECK_PAR (ccyc_cychdr pk \<noteq> 0), CHECK_PAR (ccyc_cyctim pk > 0), CHECK_RELTIM (ccyc_cyctim pk)]
      in if e < E_OK then (Ret e, s)
         else let (r, s1) = cre_cyc hdr pk s in (Ret r, END_CRITICAL_SECTION s1))"

definition cyc_running :: "nat \<Rightarrow> 'a timstate_scheme \<Rightarrow> bool" where
  "cyc_running i s \<longleftrightarrow> cycstat (cyccb s i) AND TCYC_STA \<noteq> 0"

definition tk_del_cyc :: "ID \<Rightarrow> 'a timstate_scheme \<Rightarrow> sysret \<times> 'a timstate_scheme" where
  "tk_del_cyc oid s =
     (let e = CHECK_OBJID NUM_CYCID oid; i = INDEX_OBJ oid
      in if e < E_OK then (Ret e, s)
         else if cychdr (cyccb s i) = 0 then (Ret E_NOEXS, END_CRITICAL_SECTION s)
         else
           let s1 = (if cyc_running i s then knl_timer_delete (TM_CYC i) s else s)
           in (Ret E_OK, END_CRITICAL_SECTION
                (upd_cyccb i (cychdr_update (\<lambda>_. 0)) (s1\<lparr>free_cyccb := free_cyccb s1 @ [i]\<rparr>))))"

definition tk_sta_cyc :: "ID \<Rightarrow> 'a timstate_scheme \<Rightarrow> sysret \<times> 'a timstate_scheme" where
  "tk_sta_cyc oid s =
     (let e = CHECK_OBJID NUM_CYCID oid; i = INDEX_OBJ oid; cur = lltoul (current_time s)
      in if e < E_OK then (Ret e, s)
         else if cychdr (cyccb s i) = 0 then (Ret E_NOEXS, END_CRITICAL_SECTION s)
         else
           let s1 = (if cycatr (cyccb s i) AND TA_PHS \<noteq> 0 then
                       if \<not> cyc_running i s then
                         let tm = tmeb_time s (TM_CYC i)
                         in knl_cyc_timer_insert i
                              (if knl_abstim_reached cur tm then knl_cyc_next_time i s else tm) s
                       else s
                     else
                       let s2 = (if cyc_running i s then knl_timer_delete (TM_CYC i) s else s)
                       in knl_cyc_timer_insert i (cur + cyctim (cyccb s2 i) + of_nat TIMER_PERIOD) s2)
           in (Ret E_OK, END_CRITICAL_SECTION
                (upd_cyccb i (\<lambda>cb. cb\<lparr>cycstat := cycstat cb OR TCYC_STA\<rparr>) s1)))"

definition tk_stp_cyc :: "ID \<Rightarrow> 'a timstate_scheme \<Rightarrow> sysret \<times> 'a timstate_scheme" where
  "tk_stp_cyc oid s =
     (let e = CHECK_OBJID NUM_CYCID oid; i = INDEX_OBJ oid
      in if e < E_OK then (Ret e, s)
         else if cychdr (cyccb s i) = 0 then (Ret E_NOEXS, END_CRITICAL_SECTION s)
         else
           let s1 = (if cyc_running i s then knl_timer_delete (TM_CYC i) s else s)
           in (Ret E_OK, END_CRITICAL_SECTION
                (upd_cyccb i (\<lambda>cb. cb\<lparr>cycstat := cycstat cb AND NOT TCYC_STA\<rparr>) s1)))"

text \<open>The time left until the next start.\<close>

definition left_time :: "ABSTIM \<Rightarrow> ABSTIM \<Rightarrow> RELTIM" where
  "left_time cur tm =
     (if knl_abstim_reached (cur + of_nat TIMER_PERIOD) tm then 0 else tm - (cur + of_nat TIMER_PERIOD))"

definition tk_ref_cyc :: "ID \<Rightarrow> 'a timstate_scheme \<Rightarrow> T_RCYC refret" where
  "tk_ref_cyc oid s =
     (let e = CHECK_OBJID NUM_CYCID oid; i = INDEX_OBJ oid; cb = cyccb s i
      in if e < E_OK then (e, None)
         else if cychdr cb = 0 then (E_NOEXS, None)
         else
           let cur = lltoul (current_time s); tm0 = tmeb_time s (TM_CYC i);
               tm = (if \<not> cyc_running i s \<and> knl_abstim_reached cur tm0 then knl_cyc_next_time i s else tm0)
           in (E_OK, Some \<lparr>rcyc_exinf = cyc_exinf cb, rcyc_lfttim = left_time cur tm, rcyc_cycstat = cycstat cb\<rparr>))"

definition td_lst_cyc :: "int \<Rightarrow> 'a timstate_scheme \<Rightarrow> int \<times> ID list" where
  "td_lst_cyc nent s = list_entries nent (map ID_OBJ (filter (\<lambda>i. cychdr (cyccb s i) \<noteq> 0) [0..<NUM_CYCID]))"

definition td_ref_cyc :: "ID \<Rightarrow> 'a timstate_scheme \<Rightarrow> T_RCYC refret" where
  "td_ref_cyc oid s =
     (let e = CHECK_OBJID NUM_CYCID oid; i = INDEX_OBJ oid; cb = cyccb s i
      in if e < E_OK then (e, None)
         else if cychdr cb = 0 then (E_NOEXS, None)
         else
           let cur = lltoul (current_time s); tm0 = tmeb_time s (TM_CYC i);
               tm = (if \<not> cyc_running i s \<and> knl_abstim_reached cur tm0 then knl_cyc_next_time i s else tm0)
           in (E_OK, Some \<lparr>rcyc_exinf = cyc_exinf cb, rcyc_lfttim = left_time cur tm, rcyc_cycstat = cycstat cb\<rparr>))"

section \<open>Alarm handlers\<close>

definition knl_alm_timer_insert :: "nat \<Rightarrow> RELTIM \<Rightarrow> 'a kstate_scheme \<Rightarrow> 'a kstate_scheme" where
  "knl_alm_timer_insert i reltim s =
     knl_timer_insert_abs (TM_ALM i) (lltoul (current_time s) + reltim + of_nat TIMER_PERIOD) s"

definition knl_alarmhandler_initialize :: "'a timstate_scheme \<Rightarrow> ER \<times> 'a timstate_scheme" where
  "knl_alarmhandler_initialize s =
     (if NUM_ALMID < 1 then (E_SYS, s)
      else (E_OK,
        fold (\<lambda>i st. (upd_almcb i (almhdr_update (\<lambda>_. 0)) st)\<lparr>free_almcb := free_almcb st @ [i]\<rparr>)
          [0..<NUM_ALMID] (s\<lparr>free_almcb := []\<rparr>)))"

definition knl_call_almhdr :: "'a handler \<Rightarrow> nat \<Rightarrow> 'a timstate_scheme \<Rightarrow> 'a timstate_scheme" where
  "knl_call_almhdr hdr i s =
     (let s1 = upd_almcb i (\<lambda>cb. cb\<lparr>almstat := almstat cb AND NOT TALM_STA\<rparr>) s;
          s2 = s1\<lparr>cpu_intlevel := TIMER_INTLEVEL, cpu_mie := True\<rparr>;
          s3 = hdr (almhdr (almcb s2 i)) (alm_exinf (almcb s2 i)) s2
      in s3\<lparr>cpu_mie := False\<rparr>)"

definition cre_alm :: "T_CALM \<Rightarrow> 'a timstate_scheme \<Rightarrow> ID \<times> 'a timstate_scheme" where
  "cre_alm pk s =
     (case free_almcb s of
        [] \<Rightarrow> (E_LIMIT, s)
      | i # fs \<Rightarrow>
          (ID_OBJ i, upd_almcb i (\<lambda>cb. cb\<lparr>alm_exinf := calm_exinf pk, almatr := calm_almatr pk,
             almhdr := calm_almhdr pk, almstat := TALM_STP\<rparr>) (s\<lparr>free_almcb := fs\<rparr>)))"

definition tk_cre_alm :: "T_CALM \<Rightarrow> 'a timstate_scheme \<Rightarrow> sysret \<times> 'a timstate_scheme" where
  "tk_cre_alm pk s =
     (let e = first_err [CHECK_RSATR (calm_almatr pk) TA_HLNG, CHECK_PAR (calm_almhdr pk \<noteq> 0)]
      in if e < E_OK then (Ret e, s)
         else let (r, s1) = cre_alm pk s in (Ret r, END_CRITICAL_SECTION s1))"

definition alm_running :: "nat \<Rightarrow> 'a timstate_scheme \<Rightarrow> bool" where
  "alm_running i s \<longleftrightarrow> almstat (almcb s i) AND TALM_STA \<noteq> 0"

definition tk_del_alm :: "ID \<Rightarrow> 'a timstate_scheme \<Rightarrow> sysret \<times> 'a timstate_scheme" where
  "tk_del_alm oid s =
     (let e = CHECK_OBJID NUM_ALMID oid; i = INDEX_OBJ oid
      in if e < E_OK then (Ret e, s)
         else if almhdr (almcb s i) = 0 then (Ret E_NOEXS, END_CRITICAL_SECTION s)
         else
           let s1 = (if alm_running i s then knl_timer_delete (TM_ALM i) s else s)
           in (Ret E_OK, END_CRITICAL_SECTION
                (upd_almcb i (almhdr_update (\<lambda>_. 0)) (s1\<lparr>free_almcb := free_almcb s1 @ [i]\<rparr>))))"

definition knl_immediate_call_almhdr :: "'a handler \<Rightarrow> nat \<Rightarrow> 'a timstate_scheme \<Rightarrow> 'a timstate_scheme" where
  "knl_immediate_call_almhdr hdr i s =
     (let s1 = upd_almcb i (\<lambda>cb. cb\<lparr>almstat := almstat cb AND NOT TALM_STA\<rparr>) s;
          s2 = s1\<lparr>taskindp := taskindp s1 + 1\<rparr>;
          s3 = hdr (almhdr (almcb s2 i)) (alm_exinf (almcb s2 i)) s2
      in s3\<lparr>taskindp := taskindp s3 - 1\<rparr>)"

definition tk_sta_alm :: "'a handler \<Rightarrow> ID \<Rightarrow> RELTIM \<Rightarrow> 'a timstate_scheme \<Rightarrow> sysret \<times> 'a timstate_scheme" where
  "tk_sta_alm hdr oid almtim s =
     (let e = first_err [CHECK_OBJID NUM_ALMID oid, CHECK_RELTIM almtim]; i = INDEX_OBJ oid
      in if e < E_OK then (Ret e, s)
         else if almhdr (almcb s i) = 0 then (Ret E_NOEXS, END_CRITICAL_SECTION s)
         else
           let s1 = (if alm_running i s then knl_timer_delete (TM_ALM i) s else s);
               s2 = (if almtim > 0
                     then upd_almcb i (\<lambda>cb. cb\<lparr>almstat := almstat cb OR TALM_STA\<rparr>) (knl_alm_timer_insert i almtim s1)
                     else knl_immediate_call_almhdr hdr i s1)
           in (Ret E_OK, END_CRITICAL_SECTION s2))"

definition tk_stp_alm :: "ID \<Rightarrow> 'a timstate_scheme \<Rightarrow> sysret \<times> 'a timstate_scheme" where
  "tk_stp_alm oid s =
     (let e = CHECK_OBJID NUM_ALMID oid; i = INDEX_OBJ oid
      in if e < E_OK then (Ret e, s)
         else if almhdr (almcb s i) = 0 then (Ret E_NOEXS, END_CRITICAL_SECTION s)
         else (Ret E_OK, END_CRITICAL_SECTION
           (if alm_running i s
            then upd_almcb i (\<lambda>cb. cb\<lparr>almstat := almstat cb AND NOT TALM_STA\<rparr>) (knl_timer_delete (TM_ALM i) s)
            else s)))"

definition tk_ref_alm :: "ID \<Rightarrow> 'a timstate_scheme \<Rightarrow> T_RALM refret" where
  "tk_ref_alm oid s =
     (let e = CHECK_OBJID NUM_ALMID oid; i = INDEX_OBJ oid; cb = almcb s i
      in if e < E_OK then (e, None)
         else if almhdr cb = 0 then (E_NOEXS, None)
         else (E_OK, Some \<lparr>ralm_exinf = alm_exinf cb,
            ralm_lfttim = (if alm_running i s then left_time (lltoul (current_time s)) (tmeb_time s (TM_ALM i)) else 0),
            ralm_almstat = almstat cb\<rparr>))"

definition td_lst_alm :: "int \<Rightarrow> 'a timstate_scheme \<Rightarrow> int \<times> ID list" where
  "td_lst_alm nent s = list_entries nent (map ID_OBJ (filter (\<lambda>i. almhdr (almcb s i) \<noteq> 0) [0..<NUM_ALMID]))"

definition td_ref_alm :: "ID \<Rightarrow> 'a timstate_scheme \<Rightarrow> T_RALM refret" where
  "td_ref_alm oid s =
     (let e = CHECK_OBJID NUM_ALMID oid; i = INDEX_OBJ oid; cb = almcb s i
      in if e < E_OK then (e, None)
         else if almhdr cb = 0 then (E_NOEXS, None)
         else (E_OK, Some \<lparr>ralm_exinf = alm_exinf cb,
            ralm_lfttim = (if alm_running i s then left_time (lltoul (current_time s)) (tmeb_time s (TM_ALM i)) else 0),
            ralm_almstat = almstat cb\<rparr>))"

section \<open>The next start of a cyclic handler\<close>

text \<open>The next start lies strictly after the current time, at most one interval away.\<close>

lemma cyc_gap:
  fixes d t :: ABSTIM
  assumes "0 < t"
  shows "0 < (d div t + 1) * t - d \<and> (d div t + 1) * t - d \<le> t"
proof -
  have e: "(d div t + 1) * t - d = t - d mod t"
    by (simp add: distrib_right minus_div_mult_eq_mod [symmetric])
  have u: "uint (d mod t) = uint d mod uint t" by (rule uint_mod)
  have "0 < uint t" using assms by (simp add: word_less_def)
  then have "uint (d mod t) < uint t" using u by simp
  then show ?thesis unfolding e by uint_arith
qed

lemma abstim_ahead:
  assumes "0 < g" "g \<le> ABSTIM_DIFF_MIN" shows "\<not> knl_abstim_reached cur (cur + g)"
proof -
  have "0 < unat g" "unat g \<le> 2 ^ 31" using assms by (simp_all add: ABSTIM_DIFF_MIN_def word_less_nat_alt word_le_nat_alt)
  then show ?thesis using abstim_reached_exact[of 0 "unat g" cur] by simp
qed

lemma cyc_next_time_ahead:
  assumes "0 < cyctim (cyccb s i)" "cyctim (cyccb s i) < 0x80000000"
  shows "\<not> knl_abstim_reached (lltoul (current_time s)) (knl_cyc_next_time i s)"
    "\<exists>n. knl_cyc_next_time i s = tmeb_time s (TM_CYC i) + n * cyctim (cyccb s i)"
proof -
  let ?c = "lltoul (current_time s)" and ?t = "tmeb_time s (TM_CYC i)" and ?n = "cyctim (cyccb s i)"
  let ?g = "((?c - ?t) div ?n + 1) * ?n - (?c - ?t)"
  have g: "0 < ?g" "?g \<le> ABSTIM_DIFF_MIN"
    using cyc_gap[OF assms(1), of "?c - ?t"] assms(2) by (auto simp: ABSTIM_DIFF_MIN_def) uint_arith
  have e: "((?c - ?t) div ?n + 1) * ?n + ?t = ?c + ?g" by (simp add: algebra_simps)
  show "\<not> knl_abstim_reached ?c (knl_cyc_next_time i s)"
    unfolding knl_cyc_next_time_def Let_def e using abstim_ahead[OF g, of ?c]
    by (cases "knl_abstim_reached ?c (?t + ?n)") (simp_all only: if_True if_False simp_thms)
  have "?t + ?n = ?t + 1 * ?n" "((?c - ?t) div ?n + 1) * ?n + ?t = ?t + ((?c - ?t) div ?n + 1) * ?n" by simp_all
  then show "\<exists>n. knl_cyc_next_time i s = ?t + n * ?n"
    unfolding knl_cyc_next_time_def Let_def by (metis (full_types))
qed

end
