(* ===== verification/Sample_Objects.thy ===== *)
theory Sample_Objects
  imports Time_Calls
begin

text \<open>
  The sample kernel state with all object tables: event flag 1 with a waiting task, mailboxes 1 (with
  a waiting task) and 2 (empty), message buffers 1 (with a waiting receiver) and 2 (16 empty bytes at
  address 1000), mutexes 1 (held by task 0, task 6 waits), 2 (inheritance, free) and cyclic handler 1
  with an interval of 100. The invariants of the object managers hold in it.
\<close>

section \<open>States\<close>

definition sample_flgcb :: "nat \<Rightarrow> FLGCB" where
  "sample_flgcb i = \<lparr>flgid = (if i = 0 then 1 else 0), flg_exinf = 0, flgatr = 0, flgptn = 1\<rparr>"

definition sample_mbxcb :: "nat \<Rightarrow> MBXCB" where
  "sample_mbxcb i = \<lparr>mbxid = (if i < 2 then ID_OBJ i else 0), mbx_exinf = 0, mbxatr = 0, mq_tail = 0\<rparr>"

definition sample_mbfcb :: "nat \<Rightarrow> MBFCB" where
  "sample_mbfcb i = \<lparr>mbfid = (if i < 2 then ID_OBJ i else 0), mbf_exinf = 0, mbfatr = 0, bufsz = 16, maxmsz = 8,
     frbufsz = 16, mbf_head = 0, mbf_tail = 0, buffer = 1000\<rparr>"

definition sample_mtxcb :: "nat \<Rightarrow> MTXCB" where
  "sample_mtxcb i = \<lparr>mtxid = (if i < 2 then ID_OBJ i else 0), mtx_exinf = 0,
     mtxatr = (if i = 0 then TA_TPRI else TA_INHERIT), ceilpri = 0, mtxtsk = (if i = 0 then Some 0 else None)\<rparr>"

definition sample_cyccb :: "nat \<Rightarrow> CYCCB" where
  "sample_cyccb i = \<lparr>cyc_exinf = 0, cycatr = 0, cychdr = (if i = 0 then 7000 else 0), cycstat = 0, cyctim = 100\<rparr>"

definition sample_almcb :: "nat \<Rightarrow> ALMCB" where
  "sample_almcb i = \<lparr>alm_exinf = 0, almatr = 0, almhdr = 0, almstat = 0\<rparr>"

definition sample_flg :: "'a \<Rightarrow> 'a flgstate_scheme" where
  "sample_flg m = sample_sem (flgstate_ext sample_flgcb [1..<NUM_FLGID] m)"

definition sample_mbx :: "'a \<Rightarrow> 'a mbxstate_scheme" where
  "sample_mbx m = sample_flg (mbxstate_ext sample_mbxcb [2..<NUM_MBXID] (\<lambda>_. None) (\<lambda>_. 1) m)"

definition sample_mbf :: "'a \<Rightarrow> 'a mbfstate_scheme" where
  "sample_mbf m = sample_mbx (mbfstate_ext sample_mbfcb [2..<NUM_MBFID] (\<lambda>a. of_nat a) m)"

definition sample_mtx :: "'a \<Rightarrow> 'a mtxstate_scheme" where
  "sample_mtx m = sample_mbf (mtxstate_ext sample_mtxcb [2..<NUM_MTXID] m)"

definition sample_tim :: "'a \<Rightarrow> 'a timstate_scheme" where
  "sample_tim m = sample_mtx (timstate_ext sample_cyccb [1..<NUM_CYCID] sample_almcb [0..<NUM_ALMID] m)"

lemmas sample_chain = sample_tim_def sample_mtx_def sample_mbf_def sample_mbx_def sample_flg_def sample_sem_def

lemma sample_flg_fields [simp]:
  "tcb (sample_flg m) = sample_tcb" "que (sample_flg m) = sample_que" "ctxtsk (sample_flg m) = Some 0"
  "core_inv (sample_flg m)" "run_ok (sample_flg m)" "\<not> in_ddsp (sample_flg m)" "sem_inv (sample_flg m)"
  "flgcb (sample_flg m) = sample_flgcb" "free_flgcb (sample_flg m) = [1..<NUM_FLGID]" "umem (sample_flg m) = (\<lambda>a. 0)"
  by (simp_all add: sample_flg_def) (simp_all add: sample_sem_def sample_kernel_def)

lemma sample_mbx_fields [simp]:
  "tcb (sample_mbx m) = sample_tcb" "que (sample_mbx m) = sample_que" "ctxtsk (sample_mbx m) = Some 0"
  "core_inv (sample_mbx m)" "run_ok (sample_mbx m)" "\<not> in_ddsp (sample_mbx m)" "sem_inv (sample_mbx m)"
  "mbxcb (sample_mbx m) = sample_mbxcb" "free_mbxcb (sample_mbx m) = [2..<NUM_MBXID]"
  "nextmsg (sample_mbx m) = (\<lambda>_. None)" "msgpri (sample_mbx m) = (\<lambda>_. 1)"
  by (simp_all add: sample_mbx_def) (simp_all add: sample_flg_def sample_sem_def sample_kernel_def)

lemma sample_mbf_fields [simp]:
  "tcb (sample_mbf m) = sample_tcb" "que (sample_mbf m) = sample_que" "ctxtsk (sample_mbf m) = Some 0"
  "core_inv (sample_mbf m)" "run_ok (sample_mbf m)" "\<not> in_ddsp (sample_mbf m)"
  "mbfcb (sample_mbf m) = sample_mbfcb" "free_mbfcb (sample_mbf m) = [2..<NUM_MBFID]" "bmem (sample_mbf m) = (\<lambda>a. of_nat a)"
  by (simp_all add: sample_mbf_def) (simp_all add: sample_mbx_def sample_flg_def sample_sem_def sample_kernel_def)

lemma sample_mtx_fields [simp]:
  "tcb (sample_mtx m) = sample_tcb" "que (sample_mtx m) = sample_que" "ctxtsk (sample_mtx m) = Some 0"
  "core_inv (sample_mtx m)" "run_ok (sample_mtx m)" "\<not> in_ddsp (sample_mtx m)"
  "mtxcb (sample_mtx m) = sample_mtxcb" "free_mtxcb (sample_mtx m) = [2..<NUM_MTXID]"
  by (simp_all add: sample_mtx_def) (simp_all add: sample_mbf_def sample_mbx_def sample_flg_def sample_sem_def sample_kernel_def)

lemma sample_tim_fields [simp]:
  "tcb (sample_tim m) = sample_tcb" "que (sample_tim m) = sample_que" "ctxtsk (sample_tim m) = Some 0"
  "core_inv (sample_tim m)" "timer_queue (sample_tim m) = [TM_TSK 3, TM_TSK 4]" "current_time (sample_tim m) = 10"
  "cyccb (sample_tim m) = sample_cyccb" "almcb (sample_tim m) = sample_almcb"
  by (simp_all add: sample_tim_def) (simp_all add: sample_mtx_def sample_mbf_def sample_mbx_def sample_flg_def sample_sem_def sample_kernel_def)

section \<open>Invariants\<close>

lemma sample_flg_inv [simp]: "flg_inv (sample_flg m)" "kinv_flg (sample_flg m)"
proof -
  have t: "cb_table_inv NUM_FLGID (\<lambda>i. flgid (sample_flgcb i)) [1..<NUM_FLGID]"
    by (auto simp: cb_table_inv_def sample_flgcb_def ID_OBJ_def)
  have w: "winfo (sample_tcb 3) = WINFO_FLG 3 0 100" by (simp add: sample_defs)
  have "flg_ok (sample_flgcb i) (flg_wp (sample_flg m)) (flg_md (sample_flg m)) (sample_que (QFlg i))" for i
    by (simp add: flg_ok_def sample_flgcb_def flg_wp_def flg_md_def w knl_eventflag_cond_def)
  then show "flg_inv (sample_flg m)" using t by (simp add: flg_inv_def NUM_FLGID_def)
  then show "kinv_flg (sample_flg m)" by (simp add: kinv_flg_def)
qed

lemma sample_mbx_inv [simp]: "mbx_rep (sample_mbx m) (\<lambda>_. [])" "mbx_inv (sample_mbx m)" "flg_inv (sample_mbx m)"
proof -
  have t: "cb_table_inv NUM_MBXID (\<lambda>i. mbxid (sample_mbxcb i)) [2..<NUM_MBXID]"
    by (auto simp: cb_table_inv_def sample_mbxcb_def)
  then show "mbx_rep (sample_mbx m) (\<lambda>_. [])"
    by (simp add: mbx_rep_def mbx_ok_def sample_mbxcb_def NUM_MBXID_def)
  then show "mbx_inv (sample_mbx m)" unfolding mbx_inv_def by blast
  show "flg_inv (sample_mbx m)" by (simp add: sample_mbx_def)
qed

lemma sample_mbf_rep [simp]: "mbf_rep (sample_mbf m) i []"
  by (simp add: mbf_rep_def mbf_ok_def sample_mbfcb_def mbf_used_def)

lemma sample_mtx_inv [simp]: "mtx_inv (sample_mtx m)"
proof -
  have t: "cb_table_inv NUM_MTXID (\<lambda>i. mtxid (sample_mtxcb i)) [2..<NUM_MTXID]"
    by (auto simp: cb_table_inv_def sample_mtxcb_def)
  have l: "mtxlist (sample_tcb u) = (if u = 0 then [0] else [])" for u by (simp add: sample_defs)
  have k: "mtx_kind (sample_mtxcb 0) = TA_TPRI" by (simp add: mtx_kind_def sample_mtxcb_def consts_defs)
  have ml: "mtx_limit (sample_mtx m) 0 = None" by (simp add: mtx_limit_def k consts_defs)
  have w: "wspec (sample_tcb 6) = mtx_wspec (sample_mtxcb 0)" by (simp add: mtx_wspec_def k) (simp add: sample_defs consts_defs)
  have "state (sample_tcb 0) \<noteq> TS_NONEXIST" by (simp add: sample_defs)
  then have "mtx_own None (sample_mtx m)"
    using w by (simp add: mtx_own_def l) (simp add: sample_mtxcb_def NUM_MTXID_def NUM_TSKID_def NUM_TSKPRI_def)
  moreover have "mtx_sorted (sample_mtx m)" by (simp add: mtx_sorted_def tpri_sorted_def)
  moreover have "pri_ok (\<lambda>_. {}) (sample_mtx m) u" for u
    by (simp add: pri_ok_def due_def l ml) (simp add: sample_defs)
  ultimately show ?thesis using t by (simp add: mtx_inv_def)
qed

end
