(* ===== verification/Sync_Properties.thy ===== *)
theory Sync_Properties
  imports Sample_Objects
begin

text \<open>
  Properties of the synchronisation and communication objects without a buffer of their own:
  semaphores, event flags and mailboxes.
\<close>

section \<open>Semaphores\<close>

text \<open>
  The outcomes of waiting for a semaphore: a call that fails its checks returns a negative error
  and changes no task, queue or count; a request that can be served is granted at once; otherwise a
  poll returns \<^verbatim>\<open>E_TMOUT\<close> and the caller stays ready, and any other call leaves the caller in
  the queue with its request, to be resumed with \<^verbatim>\<open>E_TMOUT\<close> unless it is served.
\<close>

lemma sem_wait_outcomes:
  fixes s :: "'a semstate_scheme" and oid :: ID and cnt :: int and tmout :: TMO
  assumes inv: "core_inv s" "sem_inv s" and c: "ctxtsk s = Some c" "state (tcb s c) = TS_READY"
  defines "i \<equiv> INDEX_OBJ oid" and "r \<equiv> tk_wai_sem oid cnt tmout s"
  shows "(\<not> wai_sem_ok oid cnt tmout s \<longrightarrow>
            (\<exists>e<0. fst r = Ret e) \<and> tcb (snd r) = tcb s \<and> que (snd r) = que s \<and> semcb (snd r) = semcb s) \<and>
         (wai_sem_ok oid cnt tmout s \<longrightarrow> wai_sem_gets i cnt c s \<longrightarrow>
            fst r = Ret E_OK \<and> tcb (snd r) = tcb s \<and> que (snd r) = que s \<and>
            semcnt (semcb (snd r) i) = semcnt (semcb s i) - cnt) \<and>
         (wai_sem_ok oid cnt tmout s \<longrightarrow> \<not> wai_sem_gets i cnt c s \<longrightarrow>
            semcb (snd r) = semcb s \<and> fst r = wait_ret tmout \<and> wercd (tcb (snd r) c) = Some E_TMOUT \<and>
            state (tcb (snd r) c) = (if tmout = TMO_POL then TS_READY else TS_WAIT) \<and>
            que (snd r) (QSem i) = (if tmout = TMO_POL then que s (QSem i)
               else wait_enqueue (sematr (semcb s i)) (tcb s) c (que s (QSem i))))"
proof (intro conjI impI)
  assume n: "\<not> wai_sem_ok oid cnt tmout s"
  show "\<exists>e<0. fst r = Ret e" unfolding r_def by (rule tk_wai_sem_error(1)[OF n])
  show "tcb (snd r) = tcb s" "que (snd r) = que s" "semcb (snd r) = semcb s"
    using tk_wai_sem_error(2)[OF n] by (auto simp: r_def)
next
  assume ok: "wai_sem_ok oid cnt tmout s" and g: "wai_sem_gets i cnt c s"
  note e = tk_wai_sem_gets[OF ok c(1) g[unfolded i_def]]
  show "fst r = Ret E_OK" "tcb (snd r) = tcb s" "que (snd r) = que s"
    "semcnt (semcb (snd r) i) = semcnt (semcb s i) - cnt" by (simp_all add: r_def e i_def upd_semcb_def)
next
  assume ok: "wai_sem_ok oid cnt tmout s" and g: "\<not> wai_sem_gets i cnt c s"
  note e = tk_wai_sem_waits[OF ok c(1) g[unfolded i_def]]
  have i: "i < NUM_SEMID" "semid (semcb s i) \<noteq> 0" using ok INDEX_OBJ_less by (auto simp: wai_sem_ok_def i_def)
  have id: "wait_home (sem_wspec (semcb s i)) (semid (semcb s i)) = Some (QSem i)" using sem_invD(4)[OF inv(2) i] by simp
  note B = block_on[OF inv(1) c id, where objatr = "sematr (semcb s i)" and wi = "WINFO_SEM cnt" and tmout = tmout]
  show "semcb (snd r) = semcb s" using semst_frame(1)[OF B(5)] by (simp add: r_def e i_def)
  show "fst r = wait_ret tmout" "wercd (tcb (snd r) c) = Some E_TMOUT"
    "state (tcb (snd r) c) = (if tmout = TMO_POL then TS_READY else TS_WAIT)"
    "que (snd r) (QSem i) = (if tmout = TMO_POL then que s (QSem i)
       else wait_enqueue (sematr (semcb s i)) (tcb s) c (que s (QSem i)))"
    using B by (simp_all add: r_def e i_def)
qed

text \<open>
  Creating a semaphore with a valid packet fails with \<^verbatim>\<open>E_LIMIT\<close> exactly when all 128
  control blocks are in use; otherwise it returns an identifier in range that was not in use before.
\<close>

lemma sem_create_fresh_or_limit:
  assumes inv: "sem_inv s"
    and pk: "csem_sematr pk AND NOT (TA_TPRI OR TA_CNT) = 0" "0 \<le> csem_isemcnt pk" "0 < csem_maxsem pk" "csem_isemcnt pk \<le> csem_maxsem pk"
  defines "l \<equiv> live NUM_SEMID (\<lambda>i. semid (semcb s i))"
  shows "if card l = NUM_SEMID then fst (tk_cre_sem pk s) = Ret E_LIMIT
    else \<exists>i<NUM_SEMID. i \<notin> l \<and> fst (tk_cre_sem pk s) = Ret (ID_OBJ i) \<and>
           semid (semcb (snd (tk_cre_sem pk s)) i) = ID_OBJ i \<and> semcnt (semcb (snd (tk_cre_sem pk s)) i) = csem_isemcnt pk"
proof -
  have e: "tk_cre_sem pk s = (Ret (fst (cre_sem pk s)), END_CRITICAL_SECTION (snd (cre_sem pk s)))"
    using pk by (simp add: tk_cre_sem_def Let_def split_beta CHECK_RSATR_def CHECK_PAR_def)
  have t: "cb_table_inv NUM_SEMID (\<lambda>i. semid (semcb s i)) (free_semcb s)" by (rule sem_invD(1)[OF inv])
  show ?thesis
  proof (cases "free_semcb s")
    case Nil
    then show ?thesis using cb_table_count[OF t] by (simp add: e l_def sem_table.create_full)
  next
    case (Cons i fs)
    have "i < NUM_SEMID" "semid (semcb s i) = 0" using t Cons by (auto simp: cb_table_inv_def)
    moreover have "card l \<noteq> NUM_SEMID" using cb_table_count[OF t] Cons by (simp add: l_def)
    ultimately show ?thesis using Cons
      by (auto simp: e l_def live_def cre_sem_def Let_def upd_semcb_def intro!: exI[of _ i])
  qed
qed

section \<open>Event flags\<close>

text \<open>
  C8. Setting an event flag refines the abstract delivery: the waiting tasks are examined in queue
  order; each task whose condition the pattern fulfils leaves the queue with \<^verbatim>\<open>E_OK\<close> and finds the
  pattern in its memory, the bits it asked to clear are cleared before the next task is examined, and
  afterwards no waiting task's condition is fulfilled.
\<close>

theorem flg_set_refines_delivery:
  assumes inv: "kinv_flg s" and ok: "flg_call_ok oid s"
    and g: "flg_grant (flg_wp s) (flg_md s) (flgptn (flgcb s (INDEX_OBJ oid)) OR setptn) (que s (QFlg (INDEX_OBJ oid))) = (r, p)"
  defines "s' \<equiv> snd (tk_set_flg oid setptn s)" and "i \<equiv> INDEX_OBJ oid"
  shows "fst (tk_set_flg oid setptn s) = Ret E_OK \<and> tcb s' = served (map fst r) (tcb s) \<and>
    que s' (QFlg i) = filter (\<lambda>t. t \<notin> fst ` set r) (que s (QFlg i)) \<and>
    flgptn (flgcb s' i) = p \<and> umem s' = fold (flg_deliver (tcb s)) r (umem s) \<and>
    (\<forall>(t, q)\<in>set r. knl_eventflag_cond q (flg_wp s t) (flg_md s t)) \<and>
    (\<forall>t\<in>set (que s' (QFlg i)). \<not> knl_eventflag_cond p (flg_wp s t) (flg_md s t)) \<and> kinv_flg s'"
  using tk_set_flg_refines[OF inv ok g] flg_grant_sound[OF g] flg_grant_exhausts[OF g]
  by (auto simp: s'_def i_def)

theorem flg_set_refines_delivery_witness:
  "que (snd (tk_set_flg 1 2 (sample_flg ()))) (QFlg 0) = [] \<and> umem (snd (tk_set_flg 1 2 (sample_flg ()))) 100 = 3"
proof -
  have i: "INDEX_OBJ 1 = 0" by (simp add: INDEX_OBJ_def)
  have w: "winfo (sample_tcb 3) = WINFO_FLG 3 0 100" by (simp add: sample_defs)
  have ok: "flg_call_ok 1 (sample_flg ())" by (simp add: flg_call_ok_def i sample_flgcb_def CHK_OBJID_def NUM_FLGID_def)
  have g: "flg_grant (flg_wp (sample_flg ())) (flg_md (sample_flg ())) (flgptn (flgcb (sample_flg ()) (INDEX_OBJ 1)) OR 2)
      (que (sample_flg ()) (QFlg (INDEX_OBJ 1))) = ([(3, 3)], 3)"
    by (simp add: i sample_flgcb_def flg_wp_def flg_md_def w knl_eventflag_cond_def flg_clear_def)
  from flg_set_refines_delivery[OF _ ok g] show ?thesis by (simp add: i flg_deliver_def w)
qed

section \<open>Mailboxes\<close>

text \<open>A chain that a list of messages describes does not run into itself.\<close>

lemma chain_self_loop:
  assumes "nx (msg_at m) = Some m" "m \<in> set ms" shows "\<not> chain nx n ms"
  using assms(2)
proof (induction ms arbitrary: n)
  case (Cons x xs)
  show ?case
  proof (cases "m \<in> set xs")
    case False
    then have x: "x = m" using Cons.prems by simp
    then show ?thesis using assms(1) False by (cases xs) auto
  qed (use Cons.IH in simp)
qed simp

lemma resend_self_loop:
  assumes rep: "mbx_rep s msgs" and ok: "snd_mbx_ok oid m s" and q: "que s (QMbx (INDEX_OBJ oid)) = []"
    and f: "\<not> mbx_mpri (mbxcb s (INDEX_OBJ oid))" and m: "msgs (INDEX_OBJ oid) \<noteq> []" "m = last (msgs (INDEX_OBJ oid))"
  shows "\<exists>s'. tk_snd_mbx oid m s = Some (Ret E_OK, s') \<and> nextmsg s' (msg_at m) = Some m"
proof -
  let ?i = "INDEX_OBJ oid"
  have i: "?i < NUM_MBXID" "mbxid (mbxcb s ?i) \<noteq> 0" using ok INDEX_OBJ_less by (auto simp: snd_mbx_ok_def mbx_call_ok_def)
  have t: "mq_tail (mbxcb s ?i) = m" using mbx_repD(2)[OF rep i(1)] i(2) f m by (simp add: mbx_ok_def)
  have "nextmsg s (mq_head ?i) \<noteq> None" using mbx_repD(3)[OF rep i] m(1) by (cases "msgs ?i") auto
  then have h: "headmsg ?i (set_nextmsg (msg_at m) None s) \<noteq> None" by (simp add: headmsg_def set_nextmsg_def)
  have "mbxatr (mbxcb s ?i) AND TA_MPRI = 0" using f by (simp add: mbx_mpri_def)
  then have "\<exists>s'. link_msg ?i m s = Some s' \<and> nextmsg s' (msg_at m) = Some m"
    using h t by (auto simp: link_msg_def Let_def set_nextmsg_def upd_mbxcb_def)
  then show ?thesis using tk_snd_mbx_ok[OF ok] q by auto
qed

text \<open>
  C9. A mailbox refines a queue of messages. Sending, by a task or a handler, to a mailbox with a waiting
  task hands the message to the first of them; otherwise a message that is in no queue yet is queued,
  behind all others or behind those of the same or a higher priority, and the walk through a priority
  queue ends. Receiving takes the first message; with none there, the caller is queued as a waiting
  task, unless it polls. A message carries its own link, so that the last message of a mailbox in FIFO
  order, sent to it again, becomes its own successor: no list of messages describes the queue any more.
\<close>

theorem mailbox_refines_queue:
  fixes oid :: ID and m p :: nat and tmout :: TMO
  assumes inv: "core_inv s" "mbx_rep s msgs"
  defines "i \<equiv> INDEX_OBJ oid"
  shows "(snd_mbx_ok oid m s \<longrightarrow>
      (\<forall>t ts. que s (QMbx i) = t # ts \<longrightarrow>
         (\<exists>s'. tk_snd_mbx oid m s = Some (Ret E_OK, s') \<and> core_inv s' \<and> mbx_rep s' msgs \<and> que s' (QMbx i) = ts \<and>
            tcb s' = served [t] (tcb s) \<and> umem s' (winfo_mbx_ppk_msg (winfo (tcb s t))) = of_nat m)) \<and>
      (que s (QMbx i) = [] \<longrightarrow> msg_fresh m msgs \<longrightarrow>
         (\<exists>s'. tk_snd_mbx oid m s = Some (Ret E_OK, s') \<and> core_inv s' \<and> tcb s' = tcb s \<and>
            mbx_rep s' (msgs(i := mbx_enqueue (mbxcb s i) (msgpri s) m (msgs i))))) \<and>
      (que s (QMbx i) = [] \<longrightarrow> \<not> mbx_mpri (mbxcb s i) \<longrightarrow> msgs i \<noteq> [] \<longrightarrow> m = last (msgs i) \<longrightarrow>
         (\<exists>s'. tk_snd_mbx oid m s = Some (Ret E_OK, s') \<and> nextmsg s' (msg_at m) = Some m \<and>
            (\<forall>n ms. m \<in> set ms \<longrightarrow> \<not> chain (nextmsg s') n ms)))) \<and>
    (rcv_mbx_ok oid tmout s \<longrightarrow> (\<forall>c. ctxtsk s = Some c \<longrightarrow> state (tcb s c) = TS_READY \<longrightarrow>
      (case msgs i of
         x # xs \<Rightarrow> \<exists>s'. tk_rcv_mbx oid p tmout s = (Ret E_OK, s') \<and> core_inv s' \<and> mbx_rep s' (msgs(i := xs)) \<and> umem s' p = of_nat x
       | [] \<Rightarrow> \<exists>s'. tk_rcv_mbx oid p tmout s = (wait_ret tmout, s') \<and> core_inv s' \<and> mbx_rep s' msgs \<and>
           que s' (QMbx i) = (if tmout = TMO_POL then que s (QMbx i) else wait_enqueue (mbxatr (mbxcb s i)) (tcb s) c (que s (QMbx i))))))"
proof (intro conjI impI allI)
  assume ok: "snd_mbx_ok oid m s"
  show "\<exists>s'. tk_snd_mbx oid m s = Some (Ret E_OK, s') \<and> core_inv s' \<and> mbx_rep s' msgs \<and> que s' (QMbx i) = ts \<and>
      tcb s' = served [t] (tcb s) \<and> umem s' (winfo_mbx_ppk_msg (winfo (tcb s t))) = of_nat m" if "que s (QMbx i) = t # ts" for t ts
  proof -
    from tk_snd_mbx_delivers[OF inv ok that[unfolded i_def]] obtain s' where
      "tk_snd_mbx oid m s = Some (Ret E_OK, s')" "core_inv s'" "mbx_rep s' msgs" "tcb s' = served [t] (tcb s)"
      "que s' (QMbx i) = ts" "umem s' = (umem s)(winfo_mbx_ppk_msg (winfo (tcb s t)) := of_nat m)" unfolding i_def by blast
    then show ?thesis by simp
  qed
  assume q: "que s (QMbx i) = []"
  show "\<exists>s'. tk_snd_mbx oid m s = Some (Ret E_OK, s') \<and> core_inv s' \<and> tcb s' = tcb s \<and>
      mbx_rep s' (msgs(i := mbx_enqueue (mbxcb s i) (msgpri s) m (msgs i)))" if "msg_fresh m msgs"
    using tk_snd_mbx_queues[OF inv ok that q[unfolded i_def]] unfolding i_def by metis
  show "\<exists>s'. tk_snd_mbx oid m s = Some (Ret E_OK, s') \<and> nextmsg s' (msg_at m) = Some m \<and>
      (\<forall>n ms. m \<in> set ms \<longrightarrow> \<not> chain (nextmsg s') n ms)" if "\<not> mbx_mpri (mbxcb s i)" "msgs i \<noteq> []" "m = last (msgs i)"
    using resend_self_loop[OF inv(2) ok q[unfolded i_def] that[unfolded i_def]] chain_self_loop by metis
next
  fix c assume ok: "rcv_mbx_ok oid tmout s" and c: "ctxtsk s = Some c" "state (tcb s c) = TS_READY"
  show "case msgs i of
         x # xs \<Rightarrow> \<exists>s'. tk_rcv_mbx oid p tmout s = (Ret E_OK, s') \<and> core_inv s' \<and> mbx_rep s' (msgs(i := xs)) \<and> umem s' p = of_nat x
       | [] \<Rightarrow> \<exists>s'. tk_rcv_mbx oid p tmout s = (wait_ret tmout, s') \<and> core_inv s' \<and> mbx_rep s' msgs \<and>
           que s' (QMbx i) = (if tmout = TMO_POL then que s (QMbx i) else wait_enqueue (mbxatr (mbxcb s i)) (tcb s) c (que s (QMbx i)))"
  proof (cases "msgs i")
    case Nil
    from tk_rcv_mbx_waits[OF inv ok c Nil[unfolded i_def], of p] obtain s' where
      "tk_rcv_mbx oid p tmout s = (wait_ret tmout, s')" "core_inv s'" "mbx_rep s' msgs"
      "que s' (QMbx i) = (if tmout = TMO_POL then que s (QMbx i) else wait_enqueue (mbxatr (mbxcb s i)) (tcb s) c (que s (QMbx i)))"
      unfolding i_def by blast
    with Nil show ?thesis by simp
  next
    case (Cons x xs)
    from tk_rcv_mbx_takes[OF inv ok c(1) Cons[unfolded i_def], of p] obtain s' where
      "tk_rcv_mbx oid p tmout s = (Ret E_OK, s')" "core_inv s'" "mbx_rep s' (msgs(i := xs))" "umem s' = (umem s)(p := of_nat x)"
      unfolding i_def by blast
    with Cons show ?thesis by simp
  qed
qed

theorem mailbox_refines_queue_witness:
  "\<exists>s'. tk_snd_mbx 2 5000 (sample_mbx ()) = Some (Ret E_OK, s') \<and> mbx_rep s' ((\<lambda>_. [])(1 := [5000]))"
proof -
  have i: "INDEX_OBJ 2 = 1" by (simp add: INDEX_OBJ_def)
  have m: "mbx_call_ok 2 (sample_mbx ())" by (simp add: mbx_call_ok_def i sample_mbxcb_def CHK_OBJID_def NUM_MBXID_def)
  then have ok: "snd_mbx_ok 2 5000 (sample_mbx ())" by (simp add: snd_mbx_ok_def)
  have f: "msg_fresh 5000 (\<lambda>_. [])" by (simp add: msg_fresh_def)
  have e: "mbx_enqueue (mbxcb (sample_mbx ()) 1) (msgpri (sample_mbx ())) 5000 [] = [5000]"
    by (simp add: mbx_enqueue_def mbx_mpri_def sample_mbxcb_def)
  have r: "core_inv (sample_mbx ())" "mbx_rep (sample_mbx ()) (\<lambda>_. [])" "que (sample_mbx ()) (QMbx 1) = []" by simp_all
  from conjunct1[OF mailbox_refines_queue[OF r(1,2), of 2 5000]] ok f r(3) show ?thesis unfolding i e by blast
qed

text \<open>
  Every mailbox call keeps the kernel's invariant and that of the mailboxes, and leaves semaphores
  and event flags alone. Sending needs a message that is in no queue, since a message carries its own
  link.
\<close>

lemma mbx_calls_keep_invariant:
  assumes inv: "core_inv s" "mbx_rep s msgs" "run_ok s" and m: "msg_fresh m msgs"
  shows "(core_inv (snd (tk_cre_mbx pk s)) \<and> mbx_inv (snd (tk_cre_mbx pk s)) \<and> mbx_frame_rel s (snd (tk_cre_mbx pk s))) \<and>
    (core_inv (snd (tk_del_mbx oid s)) \<and> mbx_inv (snd (tk_del_mbx oid s)) \<and> mbx_frame_rel s (snd (tk_del_mbx oid s))) \<and>
    (core_inv (snd (tk_rcv_mbx oid p tmout s)) \<and> mbx_inv (snd (tk_rcv_mbx oid p tmout s)) \<and>
       mbx_frame_rel s (snd (tk_rcv_mbx oid p tmout s))) \<and>
    (\<exists>r s'. tk_snd_mbx oid m s = Some (r, s') \<and> core_inv s' \<and> mbx_inv s' \<and> mbx_frame_rel s s')"
proof -
  have i: "mbx_inv s" using inv(2) by (auto simp: mbx_inv_def)
  have "core_inv (snd (tk_cre_mbx pk s)) \<and> mbx_inv (snd (tk_cre_mbx pk s)) \<and> mbx_frame_rel s (snd (tk_cre_mbx pk s))"
    using tk_cre_mbx_rep[OF inv(1,2), of pk] by (auto simp: mbx_inv_def)
  moreover have "\<exists>r s'. tk_snd_mbx oid m s = Some (r, s') \<and> core_inv s' \<and> mbx_inv s' \<and> mbx_frame_rel s s'"
    using tk_snd_mbx_inv[OF inv(1,2) m, of oid] by metis
  ultimately show ?thesis using tk_del_mbx_inv[OF inv(1) i, of oid] tk_rcv_mbx_inv[OF inv(1) i inv(3), of oid p tmout] by blast
qed

end
