(* ===== verification/Buffer_Properties.thy ===== *)
theory Buffer_Properties
  imports Sample_Objects
begin

text \<open>
  Properties of the byte-level code: the string and bit library, the ring of a message buffer and the
  calls on it.
\<close>

section \<open>Library\<close>

text \<open>
  \<^verbatim>\<open>knl_memset\<close>, which writes single bytes up to a word boundary, then whole words, then the
  rest, equals the byte-wise specification for every address, length and value, also for a negative
  length and for values beyond a byte.
\<close>

lemma memset_equals_bytewise: "knl_memset s c n m = (\<lambda>a. if s \<le> a \<and> int a < int s + n then word_of_int c else m a)"
  by (simp add: knl_memset_filled filled_def)

text \<open>
  The string functions meet their specifications on terminated strings: the length is found, two
  strings compare equal exactly when they are equal, and a bounded copy into a field apart from the
  source fills the field with the string cut off or padded with zeros and writes nothing else.
\<close>

lemma string_functions_correct:
  assumes s: "str_at m s cs" and t: "str_at m t ds" and d: "d + n \<le> s \<or> s + length cs < d"
  shows "knl_strlen s m = Some (length cs) \<and>
    (\<exists>r. knl_strcmp m s t = Some r \<and> (r = 0 \<longleftrightarrow> cs = ds)) \<and>
    (\<forall>k<n. knl_strncpy d s n m (d + k) = (if k < length cs then cs ! k else 0)) \<and>
    (\<forall>a. a < d \<or> d + n \<le> a \<longrightarrow> knl_strncpy d s n m a = m a)"
  using knl_strlen_str[OF s] knl_strcmp_str[OF s t] knl_strncpy_content[OF s d] knl_strncpy_outside[of _ d n s m] by blast

text \<open>
  C40. \<^verbatim>\<open>knl_bitsearch1\<close> does not return when the byte in which the search starts has a bit set
  below the start position and none from it on: the mask is shifted out of the byte and the inner
  loop never ends.
\<close>

theorem bitsearch1_does_not_return:
  assumes "0 \<le> offset" "0 < width" "m (base + nat (offset div 8)) \<noteq> 0"
    and "\<And>j. nat (offset mod 8) \<le> j \<Longrightarrow> j < 8 \<Longrightarrow> \<not> bit (m (base + nat (offset div 8))) j"
  shows "knl_bitsearch1 base offset width m = None"
proof -
  let ?b = "m (base + nat (offset div 8))"
  have "BIT_SET_N offset = 2 ^ nat (offset mod 8)" by (simp add: BIT_SET_N_def push_bit_eq_mult)
  moreover have "bitsearch1_byte ?b (2 ^ nat (offset mod 8)) 0 width = None"
    by (rule bitsearch1_byte_below) (use assms(4) in auto)
  ultimately show ?thesis using assms(1-3) by (simp add: knl_bitsearch1_def bitsearch1_loop.simps)
qed

theorem bitsearch1_does_not_return_witness: "knl_bitsearch1 0 1 8 (\<lambda>a. 1) = None"
  by (rule bitsearch1_does_not_return) (auto simp: bit_1_iff)

section \<open>The ring\<close>

text \<open>
  A message that is stored in the ring is read back unchanged once the messages before it have been
  taken: storing appends to the list of messages, writes only inside the buffer, and taking returns the
  first message, also when header or body wrap around the end of the buffer.
\<close>

lemma mbf_ring_roundtrip:
  assumes ok: "mbf_ok cb m xs" and free: "knl_mbf_free cb (int n)" "n < 2 ^ 31"
    and sep: "src + n \<le> buffer cb \<or> buffer cb + nat (bufsz cb) \<le> src"
  defines "x \<equiv> hd (xs @ [msg_bytes m src n])"
  assumes dst: "dst + length x \<le> buffer cb \<or> buffer cb + nat (bufsz cb) \<le> dst"
  shows "(case knl_msg_to_mbf cb src (int n) m of (cb1, m1) \<Rightarrow>
     mbf_ok cb1 m1 (xs @ [msg_bytes m src n]) \<and>
     (\<forall>a. a < buffer cb \<or> buffer cb + nat (bufsz cb) \<le> a \<longrightarrow> m1 a = m a) \<and>
     (case knl_mbf_to_msg cb1 dst m1 of (sz, cb2, m2) \<Rightarrow>
        sz = int (length x) \<and> msg_bytes m2 dst (length x) = x \<and> mbf_ok cb2 m2 (tl (xs @ [msg_bytes m src n]))))"
proof -
  obtain cb1 m1 where e1: "knl_msg_to_mbf cb src (int n) m = (cb1, m1)" by force
  note A = knl_msg_to_mbf_appends[OF ok free sep e1]
  have b: "buffer cb1 = buffer cb" "bufsz cb1 = bufsz cb" by (subst A(3); simp)+
  obtain sz cb2 m2 where e2: "knl_mbf_to_msg cb1 dst m1 = (sz, cb2, m2)" by (metis prod_cases3)
  have "xs @ [msg_bytes m src n] = x # tl (xs @ [msg_bytes m src n])" by (simp add: x_def)
  then have ok1: "mbf_ok cb1 m1 (x # tl (xs @ [msg_bytes m src n]))" using A(1) by simp
  note T = knl_mbf_to_msg_takes[OF ok1 _ e2]
  show ?thesis using A(1,2) T dst by (simp add: e1 e2 b)
qed

section \<open>Message buffer calls\<close>

text \<open>
  C6. Receiving from a message buffer refines a bounded queue: the caller gets the first message whole,
  the waiting senders whose messages now fit, taken in queue order and up to the first that does not
  fit, are released with their messages appended behind the others, and no other task is touched.
\<close>

theorem mbf_receive_refines_queue:
  fixes oid :: ID
  assumes inv: "core_inv s" and ok: "rcv_mbf_ok oid tmout s" "ctxtsk s = Some c"
  defines "i \<equiv> INDEX_OBJ oid"
  assumes rep: "mbf_rep s i (x # xs)" and area: "rcv_area s i msg (length x)"
  defines "r \<equiv> mbf_admitted s i xs (que s (QMbfSnd i))"
  shows "\<exists>s'. tk_rcv_mbf oid msg p tmout s = (Ret (int (length x)), s') \<and> core_inv s' \<and>
    msg_bytes (bmem s') msg (length x) = x \<and> tcb s' = served r (tcb s) \<and>
    mbf_ok (mbfcb s' i) (bmem s') (xs @ map (\<lambda>t. smbf_bytes (bmem s) (tcb s t)) r) \<and>
    que s' (QMbfSnd i) = drop (length r) (que s (QMbfSnd i))"
proof -
  from tk_rcv_mbf_takes[OF inv ok rep[unfolded i_def] area[unfolded i_def], of p] obtain s' where
    "tk_rcv_mbf oid msg p tmout s = (Ret (int (length x)), s')" "core_inv s'"
    "msg_bytes (bmem s') msg (length x) = x" "tcb s' = served r (tcb s)"
    "mbf_ok (mbfcb s' i) (bmem s') (xs @ map (\<lambda>t. smbf_bytes (bmem s) (tcb s t)) r)"
    and q: "\<And>v. que s' (QWait v) = (if v = WMbfSnd i then drop (length r) (que s (QMbfSnd i)) else que s (QWait v))"
    unfolding i_def r_def by blast
  then show ?thesis using q[of "WMbfSnd i"] by auto
qed

theorem mbf_receive_refines_queue_witness:
  "fst (tk_rcv_mbf 2 90 0 TMO_FEVR (msg_to_mbf 1 50 (int 5) (sample_mbf ()))) = Ret 5"
proof -
  let ?s = "msg_to_mbf 1 50 (int 5) (sample_mbf ()) :: mbfstate"
  have i: "INDEX_OBJ 2 = 1" by (simp add: INDEX_OBJ_def)
  have f: "knl_mbf_free (mbfcb (sample_mbf ()) 1) (int 5)" by (simp add: knl_mbf_free_def HEADERSZ_def sample_mbfcb_def)
  have a: "apart (mbfcb (sample_mbf ()) 1) 50 5" by (simp add: apart_def sample_mbfcb_def)
  have ok: "mbf_ok (mbfcb (sample_mbf ()) 1) (bmem (sample_mbf ())) []"
    using sample_mbf_rep[of "()" 1] by (simp only: mbf_rep_def)
  note M = msg_to_mbf_step[OF ok f _ a]
  obtain x where x: "mbf_rep ?s 1 [x]" "length x = 5" using M(1) by (auto simp: mbf_rep_def)
  have b: "buffer (mbfcb ?s 1) = 1000" "bufsz (mbfcb ?s 1) = 16" "mbfid (mbfcb ?s 1) = 2"
    by (subst M(3); simp add: sample_mbfcb_def ID_OBJ_def)+
  have d: "\<not> in_ddsp ?s"
    using sample_mbf_fields(6)[of "()"] by (simp add: msg_to_mbf_def in_ddsp_def in_indp_def knl_is_dispatch_masked_def split: prod.split)
  have r: "rcv_mbf_ok 2 TMO_FEVR ?s"
    using b(3) d by (simp add: rcv_mbf_ok_def mbf_call_ok_def i CHK_OBJID_def NUM_MBFID_def)
  have ar: "rcv_area ?s 1 90 (length x)" using b by (simp add: rcv_area_def apart_def x(2))
  from mbf_receive_refines_queue[OF _ r, of 0 x "[]" 90 0] x ar show ?thesis by (auto simp: i)
qed

text \<open>
  Sending to a message buffer nobody waits for: if the caller is first in the send queue and there is
  room for header and message, the message is appended and the call returns \<^verbatim>\<open>E_OK\<close>; otherwise
  the buffer is unchanged and the caller waits, or gets \<^verbatim>\<open>E_TMOUT\<close> when it polls. A size outside
  the limits of the buffer is refused without effect.
\<close>

lemma mbf_send_outcomes:
  fixes oid :: ID
  assumes inv: "core_inv s" and n: "n < 2 ^ 31" and c: "ctxtsk s = Some c" "state (tcb s c) = TS_READY"
  defines "i \<equiv> INDEX_OBJ oid"
  assumes q: "que s (QMbfRcv i) = []" and rep: "mbf_rep s i xs" and live: "mbfid (mbfcb s i) = ID_OBJ i"
    and area: "apart (mbfcb s i) msg n"
  defines "fits \<equiv> snd_first i s \<and> 4 + rnd n \<le> nat (bufsz (mbfcb s i)) - mbf_used xs"
  shows "if \<not> snd_mbf_ok oid (int n) tmout s then
           (\<exists>e<0. fst (tk_snd_mbf oid msg (int n) tmout s) = Ret e) \<and>
           mbf_rep (snd (tk_snd_mbf oid msg (int n) tmout s)) i xs
         else if fits then
           (\<exists>s'. tk_snd_mbf oid msg (int n) tmout s = (Ret E_OK, s') \<and> core_inv s' \<and>
              mbf_rep s' i (xs @ [msg_bytes (bmem s) msg n]) \<and> tcb s' = tcb s)
         else (\<exists>s'. tk_snd_mbf oid msg (int n) tmout s = (wait_ret tmout, s') \<and> core_inv s' \<and>
              mbf_ok (mbfcb s' i) (bmem s') xs \<and> (tmout \<noteq> TMO_POL \<longrightarrow> c \<in> set (que s' (QMbfSnd i)) \<and> state (tcb s' c) = TS_WAIT))"
proof (cases "snd_mbf_ok oid (int n) tmout s")
  case False
  have "mbf_rep (END_CRITICAL_SECTION s) i xs" using rep by (simp add: mbf_rep_def)
  then show ?thesis using False tk_snd_mbf_error[OF False, of msg] rep by (auto simp del: of_nat_less_0_iff)
next
  case ok: True
  show ?thesis
  proof (cases fits)
    case True
    then have f: "snd_first (INDEX_OBJ oid) s" "4 + rnd n \<le> nat (bufsz (mbfcb s (INDEX_OBJ oid))) - mbf_used xs"
      by (auto simp: fits_def i_def)
    from tk_snd_mbf_stores[OF inv ok n q[unfolded i_def] rep[unfolded i_def] f area[unfolded i_def]]
    show ?thesis using ok True unfolding i_def by (simp del: of_nat_less_0_iff) metis
  next
    case False
    then have f: "\<not> snd_first (INDEX_OBJ oid) s \<or> nat (bufsz (mbfcb s (INDEX_OBJ oid))) - mbf_used xs < 4 + rnd n"
      by (auto simp: fits_def i_def)
    from tk_snd_mbf_waits[OF inv ok n c q[unfolded i_def] rep[unfolded i_def] live[unfolded i_def] f, of msg] obtain s' where
      s': "tk_snd_mbf oid msg (int n) tmout s = (wait_ret tmout, s')" "core_inv s'"
      "que s' (QMbfSnd i) = (if tmout = TMO_POL then que s (QMbfSnd i)
         else wait_enqueue (mbfatr (mbfcb s i)) (tcb s) c (que s (QMbfSnd i)))"
      "tmout \<noteq> TMO_POL \<Longrightarrow> winfo (tcb s' c) = WINFO_SMBF msg (int n) \<and> state (tcb s' c) = TS_WAIT"
      "mbfcb s' = mbfcb s" "bmem s' = bmem s" unfolding i_def by metis
    then have "mbf_ok (mbfcb s' i) (bmem s') xs" using rep by (simp add: mbf_rep_def)
    then show ?thesis using ok False s' by auto
  qed
qed

text \<open>
  The size of a message buffer is rounded up in 32 bits without a check: for the three largest sizes
  the rounded size is negative, so that no memory is allocated, and yet the call succeeds and the free
  space test of the new buffer, which has no memory, admits every message.
\<close>

lemma mbf_create_size_overflow:
  assumes sz: "0x7FFFFFFD \<le> cmbf_bufsz pk" "cmbf_bufsz pk \<le> 0x7FFFFFFF"
    and pk: "cmbf_mbfatr pk AND NOT (TA_TPRI OR TA_USERBUF) = 0" "0 < cmbf_maxmsz pk" and f: "free_mbfcb s = i # fs"
    and n: "0 \<le> n" "n \<le> 0x7FFFFFFC"
  shows "fst (tk_cre_mbf imalloc ifree pk s) = Ret (ID_OBJ i) \<and>
    (let cb = mbfcb (snd (tk_cre_mbf imalloc ifree pk s)) i
     in bufsz cb = - (2 ^ 31) \<and> buffer cb = 0 \<and> knl_mbf_free cb n)"
proof -
  have "cmbf_bufsz pk = 0x7FFFFFFD \<or> cmbf_bufsz pk = 0x7FFFFFFE \<or> cmbf_bufsz pk = 0x7FFFFFFF" using sz by linarith
  then have r: "ROUNDSZ (cmbf_bufsz pk) = 0x80000000" by (auto simp: ROUNDSZ_def)
  have z: "sint (ROUNDSZ (cmbf_bufsz pk)) = - (2 ^ 31)" unfolding r by (simp add: sint_uint)
  have e: "tk_cre_mbf imalloc ifree pk s = (Ret (ID_OBJ i), END_CRITICAL_SECTION (snd (cre_mbf pk (- (2 ^ 31)) 0 s)))"
    using sz(1) pk f by (simp add: tk_cre_mbf_def Let_def z CHECK_RSATR_def CHECK_PAR_def split_beta cre_mbf_def)
  have "uint (word_of_int n :: UW) = n" using n by (simp add: uint_word_of_int take_bit_int_eq_self)
  then have "(4 + word_of_int n :: UW) \<le> 0x80000000" using n by uint_arith
  moreover have "(- 2147483648 :: UW) = 0x80000000" by simp
  ultimately have "(4 + word_of_int n :: UW) \<le> - 2147483648" by (simp only:)
  then show ?thesis using f by (simp add: e cre_mbf_def Let_def knl_mbf_free_def HEADERSZ_def)
qed

end
