(* ===== verification/Task_Properties.thy ===== *)
theory Task_Properties
  imports Sample_Objects
begin

text \<open>
  Properties of task management: the invariant of the kernel under the calls
  of task management, the life of a task, and the scheduling of a task while another holds the kernel lock.
\<close>

section \<open>Invariant\<close>

text \<open>
  What the kernel relies on of its memory pool: allocation and release change the pool, which is no
  part of \<open>kstate\<close>, and leave the kernel's own variables alone.
\<close>

definition mem_op_ok :: "('a kstate_scheme \<Rightarrow> 'a kstate_scheme) \<Rightarrow> bool" where
  "mem_op_ok f \<longleftrightarrow> (\<forall>s. kstate.truncate (f s) = kstate.truncate s)"

lemma mem_op_okD:
  assumes "mem_op_ok f" shows "tcb (f s) = tcb s" "que (f s) = que s" "core_inv (f s) = core_inv s"
proof -
  have e: "kstate.truncate (f s) = kstate.truncate s" using assms by (simp add: mem_op_ok_def)
  then show "tcb (f s) = tcb s" "que (f s) = que s" by (simp_all add: kstate.truncate_def)
  show "core_inv (f s) = core_inv s" by (rule core_inv_cong) (use e in \<open>simp_all add: kstate.truncate_def\<close>)
qed

lemma tk_cre_tsk_inv:
  assumes inv: "core_inv s" and al: "\<And>n. mem_op_ok (\<lambda>s. snd (imalloc n s))" and fr: "\<And>a. mem_op_ok (ifree a)"
  shows "core_inv (snd (tk_cre_tsk imalloc ifree pk s))"
proof -
  have c: "core_inv (snd (cre_tsk pk sz st s'))" if "core_inv s'" "\<not> CHECK_PRI (ctsk_itskpri pk) < E_OK" for sz st s'
    using that by (intro cre_tsk_inv) (auto simp: CHECK_PRI_def E_OK_def E_PAR_def split: if_splits)
  have "core_inv (snd (imalloc n s))" for n using inv mem_op_okD(3)[OF al] by simp
  then show ?thesis using inv by (simp add: tk_cre_tsk_def Let_def split_beta c mem_op_okD(3)[OF fr])
qed

lemma tk_del_tsk_inv:
  assumes inv: "core_inv s" and fr: "\<And>a. mem_op_ok (ifree a)"
  shows "core_inv (snd (tk_del_tsk ifree oid s))"
proof (cases "CHECK_TSKID oid s < E_OK \<or> state (tcb s (INDEX_OBJ oid)) \<noteq> TS_DORMANT")
  case False
  let ?t = "INDEX_OBJ oid"
  have t: "?t < NUM_TSKID" using CHECK_TSKID_ok(2) False by blast
  let ?s = "if tskatr (tcb s ?t) AND TA_USERBUF = 0
     then ifree (nat (int (isstack (tcb s ?t)) - sstksz (tcb s ?t))) s else s"
  have "core_inv ?s" "state (tcb ?s ?t) = TS_DORMANT" using inv False mem_op_okD[OF fr] by simp_all
  from del_tsk_inv[OF this(1) t this(2)] have "core_inv (knl_del_tsk ifree ?t s)" by (simp only: knl_del_tsk_def Let_def)
  then show ?thesis using False by (simp add: tk_del_tsk_def Let_def)
qed (use inv in \<open>auto simp: tk_del_tsk_def Let_def\<close>)

text \<open>The task a call names, and the base priority it asks for.\<close>

lemma get_tcb_self_lt:
  assumes "core_inv s" "\<not> CHECK_TSKID_SELF oid s < E_OK" shows "get_tcb_self oid s < NUM_TSKID"
proof (cases "oid = TSK_SELF")
  case True
  then have "\<not> in_indp s" using assms(2) by (auto simp: CHECK_TSKID_SELF_def CHK_OBJID_def TSK_SELF_def E_OK_def E_ID_def split: if_splits)
  then obtain c where "ctxtsk s = Some c" by (auto simp: in_indp_def)
  then show ?thesis using core_invD(5)[OF assms(1)] True by (simp add: get_tcb_self_def)
next
  case False
  then have "CHK_OBJID NUM_TSKID oid" using assms(2) by (auto simp: CHECK_TSKID_SELF_def E_OK_def E_ID_def split: if_splits)
  then show ?thesis using False INDEX_OBJ_less by (simp add: get_tcb_self_def)
qed

definition asked_priority :: "PRI \<Rightarrow> TCB \<Rightarrow> int" where
  "asked_priority tskpri b = (if tskpri = TPRI_INI then int (ipriority b) else int_priority tskpri)"

lemma asked_priority_ok:
  assumes "core_inv s" "t < NUM_TSKID" "\<not> CHECK_PRI_INI tskpri < E_OK"
  shows "0 \<le> asked_priority tskpri (tcb s t)" "nat (asked_priority tskpri (tcb s t)) < NUM_TSKPRI"
  using assms(3) CHK_PRI_lt[of tskpri] core_invD(3)[OF assms(1)] assms(2)
  by (auto simp: asked_priority_def CHECK_PRI_INI_def tcb_ok_def Let_def E_OK_def E_PAR_def split: if_splits)

text \<open>
  Creating, deleting and starting a task and rotating a ready queue keep the kernel's invariant, on
  every path including the exhaustion of control blocks or memory, for a memory pool that leaves the
  kernel's variables alone.
\<close>

lemma task_calls_keep_invariant:
  assumes inv: "core_inv s" and al: "\<And>n. mem_op_ok (\<lambda>s. snd (imalloc n s))" and fr: "\<And>a. mem_op_ok (ifree a)"
  shows "core_inv (snd (tk_cre_tsk imalloc ifree pk s)) \<and> core_inv (snd (tk_del_tsk ifree oid s)) \<and>
    core_inv (snd (tk_sta_tsk oid stacd s)) \<and> core_inv (snd (tk_rot_rdq p s))"
  using tk_cre_tsk_inv[OF inv al fr] tk_del_tsk_inv[OF inv fr] tk_sta_tsk_inv[OF inv] tk_rot_rdq_inv[OF inv] by (intro conjI)

section \<open>Life of a task\<close>

text \<open>
  A task created on a buffer of the caller with a valid packet gets the first free control block and
  is dormant; starting it makes it ready at its initial priority with the start code and its extended
  information as arguments of its entry; starting it a second time is refused with \<^verbatim>\<open>E_OBJ\<close>.
\<close>

lemma task_create_and_start:
  fixes s :: "'a kstate_scheme" and imalloc :: "UW \<Rightarrow> 'a kstate_scheme \<Rightarrow> addr \<times> 'a kstate_scheme"
    and ifree :: "addr \<Rightarrow> 'a kstate_scheme \<Rightarrow> 'a kstate_scheme" and stacd :: int
  assumes inv: "core_inv s" and f: "que s QFreeTcb = t # ts"
    and pk: "ctsk_tskatr pk AND NOT (TA_HLNG OR TA_RNG3 OR TA_USERBUF) = 0" "ctsk_tskatr pk AND TA_USERBUF \<noteq> 0"
      "MIN_SYS_STACK_SIZE \<le> ctsk_stksz pk" "CHK_PRI (ctsk_itskpri pk)"
  defines "s1 \<equiv> snd (tk_cre_tsk imalloc ifree pk s)"
  defines "s2 \<equiv> snd (tk_sta_tsk (ID_OBJ t) stacd s1)"
  shows "fst (tk_cre_tsk imalloc ifree pk s) = Ret (ID_OBJ t) \<and> state (tcb s1 t) = TS_DORMANT \<and>
    fst (tk_sta_tsk (ID_OBJ t) stacd s1) = Ret E_OK \<and> state (tcb s2 t) = TS_READY \<and>
    int (priority (tcb s2 t)) = int_priority (ctsk_itskpri pk) \<and>
    t \<in> set (que s2 (QRdy (priority (tcb s2 t)))) \<and>
    ctx_mepc (tskctxb (tcb s2 t)) = ctsk_task pk \<and> ctx_a0 (tskctxb (tcb s2 t)) = stacd \<and>
    ctx_a1 (tskctxb (tcb s2 t)) = ctsk_exinf pk \<and>
    fst (tk_sta_tsk (ID_OBJ t) stacd s2) = Ret E_OBJ"
proof -
  have tl: "t < NUM_TSKID" by (rule free_head(1)[OF inv f])
  have ti: "tskid (tcb s t) = ID_OBJ t" using core_invD(3)[OF inv] tl by (simp add: tcb_ok_def Let_def)
  let ?c = "snd (cre_tsk pk (ctsk_stksz pk) (ctsk_bufptr pk) s)"
  have e0: "fst (cre_tsk pk (ctsk_stksz pk) (ctsk_bufptr pk) s) = ID_OBJ t"
    using ti by (simp add: cre_tsk_def que_remove_next_def f Let_def knl_make_dormant_def knl_setup_context_def)
  have z: "0 \<le> ctsk_stksz pk" using pk(3) by (simp add: MIN_SYS_STACK_SIZE_def)
  have e: "tk_cre_tsk imalloc ifree pk s = (Ret (ID_OBJ t), END_CRITICAL_SECTION ?c)"
    using pk z by (simp add: tk_cre_tsk_def Let_def split_beta e0 CHECK_RSATR_def CHECK_PAR_def CHECK_PRI_def)
  have b: "state (tcb s1 t) = TS_DORMANT" "priority (tcb s1 t) = nat (int_priority (ctsk_itskpri pk))"
    "ctx_mepc (tskctxb (tcb s1 t)) = ctsk_task pk" "exinf (tcb s1 t) = ctsk_exinf pk"
    by (simp_all add: s1_def e cre_tsk_def que_remove_next_def f Let_def knl_make_dormant_def knl_setup_context_def)
  have v: "CHK_OBJID NUM_TSKID (ID_OBJ t)" by (rule CHK_OBJID_ID_OBJ[OF tl])
  then have ok: "\<not> CHECK_TSKID (ID_OBJ t) s' < E_OK" for s' :: "'a kstate_scheme"
    by (auto simp: CHECK_TSKID_def CHK_OBJID_def TSK_SELF_def)
  have st: "tk_sta_tsk (ID_OBJ t) stacd s1 = (Ret E_OK, END_CRITICAL_SECTION (knl_make_ready t (upd_tcb t (knl_setup_stacd stacd) s1)))"
    using ok[of s1] b(1) by (simp add: tk_sta_tsk_def Let_def)
  have r: "tcb s2 t = (knl_setup_stacd stacd (tcb s1 t))\<lparr>state := TS_READY\<rparr>"
    by (simp add: s2_def st)
  have q: "t \<in> set (que s2 (QRdy (priority (tcb s2 t))))"
    by (simp add: r) (simp add: s2_def st knl_setup_stacd_def)
  have "fst (tk_sta_tsk (ID_OBJ t) stacd s2) = Ret E_OBJ"
    using ok[of s2] by (simp add: tk_sta_tsk_def Let_def r not_alive_err_def)
  then show ?thesis using b e st q CHK_PRI_lt(2)[OF pk(4)] by (simp add: r knl_setup_stacd_def)
qed

section \<open>Kernel lock\<close>

text \<open>
  While a task holds the kernel lock it is the head of the ready queue, whatever its priority. Yet a
  task of a higher priority than all ready ones that becomes ready is scheduled in its place.
\<close>

lemma kernel_lock_is_overtaken:
  assumes "klocktsk s = Some k" "k \<noteq> t" "\<not> klocked (tcb s t)" "priority (tcb s t) < top_priority s"
  shows "knl_ready_queue_top (knl_make_ready t s) = Some k \<and> schedtsk (knl_make_ready t s) = Some t"
  using assms by (simp add: knl_make_ready_def knl_ready_queue_insert_def Let_def knl_ready_queue_top_def que_insert_def upd_tcb_def)

end
