(* ===== verification/Mutex_Properties.thy ===== *)
theory Mutex_Properties
  imports Task_Properties
begin

text \<open>
  Properties of the mutex calls and of the calls on tasks that reach into the mutexes: change of
  priority and forced release. The invariant \<open>mtx_inv\<close> says that every task runs at the highest of its
  base priority, the ceilings of the mutexes it holds and the priorities of the tasks that wait for its
  inheritance mutexes.
\<close>

section \<open>Lock and unlock\<close>

text \<open>
  C4. Unlocking a mutex returns, hands the mutex to the first waiting task, if any, which leaves its
  wait and the queue of the mutex, and puts every task back to the priority it is due: what the caller
  had inherited through this mutex is taken back, and the new owner gets what it inherits from the
  remaining waiting tasks.
\<close>

theorem mutex_unlock_hands_over:
  assumes "core_inv s" "mtx_inv s" "ctxtsk s = Some c" "state (tcb s c) = TS_READY"
    and "CHK_OBJID NUM_MTXID oid" "\<not> in_indp s" "mtxid (mtxcb s (INDEX_OBJ oid)) \<noteq> 0"
      "mtxtsk (mtxcb s (INDEX_OBJ oid)) = Some c"
  shows "\<exists>s'. tk_unl_mtx oid s = Some (Ret E_OK, s') \<and> core_inv s' \<and> mtx_inv s' \<and>
    mtxtsk (mtxcb s' (INDEX_OBJ oid)) = (case que s (QMtx (INDEX_OBJ oid)) of [] \<Rightarrow> None | t # _ \<Rightarrow> Some t) \<and>
    (\<forall>t ts. que s (QMtx (INDEX_OBJ oid)) = t # ts \<longrightarrow> \<not> in_wait (state (tcb s' t)) \<and> t \<notin> set (que s' (QMtx (INDEX_OBJ oid))))"
  by (rule unlock_restores[OF assms])

theorem mutex_unlock_hands_over_witness:
  "\<exists>s'. tk_unl_mtx 1 (sample_mtx ()) = Some (Ret E_OK, s') \<and> mtx_inv s' \<and> mtxtsk (mtxcb s' 0) = Some 6"
proof -
  have i: "INDEX_OBJ 1 = 0" by (simp add: INDEX_OBJ_def)
  have st: "state (tcb (sample_mtx ()) 0) = TS_READY" by (simp add: sample_defs)
  have m: "CHK_OBJID NUM_MTXID 1" "mtxid (mtxcb (sample_mtx ()) 0) \<noteq> 0" "mtxtsk (mtxcb (sample_mtx ()) 0) = Some 0"
    by (simp_all add: CHK_OBJID_def NUM_MTXID_def sample_mtxcb_def)
  have n: "\<not> in_indp (sample_mtx ())" using sample_mtx_fields(6)[of "()"] by (auto simp: in_ddsp_def)
  from mutex_unlock_hands_over[of "sample_mtx ()" 0 1] st m n show ?thesis by (auto simp: i)
qed

text \<open>
  C5. Locking a mutex returns whenever the chain of owners behind it is finite and does not lead back to
  the caller, that is, unless the tasks are deadlocked; every task then runs at the priority it is
  due. The call is refused with \<^verbatim>\<open>E_ILUSE\<close>, and changes nothing, exactly when the caller
  holds the mutex already or its base priority is above the ceiling of the mutex. Else the caller owns
  the mutex if it was free; if it was not, a polling call fails with \<^verbatim>\<open>E_TMOUT\<close>, and any other
  leaves the caller waiting in the queue of the mutex, with the owner of an inheritance mutex at the
  priority of the caller or above.
\<close>

theorem mutex_lock_restores_priorities:
  assumes inv: "core_inv s" "mtx_inv s" "run_ok s" and c: "ctxtsk s = Some c"
    and i: "CHK_OBJID NUM_MTXID oid" "\<not> CHECK_TMOUT tmout < E_OK" "\<not> CHECK_DISPATCH s < E_OK"
    and ch: "\<And>mt. mtxtsk (mtxcb s (INDEX_OBJ oid)) = Some mt \<Longrightarrow> mt \<noteq> c \<Longrightarrow> chain_fin (waits_on s) {c} mt"
  defines "cb \<equiv> mtxcb s (INDEX_OBJ oid)"
  shows "\<exists>r s'. tk_loc_mtx oid tmout s = Some (r, s') \<and> core_inv s' \<and> mtx_inv s' \<and>
    (if mtxid cb = 0 then r = Ret E_NOEXS \<and> s' = END_CRITICAL_SECTION s
     else if mtxtsk cb = Some c \<or> mtx_kind cb = TA_CEILING \<and> bpriority (tcb s c) < ceilpri cb
       then r = Ret E_ILUSE \<and> s' = END_CRITICAL_SECTION s
     else
       (case mtxtsk cb of
          None \<Rightarrow> r = Ret E_OK \<and> mtxtsk (mtxcb s' (INDEX_OBJ oid)) = Some c \<and> INDEX_OBJ oid \<in> set (mtxlist (tcb s' c))
        | Some mt \<Rightarrow>
            if tmout = TMO_POL then r = Ret E_TMOUT \<and> s' = END_CRITICAL_SECTION s
            else r = Blocked \<and> state (tcb s' c) = TS_WAIT \<and> c \<in> set (que s' (QMtx (INDEX_OBJ oid))) \<and>
              mtxtsk (mtxcb s' (INDEX_OBJ oid)) = Some mt \<and>
              (mtx_kind cb = TA_INHERIT \<longrightarrow> priority (tcb s' mt) \<le> priority (tcb s' c))))"
  using lock_restores[OF inv c i ch] unfolding lock_outcome_def Let_def cb_def by blast

text \<open>
  A state in which the running task 0, of priority 4, asks for the inheritance mutex that task 1, of
  priority 9, holds.
\<close>

definition sample_held :: "unit mtxstate_scheme" where
  "sample_held = upd_mtxcb 1 (mtxtsk_update (\<lambda>_. Some 1)) (upd_tcb 1 (mtxlist_update (\<lambda>_. [1])) (sample_mtx ()))"

lemma sample_held_fields:
  "mtxcb sample_held = sample_mtxcb(1 := (sample_mtxcb 1)\<lparr>mtxtsk := Some 1\<rparr>)" "ctxtsk sample_held = Some 0"
  "tcb sample_held = sample_tcb(1 := (sample_tcb 1)\<lparr>mtxlist := [1]\<rparr>)" "que sample_held = sample_que"
  "core_inv sample_held" "run_ok sample_held" "\<not> in_ddsp sample_held" "free_mtxcb sample_held = [2..<NUM_MTXID]"
proof -
  show "core_inv sample_held" unfolding sample_held_def
    using core_inv_set_mtxlist[OF sample_mtx_fields(4)[of "()"], of 1 "\<lambda>_. [1]"] by simp
  show "run_ok sample_held" by (simp add: sample_held_def run_ok_def) (simp add: sample_defs)
  show "\<not> in_ddsp sample_held"
    using sample_mtx_fields(6)[of "()"] by (simp add: sample_held_def in_ddsp_def in_indp_def knl_is_dispatch_masked_def upd_mtxcb_def upd_tcb_def)
qed (simp_all add: sample_held_def)

lemma sample_held_inv: "mtx_inv sample_held"
proof -
  note F = sample_held_fields
  have t: "cb_table_inv NUM_MTXID (\<lambda>i. mtxid (mtxcb sample_held i)) [2..<NUM_MTXID]"
    by (auto simp: cb_table_inv_def sample_mtxcb_def F)
  have l0: "mtxlist (sample_tcb u) = (if u = 0 then [0] else [])" for u by (simp add: sample_defs)
  have l: "mtxlist (tcb sample_held u) = (if u = 0 then [0] else if u = 1 then [1] else [])" for u by (simp add: F) (simp add: sample_defs)
  have k: "mtx_kind (sample_mtxcb 0) = TA_TPRI" by (simp add: mtx_kind_def sample_mtxcb_def consts_defs)
  have ml: "mtx_limit sample_held 0 = None" "mtx_limit sample_held 1 = None"
    by (simp_all add: mtx_limit_def mtx_waited_def F k consts_defs) (simp_all add: mtx_kind_def sample_mtxcb_def consts_defs)
  have w: "wspec (sample_tcb 6) = mtx_wspec (sample_mtxcb 0)" by (simp add: mtx_wspec_def k) (simp add: sample_defs consts_defs)
  have st: "state (sample_tcb 0) \<noteq> TS_NONEXIST" "state (sample_tcb 1) \<noteq> TS_NONEXIST" by (simp_all add: sample_defs)
  then have "mtx_own None sample_held"
    using w by (simp add: mtx_own_def l F) (simp add: l0 sample_mtxcb_def NUM_MTXID_def NUM_TSKID_def NUM_TSKPRI_def)
  moreover have "mtx_sorted sample_held" by (simp add: mtx_sorted_def tpri_sorted_def F)
  moreover have "pri_ok (\<lambda>_. {}) sample_held u" for u
    by (simp add: pri_ok_def due_def l ml ml(2)[simplified]) (simp add: F sample_defs)
  ultimately show ?thesis using t by (simp add: mtx_inv_def F)
qed

theorem mutex_lock_restores_priorities_witness:
  "\<exists>s'. tk_loc_mtx 2 TMO_FEVR sample_held = Some (Blocked, s') \<and> mtx_inv s' \<and> state (tcb s' 0) = TS_WAIT \<and>
     priority (tcb sample_held 1) = 9 \<and> priority (tcb s' 1) \<le> priority (tcb s' 0)"
proof -
  note F = sample_held_fields
  have i: "INDEX_OBJ 2 = 1" by (simp add: INDEX_OBJ_def)
  have c: "CHK_OBJID NUM_MTXID 2" "\<not> CHECK_TMOUT TMO_FEVR < E_OK" "\<not> CHECK_DISPATCH sample_held < E_OK"
    by (simp_all add: CHK_OBJID_def NUM_MTXID_def CHECK_TMOUT_def CHECK_DISPATCH_def F)
  have ch: "chain_fin (waits_on sample_held) {0} mt" if "mtxtsk (mtxcb sample_held (INDEX_OBJ 2)) = Some mt" "mt \<noteq> 0" for mt
    using that by (intro chain_fin_end) (simp_all add: i F waits_on_def sample_defs)
  have m: "mtxid (mtxcb sample_held 1) \<noteq> 0" "mtxtsk (mtxcb sample_held 1) = Some 1" "mtx_kind (mtxcb sample_held 1) = TA_INHERIT"
    by (simp_all add: F(1) sample_mtxcb_def mtx_kind_def consts_defs)
  have f: "TMO_FEVR \<noteq> TMO_POL" by (simp add: consts_defs)
  have p: "priority (tcb sample_held 1) = 9" by (simp add: F sample_defs)
  have "\<exists>r s'. tk_loc_mtx 2 TMO_FEVR sample_held = Some (r, s') \<and> core_inv s' \<and> mtx_inv s' \<and>
      r = Blocked \<and> state (tcb s' 0) = TS_WAIT \<and> 0 \<in> set (que s' (QMtx 1)) \<and> mtxtsk (mtxcb s' 1) = Some 1 \<and>
      priority (tcb s' 1) \<le> priority (tcb s' 0)"
    using mutex_lock_restores_priorities[OF F(5) sample_held_inv F(6,2) c ch] unfolding i m(2,3) using m(1) f kinds_differ by simp
  then show ?thesis using p by blast
qed

section \<open>Change of priority\<close>

text \<open>The mutexes whose ceiling a new base priority of a task must respect: those it holds and the one it waits for.\<close>

definition concerns :: "'a mtxstate_scheme \<Rightarrow> nat \<Rightarrow> nat \<Rightarrow> bool" where
  "concerns s t m \<longleftrightarrow> m \<in> set (mtxlist (tcb s t)) \<or> t \<in> set (que s (QMtx m))"

lemma waits_for_mutex:
  assumes "core_inv s" "t < NUM_TSKID"
  shows "t \<in> set (que s (QMtx m)) \<longleftrightarrow> in_wait (state (tcb s t)) \<and> tskwait (wspec (tcb s t)) AND 0x80 \<noteq> 0 \<and> m = INDEX_OBJ (wid (tcb s t))"
proof -
  have "wait_home w i = Some (QMtx m) \<longleftrightarrow> tskwait w AND 0x80 \<noteq> 0 \<and> m = INDEX_OBJ i" for w i by (cases w) auto
  then show ?thesis using task_inv_mem[OF core_invD(1)[OF assms(1)], of t "QMtx m"] assms(2)
    by (cases "state (tcb s t)") (auto simp: home_def)
qed

lemma chg_pri_mutex_refuses:
  assumes inv: "core_inv s" "t < NUM_TSKID" and p: "0 \<le> p"
  shows "knl_chg_pri_mutex t p s < E_OK \<longleftrightarrow> (\<exists>m. concerns s t m \<and> mtx_kind (mtxcb s m) = TA_CEILING \<and> p < int (ceilpri (mtxcb s m)))"
    "knl_chg_pri_mutex t p s < E_OK \<Longrightarrow> knl_chg_pri_mutex t p s = E_ILUSE"
proof -
  let ?w = "in_wait (state (tcb s t)) \<and> tskwait (wspec (tcb s t)) AND 0x80 \<noteq> 0" and ?cb = "mtxcb s (INDEX_OBJ (wid (tcb s t)))"
  let ?C = "{int (ceilpri (mtxcb s m)) | m. m \<in> set (mtxlist (tcb s t)) \<and> mtx_kind (mtxcb s m) = TA_CEILING}"
  let ?l = "if ?w \<and> mtx_kind ?cb = TA_CEILING \<and> int (ceilpri ?cb) > 0 then int (ceilpri ?cb) else 0"
  have z: "int_priority MIN_TSKPRI = 0" by (simp add: int_priority_def)
  let ?h = "fst (chg_pri_mutex_loop s (mtxlist (tcb s t)) p ?l p)"
  have e: "knl_chg_pri_mutex t p s = (if p < Max (insert ?l ?C) then E_ILUSE else ?h)"
    by (simp add: knl_chg_pri_mutex_def Let_def z chg_pri_mutex_loop_low conj_assoc)
  have h: "0 \<le> ?h" unfolding chg_pri_mutex_loop_hi[OF order_refl] using p by simp
  have f: "finite (insert ?l ?C)" by simp
  have "p < Max (insert ?l ?C) \<longleftrightarrow> (\<exists>x\<in>insert ?l ?C. p < x)" using Max_gr_iff[OF f] by blast
  also have "\<dots> \<longleftrightarrow> (\<exists>m. concerns s t m \<and> mtx_kind (mtxcb s m) = TA_CEILING \<and> p < int (ceilpri (mtxcb s m)))"
    using p waits_for_mutex[OF inv] by (auto simp: concerns_def)
  finally show "knl_chg_pri_mutex t p s < E_OK \<longleftrightarrow> (\<exists>m. concerns s t m \<and> mtx_kind (mtxcb s m) = TA_CEILING \<and> p < int (ceilpri (mtxcb s m)))"
    using e h by (auto simp: E_OK_def E_ILUSE_def)
  show "knl_chg_pri_mutex t p s < E_OK \<Longrightarrow> knl_chg_pri_mutex t p s = E_ILUSE" using e h by (auto simp: E_OK_def split: if_splits)
qed

text \<open>
  C32. Changing the base priority of a task, named by its identifier or as the caller itself, to a
  given priority or to its initial one, is refused with \<^verbatim>\<open>E_ILUSE\<close>, and then changes nothing,
  exactly when the new priority is above the ceiling of a ceiling mutex that the task holds or waits
  for. Otherwise it sets the base priority and gives the task, and along the chain of owners every
  other task, the priority it is due. It returns whenever the chain is finite.
\<close>

theorem change_priority_keeps_due:
  assumes inv: "core_inv s" "mtx_inv s" and id: "\<not> CHECK_TSKID_SELF oid s < E_OK" and pr: "\<not> CHECK_PRI_INI tskpri < E_OK"
    and t: "t = (if oid = TSK_SELF then the (ctxtsk s) else INDEX_OBJ oid)" "state (tcb s t) \<noteq> TS_NONEXIST"
    and p: "p = (if tskpri = TPRI_INI then int (ipriority (tcb s t)) else int_priority tskpri)"
    and ch: "chain_fin (waits_on s) {} t"
  shows "\<exists>r s'. tk_chg_pri oid tskpri s = Some (Ret r, s') \<and> core_inv s' \<and> mtx_inv s' \<and>
    (if \<exists>m. (m \<in> set (mtxlist (tcb s t)) \<or> t \<in> set (que s (QMtx m))) \<and> mtx_kind (mtxcb s m) = TA_CEILING \<and> p < int (ceilpri (mtxcb s m))
     then r = E_ILUSE \<and> s' = END_CRITICAL_SECTION s
     else r = E_OK \<and> int (bpriority (tcb s' t)) = p)"
proof -
  have e: "\<not> first_err [CHECK_TSKID_SELF oid s, CHECK_PRI_INI tskpri] < E_OK" using id pr by simp
  have g: "get_tcb_self oid s = t" by (simp add: get_tcb_self_def t(1))
  have tl: "t < NUM_TSKID" using get_tcb_self_lt[OF inv(1) id] by (simp add: g)
  have P: "0 \<le> p" "nat p < NUM_TSKPRI" using asked_priority_ok[OF inv(1) tl pr] by (simp_all add: asked_priority_def p)
  note R = chg_pri_mutex_refuses[OF inv(1) tl P(1), unfolded concerns_def]
  note E = tk_chg_pri_def[of oid tskpri s, unfolded Let_def g p[symmetric] if_not_P[OF e] if_not_P[OF t(2)]]
  show ?thesis
  proof (cases "knl_chg_pri_mutex t p s < E_OK")
    case True
    then show ?thesis using E inv R by simp
  next
    case False
    from change_base_restores[OF inv tl P False ch] obtain s' where
      s': "knl_change_task_priority t (nat (knl_chg_pri_mutex t p s)) (upd_tcb t (bpriority_update (\<lambda>_. nat p)) s) = Some s'"
      "core_inv s'" "mtx_inv s'" "bpriority (tcb s' t) = nat p" by blast
    then have "tk_chg_pri oid tskpri s = Some (Ret E_OK, END_CRITICAL_SECTION s')" using E False by simp
    then show ?thesis using s' False P(1) R(1) by auto
  qed
qed

theorem change_priority_keeps_due_witness:
  "\<exists>s'. tk_chg_pri TSK_SELF TPRI_INI (sample_mtx ()) = Some (Ret E_OK, s') \<and> mtx_inv s' \<and> bpriority (tcb s' 0) = 4"
proof -
  let ?s = "sample_mtx ()"
  have k: "mtx_kind (sample_mtxcb 0) \<noteq> TA_CEILING" by (simp add: mtx_kind_def sample_mtxcb_def consts_defs)
  have n: "\<not> in_indp ?s" using sample_mtx_fields(6)[of "()"] by (auto simp: in_ddsp_def)
  have "chain_fin (waits_on ?s) {} 0" by (rule chain_fin_end) (simp_all add: waits_on_def sample_defs)
  moreover have "mtxlist (sample_tcb 0) = [0]" "ipriority (sample_tcb 0) = 4" "state (sample_tcb 0) \<noteq> TS_NONEXIST" by (simp_all add: sample_defs)
  ultimately show ?thesis
    using change_priority_keeps_due[of ?s TSK_SELF TPRI_INI 0 4] n k
    by (auto simp: CHECK_TSKID_SELF_def CHECK_PRI_INI_def) 
qed

section \<open>Forced release\<close>

lemma CHECK_TSKID_valid: "CHK_OBJID NUM_TSKID oid \<Longrightarrow> \<not> CHECK_TSKID oid s < E_OK"
  by (auto simp: CHECK_TSKID_def CHK_OBJID_def TSK_SELF_def)

lemma tk_rel_wai_ok:
  assumes "CHK_OBJID NUM_TSKID oid" "in_wait (state (tcb s (INDEX_OBJ oid)))"
  shows "tk_rel_wai oid s = map_option (\<lambda>s1. (Ret E_OK, END_CRITICAL_SECTION s1))
    (knl_wait_release_ng rel_wai_hook (INDEX_OBJ oid) E_RLWAI s)"
  using assms by (simp add: tk_rel_wai_def Let_def CHECK_TSKID_valid)

text \<open>
  A task that waits for a semaphore, event flag, mailbox, message buffer or a plain mutex, or that
  sleeps, can be released by another task: its call returns \<^verbatim>\<open>E_RLWAI\<close>, it is ready again or stays
  suspended, and the kernel's invariant holds. A task that does not wait is refused.
\<close>

lemma forced_release:
  assumes inv: "core_inv s" and id: "CHK_OBJID NUM_TSKID oid" and t: "t = INDEX_OBJ oid"
    and ws: "wspec (tcb s t) \<noteq> knl_wspec_mtx_inherit"
  shows "if in_wait (state (tcb s t))
    then \<exists>s'. tk_rel_wai oid s = Some (Ret E_OK, s') \<and> core_inv s' \<and>
           state (tcb s' t) = released (tcb s t) \<and> wercd (tcb s' t) = Some E_RLWAI
    else tk_rel_wai oid s = Some (Ret (not_alive_err (state (tcb s t))), END_CRITICAL_SECTION s)"
proof (cases "in_wait (state (tcb s t))")
  case True
  have tl: "t < NUM_TSKID" using INDEX_OBJ_less[OF id] t by simp
  have "rel_wai_hook t (knl_wait_release t s) = Some (obj_rel_wai t (knl_wait_release t s))"
    using ws by (simp add: rel_wai_hook_def)
  then have e: "knl_wait_release_ng rel_wai_hook t E_RLWAI s = knl_wait_release_ng (\<lambda>t s. Some (obj_rel_wai t s)) t E_RLWAI s"
    by (simp add: knl_wait_release_ng_def)
  from obj_hook.release_ng_result[OF inv tl True, of E_RLWAI] show ?thesis
    using True tk_rel_wai_ok[OF id, of s] by (auto simp: e t[symmetric])
next
  case False
  then show ?thesis using id t by (simp add: tk_rel_wai_def Let_def CHECK_TSKID_valid)
qed

text \<open>A task that leaves its queue can only shorten the chains.\<close>

lemma chain_fin_mono:
  assumes "chain_fin nx W t" "\<And>u v. nx' u = Some v \<Longrightarrow> nx u = Some v" shows "chain_fin nx' W t"
  using assms(1)
proof (induction rule: chain_fin.induct)
  case (chain_finI t)
  show ?case by (rule chain_fin.chain_finI[OF chain_finI.hyps(1)]) (rule chain_finI.IH[OF assms(2)])
qed

lemma left_queue_waits_on:
  assumes "left_queue t i s u" "waits_on u v = Some w" shows "waits_on s v = Some w"
  using assms(2) left_queueD[OF assms(1)] by (cases "v = t") (auto simp: waits_on_def split: if_splits)

text \<open>
  C31. Releasing a task from a mutex, by force or by a timeout, takes back the priority that the owner of
  an inheritance mutex had from it, and so on along the chain of owners, which has to be finite:
  afterwards every task runs at the priority it is due, and the released task waits no longer and is not
  in the queue of the mutex.
\<close>

theorem mutex_release_takes_back_priority:
  assumes inv: "core_inv s" "mtx_inv s" and t: "t \<in> set (que s (QMtx i))" "t = INDEX_OBJ oid" "CHK_OBJID NUM_TSKID oid"
    and ch: "\<And>mt. mtxtsk (mtxcb s i) = Some mt \<Longrightarrow> chain_fin (waits_on s) {} mt"
  shows "(\<exists>s'. tk_rel_wai oid s = Some (Ret E_OK, s') \<and> core_inv s' \<and> mtx_inv s' \<and>
         \<not> in_wait (state (tcb s' t)) \<and> t \<notin> set (que s' (QMtx i))) \<and>
    (TM_TSK t \<notin> set (timer_queue s) \<longrightarrow>
       (\<exists>s'. knl_wait_release_tmout rel_wai_hook t s = Some s' \<and> core_inv s' \<and> mtx_inv s' \<and>
          \<not> in_wait (state (tcb s' t)) \<and> t \<notin> set (que s' (QMtx i))))"
proof -
  have R: "\<exists>s'. rel_wai_hook t u = Some s' \<and> core_inv s' \<and> mtx_inv s' \<and> \<not> in_wait (state (tcb s' t)) \<and> t \<notin> set (que s' (QMtx i))"
    if l: "left_queue t i s u" for u
  proof -
    obtain s' where s': "rel_wai_hook t u = Some s'" "core_inv s'" "mtx_inv s'" "state_rel (state (tcb u t)) (state (tcb s' t))"
      using mutex_wait_released[OF l inv t(1) chain_fin_mono[OF ch left_queue_waits_on[OF l]]] by blast
    have "\<not> in_wait (state (tcb s' t))" using s'(4) left_queueD(11)[OF l] by (auto simp: state_rel_def)
    then show ?thesis using s'(1-3) core_inv_in_wait[OF s'(2)] by blast
  qed
  have w: "in_wait (state (tcb s t))" by (rule core_inv_in_wait[OF inv(1) t(1)])
  from R[OF left_queue_release(1)[OF inv(1) t(1)]] obtain s' where
    s': "rel_wai_hook t (knl_wait_release t s) = Some s'" "core_inv s'" "mtx_inv s'" "\<not> in_wait (state (tcb s' t))"
      "t \<notin> set (que s' (QMtx i))" by blast
  then have "tk_rel_wai oid s = Some (Ret E_OK, END_CRITICAL_SECTION (set_wercd t E_RLWAI s'))"
    using tk_rel_wai_ok[OF t(3), of s] w by (simp add: t(2)[symmetric] knl_wait_release_ng_def)
  moreover have "\<exists>s'. knl_wait_release_tmout rel_wai_hook t s = Some s' \<and> core_inv s' \<and> mtx_inv s' \<and>
      \<not> in_wait (state (tcb s' t)) \<and> t \<notin> set (que s' (QMtx i))"
    if "TM_TSK t \<notin> set (timer_queue s)"
    using R[OF left_queue_release(2)[OF inv(1) t(1) that]] by (simp add: knl_wait_release_tmout_def)
  ultimately show ?thesis using s'(2-5) by simp
qed

theorem mutex_release_takes_back_priority_witness:
  "\<exists>s'. tk_rel_wai 7 (sample_mtx ()) = Some (Ret E_OK, s') \<and> core_inv s' \<and> mtx_inv s'"
proof -
  have c: "chain_fin (waits_on (sample_mtx ())) {} 0"
    by (rule chain_fin_end) (simp_all add: waits_on_def sample_defs)
  have ch: "chain_fin (waits_on (sample_mtx ())) {} mt" if "mtxtsk (mtxcb (sample_mtx ()) 0) = Some mt" for mt
    using c that by (simp add: sample_mtxcb_def)
  have t: "6 \<in> set (que (sample_mtx ()) (QMtx 0))" "6 = INDEX_OBJ 7" "CHK_OBJID NUM_TSKID 7"
    by (simp_all add: INDEX_OBJ_def CHK_OBJID_def NUM_TSKID_def)
  show ?thesis using mutex_release_takes_back_priority[OF sample_mtx_fields(4) sample_mtx_inv t ch] by blast
qed

end
