(* ===== verification/Tick.thy ===== *)
theory Tick
  imports Sample_Objects
begin

text \<open>
  The system timer interrupt \<^verbatim>\<open>knl_timer_handler\<close> of \<^verbatim>\<open>timer.c\<close> with its three kinds of
  callback: the timeout of a waiting task, a cyclic handler and an alarm handler. Its loop runs until
  the first event of the queue lies in the future. Whether it ends depends on what the callbacks put
  back into the queue; it is shown to end for handlers that start no timers.
\<close>

section \<open>The tick\<close>

definition timer_callback :: "'a handler \<Rightarrow> TMEB \<Rightarrow> 'a timstate_scheme \<Rightarrow> 'a timstate_scheme option" where
  "timer_callback hdr event s =
     (case event of
        TM_TSK t \<Rightarrow> knl_wait_release_tmout rel_wai_hook t s
      | TM_CYC i \<Rightarrow> Some (knl_call_cychdr hdr i s)
      | TM_ALM i \<Rightarrow> Some (knl_call_almhdr hdr i s))"

definition charge_time :: "'a kstate_scheme \<Rightarrow> 'a kstate_scheme" where
  "charge_time s =
     (case ctxtsk s of
        None \<Rightarrow> s
      | Some c \<Rightarrow>
          upd_tcb c (\<lambda>b. if sysmode b > 0 then b\<lparr>stime := stime b + of_nat TIMER_PERIOD\<rparr>
                         else b\<lparr>utime := utime b + of_nat TIMER_PERIOD\<rparr>) s)"

definition knl_timer_handler :: "'a handler \<Rightarrow> 'a timstate_scheme \<Rightarrow> 'a timstate_scheme option" where
  "knl_timer_handler hdr s =
     (let s1 = s\<lparr>current_time := current_time s + of_nat TIMER_PERIOD\<rparr>;
          cur = lltoul (current_time s1)
      in map_option END_CRITICAL_SECTION (timer_loop (timer_callback hdr) cur (charge_time s1)))"

section \<open>When the loop ends\<close>

definition due_events :: "ABSTIM \<Rightarrow> 'a kstate_scheme \<Rightarrow> TMEB set" where
  "due_events cur s = {e \<in> set (timer_queue s). knl_abstim_reached cur (tmeb_time s e)}"

definition caught_up :: "ABSTIM \<Rightarrow> 'a kstate_scheme \<Rightarrow> bool" where
  "caught_up cur s \<longleftrightarrow> (case timer_queue s of [] \<Rightarrow> True | e # _ \<Rightarrow> \<not> knl_abstim_reached cur (tmeb_time s e))"

text \<open>Each callback removes its event from those that are due and adds none.\<close>

lemma timer_loop_ends:
  assumes step: "\<And>s e rest. I s \<Longrightarrow> timer_queue s = e # rest \<Longrightarrow> knl_abstim_reached cur (tmeb_time s e) \<Longrightarrow>
    \<exists>s'. cb e (s\<lparr>timer_queue := rest\<rparr>) = Some s' \<and> I s' \<and> due_events cur s' \<subseteq> due_events cur s - {e}"
  shows "I s \<Longrightarrow> \<exists>s'. timer_loop cb cur s = Some s' \<and> I s' \<and> caught_up cur s'"
proof (induction "card (due_events cur s)" arbitrary: s rule: less_induct)
  case less
  show ?case
  proof (cases "timer_queue s")
    case Nil
    then show ?thesis using less.prems by (subst timer_loop.simps) (simp add: caught_up_def)
  next
    case (Cons e rest)
    show ?thesis
    proof (cases "knl_abstim_reached cur (tmeb_time s e)")
      case False
      then show ?thesis using less.prems Cons by (subst timer_loop.simps) (simp add: caught_up_def)
    next
      case True
      from step[OF less.prems Cons True] obtain s1 where
        s1: "cb e (s\<lparr>timer_queue := rest\<rparr>) = Some s1" "I s1" "due_events cur s1 \<subseteq> due_events cur s - {e}" by blast
      have "e \<in> due_events cur s" "finite (due_events cur s)" using Cons True by (simp_all add: due_events_def)
      then have "card (due_events cur s1) < card (due_events cur s)"
        using s1(3) by (intro psubset_card_mono) auto
      from less.hyps[OF this s1(2)] s1(1) Cons True show ?thesis by (subst timer_loop.simps) simp
    qed
  qed
qed

section \<open>What the callbacks do to the timers\<close>

text \<open>At most cancelled timers; the clock and the expiry times stay.\<close>

definition timers_kept :: "'a kstate_scheme \<Rightarrow> 'a kstate_scheme \<Rightarrow> bool" where
  "timers_kept s s' \<longleftrightarrow> set (timer_queue s') \<subseteq> set (timer_queue s) \<and> tmeb_time s' = tmeb_time s \<and>
     current_time s' = current_time s \<and> (\<forall>t. wspec (tcb s' t) = wspec (tcb s t))"

lemma timers_kept_refl [simp]: "timers_kept s s"
  by (simp add: timers_kept_def)

lemma timers_kept_trans: "timers_kept s s' \<Longrightarrow> timers_kept s' s'' \<Longrightarrow> timers_kept s s''"
  by (auto simp: timers_kept_def)

lemma timers_kept_release: "timers_kept s (knl_wait_release_ok t s)" "timers_kept s (knl_make_non_wait t (que_remove t s))"
  by (auto simp: timers_kept_def knl_wait_release_ok_def)

lemma timers_kept_sem: "timers_kept s (chg_pri_sem_loop i ts s)"
proof (induction ts arbitrary: s)
  case (Cons t ts)
  have "timers_kept s (upd_semcb i f (knl_wait_release_ok t s))" for f
    using timers_kept_release(1)[of s t] by (simp add: timers_kept_def upd_semcb_def)
  then show ?case using Cons timers_kept_trans by (simp add: Let_def) blast
qed simp

lemma timers_kept_msg: "timers_kept s (msg_to_mbf i a n s)"
  by (simp add: timers_kept_def msg_to_mbf_def split: prod.split)

lemma timers_kept_mbf: "timers_kept s (knl_mbf_wakeup i s)"
proof (induction i s rule: knl_mbf_wakeup.induct)
  case (1 i s)
  show ?case
  proof (cases "que s (QMbfSnd i)")
    case Nil
    then show ?thesis by (simp add: knl_mbf_wakeup.simps)
  next
    case (Cons t ts)
    let ?z = "winfo_smbf_msgsz (winfo (tcb s t))"
    let ?m = "msg_to_mbf i (winfo_smbf_msg (winfo (tcb s t))) ?z s"
    have k: "timers_kept s (knl_wait_release_ok t ?m)"
      using timers_kept_trans[OF timers_kept_msg timers_kept_release(1)] .
    show ?thesis
    proof (cases "knl_mbf_free (mbfcb s i) ?z")
      case True
      then have "knl_mbf_wakeup i s = knl_mbf_wakeup i (knl_wait_release_ok t ?m)"
        using Cons by (subst knl_mbf_wakeup.simps) simp
      then show ?thesis using 1[OF Cons refl] True timers_kept_trans[OF k] by simp
    qed (use Cons in \<open>simp add: knl_mbf_wakeup.simps\<close>)
  qed
qed

lemma timers_kept_rel_wai: "timers_kept s (obj_rel_wai t s)"
  by (simp add: timers_kept_sem timers_kept_mbf obj_rel_wai_def sem_rel_wai_def sem_chg_pri_def knl_mbf_rel_wai_def knl_mbf_chg_pri_def Let_def
      split: WSPEC.split)

lemma timst_frame:
  "mtxstate.more s' = mtxstate.more s \<Longrightarrow> cyccb s' = cyccb s"
  "mtxstate.more s' = mtxstate.more s \<Longrightarrow> almcb s' = almcb s"
  by (cases s; cases s'; simp)+

section \<open>Handlers that start no timers\<close>

text \<open>
  Handlers may stop or delete time event handlers and cancel timeouts, but they put no event into the
  timer queue and leave the clock, the times of the events and the wait specifications of the tasks
  alone; the interval of a cyclic handler stays as long as its event is queued.
\<close>

definition intervals_kept :: "'a timstate_scheme \<Rightarrow> 'a timstate_scheme \<Rightarrow> bool" where
  "intervals_kept s s' \<longleftrightarrow> (\<forall>i. TM_CYC i \<in> set (timer_queue s') \<longrightarrow> cyctim (cyccb s' i) = cyctim (cyccb s i))"

definition quiet_handler :: "'a handler \<Rightarrow> bool" where
  "quiet_handler hdr \<longleftrightarrow>
     (\<forall>h x s. core_inv s \<longrightarrow> core_inv (hdr h x s) \<and> timers_kept s (hdr h x s) \<and> intervals_kept s (hdr h x s))"

text \<open>
  What the loop keeps: the invariant, the clock, sensible intervals, and no timeout of a task that
  waits for an inheritance mutex, whose release may run along a chain of owners.
\<close>

definition cyc_interval_ok :: "CYCCB \<Rightarrow> bool" where
  "cyc_interval_ok cb \<longleftrightarrow> 0 < cyctim cb \<and> cyctim cb < 0x80000000"

definition tick_inv :: "LSYSTIM \<Rightarrow> 'a timstate_scheme \<Rightarrow> bool" where
  "tick_inv cur s \<longleftrightarrow> core_inv s \<and> current_time s = cur \<and>
     (\<forall>i. TM_CYC i \<in> set (timer_queue s) \<longrightarrow> cyc_interval_ok (cyccb s i)) \<and>
     (\<forall>t. TM_TSK t \<in> set (timer_queue s) \<longrightarrow> wspec (tcb s t) \<noteq> knl_wspec_mtx_inherit)"

lemma tick_inv_kept:
  assumes "tick_inv cur s" "core_inv s'" "timers_kept s s'" "intervals_kept s s'"
  shows "tick_inv cur s'"
  using assms unfolding tick_inv_def timers_kept_def intervals_kept_def cyc_interval_ok_def by auto

lemma due_events_kept: "timers_kept s s' \<Longrightarrow> due_events cur s' \<subseteq> due_events cur s"
  by (auto simp: due_events_def timers_kept_def)

lemma core_inv_drop_event:
  "core_inv s \<Longrightarrow> timer_queue s = e # rest \<Longrightarrow> core_inv (s\<lparr>timer_queue := rest\<rparr>)"
  by (auto simp: core_inv_def task_inv_def timer_ok_def)

lemma drop_event:
  assumes "tick_inv cur s" "timer_queue s = e # rest"
  shows "tick_inv cur (s\<lparr>timer_queue := rest\<rparr>)" "e \<notin> set rest"
    "due_events (lltoul cur) (s\<lparr>timer_queue := rest\<rparr>) \<subseteq> due_events (lltoul cur) s - {e}"
proof -
  show e: "e \<notin> set rest" using assms by (auto simp: tick_inv_def core_inv_def timer_ok_def)
  show "tick_inv cur (s\<lparr>timer_queue := rest\<rparr>)"
    using assms core_inv_drop_event[of s e rest] by (simp add: tick_inv_def)
  show "due_events (lltoul cur) (s\<lparr>timer_queue := rest\<rparr>) \<subseteq> due_events (lltoul cur) s - {e}"
    using assms(2) e by (auto simp: due_events_def)
qed

section \<open>One callback\<close>

lemma rel_wai_hook_obj: "wspec (tcb s t) \<noteq> knl_wspec_mtx_inherit \<Longrightarrow> rel_wai_hook t s = Some (obj_rel_wai t s)"
  by (simp add: rel_wai_hook_def)

lemma task_callback:
  assumes inv: "tick_inv cur s" and t: "t < NUM_TSKID" "in_wait (state (tcb s t))" "TM_TSK t \<notin> set (timer_queue s)"
    and ws: "wspec (tcb s t) \<noteq> knl_wspec_mtx_inherit"
  shows "\<exists>s'. knl_wait_release_tmout rel_wai_hook t s = Some s' \<and> tick_inv cur s' \<and> due_events (lltoul cur) s' \<subseteq> due_events (lltoul cur) s"
proof -
  let ?n = "knl_make_non_wait t (que_remove t s)"
  let ?s = "obj_rel_wai t ?n"
  have n: "core_inv ?n" using inv t by (intro core_inv_make_non_wait) (simp_all add: tick_inv_def)
  note O = obj_rel_wai_rel[OF n, of t]
  have inv': "core_inv ?s" using O by (simp add: hook_rel_def)
  have k: "timers_kept s ?s" using timers_kept_trans[OF timers_kept_release(2) timers_kept_rel_wai] .
  have mn: "mtxstate.more ?n = mtxstate.more s" by (rule mtxst_kframe) simp
  have mo: "mtxstate.more ?s = mtxstate.more ?n" using O by (intro mtxst_frame) simp
  have "cyccb ?s = cyccb s" by (rule timst_frame(1)) (simp only: mn mo)
  then have c: "intervals_kept s ?s" by (simp add: intervals_kept_def)
  have "wspec (tcb ?n t) = wspec (tcb s t)" using timers_kept_release(2)[of s t] by (simp only: timers_kept_def)
  then have "knl_wait_release_tmout rel_wai_hook t s = Some ?s"
    using ws unfolding knl_wait_release_tmout_def by (intro rel_wai_hook_obj) simp
  then show ?thesis using tick_inv_kept[OF inv inv' k c] due_events_kept[OF k] by blast
qed

lemma quiet_handlerD:
  assumes "quiet_handler hdr" "tick_inv cur s"
  shows "tick_inv cur (hdr h x s)" "due_events (lltoul cur) (hdr h x s) \<subseteq> due_events (lltoul cur) s"
proof -
  have "core_inv (hdr h x s)" and k: "timers_kept s (hdr h x s)" and "intervals_kept s (hdr h x s)"
    using assms by (auto simp: quiet_handler_def tick_inv_def)
  then show "tick_inv cur (hdr h x s)" using tick_inv_kept[OF assms(2)] by blast
  show "due_events (lltoul cur) (hdr h x s) \<subseteq> due_events (lltoul cur) s" by (rule due_events_kept[OF k])
qed

lemma tick_inv_cpu [simp]:
  "tick_inv cur (s\<lparr>cpu_mie := b\<rparr>) = tick_inv cur s" "tick_inv cur (s\<lparr>cpu_intlevel := l\<rparr>) = tick_inv cur s"
  "tick_inv cur (upd_almcb i f s) = tick_inv cur s"
proof -
  have c: "core_inv (s\<lparr>cpu_mie := b\<rparr>) = core_inv s" "core_inv (s\<lparr>cpu_intlevel := l\<rparr>) = core_inv s"
    "core_inv (upd_almcb i f s) = core_inv s" by (rule core_inv_cong; simp add: upd_almcb_def)+
  show "tick_inv cur (s\<lparr>cpu_mie := b\<rparr>) = tick_inv cur s" "tick_inv cur (s\<lparr>cpu_intlevel := l\<rparr>) = tick_inv cur s"
    "tick_inv cur (upd_almcb i f s) = tick_inv cur s"
    unfolding tick_inv_def c by (simp_all add: upd_almcb_def)
qed

lemma due_events_cpu [simp]:
  "due_events cur (s\<lparr>cpu_mie := b\<rparr>) = due_events cur s" "due_events cur (s\<lparr>cpu_intlevel := l\<rparr>) = due_events cur s"
  "due_events cur (upd_almcb i f s) = due_events cur s"
  by (simp_all add: due_events_def upd_almcb_def)

lemma core_inv_timer_insert_abs:
  assumes "core_inv s" "e \<notin> set (timer_queue s)" "\<And>t. e \<noteq> TM_TSK t"
  shows "core_inv (knl_timer_insert_abs e tm s)"
proof -
  have "ctxtsk (knl_timer_insert_abs e tm s) = ctxtsk s"
    by (simp add: knl_timer_insert_abs_def knl_enqueue_tmeb_def Let_def)
  then show ?thesis using assms by (auto simp: core_inv_def task_inv_def tcb_ok_def timer_ok_def)
qed

text \<open>A cyclic handler is queued again for a time that lies ahead.\<close>

lemma cyc_requeued:
  assumes inv: "tick_inv cur s" and i: "TM_CYC i \<notin> set (timer_queue s)" and ok: "cyc_interval_ok (cyccb s i)"
  shows "tick_inv cur (knl_cyc_timer_insert i (knl_cyc_next_time i s) s)"
    "due_events (lltoul cur) (knl_cyc_timer_insert i (knl_cyc_next_time i s) s) \<subseteq> due_events (lltoul cur) s"
proof -
  let ?s = "knl_cyc_timer_insert i (knl_cyc_next_time i s) s"
  have c: "current_time s = cur" and ci: "core_inv s" using inv by (auto simp: tick_inv_def)
  have a: "\<not> knl_abstim_reached (lltoul cur) (knl_cyc_next_time i s)"
    using cyc_next_time_ahead(1)[of s i] ok c by (simp add: cyc_interval_ok_def)
  have t: "tmeb_time ?s = (tmeb_time s)(TM_CYC i := knl_cyc_next_time i s)" "current_time ?s = current_time s"
    "cyccb ?s = cyccb s" "set (timer_queue ?s) = insert (TM_CYC i) (set (timer_queue s))" "tcb ?s = tcb s"
    by (simp_all add: knl_cyc_timer_insert_def)
      (simp_all add: knl_timer_insert_abs_def knl_enqueue_tmeb_def Let_def)
  show "due_events (lltoul cur) ?s \<subseteq> due_events (lltoul cur) s" using a by (auto simp: due_events_def t)
  have "core_inv ?s" unfolding knl_cyc_timer_insert_def by (rule core_inv_timer_insert_abs[OF ci i]) simp
  then show "tick_inv cur ?s" using inv ok by (auto simp: tick_inv_def t)
qed

lemma timer_callback_step:
  assumes q: "quiet_handler hdr" and inv: "tick_inv cur s" and e: "timer_queue s = e # rest"
  shows "\<exists>s'. timer_callback hdr e (s\<lparr>timer_queue := rest\<rparr>) = Some s' \<and> tick_inv cur s' \<and>
    due_events (lltoul cur) s' \<subseteq> due_events (lltoul cur) s - {e}"
proof -
  let ?s = "s\<lparr>timer_queue := rest\<rparr>"
  note D = drop_event[OF inv e]
  have "\<exists>s'. timer_callback hdr e ?s = Some s' \<and> tick_inv cur s' \<and> due_events (lltoul cur) s' \<subseteq> due_events (lltoul cur) ?s"
  proof (cases e)
    case (TM_TSK t)
    then have "t < NUM_TSKID" "in_wait (state (tcb s t))" "wspec (tcb s t) \<noteq> knl_wspec_mtx_inherit"
      using inv e by (auto simp: tick_inv_def core_inv_def timer_ok_def)
    then show ?thesis using task_callback[OF D(1), of t] D(2) by (simp add: timer_callback_def TM_TSK)
  next
    case (TM_CYC i)
    let ?r = "knl_cyc_timer_insert i (knl_cyc_next_time i ?s) ?s"
    have r: "tick_inv cur ?r" "due_events (lltoul cur) ?r \<subseteq> due_events (lltoul cur) ?s"
      using cyc_requeued[OF D(1), of i] D(2) inv e by (simp_all add: TM_CYC tick_inv_def)
    have h: "tick_inv cur (hdr h x (?r\<lparr>cpu_intlevel := TIMER_INTLEVEL, cpu_mie := True\<rparr>))"
      "due_events (lltoul cur) (hdr h x (?r\<lparr>cpu_intlevel := TIMER_INTLEVEL, cpu_mie := True\<rparr>)) \<subseteq> due_events (lltoul cur) ?r" for h x
      using quiet_handlerD[OF q, of cur "?r\<lparr>cpu_intlevel := TIMER_INTLEVEL, cpu_mie := True\<rparr>"] r(1) by simp_all
    show ?thesis using h r(2) by (simp add: timer_callback_def TM_CYC knl_call_cychdr_def Let_def) blast
  next
    case (TM_ALM i)
    let ?r = "upd_almcb i (\<lambda>cb. cb\<lparr>almstat := almstat cb AND NOT TALM_STA\<rparr>) ?s"
    have h: "tick_inv cur (hdr h x (?r\<lparr>cpu_intlevel := TIMER_INTLEVEL, cpu_mie := True\<rparr>))"
      "due_events (lltoul cur) (hdr h x (?r\<lparr>cpu_intlevel := TIMER_INTLEVEL, cpu_mie := True\<rparr>)) \<subseteq> due_events (lltoul cur) ?s" for h x
      using quiet_handlerD[OF q, of cur "?r\<lparr>cpu_intlevel := TIMER_INTLEVEL, cpu_mie := True\<rparr>"] D(1) by simp_all
    then show ?thesis by (simp add: timer_callback_def TM_ALM knl_call_almhdr_def Let_def)
  qed
  then show ?thesis using D(3) by blast
qed

section \<open>The tick returns\<close>

lemma charge_time_frame [simp]:
  "timer_queue (charge_time s) = timer_queue s" "tmeb_time (charge_time s) = tmeb_time s"
  "current_time (charge_time s) = current_time s" "kstate.more (charge_time s) = kstate.more s"
  "wspec (tcb (charge_time s) t) = wspec (tcb s t)"
  by (simp_all add: charge_time_def upd_tcb_def split: option.split)

lemma home_charged [simp]: "home (b\<lparr>stime := x\<rparr>) = home b" "home (b\<lparr>utime := y\<rparr>) = home b"
  by (simp_all add: home_def split: TSTAT.split)

lemma core_inv_charge_time: assumes "core_inv s" shows "core_inv (charge_time s)"
proof (cases "ctxtsk s")
  case (Some c)
  have "core_inv (upd_tcb c (\<lambda>b. if sysmode b > 0 then b\<lparr>stime := stime b + of_nat TIMER_PERIOD\<rparr>
      else b\<lparr>utime := utime b + of_nat TIMER_PERIOD\<rparr>) s)"
    by (rule core_inv_upd_tcb[OF assms]) (use core_invD(3)[OF assms] in \<open>auto simp: tcb_ok_def Let_def upd_tcb_def\<close>)
  then show ?thesis by (simp add: charge_time_def Some)
qed (use assms in \<open>simp add: charge_time_def\<close>)

definition tick_ready :: "'a timstate_scheme \<Rightarrow> bool" where
  "tick_ready s \<longleftrightarrow> core_inv s \<and>
     (\<forall>i. TM_CYC i \<in> set (timer_queue s) \<longrightarrow> cyc_interval_ok (cyccb s i)) \<and>
     (\<forall>t. TM_TSK t \<in> set (timer_queue s) \<longrightarrow> wspec (tcb s t) \<noteq> knl_wspec_mtx_inherit)"

lemma tick_ready_start:
  assumes "tick_ready s"
  shows "tick_inv (current_time s + of_nat TIMER_PERIOD)
    (charge_time (s\<lparr>current_time := current_time s + of_nat TIMER_PERIOD\<rparr>))"
proof -
  let ?s = "s\<lparr>current_time := current_time s + of_nat TIMER_PERIOD\<rparr>"
  have "core_inv ?s = core_inv s" by (rule core_inv_cong) simp_all
  then have "core_inv (charge_time ?s)" using assms core_inv_charge_time by (simp add: tick_ready_def)
  moreover have "cyccb (charge_time ?s) = cyccb s"
    by (cases s; cases "charge_time ?s") (use charge_time_frame(4)[of ?s] in simp)
  ultimately show ?thesis using assms by (simp add: tick_inv_def tick_ready_def)
qed

lemma caught_up_END [simp]: "caught_up cur (END_CRITICAL_SECTION s) = caught_up cur s"
  by (simp add: caught_up_def split: list.split)

text \<open>
  C28. The tick interrupt returns: for handlers that put no event into the timer queue and leave the
  clock, the times of the queued events, the intervals of queued cyclic handlers and the wait
  specifications of the tasks alone (they may stop, delete and cancel), and when no task waits with
  a timeout for an inheritance mutex, the loop over the expired events ends. Afterwards the 64-bit
  clock has advanced by one period, the first event of the queue lies in the future, and the kernel's
  invariant holds.
\<close>

theorem tick_returns:
  assumes q: "quiet_handler hdr" and r: "tick_ready s"
  shows "\<exists>s'. knl_timer_handler hdr s = Some s' \<and> core_inv s' \<and>
    current_time s' = current_time s + of_nat TIMER_PERIOD \<and>
    caught_up (lltoul (current_time s')) s'"
proof -
  let ?c = "current_time s + of_nat TIMER_PERIOD"
  let ?s = "charge_time (s\<lparr>current_time := current_time s + of_nat TIMER_PERIOD\<rparr>)"
  from timer_loop_ends[where I = "tick_inv ?c", OF timer_callback_step[OF q] tick_ready_start[OF r]]
  obtain s' where s': "timer_loop (timer_callback hdr) (lltoul ?c) ?s = Some s'" "tick_inv ?c s'" "caught_up (lltoul ?c) s'" by blast
  then have "knl_timer_handler hdr s = Some (END_CRITICAL_SECTION s')" by (simp add: knl_timer_handler_def Let_def)
  then show ?thesis using s'(2,3) by (simp add: tick_inv_def)
qed

theorem tick_returns_witness:
  "\<exists>s'. knl_timer_handler (\<lambda>h x s. s) (sample_tim ()\<lparr>current_time := 0xFFFFFFFF\<rparr>) = Some s' \<and> core_inv s' \<and>
     current_time s' = 0x100000000"
proof -
  let ?s = "sample_tim ()\<lparr>current_time := 0xFFFFFFFF\<rparr>"
  have q: "quiet_handler (\<lambda>h x (s :: timstate). s)" by (simp add: quiet_handler_def intervals_kept_def)
  have "wspec (sample_tcb 3) \<noteq> knl_wspec_mtx_inherit" "wspec (sample_tcb 4) \<noteq> knl_wspec_mtx_inherit"
    by (simp_all add: sample_defs)
  moreover have "core_inv ?s" by (subst core_inv_cong[of _ "sample_tim ()"]) simp_all
  ultimately have "tick_ready ?s" by (auto simp: tick_ready_def)
  from tick_returns[OF q this] show ?thesis by (auto simp: TIMER_PERIOD_def)
qed

text \<open>
  The handler of an expired event whose interval is at least one tick is queued again strictly in
  the future, and a whole number of intervals after the time it was due, also when ticks were missed
  and when the clock wraps around.
\<close>

lemma cyclic_handler_next_start:
  assumes "cyc_interval_ok (cyccb s i)"
  shows "\<not> knl_abstim_reached (lltoul (current_time s)) (knl_cyc_next_time i s) \<and>
    (\<exists>n. knl_cyc_next_time i s = tmeb_time s (TM_CYC i) + n * cyctim (cyccb s i))"
  using cyc_next_time_ahead[of s i] assms by (simp add: cyc_interval_ok_def)

end
