(* ===== verification/Time_Properties.thy ===== *)
theory Time_Properties
  imports Tick
begin

text \<open>
  Properties of time management: the clock, the invariant that ties the state of a handler to the
  timer queue, and the start times of handlers.
\<close>

section \<open>Clock\<close>

text \<open>
  A time that is set is the time that is read back, in both time systems, as long as no tick
  passes; a negative time is refused and changes nothing.
\<close>

lemma clock_set_get_roundtrip:
  "(0 \<le> sint (systim_hi t) \<longrightarrow>
      fst (tk_set_utc t s) = Ret E_OK \<and> tk_get_utc (snd (tk_set_utc t s)) = (E_OK, t) \<and>
      fst (tk_set_tim t s) = Ret E_OK \<and> tk_get_tim (snd (tk_set_tim t s)) = (E_OK, t)) \<and>
   (sint (systim_hi t) < 0 \<longrightarrow> tk_set_utc t s = (Ret E_PAR, s) \<and> tk_set_tim t s = (Ret E_PAR, s))"
proof -
  have r: "real_time_ofs (END_CRITICAL_SECTION u) = real_time_ofs u" for u :: "'a kstate_scheme"
    by (simp add: END_CRITICAL_SECTION_def knl_dispatch_def)
  show ?thesis
    by (simp add: tk_set_utc_def tk_set_tim_def tk_get_utc_def tk_get_tim_def CHECK_PAR_def Let_def r knl_toSYSTIM_toLSYSTIM E_OK_def E_PAR_def)
qed

section \<open>Handlers and the timer queue\<close>

text \<open>
  A registered handler's event block is in the timer queue exactly while the handler is started. In
  particular no event block is ever linked twice.
\<close>

definition cyc_ok :: "'a timstate_scheme \<Rightarrow> nat \<Rightarrow> bool" where
  "cyc_ok s i \<longleftrightarrow> (TM_CYC i \<in> set (timer_queue s) \<longleftrightarrow> cychdr (cyccb s i) \<noteq> 0 \<and> cyc_running i s) \<and>
     (cychdr (cyccb s i) \<noteq> 0 \<longrightarrow> cyc_interval_ok (cyccb s i)) \<and> (i \<in> set (free_cyccb s) \<longrightarrow> cychdr (cyccb s i) = 0)"

definition alm_ok :: "'a timstate_scheme \<Rightarrow> nat \<Rightarrow> bool" where
  "alm_ok s i \<longleftrightarrow> (TM_ALM i \<in> set (timer_queue s) \<longleftrightarrow> almhdr (almcb s i) \<noteq> 0 \<and> alm_running i s) \<and>
     (i \<in> set (free_almcb s) \<longrightarrow> almhdr (almcb s i) = 0)"

definition time_inv :: "'a timstate_scheme \<Rightarrow> bool" where
  "time_inv s \<longleftrightarrow> core_inv s \<and> (\<forall>i. cyc_ok s i) \<and> (\<forall>i. alm_ok s i) \<and>
     distinct (free_cyccb s) \<and> distinct (free_almcb s)"

lemma cyc_ok_cong:
  assumes "TM_CYC i \<in> set (timer_queue s') \<longleftrightarrow> TM_CYC i \<in> set (timer_queue s)" "cyccb s' i = cyccb s i"
    "i \<in> set (free_cyccb s') \<longleftrightarrow> i \<in> set (free_cyccb s)"
  shows "cyc_ok s' i = cyc_ok s i"
  using assms by (simp add: cyc_ok_def cyc_running_def)

lemma alm_ok_cong:
  assumes "TM_ALM i \<in> set (timer_queue s') \<longleftrightarrow> TM_ALM i \<in> set (timer_queue s)" "almcb s' i = almcb s i"
    "i \<in> set (free_almcb s') \<longleftrightarrow> i \<in> set (free_almcb s)"
  shows "alm_ok s' i = alm_ok s i"
  using assms by (simp add: alm_ok_def alm_running_def)

lemma time_inv_cong:
  assumes "core_inv s' = core_inv s" "timer_queue s' = timer_queue s" "cyccb s' = cyccb s" "almcb s' = almcb s"
    "free_cyccb s' = free_cyccb s" "free_almcb s' = free_almcb s"
  shows "time_inv s' = time_inv s"
  using assms by (simp add: time_inv_def cyc_ok_def alm_ok_def cyc_running_def alm_running_def)

text \<open>A change that concerns one handler only.\<close>

lemma time_inv_cyc:
  assumes "time_inv s" "core_inv s'" "cyc_ok s' i" "almcb s' = almcb s" "free_almcb s' = free_almcb s" "distinct (free_cyccb s')"
    and "\<And>j. j \<noteq> i \<Longrightarrow> cyccb s' j = cyccb s j \<and> (j \<in> set (free_cyccb s') \<longleftrightarrow> j \<in> set (free_cyccb s))"
    and "\<And>e. e \<noteq> TM_CYC i \<Longrightarrow> e \<in> set (timer_queue s') \<longleftrightarrow> e \<in> set (timer_queue s)"
  shows "time_inv s'"
proof -
  have "cyc_ok s' j" for j
  proof (cases "j = i")
    case False
    then have "cyc_ok s' j = cyc_ok s j" using assms(7,8) by (intro cyc_ok_cong) auto
    then show ?thesis using assms(1) by (simp add: time_inv_def)
  qed (use assms(3) in simp)
  moreover have "alm_ok s' j = alm_ok s j" for j using assms(4,5,8) by (intro alm_ok_cong) auto
  ultimately show ?thesis using assms(1,2,5,6) by (simp add: time_inv_def)
qed

lemma time_inv_alm:
  assumes "time_inv s" "core_inv s'" "alm_ok s' i" "cyccb s' = cyccb s" "free_cyccb s' = free_cyccb s" "distinct (free_almcb s')"
    and "\<And>j. j \<noteq> i \<Longrightarrow> almcb s' j = almcb s j \<and> (j \<in> set (free_almcb s') \<longleftrightarrow> j \<in> set (free_almcb s))"
    and "\<And>e. e \<noteq> TM_ALM i \<Longrightarrow> e \<in> set (timer_queue s') \<longleftrightarrow> e \<in> set (timer_queue s)"
  shows "time_inv s'"
proof -
  have "alm_ok s' j" for j
  proof (cases "j = i")
    case False
    then have "alm_ok s' j = alm_ok s j" using assms(7,8) by (intro alm_ok_cong) auto
    then show ?thesis using assms(1) by (simp add: time_inv_def)
  qed (use assms(3) in simp)
  moreover have "cyc_ok s' j = cyc_ok s j" for j using assms(4,5,8) by (intro cyc_ok_cong) auto
  ultimately show ?thesis using assms(1,2,5,6) by (simp add: time_inv_def)
qed

lemma timst_fields:
  "kstate.more s' = kstate.more s \<Longrightarrow> cyccb s' = cyccb s" "kstate.more s' = kstate.more s \<Longrightarrow> almcb s' = almcb s"
  "kstate.more s' = kstate.more s \<Longrightarrow> free_cyccb s' = free_cyccb s" "kstate.more s' = kstate.more s \<Longrightarrow> free_almcb s' = free_almcb s"
  by (cases s; cases s'; simp)+

lemma time_inv_END [simp]: "time_inv (END_CRITICAL_SECTION s) = time_inv s"
  by (rule time_inv_cong; (simp | rule timst_fields, simp))

lemma timer_ops_fields [simp]:
  "cyccb (knl_timer_delete e s) = cyccb s" "almcb (knl_timer_delete e s) = almcb s"
  "free_cyccb (knl_timer_delete e s) = free_cyccb s" "free_almcb (knl_timer_delete e s) = free_almcb s"
  "cyccb (knl_timer_insert_abs e tm s) = cyccb s" "almcb (knl_timer_insert_abs e tm s) = almcb s"
  "free_cyccb (knl_timer_insert_abs e tm s) = free_cyccb s" "free_almcb (knl_timer_insert_abs e tm s) = free_almcb s"
  by (rule timst_fields; simp)+

lemma core_inv_tables [simp]:
  "core_inv (upd_cyccb i f s) = core_inv s" "core_inv (upd_almcb i g s) = core_inv s"
  "core_inv (s\<lparr>free_cyccb := x\<rparr>) = core_inv s" "core_inv (s\<lparr>free_almcb := x\<rparr>) = core_inv s"
  "core_inv (s\<lparr>tmeb_time := y\<rparr>) = core_inv s" "core_inv (s\<lparr>taskindp := n\<rparr>) = core_inv s"
  by (rule core_inv_cong; simp add: upd_cyccb_def upd_almcb_def)+

lemma upd_tables_fields [simp]:
  "cyccb (upd_cyccb i f s) = (cyccb s)(i := f (cyccb s i))" "almcb (upd_cyccb i f s) = almcb s"
  "almcb (upd_almcb i g s) = (almcb s)(i := g (almcb s i))" "cyccb (upd_almcb i g s) = cyccb s"
  "timer_queue (upd_cyccb i f s) = timer_queue s" "timer_queue (upd_almcb i g s) = timer_queue s"
  "free_cyccb (upd_cyccb i f s) = free_cyccb s" "free_almcb (upd_cyccb i f s) = free_almcb s"
  "free_cyccb (upd_almcb i g s) = free_cyccb s" "free_almcb (upd_almcb i g s) = free_almcb s"
  by (simp_all add: upd_cyccb_def upd_almcb_def)

lemma sta_nonzero [simp]: "TCYC_STA \<noteq> 0" "TALM_STA \<noteq> 0"
  by (simp_all add: consts_defs)

lemma started_bits [simp]:
  "(c OR TCYC_STA) AND TCYC_STA \<noteq> 0" "(c AND NOT TCYC_STA) AND TCYC_STA = 0"
  "(c OR TALM_STA) AND TALM_STA \<noteq> 0" "(c AND NOT TALM_STA) AND TALM_STA = 0"
proof -
  have *: "(c OR x) AND x = x" "(c AND NOT x) AND x = 0" for x :: UINT
    by (auto simp: bit_eq_iff bit_simps)
  show "(c OR TCYC_STA) AND TCYC_STA \<noteq> 0" "(c AND NOT TCYC_STA) AND TCYC_STA = 0"
    "(c OR TALM_STA) AND TALM_STA \<noteq> 0" "(c AND NOT TALM_STA) AND TALM_STA = 0"
    by (simp_all add: *)
qed

lemmas tim_defs = cyc_ok_def alm_ok_def cyc_running_def alm_running_def

lemma time_invD:
  assumes "time_inv s"
  shows "core_inv s" "cyc_ok s i" "alm_ok s i" "distinct (free_cyccb s)" "distinct (free_almcb s)"
  using assms by (simp_all add: time_inv_def)

lemma cyc_okD:
  assumes "time_inv s"
  shows "TM_CYC i \<in> set (timer_queue s) \<longleftrightarrow> cychdr (cyccb s i) \<noteq> 0 \<and> cyc_running i s"
    "cychdr (cyccb s i) \<noteq> 0 \<Longrightarrow> cyc_interval_ok (cyccb s i) \<and> i \<notin> set (free_cyccb s)"
  using time_invD(2)[OF assms, of i] by (auto simp: cyc_ok_def)

lemma alm_okD:
  assumes "time_inv s"
  shows "TM_ALM i \<in> set (timer_queue s) \<longleftrightarrow> almhdr (almcb s i) \<noteq> 0 \<and> alm_running i s"
    "almhdr (almcb s i) \<noteq> 0 \<Longrightarrow> i \<notin> set (free_almcb s)"
  using time_invD(3)[OF assms, of i] by (auto simp: alm_ok_def)

definition cyc_stopped :: "nat \<Rightarrow> 'a timstate_scheme \<Rightarrow> 'a timstate_scheme" where
  "cyc_stopped i s = (if cyc_running i s then knl_timer_delete (TM_CYC i) s else s)"

lemma cyc_stopped_fields [simp]:
  "cyccb (cyc_stopped i s) = cyccb s" "almcb (cyc_stopped i s) = almcb s"
  "free_cyccb (cyc_stopped i s) = free_cyccb s" "free_almcb (cyc_stopped i s) = free_almcb s"
  "e \<noteq> TM_CYC i \<Longrightarrow> e \<in> set (timer_queue (cyc_stopped i s)) \<longleftrightarrow> e \<in> set (timer_queue s)"
  by (simp_all add: cyc_stopped_def)

lemma cyc_stopped_inv:
  assumes "time_inv s"
  shows "core_inv (cyc_stopped i s)" "TM_CYC i \<notin> set (timer_queue (cyc_stopped i s))"
  using cyc_okD(1)[OF assms, of i] time_invD(1)[OF assms] by (auto simp: cyc_stopped_def core_inv_timer_delete)

lemma stop_cyc_inv:
  assumes "time_inv s" "cychdr (cyccb s i) \<noteq> 0"
  shows "time_inv (upd_cyccb i (\<lambda>cb. cb\<lparr>cycstat := cycstat cb AND NOT TCYC_STA\<rparr>) (cyc_stopped i s))"
  by (rule time_inv_cyc[OF assms(1), of _ i])
    (use cyc_stopped_inv[OF assms(1)] cyc_okD(2)[OF assms] time_invD(4)[OF assms(1)]
      in \<open>simp_all add: cyc_ok_def cyc_running_def cyc_interval_ok_def\<close>)

lemma delete_cyc_inv:
  assumes "time_inv s" "cychdr (cyccb s i) \<noteq> 0"
  shows "time_inv (upd_cyccb i (cychdr_update (\<lambda>_. 0)) ((cyc_stopped i s)\<lparr>free_cyccb := free_cyccb (cyc_stopped i s) @ [i]\<rparr>))"
  by (rule time_inv_cyc[OF assms(1), of _ i])
    (use cyc_stopped_inv[OF assms(1)] cyc_okD(2)[OF assms] time_invD(4)[OF assms(1)]
      in \<open>simp_all add: cyc_ok_def cyc_running_def cyc_interval_ok_def\<close>)

lemma start_cyc_inv:
  assumes "time_inv s" "cychdr (cyccb s i) \<noteq> 0" "core_inv s'" "TM_CYC i \<notin> set (timer_queue s')"
    "cyccb s' = cyccb s" "almcb s' = almcb s" "free_cyccb s' = free_cyccb s" "free_almcb s' = free_almcb s"
    "\<And>e. e \<noteq> TM_CYC i \<Longrightarrow> e \<in> set (timer_queue s') \<longleftrightarrow> e \<in> set (timer_queue s)"
  shows "time_inv (upd_cyccb i (\<lambda>cb. cb\<lparr>cycstat := cycstat cb OR TCYC_STA\<rparr>) (knl_cyc_timer_insert i tm s'))"
  by (rule time_inv_cyc[OF assms(1), of _ i])
    (use assms cyc_okD(2)[OF assms(1,2)] time_invD(4)[OF assms(1)] core_inv_timer_insert_abs[OF assms(3,4), of tm]
      in \<open>simp_all add: knl_cyc_timer_insert_def cyc_ok_def cyc_running_def cyc_interval_ok_def\<close>)

lemma tk_stp_cyc_inv: "time_inv s \<Longrightarrow> time_inv (snd (tk_stp_cyc oid s))"
  by (simp add: tk_stp_cyc_def Let_def stop_cyc_inv[unfolded cyc_stopped_def])

lemma tk_del_cyc_inv: "time_inv s \<Longrightarrow> time_inv (snd (tk_del_cyc oid s))"
  by (simp add: tk_del_cyc_def Let_def delete_cyc_inv[unfolded cyc_stopped_def])

lemma tk_sta_cyc_inv:
  assumes "time_inv s" shows "time_inv (snd (tk_sta_cyc oid s))"
proof -
  let ?i = "INDEX_OBJ oid"
  have a: "time_inv (upd_cyccb ?i (\<lambda>cb. cb\<lparr>cycstat := cycstat cb OR TCYC_STA\<rparr>) (knl_cyc_timer_insert ?i tm (cyc_stopped ?i s)))"
    if "cychdr (cyccb s ?i) \<noteq> 0" for tm
    by (rule start_cyc_inv[OF assms that]) (simp_all add: cyc_stopped_inv[OF assms])
  have b: "time_inv (upd_cyccb ?i (\<lambda>cb. cb\<lparr>cycstat := cycstat cb OR TCYC_STA\<rparr>) (knl_cyc_timer_insert ?i tm s))"
    if "cychdr (cyccb s ?i) \<noteq> 0" "\<not> cyc_running ?i s" for tm
    using a[OF that(1), of tm] that(2) by (simp add: cyc_stopped_def)
  have c: "time_inv (upd_cyccb ?i (\<lambda>cb. cb\<lparr>cycstat := cycstat cb OR TCYC_STA\<rparr>) s)"
    if "cychdr (cyccb s ?i) \<noteq> 0" "cyc_running ?i s"
    by (rule time_inv_cyc[OF assms, of _ ?i])
      (use that cyc_okD[OF assms, of ?i] time_invD[OF assms] in \<open>simp_all add: cyc_ok_def cyc_running_def cyc_interval_ok_def\<close>)
  show ?thesis using assms a b c by (simp add: tk_sta_cyc_def Let_def flip: cyc_stopped_def)
qed

definition alm_stopped :: "nat \<Rightarrow> 'a timstate_scheme \<Rightarrow> 'a timstate_scheme" where
  "alm_stopped i s = (if alm_running i s then knl_timer_delete (TM_ALM i) s else s)"

lemma alm_stopped_fields [simp]:
  "cyccb (alm_stopped i s) = cyccb s" "almcb (alm_stopped i s) = almcb s"
  "free_cyccb (alm_stopped i s) = free_cyccb s" "free_almcb (alm_stopped i s) = free_almcb s"
  "e \<noteq> TM_ALM i \<Longrightarrow> e \<in> set (timer_queue (alm_stopped i s)) \<longleftrightarrow> e \<in> set (timer_queue s)"
  by (simp_all add: alm_stopped_def)

lemma alm_stopped_inv:
  assumes "time_inv s"
  shows "core_inv (alm_stopped i s)" "TM_ALM i \<notin> set (timer_queue (alm_stopped i s))"
  using alm_okD(1)[OF assms, of i] time_invD(1)[OF assms] by (auto simp: alm_stopped_def core_inv_timer_delete)

lemma stop_alm_inv:
  assumes "time_inv s" "almhdr (almcb s i) \<noteq> 0"
  shows "time_inv (upd_almcb i (\<lambda>cb. cb\<lparr>almstat := almstat cb AND NOT TALM_STA\<rparr>) (alm_stopped i s))"
  by (rule time_inv_alm[OF assms(1), of _ i])
    (use alm_stopped_inv[OF assms(1)] alm_okD(2)[OF assms] time_invD(5)[OF assms(1)] in \<open>simp_all add: alm_ok_def alm_running_def\<close>)

lemma tk_del_alm_inv:
  assumes "time_inv s" shows "time_inv (snd (tk_del_alm oid s))"
proof -
  let ?i = "INDEX_OBJ oid"
  have "time_inv (upd_almcb ?i (almhdr_update (\<lambda>_. 0)) ((alm_stopped ?i s)\<lparr>free_almcb := free_almcb (alm_stopped ?i s) @ [?i]\<rparr>))"
    if "almhdr (almcb s ?i) \<noteq> 0"
    by (rule time_inv_alm[OF assms(1), of _ ?i])
      (use alm_stopped_inv[OF assms(1)] alm_okD(2)[OF assms that] time_invD(5)[OF assms(1)] in \<open>simp_all add: alm_ok_def alm_running_def\<close>)
  then show ?thesis using assms by (simp add: tk_del_alm_def Let_def flip: alm_stopped_def)
qed

lemma tk_stp_alm_inv:
  assumes "time_inv s" shows "time_inv (snd (tk_stp_alm oid s))"
  using stop_alm_inv[OF assms, of "INDEX_OBJ oid"] assms by (auto simp: tk_stp_alm_def Let_def alm_stopped_def)

lemma cre_alm_inv:
  assumes "time_inv s" "calm_almhdr pk \<noteq> 0" shows "time_inv (snd (cre_alm pk s))"
proof (cases "free_almcb s")
  case (Cons i fs)
  have "almhdr (almcb s i) = 0" "i \<notin> set fs" "distinct fs"
    using time_invD(3,5)[OF assms(1)] Cons by (auto simp: alm_ok_def)
  moreover from this have "TM_ALM i \<notin> set (timer_queue s)" using alm_okD(1)[OF assms(1)] by simp
  ultimately show ?thesis using Cons
    by (simp add: cre_alm_def) (rule time_inv_alm[OF assms(1), of _ i],
      use time_invD(1)[OF assms(1)] Cons in \<open>simp_all add: alm_ok_def alm_running_def TALM_STP_def\<close>)
qed (use assms in \<open>simp add: cre_alm_def\<close>)

text \<open>Handlers called at once may use any service that keeps the invariant.\<close>

definition keeps_time :: "'a handler \<Rightarrow> bool" where
  "keeps_time hdr \<longleftrightarrow> (\<forall>h x s. time_inv s \<longrightarrow> time_inv (hdr h x s))"

lemma time_inv_taskindp [simp]: "time_inv (s\<lparr>taskindp := n\<rparr>) = time_inv s"
  by (rule time_inv_cong) simp_all

lemma immediate_alm_inv:
  assumes "keeps_time hdr" "time_inv (upd_almcb i (\<lambda>cb. cb\<lparr>almstat := almstat cb AND NOT TALM_STA\<rparr>) s)"
  shows "time_inv (knl_immediate_call_almhdr hdr i s)"
  using assms by (simp add: knl_immediate_call_almhdr_def Let_def keeps_time_def)

lemma tk_sta_alm_inv:
  assumes "time_inv s" "keeps_time hdr" shows "time_inv (snd (tk_sta_alm hdr oid almtim s))"
proof -
  let ?i = "INDEX_OBJ oid"
  have a: "time_inv (knl_immediate_call_almhdr hdr ?i (alm_stopped ?i s))" if "almhdr (almcb s ?i) \<noteq> 0"
    by (rule immediate_alm_inv[OF assms(2) stop_alm_inv[OF assms(1) that]])
  have b: "time_inv (upd_almcb ?i (\<lambda>cb. cb\<lparr>almstat := almstat cb OR TALM_STA\<rparr>) (knl_alm_timer_insert ?i almtim (alm_stopped ?i s)))"
    if "almhdr (almcb s ?i) \<noteq> 0"
  proof (rule time_inv_alm[OF assms(1), of _ ?i])
    show "core_inv (upd_almcb ?i (\<lambda>cb. cb\<lparr>almstat := almstat cb OR TALM_STA\<rparr>) (knl_alm_timer_insert ?i almtim (alm_stopped ?i s)))"
      unfolding core_inv_tables knl_alm_timer_insert_def
      by (rule core_inv_timer_insert_abs[OF alm_stopped_inv[OF assms(1)]]) simp
  qed (use that alm_okD(2)[OF assms(1) that] time_invD(5)[OF assms(1)]
      in \<open>simp_all add: alm_ok_def alm_running_def knl_alm_timer_insert_def\<close>)
  show ?thesis using assms(1) a b by (simp add: tk_sta_alm_def Let_def flip: alm_stopped_def)
qed

lemma immediate_cyc_inv:
  assumes "keeps_time hdr" "\<And>tm. time_inv (knl_cyc_timer_insert i tm s)"
  shows "time_inv (knl_immediate_call_cychdr hdr i s)"
  using assms by (simp add: knl_immediate_call_cychdr_def Let_def keeps_time_def)

lemma cre_cyc_inv:
  assumes inv: "time_inv s" "keeps_time hdr" and pk: "ccyc_cychdr pk \<noteq> 0" "0 < ccyc_cyctim pk" "ccyc_cyctim pk < 0x80000000"
  shows "time_inv (snd (cre_cyc hdr pk s))"
proof (cases "free_cyccb s")
  case (Cons i fs)
  let ?f = "\<lambda>cb. cb\<lparr>cyc_exinf := ccyc_exinf pk, cycatr := ccyc_cycatr pk, cychdr := ccyc_cychdr pk, cyctim := ccyc_cyctim pk\<rparr>"
  let ?s = "\<lambda>x. upd_cyccb i (cycstat_update (\<lambda>_. x)) (upd_cyccb i ?f (s\<lparr>free_cyccb := fs\<rparr>))"
  have f: "cychdr (cyccb s i) = 0" "i \<notin> set fs" "distinct fs" using time_invD(2,4)[OF inv(1)] Cons by (auto simp: cyc_ok_def)
  then have n: "TM_CYC i \<notin> set (timer_queue s)" using cyc_okD(1)[OF inv(1)] by simp
  have c: "core_inv (?s x)" for x using time_invD(1)[OF inv(1)] by simp
  have stp: "time_inv ((?s TCYC_STP)\<lparr>tmeb_time := y\<rparr>)" for y
    by (rule time_inv_cyc[OF inv(1), of _ i])
      (use f n c[of TCYC_STP] Cons pk in \<open>simp_all add: cyc_ok_def cyc_running_def TCYC_STP_def cyc_interval_ok_def\<close>)
  have sta: "time_inv (knl_cyc_timer_insert i tm ((?s TCYC_STA)\<lparr>tmeb_time := y\<rparr>))" for y tm
  proof (rule time_inv_cyc[OF inv(1), of _ i])
    show "core_inv (knl_cyc_timer_insert i tm ((?s TCYC_STA)\<lparr>tmeb_time := y\<rparr>))"
      unfolding knl_cyc_timer_insert_def by (rule core_inv_timer_insert_abs) (use c[of TCYC_STA] n in simp_all)
  qed (use f n Cons pk in \<open>simp_all add: knl_cyc_timer_insert_def cyc_ok_def cyc_running_def cyc_interval_ok_def\<close>)
  have sta': "time_inv (knl_cyc_timer_insert i tm (?s TCYC_STA))" for tm
    using sta[of tm "tmeb_time (?s TCYC_STA)"] by simp
  show ?thesis using stp sta' immediate_cyc_inv[OF inv(2) sta]
    by (simp add: cre_cyc_def Cons Let_def)
qed (use inv in \<open>simp add: cre_cyc_def\<close>)

lemma check_fails_iff [simp]:
  "CHECK_PAR b < E_OK \<longleftrightarrow> \<not> b" "CHECK_RELTIM r < E_OK \<longleftrightarrow> 0x80000000 \<le> r"
  by (simp_all add: CHECK_PAR_def CHECK_RELTIM_def E_OK_def E_PAR_def)

text \<open>
  C38. Every call of time management keeps the invariant: a registered handler's event block is in the
  timer queue exactly while the handler is started, so that no block is linked twice and none is left
  behind when a handler is stopped or deleted. Handlers that are called at once may use any service
  that keeps the invariant.
\<close>

theorem time_calls_keep_invariant:
  assumes inv: "time_inv s" and hdr: "keeps_time hdr"
  shows "time_inv (snd (tk_cre_cyc hdr ccyc s)) \<and> time_inv (snd (tk_del_cyc oid s)) \<and>
    time_inv (snd (tk_sta_cyc oid s)) \<and> time_inv (snd (tk_stp_cyc oid s)) \<and>
    time_inv (snd (tk_cre_alm calm s)) \<and> time_inv (snd (tk_del_alm oid s)) \<and>
    time_inv (snd (tk_sta_alm hdr oid almtim s)) \<and> time_inv (snd (tk_stp_alm oid s))"
proof -
  have "time_inv (snd (tk_cre_cyc hdr ccyc s))"
    using cre_cyc_inv[OF inv hdr, of ccyc] inv by (simp add: tk_cre_cyc_def Let_def split_beta not_le)
  moreover have "time_inv (snd (tk_cre_alm calm s))"
    using cre_alm_inv[OF inv, of calm] inv by (simp add: tk_cre_alm_def Let_def split_beta)
  ultimately show ?thesis
    using tk_del_cyc_inv[OF inv] tk_sta_cyc_inv[OF inv] tk_stp_cyc_inv[OF inv] tk_del_alm_inv[OF inv]
      tk_stp_alm_inv[OF inv] tk_sta_alm_inv[OF inv hdr] by (intro conjI)
qed

lemma sample_time_inv [simp]: "time_inv (sample_tim m)"
  by (simp add: time_inv_def cyc_ok_def alm_ok_def cyc_running_def alm_running_def cyc_interval_ok_def
      sample_cyccb_def sample_almcb_def) (simp add: sample_tim_def sample_mtx_def sample_mbf_def sample_mbx_def
      sample_flg_def sample_sem_def sample_kernel_def)

theorem time_calls_keep_invariant_witness:
  "time_inv (snd (tk_sta_cyc 1 (sample_tim ()))) \<and>
   TM_CYC 0 \<in> set (timer_queue (snd (tk_sta_cyc 1 (sample_tim ()))))"
proof -
  have k: "keeps_time (\<lambda>h x (s :: timstate). s)" by (simp add: keeps_time_def)
  have i: "INDEX_OBJ 1 = 0" by (simp add: INDEX_OBJ_def)
  have "TM_CYC 0 \<in> set (timer_queue (snd (tk_sta_cyc 1 (sample_tim ()))))"
    by (simp add: tk_sta_cyc_def Let_def i CHECK_OBJID_def CHK_OBJID_def NUM_CYCID_def sample_cyccb_def
        knl_cyc_timer_insert_def E_OK_def)
  then show ?thesis using time_calls_keep_invariant[OF sample_time_inv k] by simp
qed

section \<open>Start times\<close>

text \<open>
  An alarm handler that is started with a time above zero expires exactly on tick
  \<open>almtim + 1\<close>, and stopping it again leaves no event behind.
\<close>

lemma alarm_expires_exactly:
  fixes hdr :: "'a handler"
  assumes inv: "time_inv s" and reg: "CHK_OBJID NUM_ALMID oid" "almhdr (almcb s (INDEX_OBJ oid)) \<noteq> 0"
    and tim: "0 < almtim" "almtim < 0x80000000" and k: "k \<le> 2 ^ 31"
  defines "s' \<equiv> snd (tk_sta_alm hdr oid almtim s)"
  shows "fst (tk_sta_alm hdr oid almtim s) = Ret E_OK \<and> TM_ALM (INDEX_OBJ oid) \<in> set (timer_queue s') \<and>
    (knl_abstim_reached (lltoul (current_time s) + of_nat k) (tmeb_time s' (TM_ALM (INDEX_OBJ oid))) \<longleftrightarrow> unat almtim + 1 \<le> k) \<and>
    TM_ALM (INDEX_OBJ oid) \<notin> set (timer_queue (snd (tk_stp_alm oid s')))"
proof -
  let ?i = "INDEX_OBJ oid"
  let ?u = "upd_almcb ?i (\<lambda>cb. cb\<lparr>almstat := almstat cb OR TALM_STA\<rparr>) (knl_alm_timer_insert ?i almtim (alm_stopped ?i s))"
  have ok: "\<not> CHECK_OBJID NUM_ALMID oid < E_OK" using reg(1) by (simp add: CHECK_OBJID_def E_OK_def)
  have e: "tk_sta_alm hdr oid almtim s = (Ret E_OK, END_CRITICAL_SECTION ?u)"
    using ok reg tim by (simp add: tk_sta_alm_def Let_def not_le flip: alm_stopped_def)
  have t: "tmeb_time s' (TM_ALM ?i) = lltoul (current_time s) + of_nat (unat almtim + 1)"
    by (simp add: s'_def e upd_almcb_def knl_alm_timer_insert_def knl_timer_insert_abs_def knl_enqueue_tmeb_def Let_def
        alm_stopped_def TIMER_PERIOD_def)
  have "unat almtim < 2 ^ 31" using tim(2) by (simp add: word_less_nat_alt)
  then have x: "knl_abstim_reached (lltoul (current_time s) + of_nat k) (tmeb_time s' (TM_ALM ?i)) \<longleftrightarrow> unat almtim + 1 \<le> k"
    unfolding t using k by (intro abstim_reached_exact) simp_all
  have c: "almcb s' = (almcb s)(?i := (almcb s ?i)\<lparr>almstat := almstat (almcb s ?i) OR TALM_STA\<rparr>)"
  proof -
    have "almcb s' = almcb ?u" unfolding s'_def e snd_conv by (rule timst_fields(2)) simp
    then show ?thesis by (simp add: knl_alm_timer_insert_def)
  qed
  then have "TM_ALM ?i \<notin> set (timer_queue (snd (tk_stp_alm oid s')))"
    using ok reg(2) by (simp add: tk_stp_alm_def Let_def alm_running_def c)
  then show ?thesis using x by (simp add: e s'_def knl_alm_timer_insert_def)
qed

text \<open>
  \<^verbatim>\<open>tk_cre_cyc\<close> checks the interval of a handler but not its phase: a phase from
  \<open>0x80000000\<close> on, which every other call refuses, is accepted, and the first start of the handler
  is then already due at the time of the call.
\<close>

lemma cyclic_phase_not_checked:
  assumes pk: "ccyc_cycatr pk = TA_HLNG OR TA_STA" "ccyc_cychdr pk \<noteq> 0" "0 < ccyc_cyctim pk" "ccyc_cyctim pk < 0x80000000"
    and phs: "0x80000000 \<le> ccyc_cycphs pk" "ccyc_cycphs pk < 0xFFFFFFFF" and f: "free_cyccb s = i # fs"
  shows "CHECK_RELTIM (ccyc_cycphs pk) = E_PAR \<and> fst (tk_cre_cyc hdr pk s) = Ret (ID_OBJ i) \<and>
    TM_CYC i \<in> set (timer_queue (snd (tk_cre_cyc hdr pk s))) \<and>
    knl_abstim_reached (lltoul (current_time s)) (tmeb_time (snd (tk_cre_cyc hdr pk s)) (TM_CYC i))"
proof -
  let ?c = "lltoul (current_time s)"
  let ?u = "upd_cyccb i (cycstat_update (\<lambda>_. TCYC_STA)) (upd_cyccb i (\<lambda>cb. cb\<lparr>cyc_exinf := ccyc_exinf pk, cycatr := ccyc_cycatr pk,
     cychdr := ccyc_cychdr pk, cyctim := ccyc_cyctim pk\<rparr>) (s\<lparr>free_cyccb := fs\<rparr>))"
  have a: "ccyc_cycatr pk AND NOT (TA_HLNG OR TA_STA OR TA_PHS) = 0" "ccyc_cycatr pk AND TA_STA \<noteq> 0"
    unfolding pk(1) by (simp_all add: consts_defs)
  then have ra: "\<not> CHECK_RSATR (ccyc_cycatr pk) (TA_HLNG OR TA_STA OR TA_PHS) < E_OK" by (simp add: CHECK_RSATR_def)
  have p0: "ccyc_cycphs pk \<noteq> 0" using phs(1) by auto
  have e: "tk_cre_cyc hdr pk s = (Ret (ID_OBJ i), END_CRITICAL_SECTION (knl_cyc_timer_insert i (?c + ccyc_cycphs pk + 1) ?u))"
    using ra pk(1-3) not_le[THEN iffD2, OF pk(4)] p0 f a(2)
    by (simp add: tk_cre_cyc_def cre_cyc_def Let_def TIMER_PERIOD_def upd_cyccb_def)
  have m: "(0xFFFFFFFF :: ABSTIM) = - 1" by simp
  have "?c - (?c + ccyc_cycphs pk + 1) = 0xFFFFFFFF - ccyc_cycphs pk" unfolding m by (simp add: algebra_simps)
  moreover have "0xFFFFFFFF - ccyc_cycphs pk \<le> ABSTIM_DIFF_MIN"
    using phs unfolding ABSTIM_DIFF_MIN_def by uint_arith
  ultimately have "?c - (?c + ccyc_cycphs pk + 1) \<le> ABSTIM_DIFF_MIN" by (simp only:)
  then show ?thesis using phs(1)
    by (simp add: e knl_cyc_timer_insert_def CHECK_RELTIM_def)
      (simp add: knl_timer_insert_abs_def knl_enqueue_tmeb_def Let_def knl_abstim_reached_def)
qed

end
