(* ===== verification/Timeout.thy ===== *)
theory Timeout
  imports Tick
begin

text \<open>
  A timeout from the call that sets it to the tick that ends it: the task that sleeps with a timeout
  is put into the timer queue, stays there over as many ticks as it asked for, and is released by
  the handler of the next one. The proof follows the task's event through the loop of
  \<^verbatim>\<open>knl_timer_handler\<close>: the queue stays ordered by expiry, so that no event that is due stands
  behind one that is not.
\<close>

section \<open>The queue between two ticks\<close>

lemma sorted_cons_le: "sorted (map f (x # xs)) \<Longrightarrow> y \<in> set xs \<Longrightarrow> f x \<le> (f y :: 32 word)"
  by simp

lemma caught_up_pending:
  assumes "timer_sorted s" "caught_up (lltoul (current_time s)) s" shows "timer_pending s"
proof (cases "timer_queue s")
  case (Cons e rest)
  have "\<not> knl_abstim_reached (lltoul (current_time s)) (tmeb_time s x)" if "x \<in> set (timer_queue s)" for x
  proof -
    have "tkey s e \<le> tkey s x" using assms(1) that sorted_cons_le[of "tkey s" e rest x] by (auto simp: timer_sorted_def Cons)
    moreover have "\<not> tkey s e \<le> ABSTIM_DIFF_MIN" using assms(2) by (simp add: caught_up_def Cons reached_tkey)
    ultimately show ?thesis by (auto simp: reached_tkey)
  qed
  then show ?thesis by (simp add: timer_pending_def)
qed (simp add: timer_pending_def)

text \<open>The order is relative to the current time; the passing of time keeps it.\<close>

lemma lltoul_tick: "lltoul (t + 1) = lltoul t + 1"
proof -
  have "take_bit 32 (x + 1) = take_bit 32 (take_bit 64 x + 1)" for x :: int
    using mod_add_left_eq[of "take_bit 64 x" "2 ^ 32" 1] mod_add_left_eq[of x "2 ^ 32" 1]
    by (simp add: take_bit_eq_mod mod_mod_cancel)
  then show ?thesis unfolding lltoul_def by transfer simp
qed

lemma tkey_tick: "tkey (s\<lparr>current_time := current_time s + of_nat TIMER_PERIOD\<rparr>) e = tkey s e - 1"
  by (simp add: tkey_def timer_ofs_def TIMER_PERIOD_def lltoul_tick)

lemma timer_sorted_tick:
  assumes "timer_sorted s" "timer_pending s"
  shows "timer_sorted (s\<lparr>current_time := current_time s + of_nat TIMER_PERIOD\<rparr>)"
proof -
  have p: "ABSTIM_DIFF_MIN < tkey s e" if "e \<in> set (timer_queue s)" for e
    using assms(2) that by (auto simp: timer_pending_def reached_tkey)
  have m: "x - 1 \<le> y - 1" if "x \<le> y" "ABSTIM_DIFF_MIN < x" for x y :: "32 word"
    using that unfolding ABSTIM_DIFF_MIN_def by uint_arith
  have "sorted (map (\<lambda>e. tkey s e - 1) xs)" if "sorted (map (tkey s) xs)" "\<And>e. e \<in> set xs \<Longrightarrow> ABSTIM_DIFF_MIN < tkey s e" for xs
    using that by (induction xs) (auto intro: m)
  then show ?thesis using assms(1) p by (simp add: timer_sorted_def tkey_tick[abs_def])
qed

section \<open>What leaves a sleeping task alone\<close>

text \<open>At most other events are taken out of the queue; the task's state, its wait and its result stay.\<close>

definition undisturbed :: "nat \<Rightarrow> 'a kstate_scheme \<Rightarrow> 'a kstate_scheme \<Rightarrow> bool" where
  "undisturbed c s s' \<longleftrightarrow> state (tcb s' c) = state (tcb s c) \<and> wspec (tcb s' c) = wspec (tcb s c) \<and> wercd (tcb s' c) = wercd (tcb s c) \<and>
     (\<exists>P. P (TM_TSK c) \<and> timer_queue s' = filter P (timer_queue s)) \<and> tmeb_time s' = tmeb_time s \<and> current_time s' = current_time s"

lemma undisturbedI:
  assumes "tcb s' c = tcb s c" "timer_queue s' = timer_queue s" "tmeb_time s' = tmeb_time s" "current_time s' = current_time s"
  shows "undisturbed c s s'"
  unfolding undisturbed_def using assms by (auto intro!: exI[of _ "\<lambda>_. True"])

lemma undisturbed_trans:
  assumes "undisturbed c s s'" "undisturbed c s' s''" shows "undisturbed c s s''"
proof -
  obtain P Q where "P (TM_TSK c)" "timer_queue s' = filter P (timer_queue s)" "Q (TM_TSK c)" "timer_queue s'' = filter Q (timer_queue s')"
    using assms by (auto simp: undisturbed_def)
  then have "\<exists>R. R (TM_TSK c) \<and> timer_queue s'' = filter R (timer_queue s)" by (intro exI[of _ "\<lambda>e. P e \<and> Q e"]) (simp add: conj_commute)
  then show ?thesis using assms by (simp add: undisturbed_def)
qed

lemma removeAll_filter: "removeAll x xs = filter (\<lambda>y. y \<noteq> x) xs"
  by (induction xs) auto

lemma undisturbed_release:
  assumes "t \<noteq> c" shows "undisturbed c s (knl_wait_release_ok t s)" "undisturbed c s (knl_make_non_wait t (que_remove t s))"
proof -
  have "timer_queue (knl_wait_release_ok t s) = filter (\<lambda>e. e \<noteq> TM_TSK t) (timer_queue s)"
    by (simp add: knl_wait_release_ok_def removeAll_filter)
  then have "\<exists>P. P (TM_TSK c) \<and> timer_queue (knl_wait_release_ok t s) = filter P (timer_queue s)"
    using assms by (intro exI[of _ "\<lambda>e. e \<noteq> TM_TSK t"]) simp
  then show "undisturbed c s (knl_wait_release_ok t s)" using assms by (simp add: undisturbed_def knl_wait_release_ok_def)
  show "undisturbed c s (knl_make_non_wait t (que_remove t s))" by (rule undisturbedI) (use assms in simp_all)
qed

lemma undisturbed_sem: "c \<notin> set ts \<Longrightarrow> undisturbed c s (chg_pri_sem_loop i ts s)"
proof (induction ts arbitrary: s)
  case (Cons t ts)
  have "undisturbed c s (upd_semcb i f (knl_wait_release_ok t s))" for f
    by (rule undisturbed_trans[OF undisturbed_release(1)]) (use Cons.prems in \<open>auto intro!: undisturbedI simp: upd_semcb_def\<close>)
  moreover have "undisturbed c s s" by (rule undisturbedI) simp_all
  ultimately show ?case using Cons undisturbed_trans by (simp add: Let_def) blast
qed (auto intro: undisturbedI)

lemma undisturbed_mbf: "c \<notin> set (que s (QMbfSnd i)) \<Longrightarrow> undisturbed c s (knl_mbf_wakeup i s)"
proof (induction i s rule: knl_mbf_wakeup.induct)
  case (1 i s)
  have r: "undisturbed c s s" by (rule undisturbedI) simp_all
  show ?case
  proof (cases "que s (QMbfSnd i)")
    case Nil
    then show ?thesis using r by (simp add: knl_mbf_wakeup.simps)
  next
    case (Cons t ts)
    let ?z = "winfo_smbf_msgsz (winfo (tcb s t))"
    let ?m = "msg_to_mbf i (winfo_smbf_msg (winfo (tcb s t))) ?z s"
    have m: "undisturbed c s ?m" by (rule undisturbedI) (simp_all add: msg_to_mbf_def split: prod.split)
    have k: "undisturbed c s (knl_wait_release_ok t ?m)"
      by (rule undisturbed_trans[OF m undisturbed_release(1)]) (use 1(2) Cons in auto)
    have q: "c \<notin> set (que (knl_wait_release_ok t ?m) (QMbfSnd i))" using 1(2) by (simp add: knl_wait_release_ok_def)
    show ?thesis
    proof (cases "knl_mbf_free (mbfcb s i) ?z")
      case True
      then have "knl_mbf_wakeup i s = knl_mbf_wakeup i (knl_wait_release_ok t ?m)"
        using Cons by (subst knl_mbf_wakeup.simps) simp
      then show ?thesis using 1(1)[OF Cons refl] True q undisturbed_trans[OF k] by simp
    qed (use Cons r in \<open>simp add: knl_mbf_wakeup.simps\<close>)
  qed
qed

lemma undisturbed_rel_wai:
  assumes "\<And>w. c \<notin> set (que s (QWait w))" shows "undisturbed c s (obj_rel_wai t s)"
proof -
  have r: "undisturbed c s s" by (rule undisturbedI) simp_all
  have "undisturbed c s (chg_pri_sem_loop i (que s (QSem i)) s)" for i by (rule undisturbed_sem[OF assms])
  then show ?thesis using r undisturbed_mbf[OF assms]
    by (simp add: obj_rel_wai_def sem_rel_wai_def sem_chg_pri_def knl_mbf_rel_wai_def knl_mbf_chg_pri_def Let_def split: WSPEC.split)
qed

section \<open>One callback\<close>

text \<open>What a callback for another event leaves of the task's event and of the order of the queue.\<close>

definition passed :: "nat \<Rightarrow> 'a kstate_scheme \<Rightarrow> 'a kstate_scheme \<Rightarrow> bool" where
  "passed c s s' \<longleftrightarrow> state (tcb s' c) = state (tcb s c) \<and> wspec (tcb s' c) = wspec (tcb s c) \<and> wercd (tcb s' c) = wercd (tcb s c) \<and>
     tmeb_time s' (TM_TSK c) = tmeb_time s (TM_TSK c) \<and> (TM_TSK c \<in> set (timer_queue s') \<longleftrightarrow> TM_TSK c \<in> set (timer_queue s)) \<and>
     (timer_sorted s \<longrightarrow> timer_sorted s')"

lemma passed_trans: "passed c s s' \<Longrightarrow> passed c s' s'' \<Longrightarrow> passed c s s''"
  by (simp add: passed_def)

lemma sorted_map_filter: "sorted (map f xs) \<Longrightarrow> sorted (map f (filter P xs))"
  by (induction xs) auto

lemma undisturbed_passed:
  assumes "undisturbed c s s'" shows "passed c s s'"
proof -
  obtain P where P: "P (TM_TSK c)" "timer_queue s' = filter P (timer_queue s)" using assms by (auto simp: undisturbed_def)
  have k: "tkey s' = tkey s" using assms by (simp add: fun_eq_iff tkey_def timer_ofs_def undisturbed_def)
  have "timer_sorted s \<Longrightarrow> timer_sorted s'" by (simp add: timer_sorted_def k P(2) sorted_map_filter)
  then show ?thesis using assms P by (simp add: passed_def undisturbed_def)
qed

lemma passed_cyc:
  assumes "TM_CYC i \<notin> set (timer_queue s)" shows "passed c s (knl_cyc_timer_insert i tm s)"
proof -
  have "tmeb_time (knl_timer_insert_abs (TM_CYC i) tm s) (TM_TSK c) = tmeb_time s (TM_TSK c)"
    by (simp add: knl_timer_insert_abs_def knl_enqueue_tmeb_def Let_def)
  then show ?thesis using timer_sorted_insert(3)[OF _ assms] by (simp add: passed_def knl_cyc_timer_insert_def)
qed

text \<open>Handlers that do not concern the task: they neither wake it up nor cancel its timeout.\<close>

definition calm_handler :: "nat \<Rightarrow> 'a handler \<Rightarrow> bool" where
  "calm_handler c hdr \<longleftrightarrow> quiet_handler hdr \<and> (\<forall>h x s. core_inv s \<longrightarrow> undisturbed c s (hdr h x s))"

lemma cpu_passed:
  "passed c s (s'\<lparr>cpu_mie := b\<rparr>) = passed c s s'" "passed c (s\<lparr>cpu_intlevel := l, cpu_mie := b\<rparr>) s' = passed c s s'"
  "passed c (upd_almcb i f u) s' = passed c u s'"
  by (simp_all add: passed_def timer_sorted_def tkey_def[abs_def] timer_ofs_def upd_almcb_def)

lemma callback_passed:
  assumes h: "calm_handler c hdr" and inv: "tick_inv cur s" and e: "e \<noteq> TM_TSK c" "e \<notin> set (timer_queue s)"
    and t: "\<And>t. e = TM_TSK t \<Longrightarrow> wspec (tcb s t) \<noteq> knl_wspec_mtx_inherit"
    and c: "\<And>w. c \<notin> set (que s (QWait w))" and r: "timer_callback hdr e s = Some s'"
  shows "passed c s s'"
proof (cases e)
  case (TM_TSK t)
  let ?n = "knl_make_non_wait t (que_remove t s)"
  have ne: "t \<noteq> c" using e(1) TM_TSK by simp
  have "wspec (tcb ?n t) = wspec (tcb s t)" by simp
  then have "s' = obj_rel_wai t ?n"
    using r t[OF TM_TSK] by (simp add: TM_TSK timer_callback_def knl_wait_release_tmout_def rel_wai_hook_obj)
  moreover have "undisturbed c ?n (obj_rel_wai t ?n)" by (rule undisturbed_rel_wai) (use c in simp)
  ultimately show ?thesis using undisturbed_trans[OF undisturbed_release(2)[OF ne]] undisturbed_passed by blast
next
  case (TM_CYC i)
  let ?r = "knl_cyc_timer_insert i (knl_cyc_next_time i s) s"
  let ?u = "?r\<lparr>cpu_intlevel := TIMER_INTLEVEL, cpu_mie := True\<rparr>"
  have "core_inv s" using inv by (simp add: tick_inv_def)
  then have "core_inv ?r" unfolding knl_cyc_timer_insert_def by (rule core_inv_timer_insert_abs) (use e(2) TM_CYC in simp_all)
  then have "core_inv ?u" by (subst core_inv_cong[of _ ?r]) simp_all
  then have "passed c ?u (hdr a x ?u)" for a x using h by (auto simp: calm_handler_def intro: undisturbed_passed)
  then have p: "passed c ?r ((hdr a x ?u)\<lparr>cpu_mie := False\<rparr>)" for a x by (simp add: cpu_passed)
  have "passed c s ?r" by (rule passed_cyc) (use e(2) TM_CYC in simp)
  from passed_trans[OF this p] show ?thesis using r by (auto simp: TM_CYC timer_callback_def knl_call_cychdr_def Let_def)
next
  case (TM_ALM i)
  let ?r = "upd_almcb i (\<lambda>cb. cb\<lparr>almstat := almstat cb AND NOT TALM_STA\<rparr>) s"
  let ?u = "?r\<lparr>cpu_intlevel := TIMER_INTLEVEL, cpu_mie := True\<rparr>"
  have "core_inv ?u" using inv by (subst core_inv_cong[of _ s]) (simp_all add: tick_inv_def upd_almcb_def)
  then have "passed c ?u (hdr a x ?u)" for a x using h by (auto simp: calm_handler_def intro: undisturbed_passed)
  then show ?thesis using r by (auto simp: TM_ALM timer_callback_def knl_call_almhdr_def Let_def cpu_passed)
qed

section \<open>The tick\<close>

definition asleep :: "nat \<Rightarrow> ABSTIM \<Rightarrow> 'a kstate_scheme \<Rightarrow> bool" where
  "asleep c T s \<longleftrightarrow> TM_TSK c \<in> set (timer_queue s) \<and> tmeb_time s (TM_TSK c) = T \<and> state (tcb s c) = TS_WAIT \<and>
     wspec (tcb s c) = knl_wspec_slp \<and> wercd (tcb s c) = Some E_TMOUT"

definition awake :: "nat \<Rightarrow> 'a kstate_scheme \<Rightarrow> bool" where
  "awake c s \<longleftrightarrow> TM_TSK c \<notin> set (timer_queue s) \<and> state (tcb s c) = TS_READY \<and> wercd (tcb s c) = Some E_TMOUT"

lemma unqueued:
  assumes "core_inv s" "asleep c T s \<or> awake c s" shows "c \<notin> set (que s (QWait w))"
proof -
  have "home (tcb s c) \<noteq> Some (QWait w)" using assms(2) by (auto simp: asleep_def awake_def home_def)
  then show ?thesis using task_inv_mem[OF core_invD(1)[OF assms(1)], of c "QWait w"] by simp
qed

lemma passed_keeps: "passed c s s' \<Longrightarrow> asleep c T s \<Longrightarrow> asleep c T s'" "passed c s s' \<Longrightarrow> awake c s \<Longrightarrow> awake c s'"
  by (simp_all add: passed_def asleep_def awake_def)

text \<open>The callback of the task's own event.\<close>

lemma own_callback:
  assumes "asleep c T (s\<lparr>timer_queue := e # rest\<rparr>)" "TM_TSK c \<notin> set rest" "timer_sorted (s\<lparr>timer_queue := rest\<rparr>)"
    and r: "timer_callback hdr (TM_TSK c) (s\<lparr>timer_queue := rest\<rparr>) = Some s'"
  shows "awake c s' \<and> timer_sorted s'"
proof -
  let ?n = "knl_make_non_wait c (que_remove c (s\<lparr>timer_queue := rest\<rparr>))"
  have "wspec (tcb ?n c) = knl_wspec_slp" using assms(1) by (simp add: asleep_def)
  then have s': "s' = ?n" using r by (simp add: timer_callback_def knl_wait_release_tmout_def rel_wai_hook_obj) (simp add: obj_rel_wai_def)
  have "tkey ?n = tkey (s\<lparr>timer_queue := rest\<rparr>)" by (simp add: fun_eq_iff tkey_def timer_ofs_def)
  then have "timer_sorted ?n" using assms(3) by (simp add: timer_sorted_def)
  moreover have "awake c ?n" using assms(1,2) by (simp add: awake_def asleep_def released_def)
  ultimately show ?thesis by (simp add: s')
qed

definition tick_state :: "nat \<Rightarrow> ABSTIM \<Rightarrow> LSYSTIM \<Rightarrow> 'a timstate_scheme \<Rightarrow> bool" where
  "tick_state c T cur s \<longleftrightarrow> tick_inv cur s \<and> timer_sorted s \<and> (asleep c T s \<or> knl_abstim_reached (lltoul cur) T \<and> awake c s)"

lemma tick_state_step:
  assumes h: "calm_handler c hdr" and i: "tick_state c T cur s" and e: "timer_queue s = e # rest" and r: "knl_abstim_reached (lltoul cur) (tmeb_time s e)"
  shows "\<exists>s'. timer_callback hdr e (s\<lparr>timer_queue := rest\<rparr>) = Some s' \<and> tick_state c T cur s' \<and>
    due_events (lltoul cur) s' \<subseteq> due_events (lltoul cur) s - {e}"
proof -
  let ?s = "s\<lparr>timer_queue := rest\<rparr>"
  have inv: "tick_inv cur s" and so: "timer_sorted s" and aw: "asleep c T s \<or> knl_abstim_reached (lltoul cur) T \<and> awake c s"
    using i by (auto simp: tick_state_def)
  have q: "quiet_handler hdr" using h by (simp add: calm_handler_def)
  obtain s' where s': "timer_callback hdr e ?s = Some s'" "tick_inv cur s'" "due_events (lltoul cur) s' \<subseteq> due_events (lltoul cur) s - {e}"
    using timer_callback_step[OF q inv e] by blast
  note D = drop_event[OF inv e]
  have so1: "timer_sorted ?s" using so e by (simp add: timer_sorted_def tkey_def[abs_def] timer_ofs_def)
  have "tick_state c T cur s'"
  proof (cases "e = TM_TSK c")
    case True
    have a: "asleep c T s" using aw True e by (auto simp: awake_def)
    moreover have "s\<lparr>timer_queue := e # rest\<rparr> = s" using e by (cases s) simp
    ultimately have "awake c s' \<and> timer_sorted s'" using own_callback[where c = c and T = T and s = s and e = e and rest = rest and hdr = hdr and s' = s'] D(2) so1 s'(1) True by simp
    moreover have "knl_abstim_reached (lltoul cur) T" using a r True by (simp add: asleep_def)
    ultimately show ?thesis using s'(2) by (simp add: tick_state_def)
  next
    case False
    have a: "asleep c T ?s \<or> knl_abstim_reached (lltoul cur) T \<and> awake c ?s" using aw False e by (auto simp: asleep_def awake_def)
    have "core_inv ?s" using D(1) by (simp add: tick_inv_def)
    then have nq: "c \<notin> set (que ?s (QWait w))" for w using unqueued[of ?s c T w] a by blast
    have "passed c ?s s'"
      by (rule callback_passed[OF h D(1) False _ _ nq s'(1)]) (use D(2) inv e in \<open>auto simp: tick_inv_def\<close>)
    then show ?thesis using a passed_keeps[of c ?s s'] so1 s'(2) by (auto simp: tick_state_def passed_def)
  qed
  then show ?thesis using s' by blast
qed

text \<open>Between two ticks: nothing in the queue is due.\<close>

definition resting :: "'a timstate_scheme \<Rightarrow> bool" where
  "resting s \<longleftrightarrow> tick_ready s \<and> timer_sorted s \<and> timer_pending s"

lemma one_tick:
  assumes h: "calm_handler c hdr" and r: "resting s" and a: "asleep c T s"
  shows "\<exists>s'. knl_timer_handler hdr s = Some s' \<and> resting s' \<and> current_time s' = current_time s + 1 \<and>
    (if knl_abstim_reached (lltoul (current_time s')) T then awake c s' else asleep c T s')"
proof -
  let ?c = "current_time s + of_nat TIMER_PERIOD"
  let ?t = "s\<lparr>current_time := ?c\<rparr>"
  let ?s = "charge_time ?t"
  have ti: "tick_inv ?c ?s" by (rule tick_ready_start) (use r in \<open>simp add: resting_def\<close>)
  have "timer_sorted ?t" by (rule timer_sorted_tick) (use r in \<open>simp_all add: resting_def\<close>)
  then have so: "timer_sorted ?s" by (simp add: timer_sorted_def tkey_def[abs_def] timer_ofs_def)
  have "state (tcb ?s c) = state (tcb s c)" "wercd (tcb ?s c) = wercd (tcb s c)"
    by (simp_all add: charge_time_def upd_tcb_def split: option.split)
  then have "asleep c T ?s" using a by (simp add: asleep_def)
  then have "tick_state c T ?c ?s" using ti so by (simp add: tick_state_def)
  from timer_loop_ends[where I = "tick_state c T ?c", OF tick_state_step[OF h] this]
  obtain u where u: "timer_loop (timer_callback hdr) (lltoul ?c) ?s = Some u" "tick_state c T ?c u" "caught_up (lltoul ?c) u" by blast
  let ?e = "END_CRITICAL_SECTION u"
  have k: "knl_timer_handler hdr s = Some ?e" using u(1) by (simp add: knl_timer_handler_def Let_def)
  have tu: "tick_inv ?c u" "timer_sorted u" "current_time u = ?c" using u(2) by (auto simp: tick_state_def tick_inv_def)
  have p: "timer_pending u" by (rule caught_up_pending[OF tu(2)]) (use u(3) tu(3) in simp)
  have "cyccb ?e = cyccb u" by (rule timst_frame(1), rule mtxst_kframe) simp
  then have "tick_ready ?e" using tu(1) by (simp add: tick_ready_def tick_inv_def)
  then have re: "resting ?e" using tu(2) p by (simp add: resting_def timer_sorted_def timer_pending_def tkey_def[abs_def] timer_ofs_def)
  have "\<not> asleep c T u" if "knl_abstim_reached (lltoul ?c) T" using p that tu(3) by (auto simp: timer_pending_def asleep_def)
  then have "if knl_abstim_reached (lltoul ?c) T then awake c u else asleep c T u" using u(2) by (auto simp: tick_state_def)
  then show ?thesis using k re tu(3) by (simp add: awake_def asleep_def TIMER_PERIOD_def split: if_splits)
qed

primrec ticks :: "'a handler \<Rightarrow> nat \<Rightarrow> 'a timstate_scheme \<Rightarrow> 'a timstate_scheme option" where
  "ticks hdr 0 s = Some s"
| "ticks hdr (Suc n) s = Option.bind (ticks hdr n s) (knl_timer_handler hdr)"

lemma lltoul_ticks: "lltoul (t + of_nat n) = lltoul t + of_nat n"
proof (induction n)
  case (Suc n)
  have "t + of_nat (Suc n) = (t + of_nat n) + 1" by simp
  then have "lltoul (t + of_nat (Suc n)) = lltoul (t + of_nat n) + 1" by (simp only: lltoul_tick)
  then show ?case using Suc by simp
qed simp

lemma sleeps_until:
  assumes h: "calm_handler c hdr" and r: "resting s" and tm: "0 \<le> tmout" "tmout \<le> INT_MAX"
    and a: "asleep c (lltoul (current_time s) + word_of_int tmout + of_nat TIMER_PERIOD) s"
  shows "n \<le> nat tmout + 1 \<Longrightarrow> \<exists>s'. ticks hdr n s = Some s' \<and> resting s' \<and> current_time s' = current_time s + of_nat n \<and>
    (if n \<le> nat tmout then asleep c (lltoul (current_time s) + word_of_int tmout + of_nat TIMER_PERIOD) s' else awake c s')"
proof (induction n)
  case 0
  then show ?case using r a by simp
next
  case (Suc n)
  let ?T = "lltoul (current_time s) + word_of_int tmout + of_nat TIMER_PERIOD"
  obtain u where u: "ticks hdr n s = Some u" "resting u" "current_time u = current_time s + of_nat n" "asleep c ?T u"
    using Suc by (auto split: if_splits)
  obtain s' where s': "knl_timer_handler hdr u = Some s'" "resting s'" "current_time s' = current_time u + 1"
    "if knl_abstim_reached (lltoul (current_time s')) ?T then awake c s' else asleep c ?T s'" using one_tick[OF h u(2,4)] by blast
  have t: "current_time s' = current_time s + of_nat (Suc n)" using s'(3) u(3) by simp
  have "Suc n \<le> 2 ^ 31" using Suc.prems tm by (simp add: INT_MAX_def)
  from timeout_exact[OF tm this, of "lltoul (current_time s)"]
  have "knl_abstim_reached (lltoul (current_time s')) ?T \<longleftrightarrow> \<not> Suc n \<le> nat tmout"
    unfolding t lltoul_ticks using tm(1) by auto
  then show ?case using u(1) s'(1,2,4) t by (simp del: of_nat_Suc)
qed

section \<open>From the call to the tick\<close>

lemma sleep_state:
  fixes s :: "'a timstate_scheme"
  assumes inv: "core_inv s" "run_ok s" and re: "resting s" and c: "ctxtsk s = Some c" "\<not> in_ddsp s" "wupcnt (tcb s c) = 0"
    and tm: "0 < tmout" "tmout \<le> INT_MAX"
  defines "s1 \<equiv> snd (tk_slp_tsk tmout s)"
  shows "fst (tk_slp_tsk tmout s) = Blocked" "current_time s1 = current_time s" "resting s1"
    "asleep c (lltoul (current_time s) + word_of_int tmout + of_nat TIMER_PERIOD) s1"
proof -
  let ?u = "upd_tcb c (\<lambda>b. b\<lparr>wspec := knl_wspec_slp, wid := 0, wercd := Some E_TMOUT\<rparr>) s"
  let ?m = "make_wait_state c ?u"
  let ?T = "lltoul (current_time s) + word_of_int tmout + of_nat TIMER_PERIOD"
  have st: "state (tcb s c) = TS_READY" using inv(2) c by (auto simp: run_ok_def)
  have e: "tk_slp_tsk tmout s = (Blocked, END_CRITICAL_SECTION (knl_make_wait c tmout ?u))"
    using c tm by (simp add: tk_slp_tsk_def Let_def check_defs consts_defs)
  then show "fst (tk_slp_tsk tmout s) = Blocked" by simp
  have s1: "s1 = END_CRITICAL_SECTION (knl_timer_insert (TM_TSK c) tmout ?m)" by (simp add: s1_def e knl_make_wait_def)
  have cl: "c < NUM_TSKID" by (rule core_invD(5)[OF inv(1) c(1)])
  have kf: "klock_free ?u" using core_invD(6)[OF inv(1)] by (simp add: klock_free_def)
  note M = make_wait_state_ready[OF kf, of c]
  have mt: "tcb ?m = (tcb s)(c := (tcb s c)\<lparr>wspec := knl_wspec_slp, wid := 0, wercd := Some E_TMOUT, state := TS_WAIT\<rparr>)"
    "timer_queue ?m = timer_queue s" "tmeb_time ?m = tmeb_time s" "current_time ?m = current_time s" "kstate.more ?m = kstate.more s"
    using M st by (simp_all add: upd_tcb_def)
  have f: "tmout \<noteq> TMO_FEVR" using tm by (simp add: consts_defs)
  have ti: "tmeb_time s1 = (tmeb_time s)(TM_TSK c := ?T)" "set (timer_queue s1) = insert (TM_TSK c) (set (timer_queue s))"
    using f by (simp_all add: s1 mt) (simp add: knl_timer_insert_def knl_enqueue_tmeb_def Let_def mt)
  have tb: "tcb s1 = tcb ?m" by (simp add: s1)
  show ct: "current_time s1 = current_time s" by (simp add: s1 mt)
  show "asleep c ?T s1" using ti by (simp add: asleep_def tb mt(1))
  have nq: "TM_TSK c \<notin> set (timer_queue s)" using core_invD(4)[OF inv(1)] st by (auto simp: timer_ok_def)
  have "timer_sorted ?m" using re by (simp add: resting_def timer_sorted_def tkey_def[abs_def] timer_ofs_def mt)
  then have "timer_sorted (knl_timer_insert (TM_TSK c) tmout ?m)" using nq by (intro timer_sorted_insert) (simp_all add: mt)
  then have so: "timer_sorted s1" by (simp add: s1 timer_sorted_def tkey_def[abs_def] timer_ofs_def)
  have "\<not> knl_abstim_reached (lltoul (current_time s)) ?T" using timeout_exact[of tmout 0 "lltoul (current_time s)"] tm by simp
  then have pe: "timer_pending s1" using re nq by (auto simp: resting_def timer_pending_def ct ti)
  have ci: "core_inv s1" unfolding s1_def by (rule tk_slp_tsk_inv[OF inv])
  have "kstate.more s1 = kstate.more s" by (simp add: s1 mt(5))
  then have "cyccb s1 = cyccb s" by (intro timst_frame(1) mtxst_kframe)
  then have "tick_ready s1" using re ci ti(2) by (auto simp: resting_def tick_ready_def tb mt(1))
  then show "resting s1" using so pe by (simp add: resting_def)
qed

text \<open>
  C27. A task that goes to sleep with a timeout, between two ticks of the timer, is put into the
  timer queue and stays asleep over as many ticks as it asked for; the handler of the next tick,
  number \<open>tmout + 1\<close> after the call, releases it with \<^verbatim>\<open>E_TMOUT\<close> and takes its event out of
  the queue, not earlier and not later, whatever the value of the 32-bit clock, also across its
  wrap-around. Every tick returns. The handlers that run at these ticks leave the task alone and put
  no event into the queue; between two ticks the queue is ordered, nothing in it is due, and no task
  waits with a timeout for an inheritance mutex.
\<close>

theorem timeout_expires_exactly:
  fixes s :: "'a timstate_scheme"
  assumes inv: "core_inv s" "run_ok s" and re: "resting s" and c: "ctxtsk s = Some c" "\<not> in_ddsp s" "wupcnt (tcb s c) = 0"
    and tm: "0 < tmout" "tmout \<le> INT_MAX" and h: "calm_handler c hdr" and n: "n \<le> nat tmout + 1"
  shows "fst (tk_slp_tsk tmout s) = Blocked \<and>
    (\<exists>s'. ticks hdr n (snd (tk_slp_tsk tmout s)) = Some s' \<and> current_time s' = current_time s + of_nat n \<and>
      (if n \<le> nat tmout then state (tcb s' c) = TS_WAIT \<and> TM_TSK c \<in> set (timer_queue s')
       else state (tcb s' c) = TS_READY \<and> wercd (tcb s' c) = Some E_TMOUT \<and> TM_TSK c \<notin> set (timer_queue s')))"
proof -
  note S = sleep_state[OF inv re c tm]
  have "0 \<le> tmout" using tm by simp
  from sleeps_until[OF h S(3) this tm(2) _ n] S(2,4) show ?thesis using S(1,2) by (auto simp: asleep_def awake_def split: if_splits)
qed

theorem timeout_expires_exactly_witness:
  "\<exists>s' s''. ticks (\<lambda>h x s. s) 5 (snd (tk_slp_tsk 5 (sample_tim ()\<lparr>current_time := 0xFFFFFFFD, timer_queue := []\<rparr>))) = Some s' \<and>
     state (tcb s' 0) = TS_WAIT \<and>
     ticks (\<lambda>h x s. s) 6 (snd (tk_slp_tsk 5 (sample_tim ()\<lparr>current_time := 0xFFFFFFFD, timer_queue := []\<rparr>))) = Some s'' \<and>
     state (tcb s'' 0) = TS_READY"
proof -
  let ?s = "sample_tim ()\<lparr>current_time := 0xFFFFFFFD, timer_queue := []\<rparr>"
  have "core_inv (sample_tim ()\<lparr>timer_queue := []\<rparr>)"
    using sample_tim_fields(4)[of "()"] by (auto simp: core_inv_def task_inv_def tcb_ok_def timer_ok_def sched_ok_def rq_inv_def klock_free_def
      knl_ready_queue_top_def)
  then have i: "core_inv ?s" by (subst core_inv_cong[of _ "sample_tim ()\<lparr>timer_queue := []\<rparr>"]) simp_all
  have r: "run_ok ?s" "\<not> in_ddsp ?s" "wupcnt (tcb ?s 0) = 0" "ctxtsk ?s = Some 0"
    using sample_mtx_fields(5,6) by (simp_all add: run_ok_def sample_defs sample_tim_def sample_mtx_def sample_mbf_def sample_mbx_def sample_flg_def
      sample_sem_def in_ddsp_def in_indp_def knl_is_dispatch_masked_def)
  have re: "resting ?s" using i by (simp add: resting_def tick_ready_def timer_sorted_def timer_pending_def)
  have h: "calm_handler 0 (\<lambda>h x (s :: timstate). s)"
    by (auto simp: calm_handler_def quiet_handler_def intervals_kept_def intro: undisturbedI)
  show ?thesis
    using timeout_expires_exactly[OF i r(1) re r(4,2,3) _ _ h, of 5 5] timeout_expires_exactly[OF i r(1) re r(4,2,3) _ _ h, of 5 6]
    by (auto simp: INT_MAX_def)
qed

end
