(* ===== verification/Dispatch.thy ===== *)
theory Dispatch
  imports Task_Manage
begin

text \<open>
  The task switch: interrupt entry (\<^verbatim>\<open>rtos_int_enter\<close> of
  \<^verbatim>\<open>components/freertos_shim/shim_stubs.c\<close>) and exit (\<^verbatim>\<open>__wrap_rtos_int_exit\<close> of
  \<^verbatim>\<open>cpu_cntl.c\<close>), where \<^verbatim>\<open>knl_ctxtsk\<close> becomes \<^verbatim>\<open>knl_schedtsk\<close>, and the calls of
  \<^verbatim>\<open>cpuctl.c\<close> that disable and enable it. The trap entry of the vendor's \<^verbatim>\<open>vectors.S\<close>
  pushes the frame the stack pointer points to on entry, and restores the interrupted threshold
  before the exit routine runs: the stack pointer and the threshold in the state are those values.
\<close>

section \<open>Operations\<close>

definition CHECK_CTX :: "bool \<Rightarrow> ER" where
  "CHECK_CTX b = (if b then E_OK else E_CTX)"

definition tk_dis_dsp :: "'a kstate_scheme \<Rightarrow> sysret \<times> 'a kstate_scheme" where
  "tk_dis_dsp s =
     (let e = CHECK_CTX (\<not> in_loc s)
      in if e < E_OK then (Ret e, s) else (Ret E_OK, s\<lparr>dispatch_disabled := DDS_DISABLE\<rparr>))"

definition tk_ena_dsp :: "'a kstate_scheme \<Rightarrow> sysret \<times> 'a kstate_scheme" where
  "tk_ena_dsp s =
     (let e = CHECK_CTX (\<not> in_loc s); s1 = s\<lparr>dispatch_disabled := 0\<rparr>
      in if e < E_OK then (Ret e, s)
         else (Ret E_OK, if ctxtsk s1 \<noteq> schedtsk s1 then knl_dispatch s1 else s1))"

definition rtos_int_enter :: "addr \<Rightarrow> 'a kstate_scheme \<Rightarrow> 'a kstate_scheme" where
  "rtos_int_enter knl_int_stack_top s =
     (let s1 = s\<lparr>taskindp := taskindp s + 1, isr_nest := isr_nest s + 1\<rparr>
      in if isr_nest s1 \<noteq> 1 then s1
         else s1\<lparr>int_saved_sp := cpu_sp s1, cpu_sp := knl_int_stack_top\<rparr>)"

definition save_context :: "nat \<Rightarrow> 'a kstate_scheme \<Rightarrow> 'a kstate_scheme" where
  "save_context c s =
     upd_tcb c (\<lambda>b. b\<lparr>tskctxb := (tskctxb b)\<lparr>ssp := cpu_sp s, intlevel := cpu_intlevel s\<rparr>\<rparr>) s"

definition wrap_rtos_int_exit :: "'a kstate_scheme \<Rightarrow> 'a kstate_scheme" where
  "wrap_rtos_int_exit s =
     (let s1 = s\<lparr>taskindp := taskindp s - 1, isr_nest := isr_nest s - 1\<rparr>
      in if isr_nest s1 \<noteq> 0 then s1
         else
           let s2 = s1\<lparr>cpu_sp := int_saved_sp s1\<rparr>
           in if taskindp s2 \<noteq> 0 \<or> dispatch_disabled s2 \<noteq> 0 \<or> ctxtsk s2 = schedtsk s2 then s2
              else
                (case schedtsk s2 of
                   None \<Rightarrow> s2
                 | Some n \<Rightarrow>
                     let s3 = (case ctxtsk s2 of None \<Rightarrow> s2 | Some c \<Rightarrow> save_context c s2)
                     in s3\<lparr>ctxtsk := Some n, cpu_sp := ssp (tskctxb (tcb s3 n)),
                           cpu_intlevel := intlevel (tskctxb (tcb s3 n))\<rparr>))"

section \<open>Invariant\<close>

lemma core_inv_context:
  assumes "core_inv s" shows "core_inv (upd_tcb t (tskctxb_update f) s)"
  by (rule core_inv_upd_tcb[OF assms]) (use core_invD(3)[OF assms] in \<open>auto simp: tcb_ok_def Let_def upd_tcb_def\<close>)

lemma core_inv_cpu [simp]:
  "core_inv (s\<lparr>cpu_sp := a\<rparr>) = core_inv s" "core_inv (s\<lparr>cpu_intlevel := l\<rparr>) = core_inv s"
  "core_inv (s\<lparr>taskindp := i\<rparr>) = core_inv s" "core_inv (s\<lparr>isr_nest := j\<rparr>) = core_inv s"
  "core_inv (s\<lparr>int_saved_sp := a\<rparr>) = core_inv s" "core_inv (s\<lparr>dispatch_disabled := d\<rparr>) = core_inv s"
  "core_inv (s\<lparr>dsp_req := b\<rparr>) = core_inv s" "core_inv (s\<lparr>cpu_mie := b\<rparr>) = core_inv s"
  by (rule core_inv_cong; simp)+

lemma core_inv_ctxtsk:
  assumes "core_inv s" "n < NUM_TSKID" shows "core_inv (s\<lparr>ctxtsk := Some n\<rparr>)"
proof -
  have "knl_ready_queue_top (s\<lparr>ctxtsk := Some n\<rparr>) = knl_ready_queue_top s" by (rule top_cong) simp_all
  moreover have "rq_inv (s\<lparr>ctxtsk := Some n\<rparr>) = rq_inv s" by (rule rq_inv_cong) simp_all
  ultimately show ?thesis using assms
    by (simp add: core_inv_def task_inv_def sched_ok_def klock_free_def tcb_ok_def timer_ok_def)
qed

text \<open>The scheduled task is ready and no ready task has a higher priority.\<close>

lemma schedtsk_highest:
  assumes inv: "core_inv s" and n: "schedtsk s = Some n"
  shows "n < NUM_TSKID" "state (tcb s n) = TS_READY"
    "u < NUM_TSKID \<Longrightarrow> state (tcb s u) = TS_READY \<Longrightarrow> priority (tcb s n) \<le> priority (tcb s u)"
proof -
  note I = core_invD[OF inv]
  have tn: "knl_ready_queue_top s = Some n" using I(8) n by simp
  have kt: "klocktsk s = None" using I(6) by (simp add: klock_free_def)
  note T = rq_top_SomeD[OF I(7) kt tn]
  have m: "n < NUM_TSKID \<and> home (tcb s n) = Some (QRdy (top_priority s))"
    using task_inv_mem[OF I(1), of n "QRdy (top_priority s)"] T by auto
  then show "n < NUM_TSKID" "state (tcb s n) = TS_READY" by auto
  assume u: "u < NUM_TSKID" "state (tcb s u) = TS_READY"
  then have "u \<in> set (que s (QRdy (priority (tcb s u))))" using task_inv_mem[OF I(1)] by simp
  then have "que s (QRdy (priority (tcb s u))) \<noteq> []" by auto
  then have "\<not> priority (tcb s u) < top_priority s" using I(7) by (auto simp: rq_inv_def)
  then show "priority (tcb s n) \<le> priority (tcb s u)" using m by auto
qed

lemma int_exit_inv:
  assumes "core_inv s" shows "core_inv (wrap_rtos_int_exit s)"
proof -
  have sv: "core_inv (save_context c s')" if "core_inv s'" for c s'
    using core_inv_context[OF that, of c "\<lambda>_. (tskctxb (tcb s' c))\<lparr>ssp := cpu_sp s', intlevel := cpu_intlevel s'\<rparr>"]
    by (simp add: save_context_def upd_tcb_def)
  show ?thesis using assms schedtsk_highest(1)[OF assms]
    by (auto simp: wrap_rtos_int_exit_def Let_def sv core_inv_ctxtsk split: option.split)
qed

section \<open>Properties\<close>

text \<open>The end of the outermost interrupt with dispatching enabled.\<close>

definition switch_point :: "'a kstate_scheme \<Rightarrow> bool" where
  "switch_point s \<longleftrightarrow> isr_nest s = 1 \<and> taskindp s = 1 \<and> dispatch_disabled s = 0"

lemma switch_ctxtsk:
  assumes "switch_point s" "schedtsk s = Some n"
  shows "ctxtsk (wrap_rtos_int_exit s) = Some n" "priority (tcb (wrap_rtos_int_exit s) u) = priority (tcb s u)"
    "state (tcb (wrap_rtos_int_exit s) u) = state (tcb s u)"
  using assms by (auto simp: wrap_rtos_int_exit_def Let_def switch_point_def save_context_def upd_tcb_def split: option.split)

lemma enter_exit_levels:
  "isr_nest s = 0 \<Longrightarrow> taskindp s = 0 \<Longrightarrow> dispatch_disabled s = 0 \<Longrightarrow> switch_point (rtos_int_enter a s)"
  "switch_point s \<Longrightarrow> isr_nest (wrap_rtos_int_exit s) = 0 \<and> taskindp (wrap_rtos_int_exit s) = 0 \<and> dispatch_disabled (wrap_rtos_int_exit s) = 0"
  "ctxtsk (rtos_int_enter a s) = ctxtsk s" "schedtsk (rtos_int_enter a s) = schedtsk s" "tcb (rtos_int_enter a s) = tcb s"
  "isr_nest s = 0 \<Longrightarrow> int_saved_sp (rtos_int_enter a s) = cpu_sp s" "cpu_intlevel (rtos_int_enter a s) = cpu_intlevel s"
  "core_inv (rtos_int_enter a s) = core_inv s"
  by (auto simp: rtos_int_enter_def wrap_rtos_int_exit_def Let_def switch_point_def save_context_def upd_tcb_def split: option.split)

text \<open>
  C3. At the end of the outermost interrupt, with dispatching enabled, the processor is given to a
  ready task, and no ready task has a higher priority; the kernel's invariant holds again.
\<close>

theorem dispatch_runs_highest:
  assumes inv: "core_inv s" and sp: "switch_point s" and n: "schedtsk s = Some n"
  shows "core_inv (wrap_rtos_int_exit s) \<and> ctxtsk (wrap_rtos_int_exit s) = Some n \<and>
    state (tcb (wrap_rtos_int_exit s) n) = TS_READY \<and>
    (\<forall>u < NUM_TSKID. state (tcb (wrap_rtos_int_exit s) u) = TS_READY \<longrightarrow>
       priority (tcb (wrap_rtos_int_exit s) n) \<le> priority (tcb (wrap_rtos_int_exit s) u))"
  using int_exit_inv[OF inv] switch_ctxtsk[OF sp n] schedtsk_highest[OF inv n] by simp

theorem dispatch_runs_highest_witness:
  "ctxtsk (wrap_rtos_int_exit (rtos_int_enter 0 ((sample_kernel ())\<lparr>ctxtsk := Some 1\<rparr>))) = Some 0"
proof -
  let ?s = "rtos_int_enter 0 ((sample_kernel ())\<lparr>ctxtsk := Some 1\<rparr>)"
  have inv: "core_inv ((sample_kernel ())\<lparr>ctxtsk := Some 1\<rparr>)"
    by (rule core_inv_ctxtsk[OF core_inv_sample]) (simp add: NUM_TSKID_def)
  have "core_inv ?s" using inv by (simp add: enter_exit_levels)
  moreover have "switch_point ?s" by (rule enter_exit_levels) (simp_all add: sample_kernel_def)
  moreover have "schedtsk ?s = Some 0" by (simp add: enter_exit_levels) (simp add: sample_kernel_def)
  ultimately show ?thesis using dispatch_runs_highest by blast
qed



end
