(* ===== verification/Plain_System.thy ===== *)
theory Plain_System
  imports Task_Properties Dispatch
begin

text \<open>
  No call on tasks, semaphores, event flags or mailboxes gives a task a mutex: the list of mutexes a
  task holds (\<^verbatim>\<open>tcb->mtxlist\<close>) is left alone by every routine these calls are made of. So a
  system that uses these objects and neither mutexes nor message buffers stays one (\<open>plain_sys\<close>).
\<close>

section \<open>The list of mutexes of a task\<close>

definition mtxlists :: "'a kstate_scheme \<Rightarrow> nat \<Rightarrow> nat list" where
  "mtxlists s t = mtxlist (tcb s t)"

lemma mtxlists_upd [simp]: "(\<And>b. mtxlist (f b) = mtxlist b) \<Longrightarrow> mtxlists (upd_tcb t f s) = mtxlists s"
  by (simp add: mtxlists_def fun_eq_iff upd_tcb_def)

lemma mtxlists_cong: "tcb s' = tcb s \<Longrightarrow> mtxlists s' = mtxlists s"
  by (simp add: mtxlists_def fun_eq_iff)

lemma mtxlists_kernel [simp]:
  "mtxlists (END_CRITICAL_SECTION s) = mtxlists s" "mtxlists (set_wercd t e s) = mtxlists s"
  "mtxlists (knl_timer_delete ev s) = mtxlists s" "mtxlists (que_remove t s) = mtxlists s"
  "mtxlists (que_insert t q s) = mtxlists s" "mtxlists (knl_queue_insert_tpri t w s) = mtxlists s"
  "mtxlists (knl_timer_insert ev tmout s) = mtxlists s" "mtxlists (knl_timer_insert_reltim ev rt s) = mtxlists s"
  "mtxlists (knl_rotate_ready_queue p s) = mtxlists s"
  by (simp_all add: mtxlists_def fun_eq_iff knl_queue_insert_tpri_def que_insert_def knl_rotate_ready_queue_def
    knl_ready_queue_rotate_def que_remove_next_def split: list.split)

lemma mtxlists_objects [simp]:
  "mtxlists (upd_semcb i f1 s1) = mtxlists s1" "mtxlists (upd_flgcb i f2 s2) = mtxlists s2"
  "mtxlists (upd_mbxcb i f3 s3) = mtxlists s3" "mtxlists (que_init q s) = mtxlists s"
  "mtxlists (set_nextmsg l m s3) = mtxlists s3" "mtxlists (s\<lparr>umem := u\<rparr>) = mtxlists s"
  "mtxlists (s1\<lparr>free_semcb := x\<rparr>) = mtxlists s1" "mtxlists (s2\<lparr>free_flgcb := x\<rparr>) = mtxlists s2"
  "mtxlists (s3\<lparr>free_mbxcb := x\<rparr>) = mtxlists s3"
  by (simp_all add: mtxlists_def fun_eq_iff upd_semcb_def upd_flgcb_def upd_mbxcb_def que_init_def set_nextmsg_def)

lemma mtxlists_states [simp]:
  "mtxlists (knl_make_ready t s) = mtxlists s" "mtxlists (knl_make_non_ready t s) = mtxlists s"
  "mtxlists (knl_wait_release t s) = mtxlists s" "mtxlists (knl_wait_release_ok t s) = mtxlists s"
  "mtxlists (make_wait_state t s) = mtxlists s"
proof -
  show r: "mtxlists (knl_make_ready t s) = mtxlists s" for s :: "'a kstate_scheme" by (auto simp: mtxlists_def fun_eq_iff)
  show n: "mtxlists (knl_make_non_ready t s) = mtxlists s" for s :: "'a kstate_scheme"
    by (auto simp: mtxlists_def fun_eq_iff knl_make_non_ready_def knl_ready_queue_delete_def Let_def upd_tcb_def que_remove_def)
  show "mtxlists (knl_wait_release t s) = mtxlists s" "mtxlists (knl_wait_release_ok t s) = mtxlists s"
    by (auto simp: mtxlists_def fun_eq_iff knl_wait_release_ok_def)
  show "mtxlists (make_wait_state t s) = mtxlists s" by (simp add: make_wait_state_def n split: TSTAT.split)
qed

lemma mtxlists_waits [simp]:
  "mtxlists (knl_make_wait t tmout s) = mtxlists s" "mtxlists (knl_make_wait_reltim t rt s) = mtxlists s"
  "mtxlists (knl_gcb_make_wait w i a t tmout s) = mtxlists s" "mtxlists (prepare_wait t ws wi s) = mtxlists s"
  "mtxlists (knl_gcb_change_priority w t s) = mtxlists s"
  by (simp_all add: knl_make_wait_def knl_make_wait_reltim_def knl_gcb_make_wait_def Let_def prepare_wait_def knl_gcb_change_priority_def)

section \<open>The calls\<close>

lemma mtxlists_wait_delete [simp]: "mtxlists (knl_wait_delete w s) = mtxlists s"
  by (induction w s rule: knl_wait_delete.induct) (subst knl_wait_delete.simps, simp split: list.split)

lemma mtxlists_loops [simp]:
  "mtxlists (sig_sem_loop i ts s1) = mtxlists s1" "mtxlists (chg_pri_sem_loop i ts s1) = mtxlists s1"
  "mtxlists (set_flg_loop i ts s2) = mtxlists s2"
  by (induction ts arbitrary: s1 s2) (simp_all add: Let_def)

lemma mtxlists_sem_rel_wai [simp]: "mtxlists (sem_rel_wai t s) = mtxlists s" "mtxlists (sem_chg_pri t p s) = mtxlists s"
  by (simp_all add: sem_rel_wai_def sem_chg_pri_def Let_def)

lemma mtxlists_task_calls [simp]:
  "mtxlists (snd (tk_sus_tsk oid s)) = mtxlists s" "mtxlists (snd (tk_rsm_tsk oid s)) = mtxlists s"
  "mtxlists (snd (tk_frsm_tsk oid s)) = mtxlists s" "mtxlists (snd (tk_slp_tsk tmout s)) = mtxlists s"
  "mtxlists (snd (tk_wup_tsk oid s)) = mtxlists s" "mtxlists (snd (tk_can_wup oid s)) = mtxlists s"
  "mtxlists (snd (tk_dly_tsk d s)) = mtxlists s" "mtxlists (snd (tk_sta_tsk oid stacd s)) = mtxlists s"
  "mtxlists (snd (tk_rot_rdq p s)) = mtxlists s"
proof -
  show "mtxlists (snd (tk_sus_tsk oid s)) = mtxlists s" by (simp add: tk_sus_tsk_def Let_def)
  show "mtxlists (snd (tk_rsm_tsk oid s)) = mtxlists s" by (simp add: tk_rsm_tsk_def Let_def split: TSTAT.split)
  show "mtxlists (snd (tk_frsm_tsk oid s)) = mtxlists s" by (simp add: tk_frsm_tsk_def Let_def split: TSTAT.split)
  show "mtxlists (snd (tk_slp_tsk tmout s)) = mtxlists s" by (simp add: tk_slp_tsk_def Let_def)
  show "mtxlists (snd (tk_wup_tsk oid s)) = mtxlists s" by (simp add: tk_wup_tsk_def Let_def)
  show "mtxlists (snd (tk_can_wup oid s)) = mtxlists s" by (simp add: tk_can_wup_def Let_def split: TSTAT.split)
  show "mtxlists (snd (tk_dly_tsk d s)) = mtxlists s" by (simp add: tk_dly_tsk_def Let_def)
  show "mtxlists (snd (tk_sta_tsk oid stacd s)) = mtxlists s" by (simp add: tk_sta_tsk_def Let_def knl_setup_stacd_def)
  show "mtxlists (snd (tk_rot_rdq p s)) = mtxlists s"
    by (simp add: tk_rot_rdq_def Let_def knl_rotate_ready_queue_run_def flip: knl_rotate_ready_queue_def)
qed

lemma mtxlists_sem_calls [simp]:
  "mtxlists (snd (tk_cre_sem csem s)) = mtxlists s" "mtxlists (snd (tk_del_sem oid s)) = mtxlists s"
  "mtxlists (snd (tk_sig_sem oid cnt s)) = mtxlists s" "mtxlists (snd (tk_wai_sem oid cnt tmout s)) = mtxlists s"
  by (simp_all add: tk_cre_sem_def cre_sem_def tk_del_sem_def del_sem_def tk_sig_sem_def tk_wai_sem_def Let_def split_beta split: list.split)

lemma mtxlists_flg_calls [simp]:
  "mtxlists (snd (tk_cre_flg cflg s)) = mtxlists s" "mtxlists (snd (tk_del_flg oid s)) = mtxlists s"
  "mtxlists (snd (tk_set_flg oid ptn s)) = mtxlists s" "mtxlists (snd (tk_clr_flg oid ptn s)) = mtxlists s"
  "mtxlists (snd (tk_wai_flg oid ptn mode a tmout s)) = mtxlists s"
  by (simp_all add: tk_cre_flg_def cre_flg_def tk_del_flg_def del_flg_def tk_set_flg_def tk_clr_flg_def tk_wai_flg_def Let_def
    split_beta split: list.split)

lemma link_msg_mtxlists: "link_msg i m s = Some s' \<Longrightarrow> mtxlists s' = mtxlists s"
  by (rule mtxlists_cong) (auto simp: link_msg_def knl_queue_insert_mpri_def set_nextmsg_def upd_mbxcb_def Let_def split: if_splits option.splits)

lemma mtxlists_mbx_calls [simp]:
  "mtxlists (snd (tk_cre_mbx cmbx s)) = mtxlists s" "mtxlists (snd (tk_del_mbx oid s)) = mtxlists s"
  "mtxlists (snd (tk_rcv_mbx oid a tmout s)) = mtxlists s"
  "tk_snd_mbx oid m s = Some (r, s') \<Longrightarrow> mtxlists s' = mtxlists s"
proof -
  show "mtxlists (snd (tk_cre_mbx cmbx s)) = mtxlists s" "mtxlists (snd (tk_del_mbx oid s)) = mtxlists s"
    "mtxlists (snd (tk_rcv_mbx oid a tmout s)) = mtxlists s"
    by (simp_all add: tk_cre_mbx_def cre_mbx_def tk_del_mbx_def del_mbx_def tk_rcv_mbx_def Let_def split_beta split: list.split option.split)
  show "mtxlists s' = mtxlists s" if "tk_snd_mbx oid m s = Some (r, s')"
    using that by (auto simp: tk_snd_mbx_def Let_def link_msg_mtxlists split: if_splits list.splits)
qed

lemma mtxlists_dispatch [simp]:
  "mtxlists (snd (tk_dis_dsp s)) = mtxlists s" "mtxlists (snd (tk_ena_dsp s)) = mtxlists s"
  "mtxlists (rtos_int_enter a s) = mtxlists s" "mtxlists (wrap_rtos_int_exit s) = mtxlists s"
  by (simp_all add: mtxlists_def fun_eq_iff tk_dis_dsp_def tk_ena_dsp_def Let_def knl_dispatch_def wrap_rtos_int_exit_def
    rtos_int_enter_def save_context_def upd_tcb_def split: option.split)

section \<open>Systems without mutexes and message buffers\<close>

definition plain_sys :: "'a kstate_scheme \<Rightarrow> bool" where
  "plain_sys s \<longleftrightarrow> (\<forall>t. mtxlists s t = []) \<and> (\<forall>i. que s (QMtx i) = [] \<and> que s (QMbfSnd i) = [])"

text \<open>The waits whose release concerns no mutex and no message buffer: all waits of such a system.\<close>

definition plain_wait :: "WSPEC \<Rightarrow> bool" where
  "plain_wait w \<longleftrightarrow> w \<notin> {knl_wspec_smbf_tfifo, knl_wspec_smbf_tpri, knl_wspec_mtx_tfifo, knl_wspec_mtx_tpri, knl_wspec_mtx_inherit}"

lemma plain_sys_wait:
  assumes "plain_sys s" "core_inv s" "t < NUM_TSKID" "in_wait (state (tcb s t))"
  shows "plain_wait (wspec (tcb s t))"
proof -
  have "wait_home (wspec (tcb s t)) (wid (tcb s t)) \<noteq> Some (QMtx i)" "wait_home (wspec (tcb s t)) (wid (tcb s t)) \<noteq> Some (QMbfSnd i)" for i
    using assms(1) waiting_in[OF assms(2-4), of "WMtx i"] waiting_in[OF assms(2-4), of "WMbfSnd i"] by (auto simp: plain_sys_def)
  from this[of "INDEX_OBJ (wid (tcb s t))"] show ?thesis by (auto simp: plain_wait_def)
qed

lemma plain_sys_holds: "plain_sys s \<Longrightarrow> mtxlist (tcb s t) = []"
  by (simp add: plain_sys_def mtxlists_def)

lemma plain_sys_frame:
  assumes "plain_sys s" "mtxlists s' = mtxlists s" "frame_waits K s s'" "\<And>i. \<not> K (WMtx i)" "\<And>i. \<not> K (WMbfSnd i)"
  shows "plain_sys s'"
  using assms(1,2) frame_waitsD(1)[OF assms(3)] assms(4,5) by (simp add: plain_sys_def)

end
