(* ===== verification/System_Frames.thy ===== *)
theory System_Frames
  imports Plain_System
begin

text \<open>
  The invariant of the kernel with its tasks, semaphores, event flags and mailboxes, and what it
  takes to keep it: the calls on tasks leave the objects alone (\<open>task_frame\<close>), and a task that
  is released from its wait leaves the object it waited for in a state that satisfies its invariant.
\<close>

section \<open>Calls on tasks leave the objects alone\<close>

definition task_frame :: "'a kstate_scheme \<Rightarrow> 'a kstate_scheme \<Rightarrow> bool" where
  "task_frame s s' \<longleftrightarrow> (\<forall>w. que s' (QWait w) = que s (QWait w)) \<and> (\<forall>t. winfo (tcb s' t) = winfo (tcb s t)) \<and>
     kstate.more s' = kstate.more s"

lemma task_frame_refl [simp]: "task_frame s s" "task_frame s (END_CRITICAL_SECTION s') = task_frame s s'"
  by (simp_all add: task_frame_def)

lemma task_frame_trans: "task_frame s s' \<Longrightarrow> task_frame s' s'' \<Longrightarrow> task_frame s s''"
  by (simp add: task_frame_def)

lemma task_frame_upd: "(\<And>b. winfo (f b) = winfo b) \<Longrightarrow> task_frame s (upd_tcb t f s)"
  by (simp add: task_frame_def upd_tcb_def)

definition sys_inv :: "'a mbxstate_scheme \<Rightarrow> bool" where
  "sys_inv s \<longleftrightarrow> core_inv s \<and> sem_inv s \<and> flg_inv s \<and> mbx_inv s \<and> plain_sys s"

lemma sys_inv_task_frame:
  assumes "sys_inv s" "core_inv s'" "task_frame s s'" "mtxlists s' = mtxlists s" shows "sys_inv s'"
proof -
  have f: "\<And>w. que s' (QWait w) = que s (QWait w)" "\<And>t. winfo (tcb s' t) = winfo (tcb s t)" "kstate.more s' = kstate.more s"
    using assms(3) by (auto simp: task_frame_def)
  note m = semst_frame[OF f(3)]
  note m2 = flgst_frame[OF m(3)]
  note m3 = mbxst_frame[OF m2(3)]
  have "sem_inv s'" by (rule sem_inv_frame[of s]) (use assms(1) f m in \<open>simp_all add: sys_inv_def\<close>)
  moreover have "flg_inv s'" by (rule flg_inv_frame[of s]) (use assms(1) f m2 in \<open>simp_all add: sys_inv_def\<close>)
  moreover have "mbx_inv s'"
    using assms(1) mbx_rep_frame[of s _ s'] m3 f(1) by (auto simp: sys_inv_def mbx_inv_def)
  moreover have "plain_sys s'" using assms(1,4) f(1) by (simp add: sys_inv_def plain_sys_def)
  ultimately show ?thesis using assms(2) by (simp add: sys_inv_def)
qed

lemma removeAll_unqueued: "x \<notin> set xs \<Longrightarrow> removeAll x xs = xs"
  by (induction xs) auto

lemma task_frame_ready: "task_frame s (knl_make_ready t s)"
  by (simp add: task_frame_def)

lemma task_frame_non_ready:
  assumes "core_inv s" "\<And>w. t \<notin> set (que s (QWait w))" shows "task_frame s (knl_make_non_ready t s)"
proof -
  have "\<not> klockwait (tcb s t)" using klock_freeD(3)[OF core_invD(6)[OF assms(1)]] .
  then show ?thesis using assms(2) by (simp add: task_frame_def removeAll_unqueued)
qed

lemma task_frame_wait_state:
  assumes "core_inv s" "state (tcb s c) = TS_READY" shows "task_frame s (make_wait_state c s)"
  using make_wait_state_ready[OF core_invD(6)[OF assms(1)] assms(2)] ready_not_queued[OF assms]
  by (simp add: task_frame_def removeAll_unqueued)

lemma task_frame_make_wait:
  assumes "core_inv s" "state (tcb s c) = TS_READY"
  shows "task_frame s (knl_make_wait c tmout s)" "task_frame s (knl_make_wait_reltim c rt s)"
  using task_frame_wait_state[OF assms] by (simp_all add: task_frame_def knl_make_wait_def knl_make_wait_reltim_def)

lemma task_frame_release:
  assumes "core_inv s" "t < NUM_TSKID" "home (tcb s t) = None" shows "task_frame s (knl_wait_release_ok t s)"
proof -
  have "t \<notin> set (que s (QWait w))" for w using task_inv_mem[OF core_invD(1)[OF assms(1)], of t "QWait w"] assms(2,3) by simp
  then show ?thesis by (simp add: task_frame_def removeAll_unqueued knl_wait_release_ok_def)
qed

section \<open>The frames of the calls on tasks\<close>

lemma suspend_frame:
  assumes inv: "core_inv s" shows "task_frame s (snd (tk_sus_tsk oid s))"
proof -
  let ?t = "INDEX_OBJ oid"
  let ?s = "upd_tcb ?t (\<lambda>b. b\<lparr>suscnt := suscnt b + 1\<rparr>) s"
  have u: "task_frame s ?s" "task_frame ?s (upd_tcb ?t (state_update (\<lambda>_. st)) ?s)" for st by (rule task_frame_upd; simp)+
  have "task_frame s (upd_tcb ?t (state_update (\<lambda>_. TS_SUSPEND)) (knl_make_non_ready ?t ?s))" if "state (tcb s ?t) = TS_READY"
  proof -
    have k: "\<not> klockwait (tcb ?s ?t)" using klock_freeD(3)[OF core_invD(6)[OF inv], of ?t] by (simp add: upd_tcb_def)
    show ?thesis using ready_not_queued[OF inv that] k by (auto simp: task_frame_def removeAll_unqueued)
  qed
  moreover have "task_frame s (upd_tcb ?t (state_update (\<lambda>_. TS_WAITSUS)) ?s)" by (rule task_frame_trans[OF u])
  ultimately show ?thesis using u(1) by (simp add: tk_sus_tsk_def Let_def)
qed

lemma resume_frame: "task_frame s (snd (tk_rsm_tsk oid s))" "task_frame s (snd (tk_frsm_tsk oid s))"
proof -
  let ?t = "INDEX_OBJ oid"
  have u: "task_frame s (upd_tcb ?t f s)" "task_frame s (knl_make_ready ?t (upd_tcb ?t f s))"
    "task_frame s (upd_tcb ?t (state_update (\<lambda>_. st)) (upd_tcb ?t f s))" if "\<And>b. winfo (f b) = winfo b" for f st
    using that by (auto simp: task_frame_def upd_tcb_def)
  show "task_frame s (snd (tk_rsm_tsk oid s))" "task_frame s (snd (tk_frsm_tsk oid s))"
    by (auto simp: tk_rsm_tsk_def tk_frsm_tsk_def Let_def split: TSTAT.split intro!: u)
qed

lemma sleep_frame:
  assumes inv: "core_inv s" "run_ok s" shows "task_frame s (snd (tk_slp_tsk tmout s))" "task_frame s (snd (tk_dly_tsk d s))"
proof -
  have w: "task_frame s (knl_make_wait c tmout (upd_tcb c (\<lambda>b. b\<lparr>wspec := ws, wid := 0, wercd := Some e\<rparr>) s))"
    "task_frame s (knl_make_wait_reltim c d (upd_tcb c (\<lambda>b. b\<lparr>wspec := ws, wid := 0, wercd := Some e\<rparr>) s))"
    if "ctxtsk s = Some c" "state (tcb s c) = TS_READY" "wait_home ws 0 = None" "ws \<noteq> knl_wspec_none" for c ws e
  proof -
    let ?s = "upd_tcb c (\<lambda>b. b\<lparr>wspec := ws, wid := 0, wercd := Some e\<rparr>) s"
    have cl: "c < NUM_TSKID" by (rule core_invD(5)[OF inv(1) that(1)])
    have cb: "can_block c ?s"
      by (rule can_block_upd[OF inv(1) cl that(2), where g = "Some e" and ws = ws and wi = "winfo (tcb s c)" and i = 0])
        (use that in simp_all)
    have f: "task_frame s ?s" by (rule task_frame_upd) simp
    show "task_frame s (knl_make_wait c tmout ?s)" "task_frame s (knl_make_wait_reltim c d ?s)"
      using cb task_frame_trans[OF f task_frame_make_wait(1)] task_frame_trans[OF f task_frame_make_wait(2)]
      by (simp_all add: can_block_def)
  qed
  have u: "task_frame s (upd_tcb c (\<lambda>b. b\<lparr>wupcnt := wupcnt b - 1\<rparr>) s)" for c by (rule task_frame_upd) simp
  obtain c where c: "\<not> CHECK_DISPATCH s < E_OK \<longrightarrow> ctxtsk s = Some c \<and> state (tcb s c) = TS_READY"
    using CHECK_DISPATCH_OK[OF _ inv(2)] by blast
  show "task_frame s (snd (tk_slp_tsk tmout s))" using c w(1)[of c knl_wspec_slp] u by (simp add: tk_slp_tsk_def Let_def)
  show "task_frame s (snd (tk_dly_tsk d s))" using c w(2)[of c knl_wspec_dly] by (simp add: tk_dly_tsk_def Let_def)
qed

lemma wakeup_frame:
  assumes inv: "core_inv s" shows "task_frame s (snd (tk_wup_tsk oid s))" "task_frame s (snd (tk_can_wup oid s))"
proof -
  have u: "task_frame s (upd_tcb t (\<lambda>b. b\<lparr>wupcnt := wupcnt b + 1\<rparr>) s)" "task_frame s (upd_tcb t (wupcnt_update (\<lambda>_. 0)) s)" for t
    by (rule task_frame_upd; simp)+
  have r: "task_frame s (knl_wait_release_ok (INDEX_OBJ oid) s)"
    if "\<not> CHECK_TSKID oid s < E_OK" "in_wait (state (tcb s (INDEX_OBJ oid)))" "wspec (tcb s (INDEX_OBJ oid)) = knl_wspec_slp"
    using that CHECK_TSKID_ok(2)[OF that(1)]
    by (intro task_frame_release[OF inv]) (auto simp: home_def split: TSTAT.split)
  show "task_frame s (snd (tk_wup_tsk oid s))" using r u by (simp add: tk_wup_tsk_def Let_def)
  show "task_frame s (snd (tk_can_wup oid s))" using u by (auto simp: tk_can_wup_def Let_def split: TSTAT.split)
qed

lemma switch_frame: "task_frame s (wrap_rtos_int_exit s)" "task_frame s (rtos_int_enter a s)"
  by (simp_all add: task_frame_def wrap_rtos_int_exit_def rtos_int_enter_def Let_def save_context_def upd_tcb_def split: option.split)


section \<open>Release of a waiting task\<close>

definition sem_wait_spec :: "WSPEC \<Rightarrow> bool" where
  "sem_wait_spec w \<longleftrightarrow> w = knl_wspec_sem_tfifo \<or> w = knl_wspec_sem_tpri"

lemma plain_rel_wai_hook:
  "plain_wait (wspec (tcb s t)) \<Longrightarrow> rel_wai_hook t s = Some (if sem_wait_spec (wspec (tcb s t)) then sem_rel_wai t s else s)"
  by (simp add: rel_wai_hook_def obj_rel_wai_def plain_wait_def sem_wait_spec_def split: WSPEC.split)

lemma mbx_inv_shrink:
  assumes "mbx_inv s" "kstate.more s' = kstate.more s" "\<And>w. que s' (QWait w) = removeAll t (que s (QWait w))"
  shows "mbx_inv s'"
proof -
  note m = mbxst_frame[OF flgst_frame(3)[OF semst_frame(3)[OF assms(2)]]]
  have "mbx_rep s' msgs" if "mbx_rep s msgs" for msgs
    using that m assms(3) by (auto simp: mbx_rep_def mbx_ok_def)
  then show ?thesis using assms(1) by (auto simp: mbx_inv_def)
qed

lemma sem_hook_frame:
  fixes s :: "'a mbxstate_scheme"
  assumes "core_inv s" "flg_inv s" "mbx_inv s"
  shows "flg_inv (sem_rel_wai t s)" "mbx_inv (sem_rel_wai t s)" "plain_sys s \<Longrightarrow> plain_sys (sem_rel_wai t s)"
proof -
  let ?i = "INDEX_OBJ (wid (tcb s t))"
  let ?l = "chg_pri_sem_loop ?i (que s (QSem ?i)) s"
  note h = sem_loop_hook_rel[OF assms(1), of ?i]
  have w: "winfo (tcb ?l u) = winfo (tcb s u)" for u using h(1) served_winfo by (auto simp: hook_rel_def)
  have q: "que ?l (QFlg j) = que s (QFlg j)" "que ?l (QMbx j) = que s (QMbx j)"
    "que ?l (QMtx j) = que s (QMtx j)" "que ?l (QMbfSnd j) = que s (QMbfSnd j)" for j using h(1) by (simp_all add: hook_rel_def)
  note m = flgst_frame[OF h(2)]
  have "flg_inv ?l" by (rule flg_inv_frame[OF assms(2)]) (use m q w in simp_all)
  moreover have "mbx_inv ?l" using assms(3) mbx_rep_frame[of s _ ?l] mbxst_frame[OF m(3)] q(2) by (auto simp: mbx_inv_def)
  ultimately show "flg_inv (sem_rel_wai t s)" "mbx_inv (sem_rel_wai t s)"
    using assms by (simp_all add: sem_rel_wai_def sem_chg_pri_def Let_def)
  have "que (sem_rel_wai t s) (QMtx j) = que s (QMtx j)" "que (sem_rel_wai t s) (QMbfSnd j) = que s (QMbfSnd j)" for j
    using q(3,4) by (simp_all add: sem_rel_wai_def sem_chg_pri_def Let_def)
  then show "plain_sys s \<Longrightarrow> plain_sys (sem_rel_wai t s)" by (simp add: plain_sys_def)
qed

text \<open>
  A task has left the wait it was in (\<open>u\<close>): with the hook of a semaphore, which may serve the
  tasks behind it, the invariants hold again.
\<close>

lemma sys_inv_left:
  fixes s :: "'a mbxstate_scheme"
  assumes inv: "sys_inv s" and t: "t < NUM_TSKID" "in_wait (state (tcb s t))"
    and c: "core_inv u" and m: "kstate.more u = kstate.more s"
    and q: "\<And>w. que u (QWait w) = removeAll t (que s (QWait w))" and w: "\<And>v. winfo (tcb u v) = winfo (tcb s v)"
    and i: "wid (tcb u t) = wid (tcb s t)" and l: "mtxlists u = mtxlists s"
  shows "sys_inv (if sem_wait_spec (wspec (tcb s t)) then sem_rel_wai t u else u)"
proof -
  have I: "core_inv s" "sem_inv s" "flg_inv s" "mbx_inv s" using inv by (simp_all add: sys_inv_def)
  have pu: "plain_sys u" using inv by (simp add: sys_inv_def plain_sys_def q l)
  note f = semst_frame[OF m]
  note g = flgst_frame[OF f(3)]
  have fi: "flg_inv u" by (rule flg_inv_shrink[OF I(3), of _ t]) (use g q w in simp_all)
  have xi: "mbx_inv u" by (rule mbx_inv_shrink[OF I(4) m q])
  have k: "que u (QWait w) = que s (QWait w)" if "home (tcb s t) \<noteq> Some (QWait w)" for w
    using task_inv_mem[OF core_invD(1)[OF I(1)], of t "QWait w"] that by (simp add: q removeAll_unqueued)
  show ?thesis
  proof (cases "sem_wait_spec (wspec (tcb s t))")
    case True
    let ?i = "INDEX_OBJ (wid (tcb s t))"
    have h: "home (tcb s t) = Some (QSem ?i)" using True t(2) by (cases "state (tcb s t)") (auto simp: sem_wait_spec_def home_def)
    have ti: "t \<in> set (que s (QSem ?i))" using task_inv_mem[OF core_invD(1)[OF I(1)], of t "QSem ?i"] h t(1) by simp
    have x: "sem_inv_x ?i u"
    proof (rule sem_inv_x_I[OF I(2) ti I(1) f(1,2) w])
      show "set (que u (QSem ?i)) \<subseteq> set (que s (QSem ?i))" by (auto simp: q)
      show "que u (QSem j) = que s (QSem j)" if "j \<noteq> ?i" for j by (rule k) (use h that in simp)
    qed
    show ?thesis using sem_rel_wai_inv(1,2)[OF c x] i sem_hook_frame[OF c fi xi] pu True by (simp add: sys_inv_def)
  next
    case False
    have h: "home (tcb s t) \<noteq> Some (QSem j)" for j
      using False t(2) by (cases "state (tcb s t)"; cases "wspec (tcb s t)") (auto simp: sem_wait_spec_def home_def)
    have "sem_inv u" by (rule sem_inv_frame[OF I(2) f(1,2)]) (use k[OF h] w in simp_all)
    then show ?thesis using False c fi xi pu by (simp add: sys_inv_def)
  qed
qed

lemma sys_inv_release:
  fixes s :: "'a mbxstate_scheme"
  assumes inv: "sys_inv s" and t: "t < NUM_TSKID" "in_wait (state (tcb s t))"
  defines "u \<equiv> knl_wait_release t s"
  shows "sys_inv (if sem_wait_spec (wspec (tcb s t)) then sem_rel_wai t u else u)"
proof (rule sys_inv_left[OF inv t])
  show "core_inv u" unfolding u_def by (rule core_inv_wait_release[OF _ t]) (use inv in \<open>simp add: sys_inv_def\<close>)
qed (simp_all add: u_def)

end
