(* ===== verification/Task_Life.thy ===== *)
theory Task_Life
  imports System_Frames
begin

text \<open>
  Creation, deletion, exit and termination of tasks and the change of their priority in a system
  of tasks, semaphores, event flags and mailboxes: each keeps the invariant of the system. A task
  that is terminated while it waits is taken from its wait queue before the hook of the object
  runs, so at that moment the task is in no queue and not yet dormant; the hook does not look at
  it, so that it may as well run on the state in which the task is dormant already.
\<close>

section \<open>Creation and deletion\<close>

text \<open>
  The memory pool of the stacks is no part of the kernel state: allocation gives an address, or null,
  and leaves the kernel state alone.
\<close>

definition stack_pool :: "(UW \<Rightarrow> 'a kstate_scheme \<Rightarrow> addr \<times> 'a kstate_scheme) \<Rightarrow> (addr \<Rightarrow> 'a kstate_scheme \<Rightarrow> 'a kstate_scheme) \<Rightarrow> bool" where
  "stack_pool imalloc ifree \<longleftrightarrow> (\<forall>n s. snd (imalloc n s) = s) \<and> (\<forall>a s. ifree a s = s)"

lemma stack_poolD:
  assumes "stack_pool imalloc ifree"
  shows "snd (imalloc n s) = s" "ifree a s = s" "mem_op_ok (\<lambda>s. snd (imalloc n s))" "mem_op_ok (ifree a)"
  using assms by (simp_all add: stack_pool_def mem_op_ok_def)

lemma sys_invD: assumes "sys_inv s" shows "core_inv s" "sem_inv s" "flg_inv s" "mbx_inv s" "kinv_flg s" "plain_sys s"
  using assms by (simp_all add: sys_inv_def kinv_flg_def)

lemma sys_inv_END [simp]: "sys_inv (END_CRITICAL_SECTION s) = sys_inv s"
proof
  show "sys_inv (END_CRITICAL_SECTION s)" if "sys_inv s" by (rule sys_inv_task_frame[OF that]) (use sys_invD[OF that] in simp_all)
  have f: "task_frame (END_CRITICAL_SECTION s) s" by (simp add: task_frame_def)
  show "sys_inv s" if "sys_inv (END_CRITICAL_SECTION s)"
    by (rule sys_inv_task_frame[OF that _ f]) (use sys_invD(1)[OF that] in simp_all)
qed

lemma dormant_frame:
  "task_frame s (knl_make_dormant t s')  = task_frame s s'"
  "plain_sys s \<Longrightarrow> mtxlists s' = mtxlists s \<Longrightarrow> mtxlists (knl_make_dormant t s') = mtxlists s"
  by (auto simp: task_frame_def knl_make_dormant_def knl_setup_context_def plain_sys_def mtxlists_def fun_eq_iff)

lemma cre_tsk_frame:
  assumes "plain_sys s"
  shows "task_frame s (snd (cre_tsk pk sz stack s))" "mtxlists (snd (cre_tsk pk sz stack s)) = mtxlists s"
proof -
  let ?f = "\<lambda>b. b\<lparr>exinf := ctsk_exinf pk, tskatr := ctsk_tskatr pk, task := ctsk_task pk,
                       ipriority := nat (int_priority (ctsk_itskpri pk)), sstksz := sz,
                       isstack := nat (int stack + sz), isysmode := 1, sysmode := 1\<rparr>"
  let ?q = "\<lambda>t. upd_tcb t ?f (snd (que_remove_next QFreeTcb s))"
  have f: "task_frame s (?q t)" "mtxlists (?q t) = mtxlists s" for t
    by (auto simp: task_frame_def mtxlists_def fun_eq_iff que_remove_next_def split: list.split)
  show "task_frame s (snd (cre_tsk pk sz stack s))" "mtxlists (snd (cre_tsk pk sz stack s)) = mtxlists s"
    using f dormant_frame(2)[OF assms f(2)]
    by (auto simp: cre_tsk_def Let_def dormant_frame(1) que_remove_next_def split: list.split)
qed

lemma sys_inv_cre_tsk:
  assumes inv: "sys_inv s" and p: "stack_pool imalloc ifree"
  shows "sys_inv (snd (tk_cre_tsk imalloc ifree pk s))"
proof (rule sys_inv_task_frame[OF inv tk_cre_tsk_inv[OF sys_invD(1)[OF inv] stack_poolD(3,4)[OF p]]])
  note F = cre_tsk_frame[OF sys_invD(6)[OF inv]]
  show "task_frame s (snd (tk_cre_tsk imalloc ifree pk s))" "mtxlists (snd (tk_cre_tsk imalloc ifree pk s)) = mtxlists s"
    using F by (simp_all add: tk_cre_tsk_def Let_def split_beta stack_poolD(1,2)[OF p])
qed

lemma freed_frame:
  "task_frame s (upd_tcb t (state_update (\<lambda>_. TS_NONEXIST)) (que_insert t QFreeTcb s))"
  "mtxlists (upd_tcb t (state_update (\<lambda>_. TS_NONEXIST)) (que_insert t QFreeTcb s)) = mtxlists s"
  by (simp_all add: task_frame_def) (simp_all add: que_insert_def)

lemma sys_inv_del_tsk:
  assumes inv: "sys_inv s" and p: "stack_pool imalloc ifree"
  shows "sys_inv (snd (tk_del_tsk ifree oid s))"
  by (rule sys_inv_task_frame[OF inv tk_del_tsk_inv[OF sys_invD(1)[OF inv] stack_poolD(4)[OF p]]])
    (simp_all add: tk_del_tsk_def Let_def knl_del_tsk_def stack_poolD(2)[OF p] freed_frame)

section \<open>A hook does not look at the task that has left\<close>

lemma wait_release_ok_other:
  assumes "t \<noteq> v" shows "knl_wait_release_ok v (upd_tcb t f s) = upd_tcb t f (knl_wait_release_ok v s)"
proof -
  have r: "knl_make_ready v (upd_tcb t f s) = upd_tcb t f (knl_make_ready v s)" for s :: "'a kstate_scheme"
    using assms by (simp add: knl_make_ready_def knl_ready_queue_insert_def Let_def upd_tcb_def que_insert_def fun_upd_twist[OF assms])
  have q: "que_remove v (knl_timer_delete e (upd_tcb t f s)) = upd_tcb t f (que_remove v (knl_timer_delete e s))" for e
    by (simp add: que_remove_def knl_timer_delete_def upd_tcb_def)
  have u: "upd_tcb v g (upd_tcb t f s) = upd_tcb t f (upd_tcb v g s)" for g and s :: "'a kstate_scheme"
    using assms by (simp add: upd_tcb_def fun_upd_twist[OF assms])
  show ?thesis using assms by (simp add: knl_wait_release_ok_def knl_wait_release_def knl_make_non_wait_def q r u set_wercd_def)
qed

lemma sem_loop_other:
  assumes "t \<notin> set ts" shows "chg_pri_sem_loop i ts (upd_tcb t f s) = upd_tcb t f (chg_pri_sem_loop i ts s)"
  using assms
proof (induction ts arbitrary: s)
  case (Cons v ts)
  have "upd_semcb i g (upd_tcb t f s) = upd_tcb t f (upd_semcb i g s)" for g and s :: "'a semstate_scheme"
    by (simp add: upd_semcb_def upd_tcb_def)
  moreover have "semcb (upd_tcb t f s) = semcb s" for s :: "'a semstate_scheme" by (simp add: upd_tcb_def)
  moreover have "winfo (tcb (knl_wait_release_ok v s) v) = winfo (tcb s v)" for s :: "'a semstate_scheme"
    by (simp add: knl_wait_release_ok_def)
  ultimately show ?case using Cons by (simp add: Let_def wait_release_ok_other)
qed simp

lemma sem_rel_wai_other:
  assumes "\<And>i. t \<notin> set (que s (QSem i))" "\<And>b. wid (f b) = wid b"
  shows "sem_rel_wai t (upd_tcb t f s) = upd_tcb t f (sem_rel_wai t s)"
proof -
  have "semcb (upd_tcb t f s) = semcb s" by (simp add: upd_tcb_def)
  then show ?thesis using assms by (simp add: sem_rel_wai_def sem_chg_pri_def Let_def sem_loop_other)
qed

section \<open>Termination\<close>

text \<open>The part of the termination before the task becomes dormant, in a system without mutexes.\<close>

definition taken_out :: "nat \<Rightarrow> 'a mbxstate_scheme \<Rightarrow> 'a mbxstate_scheme" where
  "taken_out t s =
     (if state (tcb s t) = TS_READY then knl_make_non_ready t s
      else if in_wait (state (tcb s t)) then
        if sem_wait_spec (wspec (tcb s t)) then sem_rel_wai t (knl_wait_cancel t s) else knl_wait_cancel t s
      else s)"

lemma wait_cancel_frame [simp]:
  "tcb (knl_wait_cancel t s) = tcb s" "kstate.more (knl_wait_cancel t s) = kstate.more s"
  "que (knl_wait_cancel t s) q = removeAll t (que s q)" "mtxlists (knl_wait_cancel t s) = mtxlists s"
  "ctxtsk (knl_wait_cancel t s) = ctxtsk s"
  by (simp_all add: knl_wait_cancel_def)

lemma ter_tsk_taken_out:
  assumes inv: "sys_inv s" and t: "t < NUM_TSKID" shows "knl_ter_tsk t s = Some (taken_out t s)"
proof -
  note I = sys_invD[OF inv]
  have w: "rel_wai_hook t (knl_wait_cancel t s) =
      Some (if sem_wait_spec (wspec (tcb s t)) then sem_rel_wai t (knl_wait_cancel t s) else knl_wait_cancel t s)"
    if "in_wait (state (tcb s t))"
    using plain_rel_wai_hook[of "knl_wait_cancel t s" t] plain_sys_wait[OF I(6,1) t that] by simp
  have "mtxlists (taken_out t s) = mtxlists s" by (simp add: taken_out_def)
  then have "mtxlist (tcb (taken_out t s) t) = []" using I(6) by (simp add: plain_sys_def mtxlists_def fun_eq_iff)
  then have "knl_signal_all_mutex t (taken_out t s) = Some (taken_out t s)" by (simp add: knl_signal_all_mutex_def)
  moreover have "knl_ter_tsk t s = Option.bind (Some (taken_out t s)) (knl_signal_all_mutex t)"
    using w by (simp add: knl_ter_tsk_def taken_out_def)
  ultimately show ?thesis by simp
qed

lemma non_ready_inv:
  assumes inv: "core_inv s" and t: "t < NUM_TSKID" "state (tcb s t) = TS_READY"
  defines "u \<equiv> knl_make_non_ready t s"
  shows "task_inv_x t u" "sched_ok u" "tcb_ok u" "timer_ok u" "TM_TSK t \<notin> set (timer_queue u)" "tcb u = tcb s"
proof -
  note I = core_invD[OF inv]
  show "task_inv_x t u" unfolding u_def by (rule task_inv_make_non_ready[OF I(1,6)])
  show tb: "tcb u = tcb s" unfolding u_def using klock_freeD[OF I(6)] by simp
  show "sched_ok u" unfolding u_def by (rule sched_ok_make_non_ready) (use I t tcb_okD[OF I(3) t(1)] in auto)
  show "tcb_ok u" using I(3) by (simp add: tcb_ok_def tb)
  show "timer_ok u" using I(4) tb by (simp add: timer_ok_def) (simp add: u_def)
  show "TM_TSK t \<notin> set (timer_queue u)" using I(4) t by (auto simp: timer_ok_def u_def)
qed

lemma cancelled_inv:
  assumes inv: "core_inv s" and t: "t < NUM_TSKID" "state (tcb s t) \<noteq> TS_READY"
  defines "u \<equiv> knl_wait_cancel t s"
  shows "core_inv (knl_make_dormant t u)"
proof -
  let ?d = "knl_timer_delete (TM_TSK t) s"
  note I = core_invD[OF core_inv_timer_delete[OF inv, of "TM_TSK t"]]
  have x: "task_inv_x t u" using I(1) by (simp add: u_def knl_wait_cancel_def task_inv_def task_inv_x_def linked_unlink)
  have rq: "removeAll t (que s (QRdy p)) = que s (QRdy p)" for p
    using task_inv_mem[OF core_invD(1)[OF inv], of t "QRdy p"] t by (intro removeAll_unqueued) (auto simp: home_def split: TSTAT.splits)
  have sc: "sched_ok u" unfolding u_def knl_wait_cancel_def
    by (rule sched_ok_wait_queues[where s = ?d]) (use I(2) rq in \<open>simp_all add: que_remove_def\<close>)
  have ok: "tcb_ok u" using core_invD(3)[OF inv] by (simp add: tcb_ok_def u_def)
  have tm: "timer_ok u" "TM_TSK t \<notin> set (timer_queue u)"
    using I(4) core_invD(4)[OF inv] by (auto simp: timer_ok_def u_def knl_wait_cancel_def knl_timer_delete_def)
  show ?thesis by (rule make_dormant_inv[OF x sc ok tm]) (use core_invD(5)[OF inv] in \<open>simp add: u_def\<close>)
qed

lemma dormant_fields:
  "wid (tcb (knl_make_dormant t s) u) = wid (tcb s u)" "winfo (tcb (knl_make_dormant t s) u) = winfo (tcb s u)"
  "que (knl_make_dormant t s) = que s" "kstate.more (knl_make_dormant t s) = kstate.more s"
  by (simp_all add: knl_make_dormant_def knl_setup_context_def)

lemma sem_hook_dormant:
  assumes "\<And>i. t \<notin> set (que s (QSem i))"
  shows "knl_make_dormant t (sem_rel_wai t s) = sem_rel_wai t (knl_make_dormant t s)"
  unfolding knl_make_dormant_def
  by (rule sem_rel_wai_other[symmetric]) (use assms in \<open>simp_all add: knl_setup_context_def\<close>)

lemma terminated_inv:
  assumes inv: "sys_inv s" and t: "t < NUM_TSKID" "knl_task_alive (state (tcb s t))"
  shows "sys_inv (knl_make_dormant t (taken_out t s))"
proof (cases "state (tcb s t) = TS_READY")
  case True
  let ?u = "knl_make_non_ready t s"
  note I = sys_invD[OF inv] and N = non_ready_inv[OF sys_invD(1)[OF inv] t(1) True]
  have "core_inv (knl_make_dormant t ?u)" by (rule make_dormant_inv[OF N(1-5)]) (use core_invD(5)[OF I(1)] in simp)
  moreover have "task_frame s (knl_make_dormant t ?u)" unfolding dormant_frame(1)
    by (rule task_frame_non_ready[OF I(1)]) (rule ready_not_queued[OF I(1) True])
  moreover have "mtxlists (knl_make_dormant t ?u) = mtxlists s" by (rule dormant_frame(2)[OF I(6)]) simp
  ultimately show ?thesis using sys_inv_task_frame[OF inv] True by (simp add: taken_out_def)
next
  case nr: False
  note I = sys_invD[OF inv]
  let ?c = "knl_wait_cancel t s"
  let ?u = "knl_make_dormant t ?c"
  have c: "core_inv ?u" by (rule cancelled_inv[OF I(1) t(1) nr])
  have l: "mtxlists ?u = mtxlists s" by (rule dormant_frame(2)[OF I(6)]) simp
  show ?thesis
  proof (cases "in_wait (state (tcb s t))")
    case True
    have "sys_inv (if sem_wait_spec (wspec (tcb s t)) then sem_rel_wai t ?u else ?u)"
      by (rule sys_inv_left[OF inv t(1) True c]) (simp_all add: l dormant_fields)
    moreover have "knl_make_dormant t (sem_rel_wai t ?c) = sem_rel_wai t ?u" by (rule sem_hook_dormant) simp
    ultimately show ?thesis using True nr by (simp add: taken_out_def split: if_splits)
  next
    case False
    have h: "home (tcb s t) = None" using t(2) nr False by (cases "state (tcb s t)") (simp_all add: home_def)
    have q: "t \<notin> set (que s q)" for q using task_inv_mem[OF core_invD(1)[OF I(1)], of t q] h by simp
    have "TM_TSK t \<notin> set (timer_queue s)" using core_invD(4)[OF I(1)] False by (auto simp: timer_ok_def)
    then have "?c = s" using q by (simp add: knl_wait_cancel_def knl_timer_delete_def que_remove_def removeAll_unqueued)
    moreover have "task_frame s (knl_make_dormant t s)" by (simp add: dormant_frame(1))
    ultimately show ?thesis using sys_inv_task_frame[OF inv c] l nr False by (simp add: taken_out_def)
  qed
qed

lemma sys_inv_ter_tsk:
  assumes inv: "sys_inv s"
  shows "\<exists>r s'. tk_ter_tsk oid s = Some (r, s') \<and> sys_inv s'"
proof -
  have t: "INDEX_OBJ oid < NUM_TSKID" if "\<not> CHECK_TSKID oid s < E_OK" using CHECK_TSKID_ok(2)[OF that] .
  show ?thesis using inv terminated_inv[OF inv t] ter_tsk_taken_out[OF inv t] sys_inv_END
    by (auto simp: tk_ter_tsk_def Let_def)
qed

section \<open>Exit\<close>

lemma sys_inv_force_dispatch: "sys_inv s \<Longrightarrow> sys_inv (knl_force_dispatch s)"
proof (rule sys_inv_task_frame)
  assume inv: "sys_inv s"
  have "core_inv (s\<lparr>ctxtsk := None\<rparr>)" using sys_invD(1)[OF inv]
    by (auto simp: core_inv_def task_inv_def sched_ok_def rq_inv_def klock_free_def knl_ready_queue_top_def tcb_ok_def timer_ok_def)
  moreover have "core_inv (knl_force_dispatch s) = core_inv (s\<lparr>ctxtsk := None\<rparr>)"
    by (rule core_inv_cong) (simp_all add: knl_force_dispatch_def)
  ultimately show "core_inv (knl_force_dispatch s)" by simp
  show "task_frame s (knl_force_dispatch s)" by (simp add: task_frame_def knl_force_dispatch_def)
  show "mtxlists (knl_force_dispatch s) = mtxlists s" by (rule mtxlists_cong) (simp add: knl_force_dispatch_def)
qed

lemma freed_inv:
  assumes inv: "core_inv s" and t: "t < NUM_TSKID" "state (tcb s t) = TS_READY"
  shows "core_inv (upd_tcb t (state_update (\<lambda>_. TS_NONEXIST)) (que_insert t QFreeTcb (knl_make_non_ready t s)))" (is "core_inv ?s")
proof -
  let ?u = "knl_make_non_ready t s"
  note N = non_ready_inv[OF inv t]
  have "linked ((tcb ?u)(t := (tcb ?u t)\<lparr>state := TS_NONEXIST\<rparr>)) (que ?u) ({..<NUM_TSKID} - {t})"
    using N(1) by (auto simp: task_inv_x_def linked_def)
  from linked_link[OF this, of QFreeTcb] t(1) have "task_inv ?s" by (simp add: task_inv_def que_insert_def)
  moreover have "sched_ok (que_insert t QFreeTcb ?u)"
    by (rule sched_ok_wait_queues[where s = ?u]) (use N(2) in \<open>simp_all add: que_insert_def\<close>)
  then have "sched_ok ?s" by (rule sched_ok_upd_tcb) simp
  moreover have "tcb_ok ?s"
    by (rule tcb_ok_upd[OF N(3), where t = t and b = "(tcb ?u t)\<lparr>state := TS_NONEXIST\<rparr>"])
      (use N(3,6) t in \<open>auto simp: tcb_ok_def Let_def que_insert_def\<close>)
  moreover have "timer_ok ?s" using N(4,5) by (auto simp: timer_ok_def que_insert_def)
  ultimately show ?thesis using core_invD(5)[OF inv] by (simp add: core_inv_def que_insert_def)
qed

lemma sys_inv_ext_tsk:
  assumes inv: "sys_inv s" and c: "ctxtsk s = Some c" "state (tcb s c) = TS_READY" and i: "\<not> in_indp s"
  shows "\<exists>s'. tk_ext_tsk s = Some s' \<and> sys_inv s'"
proof -
  have cl: "c < NUM_TSKID" by (rule core_invD(5)[OF sys_invD(1)[OF inv] c(1)])
  have "knl_task_alive (state (tcb s c))" using c(2) by simp
  from sys_inv_force_dispatch[OF terminated_inv[OF inv cl this]] show ?thesis
    using c i ter_tsk_taken_out[OF inv cl] by (simp add: tk_ext_tsk_def Let_def)
qed

lemma sys_inv_exd_tsk:
  assumes inv: "sys_inv s" and c: "ctxtsk s = Some c" "state (tcb s c) = TS_READY" and p: "stack_pool imalloc ifree"
  shows "\<exists>s'. tk_exd_tsk ifree s = Some s' \<and> sys_inv s'"
proof (cases "in_indp s")
  case True
  then show ?thesis using inv by (simp add: tk_exd_tsk_def)
next
  case False
  let ?u = "knl_make_non_ready c s"
  note I = sys_invD[OF inv]
  have cl: "c < NUM_TSKID" by (rule core_invD(5)[OF I(1) c(1)])
  let ?d = "upd_tcb c (state_update (\<lambda>_. TS_NONEXIST)) (que_insert c QFreeTcb ?u)"
  have "task_frame s ?u" by (rule task_frame_non_ready[OF I(1)]) (rule ready_not_queued[OF I(1) c(2)])
  then have "task_frame s ?d" using freed_frame(1) task_frame_trans by blast
  then have "sys_inv ?d" by (rule sys_inv_task_frame[OF inv freed_inv[OF I(1) cl c(2)]]) (simp add: freed_frame)
  moreover have "tk_exd_tsk ifree s = Some (knl_force_dispatch ?d)"
    using False c ter_tsk_taken_out[OF inv cl] by (simp add: tk_exd_tsk_def Let_def taken_out_def knl_del_tsk_def stack_poolD(2)[OF p])
  ultimately show ?thesis using sys_inv_force_dispatch by blast
qed

section \<open>Change of priority\<close>

text \<open>A task that holds no mutex and waits for none: any base priority is accepted, and the task has it at once.\<close>

lemma plain_chg_pri_mutex:
  assumes "plain_wait (wspec (tcb s t)) \<or> \<not> in_wait (state (tcb s t))" "mtxlist (tcb s t) = []" "0 \<le> p"
  shows "knl_chg_pri_mutex t p s = p"
proof -
  have "tskwait w AND 0x80 = 0" if "plain_wait w" for w using that by (cases w) (simp_all add: plain_wait_def)
  then have "\<not> (in_wait (state (tcb s t)) \<and> tskwait (wspec (tcb s t)) AND 0x80 \<noteq> 0)" using assms(1) by auto
  then show ?thesis using assms(2,3) by (auto simp: knl_chg_pri_mutex_def Let_def int_priority_def consts_defs)
qed

lemma sys_inv_gcb_change:
  fixes s :: "'a mbxstate_scheme"
  assumes inv: "sys_inv s" and t: "t \<in> set (que s (QWait w))" and w: "\<not> is_WSem w"
  shows "sys_inv (knl_gcb_change_priority w t s)"
proof -
  let ?s = "knl_gcb_change_priority w t s"
  note I = sys_invD[OF inv] and G = core_inv_gcb_change_priority[OF sys_invD(1)[OF inv] t]
  note f = semst_frame[OF G(5)]
  note g = flgst_frame[OF f(3)]
  note m = mbxst_frame[OF g(3)]
  have e: "que ?s (QWait v) = [] \<longleftrightarrow> que s (QWait v) = []" for v using G(3)[of v] by (metis set_empty)
  have l: "length (que ?s (QWait v)) = length (que s (QWait v))" for v
    using G(3)[of v] core_inv_distinct[OF G(1)] core_inv_distinct[OF I(1)] by (metis distinct_card)
  have n: "WSem j \<noteq> w" for j using w by auto
  have "sem_inv ?s" by (rule sem_inv_frame[OF I(2) f(1,2)]) (use n G(2,4) in auto)
  moreover have "flg_wp ?s = flg_wp s" "flg_md ?s = flg_md s" by (simp_all add: fun_eq_iff flg_wp_def flg_md_def G(2))
  then have "flg_inv ?s" using I(3) unfolding flg_inv_def flg_ok_def by (auto simp: g(1,2) G(3) e l)
  moreover have "mbx_rep ?s msgs" if "mbx_rep s msgs" for msgs using that m by (simp add: mbx_rep_def mbx_ok_def e)
  then have "mbx_inv ?s" using I(4) by (auto simp: mbx_inv_def)
  moreover have "plain_sys ?s" using I(6) by (simp add: plain_sys_def e)
  ultimately show ?thesis using G(1) by (simp add: sys_inv_def)
qed

lemma sys_inv_sem_chg_pri:
  fixes s :: "'a mbxstate_scheme"
  assumes inv: "sys_inv s" and t: "t \<in> set (que s (QSem i))" and i: "INDEX_OBJ (wid (tcb s t)) = i" and p: "0 \<le> p"
  shows "sys_inv (sem_chg_pri t p s)"
proof -
  let ?g = "knl_gcb_change_priority (WSem i) t s" and ?s = "sem_chg_pri t p s"
  note I = sys_invD[OF inv] and G = core_inv_gcb_change_priority[OF sys_invD(1)[OF inv] t]
  note L = sem_loop_hook_rel[OF G(1), of i]
  have x: "sem_inv_x i s" by (rule sem_inv_x_I[OF I(2) t I(1)]) simp_all
  note S = sem_chg_pri_inv[OF I(1) x t p]
  have "hook_rel is_WSem s ?g" by (rule gcb_change_hook_rel[OF I(1) t]) simp
  moreover have "hook_rel is_WSem s (chg_pri_sem_loop i (que ?g (QSem i)) ?g)" by (rule hook_rel_compose_change[OF I(1) t _ L(1)]) simp
  ultimately have h: "hook_rel is_WSem s ?s" using p by (simp add: sem_chg_pri_def Let_def i)
  have m: "semstate.more ?s = semstate.more s"
    using L(2) semst_frame(3)[OF G(5)] p by (simp add: sem_chg_pri_def Let_def i)
  have w: "winfo (tcb ?s u) = winfo (tcb s u)" for u using h served_winfo by (auto simp: hook_rel_def)
  have q: "que ?s (QWait v) = que s (QWait v)" if "\<not> is_WSem v" for v using h that by (simp add: hook_rel_def)
  note f = flgst_frame[OF m]
  have "flg_inv ?s" by (rule flg_inv_frame[OF I(3)]) (use f q w in simp_all)
  moreover have "mbx_inv ?s" using I(4) mbx_rep_frame[of s _ ?s] mbxst_frame[OF f(3)] q by (auto simp: mbx_inv_def)
  moreover have "plain_sys ?s" using I(6) q by (simp add: plain_sys_def)
  ultimately show ?thesis using S by (simp add: sys_inv_def)
qed

lemma sys_inv_obj_chg_pri:
  fixes s :: "'a mtxstate_scheme"
  assumes inv: "sys_inv s" and t: "t < NUM_TSKID" "in_wait (state (tcb s t))" and p: "0 \<le> p"
  shows "sys_inv (obj_chg_pri t p s)"
proof -
  let ?i = "INDEX_OBJ (wid (tcb s t))"
  note I = sys_invD[OF inv] and W = waiting_in[OF sys_invD(1)[OF inv] t]
  have g: "sys_inv (knl_gcb_change_priority w t s)" if "wait_home (wspec (tcb s t)) (wid (tcb s t)) = Some (QWait w)" "\<not> is_WSem w" for w
    by (rule sys_inv_gcb_change[OF inv W[OF that(1)] that(2)])
  have m: "sys_inv (sem_chg_pri t p s)" if "wspec (tcb s t) = knl_wspec_sem_tpri"
    by (rule sys_inv_sem_chg_pri[OF inv W refl p]) (simp add: that)
  have "wspec (tcb s t) \<noteq> knl_wspec_smbf_tpri" using plain_sys_wait[OF I(6,1) t] by (auto simp: plain_wait_def)
  then show ?thesis using inv g m
    by (cases "wspec (tcb s t)") (simp_all add: obj_chg_pri_def flg_chg_pri_def mbx_chg_pri_def cal_chg_pri_def knl_mpf_chg_pri_def)
qed

lemma sys_inv_change_priority:
  fixes s :: "'a mtxstate_scheme"
  assumes inv: "sys_inv s" and t: "t < NUM_TSKID" and p: "pri < NUM_TSKPRI"
  shows "\<exists>s'. knl_change_task_priority t pri s = Some s' \<and> sys_inv s'"
proof -
  note I = sys_invD[OF inv]
  let ?u = "upd_tcb t (priority_update (\<lambda>_. pri)) s"
  have u: "sys_inv ?u" if "state (tcb s t) \<noteq> TS_READY"
    by (rule sys_inv_task_frame[OF inv core_inv_set_priority[OF I(1) t that p] task_frame_upd]) simp_all
  have r: "sys_inv (change_ready_priority t pri s)" if "state (tcb s t) = TS_READY"
  proof -
    note R = change_ready_priority_result[OF I(1) t that p]
    show ?thesis by (rule sys_inv_task_frame[OF inv R(1)]) (auto simp: task_frame_def mtxlists_def fun_eq_iff R(2-4))
  qed
  have "\<not> mtx_hook_spec (wspec (tcb s t))" if "in_wait (state (tcb s t))"
    using plain_sys_wait[OF I(6,1) t that] by (auto simp: plain_wait_def mtx_hook_spec_def)
  then show ?thesis using u r sys_inv_obj_chg_pri[OF u t, of "int (priority (tcb s t))"]
    by (subst knl_change_task_priority.simps) (auto simp: Let_def)
qed

lemma sys_inv_chg_pri:
  fixes s :: "'a mtxstate_scheme"
  assumes inv: "sys_inv s" shows "\<exists>r s'. tk_chg_pri oid tskpri s = Some (r, s') \<and> sys_inv s'"
proof (cases "first_err [CHECK_TSKID_SELF oid s, CHECK_PRI_INI tskpri] < E_OK \<or> state (tcb s (get_tcb_self oid s)) = TS_NONEXIST")
  case True
  then show ?thesis using inv by (auto simp: tk_chg_pri_def Let_def)
next
  case False
  note I = sys_invD[OF inv]
  let ?t = "get_tcb_self oid s"
  let ?p = "asked_priority tskpri (tcb s ?t)"
  have e: "\<not> CHECK_TSKID_SELF oid s < E_OK" "\<not> CHECK_PRI_INI tskpri < E_OK" using False by (auto split: if_splits)
  have t: "?t < NUM_TSKID" by (rule get_tcb_self_lt[OF I(1) e(1)])
  note p = asked_priority_ok[OF I(1) t e(2)]
  let ?b = "upd_tcb ?t (bpriority_update (\<lambda>_. nat ?p)) s"
  have b: "sys_inv ?b"
    by (rule sys_inv_task_frame[OF inv core_inv_set_bpriority[OF I(1) p(2)] task_frame_upd]) simp_all
  have "knl_chg_pri_mutex ?t ?p s = ?p"
    by (rule plain_chg_pri_mutex) (use plain_sys_wait[OF I(6,1) t] plain_sys_holds[OF I(6)] p in auto)
  then show ?thesis using False p(1) sys_inv_change_priority[OF b t p(2)] 
    by (auto simp: tk_chg_pri_def Let_def E_OK_def simp flip: asked_priority_def)
qed

end
