(* ===== verification/System.thy ===== *)
theory System
  imports Task_Life Tick
begin

text \<open>
  The kernel as a transition system: from any state that satisfies the invariants, every sequence of
  calls of the running task or of a handler on tasks, semaphores, event flags and mailboxes, of
  interrupts, ticks and task switches leads to a state that satisfies them. \<open>Boot\<close> shows that
  the initialisation leads to such a state and that tasks can be created and started there.
\<close>

section \<open>The transition system\<close>

text \<open>
  A step is one call of the running task or of a handler, an interrupt entry or exit, or a part of
  the tick: the advance of the clock, or the timeout of a waiting task, whose event has been taken
  from the timer queue. Every call on tasks, semaphores, event flags and mailboxes that changes the
  state of the kernel is a step. The conditions of the steps:
  \<^item> a call is made by a context that executes: a task that may be dispatched is ready
    (\<open>run_ok\<close>), and a task that ends itself is the running task and ready; called from a handler,
    \<^verbatim>\<open>tk_ext_tsk\<close> does not return and so makes no step;
  \<^item> the memory pool of the stacks gives an address or null and leaves the kernel state alone;
  \<^item> a message that is sent is not queued in a mailbox already (\<open>msg_fresh\<close>), else the chain of
    messages loses its end.

  The calls on mutexes, message buffers, rendezvous ports, memory pools and time event handlers are
  no steps; their invariants are the subject of their own theories.
\<close>

inductive sys_step :: "'a mtxstate_scheme \<Rightarrow> 'a mtxstate_scheme \<Rightarrow> bool" where
  sus_tsk: "run_ok s \<Longrightarrow> sys_step s (snd (tk_sus_tsk oid s))"
| rsm_tsk: "run_ok s \<Longrightarrow> sys_step s (snd (tk_rsm_tsk oid s))"
| frsm_tsk: "run_ok s \<Longrightarrow> sys_step s (snd (tk_frsm_tsk oid s))"
| slp_tsk: "run_ok s \<Longrightarrow> sys_step s (snd (tk_slp_tsk tmout s))"
| wup_tsk: "run_ok s \<Longrightarrow> sys_step s (snd (tk_wup_tsk oid s))"
| can_wup: "run_ok s \<Longrightarrow> sys_step s (snd (tk_can_wup oid s))"
| dly_tsk: "run_ok s \<Longrightarrow> sys_step s (snd (tk_dly_tsk dlytim s))"
| sta_tsk: "run_ok s \<Longrightarrow> sys_step s (snd (tk_sta_tsk oid stacd s))"
| rot_rdq: "run_ok s \<Longrightarrow> sys_step s (snd (tk_rot_rdq p s))"
| cre_tsk: "run_ok s \<Longrightarrow> stack_pool imalloc ifree \<Longrightarrow> sys_step s (snd (tk_cre_tsk imalloc ifree ctsk s))"
| del_tsk: "run_ok s \<Longrightarrow> stack_pool imalloc ifree \<Longrightarrow> sys_step s (snd (tk_del_tsk ifree oid s))"
| ext_tsk: "ctxtsk s = Some c \<Longrightarrow> state (tcb s c) = TS_READY \<Longrightarrow> tk_ext_tsk s = Some s' \<Longrightarrow> sys_step s s'"
| exd_tsk: "ctxtsk s = Some c \<Longrightarrow> state (tcb s c) = TS_READY \<Longrightarrow> stack_pool imalloc ifree \<Longrightarrow> tk_exd_tsk ifree s = Some s' \<Longrightarrow> sys_step s s'"
| ter_tsk: "run_ok s \<Longrightarrow> tk_ter_tsk oid s = Some (r, s') \<Longrightarrow> sys_step s s'"
| chg_pri: "run_ok s \<Longrightarrow> tk_chg_pri oid tskpri s = Some (r, s') \<Longrightarrow> sys_step s s'"
| rel_wai: "run_ok s \<Longrightarrow> tk_rel_wai oid s = Some (r, s') \<Longrightarrow> sys_step s s'"
| tmout: "TM_TSK t \<in> set (timer_queue s) \<Longrightarrow>
    knl_wait_release_tmout rel_wai_hook t (knl_timer_delete (TM_TSK t) s) = Some s' \<Longrightarrow> sys_step s s'"
| cre_sem: "run_ok s \<Longrightarrow> sys_step s (snd (tk_cre_sem csem s))"
| del_sem: "run_ok s \<Longrightarrow> sys_step s (snd (tk_del_sem oid s))"
| sig_sem: "run_ok s \<Longrightarrow> sys_step s (snd (tk_sig_sem oid cnt s))"
| wai_sem: "run_ok s \<Longrightarrow> sys_step s (snd (tk_wai_sem oid cnt tmout s))"
| cre_flg: "run_ok s \<Longrightarrow> sys_step s (snd (tk_cre_flg cflg s))"
| del_flg: "run_ok s \<Longrightarrow> sys_step s (snd (tk_del_flg oid s))"
| set_flg: "run_ok s \<Longrightarrow> sys_step s (snd (tk_set_flg oid ptn s))"
| clr_flg: "run_ok s \<Longrightarrow> sys_step s (snd (tk_clr_flg oid ptn s))"
| wai_flg: "run_ok s \<Longrightarrow> sys_step s (snd (tk_wai_flg oid ptn mode a tmout s))"
| cre_mbx: "run_ok s \<Longrightarrow> sys_step s (snd (tk_cre_mbx cmbx s))"
| del_mbx: "run_ok s \<Longrightarrow> sys_step s (snd (tk_del_mbx oid s))"
| snd_mbx: "run_ok s \<Longrightarrow> (\<And>msgs. mbx_rep s msgs \<Longrightarrow> msg_fresh m msgs) \<Longrightarrow> tk_snd_mbx oid m s = Some (r, s') \<Longrightarrow> sys_step s s'"
| rcv_mbx: "run_ok s \<Longrightarrow> sys_step s (snd (tk_rcv_mbx oid a tmout s))"
| dis_dsp: "run_ok s \<Longrightarrow> sys_step s (snd (tk_dis_dsp s))"
| ena_dsp: "run_ok s \<Longrightarrow> sys_step s (snd (tk_ena_dsp s))"
| tick: "sys_step s (charge_time (s\<lparr>current_time := current_time s + of_nat TIMER_PERIOD\<rparr>))"
| int_enter: "sys_step s (rtos_int_enter a s)"
| int_exit: "0 < isr_nest s \<Longrightarrow> sys_step s (wrap_rtos_int_exit s)"

lemma plain_sys_object_frames:
  "plain_sys s \<Longrightarrow> mtxlists s' = mtxlists s \<Longrightarrow> sem_frame_rel s s' \<Longrightarrow> plain_sys s'"
  "plain_sys f \<Longrightarrow> mtxlists f' = mtxlists f \<Longrightarrow> flg_frame_rel f f' \<Longrightarrow> plain_sys f'"
  "plain_sys m \<Longrightarrow> mtxlists m' = mtxlists m \<Longrightarrow> mbx_frame_rel m m' \<Longrightarrow> plain_sys m'"
  by (auto simp: sem_frame_rel_def flg_frame_rel_def mbx_frame_rel_def intro: plain_sys_frame)

lemma sys_inv_sem: "sys_inv s \<Longrightarrow> core_inv s' \<and> sem_inv s' \<Longrightarrow> sem_frame_rel s s' \<Longrightarrow> mtxlists s' = mtxlists s \<Longrightarrow> sys_inv s'"
  by (auto simp: sys_inv_def intro: flg_inv_sem_frame mbx_inv_sem_flg_frame plain_sys_object_frames)

lemma sys_inv_flg: "sys_inv s \<Longrightarrow> kinv_flg s' \<Longrightarrow> flg_frame_rel s s' \<Longrightarrow> mtxlists s' = mtxlists s \<Longrightarrow> sys_inv s'"
  by (auto simp: sys_inv_def kinv_flg_def intro: mbx_inv_sem_flg_frame plain_sys_object_frames)

lemma sys_inv_mbx:
  "sys_inv s \<Longrightarrow> core_inv s' \<Longrightarrow> mbx_inv s' \<Longrightarrow> mbx_frame_rel s s' \<Longrightarrow> mtxlists s' = mtxlists s \<Longrightarrow> sys_inv s'"
  by (auto simp: sys_inv_def intro: mbx_frame_rel_keeps plain_sys_object_frames)

lemma start_frame: "task_frame s (snd (tk_sta_tsk oid stacd s))"
  by (simp add: tk_sta_tsk_def Let_def task_frame_def knl_setup_stacd_def upd_tcb_def)

lemma rotate_queue_frame: "task_frame s (knl_rotate_ready_queue p s)"
  by (cases "que s (QRdy p)")
    (simp_all add: task_frame_def knl_rotate_ready_queue_def knl_ready_queue_rotate_def knl_reschedule_def que_remove_next_def que_insert_def Let_def)

lemma rotate_frame: "task_frame s (snd (tk_rot_rdq p s))"
  by (simp add: tk_rot_rdq_def Let_def knl_rotate_ready_queue_run_def rotate_queue_frame flip: knl_rotate_ready_queue_def)

lemma dispatch_call_frame:
  "task_frame s (snd (tk_dis_dsp s))" "task_frame s (snd (tk_ena_dsp s))"
  "core_inv s \<Longrightarrow> core_inv (snd (tk_dis_dsp s))" "core_inv s \<Longrightarrow> core_inv (snd (tk_ena_dsp s))"
  by (simp_all add: tk_dis_dsp_def tk_ena_dsp_def Let_def task_frame_def knl_dispatch_def)

lemma sys_inv_rel_wai:
  fixes s :: "'a mtxstate_scheme"
  assumes inv: "sys_inv s" and r: "tk_rel_wai oid s = Some (r, s')"
  shows "sys_inv s'"
proof (cases "CHECK_TSKID oid s < E_OK \<or> \<not> in_wait (state (tcb s (INDEX_OBJ oid)))")
  case True
  then show ?thesis using inv r by (auto simp: tk_rel_wai_def Let_def split: if_splits)
next
  case False
  let ?t = "INDEX_OBJ oid"
  let ?u = "knl_wait_release ?t s"
  let ?h = "if sem_wait_spec (wspec (tcb s ?t)) then sem_rel_wai ?t ?u else ?u"
  have t: "?t < NUM_TSKID" using CHECK_TSKID_ok(2) False by blast
  have i: "sys_inv ?h" using sys_inv_release[OF inv t] False by blast
  have w: "plain_wait (wspec (tcb s ?t))" using plain_sys_wait[OF sys_invD(6,1)[OF inv] t] False by blast
  have "rel_wai_hook ?t ?u = Some ?h" using plain_rel_wai_hook[of ?u ?t] w by simp
  then have s': "s' = END_CRITICAL_SECTION (set_wercd ?t E_RLWAI ?h)"
    using r False by (simp add: tk_rel_wai_def Let_def knl_wait_release_ng_def del: set_wercd_frame)
  have "task_frame ?h (set_wercd ?t E_RLWAI ?h)" by (simp add: task_frame_def)
  then show ?thesis using sys_inv_task_frame[OF i core_inv_set_wercd[OF sys_invD(1)[OF i]]] mtxlists_kernel(2) by (simp add: s' del: set_wercd_frame)
qed


lemma sys_inv_tmout:
  fixes s :: "'a mtxstate_scheme"
  assumes inv: "sys_inv s" and t: "TM_TSK t \<in> set (timer_queue s)"
    and r: "knl_wait_release_tmout rel_wai_hook t (knl_timer_delete (TM_TSK t) s) = Some s'"
  shows "sys_inv s'"
proof -
  let ?u = "knl_wait_release t s"
  have tw: "t < NUM_TSKID" "in_wait (state (tcb s t))"
    using core_invD(4)[OF sys_invD(1)[OF inv]] t by (simp_all add: timer_ok_def)
  note w = plain_sys_wait[OF sys_invD(6,1)[OF inv] tw]
  have "s' = (if sem_wait_spec (wspec (tcb s t)) then sem_rel_wai t ?u else ?u)"
    using r w plain_rel_wai_hook[of ?u t] by (simp add: knl_wait_release_tmout_def flip: knl_wait_release_def)
  then show ?thesis using sys_inv_release[OF inv tw] by blast
qed

lemma int_enter_inv: "core_inv s \<Longrightarrow> core_inv (rtos_int_enter a s)"
  by (simp add: enter_exit_levels(8))

lemma sem_count_bounds:
  assumes "sem_inv s" "i < NUM_SEMID" "semid (semcb s i) \<noteq> 0"
  shows "0 \<le> semcnt (semcb s i)" "semcnt (semcb s i) \<le> maxsem (semcb s i)"
  using sem_invD(2)[OF assms(1,2)] assms(3) by (auto simp: sem_ok_def sem_bounds_def)

text \<open>One fact per kind of step.\<close>

lemmas sys_inv_task_calls =
  sys_inv_task_frame[OF _ tk_sus_tsk_inv[OF sys_invD(1)] suspend_frame[OF sys_invD(1)] mtxlists_task_calls(1)]
  sys_inv_task_frame[OF _ tk_rsm_tsk_inv[OF sys_invD(1)] resume_frame(1) mtxlists_task_calls(2)]
  sys_inv_task_frame[OF _ tk_frsm_tsk_inv[OF sys_invD(1)] resume_frame(2) mtxlists_task_calls(3)]
  sys_inv_task_frame[OF _ tk_slp_tsk_inv[OF sys_invD(1)] sleep_frame(1)[OF sys_invD(1)] mtxlists_task_calls(4)]
  sys_inv_task_frame[OF _ tk_wup_tsk_inv[OF sys_invD(1)] wakeup_frame(1)[OF sys_invD(1)] mtxlists_task_calls(5)]
  sys_inv_task_frame[OF _ tk_can_wup_inv[OF sys_invD(1)] wakeup_frame(2)[OF sys_invD(1)] mtxlists_task_calls(6)]
  sys_inv_task_frame[OF _ tk_dly_tsk_inv[OF sys_invD(1)] sleep_frame(2)[OF sys_invD(1)] mtxlists_task_calls(7)]
  sys_inv_task_frame[OF _ tk_sta_tsk_inv[OF sys_invD(1)] start_frame mtxlists_task_calls(8)]
  sys_inv_task_frame[OF _ tk_rot_rdq_inv[OF sys_invD(1)] rotate_frame mtxlists_task_calls(9)]

lemmas sys_inv_dispatch =
  sys_inv_task_frame[OF _ dispatch_call_frame(3)[OF sys_invD(1)] dispatch_call_frame(1) mtxlists_dispatch(1)]
  sys_inv_task_frame[OF _ dispatch_call_frame(4)[OF sys_invD(1)] dispatch_call_frame(2) mtxlists_dispatch(2)]
  sys_inv_task_frame[OF _ int_enter_inv[OF sys_invD(1)] switch_frame(2) mtxlists_dispatch(3)]
  sys_inv_task_frame[OF _ int_exit_inv[OF sys_invD(1)] switch_frame(1) mtxlists_dispatch(4)]

lemmas sys_inv_sem_calls =
  sys_inv_sem[OF _ tk_cre_sem_inv[OF sys_invD(1,2)] tk_cre_sem_frame[OF sys_invD(1,2)] mtxlists_sem_calls(1)]
  sys_inv_sem[OF _ tk_del_sem_inv[OF sys_invD(1,2)] tk_del_sem_frame[OF sys_invD(1)] mtxlists_sem_calls(2)]
  sys_inv_sem[OF _ tk_sig_sem_inv[OF sys_invD(1,2)] tk_sig_sem_frame[OF sys_invD(1,2)] mtxlists_sem_calls(3)]
  sys_inv_sem[OF _ tk_wai_sem_inv[OF sys_invD(1,2)] tk_wai_sem_frame[OF sys_invD(1,2)] mtxlists_sem_calls(4)]

lemmas sys_inv_flg_calls =
  sys_inv_flg[OF _ tk_cre_flg_inv[OF sys_invD(5)] tk_cre_flg_frame mtxlists_flg_calls(1)]
  sys_inv_flg[OF _ tk_del_flg_inv[OF sys_invD(5)] tk_del_flg_frame[OF sys_invD(1)] mtxlists_flg_calls(2)]
  sys_inv_flg[OF _ tk_set_flg_inv[OF sys_invD(5)] tk_set_flg_frame[OF sys_invD(5)] mtxlists_flg_calls(3)]
  sys_inv_flg[OF _ conjunct1[OF tk_clr_flg_inv[OF sys_invD(5)]] conjunct2[OF tk_clr_flg_inv[OF sys_invD(5)]] mtxlists_flg_calls(4)]
  sys_inv_flg[OF _ conjunct1[OF tk_wai_flg_inv[OF sys_invD(5)]] conjunct2[OF tk_wai_flg_inv[OF sys_invD(5)]] mtxlists_flg_calls(5)]

lemma sys_inv_mbx_calls:
  assumes inv: "sys_inv s"
  shows "sys_inv (snd (tk_cre_mbx pk s))" "sys_inv (snd (tk_del_mbx oid s))" "run_ok s \<Longrightarrow> sys_inv (snd (tk_rcv_mbx oid a tmout s))"
    "(\<And>msgs. mbx_rep s msgs \<Longrightarrow> msg_fresh m msgs) \<Longrightarrow> tk_snd_mbx oid m s = Some (r, s') \<Longrightarrow> sys_inv s'"
proof -
  note I = sys_invD[OF inv]
  obtain msgs where msgs: "mbx_rep s msgs" using I(4) by (auto simp: mbx_inv_def)
  show "sys_inv (snd (tk_cre_mbx pk s))"
    using tk_cre_mbx_rep[OF I(1) msgs, of pk] by (intro sys_inv_mbx[OF inv]) (auto simp: mbx_inv_def)
  show "sys_inv (snd (tk_del_mbx oid s))" using tk_del_mbx_inv[OF I(1,4), of oid] sys_inv_mbx[OF inv] mtxlists_mbx_calls(2) by blast
  show "run_ok s \<Longrightarrow> sys_inv (snd (tk_rcv_mbx oid a tmout s))" using tk_rcv_mbx_inv[OF I(1,4), of oid a tmout] sys_inv_mbx[OF inv] mtxlists_mbx_calls(3) by blast
  assume f: "\<And>msgs. mbx_rep s msgs \<Longrightarrow> msg_fresh m msgs" and r: "tk_snd_mbx oid m s = Some (r, s')"
  obtain r' s'' where "tk_snd_mbx oid m s = Some (r', s'')" "core_inv s''" "mbx_inv s''" "mbx_frame_rel s s''"
    by (rule tk_snd_mbx_inv[OF I(1) msgs f[OF msgs]])
  then show "sys_inv s'" using sys_inv_mbx[OF inv] r mtxlists_mbx_calls(4)[OF r] by simp
qed

lemma sys_inv_life_calls:
  fixes s :: "'a mtxstate_scheme"
  assumes inv: "sys_inv s"
  shows "ctxtsk s = Some c \<Longrightarrow> state (tcb s c) = TS_READY \<Longrightarrow> tk_ext_tsk s = Some s' \<Longrightarrow> sys_inv s'"
    "ctxtsk s = Some c \<Longrightarrow> state (tcb s c) = TS_READY \<Longrightarrow> stack_pool imalloc ifree \<Longrightarrow> tk_exd_tsk ifree s = Some s' \<Longrightarrow> sys_inv s'"
    "tk_ter_tsk oid s = Some (r, s') \<Longrightarrow> sys_inv s'" "tk_chg_pri oid tskpri s = Some (r, s') \<Longrightarrow> sys_inv s'"
proof -
  show "ctxtsk s = Some c \<Longrightarrow> state (tcb s c) = TS_READY \<Longrightarrow> tk_ext_tsk s = Some s' \<Longrightarrow> sys_inv s'"
    using sys_inv_ext_tsk[OF inv] by (cases "in_indp s") (auto simp: tk_ext_tsk_def)
  show "ctxtsk s = Some c \<Longrightarrow> state (tcb s c) = TS_READY \<Longrightarrow> stack_pool imalloc ifree \<Longrightarrow> tk_exd_tsk ifree s = Some s' \<Longrightarrow> sys_inv s'"
    using sys_inv_exd_tsk[OF inv] by fastforce
  show "tk_ter_tsk oid s = Some (r, s') \<Longrightarrow> sys_inv s'" using sys_inv_ter_tsk[OF inv, of oid] by auto
  show "tk_chg_pri oid tskpri s = Some (r, s') \<Longrightarrow> sys_inv s'" using sys_inv_chg_pri[OF inv, of oid tskpri] by auto
qed

lemma sys_inv_tick:
  assumes inv: "sys_inv s" shows "sys_inv (charge_time (s\<lparr>current_time := ct\<rparr>))" (is "sys_inv (charge_time ?t)")
proof -
  have c: "core_inv ?t" using sys_invD(1)[OF inv] by (subst core_inv_cong[of _ s]) simp_all
  have "core_inv (upd_tcb t (\<lambda>b. if sysmode b > 0 then b\<lparr>stime := stime b + d\<rparr> else b\<lparr>utime := utime b + d\<rparr>) ?t)" for t d
    by (rule core_inv_upd_tcb[OF c]) (use core_invD(3)[OF c] in \<open>auto simp: home_def tcb_ok_def Let_def upd_tcb_def split: TSTAT.split\<close>)
  then have "core_inv (charge_time ?t)" using c by (simp add: charge_time_def split: option.split)
  moreover have "task_frame s (charge_time ?t)" "mtxlists (charge_time ?t) = mtxlists s"
    by (auto simp: charge_time_def task_frame_def mtxlists_def fun_eq_iff split: option.split)
  ultimately show ?thesis using sys_inv_task_frame[OF inv] by blast
qed

lemma sys_step_inv:
  assumes "sys_step s s'" "sys_inv s" shows "sys_inv s'"
  using assms
proof (induction rule: sys_step.induct)
  case (snd_mbx s m oid r s')
  then show ?case using sys_inv_mbx_calls(4) by blast
next
  case (ext_tsk s c s')
  then show ?case using sys_inv_life_calls(1) by blast
next
  case (exd_tsk s c imalloc ifree s')
  then show ?case using sys_inv_life_calls(2) by blast
next
  case (ter_tsk s oid r s')
  then show ?case using sys_inv_life_calls(3) by blast
next
  case (chg_pri s oid tskpri r s')
  then show ?case using sys_inv_life_calls(4) by blast
next
  case (cre_tsk s imalloc ifree ctsk)
  then show ?case using sys_inv_cre_tsk by blast
next
  case (del_tsk s imalloc ifree oid)
  then show ?case using sys_inv_del_tsk by blast
qed (blast intro: sys_inv_task_calls sys_inv_dispatch sys_inv_sem_calls sys_inv_flg_calls sys_inv_mbx_calls(1,2,3)
  sys_inv_rel_wai sys_inv_tmout sys_inv_tick)+

end
