(* ===== verification/Boot.thy ===== *)
theory Boot
  imports System
begin

text \<open>
  The start of the kernel: what the initialisers called by \<^verbatim>\<open>knl_init_object\<close> of
  \<^verbatim>\<open>tkinit.c\<close> make of memory that is all zero, the first state of the transition system.
\<close>

section \<open>Initialisation of the tables\<close>

lemma sem_init_fold:
  "fold (\<lambda>i st. (upd_semcb i (semid_update (\<lambda>_. 0)) st)\<lparr>free_semcb := free_semcb st @ [i]\<rparr>) [0..<n] s =
     s\<lparr>semcb := (\<lambda>i. if i < n then (semcb s i)\<lparr>semid := 0\<rparr> else semcb s i), free_semcb := free_semcb s @ [0..<n]\<rparr>"
  by (induction n) (auto simp: upd_semcb_def fun_eq_iff intro!: semstate.equality)

lemma flg_init_fold:
  "fold (\<lambda>i st. (upd_flgcb i (flgid_update (\<lambda>_. 0)) st)\<lparr>free_flgcb := free_flgcb st @ [i]\<rparr>) [0..<n] s =
     s\<lparr>flgcb := (\<lambda>i. if i < n then (flgcb s i)\<lparr>flgid := 0\<rparr> else flgcb s i), free_flgcb := free_flgcb s @ [0..<n]\<rparr>"
  by (induction n) (auto simp: upd_flgcb_def fun_eq_iff intro!: flgstate.equality)

lemma mbx_init_fold:
  "fold (\<lambda>i st. (upd_mbxcb i (mbxid_update (\<lambda>_. 0)) st)\<lparr>free_mbxcb := free_mbxcb st @ [i]\<rparr>) [0..<n] s =
     s\<lparr>mbxcb := (\<lambda>i. if i < n then (mbxcb s i)\<lparr>mbxid := 0\<rparr> else mbxcb s i), free_mbxcb := free_mbxcb s @ [0..<n]\<rparr>"
  by (induction n) (auto simp: upd_mbxcb_def fun_eq_iff intro!: mbxstate.equality)

lemma task_init_fold:
  "fold (\<lambda>i st. que_insert i QFreeTcb (upd_tcb i (\<lambda>b. b\<lparr>tskid := ID_OBJ i, state := TS_NONEXIST, wrdvno := word_of_int (ID_OBJ i)\<rparr>) st)) [0..<n] s =
     s\<lparr>tcb := (\<lambda>i. if i < n then (tcb s i)\<lparr>tskid := ID_OBJ i, state := TS_NONEXIST, wrdvno := word_of_int (ID_OBJ i)\<rparr> else tcb s i),
       que := (que s)(QFreeTcb := que s QFreeTcb @ [0..<n])\<rparr>"
  by (induction n) (auto simp: kdefs fun_eq_iff intro!: kstate.equality)

section \<open>The first state\<close>

text \<open>Memory that is all zero: no task has a priority, count or lock, and nothing is queued.\<close>

definition zeroed :: "'a kstate_scheme \<Rightarrow> bool" where
  "zeroed s \<longleftrightarrow> (\<forall>t. priority (tcb s t) = 0 \<and> bpriority (tcb s t) = 0 \<and> ipriority (tcb s t) = 0 \<and>
       wupcnt (tcb s t) = 0 \<and> suscnt (tcb s t) = 0 \<and> \<not> klocked (tcb s t) \<and> \<not> klockwait (tcb s t) \<and> mtxlist (tcb s t) = []) \<and>
     (\<forall>q. que s q = []) \<and> timer_queue s = []"

lemma task_initialize_inv:
  assumes z: "zeroed s"
  shows "fst (knl_task_initialize s) = E_OK" "core_inv (snd (knl_task_initialize s))"
    "que (snd (knl_task_initialize s)) (QWait w) = []" "kstate.more (snd (knl_task_initialize s)) = kstate.more s"
    "mtxlist (tcb (snd (knl_task_initialize s)) u) = []" "que (snd (knl_task_initialize s)) QFreeTcb = [0..<NUM_TSKID]"
    "u < NUM_TSKID \<Longrightarrow> state (tcb (snd (knl_task_initialize s)) u) = TS_NONEXIST" "ctxtsk (snd (knl_task_initialize s)) = None"
proof -
  let ?s = "snd (knl_task_initialize s)"
  let ?b = "\<lambda>i. (tcb s i)\<lparr>tskid := ID_OBJ i, state := TS_NONEXIST, wrdvno := word_of_int (ID_OBJ i)\<rparr>"
  have n: "\<not> NUM_TSKID < 1" "NUM_TSKID \<noteq> 0" by (simp_all add: NUM_TSKID_def)
  note e = knl_task_initialize_def[of s] task_init_fold knl_ready_queue_initialize_def que_init_def
  show "fst (knl_task_initialize s) = E_OK" using n by (simp add: e Let_def)
  have q: "que ?s = (\<lambda>q. if q = QFreeTcb then [0..<NUM_TSKID] else [])"
    using n z by (auto simp: e Let_def zeroed_def fun_eq_iff split: qid.split)
  then show "que ?s (QWait w) = []" by simp
  show "kstate.more ?s = kstate.more s" using n by (simp add: e Let_def)
  show "que ?s QFreeTcb = [0..<NUM_TSKID]" by (simp add: q)
  have t: "tcb ?s = (\<lambda>i. if i < NUM_TSKID then ?b i else tcb s i)" using n by (simp add: e Let_def fun_eq_iff)
  have f: "ctxtsk ?s = None" "schedtsk ?s = None" "klocktsk ?s = None" "top_priority ?s = NUM_TSKPRI" "bitmap ?s = 0" "timer_queue ?s = []"
    using n z by (simp_all add: e Let_def zeroed_def)
  show "mtxlist (tcb ?s u) = []" "u < NUM_TSKID \<Longrightarrow> state (tcb ?s u) = TS_NONEXIST" "ctxtsk ?s = None" using z n by (simp_all add: t zeroed_def f)
  have "task_inv ?s" by (auto simp: task_inv_def linked_def q t home_def)
  moreover have "sched_ok ?s" using z by (simp add: sched_ok_def rq_inv_def q f klock_free_def t knl_ready_queue_top_def zeroed_def)
  moreover have "tcb_ok ?s" using z by (simp add: tcb_ok_def t zeroed_def Let_def NUM_TSKPRI_def INT_MAX_def)
  ultimately show "core_inv ?s" by (simp add: core_inv_def timer_ok_def f)
qed

lemma fresh_table: "(\<And>i. i < n \<Longrightarrow> ids i = 0) \<Longrightarrow> cb_table_inv n ids [0..<n]"
  by (auto simp: cb_table_inv_def)

lemma sem_initialize_inv:
  assumes "core_inv s" "\<And>w. que s (QWait w) = []"
  defines "s' \<equiv> snd (knl_semaphore_initialize s)"
  shows "fst (knl_semaphore_initialize s) = E_OK" "core_inv s'" "sem_inv s'" "que s' = que s" "semstate.more s' = semstate.more s"
    "tcb s' = tcb s" "ctxtsk s' = ctxtsk s"
proof -
  have n: "\<not> NUM_SEMID < 1" "NUM_SEMID \<noteq> 0" by (simp_all add: NUM_SEMID_def)
  have e: "knl_semaphore_initialize s = (E_OK, s\<lparr>semcb := (\<lambda>i. if i < NUM_SEMID then (semcb s i)\<lparr>semid := 0\<rparr> else semcb s i),
      free_semcb := [0..<NUM_SEMID]\<rparr>)" using n unfolding knl_semaphore_initialize_def sem_init_fold by (simp cong: if_cong)
  have t: "cb_table_inv NUM_SEMID (\<lambda>i. semid (if i < NUM_SEMID then (semcb s i)\<lparr>semid := 0\<rparr> else semcb s i)) [0..<NUM_SEMID]"
    by (rule fresh_table) simp
  show "fst (knl_semaphore_initialize s) = E_OK" "que s' = que s" "semstate.more s' = semstate.more s"
    "tcb s' = tcb s" "ctxtsk s' = ctxtsk s" by (simp_all add: e s'_def)
  show "core_inv s'" using assms(1) by (subst core_inv_cong[of s' s]) (simp_all add: e s'_def)
  show "sem_inv s'" using assms(2) t by (simp add: sem_inv_def e s'_def sem_ok_def)
qed

lemma flg_initialize_inv:
  assumes "core_inv s" "sem_inv s" "\<And>w. que s (QWait w) = []"
  defines "s' \<equiv> snd (knl_eventflag_initialize s)"
  shows "fst (knl_eventflag_initialize s) = E_OK" "kinv_flg s'" "que s' = que s" "tcb s' = tcb s" "ctxtsk s' = ctxtsk s"
proof -
  have n: "\<not> NUM_FLGID < 1" "NUM_FLGID \<noteq> 0" by (simp_all add: NUM_FLGID_def)
  have e: "knl_eventflag_initialize s = (E_OK, s\<lparr>flgcb := (\<lambda>i. if i < NUM_FLGID then (flgcb s i)\<lparr>flgid := 0\<rparr> else flgcb s i),
      free_flgcb := [0..<NUM_FLGID]\<rparr>)" using n unfolding knl_eventflag_initialize_def flg_init_fold by (simp cong: if_cong)
  have t: "cb_table_inv NUM_FLGID (\<lambda>i. flgid (if i < NUM_FLGID then (flgcb s i)\<lparr>flgid := 0\<rparr> else flgcb s i)) [0..<NUM_FLGID]"
    by (rule fresh_table) simp
  show "fst (knl_eventflag_initialize s) = E_OK" "que s' = que s" "tcb s' = tcb s" "ctxtsk s' = ctxtsk s" by (simp_all add: e s'_def)
  have "core_inv s'" using assms(1) by (subst core_inv_cong[of s' s]) (simp_all add: e s'_def)
  moreover have "sem_inv s'" by (rule sem_inv_frame[OF assms(2)]) (simp_all add: e s'_def)
  moreover have "flg_inv s'" using assms(3) t by (simp add: flg_inv_def e s'_def flg_ok_def)
  ultimately show "kinv_flg s'" by (simp add: kinv_flg_def)
qed

lemma mbx_initialize_inv:
  assumes "kinv_flg s" "\<And>w. que s (QWait w) = []" "\<And>t. mtxlist (tcb s t) = []"
  defines "s' \<equiv> snd (knl_mailbox_initialize s)"
  shows "fst (knl_mailbox_initialize s) = E_OK" "sys_inv s'" "que s' = que s" "tcb s' = tcb s" "ctxtsk s' = ctxtsk s"
proof -
  have n: "\<not> NUM_MBXID < 1" "NUM_MBXID \<noteq> 0" by (simp_all add: NUM_MBXID_def)
  have e: "knl_mailbox_initialize s = (E_OK, s\<lparr>mbxcb := (\<lambda>i. if i < NUM_MBXID then (mbxcb s i)\<lparr>mbxid := 0\<rparr> else mbxcb s i),
      free_mbxcb := [0..<NUM_MBXID]\<rparr>)" using n unfolding knl_mailbox_initialize_def mbx_init_fold by (simp cong: if_cong)
  have t: "cb_table_inv NUM_MBXID (\<lambda>i. mbxid (if i < NUM_MBXID then (mbxcb s i)\<lparr>mbxid := 0\<rparr> else mbxcb s i)) [0..<NUM_MBXID]"
    by (rule fresh_table) simp
  show "fst (knl_mailbox_initialize s) = E_OK" "que s' = que s" "tcb s' = tcb s" "ctxtsk s' = ctxtsk s" by (simp_all add: e s'_def)
  then have ps: "plain_sys s'" using assms(2,3) by (simp add: plain_sys_def mtxlists_def)
  have I: "core_inv s" "sem_inv s" "flg_inv s" using assms(1) by (simp_all add: kinv_flg_def)
  have "core_inv s'" using I(1) by (subst core_inv_cong[of s' s]) (simp_all add: e s'_def)
  moreover have "sem_inv s'" by (rule sem_inv_frame[OF I(2)]) (simp_all add: e s'_def)
  moreover have "flg_inv s'" by (rule flg_inv_frame[OF I(3)]) (simp_all add: e s'_def)
  moreover have "mbx_rep s' (\<lambda>_. [])" using assms(2) t by (simp add: mbx_rep_def e s'_def mbx_ok_def)
  ultimately show "sys_inv s'" using ps by (auto simp: sys_inv_def mbx_inv_def)
qed

text \<open>The part of \<^verbatim>\<open>knl_init_object\<close> that initialises the objects of the transition system.\<close>

definition booted :: "'a mtxstate_scheme \<Rightarrow> 'a mtxstate_scheme" where
  "booted s = snd (knl_mailbox_initialize (snd (knl_eventflag_initialize (snd (knl_semaphore_initialize (snd (knl_task_initialize s)))))))"

lemma booted_state:
  assumes z: "zeroed s"
  defines "s1 \<equiv> snd (knl_task_initialize s)"
  defines "s2 \<equiv> snd (knl_semaphore_initialize s1)"
  defines "s3 \<equiv> snd (knl_eventflag_initialize s2)"
  shows "fst (knl_task_initialize s) = E_OK" "fst (knl_semaphore_initialize s1) = E_OK" "fst (knl_eventflag_initialize s2) = E_OK"
    "fst (knl_mailbox_initialize s3) = E_OK" "sys_inv (booted s)" "que (booted s) QFreeTcb = [0..<NUM_TSKID]" "ctxtsk (booted s) = None"
    "u < NUM_TSKID \<Longrightarrow> state (tcb (booted s) u) = TS_NONEXIST"
proof -
  note T = task_initialize_inv[OF z, folded s1_def]
  note S = sem_initialize_inv[OF T(2,3), folded s2_def]
  have q2: "que s2 (QWait w) = []" for w by (simp add: S T)
  note F = flg_initialize_inv[OF S(2,3) q2, folded s3_def]
  have q3: "que s3 (QWait w) = []" for w by (simp add: F q2)
  have l: "mtxlist (tcb s3 t) = []" for t by (simp add: F S T)
  have b: "booted s = snd (knl_mailbox_initialize s3)" by (simp add: booted_def s1_def s2_def s3_def)
  note X = mbx_initialize_inv[OF F(2) q3 l, folded b]
  show "fst (knl_task_initialize s) = E_OK" "fst (knl_semaphore_initialize s1) = E_OK" "fst (knl_eventflag_initialize s2) = E_OK"
    "fst (knl_mailbox_initialize s3) = E_OK" "sys_inv (booted s)" using T(1) S(1) F(1) X(1,2) by (simp_all add: s1_def)
  show "que (booted s) QFreeTcb = [0..<NUM_TSKID]" "ctxtsk (booted s) = None"
    "u < NUM_TSKID \<Longrightarrow> state (tcb (booted s) u) = TS_NONEXIST" by (simp_all add: X F S T)
qed

lemma ready_is_scheduled:
  assumes inv: "core_inv s" and t: "t < NUM_TSKID" "state (tcb s t) = TS_READY" and o: "\<And>u. u < NUM_TSKID \<Longrightarrow> u \<noteq> t \<Longrightarrow> state (tcb s u) \<noteq> TS_READY"
  shows "schedtsk s = Some t"
proof (cases "schedtsk s")
  case None
  note I = core_invD[OF inv]
  let ?p = "priority (tcb s t)"
  have p: "?p < NUM_TSKPRI" using tcb_okD[OF I(3) t(1)] by simp
  have "t \<in> set (que s (QRdy ?p))" using task_inv_mem[OF I(1), of t "QRdy ?p"] t by simp
  then have "que s (QRdy ?p) \<noteq> []" by auto
  moreover have "knl_ready_queue_top s = None" using I(8) None by simp
  ultimately show ?thesis using I(6,7) p
    by (auto simp: knl_ready_queue_top_def rq_inv_def klock_free_def split: if_splits list.splits)
next
  case (Some n)
  then show ?thesis using schedtsk_highest(1,2)[OF inv Some] o by auto
qed

text \<open>A first task, created on a buffer of its own with a valid packet and started.\<close>

definition first_packet :: "T_CTSK \<Rightarrow> bool" where
  "first_packet pk \<longleftrightarrow> ctsk_tskatr pk AND NOT (TA_HLNG OR TA_RNG3 OR TA_USERBUF) = 0 \<and> ctsk_tskatr pk AND TA_USERBUF \<noteq> 0 \<and>
     MIN_SYS_STACK_SIZE \<le> ctsk_stksz pk \<and> CHK_PRI (ctsk_itskpri pk)"

lemma created_others:
  assumes "que s QFreeTcb = t # ts" "u \<noteq> t" "first_packet pk"
  shows "tcb (snd (tk_sta_tsk (ID_OBJ t) stacd (snd (tk_cre_tsk imalloc ifree pk s)))) u = tcb s u"
proof -
  have c: "tcb (snd (tk_cre_tsk imalloc ifree pk s)) u = tcb s u"
    using assms by (simp add: tk_cre_tsk_def Let_def split_beta first_packet_def cre_tsk_def que_remove_next_def knl_make_dormant_def)
  show ?thesis using assms(2) by (simp add: tk_sta_tsk_def Let_def c)
qed

lemma first_task_runs:
  fixes s :: "'a mtxstate_scheme" and stacd :: int
  assumes z: "zeroed s" and pk: "first_packet pk" and pool: "stack_pool imalloc ifree"
  defines "s1 \<equiv> snd (tk_cre_tsk imalloc ifree pk (booted s))"
  defines "s2 \<equiv> snd (tk_sta_tsk 1 stacd s1)"
  shows "sys_step\<^sup>*\<^sup>* (booted s) s2" "fst (tk_cre_tsk imalloc ifree pk (booted s)) = Ret 1" "fst (tk_sta_tsk 1 stacd s1) = Ret E_OK"
    "state (tcb s2 0) = TS_READY" "schedtsk s2 = Some 0"
proof -
  note B = booted_state[OF z]
  have n: "que (booted s) QFreeTcb = 0 # [1..<NUM_TSKID]" "ID_OBJ 0 = 1" by (simp_all add: B NUM_TSKID_def upt_rec ID_OBJ_def)
  note C = task_create_and_start[OF sys_invD(1)[OF B(5)] n(1), of pk imalloc ifree stacd, unfolded n(2), folded s1_def s2_def]
  then show c: "fst (tk_cre_tsk imalloc ifree pk (booted s)) = Ret 1" "fst (tk_sta_tsk 1 stacd s1) = Ret E_OK" "state (tcb s2 0) = TS_READY"
    using pk by (auto simp: first_packet_def)
  have "run_ok (booted s)" by (simp add: run_ok_def B)
  then have r1: "sys_step (booted s) s1" unfolding s1_def using pool by (rule sys_step.cre_tsk)
  have "ctxtsk s1 = None"
    unfolding s1_def using pk B(7) by (simp add: tk_cre_tsk_def Let_def split_beta first_packet_def cre_tsk_def que_remove_next_def n(1) knl_make_dormant_def)
  then have r2: "sys_step s1 s2" unfolding s2_def by (intro sys_step.sta_tsk) (simp add: run_ok_def)
  show r: "sys_step\<^sup>*\<^sup>* (booted s) s2" using r1 r2 by (meson r_into_rtranclp rtranclp_trans)
  have "sys_inv s2" using r by induction (use B(5) sys_step_inv in blast)+
  moreover have "state (tcb s2 u) \<noteq> TS_READY" if "u < NUM_TSKID" "u \<noteq> 0" for u
    unfolding s2_def s1_def using created_others[OF n(1) that(2) pk, of stacd imalloc ifree] that B(8) by (simp add: n(2))
  ultimately show "schedtsk s2 = Some 0" by (intro ready_is_scheduled[OF sys_invD(1) _ c(3)]) (simp_all add: NUM_TSKID_def)
qed

definition zero_memory :: "unit mtxstate_scheme" where
  "zero_memory = (sample_mtx ())\<lparr>tcb := (\<lambda>_. blank_tcb 0), que := (\<lambda>_. []), timer_queue := []\<rparr>"

definition sample_packet :: T_CTSK where
  "sample_packet = \<lparr>ctsk_exinf = 5, ctsk_tskatr = TA_USERBUF, ctsk_task = 600, ctsk_itskpri = 7, ctsk_stksz = 1024, ctsk_bufptr = 4096\<rparr>"

lemma boot_samples:
  "zeroed zero_memory" "first_packet sample_packet" "stack_pool (\<lambda>_ s. (0, s)) (\<lambda>_ s. s)"
  by (simp_all add: zeroed_def zero_memory_def sample_defs first_packet_def sample_packet_def stack_pool_def consts_defs CHK_PRI_def
    MIN_SYS_STACK_SIZE_def)

section \<open>Reachable states\<close>

text \<open>
  C1. A system of tasks, semaphores, event flags and mailboxes, without mutexes and message buffers
  (which \<open>sys_inv\<close> says of its first state), runs through any sequence of their calls --
  creation, start, exit, termination and deletion of tasks, change of priority, suspension, sleep,
  wake-up and forced release included -- of interrupts, ticks, timeouts and task switches, where a
  call is made by a context that executes and no message is sent that is queued in a mailbox
  already. Then the invariants of the kernel and of the objects hold in every state it reaches. In
  particular no task waits in two queues, every semaphore count is between zero and its maximum, and
  the scheduled task is a ready task of the highest priority.
\<close>

theorem reachable_states_safe:
  assumes s0: "sys_inv s0" and steps: "sys_step\<^sup>*\<^sup>* s0 s"
  shows "sys_inv s \<and>
    (\<forall>t v w. t \<in> set (que s (QWait v)) \<longrightarrow> t \<in> set (que s (QWait w)) \<longrightarrow> v = w) \<and>
    (\<forall>i < NUM_SEMID. semid (semcb s i) \<noteq> 0 \<longrightarrow> 0 \<le> semcnt (semcb s i) \<and> semcnt (semcb s i) \<le> maxsem (semcb s i)) \<and>
    (\<forall>n. schedtsk s = Some n \<longrightarrow> state (tcb s n) = TS_READY \<and>
       (\<forall>u < NUM_TSKID. state (tcb s u) = TS_READY \<longrightarrow> priority (tcb s n) \<le> priority (tcb s u)))"
proof -
  have inv: "sys_inv s" using steps by induction (use s0 sys_step_inv in blast)+
  note I = sys_invD[OF inv]
  show ?thesis using inv core_inv_one_queue[OF I(1)] schedtsk_highest[OF I(1)] sem_count_bounds[OF I(2)] by blast
qed

theorem reachable_states_safe_witness:
  "sys_inv (rtos_int_enter 9000
     (snd (tk_sta_tsk 1 3 (snd (tk_cre_tsk (\<lambda>_ u. (0, u)) (\<lambda>_ u. u) sample_packet (booted zero_memory))))))"
proof -
  let ?s = "snd (tk_sta_tsk 1 3 (snd (tk_cre_tsk (\<lambda>_ u. (0, u)) (\<lambda>_ u. u) sample_packet (booted zero_memory))))"
  have i: "sys_inv (booted zero_memory)" by (rule booted_state(5)[OF boot_samples(1)])
  have "sys_step\<^sup>*\<^sup>* (booted zero_memory) ?s" by (rule first_task_runs(1)[OF boot_samples])
  moreover have "sys_step ?s (rtos_int_enter 9000 ?s)" by (rule sys_step.int_enter)
  ultimately have "sys_step\<^sup>*\<^sup>* (booted zero_memory) (rtos_int_enter 9000 ?s)"
    by (meson r_into_rtranclp rtranclp_trans)
  then show ?thesis using reachable_states_safe[OF i] by blast
qed

text \<open>
  C7. Initialising tasks, semaphores, event flags and mailboxes in the order of
  \<^verbatim>\<open>knl_init_object\<close> succeeds on memory that is all zero and establishes the invariants: they
  hold in every state that any sequence of steps reaches from there, steps that create and start
  tasks included. The first task created there on a buffer of its own, with a valid packet, has the
  identifier 1; once started it is ready and scheduled, and the invariants hold in all states the
  system goes through from then on.
\<close>

theorem boot_establishes_invariants:
  fixes s :: "'a mtxstate_scheme" and stacd :: int
  assumes z: "zeroed s" and pk: "first_packet pk" and pool: "stack_pool imalloc ifree"
  defines "s1 \<equiv> snd (knl_task_initialize s)"
  defines "s2 \<equiv> snd (knl_semaphore_initialize s1)"
  defines "s3 \<equiv> snd (knl_eventflag_initialize s2)"
  defines "s4 \<equiv> snd (knl_mailbox_initialize s3)"
  defines "s5 \<equiv> snd (tk_cre_tsk imalloc ifree pk s4)"
  defines "s6 \<equiv> snd (tk_sta_tsk 1 stacd s5)"
  shows "fst (knl_task_initialize s) = E_OK \<and> fst (knl_semaphore_initialize s1) = E_OK \<and>
    fst (knl_eventflag_initialize s2) = E_OK \<and> fst (knl_mailbox_initialize s3) = E_OK \<and>
    (\<forall>s'. sys_step\<^sup>*\<^sup>* s4 s' \<longrightarrow> sys_inv s') \<and>
    fst (tk_cre_tsk imalloc ifree pk s4) = Ret 1 \<and> fst (tk_sta_tsk 1 stacd s5) = Ret E_OK \<and>
    state (tcb s6 0) = TS_READY \<and> schedtsk s6 = Some 0 \<and> sys_step\<^sup>*\<^sup>* s4 s6 \<and> (\<forall>s'. sys_step\<^sup>*\<^sup>* s6 s' \<longrightarrow> sys_inv s')"
proof -
  note B = booted_state[OF z, folded s1_def, folded s2_def, folded s3_def]
  have b: "booted s = s4" by (simp add: booted_def s1_def s2_def s3_def s4_def)
  note R = first_task_runs(1,3,4,5)[OF z pk pool, where stacd = stacd, unfolded b, folded s5_def, folded s6_def]
    first_task_runs(2)[OF z pk pool, unfolded b]
  have i: "sys_inv s'" if "sys_step\<^sup>*\<^sup>* s4 s'" for s' using that by induction (use B(5) b sys_step_inv in auto)
  moreover have "sys_inv s'" if "sys_step\<^sup>*\<^sup>* s6 s'" for s' by (rule i) (rule rtranclp_trans[OF R(1) that])
  ultimately show ?thesis using B(1-4) R by blast
qed

theorem boot_establishes_invariants_witness:
  "zeroed zero_memory \<and> sys_inv (booted zero_memory) \<and>
   schedtsk (snd (tk_sta_tsk 1 3 (snd (tk_cre_tsk (\<lambda>_ u. (0, u)) (\<lambda>_ u. u) sample_packet (booted zero_memory))))) = Some 0"
  using boot_establishes_invariants[OF boot_samples, where stacd = 3] boot_samples(1) by (simp add: booted_def)

end
