(* ===== verification/Klock.thy ===== *)
theory Klock
  imports Dispatch Sample_Objects
begin

text \<open>
  The object lock of \<^verbatim>\<open>kernel/tkernel/klock.c\<close>: a call that works on an object for a long time locks
  it without disabling interrupts; the task that holds a lock is scheduled before all others. A lock is
  taken when its queue head is initialised (\<open>objlock\<close>); the tasks that wait for it are in the queue
  \<open>QLock\<close>. \<^verbatim>\<open>knl_LockOBJ\<close> returns when the caller has the lock; otherwise it has put the caller
  into the queue and tries again when the caller runs again, which is the result \<open>False\<close> here.
\<close>

section \<open>Operations\<close>

record lckstate = timstate +
  objlock :: "nat \<Rightarrow> bool"

definition knl_InitOBJLOCK :: "nat \<Rightarrow> 'a lckstate_scheme \<Rightarrow> 'a lckstate_scheme" where
  "knl_InitOBJLOCK l s = s\<lparr>objlock := (objlock s)(l := False)\<rparr>"

definition knl_isLockedOBJ :: "nat \<Rightarrow> 'a lckstate_scheme \<Rightarrow> bool" where
  "knl_isLockedOBJ l s = objlock s l"

definition knl_LockOBJ :: "nat \<Rightarrow> 'a lckstate_scheme \<Rightarrow> bool \<times> 'a lckstate_scheme" where
  "knl_LockOBJ l s =
     (let c = the (ctxtsk s)
      in if klocked (tcb s c) then (True, END_CRITICAL_SECTION s)
         else if \<not> objlock s l then
           let s1 = (que_init (QLock l) s)\<lparr>objlock := (objlock s)(l := True)\<rparr>;
               s2 = upd_tcb c (klocked_update (\<lambda>_. True)) s1
           in (True, END_CRITICAL_SECTION (s2\<lparr>klocktsk := Some c\<rparr>))
         else
           let s1 = knl_ready_queue_delete c s;
               s2 = upd_tcb c (klockwait_update (\<lambda>_. True)) s1;
               s3 = que_insert c (QLock l) s2
           in (False, END_CRITICAL_SECTION (s3\<lparr>schedtsk := knl_ready_queue_top s3\<rparr>)))"

definition knl_UnlockOBJ :: "nat \<Rightarrow> 'a lckstate_scheme \<Rightarrow> 'a lckstate_scheme" where
  "knl_UnlockOBJ l s =
     (let c = the (ctxtsk s);
          s1 = (upd_tcb c (klocked_update (\<lambda>_. False)) s)\<lparr>klocktsk := None\<rparr>;
          s3 = (case que_remove_next (QLock l) s1 of
                  (None, s2) \<Rightarrow> s2\<lparr>objlock := (objlock s2)(l := False)\<rparr>
                | (Some t, s2) \<Rightarrow>
                    knl_ready_queue_insert_top t (upd_tcb t (\<lambda>b. b\<lparr>klockwait := False, klocked := True\<rparr>) s2))
      in END_CRITICAL_SECTION (s3\<lparr>schedtsk := knl_ready_queue_top s3\<rparr>))"

lemma lckst_frame:
  assumes "kstate.more s' = kstate.more s" shows "objlock s' = objlock s" "lckstate.more s' = lckstate.more s"
  using assms by (cases s; cases s'; simp)+

lemma objlock_END [simp]: "objlock (END_CRITICAL_SECTION s) = objlock s"
  by (rule lckst_frame) simp

section \<open>Work under a lock\<close>

text \<open>
  \<open>under_lock c u s\<close>: the state \<open>s\<close> is the state \<open>u\<close> with the difference that task \<open>c\<close> holds a lock; which
  task is scheduled meanwhile does not matter, since the unlock computes it anew.
\<close>

definition under_lock :: "nat \<Rightarrow> 'a kstate_scheme \<Rightarrow> 'a kstate_scheme \<Rightarrow> bool" where
  "under_lock c u s \<longleftrightarrow> tcb s = (tcb u)(c := (tcb u c)\<lparr>klocked := True\<rparr>) \<and> que s = que u \<and> bitmap s = bitmap u \<and>
     top_priority s = top_priority u \<and> ctxtsk s = ctxtsk u \<and> timer_queue s = timer_queue u \<and> tmeb_time s = tmeb_time u \<and>
     current_time s = current_time u \<and> umem s = umem u \<and> kstate.more s = kstate.more u"

lemma under_lockD:
  assumes "under_lock c u s"
  shows "que s = que u" "timer_queue s = timer_queue u" "ctxtsk s = ctxtsk u" "umem s = umem u" "kstate.more s = kstate.more u"
    "tcb s = (tcb u)(c := (tcb u c)\<lparr>klocked := True\<rparr>)" "t \<noteq> c \<Longrightarrow> tcb s t = tcb u t"
  using assms by (auto simp: under_lock_def)

lemma END_fields [simp]:
  "bitmap (END_CRITICAL_SECTION s) = bitmap s" "top_priority (END_CRITICAL_SECTION s) = top_priority s"
  "tmeb_time (END_CRITICAL_SECTION s) = tmeb_time s" "current_time (END_CRITICAL_SECTION s) = current_time s"
  by (simp_all add: END_CRITICAL_SECTION_def knl_dispatch_def)

lemma under_lock_END [simp]: "under_lock c u (END_CRITICAL_SECTION s) = under_lock c u s"
  by (simp add: under_lock_def)

lemma under_lock_upd_tcb:
  assumes "under_lock c u s" "\<And>b. f (b\<lparr>klocked := True\<rparr>) = (f b)\<lparr>klocked := True\<rparr>"
  shows "under_lock c (upd_tcb t f u) (upd_tcb t f s)"
  using assms by (auto simp: under_lock_def upd_tcb_def fun_upd_twist)

lemma under_lock_insert:
  assumes "under_lock c u s"
  shows "under_lock c (snd (knl_ready_queue_insert t u)) (snd (knl_ready_queue_insert t s))"
  using assms by (auto simp: under_lock_def knl_ready_queue_insert_def Let_def kdefs)

lemma under_lock_sched [simp]:
  "under_lock c (u\<lparr>schedtsk := n\<rparr>) s = under_lock c u s" "under_lock c u (s\<lparr>schedtsk := n\<rparr>) = under_lock c u s"
  "under_lock c u (s\<lparr>klocktsk := k\<rparr>) = under_lock c u s" "under_lock c (u\<lparr>klocktsk := k\<rparr>) s = under_lock c u s"
  by (simp_all add: under_lock_def)

lemma under_lock_make_ready:
  assumes "under_lock c u s" shows "under_lock c (knl_make_ready t u) (knl_make_ready t s)"
proof -
  have e: "knl_make_ready t x = (let r = knl_ready_queue_insert t (upd_tcb t (state_update (\<lambda>_. TS_READY)) x)
      in if fst r then (snd r)\<lparr>schedtsk := Some t\<rparr> else snd r)" for x :: "'a kstate_scheme"
    by (auto simp: knl_make_ready_def Let_def split: prod.splits bool.splits)
  have "under_lock c (upd_tcb t (state_update (\<lambda>_. TS_READY)) u) (upd_tcb t (state_update (\<lambda>_. TS_READY)) s)"
    by (rule under_lock_upd_tcb[OF assms]) simp
  from under_lock_insert[OF this, of t] show ?thesis by (simp add: e Let_def)
qed

lemma under_lock_priority: "under_lock c u s \<Longrightarrow> priority (tcb s t) = priority (tcb u t)"
  by (simp add: under_lock_def)

lemma under_lock_remove:
  "under_lock c u s \<Longrightarrow> under_lock c (que_remove t u) (que_remove t s)"
  "under_lock c u s \<Longrightarrow> under_lock c (que_insert t q u) (que_insert t q s)"
  "under_lock c u s \<Longrightarrow> under_lock c (knl_timer_delete e u) (knl_timer_delete e s)"
  by (simp_all add: under_lock_def que_remove_def que_insert_def knl_timer_delete_def)

lemma under_lock_insert_tpri:
  assumes "under_lock c u s" shows "under_lock c (knl_queue_insert_tpri t w u) (knl_queue_insert_tpri t w s)"
  using assms unfolding knl_queue_insert_tpri_def under_lock_priority[OF assms] by (simp add: under_lock_def)

lemma under_lock_release:
  assumes "under_lock c u s" shows "under_lock c (knl_wait_release t u) (knl_wait_release t s)"
proof -
  let ?r = "\<lambda>s. que_remove t (knl_timer_delete (TM_TSK t) s)"
  have r: "under_lock c (?r u) (?r s)" by (intro under_lock_remove assms)
  have "state (tcb (?r s) t) = state (tcb (?r u) t)" using under_lockD(6)[OF r] by simp
  moreover have "under_lock c (upd_tcb t (state_update (\<lambda>_. TS_SUSPEND)) (?r u)) (upd_tcb t (state_update (\<lambda>_. TS_SUSPEND)) (?r s))"
    by (rule under_lock_upd_tcb[OF r]) simp
  ultimately show ?thesis using under_lock_make_ready[OF r, of t]
    unfolding knl_wait_release_def knl_make_non_wait_def by simp
qed

lemma under_lock_set_wercd: "under_lock c u s \<Longrightarrow> under_lock c (set_wercd t e u) (set_wercd t e s)"
  unfolding set_wercd_def by (rule under_lock_upd_tcb) simp_all

lemma under_lock_release_ok: "under_lock c u s \<Longrightarrow> under_lock c (knl_wait_release_ok t u) (knl_wait_release_ok t s)"
  unfolding knl_wait_release_ok_def by (intro under_lock_set_wercd under_lock_release)

lemma under_lock_wait_delete: "under_lock c u s \<Longrightarrow> under_lock c (knl_wait_delete w u) (knl_wait_delete w s)"
proof (induction w u arbitrary: s rule: knl_wait_delete.induct)
  case (1 w u)
  show ?case
  proof (cases "que u (QWait w)")
    case Nil
    then show ?thesis using 1(2) under_lockD(1)[OF 1(2)] by (simp add: knl_wait_delete.simps[of w u] knl_wait_delete.simps[of w s])
  next
    case (Cons t ts)
    have "under_lock c (knl_wait_delete w (set_wercd t E_DLT (knl_wait_release t u)))
        (knl_wait_delete w (set_wercd t E_DLT (knl_wait_release t s)))"
      by (rule 1(1)[OF Cons]) (intro under_lock_set_wercd under_lock_release 1(2))
    then show ?thesis using Cons under_lockD(1)[OF 1(2)] by (simp add: knl_wait_delete.simps[of w u] knl_wait_delete.simps[of w s])
  qed
qed

lemma under_lock_delete:
  assumes "under_lock c u s" shows "under_lock c (knl_ready_queue_delete t u) (knl_ready_queue_delete t s)"
proof -
  have e: "priority (tcb s t) = priority (tcb u t)" "klockwait (tcb s t) = klockwait (tcb u t)" using assms by (simp_all add: under_lock_def)
  show ?thesis using assms e by (auto simp: knl_ready_queue_delete_def Let_def under_lock_def upd_tcb_def que_remove_def fun_upd_twist)
qed

lemma under_lock_timer_insert:
  assumes "under_lock c u s" shows "under_lock c (knl_timer_insert e tmout u) (knl_timer_insert e tmout s)"
  using assms by (simp add: knl_timer_insert_def knl_enqueue_tmeb_def under_lock_def timer_ofs_def Let_def)

lemma under_lock_make_wait:
  assumes "under_lock c u s" shows "under_lock c (knl_make_wait t tmout u) (knl_make_wait t tmout s)"
proof -
  have st: "state (tcb s t) = state (tcb u t)" using assms by (simp add: under_lock_def)
  have "under_lock c (knl_make_non_ready t u) (knl_make_non_ready t s)"
    using under_lock_delete[OF assms, of t] by (simp add: knl_make_non_ready_def Let_def)
  then have "under_lock c (make_wait_state t u) (make_wait_state t s)"
    using assms by (auto simp: make_wait_state_def st split: TSTAT.split intro!: under_lock_upd_tcb)
  then show ?thesis unfolding knl_make_wait_def by (rule under_lock_timer_insert)
qed

lemma under_lock_gcb_make_wait:
  assumes "under_lock c u s"
  shows "under_lock c (knl_gcb_make_wait w objid objatr t tmout u) (knl_gcb_make_wait w objid objatr t tmout s)"
proof -
  have a: "under_lock c (set_wercd t E_TMOUT u) (set_wercd t E_TMOUT s)" by (rule under_lock_set_wercd[OF assms])
  have "under_lock c (upd_tcb t (wid_update (\<lambda>_. objid)) (set_wercd t E_TMOUT u)) (upd_tcb t (wid_update (\<lambda>_. objid)) (set_wercd t E_TMOUT s))"
    by (rule under_lock_upd_tcb[OF a]) simp
  note m = under_lock_make_wait[OF this, of t tmout]
  show ?thesis using a under_lock_insert_tpri[OF m] under_lock_remove(2)[OF m] by (simp add: knl_gcb_make_wait_def Let_def)
qed

section \<open>Lock and unlock\<close>

lemma lock_queue_empty: "core_inv s \<Longrightarrow> que s (QLock l) = []"
proof -
  assume "core_inv s"
  then have "t \<notin> set (que s (QLock l))" for t
    using task_inv_mem[OF core_invD(1), of s t "QLock l"] wait_home_QWait by (auto simp: home_def split: TSTAT.splits)
  then show ?thesis by (cases "que s (QLock l)") (auto simp: list.set_intros(1))
qed

lemma lock_free:
  assumes inv: "core_inv s" and c: "ctxtsk s = Some c" and l: "\<not> objlock s l"
  shows "fst (knl_LockOBJ l s)" "under_lock c (s\<lparr>objlock := (objlock s)(l := True)\<rparr>) (snd (knl_LockOBJ l s))"
proof -
  have k: "\<not> klocked (tcb s c)" using core_invD(6)[OF inv] by (simp add: klock_free_def)
  have e: "knl_LockOBJ l s = (True, END_CRITICAL_SECTION
      ((upd_tcb c (klocked_update (\<lambda>_. True)) (s\<lparr>objlock := (objlock s)(l := True)\<rparr>))\<lparr>klocktsk := Some c\<rparr>))"
    using k l c by (simp add: knl_LockOBJ_def que_init_empty[OF lock_queue_empty[OF inv]])
  show "fst (knl_LockOBJ l s)" by (simp add: e)
  show "under_lock c (s\<lparr>objlock := (objlock s)(l := True)\<rparr>) (snd (knl_LockOBJ l s))"
    unfolding e snd_conv under_lock_END under_lock_sched by (simp add: under_lock_def upd_tcb_def)
qed

lemma unlock_ends:
  fixes s :: "'a lckstate_scheme" and l :: nat
  assumes inv: "core_inv u" and c: "ctxtsk u = Some c" and ul: "under_lock c u s"
  defines "r \<equiv> knl_UnlockOBJ l s"
  shows "core_inv r" "tcb r = tcb u" "que r = que u" "ctxtsk r = ctxtsk u" "timer_queue r = timer_queue u" "umem r = umem u"
    "kstate.more r = kstate.more (u\<lparr>objlock := (objlock u)(l := False)\<rparr>)"
proof -
  note U = under_lockD[OF ul]
  let ?s1 = "(upd_tcb c (klocked_update (\<lambda>_. False)) s)\<lparr>klocktsk := None\<rparr>"
  let ?s2 = "?s1\<lparr>objlock := (objlock s)(l := False)\<rparr>"
  let ?s3 = "?s2\<lparr>schedtsk := knl_ready_queue_top ?s2\<rparr>"
  have nk: "\<not> klocked (tcb u c)" using core_invD(6)[OF inv] by (simp add: klock_free_def)
  have q: "que ?s1 (QLock l) = []" using lock_queue_empty[OF inv] U(1) by (simp add: upd_tcb_def)
  have r: "r = END_CRITICAL_SECTION ?s3"
    using q U(3) c by (simp add: r_def knl_UnlockOBJ_def Let_def que_remove_next_def upd_tcb_def)
  have "(tcb u c)\<lparr>klocked := True, klocked := False\<rparr> = tcb u c" using nk by (cases "tcb u c") simp
  then have tc: "tcb ?s2 = tcb u" by (simp add: upd_tcb_def U(6) fun_upd_idem)
  have kt: "klocktsk u = None" using core_invD(6)[OF inv] by (simp add: klock_free_def)
  have f: "que ?s2 = que u" "bitmap ?s2 = bitmap u" "top_priority ?s2 = top_priority u" "klocktsk ?s2 = klocktsk u"
    "ctxtsk ?s2 = ctxtsk u" "timer_queue ?s2 = timer_queue u" "umem ?s2 = umem u"
    using ul kt by (simp_all add: under_lock_def upd_tcb_def)
  have top: "knl_ready_queue_top ?s2 = schedtsk u" using top_cong[of ?s2 u] f core_invD(8)[OF inv] by simp
  have "core_inv ?s3" by (subst core_inv_cong[of ?s3 u]) (use f tc top inv in simp_all)
  then show "core_inv r" by (simp add: r)
  show "tcb r = tcb u" "que r = que u" "ctxtsk r = ctxtsk u" "timer_queue r = timer_queue u" "umem r = umem u"
    using f tc by (simp_all add: r)
  have m: "kstate.more s = kstate.more u" using ul by (simp add: under_lock_def)
  then have "objlock s = objlock u" by (cases s; cases u) simp
  then show "kstate.more r = kstate.more (u\<lparr>objlock := (objlock u)(l := False)\<rparr>)" using m by (simp add: r upd_tcb_def) (cases s; cases u; simp)
qed


text \<open>
  A lock is passed on in the order of the requests and the task that holds it is scheduled: a task
  that asks for a lock held by another leaves the ready queue and queues behind the others, while the
  holder stays scheduled; an unlock gives the lock to the first of the queue, which becomes the scheduled
  task whatever its priority, and frees the lock when nobody waits.
\<close>

lemma lock_hands_over:
  assumes d: "ctxtsk s = Some d" "\<not> klocked (tcb s d)" "objlock s l" "klocktsk s = Some c" "c \<noteq> d" "d \<notin> set (que s (QLock l))"
    and h: "ctxtsk u = Some h" "h \<notin> set (que u (QLock l))"
  shows "(\<not> fst (knl_LockOBJ l s) \<and> que (snd (knl_LockOBJ l s)) (QLock l) = que s (QLock l) @ [d] \<and>
       klockwait (tcb (snd (knl_LockOBJ l s)) d) \<and> schedtsk (snd (knl_LockOBJ l s)) = Some c) \<and>
     (case que u (QLock l) of
        [] \<Rightarrow> \<not> objlock (knl_UnlockOBJ l u) l \<and> klocktsk (knl_UnlockOBJ l u) = None
      | t # ts \<Rightarrow> objlock (knl_UnlockOBJ l u) l = objlock u l \<and> que (knl_UnlockOBJ l u) (QLock l) = ts \<and>
          klocked (tcb (knl_UnlockOBJ l u) t) \<and> \<not> klockwait (tcb (knl_UnlockOBJ l u) t) \<and>
          klocktsk (knl_UnlockOBJ l u) = Some t \<and> schedtsk (knl_UnlockOBJ l u) = Some t) \<and>
     \<not> klocked (tcb (knl_UnlockOBJ l u) h)"
proof -
  let ?d = "knl_ready_queue_delete d s"
  let ?s = "que_insert d (QLock l) (upd_tcb d (klockwait_update (\<lambda>_. True)) ?d)"
  have e: "knl_LockOBJ l s = (False, END_CRITICAL_SECTION (?s\<lparr>schedtsk := knl_ready_queue_top ?s\<rparr>))"
    using d by (simp add: knl_LockOBJ_def Let_def)
  have k: "klocktsk ?d = Some c" "que ?d (QLock l) = que s (QLock l)"
    using d(4,5,6) by (auto simp: knl_ready_queue_delete_def Let_def upd_tcb_def que_remove_def removeAll_id)
  have "klocktsk ?s = Some c" using k(1) by (simp add: upd_tcb_def que_insert_def)
  then have "knl_ready_queue_top ?s = Some c" by (simp add: knl_ready_queue_top_def)
  then have L: "\<not> fst (knl_LockOBJ l s)" "que (snd (knl_LockOBJ l s)) (QLock l) = que s (QLock l) @ [d]"
    "klockwait (tcb (snd (knl_LockOBJ l s)) d)" "schedtsk (snd (knl_LockOBJ l s)) = Some c"
    using k(2) by (simp_all add: e upd_tcb_def que_insert_def)
  have U: "case que u (QLock l) of
        [] \<Rightarrow> \<not> objlock (knl_UnlockOBJ l u) l \<and> klocktsk (knl_UnlockOBJ l u) = None \<and> \<not> klocked (tcb (knl_UnlockOBJ l u) h)
      | t # ts \<Rightarrow> objlock (knl_UnlockOBJ l u) l = objlock u l \<and> que (knl_UnlockOBJ l u) (QLock l) = ts \<and>
          klocked (tcb (knl_UnlockOBJ l u) t) \<and> \<not> klockwait (tcb (knl_UnlockOBJ l u) t) \<and>
          klocktsk (knl_UnlockOBJ l u) = Some t \<and> schedtsk (knl_UnlockOBJ l u) = Some t \<and> \<not> klocked (tcb (knl_UnlockOBJ l u) h)"
  proof (cases "que u (QLock l)")
    case Nil
    then show ?thesis using h(1) by (simp add: knl_UnlockOBJ_def Let_def que_remove_next_def upd_tcb_def)
  next
    case (Cons t ts)
    then have "t \<noteq> h" using h(2) by auto
    then show ?thesis using h(1) Cons
      by (simp add: knl_UnlockOBJ_def Let_def que_remove_next_def upd_tcb_def knl_ready_queue_insert_top_def que_insert_top_def knl_ready_queue_top_def)
  qed
  show ?thesis using L U by (auto split: list.splits)
qed

end
