(* ===== verification/Mempfix.thy ===== *)
theory Mempfix
  imports Klock
begin

text \<open>
  The fixed-size memory pool of \<^verbatim>\<open>kernel/tkernel/mempfix.c\<close>. A block that has never been used is
  cut off the unused area; released blocks form a list linked through their first word, which is kept
  in the memory \<open>umem\<close>. The calls run under the lock of the pool (\<open>Klock\<close>); a call that finds the lock
  taken is \<open>Blocked\<close> and goes on with the part of it named \<open>..._locked\<close> when it has the lock.
  A null pointer is 0.
\<close>

section \<open>State\<close>

definition NUM_MPFID :: nat where [consts_defs]: "NUM_MPFID = 8"

record MPFCB =
  mpfid :: ID
  mpf_exinf :: addr
  mpfatr :: ATR
  mpfcnt :: int
  blfsz :: int
  mpfsz :: int
  frbcnt :: int
  mempool :: addr
  unused :: addr
  freelist :: addr

record T_CMPF =
  cmpf_exinf :: addr
  cmpf_mpfatr :: ATR
  cmpf_mpfcnt :: int
  cmpf_blfsz :: int
  cmpf_bufptr :: addr

record T_RMPF =
  rmpf_exinf :: addr
  rmpf_wtsk :: ID
  rmpf_frbcnt :: int

record mpfstate = lckstate +
  mpfcb :: "nat \<Rightarrow> MPFCB"
  free_mpfcb :: "nat list"

definition upd_mpfcb :: "nat \<Rightarrow> (MPFCB \<Rightarrow> MPFCB) \<Rightarrow> 'a mpfstate_scheme \<Rightarrow> 'a mpfstate_scheme" where
  [kdefs]: "upd_mpfcb i f s = s\<lparr>mpfcb := (mpfcb s)(i := f (mpfcb s i))\<rparr>"

section \<open>Operations\<close>

definition MINSZ :: "int \<Rightarrow> UW" where
  "MINSZ sz = (word_of_int sz + 3) AND NOT 3"

definition knl_mempool_end :: "MPFCB \<Rightarrow> int" where
  "knl_mempool_end cb = int (mempool cb) + mpfsz cb"

definition ENABLE_INTERRUPT :: "'a kstate_scheme \<Rightarrow> 'a kstate_scheme" where
  "ENABLE_INTERRUPT s = s\<lparr>cpu_intlevel := 1, cpu_mie := True\<rparr>"

definition knl_fix_memorypool_initialize :: "'a mpfstate_scheme \<Rightarrow> ER \<times> 'a mpfstate_scheme" where
  "knl_fix_memorypool_initialize s =
     (if NUM_MPFID < 1 then (E_SYS, s)
      else (E_OK,
        fold (\<lambda>i st. let st1 = knl_InitOBJLOCK i (upd_mpfcb i (mpfid_update (\<lambda>_. 0)) st)
                      in st1\<lparr>free_mpfcb := free_mpfcb st1 @ [i]\<rparr>)
          [0..<NUM_MPFID] (s\<lparr>free_mpfcb := []\<rparr>)))"

text \<open>The product \<^verbatim>\<open>blfsz * mpfcnt\<close> is computed in 32 bits.\<close>

definition pool_size :: "int \<Rightarrow> int \<Rightarrow> int" where
  "pool_size sz cnt = sint (word_of_int (sz * cnt) :: 32 word)"

text \<open>The initialisation of the control block, under its lock, and the unlock.\<close>

definition cre_mpf_locked :: "T_CMPF \<Rightarrow> addr \<Rightarrow> nat \<Rightarrow> 'a mpfstate_scheme \<Rightarrow> sysret \<times> 'a mpfstate_scheme" where
  "cre_mpf_locked pk pool i s =
     (let sz = sint (MINSZ (cmpf_blfsz pk));
          s1 = que_init (QMpf i) s;
          s2 = upd_mpfcb i (\<lambda>cb. cb\<lparr>mpf_exinf := cmpf_exinf pk, mpfatr := cmpf_mpfatr pk, mpfcnt := cmpf_mpfcnt pk,
                 frbcnt := cmpf_mpfcnt pk, blfsz := sz, mpfsz := pool_size sz (cmpf_mpfcnt pk),
                 mempool := pool, unused := pool, freelist := 0\<rparr>) s1;
          s3 = upd_mpfcb i (mpfid_update (\<lambda>_. ID_OBJ i)) s2
      in (Ret (ID_OBJ i), knl_UnlockOBJ i s3))"

definition tk_cre_mpf ::
    "(UW \<Rightarrow> 'a mpfstate_scheme \<Rightarrow> addr \<times> 'a mpfstate_scheme) \<Rightarrow>
     (addr \<Rightarrow> 'a mpfstate_scheme \<Rightarrow> 'a mpfstate_scheme) \<Rightarrow>
     T_CMPF \<Rightarrow> 'a mpfstate_scheme \<Rightarrow> sysret \<times> 'a mpfstate_scheme" where
  "tk_cre_mpf knl_Imalloc knl_Ifree pk s =
     (let e = first_err [CHECK_RSATR (cmpf_mpfatr pk) (TA_TPRI OR TA_RNG3 OR TA_USERBUF),
                CHECK_PAR (cmpf_mpfcnt pk > 0), CHECK_PAR (cmpf_blfsz pk > 0), CHECK_DISPATCH s];
          sz = sint (MINSZ (cmpf_blfsz pk));
          user = cmpf_mpfatr pk AND TA_USERBUF \<noteq> 0
      in if e < E_OK then (Ret e, s)
         else if user \<and> sz \<noteq> cmpf_blfsz pk then (Ret E_PAR, s)
         else
           let (pool, s1) = (if user then (cmpf_bufptr pk, s)
                             else knl_Imalloc (word_of_int (pool_size sz (cmpf_mpfcnt pk))) s)
           in if \<not> user \<and> pool = 0 then (Ret E_NOMEM, s1)
              else
                (case free_mpfcb s1 of
                   [] \<Rightarrow> (Ret E_LIMIT, if user then ENABLE_INTERRUPT s1 else knl_Ifree pool (ENABLE_INTERRUPT s1))
                 | i # fs \<Rightarrow>
                     (case knl_LockOBJ i (ENABLE_INTERRUPT (s1\<lparr>free_mpfcb := fs\<rparr>)) of
                        (True, s2) \<Rightarrow> cre_mpf_locked pk pool i s2
                      | (False, s2) \<Rightarrow> (Blocked, s2))))"

definition del_mpf :: "nat \<Rightarrow> 'a mpfstate_scheme \<Rightarrow> 'a mpfstate_scheme" where
  "del_mpf i s =
     (let s1 = knl_wait_delete (WMpf i) s
      in upd_mpfcb i (mpfid_update (\<lambda>_. 0)) (s1\<lparr>free_mpfcb := free_mpfcb s1 @ [i]\<rparr>))"

definition del_mpf_locked ::
    "(addr \<Rightarrow> 'a mpfstate_scheme \<Rightarrow> 'a mpfstate_scheme) \<Rightarrow> nat \<Rightarrow> 'a mpfstate_scheme \<Rightarrow>
     sysret \<times> 'a mpfstate_scheme" where
  "del_mpf_locked knl_Ifree i s =
     (if mpfid (mpfcb s i) = 0 then (Ret E_NOEXS, knl_UnlockOBJ i s)
      else
        let pool = mempool (mpfcb s i); memattr = mpfatr (mpfcb s i);
            s1 = knl_UnlockOBJ i (ENABLE_INTERRUPT (del_mpf i s))
        in (Ret E_OK, if pool \<noteq> 0 \<and> memattr AND TA_USERBUF = 0 then knl_Ifree pool s1 else s1))"

definition tk_del_mpf ::
    "(addr \<Rightarrow> 'a mpfstate_scheme \<Rightarrow> 'a mpfstate_scheme) \<Rightarrow> ID \<Rightarrow> 'a mpfstate_scheme \<Rightarrow>
     sysret \<times> 'a mpfstate_scheme" where
  "tk_del_mpf knl_Ifree oid s =
     (let e = first_err [CHECK_OBJID NUM_MPFID oid, CHECK_DISPATCH s]; i = INDEX_OBJ oid
      in if e < E_OK then (Ret e, s)
         else (case knl_LockOBJ i s of
                 (True, s1) \<Rightarrow> del_mpf_locked knl_Ifree i s1
               | (False, s1) \<Rightarrow> (Blocked, s1)))"

text \<open>Taking a block from the list of released blocks or from the unused area.\<close>

definition take_block :: "nat \<Rightarrow> addr \<Rightarrow> 'a mpfstate_scheme \<Rightarrow> 'a mpfstate_scheme" where
  "take_block i p_blf s =
     (let cb = mpfcb s i;
          s1 = (if freelist cb \<noteq> 0
                then (upd_mpfcb i (freelist_update (\<lambda>_. unat (umem s (freelist cb)))) s)
                       \<lparr>umem := (umem s)(p_blf := of_nat (freelist cb))\<rparr>
                else upd_mpfcb i (\<lambda>b. b\<lparr>unused := nat (int (unused b) + blfsz b)\<rparr>)
                       (s\<lparr>umem := (umem s)(p_blf := of_nat (unused cb))\<rparr>))
      in upd_mpfcb i (\<lambda>b. b\<lparr>frbcnt := frbcnt b - 1\<rparr>) s1)"

definition get_mpf_locked :: "nat \<Rightarrow> addr \<Rightarrow> TMO \<Rightarrow> 'a mpfstate_scheme \<Rightarrow> sysret \<times> 'a mpfstate_scheme" where
  "get_mpf_locked i p_blf tmout s =
     (let cb = mpfcb s i; c = the (ctxtsk s)
      in if mpfid cb = 0 then (Ret E_NOEXS, knl_UnlockOBJ i s)
         else if frbcnt cb \<le> 0 then
           let ws = (if mpfatr cb AND TA_TPRI \<noteq> 0 then knl_wspec_mpf_tpri else knl_wspec_mpf_tfifo);
               s1 = prepare_wait c ws (WINFO_MPF p_blf) s;
               s2 = knl_gcb_make_wait (WMpf i) (mpfid cb) (mpfatr cb) c tmout s1
           in (wait_ret tmout, END_CRITICAL_SECTION (knl_UnlockOBJ i s2))
         else (Ret E_OK, knl_UnlockOBJ i (take_block i p_blf s)))"

definition tk_get_mpf :: "ID \<Rightarrow> addr \<Rightarrow> TMO \<Rightarrow> 'a mpfstate_scheme \<Rightarrow> sysret \<times> 'a mpfstate_scheme" where
  "tk_get_mpf oid p_blf tmout s =
     (let e = first_err [CHECK_OBJID NUM_MPFID oid, CHECK_TMOUT tmout, CHECK_DISPATCH s]; i = INDEX_OBJ oid
      in if e < E_OK then (Ret e, s)
         else (case knl_LockOBJ i s of
                 (True, s1) \<Rightarrow> get_mpf_locked i p_blf tmout s1
               | (False, s1) \<Rightarrow> (Blocked, s1)))"

definition give_block :: "nat \<Rightarrow> addr \<Rightarrow> 'a mpfstate_scheme \<Rightarrow> 'a mpfstate_scheme" where
  "give_block i blf s =
     (case que s (QMpf i) of
        t # _ \<Rightarrow>
          ENABLE_INTERRUPT (knl_wait_release_ok t
            (s\<lparr>umem := (umem s)(winfo_mpf_p_blf (winfo (tcb s t)) := of_nat blf)\<rparr>))
      | [] \<Rightarrow>
          upd_mpfcb i (\<lambda>b. b\<lparr>freelist := blf, frbcnt := frbcnt b + 1\<rparr>)
            ((ENABLE_INTERRUPT s)\<lparr>umem := (umem s)(blf := of_nat (freelist (mpfcb s i)))\<rparr>))"

definition rel_mpf_locked :: "nat \<Rightarrow> addr \<Rightarrow> 'a mpfstate_scheme \<Rightarrow> sysret \<times> 'a mpfstate_scheme" where
  "rel_mpf_locked i blf s =
     (let cb = mpfcb s i
      in if mpfid cb = 0 then (Ret E_NOEXS, knl_UnlockOBJ i s)
         else if blf < mempool cb \<or> int blf \<ge> knl_mempool_end cb \<or> (int blf - int (mempool cb)) mod blfsz cb \<noteq> 0
           then (Ret E_PAR, knl_UnlockOBJ i s)
         else (Ret E_OK, knl_UnlockOBJ i (give_block i blf s)))"

definition tk_rel_mpf :: "ID \<Rightarrow> addr \<Rightarrow> 'a mpfstate_scheme \<Rightarrow> sysret \<times> 'a mpfstate_scheme" where
  "tk_rel_mpf oid blf s =
     (let e = first_err [CHECK_OBJID NUM_MPFID oid, CHECK_DISPATCH s]; i = INDEX_OBJ oid
      in if e < E_OK then (Ret e, s)
         else (case knl_LockOBJ i s of
                 (True, s1) \<Rightarrow> rel_mpf_locked i blf s1
               | (False, s1) \<Rightarrow> (Blocked, s1)))"

definition ref_mpf_locked :: "nat \<Rightarrow> 'a mpfstate_scheme \<Rightarrow> T_RMPF refret \<times> 'a mpfstate_scheme" where
  "ref_mpf_locked i s =
     (let cb = mpfcb s i
      in if mpfid cb = 0 then ((E_NOEXS, None), knl_UnlockOBJ i s)
         else ((E_OK, Some \<lparr>rmpf_exinf = mpf_exinf cb, rmpf_wtsk = knl_wait_tskid (WMpf i) s, rmpf_frbcnt = frbcnt cb\<rparr>),
               knl_UnlockOBJ i (ENABLE_INTERRUPT s)))"

text \<open>\<open>None\<close> for the result: the caller waits for the lock.\<close>

definition tk_ref_mpf :: "ID \<Rightarrow> 'a mpfstate_scheme \<Rightarrow> T_RMPF refret option \<times> 'a mpfstate_scheme" where
  "tk_ref_mpf oid s =
     (let e = first_err [CHECK_OBJID NUM_MPFID oid, CHECK_DISPATCH s]; i = INDEX_OBJ oid
      in if e < E_OK then (Some (e, None), s)
         else (case knl_LockOBJ i s of
                 (True, s1) \<Rightarrow> (let (r, s2) = ref_mpf_locked i s1 in (Some r, s2))
               | (False, s1) \<Rightarrow> (None, s1)))"

definition td_lst_mpf :: "int \<Rightarrow> 'a mpfstate_scheme \<Rightarrow> int \<times> ID list" where
  "td_lst_mpf nent s =
     list_entries nent (map ID_OBJ (filter (\<lambda>i. mpfid (mpfcb s i) \<noteq> 0) [0..<NUM_MPFID]))"

definition td_ref_mpf :: "ID \<Rightarrow> 'a mpfstate_scheme \<Rightarrow> T_RMPF refret" where
  "td_ref_mpf oid s =
     (let e = CHECK_OBJID NUM_MPFID oid; i = INDEX_OBJ oid; cb = mpfcb s i
      in if e < E_OK then (e, None)
         else if mpfid cb = 0 then (E_NOEXS, None)
         else if knl_isLockedOBJ i s then (E_CTX, None)
         else (E_OK, Some \<lparr>rmpf_exinf = mpf_exinf cb, rmpf_wtsk = knl_wait_tskid (WMpf i) s, rmpf_frbcnt = frbcnt cb\<rparr>))"

definition td_mpf_que :: "ID \<Rightarrow> int \<Rightarrow> 'a mpfstate_scheme \<Rightarrow> int \<times> ID list" where
  "td_mpf_que oid nent s =
     (let e = CHECK_OBJID NUM_MPFID oid; i = INDEX_OBJ oid
      in if e < E_OK then (e, [])
         else if mpfid (mpfcb s i) = 0 then (E_NOEXS, [])
         else list_entries nent (que_tskids (QMpf i) s))"

section \<open>Frames\<close>

lemma mpfst_frame:
  assumes "kstate.more s' = kstate.more s" shows "mpfcb s' = mpfcb s" "free_mpfcb s' = free_mpfcb s" "objlock s' = objlock s"
  using assms by (cases s; cases s'; simp)+

lemma ENABLE_INTERRUPT_frame [simp]:
  "tcb (ENABLE_INTERRUPT s) = tcb s" "que (ENABLE_INTERRUPT s) = que s" "ctxtsk (ENABLE_INTERRUPT s) = ctxtsk s"
  "umem (ENABLE_INTERRUPT s) = umem s" "kstate.more (ENABLE_INTERRUPT s) = kstate.more s" "core_inv (ENABLE_INTERRUPT s) = core_inv s"
  "timer_queue (ENABLE_INTERRUPT s) = timer_queue s"
  "under_lock c u (ENABLE_INTERRUPT s) = under_lock c u s" "under_lock c (ENABLE_INTERRUPT u) s = under_lock c u s"
  by (simp_all add: ENABLE_INTERRUPT_def under_lock_def)

lemma under_lock_umem:
  "under_lock c u s \<Longrightarrow> under_lock c (u\<lparr>umem := m\<rparr>) (s\<lparr>umem := m\<rparr>)"
  by (simp add: under_lock_def)

lemma mpf_updates_under_lock:
  assumes "under_lock c u s" shows "under_lock c (upd_mpfcb i f u) (upd_mpfcb i f s)" "mpfcb s = mpfcb u" "free_mpfcb s = free_mpfcb u"
proof -
  have m: "kstate.more s = kstate.more u" using assms by (simp add: under_lock_def)
  show "mpfcb s = mpfcb u" "free_mpfcb s = free_mpfcb u" by (rule mpfst_frame[OF m])+
  have "kstate.more (upd_mpfcb i f s) = kstate.more (upd_mpfcb i f u)" using m by (cases s; cases u) (simp add: upd_mpfcb_def)
  then show "under_lock c (upd_mpfcb i f u) (upd_mpfcb i f s)" using assms by (simp add: under_lock_def upd_mpfcb_def)
qed

lemma core_inv_upd_mpfcb [simp]: "core_inv (upd_mpfcb i f s) = core_inv s" "core_inv (s\<lparr>umem := m\<rparr>) = core_inv s"
  "core_inv (s\<lparr>objlock := l\<rparr>) = core_inv s"
  by (rule core_inv_cong; simp add: upd_mpfcb_def)+

lemma under_lock_objlock:
  assumes "under_lock c u s" shows "objlock s = objlock u" using assms lckst_frame(1) by (auto simp: under_lock_def)

section \<open>A call under the lock of its pool\<close>

text \<open>
  \<open>lock_section\<close>: the part of a call between lock and unlock may be read as if there were no lock, for
  every caller that finds the lock free.
\<close>

definition locked_result :: "nat \<Rightarrow> 'a mpfstate_scheme \<Rightarrow> 'a mpfstate_scheme \<Rightarrow> bool" where
  "locked_result l u r \<longleftrightarrow> core_inv r \<and> tcb r = tcb u \<and> que r = que u \<and> ctxtsk r = ctxtsk u \<and> timer_queue r = timer_queue u \<and>
     umem r = umem u \<and> mpfcb r = mpfcb u \<and> free_mpfcb r = free_mpfcb u \<and> objlock r = (objlock u)(l := False)"

lemma lock_section:
  assumes "core_inv u" "ctxtsk u = Some c" "under_lock c u s" shows "locked_result l u (knl_UnlockOBJ l s)"
proof -
  note U = unlock_ends[OF assms, of l]
  have "objlock (knl_UnlockOBJ l s) = objlock (u\<lparr>objlock := (objlock u)(l := False)\<rparr>)"
    "mpfcb (knl_UnlockOBJ l s) = mpfcb (u\<lparr>objlock := (objlock u)(l := False)\<rparr>)"
    "free_mpfcb (knl_UnlockOBJ l s) = free_mpfcb (u\<lparr>objlock := (objlock u)(l := False)\<rparr>)"
    using mpfst_frame[OF U(7)] by simp_all
  then show ?thesis using U by (simp add: locked_result_def)
qed

lemma locked_result_END [simp]: "locked_result l u (END_CRITICAL_SECTION r) = locked_result l u r"
  using mpfst_frame[of "END_CRITICAL_SECTION r" r] by (simp add: locked_result_def)

end
