(* ===== verification/Mempfix_Properties.thy ===== *)
theory Mempfix_Properties
  imports Mempfix
begin

text \<open>
  The fixed-size memory pool as a set of free blocks. \<open>pool_rel cb m F\<close> says that the control block
  \<open>cb\<close> and the memory \<open>m\<close> hold exactly the free blocks \<open>F\<close>: those on the list of released blocks and
  those not yet cut off the unused area. Getting a block removes one from the set, releasing adds it.
\<close>

section \<open>Representation\<close>

definition block :: "MPFCB \<Rightarrow> nat \<Rightarrow> addr" where
  "block cb k = mempool cb + k * nat (blfsz cb)"

definition blocks :: "MPFCB \<Rightarrow> addr set" where
  "blocks cb = block cb ` {..<nat (mpfcnt cb)}"

text \<open>The list of released blocks that starts at \<open>p\<close>, linked through the memory.\<close>

fun blk_list :: "(addr \<Rightarrow> UW) \<Rightarrow> addr \<Rightarrow> addr list \<Rightarrow> bool" where
  "blk_list m p [] \<longleftrightarrow> p = 0"
| "blk_list m p (x # xs) \<longleftrightarrow> p = x \<and> x \<noteq> 0 \<and> blk_list m (unat (m x)) xs"

text \<open>The geometry of a pool, fixed when it is created.\<close>

definition pool_geo :: "MPFCB \<Rightarrow> bool" where
  "pool_geo cb \<longleftrightarrow> 0 < mempool cb \<and> 0 < blfsz cb \<and> 0 < mpfcnt cb \<and> mpfsz cb = mpfcnt cb * blfsz cb \<and>
     int (mempool cb) + mpfsz cb \<le> 2 ^ 32"

definition pool_ok :: "MPFCB \<Rightarrow> (addr \<Rightarrow> UW) \<Rightarrow> addr list \<Rightarrow> nat \<Rightarrow> bool" where
  "pool_ok cb m fl n \<longleftrightarrow> pool_geo cb \<and> int n \<le> mpfcnt cb \<and> unused cb = block cb n \<and> blk_list m (freelist cb) fl \<and>
     distinct fl \<and> set fl \<subseteq> block cb ` {..<n} \<and> frbcnt cb = int (length fl) + mpfcnt cb - int n"

definition pool_rel :: "MPFCB \<Rightarrow> (addr \<Rightarrow> UW) \<Rightarrow> addr set \<Rightarrow> bool" where
  "pool_rel cb m F \<longleftrightarrow> (\<exists>fl n. pool_ok cb m fl n \<and> F = set fl \<union> block cb ` {n..<nat (mpfcnt cb)})"

lemma blk_list_cong: "(\<And>x. x \<in> set xs \<Longrightarrow> m' x = m x) \<Longrightarrow> blk_list m' p xs = blk_list m p xs"
  by (induction xs arbitrary: p) auto

lemma block_inj: "pool_geo cb \<Longrightarrow> block cb k = block cb j \<longleftrightarrow> k = j"
  by (auto simp: block_def pool_geo_def)

lemma block_range:
  assumes "pool_geo cb" "n < j" shows "block cb ` {n..<j} - {block cb n} = block cb ` {Suc n..<j}"
proof -
  have "{n..<j} = insert n {Suc n..<j}" using assms(2) by auto
  moreover have "block cb n \<notin> block cb ` {Suc n..<j}" using block_inj[OF assms(1)] by auto
  ultimately show ?thesis by auto
qed

lemma block_word:
  assumes "pool_geo cb" "b \<in> blocks cb" shows "unat (of_nat b :: UW) = b" "b \<noteq> 0"
proof -
  obtain k where k: "b = block cb k" "k < nat (mpfcnt cb)" using assms(2) by (auto simp: blocks_def)
  have g: "0 < mempool cb" "0 < blfsz cb" "int (mempool cb) + mpfcnt cb * blfsz cb \<le> 2 ^ 32"
    using assms(1) by (auto simp: pool_geo_def)
  have "int k * blfsz cb < mpfcnt cb * blfsz cb" using k(2) g(2) by (intro mult_strict_right_mono) auto
  moreover have "int b = int (mempool cb) + int k * blfsz cb" using g(2) by (simp add: k(1) block_def)
  ultimately have "int b < 2 ^ 32" using g(3) by linarith
  then have "b < 2 ^ 32" by simp
  then show "unat (of_nat b :: UW) = b" by (simp add: unat_of_nat take_bit_nat_eq_self)
  show "b \<noteq> 0" using g(1) by (simp add: k(1) block_def)
qed

text \<open>The free blocks are blocks of the pool, and the counter of free blocks counts them.\<close>

lemma pool_rel_blocks:
  assumes "pool_rel cb m F" shows "F \<subseteq> blocks cb" "finite F" "frbcnt cb = int (card F)"
proof -
  obtain fl n where P: "pool_ok cb m fl n" and F: "F = set fl \<union> block cb ` {n..<nat (mpfcnt cb)}"
    using assms by (auto simp: pool_rel_def)
  have g: "pool_geo cb" and n: "n \<le> nat (mpfcnt cb)" and fl: "set fl \<subseteq> block cb ` {..<n}" "distinct fl"
    and fr: "frbcnt cb = int (length fl) + mpfcnt cb - int n" using P by (auto simp: pool_ok_def pool_geo_def)
  have "block cb ` {..<n} \<subseteq> blocks cb" unfolding blocks_def using n by (intro image_mono) auto
  then show "F \<subseteq> blocks cb" using fl(1) unfolding F by (auto simp: blocks_def)
  show "finite F" by (simp add: F)
  have "inj_on (block cb) A" for A using block_inj[OF g] by (auto simp: inj_on_def)
  then have c: "card (block cb ` {n..<nat (mpfcnt cb)}) = nat (mpfcnt cb) - n" by (simp add: card_image)
  have "set fl \<inter> block cb ` {n..<nat (mpfcnt cb)} = {}" using fl(1) block_inj[OF g] by auto
  then have "card F = length fl + (nat (mpfcnt cb) - n)" using c fl(2) by (simp add: F card_Un_disjoint distinct_card)
  then show "frbcnt cb = int (card F)" using fr n g by (simp add: pool_geo_def)
qed

lemma pool_rel_frame:
  assumes "pool_rel cb m F" "\<And>x. x \<in> F \<Longrightarrow> m' x = m x" shows "pool_rel cb m' F"
proof -
  obtain fl n where P: "pool_ok cb m fl n" and F: "F = set fl \<union> block cb ` {n..<nat (mpfcnt cb)}"
    using assms(1) by (auto simp: pool_rel_def)
  have "blk_list m' (freelist cb) fl = blk_list m (freelist cb) fl" by (rule blk_list_cong) (use assms(2) F in auto)
  then show ?thesis using P F by (auto simp: pool_rel_def pool_ok_def)
qed

section \<open>Getting and releasing a block\<close>

lemma take_block_refines:
  fixes s :: "'a mpfstate_scheme"
  assumes R: "pool_rel (mpfcb s i) (umem s) F" and ne: "F \<noteq> {}" and p: "p \<notin> F"
  defines "r \<equiv> take_block i p s"
  shows "\<exists>b\<in>F. umem r = (umem s)(p := of_nat b) \<and> pool_rel (mpfcb r i) (umem r) (F - {b})"
proof -
  let ?cb = "mpfcb s i"
  obtain fl n where P: "pool_ok ?cb (umem s) fl n" and F: "F = set fl \<union> block ?cb ` {n..<nat (mpfcnt ?cb)}"
    using R by (auto simp: pool_rel_def)
  have g: "pool_geo ?cb" using P by (simp add: pool_ok_def)
  show ?thesis
  proof (cases fl)
    case Nil
    then have n: "n < nat (mpfcnt ?cb)" and u: "unused ?cb = block ?cb n" "freelist ?cb = 0" using ne F P by (auto simp: pool_ok_def)
    let ?c = "?cb\<lparr>unused := nat (int (unused ?cb) + blfsz ?cb), frbcnt := frbcnt ?cb - 1\<rparr>"
    have m: "umem r = (umem s)(p := of_nat (block ?cb n))" and c: "mpfcb r i = ?c"
      by (simp_all add: r_def take_block_def u upd_mpfcb_def Let_def)
    have b: "block ?c k = block ?cb k" for k by (simp add: block_def)
    have "unused ?c = block ?cb (Suc n)" using g u(1) by (simp add: block_def pool_geo_def nat_add_distrib nat_mult_distrib)
    then have "pool_ok ?c (umem r) [] (Suc n)" using P n Nil b[of "Suc n"] by (simp add: pool_ok_def pool_geo_def)
    moreover have "F - {block ?cb n} = block ?cb ` {Suc n..<nat (mpfcnt ?cb)}"
      unfolding F Nil by (simp add: block_range[OF g n])
    ultimately have "pool_rel ?c (umem r) (F - {block ?cb n})"
      unfolding pool_rel_def by (intro exI[of _ "[]"] exI[of _ "Suc n"]) (use b in simp)
    moreover have "block ?cb n \<in> F" using F n by auto
    ultimately show ?thesis using m c by auto
  next
    case (Cons b fl')
    then have l: "freelist ?cb = b" "b \<noteq> 0" "blk_list (umem s) (unat (umem s b)) fl'" using P by (auto simp: pool_ok_def)
    let ?c = "?cb\<lparr>freelist := unat (umem s b), frbcnt := frbcnt ?cb - 1\<rparr>"
    have m: "umem r = (umem s)(p := of_nat b)" and c: "mpfcb r i = ?c"
      using l(1,2) by (simp_all add: r_def take_block_def upd_mpfcb_def Let_def)
    have k: "block ?c j = block ?cb j" for j by (simp add: block_def)
    have bl: "blk_list (umem r) (unat (umem s b)) fl'"
      by (subst blk_list_cong[where m = "umem s"]) (use l(3) p F Cons m in auto)
    have "pool_ok ?c (umem r) fl' n" using P bl Cons k by (simp add: pool_ok_def pool_geo_def block_def)
    moreover have "b \<notin> set fl'" "b \<notin> block ?cb ` {n..<nat (mpfcnt ?cb)}"
      using P Cons block_inj[OF g] by (auto simp: pool_ok_def)
    then have "F - {b} = set fl' \<union> block ?c ` {n..<nat (mpfcnt ?c)}" unfolding F Cons k by auto
    ultimately have "pool_rel ?c (umem r) (F - {b})" unfolding pool_rel_def by blast
    then show ?thesis using m c F Cons by auto
  qed
qed

lemma give_block_refines:
  fixes s :: "'a mpfstate_scheme"
  assumes R: "pool_rel (mpfcb s i) (umem s) F" and q: "que s (QMpf i) = []" and b: "b \<in> blocks (mpfcb s i)" "b \<notin> F"
  defines "r \<equiv> give_block i b s"
  shows "pool_rel (mpfcb r i) (umem r) (insert b F)"
proof -
  let ?cb = "mpfcb s i" and ?c = "(mpfcb s i)\<lparr>freelist := b, frbcnt := frbcnt (mpfcb s i) + 1\<rparr>"
  obtain fl n where P: "pool_ok ?cb (umem s) fl n" and F: "F = set fl \<union> block ?cb ` {n..<nat (mpfcnt ?cb)}"
    using R by (auto simp: pool_rel_def)
  have g: "pool_geo ?cb" using P by (simp add: pool_ok_def)
  have m: "umem r = (umem s)(b := of_nat (freelist ?cb))" and c: "mpfcb r i = ?c"
    using q mpfst_frame(1)[of "ENABLE_INTERRUPT s" s] by (simp_all add: r_def give_block_def upd_mpfcb_def)
  have k: "block ?c j = block ?cb j" for j by (simp add: block_def)
  have fl: "set fl \<subseteq> blocks ?cb" using pool_rel_blocks(1)[OF R] F by auto
  have "freelist ?cb = 0 \<or> freelist ?cb \<in> set fl" using P by (cases fl) (auto simp: pool_ok_def)
  then have "unat (of_nat (freelist ?cb) :: UW) = freelist ?cb" using block_word(1)[OF g] fl by auto
  moreover have "blk_list (umem r) (freelist ?cb) fl"
    by (subst blk_list_cong[where m = "umem s"]) (use P b(2) F m in \<open>auto simp: pool_ok_def\<close>)
  ultimately have "blk_list (umem r) b (b # fl)" using m block_word(2)[OF g b(1)] by simp
  moreover have "b \<in> block ?cb ` {..<n}" using b F by (auto simp: blocks_def) (metis atLeastLessThan_iff image_eqI lessThan_iff not_less)
  ultimately have "pool_ok ?c (umem r) (b # fl) n" using P b(2) F k by (auto simp: pool_ok_def pool_geo_def)
  then show ?thesis unfolding pool_rel_def c by (intro exI[of _ "b # fl"] exI[of _ n]) (use F k in auto)
qed

text \<open>The check of \<^verbatim>\<open>tk_rel_mpf\<close> accepts exactly the blocks of the pool.\<close>

lemma rel_check:
  assumes g: "pool_geo cb"
  shows "(b < mempool cb \<or> int b \<ge> knl_mempool_end cb \<or> (int b - int (mempool cb)) mod blfsz cb \<noteq> 0) \<longleftrightarrow> b \<notin> blocks cb"
proof -
  have z: "0 < blfsz cb" "mpfsz cb = mpfcnt cb * blfsz cb" using g by (auto simp: pool_geo_def)
  have "b \<in> blocks cb \<longleftrightarrow> mempool cb \<le> b \<and> int b < knl_mempool_end cb \<and> (int b - int (mempool cb)) mod blfsz cb = 0"
  proof
    assume "b \<in> blocks cb"
    then obtain k where k: "k < nat (mpfcnt cb)" and b: "int b = int (mempool cb) + int k * blfsz cb"
      using z(1) by (auto simp: blocks_def block_def)
    have "int k * blfsz cb < mpfcnt cb * blfsz cb" using k z(1) by (intro mult_strict_right_mono) auto
    moreover have "0 \<le> int k * blfsz cb" using z(1) by simp
    ultimately show "mempool cb \<le> b \<and> int b < knl_mempool_end cb \<and> (int b - int (mempool cb)) mod blfsz cb = 0"
      using b z(2) by (simp add: knl_mempool_end_def)
  next
    assume a: "mempool cb \<le> b \<and> int b < knl_mempool_end cb \<and> (int b - int (mempool cb)) mod blfsz cb = 0"
    then obtain k where k: "int b - int (mempool cb) = blfsz cb * k" by (auto simp: mod_eq_0_iff_dvd elim: dvdE)
    then have "0 \<le> blfsz cb * k" "blfsz cb * k < blfsz cb * mpfcnt cb"
      using a z(2) by (auto simp: knl_mempool_end_def mult.commute)
    then have "0 \<le> k" "k < mpfcnt cb" using z(1) by (simp_all add: zero_le_mult_iff)
    moreover have "int b = int (mempool cb) + int (nat k * nat (blfsz cb))" using k z(1) \<open>0 \<le> k\<close> by (simp add: mult.commute)
    then have "b = block cb (nat k)" unfolding block_def by linarith
    ultimately show "b \<in> blocks cb" by (auto simp: blocks_def)
  qed
  then show ?thesis by auto
qed

section \<open>The calls\<close>

lemma under_lock_take:
  assumes "under_lock c u s" shows "under_lock c (take_block i p u) (take_block i p s)"
proof -
  have e: "mpfcb s = mpfcb u" "umem s = umem u" using mpf_updates_under_lock(2)[OF assms] under_lockD(4)[OF assms] by auto
  show ?thesis unfolding take_block_def Let_def e
    by (auto intro!: mpf_updates_under_lock(1) under_lock_umem assms)
qed

lemma under_lock_give:
  assumes "under_lock c u s" shows "under_lock c (give_block i b u) (give_block i b s)"
proof -
  have e: "mpfcb s = mpfcb u" "umem s = umem u" "que s = que u" "winfo (tcb s t) = winfo (tcb u t)" for t
    using mpf_updates_under_lock(2)[OF assms] under_lockD[OF assms] by auto
  show ?thesis unfolding give_block_def e
    by (auto split: list.split intro!: mpf_updates_under_lock(1) under_lock_umem under_lock_release_ok assms)
qed

lemma take_block_frame [simp]:
  "core_inv (take_block i p s) = core_inv s" "tcb (take_block i p s) = tcb s" "que (take_block i p s) = que s"
  "ctxtsk (take_block i p s) = ctxtsk s" "objlock (take_block i p s) = objlock s"
  by (auto simp: take_block_def Let_def) (auto simp: upd_mpfcb_def)

lemma get_mpf_enters:
  assumes inv: "core_inv s" and c: "ctxtsk s = Some c" and l: "\<not> objlock s i"
  shows "\<exists>s1. knl_LockOBJ i s = (True, s1) \<and> under_lock c (s\<lparr>objlock := (objlock s)(i := True)\<rparr>) s1"
  using lock_free[OF assms] by (cases "knl_LockOBJ i s") auto

text \<open>
  C25. Getting a block from a fixed-size pool refines taking an element out of the set of free blocks:
  with a free block the caller gets one that lies in the pool, which from then on is not free; without
  one the caller polls in vain or enters the queue of the pool with the address for the block noted. The
  kernel's invariant holds afterwards and the lock of the pool is free again.
\<close>

theorem get_mpf_refines:
  fixes s :: "'a mpfstate_scheme"
  assumes inv: "core_inv s" and c: "ctxtsk s = Some c" "state (tcb s c) = TS_READY" "\<not> CHECK_DISPATCH s < E_OK"
    and id: "CHK_OBJID NUM_MPFID oid" "mpfid (mpfcb s (INDEX_OBJ oid)) = oid" and l: "\<not> objlock s (INDEX_OBJ oid)"
    and tm: "\<not> CHECK_TMOUT tmout < E_OK" and R: "pool_rel (mpfcb s (INDEX_OBJ oid)) (umem s) F" and p: "p_blf \<notin> F"
  shows "(case tk_get_mpf oid p_blf tmout s of (r, s') \<Rightarrow>
      let i = INDEX_OBJ oid; cb = mpfcb s i
      in core_inv s' \<and> \<not> objlock s' i \<and>
         (if F \<noteq> {} then
            r = Ret E_OK \<and> tcb s' = tcb s \<and> que s' = que s \<and>
            (\<exists>b\<in>F. b \<in> blocks cb \<and> umem s' = (umem s)(p_blf := of_nat b) \<and> pool_rel (mpfcb s' i) (umem s') (F - {b}))
          else
            umem s' = umem s \<and> mpfcb s' = mpfcb s \<and>
            (if tmout = TMO_POL then r = Ret E_TMOUT \<and> que s' (QMpf i) = que s (QMpf i)
             else r = Blocked \<and> winfo (tcb s' c) = WINFO_MPF p_blf \<and> state (tcb s' c) = TS_WAIT \<and>
               que s' (QMpf i) = wait_enqueue (mpfatr cb) (tcb s) c (que s (QMpf i)))))"
proof -
  let ?i = "INDEX_OBJ oid" let ?cb = "mpfcb s ?i" let ?s0 = "s\<lparr>objlock := (objlock s)(?i := True)\<rparr>"
  have op: "0 < oid" using id(1) by (simp add: CHK_OBJID_def)
  obtain s1 where L: "knl_LockOBJ ?i s = (True, s1)" and ul: "under_lock c ?s0 s1"
    using get_mpf_enters[OF inv c(1) l] by blast
  have cs: "mpfcb s1 = mpfcb s" "ctxtsk s1 = Some c"
    using mpf_updates_under_lock(2)[OF ul] under_lockD(3)[OF ul] c(1) by simp_all
  have e: "tk_get_mpf oid p_blf tmout s = get_mpf_locked ?i p_blf tmout s1"
    using id(1) tm c(3) L by (simp add: tk_get_mpf_def CHECK_OBJID_def consts_defs)
  have inv0: "core_inv ?s0" using inv by simp
  note RB = pool_rel_blocks[OF R]
  show ?thesis
  proof (cases "F = {}")
    case False
    let ?u = "take_block ?i p_blf ?s0"
    have fr: "0 < frbcnt ?cb" using RB(2,3) False by (simp add: card_gt_0_iff)
    have g: "get_mpf_locked ?i p_blf tmout s1 = (Ret E_OK, knl_UnlockOBJ ?i (take_block ?i p_blf s1))"
      using fr op id(2) cs by (simp add: get_mpf_locked_def Let_def)
    have "pool_rel (mpfcb ?s0 ?i) (umem ?s0) F" using R by simp
    from take_block_refines[OF this False p]
    obtain b where b: "b \<in> F" "umem ?u = (umem ?s0)(p_blf := of_nat b)" "pool_rel (mpfcb ?u ?i) (umem ?u) (F - {b})" by blast
    have "locked_result ?i ?u (knl_UnlockOBJ ?i (take_block ?i p_blf s1))"
      by (rule lock_section[OF _ _ under_lock_take[OF ul]]) (use inv0 c in auto)
    then show ?thesis using b RB(1) False unfolding e g by (auto simp: locked_result_def Let_def)
  next
    case True
    let ?ws = "if mpfatr ?cb AND TA_TPRI \<noteq> 0 then knl_wspec_mpf_tpri else knl_wspec_mpf_tfifo"
    let ?f = "\<lambda>s. knl_gcb_make_wait (WMpf ?i) oid (mpfatr ?cb) c tmout (prepare_wait c ?ws (WINFO_MPF p_blf) s)"
    have g: "get_mpf_locked ?i p_blf tmout s1 = (wait_ret tmout, END_CRITICAL_SECTION (knl_UnlockOBJ ?i (?f s1)))"
      using RB(3) True op id(2) cs by (simp add: get_mpf_locked_def Let_def)
    have wh: "wait_home ?ws oid = Some (QMpf ?i)" by simp
    have c0: "ctxtsk ?s0 = Some c" "state (tcb ?s0 c) = TS_READY" using c by simp_all
    note B = block_on[OF inv0 c0 wh, where objatr = "mpfatr ?cb" and tmout = tmout and wi = "WINFO_MPF p_blf"]
    have "under_lock c (?f ?s0) (?f s1)"
      by (rule under_lock_gcb_make_wait) (unfold prepare_wait_def, rule under_lock_upd_tcb[OF ul], simp)
    then have "locked_result ?i (?f ?s0) (knl_UnlockOBJ ?i (?f s1))" by (rule lock_section[rotated 2]) (use B c in auto)
    then have "locked_result ?i (?f ?s0) (END_CRITICAL_SECTION (knl_UnlockOBJ ?i (?f s1)))" by simp
    moreover have "mpfcb (?f ?s0) = mpfcb s" using mpfst_frame(1)[OF B(5)] by simp
    ultimately show ?thesis using True B(2,6,10) B(4)[where w' = "WMpf ?i"] unfolding e g
      by (auto simp: locked_result_def Let_def wait_ret_def)
  qed
qed

text \<open>
  C26. Releasing a block to a fixed-size pool refines adding it to the set of free blocks: an address that
  is not the start of a block of the pool is refused with \<^verbatim>\<open>E_PAR\<close>; a block goes straight to the first
  waiting task, at the address that task noted, and is not free in between, or, if nobody waits, becomes
  free. The kernel's invariant holds afterwards and the lock of the pool is free again.
\<close>

theorem rel_mpf_refines:
  fixes s :: "'a mpfstate_scheme"
  assumes inv: "core_inv s" and c: "ctxtsk s = Some c" "\<not> CHECK_DISPATCH s < E_OK"
    and id: "CHK_OBJID NUM_MPFID oid" "mpfid (mpfcb s (INDEX_OBJ oid)) = oid" and l: "\<not> objlock s (INDEX_OBJ oid)"
    and R: "pool_rel (mpfcb s (INDEX_OBJ oid)) (umem s) F" and b: "b \<notin> F"
  shows "(case tk_rel_mpf oid b s of (r, s') \<Rightarrow>
      let i = INDEX_OBJ oid; cb = mpfcb s i
      in core_inv s' \<and> \<not> objlock s' i \<and>
         (if b \<notin> blocks cb then r = Ret E_PAR \<and> tcb s' = tcb s \<and> que s' = que s \<and> umem s' = umem s \<and> mpfcb s' = mpfcb s
          else r = Ret E_OK \<and>
            (case que s (QMpf i) of
               [] \<Rightarrow> pool_rel (mpfcb s' i) (umem s') (insert b F) \<and> tcb s' = tcb s \<and> que s' = que s
             | t # ts \<Rightarrow> mpfcb s' = mpfcb s \<and> que s' (QMpf i) = ts \<and> tcb s' = served [t] (tcb s) \<and>
                 umem s' = (umem s)(winfo_mpf_p_blf (winfo (tcb s t)) := of_nat b))))"
proof -
  let ?i = "INDEX_OBJ oid" let ?cb = "mpfcb s ?i" let ?s0 = "s\<lparr>objlock := (objlock s)(?i := True)\<rparr>"
  have op: "0 < oid" using id(1) by (simp add: CHK_OBJID_def)
  obtain s1 where L: "knl_LockOBJ ?i s = (True, s1)" and ul: "under_lock c ?s0 s1"
    using get_mpf_enters[OF inv c(1) l] by blast
  have cs: "mpfcb s1 = mpfcb s" using mpf_updates_under_lock(2)[OF ul] by simp
  have e: "tk_rel_mpf oid b s = rel_mpf_locked ?i b s1"
    using id(1) c(2) L by (simp add: tk_rel_mpf_def CHECK_OBJID_def consts_defs)
  have inv0: "core_inv ?s0" using inv by simp
  have geo: "pool_geo ?cb" using R by (auto simp: pool_rel_def pool_ok_def)
  show ?thesis
  proof (cases "b \<in> blocks ?cb")
    case False
    then have g: "rel_mpf_locked ?i b s1 = (Ret E_PAR, knl_UnlockOBJ ?i s1)"
      using rel_check[OF geo, of b] op id(2) cs by (simp add: rel_mpf_locked_def Let_def)
    have "locked_result ?i ?s0 (knl_UnlockOBJ ?i s1)" by (rule lock_section[OF inv0 _ ul]) (use c in simp)
    then show ?thesis using False unfolding e g by (simp add: locked_result_def Let_def)
  next
    case True
    let ?u = "give_block ?i b ?s0"
    have g: "rel_mpf_locked ?i b s1 = (Ret E_OK, knl_UnlockOBJ ?i (give_block ?i b s1))"
      using rel_check[OF geo, of b] True op id(2) cs by (auto simp: rel_mpf_locked_def Let_def)
    have u: "core_inv ?u \<and> ctxtsk ?u = Some c \<and> objlock ?u = objlock ?s0 \<and>
       (case que s (QMpf ?i) of
          [] \<Rightarrow> pool_rel (mpfcb ?u ?i) (umem ?u) (insert b F) \<and> tcb ?u = tcb s \<and> que ?u = que s
        | t # ts \<Rightarrow> mpfcb ?u = mpfcb s \<and> que ?u (QMpf ?i) = ts \<and> tcb ?u = served [t] (tcb s) \<and>
            umem ?u = (umem s)(winfo_mpf_p_blf (winfo (tcb s t)) := of_nat b))"
    proof (cases "que s (QMpf ?i)")
      case Nil
      have "objlock ?u = objlock ?s0 \<and> core_inv ?u \<and> ctxtsk ?u = Some c \<and> tcb ?u = tcb s \<and> que ?u = que s"
        using Nil inv c mpfst_frame(3)[of "ENABLE_INTERRUPT ?s0" ?s0] by (simp add: give_block_def) (simp add: upd_mpfcb_def)
      moreover have "pool_rel (mpfcb ?u ?i) (umem ?u) (insert b F)"
        by (rule give_block_refines) (use R Nil True b in simp_all)
      ultimately show ?thesis using Nil by simp
    next
      case (Cons t ts)
      let ?m = "(umem s)(winfo_mpf_p_blf (winfo (tcb s t)) := of_nat b)"
      let ?s2 = "?s0\<lparr>umem := ?m\<rparr>"
      have ue: "?u = ENABLE_INTERRUPT (knl_wait_release_ok t ?s2)" using Cons by (simp add: give_block_def)
      have q: "t \<in> set (que ?s2 (QMpf ?i))" using Cons by simp
      have inv2: "core_inv ?s2" using inv by simp
      note W = wait_release_ok_result[OF inv2 q]
      have "distinct (t # ts)" using core_inv_distinct[OF inv, of "QMpf ?i"] Cons by simp
      then have "removeAll t (t # ts) = ts" by (simp add: removeAll_id)
      moreover have "kstate.more ?u = kstate.more ?s2" using ue by simp
      note mpfst_frame[OF this]
      ultimately show ?thesis using W Cons c by (simp add: ue)
    qed
    have "locked_result ?i ?u (knl_UnlockOBJ ?i (give_block ?i b s1))"
      by (rule lock_section[OF _ _ under_lock_give[OF ul]]) (use u in auto)
    then show ?thesis using u True unfolding e g by (simp add: locked_result_def Let_def split: list.splits)
  qed
qed

section \<open>Creation\<close>

definition up4 :: "int \<Rightarrow> int" where "up4 n = (n + 3) div 4 * 4"

lemma sint_MINSZ: assumes "0 \<le> n" "up4 n < 2 ^ 31" shows "sint (MINSZ n) = up4 n"
proof -
  have n: "n \<le> 0x7FFFFFFC" using assms(2) by (simp add: up4_def)
  have "MINSZ n = ROUNDSZ n" by (simp add: MINSZ_def ROUNDSZ_def)
  then have "uint (MINSZ n) = up4 n" using uint_ROUNDSZ[OF assms(1) n] by (simp add: up4_def)
  then show ?thesis using sint_below[of "MINSZ n"] assms(2) by simp
qed

lemma pool_size_exact: "0 \<le> a * b \<Longrightarrow> a * b < 2 ^ 31 \<Longrightarrow> pool_size a b = a * b"
  unfolding pool_size_def sint_sbintrunc' by (simp add: signed_take_bit_int_eq_self)

lemma cre_mpf_locked_result:
  fixes s :: "'a mpfstate_scheme" and pk :: T_CMPF and pool :: addr
  assumes inv: "core_inv s" and c: "ctxtsk s = Some c" and l: "\<not> objlock s i" and q: "que s (QMpf i) = []"
    and s1: "knl_LockOBJ i s = (b, s1)"
  defines "sz \<equiv> sint (MINSZ (cmpf_blfsz pk))" and "r \<equiv> cre_mpf_locked pk pool i s1"
  shows "b" "fst r = Ret (ID_OBJ i)" "core_inv (snd r)" "objlock (snd r) i = False" "tcb (snd r) = tcb s" "que (snd r) = que s"
    "umem (snd r) = umem s" "free_mpfcb (snd r) = free_mpfcb s"
    "mpfcb (snd r) = (mpfcb s)(i := \<lparr>mpfid = ID_OBJ i, mpf_exinf = cmpf_exinf pk, mpfatr = cmpf_mpfatr pk, mpfcnt = cmpf_mpfcnt pk,
       blfsz = sz, mpfsz = pool_size sz (cmpf_mpfcnt pk), frbcnt = cmpf_mpfcnt pk, mempool = pool, unused = pool, freelist = 0\<rparr>)"
proof -
  let ?s0 = "s\<lparr>objlock := (objlock s)(i := True)\<rparr>"
  let ?f = "\<lambda>cb. cb\<lparr>mpf_exinf := cmpf_exinf pk, mpfatr := cmpf_mpfatr pk, mpfcnt := cmpf_mpfcnt pk,
                 frbcnt := cmpf_mpfcnt pk, blfsz := sz, mpfsz := pool_size sz (cmpf_mpfcnt pk),
                 mempool := pool, unused := pool, freelist := 0\<rparr>"
  let ?g = "\<lambda>s. upd_mpfcb i (mpfid_update (\<lambda>_. ID_OBJ i)) (upd_mpfcb i ?f s)"
  have L: "b" "under_lock c ?s0 s1" using lock_free[OF inv c l] s1 by auto
  then show "b" by simp
  have "que s1 (QMpf i) = []" using under_lockD(1)[OF L(2)] q by simp
  then have e: "r = (Ret (ID_OBJ i), knl_UnlockOBJ i (?g s1))"
    by (simp add: r_def cre_mpf_locked_def Let_def que_init_empty sz_def)
  show "fst r = Ret (ID_OBJ i)" by (simp add: e)
  have "under_lock c (?g ?s0) (?g s1)" by (intro mpf_updates_under_lock(1) L(2))
  then have "locked_result i (?g ?s0) (knl_UnlockOBJ i (?g s1))" by (rule lock_section[rotated 2]) (use inv c in \<open>simp, simp add: upd_mpfcb_def\<close>)
  then show "core_inv (snd r)" "objlock (snd r) i = False" "tcb (snd r) = tcb s" "que (snd r) = que s"
    "umem (snd r) = umem s" "free_mpfcb (snd r) = free_mpfcb s"
    "mpfcb (snd r) = (mpfcb s)(i := \<lparr>mpfid = ID_OBJ i, mpf_exinf = cmpf_exinf pk, mpfatr = cmpf_mpfatr pk, mpfcnt = cmpf_mpfcnt pk,
       blfsz = sz, mpfsz = pool_size sz (cmpf_mpfcnt pk), frbcnt = cmpf_mpfcnt pk, mempool = pool, unused = pool, freelist = 0\<rparr>)"
    by (simp_all add: locked_result_def e upd_mpfcb_def fun_eq_iff)
qed

lemma cre_mpf_allocates:
  fixes s :: "'a mpfstate_scheme"
  assumes "\<not> CHECK_RSATR (cmpf_mpfatr pk) (TA_TPRI OR TA_RNG3 OR TA_USERBUF) < E_OK" "cmpf_mpfatr pk AND TA_USERBUF = 0"
    "0 < cmpf_mpfcnt pk" "0 < cmpf_blfsz pk" "\<not> CHECK_DISPATCH s < E_OK"
    "Imalloc (word_of_int (pool_size (sint (MINSZ (cmpf_blfsz pk))) (cmpf_mpfcnt pk))) s = (pool, s1)" "pool \<noteq> 0" "free_mpfcb s1 = i # fs"
    "knl_LockOBJ i (ENABLE_INTERRUPT (s1\<lparr>free_mpfcb := fs\<rparr>)) = (True, s2)"
  shows "tk_cre_mpf Imalloc Ifree pk s = cre_mpf_locked pk pool i s2"
  using assms by (simp add: tk_cre_mpf_def CHECK_PAR_def consts_defs)

text \<open>
  C37. A new pool whose memory comes from the allocator starts with all its blocks free, and its geometry
  is the requested one, as long as the total size is below \<open>2\<^sup>3\<^sup>1\<close>. The product is not
  checked, however: of 65537 blocks of 65536 bytes the allocator is asked for 65536 bytes only, the
  creation succeeds, and the second block lies behind the memory of the pool.
\<close>

theorem cre_mpf_pool:
  fixes s :: "'a mpfstate_scheme" and pool :: addr
  defines "big \<equiv> \<lparr>cmpf_exinf = 0, cmpf_mpfatr = 0, cmpf_mpfcnt = 65537, cmpf_blfsz = 65536, cmpf_bufptr = 0\<rparr>"
  assumes pk: "\<not> CHECK_RSATR (cmpf_mpfatr pk) (TA_TPRI OR TA_RNG3 OR TA_USERBUF) < E_OK" "cmpf_mpfatr pk AND TA_USERBUF = 0"
      "0 < cmpf_mpfcnt pk" "0 < cmpf_blfsz pk" "cmpf_mpfcnt pk * up4 (cmpf_blfsz pk) < 2 ^ 31"
    and al: "Imalloc (word_of_int (cmpf_mpfcnt pk * up4 (cmpf_blfsz pk))) s = (pool, s)" "Imalloc 65536 s = (pool, s)" "pool \<noteq> 0" "int pool + cmpf_mpfcnt pk * up4 (cmpf_blfsz pk) \<le> 2 ^ 32"
    and s: "core_inv s" "ctxtsk s = Some c" "\<not> CHECK_DISPATCH s < E_OK" "free_mpfcb s = i # fs" "\<not> objlock s i" "que s (QMpf i) = []"
  shows "(case tk_cre_mpf Imalloc Ifree pk s of (r, s') \<Rightarrow> let cb = mpfcb s' i in
       r = Ret (ID_OBJ i) \<and> core_inv s' \<and> \<not> objlock s' i \<and> free_mpfcb s' = fs \<and> mpfid cb = ID_OBJ i \<and>
       pool_rel cb (umem s') (blocks cb) \<and> int (card (blocks cb)) = cmpf_mpfcnt pk \<and> cmpf_blfsz pk \<le> blfsz cb) \<and>
     (case tk_cre_mpf Imalloc Ifree big s of (r, s') \<Rightarrow> let cb = mpfcb s' i in
       r = Ret (ID_OBJ i) \<and> mpfcnt cb = 65537 \<and> pool_size (blfsz cb) (mpfcnt cb) = 65536 \<and>
       knl_mempool_end cb \<le> int (block cb 1))"
proof -
  let ?s = "ENABLE_INTERRUPT (s\<lparr>free_mpfcb := fs\<rparr>)"
  have more: "mpfcb ?s = mpfcb s" "free_mpfcb ?s = fs" "objlock ?s = objlock s"
    using mpfst_frame[of ?s "s\<lparr>free_mpfcb := fs\<rparr>"] by simp_all
  have S: "core_inv ?s" "ctxtsk ?s = Some c" "\<not> objlock ?s i" "que ?s (QMpf i) = []"
    using s more by (simp_all add: core_inv_cong[of "s\<lparr>free_mpfcb := fs\<rparr>" s])
  obtain b s2 where lk: "knl_LockOBJ i ?s = (b, s2)" by (cases "knl_LockOBJ i ?s")
  note C = cre_mpf_locked_result[OF S lk]
  have lk1: "knl_LockOBJ i ?s = (True, s2)" using lk C(1) by simp
  let ?cb = "\<lambda>p. mpfcb (snd (cre_mpf_locked p pool i s2)) i"
  let ?z = "up4 (cmpf_blfsz pk)"
  have z: "0 < ?z" "cmpf_blfsz pk \<le> ?z" using pk(4) by (simp_all add: up4_def)
  then have "0 < cmpf_mpfcnt pk * ?z" "?z \<le> cmpf_mpfcnt pk * ?z" using pk(3) by (simp_all add: mult_le_cancel_right1)
  then have sz: "sint (MINSZ (cmpf_blfsz pk)) = ?z" "pool_size ?z (cmpf_mpfcnt pk) = cmpf_mpfcnt pk * ?z"
    using pk pool_size_exact[of ?z "cmpf_mpfcnt pk"] by (simp_all add: sint_MINSZ mult.commute)
  have e: "tk_cre_mpf Imalloc Ifree pk s = cre_mpf_locked pk pool i s2"
    by (rule cre_mpf_allocates[OF pk(1-4) s(3) _ al(3) s(4) lk1]) (use al(1) sz in simp)
  have geo: "pool_geo (?cb pk)" using C(9)[of pk pool] sz pk al(3,4) z by (simp add: pool_geo_def)
  have "pool_ok (?cb pk) (umem s) [] 0" using geo C(9)[of pk pool] pk by (simp add: pool_ok_def block_def)
  then have rel: "pool_rel (?cb pk) (umem s) (blocks (?cb pk))"
    unfolding pool_rel_def by (intro exI[of _ "[]"] exI[of _ 0]) (simp add: blocks_def atLeast0LessThan)
  have "int (card (blocks (?cb pk))) = cmpf_mpfcnt pk"
    using pool_rel_blocks(3)[OF rel] C(9)[of pk pool] by simp
  then have A: "case tk_cre_mpf Imalloc Ifree pk s of (r, s') \<Rightarrow> let cb = mpfcb s' i in
       r = Ret (ID_OBJ i) \<and> core_inv s' \<and> \<not> objlock s' i \<and> free_mpfcb s' = fs \<and> mpfid cb = ID_OBJ i \<and>
       pool_rel cb (umem s') (blocks cb) \<and> int (card (blocks cb)) = cmpf_mpfcnt pk \<and> cmpf_blfsz pk \<le> blfsz cb"
    using C(2-9)[of pk pool] rel more z sz unfolding e by (simp add: case_prod_unfold Let_def)
  have B: "\<not> CHECK_RSATR (cmpf_mpfatr big) (TA_TPRI OR TA_RNG3 OR TA_USERBUF) < E_OK" "cmpf_mpfatr big AND TA_USERBUF = 0"
    "0 < cmpf_mpfcnt big" "0 < cmpf_blfsz big" by (simp_all add: big_def CHECK_RSATR_def consts_defs)
  have y: "sint (MINSZ 65536) = 65536" by (subst sint_MINSZ) (simp_all add: up4_def)
  have w: "pool_size 65536 65537 = 65536" by (simp add: pool_size_def)
  have e2: "tk_cre_mpf Imalloc Ifree big s = cre_mpf_locked big pool i s2"
    by (rule cre_mpf_allocates[OF B s(3) _ al(3) s(4) lk1]) (use al(2) y w in \<open>simp add: big_def\<close>)
  show ?thesis using A C(2,9)[of big pool] unfolding e2
    by (simp add: case_prod_unfold Let_def big_def y w knl_mempool_end_def block_def)
qed

section \<open>A concrete state\<close>

text \<open>Pool 1 has no free block and task 10 waits for one; pool 2 has its second block free.\<close>

definition sample_mpfcb :: "nat \<Rightarrow> MPFCB" where
  "sample_mpfcb i = \<lparr>mpfid = (if i < 2 then ID_OBJ i else 0), mpf_exinf = 0, mpfatr = 0, mpfcnt = 2, blfsz = 8, mpfsz = 16,
     frbcnt = (if i = 0 then 0 else 1), mempool = 4000, unused = (if i = 0 then 4016 else 4008), freelist = 0\<rparr>"

definition sample_mpf :: "'a \<Rightarrow> 'a mpfstate_scheme" where
  "sample_mpf m = sample_tim (lckstate_ext (\<lambda>_. False) (mpfstate_ext sample_mpfcb [2..<NUM_MPFID] m))"

lemma sample_mpf_fields [simp]:
  "tcb (sample_mpf m) = sample_tcb" "que (sample_mpf m) = sample_que" "ctxtsk (sample_mpf m) = Some 0" "core_inv (sample_mpf m)"
  by (simp_all add: sample_mpf_def)

lemma sample_mpf_tables [simp]:
  "mpfcb (sample_mpf m) = sample_mpfcb" "free_mpfcb (sample_mpf m) = [2..<NUM_MPFID]" "objlock (sample_mpf m) = (\<lambda>_. False)"
  "umem (sample_mpf m) = (\<lambda>a. 0)" "mpfstate.more (sample_mpf m) = m"
  unfolding sample_mpf_def sample_chain sample_kernel_def by simp_all

lemma sample_mpf_dispatch [simp]: "\<not> CHECK_DISPATCH (sample_mpf m) < E_OK"
proof -
  have "\<not> in_ddsp (sample_mpf m)" unfolding sample_mpf_def sample_chain by simp
  then show ?thesis by (simp add: CHECK_DISPATCH_def)
qed

lemma sample_pools:
  "pool_rel (sample_mpfcb 0) m {}" "pool_rel (sample_mpfcb 1) m {4008}" "blocks (sample_mpfcb i) = {4000, 4008}"
proof -
  have g: "pool_geo (sample_mpfcb i)" for i by (simp add: pool_geo_def sample_mpfcb_def)
  have b: "block (sample_mpfcb i) k = 4000 + k * 8" "nat (mpfcnt (sample_mpfcb i)) = 2" for i k by (simp_all add: block_def sample_mpfcb_def)
  have P: "pool_ok (sample_mpfcb 0) m [] 2" "pool_ok (sample_mpfcb 1) m [] 1"
    unfolding pool_ok_def b using g[of 0] g[of 1] by (simp_all add: sample_mpfcb_def)
  have r: "{..<2} = {0, 1 :: nat}" "{1..<2} = {1 :: nat}" by auto
  show "pool_rel (sample_mpfcb 0) m {}" unfolding pool_rel_def b using P(1) by (intro exI[of _ "[]"] exI[of _ 2]) simp
  show "pool_rel (sample_mpfcb 1) m {4008}" unfolding pool_rel_def b using P(2) r(2) by (intro exI[of _ "[]"] exI[of _ 1]) (simp add: b)
  show "blocks (sample_mpfcb i) = {4000, 4008}" unfolding blocks_def b r by (simp add: b)
qed

theorem get_mpf_refines_witness:
  "let (r, s') = tk_get_mpf 2 700 5 (sample_mpf ()) in r = Ret E_OK \<and> umem s' 700 = 4008 \<and> pool_rel (mpfcb s' 1) (umem s') {}"
proof -
  have "state (sample_tcb 0) = TS_READY" by (simp add: sample_defs)
  moreover have "INDEX_OBJ 2 = 1" "CHK_OBJID NUM_MPFID 2" "mpfid (sample_mpfcb 1) = 2" "\<not> CHECK_TMOUT 5 < E_OK"
    by (simp_all add: INDEX_OBJ_def CHK_OBJID_def NUM_MPFID_def sample_mpfcb_def ID_OBJ_def CHECK_TMOUT_def consts_defs)
  ultimately show ?thesis using get_mpf_refines[of "sample_mpf ()" 0 2 5 "{4008}" 700] sample_pools(2)
    by (auto simp: Let_def)
qed

theorem rel_mpf_refines_witness:
  "let (r, s') = tk_rel_mpf 1 4000 (sample_mpf ()) in r = Ret E_OK \<and> umem s' 700 = 4000 \<and> state (tcb s' 10) = TS_READY"
proof -
  have "INDEX_OBJ 1 = 0" "CHK_OBJID NUM_MPFID 1" "mpfid (sample_mpfcb 0) = 1" "winfo_mpf_p_blf (winfo (sample_tcb 10)) = 700"
    "state (served [10] sample_tcb 10) = TS_READY"
    by (simp_all add: INDEX_OBJ_def CHK_OBJID_def NUM_MPFID_def sample_mpfcb_def ID_OBJ_def) (simp_all add: sample_defs served_def released_def)
  then show ?thesis using rel_mpf_refines[of "sample_mpf ()" 0 1 "{}" 4000] sample_pools(1,3)
    by (auto simp: Let_def)
qed

theorem cre_mpf_pool_witness:
  "let pk = \<lparr>cmpf_exinf = 0, cmpf_mpfatr = 0, cmpf_mpfcnt = 3, cmpf_blfsz = 10, cmpf_bufptr = 0\<rparr>;
       (r, s') = tk_cre_mpf (\<lambda>n s. (8192, s)) (\<lambda>p s. s) pk (sample_mpf ())
   in r = Ret 3 \<and> pool_rel (mpfcb s' 2) (umem s') (blocks (mpfcb s' 2))"
proof -
  let ?pk = "\<lparr>cmpf_exinf = 0, cmpf_mpfatr = 0, cmpf_mpfcnt = 3, cmpf_blfsz = 10, cmpf_bufptr = 0\<rparr>"
  have "[2..<NUM_MPFID] = 2 # [3..<NUM_MPFID]" by (simp add: NUM_MPFID_def upt_conv_Cons)
  moreover have "up4 10 = 12" "\<not> CHECK_RSATR 0 (TA_TPRI OR TA_RNG3 OR TA_USERBUF) < E_OK" by (simp_all add: up4_def CHECK_RSATR_def consts_defs)
  ultimately show ?thesis
    using cre_mpf_pool[of ?pk "\<lambda>n s. (8192, s)" "sample_mpf ()" 8192 0 2 "[3..<NUM_MPFID]" "\<lambda>p s. s"]
    by (auto simp: Let_def ID_OBJ_def)
qed

end
