(* ===== verification/Rendezvous.thy ===== *)
theory Rendezvous
  imports Mempfix_Properties
begin

text \<open>
  The rendezvous of \<^verbatim>\<open>kernel/tkernel/rendezvous.c\<close>: a calling and an accepting task meet at a
  port; the caller's message goes to the acceptor, the caller then waits for the reply to its rendezvous
  number. Callers wait in the queue \<open>QPorCal\<close>, acceptors in \<open>QPorAcp\<close>, and a task that waits for the end
  of its rendezvous is in no queue. Message bytes are in the byte memory \<open>bmem\<close>; the variables of a
  waiting task for the rendezvous number and the message sizes are in \<open>umem\<close>, at addresses that are
  arguments of the calls.
\<close>

section \<open>State\<close>

definition NUM_PORID :: nat where [consts_defs]: "NUM_PORID = 2"

record PORCB =
  porid :: ID
  por_exinf :: addr
  poratr :: ATR
  maxcmsz :: int
  maxrmsz :: int

record T_CPOR =
  cpor_exinf :: addr
  cpor_poratr :: ATR
  cpor_maxcmsz :: int
  cpor_maxrmsz :: int

record T_RPOR =
  rpor_exinf :: addr
  rpor_wtsk :: ID
  rpor_atsk :: ID
  rpor_maxcmsz :: int
  rpor_maxrmsz :: int

record porstate = mpfstate +
  porcb :: "nat \<Rightarrow> PORCB"
  free_porcb :: "nat list"

definition upd_porcb :: "nat \<Rightarrow> (PORCB \<Rightarrow> PORCB) \<Rightarrow> 'a porstate_scheme \<Rightarrow> 'a porstate_scheme" where
  [kdefs]: "upd_porcb i f s = s\<lparr>porcb := (porcb s)(i := f (porcb s i))\<rparr>"

section \<open>Rendezvous numbers\<close>

text \<open>The low half of a rendezvous number is the identifier of the calling task, the high half counts its rendezvous.\<close>

definition RDVNO_SHIFT :: nat where "RDVNO_SHIFT = 16"

definition knl_gen_rdvno :: "nat \<Rightarrow> 'a kstate_scheme \<Rightarrow> UW \<times> 'a kstate_scheme" where
  "knl_gen_rdvno t s = (wrdvno (tcb s t), upd_tcb t (\<lambda>b. b\<lparr>wrdvno := wrdvno b + push_bit RDVNO_SHIFT 1\<rparr>) s)"

definition knl_get_tskid_rdvno :: "UW \<Rightarrow> ID" where
  "knl_get_tskid_rdvno rdvno = uint (rdvno AND (push_bit RDVNO_SHIFT 1 - 1))"

definition CHECK_RDVNO :: "UW \<Rightarrow> ER" where
  "CHECK_RDVNO rdvno = (if \<not> CHK_OBJID NUM_TSKID (knl_get_tskid_rdvno rdvno) then E_OBJ else E_OK)"

section \<open>Operations\<close>

definition knl_wait_cancel :: "nat \<Rightarrow> 'a kstate_scheme \<Rightarrow> 'a kstate_scheme" where
  "knl_wait_cancel t s = que_remove t (knl_timer_delete (TM_TSK t) s)"

definition knl_rendezvous_initialize :: "'a porstate_scheme \<Rightarrow> ER \<times> 'a porstate_scheme" where
  "knl_rendezvous_initialize s =
     (if NUM_PORID < 1 then (E_SYS, s)
      else (E_OK,
        fold (\<lambda>i st. (upd_porcb i (porid_update (\<lambda>_. 0)) st)\<lparr>free_porcb := free_porcb st @ [i]\<rparr>)
          [0..<NUM_PORID] (s\<lparr>free_porcb := []\<rparr>)))"

definition cre_por :: "T_CPOR \<Rightarrow> 'a porstate_scheme \<Rightarrow> ID \<times> 'a porstate_scheme" where
  "cre_por pk s =
     (case free_porcb s of
        [] \<Rightarrow> (E_LIMIT, s)
      | i # fs \<Rightarrow>
          let s1 = que_init (QPorCal i) (s\<lparr>free_porcb := fs\<rparr>);
              s2 = upd_porcb i (\<lambda>cb. cb\<lparr>porid := ID_OBJ i, por_exinf := cpor_exinf pk, poratr := cpor_poratr pk\<rparr>) s1;
              s3 = que_init (QPorAcp i) s2
          in (ID_OBJ i, upd_porcb i (\<lambda>cb. cb\<lparr>maxcmsz := cpor_maxcmsz pk, maxrmsz := cpor_maxrmsz pk\<rparr>) s3))"

definition tk_cre_por :: "T_CPOR \<Rightarrow> 'a porstate_scheme \<Rightarrow> ID \<times> 'a porstate_scheme" where
  "tk_cre_por pk s =
     (let e = first_err [CHECK_RSATR (cpor_poratr pk) TA_TPRI, CHECK_PAR (cpor_maxcmsz pk \<ge> 0),
                CHECK_PAR (cpor_maxrmsz pk \<ge> 0), CHECK_INTSK s]
      in if e < E_OK then (e, s)
         else let (r, s1) = cre_por pk s in (r, END_CRITICAL_SECTION s1))"

definition del_por :: "nat \<Rightarrow> 'a porstate_scheme \<Rightarrow> 'a porstate_scheme" where
  "del_por i s =
     (let s1 = knl_wait_delete (WPorAcp i) (knl_wait_delete (WPorCal i) s)
      in upd_porcb i (porid_update (\<lambda>_. 0)) (s1\<lparr>free_porcb := free_porcb s1 @ [i]\<rparr>))"

definition tk_del_por :: "ID \<Rightarrow> 'a porstate_scheme \<Rightarrow> ER \<times> 'a porstate_scheme" where
  "tk_del_por oid s =
     (let e = first_err [CHECK_OBJID NUM_PORID oid, CHECK_INTSK s]; i = INDEX_OBJ oid
      in if e < E_OK then (e, s)
         else if porid (porcb s i) = 0 then (E_NOEXS, END_CRITICAL_SECTION s)
         else (E_OK, END_CRITICAL_SECTION (del_por i s)))"

text \<open>The search for a task whose bit pattern meets the given one, in queue order.\<close>

definition acceptor :: "nat \<Rightarrow> UINT \<Rightarrow> 'a kstate_scheme \<Rightarrow> nat option" where
  "acceptor i calptn s = find (\<lambda>t. calptn AND winfo_acp_acpptn (winfo (tcb s t)) \<noteq> 0) (que s (QPorAcp i))"

definition caller :: "nat \<Rightarrow> UINT \<Rightarrow> 'a kstate_scheme \<Rightarrow> nat option" where
  "caller i acpptn s = find (\<lambda>t. acpptn AND winfo_cal_calptn (winfo (tcb s t)) \<noteq> 0) (que s (QPorCal i))"

text \<open>A message copy of a size that may be zero.\<close>

definition send_msg :: "addr \<Rightarrow> addr \<Rightarrow> int \<Rightarrow> 'a porstate_scheme \<Rightarrow> 'a porstate_scheme" where
  "send_msg dst src n s = (if n > 0 then s\<lparr>bmem := knl_memcpy dst src n (bmem s)\<rparr> else s)"

text \<open>The message and the rendezvous number go to the acceptor, which is released.\<close>

definition to_acceptor :: "nat \<Rightarrow> UW \<Rightarrow> addr \<Rightarrow> int \<Rightarrow> 'a porstate_scheme \<Rightarrow> 'a porstate_scheme" where
  "to_acceptor t rdvno msg cmsgsz s =
     (let wi = winfo (tcb s t);
          s1 = send_msg (winfo_acp_msg wi) msg cmsgsz s;
          s2 = s1\<lparr>umem := (umem s1)(winfo_acp_p_rdvno wi := rdvno)\<rparr>;
          s3 = s2\<lparr>umem := (umem s2)(winfo_acp_p_cmsgsz wi := word_of_int cmsgsz)\<rparr>
      in knl_wait_release_ok t s3)"

definition tk_cal_por ::
    "ID \<Rightarrow> UINT \<Rightarrow> addr \<Rightarrow> int \<Rightarrow> TMO \<Rightarrow> addr \<Rightarrow> 'a porstate_scheme \<Rightarrow> sysret \<times> 'a porstate_scheme" where
  "tk_cal_por oid calptn msg cmsgsz tmout p_rmsgsz s =
     (let e = first_err [CHECK_OBJID NUM_PORID oid, CHECK_PAR (calptn \<noteq> 0), CHECK_PAR (cmsgsz \<ge> 0),
                CHECK_TMOUT tmout, CHECK_DISPATCH s];
          i = INDEX_OBJ oid; cb = porcb s i; c = the (ctxtsk s)
      in if e < E_OK then (Ret e, s)
         else if porid cb = 0 then (Ret E_NOEXS, END_CRITICAL_SECTION s)
         else if cmsgsz > maxcmsz cb then (Ret E_PAR, END_CRITICAL_SECTION s)
         else
           (case acceptor i calptn s of
              Some t \<Rightarrow>
                let (rdvno, s1) = knl_gen_rdvno c s;
                    s2 = to_acceptor t rdvno msg cmsgsz s1;
                    s3 = upd_tcb c (\<lambda>b. b\<lparr>wspec := knl_wspec_rdv, wid := 0, wercd := Some E_TMOUT,
                           winfo := WINFO_RDV rdvno msg (maxrmsz cb) p_rmsgsz\<rparr>) s2
                in (Blocked, END_CRITICAL_SECTION (knl_make_wait c TMO_FEVR s3))
            | None \<Rightarrow>
                let ws = (if poratr cb AND TA_TPRI \<noteq> 0 then knl_wspec_cal_tpri else knl_wspec_cal_tfifo);
                    s1 = prepare_wait c ws (WINFO_CAL calptn msg cmsgsz p_rmsgsz) s
                in (wait_ret tmout,
                    END_CRITICAL_SECTION (knl_gcb_make_wait (WPorCal i) (porid cb) (poratr cb) c tmout s1))))"

text \<open>A caller that has been met leaves its queue and waits, without a limit, for the end of its rendezvous.\<close>

definition to_rdv_wait :: "nat \<Rightarrow> UW \<Rightarrow> int \<Rightarrow> 'a kstate_scheme \<Rightarrow> 'a kstate_scheme" where
  "to_rdv_wait t rdvno maxr s =
     (let s1 = knl_wait_cancel t s;
          s2 = upd_tcb t (\<lambda>b. b\<lparr>wspec := knl_wspec_rdv, wid := 0,
                 winfo := WINFO_RDV rdvno (winfo_cal_msg (winfo b)) maxr (winfo_cal_p_rmsgsz (winfo b))\<rparr>) s1
      in knl_timer_insert (TM_TSK t) TMO_FEVR s2)"

definition tk_acp_por ::
    "ID \<Rightarrow> UINT \<Rightarrow> addr \<Rightarrow> addr \<Rightarrow> TMO \<Rightarrow> addr \<Rightarrow> 'a porstate_scheme \<Rightarrow> sysret \<times> 'a porstate_scheme" where
  "tk_acp_por oid acpptn p_rdvno msg tmout p_cmsgsz s =
     (let e = first_err [CHECK_OBJID NUM_PORID oid, CHECK_PAR (acpptn \<noteq> 0), CHECK_TMOUT tmout, CHECK_DISPATCH s];
          i = INDEX_OBJ oid; cb = porcb s i; c = the (ctxtsk s)
      in if e < E_OK then (Ret e, s)
         else if porid cb = 0 then (Ret E_NOEXS, END_CRITICAL_SECTION s)
         else
           (case caller i acpptn s of
              Some t \<Rightarrow>
                let (rdvno, s1) = knl_gen_rdvno t s;
                    s2 = s1\<lparr>umem := (umem s1)(p_rdvno := rdvno)\<rparr>;
                    cmsgsz = winfo_cal_cmsgsz (winfo (tcb s2 t));
                    s3 = send_msg msg (winfo_cal_msg (winfo (tcb s2 t))) cmsgsz s2
                in (Ret cmsgsz, END_CRITICAL_SECTION (to_rdv_wait t rdvno (maxrmsz cb) s3))
            | None \<Rightarrow>
                if tmout \<noteq> TMO_POL then
                  let s1 = upd_tcb c (\<lambda>b. b\<lparr>wspec := knl_wspec_acp, wid := oid, wercd := Some E_TMOUT,
                             winfo := WINFO_ACP acpptn msg p_rdvno p_cmsgsz\<rparr>) s
                  in (Blocked, END_CRITICAL_SECTION (que_insert c (QPorAcp i) (knl_make_wait c tmout s1)))
                else (Ret E_TMOUT, END_CRITICAL_SECTION s)))"

text \<open>The number names a task that waits for the end of just this rendezvous.\<close>

definition rdv_waiting :: "nat \<Rightarrow> UW \<Rightarrow> 'a kstate_scheme \<Rightarrow> bool" where
  "rdv_waiting t rdvno s \<longleftrightarrow>
     in_wait (state (tcb s t)) \<and> wspec (tcb s t) = knl_wspec_rdv \<and> rdvno = winfo_rdv_rdvno (winfo (tcb s t))"

text \<open>A forwarded caller waits at the other port for an acceptor.\<close>

definition to_cal_wait :: "nat \<Rightarrow> ID \<Rightarrow> ATR \<Rightarrow> UINT \<Rightarrow> int \<Rightarrow> 'a kstate_scheme \<Rightarrow> 'a kstate_scheme" where
  "to_cal_wait t oid atr calptn cmsgsz s =
     (let i = INDEX_OBJ oid;
          s1 = upd_tcb t (\<lambda>b. b\<lparr>wspec := (if atr AND TA_TPRI \<noteq> 0 then knl_wspec_cal_tpri else knl_wspec_cal_tfifo), wid := oid,
                 winfo := WINFO_CAL calptn (winfo_rdv_msg (winfo b)) cmsgsz (winfo_rdv_p_rmsgsz (winfo b))\<rparr>) s;
          s2 = knl_timer_insert (TM_TSK t) TMO_FEVR s1
      in if atr AND TA_TPRI \<noteq> 0 then knl_queue_insert_tpri t (WPorCal i) s2 else que_insert t (QPorCal i) s2)"

definition tk_fwd_por ::
    "ID \<Rightarrow> UINT \<Rightarrow> UW \<Rightarrow> addr \<Rightarrow> int \<Rightarrow> 'a porstate_scheme \<Rightarrow> ER \<times> 'a porstate_scheme" where
  "tk_fwd_por oid calptn rdvno msg cmsgsz s =
     (let e = first_err [CHECK_OBJID NUM_PORID oid, CHECK_PAR (calptn \<noteq> 0), CHECK_RDVNO rdvno,
                CHECK_PAR (cmsgsz \<ge> 0), CHECK_INTSK s];
          i = INDEX_OBJ oid; cb = porcb s i; ct = INDEX_OBJ (knl_get_tskid_rdvno rdvno)
      in if e < E_OK then (e, s)
         else if porid cb = 0 then (E_NOEXS, END_CRITICAL_SECTION s)
         else if cmsgsz > maxcmsz cb then (E_PAR, END_CRITICAL_SECTION s)
         else if \<not> rdv_waiting ct rdvno s then (E_OBJ, END_CRITICAL_SECTION s)
         else if maxrmsz cb > winfo_rdv_maxrmsz (winfo (tcb s ct)) then (E_OBJ, END_CRITICAL_SECTION s)
         else if cmsgsz > winfo_rdv_maxrmsz (winfo (tcb s ct)) then (E_PAR, END_CRITICAL_SECTION s)
         else
           (case acceptor i calptn s of
              Some t \<Rightarrow>
                let (new_rdvno, s1) = knl_gen_rdvno ct s;
                    s2 = to_acceptor t new_rdvno msg cmsgsz s1;
                    s3 = upd_tcb ct (\<lambda>b. b\<lparr>winfo := WINFO_RDV new_rdvno (winfo_cal_msg (winfo b)) (maxrmsz cb)
                           (winfo_cal_p_rmsgsz (winfo b))\<rparr>) s2
                in (E_OK, END_CRITICAL_SECTION s3)
            | None \<Rightarrow>
                let s1 = to_cal_wait ct oid (poratr cb) calptn cmsgsz s;
                    s2 = send_msg (winfo_cal_msg (winfo (tcb s1 ct))) msg cmsgsz s1
                in (E_OK, END_CRITICAL_SECTION s2)))"

definition tk_rpl_rdv :: "UW \<Rightarrow> addr \<Rightarrow> int \<Rightarrow> 'a porstate_scheme \<Rightarrow> ER \<times> 'a porstate_scheme" where
  "tk_rpl_rdv rdvno msg rmsgsz s =
     (let e = first_err [CHECK_RDVNO rdvno, CHECK_PAR (rmsgsz \<ge> 0), CHECK_INTSK s];
          ct = INDEX_OBJ (knl_get_tskid_rdvno rdvno); wi = winfo (tcb s ct)
      in if e < E_OK then (e, s)
         else if \<not> rdv_waiting ct rdvno s then (E_OBJ, END_CRITICAL_SECTION s)
         else if rmsgsz > winfo_rdv_maxrmsz wi then (E_PAR, END_CRITICAL_SECTION s)
         else
           let s1 = send_msg (winfo_rdv_msg wi) msg rmsgsz s;
               s2 = s1\<lparr>umem := (umem s1)(winfo_rdv_p_rmsgsz wi := word_of_int rmsgsz)\<rparr>
           in (E_OK, END_CRITICAL_SECTION (knl_wait_release_ok ct s2)))"

definition ref_por :: "ID \<Rightarrow> 'a porstate_scheme \<Rightarrow> T_RPOR refret" where
  "ref_por oid s =
     (let e = CHECK_OBJID NUM_PORID oid; i = INDEX_OBJ oid; cb = porcb s i
      in if e < E_OK then (e, None)
         else if porid cb = 0 then (E_NOEXS, None)
         else (E_OK, Some \<lparr>rpor_exinf = por_exinf cb, rpor_wtsk = knl_wait_tskid (WPorCal i) s,
            rpor_atsk = knl_wait_tskid (WPorAcp i) s, rpor_maxcmsz = maxcmsz cb, rpor_maxrmsz = maxrmsz cb\<rparr>))"

definition tk_ref_por :: "ID \<Rightarrow> 'a porstate_scheme \<Rightarrow> T_RPOR refret" where
  "tk_ref_por oid s = ref_por oid s"

definition td_ref_por :: "ID \<Rightarrow> 'a porstate_scheme \<Rightarrow> T_RPOR refret" where
  "td_ref_por oid s = ref_por oid s"

definition td_lst_por :: "int \<Rightarrow> 'a porstate_scheme \<Rightarrow> int \<times> ID list" where
  "td_lst_por nent s =
     list_entries nent (filter (\<lambda>k. k \<noteq> 0) (map (\<lambda>i. porid (porcb s i)) [0..<NUM_PORID]))"

definition td_cal_que :: "ID \<Rightarrow> int \<Rightarrow> 'a porstate_scheme \<Rightarrow> int \<times> ID list" where
  "td_cal_que oid nent s =
     (let e = CHECK_OBJID NUM_PORID oid; i = INDEX_OBJ oid
      in if e < E_OK then (e, [])
         else if porid (porcb s i) = 0 then (E_NOEXS, [])
         else list_entries nent (que_tskids (QPorCal i) s))"

definition td_acp_que :: "ID \<Rightarrow> int \<Rightarrow> 'a porstate_scheme \<Rightarrow> int \<times> ID list" where
  "td_acp_que oid nent s =
     (let e = CHECK_OBJID NUM_PORID oid; i = INDEX_OBJ oid
      in if e < E_OK then (e, [])
         else if porid (porcb s i) = 0 then (E_NOEXS, [])
         else list_entries nent (que_tskids (QPorAcp i) s))"

end
