(* ===== verification/Rendezvous_Properties.thy ===== *)
theory Rendezvous_Properties
  imports Rendezvous
begin

text \<open>
  Invariants of the rendezvous: a rendezvous number names its task, a task that waits for the end of a
  rendezvous waits for the last number it was given (\<open>rdv_inv\<close>), and nobody waits at a port that does not
  exist (\<open>por_inv\<close>). Every call keeps them; a rendezvous delivers both messages and is answered once.
\<close>

section \<open>Numbers\<close>

lemma rdvno_bits: "push_bit RDVNO_SHIFT 1 = (65536 :: UW)" "knl_get_tskid_rdvno n = uint (take_bit 16 n)"
proof -
  show "push_bit RDVNO_SHIFT 1 = (65536 :: UW)" by (simp add: RDVNO_SHIFT_def push_bit_eq_mult)
  then have "push_bit RDVNO_SHIFT 1 - 1 = (mask 16 :: UW)" by (simp add: mask_eq_exp_minus_1)
  then show "knl_get_tskid_rdvno n = uint (take_bit 16 n)" by (simp add: knl_get_tskid_rdvno_def take_bit_eq_mask)
qed

lemma tskid_rdvno_mod: "knl_get_tskid_rdvno n = uint n mod 65536"
  unfolding rdvno_bits unsigned_take_bit_eq by (simp add: take_bit_eq_mod)

lemma tskid_rdvno_next [simp]: "knl_get_tskid_rdvno (n + 65536 * k) = knl_get_tskid_rdvno n"
proof -
  have "uint (n + 65536 * k) = (uint n + 65536 * uint k) mod 4294967296"
    by (simp add: uint_word_ariths mod_simps)
  moreover have "(uint n + 65536 * uint k) mod 4294967296 mod 65536 = (uint n + 65536 * uint k) mod 65536"
    by (rule mod_mod_cancel) simp
  ultimately show ?thesis by (simp add: tskid_rdvno_mod)
qed

lemma tskid_rdvno_step [simp]: "knl_get_tskid_rdvno (n + 65536) = knl_get_tskid_rdvno n"
  using tskid_rdvno_next[of n 1] by simp

section \<open>Invariants\<close>

definition rdv_ok :: "nat \<Rightarrow> TCB \<Rightarrow> bool" where
  "rdv_ok t b \<longleftrightarrow> knl_get_tskid_rdvno (wrdvno b) = ID_OBJ t \<and>
     (in_wait (state b) \<and> wspec b = knl_wspec_rdv \<longrightarrow> winfo_rdv_rdvno (winfo b) + 65536 = wrdvno b)"

definition rdv_inv :: "'a kstate_scheme \<Rightarrow> bool" where
  "rdv_inv s \<longleftrightarrow> (\<forall>t < NUM_TSKID. rdv_ok t (tcb s t))"

definition por_inv :: "'a porstate_scheme \<Rightarrow> bool" where
  "por_inv s \<longleftrightarrow> cb_table_inv NUM_PORID (\<lambda>i. porid (porcb s i)) (free_porcb s) \<and>
     (\<forall>i < NUM_PORID. porid (porcb s i) = 0 \<longrightarrow> que s (QPorCal i) = [] \<and> que s (QPorAcp i) = [])"

definition kinv_por :: "'a porstate_scheme \<Rightarrow> bool" where
  "kinv_por s \<longleftrightarrow> core_inv s \<and> rdv_inv s \<and> por_inv s"

lemma porst_frame:
  assumes "kstate.more s' = kstate.more s" shows "porcb s' = porcb s" "free_porcb s' = free_porcb s" "bmem s' = bmem s"
  using assms by (cases s; cases s'; simp)+

lemma rdv_inv_END [simp]: "rdv_inv (END_CRITICAL_SECTION s) = rdv_inv s"
  by (simp add: rdv_inv_def)

lemma por_inv_END [simp]: "por_inv (END_CRITICAL_SECTION s) = por_inv s"
  using porst_frame[of "END_CRITICAL_SECTION s" s] by (simp add: por_inv_def)

lemma kinv_por_END [simp]: "kinv_por (END_CRITICAL_SECTION s) = kinv_por s"
  by (simp add: kinv_por_def)

lemma rdv_ok_released [simp]: "\<not> in_wait (state b) \<Longrightarrow> rdv_ok t b \<longleftrightarrow> knl_get_tskid_rdvno (wrdvno b) = ID_OBJ t"
  by (simp add: rdv_ok_def)

lemma rdv_inv_upd:
  assumes "rdv_inv s" "tcb s' = (tcb s)(t := b)" "t < NUM_TSKID \<Longrightarrow> rdv_ok t b" shows "rdv_inv s'"
  using assms by (auto simp: rdv_inv_def)

lemma rdv_inv_served:
  assumes "rdv_inv s" "tcb s' = served r (tcb s)" shows "rdv_inv s'"
  using assms by (auto simp: rdv_inv_def served_def rdv_ok_def)

lemma por_inv_queues:
  assumes "por_inv s" "porcb s' = porcb s" "free_porcb s' = free_porcb s"
    "\<And>v. set (que s' (QWait v)) \<subseteq> set (que s (QWait v)) \<or> (\<exists>i. porid (porcb s i) \<noteq> 0 \<and> (v = WPorCal i \<or> v = WPorAcp i))"
  shows "por_inv s'"
proof -
  have "que s' (QPorCal i) = [] \<and> que s' (QPorAcp i) = []" if "i < NUM_PORID" "porid (porcb s i) = 0" for i
    using assms(1) assms(4)[of "WPorCal i"] assms(4)[of "WPorAcp i"] that by (auto simp: por_inv_def)
  then show ?thesis using assms(1-3) by (simp add: por_inv_def)
qed

section \<open>Table\<close>

interpretation por_table: object_table NUM_PORID "\<lambda>s i. porid (porcb s i)" free_porcb cre_por del_por
proof
  fix s :: "'a porstate_scheme" and p i fs
  show "free_porcb s = [] \<Longrightarrow> cre_por p s = (E_LIMIT, s)" by (simp add: cre_por_def)
  show "free_porcb s = i # fs \<Longrightarrow> fst (cre_por p s) = ID_OBJ i \<and> free_porcb (snd (cre_por p s)) = fs \<and>
      (\<lambda>j. porid (porcb (snd (cre_por p s)) j)) = (\<lambda>j. porid (porcb s j))(i := ID_OBJ i)"
    by (auto simp: cre_por_def Let_def upd_porcb_def que_init_def)
  have m: "kstate.more (knl_wait_delete (WPorAcp i) (knl_wait_delete (WPorCal i) s)) = kstate.more s" by simp
  show "free_porcb (del_por i s) = free_porcb s @ [i] \<and>
      (\<lambda>j. porid (porcb (del_por i s) j)) = (\<lambda>j. porid (porcb s j))(i := 0)"
    using porst_frame[OF m] by (auto simp: del_por_def Let_def upd_porcb_def)
qed

section \<open>Steps of the calls\<close>

lemma send_msg_frame [simp]:
  "tcb (send_msg d m n s) = tcb s" "que (send_msg d m n s) = que s" "ctxtsk (send_msg d m n s) = ctxtsk s"
  "umem (send_msg d m n s) = umem s" "porcb (send_msg d m n s) = porcb s" "free_porcb (send_msg d m n s) = free_porcb s"
  "core_inv (send_msg d m n s) = core_inv s"
  "bmem (send_msg d m n s) = (if n > 0 then knl_memcpy d m n (bmem s) else bmem s)"
  by (simp_all add: send_msg_def core_inv_cong[of "s\<lparr>bmem := x\<rparr>" s for x])

lemma gen_rdvno_result:
  fixes s :: "'a kstate_scheme" and t :: nat
  assumes inv: "core_inv s" defines "r \<equiv> snd (knl_gen_rdvno t s)"
  shows "core_inv r" "tcb r = (tcb s)(t := (tcb s t)\<lparr>wrdvno := wrdvno (tcb s t) + 65536\<rparr>)" "que r = que s" "ctxtsk r = ctxtsk s"
    "umem r = umem s" "kstate.more r = kstate.more s" "fst (knl_gen_rdvno t s) = wrdvno (tcb s t)" "timer_queue r = timer_queue s"
proof -
  have e: "r = upd_tcb t (\<lambda>b. b\<lparr>wrdvno := wrdvno b + 65536\<rparr>) s" unfolding r_def knl_gen_rdvno_def rdvno_bits by simp
  have "home (b\<lparr>wrdvno := x\<rparr>) = home b" for b x by (simp add: home_def split: TSTAT.split)
  then show "core_inv r" unfolding e
    by (intro core_inv_upd_tcb[OF inv]) (use core_invD(3)[OF inv] in \<open>auto simp: tcb_ok_def kdefs Let_def\<close>)
  show "tcb r = (tcb s)(t := (tcb s t)\<lparr>wrdvno := wrdvno (tcb s t) + 65536\<rparr>)" "que r = que s" "ctxtsk r = ctxtsk s"
    "umem r = umem s" "kstate.more r = kstate.more s" "fst (knl_gen_rdvno t s) = wrdvno (tcb s t)" "timer_queue r = timer_queue s"
    by (simp_all add: e upd_tcb_def knl_gen_rdvno_def)
qed

lemma gen_rdvno_fst: "fst (knl_gen_rdvno t s) = wrdvno (tcb s t)"
  by (simp add: knl_gen_rdvno_def)

lemma to_acceptor_result:
  fixes s :: "'a porstate_scheme" and n :: UW and z :: int and msg :: addr
  assumes inv: "core_inv s" and t: "t \<in> set (que s (QPorAcp i))"
  defines "wi \<equiv> winfo (tcb s t)" and "r \<equiv> to_acceptor t n msg z s"
  shows "core_inv r" "tcb r = served [t] (tcb s)" "que r (QWait v) = removeAll t (que s (QWait v))" "ctxtsk r = ctxtsk s"
    "umem r = (umem s)(winfo_acp_p_rdvno wi := n, winfo_acp_p_cmsgsz wi := word_of_int z)"
    "bmem r = (if z > 0 then knl_memcpy (winfo_acp_msg wi) msg z (bmem s) else bmem s)"
    "porcb r = porcb s" "free_porcb r = free_porcb s"
proof -
  let ?m = "(umem s)(winfo_acp_p_rdvno wi := n, winfo_acp_p_cmsgsz wi := word_of_int z)"
  let ?s = "(send_msg (winfo_acp_msg wi) msg z s)\<lparr>umem := ?m\<rparr>"
  have e: "r = knl_wait_release_ok t ?s" by (simp add: r_def to_acceptor_def wi_def Let_def)
  have s: "core_inv ?s" "t \<in> set (que ?s (QPorAcp i))" using inv t by simp_all
  show "core_inv r" "tcb r = served [t] (tcb s)" using wait_release_ok_result[OF s] by (simp_all add: e)
  have m: "kstate.more r = kstate.more ?s" by (simp add: e)
  show "que r (QWait v) = removeAll t (que s (QWait v))" "ctxtsk r = ctxtsk s" "umem r = ?m" by (simp_all add: e)
  show "bmem r = (if z > 0 then knl_memcpy (winfo_acp_msg wi) msg z (bmem s) else bmem s)"
    "porcb r = porcb s" "free_porcb r = free_porcb s" using porst_frame[OF m] by simp_all
qed

text \<open>A waiting task that is taken out of its queue and given another reason to wait.\<close>

lemma pre_blocked_rewait:
  fixes s :: "'a kstate_scheme"
  assumes inv: "core_inv s" and t: "t < NUM_TSKID" "in_wait (state (tcb s t))"
    and f: "\<And>b. f b = b\<lparr>wspec := ws, wid := k, winfo := g b\<rparr>" and ws: "ws \<noteq> knl_wspec_none"
  shows "pre_blocked t (upd_tcb t f (que_remove t s))"
proof -
  note I = core_invD[OF inv]
  let ?r = "que_remove t s" let ?s = "upd_tcb t f ?r"
  have nr: "state (tcb s t) \<noteq> TS_READY" using t(2) by auto
  have "task_inv_x t ?s" using I(1) by (intro task_inv_x_upd task_inv_unlink)
  moreover have "sched_ok ?s" by (rule sched_ok_upd_tcb) (use sched_ok_que_remove[OF I(1,2) nr] f in auto)
  moreover have "tcb_ok ?s" by (rule tcb_ok_upd[OF I(3), where b = "f (tcb s t)"])
      (use I(3) t f ws in \<open>auto simp: upd_tcb_def tcb_ok_def Let_def\<close>)
  moreover have "timer_ok ?s" using I(4) f by (auto simp: timer_ok_def upd_tcb_def)
  ultimately show ?thesis using I(5) t f by (auto simp: pre_blocked_def upd_tcb_def)
qed

lemma to_rdv_wait_result:
  fixes s :: "'a kstate_scheme" and n :: UW and z :: int
  assumes inv: "core_inv s" and t: "t < NUM_TSKID" "in_wait (state (tcb s t))"
  defines "r \<equiv> to_rdv_wait t n z s" and "wi \<equiv> winfo (tcb s t)"
  shows "core_inv r" "tcb r = (tcb s)(t := (tcb s t)\<lparr>wspec := knl_wspec_rdv, wid := 0,
      winfo := WINFO_RDV n (winfo_cal_msg wi) z (winfo_cal_p_rmsgsz wi)\<rparr>)"
    "que r (QWait v) = removeAll t (que s (QWait v))" "ctxtsk r = ctxtsk s" "umem r = umem s" "kstate.more r = kstate.more s"
    "TM_TSK t \<notin> set (timer_queue r)"
proof -
  let ?s = "knl_timer_delete (TM_TSK t) s"
  let ?f = "\<lambda>b. b\<lparr>wspec := knl_wspec_rdv, wid := 0, winfo := WINFO_RDV n (winfo_cal_msg (winfo b)) z (winfo_cal_p_rmsgsz (winfo b))\<rparr>"
  have e: "r = upd_tcb t ?f (que_remove t ?s)" by (simp add: r_def to_rdv_wait_def knl_wait_cancel_def Let_def knl_timer_insert_def)
  have p: "pre_blocked t r" unfolding e
    by (rule pre_blocked_rewait[where g = "\<lambda>b. WINFO_RDV n (winfo_cal_msg (winfo b)) z (winfo_cal_p_rmsgsz (winfo b))" and k = 0])
      (use core_inv_timer_delete[OF inv] t in auto)
  have "in_wait (state (tcb r t))" "wspec (tcb r t) = knl_wspec_rdv" using t(2) by (simp_all add: e upd_tcb_def)
  then have "home (tcb r t) = None" by (auto simp: home_def split: TSTAT.splits)
  then show "core_inv r" using core_inv_nolink[OF p] by simp
  show "tcb r = (tcb s)(t := (tcb s t)\<lparr>wspec := knl_wspec_rdv, wid := 0,
      winfo := WINFO_RDV n (winfo_cal_msg wi) z (winfo_cal_p_rmsgsz wi)\<rparr>)"
    "que r (QWait v) = removeAll t (que s (QWait v))" "ctxtsk r = ctxtsk s" "umem r = umem s" "kstate.more r = kstate.more s"
    "TM_TSK t \<notin> set (timer_queue r)"
    by (simp_all add: e upd_tcb_def wi_def knl_timer_delete_def que_remove_def)
qed

lemma core_inv_if: "core_inv x \<Longrightarrow> core_inv y \<Longrightarrow> core_inv (if b then x else y)"
  by simp

lemma que_linked:
  "que (if b then knl_queue_insert_tpri t w s else que_insert t (QWait w) s) (QWait v) =
    (if v = w then (if b then insert_before (\<lambda>u. priority (tcb s t) < priority (tcb s u)) t (que s (QWait w)) else que s (QWait w) @ [t])
     else que s (QWait v))"
  by (simp add: knl_queue_insert_tpri_def que_insert_def)

lemma to_cal_wait_result:
  fixes s :: "'a kstate_scheme" and a :: ATR and p :: UINT and z :: int and oid :: ID
  assumes inv: "core_inv s" and t: "t < NUM_TSKID" "in_wait (state (tcb s t))" "wspec (tcb s t) = knl_wspec_rdv"
  defines "r \<equiv> to_cal_wait t oid a p z s" and "wi \<equiv> winfo (tcb s t)" and "i \<equiv> INDEX_OBJ oid"
  shows "core_inv r" "tcb r = (tcb s)(t := (tcb s t)\<lparr>wspec := (if a AND TA_TPRI \<noteq> 0 then knl_wspec_cal_tpri else knl_wspec_cal_tfifo),
      wid := oid, winfo := WINFO_CAL p (winfo_rdv_msg wi) z (winfo_rdv_p_rmsgsz wi)\<rparr>)"
    "que r (QWait v) = (if v = WPorCal i then wait_enqueue a (tcb s) t (que s (QPorCal i)) else que s (QWait v))"
    "ctxtsk r = ctxtsk s" "umem r = umem s" "kstate.more r = kstate.more s"
proof -
  let ?ws = "if a AND TA_TPRI \<noteq> 0 then knl_wspec_cal_tpri else knl_wspec_cal_tfifo"
  let ?f = "\<lambda>b. b\<lparr>wspec := ?ws, wid := oid, winfo := WINFO_CAL p (winfo_rdv_msg (winfo b)) z (winfo_rdv_p_rmsgsz (winfo b))\<rparr>"
  let ?s = "upd_tcb t ?f s"
  have "home (tcb s t) = None" using t(2,3) by (auto simp: home_def split: TSTAT.splits)
  then have "removeAll t (que s q) = que s q" for q using task_inv_mem[OF core_invD(1)[OF inv], of t q] by (simp add: removeAll_id)
  then have rm: "que_remove t s = s" by (simp add: que_remove_def)
  have e: "r = (if a AND TA_TPRI \<noteq> 0 then knl_queue_insert_tpri t (WPorCal i) ?s else que_insert t (QPorCal i) ?s)"
    by (simp add: r_def to_cal_wait_def Let_def knl_timer_insert_def i_def)
  have "pre_blocked t (upd_tcb t ?f (que_remove t s))"
    by (rule pre_blocked_rewait[OF inv t(1,2), where g = "\<lambda>b. WINFO_CAL p (winfo_rdv_msg (winfo b)) z (winfo_rdv_p_rmsgsz (winfo b))"]) (auto split: if_splits)
  then have pb: "pre_blocked t ?s" unfolding rm .
  have h: "home (tcb ?s t) = Some (QPorCal i)" using t(2) by (auto simp: home_def upd_tcb_def i_def split: TSTAT.splits)
  have pr: "priority (tcb ?s u) = priority (tcb s u)" "que ?s = que s" for u by (simp_all add: upd_tcb_def)
  show "core_inv r" unfolding e by (rule core_inv_if; rule core_inv_link[OF pb h])
  show "tcb r = (tcb s)(t := (tcb s t)\<lparr>wspec := ?ws, wid := oid, winfo := WINFO_CAL p (winfo_rdv_msg wi) z (winfo_rdv_p_rmsgsz wi)\<rparr>)"
    "ctxtsk r = ctxtsk s" "umem r = umem s" "kstate.more r = kstate.more s"
    by (simp_all add: e upd_tcb_def wi_def que_insert_def knl_queue_insert_tpri_def)
  show "que r (QWait v) = (if v = WPorCal i then wait_enqueue a (tcb s) t (que s (QPorCal i)) else que s (QWait v))"
    unfolding e wait_enqueue_def que_linked pr i_def[symmetric] by (simp only: refl)
qed

text \<open>The end of a call that has met an acceptor: the caller waits for the reply.\<close>

definition met :: "nat \<Rightarrow> nat \<Rightarrow> addr \<Rightarrow> int \<Rightarrow> int \<Rightarrow> addr \<Rightarrow> 'a porstate_scheme \<Rightarrow> 'a porstate_scheme" where
  "met c t msg z zr p s =
     (let (rdvno, s1) = knl_gen_rdvno c s
      in knl_make_wait c TMO_FEVR (upd_tcb c (\<lambda>b. b\<lparr>wspec := knl_wspec_rdv, wid := 0, wercd := Some E_TMOUT,
           winfo := WINFO_RDV rdvno msg zr p\<rparr>) (to_acceptor t rdvno msg z s1)))"

lemma met_result:
  fixes s :: "'a porstate_scheme" and z zr :: int and msg p :: addr
  assumes inv: "core_inv s" and c: "ctxtsk s = Some c" "state (tcb s c) = TS_READY" and t: "t \<in> set (que s (QPorAcp i))"
  defines "r \<equiv> met c t msg z zr p s" and "n \<equiv> wrdvno (tcb s c)" and "wi \<equiv> winfo (tcb s t)"
  shows "core_inv r" "tcb r = (served [t] (tcb s))(c := (tcb s c)\<lparr>wrdvno := n + 65536, wspec := knl_wspec_rdv, wid := 0,
      wercd := Some E_TMOUT, winfo := WINFO_RDV n msg zr p, state := TS_WAIT\<rparr>)"
    "que r (QWait v) = removeAll t (que s (QWait v))" "ctxtsk r = ctxtsk s"
    "umem r = (umem s)(winfo_acp_p_rdvno wi := n, winfo_acp_p_cmsgsz wi := word_of_int z)"
    "bmem r = (if z > 0 then knl_memcpy (winfo_acp_msg wi) msg z (bmem s) else bmem s)"
    "porcb r = porcb s" "free_porcb r = free_porcb s"
proof -
  note G = gen_rdvno_result[OF inv, of c]
  let ?s1 = "snd (knl_gen_rdvno c s)" let ?s2 = "to_acceptor t n msg z ?s1"
  let ?f = "\<lambda>b. b\<lparr>wspec := knl_wspec_rdv, wid := 0, wercd := Some E_TMOUT, winfo := WINFO_RDV n msg zr p\<rparr>"
  let ?s3 = "upd_tcb c ?f ?s2"
  have tc: "t \<noteq> c" using core_inv_in_wait[OF inv t] c(2) by auto
  have t1: "t \<in> set (que ?s1 (QPorAcp i))" using t G(3) by simp
  have w1: "winfo (tcb ?s1 t) = wi" using G(2) tc by (simp add: wi_def)
  note A = to_acceptor_result[OF G(1) t1, where n = n and msg = msg and z = z, unfolded w1]
  have cl: "c < NUM_TSKID" by (rule core_invD(5)[OF inv c(1)])
  have c2: "tcb ?s2 c = (tcb s c)\<lparr>wrdvno := n + 65536\<rparr>" using A(2) G(2) tc by (simp add: served_def n_def)
  have cb: "can_block c ?s3"
    by (rule can_block_upd[OF A(1) cl, where g = "Some E_TMOUT" and ws = knl_wspec_rdv and wi = "WINFO_RDV n msg zr p" and i = 0])
      (use c2 c in simp_all)
  have r: "r = knl_make_wait c TMO_FEVR ?s3" by (simp add: r_def met_def n_def knl_gen_rdvno_def Let_def)
  have i3: "core_inv ?s3" "state (tcb ?s3 c) = TS_READY" using cb by (auto simp: can_block_def)
  note M = make_wait_ready[OF i3, of TMO_FEVR, folded r]
  have "pre_blocked c r" using pre_blocked_make_wait(1)[OF cb] r by simp
  moreover have "home (tcb r c) = None" by (simp add: M(1) upd_tcb_def home_def)
  ultimately show "core_inv r" by (rule core_inv_nolink)
  show "tcb r = (served [t] (tcb s))(c := (tcb s c)\<lparr>wrdvno := n + 65536, wspec := knl_wspec_rdv, wid := 0,
      wercd := Some E_TMOUT, winfo := WINFO_RDV n msg zr p, state := TS_WAIT\<rparr>)"
    using A(2) G(2) c2 tc by (simp add: M(1) upd_tcb_def served_def fun_eq_iff)
  show "que r (QWait v) = removeAll t (que s (QWait v))" "ctxtsk r = ctxtsk s"
    using A(3)[of v] A(4) G(3,4) by (simp_all add: M upd_tcb_def)
  show "umem r = (umem s)(winfo_acp_p_rdvno wi := n, winfo_acp_p_cmsgsz wi := word_of_int z)"
    using A(5) G(5) by (simp add: M upd_tcb_def)
  have "kstate.more r = kstate.more ?s2" by (simp add: M upd_tcb_def)
  then show "bmem r = (if z > 0 then knl_memcpy (winfo_acp_msg wi) msg z (bmem s) else bmem s)"
    "porcb r = porcb s" "free_porcb r = free_porcb s" using porst_frame[of r ?s2] porst_frame[OF G(6)] A(6-8) by simp_all
qed

section \<open>The calls keep the invariant\<close>

lemma find_in: "find P xs = Some x \<Longrightarrow> x \<in> set xs \<and> P x"
  by (induction xs) (auto split: if_splits)

lemma INDEX_POR: "CHK_OBJID NUM_PORID oid \<Longrightarrow> INDEX_OBJ oid < NUM_PORID"
  by (auto simp: CHK_OBJID_def INDEX_OBJ_def)

lemma acceptor_in: "acceptor i p s = Some t \<Longrightarrow> t \<in> set (que s (QPorAcp i))"
  "caller i p s = Some t \<Longrightarrow> t \<in> set (que s (QPorCal i))"
  by (auto simp: acceptor_def caller_def dest: find_in)

lemma acp_wait_eq:
  assumes "tmout \<noteq> TMO_POL"
  shows "que_insert c (QPorAcp i) (knl_make_wait c tmout (upd_tcb c (\<lambda>b. b\<lparr>wspec := knl_wspec_acp,
      wid := oid, wercd := Some E_TMOUT, winfo := wi\<rparr>) s)) =
    knl_gcb_make_wait (WPorAcp i) oid 0 c tmout (prepare_wait c knl_wspec_acp wi s)"
proof -
  have "upd_tcb c (\<lambda>b. b\<lparr>wspec := knl_wspec_acp, wid := oid, wercd := Some E_TMOUT, winfo := wi\<rparr>) s =
      upd_tcb c (wid_update (\<lambda>_. oid)) (set_wercd c E_TMOUT (prepare_wait c knl_wspec_acp wi s))"
    by (cases "tcb s c") (simp add: prepare_wait_def upd_tcb_def set_wercd_def)
  then show ?thesis using assms by (simp add: knl_gcb_make_wait_def)
qed

lemma gcb_wait_fields:
  "wrdvno (tcb (knl_gcb_make_wait w oid a c tmout s) t) = wrdvno (tcb s t)"
  "wspec (tcb (knl_gcb_make_wait w oid a c tmout s) t) = wspec (tcb s t)"
  by (auto simp: knl_gcb_make_wait_def Let_def knl_make_wait_def make_wait_state_def knl_make_non_ready_def knl_ready_queue_delete_def
      knl_queue_insert_tpri_def upd_tcb_def set_wercd_def que_insert_def que_remove_def split: TSTAT.splits)

lemma por_id:
  assumes "por_inv s" "\<not> CHECK_OBJID NUM_PORID oid < E_OK" "porid (porcb s (INDEX_OBJ oid)) \<noteq> 0"
  shows "porid (porcb s (INDEX_OBJ oid)) = ID_OBJ (INDEX_OBJ oid)"
  using assms INDEX_POR[of oid] by (auto simp: por_inv_def cb_table_inv_def CHECK_OBJID_def consts_defs split: if_splits)

lemma kinv_por_block:
  fixes s :: "'a porstate_scheme"
  assumes K: "kinv_por s" and c: "ctxtsk s = Some c" "state (tcb s c) = TS_READY"
    and wh: "wait_home ws oid = Some (QWait w)" "ws \<noteq> knl_wspec_rdv" and w: "porid (porcb s i) \<noteq> 0" "w = WPorCal i \<or> w = WPorAcp i"
  shows "kinv_por (knl_gcb_make_wait w oid a c tmout (prepare_wait c ws wi s))" (is "kinv_por ?r")
proof -
  have inv: "core_inv s" "rdv_inv s" "por_inv s" using K by (auto simp: kinv_por_def)
  note B = block_on[OF inv(1) c wh(1), where objatr = a and wi = wi and tmout = tmout]
  have "rdv_ok t (tcb ?r t)" if "t < NUM_TSKID" for t
  proof (cases "t = c")
    case True
    then show ?thesis using inv(2) that wh(2) by (auto simp: rdv_inv_def rdv_ok_def gcb_wait_fields)
  qed (use B(3)[of t] inv(2) that in \<open>auto simp: rdv_inv_def\<close>)
  then have "rdv_inv ?r" by (simp add: rdv_inv_def)
  moreover have "por_inv ?r" by (rule por_inv_queues[OF inv(3)]) (use porst_frame[OF B(5)] B(4) w in auto)
  ultimately show ?thesis using B(1) by (simp add: kinv_por_def)
qed

lemma tk_cal_por_inv:
  fixes s :: "'a porstate_scheme"
  assumes K: "kinv_por s" and run: "run_ok s" shows "kinv_por (snd (tk_cal_por oid calptn msg z tmout p s))"
proof -
  have inv: "core_inv s" "rdv_inv s" "por_inv s" using K by (auto simp: kinv_por_def)
  let ?i = "INDEX_OBJ oid" let ?cb = "porcb s ?i"
  let ?e = "first_err [CHECK_OBJID NUM_PORID oid, CHECK_PAR (calptn \<noteq> 0), CHECK_PAR (z \<ge> 0), CHECK_TMOUT tmout, CHECK_DISPATCH s]"
  show ?thesis
  proof (cases "?e < E_OK \<or> porid ?cb = 0 \<or> z > maxcmsz ?cb")
    case True
    then show ?thesis using K by (auto simp: tk_cal_por_def Let_def)
  next
    case False
    then have "\<not> CHECK_DISPATCH s < E_OK" by (auto split: if_splits)
    then obtain c where c: "ctxtsk s = Some c" "state (tcb s c) = TS_READY" using CHECK_DISPATCH_OK run by blast
    show ?thesis
    proof (cases "acceptor ?i calptn s")
      case None
      have "\<not> CHECK_OBJID NUM_PORID oid < E_OK" using False by (auto split: if_splits)
      then have po: "porid ?cb = ID_OBJ ?i" using por_id[OF inv(3)] False by blast
      let ?ws = "if poratr ?cb AND TA_TPRI \<noteq> 0 then knl_wspec_cal_tpri else knl_wspec_cal_tfifo"
      have "kinv_por (knl_gcb_make_wait (WPorCal ?i) (porid ?cb) (poratr ?cb) c tmout (prepare_wait c ?ws (WINFO_CAL calptn msg z p) s))"
        by (rule kinv_por_block[OF K c, where i = ?i]) (use False po in auto)
      then show ?thesis using False None c by (simp add: tk_cal_por_def Let_def)
    next
      case (Some t)
      have t: "t \<in> set (que s (QPorAcp ?i))" by (rule acceptor_in) fact
      note M = met_result[OF inv(1) c t, where msg = msg and z = z and zr = "maxrmsz ?cb" and p = p]
      let ?r = "met c t msg z (maxrmsz ?cb) p s"
      have "rdv_inv (s\<lparr>tcb := served [t] (tcb s)\<rparr>)" by (rule rdv_inv_served[OF inv(2)]) simp
      then have "rdv_inv ?r" by (rule rdv_inv_upd) (use M(2) inv(2) in \<open>auto simp: rdv_inv_def rdv_ok_def\<close>)
      moreover have "por_inv ?r" by (rule por_inv_queues[OF inv(3) M(7,8)]) (use M(3) in auto)
      moreover have "snd (tk_cal_por oid calptn msg z tmout p s) = END_CRITICAL_SECTION ?r"
        using False Some c by (simp add: tk_cal_por_def Let_def met_def knl_gen_rdvno_def)
      ultimately show ?thesis using M(1) by (simp add: kinv_por_def)
    qed
  qed
qed

lemma tk_acp_por_meets:
  fixes s :: "'a porstate_scheme" and p msg :: addr and zr :: int
  assumes inv: "core_inv s" and t: "t \<in> set (que s (QPorCal i))"
  defines "wi \<equiv> winfo (tcb s t)" and "s1 \<equiv> (snd (knl_gen_rdvno t s))\<lparr>umem := (umem s)(p := wrdvno (tcb s t))\<rparr>"
  defines "r \<equiv> to_rdv_wait t (wrdvno (tcb s t)) zr (send_msg msg (winfo_cal_msg wi) (winfo_cal_cmsgsz wi) s1)"
  shows "core_inv r" "tcb r = (tcb s)(t := (tcb s t)\<lparr>wrdvno := wrdvno (tcb s t) + 65536, wspec := knl_wspec_rdv, wid := 0,
      winfo := WINFO_RDV (wrdvno (tcb s t)) (winfo_cal_msg wi) zr (winfo_cal_p_rmsgsz wi)\<rparr>)"
    "que r (QWait v) = removeAll t (que s (QWait v))" "ctxtsk r = ctxtsk s" "umem r = (umem s)(p := wrdvno (tcb s t))"
    "bmem r = (if winfo_cal_cmsgsz wi > 0 then knl_memcpy msg (winfo_cal_msg wi) (winfo_cal_cmsgsz wi) (bmem s) else bmem s)"
    "porcb r = porcb s" "free_porcb r = free_porcb s"
proof -
  note G = gen_rdvno_result[OF inv, of t]
  let ?s2 = "send_msg msg (winfo_cal_msg wi) (winfo_cal_cmsgsz wi) s1"
  have s2: "tcb ?s2 = (tcb s)(t := (tcb s t)\<lparr>wrdvno := wrdvno (tcb s t) + 65536\<rparr>)" "core_inv ?s2" "que ?s2 = que s" "ctxtsk ?s2 = ctxtsk s"
    using G by (simp_all add: s1_def)
  have tt: "t < NUM_TSKID" "in_wait (state (tcb ?s2 t))"
    using core_inv_queue_lt[OF inv t] core_inv_in_wait[OF inv t] s2 by simp_all
  note R = to_rdv_wait_result[OF s2(2) tt, where n = "wrdvno (tcb s t)" and z = zr, folded r_def]
  show "core_inv r" by (rule R(1))
  show "tcb r = (tcb s)(t := (tcb s t)\<lparr>wrdvno := wrdvno (tcb s t) + 65536, wspec := knl_wspec_rdv, wid := 0,
      winfo := WINFO_RDV (wrdvno (tcb s t)) (winfo_cal_msg wi) zr (winfo_cal_p_rmsgsz wi)\<rparr>)"
    using R(2) s2(1) by (simp add: wi_def)
  show "que r (QWait v) = removeAll t (que s (QWait v))" "ctxtsk r = ctxtsk s" using R(3)[of v] R(4) s2 by simp_all
  show "umem r = (umem s)(p := wrdvno (tcb s t))" using R(5) by (simp add: s1_def)
  have "bmem s1 = bmem s" "porcb s1 = porcb s" "free_porcb s1 = free_porcb s" using porst_frame[OF G(6)] by (simp_all add: s1_def)
  then show "bmem r = (if winfo_cal_cmsgsz wi > 0 then knl_memcpy msg (winfo_cal_msg wi) (winfo_cal_cmsgsz wi) (bmem s) else bmem s)"
    "porcb r = porcb s" "free_porcb r = free_porcb s" using porst_frame[OF R(6)] by simp_all
qed

lemma tk_acp_por_inv:
  fixes s :: "'a porstate_scheme"
  assumes K: "kinv_por s" and run: "run_ok s" shows "kinv_por (snd (tk_acp_por oid acpptn p msg tmout pz s))"
proof -
  have inv: "core_inv s" "rdv_inv s" "por_inv s" using K by (auto simp: kinv_por_def)
  let ?i = "INDEX_OBJ oid" let ?cb = "porcb s ?i"
  let ?e = "first_err [CHECK_OBJID NUM_PORID oid, CHECK_PAR (acpptn \<noteq> 0), CHECK_TMOUT tmout, CHECK_DISPATCH s]"
  show ?thesis
  proof (cases "?e < E_OK \<or> porid ?cb = 0")
    case True
    then show ?thesis using K by (auto simp: tk_acp_por_def Let_def)
  next
    case False
    then have "\<not> CHECK_DISPATCH s < E_OK" by (auto split: if_splits)
    then obtain c where c: "ctxtsk s = Some c" "state (tcb s c) = TS_READY" using CHECK_DISPATCH_OK run by blast
    show ?thesis
    proof (cases "caller ?i acpptn s")
      case None
      show ?thesis
      proof (cases "tmout = TMO_POL")
        case True
        then show ?thesis using False None K by (simp add: tk_acp_por_def Let_def)
      next
        case tm: False
        have "kinv_por (knl_gcb_make_wait (WPorAcp ?i) oid 0 c tmout (prepare_wait c knl_wspec_acp (WINFO_ACP acpptn msg p pz) s))"
          by (rule kinv_por_block[OF K c, where i = ?i]) (use False in auto)
        then show ?thesis using False None tm c acp_wait_eq[OF tm, where c = c and i = ?i and oid = oid and wi = "WINFO_ACP acpptn msg p pz" and s = s] by (simp add: tk_acp_por_def Let_def)
      qed
    next
      case (Some t)
      have t: "t \<in> set (que s (QPorCal ?i))" by (rule acceptor_in(2)) fact
      let ?s1 = "(snd (knl_gen_rdvno t s))\<lparr>umem := (umem s)(p := wrdvno (tcb s t))\<rparr>"
      let ?wi = "winfo (tcb s t)"
      let ?r = "to_rdv_wait t (wrdvno (tcb s t)) (maxrmsz ?cb) (send_msg msg (winfo_cal_msg ?wi) (winfo_cal_cmsgsz ?wi) ?s1)"
      note M = tk_acp_por_meets[OF inv(1) t, where p = p and zr = "maxrmsz ?cb" and msg = msg]
      have "rdv_inv ?r" by (rule rdv_inv_upd[OF inv(2) M(2)]) (use inv(2) in \<open>auto simp: rdv_inv_def rdv_ok_def\<close>)
      moreover have "por_inv ?r" by (rule por_inv_queues[OF inv(3) M(7,8)]) (use M(3) in auto)
      moreover have "snd (tk_acp_por oid acpptn p msg tmout pz s) = END_CRITICAL_SECTION ?r"
        using False Some by (simp add: tk_acp_por_def Let_def knl_gen_rdvno_def upd_tcb_def)
      ultimately show ?thesis using M(1) by (simp add: kinv_por_def)
    qed
  qed
qed

lemma CHECK_RDVNO_task:
  assumes "\<not> CHECK_RDVNO n < E_OK" shows "INDEX_OBJ (knl_get_tskid_rdvno n) < NUM_TSKID"
  using assms by (auto simp: CHECK_RDVNO_def CHK_OBJID_def INDEX_OBJ_def consts_defs split: if_splits)

lemma tk_rpl_rdv_answers:
  fixes s :: "'a porstate_scheme" and n :: UW and z :: int and msg :: addr
  assumes inv: "core_inv s" and c: "\<not> CHECK_RDVNO n < E_OK" "0 \<le> z" "\<not> CHECK_INTSK s < E_OK"
  defines "t \<equiv> INDEX_OBJ (knl_get_tskid_rdvno n)"
  defines "wi \<equiv> winfo (tcb s t)"
  assumes w: "rdv_waiting t n s" "z \<le> winfo_rdv_maxrmsz wi"
  defines "r \<equiv> tk_rpl_rdv n msg z s"
  shows "fst r = E_OK" "core_inv (snd r)" "tcb (snd r) = served [t] (tcb s)" "que (snd r) (QWait v) = removeAll t (que s (QWait v))"
    "umem (snd r) = (umem s)(winfo_rdv_p_rmsgsz wi := word_of_int z)"
    "bmem (snd r) = (if z > 0 then knl_memcpy (winfo_rdv_msg wi) msg z (bmem s) else bmem s)"
    "porcb (snd r) = porcb s" "free_porcb (snd r) = free_porcb s"
proof -
  let ?s = "(send_msg (winfo_rdv_msg wi) msg z s)\<lparr>umem := (umem s)(winfo_rdv_p_rmsgsz wi := word_of_int z)\<rparr>"
  have e: "r = (E_OK, END_CRITICAL_SECTION (knl_wait_release_ok t ?s))"
    using c w by (simp add: r_def tk_rpl_rdv_def Let_def t_def[symmetric] wi_def[symmetric] CHECK_PAR_def)
  have t: "t < NUM_TSKID" "in_wait (state (tcb ?s t))" using CHECK_RDVNO_task[OF c(1)] w(1) by (auto simp: t_def rdv_waiting_def)
  have i: "core_inv ?s" using inv by simp
  obtain er where er: "wercd (tcb s t) = Some er" using tcb_okD(4)[OF core_invD(3)[OF inv] t(1)] t(2) by auto
  show "fst r = E_OK" "core_inv (snd r)" using core_inv_wait_release_ok(1)[OF i t] by (simp_all add: e)
  show "tcb (snd r) = served [t] (tcb s)" using er by (simp add: e knl_wait_release_ok_def served_def fun_eq_iff)
  show "que (snd r) (QWait v) = removeAll t (que s (QWait v))" "umem (snd r) = (umem s)(winfo_rdv_p_rmsgsz wi := word_of_int z)"
    by (simp_all add: e)
  have "kstate.more (snd r) = kstate.more ?s" by (simp add: e)
  then show "bmem (snd r) = (if z > 0 then knl_memcpy (winfo_rdv_msg wi) msg z (bmem s) else bmem s)"
    "porcb (snd r) = porcb s" "free_porcb (snd r) = free_porcb s" using porst_frame[of "snd r" ?s] by simp_all
qed

lemma tk_rpl_rdv_inv:
  fixes s :: "'a porstate_scheme"
  assumes K: "kinv_por s" shows "kinv_por (snd (tk_rpl_rdv n msg z s))"
proof -
  have inv: "core_inv s" "rdv_inv s" "por_inv s" using K by (auto simp: kinv_por_def)
  let ?t = "INDEX_OBJ (knl_get_tskid_rdvno n)"
  show ?thesis
  proof (cases "first_err [CHECK_RDVNO n, CHECK_PAR (z \<ge> 0), CHECK_INTSK s] < E_OK \<or> \<not> rdv_waiting ?t n s \<or> z > winfo_rdv_maxrmsz (winfo (tcb s ?t))")
    case True
    then show ?thesis using K by (auto simp: tk_rpl_rdv_def Let_def)
  next
    case False
    then have c: "\<not> CHECK_RDVNO n < E_OK" "0 \<le> z" "\<not> CHECK_INTSK s < E_OK" "rdv_waiting ?t n s" "z \<le> winfo_rdv_maxrmsz (winfo (tcb s ?t))"
      by (auto simp: CHECK_PAR_def consts_defs split: if_splits)
    note A = tk_rpl_rdv_answers[OF inv(1) c, where msg = msg]
    have "rdv_inv (snd (tk_rpl_rdv n msg z s))" by (rule rdv_inv_served[OF inv(2) A(3)])
    moreover have "por_inv (snd (tk_rpl_rdv n msg z s))" by (rule por_inv_queues[OF inv(3) A(7,8)]) (use A(4) in auto)
    ultimately show ?thesis using A(2) by (simp add: kinv_por_def)
  qed
qed

definition fwd_ok :: "ID \<Rightarrow> UINT \<Rightarrow> UW \<Rightarrow> int \<Rightarrow> 'a porstate_scheme \<Rightarrow> bool" where
  "fwd_ok oid calptn n z s \<longleftrightarrow>
     (let cb = porcb s (INDEX_OBJ oid); ct = INDEX_OBJ (knl_get_tskid_rdvno n); m = winfo_rdv_maxrmsz (winfo (tcb s ct))
      in \<not> first_err [CHECK_OBJID NUM_PORID oid, CHECK_PAR (calptn \<noteq> 0), CHECK_RDVNO n, CHECK_PAR (z \<ge> 0), CHECK_INTSK s] < E_OK \<and>
         porid cb \<noteq> 0 \<and> z \<le> maxcmsz cb \<and> rdv_waiting ct n s \<and> maxrmsz cb \<le> m \<and> z \<le> m)"

lemma tk_fwd_por_refused:
  assumes "\<not> fwd_ok oid calptn n z s" shows "snd (tk_fwd_por oid calptn n msg z s) \<in> {s, END_CRITICAL_SECTION s}"
  using assms unfolding tk_fwd_por_def fwd_ok_def Let_def de_Morgan_conj not_not not_le
  by (elim disjE) (simp_all only: if_True if_False split: if_split, auto)

lemma fwd_okD:
  assumes "fwd_ok oid calptn n z s"
  defines "ct \<equiv> INDEX_OBJ (knl_get_tskid_rdvno n)"
  shows "ct < NUM_TSKID" "in_wait (state (tcb s ct))" "wspec (tcb s ct) = knl_wspec_rdv" "porid (porcb s (INDEX_OBJ oid)) \<noteq> 0"
proof -
  have "\<not> first_err [CHECK_OBJID NUM_PORID oid, CHECK_PAR (calptn \<noteq> 0), CHECK_RDVNO n, CHECK_PAR (z \<ge> 0), CHECK_INTSK s] < E_OK"
    using assms(1) unfolding fwd_ok_def Let_def by blast
  then have "\<not> CHECK_RDVNO n < E_OK" by (auto split: if_splits)
  then show "ct < NUM_TSKID" unfolding ct_def by (rule CHECK_RDVNO_task)
  show "in_wait (state (tcb s ct))" "wspec (tcb s ct) = knl_wspec_rdv" "porid (porcb s (INDEX_OBJ oid)) \<noteq> 0"
    using assms(1) unfolding fwd_ok_def Let_def rdv_waiting_def ct_def by blast+
qed

lemma core_inv_upd_winfo: "core_inv s \<Longrightarrow> core_inv (upd_tcb t (\<lambda>b. b\<lparr>winfo := g b\<rparr>) s)"
  by (rule core_inv_upd_tcb) (auto simp: core_inv_def tcb_ok_def kdefs Let_def)

lemma tk_fwd_por_ok:
  assumes "fwd_ok oid calptn n z s"
  shows "tk_fwd_por oid calptn n msg z s =
     (let i = INDEX_OBJ oid; cb = porcb s i; ct = INDEX_OBJ (knl_get_tskid_rdvno n)
      in (case acceptor i calptn s of
              Some t \<Rightarrow>
                let (new_rdvno, s1) = knl_gen_rdvno ct s;
                    s2 = to_acceptor t new_rdvno msg z s1;
                    s3 = upd_tcb ct (\<lambda>b. b\<lparr>winfo := WINFO_RDV new_rdvno (winfo_cal_msg (winfo b)) (maxrmsz cb)
                           (winfo_cal_p_rmsgsz (winfo b))\<rparr>) s2
                in (E_OK, END_CRITICAL_SECTION s3)
            | None \<Rightarrow>
                let s1 = to_cal_wait ct oid (poratr cb) calptn z s;
                    s2 = send_msg (winfo_cal_msg (winfo (tcb s1 ct))) msg z s1
                in (E_OK, END_CRITICAL_SECTION s2)))"
proof -
  let ?i = "INDEX_OBJ oid" let ?cb = "porcb s ?i" let ?ct = "INDEX_OBJ (knl_get_tskid_rdvno n)"
  let ?m = "winfo_rdv_maxrmsz (winfo (tcb s ?ct))"
  have b: "\<not> first_err [CHECK_OBJID NUM_PORID oid, CHECK_PAR (calptn \<noteq> 0), CHECK_RDVNO n, CHECK_PAR (z \<ge> 0), CHECK_INTSK s] < E_OK"
    "porid ?cb \<noteq> 0" "\<not> z > maxcmsz ?cb" "\<not> \<not> rdv_waiting ?ct n s" "\<not> maxrmsz ?cb > ?m" "\<not> z > ?m"
    using assms unfolding fwd_ok_def Let_def not_less by blast+
  show ?thesis unfolding tk_fwd_por_def Let_def if_not_P[OF b(1)] if_not_P[OF b(2)] if_not_P[OF b(3)] if_not_P[OF b(4)]
      if_not_P[OF b(5)] if_not_P[OF b(6)] by (rule refl)
qed

lemma kinv_por_fwd_queue:
  fixes s :: "'a porstate_scheme"
  assumes K: "kinv_por s" and w: "ct < NUM_TSKID" "in_wait (state (tcb s ct))" "wspec (tcb s ct) = knl_wspec_rdv"
    and po: "porid (porcb s (INDEX_OBJ oid)) \<noteq> 0"
  shows "kinv_por (send_msg d msg z (to_cal_wait ct oid a p z s))"
proof -
  have inv: "core_inv s" "rdv_inv s" "por_inv s" using K by (auto simp: kinv_por_def)
  let ?s1 = "to_cal_wait ct oid a p z s" let ?r = "send_msg d msg z ?s1"
  note C = to_cal_wait_result[OF inv(1) w, where oid = oid and a = a and p = p and z = z]
  have "rdv_inv ?s1" by (rule rdv_inv_upd[OF inv(2) C(2)]) (use inv(2) in \<open>simp add: rdv_inv_def rdv_ok_def\<close>)
  then have "rdv_inv ?r" by (simp add: rdv_inv_def)
  moreover have "porcb ?r = porcb s" "free_porcb ?r = free_porcb s" using porst_frame[OF C(6)] by simp_all
  then have "por_inv ?r"
  proof (rule por_inv_queues[OF inv(3)])
    fix v
    show "set (que ?r (QWait v)) \<subseteq> set (que s (QWait v)) \<or> (\<exists>i. porid (porcb s i) \<noteq> 0 \<and> (v = WPorCal i \<or> v = WPorAcp i))"
      using C(3)[of v] po by (cases "v = WPorCal (INDEX_OBJ oid)") auto
  qed
  ultimately show ?thesis using C(1) by (simp add: kinv_por_def)
qed

lemma kinv_por_fwd_meet:
  fixes s :: "'a porstate_scheme"
  assumes K: "kinv_por s" and w: "ct < NUM_TSKID" "in_wait (state (tcb s ct))" "wspec (tcb s ct) = knl_wspec_rdv"
    and t: "t \<in> set (que s (QPorAcp i))"
  defines "n \<equiv> wrdvno (tcb s ct)"
  shows "kinv_por (upd_tcb ct (\<lambda>b. b\<lparr>winfo := WINFO_RDV n (winfo_cal_msg (winfo b)) zr (winfo_cal_p_rmsgsz (winfo b))\<rparr>)
    (to_acceptor t n msg z (snd (knl_gen_rdvno ct s))))"
proof -
  have inv: "core_inv s" "rdv_inv s" "por_inv s" using K by (auto simp: kinv_por_def)
  have "home (tcb s ct) = None" using w(2,3) by (auto simp: home_def split: TSTAT.splits)
  moreover have "home (tcb s t) = Some (QPorAcp i)" using task_inv_mem[OF core_invD(1)[OF inv(1)], of t "QPorAcp i"] t by simp
  ultimately have tc: "t \<noteq> ct" by auto
  note G = gen_rdvno_result[OF inv(1), of ct]
  let ?s1 = "snd (knl_gen_rdvno ct s)" let ?s2 = "to_acceptor t n msg z ?s1"
  have t1: "t \<in> set (que ?s1 (QPorAcp i))" using t G(3) by simp
  note A = to_acceptor_result[OF G(1) t1, where n = n and msg = msg and z = z]
  let ?f = "\<lambda>b. b\<lparr>winfo := WINFO_RDV n (winfo_cal_msg (winfo b)) zr (winfo_cal_p_rmsgsz (winfo b))\<rparr>"
  let ?r = "upd_tcb ct ?f ?s2"
  have c: "core_inv ?r" by (rule core_inv_upd_winfo[OF A(1)])
  have c2: "tcb ?s2 = (served [t] (tcb s))(ct := (tcb s ct)\<lparr>wrdvno := n + 65536\<rparr>)"
    using A(2) G(2) tc by (simp add: served_def fun_eq_iff n_def)
  have sv: "rdv_inv (s\<lparr>tcb := served [t] (tcb s)\<rparr>)" by (rule rdv_inv_served[OF inv(2)]) simp
  have ok: "rdv_ok ct (?f (tcb ?s2 ct))" using c2 inv(2) w(1) by (simp add: rdv_inv_def rdv_ok_def n_def)
  have "rdv_inv ?r" by (rule rdv_inv_upd[OF sv _ ok]) (simp add: upd_tcb_def c2)
  moreover have q: "que ?s2 (QWait v) = removeAll t (que s (QWait v))" for v using A(3)[of v] G(3) by simp
  have "porcb ?r = porcb s" "free_porcb ?r = free_porcb s" using A(7,8) porst_frame[OF G(6)] by (simp_all add: upd_tcb_def)
  then have "por_inv ?r" by (rule por_inv_queues[OF inv(3)]) (auto simp: q)
  ultimately show ?thesis using c by (simp add: kinv_por_def)
qed

lemma tk_fwd_por_inv:
  fixes s :: "'a porstate_scheme"
  assumes K: "kinv_por s" shows "kinv_por (snd (tk_fwd_por oid calptn n msg z s))"
proof (cases "fwd_ok oid calptn n z s")
  case False
  from tk_fwd_por_refused[OF this, of msg] show ?thesis using K by auto
next
  case True
  note w = fwd_okD[OF True] and E = tk_fwd_por_ok[OF True, of msg, unfolded Let_def]
  show ?thesis
  proof (cases "acceptor (INDEX_OBJ oid) calptn s")
    case None
    show ?thesis unfolding E None using kinv_por_fwd_queue[OF K w] by simp
  next
    case (Some t)
    show ?thesis unfolding E Some
      using kinv_por_fwd_meet[OF K w(1-3) acceptor_in(1)[OF Some]] by (simp add: case_prod_unfold gen_rdvno_fst)
  qed
qed

lemma tk_del_por_inv:
  fixes s :: "'a porstate_scheme"
  assumes K: "kinv_por s" shows "kinv_por (snd (tk_del_por oid s))"
proof -
  have inv: "core_inv s" "rdv_inv s" "por_inv s" using K by (auto simp: kinv_por_def)
  let ?i = "INDEX_OBJ oid" let ?a = "knl_wait_delete (WPorCal ?i) s" let ?b = "knl_wait_delete (WPorAcp ?i) ?a"
  show ?thesis
  proof (cases "first_err [CHECK_OBJID NUM_PORID oid, CHECK_INTSK s] < E_OK \<or> porid (porcb s ?i) = 0")
    case True
    then show ?thesis using K by (auto simp: tk_del_por_def Let_def)
  next
    case False
    then have "\<not> CHECK_OBJID NUM_PORID oid < E_OK" by (auto split: if_splits)
    then have i: "?i < NUM_PORID" by (intro INDEX_POR) (simp add: CHECK_OBJID_def consts_defs split: if_splits)
    have A: "core_inv ?a" and Aq: "w \<noteq> WPorCal ?i \<Longrightarrow> que ?a (QWait w) = que s (QWait w)"
      and At: "rdv_ok t (tcb s t) \<Longrightarrow> rdv_ok t (tcb ?a t)" for w t
      using wait_delete_result[OF inv(1), of "WPorCal ?i"] by (auto simp: rdv_ok_def)
    have B: "core_inv ?b" and Bq: "w \<noteq> WPorAcp ?i \<Longrightarrow> que ?b (QWait w) = que ?a (QWait w)"
      and Bt: "rdv_ok t (tcb ?a t) \<Longrightarrow> rdv_ok t (tcb ?b t)" for w t
      using wait_delete_result[OF A, of "WPorAcp ?i"] by (auto simp: rdv_ok_def)
    let ?r = "del_por ?i s"
    have r: "tcb ?r = tcb ?b" "que ?r = que ?b" by (simp_all add: del_por_def Let_def upd_porcb_def)
    have "core_inv ?r" using B by (subst core_inv_cong[of ?r ?b]) (simp_all add: del_por_def Let_def upd_porcb_def)
    moreover have "rdv_inv ?r" using inv(2) At Bt by (simp add: rdv_inv_def r)
    moreover have "cb_table_inv NUM_PORID (\<lambda>j. porid (porcb ?r j)) (free_porcb ?r)"
      by (rule por_table.delete_inv) (use inv(3) False i in \<open>auto simp: por_inv_def\<close>)
    moreover have "(\<lambda>j. porid (porcb ?r j)) = (\<lambda>j. porid (porcb s j))(?i := 0)" using por_table.delete_give[of ?i s] by blast
    then have "que ?r (QPorCal j) = [] \<and> que ?r (QPorAcp j) = []" if "j < NUM_PORID" "porid (porcb ?r j) = 0" for j
      using that inv(3) Aq[of "WPorCal j"] Aq[of "WPorAcp j"] Bq[of "WPorCal j"] Bq[of "WPorAcp j"]
      by (cases "j = ?i") (auto simp: r por_inv_def fun_eq_iff)
    ultimately have "kinv_por ?r" by (simp add: kinv_por_def por_inv_def)
    then show ?thesis using False by (simp add: tk_del_por_def Let_def)
  qed
qed

lemma tk_cre_por_inv:
  fixes s :: "'a porstate_scheme"
  assumes K: "kinv_por s" shows "kinv_por (snd (tk_cre_por pk s))"
proof -
  have inv: "core_inv s" "rdv_inv s" "por_inv s" using K by (auto simp: kinv_por_def)
  have "kinv_por (snd (cre_por pk s))"
  proof (cases "free_porcb s")
    case Nil
    then show ?thesis using K by (simp add: cre_por_def)
  next
    case (Cons i fs)
    then have "i \<in> {i. i < NUM_PORID \<and> porid (porcb s i) = 0}" using inv(3) unfolding por_inv_def cb_table_inv_def by (metis list.set_intros(1))
    then have q: "que s (QPorCal i) = []" "que s (QPorAcp i) = []" using inv(3) by (auto simp: por_inv_def)
    let ?r = "snd (cre_por pk s)"
    have qr: "tcb ?r = tcb s" "que ?r = que s"
      using Cons q by (auto simp: cre_por_def Let_def upd_porcb_def que_init_def)
    have "core_inv ?r" using inv(1) by (subst core_inv_cong[of ?r s])
      (use Cons qr in \<open>simp_all add: cre_por_def Let_def upd_porcb_def que_init_def\<close>)
    moreover have "rdv_inv ?r" using inv(2) by (simp add: rdv_inv_def qr)
    moreover have "cb_table_inv NUM_PORID (\<lambda>j. porid (porcb ?r j)) (free_porcb ?r)"
      by (rule por_table.create_inv) (use inv(3) in \<open>simp add: por_inv_def\<close>)
    moreover have "(\<lambda>j. porid (porcb ?r j)) = (\<lambda>j. porid (porcb s j))(i := ID_OBJ i)" using por_table.create_take[OF Cons, of pk] by blast
    then have "que ?r (QPorCal j) = [] \<and> que ?r (QPorAcp j) = []" if "j < NUM_PORID" "porid (porcb ?r j) = 0" for j
      using that inv(3) by (cases "j = i") (auto simp: qr por_inv_def fun_eq_iff)
    ultimately show ?thesis by (simp add: kinv_por_def por_inv_def)
  qed
  then show ?thesis using K by (simp add: tk_cre_por_def Let_def split: prod.split) (metis snd_conv)
qed

section \<open>A concrete state\<close>

text \<open>Port 1 has the caller 9; port 2 is free of tasks. Task 11 waits for the reply to its rendezvous 12.\<close>

definition sample_porcb :: "nat \<Rightarrow> PORCB" where
  "sample_porcb i = \<lparr>porid = ID_OBJ i, por_exinf = 0, poratr = 0, maxcmsz = 8, maxrmsz = 16\<rparr>"

definition sample_por :: "'a \<Rightarrow> 'a porstate_scheme" where
  "sample_por m = sample_mpf (porstate_ext sample_porcb [] m)"

lemma sample_por_fields [simp]:
  "tcb (sample_por m) = sample_tcb" "que (sample_por m) = sample_que" "ctxtsk (sample_por m) = Some 0" "core_inv (sample_por m)"
  "umem (sample_por m) = (\<lambda>a. 0)" "\<not> CHECK_DISPATCH (sample_por m) < E_OK"
  by (simp_all add: sample_por_def)

lemma sample_por_tables [simp]: "porcb (sample_por m) = sample_porcb" "free_porcb (sample_por m) = []" "bmem (sample_por m) = (\<lambda>a. of_nat a)"
  unfolding sample_por_def sample_mpf_def sample_chain sample_kernel_def by simp_all

lemma sample_por_context [simp]: "run_ok (sample_por m)" "\<not> in_indp (sample_por m)"
  unfolding sample_por_def sample_mpf_def sample_chain by simp_all

lemma sample_por_inv [simp]: "kinv_por (sample_por m)"
proof -
  have u: "uint (word_of_int (ID_OBJ t) :: UW) mod 65536 = ID_OBJ t" if "t < 64" for t
    using that by (simp only: uint_word_of_int ID_OBJ_def) simp
  have "wrdvno (sample_tcb t) = (if t = 11 then 65548 else word_of_int (ID_OBJ t))" for t by (simp add: sample_defs)
  moreover have "wspec (sample_tcb t) = knl_wspec_rdv \<Longrightarrow> t = 11" for t
    by (rule ccontr) (simp add: sample_defs split: if_split_asm)
  moreover have "winfo_rdv_rdvno (winfo (sample_tcb 11)) = 12" by (simp add: sample_defs)
  moreover have "ID_OBJ 11 = 12" by (simp add: ID_OBJ_def)
  ultimately have "rdv_ok t (sample_tcb t)" if "t < 64" for t using u[OF that] by (auto simp: rdv_ok_def tskid_rdvno_mod)
  then have "rdv_inv (sample_por m)" by (simp add: rdv_inv_def NUM_TSKID_def)
  moreover have "por_inv (sample_por m)" by (auto simp: por_inv_def cb_table_inv_def sample_porcb_def)
  ultimately show ?thesis by (simp add: kinv_por_def)
qed

section \<open>Properties\<close>

text \<open>
  C30. Every call of the rendezvous, successful or not, keeps the kernel's invariant and that of the
  rendezvous: a number names the task it was given to, a task that waits for the end of a rendezvous waits
  for the last number it was given, and nobody waits at a port that does not exist.
\<close>

theorem rdv_calls_keep_invariant:
  assumes "kinv_por s" "run_ok s"
  shows "kinv_por (snd (tk_cre_por pk s)) \<and> kinv_por (snd (tk_del_por oid s)) \<and>
     kinv_por (snd (tk_cal_por oid ptn msg z tmout p s)) \<and> kinv_por (snd (tk_acp_por oid ptn p msg tmout pz s)) \<and>
     kinv_por (snd (tk_fwd_por oid ptn n msg z s)) \<and> kinv_por (snd (tk_rpl_rdv n msg z s))"
  by (intro conjI tk_cre_por_inv tk_del_por_inv tk_cal_por_inv tk_acp_por_inv tk_fwd_por_inv tk_rpl_rdv_inv assms)

theorem rdv_calls_keep_invariant_witness:
  "kinv_por (snd (tk_acp_por 1 3 50 60 5 70 (sample_por ()))) \<and> kinv_por (snd (tk_rpl_rdv 12 60 4 (sample_por ())))"
  using rdv_calls_keep_invariant[of "sample_por ()" pk 1 3 60 4 5 50 70 12 for pk] by simp

text \<open>
  Rendezvous numbers: the numbers a task is given name that task, and a number is not given again to
  it within the next 65535 rendezvous, so that a late reply to one of these is refused; the next one after
  that has the same number again.
\<close>

lemma rdvno_not_reused:
  fixes s :: "'a kstate_scheme" and t :: nat
  defines "succ \<equiv> \<lambda>u :: 'a kstate_scheme. snd (knl_gen_rdvno t u)" and "number \<equiv> \<lambda>u :: 'a kstate_scheme. fst (knl_gen_rdvno t u)"
  shows "(\<forall>k. knl_get_tskid_rdvno (number ((succ ^^ k) s)) = knl_get_tskid_rdvno (number s)) \<and>
     inj_on (\<lambda>k. number ((succ ^^ k) s)) {..<65536} \<and> number ((succ ^^ 65536) s) = number s"
proof -
  have n: "number ((succ ^^ k) s) = wrdvno (tcb s t) + 65536 * of_nat k" for k
  proof -
    have s1: "wrdvno (tcb (succ u) t) = wrdvno (tcb u t) + 65536" for u
      unfolding succ_def knl_gen_rdvno_def rdvno_bits by (simp add: upd_tcb_def)
    have "wrdvno (tcb ((succ ^^ k) s) t) = wrdvno (tcb s t) + 65536 * of_nat k"
      by (induction k) (simp_all add: s1 algebra_simps)
    then show ?thesis by (simp add: number_def knl_gen_rdvno_def)
  qed
  have "inj_on (\<lambda>k. number ((succ ^^ k) s)) {..<65536}"
  proof (rule inj_onI)
    fix k j :: nat assume kj: "k \<in> {..<65536}" "j \<in> {..<65536}" and e: "number ((succ ^^ k) s) = number ((succ ^^ j) s)"
    from e have "65536 * of_nat k = (65536 * of_nat j :: UW)" by (simp add: n)
    then have "(of_nat (65536 * k) :: UW) = of_nat (65536 * j)" by simp
    moreover have "unat (of_nat (65536 * i) :: UW) = 65536 * i" if "i < 65536" for i
      using that by (simp only: unat_of_nat) (simp add: take_bit_nat_eq_self)
    ultimately have "65536 * k = 65536 * j" using kj by (metis lessThan_iff)
    then show "k = j" by simp
  qed
  moreover have "number s = wrdvno (tcb s t)" using n[of 0] by simp
  ultimately show ?thesis by (simp add: n)
qed

lemma rdvno_fresh:
  fixes s1 :: "'a kstate_scheme"
  assumes "wrdvno (tcb s1 c) = n + 65536" "k < 65535"
  shows "fst (knl_gen_rdvno c (((\<lambda>u. snd (knl_gen_rdvno c u)) ^^ k) s1)) \<noteq> n"
proof
  let ?s = "upd_tcb c (\<lambda>b. b\<lparr>wrdvno := n\<rparr>) s1" let ?f = "\<lambda>u. snd (knl_gen_rdvno c u)"
  have g: "wrdvno (tcb ((?f ^^ j) u) c) = wrdvno (tcb u c) + 65536 * of_nat j" for u :: "'a kstate_scheme" and j
    unfolding knl_gen_rdvno_def rdvno_bits by (induction j) (simp_all add: upd_tcb_def algebra_simps)
  assume "fst (knl_gen_rdvno c ((?f ^^ k) s1)) = n"
  then have "fst (knl_gen_rdvno c ((?f ^^ Suc k) ?s)) = fst (knl_gen_rdvno c ((?f ^^ 0) ?s))"
    using assms(1) g[of k s1] g[of "Suc k" ?s] by (simp add: gen_rdvno_fst upd_tcb_def algebra_simps del: funpow.simps)
  then have "Suc k = 0"
    using inj_onD[OF conjunct1[OF conjunct2[OF rdvno_not_reused[of c ?s]]], of "Suc k" 0] assms(2) by simp
  then show False by simp
qed

lemma rdvno_unused:
  assumes inv: "core_inv s" "rdv_inv s" and c: "c < NUM_TSKID" "\<not> in_wait (state (tcb s c))" and u: "u < NUM_TSKID"
  shows "\<not> rdv_waiting u (wrdvno (tcb s c)) s"
proof
  assume w: "rdv_waiting u (wrdvno (tcb s c)) s"
  then have "rdv_ok u (tcb s u)" "rdv_ok c (tcb s c)" using inv(2) c(1) u by (auto simp: rdv_inv_def)
  with w have "wrdvno (tcb s c) + 65536 = wrdvno (tcb s u)" "knl_get_tskid_rdvno (wrdvno (tcb s u)) = ID_OBJ u"
      "knl_get_tskid_rdvno (wrdvno (tcb s c)) = ID_OBJ c" by (simp_all add: rdv_ok_def rdv_waiting_def)
  then have "ID_OBJ c = ID_OBJ u" using tskid_rdvno_step[of "wrdvno (tcb s c)"] by simp
  then show False using w c(2) by (simp add: rdv_waiting_def ID_OBJ_def)
qed

text \<open>
  C11. A rendezvous carries a message each way and is answered once. A call that meets a waiting acceptor
  delivers the caller's message, its size and a fresh rendezvous number and releases the acceptor; the
  caller waits. The number names the caller, no task waits with it, and it is not given to the caller
  again in its next 65535 rendezvous. In any later state in which the caller, suspended or not, still waits
  for the end of this rendezvous with the same message area, a reply with that number and at most the agreed
  size delivers the answer into the caller's message area and its size, and ends the wait; a second reply
  with the same number is refused.
\<close>

theorem rendezvous_round_trip:
  fixes s s2 :: "'a porstate_scheme" and p :: addr
  assumes inv: "kinv_por s" and c: "ctxtsk s = Some c" "state (tcb s c) = TS_READY" "\<not> CHECK_DISPATCH s < E_OK"
    and id: "CHK_OBJID NUM_PORID oid" "porid (porcb s (INDEX_OBJ oid)) \<noteq> 0"
    and call: "calptn \<noteq> 0" "0 \<le> z" "z \<le> maxcmsz (porcb s (INDEX_OBJ oid))" "\<not> CHECK_TMOUT tmout < E_OK"
    and t: "acceptor (INDEX_OBJ oid) calptn s = Some t" "winfo (tcb s t) = WINFO_ACP ptn am pr pz" "pr \<noteq> pz"
    and area: "am + nat z \<le> msg \<or> msg + nat z \<le> am"
  defines "s1 \<equiv> snd (tk_cal_por oid calptn msg z tmout p s)"
  defines "n \<equiv> umem s1 pr"
  assumes s2: "core_inv s2" "rdv_waiting c n s2" "winfo (tcb s2 c) = winfo (tcb s1 c)" "\<not> CHECK_INTSK s2 < E_OK"
    and rpl: "0 \<le> zr" "zr \<le> maxrmsz (porcb s (INDEX_OBJ oid))" "msg + nat zr \<le> rmsg \<or> rmsg + nat zr \<le> msg"
  defines "r \<equiv> tk_rpl_rdv n rmsg zr s2"
  shows "fst (tk_cal_por oid calptn msg z tmout p s) = Blocked \<and> tcb s1 t = served [t] (tcb s) t \<and>
     umem s1 pz = word_of_int z \<and> (\<forall>k < nat z. bmem s1 (am + k) = bmem s (msg + k)) \<and>
     knl_get_tskid_rdvno n = ID_OBJ c \<and> rdv_waiting c n s1 \<and> (\<forall>u < NUM_TSKID. \<not> rdv_waiting u n s) \<and>
     (\<forall>k < 65535. fst (knl_gen_rdvno c (((\<lambda>u. snd (knl_gen_rdvno c u)) ^^ k) s1)) \<noteq> n) \<and>
     fst r = E_OK \<and> state (tcb (snd r) c) = released (tcb s2 c) \<and> \<not> in_wait (state (tcb (snd r) c)) \<and>
     wercd (tcb (snd r) c) = Some E_OK \<and>
     umem (snd r) p = word_of_int zr \<and> (\<forall>k < nat zr. bmem (snd r) (msg + k) = bmem s2 (rmsg + k)) \<and>
     fst (tk_rpl_rdv n rmsg' zr' (snd r)) < E_OK"
proof -
  let ?i = "INDEX_OBJ oid" let ?cb = "porcb s ?i" let ?s = "met c t msg z (maxrmsz ?cb) p s"
  have i: "core_inv s" "rdv_inv s" using inv by (auto simp: kinv_por_def)
  have e: "tk_cal_por oid calptn msg z tmout p s = (Blocked, END_CRITICAL_SECTION ?s)"
    using id call c t(1) by (simp add: tk_cal_por_def Let_def met_def knl_gen_rdvno_def CHECK_OBJID_def CHECK_PAR_def)
  have tq: "t \<in> set (que s (QPorAcp ?i))" by (rule acceptor_in(1)[OF t(1)])
  have tc: "t \<noteq> c" using core_inv_in_wait[OF i(1) tq] c(2) by auto
  note M = met_result[OF i(1) c(1,2) tq, where msg = msg and z = z and zr = "maxrmsz ?cb" and p = p, unfolded t(2)]
  have n: "n = wrdvno (tcb s c)" using M(5) t(3) by (simp add: n_def s1_def e)
  have cl: "c < NUM_TSKID" by (rule core_invD(5)[OF i(1) c(1)])
  then have nc: "knl_get_tskid_rdvno n = ID_OBJ c" using i(2) by (auto simp: n rdv_inv_def rdv_ok_def)
  have ct: "INDEX_OBJ (knl_get_tskid_rdvno n) = c" by (simp add: nc)
  have tb: "tcb s1 c = (tcb s c)\<lparr>wrdvno := n + 65536, wspec := knl_wspec_rdv, wid := 0, wercd := Some E_TMOUT,
      winfo := WINFO_RDV n msg (maxrmsz ?cb) p, state := TS_WAIT\<rparr>" using M(2) by (simp add: s1_def e n)
  have b1: "bmem s1 = bmem ?s" by (simp add: s1_def e porst_frame(3)[of "END_CRITICAL_SECTION ?s" ?s])
  have rc: "\<not> CHECK_RDVNO n < E_OK" using cl CHK_OBJID_ID_OBJ[of c NUM_TSKID] by (simp add: CHECK_RDVNO_def nc)
  have w: "rdv_waiting c n s2" "winfo (tcb s2 c) = WINFO_RDV n msg (maxrmsz ?cb) p" using s2(2,3) tb by simp_all
  have w1: "rdv_waiting c n s1" using tb by (simp add: rdv_waiting_def)
  have f: "\<forall>u < NUM_TSKID. \<not> rdv_waiting u n s" using rdvno_unused[OF i cl] c(2) by (simp add: n)
  have g: "\<forall>k < 65535. fst (knl_gen_rdvno c (((\<lambda>u. snd (knl_gen_rdvno c u)) ^^ k) s1)) \<noteq> n"
    using tb by (intro allI impI rdvno_fresh) simp_all
  note A = tk_rpl_rdv_answers[OF s2(1) rc rpl(1) s2(4), where msg = rmsg, folded r_def, unfolded ct w(2) winfo_rdv_msg.simps
      winfo_rdv_p_rmsgsz.simps winfo_rdv_maxrmsz.simps, OF w(1) rpl(2)]
  have m1: "bmem s1 (am + k) = bmem s (msg + k)" if "k < nat z" for k
    using M(6) that area zero_less_nat_eq[of z] by (cases "0 < z") (simp_all add: b1 knl_memcpy_def copy_bytes_disjoint)
  have m2: "bmem (snd r) (msg + k) = bmem s2 (rmsg + k)" if "k < nat zr" for k
    using A(6) that rpl(3) by (cases "0 < zr") (simp_all add: knl_memcpy_def copy_bytes_disjoint)
  have cr: "tcb (snd r) c = (tcb s2 c)\<lparr>state := released (tcb s2 c), wercd := Some E_OK\<rparr>" using A(3) by (simp add: served_def)
  then have "\<not> rdv_waiting c n (snd r)" by (simp add: rdv_waiting_def)
  then have "fst (tk_rpl_rdv n rmsg' zr' (snd r)) < E_OK"
    using ct by (simp add: tk_rpl_rdv_def Let_def consts_defs)
  moreover have "umem s1 pz = word_of_int z" "tcb s1 t = served [t] (tcb s) t" using M(2,5) tc by (simp_all add: s1_def e)
  ultimately show ?thesis using nc w1 f g cr A(1,5) m1 m2 by (simp add: e)
qed

lemma taskindp_steps [simp]:
  "taskindp (upd_tcb t f s) = taskindp s" "taskindp (make_wait_state t s) = taskindp s" "taskindp (knl_make_wait t TMO_FEVR s) = taskindp s"
  "taskindp (knl_wait_release t s) = taskindp s" "taskindp (set_wercd t e s) = taskindp s" "taskindp (send_msg d m n u) = taskindp u"
proof -
  show u: "taskindp (upd_tcb t f s) = taskindp s" for f and s :: "'a kstate_scheme" by (simp add: upd_tcb_def)
  then show m: "taskindp (make_wait_state t s) = taskindp s" for s :: "'a kstate_scheme" by (simp add: make_wait_state_def split: TSTAT.split)
  then show "taskindp (knl_make_wait t TMO_FEVR s) = taskindp s" by (simp add: knl_make_wait_def knl_timer_insert_def)
  show "taskindp (knl_wait_release t s) = taskindp s"
    using u by (simp add: knl_wait_release_def knl_make_non_wait_def que_remove_def knl_timer_delete_def)
  show "taskindp (set_wercd t e s) = taskindp s" using u by (simp add: set_wercd_def)
  show "taskindp (send_msg d m n u) = taskindp u" by (simp add: send_msg_def)
qed

lemma met_context: "taskindp (met c t msg z zr p s) = taskindp s"
  by (simp add: met_def knl_gen_rdvno_def to_acceptor_def Let_def knl_wait_release_ok_def)

theorem rendezvous_round_trip_witness:
  "let s = sample_por (); s1 = snd (tk_cal_por 2 1 2000 4 5 60 s); n = umem s1 910; r = tk_rpl_rdv n 3000 8 s1
   in n = 1 \<and> (\<forall>k < 4. bmem s1 (950 + k) = bmem s (2000 + k)) \<and> fst r = E_OK \<and> umem (snd r) 60 = 8 \<and>
      fst (tk_rpl_rdv n 3000 8 (snd r)) < E_OK"
proof -
  let ?s = "sample_por ()" let ?s1 = "snd (tk_cal_por 2 1 2000 4 5 60 ?s)"
  have i: "INDEX_OBJ 2 = 1" "CHK_OBJID NUM_PORID 2" by (simp_all add: INDEX_OBJ_def CHK_OBJID_def NUM_PORID_def)
  have w: "winfo (sample_tcb 12) = WINFO_ACP 3 950 910 920" "state (sample_tcb 0) = TS_READY" "wrdvno (sample_tcb 0) = 1"
    by (simp_all add: sample_defs ID_OBJ_def)
  have a: "acceptor 1 1 ?s = Some 12" by (simp add: acceptor_def w)
  have p: "porid (sample_porcb 1) \<noteq> 0" "maxcmsz (sample_porcb 1) = 8" "maxrmsz (sample_porcb 1) = 16" by (simp_all add: sample_porcb_def)
  have tm: "\<not> CHECK_TMOUT 5 < E_OK" by (simp add: CHECK_TMOUT_def consts_defs)
  have K: "kinv_por ?s1" by (rule tk_cal_por_inv) simp_all
  have e: "?s1 = END_CRITICAL_SECTION (met 0 12 2000 4 16 60 ?s)"
    using i a p tm by (simp add: tk_cal_por_def Let_def met_def knl_gen_rdvno_def CHECK_OBJID_def CHECK_PAR_def)
  have K1: "core_inv ?s1" using K by (simp add: kinv_por_def)
  have "12 \<in> set (que ?s (QPorAcp 1))" by simp
  note M = met_result[OF _ _ _ this, of 0 2000 4 16 60]
  have n1: "umem ?s1 910 = 1" using M(5) w by (simp add: e)
  have rw: "rdv_waiting 0 1 ?s1" using M(2) w(2,3) by (simp add: e rdv_waiting_def)
  have "\<not> in_indp ?s" by simp
  then have n: "\<not> CHECK_INTSK ?s1 < E_OK"
    using M(4) w(2) by (simp add: CHECK_INTSK_def in_indp_def e) (simp add: END_CRITICAL_SECTION_def knl_dispatch_def met_context)
  show ?thesis
    using rendezvous_round_trip[of ?s 0 2 1 4 5 12 3 950 910 920 2000 ?s1 60 8 3000 3000 8] i a p tm w(1,2) K1 n n1 rw
    by (simp add: Let_def)
qed

end
