(* ===== verification/Memory.thy ===== *)
theory Memory
  imports Queue_Ring Tstdlib "HOL-Library.Signed_Division"
begin

text \<open>
  The memory allocator of \<^verbatim>\<open>kernel/tkernel/memory.c\<close>, which serves the kernel itself
  (\<^verbatim>\<open>knl_Imalloc\<close>) and, through its queue routines, the variable-size memory pools. The memory is cut
  into areas, each with a header cell; the headers form a ring in order of address (\<^verbatim>\<open>areaque\<close>), whose
  \<^verbatim>\<open>prev\<close> pointers carry in their lowest bit whether the area is in use. A free area has two more cells
  behind its header: with the first it is linked into the ring \<^verbatim>\<open>freeque\<close>, which holds one area of each
  size in order of size; the second holds the size and the list of the other areas of that size. Cells are
  \<open>QUEUE\<close> records in the heap of \<open>Queue_Ring\<close>, eight bytes long; a null pointer is 0. Addresses are natural numbers
  and memory ends below 2147483648, so that no size of an area is negative. A routine that searches a ring returns
  \<open>None\<close> if the search does not end.
\<close>

section \<open>Areas\<close>

text \<open>The management block: the size of the memory, and the addresses of its two queue heads.\<close>

record IMACB =
  memsz :: int
  areaque :: addr
  freeque :: addr

definition MIN_FRAGMENT :: int where [consts_defs]: "MIN_FRAGMENT = 16"

definition ROUND :: "int \<Rightarrow> int" where
  "ROUND sz = sint ((word_of_int sz + 7) AND NOT 7 :: UW)"

definition roundSize :: "int \<Rightarrow> int" where
  "roundSize sz = ROUND (if sz < MIN_FRAGMENT then MIN_FRAGMENT else sz)"

definition Mask :: "addr \<Rightarrow> addr" where
  "Mask x = x - (x AND 1)"

definition Assign_prev :: "addr \<Rightarrow> addr \<Rightarrow> qheap \<Rightarrow> qheap" where
  "Assign_prev q y h = set_prev q ((q_prev (h q) AND 1) OR y) h"

definition setAreaFlag :: "addr \<Rightarrow> qheap \<Rightarrow> qheap" where
  "setAreaFlag q h = set_prev q (q_prev (h q) OR 1) h"

definition clrAreaFlag :: "addr \<Rightarrow> qheap \<Rightarrow> qheap" where
  "clrAreaFlag q h = set_prev q (Mask (q_prev (h q))) h"

definition chkAreaFlag :: "addr \<Rightarrow> qheap \<Rightarrow> bool" where
  "chkAreaFlag q h \<longleftrightarrow> q_prev (h q) AND 1 \<noteq> 0"

definition AreaSize :: "addr \<Rightarrow> qheap \<Rightarrow> int" where
  "AreaSize aq h = int (q_next (h aq)) - int (aq + 8)"

definition FreeSize :: "addr \<Rightarrow> qheap \<Rightarrow> int" where
  "FreeSize fq h = int (q_prev (h (fq + 8)))"

section \<open>The queues of areas\<close>

partial_function (option) search_larger :: "addr \<Rightarrow> int \<Rightarrow> qheap \<Rightarrow> addr \<Rightarrow> int \<Rightarrow> addr option" where
  "search_larger fque blksz h q fsz =
     (let q1 = q_prev (h q)
      in if q1 = fque then Some (if fsz \<ge> blksz then q_next (h q1) else q1)
         else let fsz1 = FreeSize q1 h
              in if fsz1 \<le> blksz then Some (if fsz1 < blksz then q_next (h q1) else q1)
                 else search_larger fque blksz h q1 fsz1)"

partial_function (option) search_smaller :: "addr \<Rightarrow> int \<Rightarrow> qheap \<Rightarrow> addr \<Rightarrow> addr option" where
  "search_smaller fque blksz h q =
     (let q1 = q_next (h q)
      in if q1 = fque \<or> FreeSize q1 h \<ge> blksz then Some q1 else search_smaller fque blksz h q1)"

definition knl_searchFreeArea :: "IMACB \<Rightarrow> int \<Rightarrow> qheap \<Rightarrow> addr option" where
  "knl_searchFreeArea im blksz h =
     (if blksz > memsz im sdiv 4 then search_larger (freeque im) blksz h (freeque im) 0
      else search_smaller (freeque im) blksz h (freeque im))"

definition knl_appendFreeArea :: "IMACB \<Rightarrow> addr \<Rightarrow> qheap \<Rightarrow> qheap option" where
  "knl_appendFreeArea im aq h =
     (let siz = AreaSize aq h
      in case knl_searchFreeArea im siz h of
           None \<Rightarrow> None
         | Some fq \<Rightarrow>
             let h1 = clrAreaFlag aq h
             in Some (if fq \<noteq> freeque im \<and> FreeSize fq h1 = siz then
                        let h2 = set_next (aq + 16) (q_next (h1 (fq + 8))) h1;
                            h3 = set_next (fq + 8) (aq + 16) h2;
                            h4 = set_prev (aq + 16) (fq + 8) h3;
                            h5 = (if q_next (h4 (aq + 16)) \<noteq> 0
                                  then set_prev (q_next (h4 (aq + 16))) (aq + 16) h4 else h4)
                        in set_next (aq + 8) 0 h5
                      else
                        let h2 = QueInsert (aq + 8) fq h1;
                            h3 = set_next (aq + 16) 0 h2
                        in set_prev (aq + 16) (nat siz) h3))"

definition knl_removeFreeQue :: "addr \<Rightarrow> qheap \<Rightarrow> qheap" where
  "knl_removeFreeQue fq h =
     (if q_next (h fq) = 0 then
        let h1 = set_next (q_prev (h (fq + 8))) (q_next (h (fq + 8))) h
        in if q_next (h1 (fq + 8)) \<noteq> 0 then set_prev (q_next (h1 (fq + 8))) (q_prev (h1 (fq + 8))) h1 else h1
      else
        let h1 = (if q_next (h (fq + 8)) \<noteq> 0 then
                    let h0 = QueInsert (q_next (h (fq + 8)) - 8) fq h
                    in set_prev (q_next (h0 (fq + 8))) (q_prev (h0 (fq + 8))) h0
                  else h)
        in QueRemove fq h1)"

definition knl_insertAreaQue :: "addr \<Rightarrow> addr \<Rightarrow> qheap \<Rightarrow> qheap" where
  "knl_insertAreaQue que ent h =
     (let h1 = set_prev ent que h;
          h2 = set_next ent (q_next (h1 que)) h1;
          h3 = Assign_prev (q_next (h2 que)) ent h2
      in set_next que ent h3)"

definition knl_removeAreaQue :: "addr \<Rightarrow> qheap \<Rightarrow> qheap" where
  "knl_removeAreaQue aq h =
     (let h1 = set_next (Mask (q_prev (h aq))) (q_next (h aq)) h
      in Assign_prev (q_next (h1 aq)) (Mask (q_prev (h1 aq))) h1)"

section \<open>Allocation\<close>

text \<open>
  The remainder of the area is compared as an unsigned number, because \<^verbatim>\<open>sizeof\<close> is one; the address of
  the second part is computed in 32 bits.
\<close>

definition split_area :: "IMACB \<Rightarrow> addr \<Rightarrow> int \<Rightarrow> qheap \<Rightarrow> qheap option" where
  "split_area im q siz h =
     (if uint (word_of_int (FreeSize q h - siz) :: UW) \<ge> MIN_FRAGMENT + 8 then
        let aq = q - 8;
            aq2 = unat (word_of_int (int (aq + 8) + siz) :: UW)
        in knl_appendFreeArea im aq2 (knl_insertAreaQue aq aq2 h)
      else Some h)"

definition knl_Imalloc :: "IMACB \<Rightarrow> int \<Rightarrow> qheap \<Rightarrow> (addr \<times> qheap) option" where
  "knl_Imalloc im siz h =
     (if siz \<le> 0 then Some (0, h)
      else
        let sz = (if siz < MIN_FRAGMENT then MIN_FRAGMENT else ROUND siz)
        in case knl_searchFreeArea im sz h of
             None \<Rightarrow> None
           | Some q \<Rightarrow>
               if q = freeque im then Some (0, h)
               else
                 (case split_area im q sz (knl_removeFreeQue q h) of
                    None \<Rightarrow> None
                  | Some h1 \<Rightarrow> Some (q, setAreaFlag (q - 8) h1)))"

text \<open>Merging a free area with the free areas next to it.\<close>

definition merge_next :: "addr \<Rightarrow> qheap \<Rightarrow> qheap" where
  "merge_next aq h =
     (if \<not> chkAreaFlag (q_next (h aq)) h then
        let h1 = knl_removeFreeQue (q_next (h aq) + 8) h
        in knl_removeAreaQue (q_next (h1 aq)) h1
      else h)"

definition merge_prev :: "addr \<Rightarrow> qheap \<Rightarrow> addr \<times> qheap" where
  "merge_prev aq h =
     (if \<not> chkAreaFlag (q_prev (h aq)) h then
        let aq1 = q_prev (h aq);
            h1 = knl_removeFreeQue (aq1 + 8) h
        in (aq1, knl_removeAreaQue (q_next (h1 aq1)) h1)
      else (aq, h))"

definition knl_Ifree :: "IMACB \<Rightarrow> addr \<Rightarrow> qheap \<Rightarrow> qheap option" where
  "knl_Ifree im ptr h =
     (let aq = ptr - 8;
          h1 = clrAreaFlag aq h;
          h2 = merge_next aq h1;
          (aq1, h3) = merge_prev aq h2
      in knl_appendFreeArea im aq1 h3)"

text \<open>
  The bytes that users keep in their areas are a memory \<open>mem\<close> beside that of the queue cells, although both are
  the same memory in the code: what the queue routines write into the cells is not seen in \<open>mem\<close>. That they write
  to no cell of an allocated area is a theorem of \<open>Memory_Properties\<close>; the bytes of headers and free areas
  have no meaning in \<open>mem\<close>.
\<close>

definition knl_Icalloc :: "IMACB \<Rightarrow> int \<Rightarrow> int \<Rightarrow> qheap \<times> mem \<Rightarrow> (addr \<times> qheap \<times> mem) option" where
  "knl_Icalloc im nmemb siz hm =
     (let (h, m) = hm; sz = sint (word_of_int (nmemb * siz) :: UW)
      in case knl_Imalloc im sz h of
           None \<Rightarrow> None
         | Some (p, h1) \<Rightarrow> if p = 0 then Some (0, h1, m) else Some (p, h1, knl_memset p 0 sz m))"

definition knl_Irealloc :: "IMACB \<Rightarrow> addr \<Rightarrow> int \<Rightarrow> qheap \<times> mem \<Rightarrow> (addr \<times> qheap \<times> mem) option" where
  "knl_Irealloc im ptr siz hm =
     (let (h, m) = hm
      in case (if siz \<noteq> 0 then knl_Imalloc im siz h else Some (0, h)) of
           None \<Rightarrow> None
         | Some (newptr, h1) \<Rightarrow>
             if siz \<noteq> 0 \<and> newptr = 0 then Some (0, h1, m)
             else if ptr \<noteq> 0 then
               let m1 = (if newptr \<noteq> 0 then
                           let oldsz = AreaSize (ptr - 8) h1
                           in knl_memcpy newptr ptr (if siz > oldsz then oldsz else siz) m
                         else m)
               in (case knl_Ifree im ptr h1 of None \<Rightarrow> None | Some h2 \<Rightarrow> Some (newptr, h2, m1))
             else Some (newptr, h1, m))"

section \<open>The library calls\<close>

text \<open>The calls of \<^verbatim>\<open>lib/libtk/kmalloc.c\<close> take an unsigned size, which the allocator reads as a signed one.\<close>

definition Kmalloc :: "IMACB \<Rightarrow> UW \<Rightarrow> qheap \<Rightarrow> (addr \<times> qheap) option" where
  "Kmalloc im siz = knl_Imalloc im (sint siz)"

definition Kcalloc :: "IMACB \<Rightarrow> UW \<Rightarrow> UW \<Rightarrow> qheap \<times> mem \<Rightarrow> (addr \<times> qheap \<times> mem) option" where
  "Kcalloc im nmemb siz = knl_Icalloc im (sint nmemb) (sint siz)"

definition Krealloc :: "IMACB \<Rightarrow> addr \<Rightarrow> UW \<Rightarrow> qheap \<times> mem \<Rightarrow> (addr \<times> qheap \<times> mem) option" where
  "Krealloc im ptr siz = knl_Irealloc im ptr (sint siz)"

definition Kfree :: "IMACB \<Rightarrow> addr \<Rightarrow> qheap \<Rightarrow> qheap option" where
  "Kfree im ptr = knl_Ifree im ptr"

section \<open>Initialisation\<close>

definition initIMACB :: "IMACB \<Rightarrow> qheap \<Rightarrow> qheap" where
  "initIMACB im h = QueInit (freeque im) (QueInit (areaque im) h)"

definition knl_init_Imalloc :: "addr \<Rightarrow> addr \<Rightarrow> qheap \<Rightarrow> (ER \<times> IMACB \<times> addr \<times> qheap) option" where
  "knl_init_Imalloc lowmem_top lowmem_limit h =
     (let imacb = (lowmem_top + 3) div 4 * 4;
          top = (imacb + 20 + 7) div 8 * 8;
          im = \<lparr>memsz = sint (word_of_int (int lowmem_limit - int top - 16) :: UW), areaque = imacb + 4, freeque = imacb + 12\<rparr>;
          h1 = initIMACB im h;
          end' = nat (int top + memsz im) + 8;
          h2 = knl_insertAreaQue (areaque im) end' h1;
          h3 = knl_insertAreaQue (areaque im) top h2;
          h4 = setAreaFlag end' h3;
          h5 = setAreaFlag (areaque im) h4
      in case knl_appendFreeArea im top h5 of
           None \<Rightarrow> None
         | Some h6 \<Rightarrow> Some (E_OK, im, lowmem_limit, h6))"

end
