(* ===== verification/Memory_Areas.thy ===== *)
theory Memory_Areas
  imports Memory
begin

text \<open>
  What the two queues of the allocator hold. \<open>al h xs\<close>: the headers \<open>xs\<close> are linked in order, whatever
  their flags. \<open>free_que h f gs\<close>: the ring at \<open>f\<close> holds the groups \<open>gs\<close> of free areas, one group per
  size, in order of size. The queue routines of \<^verbatim>\<open>memory.c\<close> change these lists as their names say.
\<close>

section \<open>Pointers with a flag\<close>

lemma Mask_eq: "Mask x = x - x mod 2" by (simp add: Mask_def and_one_eq)

lemma Mask_even [simp]: "even x \<Longrightarrow> Mask x = x" "even (Mask x)"
  by (auto simp: Mask_eq minus_mod_eq_mult_div)

lemma flag_or [simp]: "even y \<Longrightarrow> Mask (x mod 2 OR y) = y" "even y \<Longrightarrow> even (x mod 2 OR y) \<longleftrightarrow> even x" for x y :: nat
proof -
  assume y: "even y"
  have "x mod 2 OR y = (if odd x then Suc y else y)" using y by (simp add: mod_2_eq_odd Suc_0_or_eq)
  then show "Mask (x mod 2 OR y) = y" "even (x mod 2 OR y) \<longleftrightarrow> even x" using y by (simp_all add: Mask_eq mod_2_eq_odd)
qed

lemma flag_set [simp]: "Mask (x OR Suc 0) = Mask x" "odd (x OR Suc 0)" for x :: nat
proof -
  have "x OR Suc 0 = x + of_bool (even x)" by (rule or_Suc_0_eq)
  then show "Mask (x OR Suc 0) = Mask x" "odd (x OR Suc 0)" by (cases "even x"; simp add: Mask_eq mod_2_eq_odd)+
qed

lemma chkAreaFlag_odd: "chkAreaFlag q h \<longleftrightarrow> odd (q_prev (h q))"
  by (simp add: chkAreaFlag_def and_one_eq odd_iff_mod_2_eq_one)

lemma cell_upd [simp]:
  "q_next (set_next a v h b) = (if b = a then v else q_next (h b))" "q_prev (set_next a v h b) = q_prev (h b)"
  "q_prev (set_prev a v h b) = (if b = a then v else q_prev (h b))" "q_next (set_prev a v h b) = q_next (h b)"
  by (simp_all add: set_next_def set_prev_def)

lemma cell_other:
  "b \<noteq> a \<Longrightarrow> set_next a v h b = h b" "b \<noteq> a \<Longrightarrow> set_prev a v h b = h b"
  by (simp_all add: set_next_def set_prev_def)

section \<open>The ring of areas\<close>

fun al :: "qheap \<Rightarrow> addr list \<Rightarrow> bool" where
  "al h (a # b # xs) \<longleftrightarrow> q_next (h a) = b \<and> Mask (q_prev (h b)) = a \<and> al h (b # xs)"
| "al h _ \<longleftrightarrow> True"

lemma al_append: "al h (xs @ a # ys) \<longleftrightarrow> al h (xs @ [a]) \<and> al h (a # ys)"
proof (induction xs)
  case (Cons x xs)
  then show ?case by (cases xs) auto
qed simp

lemma al_cong:
  assumes "\<And>a. a \<in> set (butlast xs) \<Longrightarrow> q_next (h' a) = q_next (h a)"
    "\<And>a. a \<in> set (tl xs) \<Longrightarrow> Mask (q_prev (h' a)) = Mask (q_prev (h a))"
  shows "al h' xs = al h xs"
  using assms by (induction h xs rule: al.induct) auto

lemma al_frame: "(\<And>a. a \<in> set xs \<Longrightarrow> h' a = h a) \<Longrightarrow> al h' xs = al h xs"
  by (rule al_cong) (metis in_set_butlastD, metis list.set_sel(2) tl_Nil)

text \<open>Which cells an insertion into the ring of areas and a removal from it write.\<close>

lemma insertAreaQue_cells:
  fixes h :: qheap and a :: addr
  assumes "ent \<noteq> que" "q_next (h que) \<noteq> ent" "even ent"
  defines "n \<equiv> q_next (h que)" and "r \<equiv> knl_insertAreaQue que ent h"
  shows "q_next (r a) = (if a = que then ent else if a = ent then n else q_next (h a))"
    "Mask (q_prev (r a)) = (if a = n then ent else if a = ent then Mask que else Mask (q_prev (h a)))"
    "odd (q_prev (r a)) = (if a = ent then odd que else odd (q_prev (h a)))"
    "a \<notin> {que, ent, n} \<Longrightarrow> r a = h a"
proof -
  have e: "r = set_next que ent (Assign_prev n ent (set_next ent n (set_prev ent que h)))"
    using assms by (simp add: r_def knl_insertAreaQue_def Let_def n_def)
  show "q_next (r a) = (if a = que then ent else if a = ent then n else q_next (h a))"
    unfolding e by (simp add: Assign_prev_def)
  show "Mask (q_prev (r a)) = (if a = n then ent else if a = ent then Mask que else Mask (q_prev (h a)))"
    unfolding e using assms(2,3) by (simp add: Assign_prev_def n_def)
  show "odd (q_prev (r a)) = (if a = ent then odd que else odd (q_prev (h a)))"
    unfolding e using assms(2,3) by (auto simp add: Assign_prev_def n_def)
  show "a \<notin> {que, ent, n} \<Longrightarrow> r a = h a" unfolding e by (simp add: Assign_prev_def cell_other)
qed

lemma removeAreaQue_cells:
  assumes "q_next (h aq) \<noteq> aq" "Mask (q_prev (h aq)) \<noteq> aq"
  defines "n \<equiv> q_next (h aq)" and "p \<equiv> Mask (q_prev (h aq))" and "r \<equiv> knl_removeAreaQue aq h"
  shows "q_next (r a) = (if a = p then n else q_next (h a))"
    "Mask (q_prev (r a)) = (if a = n then p else Mask (q_prev (h a)))"
    "odd (q_prev (r a)) = odd (q_prev (h a))"
    "a \<notin> {p, n} \<Longrightarrow> r a = h a"
proof -
  have e: "r = Assign_prev n p (set_next p n h)"
    using assms by (simp add: r_def knl_removeAreaQue_def Let_def n_def p_def)
  have p: "even p" by (simp add: p_def)
  show "q_next (r a) = (if a = p then n else q_next (h a))" unfolding e by (simp add: Assign_prev_def)
  show "Mask (q_prev (r a)) = (if a = n then p else Mask (q_prev (h a)))" unfolding e using p by (simp add: Assign_prev_def)
  show "odd (q_prev (r a)) = odd (q_prev (h a))" unfolding e using p by (auto simp add: Assign_prev_def)
  show "a \<notin> {p, n} \<Longrightarrow> r a = h a" unfolding e by (simp add: Assign_prev_def cell_other)
qed

lemma al_insert:
  assumes al: "al h (xs @ que # y # ys)" and d: "distinct (xs @ que # y # ys)" "ent \<notin> set (xs @ que # y # ys)"
    and ev: "even ent" "even que"
  shows "al (knl_insertAreaQue que ent h) (xs @ que # ent # y # ys)"
proof -
  have n: "q_next (h que) = y" using al al_append[of h xs que "y # ys"] by simp
  have ne: "ent \<noteq> que" "q_next (h que) \<noteq> ent" using d n by auto
  note C = insertAreaQue_cells[where que = que and h = h, OF ne ev(1), unfolded n]
  let ?r = "knl_insertAreaQue que ent h"
  have "al ?r (xs @ [que]) = al h (xs @ [que])"
  proof (rule al_cong)
    show "q_next (?r a) = q_next (h a)" if "a \<in> set (butlast (xs @ [que]))" for a
      using that d C(1)[of a] by (auto simp: butlast_append split: if_splits)
    show "Mask (q_prev (?r a)) = Mask (q_prev (h a))" if "a \<in> set (tl (xs @ [que]))" for a
    proof -
      have "a \<in> set (xs @ [que])" using that by (cases xs) auto
      then have "a \<noteq> y" "a \<noteq> ent" using d by auto
      then show ?thesis using C(2)[of a] by simp
    qed
  qed
  moreover have "al ?r (y # ys) = al h (y # ys)"
  proof (rule al_cong)
    show "q_next (?r a) = q_next (h a)" if "a \<in> set (butlast (y # ys))" for a
      using in_set_butlastD[OF that] d C(1)[of a] by auto
    show "Mask (q_prev (?r a)) = Mask (q_prev (h a))" if "a \<in> set (tl (y # ys))" for a
      using that d C(2)[of a] by auto
  qed
  moreover have "al h (xs @ [que])" "al h (y # ys)" using al al_append[of h xs que "y # ys"] by simp_all
  moreover have "y \<noteq> ent" "y \<noteq> que" using d by auto
  ultimately show ?thesis using C(1)[of que] C(1)[of ent] C(2)[of ent] C(2)[of y] ne ev
    unfolding al_append[of _ xs que "ent # y # ys"] by simp
qed

lemma al_remove:
  assumes al: "al h (xs @ p # aq # n # ys)" and d: "distinct (xs @ p # aq # n # ys)"
  shows "al (knl_removeAreaQue aq h) (xs @ p # n # ys)"
proof -
  have L: "q_next (h aq) = n" "Mask (q_prev (h aq)) = p" "al h (xs @ [p])" "al h (n # ys)"
    using al al_append[of h xs p "aq # n # ys"] by simp_all
  have "n \<noteq> aq" "p \<noteq> aq" using d by auto
  then have C: "q_next (knl_removeAreaQue aq h a) = (if a = p then n else q_next (h a))"
    "Mask (q_prev (knl_removeAreaQue aq h a)) = (if a = n then p else Mask (q_prev (h a)))" for a
    using removeAreaQue_cells[of h aq] L by auto
  let ?r = "knl_removeAreaQue aq h"
  have "al ?r (xs @ [p]) = al h (xs @ [p])"
  proof (rule al_cong)
    show "q_next (?r a) = q_next (h a)" if "a \<in> set (butlast (xs @ [p]))" for a using that d C(1)[of a] by auto
    show "Mask (q_prev (?r a)) = Mask (q_prev (h a))" if "a \<in> set (tl (xs @ [p]))" for a
    proof -
      have "a \<in> set (xs @ [p])" using that by (cases xs) auto
      then show ?thesis using d C(2)[of a] by auto
    qed
  qed
  moreover have "al ?r (n # ys) = al h (n # ys)"
  proof (rule al_cong)
    show "q_next (?r a) = q_next (h a)" if "a \<in> set (butlast (n # ys))" for a
      using in_set_butlastD[OF that] d C(1)[of a] by auto
    show "Mask (q_prev (?r a)) = Mask (q_prev (h a))" if "a \<in> set (tl (n # ys))" for a using that d C(2)[of a] by auto
  qed
  ultimately show ?thesis using L C unfolding al_append[of _ xs p "n # ys"] by simp
qed

section \<open>The queue of free areas\<close>

text \<open>The list of areas of one size behind the cell \<open>p\<close> of the first of them.\<close>

fun chain :: "qheap \<Rightarrow> addr \<Rightarrow> addr list \<Rightarrow> bool" where
  "chain h p [] \<longleftrightarrow> q_next (h p) = 0"
| "chain h p (x # xs) \<longleftrightarrow> q_next (h p) = x + 16 \<and> q_prev (h (x + 16)) = p \<and> q_next (h (x + 8)) = 0 \<and> chain h (x + 16) xs"

text \<open>A group: a size and the areas of this size, the one in the ring first.\<close>

type_synonym group = "nat \<times> addr list"

fun group_ok :: "qheap \<Rightarrow> group \<Rightarrow> bool" where
  "group_ok h (z, []) \<longleftrightarrow> False"
| "group_ok h (z, f # fs) \<longleftrightarrow> q_prev (h (f + 16)) = z \<and> chain h (f + 16) fs"

definition head :: "group \<Rightarrow> addr" where
  "head g = hd (snd g) + 8"

definition members :: "group list \<Rightarrow> addr list" where
  "members gs = concat (map snd gs)"

definition cells :: "addr set \<Rightarrow> addr set" where
  "cells A = (\<lambda>a. a + 8) ` A \<union> (\<lambda>a. a + 16) ` A"

definition spaced :: "addr set \<Rightarrow> bool" where
  "spaced A \<longleftrightarrow> (\<forall>a\<in>A. \<forall>b\<in>A. a \<noteq> b \<longrightarrow> a + 24 \<le> b \<or> b + 24 \<le> a)"

definition free_que :: "qheap \<Rightarrow> addr \<Rightarrow> group list \<Rightarrow> bool" where
  "free_que h fq gs \<longleftrightarrow> ring h fq (map head gs) \<and> (\<forall>g\<in>set gs. group_ok h g) \<and> sorted_wrt (<) (map fst gs) \<and>
     distinct (members gs) \<and> spaced (set (members gs)) \<and> fq \<notin> cells (set (members gs)) \<and> fq \<noteq> 0"

lemma members_simps [simp]: "members [] = []" "members (g # gs) = snd g @ members gs" "members (xs @ ys) = members xs @ members ys"
  by (simp_all add: members_def)

lemma chain_frame:
  "(\<And>a. a \<in> insert p (cells (set xs)) \<Longrightarrow> h' a = h a) \<Longrightarrow> chain h' p xs = chain h p xs"
proof (induction xs arbitrary: p)
  case (Cons x xs)
  have "chain h' (x + 16) xs = chain h (x + 16) xs" by (rule Cons.IH) (use Cons.prems in \<open>auto simp: cells_def\<close>)
  then show ?case using Cons.prems by (simp add: cells_def)
qed simp

lemma group_frame:
  assumes "\<And>a. a \<in> cells (set (snd g)) \<Longrightarrow> h' a = h a" shows "group_ok h' g = group_ok h g"
proof (cases g)
  case (Pair z xs)
  show ?thesis
  proof (cases xs)
    case (Cons f fs)
    have "chain h' (f + 16) fs = chain h (f + 16) fs" by (rule chain_frame) (use assms Pair Cons in \<open>auto simp: cells_def\<close>)
    then show ?thesis using assms Pair Cons by (simp add: cells_def)
  qed (simp add: Pair)
qed

lemma group_hd: "group_ok h g \<Longrightarrow> hd (snd g) \<in> set (snd g)"
  by (cases g; cases "snd g") auto

lemma head_cell: "group_ok h g \<Longrightarrow> g \<in> set gs \<Longrightarrow> head g \<in> cells (set (members gs))"
  using group_hd[of h g] by (auto simp: head_def members_def cells_def)

lemma free_que_frame:
  assumes "free_que h fq gs" "\<And>a. a \<in> insert fq (cells (set (members gs))) \<Longrightarrow> h' a = h a"
  shows "free_que h' fq gs"
proof -
  have "ring h' fq (map head gs) = ring h fq (map head gs)"
    by (rule ring_frame) (use assms head_cell in \<open>auto simp: free_que_def\<close>)
  moreover have "group_ok h' g = group_ok h g" if "g \<in> set gs" for g
    by (rule group_frame) (use assms(2) that in \<open>auto simp: cells_def members_def\<close>)
  ultimately show ?thesis using assms(1) by (simp add: free_que_def)
qed

lemma FreeSize_head: "group_ok h g \<Longrightarrow> FreeSize (head g) h = int (fst g)"
  by (cases g; cases "snd g") (auto simp: FreeSize_def head_def add.assoc)

subsection \<open>The search\<close>

text \<open>The head of the first group of at least the given size, or the queue head.\<close>

definition best_fit :: "addr \<Rightarrow> group list \<Rightarrow> int \<Rightarrow> addr" where
  "best_fit fq gs z = (case dropWhile (\<lambda>g. int (fst g) < z) gs of [] \<Rightarrow> fq | g # _ \<Rightarrow> head g)"

lemma ring_links:
  assumes "ring h fq (xs @ ys)"
  shows "q_next (h (last (fq # xs))) = hd (ys @ [fq])" "q_prev (h (hd (ys @ [fq]))) = last (fq # xs)"
proof -
  have l: "links h ((fq # xs) @ ys @ [fq])" using assms by (simp add: ring_def cycle_def)
  obtain as a where a: "fq # xs = as @ [a]" by (metis append_butlast_last_id list.discI)
  obtain b bs where b: "ys @ [fq] = b # bs" by (metis append_is_Nil_conv list.discI neq_Nil_conv)
  have "links h (as @ a # b # bs)" using l a b by (metis append.assoc append_Cons append_Nil)
  then have "links h (a # b # bs)" using links_append[of h as a "b # bs"] by simp
  then show "q_next (h (last (fq # xs))) = hd (ys @ [fq])" "q_prev (h (hd (ys @ [fq]))) = last (fq # xs)" using a b by simp_all
qed

lemma search_smaller_fit:
  assumes "free_que h fq (as @ bs)" "\<And>g. g \<in> set as \<Longrightarrow> int (fst g) < z"
  shows "search_smaller fq z h (last (fq # map head as)) = Some (best_fit fq (as @ bs) z)"
  using assms
proof (induction bs arbitrary: as)
  case Nil
  have r: "ring h fq (map head as @ [])" using Nil.prems(1) by (simp add: free_que_def)
  have "dropWhile (\<lambda>g. int (fst g) < z) as = []" using Nil.prems(2) by auto
  then show ?case using ring_links(1)[OF r] by (subst search_smaller.simps) (simp add: best_fit_def del: dropWhile_eq_Nil_conv)
next
  case (Cons b bs)
  have r: "ring h fq (map head as @ head b # map head bs)" using Cons.prems(1) by (simp add: free_que_def)
  have n: "q_next (h (last (fq # map head as))) = head b" using ring_links(1)[OF r] by simp
  have ne: "head b \<noteq> fq" using r by (auto simp: ring_def cycle_def)
  have s: "FreeSize (head b) h = int (fst b)" by (rule FreeSize_head) (use Cons.prems(1) in \<open>simp add: free_que_def\<close>)
  have d: "dropWhile (\<lambda>g. int (fst g) < z) (as @ b # bs) = dropWhile (\<lambda>g. int (fst g) < z) (b # bs)"
    using Cons.prems(2) by (simp add: dropWhile_append3 dropWhile_append2)
  show ?case
  proof (cases "int (fst b) < z")
    case True
    have "search_smaller fq z h (last (fq # map head (as @ [b]))) = Some (best_fit fq ((as @ [b]) @ bs) z)"
      by (rule Cons.IH) (use Cons.prems True in auto)
    then show ?thesis using n ne s True by (subst search_smaller.simps) (simp add: Let_def)
  next
    case False
    then show ?thesis using n ne s d by (subst search_smaller.simps) (simp add: best_fit_def)
  qed
qed

lemma search_larger_fit:
  assumes "free_que h fq (as @ bs)" "\<And>g. g \<in> set bs \<Longrightarrow> z < int (fst g)" "fsz = (case bs of [] \<Rightarrow> 0 | g # _ \<Rightarrow> int (fst g))"
  shows "search_larger fq z h (hd (map head bs @ [fq])) fsz = Some (best_fit fq (as @ bs) z)"
  using assms
proof (induction as arbitrary: bs fsz rule: rev_induct)
  case Nil
  have r: "ring h fq ([] @ map head bs)" using Nil.prems(1) by (simp add: free_que_def)
  have p: "q_prev (h (hd (map head bs @ [fq]))) = fq" "q_next (h fq) = hd (map head bs @ [fq])" using ring_links[OF r] by simp_all
  show ?case
  proof (cases bs)
    case (Cons g gs)
    then have "z < fsz" "\<not> int (fst g) < z" using Nil.prems(2)[of g] Nil.prems(3) by auto
    then show ?thesis using p Cons by (subst search_larger.simps) (simp add: best_fit_def)
  qed (use p in \<open>subst search_larger.simps, simp add: best_fit_def\<close>)
next
  case (snoc a as)
  have r: "ring h fq (map head (as @ [a]) @ map head bs)" using snoc.prems(1) by (simp add: free_que_def)
  have p: "q_prev (h (hd (map head bs @ [fq]))) = head a" "q_next (h (head a)) = hd (map head bs @ [fq])" using ring_links[OF r] by simp_all
  have ne: "head a \<noteq> fq" using r by (auto simp: ring_def cycle_def)
  have s: "FreeSize (head a) h = int (fst a)" by (rule FreeSize_head) (use snoc.prems(1) in \<open>simp add: free_que_def\<close>)
  have srt: "\<And>g. g \<in> set as \<Longrightarrow> fst g < fst a" using snoc.prems(1) by (auto simp: free_que_def sorted_wrt_append)
  show ?case
  proof (cases "int (fst a) \<le> z")
    case True
    have "dropWhile (\<lambda>g. int (fst g) < z) (as @ a # bs) = dropWhile (\<lambda>g. int (fst g) < z) (a # bs)"
      using srt True by (intro dropWhile_append2) force
    moreover have "dropWhile (\<lambda>g. int (fst g) < z) bs = bs" using snoc.prems(2) by (cases bs) force+
    ultimately have "best_fit fq (as @ a # bs) z = (if int (fst a) < z then hd (map head bs @ [fq]) else head a)"
      by (cases bs) (simp_all add: best_fit_def)
    then show ?thesis using p ne s True by (subst search_larger.simps) simp
  next
    case False
    have "search_larger fq z h (hd (map head (a # bs) @ [fq])) (int (fst a)) = Some (best_fit fq (as @ (a # bs)) z)"
      by (rule snoc.IH) (use snoc.prems False in auto)
    then show ?thesis using p ne s False by (subst search_larger.simps) (simp add: Let_def)
  qed
qed

text \<open>Both directions of the search find the same area.\<close>

lemma searchFreeArea_fit:
  assumes "free_que h (freeque im) gs"
  shows "knl_searchFreeArea im z h = Some (best_fit (freeque im) gs z)"
  using search_smaller_fit[of h "freeque im" "[]" gs z] search_larger_fit[of h "freeque im" gs "[]" z 0] assms
  by (simp add: knl_searchFreeArea_def)

subsection \<open>Which cells belong to the ring and which to the groups\<close>

definition group_cells :: "group \<Rightarrow> addr set" where
  "group_cells g = insert (hd (snd g) + 16) (cells (set (tl (snd g))))"

lemma group_frame_cells:
  assumes "\<And>a. a \<in> group_cells g \<Longrightarrow> h' a = h a" shows "group_ok h' g = group_ok h g"
proof (cases g)
  case (Pair z xs)
  show ?thesis
  proof (cases xs)
    case (Cons f fs)
    have "chain h' (f + 16) fs = chain h (f + 16) fs" by (rule chain_frame) (use assms Pair Cons in \<open>auto simp: group_cells_def\<close>)
    then show ?thesis using assms Pair Cons by (simp add: group_cells_def)
  qed (simp add: Pair)
qed

lemma spacedD: "spaced A \<Longrightarrow> a \<in> A \<Longrightarrow> b \<in> A \<Longrightarrow> a \<noteq> b \<Longrightarrow> a + 24 \<le> b \<or> b + 24 \<le> a"
  by (auto simp: spaced_def)

lemma spaced_cells:
  assumes "spaced A" "a \<in> A" "b \<in> A"
  shows "a + 8 \<noteq> b + 16" "a \<noteq> b + 8" "a \<noteq> b + 16" "a + 8 = b + 8 \<longleftrightarrow> a = b" "a + 16 = b + 16 \<longleftrightarrow> a = b"
  using spacedD[OF assms] by (cases "a = b"; force)+

lemma free_queD:
  assumes "free_que h fq gs"
  shows "ring h fq (map head gs)" "g \<in> set gs \<Longrightarrow> group_ok h g" "sorted_wrt (<) (map fst gs)" "distinct (members gs)"
    "spaced (set (members gs))" "fq \<notin> cells (set (members gs))" "fq \<noteq> 0"
  using assms by (simp_all add: free_que_def)

lemma group_members: "g \<in> set gs \<Longrightarrow> set (snd g) \<subseteq> set (members gs)"
  by (auto simp: members_def)

lemma ring_nodes:
  assumes "free_que h fq gs" shows "set (fq # map head gs) \<subseteq> insert fq (cells (set (members gs)))"
proof -
  have "head g \<in> cells (set (members gs))" if "g \<in> set gs" for g by (rule head_cell[OF free_queD(2)[OF assms that] that])
  then show ?thesis by (simp add: image_subset_iff subset_insertI2)
qed

text \<open>The node of one group is not a cell of a group.\<close>

lemma tail_not_head:
  assumes F: "free_que h fq gs" and g: "g \<in> set gs" "g' \<in> set gs" and x: "x \<in> set (tl (snd g))"
  shows "x \<noteq> hd (snd g')"
proof -
  obtain as bs where gs: "gs = as @ g # bs" using g(1) by (meson split_list)
  have d: "distinct (members gs)" by (rule free_queD(4)[OF F])
  have ne: "snd g \<noteq> []" "hd (snd g') \<in> set (snd g')" using group_hd[OF free_queD(2)[OF F g(1)]] group_hd[OF free_queD(2)[OF F g(2)]] by fastforce+
  show ?thesis
  proof (cases "g' = g")
    case True
    have "distinct (snd g)" using d gs by simp
    then show ?thesis using True x ne(1) by (cases "snd g") auto
  next
    case False
    then have "g' \<in> set as \<union> set bs" using g(2) gs by auto
    then have "hd (snd g') \<in> set (members as) \<union> set (members bs)" using ne(2) by (auto simp: members_def)
    moreover have "x \<in> set (snd g)" using x ne(1) by (cases "snd g") auto
    ultimately show ?thesis using d gs by auto
  qed
qed

lemma ring_group_disjoint:
  assumes F: "free_que h fq gs" and g: "g \<in> set gs" and c: "c \<in> group_cells g" shows "c \<notin> set (fq # map head gs)"
proof -
  note sp = free_queD(5)[OF F]
  have ne: "snd g \<noteq> []" using free_queD(2)[OF F g] by (cases g; cases "snd g") auto
  have hg: "hd (snd g) \<in> set (members gs)" using group_hd[OF free_queD(2)[OF F g]] group_members[OF g] by auto
  have tg: "x \<in> set (members gs)" if "x \<in> set (tl (snd g))" for x using that group_members[OF g] ne by (cases "snd g") auto
  have "c \<noteq> head g'" if g': "g' \<in> set gs" for g'
  proof -
    have h': "hd (snd g') \<in> set (members gs)" using group_hd[OF free_queD(2)[OF F g']] group_members[OF g'] by auto
    consider "c = hd (snd g) + 16" | x where "x \<in> set (tl (snd g))" "c = x + 8" | x where "x \<in> set (tl (snd g))" "c = x + 16"
      using c by (auto simp: group_cells_def cells_def)
    then show ?thesis
    proof cases
      case 1
      then show ?thesis using spaced_cells(1)[OF sp h' hg] by (simp add: head_def)
    next
      case 2
      then show ?thesis using tail_not_head[OF F g g' 2(1)] by (simp add: head_def)
    next
      case 3
      then show ?thesis using spaced_cells(1)[OF sp h' tg[OF 3(1)]] by (simp add: head_def)
    qed
  qed
  moreover have "c \<noteq> fq" using c free_queD(6)[OF F] hg tg by (auto simp: group_cells_def cells_def)
  ultimately show ?thesis by auto
qed

text \<open>Cells that the insertion into a ring and the removal from it leave alone.\<close>

lemma ring_neighbours:
  assumes r: "ring h fq xs" and q: "q \<in> set (fq # xs)" shows "q_prev (h q) \<in> set (fq # xs)" "q_next (h q) \<in> set (fq # xs)"
proof -
  obtain ys zs where s: "fq # xs = ys @ q # zs" using q by (meson split_list)
  have "cycle h ((q # zs) @ ys)" using r cycle_rotate[of h ys "q # zs"] by (simp add: ring_def s)
  then have rq: "ring h q (zs @ ys)" by (simp add: ring_def)
  have "set (q # zs @ ys) = set (fq # xs)" unfolding s by auto
  moreover have "q_next (h q) \<in> set (q # zs @ ys)" using ring_links(1)[of h q "[]" "zs @ ys"] rq by (cases "zs @ ys") auto
  ultimately show "q_prev (h q) \<in> set (fq # xs)" "q_next (h q) \<in> set (fq # xs)" using ring_prev_in[OF rq] by simp_all
qed

lemma QueInsert_other:
  assumes "ring h fq xs" "q \<in> set (fq # xs)" "c \<notin> insert e (set (fq # xs))" "e \<notin> set (fq # xs)"
  shows "QueInsert e q h c = h c"
proof -
  have "c \<noteq> e" "c \<noteq> q" "c \<noteq> q_prev (h q)" "e \<noteq> q" using assms ring_neighbours(1)[OF assms(1,2)] by auto
  then show ?thesis by (simp add: QueInsert_unfold cell_other)
qed

lemma QueRemove_other:
  assumes "ring h fq xs" "e \<in> set xs" "c \<notin> set (fq # xs)" shows "QueRemove e h c = h c"
proof -
  have "c \<noteq> q_next (h e)" "c \<noteq> q_prev (h e)" using assms(2,3) ring_neighbours[OF assms(1), of e] by auto
  moreover have "q_next (h e) \<noteq> e \<Longrightarrow> q_next (set_next (q_prev (h e)) (q_next (h e)) h e) = q_next (h e)" by auto
  ultimately show ?thesis by (simp add: QueRemove_def Let_def cell_other)
qed

end
