(* ===== verification/Memory_Free.thy ===== *)
theory Memory_Free
  imports Memory_Areas
begin

text \<open>
  Registering a free area and deleting one: \<^verbatim>\<open>knl_appendFreeArea\<close> adds an area to the groups of
  the free queue, \<^verbatim>\<open>knl_removeFreeQue\<close> takes one out, and both leave the cells of all other areas
  alone. \<open>free_set gs\<close> is the set of free areas with their sizes.
\<close>

definition free_set :: "group list \<Rightarrow> (addr \<times> nat) set" where
  "free_set gs = {(a, z). \<exists>xs. (z, xs) \<in> set gs \<and> a \<in> set xs}"

lemma free_set_simps [simp]: "free_set [] = {}" "free_set (gs @ gs2) = free_set gs \<union> free_set gs2"
  "free_set ((z, xs) # gs) = (\<lambda>a. (a, z)) ` set xs \<union> free_set gs"
  by (auto simp: free_set_def)

lemma fst_free_set: "fst ` free_set gs = set (members gs)"
  by (induction gs) force+

section \<open>Adding an area\<close>

definition fresh :: "addr \<Rightarrow> addr \<Rightarrow> group list \<Rightarrow> bool" where
  "fresh a fq gs \<longleftrightarrow> a \<notin> set (members gs) \<and> spaced (insert a (set (members gs))) \<and> fq \<noteq> a + 8 \<and> fq \<noteq> a + 16"

lemma fresh_cells:
  assumes "free_que h fq gs" "fresh a fq gs"
  shows "a + 8 \<notin> insert fq (cells (set (members gs)))" "a + 16 \<notin> insert fq (cells (set (members gs)))"
proof -
  have "a + 8 \<noteq> b + 8 \<and> a + 8 \<noteq> b + 16 \<and> a + 16 \<noteq> b + 8 \<and> a + 16 \<noteq> b + 16" if "b \<in> set (members gs)" for b
  proof -
    have s: "spaced (insert a (set (members gs)))" "a \<noteq> b" using assms(2) that by (auto simp: fresh_def)
    show ?thesis using spacedD[OF s(1), of a b] that s(2) by auto
  qed
  then show "a + 8 \<notin> insert fq (cells (set (members gs)))" "a + 16 \<notin> insert fq (cells (set (members gs)))"
    using assms(2) by (auto simp: fresh_def cells_def)
qed

lemma group_cells_members:
  assumes "free_que h fq gs" "g \<in> set gs" shows "group_cells g \<subseteq> cells (set (members gs))"
proof -
  have "hd (snd g) \<in> set (snd g)" by (rule group_hd[OF free_queD(2)[OF assms]])
  then have "insert (hd (snd g)) (set (tl (snd g))) \<subseteq> set (snd g)" by (cases "snd g") auto
  then show ?thesis using group_members[OF assms(2)] by (auto simp: group_cells_def cells_def)
qed

text \<open>A new size gets a group of its own, before the next larger one.\<close>

lemma append_new:
  assumes F: "free_que h fq (as @ bs)" and fr: "fresh a fq (as @ bs)"
    and z: "\<And>g. g \<in> set as \<Longrightarrow> fst g < z" "\<And>g. g \<in> set bs \<Longrightarrow> z < fst g"
  defines "r \<equiv> set_prev (a + 16) z (set_next (a + 16) 0 (QueInsert (a + 8) (hd (map head bs @ [fq])) h))"
  shows "free_que r fq (as @ (z, [a]) # bs)" "c \<notin> insert fq (cells (insert a (set (members (as @ bs))))) \<Longrightarrow> r c = h c"
proof -
  let ?gs = "as @ bs" and ?q = "hd (map head bs @ [fq])" let ?h = "QueInsert (a + 8) ?q h"
  have rg: "ring h fq (map head as @ map head bs)" using free_queD(1)[OF F] by simp
  have q: "?q \<in> set (fq # map head ?gs)" by (cases bs) auto
  note N = ring_nodes[OF F] and FC = fresh_cells[OF F fr]
  have e: "a + 8 \<notin> set (fq # map head ?gs)" "a + 16 \<notin> set (fq # map head ?gs)" using N FC by blast+
  have r1: "ring ?h fq (map head as @ (a + 8) # map head bs)"
  proof (cases bs)
    case Nil
    then show ?thesis using ring_insert[of h fq "map head as" "a + 8"] rg e(1) by simp
  next
    case (Cons b bs')
    have "ring (QueInsert (a + 8) (head b) h) fq (map head as @ (a + 8) # head b # map head bs')"
      by (rule ring_insert_before) (use rg e(1) Cons in auto)
    then show ?thesis using Cons by simp
  qed
  have old: "r c = h c" if "c \<notin> insert (a + 8) (insert (a + 16) (set (fq # map head ?gs)))" for c
    using that QueInsert_other[OF free_queD(1)[OF F] q _ e(1), of c] by (simp add: r_def cell_other)
  have "ring r fq (map head as @ (a + 8) # map head bs) = ring ?h fq (map head as @ (a + 8) # map head bs)"
  proof (rule ring_frame)
    fix c assume "c \<in> set (fq # map head as @ (a + 8) # map head bs)"
    then have "c \<noteq> a + 16" using e(2) by auto
    then show "r c = ?h c" by (simp add: r_def cell_other)
  qed
  then have ring: "ring r fq (map head (as @ (z, [a]) # bs))" using r1 by (simp add: head_def)
  have grp: "group_ok r g" if "g \<in> set ?gs" for g
  proof -
    have "r c = h c" if "c \<in> group_cells g" for c
    proof (rule old)
      have "c \<in> cells (set (members ?gs))" using group_cells_members[OF F \<open>g \<in> set ?gs\<close>] that by blast
      then show "c \<notin> insert (a + 8) (insert (a + 16) (set (fq # map head ?gs)))"
        using ring_group_disjoint[OF F \<open>g \<in> set ?gs\<close> that] FC by auto
    qed
    then show ?thesis using group_frame_cells[of g r h] free_queD(2)[OF F that] by blast
  qed
  have "group_ok r (z, [a])" by (simp add: r_def)
  then have "\<forall>g\<in>set (as @ (z, [a]) # bs). group_ok r g" using grp by auto
  moreover have "sorted_wrt (<) (map fst (as @ (z, [a]) # bs))"
    using free_queD(3)[OF F] z by (auto simp: sorted_wrt_append) 
  moreover have "distinct (members (as @ (z, [a]) # bs))" using free_queD(4)[OF F] fr by (auto simp: fresh_def)
  moreover have "set (members (as @ (z, [a]) # bs)) = insert a (set (members ?gs))" by auto
  moreover have "fq \<notin> cells (insert a (set (members ?gs)))" using free_queD(6)[OF F] fr by (auto simp: fresh_def cells_def)
  ultimately show "free_que r fq (as @ (z, [a]) # bs)"
    unfolding free_que_def using ring free_queD(7)[OF F] fr by (simp add: fresh_def)
  show "c \<notin> insert fq (cells (insert a (set (members (as @ bs))))) \<Longrightarrow> r c = h c"
    by (rule old) (use N in \<open>auto simp: cells_def\<close>)
qed

text \<open>A change inside one group, which may bring in a new area, leaves the ring and the other groups alone.\<close>

lemma cells_disjoint:
  assumes "spaced A" "B \<subseteq> A" "D \<subseteq> A" "B \<inter> D = {}" shows "cells B \<inter> cells D = {}"
proof -
  have "b + 8 \<noteq> d + 8 \<and> b + 8 \<noteq> d + 16 \<and> b + 16 \<noteq> d + 8 \<and> b + 16 \<noteq> d + 16" if "b \<in> B" "d \<in> D" for b d
  proof -
    have "b \<noteq> d" "b \<in> A" "d \<in> A" using assms that by auto
    then show ?thesis using spacedD[OF assms(1)] by fastforce
  qed
  then show ?thesis by (auto simp: cells_def)
qed

lemma cells_Un: "cells (A \<union> B) = cells A \<union> cells B"
  by (auto simp: cells_def)

lemma group_cells_snd: "snd g \<noteq> [] \<Longrightarrow> group_cells g \<subseteq> cells (set (snd g))"
  by (cases "snd g") (auto simp: group_cells_def cells_def)

lemma chain_frame_next:
  assumes "q_next (h' p) = q_next (h p)" "\<And>c. c \<in> cells (set xs) \<Longrightarrow> h' c = h c" shows "chain h' p xs = chain h p xs"
proof (cases xs)
  case (Cons x ys)
  have "chain h' (x + 16) ys = chain h (x + 16) ys" by (rule chain_frame) (use assms(2) Cons in \<open>auto simp: cells_def\<close>)
  then show ?thesis using assms Cons by (simp add: cells_def)
qed (use assms in simp)

lemma modify_group:
  assumes F: "free_que h fq (as @ (z, xs) # bs)" and X: "\<And>a. a \<in> X \<Longrightarrow> fresh a fq (as @ (z, xs) # bs)" "X \<subseteq> {a}"
    and ys: "group_ok r (z, ys)" "hd ys = hd xs" "distinct ys" "set ys \<subseteq> X \<union> set xs"
    and ch: "\<And>c. c \<notin> cells X \<union> group_cells (z, xs) \<Longrightarrow> r c = h c"
  shows "free_que r fq (as @ (z, ys) # bs)" "c \<notin> cells (X \<union> set (members (as @ (z, xs) # bs))) \<Longrightarrow> r c = h c"
proof -
  let ?gs = "as @ (z, xs) # bs" and ?gs' = "as @ (z, ys) # bs" let ?M = "set (members ?gs)"
  have g: "(z, xs) \<in> set ?gs" by simp
  have xs: "xs \<noteq> []" using free_queD(2)[OF F g] by (cases xs) auto
  have ysn: "ys \<noteq> []" using ys(1) by (cases ys) auto
  note D = free_queD[OF F] and N = ring_nodes[OF F]
  have nodes: "c \<notin> cells X \<union> group_cells (z, xs)" if "c \<in> set (fq # map head ?gs)" for c
  proof -
    have cN: "c \<in> insert fq (cells ?M)" using N that by blast
    have "c \<notin> cells X"
    proof
      assume "c \<in> cells X"
      then obtain b where b: "b \<in> X" "c = b + 8 \<or> c = b + 16" by (auto simp: cells_def)
      then show False using fresh_cells[OF F X(1)[OF b(1)]] cN by metis
    qed
    moreover have "c \<notin> group_cells (z, xs)" using ring_group_disjoint[OF F g] that by blast
    ultimately show ?thesis by blast
  qed
  have "ring r fq (map head ?gs) = ring h fq (map head ?gs)" by (rule ring_frame) (use nodes ch in blast)
  moreover have hd: "map head ?gs' = map head ?gs" using ys(2) by (simp add: head_def)
  ultimately have ring: "ring r fq (map head ?gs')" using D(1) by simp
  have XM: "spaced (X \<union> ?M)" using D(5) X by (cases "X = {}") (auto simp: fresh_def subset_singleton_iff)
  have oth: "group_ok r g'" if g': "g' \<in> set as \<union> set bs" for g'
  proof -
    have m': "g' \<in> set ?gs" using g' by auto
    have ne: "snd g' \<noteq> []" using group_hd[OF D(2)[OF m']] by auto
    have "set (snd g') \<inter> set xs = {}" using D(4) g' by (auto simp: members_def)
    moreover have "set (snd g') \<inter> X = {}" using X(1) g' by (auto simp: fresh_def members_def)
    moreover have "set (snd g') \<subseteq> X \<union> ?M" "X \<union> set xs \<subseteq> X \<union> ?M" using group_members[OF m'] group_members[OF g] by auto
    ultimately have "cells (set (snd g')) \<inter> cells (X \<union> set xs) = {}" by (intro cells_disjoint[OF XM]) auto
    then have "cells (set (snd g')) \<inter> (cells X \<union> cells (set xs)) = {}" by (simp add: cells_Un)
    then have "c \<notin> cells X \<union> group_cells (z, xs)" if "c \<in> group_cells g'" for c
      using that group_cells_snd[OF ne] group_cells_snd[of "(z, xs)"] xs by auto
    then show ?thesis using group_frame_cells[of g' r h] ch D(2)[OF m'] by blast
  qed
  then have "\<forall>g\<in>set ?gs'. group_ok r g" using ys(1) by auto
  moreover have "sorted_wrt (<) (map fst ?gs')" using D(3) by simp
  moreover have M': "set (members ?gs') \<subseteq> X \<union> ?M" using ys(4) by auto
  moreover have "distinct (members ?gs')" using D(4) ys(3,4) X(1) by (auto simp: fresh_def)
  moreover have "spaced (set (members ?gs'))" using XM M' by (auto simp: spaced_def)
  moreover have "fq \<notin> cells (X \<union> ?M)" using D(6) X(1) by (auto simp: fresh_def cells_def)
  then have "fq \<notin> cells (set (members ?gs'))" using M' by (auto simp: cells_def)
  ultimately show "free_que r fq ?gs'" unfolding free_que_def using ring D(7) by blast
  show "c \<notin> cells (X \<union> ?M) \<Longrightarrow> r c = h c"
    by (rule ch) (use group_cells_members[OF F g] in \<open>auto simp: cells_def\<close>)
qed

text \<open>An area of a known size goes behind the first one of its group.\<close>

lemma append_same:
  fixes h :: qheap
  assumes F: "free_que h fq (as @ (z, f # fs) # bs)" and fr: "fresh a fq (as @ (z, f # fs) # bs)"
  defines "h4 \<equiv> set_prev (a + 16) (f + 16) (set_next (f + 16) (a + 16) (set_next (a + 16) (q_next (h (f + 16))) h))"
  defines "r \<equiv> set_next (a + 8) 0 (if q_next (h4 (a + 16)) \<noteq> 0 then set_prev (q_next (h4 (a + 16))) (a + 16) h4 else h4)"
  shows "free_que r fq (as @ (z, f # a # fs) # bs)"
    "c \<notin> cells (insert a (set (members (as @ (z, f # fs) # bs)))) \<Longrightarrow> r c = h c"
proof -
  let ?gs = "as @ (z, f # fs) # bs"
  note D = free_queD[OF F]
  have sp: "spaced (insert a (set (members ?gs)))" and na: "a \<notin> set (members ?gs)" using fr by (auto simp: fresh_def)
  have gok: "q_prev (h (f + 16)) = z" "chain h (f + 16) fs" using D(2)[of "(z, f # fs)"] by auto
  have df: "f \<notin> set fs" "distinct fs" using D(4) by auto
  have fa: "f \<noteq> a" "f + 16 \<noteq> a + 8" "a + 16 \<noteq> f + 8"
    using na spaced_cells(1)[OF sp, of a f] spaced_cells(1)[OF sp, of f a] by auto
  let ?n = "q_next (h (f + 16))"
  have n: "?n = (case fs of [] \<Rightarrow> 0 | x # _ \<Rightarrow> x + 16)" using gok(2) by (cases fs) auto
  have r: "r = set_next (a + 8) 0 (if ?n \<noteq> 0 then set_prev ?n (a + 16) h4 else h4)" using fa by (simp add: r_def h4_def)
  have mem: "x \<in> insert a (set (members ?gs))" if "x \<in> set fs" for x using that by simp
  have xs: "x \<noteq> a \<and> x \<noteq> f \<and> x + 8 \<noteq> a + 16 \<and> x + 16 \<noteq> a + 8 \<and> x + 8 \<noteq> f + 16 \<and> x + 16 \<noteq> f + 8" if "x \<in> set fs" for x
    using spaced_cells(1)[OF sp mem[OF that], of a] spaced_cells(1)[OF sp, of a x] spaced_cells(1)[OF sp mem[OF that], of f]
      spaced_cells(1)[OF sp, of f x] mem[OF that] that na df(1) by auto
  have cell: "r c = h c" if "c \<notin> cells {a} \<union> group_cells (z, f # fs)" for c
  proof -
    have "c \<noteq> a + 8" "c \<noteq> a + 16" "c \<noteq> f + 16" "?n \<noteq> 0 \<Longrightarrow> c \<noteq> ?n"
      using that n by (auto simp: cells_def group_cells_def split: list.splits)
    then show ?thesis by (simp add: r h4_def cell_other)
  qed
  have nx: "?n \<noteq> f + 16" "?n \<noteq> a + 16" using n xs fa(1) by (cases fs; force)+
  have rest: "chain r (a + 16) fs"
  proof (cases fs)
    case Nil
    then show ?thesis using n fa(1)[symmetric] by (simp add: r h4_def)
  next
    case (Cons x ys)
    then have cx: "q_next (h (x + 8)) = 0" "chain h (x + 16) ys" and nn: "?n = x + 16" using gok(2) by auto
    have x: "x + 8 \<noteq> a + 16" "x + 16 \<noteq> a + 8" "x \<noteq> a" "x \<noteq> f" "x + 8 \<noteq> f + 16" using xs[of x] Cons by auto
    have "chain r (x + 16) ys = chain h (x + 16) ys"
    proof (rule chain_frame_next)
      show "q_next (r (x + 16)) = q_next (h (x + 16))" using x by (simp add: r h4_def nn)
      show "r c = h c" if c: "c \<in> cells (set ys)" for c
      proof -
        obtain y where y: "y \<in> set ys" "c = y + 8 \<or> c = y + 16" using c by (auto simp: cells_def)
        have "y \<in> set (members ?gs)" "x \<in> set (members ?gs)" "y \<noteq> x" using y(1) Cons df(2) by auto
        then have "c \<noteq> x + 16" using y(2) spaced_cells(1)[OF D(5), of y x] by auto
        moreover have "c \<noteq> a + 8" "c \<noteq> a + 16" "c \<noteq> f + 16" using xs[of y] y Cons by auto
        ultimately show ?thesis by (simp add: r h4_def nn cell_other)
      qed
    qed
    then show ?thesis using cx x Cons nn fa(1)[symmetric] by (simp add: r h4_def)
  qed
  have gr: "group_ok r (z, f # a # fs)" using rest gok(1) fa fa(1)[symmetric] nx nx[symmetric] by (simp add: r h4_def)
  show "free_que r fq (as @ (z, f # a # fs) # bs)"
    by (rule modify_group(1)[OF F, where X = "{a}" and a = a]) (use fr gr df na cell in auto)
  show "c \<notin> cells (insert a (set (members ?gs))) \<Longrightarrow> r c = h c"
    by (rule modify_group(2)[OF F, where X = "{a}" and a = a, OF _ _ gr]) (use fr df na cell in \<open>auto simp: insert_commute[of a f]\<close>)
qed

end
