(* ===== verification/Memory_Queue.thy ===== *)
theory Memory_Queue
  imports Memory_Free
begin

text \<open>
  The two routines that change the queue of free areas, in terms of the set of free areas:
  \<^verbatim>\<open>knl_appendFreeArea\<close> always returns and adds one area, \<^verbatim>\<open>knl_removeFreeQue\<close> removes one,
  wherever in the queue it is.
\<close>

section \<open>Registering a free area\<close>

lemma best_fit_cases:
  assumes F: "free_que h fq gs"
  obtains (same) as f fs bs where "gs = as @ (z, f # fs) # bs" "best_fit fq gs (int z) = f + 8"
  | (new) as bs where "gs = as @ bs" "\<And>g. g \<in> set as \<Longrightarrow> fst g < z" "\<And>g. g \<in> set bs \<Longrightarrow> z < fst g"
      "best_fit fq gs (int z) = hd (map head bs @ [fq])"
proof -
  let ?P = "\<lambda>g. int (fst g) < int z"
  let ?as = "takeWhile ?P gs" and ?bs = "dropWhile ?P gs"
  have gs: "gs = ?as @ ?bs" by simp
  have small: "fst g < z" if "g \<in> set ?as" for g using set_takeWhileD[OF that] by simp
  show ?thesis
  proof (cases ?bs)
    case Nil
    then have "best_fit fq gs (int z) = fq" by (simp add: best_fit_def del: dropWhile_eq_Nil_conv)
    then show ?thesis using new[of ?as "[]"] gs small Nil by (metis append_Nil2 empty_iff list.sel(1) list.simps(8) list.set(1) append_Nil)
  next
    case (Cons g bs)
    have gs2: "gs = ?as @ g # bs" using gs Cons by metis
    have nl: "\<not> fst g < z" using hd_dropWhile[of ?P gs] Cons by (simp del: dropWhile_eq_Nil_conv)
    have "sorted_wrt (<) (map fst (?as @ g # bs))" using free_queD(3)[OF F] gs Cons by metis
    then have big: "fst g < fst g'" if "g' \<in> set bs" for g' using that by (simp add: sorted_wrt_append)
    have bf: "best_fit fq gs (int z) = head g" using Cons by (simp add: best_fit_def)
    show ?thesis
    proof (cases "fst g = z")
      case True
      have "group_ok h g" using free_queD(2)[OF F, of g] gs Cons by (metis in_set_conv_decomp)
      then obtain f fs where g: "g = (z, f # fs)" using True by (cases g; cases "snd g") auto
      have "best_fit fq gs (int z) = f + 8" using bf g by (simp add: head_def)
      then show ?thesis by (rule same[OF gs2[unfolded g]])
    next
      case False
      then have "z < fst g'" if "g' \<in> set (g # bs)" for g' using that nl big[of g'] by auto
      then show ?thesis using new[of ?as "g # bs", OF gs2 small] bf by simp
    qed
  qed
qed

lemma clrAreaFlag_cell: "clrAreaFlag q h c = (if c = q then (h q)\<lparr>q_prev := Mask (q_prev (h q))\<rparr> else h c)"
  by (simp add: clrAreaFlag_def set_prev_def)

lemma fresh_header: "fresh a fq gs \<Longrightarrow> a \<notin> cells (insert a (set (members gs)))"
  using spaced_cells(2,3)[of "insert a (set (members gs))" a] by (force simp: fresh_def cells_def)

lemma appendFreeArea:
  assumes F: "free_que h (freeque im) gs" and fr: "fresh a (freeque im) gs" and na: "a \<noteq> freeque im"
    and sz: "AreaSize a h = int z"
  shows "\<exists>r gs'. knl_appendFreeArea im a h = Some r \<and> free_que r (freeque im) gs' \<and>
    free_set gs' = insert (a, z) (free_set gs) \<and> r a = (h a)\<lparr>q_prev := Mask (q_prev (h a))\<rparr> \<and>
    (\<forall>c. c \<notin> insert a (insert (freeque im) (cells (insert a (set (members gs))))) \<longrightarrow> r c = h c)"
proof -
  let ?fq = "freeque im" and ?h = "clrAreaFlag a h"
  note S = searchFreeArea_fit[OF F, of "int z"] and ac = fresh_header[OF fr]
  have hc: "?h c = h c" if "c \<noteq> a" for c using that by (simp add: clrAreaFlag_cell)
  have "a \<notin> insert ?fq (cells (set (members gs)))" using ac na by (auto simp: cells_def)
  then have F1: "free_que ?h ?fq gs" by (intro free_que_frame[OF F] hc) auto
  have ha: "?h a = (h a)\<lparr>q_prev := Mask (q_prev (h a))\<rparr>" by (simp add: clrAreaFlag_cell)
  have fin: ?thesis if "knl_appendFreeArea im a h = Some r" "free_que r ?fq gs'" "free_set gs' = insert (a, z) (free_set gs)"
    and o: "\<And>c. c \<notin> insert ?fq (cells (insert a (set (members gs)))) \<Longrightarrow> r c = ?h c" for r gs'
  proof (intro exI[of _ r] exI[of _ gs'] conjI allI impI that(1-3))
    show "r a = (h a)\<lparr>q_prev := Mask (q_prev (h a))\<rparr>" using o[of a] ac na ha by simp
    show "r c = h c" if "c \<notin> insert a (insert ?fq (cells (insert a (set (members gs)))))" for c
      using that o[of c] hc[of c] by simp
  qed
  from F1 show ?thesis
  proof (cases rule: best_fit_cases[where z = z])
    case (same as f fs bs)
    note F2 = F1[unfolded same(1)] and fr2 = fr[unfolded same(1)]
    have "FreeSize (f + 8) ?h = int z" using FreeSize_head[OF free_queD(2)[OF F2, of "(z, f # fs)"]] by (simp add: head_def)
    moreover have "f + 8 \<noteq> ?fq" using free_queD(6)[OF F2] by (auto simp: cells_def)
    ultimately show ?thesis
      by (intro fin[OF _ append_same(1)[OF F2 fr2] _ append_same(2)[OF F2 fr2, folded same(1)]])
        (use S sz same in \<open>simp_all add: knl_appendFreeArea_def Let_def add.assoc insert_commute\<close>)
  next
    case (new as bs)
    note F2 = F1[unfolded new(1)] and fr2 = fr[unfolded new(1)]
    have "\<not> (hd (map head bs @ [?fq]) \<noteq> ?fq \<and> FreeSize (hd (map head bs @ [?fq])) ?h = int z)"
    proof (cases bs)
      case (Cons b bs')
      then show ?thesis using FreeSize_head[OF free_queD(2)[OF F2, of b]] new(3)[of b] by simp
    qed simp
    then show ?thesis
      by (intro fin[OF _ append_new(1)[OF F2 fr2 new(2,3)] _ append_new(2)[OF F2 fr2 new(2,3), folded new(1)]])
        (use S sz new(1,4) in \<open>auto simp: knl_appendFreeArea_def Let_def\<close>)
  qed
qed

section \<open>Deleting a free area\<close>

text \<open>An area behind the first one of its group.\<close>

lemma remove_chain_eq:
  assumes "q_next (h (a + 8)) = 0" "q_prev (h (a + 16)) \<noteq> a + 16"
  shows "knl_removeFreeQue (a + 8) h =
    (let n = q_next (h (a + 16)); p = q_prev (h (a + 16)); h1 = set_next p n h in if n \<noteq> 0 then set_prev n p h1 else h1)"
  using assms by (simp add: knl_removeFreeQue_def Let_def add.assoc)

lemma chain_ends:
  assumes "chain h (f + 16) (xs @ a # ys)"
  shows "q_next (h (a + 8)) = 0" "q_prev (h (a + 16)) \<in> (\<lambda>x. x + 16) ` set (f # xs)"
    "q_next (h (a + 16)) = 0 \<or> (\<exists>y\<in>set ys. q_next (h (a + 16)) = y + 16)"
  using assms by (induction xs arbitrary: f) (auto, (cases ys; auto)+)

lemma chain_remove:
  assumes "chain h (f + 16) (xs @ a # ys)" "distinct (f # xs @ a # ys)" "spaced (set (f # xs @ a # ys))"
  shows "chain (knl_removeFreeQue (a + 8) h) (f + 16) (xs @ ys)"
  using assms
proof (induction xs arbitrary: f)
  case Nil
  have E: "q_next (h (a + 8)) = 0" "q_prev (h (a + 16)) = f + 16" using Nil.prems(1) by simp_all
  have af: "a \<noteq> f" "f \<notin> set ys" "a \<notin> set ys" using Nil.prems(2) by auto
  have r: "knl_removeFreeQue (a + 8) h = (let n = q_next (h (a + 16)); h1 = set_next (f + 16) n h in if n \<noteq> 0 then set_prev n (f + 16) h1 else h1)"
    using remove_chain_eq[of h a] E af by (simp add: Let_def)
  have c: "chain h (a + 16) ys" using Nil.prems(1) by simp
  show ?case
  proof (cases ys)
    case Nil
    then show ?thesis using c by (simp add: r Let_def)
  next
    case (Cons y zs)
    have sp: "spaced (set (f # y # zs))" using Nil.prems(3) Cons by (auto simp: spaced_def)
    have y: "y + 8 \<noteq> f + 16" "y + 16 \<noteq> f + 8" "y \<noteq> f" using spaced_cells(1)[OF sp, of y f] spaced_cells(1)[OF sp, of f y] af Cons by auto
    have "chain (knl_removeFreeQue (a + 8) h) (y + 16) zs = chain h (y + 16) zs"
    proof (rule chain_frame_next)
      show "q_next (knl_removeFreeQue (a + 8) h (y + 16)) = q_next (h (y + 16))" using y c Cons by (simp add: r Let_def)
      show "knl_removeFreeQue (a + 8) h c = h c" if cc: "c \<in> cells (set zs)" for c
      proof -
        obtain x where x: "x \<in> set zs" "c = x + 8 \<or> c = x + 16" using cc by (auto simp: cells_def)
        then have "x \<noteq> y" "x \<noteq> f" using Nil.prems(2) Cons by auto
        then have "c \<noteq> y + 16" "c \<noteq> f + 16" using x spaced_cells(1)[OF sp, of x y] spaced_cells(1)[OF sp, of x f] by auto
        then show ?thesis using c Cons by (simp add: r Let_def cell_other)
      qed
    qed
    then show ?thesis using c Cons y by (simp add: r Let_def)
  qed
next
  case (Cons x xs)
  have sp: "spaced (set (x # xs @ a # ys))" using Cons.prems(3) by (auto simp: spaced_def)
  have ch: "chain h (x + 16) (xs @ a # ys)" using Cons.prems(1) by simp
  have IH: "chain (knl_removeFreeQue (a + 8) h) (x + 16) (xs @ ys)" by (rule Cons.IH) (use ch Cons.prems(2) sp in auto)
  note E = chain_ends[OF ch] and S = spaced_cells(1)[OF Cons.prems(3)]
  obtain y where y: "y \<in> set (x # xs)" "q_prev (h (a + 16)) = y + 16" using E(2) by auto
  have p: "q_prev (h (a + 16)) \<noteq> a + 16" "q_prev (h (a + 16)) \<noteq> f + 16" "q_prev (h (a + 16)) \<noteq> x + 8"
    using y Cons.prems(2) S[of x y] by auto
  have n: "x + 16 \<noteq> q_next (h (a + 16))" using E(3) Cons.prems(2) by auto
  show ?case using IH Cons.prems(1) p n by (simp add: remove_chain_eq[OF E(1) p(1)] Let_def)
qed

lemma remove_tail:
  assumes F: "free_que h fq (as @ (z, f # xs @ a # ys) # bs)"
  shows "free_que (knl_removeFreeQue (a + 8) h) fq (as @ (z, f # xs @ ys) # bs)"
    "c \<notin> cells (set (members (as @ (z, f # xs @ a # ys) # bs))) \<Longrightarrow> knl_removeFreeQue (a + 8) h c = h c"
proof -
  let ?gs = "as @ (z, f # xs @ a # ys) # bs" and ?r = "knl_removeFreeQue (a + 8) h"
  note D = free_queD[OF F]
  have gok: "q_prev (h (f + 16)) = z" "chain h (f + 16) (xs @ a # ys)" using D(2)[of "(z, f # xs @ a # ys)"] by auto
  have d: "distinct (f # xs @ a # ys)" using D(4) by (simp add: disjoint_iff)
  have sp: "spaced (set (f # xs @ a # ys))" using D(5) by (auto simp: spaced_def)
  note E = chain_ends[OF gok(2)]
  have pa: "q_prev (h (a + 16)) \<noteq> a + 16" using E(2) d by auto
  note r = remove_chain_eq[OF E(1) pa]
  have fn: "f + 16 \<noteq> q_next (h (a + 16))" using E(3) d by auto
  have cell: "?r c = h c" if "c \<notin> group_cells (z, f # xs @ a # ys)" for c
  proof -
    have "c \<noteq> q_prev (h (a + 16))" "q_next (h (a + 16)) \<noteq> 0 \<Longrightarrow> c \<noteq> q_next (h (a + 16))"
      using that E by (auto simp: group_cells_def cells_def)
    then show ?thesis by (simp add: r Let_def cell_other)
  qed
  have g: "group_ok ?r (z, f # xs @ ys)" using chain_remove[OF gok(2) d sp] gok(1) fn by (simp add: r Let_def)
  show "free_que ?r fq (as @ (z, f # xs @ ys) # bs)"
    by (rule modify_group(1)[OF F, where X = "{}" and a = a]) (use g d cell in \<open>auto simp: cells_def\<close>)
  show "c \<notin> cells (set (members ?gs)) \<Longrightarrow> ?r c = h c"
    by (rule cell) (use group_cells_members[OF F, of "(z, f # xs @ a # ys)"] in auto)
qed

text \<open>The first area of a group: the next one of the same size takes its place in the ring.\<close>

lemma free_que_subset:
  assumes "free_que h fq gs" "ring r fq (map head gs')" "\<And>g. g \<in> set gs' \<Longrightarrow> group_ok r g"
    "sorted_wrt (<) (map fst gs')" "distinct (members gs')" "set (members gs') \<subseteq> set (members gs)"
  shows "free_que r fq gs'"
proof -
  have "spaced (set (members gs'))" using free_queD(5)[OF assms(1)] assms(6) by (auto simp: spaced_def)
  moreover have "fq \<notin> cells (set (members gs'))" using free_queD(6)[OF assms(1)] assms(6) by (auto simp: cells_def)
  ultimately show ?thesis unfolding free_que_def using assms free_queD(7)[OF assms(1)] by blast
qed

lemma head_next: "free_que h fq gs \<Longrightarrow> g \<in> set gs \<Longrightarrow> q_next (h (head g)) \<noteq> 0"
  using ring_neighbours(2)[OF free_queD(1)[of h fq gs], of "head g"] free_queD(7)[of h fq gs] by (fastforce simp: head_def)

lemma remove_single:
  assumes F: "free_que h fq (as @ (z, [a]) # bs)"
  shows "free_que (knl_removeFreeQue (a + 8) h) fq (as @ bs)"
    "c \<notin> insert fq (cells (set (members (as @ (z, [a]) # bs)))) \<Longrightarrow> knl_removeFreeQue (a + 8) h c = h c"
    "knl_removeFreeQue (a + 8) h (a + 16) = h (a + 16)"
proof -
  let ?gs = "as @ (z, [a]) # bs" and ?r = "knl_removeFreeQue (a + 8) h"
  note D = free_queD[OF F]
  have "q_next (h (a + 16)) = 0" using D(2)[of "(z, [a])"] by simp
  moreover have "q_next (h (a + 8)) \<noteq> 0" using head_next[OF F, of "(z, [a])"] by (simp add: head_def)
  ultimately have r: "?r = QueRemove (a + 8) h" by (simp add: knl_removeFreeQue_def add.assoc)
  have ah: "a + 8 \<in> set (map head ?gs)" by (simp add: head_def)
  have cell: "?r c = h c" if "c \<notin> set (fq # map head ?gs)" for c unfolding r by (rule QueRemove_other[OF D(1) ah that])
  have grp: "group_ok ?r g" if "g \<in> set ?gs" for g
    using group_frame_cells[of g ?r h] ring_group_disjoint[OF F that] cell D(2)[OF that] by blast
  show "free_que ?r fq (as @ bs)"
  proof (rule free_que_subset[OF F])
    show "ring ?r fq (map head (as @ bs))"
      unfolding r using ring_remove[of h fq "map head as" "a + 8" "map head bs"] D(1) by (simp add: head_def)
    show "sorted_wrt (<) (map fst (as @ bs))" using D(3) by (simp add: sorted_wrt_append)
  qed (use grp D(4) in auto)
  show "c \<notin> insert fq (cells (set (members ?gs))) \<Longrightarrow> ?r c = h c" by (rule cell) (use ring_nodes[OF F] in blast)
  show "?r (a + 16) = h (a + 16)"
    by (rule cell) (use ring_group_disjoint[OF F, of "(z, [a])" "a + 16"] in \<open>simp add: group_cells_def\<close>)
qed

lemma remove_first:
  assumes F: "free_que h fq (as @ (z, a # x # ys) # bs)"
  shows "free_que (knl_removeFreeQue (a + 8) h) fq (as @ (z, x # ys) # bs)"
    "c \<notin> insert fq (cells (set (members (as @ (z, a # x # ys) # bs)))) \<Longrightarrow> knl_removeFreeQue (a + 8) h c = h c"
    "knl_removeFreeQue (a + 8) h (a + 16) = h (a + 16)"
proof -
  let ?gs = "as @ (z, a # x # ys) # bs" and ?r = "knl_removeFreeQue (a + 8) h"
  let ?h0 = "QueInsert (x + 8) (a + 8) h" and ?N = "set (fq # map head (as @ (z, a # x # ys) # bs))"
  note D = free_queD[OF F]
  have g: "(z, a # x # ys) \<in> set ?gs" by simp
  have gok: "q_next (h (a + 16)) = x + 16" "q_prev (h (a + 16)) = z" "chain h (x + 16) ys" using D(2)[OF g] by auto
  have df: "a \<noteq> x" "x \<notin> set ys" "distinct ys" "a \<notin> set ys" using D(4) by auto
  have in_grp: "x + 8 \<notin> ?N" "x + 16 \<notin> ?N" "a + 16 \<notin> ?N"
    using ring_group_disjoint[OF F g] by (auto simp: group_cells_def cells_def)
  have ah: "a + 8 \<in> ?N" by (simp add: head_def)
  have sp: "a + 16 \<noteq> x + 8" using spaced_cells(1)[OF D(5), of x a] by auto
  have ha: "?h0 (a + 16) = h (a + 16)" by (rule QueInsert_other[OF D(1) ah _ in_grp(1)]) (use in_grp sp in auto)
  define h1 where "h1 = set_prev (x + 16) z ?h0"
  have nz: "q_next (h (a + 8)) \<noteq> 0" using head_next[OF F g] by (simp add: head_def)
  have r: "?r = QueRemove (a + 8) h1" using gok nz ha by (simp add: knl_removeFreeQue_def Let_def add.assoc h1_def add.commute[of 8 x])
  have R0: "ring ?h0 fq (map head as @ (x + 8) # (a + 8) # map head bs)"
    by (rule ring_insert_before) (use D(1) in_grp(1) in \<open>auto simp: head_def\<close>)
  have "ring h1 fq (map head as @ (x + 8) # (a + 8) # map head bs) = ring ?h0 fq (map head as @ (x + 8) # (a + 8) # map head bs)"
  proof (rule ring_frame)
    fix c assume "c \<in> set (fq # map head as @ (x + 8) # (a + 8) # map head bs)"
    then have "c \<noteq> x + 16" using in_grp(2) by (auto simp: head_def)
    then show "h1 c = ?h0 c" by (simp add: h1_def cell_other)
  qed
  then have R1: "ring h1 fq (map head as @ (x + 8) # (a + 8) # map head bs)" using R0 by simp
  have rh1: "?r c = h1 c" if "c \<notin> insert (x + 8) ?N" for c
    unfolding r by (rule QueRemove_other[OF R1]) (use that in \<open>auto simp: head_def\<close>)
  have cell: "?r c = h c" if c: "c \<notin> insert (x + 8) (insert (x + 16) ?N)" for c
  proof -
    have "?h0 c = h c" by (rule QueInsert_other[OF D(1) ah _ in_grp(1)]) (use c in auto)
    then show ?thesis using rh1[of c] c by (simp add: h1_def cell_other)
  qed
  have "?h0 (x + 16) = h (x + 16)" by (rule QueInsert_other[OF D(1) ah _ in_grp(1)]) (use in_grp in auto)
  then have rx: "?r (x + 16) = (h (x + 16))\<lparr>q_prev := z\<rparr>" using rh1[of "x + 16"] in_grp(2) by (simp add: h1_def set_prev_def)
  have cx: "c \<noteq> x + 8" "c \<noteq> x + 16" if c: "c \<in> cells B" "B \<subseteq> set (members ?gs)" "x \<notin> B" for c B
    using cells_disjoint[OF D(5) c(2), of "{x}"] c by (auto simp: cells_def)
  have "chain ?r (x + 16) ys = chain h (x + 16) ys"
  proof (rule chain_frame_next)
    show "?r c = h c" if "c \<in> cells (set ys)" for c
      by (rule cell) (use cx[OF that] ring_group_disjoint[OF F g, of c] that df in \<open>auto simp: group_cells_def cells_def\<close>)
  qed (simp add: rx)
  then have gx: "group_ok ?r (z, x # ys)" using gok rx by simp
  have oth: "group_ok ?r g'" if g': "g' \<in> set as \<union> set bs" for g'
  proof -
    have m: "g' \<in> set ?gs" using g' by auto
    have xg: "x \<notin> set (snd g')" using D(4) g' by (auto simp: members_def)
    have ne: "snd g' \<noteq> []" using group_hd[OF D(2)[OF m]] by auto
    have "?r c = h c" if c: "c \<in> group_cells g'" for c
    proof -
      have "c \<in> cells (set (snd g'))" using group_cells_snd[OF ne] c by auto
      then show ?thesis using cell[of c] cx[of c, OF _ group_members[OF m] xg] ring_group_disjoint[OF F m c] by simp
    qed
    then show ?thesis using group_frame_cells[of g' ?r h] D(2)[OF m] by blast
  qed
  show "free_que ?r fq (as @ (z, x # ys) # bs)"
  proof (rule free_que_subset[OF F])
    show "ring ?r fq (map head (as @ (z, x # ys) # bs))"
      unfolding r using ring_remove[of h1 fq "map head as @ [x + 8]" "a + 8" "map head bs"] R1 by (simp add: head_def)
    show "sorted_wrt (<) (map fst (as @ (z, x # ys) # bs))" using D(3) by simp
  qed (use gx oth D(4) in auto)
  show "c \<notin> insert fq (cells (set (members ?gs))) \<Longrightarrow> ?r c = h c"
    by (rule cell) (use ring_nodes[OF F] in \<open>auto simp: cells_def\<close>)
  show "?r (a + 16) = h (a + 16)" by (rule cell) (use sp in_grp(3) df(1) in auto)
qed

lemma removeFreeQue:
  assumes F: "free_que h fq gs" and a: "(a, z) \<in> free_set gs"
  shows "\<exists>gs'. free_que (knl_removeFreeQue (a + 8) h) fq gs' \<and> free_set gs' = free_set gs - {(a, z)} \<and>
    (\<forall>c. c \<notin> insert fq (cells (set (members gs))) \<longrightarrow> knl_removeFreeQue (a + 8) h c = h c)"
proof -
  obtain xs where "(z, xs) \<in> set gs" "a \<in> set xs" using a by (auto simp: free_set_def)
  then obtain as bs us vs where gs: "gs = as @ (z, us @ a # vs) # bs" by (metis split_list)
  note G = F[unfolded gs]
  have d: "a \<notin> set (members as)" "a \<notin> set (members bs)" "a \<notin> set us" "a \<notin> set vs" using free_queD(4)[OF G] by auto
  then have nf: "(a, y) \<notin> free_set as" "(a, y) \<notin> free_set bs" for y using fst_free_set[of as] fst_free_set[of bs] by force+
  show ?thesis
  proof (cases us)
    case (Cons f xs)
    note G1 = G[unfolded Cons append_Cons]
    show ?thesis
    proof (intro exI[of _ "as @ (z, f # xs @ vs) # bs"] conjI allI impI)
      show "free_set (as @ (z, f # xs @ vs) # bs) = free_set gs - {(a, z)}" using d nf gs Cons by auto
    qed (use remove_tail[OF G1] gs Cons in auto)
  next
    case Nil
    note G1 = G[unfolded Nil append_Nil]
    show ?thesis
    proof (cases vs)
      case Nil
      note G2 = G1[unfolded Nil]
      show ?thesis
      proof (intro exI[of _ "as @ bs"] conjI allI impI)
        show "free_set (as @ bs) = free_set gs - {(a, z)}" using nf gs Nil \<open>us = []\<close> by auto
      qed (use remove_single[OF G2] gs Nil \<open>us = []\<close> in auto)
    next
      case (Cons x ys)
      note G2 = G1[unfolded Cons]
      show ?thesis
      proof (intro exI[of _ "as @ (z, x # ys) # bs"] conjI allI impI)
        show "free_set (as @ (z, x # ys) # bs) = free_set gs - {(a, z)}" using d nf gs Cons \<open>us = []\<close> by auto
      qed (use remove_first[OF G2] gs Cons \<open>us = []\<close> in auto)
    qed
  qed
qed

text \<open>The size of the first area of a group is still there after it was deleted.\<close>

lemma removeFreeQue_size:
  assumes F: "free_que h fq gs" and g: "(z, a # xs) \<in> set gs"
  shows "FreeSize (a + 8) (knl_removeFreeQue (a + 8) h) = int z"
proof -
  obtain as bs where gs: "gs = as @ (z, a # xs) # bs" using g by (meson split_list)
  note G = F[unfolded gs]
  have "knl_removeFreeQue (a + 8) h (a + 16) = h (a + 16)"
  proof (cases xs)
    case Nil
    then show ?thesis using remove_single(3)[OF G[unfolded Nil]] by simp
  next
    case (Cons x ys)
    then show ?thesis using remove_first(3)[OF G[unfolded Cons]] by simp
  qed
  moreover have "q_prev (h (a + 16)) = z" using free_queD(2)[OF F g] by simp
  ultimately show ?thesis by (simp add: FreeSize_def add.assoc)
qed

end
