(* ===== verification/Memory_Heap.thy ===== *)
theory Memory_Heap
  imports Memory_Queue
begin

text \<open>
  What the memory of the allocator is: a list of areas \<open>(address, size, in use)\<close>, one behind the other,
  closed by an end mark. \<open>heap_rep\<close> relates this list to the cells in memory; the queue routines of
  \<^verbatim>\<open>memory.c\<close> are shown to act on the list.
\<close>

section \<open>Areas, one behind the other\<close>

type_synonym area = "addr \<times> nat \<times> bool"

fun contig :: "addr \<Rightarrow> area list \<Rightarrow> addr \<Rightarrow> bool" where
  "contig s [] e \<longleftrightarrow> s = e"
| "contig s ((a, z, u) # bs) e \<longleftrightarrow> a = s \<and> contig (a + 8 + z) bs e"

lemma contig_append: "contig s (xs @ ys) e \<longleftrightarrow> (\<exists>m. contig s xs m \<and> contig m ys e)"
  by (induction s xs e rule: contig.induct) auto

lemma contig_le: "contig s bs e \<Longrightarrow> s \<le> e"
  by (induction s bs e rule: contig.induct) auto

lemma contig_bounds: "contig s bs e \<Longrightarrow> (a, z, u) \<in> set bs \<Longrightarrow> s \<le> a \<and> a + 8 + z \<le> e"
  by (induction s bs e rule: contig.induct) (auto dest: contig_le)

lemma contig_even: "contig s bs e \<Longrightarrow> \<forall>(a, z, u)\<in>set bs. even z \<Longrightarrow> even s \<Longrightarrow> even e \<and> (\<forall>(a, z, u)\<in>set bs. even a)"
  by (induction s bs e rule: contig.induct) auto

lemma contig_apart:
  "contig s bs e \<Longrightarrow> \<forall>(a, z, u)\<in>set bs. 16 \<le> z \<Longrightarrow> distinct (map fst bs) \<and> spaced (insert e (fst ` set bs))"
proof (induction s bs e rule: contig.induct)
  case (2 s a z u bs e)
  have c: "contig (a + 8 + z) bs e" "16 \<le> z" using 2 by auto
  have up: "a + 24 \<le> b" if "b \<in> insert e (fst ` set bs)" for b
    using that c contig_le[OF c(1)] contig_bounds[OF c(1)] by fastforce
  have "distinct (map fst bs) \<and> spaced (insert e (fst ` set bs))" using 2 by auto
  moreover have "a \<notin> fst ` set bs" using up[of a] by auto
  ultimately show ?case using up by (auto simp: spaced_def)
qed (simp add: spaced_def)

text \<open>The list of areas is well formed, and the heads of the two queues lie outside of it.\<close>

definition shape :: "IMACB \<Rightarrow> area list \<Rightarrow> addr \<Rightarrow> addr \<Rightarrow> bool" where
  "shape im bs s e \<longleftrightarrow> contig s bs e \<and> (\<forall>(a, z, u)\<in>set bs. 16 \<le> z \<and> even z) \<and> even s \<and> even (areaque im) \<and>
     (areaque im < s \<or> e < areaque im) \<and> (freeque im < s \<or> e < freeque im) \<and> areaque im \<noteq> freeque im"

lemma shapeD:
  assumes "shape im bs s e"
  shows "contig s bs e" "\<And>a z u. (a, z, u) \<in> set bs \<Longrightarrow> 16 \<le> z \<and> even z \<and> even a \<and> s \<le> a \<and> a + 8 + z \<le> e"
    "distinct (areaque im # map fst bs @ [e])" "spaced (insert e (fst ` set bs))" "even e"
proof -
  show c: "contig s bs e" using assms by (simp add: shape_def)
  have z: "\<forall>(a, z, u)\<in>set bs. 16 \<le> z" "\<forall>(a, z, u)\<in>set bs. even z" "even s" using assms by (auto simp: shape_def)
  show "even e" using contig_even[OF c z(2,3)] by simp
  show b: "16 \<le> z \<and> even z \<and> even a \<and> s \<le> a \<and> a + 8 + z \<le> e" if "(a, z, u) \<in> set bs" for a z u
    using that contig_even[OF c z(2,3)] contig_bounds[OF c that] z by fastforce
  show "spaced (insert e (fst ` set bs))" using contig_apart[OF c z(1)] by simp
  have "areaque im < s \<or> e < areaque im" using assms by (simp add: shape_def)
  then show "distinct (areaque im # map fst bs @ [e])" using contig_apart[OF c z(1)] contig_le[OF c] by (auto dest!: b)
qed

definition headers :: "IMACB \<Rightarrow> area list \<Rightarrow> addr \<Rightarrow> addr set" where
  "headers im bs e = insert (areaque im) (insert e (fst ` set bs))"

text \<open>All that differs between two states of the queues is in the cells \<open>K\<close>.\<close>

definition changed_in :: "addr set \<Rightarrow> qheap \<Rightarrow> qheap \<Rightarrow> bool" where
  "changed_in K h h' \<longleftrightarrow> (\<forall>c. c \<notin> K \<longrightarrow> h' c = h c)"

lemma changed_in_refl [simp]: "changed_in K h h"
  by (simp add: changed_in_def)

lemma changed_in_mono: "changed_in K h h' \<Longrightarrow> K \<subseteq> L \<Longrightarrow> changed_in L h h'"
  by (auto simp: changed_in_def)

lemma changed_in_trans: "changed_in K h h1 \<Longrightarrow> changed_in K h1 h2 \<Longrightarrow> changed_in K h h2"
  by (auto simp: changed_in_def)

text \<open>Headers are neither cells of free areas nor the head of the free queue.\<close>

lemma headers_apart:
  assumes S: "shape im bs s e" and c: "c \<in> headers im bs e" shows "c \<notin> insert (freeque im) (cells (fst ` set bs))"
proof -
  have o: "areaque im < s \<or> e < areaque im" "freeque im < s \<or> e < freeque im" "areaque im \<noteq> freeque im" using S by (auto simp: shape_def)
  have in_range: "s \<le> d \<and> d \<le> e" if "d \<in> insert e (fst ` set bs)" for d using that contig_le[OF shapeD(1)[OF S]] by (auto dest!: shapeD(2)[OF S])
  have cr: "s \<le> d \<and> d \<le> e" if "d \<in> cells (fst ` set bs)" for d using that by (auto simp: cells_def dest!: shapeD(2)[OF S])
  have "c \<noteq> freeque im" using c o in_range[of c] unfolding headers_def by (cases "c = areaque im") auto
  moreover have "c \<notin> cells (fst ` set bs)"
  proof
    assume cc: "c \<in> cells (fst ` set bs)"
    then have "c \<in> insert e (fst ` set bs)" using c o cr[OF cc] by (auto simp: headers_def)
    moreover obtain b where "b \<in> fst ` set bs" "c = b + 8 \<or> c = b + 16" using cc by (auto simp: cells_def)
    ultimately show False using spaced_cells(2,3)[OF shapeD(4)[OF S], of c b] by auto
  qed
  ultimately show ?thesis by simp
qed

section \<open>The cells of the areas\<close>

definition hdrs :: "IMACB \<Rightarrow> qheap \<Rightarrow> area list \<Rightarrow> addr \<Rightarrow> bool" where
  "hdrs im h bs e \<longleftrightarrow> al h (areaque im # map fst bs @ [e]) \<and> q_next (h e) = areaque im \<and> Mask (q_prev (h (areaque im))) = e \<and>
     (\<forall>(a, z, u)\<in>set bs. odd (q_prev (h a)) = u) \<and> odd (q_prev (h e)) \<and> odd (q_prev (h (areaque im)))"

definition frees :: "IMACB \<Rightarrow> qheap \<Rightarrow> (addr \<times> nat) set \<Rightarrow> bool" where
  "frees im h A \<longleftrightarrow> (\<exists>gs. free_que h (freeque im) gs \<and> free_set gs = A)"

lemma hdrs_frame:
  assumes "\<And>c. c \<in> headers im bs e \<Longrightarrow> h' c = h c" shows "hdrs im h' bs e = hdrs im h bs e"
proof -
  have "al h' (areaque im # map fst bs @ [e]) = al h (areaque im # map fst bs @ [e])"
    by (rule al_frame) (use assms in \<open>auto simp: headers_def\<close>)
  moreover have "h' a = h a" if "(a, z, u) \<in> set bs" for a z u
    by (rule assms) (use that in \<open>force simp: headers_def\<close>)
  then have "(\<forall>(a, z, u)\<in>set bs. odd (q_prev (h' a)) = u) = (\<forall>(a, z, u)\<in>set bs. odd (q_prev (h a)) = u)"
    by (intro ball_cong) auto
  ultimately show ?thesis using assms by (simp add: hdrs_def headers_def)
qed

lemma frees_frame:
  assumes "frees im h A" "\<And>c. c \<in> insert (freeque im) (cells (fst ` A)) \<Longrightarrow> h' c = h c" shows "frees im h' A"
proof -
  obtain gs where gs: "free_que h (freeque im) gs" "free_set gs = A" using assms(1) by (auto simp: frees_def)
  have "free_que h' (freeque im) gs" by (rule free_que_frame[OF gs(1)]) (use assms(2) gs(2) fst_free_set[of gs] in auto)
  then show ?thesis using gs(2) by (auto simp: frees_def)
qed

lemma cells_mono: "A \<subseteq> B \<Longrightarrow> cells A \<subseteq> cells B"
  by (auto simp: cells_def)

lemma spaced_mono: "spaced B \<Longrightarrow> A \<subseteq> B \<Longrightarrow> spaced A"
  by (meson spaced_def subsetD)

text \<open>A change of headers leaves the free queue alone.\<close>

lemma frees_headers:
  assumes "frees im h A" "shape im bs s e" "fst ` A \<subseteq> fst ` set bs" "\<And>c. c \<notin> headers im bs e \<Longrightarrow> h' c = h c"
  shows "frees im h' A"
proof (rule frees_frame[OF assms(1)])
  fix c assume c: "c \<in> insert (freeque im) (cells (fst ` A))"
  then have "c \<in> insert (freeque im) (cells (fst ` set bs))" using cells_mono[OF assms(3)] by auto
  then show "h' c = h c" using headers_apart[OF assms(2)] assms(4) by blast
qed

lemma hdrs_next:
  assumes S: "shape im (xs @ (a, z, u) # ys) s e" and H: "hdrs im h (xs @ (a, z, u) # ys) e"
  shows "q_next (h a) = a + 8 + z" "AreaSize a h = int z" "odd (q_prev (h a)) = u"
    "Mask (q_prev (h a)) = last (areaque im # map fst xs)" "Mask (q_prev (h (a + 8 + z))) = a"
proof -
  have "contig (a + 8 + z) ys e" using shapeD(1)[OF S] by (auto simp: contig_append)
  then have hd: "hd (map fst ys @ [e]) = a + 8 + z" by (cases ys) auto
  have A: "al h ((areaque im # map fst xs) @ a # map fst ys @ [e])" using H by (simp add: hdrs_def)
  have "al h (a # map fst ys @ [e])" using A al_append[of h "areaque im # map fst xs" a "map fst ys @ [e]"] by simp
  then show n: "q_next (h a) = a + 8 + z" "Mask (q_prev (h (a + 8 + z))) = a" using hd by (cases ys; simp)+
  show "AreaSize a h = int z" using n by (simp add: AreaSize_def)
  show "odd (q_prev (h a)) = u" using H by (simp add: hdrs_def)
  obtain us b where ub: "areaque im # map fst xs = us @ [b]" by (metis append_butlast_last_id list.discI)
  have "al h (us @ b # a # map fst ys @ [e])" using A unfolding ub by simp
  then have "al h (b # a # map fst ys @ [e])" using al_append[of h us b "a # map fst ys @ [e]"] by simp
  then show "Mask (q_prev (h a)) = last (areaque im # map fst xs)" unfolding ub by simp
qed

section \<open>The routines on the list of areas\<close>

text \<open>Changing the flag of one area.\<close>

lemma hdrs_flag:
  assumes S: "shape im (xs @ (a, z, u) # ys) s e" and H: "hdrs im h (xs @ (a, z, u) # ys) e"
    and o: "\<And>c. c \<in> headers im (xs @ (a, z, u) # ys) e \<Longrightarrow> c \<noteq> a \<Longrightarrow> r c = h c"
    and ra: "q_next (r a) = q_next (h a)" "Mask (q_prev (r a)) = Mask (q_prev (h a))" "odd (q_prev (r a)) = v"
  shows "hdrs im r (xs @ (a, z, v) # ys) e"
proof -
  let ?L = "areaque im # map fst xs @ a # map fst ys @ [e]"
  have d: "distinct ?L" using shapeD(3)[OF S] by simp
  have L: "set ?L = headers im (xs @ (a, z, u) # ys) e" by (auto simp: headers_def)
  have c: "q_next (r c) = q_next (h c)" "Mask (q_prev (r c)) = Mask (q_prev (h c))" if "c \<in> set ?L" for c
    using o[OF that[unfolded L]] ra(1,2) by (cases "c = a", blast, simp)+
  have "al r ?L = al h ?L"
  proof (rule al_cong)
    show "q_next (r c) = q_next (h c)" if "c \<in> set (butlast ?L)" for c by (rule c(1)[OF in_set_butlastD[OF that]])
    show "Mask (q_prev (r c)) = Mask (q_prev (h c))" if "c \<in> set (tl ?L)" for c by (rule c(2)) (use that in simp)
  qed
  moreover have "odd (q_prev (r b)) = w" if "(b, y, w) \<in> set xs \<union> set ys" for b y w
  proof -
    have b: "b \<in> fst ` (set xs \<union> set ys)" using that by (metis fst_conv imageI)
    moreover have "a \<notin> fst ` (set xs \<union> set ys)" using d by (simp add: image_Un)
    ultimately have "b \<noteq> a" by blast
    then have "r b = h b" using o[of b] b by (simp add: headers_def image_Un)
    moreover have F: "\<forall>(a, z, u)\<in>set xs \<union> set ys. odd (q_prev (h a)) = u" using H by (simp add: hdrs_def ball_Un)
    ultimately show ?thesis using bspec[OF F that] by simp
  qed
  then have "\<forall>(b, y, w)\<in>set (xs @ (a, z, v) # ys). odd (q_prev (r b)) = w" using ra(3) by auto
  moreover have "e \<noteq> a" "areaque im \<noteq> a" using d by auto
  then have "r e = h e" "r (areaque im) = h (areaque im)" using o by (simp_all add: headers_def)
  ultimately show ?thesis using H unfolding hdrs_def by simp
qed

lemma setAreaFlag_cell: "setAreaFlag q h c = (if c = q then (h q)\<lparr>q_prev := q_prev (h q) OR 1\<rparr> else h c)"
  by (simp add: setAreaFlag_def set_prev_def)

lemma mark_used:
  assumes S: "shape im (xs @ (a, z, u) # ys) s e" and H: "hdrs im h (xs @ (a, z, u) # ys) e"
    and A: "frees im h A" "fst ` A \<subseteq> fst ` set (xs @ (a, z, u) # ys)"
  shows "hdrs im (setAreaFlag a h) (xs @ (a, z, True) # ys) e" "frees im (setAreaFlag a h) A"
    "hdrs im (clrAreaFlag a h) (xs @ (a, z, False) # ys) e" "frees im (clrAreaFlag a h) A"
proof -
  show "hdrs im (setAreaFlag a h) (xs @ (a, z, True) # ys) e"
    by (rule hdrs_flag[OF S H]) (auto simp: setAreaFlag_cell)
  show "hdrs im (clrAreaFlag a h) (xs @ (a, z, False) # ys) e"
    by (rule hdrs_flag[OF S H]) (auto simp: clrAreaFlag_cell)
  show "frees im (setAreaFlag a h) A" by (rule frees_headers[OF A(1) S A(2)]) (auto simp: setAreaFlag_cell headers_def)
  show "frees im (clrAreaFlag a h) A" by (rule frees_headers[OF A(1) S A(2)]) (auto simp: clrAreaFlag_cell headers_def)
qed

lemma free_removed:
  assumes S: "shape im bs s e" and H: "hdrs im h bs e" and A: "frees im h A" "fst ` A \<subseteq> fst ` set bs" and a: "(a, z) \<in> A"
  shows "hdrs im (knl_removeFreeQue (a + 8) h) bs e" "frees im (knl_removeFreeQue (a + 8) h) (A - {(a, z)})"
    "changed_in (insert (freeque im) (cells (fst ` A))) h (knl_removeFreeQue (a + 8) h)"
proof -
  let ?r = "knl_removeFreeQue (a + 8) h"
  obtain gs where gs: "free_que h (freeque im) gs" "free_set gs = A" using A(1) by (auto simp: frees_def)
  obtain gs' where gs': "free_que ?r (freeque im) gs'" "free_set gs' = A - {(a, z)}"
      "\<And>c. c \<notin> insert (freeque im) (cells (set (members gs))) \<Longrightarrow> ?r c = h c"
    using removeFreeQue[OF gs(1), of a z] a gs(2) by auto
  show "frees im ?r (A - {(a, z)})" using gs' by (auto simp: frees_def)
  show "changed_in (insert (freeque im) (cells (fst ` A))) h ?r" using gs'(3) gs(2) fst_free_set[of gs] by (simp add: changed_in_def)
  have "?r c = h c" if "c \<in> headers im bs e" for c
  proof (rule gs'(3))
    have "cells (set (members gs)) \<subseteq> cells (fst ` set bs)" using A(2) gs(2) fst_free_set[of gs] by (intro cells_mono) simp
    then show "c \<notin> insert (freeque im) (cells (set (members gs)))" using headers_apart[OF S that] by auto
  qed
  then show "hdrs im ?r bs e" using hdrs_frame[of im bs e ?r h] H by simp
qed

lemma free_appended:
  assumes S: "shape im (xs @ (a, z, u) # ys) s e" and H: "hdrs im h (xs @ (a, z, u) # ys) e"
    and A: "frees im h A" "fst ` A \<subseteq> fst ` set (xs @ (a, z, u) # ys)" and a: "a \<notin> fst ` A"
  shows "\<exists>r. knl_appendFreeArea im a h = Some r \<and> hdrs im r (xs @ (a, z, False) # ys) e \<and> frees im r (insert (a, z) A) \<and>
    changed_in (insert a (insert (freeque im) (cells (insert a (fst ` A))))) h r"
proof -
  let ?bs = "xs @ (a, z, u) # ys"
  obtain gs where gs: "free_que h (freeque im) gs" "free_set gs = A" using A(1) by (auto simp: frees_def)
  have m: "set (members gs) = fst ` A" using gs(2) fst_free_set[of gs] by simp
  have ah: "a \<in> headers im ?bs e" by (simp add: headers_def)
  have sub: "insert a (fst ` A) \<subseteq> fst ` set ?bs" using A(2) by simp
  have o: "freeque im < s \<or> e < freeque im" using S by (simp add: shape_def)
  have "16 \<le> z" "s \<le> a" "a + 8 + z \<le> e" using shapeD(2)[OF S, of a z u] by simp_all
  then have "freeque im \<noteq> a + 8" "freeque im \<noteq> a + 16" using o by linarith+
  moreover have "spaced (insert a (fst ` A))" by (rule spaced_mono[OF shapeD(4)[OF S]]) (use sub in auto)
  ultimately have fr: "fresh a (freeque im) gs" using a m by (simp add: fresh_def)
  have na: "a \<noteq> freeque im" using headers_apart[OF S ah] by auto
  obtain r gs' where r: "knl_appendFreeArea im a h = Some r" "free_que r (freeque im) gs'" "free_set gs' = insert (a, z) A"
      "r a = (h a)\<lparr>q_prev := Mask (q_prev (h a))\<rparr>"
      "\<And>c. c \<notin> insert a (insert (freeque im) (cells (insert a (fst ` A)))) \<Longrightarrow> r c = h c"
    using appendFreeArea[OF gs(1) fr na hdrs_next(2)[OF S H]] unfolding gs(2) m by blast
  have "hdrs im r (xs @ (a, z, False) # ys) e"
  proof (rule hdrs_flag[OF S H])
    fix c assume c: "c \<in> headers im ?bs e" "c \<noteq> a"
    then show "r c = h c" using r(5)[of c] headers_apart[OF S c(1)] cells_mono[OF sub] by blast
  qed (use r(4) in simp_all)
  then show ?thesis using r(1-3,5) unfolding frees_def changed_in_def by blast
qed

text \<open>Cutting an area in two, and joining two areas.\<close>

lemma shape_cut:
  assumes S: "shape im (xs @ (a, z, u) # ys) s e" and n: "16 \<le> n" "even n" "n + 24 \<le> z"
  shows "shape im (xs @ (a, n, u) # (a + 8 + n, z - n - 8, v) # ys) s e"
proof -
  have "even z" using shapeD(2)[OF S, of a z u] by simp
  moreover have "a + 8 + n + 8 + (z - n - 8) = a + 8 + z" using n by simp
  moreover have "8 + (a + z) = a + 8 + z" by simp
  ultimately show ?thesis using S n by (auto simp only: shape_def contig_append contig.simps set_append list.set ball_Un ball_simps prod.case) simp_all
qed

lemma area_cut:
  assumes S: "shape im (xs @ (a, z, u) # ys) s e" and H: "hdrs im h (xs @ (a, z, u) # ys) e"
    and A: "frees im h A" "fst ` A \<subseteq> fst ` set (xs @ (a, z, u) # ys)" and n: "16 \<le> n" "even n" "n + 24 \<le> z"
  defines "r \<equiv> knl_insertAreaQue a (a + 8 + n) h"
  shows "hdrs im r (xs @ (a, n, u) # (a + 8 + n, z - n - 8, False) # ys) e" "frees im r A"
    "changed_in (headers im (xs @ (a, n, u) # (a + 8 + n, z - n - 8, False) # ys) e) h r"
proof -
  let ?Q = "areaque im" and ?b = "a + 8 + n" let ?bs = "xs @ (a, n, u) # (?b, z - n - 8, False) # ys"
  have S2: "shape im ?bs s e" by (rule shape_cut[OF S n])
  have d: "distinct (?Q # map fst xs @ a # ?b # map fst ys @ [e])" using shapeD(3)[OF S2] by simp
  have ev: "even ?b" "even a" using shapeD(2)[OF S, of a z u] n by simp_all
  have nx: "q_next (h a) = a + 8 + z" by (rule hdrs_next(1)[OF S H])
  have "contig (a + 8 + z) ys e" using shapeD(1)[OF S] by (auto simp: contig_append)
  then obtain y zs where y: "map fst ys @ [e] = y # zs" "y = a + 8 + z" by (cases ys) auto
  have al0: "al h ((?Q # map fst xs) @ a # y # zs)" using H y(1) by (simp add: hdrs_def)
  have dl: "distinct ((?Q # map fst xs) @ a # y # zs)" "?b \<notin> set ((?Q # map fst xs) @ a # y # zs)"
    using d unfolding y(1) by auto
  have al1: "al r (?Q # map fst ?bs @ [e])"
    using al_insert[OF al0 dl ev] y(1) by (simp add: r_def)
  have ne: "?b \<noteq> a" "q_next (h a) \<noteq> ?b" using nx n by simp_all
  note C = insertAreaQue_cells[where h = h and que = a, OF ne ev(1), folded r_def, unfolded nx]
  have q: "e \<noteq> a" "e \<noteq> ?b" "?Q \<noteq> ?b" "?Q \<noteq> y" using d dl by auto
  have o: "odd (q_prev (r c)) = odd (q_prev (h c))" if "c \<noteq> ?b" for c using C(3)[of c] that by simp
  have "\<forall>(c, w, v)\<in>set ?bs. odd (q_prev (r c)) = v"
  proof -
    have "odd (q_prev (r c)) = v" if "(c, w, v) \<in> set xs \<union> set ys" for c w v
    proof -
      have "c \<in> fst ` (set xs \<union> set ys)" using that by (metis fst_conv imageI)
      moreover have "?b \<notin> fst ` (set xs \<union> set ys)" using d by (simp add: image_Un)
      ultimately have "c \<noteq> ?b" by blast
      moreover have F: "\<forall>(a, z, u)\<in>set xs \<union> set ys. odd (q_prev (h a)) = u" using H by (simp add: hdrs_def ball_Un)
      ultimately show ?thesis using o[of c] bspec[OF F that] by simp
    qed
    moreover have "odd (q_prev (r a)) = u" using o[of a] ne(1) hdrs_next(3)[OF S H] by simp
    moreover have "\<not> odd (q_prev (r ?b))" using C(3)[of ?b] ev by simp
    ultimately show ?thesis by auto
  qed
  moreover have "q_next (r e) = ?Q" "Mask (q_prev (r ?Q)) = e" using C(1)[of e] C(2)[of ?Q] q y(2) H by (simp_all add: hdrs_def)
  moreover have "odd (q_prev (r e))" "odd (q_prev (r ?Q))" using o q H by (simp_all add: hdrs_def)
  ultimately show "hdrs im r ?bs e" using al1 by (simp add: hdrs_def)
  have yh: "y \<in> insert e (fst ` set ys)" using y(1) by (cases ys) auto
  have k: "r c = h c" if "c \<notin> headers im ?bs e" for c
    by (rule C(4)) (use that yh y(2) in \<open>auto simp: headers_def\<close>)
  then show "changed_in (headers im ?bs e) h r" by (simp add: changed_in_def)
  show "frees im r A"
  proof (rule frees_headers[OF A(1) S2])
    show "fst ` A \<subseteq> fst ` set ?bs" using A(2) by auto
  qed (rule k)
qed

lemma shape_joined:
  assumes S: "shape im (xs @ (a, z, u) # (b, w, v) # ys) s e"
  shows "shape im (xs @ (a, z + 8 + w, u) # ys) s e" "b = a + 8 + z"
  using S by (auto simp: shape_def contig_append add.assoc)

lemma area_joined:
  assumes S: "shape im (xs @ (a, z, u) # (b, w, v) # ys) s e" and H: "hdrs im h (xs @ (a, z, u) # (b, w, v) # ys) e"
    and A: "frees im h A" "fst ` A \<subseteq> fst ` set (xs @ (a, z, u) # (b, w, v) # ys)"
  defines "r \<equiv> knl_removeAreaQue b h"
  shows "hdrs im r (xs @ (a, z + 8 + w, u) # ys) e" "frees im r A"
    "changed_in (headers im (xs @ (a, z, u) # (b, w, v) # ys) e) h r"
proof -
  let ?Q = "areaque im" let ?bs = "xs @ (a, z, u) # (b, w, v) # ys"
  have d: "distinct (?Q # map fst xs @ a # b # map fst ys @ [e])" using shapeD(3)[OF S] by simp
  have S': "shape im ((xs @ [(a, z, u)]) @ (b, w, v) # ys) s e" and H': "hdrs im h ((xs @ [(a, z, u)]) @ (b, w, v) # ys) e"
    using S H by simp_all
  have nx: "q_next (h b) = b + 8 + w" "Mask (q_prev (h b)) = a" using hdrs_next[OF S' H'] by simp_all
  have "contig (b + 8 + w) ys e" using shapeD(1)[OF S'] by (auto simp: contig_append)
  then obtain y zs where y: "map fst ys @ [e] = y # zs" "y = b + 8 + w" by (cases ys) auto
  have al0: "al h ((?Q # map fst xs) @ a # b # y # zs)" using H y(1) by (simp add: hdrs_def)
  have dl: "distinct ((?Q # map fst xs) @ a # b # y # zs)" using d unfolding y(1) by simp
  have al1: "al r (?Q # map fst (xs @ (a, z + 8 + w, u) # ys) @ [e])"
    using al_remove[OF al0 dl] y(1) by (simp add: r_def)
  have ne: "q_next (h b) \<noteq> b" "Mask (q_prev (h b)) \<noteq> b" using nx d by auto
  note C = removeAreaQue_cells[where h = h and aq = b, OF ne, folded r_def, unfolded nx]
  have q: "e \<noteq> a" "?Q \<noteq> y" using d dl by auto
  have "\<forall>(c, w, v)\<in>set (xs @ (a, z + 8 + w, u) # ys). odd (q_prev (r c)) = v"
    using H by (simp add: hdrs_def C(3))
  moreover have "q_next (r e) = ?Q" "Mask (q_prev (r ?Q)) = e" using C(1)[of e] C(2)[of ?Q] q y(2) H by (simp_all add: hdrs_def)
  ultimately show "hdrs im r (xs @ (a, z + 8 + w, u) # ys) e" using al1 H by (simp add: hdrs_def C(3))
  have yh: "y \<in> insert e (fst ` set ys)" using y(1) by (cases ys) auto
  have k: "r c = h c" if "c \<notin> headers im ?bs e" for c
    by (rule C(4)) (use that yh y(2) in \<open>auto simp: headers_def\<close>)
  then show "changed_in (headers im ?bs e) h r" by (simp add: changed_in_def)
  show "frees im r A" by (rule frees_headers[OF A(1) S A(2)]) (rule k)
qed

end
