(* ===== verification/Memory_Properties.thy ===== *)
theory Memory_Properties
  imports Memory_Heap
begin

text \<open>
  The allocator of \<^verbatim>\<open>memory.c\<close> as operations on the list of areas: \<^verbatim>\<open>knl_Imalloc\<close> takes a best fitting
  free area and leaves the rest of it free, \<^verbatim>\<open>knl_Ifree\<close> makes an area free and merges it with its free
  neighbours, and \<^verbatim>\<open>knl_init_Imalloc\<close> sets up one free area.
\<close>

section \<open>The state of the allocator\<close>

definition free_areas :: "area list \<Rightarrow> (addr \<times> nat) set" where
  "free_areas bs = {(a, z). (a, z, False) \<in> set bs}"

definition coalesced :: "area list \<Rightarrow> bool" where
  "coalesced bs \<longleftrightarrow> successively (\<lambda>x y. snd (snd x) \<or> snd (snd y)) bs"

definition heap_rep :: "IMACB \<Rightarrow> qheap \<Rightarrow> area list \<Rightarrow> addr \<Rightarrow> addr \<Rightarrow> bool" where
  "heap_rep im h bs s e \<longleftrightarrow> shape im bs s e \<and> hdrs im h bs e \<and> frees im h (free_areas bs) \<and> coalesced bs \<and> e < 2 ^ 31"

lemma free_areas_simps [simp]: "free_areas [] = {}" "free_areas (xs @ ys) = free_areas xs \<union> free_areas ys"
  "free_areas ((a, z, u) # bs) = (if u then free_areas bs else insert (a, z) (free_areas bs))"
  by (auto simp: free_areas_def)

lemma shape_flag: "shape im (xs @ (a, z, u) # ys) s e \<Longrightarrow> shape im (xs @ (a, z, v) # ys) s e"
  by (simp add: shape_def contig_append)

lemma free_areas_sub: "fst ` free_areas bs \<subseteq> fst ` set bs"
  by (force simp: free_areas_def)

lemma not_free_elsewhere:
  assumes "shape im (xs @ (a, z, u) # ys) s e" shows "a \<notin> fst ` free_areas xs" "a \<notin> fst ` free_areas ys" "(a, w) \<notin> free_areas xs" "(a, w) \<notin> free_areas ys"
proof -
  have "a \<notin> fst ` set xs" "a \<notin> fst ` set ys" using shapeD(3)[OF assms] by auto
  then show "a \<notin> fst ` free_areas xs" "a \<notin> fst ` free_areas ys" using free_areas_sub by blast+
  then show "(a, w) \<notin> free_areas xs" "(a, w) \<notin> free_areas ys" by force+
qed

text \<open>
  The cells that belong to the allocator: the headers, the heads of its queues, and two cells of each free
  area.
\<close>

definition own_cells :: "IMACB \<Rightarrow> area list \<Rightarrow> addr \<Rightarrow> addr set" where
  "own_cells im bs e = insert (freeque im) (headers im bs e \<union> cells (fst ` free_areas bs))"

section \<open>What is asked of the allocator\<close>

text \<open>The size that is allocated for a request, and what becomes of the area that is taken.\<close>

definition request :: "int \<Rightarrow> nat" where
  "request n = nat (max 16 ((n + 7) div 8 * 8))"

definition cut_area :: "nat \<Rightarrow> addr \<Rightarrow> nat \<Rightarrow> area list" where
  "cut_area n a z = (if n + 24 \<le> z then [(a, n, True), (a + 8 + n, z - n - 8, False)] else [(a, z, True)])"

text \<open>The areas after \<open>(a, z)\<close> between \<open>xs\<close> and \<open>ys\<close> was released.\<close>

definition join_next :: "nat \<Rightarrow> area list \<Rightarrow> nat \<times> area list" where
  "join_next z ys = (case ys of (b, w, u) # ys' \<Rightarrow> if u then (z, ys) else (z + 8 + w, ys') | [] \<Rightarrow> (z, ys))"

definition join_prev :: "area list \<Rightarrow> addr \<Rightarrow> nat \<Rightarrow> area list \<times> addr \<times> nat" where
  "join_prev xs a z =
     (if xs = [] then (xs, a, z)
      else case last xs of (p, w, u) \<Rightarrow> if u then (xs, a, z) else (butlast xs, p, w + 8 + z))"

definition release :: "area list \<Rightarrow> addr \<Rightarrow> nat \<Rightarrow> area list \<Rightarrow> area list" where
  "release xs a z ys =
     (let (z1, ys1) = join_next z ys; (xs1, p, z2) = join_prev xs a z1 in xs1 @ (p, z2, False) # ys1)"

lemma uint_small: "0 \<le> k \<Longrightarrow> k < 2 ^ 32 \<Longrightarrow> uint (word_of_int k :: UW) = k"
  by (simp add: uint_word_of_int)

lemma and_not_7: "uint (w AND NOT 7 :: 32 word) = uint w div 8 * 8"
  using and_not_mask_div[of w 3] by (simp add: mask_eq_exp_minus_1)

lemma ROUND_eq: "0 \<le> n \<Longrightarrow> n \<le> 0x7FFFFFF8 \<Longrightarrow> ROUND n = (n + 7) div 8 * 8"
proof -
  assume n: "0 \<le> n" "n \<le> 0x7FFFFFF8"
  have u: "uint ((word_of_int n + 7) AND NOT 7 :: UW) = (n + 7) div 8 * 8"
    unfolding and_not_7 using n by (simp add: uint_word_ariths uint_word_of_int)
  have "(n + 7) div 8 * 8 < 2 ^ 31" using n by simp
  then show ?thesis unfolding ROUND_def using u by (subst sint_below) simp_all
qed

lemma request_eq: "0 < n \<Longrightarrow> n \<le> 0x7FFFFFF8 \<Longrightarrow> (if n < MIN_FRAGMENT then MIN_FRAGMENT else ROUND n) = int (request n)"
  by (auto simp: request_def MIN_FRAGMENT_def ROUND_eq max_def)

lemma request_bounds: "16 \<le> request n" "n \<le> int (request n)" "even (request n)"
proof -
  have "even (nat (m * 8))" if "0 \<le> m" for m :: int using that by (simp add: nat_mult_distrib)
  then show "even (request n)" by (cases "0 \<le> (n + 7) div 8") (auto simp: request_def max_def)
qed (auto simp: request_def)

section \<open>Allocation\<close>

lemma best_fit_found:
  assumes F: "free_que h fq gs"
  obtains (none) "best_fit fq gs (int m) = fq" "\<And>a z. (a, z) \<in> free_set gs \<Longrightarrow> z < m"
  | (some) z f fs where "(z, f # fs) \<in> set gs" "best_fit fq gs (int m) = f + 8" "m \<le> z"
      "\<And>a w. (a, w) \<in> free_set gs \<Longrightarrow> m \<le> w \<Longrightarrow> z \<le> w"
  using F
proof (cases rule: best_fit_cases[where z = m])
  case (same as f fs bs)
  then show ?thesis using some[of m f fs] by auto
next
  case (new as bs)
  have small: "w < m" if "(a, w) \<in> free_set as" for a w using that new(2) by (force simp: free_set_def)
  show ?thesis
  proof (cases bs)
    case Nil
    then show ?thesis using none new small by auto
  next
    case (Cons b bs')
    have "group_ok h b" using free_queD(2)[OF F, of b] new(1) Cons by simp
    then obtain z f fs where b: "b = (z, f # fs)" by (cases b; cases "snd b") auto
    have "sorted_wrt (<) (map fst (b # bs'))" using free_queD(3)[OF F] new(1) Cons by (simp add: sorted_wrt_append)
    then have "z \<le> w" if "(a, w) \<in> free_set bs" for a w using that b Cons by (force simp: free_set_def)
    then have "z \<le> w" if "(a, w) \<in> free_set gs" "m \<le> w" for a w using that small[of a w] new(1) by auto
    moreover have "m \<le> z" using new(3)[of b] Cons b by simp
    ultimately show ?thesis using some[of z f fs] new(1,4) Cons b by (simp add: head_def)
  qed
qed

text \<open>The second half of \<^verbatim>\<open>knl_Imalloc\<close>: the area is taken from the free queue, cut and marked.\<close>

lemma split_marked:
  assumes S: "shape im (xs @ (a, z, False) # ys) s e" and H: "hdrs im h (xs @ (a, z, False) # ys) e"
    and A: "frees im h (free_areas (xs @ ys))" and z: "FreeSize (a + 8) h = int z" and e: "e < 2 ^ 31"
    and n: "16 \<le> n" "even n" "n \<le> z"
  shows "\<exists>h'. split_area im (a + 8) (int n) h = Some h' \<and> shape im (xs @ cut_area n a z @ ys) s e \<and>
    hdrs im (setAreaFlag a h') (xs @ cut_area n a z @ ys) e \<and> frees im (setAreaFlag a h') (free_areas (xs @ cut_area n a z @ ys)) \<and>
    changed_in (own_cells im (xs @ cut_area n a z @ ys) e) h (setAreaFlag a h')"
proof (cases "n + 24 \<le> z")
  case True
  let ?b = "a + 8 + n" let ?bs = "xs @ (a, n, False) # (?b, z - n - 8, False) # ys"
  have ze: "a + 8 + z \<le> e" using shapeD(2)[OF S, of a z False] by simp
  have u: "uint (word_of_int (int z - int n) :: UW) = int z - int n" by (rule uint_small) (use True ze e in simp_all)
  have b: "unat (word_of_int (int (a + 8) + int n) :: UW) = ?b"
    unfolding nat_uint_eq[symmetric] by (subst uint_small) (use True ze e in auto)
  have sub: "fst ` free_areas (xs @ ys) \<subseteq> fst ` set (xs @ (a, z, False) # ys)" using free_areas_sub[of "xs @ ys"] by auto
  have S2: "shape im ?bs s e" by (rule shape_cut[OF S n(1,2) True])
  note C = area_cut[OF S H A sub n(1,2) True]
  let ?h1 = "knl_insertAreaQue a ?b h"
  have S3: "shape im ((xs @ [(a, n, False)]) @ (?b, z - n - 8, False) # ys) s e" using S2 by simp
  have "?b \<notin> fst ` free_areas (xs @ ys)" using not_free_elsewhere(1,2)[OF S3] by auto
  moreover have "fst ` free_areas (xs @ ys) \<subseteq> fst ` set ((xs @ [(a, n, False)]) @ (?b, z - n - 8, False) # ys)" using free_areas_sub[of "xs @ ys"] by auto
  ultimately obtain r where r: "knl_appendFreeArea im ?b ?h1 = Some r" "hdrs im r ?bs e" "frees im r (insert (?b, z - n - 8) (free_areas (xs @ ys)))"
      "changed_in (insert ?b (insert (freeque im) (cells (insert ?b (fst ` free_areas (xs @ ys)))))) ?h1 r"
    using free_appended[OF S3 _ C(2)] C(1) by auto
  have sp: "split_area im (a + 8) (int n) h = Some r" using r(1) z u b True by (simp add: split_area_def MIN_FRAGMENT_def Let_def)
  have sub2: "fst ` insert (?b, z - n - 8) (free_areas (xs @ ys)) \<subseteq> fst ` set ?bs" using free_areas_sub[of "xs @ ys"] by auto
  have "shape im (xs @ (a, n, True) # (?b, z - n - 8, False) # ys) s e" by (rule shape_flag[OF S2])
  moreover have "changed_in (own_cells im (xs @ cut_area n a z @ ys) e) h (setAreaFlag a r)"
  proof (rule changed_in_trans[OF changed_in_mono[OF C(3)] changed_in_trans[OF changed_in_mono[OF r(4)]]])
    show "changed_in (own_cells im (xs @ cut_area n a z @ ys) e) r (setAreaFlag a r)"
      using True by (simp add: changed_in_def setAreaFlag_cell own_cells_def headers_def cut_area_def)
  qed (use True in \<open>auto simp: own_cells_def headers_def cut_area_def cells_def image_Un\<close>)
  ultimately show ?thesis using sp mark_used(1,2)[OF S2 r(2,3) sub2] True by (simp add: cut_area_def)
next
  case False
  have "uint (word_of_int (int z - int n) :: UW) = int z - int n" by (rule uint_small) (use False n in simp_all)
  then have sp: "split_area im (a + 8) (int n) h = Some h" using False n z by (simp add: split_area_def MIN_FRAGMENT_def)
  have sub: "fst ` free_areas (xs @ ys) \<subseteq> fst ` set (xs @ (a, z, False) # ys)" using free_areas_sub[of "xs @ ys"] by auto
  have "shape im (xs @ (a, z, True) # ys) s e" by (rule shape_flag[OF S])
  moreover have "changed_in (own_cells im (xs @ cut_area n a z @ ys) e) h (setAreaFlag a h)"
    using False by (simp add: changed_in_def setAreaFlag_cell own_cells_def headers_def cut_area_def)
  ultimately show ?thesis using sp mark_used(1,2)[OF S H A sub] False by (simp add: cut_area_def)
qed

lemma coalesced_cut: "coalesced (xs @ (a, z, False) # ys) \<Longrightarrow> coalesced (xs @ cut_area n a z @ ys)"
  by (auto simp: coalesced_def cut_area_def successively_append_iff successively_Cons)

lemma Imalloc_cells:
  assumes R: "heap_rep im h bs s e" and n: "0 < n" "n \<le> 0x7FFFFFF8"
  shows "(\<forall>(a, z) \<in> free_areas bs. z < request n) \<and> knl_Imalloc im n h = Some (0, h) \<or>
    (\<exists>xs a z ys h'. bs = xs @ (a, z, False) # ys \<and> request n \<le> z \<and> (\<forall>(b, w) \<in> free_areas bs. request n \<le> w \<longrightarrow> z \<le> w) \<and>
       knl_Imalloc im n h = Some (a + 8, h') \<and> heap_rep im h' (xs @ cut_area (request n) a z @ ys) s e \<and>
       changed_in (own_cells im bs e \<union> own_cells im (xs @ cut_area (request n) a z @ ys) e) h h')"
proof -
  have S: "shape im bs s e" and H: "hdrs im h bs e" and A: "frees im h (free_areas bs)" and c: "coalesced bs" and e: "e < 2 ^ 31"
    using R by (auto simp: heap_rep_def)
  let ?m = "request n" and ?fq = "freeque im"
  obtain gs where gs: "free_que h ?fq gs" "free_set gs = free_areas bs" using A by (auto simp: frees_def)
  note F = searchFreeArea_fit[OF gs(1), of "int ?m"] and q = request_eq[OF n]
  from gs(1) show ?thesis
  proof (cases rule: best_fit_found[where m = ?m])
    case none
    then have "knl_Imalloc im n h = Some (0, h)" using F n q by (simp add: knl_Imalloc_def)
    then show ?thesis using none(2) gs(2) by auto
  next
    case (some z f fs)
    have fA: "(f, z) \<in> free_areas bs" using some(1) gs(2) by (force simp: free_set_def)
    then obtain xs ys where bs: "bs = xs @ (f, z, False) # ys" unfolding free_areas_def by (auto dest!: split_list)
    note S1 = S[unfolded bs] and H1 = H[unfolded bs]
    let ?h1 = "knl_removeFreeQue (f + 8) h"
    have "free_areas bs - {(f, z)} = free_areas (xs @ ys)" using not_free_elsewhere(3,4)[OF S1] bs by auto
    then have r: "hdrs im ?h1 (xs @ (f, z, False) # ys) e" "frees im ?h1 (free_areas (xs @ ys))"
      using free_removed(1,2)[OF S H A free_areas_sub fA] bs by simp_all
    have c1: "changed_in (own_cells im bs e) h ?h1"
      by (rule changed_in_mono[OF free_removed(3)[OF S H A free_areas_sub fA]]) (auto simp: own_cells_def)
    obtain h' where h': "split_area im (f + 8) (int ?m) ?h1 = Some h'" "shape im (xs @ cut_area ?m f z @ ys) s e"
        "hdrs im (setAreaFlag f h') (xs @ cut_area ?m f z @ ys) e" "frees im (setAreaFlag f h') (free_areas (xs @ cut_area ?m f z @ ys))"
        "changed_in (own_cells im (xs @ cut_area ?m f z @ ys) e) ?h1 (setAreaFlag f h')"
      using split_marked[OF S1 r removeFreeQue_size[OF gs(1) some(1)] e request_bounds(1,3) some(3)] by auto
    have "f + 8 \<noteq> ?fq" using free_queD(6)[OF gs(1)] group_members[OF some(1)] by (force simp: cells_def)
    then have "knl_Imalloc im n h = Some (f + 8, setAreaFlag f h')" using F some(2) n q h'(1) by (simp add: knl_Imalloc_def Let_def)
    moreover have "heap_rep im (setAreaFlag f h') (xs @ cut_area ?m f z @ ys) s e"
      using h'(2-4) e coalesced_cut[of xs f z ys ?m] c bs by (simp only: heap_rep_def)
    moreover have "\<forall>(b, w) \<in> free_areas bs. ?m \<le> w \<longrightarrow> z \<le> w" using some(4) gs(2) by auto
    moreover have "changed_in (own_cells im bs e \<union> own_cells im (xs @ cut_area ?m f z @ ys) e) h (setAreaFlag f h')"
      by (rule changed_in_trans[OF changed_in_mono[OF c1] changed_in_mono[OF h'(5)]]) auto
    ultimately show ?thesis using some(3) bs by blast
  qed
qed

lemma Imalloc_rep:
  assumes R: "heap_rep im h bs s e" and n: "0 < n" "n \<le> 0x7FFFFFF8"
  shows "(\<forall>(a, z) \<in> free_areas bs. z < request n) \<and> knl_Imalloc im n h = Some (0, h) \<or>
    (\<exists>xs a z ys h'. bs = xs @ (a, z, False) # ys \<and> request n \<le> z \<and> (\<forall>(b, w) \<in> free_areas bs. request n \<le> w \<longrightarrow> z \<le> w) \<and>
       knl_Imalloc im n h = Some (a + 8, h') \<and> heap_rep im h' (xs @ cut_area (request n) a z @ ys) s e)"
  using Imalloc_cells[OF assms] by blast

section \<open>Release\<close>

lemma merge_next_rep:
  assumes S: "shape im (xs @ (a, z, False) # ys) s e" and H: "hdrs im h (xs @ (a, z, False) # ys) e"
    and A: "frees im h (free_areas (xs @ ys))" and j: "join_next z ys = (z1, ys1)"
  shows "shape im (xs @ (a, z1, False) # ys1) s e" "hdrs im (merge_next a h) (xs @ (a, z1, False) # ys1) e"
    "frees im (merge_next a h) (free_areas (xs @ ys1))" "changed_in (own_cells im (xs @ (a, z, False) # ys) e) h (merge_next a h)"
proof -
  have nx: "q_next (h a) = a + 8 + z" by (rule hdrs_next(1)[OF S H])
  have sub: "fst ` free_areas (xs @ ys) \<subseteq> fst ` set (xs @ (a, z, False) # ys)" using free_areas_sub[of "xs @ ys"] by auto
  have "shape im (xs @ (a, z1, False) # ys1) s e \<and> hdrs im (merge_next a h) (xs @ (a, z1, False) # ys1) e \<and>
    frees im (merge_next a h) (free_areas (xs @ ys1)) \<and> changed_in (own_cells im (xs @ (a, z, False) # ys) e) h (merge_next a h)"
  proof (cases "\<exists>b w ys'. ys = (b, w, False) # ys'")
    case False
    have "odd (q_prev (h (a + 8 + z)))"
    proof (cases ys)
      case Nil
      then show ?thesis using shapeD(1)[OF S] H by (auto simp: contig_append hdrs_def)
    next
      case (Cons y ys')
      then obtain b w where y: "y = (b, w, True)" using False by (cases y) auto
      then show ?thesis using shapeD(1)[OF S] H Cons by (auto simp: contig_append hdrs_def)
    qed
    then have "merge_next a h = h" using nx by (simp add: merge_next_def chkAreaFlag_odd)
    moreover have "z1 = z" "ys1 = ys" using j False by (auto simp: join_next_def split: list.splits if_splits)
    ultimately show ?thesis using S H A by simp
  next
    case True
    then obtain b w ys' where ys: "ys = (b, w, False) # ys'" by auto
    have z1: "z1 = z + 8 + w" "ys1 = ys'" using j ys by (simp_all add: join_next_def)
    note S1 = S[unfolded ys] and H1 = H[unfolded ys]
    have S2: "shape im ((xs @ [(a, z, False)]) @ (b, w, False) # ys') s e" and H2: "hdrs im h ((xs @ [(a, z, False)]) @ (b, w, False) # ys') e"
      using S1 H1 by simp_all
    have b: "b = a + 8 + z" by (rule shape_joined(2)[OF S1])
    let ?h1 = "knl_removeFreeQue (b + 8) h"
    have mem: "(b, w) \<in> free_areas (xs @ ys)" using ys by simp
    have "free_areas (xs @ ys) - {(b, w)} = free_areas (xs @ ys')" using not_free_elsewhere(3,4)[OF S2] ys by auto
    then have r: "hdrs im ?h1 (xs @ (a, z, False) # (b, w, False) # ys') e" "frees im ?h1 (free_areas (xs @ ys'))"
      using free_removed(1,2)[OF S H A sub mem] ys by simp_all
    have c1: "changed_in (own_cells im (xs @ (a, z, False) # ys) e) h ?h1"
      by (rule changed_in_mono[OF free_removed(3)[OF S H A sub mem]]) (auto simp: own_cells_def cells_def)
    have "\<not> chkAreaFlag b h" using hdrs_next(3)[OF S2 H2] by (simp add: chkAreaFlag_odd)
    then have m: "merge_next a h = knl_removeAreaQue b ?h1" using nx b hdrs_next(1)[OF S1 r(1)] by (simp add: merge_next_def Let_def)
    have "fst ` free_areas (xs @ ys') \<subseteq> fst ` set (xs @ (a, z, False) # (b, w, False) # ys')" using free_areas_sub[of "xs @ ys'"] by auto
    note J = area_joined[OF S1 r this]
    have "changed_in (own_cells im (xs @ (a, z, False) # ys) e) ?h1 (knl_removeAreaQue b ?h1)"
      by (rule changed_in_mono[OF J(3)]) (auto simp: own_cells_def ys)
    then have "changed_in (own_cells im (xs @ (a, z, False) # ys) e) h (knl_removeAreaQue b ?h1)" by (rule changed_in_trans[OF c1])
    then show ?thesis using J(1,2) shape_joined(1)[OF S1] by (simp add: m z1)
  qed
  then show "shape im (xs @ (a, z1, False) # ys1) s e" "hdrs im (merge_next a h) (xs @ (a, z1, False) # ys1) e"
    "frees im (merge_next a h) (free_areas (xs @ ys1))" "changed_in (own_cells im (xs @ (a, z, False) # ys) e) h (merge_next a h)"
    by simp_all
qed

lemma merge_prev_rep:
  assumes S: "shape im (xs @ (a, z, False) # ys) s e" and H: "hdrs im h (xs @ (a, z, False) # ys) e"
    and A: "frees im h (free_areas (xs @ ys))" and j: "join_prev xs a z = (xs1, p, z2)"
  shows "\<exists>h'. merge_prev a h = (p, h') \<and> shape im (xs1 @ (p, z2, False) # ys) s e \<and> hdrs im h' (xs1 @ (p, z2, False) # ys) e \<and>
    frees im h' (free_areas (xs1 @ ys)) \<and> changed_in (own_cells im (xs @ (a, z, False) # ys) e) h h'"
proof -
  have "even (q_prev (h a))" using hdrs_next(3)[OF S H] by simp
  then have pv: "q_prev (h a) = last (areaque im # map fst xs)" using hdrs_next(4)[OF S H] by simp
  have sub: "fst ` free_areas (xs @ ys) \<subseteq> fst ` set (xs @ (a, z, False) # ys)" using free_areas_sub[of "xs @ ys"] by auto
  show ?thesis
  proof (cases "\<exists>xs' b w. xs = xs' @ [(b, w, False)]")
    case False
    have "odd (q_prev (h (last (areaque im # map fst xs))))"
    proof (cases xs rule: rev_cases)
      case Nil
      then show ?thesis using H by (simp add: hdrs_def)
    next
      case (snoc xs' x)
      then obtain b w where x: "x = (b, w, True)" using False by (cases x) auto
      then show ?thesis using H snoc by (simp add: hdrs_def)
    qed
    then have "merge_prev a h = (a, h)" using pv by (simp add: merge_prev_def chkAreaFlag_odd)
    moreover have "xs1 = xs" "p = a" "z2 = z"
      using j False by (cases xs rule: rev_cases; auto simp: join_prev_def split: if_splits prod.splits)+
    ultimately show ?thesis using S H A by simp
  next
    case True
    then obtain xs' b w where xs: "xs = xs' @ [(b, w, False)]" by auto
    have z2: "xs1 = xs'" "p = b" "z2 = w + 8 + z" using j xs by (simp_all add: join_prev_def)
    have S1: "shape im (xs' @ (b, w, False) # (a, z, False) # ys) s e" and H1: "hdrs im h (xs' @ (b, w, False) # (a, z, False) # ys) e"
      using S H xs by simp_all
    let ?h1 = "knl_removeFreeQue (b + 8) h"
    have mem: "(b, w) \<in> free_areas (xs @ ys)" using xs by simp
    have "free_areas (xs @ ys) - {(b, w)} = free_areas (xs' @ ys)" using not_free_elsewhere(3,4)[OF S1, of w] xs by auto
    then have r: "hdrs im ?h1 (xs' @ (b, w, False) # (a, z, False) # ys) e" "frees im ?h1 (free_areas (xs' @ ys))"
      using free_removed(1,2)[OF S H A sub mem] xs by simp_all
    have c1: "changed_in (own_cells im (xs @ (a, z, False) # ys) e) h ?h1"
      by (rule changed_in_mono[OF free_removed(3)[OF S H A sub mem]]) (auto simp: own_cells_def cells_def)
    have "\<not> chkAreaFlag b h" using hdrs_next(3)[OF S1 H1] by (simp add: chkAreaFlag_odd)
    moreover have "q_next (?h1 b) = a" using hdrs_next(1)[OF S1 r(1)] shape_joined(2)[OF S1] by simp
    ultimately have m: "merge_prev a h = (b, knl_removeAreaQue a ?h1)" using pv xs by (simp add: merge_prev_def Let_def)
    have "fst ` free_areas (xs' @ ys) \<subseteq> fst ` set (xs' @ (b, w, False) # (a, z, False) # ys)" using free_areas_sub[of "xs' @ ys"] by auto
    note J = area_joined[OF S1 r this]
    have "changed_in (own_cells im (xs @ (a, z, False) # ys) e) ?h1 (knl_removeAreaQue a ?h1)"
      by (rule changed_in_mono[OF J(3)]) (auto simp: own_cells_def xs)
    then have "changed_in (own_cells im (xs @ (a, z, False) # ys) e) h (knl_removeAreaQue a ?h1)" by (rule changed_in_trans[OF c1])
    then show ?thesis using J(1,2) shape_joined(1)[OF S1] by (simp add: m z2)
  qed
qed

lemma coalesced_release: "coalesced (xs @ (a, z, True) # ys) \<Longrightarrow> coalesced (release xs a z ys)"
  by (cases xs rule: rev_cases; cases ys)
    (auto simp: release_def join_next_def join_prev_def coalesced_def successively_append_iff successively_Cons split: prod.splits if_splits)

lemma own_cells_mono:
  assumes "fst ` set bs \<subseteq> fst ` set bs'" "fst ` free_areas bs \<subseteq> fst ` free_areas bs'" shows "own_cells im bs e \<subseteq> own_cells im bs' e"
  using assms cells_mono[OF assms(2)] by (auto simp: own_cells_def headers_def)

lemma own_cells_joined:
  assumes "join_next z ys = (z1, ys1)"
  shows "own_cells im (xs @ (a, z1, False) # ys1) e \<subseteq> own_cells im (xs @ (a, z, False) # ys) e"
proof (rule own_cells_mono)
  have "set ys1 \<subseteq> set ys" using assms by (auto simp: join_next_def split: list.splits if_splits)
  then show "fst ` set (xs @ (a, z1, False) # ys1) \<subseteq> fst ` set (xs @ (a, z, False) # ys)"
    "fst ` free_areas (xs @ (a, z1, False) # ys1) \<subseteq> fst ` free_areas (xs @ (a, z, False) # ys)"
    by (auto simp: free_areas_def image_iff Bex_def)
qed

lemma Ifree_cells:
  assumes R: "heap_rep im h (xs @ (a, z, True) # ys) s e"
  shows "\<exists>h'. knl_Ifree im (a + 8) h = Some h' \<and> heap_rep im h' (release xs a z ys) s e \<and>
    changed_in (own_cells im (xs @ (a, z, False) # ys) e \<union> own_cells im (release xs a z ys) e) h h'"
proof -
  let ?bs = "xs @ (a, z, True) # ys"
  have S: "shape im ?bs s e" and H: "hdrs im h ?bs e" and A: "frees im h (free_areas ?bs)" and c: "coalesced ?bs" and e: "e < 2 ^ 31"
    using R by (auto simp: heap_rep_def)
  let ?h1 = "clrAreaFlag a h"
  have S1: "shape im (xs @ (a, z, False) # ys) s e" by (rule shape_flag[OF S])
  have r1: "hdrs im ?h1 (xs @ (a, z, False) # ys) e" "frees im ?h1 (free_areas (xs @ ys))"
    using mark_used(3,4)[OF S H A free_areas_sub] by simp_all
  obtain z1 ys1 where jn: "join_next z ys = (z1, ys1)" by fastforce
  obtain xs1 p z2 where jp: "join_prev xs a z1 = (xs1, p, z2)" by (metis prod_cases3)
  note M = merge_next_rep[OF S1 r1 jn]
  obtain h3 where h3: "merge_prev a (merge_next a ?h1) = (p, h3)" "shape im (xs1 @ (p, z2, False) # ys1) s e"
      "hdrs im h3 (xs1 @ (p, z2, False) # ys1) e" "frees im h3 (free_areas (xs1 @ ys1))"
      "changed_in (own_cells im (xs @ (a, z1, False) # ys1) e) (merge_next a ?h1) h3"
    using merge_prev_rep[OF M(1-3) jp] by auto
  have "fst ` free_areas (xs1 @ ys1) \<subseteq> fst ` set (xs1 @ (p, z2, False) # ys1)" using free_areas_sub[of "xs1 @ ys1"] by auto
  moreover have "p \<notin> fst ` free_areas (xs1 @ ys1)" using not_free_elsewhere(1,2)[OF h3(2)] by auto
  ultimately obtain h4 where h4: "knl_appendFreeArea im p h3 = Some h4" "hdrs im h4 (xs1 @ (p, z2, False) # ys1) e"
      "frees im h4 (insert (p, z2) (free_areas (xs1 @ ys1)))"
      "changed_in (insert p (insert (freeque im) (cells (insert p (fst ` free_areas (xs1 @ ys1)))))) h3 h4"
    using free_appended[OF h3(2-4)] by auto
  have rl: "release xs a z ys = xs1 @ (p, z2, False) # ys1" using jn jp by (simp add: release_def)
  let ?K = "own_cells im (xs @ (a, z, False) # ys) e"
  have "changed_in ?K h ?h1" by (simp add: changed_in_def clrAreaFlag_cell own_cells_def headers_def)
  then have "changed_in ?K h (merge_next a ?h1)" using M(4) by (rule changed_in_trans)
  then have "changed_in ?K h h3" by (rule changed_in_trans) (rule changed_in_mono[OF h3(5) own_cells_joined[OF jn]])
  moreover have "changed_in (own_cells im (release xs a z ys) e) h3 h4"
    by (rule changed_in_mono[OF h4(4)]) (auto simp: rl own_cells_def headers_def cells_def)
  ultimately have "changed_in (?K \<union> own_cells im (release xs a z ys) e) h h4"
    by (intro changed_in_trans[OF changed_in_mono[of ?K h h3] changed_in_mono[of _ h3 h4]]) auto
  moreover have "heap_rep im h4 (release xs a z ys) s e" using h3(2) h4(2,3) e coalesced_release[OF c] by (simp add: heap_rep_def rl)
  moreover have "knl_Ifree im (a + 8) h = Some h4" using h3(1) h4(1) by (simp add: knl_Ifree_def Let_def)
  ultimately show ?thesis by blast
qed

lemma Ifree_rep:
  assumes R: "heap_rep im h (xs @ (a, z, True) # ys) s e"
  shows "\<exists>h'. knl_Ifree im (a + 8) h = Some h' \<and> heap_rep im h' (release xs a z ys) s e"
  using Ifree_cells[OF assms] by blast

section \<open>The allocator as an interface\<close>

text \<open>
  What a user of an allocator relies on: \<open>rep h L\<close> says that in \<open>h\<close> exactly the blocks \<open>L\<close>, given by
  address and size, are allocated. A call always returns; an allocation gives a new block of at least the
  requested size, or the null pointer; a release takes the block away; blocks do not overlap.
\<close>

locale allocator =
  fixes alloc :: "int \<Rightarrow> 'h \<Rightarrow> (addr \<times> 'h) option" and free :: "addr \<Rightarrow> 'h \<Rightarrow> 'h option"
    and rep :: "'h \<Rightarrow> (addr \<times> nat) set \<Rightarrow> bool" and good :: "int \<Rightarrow> bool"
  assumes alloc_law: "rep h L \<Longrightarrow> good n \<Longrightarrow>
      (\<exists>h'. alloc n h = Some (0, h') \<and> rep h' L) \<or>
      (\<exists>p z h'. alloc n h = Some (p, h') \<and> p \<noteq> 0 \<and> p \<notin> fst ` L \<and> n \<le> int z \<and> rep h' (insert (p, z) L))"
    and free_law: "rep h L \<Longrightarrow> (p, z) \<in> L \<Longrightarrow> \<exists>h'. free p h = Some h' \<and> rep h' (L - {(p, z)})"
    and apart: "rep h L \<Longrightarrow> (p, z) \<in> L \<Longrightarrow> (q, w) \<in> L \<Longrightarrow> p \<noteq> q \<Longrightarrow> p + z \<le> q \<or> q + w \<le> p"
    and one_size: "rep h L \<Longrightarrow> (p, z) \<in> L \<Longrightarrow> (p, w) \<in> L \<Longrightarrow> z = w"

text \<open>A history of calls; what is released is one of the blocks the history has allocated.\<close>

datatype heap_call = Alloc int | Free addr

fun heap_run :: "(int \<Rightarrow> 'h \<Rightarrow> (addr \<times> 'h) option) \<Rightarrow> (addr \<Rightarrow> 'h \<Rightarrow> 'h option) \<Rightarrow> heap_call list \<Rightarrow> 'h \<times> addr set \<Rightarrow> ('h \<times> addr set) option" where
  "heap_run alloc free [] st = Some st"
| "heap_run alloc free (Alloc n # cs) (h, P) =
     (case alloc n h of None \<Rightarrow> None
      | Some (p, h1) \<Rightarrow> heap_run alloc free cs (h1, if p = 0 then P else insert p P))"
| "heap_run alloc free (Free p # cs) (h, P) =
     (if p \<in> P then case free p h of None \<Rightarrow> None | Some h1 \<Rightarrow> heap_run alloc free cs (h1, P - {p})
      else heap_run alloc free cs (h, P))"

context allocator
begin

lemma run_rep:
  "rep h L \<Longrightarrow> (\<And>n. Alloc n \<in> set cs \<Longrightarrow> good n) \<Longrightarrow>
     \<exists>h' L'. heap_run alloc free cs (h, fst ` L) = Some (h', fst ` L') \<and> rep h' L'"
proof (induction cs arbitrary: h L)
  case (Cons c cs)
  note IH = Cons.IH[of _ _, OF _ Cons.prems(2)]
  show ?case
  proof (cases c)
    case (Alloc n)
    then have "good n" using Cons.prems(2) by simp
    from alloc_law[OF Cons.prems(1) this] show ?thesis
    proof (elim disjE exE conjE)
      fix h' assume "alloc n h = Some (0, h')" "rep h' L"
      then show ?thesis using IH[of h' L] Alloc by simp
    next
      fix p z h' assume "alloc n h = Some (p, h')" "p \<noteq> 0" "rep h' (insert (p, z) L)"
      then show ?thesis using IH[of h' "insert (p, z) L"] Alloc by simp
    qed
  next
    case (Free p)
    show ?thesis
    proof (cases "p \<in> fst ` L")
      case True
      then obtain z where z: "(p, z) \<in> L" by auto
      then obtain h' where h': "free p h = Some h'" "rep h' (L - {(p, z)})" using free_law[OF Cons.prems(1)] by blast
      have "fst ` (L - {(p, z)}) = fst ` L - {p}" using one_size[OF Cons.prems(1) z] by force
      then show ?thesis using IH[OF h'(2)] h'(1) True Free by simp
    next
      case False
      then show ?thesis using IH[OF Cons.prems(1)] Free by simp
    qed
  qed
qed auto

end

definition live :: "area list \<Rightarrow> (addr \<times> nat) set" where
  "live bs = {(a + 8, z) | a z. (a, z, True) \<in> set bs}"

lemma live_simps [simp]: "live [] = {}" "live (xs @ ys) = live xs \<union> live ys"
  "live ((a, z, u) # bs) = (if u then insert (a + 8, z) (live bs) else live bs)"
  by (auto simp: live_def)

lemma fst_live: "fst ` live bs \<subseteq> (\<lambda>a. a + 8) ` fst ` set bs"
  by (force simp: live_def)

lemma not_live_elsewhere:
  assumes "shape im (xs @ (a, z, u) # ys) s e" shows "a + 8 \<notin> fst ` live xs" "a + 8 \<notin> fst ` live ys"
proof -
  have "a \<notin> fst ` set xs" "a \<notin> fst ` set ys" using shapeD(3)[OF assms] by auto
  then show "a + 8 \<notin> fst ` live xs" "a + 8 \<notin> fst ` live ys" using fst_live[of xs] fst_live[of ys] by force+
qed

lemma live_release: "live (release xs a z ys) = live xs \<union> live ys"
  by (cases xs rule: rev_cases; cases ys) (auto simp: release_def join_next_def join_prev_def split: prod.splits if_splits)

lemma live_removed:
  assumes "shape im (xs @ (a, z, True) # ys) s e" shows "live (release xs a z ys) = live (xs @ (a, z, True) # ys) - {(a + 8, z)}"
proof -
  have "(a + 8, z) \<notin> live xs" "(a + 8, z) \<notin> live ys" using not_live_elsewhere[OF assms] by force+
  then show ?thesis by (auto simp: live_release)
qed

lemma live_cut: "\<exists>z'. n \<le> z' \<and> live (cut_area n a z) = {(a + 8, z')}" if "n \<le> z"
  using that by (auto simp: cut_area_def)

lemma contig_disjoint:
  "contig s bs e \<Longrightarrow> (a, z, u) \<in> set bs \<Longrightarrow> (b, w, v) \<in> set bs \<Longrightarrow> a \<noteq> b \<Longrightarrow> a + 8 + z \<le> b \<or> b + 8 + w \<le> a"
  by (induction s bs e rule: contig.induct) (auto dest: contig_bounds)

definition im_rep :: "IMACB \<Rightarrow> addr \<Rightarrow> addr \<Rightarrow> qheap \<Rightarrow> (addr \<times> nat) set \<Rightarrow> bool" where
  "im_rep im s e h L \<longleftrightarrow> (\<exists>bs. heap_rep im h bs s e \<and> L = live bs)"

definition im_size :: "int \<Rightarrow> bool" where
  "im_size n \<longleftrightarrow> 0 < n \<and> n \<le> 0x7FFFFFF8"

lemma Imalloc_law:
  assumes R: "im_rep im s e h L" and n: "im_size n"
  shows "(\<exists>h'. knl_Imalloc im n h = Some (0, h') \<and> im_rep im s e h' L) \<or>
    (\<exists>p z h'. knl_Imalloc im n h = Some (p, h') \<and> p \<noteq> 0 \<and> p \<notin> fst ` L \<and> n \<le> int z \<and> im_rep im s e h' (insert (p, z) L))"
proof -
  obtain bs where bs: "heap_rep im h bs s e" "L = live bs" using R by (auto simp: im_rep_def)
  have "0 < n" "n \<le> 0x7FFFFFF8" using n by (auto simp: im_size_def)
  from Imalloc_rep[OF bs(1) this] show ?thesis
  proof (elim disjE exE conjE)
    assume "knl_Imalloc im n h = Some (0, h)"
    then show ?thesis using R by blast
  next
    fix xs a z ys h' assume b: "bs = xs @ (a, z, False) # ys" "request n \<le> z" "knl_Imalloc im n h = Some (a + 8, h')"
      "heap_rep im h' (xs @ cut_area (request n) a z @ ys) s e"
    obtain z' where z': "request n \<le> z'" "live (cut_area (request n) a z) = {(a + 8, z')}" using live_cut[OF b(2)] by blast
    have "shape im (xs @ (a, z, False) # ys) s e" using bs(1) b(1) by (simp add: heap_rep_def)
    then have "a + 8 \<notin> fst ` L" using not_live_elsewhere[of im xs a z False ys s e] bs(2) b(1) by auto
    moreover have "live (xs @ cut_area (request n) a z @ ys) = insert (a + 8, z') L" using bs(2) b(1) z'(2) by simp
    then have "im_rep im s e h' (insert (a + 8, z') L)" using b(4) unfolding im_rep_def by metis
    moreover have "n \<le> int z'" using request_bounds(2)[of n] z'(1) by linarith
    ultimately show ?thesis using b(3) by (intro disjI2 exI conjI) auto
  qed
qed

lemma Ifree_law:
  assumes R: "im_rep im s e h L" and p: "(p, z) \<in> L"
  shows "\<exists>h'. knl_Ifree im p h = Some h' \<and> im_rep im s e h' (L - {(p, z)})"
proof -
  obtain bs where bs: "heap_rep im h bs s e" "L = live bs" using R by (auto simp: im_rep_def)
  then obtain a where a: "p = a + 8" "(a, z, True) \<in> set bs" using p by (auto simp: live_def)
  then obtain xs ys where b: "bs = xs @ (a, z, True) # ys" by (meson split_list)
  have S: "shape im (xs @ (a, z, True) # ys) s e" using bs(1) b by (simp add: heap_rep_def)
  obtain h' where h': "knl_Ifree im (a + 8) h = Some h'" "heap_rep im h' (release xs a z ys) s e"
    using Ifree_rep[OF bs(1)[unfolded b]] by blast
  have "live (release xs a z ys) = L - {(p, z)}" using bs(2) b a(1) live_removed[OF S] by simp
  then show ?thesis using h' a(1) unfolding im_rep_def by metis
qed

lemma live_apart:
  assumes "im_rep im s e h L" "(p, z) \<in> L" "(q, w) \<in> L"
  shows "p \<noteq> q \<Longrightarrow> p + z \<le> q \<or> q + w \<le> p" "p = q \<Longrightarrow> z = w"
proof -
  obtain bs where bs: "heap_rep im h bs s e" "L = live bs" using assms(1) by (auto simp: im_rep_def)
  have S: "shape im bs s e" using bs(1) by (simp add: heap_rep_def)
  obtain a b where ab: "p = a + 8" "(a, z, True) \<in> set bs" "q = b + 8" "(b, w, True) \<in> set bs" using assms(2,3) bs(2) by (auto simp: live_def)
  show "p \<noteq> q \<Longrightarrow> p + z \<le> q \<or> q + w \<le> p" using contig_disjoint[OF shapeD(1)[OF S] ab(2,4)] ab(1,3) by auto
  show "p = q \<Longrightarrow> z = w" using shapeD(3)[OF S] ab by (auto dest: eq_key_imp_eq_value)
qed

interpretation imalloc: allocator "knl_Imalloc im" "knl_Ifree im" "im_rep im s e" im_size for im s e
  by unfold_locales (erule (1) Imalloc_law, erule (1) Ifree_law, erule (3) live_apart(1), erule (2) live_apart(2), rule refl)

section \<open>Initialisation\<close>

lemma two_heads:
  fixes im :: IMACB and h :: qheap
  assumes ne: "areaque im \<noteq> freeque im" "freeque im \<noteq> 0" and ev: "even (areaque im)" "even tp" "even end'"
    and d: "distinct [areaque im, tp, end']" "freeque im \<notin> {tp, end'}"
  defines "h3 \<equiv> knl_insertAreaQue (areaque im) tp (knl_insertAreaQue (areaque im) end' (initIMACB im h))"
  shows "hdrs im (setAreaFlag (areaque im) (setAreaFlag end' h3)) [(tp, z, False)] end'"
    "free_que (setAreaFlag (areaque im) (setAreaFlag end' h3)) (freeque im) []"
proof -
  let ?Q = "areaque im" and ?F = "freeque im"
  let ?h1 = "initIMACB im h" let ?h2 = "knl_insertAreaQue ?Q end' ?h1"
  have h1: "q_next (?h1 ?Q) = ?Q" "q_prev (?h1 ?Q) = ?Q" "ring ?h1 ?F []"
    using ne by (simp_all add: initIMACB_def QueInit_def ring_init ring_def cycle_def)
  note C1 = insertAreaQue_cells[where que = ?Q and ent = end' and h = ?h1, unfolded h1(1)]
  have C1n: "q_next (?h2 c) = (if c = ?Q then end' else if c = end' then ?Q else q_next (?h1 c))"
    "Mask (q_prev (?h2 c)) = (if c = ?Q then end' else if c = end' then ?Q else Mask (q_prev (?h1 c)))"
    "even (q_prev (?h2 c)) = (if c = end' then True else even (q_prev (?h1 c)))"
    "c \<notin> {?Q, end'} \<Longrightarrow> ?h2 c = ?h1 c" for c
    using C1[of c] d ev by auto
  have n2: "q_next (?h2 ?Q) = end'" using C1n(1)[of ?Q] by simp
  have "al h3 ([] @ ?Q # tp # end' # [])" unfolding h3_def
    by (rule al_insert) (use C1n d ev in auto)
  moreover have C2: "q_next (h3 c) = (if c = ?Q then tp else if c = tp then end' else q_next (?h2 c))"
    "Mask (q_prev (h3 c)) = (if c = end' then tp else if c = tp then ?Q else Mask (q_prev (?h2 c)))"
    "even (q_prev (h3 c)) = (if c = tp then True else even (q_prev (?h2 c)))"
    "c \<notin> {?Q, tp, end'} \<Longrightarrow> h3 c = ?h2 c" for c
    using insertAreaQue_cells[where que = ?Q and ent = tp and h = ?h2, unfolded n2, folded h3_def, of c] d ev by auto
  ultimately have L: "al h3 [?Q, tp, end']" "q_next (h3 end') = ?Q" "Mask (q_prev (h3 ?Q)) = end'" "even (q_prev (h3 tp))"
    using C1n d by auto
  show "hdrs im (setAreaFlag ?Q (setAreaFlag end' h3)) [(tp, z, False)] end'"
    using L d by (auto simp: hdrs_def setAreaFlag_cell)
  have "setAreaFlag ?Q (setAreaFlag end' h3) ?F = ?h1 ?F" using C2(4)[of ?F] C1n(4)[of ?F] d ne by (auto simp: setAreaFlag_cell)
  then have "ring (setAreaFlag ?Q (setAreaFlag end' h3)) ?F [] = ring ?h1 ?F []" by (intro ring_frame) simp
  then show "free_que (setAreaFlag ?Q (setAreaFlag end' h3)) ?F []" using h1(3) ne(2) by (simp add: free_que_def spaced_def cells_def)
qed

lemma init_Imalloc_rep:
  fixes lt ll :: nat
  defines "b \<equiv> (lt + 3) div 4 * 4"
  defines "t \<equiv> (b + 27) div 8 * 8"
  assumes ll: "t + 32 \<le> ll" "ll \<le> 2 ^ 31" "even ll"
  shows "\<exists>h'. knl_init_Imalloc lt ll h = Some (E_OK, \<lparr>memsz = int (ll - t - 16), areaque = b + 4, freeque = b + 12\<rparr>, ll, h') \<and>
    heap_rep \<lparr>memsz = int (ll - t - 16), areaque = b + 4, freeque = b + 12\<rparr> h' [(t, ll - t - 16, False)] t (ll - 8)"
proof -
  let ?z = "ll - t - 16" and ?e = "ll - 8"
  let ?im = "\<lparr>memsz = int ?z, areaque = b + 4, freeque = b + 12\<rparr>"
  have t: "b + 20 \<le> t" "even t" "even b" by (simp_all add: t_def b_def)
  have z: "sint (word_of_int (int ll - int t - 16) :: UW) = int ?z"
  proof -
    have k: "int ll - int t - 16 = int ?z" using ll by simp
    have "uint (word_of_int (int ?z) :: UW) = int ?z" by (rule uint_small) (use ll in simp_all)
    moreover have "int ?z < 2 ^ 31" using ll by simp
    ultimately show ?thesis unfolding k by (subst sint_below) simp_all
  qed
  have e: "nat (int t + int ?z) + 8 = ?e" using ll by simp
  let ?h3 = "knl_insertAreaQue (b + 4) t (knl_insertAreaQue (b + 4) ?e (initIMACB ?im h))"
  let ?h5 = "setAreaFlag (b + 4) (setAreaFlag ?e ?h3)"
  have ne: "b + 4 \<noteq> ?e" "t \<noteq> ?e" "b + 12 \<noteq> ?e" using t ll by linarith+
  have T: "hdrs ?im ?h5 [(t, ?z, False)] ?e" "free_que ?h5 (freeque ?im) []"
    using two_heads(1)[where im = ?im and tp = t and end' = ?e and h = h and z = ?z]
      two_heads(2)[where im = ?im and tp = t and end' = ?e and h = h] t ll ne by auto
  have S: "shape ?im ([] @ (t, ?z, False) # []) t ?e" using t ll by (auto simp: shape_def)
  have "frees ?im ?h5 {}" using T(2) unfolding frees_def by (intro exI[of _ "[]"]) simp
  then obtain r where r: "knl_appendFreeArea ?im t ?h5 = Some r" "hdrs ?im r [(t, ?z, False)] ?e" "frees ?im r {(t, ?z)}"
    using free_appended[OF S] T(1) by auto
  have "heap_rep ?im r [(t, ?z, False)] t ?e" using S r(2,3) ll by (simp add: heap_rep_def coalesced_def)
  moreover have tt: "(b + 20 + 7) div 8 * 8 = t" by (simp add: t_def)
  have "knl_init_Imalloc lt ll h = Some (E_OK, ?im, ll, r)"
    unfolding knl_init_Imalloc_def Let_def b_def[symmetric] tt z by (simp only: IMACB.simps e r(1) option.case)
  ultimately show ?thesis by blast
qed

section \<open>The properties\<close>

definition sample_im :: IMACB where
  "sample_im = \<lparr>memsz = 176, areaque = 8, freeque = 16\<rparr>"

definition sample_areas :: "area list" where
  "sample_areas = [(32, 64, False), (104, 24, True), (136, 32, False), (176, 16, True)]"

definition sample_heap :: qheap where
  "sample_heap = (\<lambda>_. \<lparr>q_next = 0, q_prev = 0\<rparr>)
     (8 := \<lparr>q_next = 32, q_prev = 201\<rparr>, 32 := \<lparr>q_next = 104, q_prev = 8\<rparr>, 104 := \<lparr>q_next = 136, q_prev = 33\<rparr>,
      136 := \<lparr>q_next = 176, q_prev = 104\<rparr>, 176 := \<lparr>q_next = 200, q_prev = 137\<rparr>, 200 := \<lparr>q_next = 8, q_prev = 177\<rparr>,
      16 := \<lparr>q_next = 144, q_prev = 40\<rparr>, 144 := \<lparr>q_next = 40, q_prev = 16\<rparr>, 40 := \<lparr>q_next = 16, q_prev = 144\<rparr>,
      152 := \<lparr>q_next = 0, q_prev = 32\<rparr>, 48 := \<lparr>q_next = 0, q_prev = 64\<rparr>)"

lemma sample_heap_rep: "heap_rep sample_im sample_heap sample_areas 32 200"
proof -
  have "free_que sample_heap 16 [(32, [136]), (64, [32])]"
    by (simp add: free_que_def ring_def cycle_def head_def sample_heap_def spaced_def cells_def)
  then have "frees sample_im sample_heap {(32, 64), (136, 32)}"
    unfolding frees_def by (intro exI[of _ "[(32, [136]), (64, [32])]"]) (auto simp: sample_im_def)
  then show ?thesis
    by (auto simp: heap_rep_def sample_areas_def shape_def hdrs_def coalesced_def sample_im_def sample_heap_def Mask_eq)
qed

text \<open>
  C12. Allocation. For a request of 1 to 0x7FFFFFF8 bytes \<^verbatim>\<open>knl_Imalloc\<close> returns. It returns NULL and changes
  nothing exactly when no free area is as large as the rounded request; otherwise it takes a free area of the
  smallest sufficient size, returns the address behind its header, keeps what is left of it as a free area when
  this holds a header and the minimum fragment, and leaves the other areas as they are, the queues being well
  formed again.
\<close>

theorem Imalloc_best_fit:
  assumes R: "heap_rep im h bs s e" and n: "0 < n" "n \<le> 0x7FFFFFF8"
  shows "(\<forall>(a, z) \<in> free_areas bs. z < request n) \<and> knl_Imalloc im n h = Some (0, h) \<or>
    (\<exists>xs a z ys h'. bs = xs @ (a, z, False) # ys \<and> request n \<le> z \<and> (\<forall>(b, w) \<in> free_areas bs. request n \<le> w \<longrightarrow> z \<le> w) \<and>
       knl_Imalloc im n h = Some (a + 8, h') \<and> heap_rep im h' (xs @ cut_area (request n) a z @ ys) s e)"
  by (rule Imalloc_rep[OF assms])

theorem Imalloc_best_fit_witness:
  "\<exists>h'. knl_Imalloc sample_im 33 sample_heap = Some (40, h') \<and>
     heap_rep sample_im h' [(32, 40, True), (80, 16, False), (104, 24, True), (136, 32, False), (176, 16, True)] 32 200"
  using Imalloc_best_fit[OF sample_heap_rep, of 33]
  by (auto simp: sample_areas_def request_def cut_area_def Cons_eq_append_conv)

text \<open>
  C13. Release. \<^verbatim>\<open>knl_Ifree\<close> of an allocated area returns; the area becomes free, merged with the free area before
  it and the free area behind it, so that no two free areas are neighbours, and the areas in use are the
  others, unchanged.
\<close>

theorem Ifree_merges:
  assumes "heap_rep im h (xs @ (a, z, True) # ys) s e"
  shows "\<exists>h'. knl_Ifree im (a + 8) h = Some h' \<and> heap_rep im h' (release xs a z ys) s e \<and> live (release xs a z ys) = live (xs @ ys)"
  using Ifree_rep[OF assms] by (simp add: live_release)

theorem Ifree_merges_witness:
  "\<exists>h'. knl_Ifree sample_im 112 sample_heap = Some h' \<and> heap_rep sample_im h' [(32, 136, False), (176, 16, True)] 32 200"
  using Ifree_merges[of sample_im sample_heap "[(32, 64, False)]" 104 24 "[(136, 32, False), (176, 16, True)]" 32 200] sample_heap_rep
  by (auto simp: sample_areas_def release_def join_next_def join_prev_def)

lemma release_cut:
  assumes "coalesced (xs @ (a, z, False) # ys)"
  shows "\<exists>z' rest. cut_area m a z = (a, z', True) # rest \<and> release xs a z' (rest @ ys) = xs @ (a, z, False) # ys"
  using assms
  by (cases xs rule: rev_cases; cases ys)
    (auto simp: cut_area_def release_def join_next_def join_prev_def coalesced_def successively_append_iff successively_Cons split: prod.splits)

text \<open>
  C15. What was allocated and is released at once leaves the memory as it was: after \<^verbatim>\<open>knl_Imalloc\<close> with a non-null
  result, \<^verbatim>\<open>knl_Ifree\<close> of this result brings back the same list of areas.
\<close>

theorem malloc_free_round_trip:
  assumes R: "heap_rep im h bs s e" and n: "0 < n" "n \<le> 0x7FFFFFF8" and M: "knl_Imalloc im n h = Some (p, h1)" "p \<noteq> 0"
  shows "\<exists>h2. knl_Ifree im p h1 = Some h2 \<and> heap_rep im h2 bs s e"
proof -
  obtain xs a z ys where b: "bs = xs @ (a, z, False) # ys" "p = a + 8" "heap_rep im h1 (xs @ cut_area (request n) a z @ ys) s e"
    using Imalloc_rep[OF R n] M by auto
  have "coalesced (xs @ (a, z, False) # ys)" using R b(1) by (simp add: heap_rep_def)
  then obtain z' rest where c: "cut_area (request n) a z = (a, z', True) # rest" "release xs a z' (rest @ ys) = bs"
    using release_cut b(1) by metis
  then show ?thesis using Ifree_rep[of im h1 xs a z' "rest @ ys" s e] b by simp
qed

theorem malloc_free_round_trip_witness:
  "\<exists>h1 h2. knl_Imalloc sample_im 33 sample_heap = Some (40, h1) \<and> knl_Ifree sample_im 40 h1 = Some h2 \<and>
     heap_rep sample_im h2 sample_areas 32 200"
proof -
  obtain h1 where h1: "knl_Imalloc sample_im 33 sample_heap = Some (40, h1)"
    using Imalloc_rep[OF sample_heap_rep, of 33]
    by (auto simp: sample_areas_def request_def cut_area_def Cons_eq_append_conv)
  then show ?thesis using malloc_free_round_trip[OF sample_heap_rep, of 33 40 h1] by auto
qed

lemma all_free:
  assumes "contig s bs e" "coalesced bs" "live bs = {}" "s < e" shows "bs = [(s, e - s - 8, False)]"
proof (cases bs)
  case (Cons b bs')
  obtain a z u where b: "b = (a, z, u)" by (cases b)
  have u: "\<not> u" using assms(3) Cons b by (auto split: if_splits)
  have "bs' = []"
  proof (cases bs')
    case (Cons c cs)
    obtain a' z' u' where c: "c = (a', z', u')" by (cases c)
    then show ?thesis using assms(2,3) \<open>bs = b # bs'\<close> Cons b u by (auto simp: coalesced_def split: if_splits)
  qed
  then show ?thesis using assms(1) Cons b u by auto
qed (use assms in simp)

text \<open>
  C14. Histories of the system memory. After \<^verbatim>\<open>knl_init_Imalloc\<close>, any sequence of allocations of 1 to 0x7FFFFFF8
  bytes and releases of allocated areas returns. In every state so reached the allocated areas lie inside the
  memory between \<^verbatim>\<open>knl_lowmem_top\<close> and \<^verbatim>\<open>knl_lowmem_limit\<close> and do not overlap; and when everything is released
  again, the memory is the one free area it was at the start, whatever the order of the releases.
\<close>

theorem allocator_histories:
  fixes lt ll :: nat
  assumes ll: "((lt + 3) div 4 * 4 + 27) div 8 * 8 + 32 \<le> ll" "ll \<le> 2 ^ 31" "even ll"
    and cs: "\<And>n. Alloc n \<in> set cs \<Longrightarrow> 0 < n \<and> n \<le> 0x7FFFFFF8"
  shows "\<exists>im h1 h2 L bs s. knl_init_Imalloc lt ll h = Some (E_OK, im, ll, h1) \<and> heap_rep im h1 [(s, ll - s - 16, False)] s (ll - 8) \<and>
    heap_run (knl_Imalloc im) (knl_Ifree im) cs (h1, {}) = Some (h2, fst ` L) \<and> heap_rep im h2 bs s (ll - 8) \<and> L = live bs \<and>
    (\<forall>(p, z) \<in> L. lt < p \<and> p + z \<le> ll \<and> (\<forall>(q, w) \<in> L. p = q \<or> p + z \<le> q \<or> q + w \<le> p)) \<and>
    (L = {} \<longrightarrow> bs = [(s, ll - s - 16, False)])"
proof -
  let ?t = "((lt + 3) div 4 * 4 + 27) div 8 * 8"
  obtain im h1 where I: "knl_init_Imalloc lt ll h = Some (E_OK, im, ll, h1)" "heap_rep im h1 [(?t, ll - ?t - 16, False)] ?t (ll - 8)"
    using init_Imalloc_rep[OF ll] by blast
  have "im_rep im ?t (ll - 8) h1 {}" using I(2) unfolding im_rep_def by (intro exI[of _ "[(?t, ll - ?t - 16, False)]"]) simp
  then obtain h2 L where L: "heap_run (knl_Imalloc im) (knl_Ifree im) cs (h1, {}) = Some (h2, fst ` L)" "im_rep im ?t (ll - 8) h2 L"
    using imalloc.run_rep[of im ?t "ll - 8" h1 "{}" cs] cs by (auto simp: im_size_def)
  then obtain bs where bs: "heap_rep im h2 bs ?t (ll - 8)" "L = live bs" by (auto simp: im_rep_def)
  have S: "shape im bs ?t (ll - 8)" "coalesced bs" using bs(1) by (auto simp: heap_rep_def)
  have "lt < p \<and> p + z \<le> ll" if pz: "(p, z) \<in> L" for p z
  proof -
    obtain a where "(a, z, True) \<in> set bs" "p = a + 8" using pz bs(2) by (auto simp: live_def)
    then have "?t + 8 \<le> p" "p + z \<le> ll - 8" using shapeD(2)[OF S(1), of a z True] by simp_all
    moreover have "(lt + 3) div 4 * 4 + 20 \<le> ?t" "lt \<le> (lt + 3) div 4 * 4" by simp_all
    ultimately show ?thesis by linarith
  qed
  moreover have "p = q \<or> p + z \<le> q \<or> q + w \<le> p" if "(p, z) \<in> L" "(q, w) \<in> L" for p z q w
    using imalloc.apart[OF L(2) that] by blast
  ultimately have "\<forall>(p, z) \<in> L. lt < p \<and> p + z \<le> ll \<and> (\<forall>(q, w) \<in> L. p = q \<or> p + z \<le> q \<or> q + w \<le> p)" by blast
  moreover have "bs = [(?t, ll - ?t - 16, False)]" if "L = {}"
    using all_free[OF shapeD(1)[OF S(1)] S(2)] that bs(2) ll(1) by simp
  ultimately show ?thesis using I L(1) bs by blast
qed

theorem allocator_histories_witness:
  "\<exists>im h1 h2 L. knl_init_Imalloc 4098 4608 sample_heap = Some (E_OK, im, 4608, h1) \<and>
     heap_run (knl_Imalloc im) (knl_Ifree im) [Alloc 100, Alloc 20, Free 4136, Alloc 60] (h1, {}) = Some (h2, fst ` L) \<and>
     (\<forall>(p, z) \<in> L. 4098 < p \<and> p + z \<le> 4608)"
proof -
  let ?cs = "[Alloc 100, Alloc 20, Free 4136, Alloc 60]"
  have "((4098 + 3) div 4 * 4 + 27) div 8 * 8 + 32 \<le> (4608::nat)" "(4608::nat) \<le> 2 ^ 31" "even (4608::nat)" by simp_all
  moreover have "0 < n \<and> n \<le> 0x7FFFFFF8" if "Alloc n \<in> set ?cs" for n using that by auto
  ultimately obtain im h1 h2 L where "knl_init_Imalloc 4098 4608 sample_heap = Some (E_OK, im, 4608, h1)"
      "heap_run (knl_Imalloc im) (knl_Ifree im) ?cs (h1, {}) = Some (h2, fst ` L)"
      "\<forall>(p, z) \<in> L. 4098 < p \<and> p + z \<le> 4608 \<and> (\<forall>(q, w) \<in> L. p = q \<or> p + z \<le> q \<or> q + w \<le> p)"
    using allocator_histories[of 4098 4608 ?cs sample_heap] by blast
  then show ?thesis by blast
qed

text \<open>
  The cells of the allocator are eight bytes long and lie outside of the allocated areas, so that a change of
  them is no change of the contents of an area that is allocated before and after it.
\<close>

definition overlaps :: "addr \<Rightarrow> addr \<Rightarrow> nat \<Rightarrow> bool" where
  "overlaps c p z \<longleftrightarrow> p < c + 8 \<and> c < p + z"

lemma own_cells_outside:
  assumes S: "shape im bs s e" and p: "(p, z) \<in> live bs" and c: "c \<in> own_cells im bs e" shows "\<not> overlaps c p z"
proof -
  obtain a where a: "p = a + 8" "(a, z, True) \<in> set bs" using p by (auto simp: live_def)
  have r: "s \<le> a" "a + 8 + z \<le> e" using shapeD(2)[OF S a(2)] by auto
  have q: "areaque im < s \<or> e < areaque im" "freeque im < s \<or> e < freeque im" using S by (auto simp: shape_def)
  consider "c = freeque im" | "c = areaque im" | "c = e" | b w u where "(b, w, u) \<in> set bs" "c = b"
    | b w where "(b, w, False) \<in> set bs" "c = b + 8 \<or> c = b + 16"
    using c by (auto simp: own_cells_def headers_def cells_def free_areas_def)
  then show ?thesis
  proof cases
    case (4 b w u)
    then show ?thesis using contig_disjoint[OF shapeD(1)[OF S] a(2), of b w u] a(1) by (cases "b = a") (auto simp: overlaps_def)
  next
    case (5 b w)
    have d: "distinct (map fst bs)" using shapeD(3)[OF S] by simp
    have "b \<noteq> a" using eq_key_imp_eq_value[OF d a(2), of "(w, False)"] 5(1) by auto
    moreover have "16 \<le> w" using shapeD(2)[OF S 5(1)] by simp
    ultimately show ?thesis using contig_disjoint[OF shapeD(1)[OF S] a(2) 5(1)] 5(2) a(1) by (auto simp: overlaps_def)
  qed (use q r a(1) in \<open>auto simp: overlaps_def\<close>)
qed

lemma contents_apart:
  assumes "changed_in (own_cells im bs e \<union> own_cells im bs' e) h h'" "shape im bs s e" "shape im bs' s e"
    "(p, z) \<in> live bs" "(p, z) \<in> live bs'" "overlaps c p z"
  shows "h' c = h c"
  using assms own_cells_outside unfolding changed_in_def by blast

text \<open>
  C16. Change of size. For an allocated area and a new size of 1 to 0x7FFFFFF8 bytes \<^verbatim>\<open>knl_Irealloc\<close> returns. Either
  no free area is large enough, and it returns NULL with nothing changed; or it returns a new area of at least this
  size in place of the old one, whose first bytes, as many as both areas were asked to hold, are those of
  the old area, and no byte of another allocated area has changed. The queues are kept in the same memory: the
  cells that the allocation writes lie outside of all areas allocated before it, so that the copy finds the old
  contents, and those that the release writes after the copy lie outside of all areas allocated then.
\<close>

theorem Irealloc_keeps_contents:
  assumes R: "heap_rep im h bs s e" and a: "(a, z, True) \<in> set bs" and n: "0 < n" "n \<le> 0x7FFFFFF8"
  shows "(\<forall>(b, w) \<in> free_areas bs. w < request n) \<and> knl_Irealloc im (a + 8) n (h, m) = Some (0, h, m) \<or>
    (\<exists>p w h1 h' m' bs'. knl_Irealloc im (a + 8) n (h, m) = Some (p, h', m') \<and> p \<noteq> 0 \<and> n \<le> int w \<and>
       heap_rep im h' bs' s e \<and> live bs' = insert (p, w) (live bs) - {(a + 8, z)} \<and>
       (\<forall>k < min (nat n) z. m' (p + k) = m (a + 8 + k)) \<and>
       (\<forall>(q, y) \<in> live bs. \<forall>k < y. m' (q + k) = m (q + k)) \<and>
       knl_Imalloc im n h = Some (p, h1) \<and> (\<forall>(q, y) \<in> live bs. \<forall>c. overlaps c q y \<longrightarrow> h1 c = h c) \<and>
       knl_Ifree im (a + 8) h1 = Some h' \<and> (\<forall>(q, y) \<in> live bs'. \<forall>c. overlaps c q y \<longrightarrow> h' c = h1 c))"
  using Imalloc_cells[OF R n]
proof (elim disjE exE conjE)
  assume "knl_Imalloc im n h = Some (0, h)" "\<forall>(a, z)\<in>free_areas bs. z < request n"
  then show ?thesis using n by (simp add: knl_Irealloc_def)
next
  fix xs f y ys h1 assume b: "bs = xs @ (f, y, False) # ys" "request n \<le> y" "knl_Imalloc im n h = Some (f + 8, h1)"
    and R1: "heap_rep im h1 (xs @ cut_area (request n) f y @ ys) s e"
    and C1: "changed_in (own_cells im bs e \<union> own_cells im (xs @ cut_area (request n) f y @ ys) e) h h1"
  let ?bs1 = "xs @ cut_area (request n) f y @ ys"
  have S: "shape im bs s e" and S1: "shape im ?bs1 s e" and H1: "hdrs im h1 ?bs1 e" using R R1 by (auto simp: heap_rep_def)
  obtain w where w: "request n \<le> w" "live (cut_area (request n) f y) = {(f + 8, w)}" using live_cut[OF b(2)] by blast
  have a1: "(a, z, True) \<in> set ?bs1" using a b(1) by auto
  then obtain us vs where uv: "?bs1 = us @ (a, z, True) # vs" by (meson split_list)
  let ?bs0 = "us @ (a, z, False) # vs" and ?bs2 = "release us a z vs"
  obtain h2 where h2: "knl_Ifree im (a + 8) h1 = Some h2" "heap_rep im h2 ?bs2 s e"
      "changed_in (own_cells im ?bs0 e \<union> own_cells im ?bs2 e) h1 h2" using Ifree_cells[OF R1[unfolded uv]] by blast
  have lb: "live ?bs1 = insert (f + 8, w) (live bs)" using b(1) w(2) by simp
  then have lv: "live ?bs2 = insert (f + 8, w) (live bs) - {(a + 8, z)}" using live_removed[OF S1[unfolded uv], folded uv] by simp
  have nw: "n \<le> int w" using request_bounds(2)[of n] w(1) by linarith
  have fb: "(f, y, False) \<in> set bs" and fw: "(f, w, True) \<in> set ?bs1"
    using b(1) w(2) by (simp, cases "request n + 24 \<le> y") (simp_all add: cut_area_def)
  have af: "a \<noteq> f" using R a fb shapeD(3)[OF S] eq_key_imp_eq_value[of bs f "(y, False)" "(z, True)"] by auto
  have ap: "q + k < f + 8 \<or> f + 8 + w \<le> q + k" if q: "(q, v) \<in> live bs" "k < v" for q v k
  proof -
    obtain d where d: "q = d + 8" "(d, v, True) \<in> set bs" "(d, v, True) \<in> set ?bs1" using q(1) b(1) by (auto simp: live_def)
    have "d \<noteq> f" using d(2) fb shapeD(3)[OF S] eq_key_imp_eq_value[of bs f "(y, False)" "(v, True)"] by auto
    then show ?thesis using contig_disjoint[OF shapeD(1)[OF S1] d(3) fw] d(1) q(2) by auto
  qed
  have aa: "a + 8 + z \<le> f \<or> f + 8 + w \<le> a" using contig_disjoint[OF shapeD(1)[OF S1] a1 fw af] .
  let ?k = "if n > int z then int z else n"
  let ?m = "knl_memcpy (f + 8) (a + 8) ?k m"
  have k: "?m c = (if f + 8 \<le> c \<and> c < f + 8 + nat ?k then m (a + 8 + (c - (f + 8))) else m c)" for c
    by (rule knl_memcpy_disjoint) (use n nw aa in auto)
  have "AreaSize a h1 = int z" using hdrs_next(2)[OF S1[unfolded uv] H1[unfolded uv]] .
  then have "knl_Irealloc im (a + 8) n (h, m) = Some (f + 8, h2, ?m)"
    using b(3) h2(1) n by (simp add: knl_Irealloc_def Let_def)
  moreover have "\<forall>i < min (nat n) z. ?m (f + 8 + i) = m (a + 8 + i)" unfolding k using n by auto
  moreover have "\<forall>(q, v) \<in> live bs. \<forall>i < v. ?m (q + i) = m (q + i)"
  proof (intro ballI, clarify)
    show "?m (q + i) = m (q + i)" if "(q, v) \<in> live bs" "i < v" for q v i
      unfolding k using ap[OF that] n nw by (auto split: if_splits)
  qed
  moreover have "\<forall>(q, v) \<in> live bs. \<forall>c. overlaps c q v \<longrightarrow> h1 c = h c"
    using contents_apart[OF C1 S S1] lb by blast
  moreover have "\<forall>(q, v) \<in> live ?bs2. \<forall>c. overlaps c q v \<longrightarrow> h2 c = h1 c"
  proof -
    have "shape im ?bs0 s e" "shape im ?bs2 s e" using shape_flag[OF S1[unfolded uv]] h2(2) by (auto simp: heap_rep_def)
    moreover have "live ?bs2 = live ?bs0" by (simp add: live_release)
    ultimately show ?thesis using contents_apart[OF h2(3)] by blast
  qed
  moreover have "f + 8 \<noteq> 0" by simp
  ultimately show ?thesis using h2(1,2) lv nw b(3) by blast
qed

theorem Irealloc_keeps_contents_witness:
  "\<exists>p h' m'. knl_Irealloc sample_im 112 33 (sample_heap, \<lambda>c. word_of_nat c) = Some (p, h', m') \<and> p \<noteq> 0 \<and>
     (\<forall>k < 24. m' (p + k) = word_of_nat (112 + k))"
proof -
  have a: "(104, 24, True) \<in> set sample_areas" and f: "\<not> (\<forall>(b, w) \<in> free_areas sample_areas. w < request 33)"
    by (simp_all add: sample_areas_def request_def)
  have n: "(0::int) < 33" "(33::int) \<le> 0x7FFFFFF8" and e: "min (nat 33) 24 = 24" "(104::nat) + 8 = 112" by simp_all
  from Irealloc_keeps_contents[OF sample_heap_rep a n, of "\<lambda>c. word_of_nat c"] show ?thesis
    unfolding e by (elim disjE exE conjE) (use f in simp, intro exI conjI)
qed

text \<open>
  Sizes above 0x7FFFFFF8 are not refused: rounding up makes them negative, every free area seems large enough,
  and \<^verbatim>\<open>knl_Imalloc\<close> never returns NULL although no memory holds such an area.
\<close>

lemma Imalloc_huge_not_refused:
  assumes R: "heap_rep im h bs s e" and f: "free_areas bs \<noteq> {}" and n: "0x7FFFFFF8 < n" "n \<le> 0x7FFFFFFF"
  shows "ROUND n = - 0x80000000" "knl_Imalloc im n h \<noteq> Some (0, h')"
proof -
  have "uint ((word_of_int n + 7) AND NOT 7 :: UW) = 0x80000000"
    unfolding and_not_7 using n by (simp add: uint_word_ariths uint_word_of_int)
  then have "((word_of_int n + 7) AND NOT 7 :: UW) = word_of_int 0x80000000" by (metis word_of_int_uint)
  then show r: "ROUND n = - 0x80000000" by (simp add: ROUND_def)
  obtain gs where gs: "free_que h (freeque im) gs" "free_set gs = free_areas bs" using R by (auto simp: heap_rep_def frees_def)
  obtain g gs' where g: "gs = g # gs'" using gs(2) f by (cases gs) auto
  have "best_fit (freeque im) gs (- 0x80000000) = head g" using g by (simp add: best_fit_def)
  then have S: "knl_searchFreeArea im (- 0x80000000) h = Some (head g)" using searchFreeArea_fit[OF gs(1)] by simp
  have "head g \<noteq> freeque im" using free_queD(1)[OF gs(1)] g by (auto simp: ring_def cycle_def)
  moreover have "head g \<noteq> 0" by (simp add: head_def)
  ultimately show "knl_Imalloc im n h \<noteq> Some (0, h')" using n r S by (simp add: knl_Imalloc_def MIN_FRAGMENT_def split: option.splits)
qed

end
