(* ===== verification/Shim.thy ===== *)
theory Shim
  imports Time_Calls Task_Manage
begin

text \<open>
  The adapter that gives ESP-IDF components the FreeRTOS interface on top of the kernel:
  \<^verbatim>\<open>components/freertos_shim\<close>. This theory holds the handles and conversions of
  \<^verbatim>\<open>shim_internal.h\<close> and the queues, semaphores and mutexes of \<^verbatim>\<open>shim_queue.c\<close>. A handle is an
  address; the store \<open>hnd\<close> says what object is there. The heap of ESP-IDF is not part of the
  sources: \<open>halloc\<close> and \<open>hfree\<close> stand for \<^verbatim>\<open>heap_caps_malloc\<close> and \<^verbatim>\<open>heap_caps_free\<close>. Items and
  buffers are bytes of the memory \<open>bmem\<close>. The value \<open>Waits\<close> is a call whose task has entered a wait of the kernel;
  the definition with the suffix \<open>_woken\<close> is the rest of the call, run with the error code of the wait when it ends.
\<close>

section \<open>Handles\<close>

record shim_queue =
  sq_item_sz :: nat
  sq_cap :: nat
  sq_head :: nat
  sq_tail :: nat
  sq_data :: addr
  sq_nonempty :: ID
  sq_nonfull :: ID

record shim_sem =
  ss_cnt :: int
  ss_max_cnt :: int
  ss_sem_id :: ID

record shim_rmutex =
  rm_mtx_id :: ID
  rm_owner_task :: ID
  rm_depth :: int

record shim_timer =
  st_alm_id :: ID
  st_cyc_id :: ID
  st_period_ms :: UW
  st_auto_reload :: bool
  st_active :: bool
  st_timer_id :: addr
  st_callback :: addr

datatype shim_obj = SHIM_TAG_QUEUE shim_queue | SHIM_TAG_SEM_BIN shim_sem | SHIM_TAG_SEM_CNT shim_sem
  | SHIM_TAG_MUTEX ID | SHIM_TAG_RMUTEX shim_rmutex | SHIM_TAG_TIMER shim_timer | SHIM_TAG_EVTGRP ID

record shim_handle =
  is_static :: bool
  obj :: shim_obj

record shim_task =
  tk_tsk_id :: ID
  tk_notify_sem :: ID
  tk_notify_val :: UW
  tk_stack :: addr
  tk_stack_sz :: UW
  tk_tls :: addr

text \<open>
  The state adds the store of handles, the table of tasks, the word that serves tasks without an entry as
  thread-local storage, and the nesting counters of critical sections and spin locks.
\<close>

record shmstate = timstate +
  hnd :: "addr \<Rightarrow> shim_handle option"
  s_tasks :: "nat \<Rightarrow> shim_task"
  s_tls_fallback :: addr
  s_cs_depth :: int
  s_cs_saved :: bool
  s_sl_depth :: int
  s_sl_saved :: bool
  mux_count :: "addr \<Rightarrow> int"
  s_obj_tables_ready :: bool

datatype shim_ret = Val bool | Waits

fun ret_er :: "sysret \<Rightarrow> ER" where
  "ret_er (Ret e) = e"
| "ret_er Blocked = E_OK"

type_synonym 'a halloc = "nat \<Rightarrow> 'a shmstate_scheme \<Rightarrow> addr \<times> 'a shmstate_scheme"
type_synonym 'a hfree = "addr \<Rightarrow> 'a shmstate_scheme \<Rightarrow> 'a shmstate_scheme"
type_synonym 'a shim_call = "(shim_ret \<times> 'a shmstate_scheme) option"

text \<open>The tag of a handle as the number it is in memory; one caller passes such a number as a handle.\<close>

definition shim_tags :: "addr set" where
  "shim_tags = {0x51554555, 0x53454D42, 0x53454D43, 0x4D555458, 0x524D5458, 0x54494D52, 0x45564752}"

definition CFG_WIFI_PRI_BASE :: int where "CFG_WIFI_PRI_BASE = 25"

definition shim_prio_to_tk :: "UW \<Rightarrow> PRI" where
  "shim_prio_to_tk fr =
     (let p = sint (word_of_int CFG_WIFI_PRI_BASE - fr);
          p1 = (if p < 1 then 1 else p)
      in if p1 > 32 then 32 else p1)"

definition shim_tmo :: "UW \<Rightarrow> TMO" where
  "shim_tmo ticks = (if ticks = 0xffffffff then TMO_FEVR else if ticks = 0 then TMO_POL else sint ticks)"

definition shim_in_isr :: "'a kstate_scheme \<Rightarrow> bool" where
  "shim_in_isr s \<longleftrightarrow> isr_nest s > 0"

definition shim_in_ddsp :: "'a kstate_scheme \<Rightarrow> bool" where
  "shim_in_ddsp s \<longleftrightarrow> \<not> cpu_mie s \<or> taskindp s \<noteq> 0 \<or> dispatch_disabled s \<noteq> 0 \<or> ctxtsk s = None"

definition memcpy :: "addr \<Rightarrow> addr \<Rightarrow> nat \<Rightarrow> mem \<Rightarrow> mem" where
  "memcpy dst src n m = (\<lambda>a. if dst \<le> a \<and> a < dst + n then m (src + (a - dst)) else m a)"

section \<open>Access to handles\<close>

definition obj_at :: "addr \<Rightarrow> 'a shmstate_scheme \<Rightarrow> shim_obj option" where
  "obj_at q s = map_option obj (hnd s q)"

definition set_obj :: "addr \<Rightarrow> shim_obj \<Rightarrow> 'a shmstate_scheme \<Rightarrow> 'a shmstate_scheme" where
  "set_obj q ob s = s\<lparr>hnd := (hnd s)(q := map_option (obj_update (\<lambda>_. ob)) (hnd s q))\<rparr>"

definition new_obj :: "bool \<Rightarrow> addr \<Rightarrow> shim_obj \<Rightarrow> 'a shmstate_scheme \<Rightarrow> 'a shmstate_scheme" where
  "new_obj st q ob s = s\<lparr>hnd := (hnd s)(q \<mapsto> \<lparr>is_static = st, obj = ob\<rparr>)\<rparr>"

definition alloc_handle :: "'a halloc \<Rightarrow> nat \<Rightarrow> shim_obj \<Rightarrow> 'a shmstate_scheme \<Rightarrow> addr \<times> 'a shmstate_scheme" where
  "alloc_handle halloc sz ob s =
     (let (h, s1) = halloc sz s in if h \<noteq> 0 then (h, new_obj False h ob s1) else (0, s1))"

definition init_static_handle :: "addr \<Rightarrow> shim_obj \<Rightarrow> 'a shmstate_scheme \<Rightarrow> 'a shmstate_scheme" where
  "init_static_handle buf ob s = new_obj True buf ob s"

definition free_handle :: "'a hfree \<Rightarrow> addr \<Rightarrow> 'a shmstate_scheme \<Rightarrow> 'a shmstate_scheme" where
  "free_handle hfree q s = hfree q (s\<lparr>hnd := (hnd s)(q := None)\<rparr>)"

section \<open>Ring buffers\<close>

definition queue_init :: "'a halloc \<Rightarrow> 'a hfree \<Rightarrow> addr \<Rightarrow> nat \<Rightarrow> nat \<Rightarrow> 'a shmstate_scheme \<Rightarrow> bool \<times> 'a shmstate_scheme" where
  "queue_init halloc hfree q len item_sz s =
     (let p = \<lparr>sq_item_sz = item_sz, sq_cap = len, sq_head = 0, sq_tail = 0, sq_data = 0, sq_nonempty = 0, sq_nonfull = 0\<rparr>;
          (d, s1) = halloc (len * item_sz mod 2 ^ 32) s;
          p1 = p\<lparr>sq_data := d\<rparr>
      in if d = 0 then (False, set_obj q (SHIM_TAG_QUEUE p1) s1)
         else
           let n = sint (word_of_nat len :: UW);
               (ne, s2) = tk_cre_sem \<lparr>csem_exinf = 0, csem_sematr = TA_TFIFO, csem_isemcnt = 0, csem_maxsem = n\<rparr> s1;
               (nf, s3) = tk_cre_sem \<lparr>csem_exinf = 0, csem_sematr = TA_TFIFO, csem_isemcnt = n, csem_maxsem = n\<rparr> s2;
               p2 = p1\<lparr>sq_nonempty := ret_er ne, sq_nonfull := ret_er nf\<rparr>
           in if ret_er ne \<le> 0 \<or> ret_er nf \<le> 0 then
                let s4 = hfree d s3;
                    s5 = (if ret_er ne > 0 then snd (tk_del_sem (ret_er ne) s4) else s4);
                    s6 = (if ret_er nf > 0 then snd (tk_del_sem (ret_er nf) s5) else s5)
                in (False, set_obj q (SHIM_TAG_QUEUE (p2\<lparr>sq_data := 0\<rparr>)) s6)
              else (True, set_obj q (SHIM_TAG_QUEUE p2) s3))"

text \<open>The address of slot \<open>k\<close>; the product is computed in 32 bits.\<close>

definition slot_at :: "shim_queue \<Rightarrow> nat \<Rightarrow> addr" where
  "slot_at p k = sq_data p + k * sq_item_sz p mod 2 ^ 32"

definition queue_push :: "addr \<Rightarrow> shim_queue \<Rightarrow> addr \<Rightarrow> bool \<Rightarrow> 'a shmstate_scheme \<Rightarrow> bool \<times> 'a shmstate_scheme" where
  "queue_push q p item overwrite s =
     (let next = (sq_tail p + 1) mod sq_cap p;
          full = (next = sq_head p)
      in if full \<and> \<not> overwrite then (False, s)
         else
           let p1 = (if full then p\<lparr>sq_head := (sq_head p + 1) mod sq_cap p\<rparr> else p);
               s1 = s\<lparr>bmem := memcpy (slot_at p1 (sq_tail p1)) item (sq_item_sz p1) (bmem s)\<rparr>;
               p2 = p1\<lparr>sq_tail := (sq_tail p1 + 1) mod sq_cap p1\<rparr>
           in (True, snd (tk_sig_sem (sq_nonempty p2) 1 (set_obj q (SHIM_TAG_QUEUE p2) s1))))"

definition queue_pop :: "addr \<Rightarrow> shim_queue \<Rightarrow> addr \<Rightarrow> 'a shmstate_scheme \<Rightarrow> bool \<times> 'a shmstate_scheme" where
  "queue_pop q p buf s =
     (if sq_head p = sq_tail p then (False, s)
      else
        let s1 = (if buf \<noteq> 0 then s\<lparr>bmem := memcpy buf (slot_at p (sq_head p)) (sq_item_sz p) (bmem s)\<rparr> else s);
            p1 = p\<lparr>sq_head := (sq_head p + 1) mod sq_cap p\<rparr>
        in (True, snd (tk_sig_sem (sq_nonfull p1) 1 (set_obj q (SHIM_TAG_QUEUE p1) s1))))"

section \<open>Creation and deletion\<close>

definition queueQUEUE_TYPE_BASE :: nat where "queueQUEUE_TYPE_BASE = 0"
definition queueQUEUE_TYPE_MUTEX :: nat where "queueQUEUE_TYPE_MUTEX = 1"
definition queueQUEUE_TYPE_COUNTING_SEMAPHORE :: nat where "queueQUEUE_TYPE_COUNTING_SEMAPHORE = 2"
definition queueQUEUE_TYPE_BINARY_SEMAPHORE :: nat where "queueQUEUE_TYPE_BINARY_SEMAPHORE = 3"
definition queueQUEUE_TYPE_RECURSIVE_MUTEX :: nat where "queueQUEUE_TYPE_RECURSIVE_MUTEX = 4"

definition queueOVERWRITE :: nat where "queueOVERWRITE = 2"

lemmas queue_types = queueQUEUE_TYPE_BASE_def queueQUEUE_TYPE_MUTEX_def queueQUEUE_TYPE_COUNTING_SEMAPHORE_def
  queueQUEUE_TYPE_BINARY_SEMAPHORE_def queueQUEUE_TYPE_RECURSIVE_MUTEX_def queueOVERWRITE_def

definition no_queue :: shim_queue where
  "no_queue = \<lparr>sq_item_sz = 0, sq_cap = 0, sq_head = 0, sq_tail = 0, sq_data = 0, sq_nonempty = 0, sq_nonfull = 0\<rparr>"

definition no_sem :: shim_sem where
  "no_sem = \<lparr>ss_cnt = 0, ss_max_cnt = 0, ss_sem_id = 0\<rparr>"

definition no_rmutex :: shim_rmutex where
  "no_rmutex = \<lparr>rm_mtx_id = 0, rm_owner_task = 0, rm_depth = 0\<rparr>"

text \<open>\<open>tag\<close> is the constructor of the kind of semaphore.\<close>

definition sem_init :: "(shim_sem \<Rightarrow> shim_obj) \<Rightarrow> addr \<Rightarrow> int \<Rightarrow> int \<Rightarrow> 'a shmstate_scheme \<Rightarrow> bool \<times> 'a shmstate_scheme" where
  "sem_init tag q max_cnt init_cnt s =
     (let (r, s1) = tk_cre_sem \<lparr>csem_exinf = 0, csem_sematr = TA_TFIFO, csem_isemcnt = 0, csem_maxsem = max_cnt\<rparr> s
      in (ret_er r > 0, set_obj q (tag \<lparr>ss_cnt = init_cnt, ss_max_cnt = max_cnt, ss_sem_id = ret_er r\<rparr>) s1))"

definition rmutex_init :: "addr \<Rightarrow> 'a shmstate_scheme \<Rightarrow> bool \<times> 'a shmstate_scheme" where
  "rmutex_init q s =
     (let (r, s1) = tk_cre_mtx \<lparr>cmtx_exinf = 0, cmtx_mtxatr = TA_TFIFO OR TA_INHERIT, cmtx_ceilpri = 0\<rparr> s
      in (ret_er r > 0, set_obj q (SHIM_TAG_RMUTEX \<lparr>rm_mtx_id = ret_er r, rm_owner_task = 0, rm_depth = 0\<rparr>) s1))"

text \<open>A handle from the heap is given back when its initialisation fails.\<close>

definition create_with :: "'a halloc \<Rightarrow> 'a hfree \<Rightarrow> nat \<Rightarrow> shim_obj \<Rightarrow>
    (addr \<Rightarrow> 'a shmstate_scheme \<Rightarrow> bool \<times> 'a shmstate_scheme) \<Rightarrow> 'a shmstate_scheme \<Rightarrow> addr \<times> 'a shmstate_scheme" where
  "create_with halloc hfree sz ob init s =
     (let (q, s1) = alloc_handle halloc sz ob s
      in if q = 0 then (0, s1)
         else let (ok, s2) = init q s1 in if ok then (q, s2) else (0, free_handle hfree q s2))"

definition wrap_xQueueGenericCreate :: "'a halloc \<Rightarrow> 'a hfree \<Rightarrow> nat \<Rightarrow> nat \<Rightarrow> nat \<Rightarrow> 'a shmstate_scheme \<Rightarrow> addr \<times> 'a shmstate_scheme" where
  "wrap_xQueueGenericCreate halloc hfree len item_sz type s =
     (let signed = (\<lambda>n. sint (word_of_nat n :: UW))
      in if type = queueQUEUE_TYPE_BASE \<and> item_sz \<noteq> 0 then
           create_with halloc hfree 36 (SHIM_TAG_QUEUE no_queue) (\<lambda>q. queue_init halloc hfree q len item_sz) s
         else if type = queueQUEUE_TYPE_BASE \<or> type = queueQUEUE_TYPE_BINARY_SEMAPHORE then
           create_with halloc hfree 20 (SHIM_TAG_SEM_BIN no_sem) (\<lambda>q. sem_init SHIM_TAG_SEM_BIN q 1 0) s
         else if type = queueQUEUE_TYPE_COUNTING_SEMAPHORE then
           create_with halloc hfree 20 (SHIM_TAG_SEM_CNT no_sem) (\<lambda>q. sem_init SHIM_TAG_SEM_CNT q (signed len) (signed item_sz)) s
         else if type = queueQUEUE_TYPE_MUTEX \<or> type = queueQUEUE_TYPE_RECURSIVE_MUTEX then
           create_with halloc hfree 20 (SHIM_TAG_RMUTEX no_rmutex) rmutex_init s
         else (0, s))"

definition wrap_xQueueCreateCountingSemaphore :: "'a halloc \<Rightarrow> 'a hfree \<Rightarrow> nat \<Rightarrow> nat \<Rightarrow> 'a shmstate_scheme \<Rightarrow> addr \<times> 'a shmstate_scheme" where
  "wrap_xQueueCreateCountingSemaphore halloc hfree max_cnt init_cnt =
     wrap_xQueueGenericCreate halloc hfree max_cnt init_cnt queueQUEUE_TYPE_COUNTING_SEMAPHORE"

definition wrap_xQueueCreateMutex :: "'a halloc \<Rightarrow> 'a hfree \<Rightarrow> nat \<Rightarrow> 'a shmstate_scheme \<Rightarrow> addr \<times> 'a shmstate_scheme" where
  "wrap_xQueueCreateMutex halloc hfree type = wrap_xQueueGenericCreate halloc hfree 1 0 type"

text \<open>A handle on memory of the caller, which stays the caller's when the initialisation fails.\<close>

definition static_with :: "addr \<Rightarrow> shim_obj \<Rightarrow> (addr \<Rightarrow> 'a shmstate_scheme \<Rightarrow> bool \<times> 'a shmstate_scheme) \<Rightarrow>
    'a shmstate_scheme \<Rightarrow> addr \<times> 'a shmstate_scheme" where
  "static_with sq ob init s =
     (let (ok, s1) = init sq (init_static_handle sq ob s) in (if ok then sq else 0, s1))"

definition wrap_xQueueCreateMutexStatic :: "'a halloc \<Rightarrow> 'a hfree \<Rightarrow> nat \<Rightarrow> addr \<Rightarrow> 'a shmstate_scheme \<Rightarrow> addr \<times> 'a shmstate_scheme" where
  "wrap_xQueueCreateMutexStatic halloc hfree type sq s =
     (if sq = 0 then wrap_xQueueCreateMutex halloc hfree type s
      else static_with sq (SHIM_TAG_RMUTEX no_rmutex) rmutex_init s)"

definition wrap_xQueueGenericCreateStatic :: "'a halloc \<Rightarrow> 'a hfree \<Rightarrow> nat \<Rightarrow> nat \<Rightarrow> addr \<Rightarrow> nat \<Rightarrow> 'a shmstate_scheme \<Rightarrow> addr \<times> 'a shmstate_scheme" where
  "wrap_xQueueGenericCreateStatic halloc hfree len item_sz sq type s =
     (let signed = (\<lambda>n. sint (word_of_nat n :: UW))
      in if sq = 0 then wrap_xQueueGenericCreate halloc hfree len item_sz type s
         else if type = queueQUEUE_TYPE_BASE \<and> item_sz \<noteq> 0 then
           static_with sq (SHIM_TAG_QUEUE no_queue) (\<lambda>q. queue_init halloc hfree q len item_sz) s
         else if type = queueQUEUE_TYPE_BASE \<or> type = queueQUEUE_TYPE_BINARY_SEMAPHORE then
           static_with sq (SHIM_TAG_SEM_BIN no_sem) (\<lambda>q. sem_init SHIM_TAG_SEM_BIN q 1 0) s
         else if type = queueQUEUE_TYPE_COUNTING_SEMAPHORE then
           static_with sq (SHIM_TAG_SEM_CNT no_sem) (\<lambda>q. sem_init SHIM_TAG_SEM_CNT q (signed len) (signed item_sz)) s
         else if type = queueQUEUE_TYPE_MUTEX \<or> type = queueQUEUE_TYPE_RECURSIVE_MUTEX then
           wrap_xQueueCreateMutexStatic halloc hfree type sq s
         else wrap_xQueueGenericCreate halloc hfree len item_sz type s)"

definition wrap_xQueueCreateCountingSemaphoreStatic :: "'a halloc \<Rightarrow> 'a hfree \<Rightarrow> nat \<Rightarrow> nat \<Rightarrow> addr \<Rightarrow> 'a shmstate_scheme \<Rightarrow> addr \<times> 'a shmstate_scheme" where
  "wrap_xQueueCreateCountingSemaphoreStatic halloc hfree max_cnt init_cnt sq =
     wrap_xQueueGenericCreateStatic halloc hfree max_cnt init_cnt sq queueQUEUE_TYPE_COUNTING_SEMAPHORE"

definition wrap_vQueueDelete :: "'a hfree \<Rightarrow> addr \<Rightarrow> 'a shmstate_scheme \<Rightarrow> 'a shmstate_scheme option" where
  "wrap_vQueueDelete hfree q s =
     (if q = 0 then Some s
      else
        let static = (case hnd s q of Some h \<Rightarrow> is_static h | None \<Rightarrow> False)
        in map_option (\<lambda>s1. if static then s1 else free_handle hfree q s1)
             (case obj_at q s of
                Some (SHIM_TAG_QUEUE p) \<Rightarrow>
                  let s1 = (if sq_nonempty p > 0 then snd (tk_del_sem (sq_nonempty p) s) else s);
                      s2 = (if sq_nonfull p > 0 then snd (tk_del_sem (sq_nonfull p) s1) else s1)
                  in Some (if sq_data p \<noteq> 0 then hfree (sq_data p) s2 else s2)
              | Some (SHIM_TAG_SEM_BIN p) \<Rightarrow> Some (snd (tk_del_sem (ss_sem_id p) s))
              | Some (SHIM_TAG_SEM_CNT p) \<Rightarrow> Some (snd (tk_del_sem (ss_sem_id p) s))
              | Some (SHIM_TAG_MUTEX m) \<Rightarrow> map_option snd (tk_del_mtx m s)
              | Some (SHIM_TAG_RMUTEX p) \<Rightarrow> map_option snd (tk_del_mtx (rm_mtx_id p) s)
              | _ \<Rightarrow> Some s))"

section \<open>Giving\<close>

definition sem_give :: "addr \<Rightarrow> (shim_sem \<Rightarrow> shim_obj) \<Rightarrow> shim_sem \<Rightarrow> 'a shmstate_scheme \<Rightarrow> bool \<times> 'a shmstate_scheme" where
  "sem_give q tag p s =
     (if ss_cnt p \<ge> ss_max_cnt p then (False, s)
      else (True, snd (tk_sig_sem (ss_sem_id p) 1 (set_obj q (tag (p\<lparr>ss_cnt := ss_cnt p + 1\<rparr>)) s))))"

definition is_ok :: "(sysret \<times> 'a shmstate_scheme) option \<Rightarrow> 'a shim_call" where
  "is_ok r = map_option (\<lambda>(e, s). (if e = Blocked then Waits else Val (ret_er e = E_OK), s)) r"

definition at_once :: "bool \<times> 'a shmstate_scheme \<Rightarrow> 'a shim_call" where
  "at_once r = Some (Val (fst r), snd r)"

definition rmutex_give :: "addr \<Rightarrow> shim_rmutex \<Rightarrow> 'a shmstate_scheme \<Rightarrow> 'a shim_call" where
  "rmutex_give q p s =
     (if rm_depth p \<le> 0 then Some (Val False, s)
      else
        let p1 = p\<lparr>rm_depth := rm_depth p - 1\<rparr>
        in if rm_depth p1 = 0 then
             let s1 = set_obj q (SHIM_TAG_RMUTEX (p1\<lparr>rm_owner_task := 0\<rparr>)) s
             in map_option (\<lambda>(_, s2). (Val True, s2)) (tk_unl_mtx (rm_mtx_id p) s1)
           else Some (Val True, set_obj q (SHIM_TAG_RMUTEX p1) s))"

text \<open>
  The blocking send tries to push and otherwise waits for the notification of a receiver; a count left over from
  earlier receivers makes the wait return at once, and it tries again.
\<close>

partial_function (option) send_loop :: "addr \<Rightarrow> addr \<Rightarrow> TMO \<Rightarrow> 'a shmstate_scheme \<Rightarrow> 'a shim_call" where
  "send_loop q item tmo s =
     (case obj_at q s of
        Some (SHIM_TAG_QUEUE p) \<Rightarrow>
          (let (ok, s1) = queue_push q p item False s
           in if ok then Some (Val True, s1)
              else
                (case tk_wai_sem (sq_nonfull p) 1 tmo s1 of
                   (Blocked, s2) \<Rightarrow> Some (Waits, s2)
                 | (Ret er, s2) \<Rightarrow> if er \<noteq> E_OK then Some (Val False, s2) else send_loop q item tmo s2))
      | _ \<Rightarrow> Some (Val False, s))"

definition send_woken :: "addr \<Rightarrow> addr \<Rightarrow> TMO \<Rightarrow> ER \<Rightarrow> 'a shmstate_scheme \<Rightarrow> 'a shim_call" where
  "send_woken q item tmo er s = (if er \<noteq> E_OK then Some (Val False, s) else send_loop q item tmo s)"

definition wrap_xQueueGenericSend :: "addr \<Rightarrow> addr \<Rightarrow> UW \<Rightarrow> nat \<Rightarrow> 'a shmstate_scheme \<Rightarrow> 'a shim_call" where
  "wrap_xQueueGenericSend q item ticks copy_pos s =
     (if q = 0 then Some (Val False, s)
      else
        case obj_at q s of
          Some (SHIM_TAG_QUEUE p) \<Rightarrow>
            if copy_pos = queueOVERWRITE \<or> shim_in_ddsp s \<or> ticks = 0
            then at_once (queue_push q p item (copy_pos = queueOVERWRITE) s)
            else send_loop q item (shim_tmo ticks) s
        | Some (SHIM_TAG_SEM_BIN p) \<Rightarrow> at_once (sem_give q SHIM_TAG_SEM_BIN p s)
        | Some (SHIM_TAG_SEM_CNT p) \<Rightarrow> at_once (sem_give q SHIM_TAG_SEM_CNT p s)
        | Some (SHIM_TAG_MUTEX m) \<Rightarrow> is_ok (tk_unl_mtx m s)
        | Some (SHIM_TAG_RMUTEX p) \<Rightarrow> rmutex_give q p s
        | _ \<Rightarrow> Some (Val False, s))"

definition wrap_xQueueGiveMutexRecursive :: "addr \<Rightarrow> 'a shmstate_scheme \<Rightarrow> 'a shim_call" where
  "wrap_xQueueGiveMutexRecursive q s =
     (if q = 0 then Some (Val False, s)
      else
        case obj_at q s of
          Some (SHIM_TAG_RMUTEX p) \<Rightarrow> rmutex_give q p s
        | _ \<Rightarrow> wrap_xQueueGenericSend q 0 0 0 s)"

text \<open>The calls for interrupt handlers also report that no switch is needed, which is always false here.\<close>

definition wrap_xQueueGenericSendFromISR :: "addr \<Rightarrow> addr \<Rightarrow> nat \<Rightarrow> 'a shmstate_scheme \<Rightarrow> bool \<times> 'a shmstate_scheme" where
  "wrap_xQueueGenericSendFromISR q item copy_pos s =
     (if q = 0 then (False, s)
      else
        case obj_at q s of
          Some (SHIM_TAG_QUEUE p) \<Rightarrow> queue_push q p item (copy_pos = queueOVERWRITE) s
        | Some (SHIM_TAG_SEM_BIN p) \<Rightarrow> sem_give q SHIM_TAG_SEM_BIN p s
        | Some (SHIM_TAG_SEM_CNT p) \<Rightarrow> sem_give q SHIM_TAG_SEM_CNT p s
        | _ \<Rightarrow> (False, s))"

definition wrap_xQueueGiveFromISR :: "addr \<Rightarrow> 'a shmstate_scheme \<Rightarrow> bool \<times> 'a shmstate_scheme" where
  "wrap_xQueueGiveFromISR q s = wrap_xQueueGenericSendFromISR q 0 0 s"

section \<open>Taking\<close>

partial_function (option) receive_loop :: "addr \<Rightarrow> addr \<Rightarrow> TMO \<Rightarrow> 'a shmstate_scheme \<Rightarrow> 'a shim_call" where
  "receive_loop q buf tmo s =
     (case obj_at q s of
        Some (SHIM_TAG_QUEUE p) \<Rightarrow>
          (let (ok, s1) = queue_pop q p buf s
           in if ok then Some (Val True, s1)
              else
                (case tk_wai_sem (sq_nonempty p) 1 tmo s1 of
                   (Blocked, s2) \<Rightarrow> Some (Waits, s2)
                 | (Ret er, s2) \<Rightarrow> if er \<noteq> E_OK then Some (Val False, s2) else receive_loop q buf tmo s2))
      | _ \<Rightarrow> Some (Val False, s))"

definition receive_woken :: "addr \<Rightarrow> addr \<Rightarrow> TMO \<Rightarrow> ER \<Rightarrow> 'a shmstate_scheme \<Rightarrow> 'a shim_call" where
  "receive_woken q buf tmo er s = (if er \<noteq> E_OK then Some (Val False, s) else receive_loop q buf tmo s)"

definition sem_of :: "shim_obj option \<Rightarrow> ((shim_sem \<Rightarrow> shim_obj) \<times> shim_sem) option" where
  "sem_of ob = (case ob of Some (SHIM_TAG_SEM_BIN p) \<Rightarrow> Some (SHIM_TAG_SEM_BIN, p)
                         | Some (SHIM_TAG_SEM_CNT p) \<Rightarrow> Some (SHIM_TAG_SEM_CNT, p) | _ \<Rightarrow> None)"

text \<open>Taking one from the count, if there is one.\<close>

definition sem_try :: "addr \<Rightarrow> 'a shmstate_scheme \<Rightarrow> bool \<times> 'a shmstate_scheme" where
  "sem_try q s =
     (case sem_of (obj_at q s) of
        Some (tag, p) \<Rightarrow> if ss_cnt p > 0 then (True, set_obj q (tag (p\<lparr>ss_cnt := ss_cnt p - 1\<rparr>)) s) else (False, s)
      | None \<Rightarrow> (False, s))"

partial_function (option) take_loop :: "addr \<Rightarrow> TMO \<Rightarrow> 'a shmstate_scheme \<Rightarrow> 'a shim_call" where
  "take_loop q tmo s =
     (case sem_of (obj_at q s) of
        Some (tag, p) \<Rightarrow>
          (case tk_wai_sem (ss_sem_id p) 1 tmo s of
             (Blocked, s1) \<Rightarrow> Some (Waits, s1)
           | (Ret er, s1) \<Rightarrow>
               if er \<noteq> E_OK then Some (Val False, s1)
               else let (ok, s2) = sem_try q s1 in if ok then Some (Val True, s2) else take_loop q tmo s2)
      | None \<Rightarrow> Some (Val False, s))"

definition take_woken :: "addr \<Rightarrow> TMO \<Rightarrow> ER \<Rightarrow> 'a shmstate_scheme \<Rightarrow> 'a shim_call" where
  "take_woken q tmo er s =
     (if er \<noteq> E_OK then Some (Val False, s)
      else let (ok, s1) = sem_try q s in if ok then Some (Val True, s1) else take_loop q tmo s1)"

definition sem_take :: "addr \<Rightarrow> shim_sem \<Rightarrow> UW \<Rightarrow> 'a shmstate_scheme \<Rightarrow> 'a shim_call" where
  "sem_take q p ticks s =
     (let (ok, s1) = sem_try q s
      in if ok then Some (Val True, snd (tk_wai_sem (ss_sem_id p) 1 TMO_POL s1))
         else if shim_tmo ticks = TMO_POL then Some (Val False, s1)
         else take_loop q (shim_tmo ticks) s1)"

definition rmutex_got :: "addr \<Rightarrow> shim_rmutex \<Rightarrow> ID \<Rightarrow> ER \<Rightarrow> 'a shmstate_scheme \<Rightarrow> bool \<times> 'a shmstate_scheme" where
  "rmutex_got q p cur er s =
     (if er = E_OK then (True, set_obj q (SHIM_TAG_RMUTEX (p\<lparr>rm_owner_task := cur, rm_depth := 1\<rparr>)) s) else (False, s))"

definition rmutex_take :: "addr \<Rightarrow> shim_rmutex \<Rightarrow> UW \<Rightarrow> 'a shmstate_scheme \<Rightarrow> 'a shim_call" where
  "rmutex_take q p ticks s =
     (let cur = tk_get_tid s
      in if rm_owner_task p = cur then Some (Val True, set_obj q (SHIM_TAG_RMUTEX (p\<lparr>rm_depth := rm_depth p + 1\<rparr>)) s)
         else
           case tk_loc_mtx (rm_mtx_id p) (shim_tmo ticks) s of
             None \<Rightarrow> None
           | Some (Blocked, s1) \<Rightarrow> Some (Waits, s1)
           | Some (Ret er, s1) \<Rightarrow> at_once (rmutex_got q p cur er s1))"

definition rmutex_woken :: "addr \<Rightarrow> ER \<Rightarrow> 'a shmstate_scheme \<Rightarrow> bool \<times> 'a shmstate_scheme" where
  "rmutex_woken q er s =
     (case obj_at q s of Some (SHIM_TAG_RMUTEX p) \<Rightarrow> rmutex_got q p (tk_get_tid s) er s | _ \<Rightarrow> (False, s))"

text \<open>A received item that nobody wants goes into a buffer on the stack, which is null here: nothing is copied.\<close>

definition wrap_xQueueSemaphoreTake :: "addr \<Rightarrow> UW \<Rightarrow> 'a shmstate_scheme \<Rightarrow> 'a shim_call" where
  "wrap_xQueueSemaphoreTake q ticks s =
     (if q = 0 \<or> q \<in> shim_tags then Some (Val False, s)
      else
        case obj_at q s of
          Some (SHIM_TAG_SEM_BIN p) \<Rightarrow> sem_take q p ticks s
        | Some (SHIM_TAG_SEM_CNT p) \<Rightarrow> sem_take q p ticks s
        | Some (SHIM_TAG_MUTEX m) \<Rightarrow> is_ok (tk_loc_mtx m (shim_tmo ticks) s)
        | Some (SHIM_TAG_RMUTEX p) \<Rightarrow> rmutex_take q p ticks s
        | Some (SHIM_TAG_QUEUE p) \<Rightarrow>
            if shim_in_ddsp s \<or> ticks = 0 then at_once (queue_pop q p 0 s) else receive_loop q 0 (shim_tmo ticks) s
        | _ \<Rightarrow> Some (Val False, s))"

definition wrap_xQueueTakeMutexRecursive :: "addr \<Rightarrow> UW \<Rightarrow> 'a shmstate_scheme \<Rightarrow> 'a shim_call" where
  "wrap_xQueueTakeMutexRecursive q ticks s = wrap_xQueueSemaphoreTake q ticks s"

definition wrap_xQueueReceive :: "addr \<Rightarrow> addr \<Rightarrow> UW \<Rightarrow> 'a shmstate_scheme \<Rightarrow> 'a shim_call" where
  "wrap_xQueueReceive q buf ticks s =
     (if q = 0 then Some (Val False, s)
      else
        case obj_at q s of
          Some (SHIM_TAG_QUEUE p) \<Rightarrow>
            if shim_in_ddsp s \<or> ticks = 0 then at_once (queue_pop q p buf s) else receive_loop q buf (shim_tmo ticks) s
        | _ \<Rightarrow> wrap_xQueueSemaphoreTake q ticks s)"

definition wrap_xQueueReceiveFromISR :: "addr \<Rightarrow> addr \<Rightarrow> 'a shmstate_scheme \<Rightarrow> bool \<times> 'a shmstate_scheme" where
  "wrap_xQueueReceiveFromISR q buf s =
     (if q = 0 then (False, s)
      else case obj_at q s of Some (SHIM_TAG_QUEUE p) \<Rightarrow> queue_pop q p buf s | _ \<Rightarrow> sem_try q s)"

section \<open>Looking\<close>

definition peek :: "shim_queue \<Rightarrow> addr \<Rightarrow> 'a shmstate_scheme \<Rightarrow> bool \<times> 'a shmstate_scheme" where
  "peek p buf s =
     (if sq_head p = sq_tail p then (False, s)
      else (True, if buf \<noteq> 0 then s\<lparr>bmem := memcpy buf (slot_at p (sq_head p)) (sq_item_sz p) (bmem s)\<rparr> else s))"

partial_function (option) peek_loop :: "addr \<Rightarrow> addr \<Rightarrow> TMO \<Rightarrow> 'a shmstate_scheme \<Rightarrow> 'a shim_call" where
  "peek_loop q buf tmo s =
     (case obj_at q s of
        Some (SHIM_TAG_QUEUE p) \<Rightarrow>
          (let (ok, s1) = peek p buf s
           in if ok then Some (Val True, snd (tk_sig_sem (sq_nonempty p) 1 s1))
              else
                (case tk_wai_sem (sq_nonempty p) 1 tmo s1 of
                   (Blocked, s2) \<Rightarrow> Some (Waits, s2)
                 | (Ret er, s2) \<Rightarrow> if er \<noteq> E_OK then Some (Val False, s2) else peek_loop q buf tmo s2))
      | _ \<Rightarrow> Some (Val False, s))"

definition wrap_xQueuePeek :: "addr \<Rightarrow> addr \<Rightarrow> UW \<Rightarrow> 'a shmstate_scheme \<Rightarrow> 'a shim_call" where
  "wrap_xQueuePeek q buf ticks s =
     (if q = 0 then Some (Val False, s)
      else
        case obj_at q s of
          Some (SHIM_TAG_QUEUE p) \<Rightarrow>
            if shim_in_ddsp s \<or> ticks = 0 then at_once (peek p buf s) else peek_loop q buf (shim_tmo ticks) s
        | _ \<Rightarrow> Some (Val False, s))"

definition wrap_xQueuePeekFromISR :: "addr \<Rightarrow> addr \<Rightarrow> 'a shmstate_scheme \<Rightarrow> bool \<times> 'a shmstate_scheme" where
  "wrap_xQueuePeekFromISR q buf s =
     (if q = 0 then (False, s) else case obj_at q s of Some (SHIM_TAG_QUEUE p) \<Rightarrow> peek p buf s | _ \<Rightarrow> (False, s))"

definition wrap_uxQueueMessagesWaiting :: "addr \<Rightarrow> 'a shmstate_scheme \<Rightarrow> int" where
  "wrap_uxQueueMessagesWaiting q s =
     (if q = 0 then 0
      else
        case obj_at q s of
          Some (SHIM_TAG_QUEUE p) \<Rightarrow>
            int (if sq_tail p \<ge> sq_head p then sq_tail p - sq_head p else sq_cap p - sq_head p + sq_tail p)
        | Some (SHIM_TAG_SEM_BIN p) \<Rightarrow> uint (word_of_int (ss_cnt p) :: UW)
        | Some (SHIM_TAG_SEM_CNT p) \<Rightarrow> uint (word_of_int (ss_cnt p) :: UW)
        | _ \<Rightarrow> 0)"

definition wrap_uxQueueMessagesWaitingFromISR :: "addr \<Rightarrow> 'a shmstate_scheme \<Rightarrow> int" where
  "wrap_uxQueueMessagesWaitingFromISR q s = wrap_uxQueueMessagesWaiting q s"

definition wrap_uxQueueSpacesAvailable :: "addr \<Rightarrow> 'a shmstate_scheme \<Rightarrow> int" where
  "wrap_uxQueueSpacesAvailable q s =
     (if q = 0 then 0
      else
        case obj_at q s of
          Some (SHIM_TAG_QUEUE p) \<Rightarrow>
            let used = wrap_uxQueueMessagesWaiting q s in if int (sq_cap p) > used then int (sq_cap p) - used - 1 else 0
        | _ \<Rightarrow> 1)"

definition wrap_xQueueReset :: "addr \<Rightarrow> 'a shmstate_scheme \<Rightarrow> bool \<times> 'a shmstate_scheme" where
  "wrap_xQueueReset q s =
     (True, if q = 0 then s
            else case obj_at q s of
                   Some (SHIM_TAG_QUEUE p) \<Rightarrow> set_obj q (SHIM_TAG_QUEUE (p\<lparr>sq_head := 0, sq_tail := 0\<rparr>)) s
                 | _ \<Rightarrow> s)"

definition wrap_xQueueIsQueueEmptyFromISR :: "addr \<Rightarrow> 'a shmstate_scheme \<Rightarrow> bool" where
  "wrap_xQueueIsQueueEmptyFromISR q s =
     (if q = 0 then True
      else
        case obj_at q s of
          Some (SHIM_TAG_QUEUE p) \<Rightarrow> sq_head p = sq_tail p
        | Some (SHIM_TAG_SEM_BIN p) \<Rightarrow> ss_cnt p = 0
        | Some (SHIM_TAG_SEM_CNT p) \<Rightarrow> ss_cnt p = 0
        | _ \<Rightarrow> True)"

end
