(* ===== verification/Shim_Ring.thy ===== *)
theory Shim_Ring
  imports Shim Sample_Objects
begin

text \<open>
  The ring buffer behind a queue of the FreeRTOS adapter: its content as a list of items read from the head, the effect of
  pushing and popping on that list and on the bytes of the caller, and a history of calls, which has the results of a
  first-in first-out queue that holds one item less than the length the queue was created with.
\<close>

section \<open>The frame of the kernel calls\<close>

lemma shm_frame:
  assumes "semstate.more s' = semstate.more s"
  shows "hnd s' = hnd s" "bmem s' = bmem s" "s_tasks s' = s_tasks s"
  using assms by (cases s; cases s'; simp)+

lemma shim_updates [simp]:
  "core_inv (s\<lparr>hnd := h\<rparr>) = core_inv s" "core_inv (s\<lparr>bmem := m\<rparr>) = core_inv s"
  "semcb (s\<lparr>hnd := h\<rparr>) = semcb s" "que (s\<lparr>hnd := h\<rparr>) = que s" "tcb (s\<lparr>hnd := h\<rparr>) = tcb s"
  "sem_inv (s\<lparr>hnd := h\<rparr>) = sem_inv s" "sem_inv (s\<lparr>bmem := m\<rparr>) = sem_inv s"
proof -
  show "core_inv (s\<lparr>hnd := h\<rparr>) = core_inv s" "core_inv (s\<lparr>bmem := m\<rparr>) = core_inv s" by (rule core_inv_cong; simp)+
  show "semcb (s\<lparr>hnd := h\<rparr>) = semcb s" "que (s\<lparr>hnd := h\<rparr>) = que s" "tcb (s\<lparr>hnd := h\<rparr>) = tcb s" by simp_all
  have e: "sem_req (s\<lparr>hnd := h\<rparr>) = sem_req s" "sem_req (s\<lparr>bmem := m\<rparr>) = sem_req s" by (auto simp: sem_req_def)
  show "sem_inv (s\<lparr>hnd := h\<rparr>) = sem_inv s" "sem_inv (s\<lparr>bmem := m\<rparr>) = sem_inv s" by (simp_all add: sem_inv_def e)
qed

lemma set_obj_fields [simp]:
  "core_inv (set_obj q ob s) = core_inv s" "sem_inv (set_obj q ob s) = sem_inv s" "bmem (set_obj q ob s) = bmem s"
  "semcb (set_obj q ob s) = semcb s" "que (set_obj q ob s) = que s" "tcb (set_obj q ob s) = tcb s"
  "ctxtsk (set_obj q ob s) = ctxtsk s" "run_ok (set_obj q ob s) = run_ok s" "in_ddsp (set_obj q ob s) = in_ddsp s"
  "obj_at q s \<noteq> None \<Longrightarrow> obj_at q (set_obj q ob s) = Some ob" "q' \<noteq> q \<Longrightarrow> obj_at q' (set_obj q ob s) = obj_at q' s"
  by (auto simp: set_obj_def obj_at_def run_ok_def in_ddsp_def in_indp_def knl_is_dispatch_masked_def)

definition kernel_ok :: "'a shmstate_scheme \<Rightarrow> bool" where
  "kernel_ok s \<longleftrightarrow> core_inv s \<and> sem_inv s"

lemma kernel_ok_simps [simp]:
  "kernel_ok (set_obj q ob s) = kernel_ok s" "kernel_ok (s\<lparr>bmem := m\<rparr>) = kernel_ok s"
  by (simp_all add: kernel_ok_def)

lemma sig_sem_keeps:
  fixes i :: ID and n :: int
  assumes "kernel_ok s" defines "s' \<equiv> snd (tk_sig_sem i n s)"
  shows "kernel_ok s'" "obj_at q s' = obj_at q s" "bmem s' = bmem s"
  using assms tk_sig_sem_inv[of s i n] tk_sig_sem_frame[of s i n] shm_frame[of s' s]
  by (auto simp: kernel_ok_def sem_frame_rel_def obj_at_def)

lemma wai_sem_keeps:
  fixes i :: ID and n :: int and tmo :: TMO
  assumes "kernel_ok s" "run_ok s" defines "s' \<equiv> snd (tk_wai_sem i n tmo s)"
  shows "kernel_ok s'" "obj_at q s' = obj_at q s" "bmem s' = bmem s"
  using assms tk_wai_sem_inv[of s i n tmo] tk_wai_sem_frame[of s i n tmo] shm_frame[of s' s]
  by (auto simp: kernel_ok_def sem_frame_rel_def obj_at_def)

section \<open>The ring of a queue\<close>

lemma msg_bytes_memcpy:
  "msg_bytes (memcpy d src n m) d n = msg_bytes m src n"
  "d + n \<le> a \<or> a + k \<le> d \<Longrightarrow> msg_bytes (memcpy d src n m) a k = msg_bytes m a k"
  by (auto simp: msg_bytes_def memcpy_def)

definition queue_ok :: "shim_queue \<Rightarrow> bool" where
  "queue_ok p \<longleftrightarrow> sq_head p < sq_cap p \<and> sq_tail p < sq_cap p \<and> sq_cap p * sq_item_sz p < 2 ^ 32"

definition used :: "shim_queue \<Rightarrow> nat" where
  "used p = (if sq_tail p \<ge> sq_head p then sq_tail p - sq_head p else sq_cap p - sq_head p + sq_tail p)"

definition ring_item :: "shim_queue \<Rightarrow> mem \<Rightarrow> nat \<Rightarrow> 8 word list" where
  "ring_item p m k = msg_bytes m (slot_at p ((sq_head p + k) mod sq_cap p)) (sq_item_sz p)"

definition queue_items :: "shim_queue \<Rightarrow> mem \<Rightarrow> 8 word list list" where
  "queue_items p m = map (ring_item p m) [0..<used p]"

text \<open>The memory \<open>a\<close> to \<open>a + n\<close> does not meet the buffer of the queue.\<close>

definition clear_of :: "addr \<Rightarrow> nat \<Rightarrow> shim_queue \<Rightarrow> bool" where
  "clear_of a n p \<longleftrightarrow> a + n \<le> sq_data p \<or> sq_data p + sq_cap p * sq_item_sz p \<le> a"

lemma next_index: "k < c \<Longrightarrow> (k + 1) mod c = (if k + 1 = c then 0 else k + 1)" for k :: nat
  by (auto simp: mod_if)

lemma used_less: "queue_ok p \<Longrightarrow> used p < sq_cap p"
  by (auto simp: used_def queue_ok_def)

lemma tail_position: "queue_ok p \<Longrightarrow> (sq_head p + used p) mod sq_cap p = sq_tail p"
  by (auto simp: used_def queue_ok_def mod_if)

lemma queue_full: "queue_ok p \<Longrightarrow> (sq_tail p + 1) mod sq_cap p = sq_head p \<longleftrightarrow> used p = sq_cap p - 1"
  unfolding used_def queue_ok_def using next_index[of "sq_tail p" "sq_cap p"] by (auto split: if_splits)

lemma slot_linear: "queue_ok p \<Longrightarrow> k < sq_cap p \<Longrightarrow> slot_at p k = sq_data p + k * sq_item_sz p"
proof -
  assume p: "queue_ok p" "k < sq_cap p"
  then have "k * sq_item_sz p \<le> sq_cap p * sq_item_sz p" by (intro mult_right_mono) auto
  moreover have "sq_cap p * sq_item_sz p < 2 ^ 32" using p(1) unfolding queue_ok_def by blast
  ultimately have "k * sq_item_sz p < 2 ^ 32" by (rule le_less_trans)
  then show ?thesis by (simp add: slot_at_def)
qed

lemma slot_within:
  assumes "queue_ok p" "k < sq_cap p"
  shows "sq_data p \<le> slot_at p k" "slot_at p k + sq_item_sz p \<le> sq_data p + sq_cap p * sq_item_sz p"
proof -
  have "Suc k * sq_item_sz p \<le> sq_cap p * sq_item_sz p" using assms(2) by (intro mult_right_mono) auto
  then show "sq_data p \<le> slot_at p k" "slot_at p k + sq_item_sz p \<le> sq_data p + sq_cap p * sq_item_sz p"
    by (simp_all add: slot_linear[OF assms])
qed

lemma slots_disjoint:
  assumes "queue_ok p" "j < sq_cap p" "k < sq_cap p" "j \<noteq> k"
  shows "slot_at p j + sq_item_sz p \<le> slot_at p k \<or> slot_at p k + sq_item_sz p \<le> slot_at p j"
proof -
  have "Suc a * sq_item_sz p \<le> b * sq_item_sz p" if "a < b" for a b using that by (intro mult_right_mono) auto
  from this[of j k] this[of k j] assms(4) have "j * sq_item_sz p + sq_item_sz p \<le> k * sq_item_sz p \<or>
      k * sq_item_sz p + sq_item_sz p \<le> j * sq_item_sz p" by (cases "j < k") simp_all
  then show ?thesis using assms by (auto simp: slot_linear)
qed

lemma ring_positions_distinct:
  assumes "queue_ok p" "j < sq_cap p" "k < sq_cap p" "j \<noteq> k"
  shows "(sq_head p + j) mod sq_cap p \<noteq> (sq_head p + k) mod sq_cap p"
  using assms by (auto simp: queue_ok_def mod_if)

definition pushed :: "shim_queue \<Rightarrow> shim_queue" where
  "pushed p = p\<lparr>sq_tail := (sq_tail p + 1) mod sq_cap p\<rparr>"

definition popped :: "shim_queue \<Rightarrow> shim_queue" where
  "popped p = p\<lparr>sq_head := (sq_head p + 1) mod sq_cap p\<rparr>"

lemma ring_fields [simp]:
  "sq_cap (pushed p) = sq_cap p" "sq_item_sz (pushed p) = sq_item_sz p" "sq_data (pushed p) = sq_data p"
  "sq_head (pushed p) = sq_head p" "sq_nonempty (pushed p) = sq_nonempty p" "sq_nonfull (pushed p) = sq_nonfull p"
  "sq_cap (popped p) = sq_cap p" "sq_item_sz (popped p) = sq_item_sz p" "sq_data (popped p) = sq_data p"
  "sq_tail (popped p) = sq_tail p" "sq_nonempty (popped p) = sq_nonempty p" "sq_nonfull (popped p) = sq_nonfull p"
  "clear_of a n (pushed p) = clear_of a n p" "clear_of a n (popped p) = clear_of a n p"
  by (simp_all add: pushed_def popped_def clear_of_def)

lemma queue_ok_steps: "queue_ok p \<Longrightarrow> queue_ok (pushed p)" "queue_ok p \<Longrightarrow> queue_ok (popped p)"
  by (auto simp: queue_ok_def pushed_def popped_def)

lemma used_pushed: "queue_ok p \<Longrightarrow> used p \<noteq> sq_cap p - 1 \<Longrightarrow> used (pushed p) = used p + 1"
  using next_index[of "sq_tail p" "sq_cap p"] by (auto simp: queue_ok_def pushed_def used_def split: if_splits)

lemma used_popped: "queue_ok p \<Longrightarrow> 0 < used p \<Longrightarrow> used (popped p) = used p - 1"
  using next_index[of "sq_head p" "sq_cap p"] by (auto simp: queue_ok_def popped_def used_def split: if_splits)

lemma items_pushed:
  assumes "queue_ok p" "used p \<noteq> sq_cap p - 1"
  shows "queue_items (pushed p) (memcpy (slot_at p (sq_tail p)) src (sq_item_sz p) m) =
    queue_items p m @ [msg_bytes m src (sq_item_sz p)]"
proof -
  let ?m = "memcpy (slot_at p (sq_tail p)) src (sq_item_sz p) m"
  have c: "0 < sq_cap p" using assms(1) by (auto simp: queue_ok_def)
  have "ring_item (pushed p) ?m k = ring_item p m k" if "k < used p" for k
  proof -
    have "(sq_head p + k) mod sq_cap p \<noteq> sq_tail p"
      using ring_positions_distinct[OF assms(1), of k "used p"] tail_position[OF assms(1)] used_less[OF assms(1)] that by auto
    from slots_disjoint[OF assms(1) _ _ this] show ?thesis using c assms(1)
      by (auto simp: ring_item_def slot_at_def queue_ok_def intro!: msg_bytes_memcpy(2))
  qed
  moreover have "ring_item (pushed p) ?m (used p) = msg_bytes m src (sq_item_sz p)"
    using tail_position[OF assms(1)] by (simp add: ring_item_def msg_bytes_memcpy slot_at_def)
  ultimately show ?thesis using used_pushed[OF assms] by (simp add: queue_items_def)
qed

lemma items_popped: "queue_ok p \<Longrightarrow> 0 < used p \<Longrightarrow> queue_items (popped p) m = tl (queue_items p m)"
proof -
  assume a: "queue_ok p" "0 < used p"
  have "ring_item (popped p) m k = ring_item p m (Suc k)" for k
    by (simp add: ring_item_def popped_def slot_at_def mod_simps)
  then show ?thesis using used_popped[OF a] a(2)
    by (cases "used p") (simp_all add: queue_items_def upt_conv_Cons map_Suc_upt[symmetric] del: upt_Suc)
qed

lemma items_outside:
  assumes "queue_ok p" "clear_of a n p" "\<And>b. b < a \<or> a + n \<le> b \<Longrightarrow> m' b = m b"
  shows "queue_items p m' = queue_items p m"
proof -
  have c: "0 < sq_cap p" using assms(1) by (auto simp: queue_ok_def)
  have "ring_item p m' k = ring_item p m k" for k
    using slot_within[OF assms(1), of "(sq_head p + k) mod sq_cap p"] c assms(2)
    by (auto simp: ring_item_def clear_of_def msg_bytes_def intro!: assms(3))
  then show ?thesis by (simp add: queue_items_def)
qed

lemma items_apart: "queue_ok p \<Longrightarrow> clear_of a n p \<Longrightarrow> queue_items p (memcpy a src n m) = queue_items p m"
  by (erule items_outside) (auto simp: memcpy_def)

lemma length_queue_items [simp]: "length (queue_items p m) = used p"
  by (simp add: queue_items_def)

lemma hd_queue_items: "0 < used p \<Longrightarrow> queue_ok p \<Longrightarrow> hd (queue_items p m) = msg_bytes m (slot_at p (sq_head p)) (sq_item_sz p)"
  by (simp add: queue_items_def hd_map ring_item_def queue_ok_def)

section \<open>The calls on a queue\<close>

text \<open>The queue at handle \<open>q\<close> has the control block \<open>p\<close> and holds the items \<open>xs\<close>.\<close>

definition queue_at :: "addr \<Rightarrow> shim_queue \<Rightarrow> 8 word list list \<Rightarrow> 'a shmstate_scheme \<Rightarrow> bool" where
  "queue_at q p xs s \<longleftrightarrow> q \<noteq> 0 \<and> kernel_ok s \<and> obj_at q s = Some (SHIM_TAG_QUEUE p) \<and> queue_ok p \<and> queue_items p (bmem s) = xs"

lemma queue_atD:
  assumes "queue_at q p xs s"
  shows "kernel_ok s" "obj_at q s = Some (SHIM_TAG_QUEUE p)" "queue_ok p" "queue_items p (bmem s) = xs" "length xs = used p" "q \<noteq> 0"
  using assms by (auto simp: queue_at_def)

lemma queue_push_refused:
  assumes "queue_at q p xs s" "length xs = sq_cap p - 1"
  shows "queue_push q p item False s = (False, s)"
  using assms queue_full[of p] by (simp add: queue_push_def queue_atD)

lemma queue_push_room:
  assumes "queue_at q p xs s" "length xs \<noteq> sq_cap p - 1"
  shows "queue_push q p item ov s = (True, snd (tk_sig_sem (sq_nonempty p) 1
    (set_obj q (SHIM_TAG_QUEUE (pushed p)) (s\<lparr>bmem := memcpy (slot_at p (sq_tail p)) item (sq_item_sz p) (bmem s)\<rparr>))))"
  using assms queue_full[of p] by (simp add: queue_push_def pushed_def Let_def queue_atD)

lemma queue_push_appends:
  assumes "queue_at q p xs s" "length xs \<noteq> sq_cap p - 1"
  shows "fst (queue_push q p item ov s)"
    "queue_at q (pushed p) (xs @ [msg_bytes (bmem s) item (sq_item_sz p)]) (snd (queue_push q p item ov s))"
proof -
  let ?s = "set_obj q (SHIM_TAG_QUEUE (pushed p)) (s\<lparr>bmem := memcpy (slot_at p (sq_tail p)) item (sq_item_sz p) (bmem s)\<rparr>)"
  have k: "kernel_ok ?s" using queue_atD(1)[OF assms(1)] by simp
  have "obj_at q ?s = Some (SHIM_TAG_QUEUE (pushed p))"
    using queue_atD(2)[OF assms(1)] by (auto simp: obj_at_def set_obj_def)
  then show "fst (queue_push q p item ov s)"
    "queue_at q (pushed p) (xs @ [msg_bytes (bmem s) item (sq_item_sz p)]) (snd (queue_push q p item ov s))"
    using sig_sem_keeps[OF k] queue_atD[OF assms(1)] queue_ok_steps items_pushed[of p] assms(2)
    by (auto simp: queue_push_room[OF assms] queue_at_def)
qed

text \<open>An overwriting send on a full queue drops the oldest item; a queue of length one has none, and stays empty.\<close>

lemma queue_push_overwrites:
  assumes "queue_at q p xs s" "length xs = sq_cap p - 1"
  shows "fst (queue_push q p item True s)"
    "queue_at q (pushed (popped p)) (tl (xs @ [msg_bytes (bmem s) item (sq_item_sz p)])) (snd (queue_push q p item True s))"
proof -
  let ?m = "memcpy (slot_at p (sq_tail p)) item (sq_item_sz p) (bmem s)"
  let ?s = "set_obj q (SHIM_TAG_QUEUE (pushed (popped p))) (s\<lparr>bmem := ?m\<rparr>)"
  note D = queue_atD[OF assms(1)]
  have n: "(sq_tail p + 1) mod sq_cap p = sq_head p" using assms queue_full[of p] D by simp
  then have e: "queue_push q p item True s = (True, snd (tk_sig_sem (sq_nonempty p) 1 ?s))"
    by (simp add: queue_push_def pushed_def popped_def Let_def slot_at_def)
  have k: "kernel_ok ?s" using D(1) by simp
  have o: "obj_at q ?s = Some (SHIM_TAG_QUEUE (pushed (popped p)))" using D(2) by (auto simp: obj_at_def set_obj_def)
  have i: "queue_items (pushed (popped p)) ?m = tl (xs @ [msg_bytes (bmem s) item (sq_item_sz p)])"
  proof (cases "sq_cap p = 1")
    case True
    then have "used (pushed (popped p)) = 0" "xs = []" using D by (auto simp: queue_ok_def pushed_def popped_def used_def)
    then show ?thesis by (simp add: queue_items_def)
  next
    case False
    then have c: "0 < used p" using assms(2) D used_less[OF D(3)] by simp
    then have "used (popped p) \<noteq> sq_cap (popped p) - 1" using used_popped[OF D(3)] used_less[OF D(3)] assms(2) D by simp
    from items_pushed[OF queue_ok_steps(2)[OF D(3)] this, of item "bmem s"] c show ?thesis
      using items_popped[OF D(3) c] D(4,5) by (cases xs) (auto simp: slot_at_def)
  qed
  show "fst (queue_push q p item True s)"
    "queue_at q (pushed (popped p)) (tl (xs @ [msg_bytes (bmem s) item (sq_item_sz p)])) (snd (queue_push q p item True s))"
    using sig_sem_keeps[OF k] D queue_ok_steps o i by (auto simp: e queue_at_def)
qed

lemma queue_pop_empty: "queue_at q p [] s \<Longrightarrow> queue_pop q p buf s = (False, s)"
  using queue_atD(5)[of q p "[]" s] by (auto simp: queue_pop_def used_def queue_at_def queue_ok_def split: if_splits)

lemma queue_pop_first:
  assumes "queue_at q p (x # xs) s" "buf \<noteq> 0 \<longrightarrow> clear_of buf (sq_item_sz p) p"
  defines "s' \<equiv> snd (queue_pop q p buf s)"
  shows "fst (queue_pop q p buf s)" "queue_at q (popped p) xs s'"
    "buf \<noteq> 0 \<Longrightarrow> msg_bytes (bmem s') buf (sq_item_sz p) = x"
proof -
  let ?s1 = "if buf \<noteq> 0 then s\<lparr>bmem := memcpy buf (slot_at p (sq_head p)) (sq_item_sz p) (bmem s)\<rparr> else s"
  let ?s = "set_obj q (SHIM_TAG_QUEUE (popped p)) ?s1"
  note D = queue_atD[OF assms(1)]
  have u: "0 < used p" using D(5) by auto
  then have e: "queue_pop q p buf s = (True, snd (tk_sig_sem (sq_nonfull p) 1 ?s))"
    by (auto simp: queue_pop_def popped_def used_def Let_def)
  have k: "kernel_ok ?s" using D(1) by simp
  have o: "obj_at q ?s = Some (SHIM_TAG_QUEUE (popped p))" using D(2) by (auto simp: obj_at_def set_obj_def)
  have x: "msg_bytes (bmem s) (slot_at p (sq_head p)) (sq_item_sz p) = x" using hd_queue_items[OF u D(3)] D(4) by (metis list.sel(1))
  have i: "queue_items (popped p) (bmem ?s1) = xs"
    using items_popped[OF D(3) u] items_apart[OF queue_ok_steps(2)[OF D(3)], of buf "sq_item_sz p"] assms(2) D(4) by auto
  show "fst (queue_pop q p buf s)" by (simp add: e)
  show "queue_at q (popped p) xs s'" using sig_sem_keeps[OF k] D queue_ok_steps o i by (auto simp: s'_def e queue_at_def)
  show "msg_bytes (bmem s') buf (sq_item_sz p) = x" if "buf \<noteq> 0"
    using that sig_sem_keeps(3)[OF k] by (simp add: s'_def e msg_bytes_memcpy x)
qed

section \<open>Histories\<close>

text \<open>
  The interface of a bounded queue: \<open>put\<close> refuses or, when told to overwrite, drops the oldest item when the queue is
  full, \<open>get\<close> takes the oldest. A history of calls then has the results of the abstract queue.
\<close>

definition fifo_put :: "nat \<Rightarrow> bool \<Rightarrow> 'x \<Rightarrow> 'x list \<Rightarrow> bool \<times> 'x list" where
  "fifo_put n ov x xs =
     (ov \<or> length xs < n, if length xs < n then xs @ [x] else if ov then tl (xs @ [x]) else xs)"

definition fifo_get :: "'x list \<Rightarrow> 'x option \<times> 'x list" where
  "fifo_get xs = (case xs of [] \<Rightarrow> None | x # _ \<Rightarrow> Some x, tl xs)"

datatype 'x fifo_op = Put bool 'x | Get

datatype 'x fifo_res = Done bool | Got "'x option"

fun fifo_run :: "(bool \<Rightarrow> 'x \<Rightarrow> 's \<Rightarrow> bool \<times> 's) \<Rightarrow> ('s \<Rightarrow> 'x option \<times> 's) \<Rightarrow> 'x fifo_op list \<Rightarrow> 's \<Rightarrow> 'x fifo_res list \<times> 's" where
  "fifo_run put get [] s = ([], s)"
| "fifo_run put get (Put ov x # ops) s = (let (b, s1) = put ov x s; (rs, s2) = fifo_run put get ops s1 in (Done b # rs, s2))"
| "fifo_run put get (Get # ops) s = (let (y, s1) = get s; (rs, s2) = fifo_run put get ops s1 in (Got y # rs, s2))"

definition ops_ok :: "('x \<Rightarrow> bool) \<Rightarrow> 'x fifo_op list \<Rightarrow> bool" where
  "ops_ok ok ops \<longleftrightarrow> (\<forall>ov x. Put ov x \<in> set ops \<longrightarrow> ok x)"

locale bounded_fifo =
  fixes rep :: "nat \<Rightarrow> 'x list \<Rightarrow> 's \<Rightarrow> bool"
    and put :: "bool \<Rightarrow> 'x \<Rightarrow> 's \<Rightarrow> bool \<times> 's"
    and get :: "'s \<Rightarrow> 'x option \<times> 's"
    and ok :: "'x \<Rightarrow> bool"
  assumes put_law: "rep n xs s \<Longrightarrow> ok x \<Longrightarrow>
      fst (put ov x s) = fst (fifo_put n ov x xs) \<and> rep n (snd (fifo_put n ov x xs)) (snd (put ov x s))"
    and get_law: "rep n xs s \<Longrightarrow> fst (get s) = fst (fifo_get xs) \<and> rep n (snd (fifo_get xs)) (snd (get s))"
begin

lemma history:
  "rep n xs s \<Longrightarrow> ops_ok ok ops \<Longrightarrow>
     fst (fifo_run put get ops s) = fst (fifo_run (fifo_put n) fifo_get ops xs) \<and>
     rep n (snd (fifo_run (fifo_put n) fifo_get ops xs)) (snd (fifo_run put get ops s))"
proof (induction ops arbitrary: xs s)
  case (Cons a ops)
  have o: "ops_ok ok ops" using Cons.prems(2) by (auto simp: ops_ok_def)
  show ?case
  proof (cases a)
    case (Put ov x)
    then have "ok x" using Cons.prems(2) by (auto simp: ops_ok_def)
    from put_law[OF Cons.prems(1) this, of ov] Cons.IH[OF _ o] show ?thesis by (simp add: Put split_beta)
  next
    case Get
    from get_law[OF Cons.prems(1)] Cons.IH[OF _ o] show ?thesis by (simp add: Get split_beta)
  qed
qed simp

end

text \<open>
  The calls of an application that keeps its items at address \<open>item\<close> and receives into \<open>buf\<close>, outside of the ring.
\<close>

definition store_bytes :: "addr \<Rightarrow> 8 word list \<Rightarrow> mem \<Rightarrow> mem" where
  "store_bytes a x m = (\<lambda>b. if a \<le> b \<and> b < a + length x then x ! (b - a) else m b)"

definition shim_put :: "addr \<Rightarrow> addr \<Rightarrow> bool \<Rightarrow> 8 word list \<Rightarrow> 'a shmstate_scheme \<Rightarrow> bool \<times> 'a shmstate_scheme" where
  "shim_put q item ov x s =
     wrap_xQueueGenericSendFromISR q item (if ov then queueOVERWRITE else 0) (s\<lparr>bmem := store_bytes item x (bmem s)\<rparr>)"

definition shim_get :: "addr \<Rightarrow> addr \<Rightarrow> nat \<Rightarrow> 'a shmstate_scheme \<Rightarrow> 8 word list option \<times> 'a shmstate_scheme" where
  "shim_get q buf sz s =
     (let (b, s1) = wrap_xQueueReceiveFromISR q buf s in (if b then Some (msg_bytes (bmem s1) buf sz) else None, s1))"

definition shim_rep :: "addr \<Rightarrow> addr \<Rightarrow> addr \<Rightarrow> nat \<Rightarrow> nat \<Rightarrow> 8 word list list \<Rightarrow> 'a shmstate_scheme \<Rightarrow> bool" where
  "shim_rep q item buf sz n xs s \<longleftrightarrow>
     (\<exists>p. queue_at q p xs s \<and> sq_cap p = Suc n \<and> sq_item_sz p = sz \<and> clear_of item sz p \<and> clear_of buf sz p \<and> buf \<noteq> 0)"

lemma msg_bytes_store: "msg_bytes (store_bytes a x m) a (length x) = x"
  by (rule nth_equalityI) (simp_all add: store_bytes_def)

lemma store_keeps_queue:
  assumes "queue_at q p xs s" "clear_of item (length x) p"
  shows "queue_at q p xs (s\<lparr>bmem := store_bytes item x (bmem s)\<rparr>)"
proof -
  have "queue_items p (store_bytes item x (bmem s)) = queue_items p (bmem s)"
    by (rule items_outside[OF queue_atD(3)[OF assms(1)] assms(2)]) (auto simp: store_bytes_def)
  then show ?thesis using assms(1) by (auto simp: queue_at_def obj_at_def)
qed

lemma shim_put_law:
  assumes "shim_rep q item buf sz n xs s" "length x = sz"
  shows "fst (shim_put q item ov x s) = fst (fifo_put n ov x xs) \<and>
    shim_rep q item buf sz n (snd (fifo_put n ov x xs)) (snd (shim_put q item ov x s))"
proof -
  obtain p where p: "queue_at q p xs s" "sq_cap p = Suc n" "sq_item_sz p = sz" "clear_of item sz p" "clear_of buf sz p" "buf \<noteq> 0"
    using assms(1) by (auto simp: shim_rep_def)
  let ?s = "s\<lparr>bmem := store_bytes item x (bmem s)\<rparr>"
  have q: "queue_at q p xs ?s" by (rule store_keeps_queue) (use p assms(2) in simp_all)
  have b: "msg_bytes (bmem ?s) item (sq_item_sz p) = x" using msg_bytes_store[of item x "bmem s"] p(3) assms(2) by simp
  have e: "shim_put q item ov x s = queue_push q p item ov ?s"
    using queue_atD(2,6)[OF q] by (simp add: shim_put_def wrap_xQueueGenericSendFromISR_def queue_types)
  have u: "length xs \<le> n" using used_less[OF queue_atD(3)[OF p(1)]] queue_atD(5)[OF p(1)] p(2) by simp
  show ?thesis
  proof (cases "length xs < n")
    case True
    then show ?thesis using queue_push_appends[OF q, of item ov] p u unfolding e shim_rep_def fifo_put_def b
      by (auto intro!: exI[of _ "pushed p"])
  next
    case full: False
    then have l: "length xs = sq_cap p - 1" using u p(2) by simp
    show ?thesis
    proof (cases ov)
      case True
      then show ?thesis using queue_push_overwrites[OF q l, of item] p full unfolding e shim_rep_def fifo_put_def b
        by (auto intro!: exI[of _ "pushed (popped p)"])
    next
      case False
      then show ?thesis using queue_push_refused[OF q l, of item] p q full unfolding e shim_rep_def fifo_put_def
        by (auto intro!: exI[of _ p])
    qed
  qed
qed

lemma shim_get_law:
  assumes "shim_rep q item buf sz n xs s"
  shows "fst (shim_get q buf sz s) = fst (fifo_get xs) \<and>
    shim_rep q item buf sz n (snd (fifo_get xs)) (snd (shim_get q buf sz s))"
proof -
  obtain p where p: "queue_at q p xs s" "sq_cap p = Suc n" "sq_item_sz p = sz" "clear_of item sz p" "clear_of buf sz p" "buf \<noteq> 0"
    using assms(1) by (auto simp: shim_rep_def)
  have e: "wrap_xQueueReceiveFromISR q buf s = queue_pop q p buf s"
    using queue_atD(2,6)[OF p(1)] by (simp add: wrap_xQueueReceiveFromISR_def)
  show ?thesis
  proof (cases xs)
    case Nil
    then show ?thesis using queue_pop_empty[of q p s buf] p assms by (simp add: shim_get_def e fifo_get_def)
  next
    case (Cons x ys)
    then show ?thesis using queue_pop_first[of q p x ys s buf] p unfolding shim_get_def e fifo_get_def shim_rep_def
      by (auto simp: split_beta intro!: exI[of _ "popped p"])
  qed
qed

interpretation shim_fifo: bounded_fifo "shim_rep q item buf sz" "shim_put q item" "shim_get q buf sz" "\<lambda>x. length x = sz"
  by unfold_locales (rule shim_put_law shim_get_law; assumption)+

end
