(* ===== verification/Shim_Timer.thy ===== *)
theory Shim_Timer
  imports Shim
begin

text \<open>
  Event groups and software timers of the FreeRTOS adapter: \<^verbatim>\<open>shim_evtgrp.c\<close> on the event flags of the kernel and
  \<^verbatim>\<open>shim_timer.c\<close> on its alarm and cyclic handlers. A handle of another kind, which the sources do not check for,
  is left alone. A result of \<open>None\<close> is a call whose task waits.
\<close>

section \<open>Event groups\<close>

definition TWF_ANDW :: UINT where [consts_defs]: "TWF_ANDW = 0"

definition wrap_xEventGroupCreate :: "'a halloc \<Rightarrow> 'a hfree \<Rightarrow> 'a shmstate_scheme \<Rightarrow> addr \<times> 'a shmstate_scheme" where
  "wrap_xEventGroupCreate halloc hfree s =
     (let (eg, s1) = halloc 12 s
      in if eg = 0 then (0, s1)
         else
           let (r, s2) = tk_cre_flg \<lparr>cflg_exinf = 0, cflg_flgatr = TA_TFIFO OR TA_WMUL, cflg_iflgptn = 0\<rparr> s1
           in if ret_er r \<le> 0 then (0, hfree eg s2)
              else (eg, new_obj False eg (SHIM_TAG_EVTGRP (ret_er r)) s2))"

definition wrap_xEventGroupCreateStatic :: "'a halloc \<Rightarrow> 'a hfree \<Rightarrow> addr \<Rightarrow> 'a shmstate_scheme \<Rightarrow> addr \<times> 'a shmstate_scheme" where
  "wrap_xEventGroupCreateStatic halloc hfree static_eg s = wrap_xEventGroupCreate halloc hfree s"

definition flg_of :: "addr \<Rightarrow> 'a shmstate_scheme \<Rightarrow> ID option" where
  "flg_of eg s = (if eg = 0 then None else case obj_at eg s of Some (SHIM_TAG_EVTGRP f) \<Rightarrow> Some f | _ \<Rightarrow> None)"

definition wrap_vEventGroupDelete :: "'a hfree \<Rightarrow> addr \<Rightarrow> 'a shmstate_scheme \<Rightarrow> 'a shmstate_scheme" where
  "wrap_vEventGroupDelete hfree eg s =
     (case flg_of eg s of None \<Rightarrow> s | Some f \<Rightarrow> free_handle hfree eg (snd (tk_del_flg f s)))"

text \<open>\<open>junk\<close> is what the uninitialised packet holds when the flag cannot be read.\<close>

definition flg_pattern :: "UW \<Rightarrow> ID \<Rightarrow> 'a flgstate_scheme \<Rightarrow> UW" where
  "flg_pattern junk f s = (case snd (tk_ref_flg f s) of Some r \<Rightarrow> rflg_flgptn r | None \<Rightarrow> junk)"

definition wrap_xEventGroupSetBits :: "UW \<Rightarrow> addr \<Rightarrow> UW \<Rightarrow> 'a shmstate_scheme \<Rightarrow> UW \<times> 'a shmstate_scheme" where
  "wrap_xEventGroupSetBits junk eg bits s =
     (case flg_of eg s of
        None \<Rightarrow> (0, s)
      | Some f \<Rightarrow> let s1 = snd (tk_set_flg f bits s) in (flg_pattern junk f s1, s1))"

definition wrap_xEventGroupSetBitsFromISR :: "addr \<Rightarrow> UW \<Rightarrow> 'a shmstate_scheme \<Rightarrow> bool \<times> 'a shmstate_scheme" where
  "wrap_xEventGroupSetBitsFromISR eg bits s =
     (case flg_of eg s of
        None \<Rightarrow> (False, s)
      | Some f \<Rightarrow> let (er, s1) = tk_set_flg f bits s in (er = Ret E_OK, s1))"

definition wrap_xEventGroupClearBits :: "UW \<Rightarrow> addr \<Rightarrow> UW \<Rightarrow> 'a shmstate_scheme \<Rightarrow> UW \<times> 'a shmstate_scheme" where
  "wrap_xEventGroupClearBits junk eg bits s =
     (case flg_of eg s of None \<Rightarrow> (0, s) | Some f \<Rightarrow> (flg_pattern junk f s, snd (tk_clr_flg f (NOT bits) s)))"

definition wrap_xEventGroupClearBitsFromISR :: "addr \<Rightarrow> UW \<Rightarrow> 'a shmstate_scheme \<Rightarrow> bool \<times> 'a shmstate_scheme" where
  "wrap_xEventGroupClearBitsFromISR eg bits s =
     (case flg_of eg s of None \<Rightarrow> (False, s) | Some f \<Rightarrow> (True, snd (tk_clr_flg f (NOT bits) s)))"

text \<open>\<open>result\<close> is the address of the local variable the kernel writes the pattern to.\<close>

definition waited :: "ID \<Rightarrow> bool \<Rightarrow> addr \<Rightarrow> ER \<Rightarrow> 'a shmstate_scheme \<Rightarrow> UW \<times> 'a shmstate_scheme" where
  "waited f clr_on_exit result er s =
     (umem s result, if er = E_OK \<and> clr_on_exit then snd (tk_clr_flg f (NOT (umem s result)) s) else s)"

definition wrap_xEventGroupWaitBits ::
    "addr \<Rightarrow> addr \<Rightarrow> UW \<Rightarrow> bool \<Rightarrow> bool \<Rightarrow> UW \<Rightarrow> 'a shmstate_scheme \<Rightarrow> UW option \<times> 'a shmstate_scheme" where
  "wrap_xEventGroupWaitBits result eg bits clr_on_exit wait_all ticks s =
     (case flg_of eg s of
        None \<Rightarrow> (Some 0, s)
      | Some f \<Rightarrow>
          let mode = (if wait_all then TWF_ANDW else TWF_ORW);
              s1 = s\<lparr>umem := (umem s)(result := 0)\<rparr>
          in case tk_wai_flg f bits mode result (shim_tmo ticks) s1 of
               (Blocked, s2) \<Rightarrow> (None, s2)
             | (Ret er, s2) \<Rightarrow> let (v, s3) = waited f clr_on_exit result er s2 in (Some v, s3))"

definition wrap_xEventGroupGetBits :: "addr \<Rightarrow> 'a shmstate_scheme \<Rightarrow> UW" where
  "wrap_xEventGroupGetBits eg s =
     (case flg_of eg s of
        None \<Rightarrow> 0
      | Some f \<Rightarrow> if fst (tk_ref_flg f s) \<noteq> E_OK then 0 else flg_pattern 0 f s)"

definition wrap_xEventGroupGetBitsFromISR :: "addr \<Rightarrow> 'a shmstate_scheme \<Rightarrow> UW" where
  "wrap_xEventGroupGetBitsFromISR eg s = wrap_xEventGroupGetBits eg s"

definition wrap_xEventGroupSync ::
    "UW \<Rightarrow> addr \<Rightarrow> addr \<Rightarrow> UW \<Rightarrow> UW \<Rightarrow> UW \<Rightarrow> 'a shmstate_scheme \<Rightarrow> UW option \<times> 'a shmstate_scheme" where
  "wrap_xEventGroupSync junk result eg set_bits wait_bits ticks s =
     wrap_xEventGroupWaitBits result eg wait_bits True True ticks (snd (wrap_xEventGroupSetBits junk eg set_bits s))"

section \<open>Timers\<close>

definition timer_at :: "addr \<Rightarrow> 'a shmstate_scheme \<Rightarrow> shim_timer option" where
  "timer_at th s = (if th = 0 then None else case obj_at th s of Some (SHIM_TAG_TIMER t) \<Rightarrow> Some t | _ \<Rightarrow> None)"

text \<open>The callbacks of the application are the function \<open>run\<close> of their address and the handle of the timer.\<close>

definition alm_handler :: "(addr \<Rightarrow> addr \<Rightarrow> 'a shmstate_scheme \<Rightarrow> 'a shmstate_scheme) \<Rightarrow> addr \<Rightarrow> 'a shmstate_scheme \<Rightarrow> 'a shmstate_scheme" where
  "alm_handler run th s =
     (case timer_at th s of
        Some t \<Rightarrow> if st_callback t \<noteq> 0 \<and> st_active t then run (st_callback t) th s else s
      | None \<Rightarrow> s)"

definition cyc_handler :: "(addr \<Rightarrow> addr \<Rightarrow> 'a shmstate_scheme \<Rightarrow> 'a shmstate_scheme) \<Rightarrow> addr \<Rightarrow> 'a shmstate_scheme \<Rightarrow> 'a shmstate_scheme" where
  "cyc_handler run th s =
     (case timer_at th s of
        Some t \<Rightarrow> if st_callback t \<noteq> 0 \<and> st_active t then run (st_callback t) th s else s
      | None \<Rightarrow> s)"

text \<open>The address of the two handlers; what the kernel runs when it calls one of them.\<close>

definition shim_handlers :: "addr \<Rightarrow> addr \<Rightarrow> (addr \<Rightarrow> addr \<Rightarrow> 'a shmstate_scheme \<Rightarrow> 'a shmstate_scheme) \<Rightarrow>
    addr \<Rightarrow> addr \<Rightarrow> 'a shmstate_scheme \<Rightarrow> 'a shmstate_scheme" where
  "shim_handlers alm_fp cyc_fp run h th s =
     (if h = alm_fp then alm_handler run th s else if h = cyc_fp then cyc_handler run th s else s)"

type_synonym 'a shim_hdr = "addr \<Rightarrow> addr \<Rightarrow> 'a shmstate_scheme \<Rightarrow> 'a shmstate_scheme"

definition timer_period :: "UW \<Rightarrow> UW" where
  "timer_period period = (if period > 0 then period else 1)"

definition wrap_xTimerCreate :: "'a halloc \<Rightarrow> 'a hfree \<Rightarrow> addr \<Rightarrow> addr \<Rightarrow> 'a shim_hdr \<Rightarrow>
    UW \<Rightarrow> bool \<Rightarrow> addr \<Rightarrow> addr \<Rightarrow> 'a shmstate_scheme \<Rightarrow> addr \<times> 'a shmstate_scheme" where
  "wrap_xTimerCreate halloc hfree alm_fp cyc_fp hdr period auto_reload timer_id cb s =
     (let (th, s1) = halloc 60 s;
          t = \<lparr>st_alm_id = 0, st_cyc_id = 0, st_period_ms = timer_period period, st_auto_reload = auto_reload,
               st_active = False, st_timer_id = timer_id, st_callback = cb\<rparr>
      in if th = 0 then (0, s1)
         else if auto_reload then
           let s2 = new_obj False th (SHIM_TAG_TIMER t) s1;
               (r, s3) = tk_cre_cyc hdr \<lparr>ccyc_exinf = th, ccyc_cycatr = TA_HLNG, ccyc_cychdr = cyc_fp,
                           ccyc_cyctim = st_period_ms t, ccyc_cycphs = st_period_ms t\<rparr> s2
           in if ret_er r \<le> 0 then (0, free_handle hfree th s3)
              else (th, set_obj th (SHIM_TAG_TIMER (t\<lparr>st_cyc_id := ret_er r\<rparr>)) s3)
         else
           let s2 = new_obj False th (SHIM_TAG_TIMER t) s1;
               (r, s3) = tk_cre_alm \<lparr>calm_exinf = th, calm_almatr = TA_HLNG, calm_almhdr = alm_fp\<rparr> s2
           in if ret_er r \<le> 0 then (0, free_handle hfree th s3)
              else (th, set_obj th (SHIM_TAG_TIMER (t\<lparr>st_alm_id := ret_er r\<rparr>)) s3))"

definition wrap_xTimerCreateStatic :: "'a halloc \<Rightarrow> 'a hfree \<Rightarrow> addr \<Rightarrow> addr \<Rightarrow> 'a shim_hdr \<Rightarrow>
    UW \<Rightarrow> bool \<Rightarrow> addr \<Rightarrow> addr \<Rightarrow> addr \<Rightarrow> 'a shmstate_scheme \<Rightarrow> addr \<times> 'a shmstate_scheme" where
  "wrap_xTimerCreateStatic halloc hfree alm_fp cyc_fp hdr period auto_reload timer_id cb static_timer s =
     wrap_xTimerCreate halloc hfree alm_fp cyc_fp hdr period auto_reload timer_id cb s"

definition wrap_xTimerStart :: "'a shim_hdr \<Rightarrow> addr \<Rightarrow> 'a shmstate_scheme \<Rightarrow> bool \<times> 'a shmstate_scheme" where
  "wrap_xTimerStart hdr th s =
     (case timer_at th s of
        None \<Rightarrow> (False, s)
      | Some t \<Rightarrow>
          let s1 = set_obj th (SHIM_TAG_TIMER (t\<lparr>st_active := True\<rparr>)) s;
              (r, s2) = (if st_auto_reload t then tk_sta_cyc (st_cyc_id t) s1
                         else tk_sta_alm hdr (st_alm_id t) (st_period_ms t) s1)
          in (r = Ret E_OK, s2))"

definition wrap_xTimerStop :: "addr \<Rightarrow> 'a shmstate_scheme \<Rightarrow> bool \<times> 'a shmstate_scheme" where
  "wrap_xTimerStop th s =
     (case timer_at th s of
        None \<Rightarrow> (False, s)
      | Some t \<Rightarrow>
          let s1 = set_obj th (SHIM_TAG_TIMER (t\<lparr>st_active := False\<rparr>)) s;
              (r, s2) = (if st_auto_reload t then tk_stp_cyc (st_cyc_id t) s1 else tk_stp_alm (st_alm_id t) s1)
          in (r = Ret E_OK, s2))"

definition wrap_xTimerReset :: "'a shim_hdr \<Rightarrow> addr \<Rightarrow> 'a shmstate_scheme \<Rightarrow> bool \<times> 'a shmstate_scheme" where
  "wrap_xTimerReset hdr th s =
     (if timer_at th s = None then (False, s) else wrap_xTimerStart hdr th (snd (wrap_xTimerStop th s)))"

definition wrap_xTimerChangePeriod :: "'a shim_hdr \<Rightarrow> addr \<Rightarrow> UW \<Rightarrow> 'a shmstate_scheme \<Rightarrow> bool \<times> 'a shmstate_scheme" where
  "wrap_xTimerChangePeriod hdr th new_period s =
     (case timer_at th s of
        None \<Rightarrow> (False, s)
      | Some t \<Rightarrow>
          let s1 = snd (wrap_xTimerStop th s);
              s2 = (case timer_at th s1 of
                      Some t1 \<Rightarrow> set_obj th (SHIM_TAG_TIMER (t1\<lparr>st_period_ms := timer_period new_period\<rparr>)) s1
                    | None \<Rightarrow> s1)
          in if st_active t then wrap_xTimerStart hdr th s2 else (True, s2))"

definition wrap_xTimerDelete :: "'a hfree \<Rightarrow> addr \<Rightarrow> 'a shmstate_scheme \<Rightarrow> bool \<times> 'a shmstate_scheme" where
  "wrap_xTimerDelete hfree th s =
     (case timer_at th s of
        None \<Rightarrow> (False, s)
      | Some t \<Rightarrow>
          let s1 = snd (wrap_xTimerStop th s);
              s2 = (if st_auto_reload t \<and> st_cyc_id t > 0 then snd (tk_del_cyc (st_cyc_id t) s1) else s1);
              s3 = (if \<not> st_auto_reload t \<and> st_alm_id t > 0 then snd (tk_del_alm (st_alm_id t) s2) else s2)
          in (True, free_handle hfree th s3))"

definition wrap_xTimerIsTimerActive :: "addr \<Rightarrow> 'a shmstate_scheme \<Rightarrow> bool" where
  "wrap_xTimerIsTimerActive th s = (case timer_at th s of Some t \<Rightarrow> st_active t | None \<Rightarrow> False)"

definition wrap_xTimerStartFromISR :: "'a shim_hdr \<Rightarrow> addr \<Rightarrow> 'a shmstate_scheme \<Rightarrow> bool \<times> 'a shmstate_scheme" where
  "wrap_xTimerStartFromISR hdr th s = wrap_xTimerStart hdr th s"

definition wrap_xTimerStopFromISR :: "addr \<Rightarrow> 'a shmstate_scheme \<Rightarrow> bool \<times> 'a shmstate_scheme" where
  "wrap_xTimerStopFromISR th s = wrap_xTimerStop th s"

definition wrap_xTimerResetFromISR :: "'a shim_hdr \<Rightarrow> addr \<Rightarrow> 'a shmstate_scheme \<Rightarrow> bool \<times> 'a shmstate_scheme" where
  "wrap_xTimerResetFromISR hdr th s = wrap_xTimerReset hdr th s"

definition wrap_xTimerChangePeriodFromISR :: "'a shim_hdr \<Rightarrow> addr \<Rightarrow> UW \<Rightarrow> 'a shmstate_scheme \<Rightarrow> bool \<times> 'a shmstate_scheme" where
  "wrap_xTimerChangePeriodFromISR hdr th p s = wrap_xTimerChangePeriod hdr th p s"

definition wrap_pvTimerGetTimerID :: "addr \<Rightarrow> 'a shmstate_scheme \<Rightarrow> addr" where
  "wrap_pvTimerGetTimerID th s = (case timer_at th s of Some t \<Rightarrow> st_timer_id t | None \<Rightarrow> 0)"

definition wrap_vTimerSetTimerID :: "addr \<Rightarrow> addr \<Rightarrow> 'a shmstate_scheme \<Rightarrow> 'a shmstate_scheme" where
  "wrap_vTimerSetTimerID th i s =
     (case timer_at th s of Some t \<Rightarrow> set_obj th (SHIM_TAG_TIMER (t\<lparr>st_timer_id := i\<rparr>)) s | None \<Rightarrow> s)"

definition wrap_xTimerGetPeriod :: "addr \<Rightarrow> 'a shmstate_scheme \<Rightarrow> UW" where
  "wrap_xTimerGetPeriod th s = (case timer_at th s of Some t \<Rightarrow> st_period_ms t | None \<Rightarrow> 0)"

definition wrap_xTimerGetExpiryTime :: "addr \<Rightarrow> UW" where
  "wrap_xTimerGetExpiryTime th = 0"

end
