(* ===== verification/Shim_Task.thy ===== *)
theory Shim_Task
  imports Shim Dispatch
begin

text \<open>
  Tasks of the FreeRTOS adapter: the table of \<^verbatim>\<open>shim_task.c\<close> with creation, deletion, delays, notifications, stack
  watermarks and thread-local storage, the critical sections and spin locks of \<^verbatim>\<open>shim_port.c\<close>, and the redirections of
  \<^verbatim>\<open>shim_stubs.c\<close>. A task handle is the index of its entry of the table, \<open>None\<close> the null handle. Names of tasks,
  which are only printed, are not kept. A result of \<open>None\<close> of a call that may wait is a task that waits.
\<close>

section \<open>The table of tasks\<close>

definition SHIM_TASK_MAX :: nat where "SHIM_TASK_MAX = 48"

definition alloc_task_entry :: "'a shmstate_scheme \<Rightarrow> nat option" where
  "alloc_task_entry s = find (\<lambda>i. tk_tsk_id (s_tasks s i) = 0) [0..<SHIM_TASK_MAX]"

definition find_by_tk_id :: "ID \<Rightarrow> 'a shmstate_scheme \<Rightarrow> nat option" where
  "find_by_tk_id tid s = find (\<lambda>i. tk_tsk_id (s_tasks s i) = tid) [0..<SHIM_TASK_MAX]"

definition upd_task :: "nat \<Rightarrow> (shim_task \<Rightarrow> shim_task) \<Rightarrow> 'a shmstate_scheme \<Rightarrow> 'a shmstate_scheme" where
  "upd_task i f s = s\<lparr>s_tasks := (s_tasks s)(i := f (s_tasks s i))\<rparr>"

definition STACK_SENTINEL :: UW where "STACK_SENTINEL = 0xA5A5A5A5"

definition paint_stack :: "addr \<Rightarrow> nat \<Rightarrow> 'a kstate_scheme \<Rightarrow> 'a kstate_scheme" where
  "paint_stack w n s = s\<lparr>umem := (\<lambda>a. if a \<in> (\<lambda>i. w + 4 * i) ` {..<n} then STACK_SENTINEL else umem s a)\<rparr>"

type_synonym 'a kalloc = "UW \<Rightarrow> 'a shmstate_scheme \<Rightarrow> addr \<times> 'a shmstate_scheme"
type_synonym 'a kfree = "addr \<Rightarrow> 'a shmstate_scheme \<Rightarrow> 'a shmstate_scheme"

definition wrap_xTaskCreatePinnedToCore :: "'a halloc \<Rightarrow> 'a hfree \<Rightarrow> 'a kalloc \<Rightarrow> 'a kfree \<Rightarrow>
    addr \<Rightarrow> UW \<Rightarrow> int \<Rightarrow> UW \<Rightarrow> 'a shmstate_scheme \<Rightarrow> nat option \<times> 'a shmstate_scheme" where
  "wrap_xTaskCreatePinnedToCore halloc hfree knl_Imalloc knl_Ifree fn stack_words param prio s =
     (case alloc_task_entry s of
        None \<Rightarrow> (None, s)
      | Some entry \<Rightarrow>
          let (r, s1) = tk_cre_sem \<lparr>csem_exinf = 0, csem_sematr = TA_TFIFO, csem_isemcnt = 0, csem_maxsem = 1\<rparr> s;
              notify_sem = ret_er r
          in if notify_sem \<le> 0 then (None, s1)
             else
               let stack_sz = sint (stack_words + 2048);
                   (stack, s2) = halloc (unat (stack_words + 2048)) s1
               in if stack = 0 then (None, snd (tk_del_sem notify_sem s2))
                  else
                    let s3 = paint_stack stack (nat (stack_sz div 4)) s2;
                        (q, s4) = tk_cre_tsk knl_Imalloc knl_Ifree
                          \<lparr>ctsk_exinf = 0, ctsk_tskatr = TA_HLNG OR TA_USERBUF, ctsk_task = fn,
                           ctsk_itskpri = shim_prio_to_tk prio, ctsk_stksz = stack_sz, ctsk_bufptr = stack\<rparr> s3;
                        tsk_id = ret_er q
                    in if tsk_id \<le> 0 then (None, snd (tk_del_sem notify_sem (hfree stack s4)))
                       else
                         let s5 = upd_task entry (\<lambda>e. e\<lparr>tk_tsk_id := tsk_id, tk_notify_sem := notify_sem,
                                    tk_stack := stack, tk_stack_sz := stack_words + 2048\<rparr>) s4;
                             (er, s6) = tk_sta_tsk tsk_id param s5
                         in if er \<noteq> Ret E_OK then
                              (None, upd_task entry (\<lambda>e. e\<lparr>tk_tsk_id := 0\<rparr>)
                                 (snd (tk_del_sem notify_sem (snd (tk_del_tsk knl_Ifree tsk_id s6)))))
                            else (Some entry, s6))"

definition wrap_xTaskCreate :: "'a halloc \<Rightarrow> 'a hfree \<Rightarrow> 'a kalloc \<Rightarrow> 'a kfree \<Rightarrow>
    addr \<Rightarrow> UW \<Rightarrow> int \<Rightarrow> UW \<Rightarrow> 'a shmstate_scheme \<Rightarrow> nat option \<times> 'a shmstate_scheme" where
  "wrap_xTaskCreate = wrap_xTaskCreatePinnedToCore"

definition wrap_vTaskDelete :: "'a hfree \<Rightarrow> 'a kfree \<Rightarrow> nat option \<Rightarrow> 'a shmstate_scheme \<Rightarrow> 'a shmstate_scheme option" where
  "wrap_vTaskDelete hfree knl_Ifree h s =
     (case h of
        None \<Rightarrow> tk_ext_tsk s
      | Some i \<Rightarrow>
          let entry = s_tasks s i
          in if tk_tsk_id entry = 0 then Some s
             else
               map_option (\<lambda>(_, s1).
                 let s2 = snd (tk_del_tsk knl_Ifree (tk_tsk_id entry) s1);
                     s3 = snd (tk_del_sem (tk_notify_sem entry) s2);
                     s4 = (if tk_stack entry \<noteq> 0 then upd_task i (\<lambda>e. e\<lparr>tk_stack := 0\<rparr>) (hfree (tk_stack entry) s3) else s3)
                 in upd_task i (\<lambda>e. e\<lparr>tk_tsk_id := 0, tk_notify_sem := 0\<rparr>) s4)
                 (tk_ter_tsk (tk_tsk_id entry) s))"

section \<open>Time\<close>

definition wrap_vTaskDelay :: "UW \<Rightarrow> 'a shmstate_scheme \<Rightarrow> sysret \<times> 'a shmstate_scheme" where
  "wrap_vTaskDelay ticks s = (if ticks = 0 then (Ret E_OK, s) else tk_dly_tsk ticks s)"

definition wrap_xTaskGetTickCount :: "'a shmstate_scheme \<Rightarrow> UW" where
  "wrap_xTaskGetTickCount s = systim_lo (snd (tk_get_tim s))"

definition wrap_xTaskGetTickCountFromISR :: "'a shmstate_scheme \<Rightarrow> UW" where
  "wrap_xTaskGetTickCountFromISR s = wrap_xTaskGetTickCount s"

text \<open>The new value of \<open>prev\<close>, and the delay.\<close>

definition wrap_vTaskDelayUntil :: "UW \<Rightarrow> UW \<Rightarrow> 'a shmstate_scheme \<Rightarrow> UW \<times> sysret \<times> 'a shmstate_scheme" where
  "wrap_vTaskDelayUntil prev incr s =
     (let now = wrap_xTaskGetTickCount s; next = prev + incr
      in (next, if sint (next - now) > 0 then tk_dly_tsk (next - now) s else (Ret E_OK, s)))"

definition xTaskDelayUntil :: "UW \<Rightarrow> UW \<Rightarrow> 'a shmstate_scheme \<Rightarrow> bool \<times> UW \<times> sysret \<times> 'a shmstate_scheme" where
  "xTaskDelayUntil prev incr s = (True, wrap_vTaskDelayUntil prev incr s)"

section \<open>Queries\<close>

definition wrap_xTaskGetCurrentTaskHandle :: "'a shmstate_scheme \<Rightarrow> nat option" where
  "wrap_xTaskGetCurrentTaskHandle s = find_by_tk_id (tk_get_tid s) s"

definition xTaskGetCurrentTaskHandleForCore :: "'a shmstate_scheme \<Rightarrow> nat option" where
  "xTaskGetCurrentTaskHandleForCore s = wrap_xTaskGetCurrentTaskHandle s"

definition wrap_uxTaskPriorityGet :: "nat option \<Rightarrow> nat" where
  "wrap_uxTaskPriorityGet h = 5"

definition wrap_vTaskPrioritySet :: "nat option \<Rightarrow> UW \<Rightarrow> 'a shmstate_scheme \<Rightarrow> 'a shmstate_scheme option" where
  "wrap_vTaskPrioritySet h prio s =
     (case h of
        None \<Rightarrow> Some s
      | Some i \<Rightarrow>
          let tid = tk_tsk_id (s_tasks s i)
          in if tid = 0 \<or> fst (tk_ref_tsk tid s) \<noteq> E_OK then Some s
             else map_option snd (tk_chg_pri tid (shim_prio_to_tk prio) s))"

definition stack_free_bytes :: "shim_task \<Rightarrow> 'a kstate_scheme \<Rightarrow> UW" where
  "stack_free_bytes e s =
     (if tk_stack e = 0 \<or> tk_stack_sz e = 0 then 0
      else of_nat (length (takeWhile (\<lambda>i. umem s (tk_stack e + 4 * i) = STACK_SENTINEL) [0..<unat (tk_stack_sz e) div 4])) * 4)"

definition handle_or_current :: "nat option \<Rightarrow> 'a shmstate_scheme \<Rightarrow> nat option" where
  "handle_or_current h s = (case h of Some i \<Rightarrow> Some i | None \<Rightarrow> find_by_tk_id (tk_get_tid s) s)"

definition wrap_uxTaskGetStackHighWaterMark :: "nat option \<Rightarrow> 'a shmstate_scheme \<Rightarrow> UW" where
  "wrap_uxTaskGetStackHighWaterMark h s =
     (case handle_or_current h s of None \<Rightarrow> 0 | Some i \<Rightarrow> stack_free_bytes (s_tasks s i) s)"

text \<open>The lines that are printed: the entry, the bytes used and the bytes free.\<close>

definition shim_dump_stack_watermarks :: "'a shmstate_scheme \<Rightarrow> (nat \<times> UW \<times> UW) list" where
  "shim_dump_stack_watermarks s =
     map (\<lambda>i. let freeb = stack_free_bytes (s_tasks s i) s in (i, tk_stack_sz (s_tasks s i) - freeb, freeb))
       (filter (\<lambda>i. tk_tsk_id (s_tasks s i) \<noteq> 0 \<and> tk_stack (s_tasks s i) \<noteq> 0) [0..<SHIM_TASK_MAX])"

section \<open>Notifications\<close>

definition eSetBits :: UW where "eSetBits = 1"
definition eSetValueWithOverwrite :: UW where "eSetValueWithOverwrite = 3"

definition notified :: "nat option \<Rightarrow> 'a shmstate_scheme \<Rightarrow> nat option" where
  "notified h s = (case h of Some i \<Rightarrow> if tk_notify_sem (s_tasks s i) = 0 then None else Some i | None \<Rightarrow> None)"

definition notify_store :: "UW \<Rightarrow> UW \<Rightarrow> shim_task \<Rightarrow> shim_task" where
  "notify_store act val e =
     (if act = eSetBits then e\<lparr>tk_notify_val := tk_notify_val e OR val\<rparr>
      else if act = eSetValueWithOverwrite then e\<lparr>tk_notify_val := val\<rparr> else e)"

definition notify_signal :: "nat option \<Rightarrow> UW \<Rightarrow> UW \<Rightarrow> 'a shmstate_scheme \<Rightarrow> bool \<times> 'a shmstate_scheme" where
  "notify_signal h val act s =
     (case notified h s of
        None \<Rightarrow> (False, s)
      | Some i \<Rightarrow>
          let (r, s1) = tk_sig_sem (tk_notify_sem (s_tasks s i)) 1 (upd_task i (notify_store act val) s)
          in (r = Ret E_OK, s1))"

definition wrap_xTaskNotifyGive :: "nat option \<Rightarrow> 'a shmstate_scheme \<Rightarrow> bool \<times> 'a shmstate_scheme" where
  "wrap_xTaskNotifyGive h s =
     (case notified h s of
        None \<Rightarrow> (False, s)
      | Some i \<Rightarrow> let (r, s1) = tk_sig_sem (tk_notify_sem (s_tasks s i)) 1 s in (r = Ret E_OK, s1))"

definition wrap_xTaskNotifyGiveFromISR :: "nat option \<Rightarrow> 'a shmstate_scheme \<Rightarrow> 'a shmstate_scheme" where
  "wrap_xTaskNotifyGiveFromISR h s =
     (case notified h s of None \<Rightarrow> s | Some i \<Rightarrow> snd (tk_sig_sem (tk_notify_sem (s_tasks s i)) 1 s))"

text \<open>The rest of the take, after the wait.\<close>

definition notify_taken :: "nat \<Rightarrow> bool \<Rightarrow> ER \<Rightarrow> 'a shmstate_scheme \<Rightarrow> UW \<times> 'a shmstate_scheme" where
  "notify_taken i clear_on_exit er s =
     (if er \<noteq> E_OK then (0, s)
      else
        let v = tk_notify_val (s_tasks s i)
        in (if v \<noteq> 0 then v else 1, if clear_on_exit then upd_task i (\<lambda>e. e\<lparr>tk_notify_val := 0\<rparr>) s else s))"

definition wrap_ulTaskNotifyTake :: "bool \<Rightarrow> UW \<Rightarrow> 'a shmstate_scheme \<Rightarrow> UW option \<times> 'a shmstate_scheme" where
  "wrap_ulTaskNotifyTake clear_on_exit ticks s =
     (case notified (find_by_tk_id (tk_get_tid s) s) s of
        None \<Rightarrow> (Some 0, s)
      | Some i \<Rightarrow>
          (case tk_wai_sem (tk_notify_sem (s_tasks s i)) 1 (shim_tmo ticks) s of
             (Blocked, s1) \<Rightarrow> (None, s1)
           | (Ret er, s1) \<Rightarrow> let (v, s2) = notify_taken i clear_on_exit er s1 in (Some v, s2)))"

definition wrap_xTaskNotify :: "nat option \<Rightarrow> UW \<Rightarrow> UW \<Rightarrow> 'a shmstate_scheme \<Rightarrow> bool \<times> 'a shmstate_scheme" where
  "wrap_xTaskNotify h val act s = notify_signal h val act s"

definition wrap_xTaskNotifyFromISR :: "nat option \<Rightarrow> UW \<Rightarrow> UW \<Rightarrow> 'a shmstate_scheme \<Rightarrow> bool \<times> 'a shmstate_scheme" where
  "wrap_xTaskNotifyFromISR h val act s =
     (case notified h s of
        None \<Rightarrow> (False, s)
      | Some i \<Rightarrow> (True, snd (tk_sig_sem (tk_notify_sem (s_tasks s i)) 1 (upd_task i (notify_store act val) s))))"

text \<open>The value written to the caller's variable, \<open>None\<close> for failure, after the wait.\<close>

definition notify_waited :: "nat \<Rightarrow> UW \<Rightarrow> ER \<Rightarrow> 'a shmstate_scheme \<Rightarrow> UW option \<times> 'a shmstate_scheme" where
  "notify_waited i clr_exit er s =
     (if er \<noteq> E_OK then (None, s)
      else (Some (tk_notify_val (s_tasks s i)),
            upd_task i (\<lambda>e. e\<lparr>tk_notify_val := tk_notify_val e AND NOT clr_exit\<rparr>) s))"

definition wrap_xTaskNotifyWait :: "UW \<Rightarrow> UW \<Rightarrow> UW \<Rightarrow> 'a shmstate_scheme \<Rightarrow> UW option option \<times> 'a shmstate_scheme" where
  "wrap_xTaskNotifyWait clr_entry clr_exit ticks s =
     (case notified (find_by_tk_id (tk_get_tid s) s) s of
        None \<Rightarrow> (Some None, s)
      | Some i \<Rightarrow>
          let s1 = upd_task i (\<lambda>e. e\<lparr>tk_notify_val := tk_notify_val e AND NOT clr_entry\<rparr>) s
          in case tk_wai_sem (tk_notify_sem (s_tasks s i)) 1 (shim_tmo ticks) s1 of
               (Blocked, s2) \<Rightarrow> (None, s2)
             | (Ret er, s2) \<Rightarrow> let (v, s3) = notify_waited i clr_exit er s2 in (Some v, s3))"

definition wrap_ulTaskGenericNotifyTake :: "nat \<Rightarrow> bool \<Rightarrow> UW \<Rightarrow> 'a shmstate_scheme \<Rightarrow> UW option \<times> 'a shmstate_scheme" where
  "wrap_ulTaskGenericNotifyTake idx clr ticks s = wrap_ulTaskNotifyTake clr ticks s"

definition wrap_xTaskGenericNotify :: "nat option \<Rightarrow> nat \<Rightarrow> UW \<Rightarrow> UW \<Rightarrow> 'a shmstate_scheme \<Rightarrow> bool \<times> 'a shmstate_scheme" where
  "wrap_xTaskGenericNotify h idx val act s = notify_signal h val act s"

definition wrap_xTaskGenericNotifyFromISR :: "nat option \<Rightarrow> nat \<Rightarrow> UW \<Rightarrow> UW \<Rightarrow> 'a shmstate_scheme \<Rightarrow> bool \<times> 'a shmstate_scheme" where
  "wrap_xTaskGenericNotifyFromISR h idx val act s = wrap_xTaskNotifyFromISR h val act s"

definition wrap_vTaskGenericNotifyGiveFromISR :: "nat option \<Rightarrow> nat \<Rightarrow> 'a shmstate_scheme \<Rightarrow> 'a shmstate_scheme" where
  "wrap_vTaskGenericNotifyGiveFromISR h idx s = wrap_xTaskNotifyGiveFromISR h s"

definition wrap_xTaskGenericNotifyWait :: "nat \<Rightarrow> UW \<Rightarrow> UW \<Rightarrow> UW \<Rightarrow> 'a shmstate_scheme \<Rightarrow> UW option option \<times> 'a shmstate_scheme" where
  "wrap_xTaskGenericNotifyWait idx clr_entry clr_exit ticks s = wrap_xTaskNotifyWait clr_entry clr_exit ticks s"

definition wrap_xTaskGenericNotifyStateClear :: "nat option \<Rightarrow> nat \<Rightarrow> bool" where
  "wrap_xTaskGenericNotifyStateClear h idx = True"

definition wrap_ulTaskGenericNotifyValueClear :: "nat option \<Rightarrow> nat \<Rightarrow> UW \<Rightarrow> UW" where
  "wrap_ulTaskGenericNotifyValueClear h idx bits = 0"

section \<open>Thread-local storage\<close>

definition SHIM_TLS_MAX :: nat where "SHIM_TLS_MAX = 1"

definition wrap_pvTaskGetThreadLocalStoragePointer :: "nat option \<Rightarrow> UW \<Rightarrow> 'a shmstate_scheme \<Rightarrow> addr" where
  "wrap_pvTaskGetThreadLocalStoragePointer h idx s =
     (if unat idx \<ge> SHIM_TLS_MAX then 0
      else case handle_or_current h s of Some i \<Rightarrow> tk_tls (s_tasks s i) | None \<Rightarrow> s_tls_fallback s)"

definition wrap_vTaskSetThreadLocalStoragePointer :: "nat option \<Rightarrow> UW \<Rightarrow> addr \<Rightarrow> 'a shmstate_scheme \<Rightarrow> 'a shmstate_scheme" where
  "wrap_vTaskSetThreadLocalStoragePointer h idx val s =
     (if unat idx \<ge> SHIM_TLS_MAX then s
      else case handle_or_current h s of
             Some i \<Rightarrow> upd_task i (\<lambda>e. e\<lparr>tk_tls := val\<rparr>) s
           | None \<Rightarrow> s\<lparr>s_tls_fallback := val\<rparr>)"

definition wrap_vTaskSetThreadLocalStoragePointerAndDelCallback ::
    "nat option \<Rightarrow> UW \<Rightarrow> addr \<Rightarrow> addr \<Rightarrow> 'a shmstate_scheme \<Rightarrow> 'a shmstate_scheme" where
  "wrap_vTaskSetThreadLocalStoragePointerAndDelCallback h idx val cb s =
     wrap_vTaskSetThreadLocalStoragePointer h idx val s"

section \<open>Critical sections and spin locks\<close>

definition disint :: "'a kstate_scheme \<Rightarrow> bool \<times> 'a kstate_scheme" where
  "disint s = (cpu_mie s, s\<lparr>cpu_mie := False\<rparr>)"

definition enaint :: "bool \<Rightarrow> 'a kstate_scheme \<Rightarrow> 'a kstate_scheme" where
  "enaint prev s = (if prev then s\<lparr>cpu_mie := True\<rparr> else s)"

text \<open>\<open>cache_on\<close> is the answer of \<^verbatim>\<open>spi_flash_cache_enabled\<close> of ESP-IDF.\<close>

definition shim_yield_if_needed :: "bool \<Rightarrow> bool \<Rightarrow> 'a kstate_scheme \<Rightarrow> 'a kstate_scheme" where
  "shim_yield_if_needed cache_on saved s =
     (if saved \<and> dispatch_disabled s = 0 \<and> taskindp s = 0 \<and> ctxtsk s \<noteq> None \<and> schedtsk s \<noteq> None \<and>
         ctxtsk s \<noteq> schedtsk s \<and> cache_on
      then knl_dispatch s else s)"

definition wrap_vPortEnterCritical :: "'a shmstate_scheme \<Rightarrow> 'a shmstate_scheme" where
  "wrap_vPortEnterCritical s =
     (let (sv, s1) = disint s;
          s2 = (if s_cs_depth s1 = 0 then s1\<lparr>s_cs_saved := sv\<rparr> else s1)
      in s2\<lparr>s_cs_depth := s_cs_depth s2 + 1\<rparr>)"

definition wrap_vPortExitCritical :: "bool \<Rightarrow> 'a shmstate_scheme \<Rightarrow> 'a shmstate_scheme" where
  "wrap_vPortExitCritical cache_on s =
     (let s1 = s\<lparr>s_cs_depth := s_cs_depth s - 1\<rparr>
      in if s_cs_depth s1 \<le> 0
         then shim_yield_if_needed cache_on (s_cs_saved s1) (enaint (s_cs_saved s1) (s1\<lparr>s_cs_depth := 0\<rparr>))
         else s1)"

definition wrap_vPortEnterCriticalFromISR :: "'a shmstate_scheme \<Rightarrow> 'a shmstate_scheme" where
  "wrap_vPortEnterCriticalFromISR = wrap_vPortEnterCritical"

definition wrap_vPortExitCriticalFromISR :: "bool \<Rightarrow> 'a shmstate_scheme \<Rightarrow> 'a shmstate_scheme" where
  "wrap_vPortExitCriticalFromISR = wrap_vPortExitCritical"

definition wrap_xPortInIsrContext :: "'a kstate_scheme \<Rightarrow> bool" where
  "wrap_xPortInIsrContext s = shim_in_isr s"

definition wrap_spinlock_initialize :: "addr \<Rightarrow> 'a shmstate_scheme \<Rightarrow> 'a shmstate_scheme" where
  "wrap_spinlock_initialize mux s = s\<lparr>mux_count := (mux_count s)(mux := 0)\<rparr>"

definition wrap_spinlock_acquire :: "addr \<Rightarrow> 'a shmstate_scheme \<Rightarrow> 'a shmstate_scheme" where
  "wrap_spinlock_acquire mux s =
     (let (sv, s1) = disint s;
          s2 = (if s_sl_depth s1 = 0 then s1\<lparr>s_sl_saved := sv\<rparr> else s1)
      in s2\<lparr>s_sl_depth := s_sl_depth s2 + 1, mux_count := (mux_count s2)(mux := mux_count s2 mux + 1)\<rparr>)"

definition wrap_spinlock_release :: "bool \<Rightarrow> addr \<Rightarrow> 'a shmstate_scheme \<Rightarrow> 'a shmstate_scheme" where
  "wrap_spinlock_release cache_on mux s =
     (if mux_count s mux > 0 then
        let s1 = s\<lparr>mux_count := (mux_count s)(mux := mux_count s mux - 1), s_sl_depth := s_sl_depth s - 1\<rparr>
        in if s_sl_depth s1 \<le> 0
           then shim_yield_if_needed cache_on (s_sl_saved s1) (enaint (s_sl_saved s1) (s1\<lparr>s_sl_depth := 0\<rparr>))
           else s1
      else s)"

text \<open>The kernel's object tables are initialised once; \<open>real_init\<close> is \<^verbatim>\<open>knl_init_object\<close> of the kernel.\<close>

definition wrap_knl_init_object :: "('a shmstate_scheme \<Rightarrow> ER \<times> 'a shmstate_scheme) \<Rightarrow> 'a shmstate_scheme \<Rightarrow> ER \<times> 'a shmstate_scheme" where
  "wrap_knl_init_object real_init s =
     (if s_obj_tables_ready s then (E_OK, s) else real_init (s\<lparr>s_obj_tables_ready := True\<rparr>))"

definition shim_early_knl_init :: "('a shmstate_scheme \<Rightarrow> ER \<times> 'a shmstate_scheme) \<Rightarrow> 'a shmstate_scheme \<Rightarrow> 'a shmstate_scheme" where
  "shim_early_knl_init real_init s = snd (wrap_knl_init_object real_init s)"

section \<open>Redirections\<close>

definition vTaskSuspendAll :: "'a shmstate_scheme \<Rightarrow> 'a shmstate_scheme" where
  "vTaskSuspendAll s = snd (tk_dis_dsp s)"

definition xTaskResumeAll :: "'a shmstate_scheme \<Rightarrow> bool \<times> 'a shmstate_scheme" where
  "xTaskResumeAll s = (False, snd (tk_ena_dsp s))"

definition xQueueCreateCountingSemaphore :: "'a halloc \<Rightarrow> 'a hfree \<Rightarrow> nat \<Rightarrow> nat \<Rightarrow> 'a shmstate_scheme \<Rightarrow> addr \<times> 'a shmstate_scheme" where
  "xQueueCreateCountingSemaphore halloc hfree maxCount initCount s = wrap_xQueueGenericCreate halloc hfree maxCount 0 2 s"

end
