(* ===== verification/Shim_Properties.thy ===== *)
theory Shim_Properties
  imports Shim_Ring Shim_Timer Shim_Task
begin

text \<open>
  What the FreeRTOS adapter guarantees: the blocking calls return or wait after as many retries as the kernel's
  semaphore counts stale notifications; a send wakes the first task that waits for an item; critical
  sections and spin locks that are properly nested restore the interrupt state; the count of a semaphore stays in its
  bounds.
\<close>

section \<open>Retry loops\<close>

lemma wai_sem_cases:
  assumes "kernel_ok s" "run_ok s"
  obtains (got) s' where "tk_wai_sem i 1 tmo s = (Ret E_OK, s')" "run_ok s'" "ctxtsk s' = ctxtsk s"
      "0 \<le> semcnt (semcb s' (INDEX_OBJ i))" "semcnt (semcb s' (INDEX_OBJ i)) < semcnt (semcb s (INDEX_OBJ i))"
    | (fails) e s' where "tk_wai_sem i 1 tmo s = (Ret e, s')" "e \<noteq> E_OK"
    | (waits) c s' where "tk_wai_sem i 1 tmo s = (Blocked, s')" "ctxtsk s = Some c" "c \<in> set (que s' (QSem (INDEX_OBJ i)))"
proof (cases "wai_sem_ok i 1 tmo s")
  case False
  from tk_wai_sem_error(1)[OF this] obtain e where "e < 0" "fst (tk_wai_sem i 1 tmo s) = Ret e" by blast
  then show thesis using fails[of e "snd (tk_wai_sem i 1 tmo s)"] by (simp add: E_OK_def prod_eq_iff)
next
  case ok: True
  have inv: "core_inv s" "sem_inv s" using assms(1) by (simp_all add: kernel_ok_def)
  have "\<not> CHECK_DISPATCH s < E_OK" using ok by (simp add: wai_sem_ok_def CHECK_DISPATCH_def)
  then obtain c where c: "ctxtsk s = Some c" "state (tcb s c) = TS_READY" using CHECK_DISPATCH_OK assms(2) by blast
  let ?i = "INDEX_OBJ i"
  show thesis
  proof (cases "wai_sem_gets ?i 1 c s")
    case g: True
    let ?s = "END_CRITICAL_SECTION (upd_semcb ?i (\<lambda>cb. cb\<lparr>semcnt := semcnt cb - 1\<rparr>) s)"
    have "run_ok ?s" using c by (simp add: run_ok_def)
    with g c show thesis using got[of ?s] tk_wai_sem_gets[OF ok c(1) g] by (simp add: wai_sem_gets_def upd_semcb_def)
  next
    case w: False
    have h: "?i < NUM_SEMID" "semid (semcb s ?i) \<noteq> 0" using ok INDEX_OBJ_less by (auto simp: wai_sem_ok_def)
    have "wait_home (sem_wspec (semcb s ?i)) (semid (semcb s ?i)) = Some (QSem ?i)" using sem_invD(4)[OF inv(2) h] by simp
    note B = block_on(4)[OF inv(1) c this, where objatr = "sematr (semcb s ?i)" and wi = "WINFO_SEM 1" and tmout = tmo and w' = "WSem ?i"]
    note e = tk_wai_sem_waits[OF ok c(1) w]
    show thesis
    proof (cases "tmo = TMO_POL")
      case True
      then show thesis using fails e by (simp add: wait_ret_def consts_defs)
    next
      case False
      then show thesis using waits[OF _ c(1)] e B by (simp add: wait_ret_def wait_enqueue_def)
    qed
  qed
qed

text \<open>
  The loops of the adapter have one shape: while the condition fails, wait for a notification and try again. A wait that
  returns at once takes one of the notifications that are counted, so the loop ends.
\<close>

locale retry_loop =
  fixes sem :: ID and tmo :: TMO and inv :: "'a shmstate_scheme \<Rightarrow> bool" and ready :: bool
    and now :: "'a shmstate_scheme \<Rightarrow> shim_ret \<times> 'a shmstate_scheme" and loop :: "'a shmstate_scheme \<Rightarrow> 'a shim_call"
  assumes loop_ready: "inv s \<Longrightarrow> ready \<Longrightarrow> loop s = Some (now s)"
    and loop_waits: "inv s \<Longrightarrow> run_ok s \<Longrightarrow> \<not> ready \<Longrightarrow> loop s = (case tk_wai_sem sem 1 tmo s of
          (Blocked, s1) \<Rightarrow> Some (Waits, s1) | (Ret er, s1) \<Rightarrow> if er \<noteq> E_OK then Some (Val False, s1) else loop s1)"
    and inv_kernel: "inv s \<Longrightarrow> kernel_ok s"
    and inv_wait: "inv s \<Longrightarrow> run_ok s \<Longrightarrow> inv (snd (tk_wai_sem sem 1 tmo s))"
begin

lemma returns:
  "inv s \<Longrightarrow> run_ok s \<Longrightarrow> \<not> ready \<Longrightarrow>
     \<exists>r s'. loop s = Some (r, s') \<and> r \<noteq> Val True \<and> inv s' \<and>
       (r = Waits \<longrightarrow> (\<exists>c. ctxtsk s = Some c \<and> c \<in> set (que s' (QSem (INDEX_OBJ sem)))))"
proof (induction "nat (semcnt (semcb s (INDEX_OBJ sem)))" arbitrary: s rule: less_induct)
  case less
  note I = inv_wait[OF less.prems(1,2)] and L = loop_waits[OF less.prems]
  from inv_kernel[OF less.prems(1)] less.prems(2) show ?case
  proof (cases rule: wai_sem_cases[where i = sem and tmo = tmo])
    case (got s')
    have "inv s'" using I got(1) by simp
    from less.hyps[OF _ this got(2) less.prems(3)] got show ?thesis using L by simp
  next
    case (fails e s')
    then show ?thesis using I L by auto
  next
    case (waits c s')
    then show ?thesis using I L by auto
  qed
qed

end

lemma queue_at_wait:
  assumes "queue_at q p xs s" "run_ok s" shows "queue_at q p xs (snd (tk_wai_sem i 1 tmo s))"
  using assms wai_sem_keeps[OF queue_atD(1)[OF assms(1)] assms(2), where i = i and n = 1 and tmo = tmo] by (auto simp: queue_at_def)

lemma queue_pop_succeeds: "queue_at q p xs s \<Longrightarrow> xs \<noteq> [] \<Longrightarrow> fst (queue_pop q p buf s)"
  using queue_atD(5)[of q p xs s] by (auto simp: queue_pop_def used_def)

interpretation receive_retry: retry_loop "sq_nonempty p" tmo "queue_at q p xs" "xs \<noteq> []"
    "\<lambda>s. (Val True, snd (queue_pop q p buf s))" "receive_loop q buf tmo"
proof
  show "receive_loop q buf tmo s = Some (Val True, snd (queue_pop q p buf s))" if "queue_at q p xs s" "xs \<noteq> []" for s
    using queue_pop_succeeds[OF that, of buf] queue_atD(2)[OF that(1)] by (subst receive_loop.simps) (simp add: split_beta)
  show "receive_loop q buf tmo s = (case tk_wai_sem (sq_nonempty p) 1 tmo s of
      (Blocked, s1) \<Rightarrow> Some (Waits, s1) | (Ret er, s1) \<Rightarrow> if er \<noteq> E_OK then Some (Val False, s1) else receive_loop q buf tmo s1)"
    if "queue_at q p xs s" "run_ok s" "\<not> xs \<noteq> []" for s
    using queue_pop_empty[of q p s buf] that queue_atD(2)[OF that(1)]
    by (subst receive_loop.simps) (simp split: prod.split sysret.split)
qed (use queue_atD(1) queue_at_wait in blast)+

interpretation send_retry: retry_loop "sq_nonfull p" tmo "queue_at q p xs" "length xs \<noteq> sq_cap p - 1"
    "\<lambda>s. (Val True, snd (queue_push q p item False s))" "send_loop q item tmo"
proof
  show "send_loop q item tmo s = Some (Val True, snd (queue_push q p item False s))"
    if "queue_at q p xs s" "length xs \<noteq> sq_cap p - 1" for s
    using queue_push_appends(1)[OF that, of item False] queue_atD(2)[OF that(1)]
    by (subst send_loop.simps) (simp add: split_beta)
  show "send_loop q item tmo s = (case tk_wai_sem (sq_nonfull p) 1 tmo s of
      (Blocked, s1) \<Rightarrow> Some (Waits, s1) | (Ret er, s1) \<Rightarrow> if er \<noteq> E_OK then Some (Val False, s1) else send_loop q item tmo s1)"
    if "queue_at q p xs s" "run_ok s" "\<not> length xs \<noteq> sq_cap p - 1" for s
    using queue_push_refused[of q p xs s item] that queue_atD(2)[OF that(1)]
    by (subst send_loop.simps) (simp split: prod.split sysret.split)
qed (use queue_atD(1) queue_at_wait in blast)+

lemma peek_result:
  assumes "queue_at q p xs s"
  shows "xs = [] \<Longrightarrow> peek p buf s = (False, s)" "xs \<noteq> [] \<Longrightarrow> peek p buf s = (True, snd (peek p buf s))"
  using queue_atD(3,5)[OF assms] by (auto simp: peek_def used_def queue_ok_def split: if_splits)

interpretation peek_retry: retry_loop "sq_nonempty p" tmo "queue_at q p xs" "xs \<noteq> []"
    "\<lambda>s. (Val True, snd (tk_sig_sem (sq_nonempty p) 1 (snd (peek p buf s))))" "peek_loop q buf tmo"
proof
  show "peek_loop q buf tmo s = Some (Val True, snd (tk_sig_sem (sq_nonempty p) 1 (snd (peek p buf s))))"
    if a: "queue_at q p xs s" "xs \<noteq> []" for s
  proof -
    obtain s1 where "peek p buf s = (True, s1)" using peek_result(2)[OF a] by (metis prod.collapse)
    then show ?thesis using queue_atD(2)[OF a(1)] by (subst peek_loop.simps) simp
  qed
  show "peek_loop q buf tmo s = (case tk_wai_sem (sq_nonempty p) 1 tmo s of
      (Blocked, s1) \<Rightarrow> Some (Waits, s1) | (Ret er, s1) \<Rightarrow> if er \<noteq> E_OK then Some (Val False, s1) else peek_loop q buf tmo s1)"
    if "queue_at q p xs s" "run_ok s" "\<not> xs \<noteq> []" for s
    using peek_result(1)[OF that(1), of buf] that(3) queue_atD(2)[OF that(1)]
    by (subst peek_loop.simps) (simp split: prod.split sysret.split)
qed (use queue_atD(1) queue_at_wait in blast)+

section \<open>Semaphores\<close>

text \<open>The semaphore at handle \<open>q\<close>, of the kind \<open>tag\<close>, has the control block \<open>p\<close>.\<close>

definition sem_at :: "addr \<Rightarrow> (shim_sem \<Rightarrow> shim_obj) \<Rightarrow> shim_sem \<Rightarrow> 'a shmstate_scheme \<Rightarrow> bool" where
  "sem_at q tag p s \<longleftrightarrow> q \<noteq> 0 \<and> q \<notin> shim_tags \<and> kernel_ok s \<and> tag \<in> {SHIM_TAG_SEM_BIN, SHIM_TAG_SEM_CNT} \<and>
     obj_at q s = Some (tag p)"

lemma sem_atD:
  assumes "sem_at q tag p s"
  shows "kernel_ok s" "sem_of (obj_at q s) = Some (tag, p)" "obj_at q s = Some (tag p)" "q \<noteq> 0" "q \<notin> shim_tags"
    "tag = SHIM_TAG_SEM_BIN \<or> tag = SHIM_TAG_SEM_CNT"
  using assms by (auto simp: sem_at_def sem_of_def)

lemma sem_at_set: "sem_at q tag p s \<Longrightarrow> sem_at q tag p' (set_obj q (tag p') s)"
  by (auto simp: sem_at_def)

lemma sem_at_sig: "sem_at q tag p s \<Longrightarrow> sem_at q tag p (snd (tk_sig_sem i n s))"
  using sig_sem_keeps[where s = s and i = i and n = n] by (auto simp: sem_at_def)

lemma sem_at_wait: "sem_at q tag p s \<Longrightarrow> run_ok s \<Longrightarrow> sem_at q tag p (snd (tk_wai_sem i n tmo s))"
  using wai_sem_keeps[where s = s and i = i and n = n and tmo = tmo] by (auto simp: sem_at_def)

lemma sem_try_result:
  assumes "sem_at q tag p s"
  shows "sem_try q s = (if ss_cnt p > 0 then (True, set_obj q (tag (p\<lparr>ss_cnt := ss_cnt p - 1\<rparr>)) s) else (False, s))"
  using sem_atD(2)[OF assms] by (simp add: sem_try_def)

interpretation take_retry: retry_loop "ss_sem_id p" tmo "\<lambda>s. sem_at q tag p s \<and> ss_cnt p \<le> 0" False
    "\<lambda>s. (Waits, s)" "take_loop q tmo"
proof
  show "take_loop q tmo s = (case tk_wai_sem (ss_sem_id p) 1 tmo s of
      (Blocked, s1) \<Rightarrow> Some (Waits, s1) | (Ret er, s1) \<Rightarrow> if er \<noteq> E_OK then Some (Val False, s1) else take_loop q tmo s1)"
    if a: "sem_at q tag p s \<and> ss_cnt p \<le> 0" "run_ok s" for s
  proof -
    have "sem_try q (snd (tk_wai_sem (ss_sem_id p) 1 tmo s)) = (False, snd (tk_wai_sem (ss_sem_id p) 1 tmo s))"
      using sem_try_result[OF sem_at_wait[OF conjunct1[OF a(1)] a(2)], where i1 = "ss_sem_id p" and n1 = 1 and tmo1 = tmo] a by simp
    then show ?thesis using sem_atD(2)[of q tag p s] a
      by (cases "tk_wai_sem (ss_sem_id p) 1 tmo s"; cases "fst (tk_wai_sem (ss_sem_id p) 1 tmo s)")
        (subst take_loop.simps, simp)+
  qed
qed (use sem_atD(1) sem_at_wait in auto)

lemma sem_give_result:
  assumes "sem_at q tag p s"
  shows "fst (sem_give q tag p s) = (ss_cnt p < ss_max_cnt p)"
    "sem_at q tag (if ss_cnt p < ss_max_cnt p then p\<lparr>ss_cnt := ss_cnt p + 1\<rparr> else p) (snd (sem_give q tag p s))"
  using assms by (auto simp: sem_give_def intro: sem_at_sig sem_at_set)

section \<open>Waking\<close>

text \<open>
  A signal on a semaphore of the kernel whose first waiting task asks for no more than there is afterwards takes that
  task out of its wait. The waits of the adapter ask for one, which is always there after a signal.
\<close>

lemma sig_sem_wakes:
  assumes "kernel_ok s" "CHK_OBJID NUM_SEMID i" "que s (QSem (INDEX_OBJ i)) = t # ts"
    "sem_req s t \<le> semcnt (semcb s (INDEX_OBJ i)) + 1"
  defines "s' \<equiv> snd (tk_sig_sem i 1 s)"
  shows "t \<notin> set (que s' (QSem (INDEX_OBJ i)))" "wercd (tcb s' t) = Some E_OK" "state (tcb s' t) = released (tcb s t)"
proof -
  let ?i = "INDEX_OBJ i"
  have inv: "core_inv s" "sem_inv s" using assms(1) by (simp_all add: kernel_ok_def)
  have n: "?i < NUM_SEMID" using INDEX_OBJ_less[OF assms(2)] .
  have m: "semid (semcb s ?i) \<noteq> 0" "semcnt (semcb s ?i) < maxsem (semcb s ?i)"
    using sem_invD(2,3)[OF inv(2) n] assms(3) by (auto simp: sem_ok_def sem_bounds_def must_wait_def split: if_splits)
  then have ok: "sig_sem_ok i 1 s" using assms(2) by (simp add: sig_sem_ok_def)
  obtain r k where g: "sem_grant (sem_cnt_atr (semcb s ?i)) (sem_req s) (semcnt (semcb s ?i) + 1) (que s (QSem ?i)) = (r, k)" by force
  then have "t \<in> set r" using assms(3,4) by (auto split: prod.splits)
  then show "t \<notin> set (que s' (QSem (INDEX_OBJ i)))" "wercd (tcb s' t) = Some E_OK" "state (tcb s' t) = released (tcb s t)"
    using tk_sig_sem_refines(2,3)[OF inv ok g] by (simp_all add: s'_def served_def)
qed

section \<open>Critical sections\<close>

text \<open>A program of properly nested critical sections and spin locks; \<open>Work\<close> leaves interrupts and counters alone.\<close>

datatype nesting = Work | Seq nesting nesting | Critical nesting | Locked addr nesting

primrec run_nesting :: "bool \<Rightarrow> nesting \<Rightarrow> 'a shmstate_scheme \<Rightarrow> 'a shmstate_scheme" where
  "run_nesting cache_on Work s = s"
| "run_nesting cache_on (Seq a b) s = run_nesting cache_on b (run_nesting cache_on a s)"
| "run_nesting cache_on (Critical a) s =
     wrap_vPortExitCritical cache_on (run_nesting cache_on a (wrap_vPortEnterCritical s))"
| "run_nesting cache_on (Locked mux a) s =
     wrap_spinlock_release cache_on mux (run_nesting cache_on a (wrap_spinlock_acquire mux s))"

text \<open>Inside of a section interrupts are off.\<close>

definition nest_ok :: "'a shmstate_scheme \<Rightarrow> bool" where
  "nest_ok s \<longleftrightarrow> 0 \<le> s_cs_depth s \<and> 0 \<le> s_sl_depth s \<and> (\<forall>m. 0 \<le> mux_count s m) \<and>
     (0 < s_cs_depth s \<or> 0 < s_sl_depth s \<longrightarrow> \<not> cpu_mie s)"

definition same_nest :: "'a shmstate_scheme \<Rightarrow> 'a shmstate_scheme \<Rightarrow> bool" where
  "same_nest s s' \<longleftrightarrow> cpu_mie s' = cpu_mie s \<and> s_cs_depth s' = s_cs_depth s \<and> s_sl_depth s' = s_sl_depth s \<and>
     mux_count s' = mux_count s \<and> (0 < s_cs_depth s \<longrightarrow> s_cs_saved s' = s_cs_saved s) \<and>
     (0 < s_sl_depth s \<longrightarrow> s_sl_saved s' = s_sl_saved s)"

lemma same_nest_ok: "same_nest s s' \<Longrightarrow> nest_ok s \<Longrightarrow> nest_ok s'"
  by (auto simp: same_nest_def nest_ok_def)

lemma yield_nest [simp]:
  "cpu_mie (shim_yield_if_needed c sv s) = cpu_mie s" "s_cs_depth (shim_yield_if_needed c sv s) = s_cs_depth s"
  "s_sl_depth (shim_yield_if_needed c sv s) = s_sl_depth s" "mux_count (shim_yield_if_needed c sv s) = mux_count s"
  "s_cs_saved (shim_yield_if_needed c sv s) = s_cs_saved s" "s_sl_saved (shim_yield_if_needed c sv s) = s_sl_saved s"
  by (simp_all add: shim_yield_if_needed_def knl_dispatch_def)

lemma enter_critical:
  assumes "nest_ok s" defines "s1 \<equiv> wrap_vPortEnterCritical s"
  shows "nest_ok s1" "\<not> cpu_mie s1"
  using assms by (auto simp: nest_ok_def wrap_vPortEnterCritical_def disint_def Let_def)

lemma critical_restores:
  assumes "nest_ok s" "same_nest (wrap_vPortEnterCritical s) s1" shows "same_nest s (wrap_vPortExitCritical c s1)"
  using assms by (auto simp: same_nest_def nest_ok_def wrap_vPortEnterCritical_def wrap_vPortExitCritical_def disint_def enaint_def Let_def)

lemma acquire_lock:
  assumes "nest_ok s" shows "nest_ok (wrap_spinlock_acquire mux s)" "\<not> cpu_mie (wrap_spinlock_acquire mux s)"
  using assms by (auto simp: nest_ok_def wrap_spinlock_acquire_def disint_def Let_def add_nonneg_nonneg)

lemma spinlock_restores:
  assumes "nest_ok s" "same_nest (wrap_spinlock_acquire mux s) s1" shows "same_nest s (wrap_spinlock_release c mux s1)"
proof -
  have "0 \<le> mux_count s mux" using assms(1) by (simp add: nest_ok_def)
  then show ?thesis using assms
    by (auto simp: same_nest_def nest_ok_def wrap_spinlock_acquire_def wrap_spinlock_release_def disint_def enaint_def Let_def)
qed

lemma same_nest_trans: "same_nest s s1 \<Longrightarrow> same_nest s1 s2 \<Longrightarrow> same_nest s s2"
  by (auto simp: same_nest_def)

lemma nesting_restores: "nest_ok s \<Longrightarrow> same_nest s (run_nesting c prog s)"
proof (induction prog arbitrary: s)
  case (Seq a b)
  from Seq.IH(1)[OF Seq.prems] Seq.IH(2)[OF same_nest_ok[OF Seq.IH(1)[OF Seq.prems] Seq.prems]] show ?case
    by (simp add: same_nest_trans)
next
  case (Critical a)
  from critical_restores[OF Critical.prems Critical.IH[OF enter_critical(1)[OF Critical.prems]]] show ?case by simp
next
  case (Locked mux a)
  from spinlock_restores[OF Locked.prems Locked.IH[OF acquire_lock(1)[OF Locked.prems]]] show ?case by simp
qed (simp add: same_nest_def)

section \<open>Mutexes and timers\<close>

text \<open>
  Giving a mutex that another task holds is reported as success. The adapter forgets the holder, and the mutex of
  the kernel stays locked by it.
\<close>

lemma rmutex_give_by_other:
  assumes "obj_at q s = Some (SHIM_TAG_RMUTEX p)" "rm_depth p = 1" "mtxtsk (mtxcb s (INDEX_OBJ (rm_mtx_id p))) \<noteq> ctxtsk s"
  shows "\<exists>s'. rmutex_give q p s = Some (Val True, s') \<and> obj_at q s' = Some (SHIM_TAG_RMUTEX (p\<lparr>rm_depth := 0, rm_owner_task := 0\<rparr>)) \<and>
    mtxcb s' = mtxcb s"
proof -
  let ?u = "set_obj q (SHIM_TAG_RMUTEX (p\<lparr>rm_depth := 0, rm_owner_task := 0\<rparr>)) s"
  have f: "mtxcb ?u = mtxcb s" "obj_at q ?u = Some (SHIM_TAG_RMUTEX (p\<lparr>rm_depth := 0, rm_owner_task := 0\<rparr>))"
    "hnd (END_CRITICAL_SECTION ?u) = hnd ?u" "mtxcb (END_CRITICAL_SECTION ?u) = mtxcb ?u"
    using assms(1) by (auto simp: set_obj_def obj_at_def END_CRITICAL_SECTION_def knl_dispatch_def)
  have "\<exists>e s'. tk_unl_mtx (rm_mtx_id p) ?u = Some (Ret e, s') \<and> (s' = ?u \<or> s' = END_CRITICAL_SECTION ?u)"
    using assms(3) f(1) by (simp add: tk_unl_mtx_def Let_def)
  then show ?thesis using assms(2) f by (auto simp: rmutex_give_def Let_def obj_at_def)
qed

text \<open>Changing the period of a periodic timer leaves the interval of the kernel's cyclic handler as it was.\<close>

lemma cyc_calls_keep_interval:
  "cyctim (cyccb (snd (tk_stp_cyc i s)) j) = cyctim (cyccb s j)" "cyctim (cyccb (snd (tk_sta_cyc i s)) j) = cyctim (cyccb s j)"
proof -
  have f: "cyccb s1 = cyccb s2" if "kstate.more s1 = kstate.more s2" for s1 s2 :: "'a timstate_scheme"
    using that by (cases s1; cases s2; simp)
  have m: "cyccb (END_CRITICAL_SECTION s1) = cyccb s1" "cyccb (knl_timer_delete e s1) = cyccb s1"
    "cyccb (knl_cyc_timer_insert k tm s1) = cyccb s1" for s1 :: "'a timstate_scheme" and e k tm
    by (rule f; simp add: knl_cyc_timer_insert_def)+
  show "cyctim (cyccb (snd (tk_stp_cyc i s)) j) = cyctim (cyccb s j)" by (simp add: tk_stp_cyc_def Let_def m upd_cyccb_def)
  show "cyctim (cyccb (snd (tk_sta_cyc i s)) j) = cyctim (cyccb s j)" by (simp add: tk_sta_cyc_def Let_def m upd_cyccb_def)
qed

lemma stp_cyc_hnd: "hnd (snd (tk_stp_cyc i s)) = hnd s"
proof -
  have f: "hnd s1 = hnd s2" if "kstate.more s1 = kstate.more s2" for s1 s2 :: "'a shmstate_scheme"
    using that by (cases s1; cases s2; simp)
  have "hnd (END_CRITICAL_SECTION s1) = hnd s1" "hnd (knl_timer_delete e s1) = hnd s1" for s1 :: "'a shmstate_scheme" and e
    by (rule f; simp)+
  then show ?thesis by (simp add: tk_stp_cyc_def Let_def upd_cyccb_def)
qed

lemma timer_period_not_passed_on:
  assumes "timer_at th s = Some t" "st_auto_reload t"
  shows "cyctim (cyccb (snd (wrap_xTimerChangePeriod hdr th n s)) j) = cyctim (cyccb s j)"
proof -
  have u: "cyccb (set_obj th ob s1) = cyccb s1" for ob s1 by (simp add: set_obj_def)
  have v: "timer_at th (set_obj th (SHIM_TAG_TIMER t2) s1) = Some t2" if "timer_at th s1 = Some t1" for t1 t2 s1
    using that by (cases "hnd s1 th") (auto simp: timer_at_def set_obj_def obj_at_def split: if_splits)
  let ?s1 = "snd (wrap_xTimerStop th s)"
  have e: "?s1 = snd (tk_stp_cyc (st_cyc_id t) (set_obj th (SHIM_TAG_TIMER (t\<lparr>st_active := False\<rparr>)) s))"
    using assms by (simp add: wrap_xTimerStop_def Let_def split_beta)
  have "timer_at th ?s1 = timer_at th (set_obj th (SHIM_TAG_TIMER (t\<lparr>st_active := False\<rparr>)) s)"
    unfolding e timer_at_def obj_at_def stp_cyc_hnd ..
  then have k: "timer_at th ?s1 = Some (t\<lparr>st_active := False\<rparr>)" using v[OF assms(1)] by simp
  have c: "cyctim (cyccb ?s1 j) = cyctim (cyccb s j)" unfolding e by (simp add: cyc_calls_keep_interval u)
  show ?thesis using assms k c
    by (simp add: wrap_xTimerChangePeriod_def wrap_xTimerStart_def v[OF k] Let_def split_beta cyc_calls_keep_interval u)
qed

section \<open>A sample\<close>

definition sample_queue :: shim_queue where
  "sample_queue = \<lparr>sq_item_sz = 2, sq_cap = 3, sq_head = 0, sq_tail = 0, sq_data = 1000, sq_nonempty = 1, sq_nonfull = 1\<rparr>"

definition sample_shim_sem :: shim_sem where
  "sample_shim_sem = \<lparr>ss_cnt = 1, ss_max_cnt = 2, ss_sem_id = 1\<rparr>"

definition sample_handles :: "addr \<Rightarrow> shim_handle option" where
  "sample_handles = [5000 \<mapsto> \<lparr>is_static = False, obj = SHIM_TAG_QUEUE sample_queue\<rparr>,
     6000 \<mapsto> \<lparr>is_static = False, obj = SHIM_TAG_SEM_CNT sample_shim_sem\<rparr>]"

definition sample_shm :: shmstate where
  "sample_shm = sample_tim (shmstate_ext sample_handles
     (\<lambda>_. \<lparr>tk_tsk_id = 0, tk_notify_sem = 0, tk_notify_val = 0, tk_stack = 0, tk_stack_sz = 0, tk_tls = 0\<rparr>) 0 0 False 0 False (\<lambda>_. 0) True ())"

lemma sample_shm_fields [simp]:
  "tcb sample_shm = sample_tcb" "que sample_shm = sample_que" "ctxtsk sample_shm = Some 0" "core_inv sample_shm"
  "semcb sample_shm = sample_semcb" "bmem sample_shm = (\<lambda>a. of_nat a)" "hnd sample_shm = sample_handles"
  "cpu_mie sample_shm" "taskindp sample_shm = 0" "dispatch_disabled sample_shm = 0"
  "s_cs_depth sample_shm = 0" "s_sl_depth sample_shm = 0" "mux_count sample_shm = (\<lambda>_. 0)"
  by (simp_all add: sample_shm_def) (simp_all add: sample_chain sample_kernel_def)

lemma sample_shm_ok [simp]: "kernel_ok sample_shm" "run_ok sample_shm"
proof -
  have "sample_shm = sample_sem (semstate.more sample_shm)" by (simp add: sample_shm_def sample_chain sample_kernel_def)
  then show "kernel_ok sample_shm" "run_ok sample_shm" using sample_sem_inv sample_sem_fields unfolding kernel_ok_def by metis+
qed

lemma sample_queue_at [simp]: "queue_at 5000 sample_queue [] sample_shm"
  by (simp add: queue_at_def obj_at_def sample_handles_def queue_ok_def queue_items_def used_def) (simp add: sample_queue_def)

lemma sample_sem_at [simp]: "sem_at 6000 SHIM_TAG_SEM_CNT sample_shim_sem sample_shm"
  by (simp add: sem_at_def obj_at_def sample_handles_def shim_tags_def)

section \<open>Properties\<close>

text \<open>
  C17. A queue that was created with length \<open>Suc n\<close> is a first-in first-out queue of at most \<open>n\<close> items: for every history
  of non-blocking sends, with and without overwriting, and receives, the results and the bytes delivered are
  those of the abstract queue, where a send on a full queue is refused or drops the oldest item. The queue
  reports the number of items that are in it.
\<close>

theorem shim_queue_histories:
  assumes "shim_rep q item buf sz n xs s" "ops_ok (\<lambda>x. length x = sz) ops"
  defines "run \<equiv> fifo_run (shim_put q item) (shim_get q buf sz) ops s"
    and "spec \<equiv> fifo_run (fifo_put n) fifo_get ops xs"
  shows "fst run = fst spec \<and> shim_rep q item buf sz n (snd spec) (snd run) \<and>
    wrap_uxQueueMessagesWaiting q (snd run) = int (length (snd spec)) \<and>
    wrap_uxQueueSpacesAvailable q (snd run) = int n - int (length (snd spec))"
proof -
  have h: "fst run = fst spec" "shim_rep q item buf sz n (snd spec) (snd run)"
    using shim_fifo.history[OF assms(1,2)] by (simp_all add: run_def spec_def)
  then obtain p where p: "queue_at q p (snd spec) (snd run)" "sq_cap p = Suc n" by (auto simp: shim_rep_def)
  have "wrap_uxQueueMessagesWaiting q (snd run) = int (used p)"
    using queue_atD(2,6)[OF p(1)] by (auto simp: wrap_uxQueueMessagesWaiting_def used_def)
  then show ?thesis using h queue_atD[OF p(1)] p(2) used_less[of p] by (simp add: wrap_uxQueueSpacesAvailable_def Let_def)
qed

theorem shim_queue_histories_witness:
  "fst (fifo_run (shim_put 5000 100) (shim_get 5000 200 2)
     [Put False [1, 2], Put False [3, 4], Put False [5, 6], Put True [7, 8], Get, Get, Get] sample_shm) =
   [Done True, Done True, Done False, Done True, Got (Some [3, 4]), Got (Some [7, 8]), Got None]"
proof -
  have r: "shim_rep 5000 100 200 2 2 [] sample_shm" unfolding shim_rep_def
    by (rule exI[of _ sample_queue]) (simp, simp add: sample_queue_def clear_of_def)
  show ?thesis using shim_queue_histories[OF r, of "[Put False [1, 2], Put False [3, 4], Put False [5, 6], Put True [7, 8], Get, Get, Get]"]
    by (simp add: ops_ok_def fifo_put_def fifo_get_def)
qed

text \<open>
  C19. The blocking calls of a task on a queue come to an end: a receive with a timeout takes the oldest item at once
  when there is one, and a send appends its item at once when there is room. Otherwise the retry
  loop, which wakes for notifications that earlier calls left behind, ends without effect on the queue, in an error or
  with the task in the wait queue of the kernel's semaphore for the other side.
\<close>

theorem shim_blocking_calls_return:
  assumes q: "queue_at q p xs s" "run_ok s" and c: "ticks \<noteq> 0" "\<not> shim_in_ddsp s" "buf \<noteq> 0" "clear_of buf (sq_item_sz p) p"
  shows "(\<exists>r s'. wrap_xQueueReceive q buf ticks s = Some (r, s') \<and>
      (case xs of
         [] \<Rightarrow> r \<noteq> Val True \<and> queue_at q p [] s' \<and>
           (r = Waits \<longrightarrow> (\<exists>t. ctxtsk s = Some t \<and> t \<in> set (que s' (QSem (INDEX_OBJ (sq_nonempty p))))))
       | x # ys \<Rightarrow> r = Val True \<and> queue_at q (popped p) ys s' \<and> msg_bytes (bmem s') buf (sq_item_sz p) = x)) \<and>
    (\<exists>r s'. wrap_xQueueGenericSend q item ticks 0 s = Some (r, s') \<and>
      (if length xs = sq_cap p - 1 then
         r \<noteq> Val True \<and> queue_at q p xs s' \<and>
           (r = Waits \<longrightarrow> (\<exists>t. ctxtsk s = Some t \<and> t \<in> set (que s' (QSem (INDEX_OBJ (sq_nonfull p))))))
       else r = Val True \<and> queue_at q (pushed p) (xs @ [msg_bytes (bmem s) item (sq_item_sz p)]) s'))"
proof (intro conjI)
  have "wrap_xQueueReceive q buf ticks s = receive_loop q buf (shim_tmo ticks) s"
    using queue_atD(2,6)[OF q(1)] c by (simp add: wrap_xQueueReceive_def)
  then show "\<exists>r s'. wrap_xQueueReceive q buf ticks s = Some (r, s') \<and>
      (case xs of
         [] \<Rightarrow> r \<noteq> Val True \<and> queue_at q p [] s' \<and>
           (r = Waits \<longrightarrow> (\<exists>t. ctxtsk s = Some t \<and> t \<in> set (que s' (QSem (INDEX_OBJ (sq_nonempty p))))))
       | x # ys \<Rightarrow> r = Val True \<and> queue_at q (popped p) ys s' \<and> msg_bytes (bmem s') buf (sq_item_sz p) = x)"
    using receive_retry.returns[OF q, where buf = buf and tmo = "shim_tmo ticks"] receive_retry.loop_ready[OF q(1), where buf = buf and tmo = "shim_tmo ticks"]
      queue_pop_first[where q = q and p = p and s = s and buf = buf and x = "hd xs" and xs = "tl xs"] q(1) c(3,4)
    by (cases xs) simp_all
  have "wrap_xQueueGenericSend q item ticks 0 s = send_loop q item (shim_tmo ticks) s"
    using queue_atD(2,6)[OF q(1)] c by (simp add: wrap_xQueueGenericSend_def queue_types)
  then show "\<exists>r s'. wrap_xQueueGenericSend q item ticks 0 s = Some (r, s') \<and>
      (if length xs = sq_cap p - 1 then
         r \<noteq> Val True \<and> queue_at q p xs s' \<and>
           (r = Waits \<longrightarrow> (\<exists>t. ctxtsk s = Some t \<and> t \<in> set (que s' (QSem (INDEX_OBJ (sq_nonfull p))))))
       else r = Val True \<and> queue_at q (pushed p) (xs @ [msg_bytes (bmem s) item (sq_item_sz p)]) s')"
    using send_retry.returns[OF q, where item = item and tmo = "shim_tmo ticks"] send_retry.loop_ready[OF q(1), where item = item and tmo = "shim_tmo ticks"]
      queue_push_appends[OF q(1), of item False] by (cases "length xs = sq_cap p - 1") simp_all
qed

theorem shim_blocking_calls_return_witness:
  "\<exists>r s'. wrap_xQueueReceive 5000 200 10 sample_shm = Some (r, s') \<and> r \<noteq> Val True \<and> queue_at 5000 sample_queue [] s'"
proof -
  have "\<not> shim_in_ddsp sample_shm" "clear_of 200 (sq_item_sz sample_queue) sample_queue"
    by (simp_all add: shim_in_ddsp_def clear_of_def sample_queue_def)
  from conjunct1[OF shim_blocking_calls_return[OF sample_queue_at sample_shm_ok(2) _ this(1) _ this(2), where ticks = 10]]
  show ?thesis by auto
qed

text \<open>
  C18. No wake-up is lost: while a task waits for an item of a queue with room, or for a semaphore
  below its limit, and asks the kernel's semaphore for no more than there is after a signal, a send or give succeeds and
  takes the first waiting task out of its wait with the result \<^verbatim>\<open>E_OK\<close>.
\<close>

theorem shim_send_wakes_receiver:
  fixes item :: addr
  assumes o: "(\<exists>p xs. queue_at q p xs s \<and> length xs \<noteq> sq_cap p - 1 \<and> i = sq_nonempty p) \<or>
      (\<exists>tag p. sem_at q tag p s \<and> ss_cnt p < ss_max_cnt p \<and> i = ss_sem_id p)"
    and w: "CHK_OBJID NUM_SEMID i" "que s (QSem (INDEX_OBJ i)) = t # ts" "sem_req s t \<le> semcnt (semcb s (INDEX_OBJ i)) + 1"
  defines "r \<equiv> wrap_xQueueGenericSendFromISR q item 0 s"
  shows "fst r \<and> t \<notin> set (que (snd r) (QSem (INDEX_OBJ i))) \<and> wercd (tcb (snd r) t) = Some E_OK \<and>
    state (tcb (snd r) t) = released (tcb s t)"
proof -
  have "\<exists>ob m. kernel_ok s \<and> r = (True, snd (tk_sig_sem i 1 (set_obj q ob (s\<lparr>bmem := m\<rparr>))))"
    using o
  proof (elim disjE exE conjE)
    fix p xs assume p: "queue_at q p xs s" "length xs \<noteq> sq_cap p - 1" "i = sq_nonempty p"
    then show ?thesis using queue_push_room[OF p(1,2), of item False] queue_atD(1,2,6)[OF p(1)]
      by (auto simp: r_def wrap_xQueueGenericSendFromISR_def queue_types)
  next
    fix tag p assume p: "sem_at q tag p s" "ss_cnt p < ss_max_cnt p" "i = ss_sem_id p"
    have "r = sem_give q tag p s" using sem_atD(3,4,6)[OF p(1)] by (auto simp: r_def wrap_xQueueGenericSendFromISR_def)
    then have "r = (True, snd (tk_sig_sem i 1 (set_obj q (tag (p\<lparr>ss_cnt := ss_cnt p + 1\<rparr>)) (s\<lparr>bmem := bmem s\<rparr>))))"
      using p by (simp add: sem_give_def)
    then show ?thesis using sem_atD(1)[OF p(1)] by blast
  qed
  then obtain ob m where k: "kernel_ok s" "r = (True, snd (tk_sig_sem i 1 (set_obj q ob (s\<lparr>bmem := m\<rparr>))))" by blast
  let ?s = "set_obj q ob (s\<lparr>bmem := m\<rparr>)"
  have "sem_req ?s t = sem_req s t" by (simp add: sem_req_def)
  then have "sem_req ?s t \<le> semcnt (semcb ?s (INDEX_OBJ i)) + 1" "que ?s (QSem (INDEX_OBJ i)) = t # ts" "kernel_ok ?s"
    using w k(1) by simp_all
  from sig_sem_wakes[OF this(3) w(1) this(2,1)] show ?thesis by (simp add: k(2))
qed

theorem shim_send_wakes_receiver_witness:
  "2 \<notin> set (que (snd (wrap_xQueueGenericSendFromISR 5000 100 0 sample_shm)) (QSem (INDEX_OBJ 1)))"
proof -
  have "\<exists>p xs. queue_at 5000 p xs sample_shm \<and> length xs \<noteq> sq_cap p - 1 \<and> 1 = sq_nonempty p"
    using sample_queue_at by (intro exI[of _ sample_queue] exI[of _ "[]"]) (simp, simp add: sample_queue_def)
  from shim_send_wakes_receiver[OF disjI1[OF this], of 2 "[]" 100] show ?thesis
    by (simp add: INDEX_OBJ_def CHK_OBJID_def NUM_SEMID_def sem_req_def sample_semcb_def) (simp add: sample_defs)
qed

text \<open>
  C20. A semaphore of the adapter is a counter between zero and its maximum: a give adds one
  exactly below the maximum and is refused otherwise; a take of a task takes one exactly when there is
  one, and otherwise ends, after finitely many retries, in failure or in a wait for the next give.
\<close>

theorem shim_semaphore_counts:
  assumes s: "sem_at q tag p s" "run_ok s" and b: "0 \<le> ss_cnt p" "ss_cnt p \<le> ss_max_cnt p"
  shows "(\<exists>s'. wrap_xQueueGenericSend q item ticks 0 s = Some (Val (ss_cnt p < ss_max_cnt p), s') \<and>
      sem_at q tag (p\<lparr>ss_cnt := min (ss_max_cnt p) (ss_cnt p + 1)\<rparr>) s') \<and>
    (\<exists>r s'. wrap_xQueueSemaphoreTake q ticks s = Some (r, s') \<and>
      sem_at q tag (p\<lparr>ss_cnt := max 0 (ss_cnt p - 1)\<rparr>) s' \<and> (r = Val True \<longleftrightarrow> 0 < ss_cnt p) \<and>
      (ticks = 0 \<longrightarrow> r \<noteq> Waits) \<and>
      (r = Waits \<longrightarrow> (\<exists>t. ctxtsk s = Some t \<and> t \<in> set (que s' (QSem (INDEX_OBJ (ss_sem_id p)))))))"
proof (intro conjI)
  note D = sem_atD[OF s(1)] and G = sem_give_result[OF s(1)]
  have "wrap_xQueueGenericSend q item ticks 0 s = at_once (sem_give q tag p s)"
    using D(3,4,6) by (auto simp: wrap_xQueueGenericSend_def)
  moreover have "(if ss_cnt p < ss_max_cnt p then p\<lparr>ss_cnt := ss_cnt p + 1\<rparr> else p) = p\<lparr>ss_cnt := min (ss_max_cnt p) (ss_cnt p + 1)\<rparr>"
    using b by (cases p) auto
  ultimately show "\<exists>s'. wrap_xQueueGenericSend q item ticks 0 s = Some (Val (ss_cnt p < ss_max_cnt p), s') \<and>
      sem_at q tag (p\<lparr>ss_cnt := min (ss_max_cnt p) (ss_cnt p + 1)\<rparr>) s'" using G by (simp add: at_once_def)
  have e: "wrap_xQueueSemaphoreTake q ticks s = sem_take q p ticks s"
    using D(3,4,5,6) by (auto simp: wrap_xQueueSemaphoreTake_def)
  show "\<exists>r s'. wrap_xQueueSemaphoreTake q ticks s = Some (r, s') \<and>
      sem_at q tag (p\<lparr>ss_cnt := max 0 (ss_cnt p - 1)\<rparr>) s' \<and> (r = Val True \<longleftrightarrow> 0 < ss_cnt p) \<and>
      (ticks = 0 \<longrightarrow> r \<noteq> Waits) \<and>
      (r = Waits \<longrightarrow> (\<exists>t. ctxtsk s = Some t \<and> t \<in> set (que s' (QSem (INDEX_OBJ (ss_sem_id p))))))"
  proof (cases "0 < ss_cnt p")
    case True
    let ?s = "set_obj q (tag (p\<lparr>ss_cnt := ss_cnt p - 1\<rparr>)) s"
    have "sem_at q tag (p\<lparr>ss_cnt := ss_cnt p - 1\<rparr>) (snd (tk_wai_sem (ss_sem_id p) 1 TMO_POL ?s))"
      using sem_at_wait[OF sem_at_set[OF s(1)]] s(2) by simp
    then show ?thesis using True unfolding e sem_take_def sem_try_result[OF s(1)] by auto
  next
    case False
    then have z: "p\<lparr>ss_cnt := max 0 (ss_cnt p - 1)\<rparr> = p" "ss_cnt p \<le> 0" using b(1) by (cases p; simp)+
    have t: "shim_tmo ticks = TMO_POL" if "ticks = 0" using that by (simp add: shim_tmo_def)
    show ?thesis using take_retry.returns[OF conjI[OF s(1) z(2)] s(2), where tmo = "shim_tmo ticks"] False z s(1) t
      unfolding e sem_take_def sem_try_result[OF s(1)] by auto
  qed
qed

theorem shim_semaphore_counts_witness:
  "\<exists>r s'. wrap_xQueueSemaphoreTake 6000 10 sample_shm = Some (r, s') \<and> r = Val True \<and>
     sem_at 6000 SHIM_TAG_SEM_CNT (sample_shim_sem\<lparr>ss_cnt := 0\<rparr>) s'"
  using conjunct2[OF shim_semaphore_counts[OF sample_sem_at sample_shm_ok(2), where ticks = 10]]
  by (auto simp: sample_shim_sem_def)

text \<open>
  C21. Critical sections and spin locks that are properly nested, in any combination, restore the interrupt enable bit,
  both nesting counters and the counts of the locks, with or without a task switch requested at the end; and as long
  as a section is open, interrupts stay off.
\<close>

theorem critical_sections_nest:
  fixes cache_on :: bool and prog :: nesting
  assumes "nest_ok s"
  defines "s' \<equiv> run_nesting cache_on prog s"
  shows "cpu_mie s' = cpu_mie s \<and> s_cs_depth s' = s_cs_depth s \<and> s_sl_depth s' = s_sl_depth s \<and> mux_count s' = mux_count s \<and>
    \<not> cpu_mie (run_nesting cache_on prog (wrap_vPortEnterCritical s)) \<and>
    \<not> cpu_mie (run_nesting cache_on prog (wrap_spinlock_acquire mux s))"
  using nesting_restores[OF assms(1), of cache_on prog]
    nesting_restores[OF enter_critical(1)[OF assms(1)], of cache_on prog] enter_critical(2)[OF assms(1)]
    nesting_restores[OF acquire_lock(1)[OF assms(1), of mux], of cache_on prog] acquire_lock(2)[OF assms(1), of mux]
  by (simp add: s'_def same_nest_def)

theorem critical_sections_nest_witness:
  "cpu_mie (run_nesting True (Critical (Seq (Locked 40 (Critical Work)) (Locked 40 Work))) sample_shm)"
  using critical_sections_nest[of sample_shm True "Critical (Seq (Locked 40 (Critical Work)) (Locked 40 Work))" 0]
  by (simp add: nest_ok_def)

end
