(* ===== verification/Device.thy ===== *)
theory Device
  imports Semaphore Task_Manage Mempfix
begin

text \<open>
  Device management: registration, names and information of \<^verbatim>\<open>device.c\<close>, opening, closing, requests and suspension of
  \<^verbatim>\<open>deviceio.c\<close>. What runs between \<^verbatim>\<open>LockDM\<close> and \<^verbatim>\<open>UnlockDM\<close> is one definition here; a call is these sections with
  the calls of the driver between them. Drivers are the application's: the argument \<open>drv\<close> gives, for each function
  of a driver, its result and its effect on the state. A control block is its index in its table; the queues that link control
  blocks are lists of indices. A device name is its characters without the final null.
\<close>

section \<open>Data\<close>

type_synonym dname = "8 word list"

record T_DDEV =
  ddev_exinf :: addr
  ddev_drvatr :: UW
  ddev_devatr :: UW
  ddev_nsub :: int
  ddev_blksz :: int
  ddev_openfn :: addr
  ddev_closefn :: addr
  ddev_execfn :: addr
  ddev_waitfn :: addr
  ddev_abortfn :: addr
  ddev_eventfn :: addr

record T_RDEV =
  rdev_devatr :: UW
  rdev_blksz :: int
  rdev_nsub :: int
  rdev_subno :: int

record T_LDEV =
  ldev_devatr :: UW
  ldev_blksz :: int
  ldev_nsub :: int
  ldev_devnm :: dname

record T_DEVREQ =
  dr_next :: "nat option"
  dr_exinf :: addr
  dr_devid :: ID
  dr_cmd :: int
  dr_abort :: bool
  dr_start :: int
  dr_size :: int
  dr_buf :: addr
  dr_asize :: int
  dr_error :: ER

record DevCB =
  dev_nm :: dname
  dev_ddev :: T_DDEV
  dev_openq :: "nat list"

record OpnCB =
  opn_resid :: ID
  opn_devcb :: nat
  opn_unitno :: int
  opn_omode :: UW
  opn_requestq :: "nat list"
  opn_waitone :: "16 word"
  opn_waireqlst :: nat
  opn_nwaireq :: int
  opn_abort_tskid :: ID
  opn_abort_cnt :: int
  opn_abort_semid :: ID

record ReqCB =
  req_opncb :: "nat option"
  req_tskid :: ID
  req_req :: T_DEVREQ

record devstate = semstate +
  DevCBtbl :: "nat \<Rightarrow> DevCB"
  UsedDevCB :: "nat list"
  FreeDevCB :: "nat list"
  OpnCBtbl :: "nat \<Rightarrow> OpnCB"
  FreeOpnCB :: "nat list"
  ReqCBtbl :: "nat \<Rightarrow> ReqCB"
  FreeReqCB :: "nat list"
  res_openq :: "nat list"
  res_dissus :: int
  DisSusCnt :: int
  DefaultIDev :: ID

definition E_OACV :: ER where [consts_defs]: "E_OACV = -27"
definition E_BUSY :: ER where [consts_defs]: "E_BUSY = -65"

definition MAX_REGDEV :: nat where "MAX_REGDEV = 8"
definition MAX_OPNDEV :: nat where "MAX_OPNDEV = 16"
definition MAX_REQDEV :: nat where "MAX_REQDEV = 16"
definition MAX_UNIT :: int where "MAX_UNIT = 255"
definition MAX_DISSUS :: int where "MAX_DISSUS = 0x7FFFFFFF"
definition L_DEVNM :: nat where "L_DEVNM = 8"

definition TD_READ :: UW where "TD_READ = 0x0001"
definition TD_WRITE :: UW where "TD_WRITE = 0x0002"
definition TD_UPDATE :: UW where "TD_UPDATE = 0x0003"
definition TD_EXCL :: UW where "TD_EXCL = 0x0100"
definition TD_WEXCL :: UW where "TD_WEXCL = 0x0200"
definition TD_REXCL :: UW where "TD_REXCL = 0x0400"
definition TD_EJECT :: UW where "TD_EJECT = 0x0001"
definition TD_SUSPEND :: UW where "TD_SUSPEND = 0x0001"
definition TD_DISSUS :: UW where "TD_DISSUS = 0x0002"
definition TD_ENASUS :: UW where "TD_ENASUS = 0x0003"
definition TD_CHECK :: UW where "TD_CHECK = 0x0004"
definition TD_FORCE :: UW where "TD_FORCE = 0x8000"
definition TD_DEVTYPE :: UW where "TD_DEVTYPE = 0x00f0"
definition TDK_DISK :: UW where "TDK_DISK = 0x0010"
definition TDA_OPENREQ :: UW where "TDA_OPENREQ = 0x0001"
definition TDC_READ :: int where "TDC_READ = 1"
definition TDC_WRITE :: int where "TDC_WRITE = 2"
definition TDV_SUSPEND :: int where "TDV_SUSPEND = -1"
definition TDV_RESUME :: int where "TDV_RESUME = -2"

definition upd_dev :: "nat \<Rightarrow> (DevCB \<Rightarrow> DevCB) \<Rightarrow> 'a devstate_scheme \<Rightarrow> 'a devstate_scheme" where
  "upd_dev i f s = s\<lparr>DevCBtbl := (DevCBtbl s)(i := f (DevCBtbl s i))\<rparr>"

definition upd_opn :: "nat \<Rightarrow> (OpnCB \<Rightarrow> OpnCB) \<Rightarrow> 'a devstate_scheme \<Rightarrow> 'a devstate_scheme" where
  "upd_opn i f s = s\<lparr>OpnCBtbl := (OpnCBtbl s)(i := f (OpnCBtbl s i))\<rparr>"

definition upd_req :: "nat \<Rightarrow> (ReqCB \<Rightarrow> ReqCB) \<Rightarrow> 'a devstate_scheme \<Rightarrow> 'a devstate_scheme" where
  "upd_req i f s = s\<lparr>ReqCBtbl := (ReqCBtbl s)(i := f (ReqCBtbl s i))\<rparr>"

lemmas dev_upds = upd_dev_def upd_opn_def upd_req_def

text \<open>Identifiers: a device and a unit of it, a device descriptor, a request.\<close>

definition DID :: "nat \<Rightarrow> ID" where "DID i = (int i + 1) * 256"
definition DEVID :: "nat \<Rightarrow> int \<Rightarrow> ID" where "DEVID i u = DID i + u"
definition DEVCB :: "ID \<Rightarrow> nat" where "DEVCB devid = nat (devid div 256 - 1)"
definition UNITNO :: "ID \<Rightarrow> int" where "UNITNO devid = devid mod 256"
definition DD :: "nat \<Rightarrow> ID" where "DD i = int i + 1"
definition OPNCB :: "ID \<Rightarrow> nat" where "OPNCB dd = nat (dd - 1)"
definition REQID :: "nat \<Rightarrow> ID" where "REQID i = int i + 1"
definition REQCB :: "ID \<Rightarrow> nat" where "REQCB reqid = nat (reqid - 1)"

definition knl_check_devid :: "ID \<Rightarrow> ER" where
  "knl_check_devid devid = (if devid div 256 < 1 \<or> devid div 256 > int MAX_REGDEV then E_ID else E_OK)"

section \<open>Calls of a driver\<close>

text \<open>The function's address, its arguments, and the extended information of the device.\<close>

datatype driver_call = OPENFN addr ID UW addr | CLOSEFN addr ID UW addr | EXECFN addr nat TMO addr
  | WAITFN addr nat int TMO addr | ABORTFN addr ID nat int addr | EVENTFN addr int addr addr

type_synonym 'a drivers = "driver_call \<Rightarrow> 'a devstate_scheme \<Rightarrow> ER \<times> 'a devstate_scheme"

definition enter_driver :: "'a devstate_scheme \<Rightarrow> 'a devstate_scheme" where
  "enter_driver s = ENABLE_INTERRUPT (upd_tcb (the (ctxtsk s)) (\<lambda>b. b\<lparr>sysmode := sysmode b + 1\<rparr>) s)"

definition leave_driver :: "'a devstate_scheme \<Rightarrow> 'a devstate_scheme" where
  "leave_driver s = ENABLE_INTERRUPT (upd_tcb (the (ctxtsk s)) (\<lambda>b. b\<lparr>sysmode := sysmode b - 1\<rparr>) s)"

definition call_driver :: "'a drivers \<Rightarrow> driver_call \<Rightarrow> 'a devstate_scheme \<Rightarrow> ER \<times> 'a devstate_scheme" where
  "call_driver drv c s = (let (r, s1) = drv c (enter_driver s) in (r, leave_driver s1))"

section \<open>Names\<close>

definition is_digit :: "8 word \<Rightarrow> bool" where
  "is_digit c \<longleftrightarrow> 48 \<le> c \<and> c \<le> 57"

text \<open>The physical device name and the unit number, which is computed in 32 bits.\<close>

definition unit_of :: "dname \<Rightarrow> int" where
  "unit_of ds = (if ds = [] then 0 else sint (fold (\<lambda>c n. n * 10 + (ucast c - 48)) ds (0 :: UW) + 1))"

definition knl_phydevnm :: "dname \<Rightarrow> dname \<times> int" where
  "knl_phydevnm ldevnm = (takeWhile (\<lambda>c. \<not> is_digit c) ldevnm, unit_of (dropWhile (\<lambda>c. \<not> is_digit c) ldevnm))"

fun decimal :: "nat \<Rightarrow> dname" where
  "decimal n = (if n < 10 then [] else decimal (n div 10)) @ [of_nat (48 + n mod 10)]"

declare decimal.simps [simp del]

definition logdevnm :: "dname \<Rightarrow> int \<Rightarrow> dname" where
  "logdevnm pdevnm unitno = (if unitno > 0 then pdevnm @ decimal (nat (unitno - 1)) else pdevnm)"

section \<open>Registration\<close>

definition knl_searchDevCB :: "dname \<Rightarrow> 'a devstate_scheme \<Rightarrow> nat option" where
  "knl_searchDevCB nm s = find (\<lambda>i. dev_nm (DevCBtbl s i) = nm) (UsedDevCB s)"

definition newDevCB :: "dname \<Rightarrow> 'a devstate_scheme \<Rightarrow> nat option \<times> 'a devstate_scheme" where
  "newDevCB nm s =
     (case FreeDevCB s of
        [] \<Rightarrow> (None, s)
      | i # fs \<Rightarrow> (Some i, (upd_dev i (\<lambda>d. d\<lparr>dev_nm := take (L_DEVNM + 1) nm, dev_openq := []\<rparr>) s)
                           \<lparr>FreeDevCB := fs, UsedDevCB := UsedDevCB s @ [i]\<rparr>))"

definition delDevCB :: "nat \<Rightarrow> 'a devstate_scheme \<Rightarrow> 'a devstate_scheme" where
  "delDevCB i s = (upd_dev i (\<lambda>d. d\<lparr>dev_nm := []\<rparr>) s)
     \<lparr>UsedDevCB := removeAll i (UsedDevCB s), FreeDevCB := FreeDevCB s @ [i]\<rparr>"

definition name_len :: "dname \<Rightarrow> T_DDEV option \<Rightarrow> nat" where
  "name_len nm pk = length nm + (case pk of None \<Rightarrow> 0 | Some d \<Rightarrow>
     (if ddev_nsub d > 0 then 1 else 0) + (if ddev_nsub d > 10 then 1 else 0) + (if ddev_nsub d > 100 then 1 else 0))"

definition tk_def_dev :: "dname \<Rightarrow> T_DDEV option \<Rightarrow> 'a devstate_scheme \<Rightarrow> ID \<times> 'a devstate_scheme" where
  "tk_def_dev nm pk s =
     (if length nm = 0 \<or> length nm > L_DEVNM then (E_PAR, s)
      else if (case pk of Some d \<Rightarrow> ddev_nsub d < 0 \<or> ddev_nsub d > MAX_UNIT \<or> name_len nm pk > L_DEVNM | None \<Rightarrow> False)
        then (E_PAR, s)
      else
        case pk of
          Some d \<Rightarrow>
            (case (case knl_searchDevCB nm s of Some i \<Rightarrow> (Some i, s) | None \<Rightarrow> newDevCB nm s) of
               (None, s1) \<Rightarrow> (E_LIMIT, s1)
             | (Some i, s1) \<Rightarrow> (DID i, upd_dev i (\<lambda>b. b\<lparr>dev_ddev := d\<rparr>) s1))
        | None \<Rightarrow>
            (case knl_searchDevCB nm s of
               None \<Rightarrow> (E_NOEXS, s)
             | Some i \<Rightarrow> if dev_openq (DevCBtbl s i) \<noteq> [] then (E_BUSY, s) else (DID i, delDevCB i s)))"

text \<open>The initial setting information, which a registration also writes to the caller's packet.\<close>

definition tk_ref_idv :: "'a devstate_scheme \<Rightarrow> ER \<times> ID" where
  "tk_ref_idv s = (E_OK, DefaultIDev s)"

definition no_unit :: "ID \<Rightarrow> 'a devstate_scheme \<Rightarrow> bool" where
  "no_unit devid s \<longleftrightarrow> dev_nm (DevCBtbl s (DEVCB devid)) = [] \<or> UNITNO devid > ddev_nsub (dev_ddev (DevCBtbl s (DEVCB devid)))"

definition tk_get_dev :: "ID \<Rightarrow> 'a devstate_scheme \<Rightarrow> ID \<times> dname option" where
  "tk_get_dev devid s =
     (let ercd = knl_check_devid devid
      in if ercd < E_OK then (ercd, None)
         else if no_unit devid s then (E_NOEXS, None)
         else (DID (DEVCB devid), Some (logdevnm (dev_nm (DevCBtbl s (DEVCB devid))) (UNITNO devid))))"

definition dev_info :: "nat \<Rightarrow> int \<Rightarrow> 'a devstate_scheme \<Rightarrow> T_RDEV" where
  "dev_info i u s = (let d = dev_ddev (DevCBtbl s i)
     in \<lparr>rdev_devatr = ddev_devatr d, rdev_blksz = ddev_blksz d, rdev_nsub = ddev_nsub d, rdev_subno = u\<rparr>)"

definition find_unit :: "dname \<Rightarrow> 'a devstate_scheme \<Rightarrow> (nat \<times> int) option" where
  "find_unit nm s =
     (let (pdevnm, unitno) = knl_phydevnm nm
      in case knl_searchDevCB pdevnm s of
           None \<Rightarrow> None
         | Some i \<Rightarrow> if unitno > ddev_nsub (dev_ddev (DevCBtbl s i)) then None else Some (i, unitno))"

definition tk_ref_dev :: "dname \<Rightarrow> 'a devstate_scheme \<Rightarrow> ID \<times> T_RDEV option" where
  "tk_ref_dev nm s = (case find_unit nm s of None \<Rightarrow> (E_NOEXS, None) | Some (i, u) \<Rightarrow> (DEVID i u, Some (dev_info i u s)))"

definition knl_check_devdesc :: "ID \<Rightarrow> UW \<Rightarrow> 'a devstate_scheme \<Rightarrow> ER" where
  "knl_check_devdesc dd mode s =
     (if dd < 1 \<or> dd > int MAX_OPNDEV then E_ID
      else if opn_resid (OpnCBtbl s (OPNCB dd)) = 0 then E_ID
      else if mode \<noteq> 0 \<and> opn_omode (OpnCBtbl s (OPNCB dd)) AND mode = 0 then E_OACV
      else E_OK)"

definition tk_oref_dev :: "ID \<Rightarrow> 'a devstate_scheme \<Rightarrow> ID \<times> T_RDEV option" where
  "tk_oref_dev dd s =
     (let ercd = knl_check_devdesc dd 0 s; b = OpnCBtbl s (OPNCB dd)
      in if ercd < E_OK then (ercd, None)
         else (DEVID (opn_devcb b) (opn_unitno b), Some (dev_info (opn_devcb b) (opn_unitno b) s)))"

definition tk_lst_dev :: "int \<Rightarrow> int \<Rightarrow> 'a devstate_scheme \<Rightarrow> int \<times> T_LDEV list" where
  "tk_lst_dev start ndev s =
     (if start < 0 \<or> ndev < 0 then (E_PAR, [])
      else
        let us = UsedDevCB s; n = int (length us);
            entry = (\<lambda>i. let b = DevCBtbl s i in \<lparr>ldev_devatr = ddev_devatr (dev_ddev b), ldev_blksz = ddev_blksz (dev_ddev b),
                       ldev_nsub = ddev_nsub (dev_ddev b), ldev_devnm = take L_DEVNM (dev_nm b)\<rparr>)
        in (if start \<ge> n then E_NOEXS else n - start, map entry (take (nat ndev) (drop (nat start) us))))"

definition tk_evt_dev :: "'a drivers \<Rightarrow> ID \<Rightarrow> int \<Rightarrow> addr \<Rightarrow> 'a devstate_scheme \<Rightarrow> ER \<times> 'a devstate_scheme" where
  "tk_evt_dev drv devid evttyp evtinf s =
     (let ercd = knl_check_devid devid; d = dev_ddev (DevCBtbl s (DEVCB devid))
      in if ercd < E_OK then (ercd, s)
         else if evttyp < 0 then (E_PAR, s)
         else if no_unit devid s then (E_NOEXS, s)
         else call_driver drv (EVENTFN (ddev_eventfn d) evttyp evtinf (ddev_exinf d)) s)"

section \<open>Opening\<close>

definition knl_chkopen :: "nat \<Rightarrow> int \<Rightarrow> 'a devstate_scheme \<Rightarrow> bool" where
  "knl_chkopen d unitno s \<longleftrightarrow> list_ex (\<lambda>o'. opn_unitno (OpnCBtbl s o') = unitno) (dev_openq (DevCBtbl s d))"

definition knl_delOpnCB :: "nat \<Rightarrow> bool \<Rightarrow> 'a devstate_scheme \<Rightarrow> 'a devstate_scheme" where
  "knl_delOpnCB i free s =
     (let s1 = upd_dev (opn_devcb (OpnCBtbl s i)) (\<lambda>d. d\<lparr>dev_openq := removeAll i (dev_openq d)\<rparr>) s;
          s2 = s1\<lparr>res_openq := removeAll i (res_openq s1)\<rparr>;
          s3 = (if free then s2\<lparr>FreeOpnCB := FreeOpnCB s2 @ [i]\<rparr> else s2)
      in upd_opn i (\<lambda>b. b\<lparr>opn_resid := 0\<rparr>) s3)"

definition newOpnCB :: "nat \<Rightarrow> int \<Rightarrow> UW \<Rightarrow> 'a devstate_scheme \<Rightarrow> nat option \<times> 'a devstate_scheme" where
  "newOpnCB d unitno omode s =
     (case FreeOpnCB s of
        [] \<Rightarrow> (None, s)
      | i # fs \<Rightarrow>
          let s1 = upd_dev d (\<lambda>b. b\<lparr>dev_openq := dev_openq b @ [i]\<rparr>) (s\<lparr>FreeOpnCB := fs\<rparr>);
              s2 = s1\<lparr>res_openq := res_openq s1 @ [i]\<rparr>
          in (Some i, upd_opn i (\<lambda>b. b\<lparr>opn_devcb := d, opn_unitno := unitno, opn_omode := omode, opn_requestq := [],
                        opn_waitone := 0, opn_nwaireq := 0, opn_abort_tskid := 0, opn_resid := 0\<rparr>) s2))"

definition count_open :: "nat \<Rightarrow> int \<Rightarrow> UW \<Rightarrow> 'a devstate_scheme \<Rightarrow> nat" where
  "count_open d unitno mode s =
     length (filter (\<lambda>i. let b = OpnCBtbl s i in
        (unitno = 0 \<or> opn_unitno b = 0 \<or> opn_unitno b = unitno) \<and> opn_omode b AND mode \<noteq> 0) (dev_openq (DevCBtbl s d)))"

definition chkopenmode :: "nat \<Rightarrow> int \<Rightarrow> UW \<Rightarrow> 'a devstate_scheme \<Rightarrow> ER" where
  "chkopenmode d unitno omode s =
     (let read = count_open d unitno TD_READ s; write = count_open d unitno TD_WRITE s;
          rexcl = count_open d unitno (TD_EXCL OR TD_REXCL) s; wexcl = count_open d unitno (TD_EXCL OR TD_WEXCL) s
      in if omode AND TD_UPDATE = 0 then E_PAR
         else if omode AND (TD_EXCL OR TD_REXCL) \<noteq> 0 \<and> read > 0 then E_BUSY
         else if omode AND (TD_EXCL OR TD_WEXCL) \<noteq> 0 \<and> write > 0 then E_BUSY
         else if omode AND TD_READ \<noteq> 0 \<and> rexcl > 0 then E_BUSY
         else if omode AND TD_WRITE \<noteq> 0 \<and> wexcl > 0 then E_BUSY
         else E_OK)"

text \<open>The first section: an error, or the open management block and the driver's function to call, null for none.\<close>

datatype opn_result = OpnErr ER | OpnGo nat addr

definition opn_begin :: "dname \<Rightarrow> UW \<Rightarrow> 'a devstate_scheme \<Rightarrow> opn_result \<times> 'a devstate_scheme" where
  "opn_begin nm omode s =
     (case find_unit nm s of
        None \<Rightarrow> (OpnErr E_NOEXS, s)
      | Some (d, unitno) \<Rightarrow>
          let ercd = chkopenmode d unitno omode s; dd = dev_ddev (DevCBtbl s d);
              openfn = (if knl_chkopen d unitno s \<and> ddev_drvatr dd AND TDA_OPENREQ = 0 then 0 else ddev_openfn dd)
          in if ercd < E_OK then (OpnErr ercd, s)
             else
               case newOpnCB d unitno omode s of
                 (None, s1) \<Rightarrow> (OpnErr E_LIMIT, s1)
               | (Some i, s1) \<Rightarrow>
                   let (r, s2) = tk_cre_sem \<lparr>csem_exinf = 0, csem_sematr = TA_TFIFO, csem_isemcnt = 0, csem_maxsem = 1\<rparr> s1
                   in (case r of
                         Ret sem_id \<Rightarrow> if sem_id < E_OK then (OpnErr E_SYS, knl_delOpnCB i True s2)
                                      else (OpnGo i openfn, upd_opn i (\<lambda>b. b\<lparr>opn_abort_semid := sem_id\<rparr>) s2)
                       | Blocked \<Rightarrow> (OpnErr E_SYS, s2)))"

definition opn_finish :: "nat \<Rightarrow> 'a devstate_scheme \<Rightarrow> 'a devstate_scheme" where
  "opn_finish i s = upd_opn i (\<lambda>b. b\<lparr>opn_resid := 1\<rparr>) s"

definition opn_fail :: "nat \<Rightarrow> 'a devstate_scheme \<Rightarrow> 'a devstate_scheme" where
  "opn_fail i s = knl_delOpnCB i True (snd (tk_del_sem (opn_abort_semid (OpnCBtbl s i)) s))"

definition tk_opn_dev :: "'a drivers \<Rightarrow> dname \<Rightarrow> UW \<Rightarrow> 'a devstate_scheme \<Rightarrow> ID \<times> 'a devstate_scheme" where
  "tk_opn_dev drv nm omode s =
     (case opn_begin nm omode s of
        (OpnErr e, s1) \<Rightarrow> (e, s1)
      | (OpnGo i openfn, s1) \<Rightarrow>
          let b = OpnCBtbl s1 i; d = dev_ddev (DevCBtbl s1 (opn_devcb b));
              (e, s2) = (if openfn \<noteq> 0
                then call_driver drv (OPENFN openfn (DEVID (opn_devcb b) (opn_unitno b)) omode (ddev_exinf d)) s1 else (E_OK, s1))
          in if e < E_OK then (e, opn_fail i s2) else (DD i, opn_finish i s2))"

section \<open>Closing\<close>

definition knl_delReqCB :: "nat \<Rightarrow> 'a devstate_scheme \<Rightarrow> 'a devstate_scheme" where
  "knl_delReqCB r s =
     (let s1 = (case req_opncb (ReqCBtbl s r) of
                  Some i \<Rightarrow> upd_opn i (\<lambda>b. b\<lparr>opn_requestq := removeAll r (opn_requestq b)\<rparr>) s
                | None \<Rightarrow> s)
      in upd_req r (\<lambda>b. b\<lparr>req_opncb := None\<rparr>) (s1\<lparr>FreeReqCB := FreeReqCB s1 @ [r]\<rparr>))"

definition dev_of :: "nat \<Rightarrow> 'a devstate_scheme \<Rightarrow> T_DDEV" where
  "dev_of i s = dev_ddev (DevCBtbl s (opn_devcb (OpnCBtbl s i)))"

definition abort_one :: "'a drivers \<Rightarrow> nat \<Rightarrow> nat \<Rightarrow> int \<Rightarrow> 'a devstate_scheme \<Rightarrow> 'a devstate_scheme" where
  "abort_one drv i r n s =
     upd_opn i (\<lambda>b. b\<lparr>opn_abort_cnt := opn_abort_cnt b + 1\<rparr>)
       (snd (call_driver drv (ABORTFN (ddev_abortfn (dev_of i s)) (req_tskid (ReqCBtbl s r)) r n (ddev_exinf (dev_of i s))) s))"

definition set_abort :: "nat \<Rightarrow> 'a devstate_scheme \<Rightarrow> 'a devstate_scheme" where
  "set_abort r s = upd_req r (\<lambda>b. b\<lparr>req_req := (req_req b)\<lparr>dr_abort := True\<rparr>\<rparr>) s"

definition abort_begin :: "'a drivers \<Rightarrow> nat \<Rightarrow> 'a devstate_scheme \<Rightarrow> 'a devstate_scheme" where
  "abort_begin drv i s =
     (let s1 = upd_opn i (\<lambda>b. b\<lparr>opn_abort_tskid := tk_get_tid s, opn_abort_cnt := 0\<rparr>) s; b = OpnCBtbl s1 i
      in if opn_nwaireq b > 0 then abort_one drv i (opn_waireqlst b) (opn_nwaireq b) s1
         else fold (\<lambda>r st. if req_tskid (ReqCBtbl st r) = 0 then st else abort_one drv i r 1 (set_abort r st))
                (opn_requestq b) s1)"

text \<open>
  The requests that are left are waited for one after the other, with the driver's function and information as they were
  when the call began.
\<close>

partial_function (option) abort_remaining :: "'a drivers \<Rightarrow> addr \<Rightarrow> addr \<Rightarrow> nat \<Rightarrow> 'a devstate_scheme \<Rightarrow> 'a devstate_scheme option" where
  "abort_remaining drv waitfn exinf' i s =
     (case opn_requestq (OpnCBtbl s i) of
        [] \<Rightarrow> Some s
      | r # _ \<Rightarrow>
          let s2 = snd (call_driver drv (WAITFN waitfn r 1 TMO_FEVR exinf') (set_abort r s))
          in abort_remaining drv waitfn exinf' i (knl_delReqCB r s2))"

definition close_section :: "nat \<Rightarrow> UW \<Rightarrow> 'a devstate_scheme \<Rightarrow> addr \<times> UW \<times> 'a devstate_scheme" where
  "close_section i opt s =
     (let b = OpnCBtbl s i; d = opn_devcb b; dd = dev_ddev (DevCBtbl s d);
          s1 = knl_delOpnCB i False (snd (tk_del_sem (opn_abort_semid b) s))
      in if knl_chkopen d (opn_unitno b) s1
         then (if ddev_drvatr dd AND TDA_OPENREQ = 0 then 0 else ddev_closefn dd, opt AND NOT TD_EJECT, s1)
         else (ddev_closefn dd, opt, s1))"

definition close_free :: "nat \<Rightarrow> 'a devstate_scheme \<Rightarrow> 'a devstate_scheme" where
  "close_free i s = s\<lparr>FreeOpnCB := FreeOpnCB s @ [i]\<rparr>"

text \<open>The rest of the call, after the wait for the aborted requests.\<close>

definition close_rest :: "'a drivers \<Rightarrow> addr \<Rightarrow> addr \<Rightarrow> nat \<Rightarrow> UW \<Rightarrow> 'a devstate_scheme \<Rightarrow> (sysret \<times> 'a devstate_scheme) option" where
  "close_rest drv waitfn exinf' i opt s =
     (case abort_remaining drv waitfn exinf' i (upd_opn i (\<lambda>b. b\<lparr>opn_abort_tskid := 0\<rparr>) s) of
        None \<Rightarrow> None
      | Some s1 \<Rightarrow>
          let b = OpnCBtbl s1 i; (closefn, opt1, s2) = close_section i opt s1;
              (e, s3) = (if closefn \<noteq> 0
                 then call_driver drv (CLOSEFN closefn (DEVID (opn_devcb b) (opn_unitno b)) opt1 (ddev_exinf (dev_of i s1))) s2
                 else (E_OK, s2))
          in Some (Ret e, close_free i s3))"

definition knl_close_device :: "'a drivers \<Rightarrow> nat \<Rightarrow> UW \<Rightarrow> 'a devstate_scheme \<Rightarrow> (sysret \<times> 'a devstate_scheme) option" where
  "knl_close_device drv i opt s =
     (let s1 = abort_begin drv i s; waitfn = ddev_waitfn (dev_of i s); exinf' = ddev_exinf (dev_of i s)
      in if opn_abort_cnt (OpnCBtbl s1 i) > 0 then
           (case tk_wai_sem (opn_abort_semid (OpnCBtbl s1 i)) 1 TMO_FEVR s1 of
              (Blocked, s2) \<Rightarrow> Some (Blocked, s2)
            | (Ret _, s2) \<Rightarrow> close_rest drv waitfn exinf' i opt s2)
         else close_rest drv waitfn exinf' i opt s1)"

definition tk_cls_dev :: "'a drivers \<Rightarrow> ID \<Rightarrow> UW \<Rightarrow> 'a devstate_scheme \<Rightarrow> (sysret \<times> 'a devstate_scheme) option" where
  "tk_cls_dev drv dd opt s =
     (let ercd = knl_check_devdesc dd 0 s; i = OPNCB dd
      in if ercd < E_OK then Some (Ret ercd, s)
         else knl_close_device drv i opt (upd_opn i (\<lambda>b. b\<lparr>opn_resid := 0\<rparr>) s))"

section \<open>Requests\<close>

definition newReqCB :: "nat \<Rightarrow> 'a devstate_scheme \<Rightarrow> nat option \<times> 'a devstate_scheme" where
  "newReqCB i s =
     (case FreeReqCB s of
        [] \<Rightarrow> (None, s)
      | r # fs \<Rightarrow> (Some r, upd_req r (\<lambda>b. b\<lparr>req_opncb := Some i\<rparr>)
           (upd_opn i (\<lambda>b. b\<lparr>opn_requestq := opn_requestq b @ [r]\<rparr>) (s\<lparr>FreeReqCB := fs\<rparr>))))"

definition abort_done :: "nat \<Rightarrow> 'a devstate_scheme \<Rightarrow> 'a devstate_scheme" where
  "abort_done i s =
     (if opn_abort_tskid (OpnCBtbl s i) > 0 then
        let s1 = upd_opn i (\<lambda>b. b\<lparr>opn_abort_cnt := opn_abort_cnt b - 1\<rparr>) s
        in if opn_abort_cnt (OpnCBtbl s1 i) = 0 then snd (tk_sig_sem (opn_abort_semid (OpnCBtbl s1 i)) 1 s1) else s1
      else s)"

definition request_begin :: "ID \<Rightarrow> int \<Rightarrow> addr \<Rightarrow> int \<Rightarrow> int \<Rightarrow> 'a devstate_scheme \<Rightarrow> (ER + nat) \<times> 'a devstate_scheme" where
  "request_begin dd start buf sz cmd s =
     (let m = (if start \<le> -0x10000 \<and> start \<ge> -0x7fffffff then 0 else if cmd = TDC_READ then TD_READ else TD_WRITE);
          ercd = knl_check_devdesc dd m s; i = OPNCB dd; b = OpnCBtbl s i
      in if ercd < E_OK then (Inl ercd, s)
         else
           case newReqCB i s of
             (None, s1) \<Rightarrow> (Inl E_LIMIT, s1)
           | (Some r, s1) \<Rightarrow>
               (Inr r, upd_req r (\<lambda>q. q\<lparr>req_tskid := tk_get_tid s1,
                  req_req := \<lparr>dr_next = None, dr_exinf = 0, dr_devid = DEVID (opn_devcb b) (opn_unitno b), dr_cmd = cmd,
                    dr_abort = False, dr_start = start, dr_size = sz, dr_buf = buf, dr_asize = 0, dr_error = 0\<rparr>\<rparr>) s1))"

definition request_end :: "nat \<Rightarrow> nat \<Rightarrow> ER \<Rightarrow> 'a devstate_scheme \<Rightarrow> ID \<times> 'a devstate_scheme" where
  "request_end i r ercd s =
     (let s1 = abort_done i (upd_req r (\<lambda>q. q\<lparr>req_tskid := 0\<rparr>) s)
      in if ercd < E_OK then (ercd, knl_delReqCB r s1) else (REQID r, s1))"

definition knl_request :: "'a drivers \<Rightarrow> ID \<Rightarrow> int \<Rightarrow> addr \<Rightarrow> int \<Rightarrow> TMO \<Rightarrow> int \<Rightarrow> 'a devstate_scheme \<Rightarrow> ID \<times> 'a devstate_scheme" where
  "knl_request drv dd start buf sz tmout cmd s =
     (case request_begin dd start buf sz cmd s of
        (Inl e, s1) \<Rightarrow> (e, s1)
      | (Inr r, s1) \<Rightarrow>
          let i = OPNCB dd; d = dev_of i s1;
              (e, s2) = call_driver drv (EXECFN (ddev_execfn d) r tmout (ddev_exinf d)) s1
          in request_end i r e s2)"

definition tk_rea_dev :: "'a drivers \<Rightarrow> ID \<Rightarrow> int \<Rightarrow> addr \<Rightarrow> int \<Rightarrow> TMO \<Rightarrow> 'a devstate_scheme \<Rightarrow> ID \<times> 'a devstate_scheme" where
  "tk_rea_dev drv dd start buf sz tmout s = knl_request drv dd start buf sz tmout TDC_READ s"

definition tk_wri_dev :: "'a drivers \<Rightarrow> ID \<Rightarrow> int \<Rightarrow> addr \<Rightarrow> int \<Rightarrow> TMO \<Rightarrow> 'a devstate_scheme \<Rightarrow> ID \<times> 'a devstate_scheme" where
  "tk_wri_dev drv dd start buf sz tmout s = knl_request drv dd start buf sz tmout TDC_WRITE s"

definition knl_check_reqid :: "ID \<Rightarrow> nat \<Rightarrow> 'a devstate_scheme \<Rightarrow> nat option" where
  "knl_check_reqid reqid i s =
     (if reqid < 1 \<or> reqid > int MAX_REQDEV then None
      else if req_opncb (ReqCBtbl s (REQCB reqid)) \<noteq> Some i then None else Some (REQCB reqid))"

text \<open>Linking the requests of a queue to the list a driver waits for.\<close>

fun link_requests :: "ID \<Rightarrow> nat list \<Rightarrow> 'a devstate_scheme \<Rightarrow> 'a devstate_scheme" where
  "link_requests tid [] s = s"
| "link_requests tid [r] s = upd_req r (\<lambda>q. q\<lparr>req_tskid := tid, req_req := (req_req q)\<lparr>dr_next := None\<rparr>\<rparr>) s"
| "link_requests tid (r # r' # rs) s =
     link_requests tid (r' # rs) (upd_req r (\<lambda>q. q\<lparr>req_tskid := tid, req_req := (req_req q)\<lparr>dr_next := Some r'\<rparr>\<rparr>) s)"

text \<open>The first section: the list to wait for, its length.\<close>

definition wai_begin :: "ID \<Rightarrow> ID \<Rightarrow> 'a devstate_scheme \<Rightarrow> (ER + nat \<times> int) \<times> 'a devstate_scheme" where
  "wai_begin dd reqid s =
     (let ercd = knl_check_devdesc dd 0 s; i = OPNCB dd; b = OpnCBtbl s i; tid = tk_get_tid s
      in if ercd < E_OK then (Inl ercd, s)
         else if reqid = 0 then
           if opn_nwaireq b > 0 \<or> opn_waitone b > 0 then (Inl E_OBJ, s)
           else
             (case opn_requestq b of
                [] \<Rightarrow> (Inl E_NOEXS, s)
              | r # rs \<Rightarrow>
                  let n = int (length (r # rs))
                  in (Inr (r, n), upd_opn i (\<lambda>b. b\<lparr>opn_waireqlst := r, opn_nwaireq := n\<rparr>) (link_requests tid (r # rs) s)))
         else
           (case knl_check_reqid reqid i s of
              None \<Rightarrow> (Inl E_ID, s)
            | Some r \<Rightarrow>
                if opn_nwaireq b > 0 \<or> req_tskid (ReqCBtbl s r) > 0 then (Inl E_OBJ, s)
                else (Inr (r, 1), upd_opn i (\<lambda>b. b\<lparr>opn_waitone := opn_waitone b + 1\<rparr>) (link_requests tid [r] s))))"

text \<open>
  The walk over the list of requests along their links: the identifier and the results of the one the driver named.
\<close>

partial_function (option) wai_results ::
    "nat option \<Rightarrow> int \<Rightarrow> (ID \<times> int \<times> ER) option \<Rightarrow> 'a devstate_scheme \<Rightarrow> ((ID \<times> int \<times> ER) option \<times> 'a devstate_scheme) option" where
  "wai_results dr reqno res s =
     (case dr of
        None \<Rightarrow> Some (res, s)
      | Some r \<Rightarrow>
          let q = req_req (ReqCBtbl s r);
              res1 = (if reqno = 0 then Some (REQID r, dr_asize q, dr_error q) else res)
          in wai_results (dr_next q) (reqno - 1) res1 (upd_req r (\<lambda>q. q\<lparr>req_tskid := 0\<rparr>) s))"

type_synonym 'a wai_call = "((ID \<times> (int \<times> ER) option) \<times> 'a devstate_scheme) option"

definition wai_end :: "nat \<Rightarrow> ID \<Rightarrow> nat \<Rightarrow> int \<Rightarrow> int \<Rightarrow> 'a devstate_scheme \<Rightarrow> 'a wai_call" where
  "wai_end i reqid r nreq reqno s =
     (let ercd = (if reqno \<ge> nreq then E_SYS else if reqno < E_OK then reqno else E_OK);
          s1 = (if reqid = 0 then upd_opn i (\<lambda>b. b\<lparr>opn_nwaireq := 0\<rparr>) s else upd_opn i (\<lambda>b. b\<lparr>opn_waitone := opn_waitone b - 1\<rparr>) s)
      in map_option (\<lambda>(res, s2).
           let out = map_option snd res; rid = (case res of Some (k, _) \<Rightarrow> k | None \<Rightarrow> reqid)
           in if ercd < E_OK then ((ercd, out), s2) else ((rid, out), knl_delReqCB (REQCB rid) s2))
           (wai_results (Some r) reqno None (abort_done i s1)))"

definition tk_wai_dev :: "'a drivers \<Rightarrow> ID \<Rightarrow> ID \<Rightarrow> TMO \<Rightarrow> 'a devstate_scheme \<Rightarrow> 'a wai_call" where
  "tk_wai_dev drv dd reqid tmout s =
     (case wai_begin dd reqid s of
        (Inl e, s1) \<Rightarrow> Some ((e, None), s1)
      | (Inr (r, nreq), s1) \<Rightarrow>
          let i = OPNCB dd; d = dev_of i s1;
              (reqno, s2) = call_driver drv (WAITFN (ddev_waitfn d) r nreq tmout (ddev_exinf d)) s1
          in wai_end i reqid r nreq reqno s2)"

definition sync_io :: "'a drivers \<Rightarrow> ID \<Rightarrow> ID \<times> 'a devstate_scheme \<Rightarrow> ((ER \<times> int option) \<times> 'a devstate_scheme) option" where
  "sync_io drv dd r =
     (case r of (e, s1) \<Rightarrow>
        if e < E_OK then Some ((e, None), s1)
        else
          map_option (\<lambda>((e2, out), s2).
            if e2 < E_OK then ((e2, map_option fst out), s2)
            else ((case out of Some (_, ioer) \<Rightarrow> ioer | None \<Rightarrow> E_OK, map_option fst out), s2))
            (tk_wai_dev drv dd e TMO_FEVR s1))"

definition tk_srea_dev :: "'a drivers \<Rightarrow> ID \<Rightarrow> int \<Rightarrow> addr \<Rightarrow> int \<Rightarrow> 'a devstate_scheme \<Rightarrow> ((ER \<times> int option) \<times> 'a devstate_scheme) option" where
  "tk_srea_dev drv dd start buf sz s = sync_io drv dd (tk_rea_dev drv dd start buf sz TMO_FEVR s)"

definition tk_swri_dev :: "'a drivers \<Rightarrow> ID \<Rightarrow> int \<Rightarrow> addr \<Rightarrow> int \<Rightarrow> 'a devstate_scheme \<Rightarrow> ((ER \<times> int option) \<times> 'a devstate_scheme) option" where
  "tk_swri_dev drv dd start buf sz s = sync_io drv dd (tk_wri_dev drv dd start buf sz TMO_FEVR s)"

section \<open>Suspension\<close>

text \<open>The result is that of the last driver called; no registration happens meanwhile.\<close>

definition sendevt_alldevice :: "'a drivers \<Rightarrow> int \<Rightarrow> bool \<Rightarrow> 'a devstate_scheme \<Rightarrow> ER \<times> 'a devstate_scheme" where
  "sendevt_alldevice drv evttyp disk s =
     fold (\<lambda>i (e, st). let d = dev_ddev (DevCBtbl st i)
             in if disk \<noteq> (ddev_devatr d AND TD_DEVTYPE = TDK_DISK) then (e, st)
                else call_driver drv (EVENTFN (ddev_eventfn d) evttyp 0 (ddev_exinf d)) st)
       (UsedDevCB s) (E_OK, s)"

definition do_suspend :: "'a drivers \<Rightarrow> 'a devstate_scheme \<Rightarrow> ER \<times> 'a devstate_scheme" where
  "do_suspend drv s =
     (let s1 = snd (sendevt_alldevice drv TDV_SUSPEND False s);
          s2 = snd (sendevt_alldevice drv TDV_SUSPEND True s1);
          s3 = snd (sendevt_alldevice drv TDV_RESUME True s2)
      in sendevt_alldevice drv TDV_RESUME False s3)"

definition tk_sus_dev :: "'a drivers \<Rightarrow> UW \<Rightarrow> 'a devstate_scheme \<Rightarrow> int \<times> 'a devstate_scheme" where
  "tk_sus_dev drv mode s =
     (let m = mode AND 0xf
      in if m = TD_SUSPEND then
           if DisSusCnt s > 0 \<and> mode AND TD_FORCE = 0 then (E_BUSY, s)
           else let (e, s1) = do_suspend drv s in (if e < E_OK then e else DisSusCnt s1, s1)
         else if m = TD_DISSUS then
           if DisSusCnt s \<ge> MAX_DISSUS then (E_QOVR, s)
           else (DisSusCnt s + 1, s\<lparr>DisSusCnt := DisSusCnt s + 1, res_dissus := res_dissus s + 1\<rparr>)
         else if m = TD_ENASUS then
           if res_dissus s > 0
           then (DisSusCnt s - 1, s\<lparr>res_dissus := res_dissus s - 1, DisSusCnt := DisSusCnt s - 1\<rparr>) else (DisSusCnt s, s)
         else if m = TD_CHECK then (DisSusCnt s, s)
         else (E_PAR, s))"

section \<open>Initialisation\<close>

definition initDevCB :: "'a devstate_scheme \<Rightarrow> ER \<times> 'a devstate_scheme" where
  "initDevCB s =
     (E_OK, fold (\<lambda>i st. upd_dev i (\<lambda>d. d\<lparr>dev_nm := []\<rparr>) (st\<lparr>FreeDevCB := FreeDevCB st @ [i]\<rparr>))
        [0..<MAX_REGDEV] (s\<lparr>UsedDevCB := [], FreeDevCB := []\<rparr>))"

definition knl_initDevIO :: "'a devstate_scheme \<Rightarrow> ER \<times> 'a devstate_scheme" where
  "knl_initDevIO s =
     (let s1 = fold (\<lambda>i st. upd_opn i (\<lambda>b. b\<lparr>opn_resid := 0\<rparr>) (st\<lparr>FreeOpnCB := FreeOpnCB st @ [i]\<rparr>))
            [0..<MAX_OPNDEV] (s\<lparr>FreeOpnCB := []\<rparr>)
      in (E_OK, fold (\<lambda>r st. upd_req r (\<lambda>b. b\<lparr>req_opncb := None\<rparr>) (st\<lparr>FreeReqCB := FreeReqCB st @ [r]\<rparr>))
            [0..<MAX_REQDEV] (s1\<lparr>FreeReqCB := []\<rparr>)))"

definition knl_devmgr_startup :: "'a devstate_scheme \<Rightarrow> 'a devstate_scheme" where
  "knl_devmgr_startup s = s\<lparr>res_openq := [], res_dissus := 0\<rparr>"

text \<open>The shipped configuration has no message buffer for events, so that its identifier is \<^verbatim>\<open>E_OK\<close>.\<close>

definition initIDev :: "'a devstate_scheme \<Rightarrow> ER \<times> 'a devstate_scheme" where
  "initIDev s = (E_OK, s\<lparr>DefaultIDev := E_OK\<rparr>)"

text \<open>The tables of the manager after \<^verbatim>\<open>knl_initialize_devmgr\<close>, whose lock is not part of this model.\<close>

definition knl_initialize_devmgr :: "'a devstate_scheme \<Rightarrow> ER \<times> 'a devstate_scheme" where
  "knl_initialize_devmgr s = (E_OK, knl_devmgr_startup (snd (initIDev (snd (knl_initDevIO (snd (initDevCB s)))))))"

partial_function (option) close_all :: "'a drivers \<Rightarrow> 'a devstate_scheme \<Rightarrow> (sysret \<times> 'a devstate_scheme) option" where
  "close_all drv s =
     (case res_openq s of
        [] \<Rightarrow> Some (Ret E_OK, s)
      | i # _ \<Rightarrow>
          (case knl_close_device drv i 0 (upd_opn i (\<lambda>b. b\<lparr>opn_resid := 0\<rparr>) s) of
             None \<Rightarrow> None
           | Some (Blocked, s1) \<Rightarrow> Some (Blocked, s1)
           | Some (Ret _, s1) \<Rightarrow> close_all drv s1))"

definition knl_devmgr_cleanup :: "'a drivers \<Rightarrow> 'a devstate_scheme \<Rightarrow> (sysret \<times> 'a devstate_scheme) option" where
  "knl_devmgr_cleanup drv s = close_all drv (s\<lparr>DisSusCnt := DisSusCnt s - res_dissus s, res_dissus := 0\<rparr>)"

definition delIDev :: "'a devstate_scheme \<Rightarrow> ER \<times> 'a devstate_scheme" where
  "delIDev s = (E_OK, s)"

definition knl_finishDevIO :: ER where
  "knl_finishDevIO = E_OK"

definition knl_finish_devmgr :: "'a drivers \<Rightarrow> 'a devstate_scheme \<Rightarrow> (sysret \<times> 'a devstate_scheme) option" where
  "knl_finish_devmgr drv s =
     (case knl_devmgr_cleanup drv s of
        None \<Rightarrow> None
      | Some (Blocked, s1) \<Rightarrow> Some (Blocked, s1)
      | Some (Ret _, s1) \<Rightarrow> Some (Ret knl_finishDevIO, snd (delIDev s1)))"

end
