(* ===== verification/Device_Properties.thy ===== *)
theory Device_Properties
  imports Device Sample_Objects
begin

text \<open>
  What device management guarantees: the names of units and their numbers correspond; whatever the calls, their
  interleaving and the drivers do, no device is open twice in modes that exclude each other.
\<close>

section \<open>Names\<close>

lemma digit_cases: "n mod 10 \<in> {0, 1, 2, 3, 4, 5, 6, 7, 8, 9}" for n :: nat
proof -
  have "k \<in> {0, 1, 2, 3, 4, 5, 6, 7, 8, 9}" if "k < 10" for k :: nat using that by (simp, presburger)
  then show ?thesis by simp
qed

lemma decimal_digits: "list_all is_digit (decimal n)"
proof (induction n rule: decimal.induct)
  case (1 n)
  have "is_digit (of_nat (48 + n mod 10))"
    using digit_cases[of n] by (auto simp: is_digit_def)
  then show ?case using 1 by (subst decimal.simps) simp
qed

lemma decimal_nonempty [simp]: "decimal n \<noteq> []"
  by (subst decimal.simps) simp

definition digits_value :: "dname \<Rightarrow> UW" where
  "digits_value ds = fold (\<lambda>c n. n * 10 + (ucast c - 48)) ds 0"

lemma digits_value_decimal: "digits_value (decimal n) = of_nat n"
proof (induction n rule: decimal.induct)
  case (1 n)
  have d: "ucast (48 + of_nat (n mod 10) :: 8 word) - 48 = (of_nat (n mod 10) :: UW)"
    using digit_cases[of n] by auto
  have "digits_value (if n < 10 then [] else decimal (n div 10)) = of_nat (n div 10)"
    using 1 by (auto simp: digits_value_def)
  then have "digits_value (decimal n) = of_nat (n div 10) * 10 + of_nat (n mod 10)"
    by (subst decimal.simps) (simp add: digits_value_def d)
  also have "\<dots> = of_nat (n div 10 * 10 + n mod 10)" by (simp only: of_nat_add of_nat_mult of_nat_numeral)
  finally show ?case by simp
qed

lemma phydevnm_logdevnm:
  assumes "list_all (\<lambda>c. \<not> is_digit c) pd" "0 \<le> u" "u \<le> 255"
  shows "knl_phydevnm (logdevnm pd u) = (pd, u)"
proof (cases "u = 0")
  case True
  then show ?thesis using assms(1) by (simp add: knl_phydevnm_def logdevnm_def unit_of_def list_all_iff takeWhile_eq_all_conv)
next
  case False
  let ?d = "decimal (nat (u - 1))"
  have h: "is_digit (hd ?d)" using decimal_digits[of "nat (u - 1)"] by (cases ?d) auto
  then have t: "takeWhile (\<lambda>c. \<not> is_digit c) ?d = []" "dropWhile (\<lambda>c. \<not> is_digit c) ?d = ?d" by (cases ?d; simp)+
  have "unit_of ?d = sint (of_nat (nat (u - 1)) + 1 :: UW)"
    using digits_value_decimal[of "nat (u - 1)"] by (simp add: unit_of_def digits_value_def)
  also have "of_nat (nat (u - 1)) + 1 = (word_of_int u :: UW)" using assms False by simp
  also have "uint (word_of_int u :: UW) = u" using assms by (simp add: uint_word_of_int)
  then have "sint (word_of_int u :: UW) = u" using sint_below[of "word_of_int u"] assms by simp
  finally show ?thesis using assms(1) t False assms(2)
    by (simp add: knl_phydevnm_def logdevnm_def takeWhile_append dropWhile_append list_all_iff)
qed

lemma phydevnm_no_digits: "list_all (\<lambda>c. \<not> is_digit c) (fst (knl_phydevnm nm))"
  by (auto simp: knl_phydevnm_def list_all_iff dest: set_takeWhileD)

section \<open>The tables\<close>

definition overlap :: "int \<Rightarrow> int \<Rightarrow> bool" where
  "overlap u v \<longleftrightarrow> u = 0 \<or> v = 0 \<or> u = v"

text \<open>The first open forbids the second.\<close>

definition excludes :: "UW \<Rightarrow> UW \<Rightarrow> bool" where
  "excludes m n \<longleftrightarrow> (m AND (TD_EXCL OR TD_REXCL) \<noteq> 0 \<and> n AND TD_READ \<noteq> 0) \<or> (m AND (TD_EXCL OR TD_WEXCL) \<noteq> 0 \<and> n AND TD_WRITE \<noteq> 0)"

definition opens_ok :: "(nat \<Rightarrow> OpnCB) \<Rightarrow> nat list \<Rightarrow> bool" where
  "opens_ok tb os \<longleftrightarrow> (\<forall>i\<in>set os. \<forall>j\<in>set os. i \<noteq> j \<and> overlap (opn_unitno (tb i)) (opn_unitno (tb j)) \<longrightarrow>
     \<not> excludes (opn_omode (tb i)) (opn_omode (tb j)))"

definition dev_inv :: "'a devstate_scheme \<Rightarrow> bool" where
  "dev_inv s \<longleftrightarrow> distinct (UsedDevCB s @ FreeDevCB s) \<and> distinct (FreeOpnCB s) \<and>
     (\<forall>d\<in>set (UsedDevCB s). \<forall>e\<in>set (UsedDevCB s). dev_nm (DevCBtbl s d) = dev_nm (DevCBtbl s e) \<longrightarrow> d = e) \<and>
     (\<forall>d\<in>set (UsedDevCB s). dev_nm (DevCBtbl s d) \<noteq> [] \<and> opens_ok (OpnCBtbl s) (dev_openq (DevCBtbl s d)) \<and>
        (\<forall>i\<in>set (dev_openq (DevCBtbl s d)). opn_devcb (OpnCBtbl s i) = d \<and> i \<notin> set (FreeOpnCB s)))"

lemma dev_invD:
  assumes "dev_inv s"
  shows "distinct (UsedDevCB s)" "distinct (FreeDevCB s)" "set (UsedDevCB s) \<inter> set (FreeDevCB s) = {}" "distinct (FreeOpnCB s)"
    "d \<in> set (UsedDevCB s) \<Longrightarrow> e \<in> set (UsedDevCB s) \<Longrightarrow> dev_nm (DevCBtbl s d) = dev_nm (DevCBtbl s e) \<Longrightarrow> d = e"
    "d \<in> set (UsedDevCB s) \<Longrightarrow> dev_nm (DevCBtbl s d) \<noteq> []"
    "d \<in> set (UsedDevCB s) \<Longrightarrow> opens_ok (OpnCBtbl s) (dev_openq (DevCBtbl s d))"
    "d \<in> set (UsedDevCB s) \<Longrightarrow> i \<in> set (dev_openq (DevCBtbl s d)) \<Longrightarrow> opn_devcb (OpnCBtbl s i) = d \<and> i \<notin> set (FreeOpnCB s)"
  using assms unfolding dev_inv_def by auto

lemma dev_invI:
  assumes "distinct (UsedDevCB s @ FreeDevCB s)" "distinct (FreeOpnCB s)"
    "\<And>d e. d \<in> set (UsedDevCB s) \<Longrightarrow> e \<in> set (UsedDevCB s) \<Longrightarrow> dev_nm (DevCBtbl s d) = dev_nm (DevCBtbl s e) \<Longrightarrow> d = e"
    "\<And>d. d \<in> set (UsedDevCB s) \<Longrightarrow> dev_nm (DevCBtbl s d) \<noteq> []"
    "\<And>d. d \<in> set (UsedDevCB s) \<Longrightarrow> opens_ok (OpnCBtbl s) (dev_openq (DevCBtbl s d))"
    "\<And>d i. d \<in> set (UsedDevCB s) \<Longrightarrow> i \<in> set (dev_openq (DevCBtbl s d)) \<Longrightarrow> opn_devcb (OpnCBtbl s i) = d \<and> i \<notin> set (FreeOpnCB s)"
  shows "dev_inv s"
  using assms unfolding dev_inv_def by blast

text \<open>The fields of the tables that matter for the invariant; drivers, requests and the kernel leave them alone.\<close>

definition opn_view :: "OpnCB \<Rightarrow> nat \<times> int \<times> UW" where
  "opn_view b = (opn_devcb b, opn_unitno b, opn_omode b)"

definition same_tables :: "'a devstate_scheme \<Rightarrow> 'a devstate_scheme \<Rightarrow> bool" where
  "same_tables s s' \<longleftrightarrow> DevCBtbl s' = DevCBtbl s \<and> UsedDevCB s' = UsedDevCB s \<and> FreeDevCB s' = FreeDevCB s \<and>
     FreeOpnCB s' = FreeOpnCB s \<and> (\<forall>i. opn_view (OpnCBtbl s' i) = opn_view (OpnCBtbl s i))"

lemma same_tables_inv:
  assumes "same_tables s s'" "dev_inv s" shows "dev_inv s'"
proof -
  have v: "opn_devcb (OpnCBtbl s' i) = opn_devcb (OpnCBtbl s i)" "opn_unitno (OpnCBtbl s' i) = opn_unitno (OpnCBtbl s i)"
    "opn_omode (OpnCBtbl s' i) = opn_omode (OpnCBtbl s i)" for i using assms(1) by (auto simp: same_tables_def opn_view_def)
  then have "opens_ok (OpnCBtbl s') os = opens_ok (OpnCBtbl s) os" for os by (simp add: opens_ok_def)
  then show ?thesis using assms v by (auto simp: dev_inv_def same_tables_def)
qed

lemma more_same_tables: "semstate.more s' = semstate.more s \<Longrightarrow> same_tables s s'"
  by (cases s; cases s') (simp add: same_tables_def)

lemma sem_calls_same_tables: "same_tables s (snd (tk_cre_sem pk s))" "same_tables s (snd (tk_del_sem k s))"
proof -
  have c: "semstate.more (snd (cre_sem pk s)) = semstate.more s"
    by (auto simp: cre_sem_def Let_def kdefs upd_semcb_def split: list.split)
  then show "same_tables s (snd (tk_cre_sem pk s))"
    by (intro more_same_tables) (auto simp: tk_cre_sem_def Let_def split: prod.splits)
  have "semstate.more (del_sem i s) = semstate.more s" for i
    using semst_frame(3)[of "knl_wait_delete (WSem i) s" s] by (simp add: del_sem_def Let_def upd_semcb_def)
  then show "same_tables s (snd (tk_del_sem k s))"
    by (intro more_same_tables) (simp add: tk_del_sem_def Let_def)
qed

section \<open>Opening and closing keep the invariant\<close>

lemma chkopenmode_ok:
  assumes "chkopenmode d u m s = E_OK" "j \<in> set (dev_openq (DevCBtbl s d))" "overlap u (opn_unitno (OpnCBtbl s j))"
  shows "\<not> excludes m (opn_omode (OpnCBtbl s j))" "\<not> excludes (opn_omode (OpnCBtbl s j)) m"
proof -
  have z: "opn_omode (OpnCBtbl s j) AND k = 0" if "count_open d u k s = 0" for k
    using that assms(2,3) by (auto simp: count_open_def overlap_def filter_empty_conv Let_def)
  note c = assms(1)[unfolded chkopenmode_def Let_def]
  show "\<not> excludes m (opn_omode (OpnCBtbl s j))" using c z[of TD_READ] z[of TD_WRITE]
    by (auto simp: excludes_def E_OK_def E_BUSY_def E_PAR_def split: if_splits)
  show "\<not> excludes (opn_omode (OpnCBtbl s j)) m" using c z[of "TD_EXCL OR TD_REXCL"] z[of "TD_EXCL OR TD_WEXCL"]
    by (auto simp: excludes_def E_OK_def E_BUSY_def E_PAR_def split: if_splits)
qed

lemma overlap_sym: "overlap u v = overlap v u"
  by (auto simp: overlap_def)

lemma newOpnCB_inv:
  assumes inv: "dev_inv s" and d: "d \<in> set (UsedDevCB s)" "chkopenmode d u m s = E_OK" and n: "newOpnCB d u m s = (Some i, s')"
  shows "dev_inv s'" "i \<in> set (dev_openq (DevCBtbl s' d))" "opn_devcb (OpnCBtbl s' i) = d"
proof -
  obtain fs where f: "FreeOpnCB s = i # fs" using n by (auto simp: newOpnCB_def Let_def split: list.splits)
  note D = dev_invD[OF inv]
  have nq: "i \<notin> set (dev_openq (DevCBtbl s e))" if "e \<in> set (UsedDevCB s)" for e using D(8)[OF that, of i] f by auto
  have t: "DevCBtbl s' = (DevCBtbl s)(d := (DevCBtbl s d)\<lparr>dev_openq := dev_openq (DevCBtbl s d) @ [i]\<rparr>)"
    "UsedDevCB s' = UsedDevCB s" "FreeDevCB s' = FreeDevCB s" "FreeOpnCB s' = fs"
    "OpnCBtbl s' j = OpnCBtbl s j \<or> j = i" "opn_devcb (OpnCBtbl s' i) = d" "opn_unitno (OpnCBtbl s' i) = u" "opn_omode (OpnCBtbl s' i) = m" for j
    using n f by (auto simp: newOpnCB_def Let_def dev_upds)
  have o: "OpnCBtbl s' j = OpnCBtbl s j" if "j \<in> set (dev_openq (DevCBtbl s e))" "e \<in> set (UsedDevCB s)" for e j
    using t(5)[of j] nq[OF that(2)] that(1) by auto
  have ok: "opens_ok (OpnCBtbl s') (dev_openq (DevCBtbl s e))" if e: "e \<in> set (UsedDevCB s)" for e
    using D(7)[OF e] o[OF _ e] by (simp add: opens_ok_def)
  have new: "opens_ok (OpnCBtbl s') (dev_openq (DevCBtbl s d) @ [i])"
    using ok[OF d(1)] chkopenmode_ok[OF d(2)] o[OF _ d(1)] t(7,8) nq[OF d(1)] unfolding opens_ok_def
    by (auto simp: overlap_sym)
  have q: "dev_openq (DevCBtbl s' e) = (if e = d then dev_openq (DevCBtbl s d) @ [i] else dev_openq (DevCBtbl s e))"
    "dev_nm (DevCBtbl s' e) = dev_nm (DevCBtbl s e)" for e by (simp_all add: t(1))
  show "dev_inv s'"
  proof (rule dev_invI, unfold t(2-4) q)
    show "distinct (UsedDevCB s @ FreeDevCB s)" using D(1-3) by simp
    show "distinct fs" using D(4) f by simp
    show "e = e'" if "e \<in> set (UsedDevCB s)" "e' \<in> set (UsedDevCB s)" "dev_nm (DevCBtbl s e) = dev_nm (DevCBtbl s e')" for e e'
      using D(5) that by blast
    show "dev_nm (DevCBtbl s e) \<noteq> []" if "e \<in> set (UsedDevCB s)" for e using D(6) that by blast
    show "opens_ok (OpnCBtbl s') (if e = d then dev_openq (DevCBtbl s d) @ [i] else dev_openq (DevCBtbl s e))"
      if "e \<in> set (UsedDevCB s)" for e using ok[OF that] new by simp
    show "opn_devcb (OpnCBtbl s' j) = e \<and> j \<notin> set fs"
      if e: "e \<in> set (UsedDevCB s)" "j \<in> set (if e = d then dev_openq (DevCBtbl s d) @ [i] else dev_openq (DevCBtbl s e))" for e j
    proof (cases "j = i")
      case True
      then show ?thesis using t(6) nq[OF e(1)] e(2) D(4) f by (auto split: if_splits)
    next
      case False
      then have "j \<in> set (dev_openq (DevCBtbl s e))" using e(2) by (auto split: if_splits)
      then show ?thesis using o[OF _ e(1)] D(8)[OF e(1)] f by auto
    qed
  qed
  show "i \<in> set (dev_openq (DevCBtbl s' d))" "opn_devcb (OpnCBtbl s' i) = d" using t by simp_all
qed

lemma delOpnCB_inv:
  assumes "dev_inv s" "i \<notin> set (FreeOpnCB s)" shows "dev_inv (knl_delOpnCB i fr s)"
proof -
  let ?s = "knl_delOpnCB i fr s" and ?d = "opn_devcb (OpnCBtbl s i)"
  note D = dev_invD[OF assms(1)]
  have t: "UsedDevCB ?s = UsedDevCB s" "FreeDevCB ?s = FreeDevCB s" "FreeOpnCB ?s = FreeOpnCB s @ (if fr then [i] else [])"
    "dev_nm (DevCBtbl ?s e) = dev_nm (DevCBtbl s e)" "opn_view (OpnCBtbl ?s j) = opn_view (OpnCBtbl s j)"
    "dev_openq (DevCBtbl ?s e) = (if e = ?d then removeAll i (dev_openq (DevCBtbl s e)) else dev_openq (DevCBtbl s e))" for e j
    by (auto simp: knl_delOpnCB_def Let_def dev_upds opn_view_def)
  have v: "opn_devcb (OpnCBtbl ?s j) = opn_devcb (OpnCBtbl s j)" "opn_unitno (OpnCBtbl ?s j) = opn_unitno (OpnCBtbl s j)"
    "opn_omode (OpnCBtbl ?s j) = opn_omode (OpnCBtbl s j)" for j using t(5)[of j] by (auto simp: opn_view_def)
  have ni: "i \<notin> set (dev_openq (DevCBtbl ?s e))" if "e \<in> set (UsedDevCB s)" for e using D(8)[OF that, of i] by (auto simp: t(6))
  have "opens_ok (OpnCBtbl ?s) (dev_openq (DevCBtbl ?s e))" if "e \<in> set (UsedDevCB s)" for e
    using D(7)[OF that] by (auto simp: opens_ok_def v t(6))
  moreover have "opn_devcb (OpnCBtbl ?s j) = e \<and> j \<notin> set (FreeOpnCB ?s)" if "e \<in> set (UsedDevCB s)" "j \<in> set (dev_openq (DevCBtbl ?s e))" for e j
    using D(8)[OF that(1), of j] that(2) ni[OF that(1)] by (auto simp: v t(3,6) split: if_splits)
  ultimately show ?thesis using D(1-6) assms(2) by (intro dev_invI) (auto simp: t(1-4))
qed

lemma find_unit_used: "find_unit nm s = Some (d, u) \<Longrightarrow> d \<in> set (UsedDevCB s)"
  by (auto simp: find_unit_def knl_searchDevCB_def find_Some_iff split: option.splits if_splits prod.splits)

lemma opn_begin_inv:
  assumes "dev_inv s" shows "dev_inv (snd (opn_begin nm m s))"
proof (cases "find_unit nm s")
  case None
  then show ?thesis using assms by (simp add: opn_begin_def)
next
  case (Some p)
  obtain d u where p: "p = (d, u)" by force
  note d = find_unit_used[OF Some[unfolded p]]
  show ?thesis
  proof (cases "chkopenmode d u m s < E_OK")
    case True
    then show ?thesis using assms by (simp add: opn_begin_def Some p Let_def)
  next
    case False
    then have c: "chkopenmode d u m s = E_OK"
      by (auto simp: chkopenmode_def Let_def E_OK_def E_BUSY_def E_PAR_def split: if_splits)
    obtain r s1 where n: "newOpnCB d u m s = (r, s1)" by force
    show ?thesis
    proof (cases r)
      case None
      then show ?thesis using assms n False by (auto simp: opn_begin_def Some p Let_def newOpnCB_def split: list.splits)
    next
      case (Some i)
      note N = newOpnCB_inv[OF assms d c n[unfolded Some]]
      let ?c = "tk_cre_sem \<lparr>csem_exinf = 0, csem_sematr = TA_TFIFO, csem_isemcnt = 0, csem_maxsem = 1\<rparr> s1"
      have st: "same_tables s1 (snd ?c)" by (rule sem_calls_same_tables(1))
      have u: "UsedDevCB s1 = UsedDevCB s" using n Some by (auto simp: newOpnCB_def Let_def dev_upds split: list.splits)
      have i: "dev_inv (snd ?c)" by (rule same_tables_inv[OF st N(1)])
      have "i \<notin> set (FreeOpnCB (snd ?c))" using dev_invD(8)[OF N(1), of d i] N(2) d u st by (simp add: same_tables_def)
      then have x: "dev_inv (knl_delOpnCB i True (snd ?c))" by (rule delOpnCB_inv[OF i])
      have y: "dev_inv (upd_opn i (\<lambda>b. b\<lparr>opn_abort_semid := k\<rparr>) (snd ?c))" for k
        by (rule same_tables_inv[OF _ i]) (simp add: same_tables_def dev_upds opn_view_def)
      show ?thesis using x y i False n Some
        by (simp add: opn_begin_def \<open>find_unit nm s = Some p\<close> p Let_def split_beta split: sysret.split)
    qed
  qed
qed

lemma new_device_inv:
  assumes "dev_inv s" "knl_searchDevCB nm s = None" "nm \<noteq> []" "length nm \<le> L_DEVNM" "newDevCB nm s = (Some i, s')"
  shows "dev_inv s'"
proof -
  note D = dev_invD[OF assms(1)]
  obtain fs where f: "FreeDevCB s = i # fs" using assms(5) by (auto simp: newDevCB_def split: list.splits)
  have t: "UsedDevCB s' = UsedDevCB s @ [i]" "FreeDevCB s' = fs" "FreeOpnCB s' = FreeOpnCB s" "OpnCBtbl s' = OpnCBtbl s"
    "dev_nm (DevCBtbl s' e) = (if e = i then nm else dev_nm (DevCBtbl s e))"
    "dev_openq (DevCBtbl s' e) = (if e = i then [] else dev_openq (DevCBtbl s e))" for e
    using assms(4,5) f by (auto simp: newDevCB_def dev_upds)
  have ni: "i \<notin> set (UsedDevCB s)" using D(3) f by auto
  have nn: "dev_nm (DevCBtbl s e) \<noteq> nm" if "e \<in> set (UsedDevCB s)" for e
    using assms(2) that by (auto simp: knl_searchDevCB_def find_None_iff)
  show ?thesis
  proof (rule dev_invI, unfold t)
    show "distinct ((UsedDevCB s @ [i]) @ fs)" using D(1-3) f by auto
    show "distinct (FreeOpnCB s)" by (rule D(4))
    show "d = e" if "d \<in> set (UsedDevCB s @ [i])" "e \<in> set (UsedDevCB s @ [i])"
      "(if d = i then nm else dev_nm (DevCBtbl s d)) = (if e = i then nm else dev_nm (DevCBtbl s e))" for d e
      using that nn D(5) by (auto split: if_splits)
    show "(if d = i then nm else dev_nm (DevCBtbl s d)) \<noteq> []" if "d \<in> set (UsedDevCB s @ [i])" for d
      using that assms(3) D(6) by auto
    show "opens_ok (OpnCBtbl s) (if d = i then [] else dev_openq (DevCBtbl s d))" if "d \<in> set (UsedDevCB s @ [i])" for d
      using that D(7) by (auto simp: opens_ok_def)
    show "opn_devcb (OpnCBtbl s j) = d \<and> j \<notin> set (FreeOpnCB s)"
      if "d \<in> set (UsedDevCB s @ [i])" "j \<in> set (if d = i then [] else dev_openq (DevCBtbl s d))" for d j
      using that D(8) by (auto split: if_splits)
  qed
qed

lemma set_ddev_inv:
  assumes "dev_inv s" shows "dev_inv (upd_dev i (\<lambda>b. b\<lparr>dev_ddev := d\<rparr>) s)"
proof -
  let ?s = "upd_dev i (\<lambda>b. b\<lparr>dev_ddev := d\<rparr>) s"
  have t: "dev_nm (DevCBtbl ?s e) = dev_nm (DevCBtbl s e)" "dev_openq (DevCBtbl ?s e) = dev_openq (DevCBtbl s e)"
    "UsedDevCB ?s = UsedDevCB s" "FreeDevCB ?s = FreeDevCB s" "FreeOpnCB ?s = FreeOpnCB s" "OpnCBtbl ?s = OpnCBtbl s" for e
    by (simp_all add: dev_upds)
  show ?thesis using assms unfolding dev_inv_def t .
qed

lemma delDevCB_inv:
  assumes "dev_inv s" "i \<in> set (UsedDevCB s)" shows "dev_inv (delDevCB i s)"
proof -
  let ?s = "delDevCB i s"
  note D = dev_invD[OF assms(1)]
  have t: "UsedDevCB ?s = removeAll i (UsedDevCB s)" "FreeDevCB ?s = FreeDevCB s @ [i]" "FreeOpnCB ?s = FreeOpnCB s" "OpnCBtbl ?s = OpnCBtbl s"
    "e \<noteq> i \<Longrightarrow> DevCBtbl ?s e = DevCBtbl s e" for e by (auto simp: delDevCB_def dev_upds)
  have u: "e \<noteq> i" "e \<in> set (UsedDevCB s)" if "e \<in> set (removeAll i (UsedDevCB s))" for e using that by simp_all
  show ?thesis
  proof (rule dev_invI, unfold t(1-4))
    show "distinct (removeAll i (UsedDevCB s) @ FreeDevCB s @ [i])" using D(1-3) assms(2) by (auto simp: distinct_removeAll)
    show "distinct (FreeOpnCB s)" by (rule D(4))
    show "d = e" if "d \<in> set (removeAll i (UsedDevCB s))" "e \<in> set (removeAll i (UsedDevCB s))"
      "dev_nm (DevCBtbl ?s d) = dev_nm (DevCBtbl ?s e)" for d e
      using D(5)[of d e] that(3) by (simp add: t(5) u[OF that(1)] u[OF that(2)])
    show "dev_nm (DevCBtbl ?s d) \<noteq> []" if "d \<in> set (removeAll i (UsedDevCB s))" for d
      using D(6) by (simp add: t(5) u[OF that])
    show "opens_ok (OpnCBtbl s) (dev_openq (DevCBtbl ?s d))" if "d \<in> set (removeAll i (UsedDevCB s))" for d
      using D(7) by (simp add: t(5) u[OF that])
    show "opn_devcb (OpnCBtbl s j) = d \<and> j \<notin> set (FreeOpnCB s)"
      if "d \<in> set (removeAll i (UsedDevCB s))" "j \<in> set (dev_openq (DevCBtbl ?s d))" for d j
      using D(8)[of d j] that(2) by (simp add: t(5) u[OF that(1)])
  qed
qed

lemma tk_def_dev_inv:
  assumes "dev_inv s" shows "dev_inv (snd (tk_def_dev nm pk s))"
proof (cases pk)
  case None
  have "i \<in> set (UsedDevCB s)" if "knl_searchDevCB nm s = Some i" for i using that by (auto simp: knl_searchDevCB_def find_Some_iff)
  then show ?thesis using assms delDevCB_inv[OF assms] by (simp add: tk_def_dev_def None split: option.split)
next
  case (Some d)
  show ?thesis
  proof (cases "knl_searchDevCB nm s")
    case found: (Some i)
    then show ?thesis using assms set_ddev_inv[OF assms] by (simp add: tk_def_dev_def Some)
  next
    case new: None
    obtain r s1 where n: "newDevCB nm s = (r, s1)" by force
    have "dev_inv s1" if "nm \<noteq> []" "length nm \<le> L_DEVNM"
      using n assms new_device_inv[OF assms new that] by (cases r) (auto simp: newDevCB_def split: list.splits)
    then show ?thesis using assms set_ddev_inv[of s1] n by (simp add: tk_def_dev_def Some new split: option.split)
  qed
qed

section \<open>Reachable states\<close>

text \<open>
  The sections of the calls, in any order and of any tasks; what drivers, requests and the rest of the kernel do between
  them leaves the tables alone.
\<close>

definition is_open :: "nat \<Rightarrow> 'a devstate_scheme \<Rightarrow> bool" where
  "is_open i s \<longleftrightarrow> (\<exists>d\<in>set (UsedDevCB s). i \<in> set (dev_openq (DevCBtbl s d)))"

inductive dev_step :: "'a devstate_scheme \<Rightarrow> 'a devstate_scheme \<Rightarrow> bool" where
  register: "dev_step s (snd (tk_def_dev nm pk s))"
| open_begins: "dev_step s (snd (opn_begin nm m s))"
| open_ends: "dev_step s (opn_finish i s)"
| open_fails: "is_open i s \<Longrightarrow> dev_step s (opn_fail i s)"
| closes: "is_open i s \<Longrightarrow> dev_step s (snd (snd (close_section i opt s)))"
| closed: "\<not> is_open i s \<Longrightarrow> i \<notin> set (FreeOpnCB s) \<Longrightarrow> dev_step s (close_free i s)"
| other: "same_tables s s' \<Longrightarrow> dev_step s s'"

inductive dev_reachable :: "'a devstate_scheme \<Rightarrow> bool" where
  init: "dev_reachable (snd (knl_initialize_devmgr s))"
| step: "dev_reachable s \<Longrightarrow> dev_step s s' \<Longrightarrow> dev_reachable s'"

lemma is_open_not_free: "dev_inv s \<Longrightarrow> is_open i s \<Longrightarrow> i \<notin> set (FreeOpnCB s)"
  using dev_invD(8) unfolding is_open_def by blast

lemma delete_open_inv:
  assumes "dev_inv s" "is_open i s" shows "dev_inv (knl_delOpnCB i fr (snd (tk_del_sem k s)))"
proof (rule delOpnCB_inv)
  note t = sem_calls_same_tables(2)[of s k]
  show "dev_inv (snd (tk_del_sem k s))" by (rule same_tables_inv[OF t assms(1)])
  show "i \<notin> set (FreeOpnCB (snd (tk_del_sem k s)))" using is_open_not_free[OF assms] t by (simp add: same_tables_def)
qed

lemma dev_step_inv: "dev_step s s' \<Longrightarrow> dev_inv s \<Longrightarrow> dev_inv s'"
proof (induction rule: dev_step.induct)
  case (closed i s)
  then show ?case unfolding dev_inv_def is_open_def close_free_def by auto
next
  case (open_ends s i)
  then show ?case by (intro same_tables_inv[OF _ open_ends]) (simp add: same_tables_def opn_finish_def dev_upds opn_view_def)
qed (auto intro: tk_def_dev_inv opn_begin_inv same_tables_inv simp: opn_fail_def close_section_def Let_def delete_open_inv)

lemma init_tables:
  "UsedDevCB (snd (knl_initialize_devmgr s)) = []" "FreeDevCB (snd (knl_initialize_devmgr s)) = [0..<MAX_REGDEV]"
  "FreeOpnCB (snd (knl_initialize_devmgr s)) = [0..<MAX_OPNDEV]" "free_semcb (snd (knl_initialize_devmgr s)) = free_semcb s"
proof -
  have 1: "FreeDevCB (fold (\<lambda>i st. upd_dev i f (st\<lparr>FreeDevCB := FreeDevCB st @ [i]\<rparr>)) is s) = FreeDevCB s @ is"
    "UsedDevCB (fold (\<lambda>i st. upd_dev i f (st\<lparr>FreeDevCB := FreeDevCB st @ [i]\<rparr>)) is s) = UsedDevCB s"
    "free_semcb (fold (\<lambda>i st. upd_dev i f (st\<lparr>FreeDevCB := FreeDevCB st @ [i]\<rparr>)) is s) = free_semcb s" for f "is" and s :: "'a devstate_scheme"
    by (induction "is" arbitrary: s) (simp_all add: dev_upds)
  have 2: "FreeOpnCB (fold (\<lambda>i st. upd_opn i f (st\<lparr>FreeOpnCB := FreeOpnCB st @ [i]\<rparr>)) is s) = FreeOpnCB s @ is"
    "UsedDevCB (fold (\<lambda>i st. upd_opn i f (st\<lparr>FreeOpnCB := FreeOpnCB st @ [i]\<rparr>)) is s) = UsedDevCB s"
    "free_semcb (fold (\<lambda>i st. upd_opn i f (st\<lparr>FreeOpnCB := FreeOpnCB st @ [i]\<rparr>)) is s) = free_semcb s"
    "FreeDevCB (fold (\<lambda>i st. upd_opn i f (st\<lparr>FreeOpnCB := FreeOpnCB st @ [i]\<rparr>)) is s) = FreeDevCB s" for f "is" and s :: "'a devstate_scheme"
    by (induction "is" arbitrary: s) (simp_all add: dev_upds)
  have 3: "FreeOpnCB (fold (\<lambda>i st. upd_req i f (st\<lparr>FreeReqCB := FreeReqCB st @ [i]\<rparr>)) is s) = FreeOpnCB s"
    "UsedDevCB (fold (\<lambda>i st. upd_req i f (st\<lparr>FreeReqCB := FreeReqCB st @ [i]\<rparr>)) is s) = UsedDevCB s"
    "free_semcb (fold (\<lambda>i st. upd_req i f (st\<lparr>FreeReqCB := FreeReqCB st @ [i]\<rparr>)) is s) = free_semcb s"
    "FreeDevCB (fold (\<lambda>i st. upd_req i f (st\<lparr>FreeReqCB := FreeReqCB st @ [i]\<rparr>)) is s) = FreeDevCB s" for f "is" and s :: "'a devstate_scheme"
    by (induction "is" arbitrary: s) (simp_all add: dev_upds)
  show "UsedDevCB (snd (knl_initialize_devmgr s)) = []" "FreeDevCB (snd (knl_initialize_devmgr s)) = [0..<MAX_REGDEV]"
    "FreeOpnCB (snd (knl_initialize_devmgr s)) = [0..<MAX_OPNDEV]" "free_semcb (snd (knl_initialize_devmgr s)) = free_semcb s"
    by (simp_all add: knl_initialize_devmgr_def knl_devmgr_startup_def initIDev_def knl_initDevIO_def initDevCB_def Let_def 1 2 3)
qed

lemma init_dev_inv: "dev_inv (snd (knl_initialize_devmgr s))"
  by (rule dev_invI) (simp_all add: init_tables)

lemma dev_reachable_inv: "dev_reachable s \<Longrightarrow> dev_inv s"
  by (induction rule: dev_reachable.induct) (auto intro: init_dev_inv dev_step_inv)

section \<open>The calls are sequences of these steps\<close>

text \<open>What the calls rely on: a driver does not change the manager's tables other than through its calls.\<close>

definition drivers_ok :: "'a drivers \<Rightarrow> bool" where
  "drivers_ok drv \<longleftrightarrow> (\<forall>c s. same_tables s (snd (drv c s)))"

lemma same_tables_refl: "same_tables s s"
  by (simp add: same_tables_def)

lemma same_tables_trans: "same_tables s t \<Longrightarrow> same_tables t u \<Longrightarrow> same_tables s u"
  by (simp add: same_tables_def)

lemma same_tables_open: "same_tables s t \<Longrightarrow> is_open i t = is_open i s"
  by (simp add: same_tables_def is_open_def)

lemma driver_mode_same_tables: "same_tables s (enter_driver s)" "same_tables s (leave_driver s)"
  by (rule more_same_tables, rule semst_frame, simp add: enter_driver_def leave_driver_def)+

lemma call_driver_same_tables:
  assumes "drivers_ok drv" shows "same_tables s (snd (call_driver drv c s))"
proof -
  have "same_tables (enter_driver s) (snd (drv c (enter_driver s)))" using assms by (simp add: drivers_ok_def)
  then have "same_tables s (leave_driver (snd (drv c (enter_driver s))))"
    using driver_mode_same_tables same_tables_trans by blast
  then show ?thesis by (simp add: call_driver_def split_beta)
qed

lemma upd_req_same_tables: "same_tables s (upd_req r f s)"
  by (simp add: same_tables_def dev_upds)

lemma upd_opn_same_tables: "(\<And>b. opn_view (f b) = opn_view b) \<Longrightarrow> same_tables s (upd_opn i f s)"
  by (simp add: same_tables_def dev_upds)

lemma delReqCB_same_tables: "same_tables s (knl_delReqCB r s)"
  by (simp add: knl_delReqCB_def Let_def same_tables_def dev_upds opn_view_def split: option.split)

lemma abort_one_same_tables: "drivers_ok drv \<Longrightarrow> same_tables s (abort_one drv i r n s)"
  unfolding abort_one_def
  by (rule same_tables_trans[OF call_driver_same_tables upd_opn_same_tables]) (simp_all add: opn_view_def)

lemma abort_begin_same_tables:
  assumes "drivers_ok drv" shows "same_tables s (abort_begin drv i s)"
proof -
  let ?s = "upd_opn i (\<lambda>b. b\<lparr>opn_abort_tskid := tk_get_tid s, opn_abort_cnt := 0\<rparr>) s"
  have 1: "same_tables s ?s" by (rule upd_opn_same_tables) (simp add: opn_view_def)
  have "same_tables t (fold (\<lambda>r st. if req_tskid (ReqCBtbl st r) = 0 then st else abort_one drv i r 1 (set_abort r st)) rs t)" for rs t
  proof (induction rs arbitrary: t)
    case (Cons r rs)
    have "same_tables t (abort_one drv i r 1 (set_abort r t))"
      using abort_one_same_tables[OF assms] upd_req_same_tables same_tables_trans unfolding set_abort_def by blast
    then show ?case using Cons.IH same_tables_trans by (auto simp del: fold_simps simp: fold_Cons)
  qed (simp add: same_tables_refl)
  then show ?thesis unfolding abort_begin_def Let_def
    using same_tables_trans[OF 1] abort_one_same_tables[OF assms] by auto
qed

lemma abort_remaining_same_tables:
  assumes "drivers_ok drv" "abort_remaining drv w x i s = Some s'" shows "same_tables s s'"
proof -
  have "drivers_ok drv \<longrightarrow> same_tables s s'"
  proof (rule abort_remaining.raw_induct[where P = "\<lambda>drv w x i s s'. drivers_ok drv \<longrightarrow> same_tables s s'", OF _ assms(2)])
    fix f :: "'a drivers \<Rightarrow> addr \<Rightarrow> addr \<Rightarrow> nat \<Rightarrow> 'a devstate_scheme \<Rightarrow> 'a devstate_scheme option" and drv w x i s s'
    assume IH: "\<And>drv w x i s s'. f drv w x i s = Some s' \<Longrightarrow> drivers_ok drv \<longrightarrow> same_tables s s'"
      and r: "(case opn_requestq (OpnCBtbl s i) of [] \<Rightarrow> Some s
        | r # _ \<Rightarrow> let s2 = snd (call_driver drv (WAITFN w r 1 TMO_FEVR x) (set_abort r s)) in f drv w x i (knl_delReqCB r s2)) = Some s'"
    show "drivers_ok drv \<longrightarrow> same_tables s s'"
    proof (cases "opn_requestq (OpnCBtbl s i)")
      case Nil
      then show ?thesis using r by (simp add: same_tables_refl)
    next
      case (Cons r rs)
      have "same_tables s (knl_delReqCB r (snd (call_driver drv c (set_abort r s))))" if "drivers_ok drv" for c
        using same_tables_trans[OF same_tables_trans[OF upd_req_same_tables call_driver_same_tables[OF that]] delReqCB_same_tables]
        by (simp add: set_abort_def)
      then show ?thesis using r Cons IH same_tables_trans by (fastforce simp: Let_def)
    qed
  qed
  then show ?thesis using assms(1) by simp
qed

lemma wai_sem_same_tables: "same_tables s (snd (tk_wai_sem k n tm s))"
proof (rule more_same_tables)
  have w: "kstate.more (make_wait_state c t) = kstate.more t" for c and t :: "'a devstate_scheme"
    by (simp add: make_wait_state_def split: TSTAT.split)
  have m: "semstate.more (END_CRITICAL_SECTION t) = semstate.more t" "semstate.more (prepare_wait c w f t) = semstate.more t"
    "semstate.more (knl_gcb_make_wait q j a c tm t) = semstate.more t" for t :: "'a devstate_scheme" and c w f q j a
    by (rule semst_frame, simp add: knl_gcb_make_wait_def Let_def knl_make_wait_def w que_insert_def knl_queue_insert_tpri_def)+
  show "semstate.more (snd (tk_wai_sem k n tm s)) = semstate.more s"
    by (simp add: tk_wai_sem_def Let_def m)
qed

lemma opn_begin_opens:
  assumes "opn_begin nm m s = (OpnGo i f, s')" shows "is_open i s'"
proof -
  obtain d u where f: "find_unit nm s = Some (d, u)" using assms by (cases "find_unit nm s") (auto simp: opn_begin_def)
  obtain r s1 where n: "newOpnCB d u m s = (r, s1)" by force
  then obtain j where r: "r = Some j" using assms f by (cases r) (auto simp: opn_begin_def Let_def split: if_splits)
  let ?c = "tk_cre_sem \<lparr>csem_exinf = 0, csem_sematr = TA_TFIFO, csem_isemcnt = 0, csem_maxsem = 1\<rparr> s1"
  have s': "i = j" "same_tables (snd ?c) s'"
    using assms f n r by (auto simp: opn_begin_def Let_def split_beta same_tables_def opn_view_def dev_upds split: if_splits sysret.splits)
  have "is_open j s1" using n r find_unit_used[OF f]
    by (auto simp: newOpnCB_def Let_def is_open_def dev_upds split: list.splits)
  then have "is_open j (snd ?c)" by (rule iffD2[OF same_tables_open[OF sem_calls_same_tables(1)]])
  then show ?thesis using s' same_tables_open[OF s'(2)] by simp
qed

lemma tk_opn_dev_steps:
  assumes "drivers_ok drv" shows "dev_step\<^sup>*\<^sup>* s (snd (tk_opn_dev drv nm m s))"
proof -
  obtain r s1 where b: "opn_begin nm m s = (r, s1)" by force
  have 1: "dev_step s s1" using dev_step.open_begins[of s nm m] b by simp
  show ?thesis
  proof (cases r)
    case (OpnErr e)
    then show ?thesis using 1 b by (simp add: tk_opn_dev_def)
  next
    case (OpnGo i f)
    let ?d = "if f \<noteq> 0 then call_driver drv (OPENFN f (DEVID (opn_devcb (OpnCBtbl s1 i)) (opn_unitno (OpnCBtbl s1 i))) m
        (ddev_exinf (dev_ddev (DevCBtbl s1 (opn_devcb (OpnCBtbl s1 i)))))) s1 else (E_OK, s1)"
    have t: "same_tables s1 (snd ?d)" using call_driver_same_tables[OF assms] by (simp add: same_tables_refl)
    have "is_open i (snd ?d)" using opn_begin_opens b OpnGo same_tables_open[OF t] by blast
    then have "dev_step (snd ?d) (opn_fail i (snd ?d))" by (rule dev_step.open_fails)
    then have "dev_step (snd ?d) (snd (tk_opn_dev drv nm m s))"
      using b OpnGo dev_step.open_ends[of "snd ?d" i] by (simp add: tk_opn_dev_def Let_def split_beta)
    then show ?thesis using 1 dev_step.other[OF t] by (meson converse_rtranclp_into_rtranclp r_into_rtranclp)
  qed
qed

lemma close_section_closes:
  assumes "dev_inv s" "is_open i s" "snd (snd (close_section i opt s)) = s'"
  shows "\<not> is_open i s'" "i \<notin> set (FreeOpnCB s')"
proof -
  let ?t = "snd (tk_del_sem (opn_abort_semid (OpnCBtbl s i)) s)"
  note t = sem_calls_same_tables(2)[of s "opn_abort_semid (OpnCBtbl s i)"]
  have e: "s' = knl_delOpnCB i False ?t" using assms(3) by (auto simp: close_section_def Let_def split: if_splits)
  have "dev_inv ?t" by (rule same_tables_inv[OF t assms(1)])
  then show "\<not> is_open i s'" unfolding is_open_def e
    using dev_invD(8)[of ?t _ i] by (auto simp: knl_delOpnCB_def Let_def dev_upds)
  show "i \<notin> set (FreeOpnCB s')" using is_open_not_free[OF assms(1,2)] t
    by (simp add: e knl_delOpnCB_def Let_def dev_upds same_tables_def)
qed

lemma close_rest_steps:
  assumes "drivers_ok drv" "dev_inv s" "is_open i s" "close_rest drv w x i opt s = Some (r, s')" shows "dev_step\<^sup>*\<^sup>* s s'"
proof -
  let ?s = "upd_opn i (\<lambda>b. b\<lparr>opn_abort_tskid := 0\<rparr>) s"
  obtain s1 where a: "abort_remaining drv w x i ?s = Some s1" using assms(4) by (auto simp: close_rest_def split: option.splits)
  have t: "same_tables s s1"
    by (rule same_tables_trans[OF upd_opn_same_tables abort_remaining_same_tables[OF assms(1) a]]) (simp add: opn_view_def)
  have o: "dev_inv s1" "is_open i s1" using same_tables_inv[OF t assms(2)] same_tables_open[OF t] assms(3) by simp_all
  obtain f opt1 s2 where c: "close_section i opt s1 = (f, opt1, s2)" by (metis prod_cases3)
  note C = close_section_closes[OF o, of opt s2, unfolded c, simplified]
  obtain s3 where d: "same_tables s2 s3" "s' = close_free i s3"
    using assms(4) a c call_driver_same_tables[OF assms(1), of s2] same_tables_refl[of s2]
    by (auto simp: close_rest_def Let_def split_beta split: if_splits)
  have "dev_step s1 s2" using dev_step.closes[OF o(2), of opt] c by simp
  moreover have "dev_step s3 s'" unfolding d(2)
    using C d(1) same_tables_open[OF d(1)] by (intro dev_step.closed) (simp_all add: same_tables_def)
  ultimately show ?thesis using dev_step.other[OF t] dev_step.other[OF d(1)] by (meson converse_rtranclp_into_rtranclp r_into_rtranclp)
qed

lemma knl_close_device_steps:
  assumes "drivers_ok drv" "dev_inv s" "is_open i s" "knl_close_device drv i opt s = Some (r, s')" shows "dev_step\<^sup>*\<^sup>* s s'"
proof -
  let ?s = "abort_begin drv i s"
  let ?w = "tk_wai_sem (opn_abort_semid (OpnCBtbl ?s i)) 1 TMO_FEVR ?s"
  note t = abort_begin_same_tables[OF assms(1), of s i] and w = same_tables_trans[OF abort_begin_same_tables[OF assms(1), of s i] wai_sem_same_tables]
  have steps: "dev_step\<^sup>*\<^sup>* s s'" if "same_tables s u" "close_rest drv w x i opt u = Some (r, s')" for u w x
    using close_rest_steps[OF assms(1) same_tables_inv[OF that(1) assms(2)] _ that(2)] same_tables_open[OF that(1)] assms(3)
      dev_step.other[OF that(1)] by (meson converse_rtranclp_into_rtranclp)
  show ?thesis
  proof (cases "opn_abort_cnt (OpnCBtbl ?s i) > 0")
    case False
    then show ?thesis using assms(4) steps[OF t] by (simp add: knl_close_device_def Let_def)
  next
    case True
    obtain x u where x: "?w = (x, u)" by force
    have "same_tables s u" using w x by (metis snd_conv)
    then show ?thesis using assms(4) True x steps[of u "ddev_waitfn (dev_of i s)" "ddev_exinf (dev_of i s)"] dev_step.other[of s u]
      by (cases x) (auto simp: knl_close_device_def Let_def)
  qed
qed

section \<open>The registered devices\<close>

definition registered :: "'a devstate_scheme \<Rightarrow> nat list \<times> nat list \<times> (nat \<Rightarrow> T_DDEV)" where
  "registered s = (UsedDevCB s, FreeDevCB s, \<lambda>i. dev_ddev (DevCBtbl s i))"

definition dev_range :: "'a devstate_scheme \<Rightarrow> bool" where
  "dev_range s \<longleftrightarrow> set (UsedDevCB s) \<union> set (FreeDevCB s) \<subseteq> {..<MAX_REGDEV} \<and>
     (\<forall>i\<in>set (UsedDevCB s). 0 \<le> ddev_nsub (dev_ddev (DevCBtbl s i)) \<and> ddev_nsub (dev_ddev (DevCBtbl s i)) \<le> MAX_UNIT)"

lemma dev_range_cong: "registered s' = registered s \<Longrightarrow> dev_range s' = dev_range s"
  unfolding registered_def dev_range_def by (auto simp: fun_eq_iff)

lemma registered_frames:
  "same_tables s s' \<Longrightarrow> registered s' = registered s" "registered (knl_delOpnCB i fr s) = registered s"
  "registered (snd (newOpnCB d u m s)) = registered s" "registered (close_free i s) = registered s"
  by (auto simp: registered_def same_tables_def knl_delOpnCB_def newOpnCB_def close_free_def Let_def dev_upds fun_eq_iff split: list.split)

lemma registered_opn_begin: "registered (snd (opn_begin nm m s)) = registered s"
proof (cases "find_unit nm s")
  case (Some p)
  obtain d u where p: "p = (d, u)" by force
  obtain r s1 where n: "newOpnCB d u m s = (r, s1)" by force
  have 1: "registered s1 = registered s" using registered_frames(3)[of d u m s] n by simp
  let ?c = "tk_cre_sem \<lparr>csem_exinf = 0, csem_sematr = TA_TFIFO, csem_isemcnt = 0, csem_maxsem = 1\<rparr> s1"
  have 2: "registered (snd ?c) = registered s1" by (rule registered_frames(1)[OF sem_calls_same_tables(1)])
  have 3: "registered (upd_opn i f t) = registered t" for i f and t :: "'a devstate_scheme" by (simp add: registered_def dev_upds)
  show ?thesis
    by (simp add: opn_begin_def Some p n Let_def split_beta 1 2 3 registered_frames(2) split: option.split sysret.split)
qed (simp add: opn_begin_def)

lemma registered_tables: "registered s' = registered s \<Longrightarrow> UsedDevCB s' = UsedDevCB s \<and> FreeDevCB s' = FreeDevCB s"
  by (simp add: registered_def)

lemma tk_def_dev_range:
  assumes "dev_range s" shows "dev_range (snd (tk_def_dev nm pk s))"
proof (cases pk)
  case None
  have "i \<in> set (UsedDevCB s)" if "knl_searchDevCB nm s = Some i" for i using that by (auto simp: knl_searchDevCB_def find_Some_iff)
  then show ?thesis using assms
    by (auto simp: tk_def_dev_def None dev_range_def delDevCB_def dev_upds split: option.split)
next
  case (Some d)
  show ?thesis
  proof (cases "knl_searchDevCB nm s")
    case (Some i)
    then show ?thesis using assms \<open>pk = Some d\<close> by (auto simp: tk_def_dev_def dev_range_def dev_upds)
  next
    case None
    show ?thesis
    proof (cases "FreeDevCB s")
      case Nil
      then show ?thesis using assms Some None by (simp add: tk_def_dev_def newDevCB_def)
    next
      case (Cons i fs)
      then show ?thesis using assms Some None by (auto simp: tk_def_dev_def newDevCB_def dev_range_def dev_upds)
    qed
  qed
qed

lemma dev_step_range: "dev_step s s' \<Longrightarrow> dev_range s \<Longrightarrow> dev_range s'"
proof (induction rule: dev_step.induct)
  case (register s nm pk)
  then show ?case by (rule tk_def_dev_range)
next
  case (open_begins s nm m)
  then show ?case using dev_range_cong[OF registered_opn_begin] by blast
next
  case (open_ends s i)
  then show ?case by (simp add: dev_range_def opn_finish_def dev_upds)
next
  case (open_fails i s)
  then show ?case unfolding opn_fail_def
    using dev_range_cong[OF registered_frames(2)] dev_range_cong[OF registered_frames(1)[OF sem_calls_same_tables(2)]] by blast
next
  case (closes i s opt)
  have "snd (snd (close_section i opt s)) = knl_delOpnCB i False (snd (tk_del_sem (opn_abort_semid (OpnCBtbl s i)) s))"
    by (simp add: close_section_def Let_def)
  then show ?case
    using closes dev_range_cong[OF registered_frames(2)] dev_range_cong[OF registered_frames(1)[OF sem_calls_same_tables(2)]] by metis
next
  case (closed i s)
  then show ?case using dev_range_cong[OF registered_frames(4)] by blast
next
  case (other s s')
  then show ?case using dev_range_cong[OF registered_frames(1)] by blast
qed

lemma dev_reachable_range: "dev_reachable s \<Longrightarrow> dev_range s"
  by (induction rule: dev_reachable.induct) (auto simp: init_tables dev_range_def[of "snd (knl_initialize_devmgr s)" for s] intro: dev_step_range)

text \<open>A device registered under a name with a digit is never found.\<close>

lemma digit_name_not_found:
  assumes "\<not> list_all (\<lambda>c. \<not> is_digit c) (dev_nm (DevCBtbl s i))" shows "find_unit nm s \<noteq> Some (i, u)"
proof
  assume "find_unit nm s = Some (i, u)"
  then have "fst (knl_phydevnm nm) = dev_nm (DevCBtbl s i)"
    by (auto simp: find_unit_def knl_searchDevCB_def find_Some_iff split: prod.splits option.splits if_splits)
  then show False using assms phydevnm_no_digits[of nm] by simp
qed

lemma devid_parts:
  assumes "0 \<le> u" "u \<le> MAX_UNIT"
  shows "DEVID i u div 256 = int i + 1" "UNITNO (DEVID i u) = u" "DEVCB (DEVID i u) = i"
proof -
  have e: "DEVID i u = u + (int i + 1) * 256" and u: "u < 256" using assms(2) by (simp_all add: DEVID_def DID_def MAX_UNIT_def)
  show d: "DEVID i u div 256 = int i + 1" unfolding e using assms(1) u by (subst div_mult_self1) simp_all
  show "UNITNO (DEVID i u) = u" unfolding UNITNO_def e mod_mult_self1 using assms(1) u by simp
  show "DEVCB (DEVID i u) = i" unfolding DEVCB_def d by simp
qed

lemma search_used:
  assumes "dev_inv s" "i \<in> set (UsedDevCB s)" shows "knl_searchDevCB (dev_nm (DevCBtbl s i)) s = Some i"
proof -
  obtain j where j: "knl_searchDevCB (dev_nm (DevCBtbl s i)) s = Some j"
    using assms(2) by (cases "knl_searchDevCB (dev_nm (DevCBtbl s i)) s") (auto simp: knl_searchDevCB_def find_None_iff)
  then have "j \<in> set (UsedDevCB s)" "dev_nm (DevCBtbl s j) = dev_nm (DevCBtbl s i)"
    by (auto simp: knl_searchDevCB_def find_Some_iff)
  then show ?thesis using dev_invD(5)[OF assms(1) _ assms(2)] j by simp
qed

section \<open>A sample manager\<close>

text \<open>After the initialisation, \<^verbatim>\<open>ser\<close> with two units is registered.\<close>

definition sample_ddev :: T_DDEV where
  "sample_ddev = \<lparr>ddev_exinf = 0, ddev_drvatr = 0, ddev_devatr = 0, ddev_nsub = 2, ddev_blksz = 1, ddev_openfn = 100, ddev_closefn = 104,
     ddev_execfn = 108, ddev_waitfn = 112, ddev_abortfn = 116, ddev_eventfn = 120\<rparr>"

definition blank_devices :: "unit devstate_scheme" where
  "blank_devices = sample_sem (devstate_ext (\<lambda>i. \<lparr>dev_nm = [], dev_ddev = sample_ddev, dev_openq = []\<rparr>) [] []
     (\<lambda>i. \<lparr>opn_resid = 0, opn_devcb = 0, opn_unitno = 0, opn_omode = 0, opn_requestq = [], opn_waitone = 0, opn_waireqlst = 0,
        opn_nwaireq = 0, opn_abort_tskid = 0, opn_abort_cnt = 0, opn_abort_semid = 0\<rparr>) []
     (\<lambda>r. \<lparr>req_opncb = None, req_tskid = 0, req_req = \<lparr>dr_next = None, dr_exinf = 0, dr_devid = 0, dr_cmd = 0, dr_abort = False,
        dr_start = 0, dr_size = 0, dr_buf = 0, dr_asize = 0, dr_error = 0\<rparr>\<rparr>) [] [] 0 0 0 ())"

definition ser_name :: dname where "ser_name = [115, 101, 114]"

definition sample_devices :: "unit devstate_scheme" where
  "sample_devices = snd (tk_def_dev ser_name (Some sample_ddev) (snd (knl_initialize_devmgr blank_devices)))"

definition sample_opens :: "unit devstate_scheme" where
  "sample_opens = snd (opn_begin ser_name TD_READ (snd (opn_begin ser_name (TD_READ OR TD_WEXCL) sample_devices)))"

lemma sample_devices_reachable: "dev_reachable sample_devices" "dev_reachable sample_opens"
proof -
  show 1: "dev_reachable sample_devices" unfolding sample_devices_def
    by (rule dev_reachable.step[OF dev_reachable.init dev_step.register])
  show "dev_reachable sample_opens" unfolding sample_opens_def
    by (rule dev_reachable.step[OF dev_reachable.step[OF 1 dev_step.open_begins] dev_step.open_begins])
qed

lemma sample_devices_tables:
  "UsedDevCB sample_devices = [0]" "dev_nm (DevCBtbl sample_devices 0) = ser_name" "dev_ddev (DevCBtbl sample_devices 0) = sample_ddev"
  "dev_openq (DevCBtbl sample_devices 0) = []" "FreeOpnCB sample_devices = [0..<MAX_OPNDEV]"
  "free_semcb sample_devices = [1..<NUM_SEMID]"
proof -
  let ?s = "snd (knl_initialize_devmgr blank_devices)"
  have f: "FreeDevCB ?s = 0 # [1..<MAX_REGDEV]" "UsedDevCB ?s = []" "FreeOpnCB ?s = [0..<MAX_OPNDEV]" "free_semcb ?s = [1..<NUM_SEMID]"
    by (simp_all add: init_tables MAX_REGDEV_def upt_conv_Cons blank_devices_def)
  have e: "sample_devices = upd_dev 0 (\<lambda>b. b\<lparr>dev_ddev := sample_ddev\<rparr>)
      ((upd_dev 0 (\<lambda>d. d\<lparr>dev_nm := ser_name, dev_openq := []\<rparr>) ?s)\<lparr>FreeDevCB := [1..<MAX_REGDEV], UsedDevCB := [0]\<rparr>)"
    by (simp add: sample_devices_def tk_def_dev_def newDevCB_def knl_searchDevCB_def f ser_name_def sample_ddev_def name_len_def
        L_DEVNM_def MAX_UNIT_def)
  show "UsedDevCB sample_devices = [0]" "dev_nm (DevCBtbl sample_devices 0) = ser_name" "dev_ddev (DevCBtbl sample_devices 0) = sample_ddev"
    "dev_openq (DevCBtbl sample_devices 0) = []" "FreeOpnCB sample_devices = [0..<MAX_OPNDEV]"
    "free_semcb sample_devices = [1..<NUM_SEMID]"
    by (simp_all add: e dev_upds f)
qed

lemma opn_begin_new:
  assumes "find_unit nm s = Some (d, u)" "chkopenmode d u m s = E_OK" "FreeOpnCB s = i # fs" "free_semcb s = k # ks"
  shows "same_tables (snd (newOpnCB d u m s)) (snd (opn_begin nm m s))" "free_semcb (snd (opn_begin nm m s)) = ks"
proof -
  obtain t where n: "newOpnCB d u m s = (Some i, t)" "free_semcb t = k # ks" using assms(3,4) by (simp add: newOpnCB_def Let_def dev_upds)
  define pk where "pk = \<lparr>csem_exinf = 0, csem_sematr = TA_TFIFO, csem_isemcnt = 0, csem_maxsem = 1\<rparr>"
  obtain r c where c: "tk_cre_sem pk t = (r, c)" by force
  then have r: "r = Ret (ID_OBJ k)" "free_semcb c = ks"
    using n(2) by (auto simp: pk_def tk_cre_sem_def cre_sem_def Let_def upd_semcb_def kdefs consts_defs TA_TFIFO_def CHECK_PAR_def CHECK_RSATR_def)
  have e: "snd (opn_begin nm m s) = upd_opn i (\<lambda>b. b\<lparr>opn_abort_semid := ID_OBJ k\<rparr>) c"
    unfolding opn_begin_def assms(1) pk_def[symmetric] using n(1) c r(1) assms(2) by (simp add: Let_def E_OK_def ID_OBJ_def)
  have "same_tables t c" using sem_calls_same_tables(1)[of t pk] c by simp
  then show "same_tables (snd (newOpnCB d u m s)) (snd (opn_begin nm m s))" unfolding e n(1) snd_conv
    by (rule same_tables_trans[OF _ upd_opn_same_tables]) (simp add: opn_view_def)
  show "free_semcb (snd (opn_begin nm m s)) = ks" unfolding e using r(2) by (simp add: dev_upds)
qed

lemma find_ser:
  assumes "UsedDevCB s = [0]" "dev_nm (DevCBtbl s 0) = ser_name" "dev_ddev (DevCBtbl s 0) = sample_ddev"
  shows "find_unit ser_name s = Some (0, 0)"
  using assms by (simp add: find_unit_def knl_phydevnm_def knl_searchDevCB_def ser_name_def is_digit_def unit_of_def sample_ddev_def)

lemma sample_opens_tables:
  "UsedDevCB sample_opens = [0]" "dev_openq (DevCBtbl sample_opens 0) = [0, 1]"
  "opn_unitno (OpnCBtbl sample_opens 0) = 0" "opn_unitno (OpnCBtbl sample_opens 1) = 0"
proof -
  let ?m = "TD_READ OR TD_WEXCL" and ?s = sample_devices
  let ?t = "snd (opn_begin ser_name ?m ?s)"
  let ?n = "snd (newOpnCB 0 0 ?m ?s)"
  note T = sample_devices_tables
  have l: "[0..<MAX_OPNDEV] = 0 # 1 # [2..<MAX_OPNDEV]" "[1..<NUM_SEMID] = 1 # 2 # [3..<NUM_SEMID]"
    by (simp_all add: MAX_OPNDEV_def NUM_SEMID_def upt_conv_Cons)
  have 1: "same_tables ?n ?t" "free_semcb ?t = 2 # [3..<NUM_SEMID]"
    using opn_begin_new[OF find_ser[OF T(1-3)], where m = ?m] T(4-6) l
    by (simp_all add: chkopenmode_def count_open_def TD_READ_def TD_UPDATE_def TD_WEXCL_def E_OK_def)
  have n: "UsedDevCB ?n = [0]" "DevCBtbl ?n 0 = (DevCBtbl ?s 0)\<lparr>dev_openq := [0]\<rparr>" "FreeOpnCB ?n = 1 # [2..<MAX_OPNDEV]"
    "opn_view (OpnCBtbl ?n 0) = (0, 0, ?m)"
    using T l by (simp_all add: newOpnCB_def Let_def dev_upds opn_view_def)
  have t: "UsedDevCB ?t = [0]" "DevCBtbl ?t 0 = (DevCBtbl ?s 0)\<lparr>dev_openq := [0]\<rparr>" "FreeOpnCB ?t = 1 # [2..<MAX_OPNDEV]"
    "opn_view (OpnCBtbl ?t 0) = (0, 0, ?m)"
    using 1(1) n by (simp_all add: same_tables_def)
  have f: "find_unit ser_name ?t = Some (0, 0)" by (rule find_ser) (simp_all add: t T)
  have c: "chkopenmode 0 0 TD_READ ?t = E_OK"
    using t(2,4) by (simp add: chkopenmode_def count_open_def opn_view_def Let_def TD_READ_def TD_WRITE_def TD_UPDATE_def TD_WEXCL_def
      TD_EXCL_def TD_REXCL_def E_OK_def)
  have 2: "same_tables (snd (newOpnCB 0 0 TD_READ ?t)) sample_opens"
    unfolding sample_opens_def by (rule opn_begin_new(1)[OF f c t(3) 1(2)])
  let ?o = "snd (newOpnCB 0 0 TD_READ ?t)"
  have o: "UsedDevCB ?o = [0]" "dev_openq (DevCBtbl ?o 0) = [0, 1]" "opn_view (OpnCBtbl ?o 0) = (0, 0, ?m)" "opn_view (OpnCBtbl ?o 1) = (0, 0, TD_READ)"
    using t by (simp_all add: newOpnCB_def Let_def dev_upds opn_view_def)
  show "UsedDevCB sample_opens = [0]" "dev_openq (DevCBtbl sample_opens 0) = [0, 1]" using 2 o by (simp_all add: same_tables_def)
  have "opn_view (OpnCBtbl sample_opens 0) = (0, 0, ?m)" "opn_view (OpnCBtbl sample_opens 1) = (0, 0, TD_READ)"
    using 2 o by (simp_all add: same_tables_def)
  then show "opn_unitno (OpnCBtbl sample_opens 0) = 0" "opn_unitno (OpnCBtbl sample_opens 1) = 0" by (simp_all add: opn_view_def)
qed

text \<open>
  C24. Device identifiers and logical names correspond: in every reachable state of the manager, for every unit of a
  device registered under a name without digits, \<^verbatim>\<open>tk_get_dev\<close> gives a name that \<^verbatim>\<open>tk_ref_dev\<close> maps back to the same
  identifier, with the number of that unit.
\<close>

theorem device_names_round_trip:
  assumes "dev_reachable s" "i \<in> set (UsedDevCB s)" "list_all (\<lambda>c. \<not> is_digit c) (dev_nm (DevCBtbl s i))"
    "0 \<le> u" "u \<le> ddev_nsub (dev_ddev (DevCBtbl s i))"
  shows "\<exists>nm r. tk_get_dev (DEVID i u) s = (DID i, Some nm) \<and> tk_ref_dev nm s = (DEVID i u, Some r) \<and> rdev_subno r = u"
proof -
  note inv = dev_reachable_inv[OF assms(1)]
  have r: "i < MAX_REGDEV" "u \<le> MAX_UNIT" using dev_reachable_range[OF assms(1)] assms(2,5) by (auto simp: dev_range_def)
  note d = devid_parts[OF assms(4) r(2), of i]
  have "find_unit (logdevnm (dev_nm (DevCBtbl s i)) u) s = Some (i, u)"
    using phydevnm_logdevnm[OF assms(3,4)] r(2) search_used[OF inv assms(2)] assms(5) by (simp add: find_unit_def MAX_UNIT_def)
  then show ?thesis using d r assms(5) dev_invD(6)[OF inv assms(2)]
    by (simp add: tk_get_dev_def tk_ref_dev_def knl_check_devid_def no_unit_def dev_info_def Let_def consts_defs)
qed

theorem device_names_round_trip_witness:
  "\<exists>nm r. tk_get_dev (DEVID 0 2) sample_devices = (DID 0, Some nm) \<and> tk_ref_dev nm sample_devices = (DEVID 0 2, Some r) \<and> rdev_subno r = 2"
  by (rule device_names_round_trip[OF sample_devices_reachable(1)])
    (simp_all add: sample_devices_tables, simp_all add: ser_name_def is_digit_def sample_ddev_def)

text \<open>
  C23. Opens that exclude each other never coexist: in every state the manager reaches, whatever the order in which the
  sections of its calls run and whatever the drivers answer, two opens of one device whose units overlap are in modes that
  both allow the other.
\<close>

theorem device_opens_exclusive:
  assumes "dev_reachable s" "d \<in> set (UsedDevCB s)" "i \<in> set (dev_openq (DevCBtbl s d))" "j \<in> set (dev_openq (DevCBtbl s d))"
    "i \<noteq> j" "overlap (opn_unitno (OpnCBtbl s i)) (opn_unitno (OpnCBtbl s j))"
  shows "\<not> excludes (opn_omode (OpnCBtbl s i)) (opn_omode (OpnCBtbl s j)) \<and> opn_devcb (OpnCBtbl s i) = d"
  using dev_invD(7,8)[OF dev_reachable_inv[OF assms(1)] assms(2)] assms(3-6) unfolding opens_ok_def by blast


theorem device_opens_exclusive_witness:
  "\<not> excludes (opn_omode (OpnCBtbl sample_opens 0)) (opn_omode (OpnCBtbl sample_opens 1)) \<and> opn_devcb (OpnCBtbl sample_opens 0) = 0"
  by (rule device_opens_exclusive[OF sample_devices_reachable(2), where j = 1])
    (simp_all add: sample_opens_tables overlap_def)

end
