(* ===== verification/Fastlock.thy ===== *)
theory Fastlock
  imports Sample_Objects
begin

text \<open>
  The locks of the library that do not enter the kernel when they are free: \<^verbatim>\<open>lib/libtk/fastlock.c\<close> on a
  semaphore, \<^verbatim>\<open>lib/libtk/fastmlock.c\<close> on an event flag, with one lock per bit. The counters and bits of a lock are
  read and changed with interrupts masked, which is one step of the interleaving. A call is \<open>Blocked\<close> when its caller waits in
  the kernel; a call that goes on after the wait does so at the step named \<open>..._again\<close>.
\<close>

section \<open>The fast lock\<close>

record FastLock =
  fl_cnt :: int
  fl_id :: ID
  fl_name :: addr

definition Inc :: "FastLock \<Rightarrow> int \<times> FastLock" where
  "Inc lock = (fl_cnt lock + 1, lock\<lparr>fl_cnt := fl_cnt lock + 1\<rparr>)"

definition Dec :: "FastLock \<Rightarrow> int \<times> FastLock" where
  "Dec lock = (fl_cnt lock, lock\<lparr>fl_cnt := fl_cnt lock - 1\<rparr>)"

text \<open>Whether the caller waits in the kernel; the result of the kernel's call is not looked at.\<close>

definition Lock :: "FastLock \<Rightarrow> 'a semstate_scheme \<Rightarrow> bool \<times> FastLock \<times> 'a semstate_scheme" where
  "Lock lock s =
     (let (c, lock1) = Inc lock
      in if c > 0 then let (r, s1) = tk_wai_sem (fl_id lock1) 1 TMO_FEVR s in (r = Blocked, lock1, s1)
         else (False, lock1, s))"

definition Unlock :: "FastLock \<Rightarrow> 'a semstate_scheme \<Rightarrow> FastLock \<times> 'a semstate_scheme" where
  "Unlock lock s =
     (let (c, lock1) = Dec lock
      in if c > 0 then (lock1, snd (tk_sig_sem (fl_id lock1) 1 s)) else (lock1, s))"

text \<open>The extended information is the name \<^verbatim>\<open>FLOC\<close>, stored byte by byte.\<close>

definition CreateLock :: "addr \<Rightarrow> FastLock \<Rightarrow> 'a semstate_scheme \<Rightarrow> ER \<times> FastLock \<times> 'a semstate_scheme" where
  "CreateLock nm lock s =
     (case tk_cre_sem \<lparr>csem_exinf = 0x434F4C46, csem_sematr = TA_TPRI, csem_isemcnt = 0, csem_maxsem = 1\<rparr> s of
        (Ret ercd, s1) \<Rightarrow>
          if ercd < E_OK then (ercd, lock, s1)
          else (E_OK, lock\<lparr>fl_id := ercd, fl_cnt := -1, fl_name := nm\<rparr>, s1)
      | (Blocked, s1) \<Rightarrow> (E_SYS, lock, s1))"

definition DeleteLock :: "FastLock \<Rightarrow> 'a semstate_scheme \<Rightarrow> FastLock \<times> 'a semstate_scheme" where
  "DeleteLock lock s = (lock\<lparr>fl_id := 0\<rparr>, if fl_id lock > 0 then snd (tk_del_sem (fl_id lock) s) else s)"

section \<open>The multi-lock\<close>

record FastMLock =
  ml_flg :: UINT
  ml_wai :: int
  ml_id :: ID
  ml_name :: addr

definition INC :: "FastMLock \<Rightarrow> FastMLock" where
  "INC lock = lock\<lparr>ml_wai := ml_wai lock + 1\<rparr>"

definition DEC :: "FastMLock \<Rightarrow> FastMLock" where
  "DEC lock = lock\<lparr>ml_wai := ml_wai lock - 1\<rparr>"

definition BTS :: "nat \<Rightarrow> FastMLock \<Rightarrow> bool \<times> FastMLock" where
  "BTS no lock = (ml_flg lock AND push_bit no 1 \<noteq> 0, lock\<lparr>ml_flg := ml_flg lock OR push_bit no 1\<rparr>)"

definition BR :: "nat \<Rightarrow> FastMLock \<Rightarrow> FastMLock" where
  "BR no lock = lock\<lparr>ml_flg := ml_flg lock AND NOT (push_bit no 1)\<rparr>"

text \<open>
  The loop of \<^verbatim>\<open>MLockTmo\<close>, up to its end or to the point where the caller waits; \<open>p_flg\<close> is the address of its local
  variable. When the wait ends the caller goes on with the same loop or, after an error, leaves it.
\<close>

partial_function (option) mlock_loop ::
    "nat \<Rightarrow> addr \<Rightarrow> TMO \<Rightarrow> FastMLock \<Rightarrow> 'a flgstate_scheme \<Rightarrow> (sysret \<times> FastMLock \<times> 'a flgstate_scheme) option" where
  "mlock_loop no p_flg tmo lock s =
     (let (b, lock1) = BTS no lock
      in if \<not> b then Some (Ret E_OK, DEC lock1, s)
         else
           case tk_wai_flg (ml_id lock1) (push_bit no 1) (TWF_ORW OR TWF_BITCLR) p_flg tmo s of
             (Blocked, s1) \<Rightarrow> Some (Blocked, lock1, s1)
           | (Ret e, s1) \<Rightarrow> if e < E_OK then Some (Ret e, DEC lock1, s1) else mlock_loop no p_flg tmo lock1 s1)"

definition MLockTmo ::
    "nat \<Rightarrow> addr \<Rightarrow> TMO \<Rightarrow> FastMLock \<Rightarrow> 'a flgstate_scheme \<Rightarrow> (sysret \<times> FastMLock \<times> 'a flgstate_scheme) option" where
  "MLockTmo no p_flg tmo lock s = mlock_loop no p_flg tmo (INC lock) s"

definition MLockTmo_again ::
    "nat \<Rightarrow> addr \<Rightarrow> TMO \<Rightarrow> ER \<Rightarrow> FastMLock \<Rightarrow> 'a flgstate_scheme \<Rightarrow> (sysret \<times> FastMLock \<times> 'a flgstate_scheme) option" where
  "MLockTmo_again no p_flg tmo ercd lock s =
     (if ercd < E_OK then Some (Ret ercd, DEC lock, s) else mlock_loop no p_flg tmo lock s)"

definition MLock ::
    "nat \<Rightarrow> addr \<Rightarrow> FastMLock \<Rightarrow> 'a flgstate_scheme \<Rightarrow> (sysret \<times> FastMLock \<times> 'a flgstate_scheme) option" where
  "MLock no p_flg lock s = MLockTmo no p_flg TMO_FEVR lock s"

definition MUnlock :: "nat \<Rightarrow> FastMLock \<Rightarrow> 'a flgstate_scheme \<Rightarrow> sysret \<times> FastMLock \<times> 'a flgstate_scheme" where
  "MUnlock no lock s =
     (let lock1 = BR no lock; (r, s1) = (if ml_wai lock1 = 0 then (Ret E_OK, s) else tk_set_flg (ml_id lock1) (push_bit no 1) s)
      in (r, lock1, s1))"

definition CreateMLock :: "addr \<Rightarrow> FastMLock \<Rightarrow> 'a flgstate_scheme \<Rightarrow> ER \<times> FastMLock \<times> 'a flgstate_scheme" where
  "CreateMLock nm lock s =
     (case tk_cre_flg \<lparr>cflg_exinf = 0x434F4C4D, cflg_flgatr = TA_TPRI OR TA_WMUL, cflg_iflgptn = 0\<rparr> s of
        (Ret ercd, s1) \<Rightarrow>
          if ercd < E_OK then (ercd, lock\<lparr>ml_id := ercd\<rparr>, s1)
          else (E_OK, lock\<lparr>ml_id := ercd, ml_wai := 0, ml_flg := 0, ml_name := nm\<rparr>, s1)
      | (Blocked, s1) \<Rightarrow> (E_SYS, lock, s1))"

definition DeleteMLock :: "FastMLock \<Rightarrow> 'a flgstate_scheme \<Rightarrow> ER \<times> FastMLock \<times> 'a flgstate_scheme" where
  "DeleteMLock lock s =
     (if ml_id lock \<le> 0 then (E_PAR, lock, s)
      else
        case tk_del_flg (ml_id lock) s of
          (Ret ercd, s1) \<Rightarrow> if ercd < E_OK then (ercd, lock, s1) else (E_OK, lock\<lparr>ml_id := 0\<rparr>, s1)
        | (Blocked, s1) \<Rightarrow> (E_SYS, lock, s1))"

section \<open>Tasks that use a fast lock\<close>

text \<open>
  Where a task is: outside; past \<open>Inc\<close> and about to wait; waiting in the kernel; inside; past \<open>Dec\<close> and about to signal.
\<close>

datatype phase = Outside | Going | Waits | Holds | Signals

type_synonym 'a fl_state = "FastLock \<times> (nat \<Rightarrow> phase) \<times> nat \<times> nat \<times> 'a semstate_scheme"

text \<open>
  The steps of any number of tasks; \<^verbatim>\<open>Lock\<close> is \<open>inc\<close> and \<open>wait\<close>, \<^verbatim>\<open>Unlock\<close> is \<open>dec\<close> and \<open>sig\<close>. A waiting task is
  inside as soon as a signal has taken it out of the queue of the semaphore. \<^verbatim>\<open>Lock\<close> does not look at the result of its wait,
  so that a task is inside as well when the wait was refused, for example because dispatching is disabled, or was ended
  by force (\<open>forced\<close>, the body of \<^verbatim>\<open>tk_rel_wai\<close> with the hook of the semaphore): the first counter of the state counts
  these broken waits. The second counter counts the tasks that were terminated while they used the lock (\<open>ended\<close>).
  Everything else that happens in the kernel is \<open>other\<close>: it keeps the invariants and leaves this semaphore alone.
\<close>

inductive fl_step :: "'a fl_state \<Rightarrow> 'a fl_state \<Rightarrow> bool" where
  inc: "ctxtsk s = Some t \<Longrightarrow> ph t = Outside \<Longrightarrow> Inc l = (c, l') \<Longrightarrow>
    fl_step (l, ph, n, d, s) (l', ph(t := if c > 0 then Going else Holds), n, d, s)"
| wait: "ctxtsk s = Some t \<Longrightarrow> run_ok s \<Longrightarrow> ph t = Going \<Longrightarrow> tk_wai_sem (fl_id l) 1 TMO_FEVR s = (r, s') \<Longrightarrow>
    fl_step (l, ph, n, d, s) (l, ph(t := if r = Blocked then Waits else Holds), if r = Blocked \<or> r = Ret E_OK then n else n + 1, d, s')"
| dec: "ctxtsk s = Some t \<Longrightarrow> ph t = Holds \<Longrightarrow> Dec l = (c, l') \<Longrightarrow>
    fl_step (l, ph, n, d, s) (l', ph(t := if c > 0 then Signals else Outside), n, d, s)"
| sig: "ctxtsk s = Some t \<Longrightarrow> ph t = Signals \<Longrightarrow> tk_sig_sem (fl_id l) 1 s = (r, s') \<Longrightarrow>
    fl_step (l, ph, n, d, s) (l, \<lambda>u. if u = t then Outside
      else if ph u = Waits \<and> u \<notin> set (que s' (QSem (INDEX_OBJ (fl_id l)))) then Holds else ph u, n, d, s')"
| forced: "ph u = Waits \<Longrightarrow> knl_wait_release_ng (\<lambda>t s. Some (sem_rel_wai t s)) u e s = Some s' \<Longrightarrow>
    fl_step (l, ph, n, d, s) (l, ph(u := Holds), n + 1, d, s')"
| ended: "core_inv s' \<Longrightarrow> sem_inv s' \<Longrightarrow> semcb s' (INDEX_OBJ (fl_id l)) = semcb s (INDEX_OBJ (fl_id l)) \<Longrightarrow> ph u \<noteq> Outside \<Longrightarrow>
    set (que s' (QSem (INDEX_OBJ (fl_id l)))) = set (que s (QSem (INDEX_OBJ (fl_id l)))) - {u} \<Longrightarrow>
    fl_step (l, ph, n, d, s) (l, ph(u := Outside), n, d + 1, s')"
| other: "core_inv s' \<Longrightarrow> sem_inv s' \<Longrightarrow> semcb s' (INDEX_OBJ (fl_id l)) = semcb s (INDEX_OBJ (fl_id l)) \<Longrightarrow>
    que s' (QSem (INDEX_OBJ (fl_id l))) = que s (QSem (INDEX_OBJ (fl_id l))) \<Longrightarrow> fl_step (l, ph, n, d, s) (l, ph, n, d, s')"

inductive fl_reachable :: "'a fl_state \<Rightarrow> bool" where
  start: "core_inv s0 \<Longrightarrow> sem_inv s0 \<Longrightarrow> CreateLock nm l0 s0 = (E_OK, l, s) \<Longrightarrow> fl_reachable (l, \<lambda>_. Outside, 0, 0, s)"
| step: "fl_reachable x \<Longrightarrow> fl_step x y \<Longrightarrow> fl_reachable y"

definition num :: "(nat \<Rightarrow> phase) \<Rightarrow> phase \<Rightarrow> int" where
  "num ph p = int (card {t. ph t = p})"

lemma num_upd:
  assumes "finite {t. ph t \<noteq> Outside}" "p \<noteq> Outside"
  shows "num (ph(t := b)) p = num ph p - (if ph t = p then 1 else 0) + (if b = p then 1 else 0)"
proof -
  have f: "finite {t. ph t = p}" by (rule finite_subset[OF _ assms(1)]) (use assms(2) in auto)
  have s: "{u. (ph(t := b)) u = p} = (if b = p then insert t {u. ph u = p} else {u. ph u = p} - {t})" by auto
  have c: "int (card ({u. ph u = p} - {t})) = num ph p - (if ph t = p then 1 else 0)"
    using f card_Suc_Diff1[OF f, of t] by (auto simp: num_def)
  show ?thesis unfolding num_def s using c f by (auto simp: num_def card_insert_if)
qed

lemma finite_phase_upd: "finite {t. ph t \<noteq> Outside} \<Longrightarrow> finite {u. (ph(t := b)) u \<noteq> Outside}"
  by (rule finite_subset[of _ "insert t {t. ph t \<noteq> Outside}"]) auto

lemma num_pos: "finite {t. ph t \<noteq> Outside} \<Longrightarrow> ph t = p \<Longrightarrow> p \<noteq> Outside \<Longrightarrow> num ph p \<ge> 1"
proof -
  assume a: "finite {t. ph t \<noteq> Outside}" "ph t = p" "p \<noteq> Outside"
  have "finite {t. ph t = p}" by (rule finite_subset[OF _ a(1)]) (use a(3) in auto)
  then have "card {t. ph t = p} > 0" using a(2) by (auto simp: card_gt_0_iff)
  then show ?thesis by (simp add: num_def)
qed

lemma num_nonneg: "num ph p \<ge> 0"
  by (simp add: num_def)

definition fl_sem :: "FastLock \<Rightarrow> 'a semstate_scheme \<Rightarrow> bool" where
  "fl_sem l s \<longleftrightarrow> core_inv s \<and> sem_inv s \<and> CHK_OBJID NUM_SEMID (fl_id l) \<and>
     semid (semcb s (INDEX_OBJ (fl_id l))) \<noteq> 0 \<and> maxsem (semcb s (INDEX_OBJ (fl_id l))) = 1"

text \<open>
  The tokens: one task inside, one signal on its way or one unit in the semaphore, exactly while somebody has counted
  in. Every broken wait can add one.
\<close>

definition counted :: "(nat \<Rightarrow> phase) \<Rightarrow> int" where
  "counted ph = num ph Going + num ph Waits + num ph Holds"

definition tokens :: "(nat \<Rightarrow> phase) \<Rightarrow> FastLock \<Rightarrow> 'a semstate_scheme \<Rightarrow> int" where
  "tokens ph l s = num ph Holds + num ph Signals + semcnt (semcb s (INDEX_OBJ (fl_id l)))"

definition taken :: "FastLock \<Rightarrow> int" where
  "taken l = (if fl_cnt l \<ge> 0 then 1 else 0)"

fun fl_inv :: "'a fl_state \<Rightarrow> bool" where
  "fl_inv (l, ph, n, d, s) \<longleftrightarrow> fl_sem l s \<and> finite {t. ph t \<noteq> Outside} \<and> {t. ph t = Waits} = set (que s (QSem (INDEX_OBJ (fl_id l)))) \<and>
     counted ph \<le> fl_cnt l + 1 \<and> (d = 0 \<longrightarrow> counted ph = fl_cnt l + 1) \<and>
     tokens ph l s \<le> taken l + int n \<and> (n = 0 \<and> d = 0 \<longrightarrow> tokens ph l s = taken l)"

section \<open>The kernel's calls on the semaphore of a lock\<close>

lemma fl_semD:
  assumes "fl_sem l s" defines "i \<equiv> INDEX_OBJ (fl_id l)"
  shows "core_inv s" "sem_inv s" "i < NUM_SEMID" "semid (semcb s i) \<noteq> 0" "maxsem (semcb s i) = 1" "0 \<le> semcnt (semcb s i)"
    "t \<in> set (que s (QSem i)) \<Longrightarrow> sem_req s t = 1" "must_wait (sem_cnt_atr (semcb s i)) (sem_req s) (semcnt (semcb s i)) (que s (QSem i))"
proof -
  show c: "core_inv s" "sem_inv s" "i < NUM_SEMID" "semid (semcb s i) \<noteq> 0" "maxsem (semcb s i) = 1"
    using assms(1) INDEX_OBJ_less by (auto simp: fl_sem_def i_def)
  have "sem_ok (semcb s i) (sem_req s) (que s (QSem i))" using sem_invD(2)[OF c(2,3)] .
  then show "0 \<le> semcnt (semcb s i)" "must_wait (sem_cnt_atr (semcb s i)) (sem_req s) (semcnt (semcb s i)) (que s (QSem i))"
    "t \<in> set (que s (QSem i)) \<Longrightarrow> sem_req s t = 1"
    using c(4,5) by (force simp: sem_ok_def sem_bounds_def)+
qed

lemma must_wait_empty: "must_wait k req n ts \<Longrightarrow> \<forall>t\<in>set ts. req t = 1 \<Longrightarrow> 1 \<le> n \<Longrightarrow> ts = []"
  by (cases ts) (auto simp: must_wait_def split: if_splits)

lemma fl_wait_result:
  assumes sem: "fl_sem l s" and t: "ctxtsk s = Some t" "state (tcb s t) = TS_READY" "\<not> in_ddsp s"
    and w: "tk_wai_sem (fl_id l) 1 TMO_FEVR s = (r, s')"
  defines "i \<equiv> INDEX_OBJ (fl_id l)"
  shows "fl_sem l s'"
    "r = Ret E_OK \<and> que s' (QSem i) = que s (QSem i) \<and> semcnt (semcb s' i) = semcnt (semcb s i) - 1 \<or>
     r = Blocked \<and> set (que s' (QSem i)) = insert t (set (que s (QSem i))) \<and> semcnt (semcb s' i) = semcnt (semcb s i)"
proof -
  note S = fl_semD[OF sem, folded i_def]
  have run: "run_ok s" using t by (simp add: run_ok_def)
  have inv: "core_inv s'" "sem_inv s'" using tk_wai_sem_inv[OF S(1,2) run, of "fl_id l" 1 TMO_FEVR] w by simp_all
  have ok: "wai_sem_ok (fl_id l) 1 TMO_FEVR s" using sem t(3) by (simp add: wai_sem_ok_def fl_sem_def i_def)
  have "fl_sem l s' \<and> (r = Ret E_OK \<and> que s' (QSem i) = que s (QSem i) \<and> semcnt (semcb s' i) = semcnt (semcb s i) - 1 \<or>
     r = Blocked \<and> set (que s' (QSem i)) = insert t (set (que s (QSem i))) \<and> semcnt (semcb s' i) = semcnt (semcb s i))"
  proof (cases "wai_sem_gets i 1 t s")
    case True
    have "r = Ret E_OK" "semcb s' = semcb (upd_semcb i (\<lambda>cb. cb\<lparr>semcnt := semcnt cb - 1\<rparr>) s)" "que s' (QSem i) = que s (QSem i)"
      using tk_wai_sem_gets[OF ok t(1)] True w by (auto simp: i_def)
    then show ?thesis using inv sem S(4,5) by (simp add: fl_sem_def i_def upd_semcb_def)
  next
    case False
    let ?b = "knl_gcb_make_wait (WSem i) (semid (semcb s i)) (sematr (semcb s i)) t TMO_FEVR (prepare_wait t (sem_wspec (semcb s i)) (WINFO_SEM 1) s)"
    have b: "r = Blocked" "s' = END_CRITICAL_SECTION ?b"
      using tk_wai_sem_waits[OF ok t(1)] False w by (auto simp: i_def wait_ret_def TMO_FEVR_def TMO_POL_def)
    have id: "wait_home (sem_wspec (semcb s i)) (semid (semcb s i)) = Some (QSem i)" using sem_invD(4)[OF S(2-4)] by simp
    note B = block_on[OF S(1) t(1,2) id, where objatr = "sematr (semcb s i)" and wi = "WINFO_SEM 1" and tmout = TMO_FEVR]
    have "semcb s' = semcb s" using B(5) semst_frame(1) b(2) by simp
    moreover have "set (que s' (QSem i)) = insert t (set (que s (QSem i)))"
      using B(4)[where w' = "WSem i"] b(2) by (simp add: TMO_FEVR_def TMO_POL_def)
    ultimately show ?thesis using inv sem b(1) by (simp add: fl_sem_def)
  qed
  then show "fl_sem l s'" "r = Ret E_OK \<and> que s' (QSem i) = que s (QSem i) \<and> semcnt (semcb s' i) = semcnt (semcb s i) - 1 \<or>
     r = Blocked \<and> set (que s' (QSem i)) = insert t (set (que s (QSem i))) \<and> semcnt (semcb s' i) = semcnt (semcb s i)" by simp_all
qed

lemma fl_wait_refused:
  assumes "in_ddsp s" "tk_wai_sem oid 1 TMO_FEVR s = (r, s')" shows "s' = s" "r \<noteq> Blocked" "r \<noteq> Ret E_OK"
proof -
  have "first_err [CHECK_OBJID NUM_SEMID oid, CHECK_PAR ((1::int) > 0), CHECK_TMOUT TMO_FEVR, CHECK_DISPATCH s] < E_OK"
    using assms(1) by (simp add: check_defs consts_defs)
  then show "s' = s" "r \<noteq> Blocked" "r \<noteq> Ret E_OK" using assms(2) by (auto simp: tk_wai_sem_def Let_def)
qed

text \<open>A forced release takes the task out of the queue; nobody else can go on, since the semaphore is empty.\<close>

lemma fl_forced_result:
  assumes sem: "fl_sem l s" and u: "u \<in> set (que s (QSem (INDEX_OBJ (fl_id l))))"
    and f: "knl_wait_release_ng (\<lambda>t s. Some (sem_rel_wai t s)) u e s = Some s'"
  defines "i \<equiv> INDEX_OBJ (fl_id l)"
  shows "fl_sem l s'" "set (que s' (QSem i)) = set (que s (QSem i)) - {u}" "semcb s' = semcb s"
proof -
  note S = fl_semD[OF sem, folded i_def] and uq = u[folded i_def]
  let ?s1 = "knl_wait_release u s"
  have tl: "u < NUM_TSKID" "in_wait (state (tcb s u))" using core_inv_queue_lt[OF S(1) uq] core_inv_in_wait[OF S(1) uq] .
  have c1: "core_inv ?s1" by (rule core_inv_wait_release[OF S(1) tl])
  have m: "semcb ?s1 = semcb s" "free_semcb ?s1 = free_semcb s" using semst_frame[of ?s1 s] by simp_all
  have q: "que ?s1 (QSem j) = removeAll u (que s (QSem j))" for j by simp
  have x: "sem_inv_x i ?s1"
  proof (rule sem_inv_x_I[OF S(2) uq S(1) m])
    show "que ?s1 (QSem j) = que s (QSem j)" if "j \<noteq> i" for j
    proof -
      have "u \<notin> set (que s (QSem j))" using core_inv_one_queue[OF S(1) uq, of "WSem j"] that by auto
      then show ?thesis by (simp add: q)
    qed
  qed (auto simp: q)
  have w: "INDEX_OBJ (wid (tcb s u)) = i"
  proof -
    have "home (tcb s u) = Some (QSem i)" using uq task_inv_mem[OF core_invD(1)[OF S(1)], of u "QSem i"] by auto
    then show ?thesis using tl(2) by (cases "wspec (tcb s u)") auto
  qed
  have w1: "INDEX_OBJ (wid (tcb ?s1 u)) = i" using w by simp
  note H = sem_rel_wai_inv[OF c1 x w1]
  have r: "sem_req ?s1 = sem_req s" by (simp add: fun_eq_iff sem_req_def)
  have z: "semcnt (semcb s i) < 1" using must_wait_empty[OF S(8)] S(7) uq by fastforce
  have "sem_rel_wai u ?s1 = ?s1"
  proof (cases "que ?s1 (QSem i)")
    case Nil
    then show ?thesis using w1 by (simp add: sem_rel_wai_def sem_chg_pri_def Let_def)
  next
    case (Cons v vs)
    then have "v \<in> set (que s (QSem i))" using q[of i] by (metis list.set_intros(1) set_removeAll DiffD1)
    then have "winfo_sem_cnt (winfo (tcb ?s1 v)) = 1" using S(7)[of v] r by (metis sem_req_def)
    then show ?thesis using w1 Cons z m(1) by (simp add: sem_rel_wai_def sem_chg_pri_def Let_def)
  qed
  then have e: "s' = set_wercd u e ?s1" and k: "core_inv ?s1" "sem_inv ?s1" using f H by (simp_all add: knl_wait_release_ng_def)
  have sc: "semcb s' = semcb s" "free_semcb s' = free_semcb s" using semst_frame[of s' ?s1] m by (simp_all add: e)
  show "semcb s' = semcb s" by (rule sc(1))
  show "set (que s' (QSem i)) = set (que s (QSem i)) - {u}" by (simp add: e)
  have "sem_req s' = sem_req ?s1" by (simp add: fun_eq_iff sem_req_def e)
  then have "sem_inv s'" using k(2) sc m by (simp add: sem_inv_def e)
  moreover have "core_inv s'" using k(1) by (simp add: e)
  ultimately show "fl_sem l s'" using sem sc by (simp add: fl_sem_def)
qed

lemma sig_sem_loop_keeps:
  "semid (semcb (sig_sem_loop i ts s) j) = semid (semcb s j) \<and> maxsem (semcb (sig_sem_loop i ts s) j) = maxsem (semcb s j)"
  by (induction i ts s rule: sig_sem_loop.induct) (auto simp: Let_def upd_semcb_def)

lemma tk_sig_sem_keeps:
  "semid (semcb (snd (tk_sig_sem k n s)) j) = semid (semcb s j)" "maxsem (semcb (snd (tk_sig_sem k n s)) j) = maxsem (semcb s j)"
  by (auto simp: tk_sig_sem_def Let_def sig_sem_loop_keeps) (auto simp: upd_semcb_def)

lemma sem_grant_zero: "\<forall>t\<in>set ts. req t = 1 \<Longrightarrow> sem_grant k req 0 ts = ([], 0)"
  by (induction ts) (cases k; simp)+

lemma fl_signal_result:
  assumes sem: "fl_sem l s" and z: "semcnt (semcb s (INDEX_OBJ (fl_id l))) = 0" and w: "tk_sig_sem (fl_id l) 1 s = (r, s')"
  defines "i \<equiv> INDEX_OBJ (fl_id l)"
  shows "r = Ret E_OK" "fl_sem l s'"
    "que s (QSem i) = [] \<and> que s' (QSem i) = [] \<and> semcnt (semcb s' i) = 1 \<or>
     (\<exists>u us. que s (QSem i) = u # us \<and> set (que s' (QSem i)) = set us \<and> u \<notin> set us \<and> semcnt (semcb s' i) = 0)"
proof -
  note S = fl_semD[OF sem, folded i_def]
  have ok: "sig_sem_ok (fl_id l) 1 s" using sem z S(4,5) by (simp add: sig_sem_ok_def fl_sem_def i_def)
  obtain rs m where g: "sem_grant (sem_cnt_atr (semcb s i)) (sem_req s) (semcnt (semcb s i) + 1) (que s (QSem i)) = (rs, m)" by force
  note R = tk_sig_sem_refines[OF S(1,2) ok g[unfolded i_def], unfolded w fst_conv snd_conv, folded i_def]
  show "r = Ret E_OK" by (rule R(1))
  show "fl_sem l s'" using R(5,6) sem tk_sig_sem_keeps[of "fl_id l" 1 s] w by (simp add: fl_sem_def)
  have d: "distinct (que s (QSem i))" using core_inv_distinct[OF S(1)] .
  show "que s (QSem i) = [] \<and> que s' (QSem i) = [] \<and> semcnt (semcb s' i) = 1 \<or>
     (\<exists>u us. que s (QSem i) = u # us \<and> set (que s' (QSem i)) = set us \<and> u \<notin> set us \<and> semcnt (semcb s' i) = 0)"
  proof (cases "que s (QSem i)")
    case Nil
    then show ?thesis using g z R(3,4) by (simp add: i_def)
  next
    case (Cons u us)
    have r: "\<forall>t\<in>set us. sem_req s t = 1" "sem_req s u = 1" using S(7) Cons by simp_all
    have "rs = [u]" "m = 0" using g z[folded i_def] r(2) sem_grant_zero[OF r(1)] Cons by simp_all
    then show ?thesis using R(3,4) Cons d by auto
  qed
qed

lemma fl_signal_lost:
  assumes sem: "fl_sem l s" and z: "semcnt (semcb s (INDEX_OBJ (fl_id l))) \<ge> 1" and w: "tk_sig_sem (fl_id l) 1 s = (r, s')"
  defines "i \<equiv> INDEX_OBJ (fl_id l)"
  shows "fl_sem l s'" "que s (QSem i) = []" "que s' (QSem i) = []" "semcb s' = semcb s"
proof -
  note S = fl_semD[OF sem, folded i_def]
  have "1 > maxsem (semcb s i) - semcnt (semcb s i)" using z S(5) by (simp add: i_def)
  moreover have "\<not> first_err [CHECK_OBJID NUM_SEMID (fl_id l), CHECK_PAR ((1::int) > 0)] < E_OK"
    using sem by (simp add: fl_sem_def CHECK_OBJID_def CHECK_PAR_def)
  ultimately have e: "s' = END_CRITICAL_SECTION s" using w S(4) by (simp add: tk_sig_sem_def Let_def i_def split: if_splits)
  show q: "que s (QSem i) = []" using must_wait_empty[OF S(8)] S(7) z by (simp add: i_def)
  then show "que s' (QSem i) = []" by (simp add: e)
  show c: "semcb s' = semcb s" using semst_frame(1)[of s' s] by (simp add: e)
  have "sem_inv s'" using S(2) by (simp add: e)
  then show "fl_sem l s'" using sem S(1) c by (simp add: fl_sem_def e)
qed

section \<open>The invariant\<close>

lemma fl_inv_upd:
  assumes "fl_inv (l, ph, n, d, s)" "fl_sem l' s'" "{u. (ph(t := b)) u = Waits} = set (que s' (QSem (INDEX_OBJ (fl_id l'))))"
  defines "dc \<equiv> (if b \<in> {Going, Waits, Holds} then 1 else 0) - (if ph t \<in> {Going, Waits, Holds} then 1 else (0 :: int))"
  defines "dt \<equiv> (if b \<in> {Holds, Signals} then 1 else 0) - (if ph t \<in> {Holds, Signals} then 1 else 0)
      + semcnt (semcb s' (INDEX_OBJ (fl_id l'))) - semcnt (semcb s (INDEX_OBJ (fl_id l)))"
  assumes "dc \<le> fl_cnt l' - fl_cnt l" "d' = 0 \<Longrightarrow> d = 0 \<and> dc = fl_cnt l' - fl_cnt l"
    "dt \<le> taken l' - taken l + int n' - int n" "n' = 0 \<Longrightarrow> d' = 0 \<Longrightarrow> n = 0 \<and> d = 0 \<and> dt = taken l' - taken l"
  shows "fl_inv (l', ph(t := b), n', d', s')"
proof -
  have f: "finite {t. ph t \<noteq> Outside}" using assms(1) by simp
  note m = num_upd[OF f, of _ t b]
  have 1: "counted (ph(t := b)) = counted ph + dc" by (auto simp: m counted_def dc_def)
  have 2: "tokens (ph(t := b)) l' s' = tokens ph l s + dt" by (auto simp: m tokens_def dt_def)
  have I: "counted ph \<le> fl_cnt l + 1" "d = 0 \<Longrightarrow> counted ph = fl_cnt l + 1" "tokens ph l s \<le> taken l + int n"
    "n = 0 \<Longrightarrow> d = 0 \<Longrightarrow> tokens ph l s = taken l" using assms(1) by simp_all
  have "d' = 0 \<longrightarrow> counted (ph(t := b)) = fl_cnt l' + 1" using 1 I(2) assms(7) by auto
  moreover have "n' = 0 \<and> d' = 0 \<longrightarrow> tokens (ph(t := b)) l' s' = taken l'" using 2 I(4) assms(9) by auto
  moreover have "counted (ph(t := b)) \<le> fl_cnt l' + 1" "tokens (ph(t := b)) l' s' \<le> taken l' + int n'"
    using 1 2 I(1,3) assms(6,8) by linarith+
  ultimately show ?thesis using assms(2,3) finite_phase_upd[OF f] by simp
qed

lemma counted_bounds:
  assumes "fl_inv (l, ph, n, d, s)" shows "fl_cnt l \<ge> -1" "ph t \<in> {Going, Waits, Holds} \<Longrightarrow> fl_cnt l \<ge> 0"
proof -
  have f: "finite {t. ph t \<noteq> Outside}" and c: "counted ph \<le> fl_cnt l + 1" using assms by simp_all
  note z = num_nonneg[of ph Going] num_nonneg[of ph Waits] num_nonneg[of ph Holds]
  show "fl_cnt l \<ge> -1" using c z by (simp add: counted_def)
  assume t: "ph t \<in> {Going, Waits, Holds}"
  then have "num ph (ph t) \<ge> 1" using num_pos[OF f, of t "ph t"] by auto
  then show "fl_cnt l \<ge> 0" using c z t by (auto simp: counted_def)
qed

lemma CreateLock_inv:
  assumes inv: "core_inv s0" "sem_inv s0" and c: "CreateLock nm l0 s0 = (E_OK, l, s)" shows "fl_inv (l, \<lambda>_. Outside, 0, 0, s)"
proof -
  define pk where "pk = \<lparr>csem_exinf = 0x434F4C46, csem_sematr = TA_TPRI, csem_isemcnt = 0, csem_maxsem = 1\<rparr>"
  have ok: "tk_cre_sem pk s0 = (Ret (fst (cre_sem pk s0)), END_CRITICAL_SECTION (snd (cre_sem pk s0)))"
    by (simp add: tk_cre_sem_def pk_def Let_def CHECK_RSATR_def CHECK_PAR_def consts_defs split_beta)
  obtain i fs where f: "free_semcb s0 = i # fs"
    using c ok[unfolded pk_def] by (cases "free_semcb s0") (auto simp: CreateLock_def cre_sem_def consts_defs)
  have i: "i < NUM_SEMID" "semid (semcb s0 i) = 0" using sem_invD(1)[OF inv(2)] f by (auto simp: cb_table_inv_def)
  have s: "s = snd (tk_cre_sem pk s0)" "fl_id l = ID_OBJ i" "fl_cnt l = -1"
    using c ok f unfolding CreateLock_def pk_def[symmetric] by (auto simp: cre_sem_def ID_OBJ_def E_OK_def Let_def)
  have k: "core_inv s" "sem_inv s" using tk_cre_sem_inv[OF inv, of pk] s(1) by simp_all
  have x: "INDEX_OBJ (ID_OBJ i) = i" "CHK_OBJID NUM_SEMID (ID_OBJ i)" using i(1) by (auto simp: INDEX_OBJ_def ID_OBJ_def CHK_OBJID_def)
  have cb: "semcb s i = (semcb s0 i)\<lparr>semid := ID_OBJ i, sem_exinf := 0x434F4C46, sematr := TA_TPRI, semcnt := 0, maxsem := 1\<rparr>" "que s (QSem i) = []"
    using f unfolding s(1) ok by (simp_all add: cre_sem_def Let_def upd_semcb_def pk_def que_init_def)
  then have "fl_sem l s" using k x by (simp add: fl_sem_def s(2) ID_OBJ_def)
  then show ?thesis using cb s(2,3) x by (simp add: num_def counted_def tokens_def taken_def)
qed

lemma fl_signal_inv:
  assumes inv: "fl_inv (l, ph, n, d, s)" and sg: "ph t = Signals" and w0: "tk_sig_sem (fl_id l) 1 s = (r, s')"
  shows "fl_inv (l, \<lambda>u. if u = t then Outside
      else if ph u = Waits \<and> u \<notin> set (que s' (QSem (INDEX_OBJ (fl_id l)))) then Holds else ph u, n, d, s')"
proof -
  let ?i = "INDEX_OBJ (fl_id l)"
  have sem: "fl_sem l s" and f: "finite {t. ph t \<noteq> Outside}" and q: "{u. ph u = Waits} = set (que s (QSem ?i))" using inv by simp_all
  let ?ph = "\<lambda>u. if u = t then Outside else if ph u = Waits \<and> u \<notin> set (que s' (QSem ?i)) then Holds else ph u"
  have w: "{u. (ph(t := Outside)) u = Waits} = {u. ph u = Waits}" using sg by auto
  have s1: "num ph Signals \<ge> 1" by (rule num_pos[OF f sg]) simp
  show ?thesis
  proof (cases "semcnt (semcb s ?i) \<ge> 1")
    case True
    note L = fl_signal_lost[OF sem True w0]
    have "ph u \<noteq> Waits" for u using q L(2) by auto
    then have p: "?ph = ph(t := Outside)" by auto
    have "tokens ph l s \<ge> 2" using True s1 num_nonneg[of ph Holds] by (simp add: tokens_def)
    then have nd: "\<not> (n = 0 \<and> d = 0)" using inv by (auto simp: taken_def split: if_splits)
    show ?thesis unfolding p using w q L nd sg inv by (intro fl_inv_upd[OF inv]) auto
  next
    case False
    then have z: "semcnt (semcb s ?i) = 0" using fl_semD(6)[OF sem] by simp
    note R = fl_signal_result[OF sem z w0]
    from R(3) show ?thesis
    proof (elim disjE exE conjE)
      assume e: "que s (QSem ?i) = []" "que s' (QSem ?i) = []" "semcnt (semcb s' ?i) = 1"
      have "ph u \<noteq> Waits" for u using q e(1) by auto
      then have p: "?ph = ph(t := Outside)" by auto
      show ?thesis unfolding p using w q e z R(2) sg by (intro fl_inv_upd[OF inv]) auto
    next
      fix u us
      assume e: "que s (QSem ?i) = u # us" "set (que s' (QSem ?i)) = set us" "u \<notin> set us" "semcnt (semcb s' ?i) = 0"
      have wu: "ph v = Waits \<longleftrightarrow> v = u \<or> v \<in> set us" for v using q e(1) by auto
      have p: "?ph = (ph(u := Holds))(t := Outside)" using wu e(2,3) sg by (auto simp: fun_eq_iff)
      have ut: "u \<noteq> t" "ph u = Waits" using wu[of t] wu[of u] sg by auto
      have f1: "finite {v. (ph(u := Holds)) v \<noteq> Outside}" by (rule finite_phase_upd[OF f])
      let ?q = "(ph(u := Holds))(t := Outside)"
      have m: "num ?q Going = num ph Going" "num ?q Waits = num ph Waits - 1" "num ?q Holds = num ph Holds + 1"
        "num ?q Signals = num ph Signals - 1"
        using ut sg by (simp_all add: num_upd[where ph = "ph(u := Holds)", OF f1] num_upd[where ph = ph, OF f])
      have ws: "{v. ?q v = Waits} = set (que s' (QSem ?i))" using wu wu[of t] e(2,3) sg by auto
      have "counted ?q = counted ph" "tokens ?q l s' = tokens ph l s" using m e(4) z by (simp_all add: counted_def tokens_def)
      then have "fl_inv (l, ?q, n, d, s')"
        using inv R(2) finite_phase_upd[OF f1, of t Outside] ws unfolding fl_inv.simps by presburger
      then show ?thesis unfolding p .
    qed
  qed
qed

lemma fl_step_inv: "fl_step x y \<Longrightarrow> fl_inv x \<Longrightarrow> fl_inv y"
proof (induction rule: fl_step.induct)
  case (inc s t ph l c l' n d)
  have e: "c = fl_cnt l + 1" "l' = l\<lparr>fl_cnt := c\<rparr>" using inc.hyps(3) by (auto simp: Inc_def)
  have w: "{u. (ph(t := if c > 0 then Going else Holds)) u = Waits} = {u. ph u = Waits}" using inc.hyps(2) by auto
  show ?case
  proof (intro fl_inv_upd[OF inc.prems])
    show "fl_sem l' s" using inc.prems e(2) by (simp add: fl_sem_def)
    show "{u. (ph(t := if c > 0 then Going else Holds)) u = Waits} = set (que s (QSem (INDEX_OBJ (fl_id l'))))"
      unfolding w using inc.prems e(2) by simp
  qed (use inc.hyps(2) e counted_bounds(1)[OF inc.prems] in \<open>auto simp: taken_def\<close>)
next
  case (wait s t ph l r s' n d)
  have sem: "fl_sem l s" and q: "{u. ph u = Waits} = set (que s (QSem (INDEX_OBJ (fl_id l))))" using wait.prems by simp_all
  have p: "{u. (ph(t := if r = Blocked then Waits else Holds)) u = Waits} = (if r = Blocked then insert t {u. ph u = Waits} else {u. ph u = Waits})"
    using wait.hyps(3) by auto
  show ?case
  proof (cases "in_ddsp s")
    case True
    then have "s' = s" "r \<noteq> Blocked" "r \<noteq> Ret E_OK" using fl_wait_refused[OF _ wait.hyps(4)] by blast+
    then show ?thesis using sem q p wait.hyps(3) by (intro fl_inv_upd[OF wait.prems]) auto
  next
    case False
    then have "state (tcb s t) = TS_READY" using wait.hyps(1,2) by (auto simp: run_ok_def)
    note W = fl_wait_result[OF sem wait.hyps(1) this False wait.hyps(4)]
    then show ?thesis using q p wait.hyps(3) by (intro fl_inv_upd[OF wait.prems]) auto
  qed
next
  case (dec s t ph l c l' n d)
  have e: "c = fl_cnt l" "l' = l\<lparr>fl_cnt := c - 1\<rparr>" using dec.hyps(3) by (auto simp: Dec_def)
  have w: "{u. (ph(t := if c > 0 then Signals else Outside)) u = Waits} = {u. ph u = Waits}" using dec.hyps(2) by auto
  show ?case
  proof (intro fl_inv_upd[OF dec.prems])
    show "fl_sem l' s" using dec.prems e(2) by (simp add: fl_sem_def)
    show "{u. (ph(t := if c > 0 then Signals else Outside)) u = Waits} = set (que s (QSem (INDEX_OBJ (fl_id l'))))"
      unfolding w using dec.prems e(2) by simp
  qed (use dec.hyps(2) e counted_bounds(2)[OF dec.prems, of t] in \<open>auto simp: taken_def\<close>)
next
  case (sig s t ph l r s' n d)
  from fl_signal_inv[OF sig.prems sig.hyps(2,3)] show ?case .
next
  case (forced ph u e s s' l n d)
  have sem: "fl_sem l s" and q: "{u. ph u = Waits} = set (que s (QSem (INDEX_OBJ (fl_id l))))" using forced.prems by simp_all
  have "u \<in> set (que s (QSem (INDEX_OBJ (fl_id l))))" using forced.hyps(1) q by blast
  note F = fl_forced_result[OF sem this forced.hyps(2)]
  have "{v. (ph(u := Holds)) v = Waits} = {v. ph v = Waits} - {u}" by auto
  then show ?case using F q forced.hyps(1) by (intro fl_inv_upd[OF forced.prems]) auto
next
  case (ended s' l s ph u n d)
  have "{v. (ph(u := Outside)) v = Waits} = {v. ph v = Waits} - {u}" by auto
  moreover have "fl_sem l s'" using ended by (simp add: fl_sem_def)
  ultimately show ?case using ended by (intro fl_inv_upd[OF ended.prems]) auto
next
  case (other s' l s ph n d)
  then show ?case by (simp add: fl_sem_def tokens_def)
qed

lemma fl_reachable_inv: "fl_reachable x \<Longrightarrow> fl_inv x"
  by (induction rule: fl_reachable.induct) (auto intro: CreateLock_inv fl_step_inv simp del: fl_inv.simps)

text \<open>The calls are these steps, as long as nothing interrupts them.\<close>

lemma Lock_steps:
  assumes "ctxtsk s = Some t" "run_ok s" "ph t = Outside" "Lock l s = (b, l', s')"
  shows "\<exists>ph' n'. fl_step\<^sup>*\<^sup>* (l, ph, n, d, s) (l', ph', n', d, s') \<and> ph' t = (if b then Waits else Holds)"
proof -
  obtain c l1 where i: "Inc l = (c, l1)" by force
  note 1 = fl_step.inc[of s t ph l c l1 n d, OF assms(1,3) i]
  show ?thesis
  proof (cases "c > 0")
    case False
    then have "l' = l1" "s' = s" "\<not> b" using assms(4) i by (auto simp: Lock_def)
    then show ?thesis using 1 False by (intro exI[of _ "ph(t := Holds)"] exI[of _ n]) auto
  next
    case True
    obtain r s1 where w: "tk_wai_sem (fl_id l1) 1 TMO_FEVR s = (r, s1)" by force
    have e: "l' = l1" "s' = s1" "b = (r = Blocked)" using assms(4) i w True by (auto simp: Lock_def)
    let ?n = "if r = Blocked \<or> r = Ret E_OK then n else n + 1" and ?p = "(ph(t := Going))(t := if r = Blocked then Waits else Holds)"
    have "fl_step (l1, ph(t := Going), n, d, s) (l1, ?p, ?n, d, s1)"
      by (rule fl_step.wait[OF assms(1,2) _ w]) simp
    then show ?thesis using 1 True e
      by (intro exI[of _ ?p] exI[of _ ?n]) (auto intro: converse_rtranclp_into_rtranclp)
  qed
qed

lemma Unlock_steps:
  assumes "ctxtsk s = Some t" "ph t = Holds" "Unlock l s = (l', s')"
  shows "\<exists>ph'. fl_step\<^sup>*\<^sup>* (l, ph, n, d, s) (l', ph', n, d, s') \<and> ph' t = Outside"
proof -
  obtain c l1 where i: "Dec l = (c, l1)" by force
  note 1 = fl_step.dec[of s t ph l c l1 n d, OF assms(1,2) i]
  show ?thesis
  proof (cases "c > 0")
    case False
    then have "l' = l1" "s' = s" using assms(3) i by (auto simp: Unlock_def)
    then show ?thesis using 1 False by (intro exI[of _ "ph(t := Outside)"]) auto
  next
    case True
    obtain r s1 where w: "tk_sig_sem (fl_id l1) 1 s = (r, s1)" by force
    have e: "l' = l1" "s' = s1" using assms(3) i w True by (auto simp: Unlock_def)
    have 2: "fl_step (l, ph, n, d, s) (l1, ph(t := Signals), n, d, s)" using 1 True by simp
    from fl_step.sig[OF assms(1) _ w, of "ph(t := Signals)" n d]
    obtain ph' where "fl_step (l1, ph(t := Signals), n, d, s) (l1, ph', n, d, s1)" "ph' t = Outside" by fastforce
    then show ?thesis using 2 e by (meson converse_rtranclp_into_rtranclp r_into_rtranclp)
  qed
qed

definition sample_lock :: "FastLock \<times> unit semstate_scheme" where
  "sample_lock = snd (CreateLock 0 \<lparr>fl_cnt = 0, fl_id = 0, fl_name = 0\<rparr> (sample_sem ()))"

lemma sample_lock_create:
  "CreateLock 0 \<lparr>fl_cnt = 0, fl_id = 0, fl_name = 0\<rparr> (sample_sem ()) = (E_OK, sample_lock)" "ctxtsk (snd sample_lock) = Some 0"
proof -
  have f: "[Suc 0..<128] = Suc 0 # [2..<128]" by (subst upt_conv_Cons) (simp_all add: numeral_2_eq_2)
  have "fst (CreateLock 0 \<lparr>fl_cnt = 0, fl_id = 0, fl_name = 0\<rparr> (sample_sem ())) = E_OK"
    by (simp add: CreateLock_def tk_cre_sem_def cre_sem_def Let_def CHECK_RSATR_def CHECK_PAR_def consts_defs ID_OBJ_def f)
  then show "CreateLock 0 \<lparr>fl_cnt = 0, fl_id = 0, fl_name = 0\<rparr> (sample_sem ()) = (E_OK, sample_lock)"
    unfolding sample_lock_def by (metis prod.collapse)
  show "ctxtsk (snd sample_lock) = Some 0"
    by (simp add: sample_lock_def CreateLock_def tk_cre_sem_def cre_sem_def Let_def CHECK_RSATR_def CHECK_PAR_def consts_defs ID_OBJ_def f que_init_def)
qed

lemma sample_lock_held:
  "fl_reachable (snd (Inc (fst sample_lock)), (\<lambda>_. Outside)(0 := Holds), 0, 0, snd sample_lock)"
proof -
  have r: "fl_reachable (fst sample_lock, \<lambda>_. Outside, 0, 0, snd sample_lock)"
    using fl_reachable.start[of "sample_sem ()" 0 "\<lparr>fl_cnt = 0, fl_id = 0, fl_name = 0\<rparr>" "fst sample_lock" "snd sample_lock"]
      sample_lock_create(1) by simp
  have n: "fl_cnt (fst sample_lock) = -1" using fl_reachable_inv[OF r] by (simp add: num_def counted_def)
  note c = sample_lock_create(2)
  have "fl_step (fst sample_lock, \<lambda>_. Outside, 0, 0, snd sample_lock)
      (snd (Inc (fst sample_lock)), (\<lambda>_. Outside)(0 := if fst (Inc (fst sample_lock)) > 0 then Going else Holds), 0, 0, snd sample_lock)"
    by (rule fl_step.inc[OF c]) simp_all
  then show ?thesis using fl_reachable.step[OF r] n by (simp add: Inc_def)
qed

text \<open>
  A second task, which runs with dispatching disabled, calls \<^verbatim>\<open>Lock\<close> on the lock that the first one holds: the
  wait is refused, and both are inside.
\<close>

definition sample_refused :: "unit fl_state" where
  "sample_refused = (let s = (snd sample_lock)\<lparr>ctxtsk := Some 1, dispatch_disabled := 1\<rparr>; l = snd (Inc (fst sample_lock))
     in (snd (Inc l), (\<lambda>_. Outside)(0 := Holds, 1 := Holds), 1, 0, s))"

lemma sample_lock_refused: "fl_reachable sample_refused"
proof -
  let ?s = "snd sample_lock" let ?s1 = "?s\<lparr>ctxtsk := Some 1, dispatch_disabled := 1\<rparr>" let ?l = "snd (Inc (fst sample_lock))"
  let ?p = "(\<lambda>_. Outside)(0 := Holds)" let ?l2 = "snd (Inc ?l)"
  note h = sample_lock_held and I = fl_reachable_inv[OF sample_lock_held]
  have k: "core_inv ?s" "sem_inv ?s" using I by (simp_all add: fl_sem_def)
  have r: "sem_req ?s1 = sem_req ?s" by (simp add: fun_eq_iff sem_req_def)
  have k1: "core_inv ?s1" using k(1) by (simp add: inv_defs rq_inv_def klock_free_def knl_ready_queue_top_def NUM_TSKID_def)
  have k2: "sem_inv ?s1" using k(2) unfolding sem_inv_def r by simp
  have n: "fl_cnt ?l = 0" using I num_upd[of "\<lambda>_. Outside" _ 0 Holds] by (simp add: counted_def num_def)
  have 1: "fl_reachable (?l, ?p, 0, 0, ?s1)" by (rule fl_reachable.step[OF h fl_step.other]) (use k1 k2 in simp_all)
  have "fl_step (?l, ?p, 0, 0, ?s1) (?l2, ?p(1 := if fst (Inc ?l) > 0 then Going else Holds), 0, 0, ?s1)"
    by (rule fl_step.inc) simp_all
  moreover have "fst (Inc ?l) > 0" using n by (simp add: Inc_def[of ?l])
  ultimately have 2: "fl_reachable (?l2, ?p(1 := Going), 0, 0, ?s1)" using fl_reachable.step[OF 1] by (simp only: if_True)
  have ds: "in_ddsp ?s1" by (simp add: in_ddsp_def)
  then have "run_ok ?s1" by (simp add: run_ok_def)
  obtain r s' where w: "tk_wai_sem (fl_id ?l2) 1 TMO_FEVR ?s1 = (r, s')" by force
  note R = fl_wait_refused[OF ds w]
  from fl_reachable.step[OF 2 fl_step.wait[OF _ \<open>run_ok ?s1\<close> _ w]] R show ?thesis
    by (simp add: sample_refused_def Let_def)
qed

section \<open>Exclusion\<close>

text \<open>
  C22. A fast lock excludes and passes on. In every state that an interleaving of tasks reaches, in which \<open>n\<close> waits of
  \<^verbatim>\<open>Lock\<close> were refused or ended by force, at most \<open>1 + n\<close> tasks are inside the lock or on their way to signal its
  release: as long as no wait is broken this is one task, and a broken wait can let one more in, because \<^verbatim>\<open>Lock\<close> does
  not look at the result of its wait. As long as no wait is broken and no task is terminated while it uses the lock, there is
  such a task whenever a task waits, and the waiting task will get its release.
\<close>

theorem fast_lock_excludes:
  assumes "fl_reachable (l, ph, n, d, s)"
  shows "card {t. ph t \<in> {Holds, Signals}} \<le> 1 + n \<and>
    (n = 0 \<and> d = 0 \<longrightarrow> {t. ph t = Waits} = {} \<or> card {t. ph t \<in> {Holds, Signals}} = 1)"
proof -
  let ?i = "INDEX_OBJ (fl_id l)"
  have I: "fl_inv (l, ph, n, d, s)" by (rule fl_reachable_inv[OF assms])
  then have f: "finite {t. ph t \<noteq> Outside}" and sem: "fl_sem l s" by simp_all
  have fin: "finite {t. ph t = p}" if "p \<noteq> Outside" for p by (rule finite_subset[OF _ f]) (use that in auto)
  have "{t. ph t \<in> {Holds, Signals}} = {t. ph t = Holds} \<union> {t. ph t = Signals}" by auto
  then have c: "int (card {t. ph t \<in> {Holds, Signals}}) = num ph Holds + num ph Signals"
    by (simp add: num_def card_Un_disjoint fin disjoint_iff)
  have "tokens ph l s \<le> taken l + int n" "taken l \<le> 1" using I by (simp_all add: taken_def)
  then have le: "card {t. ph t \<in> {Holds, Signals}} \<le> 1 + n" using c fl_semD(6)[OF sem] by (simp add: tokens_def)
  moreover have "card {t. ph t \<in> {Holds, Signals}} = 1" if w: "ph w = Waits" and nd: "n = 0 \<and> d = 0" for w
  proof -
    have "que s (QSem ?i) \<noteq> []" using I w by auto
    then have "semcnt (semcb s ?i) = 0"
      using must_wait_empty[OF fl_semD(8)[OF sem]] fl_semD(6,7)[OF sem] by fastforce
    moreover have "tokens ph l s = 1" using I nd counted_bounds(2)[OF I, of w] w by (simp add: taken_def)
    ultimately show ?thesis using c by (simp add: tokens_def)
  qed
  ultimately show ?thesis by blast
qed

theorem fast_lock_excludes_witness:
  "let ph = (\<lambda>_ :: nat. Outside)(0 := Holds); l = snd (Inc (fst sample_lock)); ph2 = ph(1 := Holds)
   in fl_reachable (l, ph, 0, 0, snd sample_lock) \<and> card {t. ph t \<in> {Holds, Signals}} \<le> 1 \<and>
     fl_reachable (snd (Inc l), ph2, 1, 0, (snd sample_lock)\<lparr>ctxtsk := Some 1, dispatch_disabled := 1\<rparr>) \<and>
     card {t. ph2 t \<in> {Holds, Signals}} = 2"
proof -
  have "{t. t \<noteq> 0 \<longrightarrow> t = Suc 0} = {0, Suc 0}" by auto
  then show ?thesis
    using fast_lock_excludes[OF sample_lock_held] sample_lock_held sample_lock_refused by (simp add: Let_def sample_refused_def)
qed

section \<open>The loop of the multi-lock ends\<close>

definition no_bit :: "ID \<Rightarrow> UINT \<Rightarrow> 'a flgstate_scheme \<Rightarrow> bool" where
  "no_bit oid ptn s \<longleftrightarrow> flgptn (flgcb s (INDEX_OBJ oid)) AND ptn = 0"

lemma END_flgcb: "flgcb (END_CRITICAL_SECTION s) = flgcb s"
  by (cases s) (simp add: END_CRITICAL_SECTION_def knl_dispatch_def)

lemma wai_bit_result:
  assumes "tk_wai_flg oid ptn (TWF_ORW OR TWF_BITCLR) p tmo s = (Ret e, s')" "\<not> e < E_OK"
  shows "e = E_OK" "no_bit oid ptn s'" "\<not> no_bit oid ptn s"
proof -
  have m: "(TWF_ORW OR TWF_BITCLR) AND TWF_ORW \<noteq> 0" "(TWF_ORW OR TWF_BITCLR) AND TWF_BITCLR \<noteq> 0" "(TWF_ORW OR TWF_BITCLR) AND TWF_CLR = 0"
    by (simp_all add: TWF_ORW_def TWF_BITCLR_def TWF_CLR_def)
  have z: "(x AND NOT ptn) AND ptn = 0" for x :: UINT by (rule bit_eqI) (auto simp: bit_and_iff bit_not_iff)
  have "e = E_OK \<and> no_bit oid ptn s' \<and> \<not> no_bit oid ptn s"
  proof (cases "wai_flg_ok oid ptn (TWF_ORW OR TWF_BITCLR) tmo s")
    case False
    then show ?thesis using tk_wai_flg_error(1)[OF False, of p] assms by (simp add: E_OK_def)
  next
    case True
    show ?thesis
    proof (cases "knl_eventflag_cond (flgptn (flgcb s (INDEX_OBJ oid))) ptn (TWF_ORW OR TWF_BITCLR)")
      case met: True
      note M = tk_wai_flg_met[OF True met, of p]
      have "flg_clear (flgptn (flgcb s (INDEX_OBJ oid))) ptn (TWF_ORW OR TWF_BITCLR) AND ptn = 0" using m z by (simp add: flg_clear_def)
      moreover have "\<not> no_bit oid ptn s" using met m by (simp add: knl_eventflag_cond_def no_bit_def)
      ultimately show ?thesis using M assms(1) by (auto simp: no_bit_def END_flgcb upd_flgcb_def)
    next
      case False
      have "\<not> in_indp s" using True by (simp add: wai_flg_ok_def in_ddsp_def)
      then obtain c where "ctxtsk s = Some c" by (auto simp: in_indp_def)
      from tk_wai_flg_waits[OF True this False, of p] assms show ?thesis by (auto simp: wait_ret_def consts_defs split: if_splits)
    qed
  qed
  then show "e = E_OK" "no_bit oid ptn s'" "\<not> no_bit oid ptn s" by simp_all
qed

lemma mlock_loop_free:
  assumes "ml_flg l AND push_bit no 1 = 0"
  shows "mlock_loop no p tmo l s = Some (Ret E_OK, DEC (snd (BTS no l)), s)"
  using assms by (subst mlock_loop.simps) (simp add: BTS_def)

lemma BTS_taken: "ml_flg l AND push_bit no 1 \<noteq> 0 \<Longrightarrow> BTS no l = (True, l\<lparr>ml_flg := ml_flg l OR push_bit no 1\<rparr>)"
  "ml_flg (l\<lparr>ml_flg := ml_flg l OR push_bit no 1\<rparr>) AND push_bit no 1 = push_bit no 1"
  by (simp_all add: BTS_def bit_eq_iff bit_and_iff bit_or_iff, blast?)

text \<open>Once the lock is found taken, the kernel is asked at most twice: the bit that made the first wait return is cleared by it.\<close>

lemma mlock_loop_asked:
  assumes "ml_flg l AND push_bit no 1 \<noteq> 0" "no_bit (ml_id l) (push_bit no 1) s"
  shows "\<exists>r s'. mlock_loop no p tmo l s = Some (r, (if r = Blocked then id else DEC) (snd (BTS no l)), s') \<and> r \<noteq> Ret E_OK"
proof -
  obtain r s' where w: "tk_wai_flg (ml_id l) (push_bit no 1) (TWF_ORW OR TWF_BITCLR) p tmo s = (r, s')" by force
  show ?thesis
  proof (cases r)
    case Blocked
    then show ?thesis using w BTS_taken(1)[OF assms(1)] by (subst mlock_loop.simps) simp
  next
    case (Ret e)
    then have e: "e < E_OK" using wai_bit_result(3)[of "ml_id l" "push_bit no 1" p tmo s e s'] w assms(2) by blast
    then show ?thesis using w Ret BTS_taken(1)[OF assms(1)] by (subst mlock_loop.simps) (auto simp: E_OK_def)
  qed
qed

lemma mlock_loop_result:
  assumes "ml_flg l AND push_bit no 1 \<noteq> 0"
  shows "\<exists>r s'. mlock_loop no p tmo l s = Some (r, (if r = Blocked then id else DEC) (snd (BTS no l)), s') \<and> r \<noteq> Ret E_OK"
proof (cases "no_bit (ml_id l) (push_bit no 1) s")
  case True
  then show ?thesis by (rule mlock_loop_asked[OF assms])
next
  case False
  obtain r s' where w: "tk_wai_flg (ml_id l) (push_bit no 1) (TWF_ORW OR TWF_BITCLR) p tmo s = (r, s')" by force
  let ?l = "l\<lparr>ml_flg := ml_flg l OR push_bit no 1\<rparr>"
  note t = BTS_taken(1)[OF assms]
  have p: "push_bit no (1 :: UINT) \<noteq> 0" using assms by (metis and_zero_eq)
  have tl: "ml_flg ?l AND push_bit no 1 \<noteq> 0" "snd (BTS no ?l) = ?l"
    unfolding BTS_taken(2) using p by (simp_all add: BTS_def or.assoc)
  show ?thesis
  proof (cases r)
    case Blocked
    then show ?thesis using w t by (subst mlock_loop.simps) simp
  next
    case (Ret e)
    show ?thesis
    proof (cases "e < E_OK")
      case True
      then show ?thesis using w Ret t by (subst mlock_loop.simps) (auto simp: E_OK_def)
    next
      case False
      have "no_bit (ml_id ?l) (push_bit no 1) s'" using wai_bit_result(2)[OF w[unfolded Ret] False] by simp
      moreover have "mlock_loop no p tmo l s = mlock_loop no p tmo ?l s'" using w Ret False t by (subst mlock_loop.simps) simp
      ultimately show ?thesis using mlock_loop_asked[OF tl(1)] tl(2) t by (metis snd_conv)
    qed
  qed
qed

text \<open>
  C29. A multi-lock call ends, whatever the kernel answers: it returns or leaves its caller waiting; it gets the lock exactly
  when the bit of the lock was clear; afterwards the bit is set, no other bit has changed, and the call is counted as
  waiting exactly if it waits.
\<close>

theorem multi_lock_call_ends:
  "\<exists>r l' s'. MLockTmo no p tmo l s = Some (r, l', s') \<and> (r = Ret E_OK) = (ml_flg l AND push_bit no 1 = 0) \<and>
     l' = l\<lparr>ml_flg := ml_flg l OR push_bit no 1, ml_wai := ml_wai l + (if r = Blocked then 1 else 0)\<rparr>"
proof (cases "ml_flg l AND push_bit no 1 = 0")
  case True
  then have "MLockTmo no p tmo l s = Some (Ret E_OK, DEC (snd (BTS no (INC l))), s)"
    unfolding MLockTmo_def by (intro mlock_loop_free) (simp add: INC_def)
  then show ?thesis using True by (simp add: DEC_def BTS_def INC_def)
next
  case False
  then have "ml_flg (INC l) AND push_bit no 1 \<noteq> 0" by (simp add: INC_def)
  from mlock_loop_result[OF this, of p tmo s] obtain r s'
    where "MLockTmo no p tmo l s = Some (r, (if r = Blocked then id else DEC) (snd (BTS no (INC l))), s')" "r \<noteq> Ret E_OK"
    unfolding MLockTmo_def by blast
  then show ?thesis using False by (auto simp: DEC_def BTS_def INC_def)
qed

end
