(* ===== verification/Tmonitor.thy ===== *)
theory Tmonitor
  imports Prelude
begin

text \<open>
  The monitor library of \<^verbatim>\<open>src/lib/libtm\<close>: console input and output (\<^verbatim>\<open>libtm.c\<close>) and formatted output
  (\<^verbatim>\<open>libtm_printf.c\<close>). A C string is its characters without the final null. The console is the characters still to be
  read and those written; a call that waits for input that does not come has no result. The variable arguments are a list;
  a conversion that finds none, or one of the wrong kind, is undefined in C and has no result here. The type \<^verbatim>\<open>H\<close> is
  16 bits wide, and assignments to it are truncated.
\<close>

section \<open>Console\<close>

record console =
  con_in :: string
  con_out :: string

definition CHR_CR :: char where "CHR_CR = CHR 0x0D"
definition CHR_ETX :: char where "CHR_ETX = CHR 0x03"
definition CHR_LF :: char where "CHR_LF = CHR 0x0A"

definition tm_snd_dat :: "string \<Rightarrow> console \<Rightarrow> console" where
  "tm_snd_dat buf k = k\<lparr>con_out := con_out k @ buf\<rparr>"

definition tm_rcv_dat :: "nat \<Rightarrow> console \<Rightarrow> (string \<times> console) option" where
  "tm_rcv_dat sz k = (if length (con_in k) < sz then None else Some (take sz (con_in k), k\<lparr>con_in := drop sz (con_in k)\<rparr>))"

definition tm_getchar :: "console \<Rightarrow> (char \<times> console) option" where
  "tm_getchar k = map_option (\<lambda>(p, k1). (hd p, k1)) (tm_rcv_dat 1 k)"

definition tm_putchar :: "char \<Rightarrow> console \<Rightarrow> console" where
  "tm_putchar c k = tm_snd_dat [c] (if c = CHR_LF then tm_snd_dat [CHR_CR] k else k)"

definition tm_putstring :: "string \<Rightarrow> console \<Rightarrow> console" where
  "tm_putstring buff k = fold tm_putchar buff k"

text \<open>The line read so far; the result is its length, or -1 after the interrupt character.\<close>

function getline_loop :: "string \<Rightarrow> console \<Rightarrow> ((int \<times> string) \<times> console) option" where
  "getline_loop buff k =
     (case tm_rcv_dat 1 k of
        None \<Rightarrow> None
      | Some (p, k1) \<Rightarrow>
          let k2 = tm_snd_dat p k1
          in if hd p = CHR_CR then Some ((int (length buff), buff), tm_snd_dat [CHR_LF] k2)
             else if hd p = CHR_ETX then Some ((-1, buff), k2)
             else getline_loop (buff @ p) k2)"
  by pat_completeness auto
termination
  by (relation "measure (\<lambda>(b, k). length (con_in k))") (auto simp: tm_rcv_dat_def tm_snd_dat_def split: if_splits)

declare getline_loop.simps [simp del]

definition tm_getline :: "console \<Rightarrow> ((int \<times> string) \<times> console) option" where
  "tm_getline k = getline_loop [] k"

section \<open>Integers\<close>

definition H :: "int \<Rightarrow> int" where
  "H x = sint (word_of_int x :: 16 word)"

definition digits :: string where
  "digits = ''0123456789abcdef0123456789ABCDEF''"

text \<open>The base is 8, 10 or 16; a base below 2, with which the loop would not end, does not occur.\<close>

fun out_digits :: "nat \<Rightarrow> nat \<Rightarrow> nat \<Rightarrow> string" where
  "out_digits base caps val =
     (if base < 2 \<or> val < base then [digits ! (val + caps)]
      else out_digits base caps (val div base) @ [digits ! (val mod base + caps)])"

declare out_digits.simps [simp del]

definition outint :: "UW \<Rightarrow> 8 word \<Rightarrow> string" where
  "outint val base = out_digits (unat (base AND 0x3F)) (unat (drop_bit 2 (base AND 0x40))) (unat val)"

section \<open>Format specifications\<close>

datatype varg = VInt UW | VStr string

record flags =
  F_LEFT :: bool
  F_PLUS :: bool
  F_SPACE :: bool
  F_PREFIX :: bool
  F_ZERO :: bool

definition no_flags :: flags where
  "no_flags = \<lparr>F_LEFT = False, F_PLUS = False, F_SPACE = False, F_PREFIX = False, F_ZERO = False\<rparr>"

text \<open>The next character of the format, null at its end.\<close>

fun next_char :: "string \<Rightarrow> char \<times> string" where
  "next_char [] = (CHR 0x00, [])"
| "next_char (c # s) = (c, s)"

fun get_flags :: "string \<Rightarrow> flags \<Rightarrow> flags \<times> char \<times> string" where
  "get_flags [] flg = (flg, CHR 0x00, [])"
| "get_flags (c # s) flg =
     (if c = CHR ''-'' then get_flags s (flg\<lparr>F_LEFT := True\<rparr>)
      else if c = CHR ''+'' then get_flags s (flg\<lparr>F_PLUS := True\<rparr>)
      else if c = CHR '' '' then get_flags s (flg\<lparr>F_SPACE := True\<rparr>)
      else if c = CHR ''#'' then get_flags s (flg\<lparr>F_PREFIX := True\<rparr>)
      else if c = CHR ''0'' then get_flags s (flg\<lparr>F_ZERO := True\<rparr>)
      else (flg, c, s))"

definition is_dec :: "char \<Rightarrow> bool" where
  "is_dec c \<longleftrightarrow> 48 \<le> (of_char c :: nat) \<and> (of_char c :: nat) \<le> 57"

definition dec_digit :: "char \<Rightarrow> int" where
  "dec_digit c = of_char c - 48"

fun get_num :: "int \<Rightarrow> char \<Rightarrow> string \<Rightarrow> int \<times> char \<times> string" where
  "get_num n c [] = (if is_dec c then (H (n * 10 + dec_digit c), CHR 0x00, []) else (n, c, []))"
| "get_num n c (d # s) = (if is_dec c then get_num (H (n * 10 + dec_digit c)) d s else (n, c, d # s))"

fun va_int :: "varg list \<Rightarrow> (UW \<times> varg list) option" where
  "va_int (VInt v # ap) = Some (v, ap)"
| "va_int _ = None"

fun va_str :: "varg list \<Rightarrow> (string \<times> varg list) option" where
  "va_str (VStr p # ap) = Some (p, ap)"
| "va_str _ = None"

definition get_wid :: "flags \<Rightarrow> char \<Rightarrow> string \<Rightarrow> varg list \<Rightarrow> (int \<times> flags \<times> char \<times> string \<times> varg list) option" where
  "get_wid flg c fmt ap =
     (if c = CHR ''*'' then
        (case va_int ap of
           None \<Rightarrow> None
         | Some (v, ap1) \<Rightarrow>
             let wid = H (sint v); (c1, fmt1) = next_char fmt
             in if wid < 0 then Some (H (- wid), flg\<lparr>F_LEFT := True\<rparr>, c1, fmt1, ap1) else Some (wid, flg, c1, fmt1, ap1))
      else let (wid, c1, fmt1) = get_num 0 c fmt in Some (wid, flg, c1, fmt1, ap))"

definition get_prec :: "flags \<Rightarrow> char \<Rightarrow> string \<Rightarrow> varg list \<Rightarrow> (int \<times> flags \<times> char \<times> string \<times> varg list) option" where
  "get_prec flg c fmt ap =
     (if c \<noteq> CHR ''.'' then Some (-1, flg, c, fmt, ap)
      else
        let (c1, fmt1) = next_char fmt; flg1 = flg\<lparr>F_ZERO := False\<rparr>
        in if c1 = CHR ''*'' then
             (case va_int ap of
                None \<Rightarrow> None
              | Some (v, ap1) \<Rightarrow>
                  let prec = H (sint v); (c2, fmt2) = next_char fmt1
                  in Some (if prec < 0 then 0 else prec, flg1, c2, fmt2, ap1))
           else let (prec, c2, fmt2) = get_num 0 c1 fmt1 in Some (prec, flg1, c2, fmt2, ap))"

definition get_qual :: "char \<Rightarrow> string \<Rightarrow> char \<times> char \<times> string" where
  "get_qual c fmt = (if c = CHR ''h'' \<or> c = CHR ''l'' then (c, next_char fmt) else (CHR 0x00, c, fmt))"

record spec =
  sp_flg :: flags
  sp_wid :: int
  sp_prec :: int
  sp_qual :: char

definition get_spec :: "string \<Rightarrow> varg list \<Rightarrow> (spec \<times> char \<times> string \<times> varg list) option" where
  "get_spec fmt ap =
     (let (flg, c, fmt1) = get_flags fmt no_flags
      in case get_wid flg c fmt1 ap of
           None \<Rightarrow> None
         | Some (wid, flg1, c1, fmt2, ap1) \<Rightarrow>
             (case get_prec flg1 c1 fmt2 ap1 of
                None \<Rightarrow> None
              | Some (prec, flg2, c2, fmt3, ap2) \<Rightarrow>
                  let (qual, c3, fmt4) = get_qual c2 fmt3
                  in Some (\<lparr>sp_flg = flg2, sp_wid = wid, sp_prec = prec, sp_qual = qual\<rparr>, c3, fmt4, ap2)))"

section \<open>Items\<close>

text \<open>An item: its sign, base with the marks for prefix and capitals, width and precision that are left, and its characters.\<close>

record item =
  it_sign :: string
  it_base :: "8 word"
  it_wid :: int
  it_prec :: int
  it_chars :: string

text \<open>
  The sign and the absolute value of a signed number. For the least number the source negates a signed minimum, which
  C leaves undefined; it is modelled as the wrap-around of 32 bits that the compiler's code gives.
\<close>

definition signed_value :: "flags \<Rightarrow> int \<Rightarrow> UW \<Rightarrow> UW \<times> string \<times> int" where
  "signed_value flg wid v =
     (if sint v < 0 then (- v, ''-'', H (wid - 1))
      else if F_PLUS flg then (v, ''+'', H (wid - 1))
      else if F_SPACE flg then (v, '' '', H (wid - 1))
      else (v, [], wid))"

definition item_int :: "spec \<Rightarrow> char \<Rightarrow> UW \<Rightarrow> item" where
  "item_int sp c w =
     (let signed = (c = CHR ''i'' \<or> c = CHR ''d'');
          v0 = (if sp_qual sp = CHR ''h'' then if signed then scast (ucast w :: 16 word) else ucast (ucast w :: 16 word) else w);
          (v, sign, wid) = (if signed then signed_value (sp_flg sp) (sp_wid sp) v0 else (v0, [], sp_wid sp));
          base = (if c = CHR ''X'' then 10 + 0x40 + 8 - 2 else if c = CHR ''x'' then 10 + 8 - 2 else if c = CHR ''o'' then 10 - 2 else 10);
          prefix = ((c = CHR ''X'' \<or> c = CHR ''x'' \<or> c = CHR ''o'') \<and> F_PREFIX (sp_flg sp) \<and> v \<noteq> 0);
          base1 = (if prefix then base OR 0x80 else base)
      in \<lparr>it_sign = sign, it_base = base1, it_wid = (if prefix then H (wid - (if base = 8 then 1 else 2)) else wid),
          it_prec = sp_prec sp, it_chars = (if v = 0 \<and> sp_prec sp = 0 then [] else outint v base1)\<rparr>)"

definition item_ptr :: "spec \<Rightarrow> UW \<Rightarrow> item" where
  "item_ptr sp v =
     (let base = (if v \<noteq> 0 then 16 OR 0x80 else 10)
      in \<lparr>it_sign = [], it_base = base, it_wid = (if v \<noteq> 0 then H (sp_wid sp - 2) else sp_wid sp), it_prec = sp_prec sp,
          it_chars = outint v base\<rparr>)"

text \<open>The precision counts down with the characters; the loop ends at the end of the string or when it is used up.\<close>

definition item_str :: "spec \<Rightarrow> string \<Rightarrow> item" where
  "item_str sp p =
     (let prec = sp_prec sp
      in \<lparr>it_sign = [], it_base = 10, it_wid = sp_wid sp,
          it_prec = (if prec < 0 then prec else if int (length p) < prec then prec - int (length p) - 1 else -1),
          it_chars = (if prec < 0 then p else take (nat prec) p)\<rparr>)"

definition item_char :: "spec \<Rightarrow> UW \<Rightarrow> item" where
  "item_char sp v = \<lparr>it_sign = [], it_base = 10, it_wid = sp_wid sp, it_prec = 0, it_chars = [char_of (unat (ucast v :: 8 word))]\<rparr>"

text \<open>The loop \<^verbatim>\<open>while (--w >= 0)\<close> on a variable of type \<^verbatim>\<open>H\<close>: how often it runs, and what is left of the variable.\<close>

definition pad :: "int \<Rightarrow> nat" where
  "pad w = (if w = -32768 then 32768 else nat w)"

definition after_pad :: "int \<Rightarrow> int" where
  "after_pad w = (if w \<ge> 0 \<or> w = -32768 then -1 else w - 1)"

text \<open>The strings that are passed to the output function, one after the other.\<close>

definition out_item :: "flags \<Rightarrow> item \<Rightarrow> string list" where
  "out_item flg it =
     (let n = H (int (length (it_chars it))); prec = H (it_prec it - n); n1 = (if prec > 0 then H (n + prec) else n);
          wid = H (it_wid it - n1);
          lead = (\<not> F_LEFT flg \<and> \<not> F_ZERO flg);
          wid1 = (if lead then after_pad wid else wid);
          zero = (prec \<le> 0 \<and> \<not> F_LEFT flg \<and> F_ZERO flg);
          (zeros, wid2) = (if zero then (wid1, 0) else (prec, wid1))
      in (if lead then replicate (pad wid) '' '' else []) @
         (if it_sign it \<noteq> [] then [it_sign it] else []) @
         (if it_base it AND 0x80 \<noteq> 0 then
            ''0'' # (if it_base it AND 0x10 \<noteq> 0 then [if it_base it AND 0x40 \<noteq> 0 then ''X'' else ''x''] else []) else []) @
         replicate (pad zeros) ''0'' @ [it_chars it] @ replicate (pad wid2) '' '')"

section \<open>The loop over the format\<close>

datatype conversion = Item item "varg list" | Fixed | End | Undefined

definition convert :: "spec \<Rightarrow> char \<Rightarrow> varg list \<Rightarrow> conversion" where
  "convert sp c ap =
     (if c \<in> {CHR ''i'', CHR ''d'', CHR ''u'', CHR ''X'', CHR ''x'', CHR ''o''} then
        (case va_int ap of None \<Rightarrow> Undefined | Some (v, ap1) \<Rightarrow> Item (item_int sp c v) ap1)
      else if c = CHR ''p'' then (case va_int ap of None \<Rightarrow> Undefined | Some (v, ap1) \<Rightarrow> Item (item_ptr sp v) ap1)
      else if c = CHR ''s'' then (case va_str ap of None \<Rightarrow> Undefined | Some (p, ap1) \<Rightarrow> Item (item_str sp p) ap1)
      else if c = CHR ''c'' then (case va_int ap of None \<Rightarrow> Undefined | Some (v, ap1) \<Rightarrow> Item (item_char sp v) ap1)
      else if c = CHR 0x00 then End else Fixed)"

lemma next_char_length: "next_char s = (c, t) \<Longrightarrow> length t \<le> length s"
  by (cases s) auto

lemma get_flags_length: "get_flags s f = (g, c, t) \<Longrightarrow> length t \<le> length s"
  by (induction s f rule: get_flags.induct) (auto split: if_splits)

lemma get_num_length: "get_num n c s = (m, d, t) \<Longrightarrow> length t \<le> length s"
  by (induction n c s rule: get_num.induct) (auto split: if_splits)

lemma get_spec_length:
  assumes "get_spec s ap = Some (sp, c, t, ap')" shows "length t \<le> length s"
proof -
  obtain f c1 s1 where 1: "get_flags s no_flags = (f, c1, s1)" by (metis prod_cases3)
  obtain w f1 c2 s2 ap1 where 2: "get_wid f c1 s1 ap = Some (w, f1, c2, s2, ap1)"
    using assms 1 by (auto simp: get_spec_def split: option.splits)
  obtain p f2 c3 s3 ap2 where 3: "get_prec f1 c2 s2 ap1 = Some (p, f2, c3, s3, ap2)"
    using assms 1 2 by (auto simp: get_spec_def split: option.splits)
  have l: "length s1 \<le> length s" using get_flags_length[OF 1] .
  have m: "length s2 \<le> length s1" using 2
    by (auto simp: get_wid_def Let_def dest: next_char_length get_num_length split: if_splits option.splits prod.splits)
  have n: "length s3 \<le> length s2" using 3
    by (force simp: get_prec_def Let_def dest!: next_char_length get_num_length split: if_splits option.splits prod.splits)
  have "length t \<le> length s3" using assms 1 2 3
    by (auto simp: get_spec_def get_qual_def dest: next_char_length split: if_splits prod.splits)
  then show ?thesis using l m n by simp
qed

text \<open>\<open>fms\<close> is the fixed string that has been passed over and not been written yet.\<close>

function vsprintf_loop :: "string \<Rightarrow> string \<Rightarrow> varg list \<Rightarrow> string list option" where
  "vsprintf_loop fms [] ap = Some (if fms = [] then [] else [fms])"
| "vsprintf_loop fms (c # fmt) ap =
     (if c \<noteq> CHR ''%'' then vsprintf_loop (fms @ [c]) fmt ap
      else
        case get_spec fmt ap of
          None \<Rightarrow> None
        | Some (sp, c1, fmt1, ap1) \<Rightarrow>
            map_option (\<lambda>out. (if fms = [] then [] else [fms]) @ out)
              (case convert sp c1 ap1 of
                 Undefined \<Rightarrow> None
               | End \<Rightarrow> Some []
               | Fixed \<Rightarrow> vsprintf_loop [c1] fmt1 ap1
               | Item it ap2 \<Rightarrow> map_option (\<lambda>out. out_item (sp_flg sp) it @ out) (vsprintf_loop [] fmt1 ap2)))"
  by pat_completeness auto
termination
  by (relation "measure (\<lambda>(a, b, c). length b)") (auto dest: get_spec_length)

definition tm_vsprintf :: "string \<Rightarrow> varg list \<Rightarrow> string list option" where
  "tm_vsprintf fmt ap = vsprintf_loop [] fmt ap"

section \<open>Output\<close>

definition out_cons :: "string \<Rightarrow> int \<times> console \<Rightarrow> int \<times> console" where
  "out_cons str par = (H (fst par + int (length str)), fold tm_putchar str (snd par))"

definition tm_printf :: "string \<Rightarrow> varg list \<Rightarrow> console \<Rightarrow> (int \<times> console) option" where
  "tm_printf format ap k = map_option (\<lambda>out. fold out_cons out (0, k)) (tm_vsprintf format ap)"

fun store :: "addr \<Rightarrow> string \<Rightarrow> (addr \<Rightarrow> char) \<Rightarrow> (addr \<Rightarrow> char)" where
  "store a [] m = m"
| "store a (c # s) m = store (a + 1) s (m(a := c))"

record OutPar =
  op_len :: int
  op_bufp :: addr

definition out_buf :: "string \<Rightarrow> OutPar \<times> (addr \<Rightarrow> char) \<Rightarrow> OutPar \<times> (addr \<Rightarrow> char)" where
  "out_buf str pm =
     (let (par, m) = pm
      in (par\<lparr>op_len := H (op_len par + int (length str)), op_bufp := op_bufp par + length str\<rparr>, store (op_bufp par) str m))"

definition tm_sprintf :: "addr \<Rightarrow> string \<Rightarrow> varg list \<Rightarrow> (addr \<Rightarrow> char) \<Rightarrow> (int \<times> (addr \<Rightarrow> char)) option" where
  "tm_sprintf str format ap m =
     map_option (\<lambda>out. let (par, m1) = fold out_buf out (\<lparr>op_len = 0, op_bufp = str\<rparr>, m)
        in (op_len par, m1(nat (int str + op_len par) := CHR 0x00))) (tm_vsprintf format ap)"

end
