(* ===== verification/Tmonitor_Properties.thy ===== *)
theory Tmonitor_Properties
  imports Tmonitor
begin

text \<open>
  What the monitor library guarantees: numbers are written so that reading them gives the number back, and fit
  the buffer on the stack; the two output calls write the same text; a line is read up to its end.
\<close>

section \<open>Numbers\<close>

lemma H_id [simp]: "-32768 \<le> x \<Longrightarrow> x \<le> 32767 \<Longrightarrow> H x = x"
  unfolding H_def by (simp add: sint_sbintrunc' signed_take_bit_int_eq_self)

definition digit_val :: "char \<Rightarrow> nat" where
  "digit_val c = (let n = of_char c in if n \<le> 57 then n - 48 else if n \<le> 70 then n - 55 else n - 87)"

definition num_value :: "nat \<Rightarrow> string \<Rightarrow> nat" where
  "num_value b s = foldl (\<lambda>n c. n * b + digit_val c) 0 s"

lemma digit_val_digits:
  assumes "k < 16" "caps \<in> {0, 16}" shows "digit_val (digits ! (k + caps)) = k"
proof -
  have "k \<in> {0, 1, 2, 3, 4, 5, 6, 7, 8, 9, 10, 11, 12, 13, 14, 15}" using assms(1) by (simp, presburger)
  then show ?thesis using assms(2) by (auto simp: digits_def digit_val_def)
qed

lemma out_digits_value:
  assumes "2 \<le> b" "b \<le> 16" "caps \<in> {0, 16}" shows "num_value b (out_digits b caps v) = v"
  using assms
proof (induction b caps v rule: out_digits.induct)
  case (1 b caps v)
  show ?case
  proof (cases "v < b")
    case True
    then show ?thesis using 1(2-4) digit_val_digits[of v caps] by (subst out_digits.simps) (simp add: num_value_def)
  next
    case False
    have "v mod b < 16" using 1(2,3) mod_less_divisor[of b v] by linarith
    then have "digit_val (digits ! (v mod b + caps)) = v mod b" using 1(4) by (rule digit_val_digits)
    moreover have "num_value b (out_digits b caps (v div b)) = v div b" using 1 False by simp
    ultimately show ?thesis using False 1(2) by (subst out_digits.simps) (simp add: num_value_def)
  qed
qed

lemma out_digits_length:
  assumes "2 \<le> b" "v < b ^ n" "1 \<le> n" shows "length (out_digits b caps v) \<le> n"
  using assms
proof (induction n arbitrary: v)
  case (Suc n)
  show ?case
  proof (cases "v < b")
    case True
    then show ?thesis by (subst out_digits.simps) simp
  next
    case False
    have "n \<noteq> 0" using False Suc.prems(2) by (cases n) auto
    moreover have "v div b < b ^ n" using Suc.prems(1,2) by (simp add: less_mult_imp_div_less mult.commute)
    ultimately have "length (out_digits b caps (v div b)) \<le> n" using Suc.IH Suc.prems(1) by simp
    then show ?thesis using False Suc.prems(1) by (subst out_digits.simps) simp
  qed
qed simp

definition MAX_DIGITS :: nat where "MAX_DIGITS = 14"

lemma uint_length:
  assumes "8 \<le> b" shows "length (out_digits b caps (unat (v :: UW))) \<le> 11"
proof (rule out_digits_length)
  have "unat v < 2 ^ 32" using unsigned_less[of v] by simp
  also have "(2 :: nat) ^ 32 \<le> 8 ^ 11" by simp
  also have "\<dots> \<le> b ^ 11" by (rule power_mono[OF assms]) simp
  finally show "unat v < b ^ 11" .
qed (use assms in auto)

text \<open>
  The digits of an unsigned number in one of the bases of the conversions, with or without the marks for capitals and
  prefix, have the number as their value and fit the buffer that \<^verbatim>\<open>tm_vsprintf\<close> has for them.
\<close>

lemma printed_digits_fit:
  assumes "base \<in> {8, 10, 0x10, 0x50, 0x88, 0x90, 0xD0}"
  shows "num_value (unat (base AND 0x3F)) (outint v base) = unat v \<and> length (outint v base) \<le> MAX_DIGITS"
proof -
  have b: "unat (base AND 0x3F) \<in> {8, 10, 16}" "unat (drop_bit 2 (base AND 0x40)) \<in> {0, 16}" using assms by auto
  then have "2 \<le> unat (base AND 0x3F)" "unat (base AND 0x3F) \<le> 16" "8 \<le> unat (base AND 0x3F)" by auto
  then show ?thesis using out_digits_value[OF _ _ b(2)] uint_length[of "unat (base AND 0x3F)"]
    by (simp add: outint_def MAX_DIGITS_def order_trans[of _ 11 14])
qed

section \<open>Fields\<close>

definition read_dec :: "string \<Rightarrow> int" where
  "read_dec s = (if s \<noteq> [] \<and> hd s = CHR ''-'' then - int (num_value 10 (tl s)) else int (num_value 10 s))"

definition dec :: "UW \<Rightarrow> string" where
  "dec v = (if sint v < 0 then CHR ''-'' # outint (- v) 10 else outint v 10)"

lemma outint_10: "outint v 10 = out_digits 10 0 (unat v)"
  by (simp add: outint_def)

lemma out_digits_chars:
  assumes "2 \<le> b" "b \<le> 16" shows "set (out_digits b 0 v) \<subseteq> set digits" "out_digits b 0 v \<noteq> []"
proof -
  have n: "digits ! k \<in> set digits" if "k < 16" for k using that by (intro nth_mem) (simp add: digits_def)
  show "set (out_digits b 0 v) \<subseteq> set digits" using assms
  proof (induction b "0 :: nat" v rule: out_digits.induct)
    case (1 b v)
    have "v mod b < 16" using 1(2,3) mod_less_divisor[of b v] by linarith
    then show ?case using 1 n by (subst out_digits.simps) auto
  qed
  show "out_digits b 0 v \<noteq> []" by (subst out_digits.simps) simp
qed

lemma read_dec_dec: "read_dec (dec v) = sint v"
proof (cases "sint v < 0")
  case True
  have "uint v = sint v mod 2 ^ 32" using uint_word_of_int[of "sint v", where ?'a = 32] by simp
  moreover have lo: "- (2 ^ 31) \<le> sint v" using sint_greater_eq[of v] by simp
  moreover have "(sint v + 2 ^ 32) mod 2 ^ 32 = sint v mod 2 ^ 32" by simp
  ultimately have "uint v = sint v + 2 ^ 32" using True mod_pos_pos_trivial[of "sint v + 2 ^ 32" "2 ^ 32"] by simp
  then have "int (unat (- v)) = - sint v" using True lo mod_pos_pos_trivial[of "- sint v" "2 ^ 32"] by (simp add: unat_eq_nat_uint uint_word_ariths)
  then show ?thesis using True out_digits_value[of 10 0 "unat (- v)"] by (simp add: read_dec_def dec_def outint_10)
next
  case False
  have "hd (out_digits 10 0 (unat v)) \<in> set digits" 
    using out_digits_chars[of 10 "unat v"] hd_in_set[of "out_digits 10 0 (unat v)"] by auto
  then have "hd (out_digits 10 0 (unat v)) \<noteq> CHR ''-''" by (auto simp: digits_def)
  moreover have "sint v < 2 ^ 31" using sint_less[of v] by simp
  then have "int (unat v) = sint v"
    using uint_word_of_int[of "sint v", where ?'a = 32] mod_pos_pos_trivial[of "sint v" "2 ^ 32"] False by simp
  ultimately show ?thesis using False out_digits_value[of 10 0 "unat v"] by (simp add: read_dec_def dec_def outint_10)
qed

lemma outint_10_length: "1 \<le> length (outint v 10)" "length (outint v 10) \<le> 11"
  using uint_length[of 10 0 v] out_digits_chars(2)[of 10 "unat v"] by (simp_all add: outint_10 Suc_le_eq)

text \<open>The conversions \<^verbatim>\<open>%*d\<close> and \<^verbatim>\<open>%.*s\<close> at the end of a format.\<close>

lemma vsprintf_star_d:
  assumes "0 \<le> sint w" "sint w \<le> 32767"
  shows "tm_vsprintf ''%*d'' [VInt w, VInt v] =
    Some (out_item no_flags (item_int \<lparr>sp_flg = no_flags, sp_wid = sint w, sp_prec = -1, sp_qual = CHR 0x00\<rparr> CHR ''d'' v))"
  using assms by (simp add: tm_vsprintf_def get_spec_def get_wid_def get_prec_def get_qual_def convert_def Let_def)

lemma vsprintf_prec_s:
  assumes "0 \<le> sint p" "sint p \<le> 32767"
  shows "tm_vsprintf ''%.*s'' [VInt p, VStr st] =
    Some (out_item no_flags (item_str \<lparr>sp_flg = no_flags, sp_wid = 0, sp_prec = sint p, sp_qual = CHR 0x00\<rparr> st))"
proof -
  have f: "no_flags\<lparr>F_ZERO := False\<rparr> = no_flags" by (simp add: no_flags_def)
  show ?thesis using assms
    by (simp add: tm_vsprintf_def get_spec_def get_wid_def get_prec_def get_qual_def convert_def Let_def is_dec_def f)
qed

lemma pad_neg: "-32768 < x \<Longrightarrow> x \<le> 0 \<Longrightarrow> pad x = 0"
  by (simp add: pad_def)

lemma pad_after: "-32767 < x \<Longrightarrow> pad (after_pad x) = 0"
  by (simp add: pad_def after_pad_def)

lemma no_flags_simps [simp]:
  "\<not> F_LEFT no_flags" "\<not> F_PLUS no_flags" "\<not> F_SPACE no_flags" "\<not> F_PREFIX no_flags" "\<not> F_ZERO no_flags"
  by (simp_all add: no_flags_def)

lemma concat_replicate_1: "concat (replicate n [c]) = replicate n c"
  by (induction n) simp_all

lemma item_d:
  "item_int \<lparr>sp_flg = no_flags, sp_wid = wd, sp_prec = -1, sp_qual = CHR 0x00\<rparr> CHR ''d'' v =
    \<lparr>it_sign = (if sint v < 0 then ''-'' else []), it_base = 10, it_wid = (if sint v < 0 then H (wd - 1) else wd), it_prec = -1,
     it_chars = outint (if sint v < 0 then - v else v) 10\<rparr>"
  by (simp add: item_int_def signed_value_def Let_def)

text \<open>
  C35. A signed number in a field of a given width is written right-aligned, in full even if the field is too small, and
  reading the text gives the number back; this includes the least number.
\<close>

theorem printed_decimal_round_trip:
  assumes "0 \<le> sint w" "sint w \<le> 32767"
  shows "map_option concat (tm_vsprintf ''%*d'' [VInt w, VInt v]) = Some (replicate (nat (sint w) - length (dec v)) CHR '' '' @ dec v) \<and>
    read_dec (dec v) = sint v"
proof -
  let ?u = "if sint v < 0 then - v else v" and ?sg = "if sint v < 0 then ''-'' else []"
  let ?n = "int (length (outint ?u 10))" and ?wd = "if sint v < 0 then sint w - 1 else sint w"
  have n: "1 \<le> ?n" "?n \<le> 11" using outint_10_length[of ?u] by simp_all
  have wd: "(if sint v < 0 then H (sint w - 1) else sint w) = ?wd" using assms by simp
  have h: "H ?n = ?n" "H (-1 - ?n) = -1 - ?n" "H (?wd - ?n) = ?wd - ?n" using n assms by (simp_all split: if_splits)
  have o: "out_item no_flags \<lparr>it_sign = ?sg, it_base = 10, it_wid = ?wd, it_prec = -1, it_chars = outint ?u 10\<rparr> =
      replicate (pad (?wd - ?n)) '' '' @ (if ?sg \<noteq> [] then [?sg] else []) @ replicate (pad (-1 - ?n)) ''0'' @ [outint ?u 10] @
      replicate (pad (after_pad (?wd - ?n))) '' ''"
    using n unfolding out_item_def Let_def item.simps h by (simp add: h)
  have r: "-32767 < ?wd - ?n" "-32768 < -1 - ?n" "-1 - ?n \<le> 0" using n assms by (simp_all split: if_splits)
  have l: "?wd - ?n = sint w - int (length (dec v))" by (simp add: dec_def)
  have "pad (?wd - ?n) = nat (sint w - int (length (dec v)))" using r(1) unfolding l by (simp add: pad_def)
  then have q: "pad (?wd - ?n) = nat (sint w) - length (dec v)" by (simp add: nat_diff_distrib')
  note p = pad_neg[OF r(2,3)] pad_after[OF r(1)] q
  have "concat (out_item no_flags \<lparr>it_sign = ?sg, it_base = 10, it_wid = ?wd, it_prec = -1, it_chars = outint ?u 10\<rparr>) =
      replicate (nat (sint w) - length (dec v)) CHR '' '' @ dec v"
    unfolding o p by (simp add: concat_replicate_1 dec_def)
  then show ?thesis unfolding vsprintf_star_d[OF assms] item_d wd by (simp add: read_dec_dec)
qed

theorem printed_decimal_round_trip_witness:
  "map_option concat (tm_vsprintf ''%*d'' [VInt 6, VInt 0x80000000]) = Some (replicate (nat (sint (6 :: UW)) - length (dec 0x80000000)) CHR '' '' @ dec 0x80000000) \<and>
    read_dec (dec 0x80000000) = sint (0x80000000 :: UW)"
  by (rule printed_decimal_round_trip) simp_all

section \<open>Precision of strings\<close>

text \<open>
  C39. The precision of a string is wrongly taken for that of a number once it is large: with a precision of
  at least twice the length of the string and two more, \<^verbatim>\<open>%.*s\<close> writes zeros in front of the string.
\<close>

theorem string_precision_writes_zeros:
  assumes "2 * int (length st) + 2 \<le> sint p" "sint p \<le> 32767"
  shows "map_option concat (tm_vsprintf ''%.*s'' [VInt p, VStr st]) = Some (replicate (nat (sint p) - 2 * length st - 1) CHR ''0'' @ st)"
proof -
  define n z where "n = int (length st)" and "z = sint p - 2 * int (length st) - 1"
  let ?it = "\<lparr>it_sign = [], it_base = 10, it_wid = 0, it_prec = z + n, it_chars = st\<rparr>"
  have b: "0 \<le> n" "0 < z" "n + z \<le> 32766" using assms by (simp_all add: n_def z_def)
  have i: "item_str \<lparr>sp_flg = no_flags, sp_wid = 0, sp_prec = sint p, sp_qual = CHR 0x00\<rparr> st = ?it"
    using assms by (simp add: item_str_def n_def z_def)
  have h: "H n = n" "H z = z" "H (n + z) = n + z" "H (- (n + z)) = - (n + z)" "z + n - n = z" "0 - (n + z) = - (n + z)" "(0 < z) = True"
    using b by simp_all
  have o: "out_item no_flags ?it = replicate (pad (- (n + z))) '' '' @ replicate (pad z) ''0'' @ [st] @ replicate (pad (after_pad (- (n + z)))) '' ''"
    unfolding out_item_def Let_def item.simps n_def[symmetric] h if_True using b(2) by simp
  have r: "-32768 < - (n + z)" "- (n + z) \<le> 0" "-32767 < - (n + z)" using b by simp_all
  have z: "pad z = nat (sint p) - 2 * length st - 1" using b(2) by (simp add: pad_def z_def nat_diff_distrib')
  have "concat (out_item no_flags ?it) = replicate (nat (sint p) - 2 * length st - 1) CHR ''0'' @ st"
    unfolding o pad_neg[OF r(1,2)] pad_after[OF r(3)] z by (simp add: concat_replicate_1)
  then show ?thesis using vsprintf_prec_s[of p st] assms unfolding i by simp
qed

theorem string_precision_writes_zeros_witness:
  "map_option concat (tm_vsprintf ''%.*s'' [VInt 10, VStr ''abc'']) = Some (replicate (nat (sint (10 :: UW)) - 2 * length ''abc'' - 1) CHR ''0'' @ ''abc'')"
  by (rule string_precision_writes_zeros) simp_all

section \<open>The output calls\<close>

definition crlf :: "string \<Rightarrow> string" where
  "crlf s = concat (map (\<lambda>c. if c = CHR_LF then [CHR_CR, c] else [c]) s)"

lemma putchars: "fold tm_putchar s k = k\<lparr>con_out := con_out k @ crlf s\<rparr>"
  by (induction s arbitrary: k) (simp_all add: tm_putchar_def tm_snd_dat_def crlf_def)

lemma crlf_append: "crlf (s @ t) = crlf s @ crlf t"
  by (simp add: crlf_def)

lemma out_cons_all:
  assumes "0 \<le> n" "n + int (length (concat out)) \<le> 32767"
  shows "fold out_cons out (n, k) = (n + int (length (concat out)), k\<lparr>con_out := con_out k @ crlf (concat out)\<rparr>)"
  using assms
proof (induction out arbitrary: n k)
  case (Cons s out)
  then show ?case by (simp add: out_cons_def putchars crlf_append algebra_simps)
qed (simp add: crlf_def)

lemma store_append: "store a (s @ t) m = store (a + length s) t (store a s m)"
  by (induction s arbitrary: a m) simp_all

lemma out_buf_all:
  assumes "0 \<le> op_len par" "op_len par + int (length (concat out)) \<le> 32767"
  shows "fold out_buf out (par, m) = (\<lparr>op_len = op_len par + int (length (concat out)), op_bufp = op_bufp par + length (concat out)\<rparr>,
    store (op_bufp par) (concat out) m)"
  using assms
proof (induction out arbitrary: par m)
  case (Cons s out)
  then show ?case by (simp add: out_buf_def store_append algebra_simps)
qed simp

text \<open>
  C34. The two output calls agree: for a format and arguments whose text has at most 32767 characters, both return its
  length; \<^verbatim>\<open>tm_sprintf\<close> stores the text and a null after it, \<^verbatim>\<open>tm_printf\<close> sends it with a carriage return before
  every line feed, and nothing else is written.
\<close>

theorem output_calls_agree:
  assumes "tm_vsprintf format ap = Some out" "length (concat out) \<le> 32767"
  shows "tm_sprintf str format ap m = Some (int (length (concat out)), store str (concat out @ [CHR 0x00]) m) \<and>
    tm_printf format ap k = Some (int (length (concat out)), k\<lparr>con_out := con_out k @ crlf (concat out)\<rparr>)"
proof -
  have l: "0 + int (length (concat out)) \<le> 32767" using assms(2) by simp
  have "fold out_buf out (\<lparr>op_len = 0, op_bufp = str\<rparr>, m) =
      (\<lparr>op_len = int (length (concat out)), op_bufp = str + length (concat out)\<rparr>, store str (concat out) m)"
    using out_buf_all[of "\<lparr>op_len = 0, op_bufp = str\<rparr>" out m] l by simp
  moreover have "nat (int str + int (length (concat out))) = str + length (concat out)" by simp
  ultimately have "tm_sprintf str format ap m = Some (int (length (concat out)), store str (concat out @ [CHR 0x00]) m)"
    by (simp add: tm_sprintf_def assms(1) store_append)
  moreover have "tm_printf format ap k = Some (int (length (concat out)), k\<lparr>con_out := con_out k @ crlf (concat out)\<rparr>)"
    using out_cons_all[OF order.refl l, of k] by (simp add: tm_printf_def assms(1))
  ultimately show ?thesis ..
qed

theorem output_calls_agree_witness:
  "let out = [''n='', ''7'', ''!''] in tm_vsprintf ''n=%*d!'' [VInt 1, VInt 7] = Some out \<and>
    tm_sprintf 100 ''n=%*d!'' [VInt 1, VInt 7] (\<lambda>_. CHR 0x00) = Some (int (length (concat out)), store 100 (concat out @ [CHR 0x00]) (\<lambda>_. CHR 0x00)) \<and>
    tm_printf ''n=%*d!'' [VInt 1, VInt 7] \<lparr>con_in = [], con_out = []\<rparr> = Some (int (length (concat out)), \<lparr>con_in = [], con_out = []\<rparr>\<lparr>con_out := [] @ crlf (concat out)\<rparr>)"
proof -
  have d: "outint 7 10 = ''7''" by (simp add: outint_10 out_digits.simps digits_def)
  have "tm_vsprintf ''n=%*d!'' [VInt 1, VInt 7] = Some [''n='', ''7'', ''!'']"
    by (simp add: tm_vsprintf_def get_spec_def get_wid_def get_prec_def get_qual_def convert_def Let_def item_d out_item_def d pad_def after_pad_def)
  from output_calls_agree[OF this, of 100 "\<lambda>_. CHR 0x00" "\<lparr>con_in = [], con_out = []\<rparr>"] this show ?thesis unfolding Let_def by simp
qed

section \<open>Reading a line\<close>

lemma getline_reads:
  assumes "set line \<inter> {CHR_CR, CHR_ETX} = {}" "con_in k = line @ CHR_CR # rest"
  shows "getline_loop b k = Some ((int (length (b @ line)), b @ line), k\<lparr>con_in := rest, con_out := con_out k @ line @ [CHR_CR, CHR_LF]\<rparr>)"
  using assms
proof (induction line arbitrary: b k)
  case Nil
  then show ?case by (subst getline_loop.simps) (simp add: tm_rcv_dat_def tm_snd_dat_def)
next
  case (Cons c line)
  have "getline_loop b k = getline_loop (b @ [c]) (k\<lparr>con_in := line @ CHR_CR # rest, con_out := con_out k @ [c]\<rparr>)"
    using Cons.prems by (subst getline_loop.simps) (auto simp: tm_rcv_dat_def tm_snd_dat_def)
  then show ?case using Cons.IH[of "k\<lparr>con_in := line @ CHR_CR # rest, con_out := con_out k @ [c]\<rparr>" "b @ [c]"] Cons.prems by simp
qed

end
