(* ===== verification/Spec2Isabelle.thy ===== *)
theory Spec2Isabelle
  imports Core_Properties Sync_Properties Buffer_Properties Mutex_Properties Task_Properties Time_Properties Timeout Boot Rendezvous_Properties Memory_Properties Shim_Properties Device_Properties Fastlock Tmonitor_Properties
begin

text \<open>
  A verification development for micro T-Kernel 3.0 in its port to the ESP32-C3: the real-time kernel
  under \<^verbatim>\<open>src/kernel\<close>, with the task switch of the port and the FreeRTOS interface on top of it
  (\<^verbatim>\<open>src/components/freertos_shim\<close>). All paths below are relative to \<^verbatim>\<open>src/kernel/tkernel\<close> unless they say otherwise.

  \<^bold>\<open>The program.\<close> The kernel keeps a table of task control blocks and, per kind of object (semaphore, event
  flag, mailbox, message buffer, mutex, fixed-size memory pool, rendezvous port, cyclic handler, alarm handler), a
  table of control blocks with a free list. A task is in one of six states and in at most one queue: the ready queue of its priority,
  the free list, or the wait queue of one object. A call checks its parameters, enters a critical
  section, changes tables and queues, and leaves it through \<^verbatim>\<open>END_CRITICAL_SECTION\<close>, which requests
  a task switch when the scheduled task is no longer the running one. The switch itself happens at the
  end of an interrupt. The timer interrupt advances the clock and runs the events that are due: timeouts
  of waiting tasks and time event handlers. Changing the priority of a task, and ending its wait early, run
  hooks of the object it waits for; those of the mutex change the priorities of further tasks. Calls on pools run
  under a lock that tasks may wait for. Stacks, buffers and pools come from the system memory, a list of
  areas with queues of the free ones. The device manager registers drivers under names and passes opens, closes, requests and events
  of tasks on to them. Components of ESP-IDF use the kernel through an adapter, whose queues,
  semaphores, mutexes, event groups, timers and tasks are handles that refer to objects of the kernel.

  \<^bold>\<open>The model.\<close> The state is a record that grows along the components: \<open>kstate\<close> (tasks, queues, scheduling
  variables, processor context, timer queue), \<open>semstate\<close>, \<open>flgstate\<close>, \<open>mbxstate\<close>, \<open>mbfstate\<close>,
  \<open>mtxstate\<close>, \<open>timstate\<close>, from there \<open>lckstate\<close>, \<open>mpfstate\<close>, \<open>porstate\<close> for the object locks, pools and
  rendezvous ports, \<open>shmstate\<close> for the adapter, and from \<open>semstate\<close> \<open>devstate\<close> for device management; every operation is a function on all extensions of the record it needs, so
  operations of different components compose. A call returns the result \<open>Ret e\<close> or \<open>Blocked\<close>, the latter
  when the caller enters a wait; the result of a blocked call is the cell \<open>wercd\<close> of the caller, set when the
  wait ends. A task is its index in the TCB table. The operations keep the names of the C functions; a
  loop or a branch of a function that has a name of its own here (\<open>sig_sem_loop\<close>, \<open>cre_sem\<close>,
  \<open>pass_mutex\<close>) is called by the function as the code runs it. Bit patterns, times and sizes whose wrap-around
  matters are words; signed integers are unbounded and the invariants bound what is stored.

  \<^bold>\<open>Theories.\<close>
  \<^item> \<open>Prelude\<close>: types, error codes, limits (\<^verbatim>\<open>include/tk\<close>, \<^verbatim>\<open>config/config.h\<close>), generic lemmas.
  \<^item> \<open>Queue_Ring\<close>: the pointer rings of \<^verbatim>\<open>include/sys/queue.h\<close> implement lists. The locale
    \<open>task_queue\<close> is their contract, interpreted on the pointer operations and on the queues of the model.
  \<^item> \<open>Kernel_State\<close>, \<open>Ready_Queue\<close>, \<open>Task\<close>: the shared state and the checks of \<^verbatim>\<open>check.h\<close>, the ready
    queue of \<^verbatim>\<open>ready_queue.h\<close>, the task transitions of \<^verbatim>\<open>task.c\<close> and the kernel's invariant
    \<open>core_inv\<close>.
  \<^item> \<open>Timer\<close>, \<open>Tick\<close>, \<open>Timeout\<close>, \<open>Time_Calls\<close>: \<^verbatim>\<open>timer.c\<close>, its interrupt handler, a timeout from the call that
    sets it to the tick that ends it, and \<^verbatim>\<open>time_calls.c\<close>. Handlers are user code and an argument of the model.
  \<^item> \<open>Wait\<close>, \<open>Wait_Release\<close>: \<^verbatim>\<open>wait.c\<close> and \<^verbatim>\<open>wait.h\<close>; the locale \<open>release_hook\<close> is what a forced release
    needs of an object's hook, interpreted on the hooks of the objects.
  \<^item> \<open>Object_Table\<close>: the locale \<open>object_table\<close> for creation and deletion, interpreted by every object
    manager.
  \<^item> \<open>Semaphore\<close>, \<open>Eventflag\<close>, \<open>Mailbox\<close>, \<open>Mbf_Ring\<close> and \<open>Messagebuf\<close>, \<open>Mutex\<close> with \<open>Mutex_Priority\<close> and
    \<open>Mutex_Calls\<close>: the object managers \<^verbatim>\<open>semaphore.c\<close>, \<^verbatim>\<open>eventflag.c\<close>, \<^verbatim>\<open>mailbox.c\<close>,
    \<^verbatim>\<open>messagebuf.c\<close>, \<^verbatim>\<open>mutex.c\<close>, each with its invariant and its abstract specification.
  \<^item> \<open>Klock\<close>: the object locks of \<^verbatim>\<open>klock.c\<close>; \<open>Mempfix\<close> with \<open>Mempfix_Properties\<close> and \<open>Rendezvous\<close> with
    \<open>Rendezvous_Properties\<close>: \<^verbatim>\<open>mempfix.c\<close> and \<^verbatim>\<open>rendezvous.c\<close>.
  \<^item> \<open>Memory\<close>: the allocator \<^verbatim>\<open>memory.c\<close> with \<^verbatim>\<open>memory.h\<close> and the library calls of \<^verbatim>\<open>src/lib/libtk/kmalloc.c\<close> on a
    store of pointers. \<open>Memory_Areas\<close>, \<open>Memory_Free\<close>, \<open>Memory_Queue\<close>, \<open>Memory_Heap\<close>: its area list, its free queues
    and their operations as lists. \<open>Memory_Properties\<close>: the abstract heap, and the locale \<open>allocator\<close>, the contract
    that users of the memory rely on, interpreted on \<^verbatim>\<open>knl_Imalloc\<close> and \<^verbatim>\<open>knl_Ifree\<close>.
  \<^item> \<open>Task_Sync\<close>, \<open>Task_Manage\<close>: \<^verbatim>\<open>task_sync.c\<close> and \<^verbatim>\<open>task_manage.c\<close>.
  \<^item> \<open>Dispatch\<close>: \<^verbatim>\<open>cpuctl.c\<close> and the task switch of the port (\<^verbatim>\<open>src/kernel/sysdepend/cpu/core/riscv_esp/cpu_cntl.c\<close>,
    \<^verbatim>\<open>src/components/freertos_shim/shim_stubs.c\<close>).
  \<^item> \<open>Tstdlib\<close>: the string and bit functions of \<^verbatim>\<open>src/kernel/tstdlib\<close> on a byte memory.
  \<^item> \<open>Shim\<close>, \<open>Shim_Timer\<close>, \<open>Shim_Task\<close>: the adapter. \<open>Shim\<close> has \<^verbatim>\<open>shim_internal.h\<close> and \<^verbatim>\<open>shim_queue.c\<close>,
    \<open>Shim_Timer\<close> has \<^verbatim>\<open>shim_evtgrp.c\<close> and \<^verbatim>\<open>shim_timer.c\<close>, \<open>Shim_Task\<close> has \<^verbatim>\<open>shim_task.c\<close>, \<^verbatim>\<open>shim_port.c\<close> and
    \<^verbatim>\<open>shim_stubs.c\<close>; the functions that replace those of FreeRTOS have the prefix \<open>wrap_\<close> for \<^verbatim>\<open>__wrap_\<close>. \<open>Shim_Ring\<close>
    is the theory of the ring buffers, with the locale \<open>bounded_fifo\<close>, the contract of a bounded queue.
    \<open>Shim_Properties\<close> has the locale \<open>retry_loop\<close>, the common shape of the blocking calls, interpreted on the four of them.
  \<^item> \<open>Device\<close> with \<open>Device_Properties\<close>: \<^verbatim>\<open>device.c\<close> and \<^verbatim>\<open>deviceio.c\<close>. What runs under the manager's lock is one
    definition each (\<open>opn_begin\<close>, \<open>opn_finish\<close>, \<open>close_section\<close>), the calls are these with the calls of drivers between
    them, and the steps of the manager are these sections in any order. Drivers are an argument.
  \<^item> \<open>Fastlock\<close>: the locks of \<^verbatim>\<open>src/lib/libtk\<close> (\<^verbatim>\<open>fastlock.c\<close>, \<^verbatim>\<open>fastmlock.c\<close>), with the steps of tasks that use one.
  \<^item> \<open>Tmonitor\<close> with \<open>Tmonitor_Properties\<close>: the console and formatted output of \<^verbatim>\<open>src/lib/libtm\<close>.
  \<^item> \<open>Plain_System\<close>, \<open>System_Frames\<close>, \<open>Task_Life\<close>, \<open>System\<close>, \<open>Boot\<close>: the calls on tasks, semaphores, event flags and
    mailboxes, interrupts, switches, ticks and timeouts as one step relation (\<open>sys_step\<close>), its invariant (\<open>sys_inv\<close>), what
    each call keeps of it (creation, deletion, exit, termination and change of priority of tasks in \<open>Task_Life\<close>), and the
    initialisation that establishes it.
  \<^item> \<open>Sample\<close>, \<open>Sample_Objects\<close>: a concrete kernel state on which the theorems are instantiated.

  \<^bold>\<open>What is shown.\<close> \<open>Core_Properties\<close>: the layers below the objects (rings, ready queue, timer queue, deletion of
  wait queues). \<open>Tick\<close> and \<open>Timeout\<close>: the timer interrupt returns and leaves nothing behind that is due; a sleep
  with a timeout ends at its tick, no earlier and no later, also when the 32-bit time wraps around. \<open>Sync_Properties\<close>: semaphores, event flags and
  mailboxes refine abstract allocation, delivery and message queues; no wake-up is lost. \<open>Buffer_Properties\<close>:
  the library, and that message buffers are queues of messages, whatever the wrap-around of the ring.
  \<open>Mutex_Properties\<close>: inheritance and ceilings; every task runs at the priority it is due after lock,
  unlock, change of priority, forced release and timeout. \<open>Task_Properties\<close> and \<open>Time_Properties\<close>: life of a task, clocks,
  cyclic and alarm handlers. \<open>Klock\<close>: a lock is passed on in order. \<open>Mempfix_Properties\<close>: a pool is a set of blocks.
  \<open>Rendezvous_Properties\<close>: a rendezvous carries a message each way and is answered once. \<open>Memory_Properties\<close>: best fit,
  merging, disjointness of what is allocated in every history, contents kept by a change of size; no queue cell that
  is written lies in an allocated area. \<open>Shim_Properties\<close>:
  the adapter's queues are bounded queues, a send or give wakes who waits, blocking calls end, counts stay in their
  bounds, nested critical sections restore the interrupt state. \<open>Device_Properties\<close>: names and numbers of units correspond,
  and opens that exclude each other never coexist, however the sections of the calls interleave. \<open>Fastlock\<close>: a fast lock admits one task, and one more for each wait that was refused or ended by force; while there
  is none of these, no release is lost;
  the loop of the multi-lock ends. \<open>Tmonitor_Properties\<close>: printed numbers read back, both output calls write the same text,
  and where the precision of a string goes wrong. \<open>Dispatch\<close> and \<open>Boot\<close>: the task switched to is ready and of the highest
  priority; the invariants hold after the initialisation and in every state reached from there.

  \<^bold>\<open>Loops.\<close> Loops over queues are structural. The release loop of a message buffer and the search for the top
  priority are total with a measure. Loops that need not end are partial functions whose value \<open>None\<close> is not
  returning: the chain of owners in \<^verbatim>\<open>knl_change_task_priority\<close> (it returns on every finite chain; a cycle
  is a deadlock of the tasks), the walk through a mailbox's priority queue (it returns on every
  well-formed queue), the loop of the timer interrupt (it returns when the handlers put no event into the timer queue), the string and bit
  searches, the searches of the allocator (they return on every well-formed heap), the loops of device management over requests and opens, which depend on the drivers, and the retry loops of the adapter (each
  retry takes one of the notifications that the kernel's semaphore counts). There is no fuel.

  \<^bold>\<open>Not modelled.\<close> Object names (\<^verbatim>\<open>USE_OBJECT_NAME\<close> is off), the debugger's hook routines, the lock of the device manager (its sections are steps instead), variable-size memory pools
  (\<^verbatim>\<open>mempool.c\<close>, a second front end of the allocator), interrupt definition and power control, the
  start-up sequence, the network components, drivers and examples. Of the adapter, the wrappers of the ESP-IDF heap, names
  and constant answers are left out; that heap and the callbacks of timers are arguments. The allocator is an argument of
  the kernel calls that use it (\<open>stack_pool\<close>, the pool memory): it gives an address or null and leaves the state of the
  kernel alone. The contents of allocated areas and the queue cells of the allocator are two memories of the model, one in the
  code; that no write to a cell meets an allocated area is proved. \<^verbatim>\<open>CreateMLock\<close> of the device manager's lock is left
  out with the lock.

  \<^bold>\<open>The step relation.\<close> \<open>sys_step\<close> has every call on tasks, semaphores, event flags and mailboxes that changes state,
  the two dispatching calls, interrupt entry and exit, the advance of the clock and the timeout of a waiting task. It leaves out the
  calls on message buffers, mutexes, pools, rendezvous ports and time event handlers, whose invariants are proved
  call by call. Its conditions: the calling context executes (\<open>run_ok\<close>), the pool of the stacks is as above, and a
  message that is sent is in no mailbox yet (\<open>msg_fresh\<close>; what happens otherwise is part of the theorem on mailboxes).
\<close>

end
